(* ===== verification/OS_Prelude.thy ===== *)
theory OS_Prelude
  imports Complex_Main "HOL-Library.AList" "HOL-Library.Sublist" "HOL-Library.Multiset"
    "HOL-Library.Word" "HOL-Library.Char_ord" "HOL-Library.List_Lexorder"
begin

text \<open>
  Shared vocabulary of the development.

  \<^item> Go's \<^verbatim>\<open>map[K]V\<close> is an association list with distinct keys: the list order is one
    possible iteration order of the map, and every definition that ranges over a map takes the
    list as it is, so a theorem about all lists covers every order the runtime may pick.
    \<open>gget\<close>, \<open>gput\<close> and \<open>gdel\<close> are \<^verbatim>\<open>m[k]\<close>, \<^verbatim>\<open>m[k] = v\<close> and
    \<^verbatim>\<open>delete(m, k)\<close>.
  \<^item> \<^verbatim>\<open>time.Time\<close> and \<^verbatim>\<open>time.Duration\<close> are integers counting nanoseconds.
  \<^item> Go's integer division truncates towards zero (\<open>go_div\<close>).
  \<^item> The locale \<open>bounded_log\<close> is the contract of the rolling histories (newest entry first,
    never longer than a cap); the locale \<open>invariant_machine\<close> is the contract of a component
    whose every operation keeps an invariant, and lifts it to whole runs.
\<close>

named_theorems map_simps "rewriting of association-list maps"

type_synonym gotime = int
type_synonym duration = int

abbreviation seconds :: "int \<Rightarrow> duration" where
  "seconds n \<equiv> n * 1000000000"

abbreviation millis :: "int \<Rightarrow> duration" where
  "millis n \<equiv> n * 1000000"

text \<open>Go's \<^verbatim>\<open>a / b\<close> on signed integers.\<close>

definition go_div :: "int \<Rightarrow> int \<Rightarrow> int" where
  "go_div a b = sgn a * sgn b * (\<bar>a\<bar> div \<bar>b\<bar>)"

lemma go_div_nonneg: "0 \<le> a \<Longrightarrow> 0 < b \<Longrightarrow> go_div a b = a div b"
  by (cases "a = 0") (auto simp: go_div_def sgn_if)

text \<open>Go's \<^verbatim>\<open>int(w)\<close> of a 64-bit word that is small enough.\<close>

lemma sint_small: "unat (w :: 64 word) < 2 ^ 63 \<Longrightarrow> sint w = int (unat w)"
proof -
  assume "unat w < 2 ^ 63"
  then have b: "int (unat w) < 2 ^ 63" by (metis of_nat_less_iff of_nat_numeral of_nat_power)
  have c: "- (2 ^ 63) \<le> int (unat w)" by (rule order_trans [of _ 0]) simp_all
  have "sint w = signed_take_bit 63 (int (unat w))" by (simp add: sint_uint)
  also have "\<dots> = int (unat w)" by (rule signed_take_bit_int_eq_self [OF c b])
  finally show "sint w = int (unat w)" .
qed

subsection \<open>Go maps\<close>

abbreviation gget :: "('k \<times> 'v) list \<Rightarrow> 'k \<Rightarrow> 'v option" where
  "gget m k \<equiv> map_of m k"

abbreviation gput :: "'k \<Rightarrow> 'v \<Rightarrow> ('k \<times> 'v) list \<Rightarrow> ('k \<times> 'v) list" where
  "gput \<equiv> AList.update"

abbreviation gdel :: "'k \<Rightarrow> ('k \<times> 'v) list \<Rightarrow> ('k \<times> 'v) list" where
  "gdel \<equiv> AList.delete"

abbreviation gkeys :: "('k \<times> 'v) list \<Rightarrow> 'k list" where
  "gkeys m \<equiv> map fst m"

declare map_of_eq_Some_iff [simp del] Some_eq_map_of_iff [simp del]

text \<open>A well-formed Go map binds each key once.\<close>

abbreviation gwf :: "('k \<times> 'v) list \<Rightarrow> bool" where
  "gwf m \<equiv> distinct (map fst m)"

lemma gget_gput [map_simps]: "gget (gput k v m) k' = (if k = k' then Some v else gget m k')"
  by (simp add: update_conv')

lemma gget_gdel [map_simps]: "gget (gdel k m) k' = (if k = k' then None else gget m k')"
  by (simp add: delete_conv')

lemma gwf_gput [simp, intro]: "gwf m \<Longrightarrow> gwf (gput k v m)"
  by (rule distinct_update)

lemma gwf_gdel [simp, intro]: "gwf m \<Longrightarrow> gwf (gdel k m)"
  by (rule distinct_delete)

lemma set_gdel: "set (gdel k m) = {x \<in> set m. fst x \<noteq> k}"
  by (auto simp: AList.delete_eq)

lemma set_gput_subset: "set (gput k v m) \<subseteq> insert (k, v) (set m)"
  by (induction m) auto

lemma gput_mem: "x \<in> set (gput k v m) \<Longrightarrow> x = (k, v) \<or> x \<in> set m"
  using set_gput_subset [of k v m] by auto

lemma gwf_mem_gget: "gwf m \<Longrightarrow> (k, v) \<in> set m \<longleftrightarrow> gget m k = Some v"
  by (auto dest: map_of_SomeD)

lemma gwf_all:
  assumes "gwf m"
  shows "(\<forall>x \<in> set m. P (fst x) (snd x)) \<longleftrightarrow> (\<forall>k v. gget m k = Some v \<longrightarrow> P k v)"
proof -
  have "(\<forall>x \<in> set m. P (fst x) (snd x)) \<longleftrightarrow> (\<forall>k v. (k, v) \<in> set m \<longrightarrow> P k v)" by auto
  then show ?thesis by (simp add: gwf_mem_gget [OF assms])
qed

lemma gkeys_gget: "k \<in> set (gkeys m) \<longleftrightarrow> gget m k \<noteq> None"
  by (simp add: map_of_eq_None_iff)

lemma gget_key: "gget m k = Some v \<Longrightarrow> k \<in> set (gkeys m)"
  by (auto dest: map_of_SomeD intro: rev_image_eqI)

lemma gkeys_gput_old: "gget m k = Some w \<Longrightarrow> gkeys (gput k v m) = gkeys m"
  using gkeys_gget [of k m] by (simp add: update_keys)

text \<open>Go's \<^verbatim>\<open>reflect.DeepEqual\<close> on maps: nil and empty differ, otherwise same bindings.\<close>

fun deep_equal_map :: "('k \<times> 'v) list option \<Rightarrow> ('k \<times> 'v) list option \<Rightarrow> bool" where
  "deep_equal_map None None = True"
| "deep_equal_map (Some a) (Some b) =
     list_all (\<lambda>k. map_of a k = map_of b k) (map fst a @ map fst b)"
| "deep_equal_map _ _ = False"

lemma deep_equal_map_Some: "deep_equal_map (Some a) (Some b) \<longleftrightarrow> map_of a = map_of b"
proof
  assume eq: "deep_equal_map (Some a) (Some b)"
  show "map_of a = map_of b"
  proof
    fix k
    show "map_of a k = map_of b k"
    proof (cases "k \<in> fst ` set a \<union> fst ` set b")
      case True
      moreover from eq have "\<forall>k \<in> fst ` set a \<union> fst ` set b. map_of a k = map_of b k"
        by (simp add: list_all_iff)
      ultimately show ?thesis by blast
    next
      case False
      then have "map_of a k = None" "map_of b k = None" by (auto simp: map_of_eq_None_iff)
      then show ?thesis by simp
    qed
  qed
next
  assume "map_of a = map_of b"
  then show "deep_equal_map (Some a) (Some b)" by (simp add: list_all_iff)
qed

lemma deep_equal_map_refl [simp]: "deep_equal_map m m"
  by (cases m) (auto simp: list_all_iff)

lemma deep_equal_map_sym: "deep_equal_map a b = deep_equal_map b a"
  by (cases a; cases b) (simp_all add: deep_equal_map_Some eq_commute del: deep_equal_map.simps(2))

subsection \<open>Bounded rolling histories\<close>

text \<open>
  The code keeps several rolling logs with the same discipline: a push puts the new entry at index
  0 and drops the oldest entry once the cap is reached. A client relies on three facts only.
\<close>

locale bounded_log =
  fixes cap :: nat
    and push :: "'e \<Rightarrow> 'e list \<Rightarrow> 'e list"
  assumes push_newest: "0 < cap \<Longrightarrow> length xs \<le> cap \<Longrightarrow> push e xs = take cap (e # xs)"
    and cap_pos: "0 < cap"
begin

lemma push_bounded: "length xs \<le> cap \<Longrightarrow> length (push e xs) \<le> cap"
  using cap_pos by (simp add: push_newest)

lemma push_head: "length xs \<le> cap \<Longrightarrow> hd (push e xs) = e \<and> push e xs \<noteq> []"
  using cap_pos by (cases cap) (simp_all add: push_newest)

lemma push_tl: "length xs \<le> cap \<Longrightarrow> tl (push e xs) = take (cap - 1) xs"
  using cap_pos by (cases cap) (simp_all add: push_newest)

lemma push_set: "length xs \<le> cap \<Longrightarrow> set (push e xs) \<subseteq> insert e (set xs)"
  using cap_pos by (auto simp: push_newest dest: in_set_takeD)

lemma fold_push: "length xs \<le> cap \<Longrightarrow> fold push es xs = take cap (rev es @ xs)"
proof (induction es arbitrary: xs)
  case Nil
  then show ?case by simp
next
  case (Cons e es)
  have len: "length (push e xs) \<le> cap" using Cons.prems by (rule push_bounded)
  have "take cap (rev es @ take cap (e # xs)) = take cap (rev es @ e # xs)"
    by (simp add: take_Cons' min_def)
  then show ?case
    using Cons.IH [OF len] Cons.prems cap_pos by (simp add: push_newest)
qed

lemma fold_push_bounded: "length xs \<le> cap \<Longrightarrow> length (fold push es xs) \<le> cap"
  by (simp add: fold_push)

end

subsection \<open>Invariants of operation-driven components\<close>

locale invariant_machine =
  fixes exec :: "'op \<Rightarrow> 's \<Rightarrow> 's"
    and inv :: "'s \<Rightarrow> bool"
  assumes exec_inv: "inv s \<Longrightarrow> inv (exec op s)"
begin

lemma run_inv: "inv s \<Longrightarrow> inv (fold exec ops s)"
  by (induction ops arbitrary: s) (auto intro: exec_inv)

lemma run_induct:
  assumes "inv s" and "P s"
    and "\<And>s op. inv s \<Longrightarrow> P s \<Longrightarrow> P (exec op s)"
  shows "P (fold exec ops s)"
  using assms(1,2)
proof (induction ops arbitrary: s)
  case Nil
  then show ?case by simp
next
  case (Cons op ops)
  then show ?case using exec_inv assms(3) by simp
qed

lemma run_mono:
  fixes f :: "'s \<Rightarrow> 'm::order"
  assumes "inv s" and "\<And>s op. inv s \<Longrightarrow> f s \<le> f (exec op s)"
  shows "f s \<le> f (fold exec ops s)"
  using assms(1)
proof (induction ops arbitrary: s)
  case Nil
  then show ?case by simp
next
  case (Cons op ops)
  have "f s \<le> f (exec op s)" using Cons.prems by (rule assms(2))
  also have "f (exec op s) \<le> f (fold exec ops (exec op s))"
    using Cons.IH exec_inv [OF Cons.prems] .
  finally show ?case by simp
qed

end

end
