(* ===== verification/OS_Domain.thy ===== *)
theory OS_Domain
  imports OS_Prelude
begin

text \<open>
  The data model of \<^verbatim>\<open>internal/domain\<close>: inputs, output protocols, push destinations,
  DVR, watermark, thumbnail and transcoder settings, streams and templates.

  Conventions. A Go pointer to an optional value is an \<open>option\<close> (\<open>None\<close> is nil). Go \<^verbatim>\<open>int\<close> fields
  are \<open>int\<close>; \<^verbatim>\<open>float64\<close> settings, which are finite numbers read from a configuration document, are
  \<open>rat\<close>. Where the code compares pointers by identity (\<^verbatim>\<open>Bframes\<close>, \<^verbatim>\<open>Refs\<close> of a video profile) the
  field carries the address beside the value. Where \<^verbatim>\<open>reflect.DeepEqual\<close> can tell a nil slice or map
  from an empty one the field is an \<open>option\<close> of a list.
\<close>

datatype StreamStatus = StatusIdle | StatusActive | StatusDegraded | StatusStopped

type_synonym StreamCode = string
type_synonym PolicyCode = string
type_synonym TemplateCode = string

record ErrorEntry =
  ee_Message :: string
  ee_At :: gotime

record InputNetConfig =
  net_TimeoutSec :: int
  net_InsecureTLS :: bool

record Input =
  in_URL :: string
  in_Priority :: int
  in_Headers :: "(string \<times> string) list option"
  in_Params :: "(string \<times> string) list option"
  in_Program :: int
  in_Pids :: "int list"
  in_Net :: InputNetConfig
  in_Alive :: bool

record OutputProtocols =
  op_HLS :: bool
  op_DASH :: bool
  op_RTSP :: bool
  op_RTMP :: bool
  op_SRT :: bool
  op_MPEGTS :: bool

record PushDestination =
  pd_URL :: string
  pd_Enabled :: bool
  pd_TimeoutSec :: int
  pd_RetryTimeoutSec :: int
  pd_Limit :: int
  pd_Comment :: string
  pd_Status :: string

record StreamDVRConfig =
  dvr_Enabled :: bool
  dvr_RetentionSec :: int
  dvr_SegmentDuration :: int
  dvr_StoragePath :: string
  dvr_MaxSizeGB :: rat
  dvr_Profiles :: string

record WatermarkConfig =
  wm_Enabled :: bool
  wm_Type :: string
  wm_Text :: string
  wm_FontFile :: string
  wm_FontSize :: int
  wm_FontColor :: string
  wm_Filename :: string
  wm_ImagePath :: string
  wm_Opacity :: rat
  wm_Position :: string
  wm_OffsetX :: int
  wm_OffsetY :: int
  wm_X :: string
  wm_Y :: string
  wm_Resize :: bool

record ThumbnailConfig =
  th_Enabled :: bool
  th_IntervalSec :: int
  th_Width :: int
  th_Height :: int
  th_Quality :: int
  th_OutputDir :: string

subsection \<open>Transcoder settings\<close>

record VideoProfile =
  vp_Width :: int
  vp_Height :: int
  vp_Bitrate :: int
  vp_MaxBitrate :: int
  vp_Framerate :: rat
  vp_KeyframeInterval :: int
  vp_Codec :: string
  vp_Preset :: string
  vp_Profile :: string
  vp_Level :: string
  vp_Bframes :: "(nat \<times> int) option" \<comment> \<open>address and value of an \<^verbatim>\<open>*int\<close>\<close>
  vp_Refs :: "(nat \<times> int) option"
  vp_SAR :: string
  vp_ResizeMode :: string

record DecoderConfig =
  dec_Name :: string

record TranscoderGlobalConfig =
  tg_HW :: string
  tg_FPS :: int
  tg_GOP :: int
  tg_DeviceID :: int

record VideoTranscodeConfig =
  vt_Copy :: bool
  vt_Interlace :: string
  vt_Profiles :: "VideoProfile list option"

record AudioTranscodeConfig =
  at_Copy :: bool
  at_Codec :: string
  at_Bitrate :: int
  at_SampleRate :: int
  at_Channels :: int
  at_Language :: string
  at_Normalize :: bool
  at_Volume :: string

record TranscoderConfig =
  tc_Video :: VideoTranscodeConfig
  tc_Audio :: AudioTranscodeConfig
  tc_Decoder :: DecoderConfig
  tc_Global :: TranscoderGlobalConfig
  tc_Watermark :: "WatermarkConfig option"

text \<open>The elements of a slice that may be nil.\<close>

definition elems :: "'a list option \<Rightarrow> 'a list" where
  "elems s = (case s of None \<Rightarrow> [] | Some xs \<Rightarrow> xs)"

lemma elems_simps [simp]: "elems None = []" "elems (Some xs) = xs"
  by (simp_all add: elems_def)

subsection \<open>Streams and templates\<close>

record Stream =
  s_Code :: StreamCode
  s_Template :: "TemplateCode option"
  s_Name :: string
  s_Description :: string
  s_Tags :: "string list"
  s_StreamKey :: string
  s_PlaybackPolicy :: PolicyCode
  s_Status :: "StreamStatus option"
  s_Disabled :: bool
  s_Inputs :: "Input list"
  s_Transcoder :: "TranscoderConfig option"
  s_Protocols :: "OutputProtocols option"
  s_Push :: "PushDestination list"
  s_DVR :: "StreamDVRConfig option"
  s_Watermark :: "WatermarkConfig option"
  s_Thumbnail :: "ThumbnailConfig option"

record Template =
  t_Code :: TemplateCode
  t_Name :: string
  t_Description :: string
  t_Tags :: "string list"
  t_StreamKey :: string
  t_PlaybackPolicy :: PolicyCode
  t_Prefixes :: "string list"
  t_Inputs :: "Input list"
  t_Transcoder :: "TranscoderConfig option"
  t_Protocols :: "OutputProtocols option"
  t_Push :: "PushDestination list"
  t_DVR :: "StreamDVRConfig option"
  t_Watermark :: "WatermarkConfig option"
  t_Thumbnail :: "ThumbnailConfig option"

text \<open>
  Small concrete values, used by the witnesses of several theories.
\<close>

definition net0 :: InputNetConfig where
  "net0 = \<lparr>net_TimeoutSec = 0, net_InsecureTLS = False\<rparr>"

definition mk_input :: "string \<Rightarrow> int \<Rightarrow> Input" where
  "mk_input u p = \<lparr>in_URL = u, in_Priority = p, in_Headers = None, in_Params = None,
     in_Program = 0, in_Pids = [], in_Net = net0, in_Alive = False\<rparr>"

lemma mk_input_simps [simp]:
  "in_URL (mk_input u p) = u" "in_Priority (mk_input u p) = p"
  "in_Headers (mk_input u p) = None" "in_Params (mk_input u p) = None"
  "in_Program (mk_input u p) = 0" "in_Pids (mk_input u p) = []" "in_Net (mk_input u p) = net0"
  by (simp_all add: mk_input_def)

lemma mk_input_eq [simp]: "mk_input u p = mk_input v q \<longleftrightarrow> u = v \<and> p = q"
  by (simp add: mk_input_def)

definition empty_stream :: "StreamCode \<Rightarrow> Stream" where
  "empty_stream c = \<lparr>s_Code = c, s_Template = None, s_Name = [], s_Description = [], s_Tags = [],
     s_StreamKey = [], s_PlaybackPolicy = [], s_Status = None, s_Disabled = False, s_Inputs = [],
     s_Transcoder = None, s_Protocols = None, s_Push = [], s_DVR = None, s_Watermark = None,
     s_Thumbnail = None\<rparr>"

end
