(* ===== verification/Stream_Manager.thy ===== *)
theory Stream_Manager
  imports OS_Domain
begin

text \<open>
  The failover engine, \<^verbatim>\<open>internal/manager/service.go\<close>.

  A \<open>StreamState\<close> is the per-stream record the code guards with \<^verbatim>\<open>state.mu\<close>. Every critical section
  of the code (the text between one \<^verbatim>\<open>mu.Lock\<close> and the matching \<^verbatim>\<open>Unlock\<close>) is one function of that state,
  named after the Go function with the suffix \<open>_locked\<close>; the handlers compose the sections with the
  work done outside the lock and return the list of outside effects in program order: ingestor calls,
  published events, callbacks, gauges. The state-level functions carry the code's names in lower case,
  the service-level ones, which look the stream up first, the Go names. Readings of
  \<^verbatim>\<open>time.Now()\<close> and the outcome of \<^verbatim>\<open>ingestor.Start\<close> / \<^verbatim>\<open>ingestor.Probe\<close> (an interface here) are parameters.

  An \<open>InputHealth\<close> is a heap object that probes keep a pointer to while the table may drop or replace
  it, so it carries its identity (\<open>h_id\<close>): a write through a stale pointer does not reach the table.
  Left out: the per-codec byte counters (\<^verbatim>\<open>tracks\<close>), which no decision reads.
\<close>

subsection \<open>Constants and records\<close>

definition failbackProbeCooldown :: duration where "failbackProbeCooldown = seconds 8"
definition failbackSwitchCooldown :: duration where "failbackSwitchCooldown = seconds 12"
definition maxInputErrorHistory :: nat where "maxInputErrorHistory = 5"
definition maxSwitchHistory :: nat where "maxSwitchHistory = 20"
definition DefaultInputPacketTimeoutSec :: int where "DefaultInputPacketTimeoutSec = 30"

text \<open>A message before it is formatted: literal text, or the arguments of
  \<^verbatim>\<open>"no packet for %s (timeout %s)"\<close>.\<close>

datatype DetailMsg = Text string | NoPacketFor duration duration

record InputError =
  ie_Message :: DetailMsg
  ie_At :: gotime

record InputHealth =
  h_id :: nat
  h_Input :: Input
  h_LastPacketAt :: gotime
  h_Status :: StreamStatus
  h_Errors :: "InputError list"

datatype SwitchReason = SwitchReasonInitial | SwitchReasonError | SwitchReasonTimeout
  | SwitchReasonManual | SwitchReasonFailback | SwitchReasonRecovery
  | SwitchReasonInputAdded | SwitchReasonInputRemoved

record SwitchEvent =
  se_At :: gotime
  se_From :: int
  se_To :: int
  se_Reason :: SwitchReason
  se_Detail :: DetailMsg

record StreamState =
  st_inputs :: "(int \<times> InputHealth) list"
  st_active :: int
  st_bufferWriteID :: StreamCode
  st_degradedAt :: "(int \<times> gotime) list"
  st_probing :: "(int \<times> bool) list"
  st_lastSwitchAt :: gotime
  st_switchHistory :: "SwitchEvent list"
  st_overridePriority :: "int option"
  st_dead :: bool
  st_exhausted :: bool
  st_nextId :: nat

record ProbeTask =
  pt_priority :: int
  pt_id :: nat
  pt_input :: Input

datatype IngestError = is_ErrNoPusherConnected: ErrNoPusherConnected string | OtherIngestError string

fun err_msg :: "IngestError \<Rightarrow> string" where
  "err_msg (ErrNoPusherConnected m) = m"
| "err_msg (OtherIngestError m) = m"

datatype Effect =
    EfStart Input StreamCode
  | EfStop
  | EfHealth int int
  | EfHealthDelete int
  | EfFailoversInc
  | EfProbeAttempt bool
  | EfInputDegraded int "DetailMsg option"
  | EfInputFailover int int SwitchReason
  | EfInputRecovered int bool
  | EfOnExhausted
  | EfOnRestored
  | EfSpawnProbe ProbeTask
  | EfSpawnMonitor
  | EfCancel

subsection \<open>Rolling histories\<close>

definition push_error :: "InputError \<Rightarrow> InputError list \<Rightarrow> InputError list" where
  "push_error e errs =
     (if maxInputErrorHistory \<le> length errs
      then e # take (maxInputErrorHistory - 1) errs @ drop maxInputErrorHistory errs
      else e # errs)"

definition recordInputError :: "InputHealth \<Rightarrow> DetailMsg \<Rightarrow> gotime \<Rightarrow> InputHealth" where
  "recordInputError h msg t =
     h\<lparr>h_Errors := push_error \<lparr>ie_Message = msg, ie_At = t\<rparr> (h_Errors h)\<rparr>"

definition push_switch :: "SwitchEvent \<Rightarrow> SwitchEvent list \<Rightarrow> SwitchEvent list" where
  "push_switch e hs =
     (if maxSwitchHistory \<le> length hs
      then e # take (maxSwitchHistory - 1) hs @ drop maxSwitchHistory hs
      else e # hs)"

definition recordSwitch :: "StreamState \<Rightarrow> SwitchEvent \<Rightarrow> StreamState" where
  "recordSwitch st e = st\<lparr>st_switchHistory := push_switch e (st_switchHistory st)\<rparr>"

interpretation error_log: bounded_log maxInputErrorHistory push_error
  by unfold_locales (auto simp: push_error_def maxInputErrorHistory_def take_Cons')

interpretation switch_log: bounded_log maxSwitchHistory push_switch
  by unfold_locales (auto simp: push_switch_def maxSwitchHistory_def take_Cons')

subsection \<open>Choosing the input\<close>

definition unusable :: "InputHealth \<Rightarrow> bool" where
  "unusable h \<longleftrightarrow> h_Status h = StatusDegraded \<or> h_Status h = StatusStopped"

abbreviation h_prio :: "InputHealth \<Rightarrow> int" where
  "h_prio h \<equiv> in_Priority (h_Input h)"

fun scan_best :: "(int \<times> InputHealth) list \<Rightarrow> InputHealth option \<Rightarrow> InputHealth option" where
  "scan_best [] best = best"
| "scan_best ((p, h) # m) best =
     (if unusable h then scan_best m best
      else (case best of None \<Rightarrow> scan_best m (Some h)
            | Some b \<Rightarrow> if h_prio h < h_prio b then scan_best m (Some h) else scan_best m best))"

definition selectBest :: "StreamState \<Rightarrow> InputHealth option" where
  "selectBest st =
     (case st_overridePriority st of
        None \<Rightarrow> scan_best (st_inputs st) None
      | Some p \<Rightarrow> (case gget (st_inputs st) p of
            Some h \<Rightarrow> if \<not> unusable h then Some h else scan_best (st_inputs st) None
          | None \<Rightarrow> scan_best (st_inputs st) None))"

definition clearOverrideIfNeeded :: "StreamState \<Rightarrow> InputHealth option \<Rightarrow> StreamState" where
  "clearOverrideIfNeeded st best =
     (case st_overridePriority st of
        None \<Rightarrow> st
      | Some p \<Rightarrow> (case best of
            Some h \<Rightarrow> if h_prio h = p then st else st\<lparr>st_overridePriority := None\<rparr>
          | None \<Rightarrow> st\<lparr>st_overridePriority := None\<rparr>))"

subsection \<open>tryFailover and its two critical sections\<close>

datatype FoOutcome = FoDead | FoExhausted bool | FoSameWorker
  | FoSwitch int bool Input StreamCode

text \<open>The first section decides; \<open>handleExhausted\<close> runs inside it.\<close>

definition tryFailover_begin_locked :: "StreamState \<Rightarrow> StreamState \<times> FoOutcome" where
  "tryFailover_begin_locked st =
     (if st_dead st then (st, FoDead)
      else let best = selectBest st; st1 = clearOverrideIfNeeded st best in
        (case best of
           None \<Rightarrow> (st1\<lparr>st_exhausted := True\<rparr>, FoExhausted (st_exhausted st1))
         | Some h \<Rightarrow>
             if h_prio h = st_active st1 \<and> \<not> st_exhausted st1 then (st1, FoSameWorker)
             else (st1, FoSwitch (st_active st1) (st_exhausted st1) (h_Input h) (st_bufferWriteID st1))))"

text \<open>The second section runs after \<^verbatim>\<open>ingestor.Start\<close> succeeded, and re-checks.\<close>

definition demote_active :: "InputHealth \<Rightarrow> InputHealth" where
  "demote_active h = (if h_Status h = StatusActive then h\<lparr>h_Status := StatusIdle\<rparr> else h)"

definition upd_input :: "int \<Rightarrow> (InputHealth \<Rightarrow> InputHealth) \<Rightarrow> StreamState \<Rightarrow> StreamState" where
  "upd_input p f st =
     (case gget (st_inputs st) p of
        None \<Rightarrow> st
      | Some h \<Rightarrow> st\<lparr>st_inputs := gput p (f h) (st_inputs st)\<rparr>)"

definition commitSwitch ::
  "gotime \<Rightarrow> int \<Rightarrow> Input \<Rightarrow> SwitchReason \<Rightarrow> DetailMsg \<Rightarrow> StreamState \<Rightarrow> StreamState" where
  "commitSwitch now prevPriority bestInput reason detail st =
     (if st_dead st \<or> st_active st \<noteq> prevPriority then st
      else let st1 = upd_input prevPriority demote_active st;
               st2 = st1\<lparr>st_active := in_Priority bestInput, st_lastSwitchAt := now, st_exhausted := False\<rparr>;
               st3 = upd_input (in_Priority bestInput) (\<lambda>h. h\<lparr>h_LastPacketAt := now\<rparr>) st2
           in recordSwitch st3 \<lparr>se_At = now, se_From = prevPriority, se_To = in_Priority bestInput,
                se_Reason = reason, se_Detail = detail\<rparr>)"

type_synonym start_fn = "Input \<Rightarrow> StreamCode \<Rightarrow> IngestError option"

definition tryFailover ::
  "start_fn \<Rightarrow> gotime \<Rightarrow> SwitchReason \<Rightarrow> DetailMsg \<Rightarrow> StreamState \<Rightarrow> StreamState \<times> Effect list" where
  "tryFailover start cnow reason detail st =
     (case tryFailover_begin_locked st of
        (st1, FoDead) \<Rightarrow> (st1, [])
      | (st1, FoExhausted was) \<Rightarrow> (st1, if was then [] else [EfOnExhausted])
      | (st1, FoSameWorker) \<Rightarrow> (st1, [])
      | (st1, FoSwitch prev was inp buf) \<Rightarrow>
          (case start inp buf of
             Some e \<Rightarrow> (st1, [EfStart inp buf])
           | None \<Rightarrow>
               (commitSwitch cnow prev inp reason detail st1,
                EfStart inp buf
                # (if prev \<noteq> in_Priority inp then [EfHealth prev 0] else [])
                @ [EfFailoversInc, EfInputFailover prev (in_Priority inp) reason]
                @ (if was then [EfOnRestored] else []))))"

subsection \<open>Packets and errors from the ingestor\<close>

text \<open>The result says whether the packet ended an exhaustion.\<close>

definition recordPacket_locked :: "gotime \<Rightarrow> int \<Rightarrow> StreamState \<Rightarrow> StreamState \<times> bool \<times> bool" where
  "recordPacket_locked now p st =
     (if st_dead st then (st, False, False)
      else (case gget (st_inputs st) p of
          None \<Rightarrow> (st, False, False)
        | Some h \<Rightarrow>
            if h_Status h = StatusActive
            then (upd_input p (\<lambda>h. h\<lparr>h_LastPacketAt := now\<rparr>) st, False, False)
            else
              let st1 = upd_input p
                    (\<lambda>h. h\<lparr>h_LastPacketAt := now, h_Status := StatusActive, h_Errors := []\<rparr>) st;
                  st2 = st1\<lparr>st_degradedAt := gdel p (st_degradedAt st1)\<rparr>
              in if st_exhausted st2 \<and> p = st_active st2
                 then (recordSwitch (st2\<lparr>st_exhausted := False, st_lastSwitchAt := now\<rparr>)
                         \<lparr>se_At = now, se_From = p, se_To = p, se_Reason = SwitchReasonRecovery,
                          se_Detail = Text ''ingestor auto-reconnect''\<rparr>, True, True)
                 else (st2, True, False)))"

definition recordPacket :: "gotime \<Rightarrow> int \<Rightarrow> StreamState \<Rightarrow> StreamState \<times> Effect list" where
  "recordPacket now p st =
     (case recordPacket_locked now p st of (st', promoted, recovered) \<Rightarrow>
        (st', (if promoted then [EfHealth p 1] else [])
              @ (if recovered then [EfFailoversInc, EfInputFailover p p SwitchReasonRecovery, EfOnRestored]
                 else [])))"

definition reportInputError_locked ::
  "gotime \<Rightarrow> int \<Rightarrow> IngestError \<Rightarrow> StreamState \<Rightarrow> StreamState option" where
  "reportInputError_locked now p err st =
     (if st_dead st then None
      else if is_ErrNoPusherConnected err \<and> length (st_inputs st) \<le> 1 then None
      else (case gget (st_inputs st) p of
          None \<Rightarrow> None
        | Some h \<Rightarrow>
            if h_Status h = StatusDegraded \<or> h_Status h = StatusStopped then None
            else
              let st1 = upd_input p
                    (\<lambda>h. recordInputError (h\<lparr>h_Status := StatusDegraded\<rparr>) (Text (err_msg err)) now) st
              in Some (st1\<lparr>st_degradedAt := gput p now (st_degradedAt st1)\<rparr>)))"

definition reportInputError ::
  "start_fn \<Rightarrow> gotime \<Rightarrow> gotime \<Rightarrow> int \<Rightarrow> IngestError \<Rightarrow> StreamState \<Rightarrow> StreamState \<times> Effect list" where
  "reportInputError start now cnow p err st =
     (case reportInputError_locked now p err st of
        None \<Rightarrow> (st, [])
      | Some st1 \<Rightarrow>
          (case tryFailover start cnow SwitchReasonError (Text (err_msg err)) st1 of (st2, ef) \<Rightarrow>
             (st2, EfHealth p 0 # EfInputDegraded p (Some (Text (err_msg err))) # ef)))"

subsection \<open>The monitor tick\<close>

definition shouldFailbackNow :: "StreamState \<Rightarrow> gotime \<Rightarrow> bool" where
  "shouldFailbackNow st now =
     (if st_exhausted st then False
      else if now - st_lastSwitchAt st < failbackSwitchCooldown then False
      else (case selectBest st of None \<Rightarrow> False | Some h \<Rightarrow> h_prio h < st_active st))"

text \<open>The loop's mutable locals: the state, \<^verbatim>\<open>timedOutPriority\<close>, \<^verbatim>\<open>timedOutDetail\<close>, \<^verbatim>\<open>probeTasks\<close>.\<close>

record TickAcc =
  ta_st :: StreamState
  ta_timedOut :: int
  ta_detail :: DetailMsg
  ta_tasks :: "ProbeTask list"

text \<open>\<^verbatim>\<open>Duration.Truncate(time.Second)\<close>.\<close>

definition truncate_second :: "duration \<Rightarrow> duration" where
  "truncate_second d = d - (d - go_div d (seconds 1) * seconds 1)"

definition collectTimeoutIfNeeded :: "gotime \<Rightarrow> duration \<Rightarrow> int \<Rightarrow> TickAcc \<Rightarrow> TickAcc" where
  "collectTimeoutIfNeeded now timeout priority acc =
     (let st = ta_st acc in
      if priority \<noteq> st_active st then acc
      else (case gget (st_inputs st) priority of
          None \<Rightarrow> acc
        | Some h \<Rightarrow>
            if h_Status h = StatusDegraded then acc
            else if now - h_LastPacketAt h \<le> timeout then acc
            else
              let msg = NoPacketFor (truncate_second (now - h_LastPacketAt h)) timeout;
                  st1 = upd_input priority
                    (\<lambda>h. recordInputError (h\<lparr>h_Status := StatusDegraded\<rparr>) msg now) st
              in acc\<lparr>ta_st := st1\<lparr>st_degradedAt := gput priority now (st_degradedAt st1)\<rparr>,
                     ta_timedOut := priority, ta_detail := msg\<rparr>))"

definition collectProbeIfNeeded :: "gotime \<Rightarrow> int \<Rightarrow> TickAcc \<Rightarrow> TickAcc" where
  "collectProbeIfNeeded now priority acc =
     (let st = ta_st acc in
      (case gget (st_inputs st) priority of
         None \<Rightarrow> acc
       | Some h \<Rightarrow>
           if h_Status h \<noteq> StatusDegraded \<or> gget (st_probing st) priority = Some True then acc
           else if priority = st_active st \<and> \<not> st_exhausted st then acc
           else (case gget (st_degradedAt st) priority of
               None \<Rightarrow> acc
             | Some t \<Rightarrow>
                 if now - t < failbackProbeCooldown then acc
                 else acc\<lparr>ta_st := st\<lparr>st_probing := gput priority True (st_probing st)\<rparr>,
                          ta_tasks := ta_tasks acc @
                            [\<lparr>pt_priority = priority, pt_id = h_id h, pt_input = h_Input h\<rparr>]\<rparr>)))"

definition tick_input :: "gotime \<Rightarrow> duration \<Rightarrow> int \<Rightarrow> TickAcc \<Rightarrow> TickAcc" where
  "tick_input now timeout priority acc =
     collectProbeIfNeeded now priority (collectTimeoutIfNeeded now timeout priority acc)"

definition checkHealth_locked ::
  "gotime \<Rightarrow> duration \<Rightarrow> StreamState \<Rightarrow> TickAcc \<times> bool" where
  "checkHealth_locked now timeout st =
     (let acc0 = \<lparr>ta_st = st, ta_timedOut = -1, ta_detail = Text [], ta_tasks = []\<rparr> in
      if st_dead st then (acc0, False)
      else let acc = fold (tick_input now timeout) (gkeys (st_inputs st)) acc0
           in (acc, shouldFailbackNow (ta_st acc) now))"

definition checkHealth ::
  "start_fn \<Rightarrow> gotime \<Rightarrow> gotime \<Rightarrow> duration \<Rightarrow> StreamState \<Rightarrow> StreamState \<times> Effect list" where
  "checkHealth start now cnow timeout st =
     (case checkHealth_locked now timeout st of (acc, needsFailback) \<Rightarrow>
        let (st1, ef1) =
              (if 0 \<le> ta_timedOut acc
               then (case tryFailover start cnow SwitchReasonTimeout (ta_detail acc) (ta_st acc) of
                   (s, ef) \<Rightarrow> (s, EfHealth (ta_timedOut acc) 0 # EfInputDegraded (ta_timedOut acc) None # ef))
               else (ta_st acc, []));
            ef2 = map EfSpawnProbe (ta_tasks acc);
            (st3, ef3) = (if needsFailback then tryFailover start cnow SwitchReasonFailback (Text []) st1
                          else (st1, []))
        in (st3, ef1 @ ef2 @ ef3))"

subsection \<open>Probes\<close>

definition probe_clear_locked :: "ProbeTask \<Rightarrow> StreamState \<Rightarrow> StreamState" where
  "probe_clear_locked task st = st\<lparr>st_probing := gput (pt_priority task) False (st_probing st)\<rparr>"

text \<open>
  A successful probe writes \<^verbatim>\<open>task.h.Status\<close> through its pointer, but deletes from \<^verbatim>\<open>degradedAt\<close> by
  priority. The result carries the locals \<^verbatim>\<open>currentActive\<close>, \<^verbatim>\<open>wasExhausted\<close>, \<^verbatim>\<open>sinceSwitch\<close>.
\<close>

definition probe_success_locked ::
  "gotime \<Rightarrow> ProbeTask \<Rightarrow> StreamState \<Rightarrow> (StreamState \<times> int \<times> bool \<times> duration) option" where
  "probe_success_locked now task st =
     (if st_dead st then None
      else
        let st1 = upd_input (pt_priority task)
              (\<lambda>h. if h_id h = pt_id task then h\<lparr>h_Status := StatusIdle\<rparr> else h) st;
            st2 = st1\<lparr>st_degradedAt := gdel (pt_priority task) (st_degradedAt st1)\<rparr>
        in Some (st2, st_active st2, st_exhausted st2, now - st_lastSwitchAt st2))"

definition probe_decision :: "ProbeTask \<Rightarrow> int \<Rightarrow> bool \<Rightarrow> duration \<Rightarrow> SwitchReason option" where
  "probe_decision task currentActive wasExhausted sinceSwitch =
     (if wasExhausted then Some SwitchReasonRecovery
      else if pt_priority task < currentActive \<and> failbackSwitchCooldown \<le> sinceSwitch
      then Some SwitchReasonFailback else None)"

definition runProbe ::
  "start_fn \<Rightarrow> bool \<Rightarrow> gotime \<Rightarrow> gotime \<Rightarrow> ProbeTask \<Rightarrow> StreamState \<Rightarrow> StreamState \<times> Effect list" where
  "runProbe start probe_ok now cnow task st =
     (if \<not> probe_ok then (probe_clear_locked task st, [EfProbeAttempt False])
      else (case probe_success_locked now task st of
          None \<Rightarrow> (probe_clear_locked task st, [EfProbeAttempt True])
        | Some (st1, currentActive, wasExhausted, sinceSwitch) \<Rightarrow>
            let (st2, ef) = (case probe_decision task currentActive wasExhausted sinceSwitch of
                  Some r \<Rightarrow> tryFailover start cnow r (Text []) st1
                | None \<Rightarrow> (st1, []))
            in (probe_clear_locked task st2,
                EfProbeAttempt True # EfInputRecovered (pt_priority task) wasExhausted # ef)))"

subsection \<open>Operator requests\<close>

datatype MgrError = StreamNotActive | InputNotFound int | InputIsDegraded int | AlreadyRegistered StreamCode

definition switchInput_locked :: "int \<Rightarrow> StreamState \<Rightarrow> MgrError + StreamState" where
  "switchInput_locked priority st =
     (if st_dead st then Inl StreamNotActive
      else (case gget (st_inputs st) priority of
          None \<Rightarrow> Inl (InputNotFound priority)
        | Some h \<Rightarrow>
            if h_Status h = StatusDegraded \<or> h_Status h = StatusStopped then Inl (InputIsDegraded priority)
            else Inr (st\<lparr>st_overridePriority := Some priority\<rparr>)))"

definition switchInput ::
  "start_fn \<Rightarrow> gotime \<Rightarrow> int \<Rightarrow> StreamState \<Rightarrow> (MgrError + StreamState) \<times> Effect list" where
  "switchInput start cnow priority st =
     (case switchInput_locked priority st of
        Inl e \<Rightarrow> (Inl e, [])
      | Inr st1 \<Rightarrow> (case tryFailover start cnow SwitchReasonManual (Text []) st1 of (st2, ef) \<Rightarrow> (Inr st2, ef)))"

definition upd_removed :: "Input \<Rightarrow> StreamState \<times> SwitchReason option \<Rightarrow> StreamState \<times> SwitchReason option" where
  "upd_removed inp = (\<lambda>(st, reason).
     (st\<lparr>st_inputs := gdel (in_Priority inp) (st_inputs st),
         st_degradedAt := gdel (in_Priority inp) (st_degradedAt st),
         st_probing := gdel (in_Priority inp) (st_probing st)\<rparr>,
      if in_Priority inp = st_active st then Some SwitchReasonInputRemoved else reason))"

text \<open>A fresh health object; \<^verbatim>\<open>LastPacketAt\<close> stays the zero time, here 0.\<close>

definition fresh_health :: "nat \<Rightarrow> gotime \<Rightarrow> Input \<Rightarrow> InputHealth" where
  "fresh_health i t inp =
     \<lparr>h_id = i, h_Input = inp, h_LastPacketAt = t, h_Status = StatusIdle, h_Errors = []\<rparr>"

definition upd_added :: "Input \<Rightarrow> StreamState \<times> SwitchReason option \<Rightarrow> StreamState \<times> SwitchReason option" where
  "upd_added inp = (\<lambda>(st, reason).
     (st\<lparr>st_inputs := gput (in_Priority inp) (fresh_health (st_nextId st) 0 inp) (st_inputs st),
         st_nextId := Suc (st_nextId st)\<rparr>,
      if in_Priority inp < st_active st \<and> reason = None then Some SwitchReasonInputAdded else reason))"

definition upd_updated :: "Input \<Rightarrow> StreamState \<times> Input option \<Rightarrow> StreamState \<times> Input option" where
  "upd_updated inp = (\<lambda>(st, restart).
     (case gget (st_inputs st) (in_Priority inp) of
        None \<Rightarrow> (st, restart)
      | Some h \<Rightarrow> (upd_input (in_Priority inp) (\<lambda>h. h\<lparr>h_Input := inp\<rparr>) st,
                   if in_Priority inp = st_active st then Some inp else restart)))"

definition updateInputs_locked ::
  "Input list \<Rightarrow> Input list \<Rightarrow> Input list \<Rightarrow> StreamState \<Rightarrow>
   (StreamState \<times> SwitchReason option \<times> Input option) option" where
  "updateInputs_locked added removed updated st =
     (if st_dead st then None
      else let (st1, r1) = fold upd_removed removed (st, None);
               (st2, r2) = fold upd_added added (st1, r1);
               (st3, ri) = fold upd_updated updated (st2, None)
           in Some (st3, r2, ri))"

definition updateInputs ::
  "start_fn \<Rightarrow> gotime \<Rightarrow> Input list \<Rightarrow> Input list \<Rightarrow> Input list \<Rightarrow> StreamState \<Rightarrow> StreamState \<times> Effect list" where
  "updateInputs start cnow added removed updated st =
     (case updateInputs_locked added removed updated st of
        None \<Rightarrow> (st, [])
      | Some (st1, Some reason, _) \<Rightarrow> tryFailover start cnow reason (Text []) st1
      | Some (st1, None, Some ri) \<Rightarrow> (st1, [EfStart ri (st_bufferWriteID st1)])
      | Some (st1, None, None) \<Rightarrow> (st1, []))"

definition updateBufferWriteID :: "StreamCode \<Rightarrow> StreamState \<Rightarrow> StreamState \<times> Effect list" where
  "updateBufferWriteID newBufID st =
     (if st_dead st then (st, [])
      else let st1 = st\<lparr>st_bufferWriteID := newBufID\<rparr> in
        (case gget (st_inputs st1) (st_active st1) of
           None \<Rightarrow> (st1, [])
         | Some h \<Rightarrow> (st1, [EfStart (h_Input h) newBufID])))"

subsection \<open>The service: all streams\<close>

record MgrService =
  svc_streams :: "(StreamCode \<times> StreamState) list"
  svc_packetTimeoutNs :: duration

definition packetTimeoutFromCfg :: "int \<Rightarrow> duration" where
  "packetTimeoutFromCfg sec =
     (let sec1 = (if sec \<le> 0 then DefaultInputPacketTimeoutSec else sec) in seconds sec1)"

definition SetConfig :: "int \<Rightarrow> MgrService \<Rightarrow> MgrService" where
  "SetConfig sec svc = svc\<lparr>svc_packetTimeoutNs := packetTimeoutFromCfg sec\<rparr>"

definition on_stream ::
  "StreamCode \<Rightarrow> (StreamState \<Rightarrow> StreamState \<times> Effect list) \<Rightarrow> MgrService \<Rightarrow> MgrService \<times> Effect list" where
  "on_stream sid f svc =
     (case gget (svc_streams svc) sid of
        None \<Rightarrow> (svc, [])
      | Some st \<Rightarrow> (case f st of (st', ef) \<Rightarrow> (svc\<lparr>svc_streams := gput sid st' (svc_streams svc)\<rparr>, ef)))"

definition RecordPacket :: "gotime \<Rightarrow> StreamCode \<Rightarrow> int \<Rightarrow> MgrService \<Rightarrow> MgrService \<times> Effect list" where
  "RecordPacket now sid p = on_stream sid (recordPacket now p)"

definition ReportInputError ::
  "start_fn \<Rightarrow> gotime \<Rightarrow> gotime \<Rightarrow> StreamCode \<Rightarrow> int \<Rightarrow> IngestError \<Rightarrow> MgrService \<Rightarrow> MgrService \<times> Effect list" where
  "ReportInputError start now cnow sid p err = on_stream sid (reportInputError start now cnow p err)"

definition CheckHealth ::
  "start_fn \<Rightarrow> gotime \<Rightarrow> gotime \<Rightarrow> StreamCode \<Rightarrow> MgrService \<Rightarrow> MgrService \<times> Effect list" where
  "CheckHealth start now cnow sid svc =
     on_stream sid (checkHealth start now cnow (svc_packetTimeoutNs svc)) svc"

definition SwitchInput ::
  "start_fn \<Rightarrow> gotime \<Rightarrow> StreamCode \<Rightarrow> int \<Rightarrow> MgrService \<Rightarrow> MgrError option \<times> MgrService \<times> Effect list" where
  "SwitchInput start cnow sid p svc =
     (case gget (svc_streams svc) sid of
        None \<Rightarrow> (Some StreamNotActive, svc, [])
      | Some st \<Rightarrow>
          (case switchInput start cnow p st of
             (Inl e, ef) \<Rightarrow> (Some e, svc, ef)
           | (Inr st', ef) \<Rightarrow> (None, svc\<lparr>svc_streams := gput sid st' (svc_streams svc)\<rparr>, ef)))"

definition UpdateInputs ::
  "start_fn \<Rightarrow> gotime \<Rightarrow> StreamCode \<Rightarrow> Input list \<Rightarrow> Input list \<Rightarrow> Input list \<Rightarrow>
   MgrService \<Rightarrow> MgrService \<times> Effect list" where
  "UpdateInputs start cnow sid added removed updated =
     on_stream sid (updateInputs start cnow added removed updated)"

definition UpdateBufferWriteID :: "StreamCode \<Rightarrow> StreamCode \<Rightarrow> MgrService \<Rightarrow> MgrService \<times> Effect list" where
  "UpdateBufferWriteID sid buf = on_stream sid (updateBufferWriteID buf)"

definition IsRegistered :: "StreamCode \<Rightarrow> MgrService \<Rightarrow> bool" where
  "IsRegistered sid svc \<longleftrightarrow> gget (svc_streams svc) sid \<noteq> None"

text \<open>\<^verbatim>\<open>Register\<close>: build the table, refuse a second registration, start the best input.\<close>

definition register_input :: "gotime \<Rightarrow> Input \<Rightarrow> StreamState \<Rightarrow> StreamState" where
  "register_input regNow inp st =
     st\<lparr>st_inputs := gput (in_Priority inp) (fresh_health (st_nextId st) regNow inp) (st_inputs st),
        st_nextId := Suc (st_nextId st)\<rparr>"

definition new_state :: "gotime \<Rightarrow> gotime \<Rightarrow> Input list \<Rightarrow> StreamCode \<Rightarrow> StreamState" where
  "new_state now regNow inps bufferWriteID =
     fold (register_input regNow) inps
       \<lparr>st_inputs = [], st_active = 0, st_bufferWriteID = bufferWriteID, st_degradedAt = [],
        st_probing = [], st_lastSwitchAt = now, st_switchHistory = [], st_overridePriority = None,
        st_dead = False, st_exhausted = False, st_nextId = 0\<rparr>"

definition activate_initial :: "StreamState \<Rightarrow> StreamState" where
  "activate_initial st =
     (case selectBest st of None \<Rightarrow> st | Some h \<Rightarrow> st\<lparr>st_active := h_prio h\<rparr>)"

definition initial_event :: "gotime \<Rightarrow> int \<Rightarrow> SwitchEvent" where
  "initial_event now p = \<lparr>se_At = now, se_From = -1, se_To = p, se_Reason = SwitchReasonInitial,
     se_Detail = Text []\<rparr>"

definition Register ::
  "start_fn \<Rightarrow> gotime \<Rightarrow> gotime \<Rightarrow> gotime \<Rightarrow> gotime \<Rightarrow> Stream \<Rightarrow> StreamCode \<Rightarrow> MgrService \<Rightarrow>
   MgrError option \<times> MgrService \<times> Effect list" where
  "Register start now regNow errNow cnow stream buf svc =
     (let bufferWriteID = (if buf = [] then s_Code stream else buf);
          st0 = new_state now regNow (s_Inputs stream) bufferWriteID;
          sid = s_Code stream in
      if IsRegistered sid svc then (Some (AlreadyRegistered sid), svc, [EfCancel])
      else
        let st1 = activate_initial st0;
            put = (\<lambda>st. svc\<lparr>svc_streams := gput sid st (svc_streams svc)\<rparr>) in
        (case selectBest st0 of
           None \<Rightarrow> (None, put st1, [EfSpawnMonitor])
         | Some best \<Rightarrow>
             (case start (h_Input best) bufferWriteID of
                Some err \<Rightarrow>
                  (case reportInputError start errNow cnow (h_prio best) err st1 of (st2, ef) \<Rightarrow>
                     (None, put st2, EfSpawnMonitor # EfStart (h_Input best) bufferWriteID # ef))
              | None \<Rightarrow>
                  (None, put (recordSwitch st1 (initial_event cnow (h_prio best))),
                   [EfSpawnMonitor, EfStart (h_Input best) bufferWriteID]))))"

definition Unregister :: "StreamCode \<Rightarrow> MgrService \<Rightarrow> MgrService \<times> Effect list" where
  "Unregister sid svc =
     (case gget (svc_streams svc) sid of
        None \<Rightarrow> (svc, [])
      | Some st \<Rightarrow> (svc\<lparr>svc_streams := gdel sid (svc_streams svc)\<rparr>,
                    EfCancel # map (\<lambda>p. EfHealthDelete p) (gkeys (st_inputs st)) @ [EfStop]))"

subsection \<open>Facts about single definitions\<close>

lemma upd_input_fields [simp]:
  "st_active (upd_input p f st) = st_active st"
  "st_bufferWriteID (upd_input p f st) = st_bufferWriteID st"
  "st_degradedAt (upd_input p f st) = st_degradedAt st"
  "st_probing (upd_input p f st) = st_probing st"
  "st_lastSwitchAt (upd_input p f st) = st_lastSwitchAt st"
  "st_switchHistory (upd_input p f st) = st_switchHistory st"
  "st_overridePriority (upd_input p f st) = st_overridePriority st"
  "st_dead (upd_input p f st) = st_dead st"
  "st_exhausted (upd_input p f st) = st_exhausted st"
  "st_nextId (upd_input p f st) = st_nextId st"
  by (simp_all add: upd_input_def split: option.splits)

lemma gget_upd_input [map_simps]:
  "gget (st_inputs (upd_input p f st)) q =
     (if p = q then map_option f (gget (st_inputs st) p) else gget (st_inputs st) q)"
  by (simp add: upd_input_def map_simps split: option.splits)

lemma gwf_upd_input [simp]: "gwf (st_inputs st) \<Longrightarrow> gwf (st_inputs (upd_input p f st))"
  by (simp add: upd_input_def split: option.splits)

lemma gkeys_upd_input [simp]: "gkeys (st_inputs (upd_input p f st)) = gkeys (st_inputs st)"
  by (simp add: upd_input_def gkeys_gput_old split: option.split)

lemma recordSwitch_fields [simp]:
  "st_inputs (recordSwitch st e) = st_inputs st"
  "st_active (recordSwitch st e) = st_active st"
  "st_bufferWriteID (recordSwitch st e) = st_bufferWriteID st"
  "st_degradedAt (recordSwitch st e) = st_degradedAt st"
  "st_probing (recordSwitch st e) = st_probing st"
  "st_lastSwitchAt (recordSwitch st e) = st_lastSwitchAt st"
  "st_switchHistory (recordSwitch st e) = push_switch e (st_switchHistory st)"
  "st_overridePriority (recordSwitch st e) = st_overridePriority st"
  "st_dead (recordSwitch st e) = st_dead st"
  "st_exhausted (recordSwitch st e) = st_exhausted st"
  "st_nextId (recordSwitch st e) = st_nextId st"
  by (simp_all add: recordSwitch_def)

lemma clearOverride_fields [simp]:
  "st_inputs (clearOverrideIfNeeded st b) = st_inputs st"
  "st_active (clearOverrideIfNeeded st b) = st_active st"
  "st_bufferWriteID (clearOverrideIfNeeded st b) = st_bufferWriteID st"
  "st_degradedAt (clearOverrideIfNeeded st b) = st_degradedAt st"
  "st_probing (clearOverrideIfNeeded st b) = st_probing st"
  "st_lastSwitchAt (clearOverrideIfNeeded st b) = st_lastSwitchAt st"
  "st_switchHistory (clearOverrideIfNeeded st b) = st_switchHistory st"
  "st_dead (clearOverrideIfNeeded st b) = st_dead st"
  "st_exhausted (clearOverrideIfNeeded st b) = st_exhausted st"
  "st_nextId (clearOverrideIfNeeded st b) = st_nextId st"
  by (simp_all add: clearOverrideIfNeeded_def split: option.splits)

lemma recordInputError_fields [simp]:
  "h_id (recordInputError h m t) = h_id h"
  "h_Input (recordInputError h m t) = h_Input h"
  "h_LastPacketAt (recordInputError h m t) = h_LastPacketAt h"
  "h_Status (recordInputError h m t) = h_Status h"
  "h_Errors (recordInputError h m t) = push_error \<lparr>ie_Message = m, ie_At = t\<rparr> (h_Errors h)"
  by (simp_all add: recordInputError_def)

lemma demote_active_fields [simp]:
  "h_id (demote_active h) = h_id h" "h_Input (demote_active h) = h_Input h"
  "h_LastPacketAt (demote_active h) = h_LastPacketAt h" "h_Errors (demote_active h) = h_Errors h"
  "unusable (demote_active h) = unusable h"
  by (simp_all add: demote_active_def unusable_def)

subsection \<open>selectBest\<close>

lemma scan_best_None:
  "scan_best m b = None \<longleftrightarrow> b = None \<and> (\<forall>x \<in> set m. unusable (snd x))"
  by (induction m b rule: scan_best.induct) (auto split: option.splits)

lemma scan_best_mem:
  "scan_best m b = Some h \<Longrightarrow> b = Some h \<or> (\<exists>x \<in> set m. h = snd x \<and> \<not> unusable h)"
  by (induction m b rule: scan_best.induct) (auto split: option.splits if_splits)

lemma scan_best_min:
  "scan_best m b = Some h \<Longrightarrow>
     (\<forall>x \<in> set m. \<not> unusable (snd x) \<longrightarrow> h_prio h \<le> h_prio (snd x)) \<and>
     (\<forall>y. b = Some y \<longrightarrow> h_prio h \<le> h_prio y)"
proof (induction m arbitrary: b)
  case Nil
  then show ?case by simp
next
  case (Cons e m)
  obtain p x where e: "e = (p, x)" by fastforce
  show ?case
  proof (cases "unusable x")
    case True
    with Cons e show ?thesis by simp
  next
    case False
    show ?thesis
    proof (cases b)
      case None
      with Cons.prems e False have "scan_best m (Some x) = Some h" by simp
      from Cons.IH [OF this] e None show ?thesis by simp
    next
      case (Some y)
      with Cons.prems e False have "scan_best m (Some (if h_prio x < h_prio y then x else y)) = Some h"
        by (simp split: if_splits)
      from Cons.IH [OF this] e Some show ?thesis by (cases "h_prio x < h_prio y") auto
    qed
  qed
qed

text \<open>The table invariant: one entry per key, keyed by the priority of its input.\<close>

definition inputs_wf :: "nat \<Rightarrow> (int \<times> InputHealth) list \<Rightarrow> bool" where
  "inputs_wf n m \<longleftrightarrow> gwf m \<and>
     (\<forall>p h. gget m p = Some h \<longrightarrow>
        h_prio h = p \<and> h_id h < n \<and> length (h_Errors h) \<le> maxInputErrorHistory)"

lemma inputs_wf_gwf: "inputs_wf n m \<Longrightarrow> gwf m"
  by (simp add: inputs_wf_def)

lemma inputs_wf_prio: "inputs_wf n m \<Longrightarrow> gget m p = Some h \<Longrightarrow> h_prio h = p"
  by (simp add: inputs_wf_def)

lemma inputs_wf_mem: "inputs_wf n m \<Longrightarrow> (p, h) \<in> set m \<Longrightarrow> gget m (h_prio h) = Some h"
  using gwf_mem_gget [OF inputs_wf_gwf] inputs_wf_prio by metis

lemma scan_best_gget:
  assumes "inputs_wf n m" and "scan_best m None = Some h"
  shows "gget m (h_prio h) = Some h" "\<not> unusable h"
proof -
  from scan_best_mem [OF assms(2)] obtain x where "x \<in> set m" "h = snd x" "\<not> unusable h" by auto
  then show "gget m (h_prio h) = Some h" "\<not> unusable h"
    using inputs_wf_mem [OF assms(1), of "fst x" h] by simp_all
qed

lemma scan_best_least:
  assumes "inputs_wf n m" and "scan_best m None = Some h" and "gget m p = Some x" and "\<not> unusable x"
  shows "h_prio h \<le> p"
  using scan_best_min [OF assms(2)] map_of_SomeD [OF assms(3)] assms(4) inputs_wf_prio [OF assms(1,3)]
  by fastforce

lemma selectBest_gget:
  assumes "inputs_wf n (st_inputs st)" and "selectBest st = Some h"
  shows "gget (st_inputs st) (h_prio h) = Some h" "\<not> unusable h"
proof -
  have "(gget (st_inputs st) (h_prio h) = Some h \<and> \<not> unusable h) \<or> scan_best (st_inputs st) None = Some h"
    using assms(2) inputs_wf_prio [OF assms(1)]
    by (auto simp: selectBest_def split: option.splits if_splits)
  then show "gget (st_inputs st) (h_prio h) = Some h" "\<not> unusable h"
    using scan_best_gget [OF assms(1)] by blast+
qed

lemma selectBest_None:
  assumes "gwf (st_inputs st)"
  shows "selectBest st = None \<longleftrightarrow> (\<forall>p h. gget (st_inputs st) p = Some h \<longrightarrow> unusable h)"
proof -
  have scan: "scan_best (st_inputs st) None = None \<longleftrightarrow>
      (\<forall>p h. gget (st_inputs st) p = Some h \<longrightarrow> unusable h)"
    using gwf_all [OF assms, of "\<lambda>p h. unusable h"] by (simp add: scan_best_None)
  then show ?thesis
    by (cases "st_overridePriority st") (auto simp: selectBest_def split: option.splits)
qed

lemma scan_best_unique:
  assumes "inputs_wf n m" and "inputs_wf n' m'" and "map_of m = map_of m'"
  shows "scan_best m None = scan_best m' None"
proof (cases "scan_best m None")
  case None
  then have "scan_best m' None = None"
    using gwf_all [OF inputs_wf_gwf [OF assms(1)], of "\<lambda>p h. unusable h"]
      gwf_all [OF inputs_wf_gwf [OF assms(2)], of "\<lambda>p h. unusable h"] assms(3)
    by (simp add: scan_best_None)
  with None show ?thesis by simp
next
  case (Some h)
  note h = scan_best_gget [OF assms(1) Some]
  have "scan_best m' None \<noteq> None"
    using h assms(3) gwf_all [OF inputs_wf_gwf [OF assms(2)], of "\<lambda>p h. unusable h"]
    by (auto simp: scan_best_None)
  then obtain h' where h': "scan_best m' None = Some h'" by blast
  note g' = scan_best_gget [OF assms(2) h']
  have "h_prio h \<le> h_prio h'" using scan_best_least [OF assms(1) Some] g' assms(3) by simp
  moreover have "h_prio h' \<le> h_prio h" using scan_best_least [OF assms(2) h'] h assms(3) by simp
  ultimately have "h_prio h = h_prio h'" by simp
  with h(1) g'(1) assms(3) have "h = h'" by (metis option.inject)
  with Some h' show ?thesis by simp
qed

end
