(* ===== verification/Failover_Machine.thy ===== *)
theory Failover_Machine
  imports Stream_Manager
begin

text \<open>
  What every critical section of the failover engine preserves, and the engine as a concurrent
  machine: the critical sections of \<^verbatim>\<open>internal/manager/service.go\<close> interleave freely, because the code
  drops \<^verbatim>\<open>state.mu\<close> around \<^verbatim>\<open>ingestor.Start\<close>, \<^verbatim>\<open>ingestor.Probe\<close> and between a handler's decision and
  its call of \<^verbatim>\<open>tryFailover\<close>. A machine state is the stream state, the pending continuations
  (\<open>MgrTask\<close>) and the worker the last successful \<^verbatim>\<open>ingestor.Start\<close> left running.
\<close>

subsection \<open>The switch history is a path\<close>

abbreviation non_initial :: "SwitchEvent \<Rightarrow> bool" where
  "non_initial e \<equiv> se_Reason e \<noteq> SwitchReasonInitial"

fun linked :: "SwitchEvent list \<Rightarrow> bool" where
  "linked (e # f # es) \<longleftrightarrow> se_From e = se_To f \<and> linked (f # es)"
| "linked _ \<longleftrightarrow> True"

definition switch_path :: "SwitchEvent list \<Rightarrow> int \<Rightarrow> bool" where
  "switch_path hs act \<longleftrightarrow> linked (filter non_initial hs) \<and>
     (filter non_initial hs \<noteq> [] \<longrightarrow> se_To (hd (filter non_initial hs)) = act)"

lemma linked_Cons: "linked (e # es) \<longleftrightarrow> linked es \<and> (es \<noteq> [] \<longrightarrow> se_From e = se_To (hd es))"
  by (cases es) auto

lemma linked_take: "linked es \<Longrightarrow> linked (take n es)"
proof (induction es arbitrary: n)
  case Nil
  then show ?case by simp
next
  case (Cons e es)
  then show ?case by (cases n) (auto simp: linked_Cons hd_take)
qed

lemma filter_take: "\<exists>k. filter P (take n xs) = take k (filter P xs)"
proof (induction xs arbitrary: n)
  case Nil
  then show ?case by simp
next
  case (Cons x xs)
  show ?case
  proof (cases n)
    case 0
    then show ?thesis by (intro exI [of _ 0]) simp
  next
    case (Suc m)
    from Cons.IH obtain k where "filter P (take m xs) = take k (filter P xs)" by blast
    with Suc show ?thesis by (cases "P x") (auto intro: exI [of _ "Suc k"] exI [of _ k])
  qed
qed

lemma switch_path_take: "switch_path hs act \<Longrightarrow> switch_path (take n hs) act"
  using filter_take [of non_initial n hs]
  by (auto simp: switch_path_def linked_take hd_take)

lemma switch_path_Cons:
  "switch_path hs act \<Longrightarrow> non_initial e \<Longrightarrow> se_From e = act \<Longrightarrow> switch_path (e # hs) (se_To e)"
  by (auto simp: switch_path_def linked_Cons)

lemma switch_path_push:
  assumes "length hs \<le> maxSwitchHistory" and "switch_path hs act" and "non_initial e" and "se_From e = act"
  shows "switch_path (push_switch e hs) (se_To e)"
  using switch_log.push_newest [OF switch_log.cap_pos assms(1), of e] assms(2-)
  by (simp add: switch_path_take switch_path_Cons)

lemma switch_path_push_initial:
  assumes "length hs \<le> maxSwitchHistory" and "switch_path hs act" and "\<not> non_initial e"
  shows "switch_path (push_switch e hs) act"
proof -
  have "switch_path (e # hs) act" using assms(2,3) by (simp add: switch_path_def)
  then show ?thesis
    using switch_log.push_newest [OF switch_log.cap_pos assms(1), of e] by (simp add: switch_path_take)
qed

subsection \<open>The state invariant\<close>

definition mgr_wf :: "StreamState \<Rightarrow> bool" where
  "mgr_wf st \<longleftrightarrow> inputs_wf (st_nextId st) (st_inputs st) \<and>
     length (st_switchHistory st) \<le> maxSwitchHistory \<and>
     switch_path (st_switchHistory st) (st_active st)"

text \<open>Degraded inputs are waiting for a probe: each carries the time it was degraded.\<close>

definition probe_ready :: "StreamState \<Rightarrow> bool" where
  "probe_ready st \<longleftrightarrow> (\<forall>p h. gget (st_inputs st) p = Some h \<and> h_Status h = StatusDegraded \<longrightarrow>
     gget (st_degradedAt st) p \<noteq> None)"

definition good_update :: "(InputHealth \<Rightarrow> InputHealth) \<Rightarrow> bool" where
  "good_update f \<longleftrightarrow> (\<forall>h. h_id (f h) = h_id h \<and> h_prio (f h) = h_prio h \<and>
     (length (h_Errors h) \<le> maxInputErrorHistory \<longrightarrow> length (h_Errors (f h)) \<le> maxInputErrorHistory))"

lemma inputs_wf_upd:
  "inputs_wf n (st_inputs st) \<Longrightarrow> good_update f \<Longrightarrow> inputs_wf n (st_inputs (upd_input p f st))"
  by (auto simp: inputs_wf_def good_update_def map_simps split: if_splits)

lemma mgr_wf_upd: "mgr_wf st \<Longrightarrow> good_update f \<Longrightarrow> mgr_wf (upd_input p f st)"
  by (simp add: mgr_wf_def inputs_wf_upd)

lemma good_update_intros [intro, simp]:
  "good_update (\<lambda>h. h\<lparr>h_LastPacketAt := t\<rparr>)"
  "good_update (\<lambda>h. h\<lparr>h_LastPacketAt := t, h_Status := s, h_Errors := []\<rparr>)"
  "good_update (\<lambda>h. recordInputError (h\<lparr>h_Status := s\<rparr>) m t)"
  "good_update demote_active"
  "good_update (\<lambda>h. if h_id h = i then h\<lparr>h_Status := s\<rparr> else h)"
  by (simp_all add: good_update_def error_log.push_bounded)

lemma mgr_wf_fields [simp]:
  "mgr_wf (st\<lparr>st_degradedAt := d\<rparr>) = mgr_wf st"
  "mgr_wf (st\<lparr>st_probing := b\<rparr>) = mgr_wf st"
  "mgr_wf (st\<lparr>st_lastSwitchAt := t\<rparr>) = mgr_wf st"
  "mgr_wf (st\<lparr>st_overridePriority := q\<rparr>) = mgr_wf st"
  "mgr_wf (st\<lparr>st_dead := x\<rparr>) = mgr_wf st"
  "mgr_wf (st\<lparr>st_exhausted := x\<rparr>) = mgr_wf st"
  "mgr_wf (st\<lparr>st_bufferWriteID := c\<rparr>) = mgr_wf st"
  "mgr_wf (clearOverrideIfNeeded st best) = mgr_wf st"
  by (simp_all add: mgr_wf_def)

lemma mgr_wf_table: "mgr_wf st \<Longrightarrow> inputs_wf (st_nextId st) (st_inputs st)"
  by (simp add: mgr_wf_def)

lemma mgr_wf_recordSwitch:
  "mgr_wf st \<Longrightarrow> se_Reason e = r \<Longrightarrow> r \<noteq> SwitchReasonInitial \<Longrightarrow> se_From e = st_active st \<Longrightarrow>
   se_To e = st_active st \<Longrightarrow> mgr_wf (recordSwitch st e)"
  using switch_path_push [of "st_switchHistory st" "st_active st" e]
  by (auto simp: mgr_wf_def switch_log.push_bounded)


subsection \<open>Every critical section keeps it\<close>

lemma recordPacket_locked_wf: "mgr_wf st \<Longrightarrow> mgr_wf (fst (recordPacket_locked now p st))"
proof -
  assume wf: "mgr_wf st"
  let ?st1 = "upd_input p (\<lambda>h. h\<lparr>h_LastPacketAt := now, h_Status := StatusActive, h_Errors := []\<rparr>) st"
  let ?st2 = "?st1\<lparr>st_degradedAt := gdel p (st_degradedAt ?st1), st_exhausted := False, st_lastSwitchAt := now\<rparr>"
  have wf2: "mgr_wf ?st2" using wf by (simp add: mgr_wf_upd)
  have "st_active ?st2 = p \<Longrightarrow> se_From e = p \<Longrightarrow> se_To e = p \<Longrightarrow>
      se_Reason e = SwitchReasonRecovery \<Longrightarrow> mgr_wf (recordSwitch ?st2 e)" for e
    using mgr_wf_recordSwitch [OF wf2, of e SwitchReasonRecovery] by simp
  then show ?thesis
    using wf wf2 by (auto simp: recordPacket_locked_def Let_def mgr_wf_upd split: option.splits)
qed

lemma reportInputError_locked_wf:
  "mgr_wf st \<Longrightarrow> reportInputError_locked now p err st = Some st' \<Longrightarrow> mgr_wf st'"
  by (auto simp: reportInputError_locked_def Let_def mgr_wf_upd split: option.splits if_splits)

lemma tick_input_wf: "mgr_wf (ta_st acc) \<Longrightarrow> mgr_wf (ta_st (tick_input now to p acc))"
  by (auto simp: tick_input_def collectProbeIfNeeded_def collectTimeoutIfNeeded_def Let_def mgr_wf_upd
      split: option.splits)

lemma checkHealth_locked_wf:
  assumes "mgr_wf st"
  shows "mgr_wf (ta_st (fst (checkHealth_locked now to st)))"
proof -
  have "mgr_wf (ta_st acc) \<Longrightarrow> mgr_wf (ta_st (fold (tick_input now to) ps acc))" for ps acc
    by (induction ps arbitrary: acc) (auto intro: tick_input_wf)
  with assms show ?thesis by (simp add: checkHealth_locked_def Let_def)
qed

lemma tryFailover_begin_wf: "mgr_wf st \<Longrightarrow> mgr_wf (fst (tryFailover_begin_locked st))"
  by (auto simp: tryFailover_begin_locked_def Let_def split: option.splits)

lemma commitSwitch_wf:
  assumes "mgr_wf st" and "reason \<noteq> SwitchReasonInitial"
  shows "mgr_wf (commitSwitch now prev best reason detail st)"
proof (cases "st_dead st \<or> st_active st \<noteq> prev")
  case True
  with assms(1) show ?thesis by (simp add: commitSwitch_def)
next
  case False
  let ?q = "in_Priority best"
  let ?st2 = "(upd_input prev demote_active st)\<lparr>st_active := ?q, st_lastSwitchAt := now, st_exhausted := False\<rparr>"
  let ?f = "\<lambda>h. h\<lparr>h_LastPacketAt := now\<rparr>"
  let ?e = "\<lparr>se_At = now, se_From = prev, se_To = ?q, se_Reason = reason, se_Detail = detail\<rparr>"
  have "inputs_wf (st_nextId st) (st_inputs (upd_input ?q ?f ?st2))"
    using assms(1) by (intro inputs_wf_upd) (simp_all add: mgr_wf_def inputs_wf_upd)
  moreover have "switch_path (push_switch ?e (st_switchHistory st)) ?q"
    using switch_path_push [of "st_switchHistory st" prev ?e] assms False by (simp add: mgr_wf_def)
  ultimately show ?thesis
    using assms(1) False by (simp add: commitSwitch_def Let_def mgr_wf_def switch_log.push_bounded)
qed

lemma probe_success_locked_wf:
  "mgr_wf st \<Longrightarrow> probe_success_locked now t st = Some (st', r) \<Longrightarrow> mgr_wf st'"
  by (auto simp: probe_success_locked_def Let_def mgr_wf_upd split: if_splits)

lemma probe_clear_locked_wf: "mgr_wf st \<Longrightarrow> mgr_wf (probe_clear_locked t st)"
  by (simp add: probe_clear_locked_def)

lemma switchInput_locked_wf: "mgr_wf st \<Longrightarrow> switchInput_locked p st = Inr st' \<Longrightarrow> mgr_wf st'"
  by (auto simp: switchInput_locked_def split: option.splits if_splits)

lemma upd_removed_wf: "mgr_wf (fst x) \<Longrightarrow> mgr_wf (fst (upd_removed inp x))"
  by (cases x) (auto simp: upd_removed_def mgr_wf_def inputs_wf_def map_simps)

lemma inputs_wf_fresh:
  "inputs_wf n m \<Longrightarrow> inputs_wf (Suc n) (gput (in_Priority inp) (fresh_health n t inp) m)"
  by (auto simp: inputs_wf_def map_simps fresh_health_def less_SucI)

lemma upd_added_wf: "mgr_wf (fst x) \<Longrightarrow> mgr_wf (fst (upd_added inp x))"
  by (cases x) (auto simp: upd_added_def mgr_wf_def inputs_wf_fresh)

lemma upd_updated_wf: "mgr_wf (fst x) \<Longrightarrow> mgr_wf (fst (upd_updated inp x))"
  by (cases x) (auto simp: upd_updated_def mgr_wf_def inputs_wf_def map_simps split: option.splits if_splits)

lemma fold_wf:
  "(\<And>i x. mgr_wf (fst x) \<Longrightarrow> mgr_wf (fst (f i x))) \<Longrightarrow> mgr_wf (fst x) \<Longrightarrow> mgr_wf (fst (fold f js x))"
  by (induction js arbitrary: x) auto

lemma updateInputs_locked_wf:
  assumes "mgr_wf st" and "updateInputs_locked a r u st = Some (st', x)"
  shows "mgr_wf st'"
proof -
  obtain st1 r1 where 1: "fold upd_removed r (st, None) = (st1, r1)" by fastforce
  obtain st2 r2 where 2: "fold upd_added a (st1, r1) = (st2, r2)" by fastforce
  obtain st3 r3 where 3: "fold upd_updated u (st2, None) = (st3, r3)" by fastforce
  have "mgr_wf st1" using fold_wf [where f = upd_removed and x = "(st, None)" and js = r, OF upd_removed_wf] assms(1) 1 by simp
  then have "mgr_wf st2" using fold_wf [where f = upd_added and x = "(st1, r1)" and js = a, OF upd_added_wf] 2 by simp
  then have "mgr_wf st3" using fold_wf [where f = upd_updated and x = "(st2, None)" and js = u, OF upd_updated_wf] 3 by simp
  then show ?thesis using assms(2) 1 2 3 by (auto simp: updateInputs_locked_def split: if_splits)
qed

lemma updateBufferWriteID_wf: "mgr_wf st \<Longrightarrow> mgr_wf (fst (updateBufferWriteID b st))"
  by (auto simp: updateBufferWriteID_def Let_def split: option.splits)

lemma record_initial_wf: "mgr_wf st \<Longrightarrow> mgr_wf (recordSwitch st (initial_event now p))"
  using switch_path_push_initial [of "st_switchHistory st" "st_active st" "initial_event now p"]
  by (simp add: mgr_wf_def switch_log.push_bounded initial_event_def)

lemma register_input_wf:
  "st_switchHistory st = [] \<Longrightarrow> inputs_wf (st_nextId st) (st_inputs st) \<Longrightarrow>
   st_switchHistory (fold (register_input t) inps st) = [] \<and>
   inputs_wf (st_nextId (fold (register_input t) inps st)) (st_inputs (fold (register_input t) inps st))"
  by (induction inps arbitrary: st) (auto simp: register_input_def inputs_wf_fresh)

lemma new_state_wf: "mgr_wf (new_state now t inps buf)"
  using register_input_wf [of "\<lparr>st_inputs = [], st_active = 0, st_bufferWriteID = buf, st_degradedAt = [],
        st_probing = [], st_lastSwitchAt = now, st_switchHistory = [], st_overridePriority = None,
        st_dead = False, st_exhausted = False, st_nextId = 0\<rparr>" t inps]
  by (simp add: new_state_def mgr_wf_def inputs_wf_def switch_path_def)

lemma new_state_history: "st_switchHistory (new_state now t inps buf) = []"
  using register_input_wf [of "\<lparr>st_inputs = [], st_active = 0, st_bufferWriteID = buf, st_degradedAt = [],
        st_probing = [], st_lastSwitchAt = now, st_switchHistory = [], st_overridePriority = None,
        st_dead = False, st_exhausted = False, st_nextId = 0\<rparr>" t inps]
  by (simp add: new_state_def inputs_wf_def)

lemma activate_initial_wf:
  "mgr_wf st \<Longrightarrow> st_switchHistory st = [] \<Longrightarrow> mgr_wf (activate_initial st)"
  by (auto simp: activate_initial_def mgr_wf_def switch_path_def split: option.splits)


subsection \<open>The concurrent machine\<close>

datatype MgrTask =
    TInitStart Input                                      \<comment> \<open>Register, before ingestor.Start\<close>
  | TInitial int                                          \<comment> \<open>Register, before recording the event\<close>
  | TTry SwitchReason DetailMsg                           \<comment> \<open>about to enter tryFailover\<close>
  | TStart int Input SwitchReason DetailMsg StreamCode    \<comment> \<open>decided, before ingestor.Start\<close>
  | TCommit int Input SwitchReason DetailMsg              \<comment> \<open>started, before commitSwitch\<close>
  | TProbe ProbeTask                                      \<comment> \<open>probe in flight\<close>
  | TProbeEnd ProbeTask                                   \<comment> \<open>before the deferred clear\<close>

record MgrSys =
  sys_st :: StreamState
  sys_tasks :: "MgrTask list"
  sys_worker :: "Input option"

definition after_begin :: "SwitchReason \<Rightarrow> DetailMsg \<Rightarrow> FoOutcome \<Rightarrow> MgrTask list" where
  "after_begin r d out =
     (case out of FoSwitch prev was inp buf \<Rightarrow> [TStart prev inp r d buf] | _ \<Rightarrow> [])"

definition after_tick :: "TickAcc \<times> bool \<Rightarrow> MgrTask list" where
  "after_tick x = (case x of (acc, fb) \<Rightarrow>
     (if 0 \<le> ta_timedOut acc then [TTry SwitchReasonTimeout (ta_detail acc)] else [])
     @ map TProbe (ta_tasks acc)
     @ (if fb then [TTry SwitchReasonFailback (Text [])] else []))"

definition after_probe :: "ProbeTask \<Rightarrow> int \<times> bool \<times> duration \<Rightarrow> MgrTask list" where
  "after_probe t x = (case x of (act, was, since) \<Rightarrow>
     (case probe_decision t act was since of Some r \<Rightarrow> [TTry r (Text [])] | None \<Rightarrow> [])
     @ [TProbeEnd t])"

definition mgr_init :: "gotime \<Rightarrow> gotime \<Rightarrow> Input list \<Rightarrow> StreamCode \<Rightarrow> MgrSys" where
  "mgr_init now regNow inps buf =
     (let st0 = new_state now regNow inps buf in
      \<lparr>sys_st = activate_initial st0,
       sys_tasks = (case selectBest st0 of None \<Rightarrow> [] | Some h \<Rightarrow> [TInitStart (h_Input h)]),
       sys_worker = None\<rparr>)"

inductive mgr_step :: "MgrSys \<Rightarrow> MgrSys \<Rightarrow> bool" where
  packet: "mgr_step s (s\<lparr>sys_st := fst (recordPacket_locked now p (sys_st s))\<rparr>)"
| ingest_error: "reportInputError_locked now p err (sys_st s) = Some st' \<Longrightarrow>
     mgr_step s (s\<lparr>sys_st := st', sys_tasks := TTry SwitchReasonError (Text (err_msg err)) # sys_tasks s\<rparr>)"
| tick: "checkHealth_locked now timeout (sys_st s) = r \<Longrightarrow>
     mgr_step s (s\<lparr>sys_st := ta_st (fst r), sys_tasks := after_tick r @ sys_tasks s\<rparr>)"
| manual: "switchInput_locked p (sys_st s) = Inr st' \<Longrightarrow>
     mgr_step s (s\<lparr>sys_st := st', sys_tasks := TTry SwitchReasonManual (Text []) # sys_tasks s\<rparr>)"
| update: "updateInputs_locked a r u (sys_st s) = Some (st', Some reason, ri) \<Longrightarrow>
     mgr_step s (s\<lparr>sys_st := st', sys_tasks := TTry reason (Text []) # sys_tasks s\<rparr>)"
| update_quiet: "updateInputs_locked a r u (sys_st s) = Some (st', None, ri) \<Longrightarrow>
     w = (case ri of None \<Rightarrow> sys_worker s | Some inp \<Rightarrow> if ok then Some inp else sys_worker s) \<Longrightarrow>
     mgr_step s (s\<lparr>sys_st := st', sys_worker := w\<rparr>)"
| rebuffer: "mgr_step s (s\<lparr>sys_st := fst (updateBufferWriteID b (sys_st s))\<rparr>)"
| fo_begin: "TTry r d \<in> set (sys_tasks s) \<Longrightarrow> tryFailover_begin_locked (sys_st s) = (st', out) \<Longrightarrow>
     mgr_step s (s\<lparr>sys_st := st',
        sys_tasks := after_begin r d out @ remove1 (TTry r d) (sys_tasks s)\<rparr>)"
| start_ok: "TStart prev inp r d buf \<in> set (sys_tasks s) \<Longrightarrow>
     mgr_step s (s\<lparr>sys_worker := Some inp,
        sys_tasks := TCommit prev inp r d # remove1 (TStart prev inp r d buf) (sys_tasks s)\<rparr>)"
| start_err: "TStart prev inp r d buf \<in> set (sys_tasks s) \<Longrightarrow>
     mgr_step s (s\<lparr>sys_tasks := remove1 (TStart prev inp r d buf) (sys_tasks s)\<rparr>)"
| committed: "TCommit prev inp r d \<in> set (sys_tasks s) \<Longrightarrow>
     mgr_step s (s\<lparr>sys_st := commitSwitch now prev inp r d (sys_st s),
        sys_tasks := remove1 (TCommit prev inp r d) (sys_tasks s)\<rparr>)"
| probe_fail: "TProbe t \<in> set (sys_tasks s) \<Longrightarrow>
     mgr_step s (s\<lparr>sys_tasks := TProbeEnd t # remove1 (TProbe t) (sys_tasks s)\<rparr>)"
| probe_ok: "TProbe t \<in> set (sys_tasks s) \<Longrightarrow>
     probe_success_locked now t (sys_st s) = Some (st', x) \<Longrightarrow>
     mgr_step s (s\<lparr>sys_st := st', sys_tasks := after_probe t x @ remove1 (TProbe t) (sys_tasks s)\<rparr>)"
| probe_end: "TProbeEnd t \<in> set (sys_tasks s) \<Longrightarrow>
     mgr_step s (s\<lparr>sys_st := probe_clear_locked t (sys_st s),
        sys_tasks := remove1 (TProbeEnd t) (sys_tasks s)\<rparr>)"
| init_ok: "TInitStart inp \<in> set (sys_tasks s) \<Longrightarrow>
     mgr_step s (s\<lparr>sys_worker := Some inp,
        sys_tasks := TInitial (in_Priority inp) # remove1 (TInitStart inp) (sys_tasks s)\<rparr>)"
| init_err: "TInitStart inp \<in> set (sys_tasks s) \<Longrightarrow>
     reportInputError_locked now (in_Priority inp) err (sys_st s) = Some st' \<Longrightarrow>
     mgr_step s (s\<lparr>sys_st := st', sys_tasks := TTry SwitchReasonError (Text (err_msg err))
                    # remove1 (TInitStart inp) (sys_tasks s)\<rparr>)"
| init_err_ignored: "TInitStart inp \<in> set (sys_tasks s) \<Longrightarrow>
     reportInputError_locked now (in_Priority inp) err (sys_st s) = None \<Longrightarrow>
     mgr_step s (s\<lparr>sys_tasks := remove1 (TInitStart inp) (sys_tasks s)\<rparr>)"
| init_record: "TInitial p \<in> set (sys_tasks s) \<Longrightarrow>
     mgr_step s (s\<lparr>sys_st := recordSwitch (sys_st s) (initial_event now p),
        sys_tasks := remove1 (TInitial p) (sys_tasks s)\<rparr>)"
| unregister: "mgr_step s (s\<lparr>sys_st := (sys_st s)\<lparr>st_dead := True\<rparr>\<rparr>)"

inductive mgr_reachable :: "Input list \<Rightarrow> MgrSys \<Rightarrow> bool" for inps where
  init: "mgr_reachable inps (mgr_init now regNow inps buf)"
| step: "mgr_reachable inps s \<Longrightarrow> mgr_step s t \<Longrightarrow> mgr_reachable inps t"

fun task_wf :: "MgrTask \<Rightarrow> bool" where
  "task_wf (TTry r d) \<longleftrightarrow> r \<noteq> SwitchReasonInitial"
| "task_wf (TStart prev inp r d buf) \<longleftrightarrow> r \<noteq> SwitchReasonInitial"
| "task_wf (TCommit prev inp r d) \<longleftrightarrow> r \<noteq> SwitchReasonInitial"
| "task_wf _ \<longleftrightarrow> True"

definition sys_inv :: "MgrSys \<Rightarrow> bool" where
  "sys_inv s \<longleftrightarrow> mgr_wf (sys_st s) \<and> (\<forall>t \<in> set (sys_tasks s). task_wf t)"

lemma sys_inv_remove: "t \<in> set (remove1 x (sys_tasks s)) \<Longrightarrow> sys_inv s \<Longrightarrow> task_wf t"
  using set_remove1_subset [of x "sys_tasks s"] by (auto simp: sys_inv_def)

lemma sys_inv_task: "t \<in> set (sys_tasks s) \<Longrightarrow> sys_inv s \<Longrightarrow> task_wf t"
  by (simp add: sys_inv_def)

lemma upd_reason:
  "x = (st, r) \<Longrightarrow> r \<noteq> Some SwitchReasonInitial \<Longrightarrow>
   snd (fold upd_added a x) \<noteq> Some SwitchReasonInitial \<and> snd (fold upd_removed a x) \<noteq> Some SwitchReasonInitial"
  by (induction a arbitrary: x st r) (auto simp: upd_added_def upd_removed_def)

lemma updateInputs_locked_reason:
  assumes "updateInputs_locked a r u st = Some (st', Some reason, ri)"
  shows "reason \<noteq> SwitchReasonInitial"
proof -
  obtain st1 r1 where 1: "fold upd_removed r (st, None) = (st1, r1)" by fastforce
  obtain st2 r2 where 2: "fold upd_added a (st1, r1) = (st2, r2)" by fastforce
  have "r1 \<noteq> Some SwitchReasonInitial" using upd_reason [of "(st, None)" st None r] 1 by simp
  then have "r2 \<noteq> Some SwitchReasonInitial" using upd_reason [of "(st1, r1)" st1 r1 a] 2 by simp
  then show ?thesis using assms 1 2 by (auto simp: updateInputs_locked_def split: if_splits prod.splits)
qed

lemma after_tasks_wf:
  "r \<noteq> SwitchReasonInitial \<Longrightarrow> t \<in> set (after_begin r d out) \<Longrightarrow> task_wf t"
  "t \<in> set (after_tick y) \<Longrightarrow> task_wf t"
  "t \<in> set (after_probe q x) \<Longrightarrow> task_wf t"
  by (auto simp: after_begin_def after_tick_def after_probe_def probe_decision_def
      split: FoOutcome.splits prod.splits option.splits if_splits)

lemmas section_wf = recordPacket_locked_wf reportInputError_locked_wf checkHealth_locked_wf
  switchInput_locked_wf updateInputs_locked_wf updateBufferWriteID_wf commitSwitch_wf
  probe_success_locked_wf probe_clear_locked_wf record_initial_wf

lemma mgr_step_inv: "mgr_step s t \<Longrightarrow> sys_inv s \<Longrightarrow> sys_inv t"
proof (induction rule: mgr_step.induct)
  case (fo_begin r d s st' out)
  have "mgr_wf st'" using tryFailover_begin_wf [of "sys_st s"] fo_begin by (simp add: sys_inv_def)
  moreover have "r \<noteq> SwitchReasonInitial" using sys_inv_task [OF fo_begin(1,3)] by simp
  ultimately show ?case
    using fo_begin(3) by (auto simp: sys_inv_def after_tasks_wf dest: sys_inv_remove notin_set_remove1)
next
  case (committed prev inp r d s now)
  have "r \<noteq> SwitchReasonInitial" using sys_inv_task [OF committed] by simp
  with committed(2) show ?case
    by (auto simp: sys_inv_def commitSwitch_wf dest: notin_set_remove1)
next
  case (start_ok prev inp r d buf s)
  have "r \<noteq> SwitchReasonInitial" using sys_inv_task [OF start_ok] by simp
  with start_ok(2) show ?case by (auto simp: sys_inv_def dest: notin_set_remove1)
next
  case (update a r u s st' reason ri)
  then show ?case
    using updateInputs_locked_reason [OF update(1)] by (auto simp: sys_inv_def intro: section_wf)
qed (auto simp: sys_inv_def after_tasks_wf dest: notin_set_remove1 intro: section_wf)

lemma mgr_init_inv: "sys_inv (mgr_init now regNow inps buf)"
  by (auto simp: sys_inv_def mgr_init_def Let_def activate_initial_wf new_state_wf new_state_history
      split: option.splits)

lemma mgr_reachable_inv: "mgr_reachable inps s \<Longrightarrow> sys_inv s"
  by (induction rule: mgr_reachable.induct) (auto intro: mgr_init_inv mgr_step_inv)

end
