(* ===== verification/Failover_Props.thy ===== *)
theory Failover_Props
  imports Failover_Machine
begin

text \<open>
  What the failover engine of \<^verbatim>\<open>internal/manager/service.go\<close> promises: the choice of the input, the
  failover on a packet timeout, the exhaustion callbacks, and the states it cannot leave.
\<close>

subsection \<open>The choice of the input, characterised\<close>

definition best_choice :: "StreamState \<Rightarrow> InputHealth \<Rightarrow> bool" where
  "best_choice st h \<longleftrightarrow> gget (st_inputs st) (h_prio h) = Some h \<and> \<not> unusable h \<and>
     (st_overridePriority st = Some (h_prio h) \<or>
      (\<forall>p x. st_overridePriority st = Some p \<longrightarrow> gget (st_inputs st) p = Some x \<longrightarrow> unusable x) \<and>
      (\<forall>p x. gget (st_inputs st) p = Some x \<longrightarrow> \<not> unusable x \<longrightarrow> h_prio h \<le> p))"

lemma best_choice_unique:
  assumes "best_choice st h" and "best_choice st k"
  shows "h = k"
proof -
  have "h_prio h = h_prio k"
    using assms by (auto simp: best_choice_def intro: order.antisym)
  then show ?thesis using assms unfolding best_choice_def by (metis option.inject)
qed

lemma selectBest_choice:
  assumes "inputs_wf n (st_inputs st)" and "selectBest st = Some h"
  shows "best_choice st h"
proof -
  note g = selectBest_gget [OF assms]
  consider (override) p where "st_overridePriority st = Some p" "gget (st_inputs st) p = Some h"
    | (scan) "scan_best (st_inputs st) None = Some h"
        "\<forall>p x. st_overridePriority st = Some p \<longrightarrow> gget (st_inputs st) p = Some x \<longrightarrow> unusable x"
    using assms(2) by (auto simp: selectBest_def split: option.splits if_splits)
  then show ?thesis
  proof cases
    case override
    then have "h_prio h = p" using inputs_wf_prio [OF assms(1)] by simp
    with g override show ?thesis by (simp add: best_choice_def)
  next
    case scan
    with g scan_best_least [OF assms(1) scan(1)] show ?thesis unfolding best_choice_def by blast
  qed
qed

lemma selectBest_iff:
  assumes "inputs_wf n (st_inputs st)"
  shows "selectBest st = Some h \<longleftrightarrow> best_choice st h"
proof
  assume h: "best_choice st h"
  have "selectBest st \<noteq> None"
    using h by (auto simp: selectBest_None [OF inputs_wf_gwf [OF assms]] best_choice_def)
  then obtain k where "selectBest st = Some k" by blast
  with best_choice_unique [OF h selectBest_choice [OF assms this]] show "selectBest st = Some h" by simp
qed (rule selectBest_choice [OF assms])

lemma best_choice_cong:
  assumes "map_of (st_inputs st) = map_of (st_inputs st')"
    and "st_overridePriority st = st_overridePriority st'"
  shows "best_choice st h = best_choice st' h"
  using assms by (simp add: best_choice_def)

lemma selectBest_cong:
  assumes "inputs_wf n (st_inputs st)" and "inputs_wf m (st_inputs st')"
    and "map_of (st_inputs st) = map_of (st_inputs st')"
    and "st_overridePriority st = st_overridePriority st'"
  shows "selectBest st = selectBest st'"
  using selectBest_iff [OF assms(1)] selectBest_iff [OF assms(2)] best_choice_cong [OF assms(3,4)]
  by (metis not_None_eq)

subsection \<open>One pass of the monitor\<close>

definition timed_out :: "gotime \<Rightarrow> duration \<Rightarrow> InputHealth \<Rightarrow> bool" where
  "timed_out now timeout h \<longleftrightarrow> h_Status h \<noteq> StatusDegraded \<and> timeout < now - h_LastPacketAt h"

definition timeout_msg :: "gotime \<Rightarrow> duration \<Rightarrow> InputHealth \<Rightarrow> DetailMsg" where
  "timeout_msg now timeout h = NoPacketFor (truncate_second (now - h_LastPacketAt h)) timeout"

definition expire :: "gotime \<Rightarrow> duration \<Rightarrow> InputHealth \<Rightarrow> InputHealth" where
  "expire now timeout h =
     (if timed_out now timeout h
      then recordInputError (h\<lparr>h_Status := StatusDegraded\<rparr>) (timeout_msg now timeout h) now else h)"

lemma expire_simps [simp]:
  "h_Input (expire now to h) = h_Input h" "h_id (expire now to h) = h_id h"
  "expire now to (expire now to h) = expire now to h"
  "timed_out now to h \<Longrightarrow> h_Status (expire now to h) = StatusDegraded"
  "\<not> timed_out now to (expire now to h)"
  by (auto simp: expire_def timed_out_def)

lemma good_update_expire [simp]: "good_update (expire now to)"
  by (simp add: good_update_def expire_def error_log.push_bounded)

lemma collectTimeout_fields [simp]:
  "st_active (ta_st (collectTimeoutIfNeeded now to p acc)) = st_active (ta_st acc)"
  "st_exhausted (ta_st (collectTimeoutIfNeeded now to p acc)) = st_exhausted (ta_st acc)"
  "st_overridePriority (ta_st (collectTimeoutIfNeeded now to p acc)) = st_overridePriority (ta_st acc)"
  "st_dead (ta_st (collectTimeoutIfNeeded now to p acc)) = st_dead (ta_st acc)"
  "st_lastSwitchAt (ta_st (collectTimeoutIfNeeded now to p acc)) = st_lastSwitchAt (ta_st acc)"
  "st_switchHistory (ta_st (collectTimeoutIfNeeded now to p acc)) = st_switchHistory (ta_st acc)"
  "st_bufferWriteID (ta_st (collectTimeoutIfNeeded now to p acc)) = st_bufferWriteID (ta_st acc)"
  "st_probing (ta_st (collectTimeoutIfNeeded now to p acc)) = st_probing (ta_st acc)"
  "gkeys (st_inputs (ta_st (collectTimeoutIfNeeded now to p acc))) = gkeys (st_inputs (ta_st acc))"
  by (auto simp: collectTimeoutIfNeeded_def Let_def split: option.splits)

lemma collectProbe_fields [simp]:
  "st_inputs (ta_st (collectProbeIfNeeded now p acc)) = st_inputs (ta_st acc)"
  "st_active (ta_st (collectProbeIfNeeded now p acc)) = st_active (ta_st acc)"
  "st_exhausted (ta_st (collectProbeIfNeeded now p acc)) = st_exhausted (ta_st acc)"
  "st_overridePriority (ta_st (collectProbeIfNeeded now p acc)) = st_overridePriority (ta_st acc)"
  "st_dead (ta_st (collectProbeIfNeeded now p acc)) = st_dead (ta_st acc)"
  "st_lastSwitchAt (ta_st (collectProbeIfNeeded now p acc)) = st_lastSwitchAt (ta_st acc)"
  "st_switchHistory (ta_st (collectProbeIfNeeded now p acc)) = st_switchHistory (ta_st acc)"
  "st_bufferWriteID (ta_st (collectProbeIfNeeded now p acc)) = st_bufferWriteID (ta_st acc)"
  "st_degradedAt (ta_st (collectProbeIfNeeded now p acc)) = st_degradedAt (ta_st acc)"
  "ta_timedOut (collectProbeIfNeeded now p acc) = ta_timedOut acc"
  "ta_detail (collectProbeIfNeeded now p acc) = ta_detail acc"
  by (auto simp: collectProbeIfNeeded_def Let_def split: option.splits)

lemma collectTimeout_gget [map_simps]:
  "gget (st_inputs (ta_st (collectTimeoutIfNeeded now to p acc))) q =
     (if q = p \<and> p = st_active (ta_st acc) then map_option (expire now to) (gget (st_inputs (ta_st acc)) q)
      else gget (st_inputs (ta_st acc)) q)"
  by (auto simp: collectTimeoutIfNeeded_def Let_def map_simps expire_def timed_out_def timeout_msg_def
      split: option.splits)

definition expired :: "gotime \<Rightarrow> duration \<Rightarrow> StreamState \<Rightarrow> int \<Rightarrow> bool" where
  "expired now timeout st p \<longleftrightarrow> p = st_active st \<and>
     (case gget (st_inputs st) p of None \<Rightarrow> False | Some h \<Rightarrow> timed_out now timeout h)"

lemma collectTimeout_report:
  "ta_timedOut (collectTimeoutIfNeeded now to p acc) =
     (if expired now to (ta_st acc) p then p else ta_timedOut acc)"
  "ta_detail (collectTimeoutIfNeeded now to p acc) =
     (if expired now to (ta_st acc) p then timeout_msg now to (the (gget (st_inputs (ta_st acc)) p))
      else ta_detail acc)"
  "gget (st_degradedAt (ta_st (collectTimeoutIfNeeded now to p acc))) q =
     (if expired now to (ta_st acc) p \<and> q = p then Some now else gget (st_degradedAt (ta_st acc)) q)"
  by (auto simp: collectTimeoutIfNeeded_def Let_def expired_def timed_out_def timeout_msg_def map_simps
      split: option.splits)
abbreviation tick_all :: "gotime \<Rightarrow> duration \<Rightarrow> int list \<Rightarrow> TickAcc \<Rightarrow> TickAcc" where
  "tick_all now to ps acc \<equiv> fold (tick_input now to) ps acc"

lemma tick_all_fields [simp]:
  "st_active (ta_st (tick_all now to ps acc)) = st_active (ta_st acc)"
  "st_exhausted (ta_st (tick_all now to ps acc)) = st_exhausted (ta_st acc)"
  "st_overridePriority (ta_st (tick_all now to ps acc)) = st_overridePriority (ta_st acc)"
  "st_dead (ta_st (tick_all now to ps acc)) = st_dead (ta_st acc)"
  "st_lastSwitchAt (ta_st (tick_all now to ps acc)) = st_lastSwitchAt (ta_st acc)"
  "st_switchHistory (ta_st (tick_all now to ps acc)) = st_switchHistory (ta_st acc)"
  "st_bufferWriteID (ta_st (tick_all now to ps acc)) = st_bufferWriteID (ta_st acc)"
  by (induction ps arbitrary: acc) (simp_all add: tick_input_def)

lemma tick_input_gget:
  "gget (st_inputs (ta_st (tick_input now to p acc))) q =
     (if q = p \<and> p = st_active (ta_st acc) then map_option (expire now to) (gget (st_inputs (ta_st acc)) q)
      else gget (st_inputs (ta_st acc)) q)"
  by (simp add: tick_input_def map_simps)

lemma tick_input_active [simp]: "st_active (ta_st (tick_input now to p acc)) = st_active (ta_st acc)"
  by (simp add: tick_input_def)

lemma tick_all_gget:
  "gget (st_inputs (ta_st (tick_all now to ps acc))) q =
     (if q \<in> set ps \<and> q = st_active (ta_st acc) then map_option (expire now to) (gget (st_inputs (ta_st acc)) q)
      else gget (st_inputs (ta_st acc)) q)"
proof (induction ps arbitrary: acc)
  case Nil
  then show ?case by simp
next
  case (Cons p ps)
  have "map_option (expire now to) (map_option (expire now to) z) = map_option (expire now to) z" for z
    by (cases z) simp_all
  then show ?case
    using Cons.IH [of "tick_input now to p acc"] tick_input_gget [of now to p acc q] by auto
qed

lemma expired_tick_input [simp]:
  "expired now to (ta_st (tick_input now to q a)) r \<longleftrightarrow> expired now to (ta_st a) r \<and> q \<noteq> r"
  using tick_input_gget [of now to q a r] by (auto simp: expired_def split: option.splits)

lemma tick_input_report:
  "ta_timedOut (tick_input now to p acc) = (if expired now to (ta_st acc) p then p else ta_timedOut acc)"
  "ta_detail (tick_input now to p acc) =
     (if expired now to (ta_st acc) p then timeout_msg now to (the (gget (st_inputs (ta_st acc)) p))
      else ta_detail acc)"
  "gget (st_degradedAt (ta_st (tick_input now to p acc))) q =
     (if expired now to (ta_st acc) p \<and> q = p then Some now else gget (st_degradedAt (ta_st acc)) q)"
  by (simp_all add: tick_input_def collectTimeout_report)

lemma tick_all_quiet:
  assumes "\<not> expired now to (ta_st a) (st_active (ta_st a))"
  shows "ta_timedOut (tick_all now to qs a) = ta_timedOut a"
    "ta_detail (tick_all now to qs a) = ta_detail a"
    "st_degradedAt (ta_st (tick_all now to qs a)) = st_degradedAt (ta_st a)"
proof -
  have q: "\<not> expired now to (ta_st a) q" if "\<not> expired now to (ta_st a) (st_active (ta_st a))" for a q
    using that by (auto simp: expired_def)
  have "collectTimeoutIfNeeded now to q a = a"
    if "\<not> expired now to (ta_st a) (st_active (ta_st a))" for a q
    using q [OF that, of q]
    by (auto simp: collectTimeoutIfNeeded_def expired_def timed_out_def Let_def split: option.splits)
  then have "ta_timedOut (tick_all now to qs a) = ta_timedOut a \<and> ta_detail (tick_all now to qs a) = ta_detail a
      \<and> st_degradedAt (ta_st (tick_all now to qs a)) = st_degradedAt (ta_st a)"
    using assms
  proof (induction qs arbitrary: a)
    case Nil
    then show ?case by simp
  next
    case (Cons q qs)
    have c: "collectTimeoutIfNeeded now to q a = a" using Cons.prems by simp
    have "\<not> expired now to (ta_st a) q" using Cons.prems(2) by (auto simp: expired_def)
    moreover have "st_degradedAt (ta_st (tick_input now to q a)) = st_degradedAt (ta_st a)"
      by (simp add: tick_input_def c)
    ultimately show ?case
      using Cons.IH [OF Cons.prems(1), of "tick_input now to q a"] Cons.prems(2)
      by (simp add: tick_input_report)
  qed
  then show "ta_timedOut (tick_all now to qs a) = ta_timedOut a"
    "ta_detail (tick_all now to qs a) = ta_detail a"
    "st_degradedAt (ta_st (tick_all now to qs a)) = st_degradedAt (ta_st a)" by simp_all
qed

lemma tick_all_report:
  assumes "expired now to (ta_st acc) p" and "p \<in> set ps"
  shows "ta_timedOut (tick_all now to ps acc) = p \<and>
    ta_detail (tick_all now to ps acc) = timeout_msg now to (the (gget (st_inputs (ta_st acc)) p)) \<and>
    gget (st_degradedAt (ta_st (tick_all now to ps acc))) p = Some now"
  using assms
proof (induction ps arbitrary: acc)
  case Nil
  then show ?case by simp
next
  case (Cons q qs)
  have pa: "p = st_active (ta_st acc)" using Cons.prems(1) by (simp add: expired_def)
  show ?case
  proof (cases "q = p")
    case True
    then have "\<not> expired now to (ta_st (tick_input now to q acc)) (st_active (ta_st (tick_input now to q acc)))"
      using pa by simp
    note quiet = tick_all_quiet [OF this, of qs]
    show ?thesis using quiet True Cons.prems(1) by (simp add: tick_input_report)
  next
    case False
    then have "gget (st_inputs (ta_st (tick_input now to q acc))) p = gget (st_inputs (ta_st acc)) p"
      by (simp add: tick_input_gget)
    then show ?thesis using Cons.IH [of "tick_input now to q acc"] Cons.prems False by simp
  qed
qed

lemma tick_all_wf: "mgr_wf (ta_st acc) \<Longrightarrow> mgr_wf (ta_st (tick_all now to ps acc))"
  by (induction ps arbitrary: acc) (auto intro: tick_input_wf)

subsection \<open>A switch that is committed is stable\<close>

lemma selectBest_prio_eqI:
  "inputs_wf n (st_inputs st) \<Longrightarrow> best_choice st k \<Longrightarrow> selectBest st = Some k"
  by (simp add: selectBest_iff)

lemma selectBest_after_commit:
  assumes wf: "mgr_wf st" and best: "selectBest st = Some b" and live: "\<not> st_dead st"
    and act: "st_active st = prev" and "prev \<noteq> h_prio b" and r: "r \<noteq> SwitchReasonInitial"
  shows "\<exists>k. selectBest (commitSwitch cnow prev (h_Input b) r d (clearOverrideIfNeeded st (Some b))) = Some k \<and>
    h_prio k = h_prio b"
proof -
  let ?c = "commitSwitch cnow prev (h_Input b) r d (clearOverrideIfNeeded st (Some b))"
  let ?k = "b\<lparr>h_LastPacketAt := cnow\<rparr>"
  have n: "inputs_wf (st_nextId st) (st_inputs st)" by (rule mgr_wf_table [OF wf])
  have wfc: "inputs_wf (st_nextId ?c) (st_inputs ?c)"
    using commitSwitch_wf [of "clearOverrideIfNeeded st (Some b)" r cnow prev "h_Input b" d] wf r
    by (intro mgr_wf_table) simp
  have b: "best_choice st b" using selectBest_choice [OF n best] .
  have g: "gget (st_inputs ?c) q = (if q = h_prio b then Some ?k
      else if q = prev then map_option demote_active (gget (st_inputs st) q) else gget (st_inputs st) q)" for q
    using b act live assms(5) by (auto simp: commitSwitch_def Let_def map_simps best_choice_def)
  have o: "st_overridePriority ?c = (if st_overridePriority st = Some (h_prio b) then Some (h_prio b) else None)"
    using act live by (auto simp: commitSwitch_def Let_def clearOverrideIfNeeded_def split: option.splits)
  have "best_choice ?c ?k"
    using b o g unfolding best_choice_def
    by (auto simp: unusable_def demote_active_def split: if_splits option.splits)
  then show ?thesis using selectBest_prio_eqI [OF wfc] by fastforce
qed

lemma commitSwitch_active: "\<not> st_dead st \<Longrightarrow> st_active st = prev \<Longrightarrow>
    st_active (commitSwitch now prev inp r d st) = in_Priority inp \<and>
    st_exhausted (commitSwitch now prev inp r d st) = False \<and>
    st_dead (commitSwitch now prev inp r d st) = False \<and>
    st_degradedAt (commitSwitch now prev inp r d st) = st_degradedAt st"
  by (simp add: commitSwitch_def Let_def)

lemma tryFailover_same:
  "selectBest st = Some k \<Longrightarrow> h_prio k = st_active st \<Longrightarrow> \<not> st_exhausted st \<Longrightarrow> \<not> st_dead st \<Longrightarrow>
   tryFailover start cnow r d st = (clearOverrideIfNeeded st (Some k), [])"
  by (simp add: tryFailover_def tryFailover_begin_locked_def)

lemma tryFailover_commit:
  assumes "\<not> st_dead st" and "selectBest st = Some b" and "h_prio b \<noteq> st_active st"
    and "start (h_Input b) (st_bufferWriteID st) = None"
  shows "tryFailover start cnow r d st =
    (commitSwitch cnow (st_active st) (h_Input b) r d (clearOverrideIfNeeded st (Some b)),
     [EfStart (h_Input b) (st_bufferWriteID st), EfHealth (st_active st) 0, EfFailoversInc,
      EfInputFailover (st_active st) (h_prio b) r] @ (if st_exhausted st then [EfOnRestored] else []))"
  using assms by (simp add: tryFailover_def tryFailover_begin_locked_def)

fun is_start :: "Effect \<Rightarrow> bool" where
  "is_start (EfStart i b) \<longleftrightarrow> True"
| "is_start _ \<longleftrightarrow> False"

lemma no_start_probes [simp]: "filter is_start (map EfSpawnProbe ts) = []"
  by (induction ts) simp_all

lemma tick_all_table:
  assumes "inputs_wf n (st_inputs (ta_st acc))" and "st_active (ta_st acc) \<in> set ps"
  shows "map_of (st_inputs (ta_st (tick_all now to ps acc))) =
    map_of (st_inputs (upd_input (st_active (ta_st acc)) (expire now to) (ta_st acc)))"
  using assms by (auto simp: tick_all_gget map_simps)

lemma tick_selectBest:
  assumes "mgr_wf st" and "gget (st_inputs st) (st_active st) = Some h" and "ta_st acc = st"
  shows "selectBest (ta_st (tick_all now to (gkeys (st_inputs st)) acc)) =
    selectBest (upd_input (st_active st) (expire now to) st)"
proof (rule selectBest_cong)
  show "inputs_wf (st_nextId (ta_st (tick_all now to (gkeys (st_inputs st)) acc)))
      (st_inputs (ta_st (tick_all now to (gkeys (st_inputs st)) acc)))"
    using tick_all_wf assms(1,3) by (simp add: mgr_wf_table)
  show "inputs_wf (st_nextId st) (st_inputs (upd_input (st_active st) (expire now to) st))"
    using assms(1) by (simp add: inputs_wf_upd mgr_wf_table)
  have "st_active st \<in> set (gkeys (st_inputs st))"
    by (rule gget_key [OF assms(2)])
  then show "map_of (st_inputs (ta_st (tick_all now to (gkeys (st_inputs st)) acc))) =
      map_of (st_inputs (upd_input (st_active st) (expire now to) st))"
    using tick_all_table [of "st_nextId st" acc] assms(1,3) mgr_wf_table by simp
qed (simp add: assms(3))

lemma checkHealth_timeout:
  assumes wf: "mgr_wf st" and live: "\<not> st_dead st" and nn: "0 \<le> st_active st"
    and h: "gget (st_inputs st) (st_active st) = Some h" and late: "timed_out now to h"
    and best: "selectBest (upd_input (st_active st) (expire now to) st) = Some b"
    and ok: "start (h_Input b) (st_bufferWriteID st) = None"
    and acc: "acc = fst (checkHealth_locked now to st)"
    and c: "c = commitSwitch cnow (st_active st) (h_Input b) SwitchReasonTimeout (timeout_msg now to h)
        (clearOverrideIfNeeded (ta_st acc) (Some b))"
  shows "\<exists>s ef. checkHealth start now cnow to st = (s, ef) \<and> (s = c \<or> s = clearOverrideIfNeeded c (selectBest c)) \<and>
      filter is_start ef = [EfStart (h_Input b) (st_bufferWriteID st)] \<and> h_prio b \<noteq> st_active st"
proof -
  let ?a0 = "\<lparr>ta_st = st, ta_timedOut = -1, ta_detail = Text [], ta_tasks = []\<rparr>"
  have acc': "acc = tick_all now to (gkeys (st_inputs st)) ?a0"
    using live by (simp add: acc checkHealth_locked_def Let_def)
  have key: "st_active st \<in> set (gkeys (st_inputs st))" by (rule gget_key [OF h])
  have rep: "ta_timedOut acc = st_active st" "ta_detail acc = timeout_msg now to h"
    using tick_all_report [of now to ?a0 "st_active st", OF _ key] h late by (simp_all add: acc' expired_def)
  have sel: "selectBest (ta_st acc) = Some b"
    using tick_selectBest [OF wf h, of ?a0 now to] best acc' by simp
  have deg: "h_Status x = StatusDegraded" if "gget (st_inputs (ta_st acc)) (st_active st) = Some x" for x
    using that key h late by (auto simp: acc' tick_all_gget)
  have wfa: "mgr_wf (ta_st acc)" using tick_all_wf wf by (simp add: acc')
  have b: "gget (st_inputs (ta_st acc)) (h_prio b) = Some b" "\<not> unusable b"
    using selectBest_gget [OF mgr_wf_table [OF wfa] sel] by simp_all
  have ne: "h_prio b \<noteq> st_active st" using b deg by (auto simp: unusable_def)
  have fields: "st_active (ta_st acc) = st_active st" "st_dead (ta_st acc) = st_dead st"
      "st_bufferWriteID (ta_st acc) = st_bufferWriteID st" "st_exhausted (ta_st acc) = st_exhausted st"
    by (simp_all add: acc')
  have try1: "\<exists>ef. tryFailover start cnow SwitchReasonTimeout (timeout_msg now to h) (ta_st acc) = (c, ef) \<and>
      filter is_start ef = [EfStart (h_Input b) (st_bufferWriteID st)]"
    using tryFailover_commit [of "ta_st acc" b start cnow SwitchReasonTimeout "timeout_msg now to h"]
      sel ne live ok fields c by simp
  obtain k where k: "selectBest c = Some k" "h_prio k = h_prio b"
    using selectBest_after_commit [OF wfa sel, of "st_active st" SwitchReasonTimeout cnow "timeout_msg now to h"]
      live fields ne c by auto
  have ca: "st_active c = h_prio b" "\<not> st_exhausted c" "\<not> st_dead c"
    using commitSwitch_active [of "clearOverrideIfNeeded (ta_st acc) (Some b)" "st_active st"] live fields c by simp_all
  have try2: "tryFailover start cnow SwitchReasonFailback (Text []) c = (clearOverrideIfNeeded c (selectBest c), [])"
    using tryFailover_same [OF k(1)] k ca by simp
  obtain fb where "checkHealth_locked now to st = (acc, fb)" using acc by (metis prod.collapse)
  then show ?thesis
    using try1 try2 rep nn ne by (cases fb) (auto simp: checkHealth_def Let_def)
qed

lemma tick_degradedAt:
  assumes "gget (st_inputs st) (st_active st) = Some h" and "timed_out now to h" and "\<not> st_dead st"
  shows "gget (st_degradedAt (ta_st (fst (checkHealth_locked now to st)))) (st_active st) = Some now"
  using tick_all_report [of now to "\<lparr>ta_st = st, ta_timedOut = -1, ta_detail = Text [], ta_tasks = []\<rparr>"
      "st_active st", OF _ gget_key [OF assms(1)]] assms
  by (simp add: checkHealth_locked_def Let_def expired_def)

lemma tick_active_degraded:
  assumes "gget (st_inputs st) (st_active st) = Some h" and "timed_out now to h" and "\<not> st_dead st"
  shows "gget (st_inputs (ta_st (fst (checkHealth_locked now to st)))) (st_active st) = Some (expire now to h)"
  using gget_key [OF assms(1)] assms by (simp add: checkHealth_locked_def Let_def tick_all_gget)

lemma tick_locked_fields:
  "st_active (ta_st (fst (checkHealth_locked now to st))) = st_active st"
  "st_dead (ta_st (fst (checkHealth_locked now to st))) = st_dead st"
  "st_exhausted (ta_st (fst (checkHealth_locked now to st))) = st_exhausted st"
  "st_overridePriority (ta_st (fst (checkHealth_locked now to st))) = st_overridePriority st"
  "st_lastSwitchAt (ta_st (fst (checkHealth_locked now to st))) = st_lastSwitchAt st"
  by (simp_all add: checkHealth_locked_def Let_def)

text \<open>
  C1: when the active input has sent no packet for longer than the timeout and another usable input
  can be started, one monitor tick marks the active input degraded with the time of the tick, starts
  exactly one worker, for the best choice among the remaining inputs, makes that input active, clears
  the exhaustion flag and puts the switch, with its reason and the silence it saw, at the head of the
  history.
\<close>
theorem timeout_fails_over:
  assumes wf: "mgr_wf st" and live: "\<not> st_dead st" and nn: "0 \<le> st_active st"
    and h: "gget (st_inputs st) (st_active st) = Some h" and late: "timed_out now to h"
    and best: "best_choice (upd_input (st_active st) (expire now to) st) b"
    and ok: "start (h_Input b) (st_bufferWriteID st) = None"
    and run: "checkHealth start now cnow to st = (st', ef)"
  shows "filter is_start ef = [EfStart (h_Input b) (st_bufferWriteID st)] \<and>
    st_active st' = h_prio b \<and> h_prio b \<noteq> st_active st \<and> \<not> st_exhausted st' \<and>
    map_option h_Status (gget (st_inputs st') (st_active st)) = Some StatusDegraded \<and>
    gget (st_degradedAt st') (st_active st) = Some now \<and>
    hd (st_switchHistory st') = \<lparr>se_At = cnow, se_From = st_active st, se_To = h_prio b,
        se_Reason = SwitchReasonTimeout, se_Detail = timeout_msg now to h\<rparr>"
proof -
  define acc where "acc = fst (checkHealth_locked now to st)"
  define c where "c = commitSwitch cnow (st_active st) (h_Input b) SwitchReasonTimeout (timeout_msg now to h)
        (clearOverrideIfNeeded (ta_st acc) (Some b))"
  have sel: "selectBest (upd_input (st_active st) (expire now to) st) = Some b"
    using selectBest_iff [of "st_nextId st"] best wf by (simp add: inputs_wf_upd mgr_wf_table)
  from checkHealth_timeout [where start = start and cnow = cnow, OF wf live nn h late sel ok acc_def c_def] run
  have s: "st' = c \<or> st' = clearOverrideIfNeeded c (selectBest c)"
    and e: "filter is_start ef = [EfStart (h_Input b) (st_bufferWriteID st)]" and ne: "h_prio b \<noteq> st_active st"
    by auto
  have fields: "st_dead (ta_st acc) = False" "st_active (ta_st acc) = st_active st"
    using live by (simp_all add: acc_def tick_locked_fields)
  have ca: "st_active c = h_prio b" "\<not> st_exhausted c" "st_degradedAt c = st_degradedAt (ta_st acc)"
    using commitSwitch_active [of "clearOverrideIfNeeded (ta_st acc) (Some b)" "st_active st"] fields c_def by simp_all
  have ch: "hd (st_switchHistory c) = \<lparr>se_At = cnow, se_From = st_active st, se_To = h_prio b,
        se_Reason = SwitchReasonTimeout, se_Detail = timeout_msg now to h\<rparr>"
    using fields by (simp add: c_def commitSwitch_def Let_def push_switch_def)
  have cd: "map_option h_Status (gget (st_inputs c) (st_active st)) = Some StatusDegraded"
    using tick_active_degraded [OF h late live] late fields ne
    by (simp add: c_def commitSwitch_def Let_def map_simps demote_active_def acc_def)
  have "st_active st' = st_active c" "st_exhausted st' = st_exhausted c" "st_inputs st' = st_inputs c"
    "st_degradedAt st' = st_degradedAt c" "st_switchHistory st' = st_switchHistory c"
    using s by auto
  with e ne ca ch cd tick_degradedAt [OF h late live] show ?thesis by (simp add: acc_def)
qed

subsection \<open>The exhaustion callbacks\<close>

text \<open>Reading the callbacks in order: each may only report a change of the flag.\<close>

fun callbacks :: "bool \<Rightarrow> Effect list \<Rightarrow> bool option" where
  "callbacks flag [] = Some flag"
| "callbacks flag (EfOnExhausted # ef) = (if flag then None else callbacks True ef)"
| "callbacks flag (EfOnRestored # ef) = (if flag then callbacks False ef else None)"
| "callbacks flag (_ # ef) = callbacks flag ef"

lemma callbacks_append:
  "callbacks flag ef = Some f1 \<Longrightarrow> callbacks flag (ef @ ef') = callbacks f1 ef'"
  by (induction flag ef rule: callbacks.induct) (auto split: if_splits)

lemma callbacks_probes [simp]: "callbacks flag (map EfSpawnProbe ts @ ef) = callbacks flag ef"
    "callbacks flag (map EfSpawnProbe ts) = Some flag"
  by (induction ts) simp_all

lemma tryFailover_callbacks:
  "tryFailover start cnow r d st = (st', ef) \<Longrightarrow> callbacks (st_exhausted st) ef = Some (st_exhausted st')"
  by (auto simp: tryFailover_def tryFailover_begin_locked_def Let_def commitSwitch_def
      split: option.splits if_splits)

lemma reportInputError_callbacks:
  "reportInputError start now cnow p err st = (st', ef) \<Longrightarrow>
   callbacks (st_exhausted st) ef = Some (st_exhausted st')"
  using tryFailover_callbacks [of start cnow SwitchReasonError "Text (err_msg err)"]
  by (fastforce simp: reportInputError_def reportInputError_locked_def Let_def
      split: option.splits if_splits prod.splits)

lemma checkHealth_callbacks:
  assumes "checkHealth start now cnow to st = (st', ef)"
  shows "callbacks (st_exhausted st) ef = Some (st_exhausted st')"
proof -
  obtain acc fb where l: "checkHealth_locked now to st = (acc, fb)" by fastforce
  have ex: "st_exhausted (ta_st acc) = st_exhausted st" using tick_locked_fields(3) [of now to st] l by simp
  obtain s1 e1 where t1: "tryFailover start cnow SwitchReasonTimeout (ta_detail acc) (ta_st acc) = (s1, e1)" by fastforce
  obtain s2 e2 where t2: "tryFailover start cnow SwitchReasonFailback (Text []) s1 = (s2, e2)" by fastforce
  obtain s3 e3 where t3: "tryFailover start cnow SwitchReasonFailback (Text []) (ta_st acc) = (s3, e3)" by fastforce
  note c1 = tryFailover_callbacks [OF t1] and c2 = tryFailover_callbacks [OF t2] and c3 = tryFailover_callbacks [OF t3]
  show ?thesis
    using assms l t1 t2 t3 c1 c2 c3 ex callbacks_append [OF c1]
    by (cases "0 \<le> ta_timedOut acc"; cases fb) (auto simp: checkHealth_def Let_def)
qed

lemma runProbe_callbacks:
  assumes "runProbe start ok now cnow task st = (st', ef)"
  shows "callbacks (st_exhausted st) ef = Some (st_exhausted st')"
proof -
  have clear: "st_exhausted (probe_clear_locked task s) = st_exhausted s" for s by (simp add: probe_clear_locked_def)
  show ?thesis
  proof (cases "ok \<and> probe_success_locked now task st \<noteq> None")
    case False
    with assms clear show ?thesis
      by (cases "probe_success_locked now task st") (auto simp: runProbe_def split: if_splits)
  next
    case True
    then obtain s1 a w d where x: "probe_success_locked now task st = Some (s1, a, w, d)" by auto
    have s1: "st_exhausted s1 = st_exhausted st"
      using x by (auto simp: probe_success_locked_def Let_def split: if_splits)
    obtain s2 e2 where t: "(case probe_decision task a w d of
        Some r \<Rightarrow> tryFailover start cnow r (Text []) s1 | None \<Rightarrow> (s1, [])) = (s2, e2)" by fastforce
    have "callbacks (st_exhausted s1) e2 = Some (st_exhausted s2)"
      by (cases "probe_decision task a w d") (use t tryFailover_callbacks in auto)
    moreover note s1
    moreover have "st' = probe_clear_locked task s2"
      "ef = EfProbeAttempt True # EfInputRecovered (pt_priority task) w # e2"
      using assms True x t by (simp_all add: runProbe_def Let_def)
    ultimately show ?thesis by (simp add: clear)
  qed
qed

lemma fold_exhausted:
  "(\<And>i x. st_exhausted (fst (f i x)) = st_exhausted (fst x)) \<Longrightarrow> st_exhausted (fst (fold f js x)) = st_exhausted (fst x)"
  by (induction js arbitrary: x) auto

lemma updateInputs_locked_exhausted:
  assumes "updateInputs_locked a r u st = Some (st', x)"
  shows "st_exhausted st' = st_exhausted st"
proof -
  obtain st1 r1 where 1: "fold upd_removed r (st, None) = (st1, r1)" by fastforce
  obtain st2 r2 where 2: "fold upd_added a (st1, r1) = (st2, r2)" by fastforce
  obtain st3 r3 where 3: "fold upd_updated u (st2, None) = (st3, r3)" by fastforce
  have "st_exhausted (fst (upd_removed i y)) = st_exhausted (fst y)"
    "st_exhausted (fst (upd_added i y)) = st_exhausted (fst y)" for i y
    by (simp_all add: upd_removed_def upd_added_def split: prod.split)
  moreover have "st_exhausted (fst (upd_updated i y)) = st_exhausted (fst y)" for i and y :: "StreamState \<times> Input option"
    by (simp add: upd_updated_def split: prod.split option.split)
  ultimately have "st_exhausted st1 = st_exhausted st" "st_exhausted st2 = st_exhausted st1"
    "st_exhausted st3 = st_exhausted st2"
    using fold_exhausted [of upd_removed r "(st, None)"] fold_exhausted [of upd_added a "(st1, r1)"]
      fold_exhausted [of upd_updated u "(st2, None)"] 1 2 3 by simp_all
  with assms 1 2 3 show ?thesis by (auto simp: updateInputs_locked_def split: if_splits)
qed

lemma updateInputs_callbacks:
  assumes "updateInputs start cnow a r u st = (st', ef)"
  shows "callbacks (st_exhausted st) ef = Some (st_exhausted st')"
proof (cases "updateInputs_locked a r u st")
  case None
  with assms show ?thesis by (simp add: updateInputs_def)
next
  case (Some x)
  obtain s1 rs ri where x: "x = (s1, rs, ri)" by (cases x)
  have "st_exhausted s1 = st_exhausted st" using updateInputs_locked_exhausted Some x by simp
  with assms Some x tryFailover_callbacks show ?thesis
    by (cases rs; cases ri) (fastforce simp: updateInputs_def)+
qed

lemma switchInput_callbacks:
  assumes "switchInput start cnow p st = (Inr st', ef)"
  shows "callbacks (st_exhausted st) ef = Some (st_exhausted st')"
proof -
  obtain s1 where s1: "switchInput_locked p st = Inr s1" "st_exhausted s1 = st_exhausted st"
    using assms by (auto simp: switchInput_def switchInput_locked_def split: option.splits if_splits)
  obtain s2 e2 where t: "tryFailover start cnow SwitchReasonManual (Text []) s1 = (s2, e2)" by fastforce
  show ?thesis using assms s1 t tryFailover_callbacks [OF t] by (simp add: switchInput_def)
qed

lemma recordPacket_callbacks:
  "recordPacket now p st = (st', ef) \<Longrightarrow> callbacks (st_exhausted st) ef = Some (st_exhausted st')"
  by (auto simp: recordPacket_def recordPacket_locked_def Let_def split: option.splits if_splits)

text \<open>
  C17: the coordinator hears of every change of the exhaustion flag and of nothing else: whatever
  handler runs, the \<^verbatim>\<open>onExhausted\<close> and \<^verbatim>\<open>onRestored\<close> callbacks it fires, read in order from the old value
  of the flag, alternate and end at the new value.
\<close>
theorem callbacks_follow_exhaustion:
  "(recordPacket now p st = (st', ef) \<or>
    reportInputError start now cnow p err st = (st', ef) \<or>
    checkHealth start now cnow to st = (st', ef) \<or>
    runProbe start ok now cnow task st = (st', ef) \<or>
    switchInput start cnow p st = (Inr st', ef) \<or>
    updateInputs start cnow a r u st = (st', ef)) \<Longrightarrow>
   callbacks (st_exhausted st) ef = Some (st_exhausted st')"
  by (elim disjE)
    (rule recordPacket_callbacks reportInputError_callbacks checkHealth_callbacks runProbe_callbacks
      switchInput_callbacks updateInputs_callbacks, assumption)+

subsection \<open>States the monitor does not leave\<close>

text \<open>The active input is degraded, and the best choice has a larger priority number.\<close>

definition stranded :: "StreamState \<Rightarrow> bool" where
  "stranded st \<longleftrightarrow> mgr_wf st \<and> \<not> st_dead st \<and> \<not> st_exhausted st \<and>
     map_option h_Status (gget (st_inputs st) (st_active st)) = Some StatusDegraded \<and>
     (\<exists>b. best_choice st b \<and> st_active st < h_prio b)"

lemma stranded_tick:
  assumes "stranded st"
  shows "checkHealth start now cnow to st = (st', ef) \<Longrightarrow> stranded st' \<and> filter is_start ef = []"
proof -
  assume run: "checkHealth start now cnow to st = (st', ef)"
  obtain h b where wf: "mgr_wf st" and live: "\<not> st_dead st" "\<not> st_exhausted st"
    and h: "gget (st_inputs st) (st_active st) = Some h" "h_Status h = StatusDegraded"
    and b: "best_choice st b" "st_active st < h_prio b"
    using assms by (auto simp: stranded_def)
  let ?a0 = "\<lparr>ta_st = st, ta_timedOut = -1, ta_detail = Text [], ta_tasks = []\<rparr>"
  let ?acc = "tick_all now to (gkeys (st_inputs st)) ?a0"
  have "\<not> expired now to (ta_st ?a0) (st_active (ta_st ?a0))" using h by (simp add: expired_def timed_out_def)
  note quiet = tick_all_quiet [OF this, of "gkeys (st_inputs st)"]
  have "map_option (expire now to) (gget (st_inputs st) (st_active st)) = gget (st_inputs st) (st_active st)"
    using h by (simp add: expire_def timed_out_def)
  then have table: "gget (st_inputs (ta_st ?acc)) q = gget (st_inputs st) q" for q
    by (simp add: tick_all_gget)
  have wfa: "mgr_wf (ta_st ?acc)" using tick_all_wf wf by simp
  have bc: "best_choice (ta_st ?acc) b" using b(1) table by (simp add: best_choice_def)
  then have "selectBest (ta_st ?acc) = Some b" using selectBest_iff [OF mgr_wf_table [OF wfa]] by blast
  then have "\<not> shouldFailbackNow (ta_st ?acc) now" using b(2) by (simp add: shouldFailbackNow_def)
  moreover have "checkHealth_locked now to st = (?acc, shouldFailbackNow (ta_st ?acc) now)"
    using live by (simp add: checkHealth_locked_def Let_def)
  ultimately have "st' = ta_st ?acc" "ef = map EfSpawnProbe (ta_tasks ?acc)"
    using run quiet(1) by (auto simp: checkHealth_def Let_def)
  with wfa live h b(2) bc table show ?thesis by (auto simp: stranded_def)
qed

fun monitor_run :: "start_fn \<Rightarrow> (gotime \<times> gotime \<times> duration) list \<Rightarrow> StreamState \<Rightarrow> StreamState \<times> Effect list" where
  "monitor_run start [] st = (st, [])"
| "monitor_run start ((now, cnow, to) # ts) st =
     (case checkHealth start now cnow to st of (st1, ef1) \<Rightarrow>
        (case monitor_run start ts st1 of (st2, ef2) \<Rightarrow> (st2, ef1 @ ef2)))"

lemma stranded_run:
  "stranded st \<Longrightarrow> stranded (fst (monitor_run start ts st)) \<and> filter is_start (snd (monitor_run start ts st)) = []"
proof (induction ts arbitrary: st)
  case Nil
  then show ?case by simp
next
  case (Cons t ts)
  obtain now cnow to where t: "t = (now, cnow, to)" by (cases t)
  obtain st1 ef1 where 1: "checkHealth start now cnow to st = (st1, ef1)" by fastforce
  from stranded_tick [OF Cons.prems 1] Cons.IH [of st1] show ?case
    by (auto simp: t 1 split: prod.split)
qed

lemma failed_start_stranded:
  assumes wf: "mgr_wf st" and live: "\<not> st_dead st" "\<not> st_exhausted st" "st_overridePriority st = None"
    and h: "gget (st_inputs st) (st_active st) = Some h" "h_Status h \<noteq> StatusDegraded"
    and fails: "\<And>i b. start i b \<noteq> None"
    and best: "best_choice (upd_input (st_active st)
        (\<lambda>h. recordInputError (h\<lparr>h_Status := StatusDegraded\<rparr>) (Text (err_msg err)) now) st) b"
    and lower: "st_active st < h_prio b"
    and n: "1 < length (st_inputs st)" and ns: "h_Status h \<noteq> StatusStopped"
  shows "stranded (fst (reportInputError start now cnow (st_active st) err st))"
proof -
  let ?f = "\<lambda>h. recordInputError (h\<lparr>h_Status := StatusDegraded\<rparr>) (Text (err_msg err)) now"
  let ?u = "upd_input (st_active st) ?f st"
  let ?st1 = "?u\<lparr>st_degradedAt := gput (st_active st) now (st_degradedAt ?u)\<rparr>"
  have l: "reportInputError_locked now (st_active st) err st = Some ?st1"
    using live h n ns by (simp add: reportInputError_locked_def Let_def)
  have wf1: "mgr_wf ?st1" by (rule reportInputError_locked_wf [OF wf l])
  have b1: "best_choice ?st1 b" using best by (simp add: best_choice_def)
  have sel: "selectBest ?st1 = Some b" using selectBest_iff [OF mgr_wf_table [OF wf1]] b1 by blast
  obtain e where e: "start (h_Input b) (st_bufferWriteID st) = Some e" using fails by blast
  have "fst (tryFailover start cnow SwitchReasonError (Text (err_msg err)) ?st1) = clearOverrideIfNeeded ?st1 (Some b)"
    using sel lower live e by (simp add: tryFailover_def tryFailover_begin_locked_def)
  also have "\<dots> = ?st1" using live by (simp add: clearOverrideIfNeeded_def)
  finally have f: "fst (tryFailover start cnow SwitchReasonError (Text (err_msg err)) ?st1) = ?st1" .
  have "reportInputError start now cnow (st_active st) err st =
      (fst (tryFailover start cnow SwitchReasonError (Text (err_msg err)) ?st1),
       EfHealth (st_active st) 0 # EfInputDegraded (st_active st) (Some (Text (err_msg err))) #
       snd (tryFailover start cnow SwitchReasonError (Text (err_msg err)) ?st1))"
    unfolding reportInputError_def l by (simp only: option.case split_beta)
  with f have "fst (reportInputError start now cnow (st_active st) err st) = ?st1" by simp
  moreover have "stranded ?st1"
    using wf1 live h b1 lower by (auto simp: stranded_def map_simps)
  ultimately show ?thesis by simp
qed

text \<open>
  when the active input fails and the worker of the best remaining input, of larger priority
  number, cannot be started, the failover is lost: however many monitor ticks follow, at whatever
  times, none of them starts a worker again, although a usable input is known and starting it may
  succeed by then.
\<close>
theorem failed_start_is_never_retried:
  assumes "mgr_wf st" and "\<not> st_dead st" and "\<not> st_exhausted st" and "st_overridePriority st = None"
    and "gget (st_inputs st) (st_active st) = Some h" and "\<not> unusable h" and "1 < length (st_inputs st)"
    and "\<And>i b. start i b \<noteq> None"
    and "best_choice (upd_input (st_active st)
        (\<lambda>h. recordInputError (h\<lparr>h_Status := StatusDegraded\<rparr>) (Text (err_msg err)) now) st) b"
    and "st_active st < h_prio b"
  shows "filter is_start (snd (monitor_run start' ts
      (fst (reportInputError start now cnow (st_active st) err st)))) = []"
proof -
  have "stranded (fst (reportInputError start now cnow (st_active st) err st))"
    using assms by (intro failed_start_stranded [where h = h and b = b]) (auto simp: unusable_def)
  then show ?thesis using stranded_run by blast
qed

definition silenced :: "int \<Rightarrow> TickAcc \<Rightarrow> bool" where
  "silenced p acc \<longleftrightarrow> (\<exists>k. gget (st_inputs (ta_st acc)) p = Some k \<and> h_Status k = StatusDegraded) \<and>
     gget (st_degradedAt (ta_st acc)) p = None \<and> (\<forall>t \<in> set (ta_tasks acc). pt_priority t \<noteq> p)"

lemma silenced_tick: "silenced p acc \<Longrightarrow> silenced p (tick_input now to q acc)"
proof -
  assume s: "silenced p acc"
  then obtain k where k: "gget (st_inputs (ta_st acc)) p = Some k" "h_Status k = StatusDegraded"
    by (auto simp: silenced_def)
  have none: "gget (st_degradedAt (ta_st acc)) p = None" using s by (simp add: silenced_def)
  have "expire now to k = k" using k by (simp add: expire_def timed_out_def)
  then have k': "gget (st_inputs (ta_st (tick_input now to q acc))) p = Some k"
    by (simp only: tick_input_gget k(1)) simp
  have ne: "\<not> expired now to (ta_st acc) p" using k by (simp add: expired_def timed_out_def)
  then have none': "gget (st_degradedAt (ta_st (tick_input now to q acc))) p = None"
    using none by (auto simp: tick_input_report)
  have "collectTimeoutIfNeeded now to p acc = acc"
    using k by (auto simp: collectTimeoutIfNeeded_def Let_def)
  then have "q = p \<Longrightarrow> ta_tasks (tick_input now to q acc) = ta_tasks acc"
    using none k by (simp add: tick_input_def collectProbeIfNeeded_def Let_def)
  moreover have "ta_tasks (collectTimeoutIfNeeded now to q acc) = ta_tasks acc"
    by (simp add: collectTimeoutIfNeeded_def Let_def split: option.split)
  then have "set (ta_tasks (tick_input now to q acc)) \<subseteq> set (ta_tasks acc) \<union> {t. pt_priority t = q}"
    by (auto simp: tick_input_def collectProbeIfNeeded_def Let_def split: option.splits if_splits)
  ultimately have "\<forall>t \<in> set (ta_tasks (tick_input now to q acc)). pt_priority t \<noteq> p"
    using s unfolding silenced_def by (cases "q = p") auto
  with k' k(2) none' show ?thesis unfolding silenced_def by blast
qed

lemma silenced_tick_all: "silenced p acc \<Longrightarrow> silenced p (tick_all now to qs acc)"
  by (induction qs arbitrary: acc) (simp_all add: silenced_tick)

text \<open>
  a probe that was started for an input that has meanwhile been replaced by a new one of the same
  priority takes the new input's degradation time with it: a new input that is degraded stays
  degraded, and no later tick queues a probe for it.
\<close>
theorem stale_probe_silences_input:
  assumes "gget (st_inputs st) (pt_priority task) = Some h" and "h_id h \<noteq> pt_id task"
    and "h_Status h = StatusDegraded" and "probe_success_locked now task st = Some (st', x)"
  shows "gget (st_inputs st') (pt_priority task) = Some h \<and>
    (\<forall>later timeout. \<forall>t \<in> set (ta_tasks (fst (checkHealth_locked later timeout st'))).
       pt_priority t \<noteq> pt_priority task)"
proof -
  have st': "gget (st_inputs st') (pt_priority task) = Some h" "gget (st_degradedAt st') (pt_priority task) = None"
    using assms by (auto simp: probe_success_locked_def Let_def map_simps split: if_splits)
  with assms(3) have s: "silenced (pt_priority task) \<lparr>ta_st = st', ta_timedOut = -1, ta_detail = Text [], ta_tasks = []\<rparr>"
    by (simp add: silenced_def)
  from silenced_tick_all [OF s] st'(1) show ?thesis
    by (simp add: checkHealth_locked_def Let_def silenced_def)
qed

subsection \<open>Concurrent failovers\<close>

text \<open>A run of the machine in which an operator's switch overtakes a failover that is starting its worker.\<close>

abbreviation race_in :: "int \<Rightarrow> Input" where "race_in p \<equiv> mk_input ''rtmp://a'' p"

definition race_inputs :: "Input list" where "race_inputs = [race_in 0, race_in 1, race_in 2]"

definition race_a :: MgrSys where "race_a = mgr_init 100 100 race_inputs ''s''"

definition race_b :: MgrSys where
  "race_b = race_a\<lparr>sys_worker := Some (race_in 0),
     sys_tasks := TInitial (in_Priority (race_in 0)) # remove1 (TInitStart (race_in 0)) (sys_tasks race_a)\<rparr>"

definition race0 :: MgrSys where
  "race0 = race_b\<lparr>sys_st := recordSwitch (sys_st race_b) (initial_event 100 0),
     sys_tasks := remove1 (TInitial 0) (sys_tasks race_b)\<rparr>"

definition race1 :: MgrSys where
  "race1 = race0\<lparr>sys_st := the (reportInputError_locked 200 0 (OtherIngestError ''eof'') (sys_st race0)),
     sys_tasks := TTry SwitchReasonError (Text ''eof'') # sys_tasks race0\<rparr>"

definition race2 :: MgrSys where
  "race2 = race1\<lparr>sys_st := fst (tryFailover_begin_locked (sys_st race1)),
     sys_tasks := after_begin SwitchReasonError (Text ''eof'') (snd (tryFailover_begin_locked (sys_st race1)))
       @ remove1 (TTry SwitchReasonError (Text ''eof'')) (sys_tasks race1)\<rparr>"

definition race3 :: MgrSys where
  "race3 = race2\<lparr>sys_st := projr (switchInput_locked 2 (sys_st race2)),
     sys_tasks := TTry SwitchReasonManual (Text []) # sys_tasks race2\<rparr>"

definition race4 :: MgrSys where
  "race4 = race3\<lparr>sys_st := fst (tryFailover_begin_locked (sys_st race3)),
     sys_tasks := after_begin SwitchReasonManual (Text []) (snd (tryFailover_begin_locked (sys_st race3)))
       @ remove1 (TTry SwitchReasonManual (Text [])) (sys_tasks race3)\<rparr>"

definition race5 :: MgrSys where
  "race5 = race4\<lparr>sys_worker := Some (race_in 2), sys_tasks := TCommit 0 (race_in 2) SwitchReasonManual (Text [])
     # remove1 (TStart 0 (race_in 2) SwitchReasonManual (Text []) ''s'') (sys_tasks race4)\<rparr>"

definition race6 :: MgrSys where
  "race6 = race5\<lparr>sys_st := commitSwitch 201 0 (race_in 2) SwitchReasonManual (Text []) (sys_st race5),
     sys_tasks := remove1 (TCommit 0 (race_in 2) SwitchReasonManual (Text [])) (sys_tasks race5)\<rparr>"

definition race7 :: MgrSys where
  "race7 = race6\<lparr>sys_worker := Some (race_in 1), sys_tasks := TCommit 0 (race_in 1) SwitchReasonError (Text ''eof'')
     # remove1 (TStart 0 (race_in 1) SwitchReasonError (Text ''eof'') ''s'') (sys_tasks race6)\<rparr>"

definition race8 :: MgrSys where
  "race8 = race7\<lparr>sys_st := commitSwitch 202 0 (race_in 1) SwitchReasonError (Text ''eof'') (sys_st race7),
     sys_tasks := remove1 (TCommit 0 (race_in 1) SwitchReasonError (Text ''eof'')) (sys_tasks race7)\<rparr>"

lemma race_step_b: "mgr_step race_a race_b"
  unfolding race_b_def by (rule mgr_step.init_ok) code_simp

lemma race_step0: "mgr_step race_b race0"
  unfolding race0_def by (rule mgr_step.init_record) code_simp

lemma race_step1: "mgr_step race0 race1"
proof -
  have "reportInputError_locked 200 0 (OtherIngestError ''eof'') (sys_st race0) =
      Some (the (reportInputError_locked 200 0 (OtherIngestError ''eof'') (sys_st race0)))" by code_simp
  from mgr_step.ingest_error [OF this] show ?thesis by (simp add: race1_def)
qed

lemma race_step2: "mgr_step race1 race2"
  unfolding race2_def by (rule mgr_step.fo_begin) (code_simp, simp)

lemma race_step3: "mgr_step race2 race3"
  unfolding race3_def by (rule mgr_step.manual [where p = 2]) code_simp

lemma race_step4: "mgr_step race3 race4"
  unfolding race4_def by (rule mgr_step.fo_begin) (code_simp, simp)

lemma race4_facts:
  "sys_tasks race4 = [TStart 0 (race_in 2) SwitchReasonManual (Text []) ''s'',
     TStart 0 (race_in 1) SwitchReasonError (Text ''eof'') ''s'']"
  "st_active (sys_st race4) = 0" "\<not> st_dead (sys_st race4)"
  by code_simp+

lemma race6_facts:
  "sys_tasks race5 = [TCommit 0 (race_in 2) SwitchReasonManual (Text []),
     TStart 0 (race_in 1) SwitchReasonError (Text ''eof'') ''s'']"
  "sys_tasks race6 = [TStart 0 (race_in 1) SwitchReasonError (Text ''eof'') ''s'']"
  "sys_tasks race7 = [TCommit 0 (race_in 1) SwitchReasonError (Text ''eof'')]"
  "st_active (sys_st race6) = 2"
  "sys_st race7 = sys_st race6"
  using commitSwitch_active [of "sys_st race5" 0] race4_facts(2,3)
  by (simp_all add: race5_def race6_def race7_def race4_facts)

lemma race8_facts:
  "sys_tasks race8 = []" "st_active (sys_st race8) = 2" "sys_worker race8 = Some (race_in 1)"
  using race6_facts by (simp_all add: race8_def commitSwitch_def) (simp add: race7_def)

lemma race_step5: "mgr_step race4 race5"
  unfolding race5_def by (rule mgr_step.start_ok) (simp add: race4_facts)

lemma race_step6: "mgr_step race5 race6"
  unfolding race6_def by (rule mgr_step.committed) (simp add: race6_facts)

lemma race_step7: "mgr_step race6 race7"
  unfolding race7_def by (rule mgr_step.start_ok) (simp add: race6_facts)

lemma race_step8: "mgr_step race7 race8"
  unfolding race8_def by (rule mgr_step.committed) (simp add: race6_facts)

lemma race_reachable: "mgr_reachable race_inputs race8"
proof -
  have "mgr_reachable race_inputs race_a" unfolding race_a_def by (rule mgr_reachable.init)
  from mgr_reachable.step [OF this race_step_b] have "mgr_reachable race_inputs race_b" .
  from mgr_reachable.step [OF this race_step0] have "mgr_reachable race_inputs race0" .
  from mgr_reachable.step [OF this race_step1] have "mgr_reachable race_inputs race1" .
  from mgr_reachable.step [OF this race_step2] have "mgr_reachable race_inputs race2" .
  from mgr_reachable.step [OF this race_step3] have "mgr_reachable race_inputs race3" .
  from mgr_reachable.step [OF this race_step4] have "mgr_reachable race_inputs race4" .
  from mgr_reachable.step [OF this race_step5] have "mgr_reachable race_inputs race5" .
  from mgr_reachable.step [OF this race_step6] have "mgr_reachable race_inputs race6" .
  from mgr_reachable.step [OF this race_step7] have "mgr_reachable race_inputs race7" .
  from mgr_reachable.step [OF this race_step8] have "mgr_reachable race_inputs race8" .
  then show ?thesis .
qed

text \<open>
  concurrent failovers are not idempotent: an operator's switch may decide and commit while an
  earlier failover is about to start its worker. The late \<^verbatim>\<open>ingestor.Start\<close> then replaces the worker of the
  committed input, its own commit is refused as stale, and the machine comes to rest with nothing
  pending, a worker for priority 1 and priority 2 recorded as active.
\<close>
theorem concurrent_failover_leaves_wrong_worker:
  "\<exists>s. mgr_reachable race_inputs s \<and> sys_tasks s = [] \<and>
     map_option in_Priority (sys_worker s) = Some 1 \<and> st_active (sys_st s) = 2"
proof -
  show ?thesis using race_reachable race8_facts by (intro exI [of _ race8]) simp
qed

subsection \<open>Invariants of every reachable state\<close>



text \<open>
  C29: the choice of the input is a function of the table and the override alone, not of the order in
  which the map is iterated: an input is chosen exactly when it is usable and either it is the usable
  override, or no usable override exists and no usable input has a smaller priority number.
\<close>
theorem selectBest_is_best_choice:
  "inputs_wf n (st_inputs st) \<Longrightarrow> selectBest st = Some h \<longleftrightarrow>
     gget (st_inputs st) (h_prio h) = Some h \<and> \<not> unusable h \<and>
     (st_overridePriority st = Some (h_prio h) \<or>
      (\<forall>p x. st_overridePriority st = Some p \<longrightarrow> gget (st_inputs st) p = Some x \<longrightarrow> unusable x) \<and>
      (\<forall>p x. gget (st_inputs st) p = Some x \<longrightarrow> \<not> unusable x \<longrightarrow> h_prio h \<le> p))"
  using selectBest_iff by (simp add: best_choice_def)

subsection \<open>The properties on a concrete stream\<close>

definition two_inputs :: StreamState where
  "two_inputs = activate_initial (new_state 0 0 [race_in 0, race_in 1] ''s'')"

lemma two_wf: "mgr_wf two_inputs"
  unfolding two_inputs_def by (intro activate_initial_wf new_state_wf new_state_history)

lemma two_facts: "st_active two_inputs = 0" "\<not> st_dead two_inputs" "\<not> st_exhausted two_inputs"
  "st_overridePriority two_inputs = None" "length (st_inputs two_inputs) = 2"
  "gget (st_inputs two_inputs) 0 = Some (fresh_health 0 0 (race_in 0))"
  by code_simp+

lemma two_best: "best_choice (upd_input 0 (expire (seconds 40) (seconds 30)) two_inputs) (fresh_health 1 0 (race_in 1))"
proof -
  have "selectBest (upd_input 0 (expire (seconds 40) (seconds 30)) two_inputs) = Some (fresh_health 1 0 (race_in 1))"
    by code_simp
  then show ?thesis
    by (rule selectBest_choice [of "st_nextId two_inputs", rotated]) (simp add: inputs_wf_upd two_wf mgr_wf_table)
qed

theorem timeout_fails_over_witness:
  "st_active (fst (checkHealth (\<lambda>i b. None) (seconds 40) (seconds 41) (seconds 30) two_inputs)) = 1"
proof -
  let ?run = "checkHealth (\<lambda>i b. None) (seconds 40) (seconds 41) (seconds 30) two_inputs"
  have late: "timed_out (seconds 40) (seconds 30) (fresh_health 0 0 (race_in 0))" by code_simp
  have best: "best_choice (upd_input (st_active two_inputs) (expire (seconds 40) (seconds 30)) two_inputs)
      (fresh_health 1 0 (race_in 1))"
    using two_best by (simp only: two_facts)
  have h: "gget (st_inputs two_inputs) (st_active two_inputs) = Some (fresh_health 0 0 (race_in 0))"
    by (simp only: two_facts)
  have "h_prio (fresh_health 1 0 (race_in 1)) = 1" by code_simp
  moreover have "?run = (fst ?run, snd ?run)" by simp
  note timeout_fails_over [OF two_wf two_facts(2) _ h late best, of "\<lambda>i b. None", OF _ refl this]
  ultimately show ?thesis by (simp add: two_facts)
qed

theorem callbacks_follow_exhaustion_witness:
  "callbacks False (snd (recordPacket 5 0 two_inputs)) = Some False"
  using callbacks_follow_exhaustion [of 5 0 two_inputs "fst (recordPacket 5 0 two_inputs)"
      "snd (recordPacket 5 0 two_inputs)"]
  by (simp add: two_facts recordPacket_def recordPacket_locked_def fresh_health_def Let_def)

theorem failed_start_is_never_retried_witness:
  "filter is_start (snd (monitor_run (\<lambda>i b. None) [(seconds 60, seconds 60, seconds 30), (seconds 120, seconds 120, seconds 30)]
      (fst (reportInputError (\<lambda>i b. Some (OtherIngestError ''refused'')) (seconds 1) (seconds 1) 0
        (OtherIngestError ''eof'') two_inputs)))) = []"
proof -
  let ?f = "\<lambda>h. recordInputError (h\<lparr>h_Status := StatusDegraded\<rparr>) (Text (err_msg (OtherIngestError ''eof''))) (seconds 1)"
  have "selectBest (upd_input 0 ?f two_inputs) = Some (fresh_health 1 0 (race_in 1))" by code_simp
  then have "best_choice (upd_input 0 ?f two_inputs) (fresh_health 1 0 (race_in 1))"
    by (rule selectBest_choice [of "st_nextId two_inputs", rotated]) (simp add: inputs_wf_upd two_wf mgr_wf_table)
  moreover have "h_prio (fresh_health 1 0 (race_in 1)) = 1" "\<not> unusable (fresh_health 0 0 (race_in 0))"
    by code_simp+
  ultimately show ?thesis
    using failed_start_is_never_retried [OF two_wf two_facts(2-4), of "fresh_health 0 0 (race_in 0)"
        "\<lambda>i b. Some (OtherIngestError ''refused'')" "OtherIngestError ''eof''" "seconds 1" "fresh_health 1 0 (race_in 1)"
        "\<lambda>i b. None" "[(seconds 60, seconds 60, seconds 30), (seconds 120, seconds 120, seconds 30)]" "seconds 1"]
    by (simp add: two_facts)
qed

definition replaced :: StreamState where
  "replaced = two_inputs\<lparr>st_inputs := gput 1 ((fresh_health 7 0 (race_in 1))\<lparr>h_Status := StatusDegraded\<rparr>) (st_inputs two_inputs),
     st_degradedAt := [(1, 3)]\<rparr>"

theorem stale_probe_silences_input_witness:
  "map_option h_Status (gget (st_inputs (fst (the (probe_success_locked 9 \<lparr>pt_priority = 1, pt_id = 1, pt_input = race_in 1\<rparr>
      replaced)))) 1) = Some StatusDegraded"
proof -
  let ?t = "\<lparr>pt_priority = 1, pt_id = 1, pt_input = race_in 1\<rparr>"
  obtain st' x where r: "probe_success_locked 9 ?t replaced = Some (st', x)"
    by (auto simp: probe_success_locked_def replaced_def two_facts Let_def)
  show ?thesis
    using stale_probe_silences_input [OF _ _ _ r, of "(fresh_health 7 0 (race_in 1))\<lparr>h_Status := StatusDegraded\<rparr>"] r
    by (simp add: replaced_def map_simps fresh_health_def)
qed

theorem selectBest_is_best_choice_witness:
  "selectBest two_inputs = Some (fresh_health 0 0 (race_in 0)) \<and> \<not> unusable (fresh_health 0 0 (race_in 0))"
proof -
  have "selectBest two_inputs = Some (fresh_health 0 0 (race_in 0))" by code_simp
  with selectBest_is_best_choice [OF mgr_wf_table [OF two_wf]] show ?thesis by blast
qed
end
