(* ===== verification/OS_Media.thy ===== *)
theory OS_Media
  imports OS_Domain
begin

text \<open>
  The media data model: codecs and access units (\<^verbatim>\<open>internal/domain/avpacket.go\<close>), upstream sessions
  (\<^verbatim>\<open>stream_session.go\<close>) and the wire format of the buffer hub (\<^verbatim>\<open>internal/buffer/packet.go\<close>).

  A \<^verbatim>\<open>uint64\<close> timestamp is an \<open>int\<close> in \<open>[0, 2 ^ 64)\<close>; \<open>i64\<close> is Go's conversion \<^verbatim>\<open>int64(x)\<close>, which
  wraps. Payload bytes are \<open>8 word\<close>s.
\<close>

type_synonym byte = "8 word"

datatype AVCodec = AVCodecUnknown | AVCodecH264 | AVCodecH265 | AVCodecAAC | AVCodecRawTSChunk
  | AVCodecMP2 | AVCodecMP3 | AVCodecAC3 | AVCodecEAC3 | AVCodecAV1 | AVCodecMPEG2Video

fun IsVideo :: "AVCodec \<Rightarrow> bool" where
  "IsVideo AVCodecH264 = True"
| "IsVideo AVCodecH265 = True"
| "IsVideo AVCodecAV1 = True"
| "IsVideo AVCodecMPEG2Video = True"
| "IsVideo _ = False"

fun IsAudio :: "AVCodec \<Rightarrow> bool" where
  "IsAudio AVCodecAAC = True"
| "IsAudio AVCodecMP2 = True"
| "IsAudio AVCodecMP3 = True"
| "IsAudio AVCodecAC3 = True"
| "IsAudio AVCodecEAC3 = True"
| "IsAudio _ = False"

record AVPacket =
  av_Codec :: AVCodec
  av_Data :: "byte list"
  av_PTSms :: int
  av_DTSms :: int
  av_KeyFrame :: bool

definition i64 :: "int \<Rightarrow> int" where
  "i64 x = (x + 2 ^ 63) mod 2 ^ 64 - 2 ^ 63"

lemma i64_id: "- (2 ^ 63) \<le> x \<Longrightarrow> x < 2 ^ 63 \<Longrightarrow> i64 x = x"
  by (simp add: i64_def)

datatype SessionStartReason = SessionStartUnknown | SessionStartFresh | SessionStartReconnect
  | SessionStartFailover | SessionStartMixerCycle | SessionStartConfigChange | SessionStartStallRecovery

record SessionVideoConfig =
  sv_Codec :: AVCodec
  sv_Width :: int
  sv_Height :: int
  sv_FPS :: rat
  sv_SPS :: "byte list"
  sv_PPS :: "byte list"
  sv_VPS :: "byte list"

record SessionAudioConfig =
  sa_Codec :: AVCodec
  sa_SampleRate :: int
  sa_Channels :: int
  sa_Profile :: int

record StreamSession =
  ss_ID :: "64 word"
  ss_StartedAt :: gotime
  ss_Reason :: SessionStartReason
  ss_Video :: "SessionVideoConfig option"
  ss_Audio :: "SessionAudioConfig option"

record Packet =
  pk_TS :: "byte list"
  pk_AV :: "AVPacket option"
  pk_SessionID :: "64 word"
  pk_SessionStart :: bool

definition TSPacket :: "byte list \<Rightarrow> Packet" where
  "TSPacket b = \<lparr>pk_TS = b, pk_AV = None, pk_SessionID = 0, pk_SessionStart = False\<rparr>"

definition pkt_empty :: "Packet \<Rightarrow> bool" where
  "pkt_empty p \<longleftrightarrow> length (pk_TS p) = 0 \<and>
     (case pk_AV p of None \<Rightarrow> True | Some a \<Rightarrow> length (av_Data a) = 0)"

text \<open>A deep copy of values is the value itself.\<close>

definition clonePacket :: "Packet \<Rightarrow> Packet" where
  "clonePacket p =
     \<lparr>pk_TS = (if 0 < length (pk_TS p) then pk_TS p else []), pk_AV = pk_AV p,
      pk_SessionID = pk_SessionID p, pk_SessionStart = pk_SessionStart p\<rparr>"

lemma clonePacket_id [simp]: "clonePacket p = p"
  by (cases p) (simp add: clonePacket_def)

lemma codec_exclusive: "IsVideo c \<Longrightarrow> \<not> IsAudio c"
  by (cases c) auto

end
