(* ===== verification/Timeline.thy ===== *)
theory Timeline
  imports OS_Media
begin

text \<open>
  The timeline normaliser, \<^verbatim>\<open>internal/timeline/normaliser.go\<close>: the single PTS/DTS anchor of a stream.

  The functions carry the code's names; those with the suffix \<open>_locked\<close> run under \<^verbatim>\<open>n.mu\<close> in the code.
  A packet that the code rewrites in place and returns is the returned packet here. Timestamps are
  \<^verbatim>\<open>int64\<close> milliseconds in the code and \<open>int\<close> here: the results agree as long as no sum leaves the
  64-bit range, which at one millisecond per unit is 292 million years away; the conversion of the
  source's \<^verbatim>\<open>uint64\<close> fields, which can wrap, is written out (\<open>i64\<close>). Logging is left out.
\<close>

subsection \<open>Configuration and state\<close>

record Config =
  nc_Enabled :: bool
  nc_JumpThresholdMs :: int
  nc_MaxAheadMs :: int
  nc_MaxBehindMs :: int
  nc_CrossTrackSnapMs :: int
  nc_SameTimebaseMaxMs :: int
  nc_SeedHoldTimeoutMs :: int

definition DefaultConfig :: Config where
  "DefaultConfig = \<lparr>nc_Enabled = True, nc_JumpThresholdMs = 2000, nc_MaxAheadMs = 0, nc_MaxBehindMs = 0,
     nc_CrossTrackSnapMs = 1000, nc_SameTimebaseMaxMs = 5000, nc_SeedHoldTimeoutMs = 0\<rparr>"

datatype trackKey = trackVideo | trackAudio

definition trackKeyFor :: "AVCodec \<Rightarrow> trackKey option" where
  "trackKeyFor c = (if IsVideo c then Some trackVideo else if IsAudio c then Some trackAudio else None)"

fun partner :: "trackKey \<Rightarrow> trackKey" where
  "partner trackVideo = trackAudio"
| "partner trackAudio = trackVideo"

record trackState =
  tr_seeded :: bool
  tr_inputOrigin :: int
  tr_outputAnchor :: int
  tr_lastOutputDts :: int
  tr_lastInputDts :: int
  tr_wrapOffset :: int

definition trackState0 :: trackState where
  "trackState0 = \<lparr>tr_seeded = False, tr_inputOrigin = 0, tr_outputAnchor = 0, tr_lastOutputDts = 0,
     tr_lastInputDts = 0, tr_wrapOffset = 0\<rparr>"

definition ptsWrapMs :: int where "ptsWrapMs = go_div (2 ^ 33) 90"

record bufferedPacket =
  bp_pkt :: AVPacket
  bp_inDts :: int
  bp_cto :: int

record Diagnostic =
  dg_Track :: trackKey
  dg_Drift :: int
  dg_HardReanchored :: bool
  dg_Dropped :: bool
  dg_OutputDts :: int
  dg_OutputPts :: int
  dg_SessionID :: "64 word"

definition diag0 :: Diagnostic where
  "diag0 = \<lparr>dg_Track = trackVideo, dg_Drift = 0, dg_HardReanchored = False, dg_Dropped = False,
     dg_OutputDts = 0, dg_OutputPts = 0, dg_SessionID = 0\<rparr>"

record Normaliser =
  n_cfg :: Config
  n_sessionID :: "64 word"
  n_wallOrigin :: gotime
  n_wallSeeded :: bool
  n_tracks :: "trackKey \<Rightarrow> trackState"
  n_lastDiag :: Diagnostic
  n_totalApply :: "64 word"
  n_totalReanch :: "64 word"
  n_totalDrops :: "64 word"
  n_pending :: "bufferedPacket list"
  n_pendingTrack :: trackKey
  n_pendingFirstArrival :: gotime
  n_hasPending :: bool

abbreviation set_track :: "trackKey \<Rightarrow> trackState \<Rightarrow> Normaliser \<Rightarrow> Normaliser" where
  "set_track tk t n \<equiv> n\<lparr>n_tracks := (n_tracks n)(tk := t)\<rparr>"

definition NewNormaliser :: "Config \<Rightarrow> Normaliser" where
  "NewNormaliser cfg =
     (let c1 = (if nc_CrossTrackSnapMs cfg \<le> 0 then cfg\<lparr>nc_CrossTrackSnapMs := 1000\<rparr> else cfg);
          c2 = (if nc_JumpThresholdMs c1 \<le> 0 then c1\<lparr>nc_JumpThresholdMs := 2000\<rparr> else c1);
          c3 = (if nc_SameTimebaseMaxMs c2 \<le> 0 then c2\<lparr>nc_SameTimebaseMaxMs := 5000\<rparr> else c2);
          c4 = (if nc_SeedHoldTimeoutMs c3 < 0 then c3\<lparr>nc_SeedHoldTimeoutMs := 0\<rparr> else c3)
      in \<lparr>n_cfg = c4, n_sessionID = 0, n_wallOrigin = 0, n_wallSeeded = False, n_tracks = (\<lambda>_. trackState0),
          n_lastDiag = diag0, n_totalApply = 0, n_totalReanch = 0, n_totalDrops = 0, n_pending = [],
          n_pendingTrack = trackVideo, n_pendingFirstArrival = 0, n_hasPending = False\<rparr>)"

subsection \<open>Sessions\<close>

definition OnSession :: "StreamSession option \<Rightarrow> Normaliser \<Rightarrow> Normaliser" where
  "OnSession sess n =
     (case sess of
        None \<Rightarrow> n
      | Some s \<Rightarrow>
          if \<not> nc_Enabled (n_cfg n) then n
          else n\<lparr>n_sessionID := ss_ID s, n_tracks := (\<lambda>_. trackState0), n_pending := [], n_hasPending := False\<rparr>)"

definition SeedWallclock :: "gotime \<Rightarrow> Normaliser \<Rightarrow> Normaliser" where
  "SeedWallclock t n = (if \<not> nc_Enabled (n_cfg n) then n else n\<lparr>n_wallOrigin := t, n_wallSeeded := True\<rparr>)"

definition ResetNormaliser :: "Normaliser \<Rightarrow> Normaliser" where
  "ResetNormaliser n = n\<lparr>n_sessionID := 0, n_wallSeeded := False, n_wallOrigin := 0,
     n_tracks := (\<lambda>_. trackState0), n_pending := [], n_hasPending := False\<rparr>"

subsection \<open>Applying one packet\<close>

definition assignTimes :: "AVPacket \<Rightarrow> int \<Rightarrow> int \<Rightarrow> AVPacket" where
  "assignTimes p outDts0 cto =
     (let outDts = (if outDts0 < 0 then 0 else outDts0);
          outPts0 = outDts + cto;
          outPts = (if outPts0 < 0 then 0 else outPts0)
      in p\<lparr>av_DTSms := outDts, av_PTSms := outPts\<rparr>)"

definition unwrapInput_locked :: "trackState \<Rightarrow> int \<Rightarrow> trackState \<times> int" where
  "unwrapInput_locked track rawInDts =
     (let inp = rawInDts + tr_wrapOffset track in
      if inp < tr_lastInputDts track - go_div ptsWrapMs 2
      then (track\<lparr>tr_wrapOffset := tr_wrapOffset track + ptsWrapMs, tr_lastInputDts := inp + ptsWrapMs\<rparr>,
            inp + ptsWrapMs)
      else (track\<lparr>tr_lastInputDts := inp\<rparr>, inp))"

definition hardReanchor_locked ::
  "AVPacket \<Rightarrow> trackKey \<Rightarrow> int \<Rightarrow> int \<Rightarrow> int \<Rightarrow> int \<Rightarrow> int \<Rightarrow> Normaliser \<Rightarrow> Normaliser \<times> AVPacket" where
  "hardReanchor_locked p tk inDts cto actualNowMs expectedDts drift n =
     (let track = n_tracks n tk;
          target = (if actualNowMs \<le> tr_lastOutputDts track then tr_lastOutputDts track + 1 else actualNowMs);
          n1 = set_track tk (track\<lparr>tr_inputOrigin := inDts, tr_outputAnchor := target,
                 tr_lastOutputDts := target\<rparr>) n;
          delta = target - expectedDts;
          other = n_tracks n1 (partner tk);
          n2 = (if 0 < delta \<and> tr_seeded other
                then set_track (partner tk) (other\<lparr>tr_outputAnchor := tr_outputAnchor other + delta,
                       tr_lastOutputDts := tr_lastOutputDts other + delta\<rparr>) n1
                else n1)
      in (n2\<lparr>n_totalReanch := n_totalReanch n2 + 1,
             n_lastDiag := \<lparr>dg_Track = tk, dg_Drift = drift, dg_HardReanchored = True, dg_Dropped = False,
               dg_OutputDts = target, dg_OutputPts = target + cto, dg_SessionID = n_sessionID n2\<rparr>\<rparr>,
          assignTimes p target cto))"

definition applySeeded_locked ::
  "AVPacket \<Rightarrow> trackKey \<Rightarrow> int \<Rightarrow> int \<Rightarrow> int \<Rightarrow> Normaliser \<Rightarrow> Normaliser \<times> AVPacket list" where
  "applySeeded_locked p tk inDts cto actualNowMs n =
     (let track = n_tracks n tk; cfg = n_cfg n;
          inputDelta = inDts - tr_inputOrigin track;
          expectedDts = tr_outputAnchor track + inputDelta in
      if 0 < nc_MaxAheadMs cfg \<and> nc_MaxAheadMs cfg < expectedDts - actualNowMs
      then (n\<lparr>n_totalDrops := n_totalDrops n + 1,
              n_lastDiag := \<lparr>dg_Track = tk, dg_Drift = expectedDts - actualNowMs, dg_HardReanchored = False,
                dg_Dropped = True, dg_OutputDts = 0, dg_OutputPts = 0, dg_SessionID = n_sessionID n\<rparr>\<rparr>, [])
      else
        let effActualNow = (if actualNowMs < tr_lastOutputDts track then tr_lastOutputDts track else actualNowMs);
            drift = expectedDts - effActualNow;
            tooFarAhead = (nc_JumpThresholdMs cfg < \<bar>drift\<bar>);
            regressed = (expectedDts < tr_lastOutputDts track);
            tooFarBehind = (0 < nc_MaxBehindMs cfg \<and> drift < - nc_MaxBehindMs cfg) in
        if tooFarAhead \<or> regressed \<or> tooFarBehind
        then (case hardReanchor_locked p tk inDts cto actualNowMs expectedDts drift n of
                (n1, p1) \<Rightarrow> (n1, [p1]))
        else (let n1 = set_track tk (track\<lparr>tr_lastOutputDts := expectedDts\<rparr>) n in
              (n1\<lparr>n_lastDiag := \<lparr>dg_Track = tk, dg_Drift = drift, dg_HardReanchored = False, dg_Dropped = False,
                 dg_OutputDts = expectedDts, dg_OutputPts = expectedDts + cto, dg_SessionID = n_sessionID n1\<rparr>\<rparr>,
               [assignTimes p expectedDts cto])))"

definition seedTrack_locked ::
  "trackKey \<Rightarrow> int \<Rightarrow> int \<Rightarrow> int \<Rightarrow> AVPacket \<Rightarrow> Normaliser \<Rightarrow> Normaliser \<times> AVPacket" where
  "seedTrack_locked tk inDts actualNowMs cto p n =
     (let otherTrack = n_tracks n (partner tk); cfg = n_cfg n;
          anchor =
            (if \<not> tr_seeded otherTrack then actualNowMs
             else
               let otherProgression = tr_lastOutputDts otherTrack - tr_outputAnchor otherTrack in
               if nc_CrossTrackSnapMs cfg < otherProgression then tr_lastOutputDts otherTrack
               else
                 let sourceDelta = inDts - tr_inputOrigin otherTrack in
                 if \<bar>sourceDelta\<bar> \<le> nc_SameTimebaseMaxMs cfg
                 then (let proposed = tr_outputAnchor otherTrack + sourceDelta
                       in if 0 \<le> proposed then proposed else actualNowMs)
                 else actualNowMs)
      in (set_track tk ((n_tracks n tk)\<lparr>tr_seeded := True, tr_inputOrigin := inDts, tr_outputAnchor := anchor,
            tr_lastOutputDts := anchor, tr_lastInputDts := inDts\<rparr>) n,
          assignTimes p anchor cto))"

definition beginPending_locked ::
  "trackKey \<Rightarrow> AVPacket \<Rightarrow> int \<Rightarrow> int \<Rightarrow> gotime \<Rightarrow> Normaliser \<Rightarrow> Normaliser" where
  "beginPending_locked tk p inDts cto now n =
     n\<lparr>n_pendingTrack := tk, n_pendingFirstArrival := now, n_hasPending := True,
       n_pending := [\<lparr>bp_pkt = p, bp_inDts = inDts, bp_cto = cto\<rparr>],
       n_lastDiag := diag0\<lparr>dg_Track := tk, dg_SessionID := n_sessionID n\<rparr>\<rparr>"

definition extendPending_locked :: "AVPacket \<Rightarrow> int \<Rightarrow> int \<Rightarrow> Normaliser \<Rightarrow> Normaliser" where
  "extendPending_locked p inDts cto n =
     n\<lparr>n_pending := n_pending n @ [\<lparr>bp_pkt = p, bp_inDts = inDts, bp_cto = cto\<rparr>]\<rparr>"

text \<open>The loop that stamps the held packets and raises the track's floor.\<close>

fun drain_pending :: "int \<Rightarrow> int \<Rightarrow> bufferedPacket list \<Rightarrow> int \<Rightarrow> AVPacket list \<times> int" where
  "drain_pending anchor firstDts [] low = ([], low)"
| "drain_pending anchor firstDts (bp # bps) low =
     (let outDts = anchor + (bp_inDts bp - firstDts);
          q = assignTimes (bp_pkt bp) outDts (bp_cto bp);
          low1 = (if low < outDts then outDts else low)
      in (case drain_pending anchor firstDts bps low1 of (qs, f) \<Rightarrow> (q # qs, f)))"

definition completeJointSeed_locked ::
  "AVPacket \<Rightarrow> trackKey \<Rightarrow> int \<Rightarrow> int \<Rightarrow> Normaliser \<Rightarrow> Normaliser \<times> AVPacket list" where
  "completeJointSeed_locked p tk inDts cto n =
     (let pendingTk = n_pendingTrack n;
          firstDts = bp_inDts (hd (n_pending n));
          delta = inDts - firstDts;
          currentAnchor = (if delta = 0 then 0 else if 0 < delta then delta else 0);
          pendingAnchor = (if delta = 0 then 0 else if 0 < delta then 0 else - delta);
          n1 = set_track pendingTk ((n_tracks n pendingTk)\<lparr>tr_seeded := True, tr_inputOrigin := firstDts,
                 tr_outputAnchor := pendingAnchor, tr_lastOutputDts := pendingAnchor,
                 tr_lastInputDts := firstDts\<rparr>) n;
          n2 = set_track tk ((n_tracks n1 tk)\<lparr>tr_seeded := True, tr_inputOrigin := inDts,
                 tr_outputAnchor := currentAnchor, tr_lastOutputDts := currentAnchor,
                 tr_lastInputDts := inDts\<rparr>) n1
      in (case drain_pending pendingAnchor firstDts (n_pending n)
                 (tr_lastOutputDts (n_tracks n2 pendingTk)) of
            (drained, low) \<Rightarrow>
              let n3 = set_track pendingTk ((n_tracks n2 pendingTk)\<lparr>tr_lastOutputDts := low\<rparr>) n2;
                  q = assignTimes p currentAnchor cto;
                  n4 = n3\<lparr>n_pending := [], n_hasPending := False,
                     n_lastDiag := \<lparr>dg_Track = tk, dg_Drift = 0, dg_HardReanchored = False, dg_Dropped = False,
                       dg_OutputDts = currentAnchor, dg_OutputPts = currentAnchor + cto,
                       dg_SessionID = n_sessionID n3\<rparr>\<rparr>
              in (n4, if currentAnchor = 0 then q # drained else drained @ [q])))"

definition timeoutDrainPending_locked :: "Normaliser \<Rightarrow> Normaliser \<times> AVPacket list" where
  "timeoutDrainPending_locked n =
     (let pendingTk = n_pendingTrack n;
          firstDts = bp_inDts (hd (n_pending n));
          n1 = set_track pendingTk ((n_tracks n pendingTk)\<lparr>tr_seeded := True, tr_inputOrigin := firstDts,
                 tr_outputAnchor := 0, tr_lastOutputDts := 0, tr_lastInputDts := firstDts\<rparr>) n
      in (case drain_pending 0 firstDts (n_pending n) (tr_lastOutputDts (n_tracks n1 pendingTk)) of
            (drained, low) \<Rightarrow>
              ((set_track pendingTk ((n_tracks n1 pendingTk)\<lparr>tr_lastOutputDts := low\<rparr>) n1)
                 \<lparr>n_pending := [], n_hasPending := False\<rparr>, drained)))"

definition applyOne_locked ::
  "AVPacket \<Rightarrow> trackKey \<Rightarrow> int \<Rightarrow> int \<Rightarrow> int \<Rightarrow> gotime \<Rightarrow> Normaliser \<Rightarrow> Normaliser \<times> AVPacket list" where
  "applyOne_locked p tk inDts cto actualNowMs now n =
     (let track = n_tracks n tk in
      if tr_seeded track
      then (case unwrapInput_locked track inDts of
              (track1, inDts1) \<Rightarrow> applySeeded_locked p tk inDts1 cto actualNowMs (set_track tk track1 n))
      else if 0 < nc_SeedHoldTimeoutMs (n_cfg n) \<and> \<not> tr_seeded (n_tracks n (partner tk))
      then (if \<not> n_hasPending n then (beginPending_locked tk p inDts cto now n, [])
            else if n_pendingTrack n = tk then (extendPending_locked p inDts cto n, [])
            else completeJointSeed_locked p tk inDts cto n)
      else (case seedTrack_locked tk inDts actualNowMs cto p n of
              (n1, p1) \<Rightarrow>
                (n1\<lparr>n_lastDiag := \<lparr>dg_Track = tk, dg_Drift = 0, dg_HardReanchored = False, dg_Dropped = False,
                   dg_OutputDts = tr_outputAnchor (n_tracks n1 tk),
                   dg_OutputPts = tr_outputAnchor (n_tracks n1 tk) + cto, dg_SessionID = n_sessionID n1\<rparr>\<rparr>,
                 [p1])))"

text \<open>\<^verbatim>\<open>Sub(...).Milliseconds()\<close> divides, truncating towards zero.\<close>

definition since_ms :: "gotime \<Rightarrow> gotime \<Rightarrow> int" where
  "since_ms now t = go_div (now - t) (millis 1)"

definition input_cto :: "AVPacket \<Rightarrow> int" where
  "input_cto p = (let cto = i64 (av_PTSms p) - i64 (av_DTSms p) in if cto < 0 then 0 else cto)"

definition Apply :: "AVPacket option \<Rightarrow> gotime \<Rightarrow> Normaliser \<Rightarrow> Normaliser \<times> AVPacket list" where
  "Apply po now n =
     (case po of
        None \<Rightarrow> (n, [])
      | Some p \<Rightarrow>
          if \<not> nc_Enabled (n_cfg n) then (n, [p])
          else if av_Codec p = AVCodecRawTSChunk then (n, [p])
          else (case trackKeyFor (av_Codec p) of
              None \<Rightarrow> (n, [p])
            | Some tk \<Rightarrow>
                let n1 = n\<lparr>n_totalApply := n_totalApply n + 1\<rparr>;
                    n2 = (if \<not> n_wallSeeded n1 then n1\<lparr>n_wallOrigin := now, n_wallSeeded := True\<rparr> else n1);
                    inDts = i64 (av_DTSms p);
                    cto = input_cto p;
                    actualNowMs = since_ms now (n_wallOrigin n2);
                    (n3, timeoutDrained) =
                      (if n_hasPending n2 \<and> 0 < nc_SeedHoldTimeoutMs (n_cfg n2) \<and>
                          nc_SeedHoldTimeoutMs (n_cfg n2) < since_ms now (n_pendingFirstArrival n2)
                       then timeoutDrainPending_locked n2 else (n2, []))
                in (case applyOne_locked p tk inDts cto actualNowMs now n3 of
                      (n4, result) \<Rightarrow> (n4, if timeoutDrained = [] then result else timeoutDrained @ result))))"

subsection \<open>Runs\<close>

fun ApplyAll :: "(AVPacket \<times> gotime) list \<Rightarrow> Normaliser \<Rightarrow> Normaliser \<times> AVPacket list" where
  "ApplyAll [] n = (n, [])"
| "ApplyAll ((p, now) # ps) n =
     (case Apply (Some p) now n of (n1, out1) \<Rightarrow>
        (case ApplyAll ps n1 of (n2, out2) \<Rightarrow> (n2, out1 @ out2)))"

abbreviation track_dts :: "trackKey \<Rightarrow> AVPacket list \<Rightarrow> int list" where
  "track_dts tk ps \<equiv> map av_DTSms (filter (\<lambda>p. trackKeyFor (av_Codec p) = Some tk) ps)"

subsection \<open>Monotone output\<close>

lemma assignTimes_simps [simp]:
  "av_DTSms (assignTimes p d c) = max 0 d"
  "av_PTSms (assignTimes p d c) = max 0 (max 0 d + c)"
  "av_Codec (assignTimes p d c) = av_Codec p" "av_Data (assignTimes p d c) = av_Data p"
  "av_KeyFrame (assignTimes p d c) = av_KeyFrame p"
  by (auto simp: assignTimes_def Let_def max_def)

lemma partner_simps [simp]: "partner tk \<noteq> tk" "tk \<noteq> partner tk" "partner (partner tk) = tk"
  by (cases tk; simp)+

lemma partner_cases: "k = tk \<or> k = partner tk"
  by (cases tk; cases k; simp)

definition track_floor :: "Normaliser \<Rightarrow> trackKey \<Rightarrow> int" where
  "track_floor n tk = (if tr_seeded (n_tracks n tk) then max 0 (tr_lastOutputDts (n_tracks n tk)) else 0)"

text \<open>What one step does to a track: its floor rises, and what it emits lies between the two floors.\<close>

definition rises :: "trackKey \<Rightarrow> Normaliser \<Rightarrow> Normaliser \<Rightarrow> AVPacket list \<Rightarrow> bool" where
  "rises k n n' out \<longleftrightarrow> track_floor n k \<le> track_floor n' k \<and> length out \<le> 1 \<and>
     (\<forall>q \<in> set out. trackKeyFor (av_Codec q) = Some k \<longrightarrow>
        track_floor n k \<le> av_DTSms q \<and> av_DTSms q \<le> track_floor n' k)"

definition keeps :: "Normaliser \<Rightarrow> Normaliser \<Rightarrow> bool" where
  "keeps n n' \<longleftrightarrow> n_cfg n' = n_cfg n \<and> n_hasPending n' = n_hasPending n \<and>
     (\<forall>k. tr_seeded (n_tracks n k) \<longrightarrow> tr_seeded (n_tracks n' k))"

lemma hardReanchor_rises:
  assumes "hardReanchor_locked p tk inDts cto now expd drift n = (n', q)"
    and "tr_seeded (n_tracks n tk)" and "trackKeyFor (av_Codec p) = Some tk"
  shows "rises k n n' [q] \<and> keeps n n'"
  using assms partner_cases [of k tk]
  by (auto simp: hardReanchor_locked_def Let_def rises_def keeps_def track_floor_def split: if_splits)

text \<open>The three outcomes on a seeded track: dropped, re-anchored, kept.\<close>

definition proposed :: "Normaliser \<Rightarrow> trackKey \<Rightarrow> int \<Rightarrow> int" where
  "proposed n tk inDts = tr_outputAnchor (n_tracks n tk) + (inDts - tr_inputOrigin (n_tracks n tk))"

definition eff_now :: "Normaliser \<Rightarrow> trackKey \<Rightarrow> int \<Rightarrow> int" where
  "eff_now n tk now = max now (tr_lastOutputDts (n_tracks n tk))"

definition ahead_drop :: "Normaliser \<Rightarrow> trackKey \<Rightarrow> int \<Rightarrow> int \<Rightarrow> bool" where
  "ahead_drop n tk inDts now \<longleftrightarrow>
     0 < nc_MaxAheadMs (n_cfg n) \<and> nc_MaxAheadMs (n_cfg n) < proposed n tk inDts - now"

definition must_reanchor :: "Normaliser \<Rightarrow> trackKey \<Rightarrow> int \<Rightarrow> int \<Rightarrow> bool" where
  "must_reanchor n tk inDts now \<longleftrightarrow>
     nc_JumpThresholdMs (n_cfg n) < \<bar>proposed n tk inDts - eff_now n tk now\<bar> \<or>
     proposed n tk inDts < tr_lastOutputDts (n_tracks n tk) \<or>
     0 < nc_MaxBehindMs (n_cfg n) \<and> proposed n tk inDts - eff_now n tk now < - nc_MaxBehindMs (n_cfg n)"

lemma applySeeded_cases:
  assumes "applySeeded_locked p tk inDts cto now n = (n', out)"
  obtains (drop) "ahead_drop n tk inDts now" "out = []" "n_tracks n' = n_tracks n" "n_cfg n' = n_cfg n"
      "n_hasPending n' = n_hasPending n"
  | (anchor) q where "\<not> ahead_drop n tk inDts now" "must_reanchor n tk inDts now" "out = [q]"
      "hardReanchor_locked p tk inDts cto now (proposed n tk inDts)
         (proposed n tk inDts - eff_now n tk now) n = (n', q)"
  | (keep) "\<not> ahead_drop n tk inDts now" "\<not> must_reanchor n tk inDts now"
      "out = [assignTimes p (proposed n tk inDts) cto]"
      "n_tracks n' = (n_tracks n)(tk := (n_tracks n tk)\<lparr>tr_lastOutputDts := proposed n tk inDts\<rparr>)"
      "n_cfg n' = n_cfg n" "n_hasPending n' = n_hasPending n"
proof -
  let ?e = "proposed n tk inDts" and ?f = "eff_now n tk now"
  have eff: "(if now < tr_lastOutputDts (n_tracks n tk) then tr_lastOutputDts (n_tracks n tk) else now) = ?f"
    by (simp add: eff_now_def)
  note u = assms [unfolded applySeeded_locked_def Let_def eff, folded proposed_def, folded ahead_drop_def
      must_reanchor_def]
  show thesis
  proof (cases "ahead_drop n tk inDts now")
    case True
    then show thesis using u by (intro drop) auto
  next
    case False
    show thesis
    proof (cases "must_reanchor n tk inDts now")
      case True
      obtain m q where h: "hardReanchor_locked p tk inDts cto now ?e (?e - ?f) n = (m, q)" by fastforce
      from anchor [OF False True, of q] h u False True show thesis by simp
    next
      case False
      then show thesis using u \<open>\<not> ahead_drop n tk inDts now\<close> by (intro keep) auto
    qed
  qed
qed

lemma applySeeded_rises:
  assumes run: "applySeeded_locked p tk inDts cto now n = (n', out)"
    and s: "tr_seeded (n_tracks n tk)" and k: "trackKeyFor (av_Codec p) = Some tk"
  shows "rises k n n' out \<and> keeps n n'"
  using run
proof (cases rule: applySeeded_cases)
  case drop
  then show ?thesis by (simp add: rises_def keeps_def track_floor_def)
next
  case (anchor q)
  with hardReanchor_rises [OF _ s k] show ?thesis by blast
next
  case keep
  then have "tr_lastOutputDts (n_tracks n tk) \<le> proposed n tk inDts" by (simp add: must_reanchor_def)
  with keep s k show ?thesis by (auto simp: rises_def keeps_def track_floor_def)
qed

lemma seedTrack_rises:
  assumes "seedTrack_locked tk inDts now cto p n = (n', q)"
    and "\<not> tr_seeded (n_tracks n tk)" and "trackKeyFor (av_Codec p) = Some tk"
  shows "rises k n n' [q] \<and> keeps n n'"
  using assms partner_cases [of k tk]
  by (auto simp: seedTrack_locked_def Let_def rises_def keeps_def track_floor_def)

definition calm :: "trackKey \<Rightarrow> Normaliser \<Rightarrow> bool" where
  "calm tk n \<longleftrightarrow> nc_Enabled (n_cfg n) \<and>
     (nc_SeedHoldTimeoutMs (n_cfg n) \<le> 0 \<or> tr_seeded (n_tracks n tk) \<and> \<not> n_hasPending n)"

lemma calm_keeps: "calm tk n \<Longrightarrow> keeps n n' \<Longrightarrow> calm tk n'"
  by (auto simp: calm_def keeps_def)

lemma rises_cong:
  "(\<And>k. tr_seeded (n_tracks m k) = tr_seeded (n_tracks n k) \<and>
      tr_lastOutputDts (n_tracks m k) = tr_lastOutputDts (n_tracks n k)) \<Longrightarrow> rises k m n' out = rises k n n' out"
  by (simp add: rises_def track_floor_def)

lemma applyOne_rises:
  assumes run: "applyOne_locked p k inDts cto nowMs now n = (n', out)"
    and calm: "calm tk n" and key: "trackKeyFor (av_Codec p) = Some k"
  shows "rises tk n n' out \<and> keeps n n'"
proof (cases "tr_seeded (n_tracks n k)")
  case True
  obtain t i where u: "unwrapInput_locked (n_tracks n k) inDts = (t, i)" by fastforce
  then have t: "tr_seeded t = tr_seeded (n_tracks n k)" "tr_lastOutputDts t = tr_lastOutputDts (n_tracks n k)"
    by (auto simp: unwrapInput_locked_def Let_def split: if_splits)
  let ?m = "set_track k t n"
  have "rises tk ?m n' out \<and> keeps ?m n'"
    using run True u t key by (intro applySeeded_rises [of p k i cto nowMs]) (simp_all add: applyOne_locked_def Let_def)
  moreover have "rises tk ?m n' out = rises tk n n' out" by (rule rises_cong) (simp add: t)
  ultimately show ?thesis using t by (auto simp: keeps_def split: if_splits)
next
  case False
  have direct: "\<not> (0 < nc_SeedHoldTimeoutMs (n_cfg n) \<and> \<not> tr_seeded (n_tracks n (partner k)))"
    using calm False partner_cases [of tk k] by (auto simp: calm_def)
  obtain n1 q where s: "seedTrack_locked k inDts nowMs cto p n = (n1, q)" by fastforce
  have r: "out = [q]" "n_tracks n' = n_tracks n1" "n_cfg n' = n_cfg n1" "n_hasPending n' = n_hasPending n1"
    using run False direct s by (auto simp: applyOne_locked_def Let_def)
  have "rises tk n n' [q] = rises tk n n1 [q]" by (simp add: rises_def track_floor_def r)
  with seedTrack_rises [OF s False key] r show ?thesis by (simp add: keeps_def)
qed

lemma Apply_rises:
  assumes run: "Apply (Some p) now n = (n', out)" and calm: "calm tk n"
  shows "rises tk n n' out \<and> keeps n n'"
proof (cases "av_Codec p = AVCodecRawTSChunk \<or> trackKeyFor (av_Codec p) = None")
  case True
  then have none: "trackKeyFor (av_Codec p) = None" by (elim disjE) (simp_all add: trackKeyFor_def)
  then have "n' = n" "out = [p]" using run calm by (auto simp: Apply_def calm_def split: if_splits)
  with none show ?thesis by (simp add: rises_def keeps_def)
next
  case False
  then obtain k where k: "trackKeyFor (av_Codec p) = Some k" by auto
  define n2 where "n2 = (let n1 = n\<lparr>n_totalApply := n_totalApply n + 1\<rparr> in
      if \<not> n_wallSeeded n1 then n1\<lparr>n_wallOrigin := now, n_wallSeeded := True\<rparr> else n1)"
  have same: "n_cfg n2 = n_cfg n" "n_hasPending n2 = n_hasPending n" "n_tracks n2 = n_tracks n"
    by (simp_all add: n2_def Let_def)
  then have "calm tk n2" using calm by (simp add: calm_def)
  have "applyOne_locked p k (i64 (av_DTSms p)) (input_cto p) (since_ms now (n_wallOrigin n2)) now n2 = (n', out)"
    using run False k calm same
    by (auto simp: Apply_def Let_def calm_def n2_def split: prod.splits if_splits)
  note r = applyOne_rises [OF this \<open>calm tk n2\<close> k]
  have "rises tk n2 n' out = rises tk n n' out" by (rule rises_cong) (simp add: same)
  with r same show ?thesis unfolding keeps_def by simp
qed

lemma ApplyAll_rises:
  "calm tk n \<Longrightarrow> ApplyAll ps n = (m, out) \<Longrightarrow>
     sorted (track_dts tk out) \<and> (\<forall>x \<in> set (track_dts tk out). track_floor n tk \<le> x)"
proof (induction ps arbitrary: n m out)
  case Nil
  then show ?case by simp
next
  case (Cons x ps)
  obtain p now where x: "x = (p, now)" by fastforce
  obtain n1 o1 where 1: "Apply (Some p) now n = (n1, o1)" by fastforce
  obtain n2 o2 where 2: "ApplyAll ps n1 = (n2, o2)" by fastforce
  have r: "rises tk n n1 o1" "calm tk n1"
    using Apply_rises [OF 1 Cons.prems(1)] calm_keeps Cons.prems(1) by blast+
  note ih = Cons.IH [OF r(2) 2]
  have out: "out = o1 @ o2" using Cons.prems(2) x 1 2 by simp
  show ?case
  proof (cases o1)
    case Nil
    with ih r(1) out show ?thesis by (auto simp: rises_def)
  next
    case (Cons q qs)
    then have "o1 = [q]" using r(1) by (auto simp: rises_def)
    with ih r(1) out show ?thesis
      by (cases "trackKeyFor (av_Codec q) = Some tk") (auto simp: rises_def intro: order_trans)
  qed
qed



definition av_sample :: "AVCodec \<Rightarrow> int \<Rightarrow> AVPacket" where
  "av_sample c dts = \<lparr>av_Codec = c, av_Data = [], av_PTSms = dts, av_DTSms = dts, av_KeyFrame = False\<rparr>"


subsection \<open>A/V offset\<close>

text \<open>Where a track's source time zero lands on the output timeline.\<close>

definition track_shift :: "Normaliser \<Rightarrow> trackKey \<Rightarrow> int" where
  "track_shift n tk = tr_outputAnchor (n_tracks n tk) - tr_inputOrigin (n_tracks n tk)"

definition av_skew :: "Normaliser \<Rightarrow> int" where
  "av_skew n = track_shift n trackVideo - track_shift n trackAudio"

lemma av_skew_eq:
  "track_shift n' tk - track_shift n tk = track_shift n' (partner tk) - track_shift n (partner tk) \<Longrightarrow>
   av_skew n' = av_skew n"
  by (cases tk) (simp_all add: av_skew_def)

lemma hardReanchor_skew:
  assumes run: "hardReanchor_locked p tk inDts cto now (proposed n tk inDts) drift n = (n', q)"
    and "tr_seeded (n_tracks n (partner tk))"
    and fwd: "proposed n tk inDts < (if now \<le> tr_lastOutputDts (n_tracks n tk)
        then tr_lastOutputDts (n_tracks n tk) + 1 else now)"
  shows "av_skew n' = av_skew n"
proof (rule av_skew_eq [of _ tk])
  show "track_shift n' tk - track_shift n tk = track_shift n' (partner tk) - track_shift n (partner tk)"
    using assms by (auto simp: hardReanchor_locked_def Let_def track_shift_def proposed_def split: if_splits)
qed

lemma applySeeded_skew:
  assumes run: "applySeeded_locked p tk inDts cto now n = (n', out)"
    and "tr_seeded (n_tracks n (partner tk))"
    and "proposed n tk inDts - eff_now n tk now \<le> nc_JumpThresholdMs (n_cfg n)"
    and pos: "0 \<le> nc_JumpThresholdMs (n_cfg n)"
  shows "av_skew n' = av_skew n"
  using run
proof (cases rule: applySeeded_cases)
  case drop
  then show ?thesis by (simp add: av_skew_def track_shift_def)
next
  case (anchor q)
  have "proposed n tk inDts < eff_now n tk now"
    using anchor(2) assms(3) pos by (auto simp: must_reanchor_def eff_now_def)
  then have "proposed n tk inDts < (if now \<le> tr_lastOutputDts (n_tracks n tk)
      then tr_lastOutputDts (n_tracks n tk) + 1 else now)" by (auto simp: eff_now_def)
  with anchor(4) assms(2) show ?thesis by (rule hardReanchor_skew)
next
  case keep
  then show ?thesis by (simp add: av_skew_def track_shift_def)
qed


subsection \<open>The steady state\<close>

text \<open>Both tracks have an anchor, nothing is held.\<close>

definition steady :: "Normaliser \<Rightarrow> bool" where
  "steady n \<longleftrightarrow> nc_Enabled (n_cfg n) \<and> n_wallSeeded n \<and> \<not> n_hasPending n \<and> (\<forall>k. tr_seeded (n_tracks n k))"

definition unwrapped :: "Normaliser \<Rightarrow> trackKey \<Rightarrow> AVPacket \<Rightarrow> int" where
  "unwrapped n tk p = snd (unwrapInput_locked (n_tracks n tk) (i64 (av_DTSms p)))"

definition now_ms :: "Normaliser \<Rightarrow> gotime \<Rightarrow> int" where
  "now_ms n now = since_ms now (n_wallOrigin n)"

lemma unwrap_fields:
  "fst (unwrapInput_locked t raw) = t\<lparr>tr_wrapOffset := tr_wrapOffset (fst (unwrapInput_locked t raw)),
     tr_lastInputDts := snd (unwrapInput_locked t raw)\<rparr>"
  by (simp add: unwrapInput_locked_def Let_def)

lemma unwrap_simps [simp]:
  "tr_seeded (fst (unwrapInput_locked t raw)) = tr_seeded t"
  "tr_inputOrigin (fst (unwrapInput_locked t raw)) = tr_inputOrigin t"
  "tr_outputAnchor (fst (unwrapInput_locked t raw)) = tr_outputAnchor t"
  "tr_lastOutputDts (fst (unwrapInput_locked t raw)) = tr_lastOutputDts t"
  by (simp_all add: unwrapInput_locked_def Let_def)

lemma Apply_steady:
  assumes "steady n" and "trackKeyFor (av_Codec p) = Some tk"
  obtains m where "Apply (Some p) now n =
      applySeeded_locked p tk (unwrapped n tk p) (input_cto p) (now_ms n now) m"
    "n_cfg m = n_cfg n"
    "n_tracks m = (n_tracks n)(tk := fst (unwrapInput_locked (n_tracks n tk) (i64 (av_DTSms p))))"
proof -
  let ?t = "fst (unwrapInput_locked (n_tracks n tk) (i64 (av_DTSms p)))"
  let ?m = "set_track tk ?t (n\<lparr>n_totalApply := n_totalApply n + 1\<rparr>)"
  have "av_Codec p \<noteq> AVCodecRawTSChunk" using assms(2) by (auto simp: trackKeyFor_def)
  then have "Apply (Some p) now n = applySeeded_locked p tk (unwrapped n tk p) (input_cto p) (now_ms n now) ?m"
    using assms by (simp add: Apply_def applyOne_locked_def Let_def steady_def unwrapped_def now_ms_def
        split: prod.split)
  then show thesis by (rule that) simp_all
qed

text \<open>
  on a seeded stream a packet is either dropped, exactly when its proposed time is more than the
  configured lead ahead of the wallclock, or emitted alone, with payload, codec, key-frame flag and
  composition offset untouched and a decode time that differs from the wallclock (or from the last
  emitted time, if that is later) by at most the jump threshold.
\<close>
theorem steady_step_bounds:
  assumes "steady n" and "trackKeyFor (av_Codec p) = Some tk" and "1 \<le> nc_JumpThresholdMs (n_cfg n)"
    and "0 \<le> eff_now n tk (now_ms n now)"
  shows "if ahead_drop n tk (unwrapped n tk p) (now_ms n now) then snd (Apply (Some p) now n) = []
     else (\<exists>q. snd (Apply (Some p) now n) = [q] \<and> av_Codec q = av_Codec p \<and> av_Data q = av_Data p \<and>
        av_KeyFrame q = av_KeyFrame p \<and> av_PTSms q - av_DTSms q = input_cto p \<and>
        \<bar>av_DTSms q - eff_now n tk (now_ms n now)\<bar> \<le> nc_JumpThresholdMs (n_cfg n))"
proof -
  obtain m where m: "Apply (Some p) now n =
      applySeeded_locked p tk (unwrapped n tk p) (input_cto p) (now_ms n now) m"
    "n_cfg m = n_cfg n"
    "n_tracks m = (n_tracks n)(tk := fst (unwrapInput_locked (n_tracks n tk) (i64 (av_DTSms p))))"
    using Apply_steady [OF assms(1,2)] .
  have eq: "proposed m tk i = proposed n tk i" "eff_now m tk w = eff_now n tk w"
    "ahead_drop m tk i w = ahead_drop n tk i w" "must_reanchor m tk i w = must_reanchor n tk i w" for i w
    by (simp_all add: proposed_def eff_now_def ahead_drop_def must_reanchor_def m)
  have cto: "0 \<le> input_cto p" by (simp add: input_cto_def Let_def)
  obtain n' out where r: "applySeeded_locked p tk (unwrapped n tk p) (input_cto p) (now_ms n now) m = (n', out)"
    by fastforce
  then show ?thesis
  proof (cases rule: applySeeded_cases)
    case drop
    with m r eq show ?thesis by simp
  next
    case (anchor q)
    have "q = assignTimes p (if now_ms n now \<le> tr_lastOutputDts (n_tracks m tk)
        then tr_lastOutputDts (n_tracks m tk) + 1 else now_ms n now) (input_cto p)"
      using anchor(4) by (auto simp: hardReanchor_locked_def Let_def)
    with anchor m r eq cto assms(3,4) show ?thesis by (auto simp: eff_now_def)
  next
    case keep
    then have "\<bar>proposed n tk (unwrapped n tk p) - eff_now n tk (now_ms n now)\<bar> \<le> nc_JumpThresholdMs (n_cfg n)"
      by (auto simp: must_reanchor_def eq m)
    with keep m r eq cto assms(3,4) show ?thesis by auto
  qed
qed

text \<open>
  the source's offset between video and audio survives re-anchoring: on a seeded stream, a packet
  whose proposed time is at most the jump threshold ahead leaves the skew between the two tracks'
  source-to-output shifts as it was, whether it is kept, dropped, or re-anchored forward after a stall.
\<close>
theorem forward_reanchor_keeps_av_skew:
  assumes "steady n" and "trackKeyFor (av_Codec p) = Some tk" and "0 \<le> nc_JumpThresholdMs (n_cfg n)"
    and "proposed n tk (unwrapped n tk p) - eff_now n tk (now_ms n now) \<le> nc_JumpThresholdMs (n_cfg n)"
  shows "av_skew (fst (Apply (Some p) now n)) = av_skew n"
proof -
  obtain m where m: "Apply (Some p) now n =
      applySeeded_locked p tk (unwrapped n tk p) (input_cto p) (now_ms n now) m"
    "n_cfg m = n_cfg n"
    "n_tracks m = (n_tracks n)(tk := fst (unwrapInput_locked (n_tracks n tk) (i64 (av_DTSms p))))"
    using Apply_steady [OF assms(1,2)] .
  have "av_skew m = av_skew n" by (cases tk) (simp_all add: av_skew_def track_shift_def m)
  moreover have "av_skew (fst (Apply (Some p) now n)) = av_skew m"
    using applySeeded_skew [of p tk "unwrapped n tk p" "input_cto p" "now_ms n now" m] assms
    by (cases "applySeeded_locked p tk (unwrapped n tk p) (input_cto p) (now_ms n now) m")
      (simp add: m steady_def proposed_def eff_now_def)
  ultimately show ?thesis by simp
qed


text \<open>
  a source that jumps ahead by more than the threshold is pulled back on the track that saw the
  jump only: its shift moves back by the excess while the partner's stays, so the skew between the
  tracks changes by the excess, although a clamped re-anchor is said to leave nothing to propagate.
\<close>
theorem backward_reanchor_moves_one_track:
  assumes "steady n" and "trackKeyFor (av_Codec p) = Some tk" and "1 \<le> nc_JumpThresholdMs (n_cfg n)"
    and "nc_MaxAheadMs (n_cfg n) \<le> 0"
    and "nc_JumpThresholdMs (n_cfg n) < proposed n tk (unwrapped n tk p) - eff_now n tk (now_ms n now)"
  shows "track_shift (fst (Apply (Some p) now n)) (partner tk) = track_shift n (partner tk) \<and>
    track_shift (fst (Apply (Some p) now n)) tk \<le>
      track_shift n tk - (proposed n tk (unwrapped n tk p) - eff_now n tk (now_ms n now)) + 1"
proof -
  obtain m where m: "Apply (Some p) now n =
      applySeeded_locked p tk (unwrapped n tk p) (input_cto p) (now_ms n now) m"
    "n_cfg m = n_cfg n"
    "n_tracks m = (n_tracks n)(tk := fst (unwrapInput_locked (n_tracks n tk) (i64 (av_DTSms p))))"
    using Apply_steady [OF assms(1,2)] .
  have eq: "proposed m tk i = proposed n tk i" "eff_now m tk w = eff_now n tk w"
    "track_shift m k = track_shift n k" for i w k
    by (simp_all add: proposed_def eff_now_def track_shift_def m)
  obtain n' out where r: "applySeeded_locked p tk (unwrapped n tk p) (input_cto p) (now_ms n now) m = (n', out)"
    by fastforce
  then have "track_shift n' (partner tk) = track_shift m (partner tk) \<and>
      track_shift n' tk \<le> track_shift m tk - (proposed m tk (unwrapped n tk p) - eff_now m tk (now_ms n now)) + 1"
  proof (cases rule: applySeeded_cases)
    case drop
    with assms(4) show ?thesis by (simp add: ahead_drop_def m)
  next
    case (anchor q)
    have "eff_now m tk (now_ms n now) + 1 < proposed m tk (unwrapped n tk p)" using assms(3,5) eq by simp
    then show ?thesis using anchor(4)
      by (auto simp: hardReanchor_locked_def Let_def track_shift_def proposed_def eff_now_def split: if_splits)
  next
    case keep
    have "must_reanchor m tk (unwrapped n tk p) (now_ms n now)"
      unfolding must_reanchor_def eq m(2) using assms(5) by linarith
    with keep show ?thesis by simp
  qed
  with m r eq show ?thesis by simp
qed

subsection \<open>The 33-bit counter\<close>

text \<open>What a 90 kHz clock that has counted to \<open>t\<close> shows, in milliseconds.\<close>

definition raw_ms :: "int \<Rightarrow> int" where
  "raw_ms t = (t mod 2 ^ 33) div 90"

fun unwrap_all :: "trackState \<Rightarrow> int list \<Rightarrow> int list" where
  "unwrap_all tr [] = []"
| "unwrap_all tr (raw # raws) =
     (case unwrapInput_locked tr raw of (tr1, i) \<Rightarrow> i # unwrap_all tr1 raws)"

fun steps_ok :: "int \<Rightarrow> int list \<Rightarrow> bool" where
  "steps_ok t [] = True"
| "steps_ok t (u # us) \<longleftrightarrow> t \<le> u \<and> u - t \<le> 2 ^ 32 - 90 \<and> steps_ok u us"

lemma ptsWrapMs_val: "ptsWrapMs = 95443717" "go_div ptsWrapMs 2 = 47721858"
  "go_div 95443717 2 = 47721858"
  by code_simp+

definition synced :: "int \<Rightarrow> trackState \<Rightarrow> bool" where
  "synced t tr \<longleftrightarrow> tr_wrapOffset tr = t div 2 ^ 33 * ptsWrapMs \<and>
     tr_lastInputDts tr = raw_ms t + t div 2 ^ 33 * ptsWrapMs"

lemma raw_ms_step:
  assumes "t \<le> u" and "u - t \<le> 2 ^ 32 - 90"
  shows "u div 2 ^ 33 = t div 2 ^ 33 \<and> raw_ms t \<le> raw_ms u \<or>
    u div 2 ^ 33 = t div 2 ^ 33 + 1 \<and> raw_ms u < raw_ms t - 47721858"
proof -
  define k r where "k = t div 2 ^ 33" and "r = t mod 2 ^ 33"
  have t: "t = 2 ^ 33 * k + r" "0 \<le> r" "r < 2 ^ 33" by (simp_all add: k_def r_def)
  show ?thesis
  proof (cases "r + (u - t) < 2 ^ 33")
    case True
    then have "u = 2 ^ 33 * k + (r + (u - t))" "0 \<le> r + (u - t)" using t assms by simp_all
    then have uk: "u div 2 ^ 33 = k" "u mod 2 ^ 33 = r + (u - t)"
      using True by (metis div_pos_pos_trivial div_mult_self4 add.commute zero_neq_numeral power_not_zero add.right_neutral,
        metis mod_mult_self4 mod_pos_pos_trivial)
    have "t div 2 ^ 33 = k" "t mod 2 ^ 33 = r" by (simp_all only: k_def r_def)
    with uk show ?thesis using assms(1) by (simp add: raw_ms_def zdiv_mono1)
  next
    case False
    define r' where "r' = r + (u - t) - 2 ^ 33"
    have r': "0 \<le> r'" "r' < 2 ^ 33" "u = 2 ^ 33 * (k + 1) + r'" "r' + 4294967386 \<le> r"
      using False t assms by (simp_all add: r'_def)
    have ud: "u div 2 ^ 33 = k + 1" using r' by (simp add: div_pos_pos_trivial)
    have "r' mod 2 ^ 33 = r'" using r'(1,2) by (rule mod_pos_pos_trivial)
    then have um: "u mod 2 ^ 33 = r'" by (simp only: r'(3) mod_mult_self4)
    have "r' div 90 < r div 90 - 47721858" using r'(4) by linarith
    then have "u div 2 ^ 33 = k + 1 \<and> u mod 2 ^ 33 div 90 < r div 90 - 47721858"
      by (simp only: ud um simp_thms)
    then show ?thesis unfolding raw_ms_def k_def r_def by (rule disjI2)
  qed
qed

lemma unwrap_step:
  assumes "synced t tr" and "t \<le> u" and "u - t \<le> 2 ^ 32 - 90"
  shows "synced u (fst (unwrapInput_locked tr (raw_ms u))) \<and>
    snd (unwrapInput_locked tr (raw_ms u)) = raw_ms u + u div 2 ^ 33 * ptsWrapMs"
  using raw_ms_step [OF assms(2,3)] assms(1)
  by (auto simp: synced_def unwrapInput_locked_def Let_def ptsWrapMs_val algebra_simps)

lemma raw_ms_error:
  assumes "0 \<le> t"
  shows "raw_ms t + t div 2 ^ 33 * ptsWrapMs \<le> t div 90 \<and>
    t div 90 - (raw_ms t + t div 2 ^ 33 * ptsWrapMs) \<le> t div 2 ^ 33"
proof -
  define k r where "k = t div 2 ^ 33" and "r = t mod 2 ^ 33"
  have t: "t = 90 * (k * 95443717) + (62 * k + r)" "0 \<le> r" "0 \<le> k"
    using assms by (simp_all add: k_def r_def pos_imp_zdiv_nonneg_iff)
  then have "t div 90 = k * 95443717 + (62 * k + r) div 90" by simp
  moreover have "r div 90 \<le> (62 * k + r) div 90" using t by (intro zdiv_mono1) simp_all
  moreover have "(62 * k + r) div 90 \<le> r div 90 + k" using t(3) by linarith
  moreover have "t div 2 ^ 33 = k" "t mod 2 ^ 33 = r" by (simp_all only: k_def r_def)
  ultimately show ?thesis by (simp add: raw_ms_def ptsWrapMs_val)
qed



subsection \<open>The joint seed\<close>

definition stamp :: "int \<Rightarrow> AVPacket \<Rightarrow> AVPacket" where
  "stamp base p = assignTimes p (i64 (av_DTSms p) - base) (input_cto p)"

definition held :: "AVPacket \<Rightarrow> bufferedPacket" where
  "held p = \<lparr>bp_pkt = p, bp_inDts = i64 (av_DTSms p), bp_cto = input_cto p\<rparr>"

lemma drain_pending_map:
  "fst (drain_pending anchor first (map held ps) low) = map (stamp (first - anchor)) ps"
  by (induction ps arbitrary: low)
    (simp_all add: held_def stamp_def Let_def algebra_simps split_beta)

text \<open>
  C11: when the first packet of the second track arrives within the hold, every held packet of the
  first track and the new packet leave together, stamped on one scale: each at its own source time
  minus the earlier of the two tracks' first source times, so the source's offset between video and
  audio is exactly what is emitted, and both tracks continue on that scale.
\<close>
theorem joint_seed_keeps_source_offset:
  assumes "nc_Enabled (n_cfg n)" and "n_wallSeeded n" and "0 < nc_SeedHoldTimeoutMs (n_cfg n)"
    and "\<And>k. \<not> tr_seeded (n_tracks n k)" and "n_hasPending n"
    and "n_pending n = map held (f # fs)"
    and "trackKeyFor (av_Codec p) = Some tk" and "n_pendingTrack n = partner tk"
    and "since_ms now (n_pendingFirstArrival n) \<le> nc_SeedHoldTimeoutMs (n_cfg n)"
    and "base = min (i64 (av_DTSms f)) (i64 (av_DTSms p))"
  shows "snd (Apply (Some p) now n) =
      (if i64 (av_DTSms p) \<le> i64 (av_DTSms f) then stamp base p # map (stamp base) (f # fs)
       else map (stamp base) (f # fs) @ [stamp base p]) \<and>
    track_shift (fst (Apply (Some p) now n)) tk = - base \<and>
    track_shift (fst (Apply (Some p) now n)) (partner tk) = - base"
proof -
  define n1 where "n1 = n\<lparr>n_totalApply := n_totalApply n + 1\<rparr>"
  have raw: "av_Codec p \<noteq> AVCodecRawTSChunk" using assms(7) by (auto simp: trackKeyFor_def)
  have run: "Apply (Some p) now n = completeJointSeed_locked p tk (i64 (av_DTSms p)) (input_cto p) n1"
    using assms raw by (simp add: Apply_def applyOne_locked_def Let_def n1_def split: prod.split)
  have hd: "bp_inDts (hd (n_pending n)) = i64 (av_DTSms f)" by (simp add: assms(6) held_def)
  have d: "fst (drain_pending a (i64 (av_DTSms f)) (n_pending n) l) = map (stamp (i64 (av_DTSms f) - a)) (f # fs)"
    for a l unfolding assms(6) by (rule drain_pending_map)
  show ?thesis
    unfolding run using d assms(8,10)
    by (cases "i64 (av_DTSms p) \<le> i64 (av_DTSms f)")
      (simp_all add: completeJointSeed_locked_def Let_def n1_def hd split_beta track_shift_def stamp_def min_def)
qed

subsection \<open>Sessions and the production configuration\<close>

definition DefaultPTSJumpThresholdMs :: int where "DefaultPTSJumpThresholdMs = 2000"
definition DefaultPTSMaxAheadMs :: int where "DefaultPTSMaxAheadMs = 0"
definition DefaultPTSMaxBehindMs :: int where "DefaultPTSMaxBehindMs = 3000"

definition normaliserConfig :: Config where
  "normaliserConfig = \<lparr>nc_Enabled = True, nc_JumpThresholdMs = DefaultPTSJumpThresholdMs,
     nc_MaxAheadMs = DefaultPTSMaxAheadMs, nc_MaxBehindMs = DefaultPTSMaxBehindMs,
     nc_CrossTrackSnapMs = 1000, nc_SameTimebaseMaxMs = 5000, nc_SeedHoldTimeoutMs = 1000\<rparr>"

definition first_session :: "(AVPacket \<times> gotime) list" where
  "first_session = [(av_sample AVCodecH264 90000, 0), (av_sample AVCodecAAC 90000, millis 1),
     (av_sample AVCodecH264 91000, millis 1000), (av_sample AVCodecH264 92000, millis 2000)]"

definition second_session :: "(AVPacket \<times> gotime) list" where
  "second_session = [(av_sample AVCodecH264 5000, millis 9000), (av_sample AVCodecAAC 5000, millis 9001)]"

definition reconnect :: StreamSession where
  "reconnect = \<lparr>ss_ID = 2, ss_StartedAt = millis 9000, ss_Reason = SessionStartReconnect,
     ss_Video = None, ss_Audio = None\<rparr>"

text \<open>
  output time is not monotone across a session boundary: with the production settings, a stream
  that has emitted video up to 2000 ms and reconnects nine seconds in starts its next session at
  decode time 0, because a new session forgets the floors and a joint seed ignores the wallclock.
\<close>
theorem session_boundary_restarts_at_zero:
  "track_dts trackVideo (snd (ApplyAll first_session (NewNormaliser normaliserConfig))) = [0, 1000, 2000] \<and>
   track_dts trackVideo (snd (ApplyAll second_session
     (OnSession (Some reconnect) (fst (ApplyAll first_session (NewNormaliser normaliserConfig)))))) = [0]"
  by code_simp


subsection \<open>The properties on concrete streams\<close>

definition steady_n :: Normaliser where
  "steady_n = (NewNormaliser DefaultConfig)\<lparr>n_wallSeeded := True,
     n_tracks := (\<lambda>_. trackState0\<lparr>tr_seeded := True, tr_inputOrigin := 9000, tr_lastInputDts := 9000\<rparr>)\<rparr>"

lemma steady_n: "steady steady_n" "nc_JumpThresholdMs (n_cfg steady_n) = 2000" "nc_MaxAheadMs (n_cfg steady_n) = 0"
  by (simp_all add: steady_def steady_n_def NewNormaliser_def DefaultConfig_def trackState0_def)

lemma sample_track: "trackKeyFor (av_Codec (av_sample AVCodecH264 d)) = Some trackVideo"
  by (simp add: av_sample_def trackKeyFor_def)

theorem steady_step_bounds_witness:
  "\<exists>q. snd (Apply (Some (av_sample AVCodecH264 9040)) (millis 45) steady_n) = [q] \<and> \<bar>av_DTSms q - 45\<bar> \<le> 2000"
proof -
  have "\<not> ahead_drop steady_n trackVideo (unwrapped steady_n trackVideo (av_sample AVCodecH264 9040)) (now_ms steady_n (millis 45))"
    by (simp add: ahead_drop_def steady_n(3))
  moreover have "eff_now steady_n trackVideo (now_ms steady_n (millis 45)) = 45" by code_simp
  ultimately show ?thesis
    using steady_step_bounds [OF steady_n(1) sample_track, of "millis 45" 9040] by (auto simp: steady_n(2))
qed

theorem forward_reanchor_keeps_av_skew_witness:
  "av_skew (fst (Apply (Some (av_sample AVCodecH264 9040)) (millis 7000) steady_n)) = av_skew steady_n"
proof (rule forward_reanchor_keeps_av_skew [OF steady_n(1) sample_track])
  show "0 \<le> nc_JumpThresholdMs (n_cfg steady_n)" by (simp add: steady_n)
  show "proposed steady_n trackVideo (unwrapped steady_n trackVideo (av_sample AVCodecH264 9040))
      - eff_now steady_n trackVideo (now_ms steady_n (millis 7000)) \<le> nc_JumpThresholdMs (n_cfg steady_n)"
    by code_simp
qed

theorem backward_reanchor_moves_one_track_witness:
  "track_shift (fst (Apply (Some (av_sample AVCodecH264 19000)) (millis 40) steady_n)) trackAudio = track_shift steady_n trackAudio \<and>
   track_shift (fst (Apply (Some (av_sample AVCodecH264 19000)) (millis 40) steady_n)) trackVideo \<le>
     track_shift steady_n trackVideo - 9959"
proof -
  have "proposed steady_n trackVideo (unwrapped steady_n trackVideo (av_sample AVCodecH264 19000)) = 10000"
    "eff_now steady_n trackVideo (now_ms steady_n (millis 40)) = 40" by code_simp+
  with backward_reanchor_moves_one_track [OF steady_n(1) sample_track, of 19000 "millis 40"]
  show ?thesis by (simp add: steady_n)
qed


lemma NewNormaliser_fields:
  "n_cfg (NewNormaliser normaliserConfig) = normaliserConfig"
  "n_wallSeeded (NewNormaliser cfg) = False" "n_tracks (NewNormaliser cfg) k = trackState0"
  by (simp_all add: NewNormaliser_def normaliserConfig_def Let_def DefaultPTSJumpThresholdMs_def)

definition holding :: Normaliser where
  "holding = (NewNormaliser normaliserConfig)\<lparr>n_wallSeeded := True, n_hasPending := True,
     n_pending := map held [av_sample AVCodecH264 5000], n_pendingTrack := trackVideo\<rparr>"

theorem joint_seed_keeps_source_offset_witness:
  "map av_DTSms (snd (Apply (Some (av_sample AVCodecAAC 4900)) (millis 30) holding)) = [0, 100]"
proof -
  have b: "(4900::int) = min (i64 (av_DTSms (av_sample AVCodecH264 5000))) (i64 (av_DTSms (av_sample AVCodecAAC 4900)))"
    by code_simp
  have "nc_Enabled (n_cfg holding)" "n_wallSeeded holding" "0 < nc_SeedHoldTimeoutMs (n_cfg holding)"
    "n_hasPending holding" "n_pending holding = map held [av_sample AVCodecH264 5000]"
    "n_pendingTrack holding = partner trackAudio" "\<And>k. \<not> tr_seeded (n_tracks holding k)"
    by (simp_all add: holding_def NewNormaliser_fields trackState0_def) (simp_all add: normaliserConfig_def)
  moreover have "trackKeyFor (av_Codec (av_sample AVCodecAAC 4900)) = Some trackAudio"
    "since_ms (millis 30) (n_pendingFirstArrival holding) \<le> nc_SeedHoldTimeoutMs (n_cfg holding)"
    by code_simp+
  ultimately have "snd (Apply (Some (av_sample AVCodecAAC 4900)) (millis 30) holding) =
      stamp 4900 (av_sample AVCodecAAC 4900) # map (stamp 4900) [av_sample AVCodecH264 5000]"
    using joint_seed_keeps_source_offset [OF _ _ _ _ _ _ _ _ _ b, of holding "[]" trackAudio "millis 30"]
    by (simp add: av_sample_def i64_def)
  then show ?thesis by (simp add: stamp_def av_sample_def i64_def)
qed

end
