(* ===== verification/Buffer_Hub.thy ===== *)
theory Buffer_Hub
  imports OS_Media
begin

text \<open>
  The buffer hub, \<^verbatim>\<open>internal/buffer/service.go\<close>: one ring buffer per stream, fanned out to subscriber
  channels.

  Ring buffers and subscribers are heap objects that outlive their map entries, so the state is a
  store: stream codes name ring buffers (\<open>hub_buffers\<close>), ring buffers live in \<open>hub_heap\<close> and channels in
  \<open>hub_chans\<close>, each under an address. The methods of \<^verbatim>\<open>ringBuffer\<close>, which run under \<^verbatim>\<open>rb.mu\<close>, are functions
  on the store with the ring buffer's address; the methods of \<^verbatim>\<open>Service\<close> first look the address up under
  \<^verbatim>\<open>s.mu\<close>. Sending on a closed channel and closing one twice panic: those are the result \<open>None\<close>.
  Metrics other than the drop counter are left out.
\<close>

subsection \<open>Channels\<close>

record Chan =
  ch_cap :: nat
  ch_buf :: "Packet list"
  ch_closed :: bool

text \<open>\<^verbatim>\<open>select { case ch <- p: default: }\<close>: the flag says whether the packet was dropped.\<close>

definition chan_try_send :: "Packet \<Rightarrow> Chan \<Rightarrow> (Chan \<times> bool) option" where
  "chan_try_send p c =
     (if ch_closed c then None
      else if length (ch_buf c) < ch_cap c then Some (c\<lparr>ch_buf := ch_buf c @ [p]\<rparr>, False)
      else Some (c, True))"

definition chan_close :: "Chan \<Rightarrow> Chan option" where
  "chan_close c = (if ch_closed c then None else Some (c\<lparr>ch_closed := True\<rparr>))"

subsection \<open>Ring buffers\<close>

record RingBuffer =
  rb_subs :: "nat list"
  rb_drops :: nat
  rb_session :: "StreamSession option"
  rb_sessionStartPending :: bool

record BufService =
  hub_capacity :: nat
  hub_buffers :: "(StreamCode \<times> nat) list"
  hub_heap :: "(nat \<times> RingBuffer) list"
  hub_chans :: "(nat \<times> Chan) list"
  hub_sessionCounter :: "64 word"

definition fresh_ref :: "(nat \<times> 'a) list \<Rightarrow> nat" where
  "fresh_ref m = Suc (Max (set (0 # gkeys m)))"

definition set_rb :: "nat \<Rightarrow> RingBuffer \<Rightarrow> BufService \<Rightarrow> BufService" where
  "set_rb r rb s = s\<lparr>hub_heap := gput r rb (hub_heap s)\<rparr>"

text \<open>Stamping the session onto a packet: the packet and the latch afterwards.\<close>

definition stamp_session :: "RingBuffer \<Rightarrow> Packet \<Rightarrow> Packet \<times> bool" where
  "stamp_session rb pkt =
     (case rb_session rb of
        None \<Rightarrow> (pkt, rb_sessionStartPending rb)
      | Some sess \<Rightarrow>
          if pk_SessionID pkt \<noteq> 0 then (pkt, rb_sessionStartPending rb)
          else if rb_sessionStartPending rb
          then (pkt\<lparr>pk_SessionID := ss_ID sess, pk_SessionStart := True\<rparr>, False)
          else (pkt\<lparr>pk_SessionID := ss_ID sess\<rparr>, False))"

fun fan_out :: "Packet \<Rightarrow> nat list \<Rightarrow> (nat \<times> Chan) list \<Rightarrow> nat \<Rightarrow> ((nat \<times> Chan) list \<times> nat) option" where
  "fan_out p [] cs drops = Some (cs, drops)"
| "fan_out p (i # is) cs drops =
     (case gget cs i of
        None \<Rightarrow> None
      | Some c \<Rightarrow>
          (case chan_try_send (clonePacket p) c of
             None \<Rightarrow> None
           | Some (c1, dropped) \<Rightarrow> fan_out p is (gput i c1 cs) (if dropped then Suc drops else drops)))"

definition rb_write :: "nat \<Rightarrow> Packet \<Rightarrow> BufService \<Rightarrow> BufService option" where
  "rb_write r pkt s =
     (if pkt_empty pkt then Some s
      else (case gget (hub_heap s) r of
          None \<Rightarrow> None
        | Some rb \<Rightarrow>
            (case stamp_session rb pkt of (pkt1, pending) \<Rightarrow>
               (case fan_out pkt1 (rb_subs rb) (hub_chans s) (rb_drops rb) of
                  None \<Rightarrow> None
                | Some (cs, drops) \<Rightarrow>
                    Some (set_rb r (rb\<lparr>rb_sessionStartPending := pending, rb_drops := drops\<rparr>)
                            (s\<lparr>hub_chans := cs\<rparr>))))))"

definition rb_subscribe :: "nat \<Rightarrow> BufService \<Rightarrow> (BufService \<times> nat) option" where
  "rb_subscribe r s =
     (case gget (hub_heap s) r of
        None \<Rightarrow> None
      | Some rb \<Rightarrow>
          let i = fresh_ref (hub_chans s) in
          Some (set_rb r (rb\<lparr>rb_subs := rb_subs rb @ [i]\<rparr>)
                  (s\<lparr>hub_chans := gput i \<lparr>ch_cap = hub_capacity s, ch_buf = [], ch_closed = False\<rparr> (hub_chans s)\<rparr>),
                i))"

definition close_one :: "nat \<Rightarrow> (nat \<times> Chan) list \<Rightarrow> (nat \<times> Chan) list option" where
  "close_one i cs =
     (case gget cs i of
        None \<Rightarrow> None
      | Some c \<Rightarrow> (case chan_close c of None \<Rightarrow> None | Some c1 \<Rightarrow> Some (gput i c1 cs)))"

definition rb_unsubscribe :: "nat \<Rightarrow> nat \<Rightarrow> BufService \<Rightarrow> BufService option" where
  "rb_unsubscribe r i s =
     (case gget (hub_heap s) r of
        None \<Rightarrow> None
      | Some rb \<Rightarrow>
          if i \<notin> set (rb_subs rb) then Some s
          else (case close_one i (hub_chans s) of
              None \<Rightarrow> None
            | Some cs \<Rightarrow> Some (set_rb r (rb\<lparr>rb_subs := remove1 i (rb_subs rb)\<rparr>) (s\<lparr>hub_chans := cs\<rparr>))))"

fun close_all :: "nat list \<Rightarrow> (nat \<times> Chan) list \<Rightarrow> (nat \<times> Chan) list option" where
  "close_all [] cs = Some cs"
| "close_all (i # is) cs = (case close_one i cs of None \<Rightarrow> None | Some cs1 \<Rightarrow> close_all is cs1)"

definition rb_unsubscribeAll :: "nat \<Rightarrow> BufService \<Rightarrow> BufService option" where
  "rb_unsubscribeAll r s =
     (case gget (hub_heap s) r of
        None \<Rightarrow> None
      | Some rb \<Rightarrow>
          (case close_all (rb_subs rb) (hub_chans s) of
             None \<Rightarrow> None
           | Some cs \<Rightarrow> Some (set_rb r (rb\<lparr>rb_subs := []\<rparr>) (s\<lparr>hub_chans := cs\<rparr>))))"

definition rb_setSession :: "nat \<Rightarrow> StreamSession \<Rightarrow> BufService \<Rightarrow> BufService option" where
  "rb_setSession r sess s =
     (case gget (hub_heap s) r of
        None \<Rightarrow> None
      | Some rb \<Rightarrow> Some (set_rb r (rb\<lparr>rb_session := Some sess, rb_sessionStartPending := True\<rparr>) s))"

subsection \<open>The service\<close>

definition DefaultBufferCapacity :: nat where "DefaultBufferCapacity = 1024"

definition NewBufService :: "int \<Rightarrow> BufService" where
  "NewBufService capacity =
     \<lparr>hub_capacity = (if capacity \<le> 0 then DefaultBufferCapacity else nat capacity), hub_buffers = [],
      hub_heap = [], hub_chans = [], hub_sessionCounter = 0\<rparr>"

definition Create :: "StreamCode \<Rightarrow> BufService \<Rightarrow> BufService" where
  "Create sid s =
     (case gget (hub_buffers s) sid of
        Some _ \<Rightarrow> s
      | None \<Rightarrow>
          let r = fresh_ref (hub_heap s) in
          s\<lparr>hub_buffers := gput sid r (hub_buffers s),
            hub_heap := gput r \<lparr>rb_subs = [], rb_drops = 0, rb_session = None, rb_sessionStartPending = False\<rparr>
              (hub_heap s)\<rparr>)"

datatype HubError = StreamNotFound StreamCode

definition hub_Write :: "StreamCode \<Rightarrow> Packet \<Rightarrow> BufService \<Rightarrow> (HubError option \<times> BufService) option" where
  "hub_Write sid pkt s =
     (case gget (hub_buffers s) sid of
        None \<Rightarrow> Some (Some (StreamNotFound sid), s)
      | Some r \<Rightarrow> map_option (Pair None) (rb_write r pkt s))"

definition hub_Subscribe :: "StreamCode \<Rightarrow> BufService \<Rightarrow> ((HubError + nat) \<times> BufService) option" where
  "hub_Subscribe sid s =
     (case gget (hub_buffers s) sid of
        None \<Rightarrow> Some (Inl (StreamNotFound sid), s)
      | Some r \<Rightarrow> map_option (\<lambda>(s', i). (Inr i, s')) (rb_subscribe r s))"

definition hub_Unsubscribe :: "StreamCode \<Rightarrow> nat \<Rightarrow> BufService \<Rightarrow> BufService option" where
  "hub_Unsubscribe sid i s =
     (case gget (hub_buffers s) sid of None \<Rightarrow> Some s | Some r \<Rightarrow> rb_unsubscribe r i s)"

definition hub_Delete :: "StreamCode \<Rightarrow> BufService \<Rightarrow> BufService option" where
  "hub_Delete sid s =
     (case gget (hub_buffers s) sid of
        None \<Rightarrow> Some s
      | Some r \<Rightarrow> rb_unsubscribeAll r (s\<lparr>hub_buffers := gdel sid (hub_buffers s)\<rparr>))"

definition hub_UnsubscribeAll :: "StreamCode \<Rightarrow> BufService \<Rightarrow> BufService option" where
  "hub_UnsubscribeAll sid s =
     (case gget (hub_buffers s) sid of None \<Rightarrow> Some s | Some r \<Rightarrow> rb_unsubscribeAll r s)"

definition hub_SetSession ::
  "StreamCode \<Rightarrow> SessionStartReason \<Rightarrow> SessionVideoConfig option \<Rightarrow> SessionAudioConfig option \<Rightarrow> gotime \<Rightarrow>
   BufService \<Rightarrow> (StreamSession option \<times> BufService) option" where
  "hub_SetSession sid reason video audio now s =
     (case gget (hub_buffers s) sid of
        None \<Rightarrow> Some (None, s)
      | Some r \<Rightarrow>
          let sid1 = hub_sessionCounter s + 1;
              sess = \<lparr>ss_ID = sid1, ss_StartedAt = now, ss_Reason = reason, ss_Video = video, ss_Audio = audio\<rparr>
          in map_option (Pair (Some sess)) (rb_setSession r sess (s\<lparr>hub_sessionCounter := sid1\<rparr>)))"

definition hub_Session :: "StreamCode \<Rightarrow> BufService \<Rightarrow> StreamSession option" where
  "hub_Session sid s =
     (case gget (hub_buffers s) sid of
        None \<Rightarrow> None
      | Some r \<Rightarrow> (case gget (hub_heap s) r of None \<Rightarrow> None | Some rb \<Rightarrow> rb_session rb))"

text \<open>A consumer's \<^verbatim>\<open>pkt, ok := <-sub.Recv()\<close> when the channel is not empty.\<close>

definition sub_Recv :: "nat \<Rightarrow> BufService \<Rightarrow> BufService" where
  "sub_Recv i s =
     (case gget (hub_chans s) i of
        None \<Rightarrow> s
      | Some c \<Rightarrow> s\<lparr>hub_chans := gput i (c\<lparr>ch_buf := tl (ch_buf c)\<rparr>) (hub_chans s)\<rparr>)"

subsection \<open>The hub as an interleaving of its critical sections\<close>

text \<open>
  A goroutine may hold the address of a ring buffer that another one has meanwhile removed from the
  map, so the steps take addresses: \<open>Delete\<close> is \<open>HForget\<close> then \<open>HUnsubscribeAll\<close>, \<open>Subscribe\<close> a lookup
  and, possibly much later, \<open>HSubscribe\<close>. An address that was never allocated cannot be held.
\<close>

datatype HubStep = HCreate StreamCode | HForget StreamCode | HWrite nat Packet | HSubscribe nat
  | HUnsubscribe nat nat | HUnsubscribeAll nat | HSetSession nat StreamSession | HRecv nat

definition allocated :: "nat \<Rightarrow> BufService \<Rightarrow> bool" where
  "allocated r s \<longleftrightarrow> gget (hub_heap s) r \<noteq> None"

fun hub_step :: "HubStep \<Rightarrow> BufService \<Rightarrow> BufService option" where
  "hub_step (HCreate sid) s = Some (Create sid s)"
| "hub_step (HForget sid) s = Some (s\<lparr>hub_buffers := gdel sid (hub_buffers s)\<rparr>)"
| "hub_step (HWrite r p) s = (if allocated r s then rb_write r p s else Some s)"
| "hub_step (HSubscribe r) s = (if allocated r s then map_option fst (rb_subscribe r s) else Some s)"
| "hub_step (HUnsubscribe r i) s = (if allocated r s then rb_unsubscribe r i s else Some s)"
| "hub_step (HUnsubscribeAll r) s = (if allocated r s then rb_unsubscribeAll r s else Some s)"
| "hub_step (HSetSession r x) s = (if allocated r s then rb_setSession r x s else Some s)"
| "hub_step (HRecv i) s = Some (sub_Recv i s)"

definition open_chan :: "BufService \<Rightarrow> nat \<Rightarrow> bool" where
  "open_chan s i \<longleftrightarrow> (case gget (hub_chans s) i of None \<Rightarrow> False | Some c \<Rightarrow> \<not> ch_closed c)"

definition subs_of :: "BufService \<Rightarrow> nat \<Rightarrow> nat list" where
  "subs_of s r = (case gget (hub_heap s) r of None \<Rightarrow> [] | Some rb \<Rightarrow> rb_subs rb)"

definition chans_ok :: "BufService \<Rightarrow> bool" where
  "chans_ok s \<longleftrightarrow> (\<forall>i c. gget (hub_chans s) i = Some c \<longrightarrow> length (ch_buf c) \<le> ch_cap c)"

definition hub_inv :: "BufService \<Rightarrow> bool" where
  "hub_inv s \<longleftrightarrow> chans_ok s \<and> (\<forall>r. distinct (subs_of s r)) \<and>
     (\<forall>r. \<forall>i \<in> set (subs_of s r). open_chan s i) \<and>
     (\<forall>r r' i. i \<in> set (subs_of s r) \<longrightarrow> i \<in> set (subs_of s r') \<longrightarrow> r = r')"

definition offer :: "Packet \<Rightarrow> Chan \<Rightarrow> Chan" where
  "offer p c = (if length (ch_buf c) < ch_cap c then c\<lparr>ch_buf := ch_buf c @ [p]\<rparr> else c)"

lemma offer_fields [simp]:
  "ch_closed (offer p c) = ch_closed c" "ch_cap (offer p c) = ch_cap c"
  "length (ch_buf c) \<le> ch_cap c \<Longrightarrow> length (ch_buf (offer p c)) \<le> ch_cap c"
  by (simp_all add: offer_def)

lemma chan_try_send_open:
  "\<not> ch_closed c \<Longrightarrow> chan_try_send p c = Some (offer p c, \<not> length (ch_buf c) < ch_cap c)"
  by (simp add: chan_try_send_def offer_def)

text \<open>Fan-out over open channels succeeds and offers the packet to each of them once.\<close>

lemma fan_out_ok:
  assumes "distinct is" and "\<forall>i \<in> set is. \<exists>c. gget cs i = Some c \<and> \<not> ch_closed c"
  shows "\<exists>cs' d'. fan_out p is cs d = Some (cs', d') \<and>
    (\<forall>j. gget cs' j = (if j \<in> set is then map_option (offer p) (gget cs j) else gget cs j))"
  using assms
proof (induction "is" arbitrary: cs d)
  case Nil
  then show ?case by simp
next
  case (Cons i "is")
  then obtain c where c: "gget cs i = Some c" "\<not> ch_closed c" by auto
  let ?cs = "gput i (offer p c) cs" and ?d = "if \<not> length (ch_buf c) < ch_cap c then Suc d else d"
  have "\<forall>j \<in> set is. \<exists>x. gget ?cs j = Some x \<and> \<not> ch_closed x"
    using Cons.prems by (auto simp: map_simps)
  with Cons.IH [of ?cs ?d] Cons.prems obtain cs' d' where
    f: "fan_out p is ?cs ?d = Some (cs', d')" and
    g: "\<forall>j. gget cs' j = (if j \<in> set is then map_option (offer p) (gget ?cs j) else gget ?cs j)" by auto
  have "fan_out p (i # is) cs d = Some (cs', d')" using c f by (simp add: chan_try_send_open)
  moreover have "gget cs' j = (if j \<in> set (i # is) then map_option (offer p) (gget cs j) else gget cs j)" for j
    using g c Cons.prems by (auto simp: map_simps)
  ultimately show ?case by blast
qed

lemma close_all_ok:
  assumes "distinct is" and "\<forall>i \<in> set is. \<exists>c. gget cs i = Some c \<and> \<not> ch_closed c"
  shows "\<exists>cs'. close_all is cs = Some cs' \<and>
    (\<forall>j. gget cs' j = (if j \<in> set is then map_option (\<lambda>c. c\<lparr>ch_closed := True\<rparr>) (gget cs j) else gget cs j))"
  using assms
proof (induction "is" arbitrary: cs)
  case Nil
  then show ?case by simp
next
  case (Cons i "is")
  then obtain c where c: "gget cs i = Some c" "\<not> ch_closed c" by auto
  let ?cs = "gput i (c\<lparr>ch_closed := True\<rparr>) cs"
  have "\<forall>j \<in> set is. \<exists>x. gget ?cs j = Some x \<and> \<not> ch_closed x"
    using Cons.prems by (auto simp: map_simps)
  with Cons.IH [of ?cs] Cons.prems obtain cs' where f: "close_all is ?cs = Some cs'" and
    g: "\<forall>j. gget cs' j = (if j \<in> set is then map_option (\<lambda>c. c\<lparr>ch_closed := True\<rparr>) (gget ?cs j) else gget ?cs j)"
    by auto
  have "close_all (i # is) cs = Some cs'" using c f by (simp add: close_one_def chan_close_def)
  moreover have "gget cs' j = (if j \<in> set (i # is) then map_option (\<lambda>c. c\<lparr>ch_closed := True\<rparr>) (gget cs j)
      else gget cs j)" for j
    using g c Cons.prems by (auto simp: map_simps)
  ultimately show ?case by blast
qed

lemma fresh_ref_None: "gget m (fresh_ref m) = None"
proof (rule ccontr)
  assume "gget m (fresh_ref m) \<noteq> None"
  then have "fresh_ref m \<in> set (0 # gkeys m)" using gkeys_gget [of "fresh_ref m" m] by simp
  then have "fresh_ref m \<le> Max (set (0 # gkeys m))" by (intro Max_ge) simp_all
  then show False by (simp add: fresh_ref_def)
qed

lemma open_chan_ex: "open_chan s i \<longleftrightarrow> (\<exists>c. gget (hub_chans s) i = Some c \<and> \<not> ch_closed c)"
  by (simp add: open_chan_def split: option.split)

lemma hub_inv_subs: "hub_inv s \<Longrightarrow> gget (hub_heap s) r = Some rb \<Longrightarrow>
    distinct (rb_subs rb) \<and> (\<forall>i \<in> set (rb_subs rb). \<exists>c. gget (hub_chans s) i = Some c \<and> \<not> ch_closed c)"
  unfolding hub_inv_def subs_of_def open_chan_ex by (auto split: option.splits dest: spec [of _ r])

lemma subs_of_set_rb [simp]:
  "subs_of (set_rb r rb s) q = (if q = r then rb_subs rb else subs_of s q)"
  by (simp add: subs_of_def set_rb_def map_simps)

lemma subs_of_chans [simp]: "subs_of (s\<lparr>hub_chans := cs\<rparr>) q = subs_of s q"
  by (simp add: subs_of_def)

lemma set_rb_fields [simp]:
  "hub_chans (set_rb r rb s) = hub_chans s" "hub_buffers (set_rb r rb s) = hub_buffers s"
  "hub_capacity (set_rb r rb s) = hub_capacity s" "hub_sessionCounter (set_rb r rb s) = hub_sessionCounter s"
  by (simp_all add: set_rb_def)

text \<open>What a write does to the channels: the stamped packet is offered to every subscriber.\<close>

lemma rb_write_spec:
  assumes inv: "hub_inv s" and rb: "gget (hub_heap s) r = Some rb" and ne: "\<not> pkt_empty pkt"
  obtains s' where "rb_write r pkt s = Some s'"
    "\<And>j. gget (hub_chans s') j = (if j \<in> set (rb_subs rb)
        then map_option (offer (fst (stamp_session rb pkt))) (gget (hub_chans s) j) else gget (hub_chans s) j)"
    "\<And>q. subs_of s' q = subs_of s q"
    "\<exists>d. gget (hub_heap s') r = Some (rb\<lparr>rb_sessionStartPending := snd (stamp_session rb pkt), rb_drops := d\<rparr>)"
proof -
  obtain pkt1 pend where st: "stamp_session rb pkt = (pkt1, pend)" by fastforce
  obtain cs d where f: "fan_out pkt1 (rb_subs rb) (hub_chans s) (rb_drops rb) = Some (cs, d)" and
    g: "\<forall>j. gget cs j = (if j \<in> set (rb_subs rb) then map_option (offer pkt1) (gget (hub_chans s) j)
        else gget (hub_chans s) j)"
    using fan_out_ok [of "rb_subs rb" "hub_chans s" pkt1 "rb_drops rb"] hub_inv_subs [OF inv rb] by blast
  let ?s = "set_rb r (rb\<lparr>rb_sessionStartPending := pend, rb_drops := d\<rparr>) (s\<lparr>hub_chans := cs\<rparr>)"
  have "rb_write r pkt s = Some ?s" using rb ne st f by (simp add: rb_write_def)
  then show thesis
  proof (rule that)
    show "gget (hub_chans ?s) j = (if j \<in> set (rb_subs rb)
        then map_option (offer (fst (stamp_session rb pkt))) (gget (hub_chans s) j) else gget (hub_chans s) j)" for j
      using g st by simp
    show "subs_of ?s q = subs_of s q" for q using rb by (auto simp: subs_of_def set_rb_def map_simps)
    show "\<exists>d. gget (hub_heap ?s) r = Some (rb\<lparr>rb_sessionStartPending := snd (stamp_session rb pkt), rb_drops := d\<rparr>)"
      using st by (intro exI [of _ d]) (simp add: set_rb_def map_simps)
  qed
qed


lemma hub_inv_cong:
  assumes "hub_inv s" and "\<And>q. subs_of s' q = subs_of s q"
    and "\<And>j. gget (hub_chans s') j = map_option (f j) (gget (hub_chans s) j)"
    and "\<And>j c. ch_closed (f j c) = ch_closed c"
    and "\<And>j c. length (ch_buf c) \<le> ch_cap c \<Longrightarrow> length (ch_buf (f j c)) \<le> ch_cap (f j c)"
  shows "hub_inv s'"
proof -
  have "open_chan s' i = open_chan s i" for i
    using assms(3,4) by (auto simp: open_chan_def split: option.splits)
  moreover have "chans_ok s'" using assms(1,3,5) by (auto simp: hub_inv_def chans_ok_def)
  ultimately show ?thesis using assms(1,2) by (simp add: hub_inv_def)
qed

lemma rb_write_inv:
  assumes "hub_inv s" and "allocated r s"
  shows "\<exists>s'. rb_write r p s = Some s' \<and> hub_inv s'"
proof (cases "pkt_empty p")
  case True
  with assms(1) show ?thesis by (simp add: rb_write_def)
next
  case False
  obtain rb where rb: "gget (hub_heap s) r = Some rb" using assms(2) by (auto simp: allocated_def)
  let ?p = "fst (stamp_session rb p)"
  obtain s' where w: "rb_write r p s = Some s'" "\<And>j. gget (hub_chans s') j = (if j \<in> set (rb_subs rb)
        then map_option (offer ?p) (gget (hub_chans s) j) else gget (hub_chans s) j)"
    "\<And>q. subs_of s' q = subs_of s q"
    using rb_write_spec [OF assms(1) rb False] by blast
  have "hub_inv s'"
  proof (rule hub_inv_cong [OF assms(1) w(3), where f = "\<lambda>j. if j \<in> set (rb_subs rb) then offer ?p else id"])
    show "gget (hub_chans s') j = map_option (if j \<in> set (rb_subs rb) then offer ?p else id) (gget (hub_chans s) j)" for j
      using w(2) by (simp add: option.map_id)
  qed simp_all
  with w(1) show ?thesis by blast
qed

lemma rb_subscribe_inv:
  assumes "hub_inv s" and "allocated r s"
  shows "\<exists>x. rb_subscribe r s = Some x \<and> hub_inv (fst x)"
proof -
  obtain rb where rb: "gget (hub_heap s) r = Some rb" using assms(2) by (auto simp: allocated_def)
  define i where "i = fresh_ref (hub_chans s)"
  have fresh: "i \<notin> set (subs_of s q)" for q
    using assms(1) fresh_ref_None [of "hub_chans s"] unfolding hub_inv_def open_chan_ex i_def by fastforce
  let ?s = "set_rb r (rb\<lparr>rb_subs := rb_subs rb @ [i]\<rparr>)
      (s\<lparr>hub_chans := gput i \<lparr>ch_cap = hub_capacity s, ch_buf = [], ch_closed = False\<rparr> (hub_chans s)\<rparr>)"
  have run: "rb_subscribe r s = Some (?s, i)" using rb by (simp add: rb_subscribe_def i_def Let_def)
  have subs: "set (subs_of ?s q) = (if q = r then insert i (set (subs_of s r)) else set (subs_of s q))" for q
    using rb by (simp add: subs_of_def [of s r])
  have "open_chan ?s j" if "j = i \<or> open_chan s j" for j
    using that by (auto simp: open_chan_ex map_simps)
  moreover have "distinct (subs_of ?s q)" for q
    using assms(1) hub_inv_subs [OF assms(1) rb] rb fresh [of r]
    by (simp add: hub_inv_def) (simp add: subs_of_def)
  moreover have "chans_ok ?s" using assms(1) by (auto simp: hub_inv_def chans_ok_def map_simps)
  ultimately have "hub_inv ?s"
    using assms(1) subs fresh unfolding hub_inv_def by (auto split: if_splits)
  with run show ?thesis by simp
qed

lemma closing_inv:
  assumes inv: "hub_inv s" and rb: "gget (hub_heap s) r = Some rb"
    and sub: "set ks \<subseteq> set (rb_subs rb)" and rest: "set js \<subseteq> set (rb_subs rb) - set ks" "distinct js"
    and cs: "\<And>j. gget cs j = (if j \<in> set ks then map_option (\<lambda>c. c\<lparr>ch_closed := True\<rparr>) (gget (hub_chans s) j)
        else gget (hub_chans s) j)"
  shows "hub_inv (set_rb r (rb\<lparr>rb_subs := js\<rparr>) (s\<lparr>hub_chans := cs\<rparr>))" (is "hub_inv ?s")
proof -
  have r: "subs_of s r = rb_subs rb" using rb by (simp add: subs_of_def)
  have op: "open_chan ?s j" if "open_chan s j" "j \<notin> set ks" for j using that cs by (simp add: open_chan_ex)
  have "j \<notin> set ks" if "j \<in> set (subs_of s q)" "q \<noteq> r" for j q
    using inv that r sub unfolding hub_inv_def by (metis subsetD)
  moreover have "chans_ok ?s" using inv cs by (auto simp: hub_inv_def chans_ok_def split: if_splits)
  moreover have "open_chan ?s x" if "x \<in> set js" for x
  proof (rule op)
    have "x \<in> set (subs_of s r)" "x \<notin> set ks" using that rest(1) r by auto
    then show "open_chan s x" "x \<notin> set ks" using inv by (auto simp: hub_inv_def)
  qed
  ultimately show ?thesis
    using inv rest op r unfolding hub_inv_def by (auto split: if_splits)
qed

lemma rb_unsubscribe_inv:
  assumes "hub_inv s" and "allocated r s"
  shows "\<exists>s'. rb_unsubscribe r i s = Some s' \<and> hub_inv s'"
proof -
  obtain rb where rb: "gget (hub_heap s) r = Some rb" using assms(2) by (auto simp: allocated_def)
  note subs = hub_inv_subs [OF assms(1) rb]
  show ?thesis
  proof (cases "i \<in> set (rb_subs rb)")
    case False
    with rb assms(1) show ?thesis by (simp add: rb_unsubscribe_def)
  next
    case True
    then obtain c where c: "gget (hub_chans s) i = Some c" "\<not> ch_closed c" using subs by blast
    let ?cs = "gput i (c\<lparr>ch_closed := True\<rparr>) (hub_chans s)"
    have "rb_unsubscribe r i s = Some (set_rb r (rb\<lparr>rb_subs := remove1 i (rb_subs rb)\<rparr>) (s\<lparr>hub_chans := ?cs\<rparr>))"
      using rb True c by (simp add: rb_unsubscribe_def close_one_def chan_close_def)
    moreover have "hub_inv (set_rb r (rb\<lparr>rb_subs := remove1 i (rb_subs rb)\<rparr>) (s\<lparr>hub_chans := ?cs\<rparr>))"
      using True subs c by (intro closing_inv [OF assms(1) rb, where ks = "[i]"]) (auto simp: map_simps)
    ultimately show ?thesis by blast
  qed
qed

lemma rb_unsubscribeAll_inv:
  assumes "hub_inv s" and "allocated r s"
  shows "\<exists>s'. rb_unsubscribeAll r s = Some s' \<and> hub_inv s'"
proof -
  obtain rb where rb: "gget (hub_heap s) r = Some rb" using assms(2) by (auto simp: allocated_def)
  obtain cs where cs: "close_all (rb_subs rb) (hub_chans s) = Some cs" and
    g: "\<forall>j. gget cs j = (if j \<in> set (rb_subs rb) then map_option (\<lambda>c. c\<lparr>ch_closed := True\<rparr>) (gget (hub_chans s) j)
        else gget (hub_chans s) j)"
    using close_all_ok [of "rb_subs rb" "hub_chans s"] hub_inv_subs [OF assms(1) rb] by blast
  have "hub_inv (set_rb r (rb\<lparr>rb_subs := []\<rparr>) (s\<lparr>hub_chans := cs\<rparr>))"
    by (rule closing_inv [OF assms(1) rb, where ks = "rb_subs rb"]) (use g in auto)
  with rb cs show ?thesis by (simp add: rb_unsubscribeAll_def)
qed


lemma rb_setSession_inv:
  assumes "hub_inv s" and "allocated r s"
  shows "\<exists>s'. rb_setSession r x s = Some s' \<and> hub_inv s'"
proof -
  obtain rb where rb: "gget (hub_heap s) r = Some rb" using assms(2) by (auto simp: allocated_def)
  let ?s = "set_rb r (rb\<lparr>rb_session := Some x, rb_sessionStartPending := True\<rparr>) s"
  have "subs_of ?s q = subs_of s q" for q using rb by (auto simp: subs_of_def set_rb_def map_simps)
  moreover have "gget (hub_chans ?s) j = map_option id (gget (hub_chans s) j)" for j by (simp add: option.map_id)
  ultimately have "hub_inv ?s" by (intro hub_inv_cong [OF assms(1), where f = "\<lambda>_. id"]) simp_all
  with rb show ?thesis by (simp add: rb_setSession_def)
qed

lemma Create_inv: "hub_inv s \<Longrightarrow> hub_inv (Create sid s)"
proof (cases "gget (hub_buffers s) sid")
  case None
  assume inv: "hub_inv s"
  have "subs_of (Create sid s) q = subs_of s q" for q
    using None fresh_ref_None [of "hub_heap s"] by (auto simp: Create_def Let_def subs_of_def map_simps)
  moreover have "hub_chans (Create sid s) = hub_chans s" using None by (simp add: Create_def Let_def)
  ultimately show ?thesis
    by (intro hub_inv_cong [OF inv, where f = "\<lambda>_. id"]) (simp_all add: option.map_id)
qed (simp add: Create_def)

lemma sub_Recv_inv: "hub_inv s \<Longrightarrow> hub_inv (sub_Recv i s)"
proof -
  assume inv: "hub_inv s"
  let ?f = "\<lambda>j c. if j = i then c\<lparr>ch_buf := tl (ch_buf c)\<rparr> else c"
  have "gget (hub_chans (sub_Recv i s)) j = map_option (?f j) (gget (hub_chans s) j)" for j
    by (cases "gget (hub_chans s) j"; cases "j = i") (auto simp: sub_Recv_def map_simps split: option.split)
  moreover have "subs_of (sub_Recv i s) q = subs_of s q" for q
    by (simp add: sub_Recv_def subs_of_def split: option.split)
  ultimately show ?thesis by (intro hub_inv_cong [OF inv, where f = ?f]) auto
qed

lemma hub_inv_forget: "hub_inv s \<Longrightarrow> hub_inv (s\<lparr>hub_buffers := m\<rparr>)"
  by (rule hub_inv_cong [where f = "\<lambda>_. id"]) (simp_all add: subs_of_def option.map_id)

lemma hub_step_inv: "hub_inv s \<Longrightarrow> \<exists>s'. hub_step x s = Some s' \<and> hub_inv s'"
  using rb_subscribe_inv [of s]
  by (cases x) (auto simp: rb_write_inv rb_unsubscribe_inv rb_unsubscribeAll_inv rb_setSession_inv
      Create_inv sub_Recv_inv hub_inv_forget)

definition hub_exec :: "HubStep \<Rightarrow> BufService \<Rightarrow> BufService" where
  "hub_exec x s = the (hub_step x s)"

interpretation hub: invariant_machine hub_exec hub_inv
proof
  fix s x
  assume "hub_inv s"
  then show "hub_inv (hub_exec x s)" using hub_step_inv [of s x] by (auto simp: hub_exec_def)
qed

lemma NewBufService_inv: "hub_inv (NewBufService c)"
  by (simp add: hub_inv_def chans_ok_def subs_of_def NewBufService_def)

fun hub_run :: "HubStep list \<Rightarrow> BufService \<Rightarrow> BufService option" where
  "hub_run [] s = Some s"
| "hub_run (x # xs) s = (case hub_step x s of None \<Rightarrow> None | Some s1 \<Rightarrow> hub_run xs s1)"

lemma hub_run_fold: "hub_inv s \<Longrightarrow> hub_run xs s = Some (fold hub_exec xs s)"
proof (induction xs arbitrary: s)
  case Nil
  then show ?case by simp
next
  case (Cons x xs)
  from hub_step_inv [OF Cons.prems, of x] obtain s1 where "hub_step x s = Some s1" "hub_inv s1" by blast
  with Cons.IH [of s1] show ?case by (simp add: hub_exec_def)
qed

text \<open>
  C40: the hub never panics, whatever its critical sections' interleaving: from a fresh hub every sequence
  of creations, deletions, writes, subscriptions, cancellations, session changes and receives, through
  current or stale addresses, runs to the end without a send on a closed channel or a second close, and
  leaves every channel within its capacity and every subscriber of a ring buffer open.
\<close>
theorem hub_never_panics:
  "\<exists>s. hub_run xs (NewBufService c) = Some s \<and>
     (\<forall>i ch. gget (hub_chans s) i = Some ch \<longrightarrow> length (ch_buf ch) \<le> ch_cap ch) \<and>
     (\<forall>r. distinct (subs_of s r) \<and> (\<forall>i \<in> set (subs_of s r). open_chan s i))"
  using hub_run_fold [OF NewBufService_inv] hub.run_inv [OF NewBufService_inv, of xs c]
  by (auto simp: hub_inv_def chans_ok_def)

theorem hub_never_panics_witness:
  "\<exists>s. hub_run [HCreate ''a'', HSubscribe 1, HSubscribe 1, HWrite 1 (TSPacket [71]), HForget ''a'', HUnsubscribeAll 1,
      HUnsubscribe 1 1, HWrite 1 (TSPacket [71])] (NewBufService 4) = Some s"
  using hub_never_panics by blast


subsection \<open>Delivery\<close>

definition chan_buf :: "BufService \<Rightarrow> nat \<Rightarrow> Packet list" where
  "chan_buf s i = (case gget (hub_chans s) i of None \<Rightarrow> [] | Some c \<Rightarrow> ch_buf c)"

definition has_room :: "BufService \<Rightarrow> nat \<Rightarrow> bool" where
  "has_room s i \<longleftrightarrow> (case gget (hub_chans s) i of None \<Rightarrow> False | Some c \<Rightarrow> length (ch_buf c) < ch_cap c)"

text \<open>
  C28: a write never waits and never reaches a stranger: in any reachable hub, writing a packet that is not
  empty appends its session-stamped copy, in order, to exactly those subscribers of the stream's ring
  buffer whose channel has room, skips the full ones, and leaves every other channel as it was.
\<close>
theorem write_appends_to_subscribers_with_room:
  assumes "hub_inv s" and "gget (hub_heap s) r = Some rb" and "\<not> pkt_empty pkt"
  shows "\<exists>s'. rb_write r pkt s = Some s' \<and>
    (\<forall>i. chan_buf s' i = (if i \<in> set (rb_subs rb) \<and> has_room s i
        then chan_buf s i @ [fst (stamp_session rb pkt)] else chan_buf s i))"
proof -
  obtain s' where w: "rb_write r pkt s = Some s'" "\<And>j. gget (hub_chans s') j = (if j \<in> set (rb_subs rb)
        then map_option (offer (fst (stamp_session rb pkt))) (gget (hub_chans s) j) else gget (hub_chans s) j)"
    using rb_write_spec [OF assms] by blast
  have "chan_buf s' i = (if i \<in> set (rb_subs rb) \<and> has_room s i
        then chan_buf s i @ [fst (stamp_session rb pkt)] else chan_buf s i)" for i
    by (simp add: chan_buf_def has_room_def w(2) offer_def split: option.split)
  with w(1) show ?thesis by blast
qed

fun write_all :: "nat \<Rightarrow> Packet list \<Rightarrow> BufService \<Rightarrow> BufService option" where
  "write_all r [] s = Some s"
| "write_all r (p # ps) s = (case rb_write r p s of None \<Rightarrow> None | Some s1 \<Rightarrow> write_all r ps s1)"

definition plain :: "Packet \<Rightarrow> bool" where
  "plain p \<longleftrightarrow> \<not> pkt_empty p \<and> pk_SessionID p = 0 \<and> \<not> pk_SessionStart p"

definition mark :: "64 word \<Rightarrow> bool \<Rightarrow> Packet \<Rightarrow> Packet" where
  "mark i b p = p\<lparr>pk_SessionID := i, pk_SessionStart := b\<rparr>"

lemma stamp_plain:
  "plain p \<Longrightarrow> rb_session rb = Some sess \<Longrightarrow>
   stamp_session rb p = (mark (ss_ID sess) (rb_sessionStartPending rb) p, False)"
  by (cases p) (auto simp: stamp_session_def plain_def mark_def)

lemma write_all_marks:
  assumes "hub_inv s" and "gget (hub_heap s) r = Some rb" and "rb_session rb = Some sess"
    and "\<forall>p \<in> set ps. plain p" and "i \<in> set (rb_subs rb)"
    and "gget (hub_chans s) i = Some c" and "length (ch_buf c) + length ps \<le> ch_cap c"
  shows "\<exists>s'. write_all r ps s = Some s' \<and> chan_buf s' i = chan_buf s i @
    (case ps of [] \<Rightarrow> [] | p # qs \<Rightarrow> mark (ss_ID sess) (rb_sessionStartPending rb) p # map (mark (ss_ID sess) False) qs)"
  using assms
proof (induction ps arbitrary: s rb c)
  case Nil
  then show ?case by simp
next
  case (Cons p ps)
  have p: "plain p" "\<not> pkt_empty p" using Cons.prems by (simp_all add: plain_def)
  note st = stamp_plain [OF p(1) Cons.prems(3)]
  obtain s1 d where s1: "rb_write r p s = Some s1"
    "\<And>j. gget (hub_chans s1) j = (if j \<in> set (rb_subs rb)
        then map_option (offer (mark (ss_ID sess) (rb_sessionStartPending rb) p)) (gget (hub_chans s) j)
        else gget (hub_chans s) j)"
    "gget (hub_heap s1) r = Some (rb\<lparr>rb_sessionStartPending := False, rb_drops := d\<rparr>)"
    using rb_write_spec [OF Cons.prems(1,2) p(2)] st by (metis fst_conv snd_conv)
  have inv1: "hub_inv s1"
    using rb_write_inv [OF Cons.prems(1), of r p] Cons.prems(2) s1(1) by (auto simp: allocated_def)
  let ?c = "offer (mark (ss_ID sess) (rb_sessionStartPending rb) p) c"
  have c1: "gget (hub_chans s1) i = Some ?c" using s1(2) Cons.prems(5,6) by simp
  have room: "ch_buf ?c = ch_buf c @ [mark (ss_ID sess) (rb_sessionStartPending rb) p]"
    using Cons.prems(7) by (simp add: offer_def)
  obtain s' where s': "write_all r ps s1 = Some s'" "chan_buf s' i = chan_buf s1 i @
      (case ps of [] \<Rightarrow> [] | q # qs \<Rightarrow> mark (ss_ID sess) False q # map (mark (ss_ID sess) False) qs)"
    using Cons.IH [OF inv1 s1(3) _ _ _ c1] Cons.prems room by (cases ps) auto
  have "chan_buf s1 i = chan_buf s i @ [mark (ss_ID sess) (rb_sessionStartPending rb) p]"
    using c1 room Cons.prems(6) by (simp add: chan_buf_def)
  with s' s1(1) show ?case by (cases ps) simp_all
qed

text \<open>
  the session marker is one-shot: after \<^verbatim>\<open>SetSession\<close>, a subscriber with room for all of them receives
  the packets that follow in order, each carrying the new session's id, and the first of them, alone,
  carries \<^verbatim>\<open>SessionStart\<close>.
\<close>
theorem session_start_marks_first_packet:
  assumes "hub_inv s" and "gget (hub_heap s) r = Some rb" and "\<forall>q \<in> set (p # ps). plain q"
    and "i \<in> set (rb_subs rb)" and "gget (hub_chans s) i = Some c"
    and "length (ch_buf c) + length (p # ps) \<le> ch_cap c"
    and "rb_setSession r sess s = Some s1"
  shows "\<exists>s'. write_all r (p # ps) s1 = Some s' \<and>
    chan_buf s' i = chan_buf s i @ mark (ss_ID sess) True p # map (mark (ss_ID sess) False) ps"
proof -
  let ?rb = "rb\<lparr>rb_session := Some sess, rb_sessionStartPending := True\<rparr>"
  have s1: "s1 = set_rb r ?rb s" using assms(2,7) by (simp add: rb_setSession_def)
  have "hub_inv s1" using rb_setSession_inv [OF assms(1), of r sess] assms(2,7) by (auto simp: allocated_def)
  from write_all_marks [OF this, of r ?rb sess "p # ps" i c] assms s1
  show ?thesis by (simp add: set_rb_def map_simps chan_buf_def)
qed


text \<open>A hub with one stream of capacity one and a subscriber, in session 1.\<close>

definition tiny_hub :: BufService where
  "tiny_hub = the (hub_run [HCreate ''a'', HSubscribe 1,
     HSetSession 1 \<lparr>ss_ID = 1, ss_StartedAt = 0, ss_Reason = SessionStartFresh, ss_Video = None, ss_Audio = None\<rparr>]
     (NewBufService 1))"

lemma hub_run_new_inv: "hub_inv (the (hub_run xs (NewBufService c)))"
  using hub.run_inv [OF NewBufService_inv, of xs c] by (simp add: hub_run_fold [OF NewBufService_inv])

lemma tiny_inv: "hub_inv tiny_hub"
  unfolding tiny_hub_def by (rule hub_run_new_inv)

definition session2 :: StreamSession where
  "session2 = \<lparr>ss_ID = 2, ss_StartedAt = 9, ss_Reason = SessionStartReconnect, ss_Video = None, ss_Audio = None\<rparr>"

text \<open>
  the marker can be lost: a subscriber whose channel is full when the first packet of a session is
  written receives later packets of the session and none that carries \<^verbatim>\<open>SessionStart\<close> (here: one packet
  of session 1 not yet read, a new session, a write that is dropped, a read, a write that arrives).
\<close>
theorem session_start_is_lost_on_a_full_channel:
  "map_option (\<lambda>s. map (\<lambda>p. (pk_SessionID p, pk_SessionStart p)) (chan_buf s 1))
     (hub_run [HWrite 1 (TSPacket [71]), HSetSession 1 session2, HWrite 1 (TSPacket [71]), HRecv 1,
        HWrite 1 (TSPacket [71])] tiny_hub) = Some [(2, False)]"
  by code_simp

text \<open>
  \<^verbatim>\<open>Subscribe\<close> looks the ring buffer up, releases \<^verbatim>\<open>s.mu\<close> and only then subscribes; a \<^verbatim>\<open>Delete\<close> may run in
  between. From then on nobody reaches the ring buffer through the map.
\<close>

definition via_map :: "nat \<Rightarrow> HubStep \<Rightarrow> bool" where
  "via_map r x = (case x of HWrite q _ \<Rightarrow> q \<noteq> r | HUnsubscribe q _ \<Rightarrow> q \<noteq> r | HUnsubscribeAll q \<Rightarrow> q \<noteq> r
     | _ \<Rightarrow> True)"

definition waits :: "nat \<Rightarrow> nat \<Rightarrow> BufService \<Rightarrow> bool" where
  "waits r i s \<longleftrightarrow> hub_inv s \<and> i \<in> set (subs_of s r) \<and> chan_buf s i = []"

lemma waits_chan: "waits r i s \<Longrightarrow> q \<noteq> r \<Longrightarrow> gget (hub_heap s) q = Some rb \<Longrightarrow> i \<notin> set (rb_subs rb)"
  unfolding waits_def hub_inv_def by (metis option.simps(5) subs_of_def)

lemma gget_close_one: "close_one j cs = Some cs' \<Longrightarrow> k \<noteq> j \<Longrightarrow> gget cs' k = gget cs k"
  by (auto simp: close_one_def map_simps split: option.splits)

lemma waits_step:
  assumes w: "waits r i s" and v: "via_map r x" and run: "hub_step x s = Some s'"
  shows "waits r i s'"
proof -
  have inv: "hub_inv s" and sub: "i \<in> set (subs_of s r)" and buf: "chan_buf s i = []" using w by (simp_all add: waits_def)
  have inv': "hub_inv s'" using hub_step_inv [OF inv, of x] run by auto
  have op: "gget (hub_chans s) i \<noteq> None"
  proof -
    have "open_chan s i" using inv sub by (auto simp: hub_inv_def)
    then show ?thesis by (auto simp: open_chan_ex)
  qed
  have al: "gget (hub_heap s) r \<noteq> None" using sub by (cases "gget (hub_heap s) r") (auto simp: subs_of_def)
  have "i \<in> set (subs_of s' r) \<and> chan_buf s' i = []"
  proof (cases x)
    case (HCreate sid)
    then show ?thesis using run sub buf al fresh_ref_None [of "hub_heap s"]
      by (auto simp: Create_def Let_def subs_of_def chan_buf_def map_simps split: option.splits)
  next
    case (HForget sid)
    then show ?thesis using run sub buf by (auto simp: subs_of_def chan_buf_def)
  next
    case (HWrite q p)
    then show ?thesis
    proof (cases "allocated q s \<and> \<not> pkt_empty p")
      case True
      then obtain rb where rb: "gget (hub_heap s) q = Some rb" by (auto simp: allocated_def)
      have "q \<noteq> r" using HWrite v by (simp add: via_map_def)
      then have "i \<notin> set (rb_subs rb)" using waits_chan [OF w _ rb] by simp
      moreover from rb_write_spec [OF inv rb] True obtain s2 where "rb_write q p s = Some s2"
        "\<And>j. gget (hub_chans s2) j = (if j \<in> set (rb_subs rb)
           then map_option (offer (fst (stamp_session rb p))) (gget (hub_chans s) j) else gget (hub_chans s) j)"
        "\<And>q. subs_of s2 q = subs_of s q" by blast
      ultimately show ?thesis using run HWrite True sub buf by (simp add: chan_buf_def)
    next
      case False
      then show ?thesis using run HWrite sub buf by (auto simp: rb_write_def split: if_splits)
    qed
  next
    case (HSubscribe q)
    show ?thesis
    proof (cases "gget (hub_heap s) q")
      case None
      then show ?thesis using run HSubscribe sub buf by (simp add: allocated_def)
    next
      case (Some rb)
      then have "subs_of s q = rb_subs rb" by (simp add: subs_of_def)
      then show ?thesis using run HSubscribe Some sub buf op fresh_ref_None [of "hub_chans s"]
        by (auto simp: allocated_def rb_subscribe_def Let_def chan_buf_def map_simps)
    qed
  next
    case (HUnsubscribe q j)
    then have "q \<noteq> r" using v by (simp add: via_map_def)
    show ?thesis
    proof (cases "gget (hub_heap s) q")
      case None
      then show ?thesis using run HUnsubscribe sub buf by (simp add: allocated_def)
    next
      case (Some rb)
      then have ni: "i \<notin> set (rb_subs rb)" using waits_chan [OF w \<open>q \<noteq> r\<close>] by simp
      show ?thesis
      proof (cases "j \<in> set (rb_subs rb)")
        case True
        with ni have "i \<noteq> j" by auto
        obtain cs where cs: "close_one j (hub_chans s) = Some cs"
          using run HUnsubscribe Some True by (auto simp: allocated_def rb_unsubscribe_def split: option.splits)
        with gget_close_one [OF cs \<open>i \<noteq> j\<close>] run HUnsubscribe Some True sub buf \<open>q \<noteq> r\<close> show ?thesis
          by (auto simp: allocated_def rb_unsubscribe_def chan_buf_def)
      qed (use run HUnsubscribe Some sub buf in \<open>simp add: allocated_def rb_unsubscribe_def\<close>)
    qed
  next
    case (HUnsubscribeAll q)
    then have q: "q \<noteq> r" using v by (simp add: via_map_def)
    show ?thesis
    proof (cases "allocated q s")
      case True
      then obtain rb where rb: "gget (hub_heap s) q = Some rb" by (auto simp: allocated_def)
      have "i \<notin> set (rb_subs rb)" using waits_chan [OF w q rb] .
      moreover obtain cs where "close_all (rb_subs rb) (hub_chans s) = Some cs"
        "\<forall>j. gget cs j = (if j \<in> set (rb_subs rb) then map_option (\<lambda>c. c\<lparr>ch_closed := True\<rparr>) (gget (hub_chans s) j)
          else gget (hub_chans s) j)"
        using close_all_ok [of "rb_subs rb" "hub_chans s"] hub_inv_subs [OF inv rb] by blast
      ultimately show ?thesis using run HUnsubscribeAll True rb q sub buf
        by (auto simp: rb_unsubscribeAll_def chan_buf_def)
    qed (use run HUnsubscribeAll sub buf in simp)
  next
    case (HSetSession q y)
    show ?thesis
    proof (cases "gget (hub_heap s) q")
      case None
      then show ?thesis using run HSetSession sub buf by (simp add: allocated_def)
    next
      case (Some rb)
      then have "subs_of s q = rb_subs rb" by (simp add: subs_of_def)
      then show ?thesis using run HSetSession Some sub buf
        by (auto simp: allocated_def rb_setSession_def chan_buf_def)
    qed
  next
    case (HRecv j)
    have "subs_of (sub_Recv j s) r = subs_of s r"
      by (simp add: sub_Recv_def subs_of_def split: option.split)
    moreover have "chan_buf (sub_Recv j s) i = []" using buf
      by (cases "gget (hub_chans s) j"; cases "j = i") (auto simp: sub_Recv_def chan_buf_def map_simps)
    ultimately show ?thesis using run HRecv sub by simp
  qed
  with inv' show ?thesis by (simp add: waits_def)
qed

lemma waits_run: "waits r i s \<Longrightarrow> \<forall>x \<in> set xs. via_map r x \<Longrightarrow> hub_run xs s = Some s' \<Longrightarrow> waits r i s'"
  by (induction xs arbitrary: s) (auto split: option.splits dest: waits_step)

text \<open>
  a subscription that races a \<^verbatim>\<open>Delete\<close> of its stream hangs for good: when the ring buffer was looked up
  before the deletion and subscribed to after it, then whatever later steps run through the map, even
  after the stream was created anew, the channel stays open and never holds a packet.
\<close>
theorem racing_subscriber_waits_forever:
  assumes "hub_run [HCreate sid, HForget sid, HUnsubscribeAll 1, HSubscribe 1, HCreate sid] (NewBufService c) = Some s"
    and "\<forall>x \<in> set xs. via_map 1 x" and "hub_run xs s = Some s'"
  shows "open_chan s' 1 \<and> chan_buf s' 1 = []"
proof -
  have "hub_inv s" using hub_run_new_inv [of _ c] assms(1) by (metis option.sel)
  moreover have "1 \<in> set (subs_of s 1) \<and> chan_buf s 1 = []"
    using assms(1) by (auto simp: Create_def NewBufService_def fresh_ref_def allocated_def rb_unsubscribeAll_def
        rb_subscribe_def Let_def map_simps set_rb_def subs_of_def chan_buf_def split: if_splits)
  ultimately have "waits 1 1 s" by (simp add: waits_def)
  from waits_run [OF this assms(2,3)] show ?thesis
    by (auto simp: waits_def hub_inv_def)
qed

theorem racing_subscriber_waits_forever_witness:
  "open_chan (the (hub_run [HWrite 2 (TSPacket [71])]
     (the (hub_run [HCreate ''a'', HForget ''a'', HUnsubscribeAll 1, HSubscribe 1, HCreate ''a''] (NewBufService 4))))) 1"
proof -
  let ?pre = "[HCreate ''a'', HForget ''a'', HUnsubscribeAll 1, HSubscribe 1, HCreate ''a'']"
  have s: "hub_run ?pre (NewBufService 4) = Some (the (hub_run ?pre (NewBufService 4)))"
    by (simp add: hub_run_fold [OF NewBufService_inv] del: hub_run.simps)
  have w: "hub_run [HWrite 2 (TSPacket [71])] (the (hub_run ?pre (NewBufService 4))) =
      Some (the (hub_run [HWrite 2 (TSPacket [71])] (the (hub_run ?pre (NewBufService 4)))))"
    by (simp add: hub_run_fold [OF hub_run_new_inv] del: hub_run.simps)
  have "\<forall>x \<in> set [HWrite 2 (TSPacket [71])]. via_map 1 x" by (simp add: via_map_def)
  from racing_subscriber_waits_forever [OF s this w] show ?thesis by (rule conjunct1)
qed

theorem write_appends_to_subscribers_with_room_witness:
  "\<exists>s'. rb_write 1 (TSPacket [71]) tiny_hub = Some s' \<and> length (chan_buf s' 1) = 1"
proof -
  have h: "gget (hub_heap tiny_hub) 1 = Some \<lparr>rb_subs = [1], rb_drops = 0,
      rb_session = Some \<lparr>ss_ID = 1, ss_StartedAt = 0, ss_Reason = SessionStartFresh, ss_Video = None, ss_Audio = None\<rparr>,
      rb_sessionStartPending = True\<rparr>" by code_simp
  have "\<not> pkt_empty (TSPacket [71])" "has_room tiny_hub 1" "chan_buf tiny_hub 1 = []" by code_simp+
  with write_appends_to_subscribers_with_room [OF tiny_inv h, of "TSPacket [71]"] show ?thesis by auto
qed

theorem session_start_marks_first_packet_witness:
  "\<exists>s'. write_all 1 [TSPacket [71]] (the (rb_setSession 1 session2 tiny_hub)) = Some s' \<and>
     chan_buf s' 1 = chan_buf tiny_hub 1 @ [mark 2 True (TSPacket [71])]"
proof -
  have h: "gget (hub_heap tiny_hub) 1 = Some \<lparr>rb_subs = [1], rb_drops = 0,
      rb_session = Some \<lparr>ss_ID = 1, ss_StartedAt = 0, ss_Reason = SessionStartFresh, ss_Video = None, ss_Audio = None\<rparr>,
      rb_sessionStartPending = True\<rparr>" by code_simp
  have c: "gget (hub_chans tiny_hub) 1 = Some \<lparr>ch_cap = 1, ch_buf = [], ch_closed = False\<rparr>" by code_simp
  have p: "\<forall>q \<in> set [TSPacket [71]]. plain q" by code_simp
  have i: "1 \<in> set [1::nat]" and id: "ss_ID session2 = 2" by (simp_all add: session2_def)
  have set: "rb_setSession 1 session2 tiny_hub = Some (the (rb_setSession 1 session2 tiny_hub))"
    using h by (simp add: rb_setSession_def)
  show ?thesis
    using session_start_marks_first_packet [OF tiny_inv h p _ c _ set] id by (simp del: write_all.simps One_nat_def)
qed

end
