(* ===== verification/OS_Text.thy ===== *)
theory OS_Text
  imports OS_Prelude
begin

text \<open>
  Strings: the decimal formats of \<^verbatim>\<open>fmt\<close> (\<^verbatim>\<open>%d\<close>, \<^verbatim>\<open>%0wd\<close>) and reading decimals back.
  Go strings are lists of bytes here; every literal the code builds is ASCII.
\<close>

definition digit :: "nat \<Rightarrow> char" where
  "digit d = char_of (48 + d)"

definition is_digit :: "char \<Rightarrow> bool" where
  "is_digit c \<longleftrightarrow> 48 \<le> (of_char c :: nat) \<and> (of_char c :: nat) \<le> 57"

definition digit_val :: "char \<Rightarrow> nat" where
  "digit_val c = of_char c - 48"

fun digits :: "nat \<Rightarrow> string" where
  "digits n = (if n < 10 then [digit n] else digits (n div 10) @ [digit (n mod 10)])"

declare digits.simps [simp del]

definition zero_pad :: "nat \<Rightarrow> nat \<Rightarrow> string" where
  "zero_pad w n = replicate (w - length (digits n)) (CHR ''0'') @ digits n"

definition show_int :: "int \<Rightarrow> string" where
  "show_int i = (if i < 0 then CHR ''-'' # digits (nat (- i)) else digits (nat i))"

definition dec_val :: "string \<Rightarrow> nat" where
  "dec_val s = foldl (\<lambda>n c. n * 10 + digit_val c) 0 s"

lemma digit_lt [simp]:
  assumes "d < 10"
  shows "is_digit (digit d)" and "digit_val (digit d) = d"
  using assms by (simp_all add: is_digit_def digit_def digit_val_def)

lemma digit_0: "digit 0 = CHR ''0''"
  by code_simp

lemma digits_all: "list_all is_digit (digits n)"
  by (induction n rule: digits.induct) (subst digits.simps, simp)

lemma digits_nonempty [simp]: "digits n \<noteq> []"
  by (subst digits.simps) simp

lemma dec_val_snoc: "dec_val (s @ [c]) = dec_val s * 10 + digit_val c"
  by (simp add: dec_val_def)

lemma dec_val_digits [simp]: "dec_val (digits n) = n"
proof (induction n rule: digits.induct)
  case (1 n)
  show ?case
  proof (cases "n < 10")
    case True
    then show ?thesis by (subst digits.simps) (simp add: dec_val_def)
  next
    case False
    then show ?thesis using 1 by (subst digits.simps) (simp add: dec_val_snoc)
  qed
qed

lemma dec_val_zeros: "dec_val (replicate k (CHR ''0'') @ s) = dec_val s"
proof -
  have "foldl (\<lambda>n c. n * 10 + digit_val c) 0 (replicate k (CHR ''0'')) = 0"
    by (induction k) (simp_all add: digit_val_def)
  then show ?thesis by (simp add: dec_val_def)
qed

lemma dec_val_zero_pad [simp]: "dec_val (zero_pad w n) = n"
  by (simp add: zero_pad_def dec_val_zeros)

lemma zero_pad_all: "list_all is_digit (zero_pad w n)"
  by (auto simp: zero_pad_def digits_all list_all_iff [of _ "replicate _ _"] is_digit_def)

lemma zero_pad_length: "w \<le> length (zero_pad w n)"
  by (simp add: zero_pad_def)

lemma zero_pad_nonempty [simp]: "zero_pad w n \<noteq> []"
  by (simp add: zero_pad_def)

lemma digits_inj: "digits m = digits n \<longleftrightarrow> m = n"
  by (metis dec_val_digits)

lemma zero_pad_inj: "zero_pad w m = zero_pad w n \<longleftrightarrow> m = n"
  by (metis dec_val_zero_pad)

lemma show_int_inj: "show_int i = show_int j \<longleftrightarrow> i = j"
proof
  assume eq: "show_int i = show_int j"
  have nd: "digits m \<noteq> CHR ''-'' # s" for m s
    using digits_all [of m] by (auto simp: is_digit_def)
  show "i = j" using eq nd nd [THEN not_sym]
    by (auto simp: show_int_def digits_inj split: if_splits)
qed simp

end
