(* ===== verification/Blob_Format.thy ===== *)
theory Blob_Format
  imports OS_Media OS_Text
begin

text \<open>
  The on-disk format of the DVR blob archive: the \<^verbatim>\<open>.ranges\<close> index (\<^verbatim>\<open>internal/dvr/blob/ranges.go\<close>) and
  the hour files (\<^verbatim>\<open>blobfile.go\<close>). Integers keep their widths; a file is its bytes. The locale
  \<open>fixed_codec\<close> is what the index needs of an encoding of fixed width; it is interpreted on the
  little-endian integers of three widths and on the fragment record itself.
\<close>

subsection \<open>Little-endian integers\<close>

fun le_put :: "nat \<Rightarrow> 'a::len word \<Rightarrow> byte list" where
  "le_put 0 w = []"
| "le_put (Suc n) w = ucast w # le_put n (drop_bit 8 w)"

fun le_get :: "byte list \<Rightarrow> 'a::len word" where
  "le_get [] = 0"
| "le_get (b # bs) = or (ucast b) (push_bit 8 (le_get bs))"

lemma length_le_put [simp]: "length (le_put n w) = n"
  by (induction n arbitrary: w) simp_all

lemma le_get_put: "le_get (le_put n w) = take_bit (8 * n) w"
proof (induction n arbitrary: w)
  case (Suc n)
  have "or (ucast (ucast w :: byte)) (push_bit 8 (take_bit (8 * n) (drop_bit 8 w))) = take_bit (8 * Suc n) w"
    by (rule bit_word_eqI) (auto simp: bit_simps)
  with Suc show ?case by simp
qed simp

locale fixed_codec =
  fixes enc :: "'a \<Rightarrow> byte list" and dec :: "byte list \<Rightarrow> 'a option" and width :: nat and valid :: "'a \<Rightarrow> bool"
  assumes enc_length: "length (enc x) = width"
    and dec_enc: "valid x \<Longrightarrow> dec (enc x @ rest) = Some x"
    and dec_short: "length b < width \<Longrightarrow> dec b = None"
    and width_pos: "0 < width"
begin

lemma enc_inj: "valid x \<Longrightarrow> valid y \<Longrightarrow> enc x = enc y \<Longrightarrow> x = y"
  using dec_enc [of x "[]"] dec_enc [of y "[]"] by simp

lemma length_concat: "length (concat (map enc xs)) = width * length xs"
  by (induction xs) (simp_all add: enc_length)

text \<open>The concatenation of encodings, cut anywhere: whole records, then less than one.\<close>

lemma cut_concat:
  "\<exists>torn. take n (concat (map enc xs)) = concat (map enc (take (n div width) xs)) @ torn \<and> length torn < width"
proof (induction xs arbitrary: n)
  case Nil
  then show ?case using width_pos by simp
next
  case (Cons x xs)
  show ?case
  proof (cases "n < width")
    case True
    then show ?thesis by (intro exI [of _ "take n (enc x)"]) (simp add: enc_length)
  next
    case False
    obtain torn where t: "take (n - width) (concat (map enc xs)) =
        concat (map enc (take ((n - width) div width) xs)) @ torn" "length torn < width"
      using Cons.IH by blast
    have "n div width = Suc ((n - width) div width)" using False width_pos by (simp add: le_div_geq)
    with t False show ?thesis by (intro exI [of _ torn]) (simp add: enc_length)
  qed
qed

end

subsection \<open>The checksum\<close>

text \<open>CRC-16/CCITT-FALSE.\<close>

definition crc_bit :: "16 word \<Rightarrow> 16 word" where
  "crc_bit crc = (if and crc 0x8000 \<noteq> 0 then xor (push_bit 1 crc) 0x1021 else push_bit 1 crc)"

definition crc_byte :: "16 word \<Rightarrow> byte \<Rightarrow> 16 word" where
  "crc_byte crc c = (crc_bit ^^ 8) (xor crc (push_bit 8 (ucast c)))"

definition crc16Update :: "16 word \<Rightarrow> byte list \<Rightarrow> 16 word" where
  "crc16Update crc data = fold (\<lambda>c crc. crc_byte crc c) data crc"

lemma crc_bit_eq: "crc_bit z = xor (push_bit 1 z) (if bit z 15 then 0x1021 else 0)"
proof -
  have "(0x8000 :: 16 word) = push_bit 15 1" by simp
  then have "and z 0x8000 \<noteq> 0 \<longleftrightarrow> bit z 15" by (simp only: bit_iff_and_push_bit_not_eq_0)
  then show ?thesis by (simp add: crc_bit_def)
qed

text \<open>The generator polynomial is odd, so a step can be undone: the low bit tells which branch was taken.\<close>

lemma crc_bit_inj:
  assumes "crc_bit x = crc_bit y"
  shows "x = y"
proof -
  have low: "bit (crc_bit z) 0 = bit z 15" for z
    by (cases "bit z 15") (simp_all only: crc_bit_eq bit_xor_iff bit_push_bit_iff if_True if_False, simp_all)
  have top: "bit x 15 = bit y 15" using low assms by metis
  then have "xor (xor (push_bit 1 x) (if bit y 15 then 0x1021 else 0)) (if bit y 15 then 0x1021 else 0) =
      xor (xor (push_bit 1 y) (if bit y 15 then 0x1021 else 0)) (if bit y 15 then 0x1021 else 0)"
    using assms by (simp only: crc_bit_eq)
  then have sh: "push_bit 1 x = push_bit 1 y" by (simp only: xor.assoc xor_self_eq xor.right_neutral)
  have "bit x n = bit y n" if "n < 16" for n
  proof (cases "n = 15")
    case False
    with that have "bit (push_bit 1 z) (Suc n) = bit z n" for z :: "16 word"
      by (simp only: bit_push_bit_iff) simp
    then show ?thesis using sh by metis
  qed (use top in simp)
  then show ?thesis by (intro bit_word_eqI) simp
qed

lemma crc_bits_inj: "(crc_bit ^^ n) x = (crc_bit ^^ n) y \<Longrightarrow> x = y"
  by (induction n) (auto dest: crc_bit_inj)

lemma xor_cancel_right: "xor x d = xor y d \<Longrightarrow> x = y" for x y d :: "'a::len word"
proof -
  assume "xor x d = xor y d"
  then have "xor (xor x d) d = xor (xor y d) d" by (rule arg_cong)
  then show "x = y" by (simp only: xor.assoc xor_self_eq xor.right_neutral)
qed

lemma crc_byte_inj: "crc_byte x c = crc_byte y c \<Longrightarrow> x = y"
  using crc_bits_inj xor_cancel_right unfolding crc_byte_def by blast

lemma push8_inj: "push_bit 8 (ucast c :: 16 word) = push_bit 8 (ucast d) \<Longrightarrow> c = (d :: byte)"
proof (rule bit_word_eqI)
  fix n
  assume eq: "push_bit 8 (ucast c :: 16 word) = push_bit 8 (ucast d)" and "n < LENGTH(8)"
  then have "bit (push_bit 8 (ucast z :: 16 word)) (n + 8) = bit z n" for z :: byte by (simp add: bit_simps)
  with eq show "bit c n = bit d n" by metis
qed

lemma crc_byte_data_inj: "crc_byte x c = crc_byte x d \<Longrightarrow> c = d"
proof -
  assume "crc_byte x c = crc_byte x d"
  then have "xor x (push_bit 8 (ucast c)) = xor x (push_bit 8 (ucast d))"
    unfolding crc_byte_def by (rule crc_bits_inj)
  then have "xor (push_bit 8 (ucast c)) x = xor (push_bit 8 (ucast d)) x" by (simp only: xor.commute)
  then show "c = d" by (rule push8_inj [OF xor_cancel_right])
qed

lemma crc16Update_append: "crc16Update crc (xs @ ys) = crc16Update (crc16Update crc xs) ys"
  by (simp add: crc16Update_def)

lemma crc16Update_inj: "crc16Update x data = crc16Update y data \<Longrightarrow> x = y"
  by (induction data arbitrary: x y) (auto simp: crc16Update_def dest: crc_byte_inj)

text \<open>Changing one byte always changes the checksum.\<close>

lemma crc16Update_one_byte:
  assumes "i < length data" and "c \<noteq> data ! i"
  shows "crc16Update crc (data[i := c]) \<noteq> crc16Update crc data"
proof -
  let ?pre = "take i data" and ?post = "drop (Suc i) data"
  have d: "data[i := c] = ?pre @ [c] @ ?post" "data = ?pre @ [data ! i] @ ?post"
    using assms(1) by (simp_all add: upd_conv_take_nth_drop id_take_nth_drop)
  have "crc16Update crc (?pre @ [c] @ ?post) \<noteq> crc16Update crc (?pre @ [data ! i] @ ?post)"
  proof
    assume "crc16Update crc (?pre @ [c] @ ?post) = crc16Update crc (?pre @ [data ! i] @ ?post)"
    then have "crc16Update (crc16Update crc ?pre) [c] = crc16Update (crc16Update crc ?pre) [data ! i]"
      unfolding crc16Update_append by (rule crc16Update_inj)
    then have "c = data ! i" by (auto simp: crc16Update_def dest: crc_byte_data_inj)
    with assms(2) show False by simp
  qed
  with d show ?thesis by metis
qed

subsection \<open>The fragment record\<close>

definition rangesMagic :: "byte list" where "rangesMagic = [79, 83, 82, 49]"
definition rangesVersion :: "16 word" where "rangesVersion = 1"
definition RangesHeadSize :: nat where "RangesHeadSize = 64"
definition FragRecordSize :: nat where "FragRecordSize = 40"
definition TrackVideo :: byte where "TrackVideo = 0"
definition TrackAudio :: byte where "TrackAudio = 1"
definition HeaderFlagSealed :: "16 word" where "HeaderFlagSealed = push_bit 0 1"
definition RecFlagKeyframe :: byte where "RecFlagKeyframe = push_bit 0 1"
definition RecFlagDiscontinuity :: byte where "RecFlagDiscontinuity = push_bit 1 1"

lemmas format_consts = RangesHeadSize_def FragRecordSize_def

record FragRecord =
  rec_Track :: byte
  rec_Keyframe :: bool
  rec_Discontinuity :: bool
  rec_SampleCount :: "32 word"
  rec_WallTimeMs :: "64 word"
  rec_MediaTicks :: "64 word"
  rec_ByteOffset :: "64 word"
  rec_ByteLen :: "32 word"
  rec_DurTicks :: "32 word"

definition rec_flags :: "FragRecord \<Rightarrow> byte" where
  "rec_flags r =
     (let f = (if rec_Keyframe r then or 0 RecFlagKeyframe else 0) in
      if rec_Discontinuity r then or f RecFlagDiscontinuity else f)"

text \<open>\<^verbatim>\<open>b[lo:hi]\<close>.\<close>

definition bslice :: "nat \<Rightarrow> nat \<Rightarrow> byte list \<Rightarrow> byte list" where
  "bslice lo hi b = take (hi - lo) (drop lo b)"

definition fragRecordCRC :: "byte list \<Rightarrow> 16 word" where
  "fragRecordCRC b = crc16Update (crc16Update 0xFFFF (bslice 0 2 b)) (bslice 4 FragRecordSize b)"

definition record_bytes :: "FragRecord \<Rightarrow> 16 word \<Rightarrow> byte list" where
  "record_bytes r crc =
     [rec_Track r, rec_flags r] @ le_put 2 crc @ le_put 4 (rec_SampleCount r) @ le_put 8 (rec_WallTimeMs r) @
     le_put 8 (rec_MediaTicks r) @ le_put 8 (rec_ByteOffset r) @ le_put 4 (rec_ByteLen r) @ le_put 4 (rec_DurTicks r)"

definition MarshalFragRecord :: "FragRecord \<Rightarrow> byte list" where
  "MarshalFragRecord r = record_bytes r (fragRecordCRC (record_bytes r 0))"

definition UnmarshalFragRecord :: "byte list \<Rightarrow> FragRecord option" where
  "UnmarshalFragRecord b =
     (if length b < FragRecordSize then None
      else
        let fixed = take FragRecordSize b;
            want = le_get (bslice 2 4 fixed) in
        if want \<noteq> fragRecordCRC fixed then None
        else
          let flags = fixed ! 1 in
          Some \<lparr>rec_Track = fixed ! 0, rec_Keyframe = (and flags RecFlagKeyframe \<noteq> 0),
            rec_Discontinuity = (and flags RecFlagDiscontinuity \<noteq> 0),
            rec_SampleCount = le_get (bslice 4 8 fixed), rec_WallTimeMs = le_get (bslice 8 16 fixed),
            rec_MediaTicks = le_get (bslice 16 24 fixed), rec_ByteOffset = le_get (bslice 24 32 fixed),
            rec_ByteLen = le_get (bslice 32 36 fixed), rec_DurTicks = le_get (bslice 36 40 fixed)\<rparr>)"

lemma bslice_length [simp]: "length (bslice lo hi b) = min (hi - lo) (length b - lo)"
  by (simp add: bslice_def)

lemma le_get_put_16 [simp]: "le_get (le_put 2 w) = (w :: 16 word)"
  and le_get_put_32 [simp]: "le_get (le_put 4 v) = (v :: 32 word)"
  and le_get_put_64 [simp]: "le_get (le_put 8 u) = (u :: 64 word)"
  by (simp_all only: le_get_put, simp_all add: take_bit_word_eq_self)

lemma record_bytes_length [simp]: "length (record_bytes r crc) = 40"
  by (simp add: record_bytes_def)

lemma record_bytes_crc: "fragRecordCRC (record_bytes r crc) = fragRecordCRC (record_bytes r 0)"
  by (simp add: fragRecordCRC_def record_bytes_def bslice_def format_consts)

lemma flags_read:
  "(and (rec_flags r) RecFlagKeyframe \<noteq> 0) = rec_Keyframe r"
  "(and (rec_flags r) RecFlagDiscontinuity \<noteq> 0) = rec_Discontinuity r"
  by (auto simp: rec_flags_def RecFlagKeyframe_def RecFlagDiscontinuity_def)

lemma record_bytes_fields:
  "bslice 2 4 (record_bytes r crc) = le_put 2 crc"
  "bslice 4 8 (record_bytes r crc) = le_put 4 (rec_SampleCount r)"
  "bslice 8 16 (record_bytes r crc) = le_put 8 (rec_WallTimeMs r)"
  "bslice 16 24 (record_bytes r crc) = le_put 8 (rec_MediaTicks r)"
  "bslice 24 32 (record_bytes r crc) = le_put 8 (rec_ByteOffset r)"
  "bslice 32 36 (record_bytes r crc) = le_put 4 (rec_ByteLen r)"
  "bslice 36 40 (record_bytes r crc) = le_put 4 (rec_DurTicks r)"
  "record_bytes r crc ! 0 = rec_Track r"
  "record_bytes r crc ! 1 = rec_flags r"
  by (simp_all add: record_bytes_def bslice_def)

lemma Marshal_length [simp]: "length (MarshalFragRecord r) = 40"
  by (simp add: MarshalFragRecord_def)

lemma Unmarshal_Marshal: "UnmarshalFragRecord (MarshalFragRecord r @ rest) = Some r"
proof -
  define m where "m = MarshalFragRecord r"
  have len: "length m = 40" by (simp add: m_def)
  have crc: "fragRecordCRC m = fragRecordCRC (record_bytes r 0)"
    unfolding m_def MarshalFragRecord_def by (rule record_bytes_crc)
  note fields = record_bytes_fields [of r "fragRecordCRC (record_bytes r 0)",
      folded MarshalFragRecord_def, folded m_def]
  have "take 40 (m @ rest) = m" and "\<not> length (m @ rest) < 40" using len by simp_all
  then show ?thesis unfolding UnmarshalFragRecord_def m_def [symmetric] format_consts Let_def
    by (simp only: fields crc flags_read le_get_put_16 le_get_put_32 le_get_put_64 if_False) simp
qed

interpretation frag: fixed_codec MarshalFragRecord UnmarshalFragRecord FragRecordSize "\<lambda>_. True"
  by unfold_locales (simp_all only: Unmarshal_Marshal Marshal_length format_consts, simp_all add: UnmarshalFragRecord_def format_consts)

subsection \<open>The header\<close>

record RangesHeader =
  rh_Version :: "16 word"
  rh_RecordSize :: "16 word"
  rh_Flags :: "16 word"
  rh_VideoInitLen :: "32 word"
  rh_AudioInitLen :: "32 word"
  rh_VideoTimescale :: "32 word"
  rh_AudioTimescale :: "32 word"
  rh_RecordCount :: "32 word"
  rh_HourStartUnixMs :: "64 word"
  rh_BaseMediaTicksV :: "64 word"
  rh_BaseMediaTicksA :: "64 word"

datatype RangesError = ReadFailed | ShortBuffer nat | BadMagic "byte list" | UnsupportedVersion "16 word"
  | RecordTooSmall "16 word"

definition MarshalRangesHeader :: "RangesHeader \<Rightarrow> byte list" where
  "MarshalRangesHeader h =
     rangesMagic @ le_put 2 (rh_Version h) @ le_put 2 (rh_RecordSize h) @ le_put 2 (rh_Flags h) @ [0, 0] @
     le_put 4 (rh_VideoInitLen h) @ le_put 4 (rh_AudioInitLen h) @ le_put 4 (rh_VideoTimescale h) @
     le_put 4 (rh_AudioTimescale h) @ le_put 4 (rh_RecordCount h) @ le_put 8 (rh_HourStartUnixMs h) @
     le_put 8 (rh_BaseMediaTicksV h) @ le_put 8 (rh_BaseMediaTicksA h) @ replicate 8 0"

definition UnmarshalRangesHeader :: "byte list \<Rightarrow> RangesError + RangesHeader" where
  "UnmarshalRangesHeader b =
     (if length b < RangesHeadSize then Inl (ShortBuffer (length b))
      else if bslice 0 4 b \<noteq> rangesMagic then Inl (BadMagic (bslice 0 4 b))
      else
        let h = \<lparr>rh_Version = le_get (bslice 4 6 b), rh_RecordSize = le_get (bslice 6 8 b),
                 rh_Flags = le_get (bslice 8 10 b), rh_VideoInitLen = le_get (bslice 12 16 b),
                 rh_AudioInitLen = le_get (bslice 16 20 b), rh_VideoTimescale = le_get (bslice 20 24 b),
                 rh_AudioTimescale = le_get (bslice 24 28 b), rh_RecordCount = le_get (bslice 28 32 b),
                 rh_HourStartUnixMs = le_get (bslice 32 40 b), rh_BaseMediaTicksV = le_get (bslice 40 48 b),
                 rh_BaseMediaTicksA = le_get (bslice 48 56 b)\<rparr> in
        if rh_Version h \<noteq> rangesVersion then Inl (UnsupportedVersion (rh_Version h))
        else if rh_RecordSize h < 40 then Inl (RecordTooSmall (rh_RecordSize h))
        else Inr h)"

definition header_valid :: "RangesHeader \<Rightarrow> bool" where
  "header_valid h \<longleftrightarrow> rh_Version h = rangesVersion \<and> 40 \<le> rh_RecordSize h"

lemma header_length [simp]: "length (MarshalRangesHeader h) = 64"
  by (simp add: MarshalRangesHeader_def rangesMagic_def)

lemma header_fields:
  "bslice 0 4 (MarshalRangesHeader h @ rest) = rangesMagic"
  "bslice 4 6 (MarshalRangesHeader h @ rest) = le_put 2 (rh_Version h)"
  "bslice 6 8 (MarshalRangesHeader h @ rest) = le_put 2 (rh_RecordSize h)"
  "bslice 8 10 (MarshalRangesHeader h @ rest) = le_put 2 (rh_Flags h)"
  "bslice 12 16 (MarshalRangesHeader h @ rest) = le_put 4 (rh_VideoInitLen h)"
  "bslice 16 20 (MarshalRangesHeader h @ rest) = le_put 4 (rh_AudioInitLen h)"
  "bslice 20 24 (MarshalRangesHeader h @ rest) = le_put 4 (rh_VideoTimescale h)"
  "bslice 24 28 (MarshalRangesHeader h @ rest) = le_put 4 (rh_AudioTimescale h)"
  "bslice 28 32 (MarshalRangesHeader h @ rest) = le_put 4 (rh_RecordCount h)"
  "bslice 32 40 (MarshalRangesHeader h @ rest) = le_put 8 (rh_HourStartUnixMs h)"
  "bslice 40 48 (MarshalRangesHeader h @ rest) = le_put 8 (rh_BaseMediaTicksV h)"
  "bslice 48 56 (MarshalRangesHeader h @ rest) = le_put 8 (rh_BaseMediaTicksA h)"
  by (simp_all add: MarshalRangesHeader_def bslice_def rangesMagic_def)

lemma header_roundtrip: "header_valid h \<Longrightarrow> UnmarshalRangesHeader (MarshalRangesHeader h @ rest) = Inr h"
  unfolding UnmarshalRangesHeader_def Let_def header_valid_def
  by (simp only: header_fields le_get_put_16 le_get_put_32 le_get_put_64) (simp add: format_consts not_less)

lemma header_short: "length b < 64 \<Longrightarrow> UnmarshalRangesHeader b = Inl (ShortBuffer (length b))"
  by (simp add: UnmarshalRangesHeader_def format_consts)

interpretation head: fixed_codec MarshalRangesHeader "\<lambda>b. case UnmarshalRangesHeader b of Inl _ \<Rightarrow> None | Inr h \<Rightarrow> Some h"
    RangesHeadSize header_valid
  by unfold_locales (simp_all add: header_roundtrip header_short format_consts)

subsection \<open>Reading an index\<close>

text \<open>\<^verbatim>\<open>int64(rec.ByteOffset) + int64(rec.ByteLen)\<close>: the sum of 64-bit integers wraps.\<close>

definition rec_end :: "FragRecord \<Rightarrow> int" where
  "rec_end r = sint (rec_ByteOffset r + ucast (rec_ByteLen r))"

text \<open>The loop over \<^verbatim>\<open>data[off:]\<close>, from one record boundary to the next.\<close>

function read_records :: "int \<Rightarrow> byte list \<Rightarrow> FragRecord list" where
  "read_records blobSize data =
     (if FragRecordSize \<le> length data then
        case UnmarshalFragRecord (take FragRecordSize data) of
          None \<Rightarrow> []
        | Some r \<Rightarrow>
            if rec_end r > blobSize then []
            else r # read_records blobSize (drop FragRecordSize data)
      else [])"
  by pat_completeness auto
termination by (relation "measure (\<lambda>(_, d). length d)") (auto simp: format_consts)

declare read_records.simps [simp del]

definition ReadRanges :: "byte list option \<Rightarrow> int \<Rightarrow> RangesError + RangesHeader \<times> FragRecord list" where
  "ReadRanges content blobSize =
     (case content of
        None \<Rightarrow> Inl ReadFailed
      | Some data \<Rightarrow>
          case UnmarshalRangesHeader data of
            Inl e \<Rightarrow> Inl e
          | Inr hdr \<Rightarrow> Inr (hdr, read_records blobSize (drop RangesHeadSize data)))"

lemma read_records_step:
  "read_records n (MarshalFragRecord r @ rest) = (if rec_end r > n then [] else r # read_records n rest)"
  using frag.dec_enc [of r "[]"] by (subst read_records.simps) (simp add: format_consts)

lemma read_records_short: "length data < FragRecordSize \<Longrightarrow> read_records n data = []"
  by (subst read_records.simps) simp

lemma read_records_concat:
  assumes "\<forall>r \<in> set recs. rec_end r \<le> n"
  shows "read_records n (concat (map MarshalFragRecord recs) @ rest) = recs @ read_records n rest"
  using assms by (induction recs) (simp_all add: read_records_step not_less [symmetric])

lemma read_records_cut:
  assumes "\<forall>r \<in> set recs. rec_end r \<le> n"
  shows "read_records n (take k (concat (map MarshalFragRecord recs))) = take (k div FragRecordSize) recs"
proof -
  obtain torn where "take k (concat (map MarshalFragRecord recs)) =
      concat (map MarshalFragRecord (take (k div FragRecordSize) recs)) @ torn" "length torn < FragRecordSize"
    using frag.cut_concat by blast
  moreover have "\<forall>r \<in> set (take (k div FragRecordSize) recs). rec_end r \<le> n"
    using assms by (auto dest: in_set_takeD)
  ultimately show ?thesis by (simp add: read_records_concat read_records_short)
qed

text \<open>A record with one byte changed is rejected, wherever the byte is.\<close>

lemma bslice_update:
  "bslice lo hi (b[k := c]) = (if k < lo then bslice lo hi b else (bslice lo hi b)[k - lo := c])"
  by (auto simp: bslice_def drop_update_swap take_update_swap)

lemma bslice_update_out: "k < lo \<or> hi \<le> k \<Longrightarrow> bslice lo hi (b[k := c]) = bslice lo hi b"
  by (auto simp: bslice_update intro!: list_update_beyond)

lemma le_get_inj_16:
  assumes "length b = 2" and "length b' = 2" and "(le_get b :: 16 word) = le_get b'"
  shows "b = b'"
proof -
  have two: "\<exists>x y. b = [x, y]" if "length b = 2" for b :: "byte list"
    using that by (auto simp: length_Suc_conv numeral_2_eq_2)
  obtain x y where b: "b = [x, y]" using two assms(1) by blast
  obtain x' y' where b': "b' = [x', y']" using two assms(2) by blast
  have bits: "bit (le_get [p, q] :: 16 word) n = (if n < 8 then bit p n else n < 16 \<and> bit q (n - 8))" for p q :: byte and n
  proof -
    have "(le_get [p, q] :: 16 word) = or (ucast p) (push_bit 8 (ucast q))" by simp
    then show ?thesis
      by (simp only: bit_or_iff bit_unsigned_iff bit_push_bit_iff) (auto dest: bit_imp_le_length)
  qed
  have "bit x n = bit x' n" if "n < 8" for n
    using bits [of x y n] bits [of x' y' n] that assms(3) by (simp add: b b' del: le_get.simps)
  moreover have "bit y n = bit y' n" if "n < 8" for n
    using bits [of x y "n + 8"] bits [of x' y' "n + 8"] that assms(3) by (simp add: b b' del: le_get.simps)
  ultimately have "x = x'" and "y = y'" by (auto intro!: bit_word_eqI)
  then show ?thesis by (simp add: b b')
qed

lemma list_update_neq: "k < length xs \<Longrightarrow> c \<noteq> xs ! k \<Longrightarrow> xs[k := c] \<noteq> xs"
  by (metis nth_list_update_eq)

lemma one_byte_rejected:
  assumes "j < 40" and "c \<noteq> MarshalFragRecord r ! j"
  shows "UnmarshalFragRecord ((MarshalFragRecord r)[j := c]) = None"
proof -
  define m where "m = MarshalFragRecord r"
  have len: "length m = 40" by (simp add: m_def)
  have ok: "le_get (bslice 2 4 m) = fragRecordCRC m"
    unfolding m_def MarshalFragRecord_def
    by (simp only: record_bytes_fields le_get_put_16) (rule record_bytes_crc [symmetric])
  have new: "c \<noteq> m ! j" using assms(2) by (simp add: m_def)
  have nth: "lo + k < 40 \<Longrightarrow> k < hi - lo \<Longrightarrow> bslice lo hi m ! k = m ! (lo + k)" for lo hi k
    using len by (simp add: bslice_def)
  have "le_get (bslice 2 4 (m[j := c])) \<noteq> fragRecordCRC (m[j := c])"
  proof (cases "2 \<le> j \<and> j < 4")
    case True
    have crc: "fragRecordCRC (m[j := c]) = fragRecordCRC m"
      using True by (simp add: fragRecordCRC_def bslice_update_out format_consts)
    have "bslice 2 4 m ! (j - 2) = m ! j"
    proof -
      have "2 + (j - 2) = j" "2 + (j - 2) < 40" "j - 2 < 4 - 2" using True by auto
      then show ?thesis using nth [of 2 "j - 2" 4] by simp
    qed
    then have "(bslice 2 4 m)[j - 2 := c] \<noteq> bslice 2 4 m"
      using True new len by (intro list_update_neq) auto
    then have "bslice 2 4 (m[j := c]) \<noteq> bslice 2 4 m"
      using True by (simp add: bslice_update)
    then have "(le_get (bslice 2 4 (m[j := c])) :: 16 word) \<noteq> le_get (bslice 2 4 m)"
      using le_get_inj_16 [of "bslice 2 4 (m[j := c])" "bslice 2 4 m"] len by auto
    then show ?thesis using ok crc by simp
  next
    case False
    have "bslice 2 4 (m[j := c]) = bslice 2 4 m"
      using False by (intro bslice_update_out) auto
    moreover have "fragRecordCRC (m[j := c]) \<noteq> fragRecordCRC m"
    proof (cases "j < 2")
      case True
      then have "bslice 4 40 (m[j := c]) = bslice 4 40 m" "bslice 0 2 (m[j := c]) = (bslice 0 2 m)[j := c]"
        by (simp_all add: bslice_update)
      moreover have "crc16Update 0xFFFF ((bslice 0 2 m)[j := c]) \<noteq> crc16Update 0xFFFF (bslice 0 2 m)"
        using True nth [of 0 j 2] new len by (intro crc16Update_one_byte) simp_all
      ultimately show ?thesis by (auto simp: fragRecordCRC_def format_consts dest: crc16Update_inj)
    next
      case ge: False
      then have j4: "4 \<le> j" using False by simp
      then have "bslice 4 40 (m[j := c]) = (bslice 4 40 m)[j - 4 := c]" "bslice 0 2 (m[j := c]) = bslice 0 2 m"
        by (simp add: bslice_update, intro bslice_update_out) simp
      moreover have "crc16Update z ((bslice 4 40 m)[j - 4 := c]) \<noteq> crc16Update z (bslice 4 40 m)" for z
        using j4 nth [of 4 "j - 4" 40] new len assms(1) by (intro crc16Update_one_byte) simp_all
      ultimately show ?thesis by (simp add: fragRecordCRC_def format_consts)
    qed
    ultimately show ?thesis using ok by metis
  qed
  then show ?thesis using len by (simp add: UnmarshalFragRecord_def format_consts m_def [symmetric])
qed

lemma read_records_corrupt:
  assumes "\<forall>r \<in> set recs. rec_end r \<le> n" and "i < length recs" and "j < 40"
    and "c \<noteq> concat (map MarshalFragRecord recs) ! (40 * i + j)"
  shows "read_records n ((concat (map MarshalFragRecord recs))[40 * i + j := c]) = take i recs"
  using assms
proof (induction recs arbitrary: i)
  case (Cons r recs)
  show ?case
  proof (cases i)
    case 0
    then have new: "c \<noteq> MarshalFragRecord r ! j" using Cons.prems by (simp add: nth_append)
    have "(MarshalFragRecord r @ rest)[j := c] = (MarshalFragRecord r)[j := c] @ rest" for rest
      using Cons.prems(3) by (simp add: list_update_append)
    then show ?thesis using 0 one_byte_rejected [OF Cons.prems(3) new]
      by (subst read_records.simps) (simp add: format_consts)
  next
    case (Suc i')
    have upd: "(MarshalFragRecord r @ rest)[40 * i + j := c] = MarshalFragRecord r @ rest[40 * i' + j := c]" for rest
      using Suc by (simp add: list_update_append)
    have "concat (map MarshalFragRecord (r # recs)) ! (40 * i + j) = concat (map MarshalFragRecord recs) ! (40 * i' + j)"
      using Suc by (simp add: nth_append)
    then have "read_records n ((concat (map MarshalFragRecord recs))[40 * i' + j := c]) = take i' recs"
      using Cons.prems Suc by (intro Cons.IH) simp_all
    then show ?thesis using Cons.prems(1) Suc upd by (simp add: read_records_step)
  qed
qed simp

subsection \<open>Files\<close>

text \<open>
  \<^verbatim>\<open>WriteAt\<close>, \<^verbatim>\<open>Truncate\<close> (which extends with zeros) and \<^verbatim>\<open>ReadAt\<close> of an open file. The disk does not
  fail; a crash is what \<open>ReadRanges\<close> and the repair of \<open>Blob_Repair\<close> are given to read.
\<close>

definition write_at :: "nat \<Rightarrow> byte list \<Rightarrow> byte list \<Rightarrow> byte list" where
  "write_at off p content =
     (if p = [] then content
      else take off content @ replicate (off - length content) 0 @ p @ drop (off + length p) content)"

definition truncate_to :: "nat \<Rightarrow> byte list \<Rightarrow> byte list" where
  "truncate_to n content = take n content @ replicate (n - length content) 0"

definition read_at :: "int \<Rightarrow> nat \<Rightarrow> byte list \<Rightarrow> byte list option" where
  "read_at off len content =
     (if off < 0 then None
      else if len = 0 then Some []
      else if nat off + len \<le> length content then Some (take len (drop (nat off) content))
      else None)"

record blobFile =
  bf_data :: "byte list"
  bf_size :: nat

text \<open>\<open>existing\<close> is the file at that path, if there is one: creating is exclusive.\<close>

definition createBlobFile :: "byte list option \<Rightarrow> byte list \<Rightarrow> blobFile option" where
  "createBlobFile existing init =
     (case existing of
        Some _ \<Rightarrow> None
      | None \<Rightarrow>
          if 0 < length init then Some \<lparr>bf_data = write_at 0 init [], bf_size = length init\<rparr>
          else Some \<lparr>bf_data = [], bf_size = 0\<rparr>)"

definition openBlobFile :: "byte list option \<Rightarrow> blobFile option" where
  "openBlobFile existing = map_option (\<lambda>d. \<lparr>bf_data = d, bf_size = length d\<rparr>) existing"

definition bf_Append :: "byte list \<Rightarrow> blobFile \<Rightarrow> nat \<times> blobFile" where
  "bf_Append p b =
     (let off = bf_size b in (off, b\<lparr>bf_data := write_at off p (bf_data b), bf_size := bf_size b + length p\<rparr>))"

definition bf_ReadSlice :: "int \<Rightarrow> nat \<Rightarrow> blobFile \<Rightarrow> byte list option" where
  "bf_ReadSlice off len b = read_at off len (bf_data b)"

definition bf_Truncate :: "nat \<Rightarrow> blobFile \<Rightarrow> blobFile" where
  "bf_Truncate n b = b\<lparr>bf_data := truncate_to n (bf_data b), bf_size := n\<rparr>"

record rangesFile =
  rf_data :: "byte list"
  rf_hdr :: RangesHeader
  rf_count :: "32 word"

definition createRangesFile :: "byte list option \<Rightarrow> RangesHeader \<Rightarrow> rangesFile option" where
  "createRangesFile existing hdr0 =
     (let hdr = hdr0\<lparr>rh_Version := rangesVersion, rh_RecordSize := 40, rh_RecordCount := 0\<rparr> in
      case existing of
        Some _ \<Rightarrow> None
      | None \<Rightarrow> Some \<lparr>rf_data = write_at 0 (MarshalRangesHeader hdr) [], rf_hdr = hdr, rf_count = 0\<rparr>)"

definition rf_Append :: "FragRecord \<Rightarrow> rangesFile \<Rightarrow> rangesFile" where
  "rf_Append r f =
     f\<lparr>rf_data := write_at (RangesHeadSize + unat (rf_count f) * FragRecordSize) (MarshalFragRecord r) (rf_data f),
       rf_count := rf_count f + 1\<rparr>"

definition rf_WriteHeader :: "rangesFile \<Rightarrow> rangesFile" where
  "rf_WriteHeader f =
     (let hdr = (rf_hdr f)\<lparr>rh_RecordCount := rf_count f\<rparr> in
      f\<lparr>rf_hdr := hdr, rf_data := write_at 0 (MarshalRangesHeader hdr) (rf_data f)\<rparr>)"

definition rf_Seal :: "rangesFile \<Rightarrow> rangesFile" where
  "rf_Seal f = rf_WriteHeader (f\<lparr>rf_hdr := (rf_hdr f)\<lparr>rh_Flags := or (rh_Flags (rf_hdr f)) HeaderFlagSealed\<rparr>\<rparr>)"

definition rf_Truncate :: "32 word \<Rightarrow> rangesFile \<Rightarrow> rangesFile" where
  "rf_Truncate n f =
     rf_WriteHeader (f\<lparr>rf_data := truncate_to (RangesHeadSize + unat n * FragRecordSize) (rf_data f),
       rf_count := n\<rparr>)"

lemma write_at_end: "length content = off \<Longrightarrow> write_at off p content = content @ p"
  by (auto simp: write_at_def)

lemma write_at_head: "length p = length old \<Longrightarrow> write_at 0 p (old @ rest) = p @ rest"
  by (auto simp: write_at_def)

text \<open>
  What an index file stands for: a header and a sequence of records. \<open>index_of f h recs\<close> says that \<open>f\<close>
  holds them; every operation is an operation on the sequence.
\<close>

definition index_of :: "rangesFile \<Rightarrow> RangesHeader \<Rightarrow> FragRecord list \<Rightarrow> bool" where
  "index_of f h recs \<longleftrightarrow>
     rf_data f = MarshalRangesHeader h @ concat (map MarshalFragRecord recs) \<and> header_valid h \<and>
     header_valid (rf_hdr f) \<and> rf_count f = of_nat (length recs) \<and> length recs < 2 ^ 32"

lemma index_of_length:
  "index_of f h recs \<Longrightarrow> length (rf_data f) = 64 + 40 * length recs \<and> unat (rf_count f) = length recs"
  using frag.length_concat [of recs] by (simp add: index_of_def format_consts unat_of_nat)

lemma createRangesFile_index:
  "createRangesFile None hdr = Some f \<Longrightarrow> index_of f (rf_hdr f) [] \<and> rf_hdr f =
     hdr\<lparr>rh_Version := rangesVersion, rh_RecordSize := 40, rh_RecordCount := 0\<rparr>"
  by (auto simp: createRangesFile_def Let_def index_of_def write_at_end header_valid_def rangesVersion_def)

lemma rf_Append_index:
  assumes "index_of f h recs" and "Suc (length recs) < 2 ^ 32"
  shows "index_of (rf_Append r f) h (recs @ [r])"
  using assms index_of_length [OF assms(1)]
  by (simp add: index_of_def rf_Append_def format_consts write_at_end mult.commute)

lemma rf_WriteHeader_index:
  assumes "index_of f h recs"
  shows "index_of (rf_WriteHeader f) ((rf_hdr f)\<lparr>rh_RecordCount := of_nat (length recs)\<rparr>) recs"
  using assms by (simp add: index_of_def rf_WriteHeader_def Let_def write_at_head header_valid_def)

lemma rf_Seal_index:
  assumes "index_of f h recs"
  shows "index_of (rf_Seal f)
    ((rf_hdr f)\<lparr>rh_Flags := or (rh_Flags (rf_hdr f)) HeaderFlagSealed, rh_RecordCount := of_nat (length recs)\<rparr>) recs"
proof -
  have "index_of (f\<lparr>rf_hdr := (rf_hdr f)\<lparr>rh_Flags := or (rh_Flags (rf_hdr f)) HeaderFlagSealed\<rparr>\<rparr>) h recs"
    using assms by (simp add: index_of_def header_valid_def)
  from rf_WriteHeader_index [OF this] show ?thesis by (simp add: rf_Seal_def)
qed

lemma truncate_records:
  "n \<le> length recs \<Longrightarrow>
   truncate_to (64 + n * 40) (MarshalRangesHeader h @ concat (map MarshalFragRecord recs)) =
     MarshalRangesHeader h @ concat (map MarshalFragRecord (take n recs))"
proof (induction recs arbitrary: n)
  case (Cons r recs)
  then show ?case by (cases n) (auto simp: truncate_to_def)
qed (simp add: truncate_to_def)

lemma rf_Truncate_index:
  assumes "index_of f h recs" and "unat n \<le> length recs"
  shows "index_of (rf_Truncate n f) ((rf_hdr f)\<lparr>rh_RecordCount := n\<rparr>) (take (unat n) recs)"
proof -
  have "index_of (f\<lparr>rf_data := truncate_to (64 + unat n * 40) (rf_data f), rf_count := n\<rparr>) h (take (unat n) recs)"
    using assms by (auto simp: index_of_def truncate_records min_def)
  from rf_WriteHeader_index [OF this] show ?thesis using assms(2)
    by (simp add: rf_Truncate_def format_consts min.absorb2)
qed

lemma ReadRanges_data:
  assumes "header_valid h" and "\<forall>r \<in> set recs. rec_end r \<le> n"
  shows "ReadRanges (Some (MarshalRangesHeader h @ concat (map MarshalFragRecord recs))) n = Inr (h, recs)"
  using assms header_roundtrip [OF assms(1)] read_records_concat [OF assms(2), of "[]"]
  by (simp add: ReadRanges_def format_consts read_records_short)

lemma ReadRanges_index:
  "index_of f h recs \<Longrightarrow> \<forall>r \<in> set recs. rec_end r \<le> n \<Longrightarrow> ReadRanges (Some (rf_data f)) n = Inr (h, recs)"
  by (simp add: index_of_def ReadRanges_data)

subsection \<open>Properties\<close>

text \<open>
  Crash consistency of the index. The \<^verbatim>\<open>.ranges\<close> file of an hour, cut at any byte by a crash, is
  either too short for its header, which is an error, or reads back exactly the header and the records
  that are there completely, in order.
\<close>

theorem torn_index_reads_complete_records:
  assumes "header_valid h" and "\<forall>r \<in> set recs. rec_end r \<le> blobSize" and "n \<le> 64 + 40 * length recs"
  shows "ReadRanges (Some (take n (MarshalRangesHeader h @ concat (map MarshalFragRecord recs)))) blobSize =
    (if n < 64 then Inl (ShortBuffer n) else Inr (h, take ((n - 64) div 40) recs))"
proof (cases "n < 64")
  case True
  then show ?thesis by (simp add: ReadRanges_def header_short min_def)
next
  case False
  then have "take n (MarshalRangesHeader h @ concat (map MarshalFragRecord recs)) =
      MarshalRangesHeader h @ take (n - 64) (concat (map MarshalFragRecord recs))" by simp
  with False show ?thesis using read_records_cut [OF assms(2), of "n - 64"] header_roundtrip [OF assms(1)]
    by (simp add: ReadRanges_def format_consts)
qed

definition hdr1 :: RangesHeader where
  "hdr1 = \<lparr>rh_Version = 1, rh_RecordSize = 40, rh_Flags = 0, rh_VideoInitLen = 4, rh_AudioInitLen = 0,
     rh_VideoTimescale = 90000, rh_AudioTimescale = 0, rh_RecordCount = 2, rh_HourStartUnixMs = 0,
     rh_BaseMediaTicksV = 0, rh_BaseMediaTicksA = 0\<rparr>"

definition frag1 :: "64 word \<Rightarrow> FragRecord" where
  "frag1 off = \<lparr>rec_Track = TrackVideo, rec_Keyframe = True, rec_Discontinuity = False, rec_SampleCount = 25,
     rec_WallTimeMs = 5, rec_MediaTicks = off, rec_ByteOffset = off, rec_ByteLen = 3, rec_DurTicks = 90000\<rparr>"

lemma hdr1_valid: "header_valid hdr1"
  by (simp add: header_valid_def hdr1_def rangesVersion_def)

lemma frag1_end: "rec_end (frag1 4) = 7" "rec_end (frag1 7) = 10"
  by (simp_all add: rec_end_def frag1_def)

theorem torn_index_reads_complete_records_witness:
  "ReadRanges (Some (take 110 (MarshalRangesHeader hdr1 @ concat (map MarshalFragRecord [frag1 4, frag1 7])))) 10 =
     Inr (hdr1, [frag1 4])"
  using torn_index_reads_complete_records [of hdr1 "[frag1 4, frag1 7]" 10 110] hdr1_valid
  by (simp add: frag1_end)

text \<open>
  A damaged record ends the index. If any one byte of a record is changed, in the fields or in the
  checksum itself, reading returns the records before it and nothing after it.
\<close>

theorem corrupt_record_ends_the_index:
  assumes "header_valid h" and "\<forall>r \<in> set recs. rec_end r \<le> blobSize" and "i < length recs" and "j < 40"
    and "c \<noteq> (MarshalRangesHeader h @ concat (map MarshalFragRecord recs)) ! (64 + 40 * i + j)"
  shows "ReadRanges
      (Some ((MarshalRangesHeader h @ concat (map MarshalFragRecord recs))[64 + 40 * i + j := c])) blobSize =
    Inr (h, take i recs)"
proof -
  have new: "c \<noteq> concat (map MarshalFragRecord recs) ! (40 * i + j)"
    using assms(5) by (simp add: nth_append)
  have "(MarshalRangesHeader h @ concat (map MarshalFragRecord recs))[64 + 40 * i + j := c] =
      MarshalRangesHeader h @ (concat (map MarshalFragRecord recs))[40 * i + j := c]"
    by (simp add: list_update_append)
  then show ?thesis using read_records_corrupt [OF assms(2,3,4) new] header_roundtrip [OF assms(1)]
    by (simp add: ReadRanges_def format_consts)
qed

theorem corrupt_record_ends_the_index_witness:
  "ReadRanges (Some ((MarshalRangesHeader hdr1 @ concat (map MarshalFragRecord [frag1 4, frag1 7]))[64 + 40 * 1 + 0 := 7]))
     10 = Inr (hdr1, [frag1 4])"
proof -
  have "(7 :: byte) \<noteq> (MarshalRangesHeader hdr1 @ concat (map MarshalFragRecord [frag1 4, frag1 7])) ! (64 + 40 * 1 + 0)"
    by (simp add: nth_append MarshalFragRecord_def record_bytes_def frag1_def TrackVideo_def)
  from corrupt_record_ends_the_index [OF hdr1_valid _ _ _ this, of 10] show ?thesis
    by (simp add: frag1_end)
qed

end
