(* ===== verification/Blob_Paths.thy ===== *)
theory Blob_Paths
  imports Blob_Format "HOL-Library.Product_Lexorder"
begin

text \<open>
  Names in the DVR blob archive: the flat URL filenames of \<^verbatim>\<open>internal/dvr/blob/names.go\<close>, the hour keys and
  directories of \<^verbatim>\<open>paths.go\<close>, with the parts of \<^verbatim>\<open>strings\<close>, \<^verbatim>\<open>strconv\<close>, \<^verbatim>\<open>path/filepath\<close> and the calendar of
  \<^verbatim>\<open>time\<close> they use. A time is the number of milliseconds since 1970 UTC.
\<close>

subsection \<open>Strings\<close>

fun split_on :: "char \<Rightarrow> string \<Rightarrow> string list" where
  "split_on c [] = [[]]"
| "split_on c (x # xs) =
     (if x = c then [] # split_on c xs
      else case split_on c xs of [] \<Rightarrow> [[x]] | p # ps \<Rightarrow> (x # p) # ps)"

definition TrimPrefix :: "string \<Rightarrow> string \<Rightarrow> string" where
  "TrimPrefix s p = (if prefix p s then drop (length p) s else s)"

definition TrimSuffix :: "string \<Rightarrow> string \<Rightarrow> string" where
  "TrimSuffix s p = (if suffix p s then take (length s - length p) s else s)"

text \<open>\<^verbatim>\<open>strconv.ParseUint(s, 10, 64)\<close> and \<^verbatim>\<open>strconv.Atoi(s)\<close>.\<close>

definition parse_uint :: "string \<Rightarrow> nat option" where
  "parse_uint s = (if s \<noteq> [] \<and> list_all is_digit s \<and> dec_val s < 2 ^ 64 then Some (dec_val s) else None)"

definition atoi :: "string \<Rightarrow> int option" where
  "atoi s =
     (let signed = s \<noteq> [] \<and> (hd s = CHR ''-'' \<or> hd s = CHR ''+'');
          ds = (if signed then tl s else s);
          neg = (s \<noteq> [] \<and> hd s = CHR ''-'') in
      if ds = [] \<or> \<not> list_all is_digit ds then None
      else if neg then (if dec_val ds \<le> 2 ^ 63 then Some (- int (dec_val ds)) else None)
      else if dec_val ds < 2 ^ 63 then Some (int (dec_val ds)) else None)"

lemma split_on_plain: "c \<notin> set xs \<Longrightarrow> split_on c xs = [xs]"
  by (induction xs) auto

lemma split_on_append: "c \<notin> set xs \<Longrightarrow> split_on c (xs @ c # ys) = xs # split_on c ys"
  by (induction xs) auto

lemma TrimPrefix_append [simp]: "TrimPrefix (p @ s) p = s"
  by (simp add: TrimPrefix_def)

lemma TrimSuffix_append [simp]: "TrimSuffix (s @ p) p = s"
  by (simp add: TrimSuffix_def suffix_def)

lemma digits_no: "\<not> is_digit c \<Longrightarrow> list_all is_digit s \<Longrightarrow> c \<notin> set s"
  by (auto simp: list_all_iff)

lemma sign_not_digit [simp]: "\<not> is_digit (CHR ''-'')" "\<not> is_digit (CHR ''+'')" "\<not> is_digit (CHR ''/'')"
  by (simp_all add: is_digit_def)

lemma parse_uint_digits: "n < 2 ^ 64 \<Longrightarrow> parse_uint (digits n) = Some n"
  by (simp add: parse_uint_def digits_all)

lemma atoi_digits: "n < 2 ^ 63 \<Longrightarrow> atoi (digits n) = Some (int n)"
proof -
  assume n: "n < 2 ^ 63"
  obtain c cs where ds: "digits n = c # cs" by (cases "digits n") auto
  have "is_digit c" "list_all is_digit cs" using digits_all [of n] ds by simp_all
  moreover from this(1) have "c \<noteq> CHR ''-''" "c \<noteq> CHR ''+''" by auto
  moreover have "dec_val (c # cs) = n" using dec_val_digits [of n] ds by simp
  ultimately show ?thesis using n by (simp add: atoi_def ds)
qed

subsection \<open>File names\<close>

definition fragPrefix :: string where "fragPrefix = ''dvrf-''"
definition timeFragPrefix :: string where "timeFragPrefix = ''dvrt-''"
definition initPrefix :: string where "initPrefix = ''dvri-''"
definition fragSuffix :: string where "fragSuffix = ''.m4s''"
definition initSuffix :: string where "initSuffix = ''.mp4''"

lemmas name_consts = fragPrefix_def timeFragPrefix_def initPrefix_def fragSuffix_def initSuffix_def

definition IsBlobMediaFile :: "string \<Rightarrow> bool" where
  "IsBlobMediaFile f \<longleftrightarrow> prefix fragPrefix f \<or> prefix timeFragPrefix f \<or> prefix initPrefix f"

definition parseTrack :: "string \<Rightarrow> byte option" where
  "parseTrack s = (if s = ''0'' then Some TrackVideo else if s = ''1'' then Some TrackAudio else None)"

definition validProfile :: "string \<Rightarrow> bool" where
  "validProfile s = (if length s < 2 \<or> s ! 0 \<noteq> CHR ''p'' then False else list_all is_digit (drop 1 s))"

definition validHourCompact :: "string \<Rightarrow> bool" where
  "validHourCompact s = (if length s \<noteq> 10 then False else list_all is_digit s)"

definition ParseFragmentName :: "string \<Rightarrow> (string \<times> string \<times> byte \<times> int) option" where
  "ParseFragmentName f =
     (if \<not> prefix fragPrefix f \<or> \<not> suffix fragSuffix f then None
      else
        let body = TrimSuffix (TrimPrefix f fragPrefix) fragSuffix;
            parts = split_on (CHR ''-'') body in
        if length parts \<noteq> 4 then None
        else case (parseTrack (parts ! 2), atoi (parts ! 3)) of
            (Some tr, Some sq) \<Rightarrow>
              if \<not> validProfile (parts ! 0) \<or> \<not> validHourCompact (parts ! 1) \<or> sq < 0 then None
              else Some (parts ! 0, parts ! 1, tr, sq)
          | _ \<Rightarrow> None)"

definition ParseTimeFragmentName :: "string \<Rightarrow> (string \<times> byte \<times> 64 word) option" where
  "ParseTimeFragmentName f =
     (if \<not> prefix timeFragPrefix f \<or> \<not> suffix fragSuffix f then None
      else
        let body = TrimSuffix (TrimPrefix f timeFragPrefix) fragSuffix;
            parts = split_on (CHR ''-'') body in
        if length parts \<noteq> 3 then None
        else case (parseTrack (parts ! 1), parse_uint (parts ! 2)) of
            (Some tr, Some ticks) \<Rightarrow>
              if \<not> validProfile (parts ! 0) then None else Some (parts ! 0, tr, of_nat ticks)
          | _ \<Rightarrow> None)"

definition ParseInitName :: "string \<Rightarrow> (string \<times> byte) option" where
  "ParseInitName f =
     (if \<not> prefix initPrefix f \<or> \<not> suffix initSuffix f then None
      else
        let body = TrimSuffix (TrimPrefix f initPrefix) initSuffix;
            parts = split_on (CHR ''-'') body in
        if length parts \<noteq> 2 then None
        else case parseTrack (parts ! 1) of
            Some tr \<Rightarrow> if \<not> validProfile (parts ! 0) then None else Some (parts ! 0, tr)
          | None \<Rightarrow> None)"

text \<open>
  The names as the playlists of \<^verbatim>\<open>hls.go\<close> and the manifest of \<^verbatim>\<open>dash.go\<close> spell them, the latter after a
  player has put a tick for \<^verbatim>\<open>$Time$\<close>. \<open>tok\<close> is the track token, \<^verbatim>\<open>"0"\<close> or \<^verbatim>\<open>"1"\<close>.
\<close>

definition fragment_uri :: "string \<Rightarrow> string \<Rightarrow> string \<Rightarrow> int \<Rightarrow> string" where
  "fragment_uri profile hourTok tok seq =
     ''dvrf-'' @ profile @ ''-'' @ hourTok @ ''-'' @ tok @ ''-'' @ show_int seq @ ''.m4s''"

definition time_uri :: "string \<Rightarrow> string \<Rightarrow> 64 word \<Rightarrow> string" where
  "time_uri profile tok ticks = ''dvrt-'' @ profile @ ''-'' @ tok @ ''-'' @ digits (unat ticks) @ ''.m4s''"

definition init_uri :: "string \<Rightarrow> string \<Rightarrow> string" where
  "init_uri profile tok = ''dvri-'' @ profile @ ''-'' @ tok @ ''.mp4''"

lemma validProfile_no_dash: "validProfile p \<Longrightarrow> CHR ''-'' \<notin> set p"
  by (cases p) (auto simp: validProfile_def list_all_iff split: if_splits)

lemma validHour_no_dash: "validHourCompact h \<Longrightarrow> CHR ''-'' \<notin> set h"
  by (auto simp: validHourCompact_def list_all_iff split: if_splits)

lemma parseTrack_no_dash: "parseTrack tok = Some tr \<Longrightarrow> CHR ''-'' \<notin> set tok"
  by (auto simp: parseTrack_def split: if_splits)

lemma fragment_uri_parses:
  assumes "validProfile p" and "validHourCompact h" and "parseTrack tok = Some tr" and "0 \<le> seq" and "seq < 2 ^ 63"
  shows "ParseFragmentName (fragment_uri p h tok seq) = Some (p, h, tr, seq)"
proof -
  define b where "b = p @ CHR ''-'' # h @ CHR ''-'' # tok @ CHR ''-'' # digits (nat seq)"
  have uri: "fragment_uri p h tok seq = fragPrefix @ b @ fragSuffix"
    using assms(4) by (simp add: fragment_uri_def b_def name_consts show_int_def)
  have nd: "CHR ''-'' \<notin> set (digits (nat seq))" using digits_no [OF sign_not_digit(1) digits_all] .
  have "split_on (CHR ''-'') b = [p, h, tok, digits (nat seq)]"
    using assms by (simp add: b_def split_on_append split_on_plain validProfile_no_dash validHour_no_dash parseTrack_no_dash nd)
  moreover have "nat seq < 2 ^ 63" using assms(4,5) by (simp add: nat_less_iff)
  ultimately show ?thesis using assms
    by (simp add: ParseFragmentName_def uri Let_def atoi_digits suffix_def)
qed

lemma time_uri_parses:
  assumes "validProfile p" and "parseTrack tok = Some tr"
  shows "ParseTimeFragmentName (time_uri p tok ticks) = Some (p, tr, ticks)"
proof -
  define b where "b = p @ CHR ''-'' # tok @ CHR ''-'' # digits (unat ticks)"
  have uri: "time_uri p tok ticks = timeFragPrefix @ b @ fragSuffix"
    by (simp add: time_uri_def b_def name_consts)
  have nd: "CHR ''-'' \<notin> set (digits (unat ticks))" using digits_no [OF sign_not_digit(1) digits_all] .
  have "split_on (CHR ''-'') b = [p, tok, digits (unat ticks)]"
    using assms by (simp add: b_def split_on_append split_on_plain validProfile_no_dash parseTrack_no_dash nd)
  moreover have "unat ticks < 2 ^ LENGTH(64)" by (rule unsigned_less)
  ultimately show ?thesis using assms
    by (simp add: ParseTimeFragmentName_def uri Let_def parse_uint_digits suffix_def)
qed

lemma init_uri_parses:
  assumes "validProfile p" and "parseTrack tok = Some tr"
  shows "ParseInitName (init_uri p tok) = Some (p, tr)"
proof -
  define b where "b = p @ CHR ''-'' # tok"
  have uri: "init_uri p tok = initPrefix @ b @ initSuffix"
    by (simp add: init_uri_def b_def name_consts)
  have "split_on (CHR ''-'') b = [p, tok]"
    using assms by (simp add: b_def split_on_append split_on_plain validProfile_no_dash parseTrack_no_dash)
  then show ?thesis using assms
    by (simp add: ParseInitName_def uri Let_def suffix_def)
qed

subsection \<open>Hours\<close>

text \<open>
  The civil date of a day, counted from 1 January 1970 (Gregorian, UTC). The clock of the program is
  later than that, so a day is a natural number.
\<close>

definition leap :: "nat \<Rightarrow> bool" where
  "leap y \<longleftrightarrow> y mod 4 = 0 \<and> (y mod 100 \<noteq> 0 \<or> y mod 400 = 0)"

definition month_days :: "nat \<Rightarrow> nat \<Rightarrow> nat" where
  "month_days y m = (if m = 2 then (if leap y then 29 else 28) else if m \<in> {4, 6, 9, 11} then 30 else 31)"

fun next_day :: "nat \<times> nat \<times> nat \<Rightarrow> nat \<times> nat \<times> nat" where
  "next_day (y, m, d) =
     (if d < month_days y m then (y, m, d + 1) else if m < 12 then (y, m + 1, 1) else (y + 1, 1, 1))"

definition civil :: "nat \<Rightarrow> nat \<times> nat \<times> nat" where
  "civil n = (next_day ^^ n) (1970, 1, 1)"

text \<open>\<^verbatim>\<open>t.UTC().Truncate(time.Hour)\<close> as the number of the hour, and the catalog key of an hour.\<close>

definition hourFloor :: "int \<Rightarrow> int" where
  "hourFloor wallMs = wallMs div 3600000"

definition hourRel :: "int \<Rightarrow> string" where
  "hourRel h =
     (case civil (nat (h div 24)) of (y, m, d) \<Rightarrow>
        zero_pad 4 y @ ''/'' @ zero_pad 2 m @ ''/'' @ zero_pad 2 d @ ''/'' @ zero_pad 2 (nat (h mod 24)))"

text \<open>\<^verbatim>\<open>strings.ReplaceAll(hr.Hour, "/", "")\<close> of the reader, and \<^verbatim>\<open>hourStemFromCompact\<close>, relative to the profile.\<close>

definition hour_compact :: "string \<Rightarrow> string" where
  "hour_compact rel = filter (\<lambda>c. c \<noteq> CHR ''/'') rel"

definition hourStemFromCompact :: "string \<Rightarrow> string option" where
  "hourStemFromCompact hc =
     (if length hc \<noteq> 10 then None
      else if \<not> list_all is_digit hc then None
      else Some (take 4 hc @ ''/'' @ take 2 (drop 4 hc) @ ''/'' @ take 2 (drop 6 hc) @ ''/'' @ take 2 (drop 8 hc)))"

lemma civil_Suc: "civil n < civil (Suc n)"
proof -
  obtain y m d where "civil n = (y, m, d)" by (metis surj_pair)
  then show ?thesis by (simp add: civil_def)
qed

lemma civil_strict_mono: "a < b \<Longrightarrow> civil a < civil b"
  by (rule lift_Suc_mono_less [of civil, OF civil_Suc])

lemma civil_bounds: "civil n = (y, m, d) \<Longrightarrow> 1 \<le> m \<and> m \<le> 12 \<and> 1 \<le> d \<and> d \<le> 31"
proof (induction n arbitrary: y m d)
  case (Suc n)
  obtain y0 m0 d0 where c: "civil n = (y0, m0, d0)" by (metis surj_pair)
  have "month_days y0 m0 \<le> 31" by (simp add: month_days_def)
  moreover have "next_day (y0, m0, d0) = (y, m, d)" using Suc.prems c by (simp add: civil_def)
  ultimately show ?case using Suc.IH [OF c] by (auto split: if_splits)
qed (simp add: civil_def)

lemma digits_length: "n < 10 ^ w \<Longrightarrow> 0 < w \<Longrightarrow> length (digits n) \<le> w"
proof (induction n arbitrary: w rule: digits.induct)
  case (1 n)
  show ?case
  proof (cases "n < 10")
    case True
    then show ?thesis using 1 by (subst digits.simps) simp
  next
    case False
    obtain w' where w: "w = Suc w'" "0 < w'" using 1 False by (cases w; cases "w - 1") auto
    then have "n div 10 < 10 ^ w'" using 1(2) by (simp add: less_mult_imp_div_less mult.commute)
    then show ?thesis using 1(1) [OF False _ w(2)] w False by (subst digits.simps) simp
  qed
qed

lemma zero_pad_len [simp]: "n < 10 ^ w \<Longrightarrow> 0 < w \<Longrightarrow> length (zero_pad w n) = w"
  using digits_length [of n w] by (simp add: zero_pad_def)

text \<open>Decimal strings of one length compare like the numbers.\<close>

lemma dec_val_Cons: "dec_val (c # cs) = digit_val c * 10 ^ length cs + dec_val cs"
proof -
  let ?f = "\<lambda>n c. n * 10 + digit_val c"
  have "foldl ?f a cs = a * 10 ^ length cs + foldl ?f 0 cs" for a
  proof (induction cs arbitrary: a)
    case (Cons c cs)
    from Cons [of "a * 10 + digit_val c"] Cons [of "digit_val c"] show ?case by (simp add: distrib_right)
  qed simp
  from this [of "digit_val c"] show ?thesis by (simp add: dec_val_def)
qed

lemma dec_val_bound: "list_all is_digit s \<Longrightarrow> dec_val s < 10 ^ length s"
proof (induction s)
  case (Cons c cs)
  then have "digit_val c \<le> 9" by (auto simp: is_digit_def digit_val_def)
  then have "digit_val c * 10 ^ length cs \<le> 9 * 10 ^ length cs" by (rule mult_right_mono) simp
  moreover have "dec_val cs < 10 ^ length cs" using Cons by simp
  ultimately show ?case by (simp only: dec_val_Cons list.size power_Suc add_Suc_right add_0_right)
qed (simp add: dec_val_def)

lemma dec_less_string:
  assumes "length s = length t" and "list_all is_digit s" and "list_all is_digit t" and "dec_val s < dec_val t"
  shows "s < t"
  using assms
proof (induction s t rule: list_induct2)
  case (Cons x xs y ys)
  have order: "x < y \<longleftrightarrow> digit_val x < digit_val y" "x = y \<longleftrightarrow> digit_val x = digit_val y"
    using Cons.prems by (auto simp: is_digit_def digit_val_def less_char_def diff_less_mono eq_diff_iff)
  show ?case
  proof (cases "digit_val x < digit_val y")
    case False
    have "digit_val x \<le> digit_val y"
    proof (rule ccontr)
      assume "\<not> ?thesis"
      then have "Suc (digit_val y) * 10 ^ length ys \<le> digit_val x * 10 ^ length ys"
        by (intro mult_right_mono) simp_all
      moreover have "dec_val ys < 10 ^ length ys" using Cons.prems by (intro dec_val_bound) simp
      ultimately show False using Cons.prems(3) Cons.hyps by (simp add: dec_val_Cons)
    qed
    then have "digit_val x = digit_val y" using False by simp
    then show ?thesis using Cons order by (simp add: dec_val_Cons)
  qed (use order in simp)
qed simp

lemma append_less: "length xs = length xs' \<Longrightarrow> xs < xs' \<Longrightarrow> xs @ ys < xs' @ (ys' :: string)"
  by (induction xs xs' rule: list_induct2) auto

lemma zero_pad_less: "m < n \<Longrightarrow> n < 10 ^ w \<Longrightarrow> 0 < w \<Longrightarrow> zero_pad w m < zero_pad w n"
  by (rule dec_less_string) (simp_all add: zero_pad_all)

lemma zero_pad_step:
  assumes "n < 10 ^ w" and "0 < w" and "m < n \<or> m = n \<and> s < t"
  shows "zero_pad w m @ s < zero_pad w n @ t"
  using assms(3)
proof
  assume "m < n"
  then show ?thesis using assms(1,2) by (intro append_less zero_pad_less) simp_all
next
  assume "m = n \<and> s < t"
  moreover have "xs @ s < xs @ t" if "s < t" for xs :: string using that by (induction xs) auto
  ultimately show ?thesis by simp
qed

lemma hourRel_mono:
  assumes "0 \<le> h" and "h < h'" and "fst (civil (nat (h' div 24))) < 10000"
  shows "hourRel h < hourRel h'"
proof -
  obtain y m d where c: "civil (nat (h div 24)) = (y, m, d)" by (metis surj_pair)
  obtain y' m' d' where c': "civil (nat (h' div 24)) = (y', m', d')" by (metis surj_pair)
  have b: "m \<le> 12" "d \<le> 31" "m' \<le> 12" "d' \<le> 31" using civil_bounds [OF c] civil_bounds [OF c'] by simp_all
  have ord: "(y, m, d) < (y', m', d') \<or> (y, m, d) = (y', m', d') \<and> nat (h mod 24) < nat (h' mod 24)"
  proof (cases "h div 24 = h' div 24")
    case True
    then have "h mod 24 < h' mod 24" using assms(2) by (metis add_le_cancel_left div_mult_mod_eq not_le)
    moreover have "0 \<le> h mod 24" by simp
    ultimately have "nat (h mod 24) < nat (h' mod 24)" by linarith
    then show ?thesis using c c' True by simp
  next
    case False
    moreover have "h div 24 \<le> h' div 24" using assms(2) by (intro zdiv_mono1) simp_all
    ultimately have "nat (h div 24) < nat (h' div 24)" using assms(1) by (simp add: pos_imp_zdiv_nonneg_iff)
    then show ?thesis using civil_strict_mono c c' by metis
  qed
  have "nat (h' mod 24) < 10 ^ 2" by (simp add: nat_less_iff)
  then have hh: "nat (h mod 24) < nat (h' mod 24) \<Longrightarrow> zero_pad 2 (nat (h mod 24)) < zero_pad 2 (nat (h' mod 24))"
    by (intro zero_pad_less) simp_all
  show ?thesis unfolding hourRel_def c c' prod.case using ord b assms(3) c' hh
    by (intro zero_pad_step) (auto intro!: zero_pad_step)
qed

lemma no_slash_zero_pad [simp]: "filter (\<lambda>c. c \<noteq> CHR ''/'') (zero_pad w n) = zero_pad w n"
  using zero_pad_all [of w n] by (auto simp: filter_id_conv list_all_iff is_digit_def)

lemma compact_roundtrip:
  assumes "fst (civil (nat (h div 24))) < 10000"
  shows "hourStemFromCompact (hour_compact (hourRel h)) = Some (hourRel h)"
    and "validHourCompact (hour_compact (hourRel h))"
proof -
  obtain y m d where c: "civil (nat (h div 24)) = (y, m, d)" by (metis surj_pair)
  have "nat (h mod 24) < 10 ^ 2" by (simp add: nat_less_iff)
  moreover have "y < 10 ^ 4" "m < 10 ^ 2" "d < 10 ^ 2" using civil_bounds [OF c] assms c by simp_all
  ultimately have len: "length (zero_pad 4 y) = 4" "length (zero_pad 2 m) = 2" "length (zero_pad 2 d) = 2"
    "length (zero_pad 2 (nat (h mod 24))) = 2" by simp_all
  have all: "list_all is_digit (zero_pad w n)" for w n by (rule zero_pad_all)
  show "hourStemFromCompact (hour_compact (hourRel h)) = Some (hourRel h)"
    by (simp add: hourStemFromCompact_def hour_compact_def hourRel_def c len all)
  show "validHourCompact (hour_compact (hourRel h))"
    by (simp add: validHourCompact_def hour_compact_def hourRel_def c len all)
qed

subsection \<open>Directories\<close>

text \<open>\<^verbatim>\<open>filepath.Clean\<close>: the components that stay, from the left.\<close>

definition clean_step :: "bool \<Rightarrow> string list \<Rightarrow> string \<Rightarrow> string list" where
  "clean_step rooted out c =
     (if c = '''' \<or> c = ''.'' then out
      else if c = ''..'' then
        (if out \<noteq> [] \<and> last out \<noteq> ''..'' then butlast out else if rooted then out else out @ [''..''])
      else out @ [c])"

fun join_slash :: "string list \<Rightarrow> string" where
  "join_slash [] = ''''"
| "join_slash [p] = p"
| "join_slash (p # q # ps) = p @ ''/'' @ join_slash (q # ps)"

definition rooted_path :: "string \<Rightarrow> bool" where
  "rooted_path p \<longleftrightarrow> p \<noteq> [] \<and> hd p = CHR ''/''"

definition clean_comps :: "string \<Rightarrow> string list" where
  "clean_comps p = foldl (clean_step (rooted_path p)) [] (split_on (CHR ''/'') p)"

definition Clean :: "string \<Rightarrow> string" where
  "Clean p =
     (let cs = clean_comps p in
      if rooted_path p then CHR ''/'' # join_slash cs
      else if cs = [] then ''.'' else join_slash cs)"

text \<open>\<^verbatim>\<open>filepath.Join(root, code)\<close>; empty elements are left out.\<close>

definition join2 :: "string \<Rightarrow> string \<Rightarrow> string" where
  "join2 a b =
     (if a = [] \<and> b = [] then []
      else if a = [] then Clean b else if b = [] then Clean a else Clean (a @ ''/'' @ b))"

definition ResolveStreamDir :: "string \<Rightarrow> string \<Rightarrow> string option" where
  "ResolveStreamDir dvrRoot code =
     (let cleanRoot = Clean dvrRoot; dir = Clean (join2 cleanRoot code) in
      if dir \<noteq> cleanRoot \<and> \<not> prefix (cleanRoot @ ''/'') dir then None else Some dir)"

text \<open>A cleaned path: leading \<^verbatim>\<open>..\<close> components, then none.\<close>

definition dots_first :: "string list \<Rightarrow> bool" where
  "dots_first cs \<longleftrightarrow> (\<exists>n. \<exists>names. cs = replicate n ''..'' @ names \<and> ''..'' \<notin> set names)"

definition plain_comps :: "string list \<Rightarrow> bool" where
  "plain_comps cs \<longleftrightarrow> (\<forall>c \<in> set cs. c \<noteq> [] \<and> CHR ''/'' \<notin> set c)"

lemma split_on_no: "p \<in> set (split_on c s) \<Longrightarrow> c \<notin> set p"
  by (induction s arbitrary: p) (auto split: if_splits list.splits)

lemma split_on_nonempty [simp]: "split_on c s \<noteq> []"
  by (cases s) (auto split: list.splits)

lemma split_on_app: "split_on c (xs @ c # ys) = split_on c xs @ split_on c ys"
  by (induction xs) (auto split: list.splits)

lemma dots_first_step: "dots_first out \<Longrightarrow> dots_first (clean_step r out c)"
proof -
  assume "dots_first out"
  then obtain n names where o: "out = replicate n ''..'' @ names" "''..'' \<notin> set names"
    by (auto simp: dots_first_def)
  show ?thesis
  proof (cases "names = []")
    case True
    have l: "last (replicate n ''..'') = ''..''" if "replicate n ''..'' \<noteq> []" using that by (cases n) auto
    have snoc: "dots_first (replicate n ''..'' @ [''..''])" "dots_first (replicate n ''..'')"
      by (auto simp: dots_first_def replicate_append_same [symmetric] intro: exI [of _ "Suc n"] exI [of _ n] exI [of _ "[]"])
    have "c \<noteq> ''..'' \<Longrightarrow> dots_first (replicate n ''..'' @ [c])"
      unfolding dots_first_def by (intro exI [of _ n] exI [of _ "[c]"]) simp
    then show ?thesis using True o l snoc by (auto simp: clean_step_def)
  next
    case False
    have "''..'' \<notin> set (butlast names)" using o(2) by (auto dest: in_set_butlastD)
    then have "dots_first (butlast out)"
      using o False by (auto simp: dots_first_def butlast_append)
    moreover have "last out \<noteq> ''..''" using o False by (metis last_appendR last_in_set)
    moreover have "c \<noteq> ''..'' \<Longrightarrow> dots_first (out @ [c])"
      using o unfolding dots_first_def by (intro exI [of _ n] exI [of _ "names @ [c]"]) simp
    ultimately show ?thesis using \<open>dots_first out\<close> False o by (auto simp: clean_step_def)
  qed
qed

lemma plain_step: "plain_comps out \<Longrightarrow> CHR ''/'' \<notin> set c \<Longrightarrow> plain_comps (clean_step r out c)"
  by (auto simp: plain_comps_def clean_step_def dest: in_set_butlastD)

lemma clean_comps_ok: "dots_first (clean_comps p) \<and> plain_comps (clean_comps p)"
proof -
  have "dots_first (foldl (clean_step r) out cs) \<and> plain_comps (foldl (clean_step r) out cs)"
    if "dots_first out" "plain_comps out" "\<forall>c \<in> set cs. CHR ''/'' \<notin> set c" for r out cs
    using that by (induction cs arbitrary: out) (simp_all add: dots_first_step plain_step)
  moreover have "dots_first []" "plain_comps []" by (auto simp: dots_first_def plain_comps_def)
  ultimately show ?thesis by (auto simp: clean_comps_def dest: split_on_no)
qed

lemma split_join: "plain_comps cs \<Longrightarrow> cs \<noteq> [] \<Longrightarrow> split_on (CHR ''/'') (join_slash cs) = cs"
  by (induction cs rule: join_slash.induct) (auto simp: plain_comps_def split_on_plain split_on_append)

text \<open>The components of a cleaned path; the root has none but an empty first one.\<close>

lemma split_Clean:
  "split_on (CHR ''/'') (Clean p) =
     (if rooted_path p then '''' # (if clean_comps p = [] then [''''] else clean_comps p)
      else if clean_comps p = [] then [''.''] else clean_comps p)"
  using clean_comps_ok [of p] by (auto simp: Clean_def Let_def split_join)

lemma clean_rooted: "rooted_path p \<Longrightarrow> ''..'' \<notin> set (clean_comps p)"
proof -
  have "''..'' \<notin> set out \<Longrightarrow> ''..'' \<notin> set (foldl (clean_step True) out cs)" for out cs
    by (induction cs arbitrary: out) (auto simp: clean_step_def dest: in_set_butlastD)
  then show "rooted_path p \<Longrightarrow> ''..'' \<notin> set (clean_comps p)" by (simp add: clean_comps_def)
qed

lemma dots_first_tail:
  assumes "dots_first cs" and "cs = a @ b" and "a \<noteq> []" and "last a \<noteq> ''..''"
  shows "''..'' \<notin> set b"
proof -
  obtain n names where cs: "cs = replicate n ''..'' @ names" "''..'' \<notin> set names"
    using assms(1) by (auto simp: dots_first_def)
  have "n < length a"
  proof (rule ccontr)
    assume "\<not> n < length a"
    then have "take (length a) cs = replicate (length a) ''..''" by (simp add: cs(1) min.absorb1)
    then have "a = replicate (length a) ''..''" using assms(2) by simp
    then have "last a = ''..''" using assms(3) by (metis last_replicate length_0_conv)
    with assms(4) show False by simp
  qed
  moreover have "b = drop (length a) cs" using assms(2) by simp
  ultimately show ?thesis using cs by (auto dest: in_set_dropD)
qed

subsection \<open>Properties\<close>

text \<open>
  A stream's archive directory is inside the DVR root. Whatever the stream code, a directory that
  \<^verbatim>\<open>ResolveStreamDir\<close> accepts has the components of the cleaned root followed by components none of
  which is \<^verbatim>\<open>..\<close>, provided the root does not itself end in \<^verbatim>\<open>..\<close>.
\<close>

theorem resolved_dir_stays_under_root:
  assumes "ResolveStreamDir dvrRoot code = Some dir" and "last (split_on (CHR ''/'') (Clean dvrRoot)) \<noteq> ''..''"
  shows "\<exists>rest. split_on (CHR ''/'') dir = split_on (CHR ''/'') (Clean dvrRoot) @ rest \<and> ''..'' \<notin> set rest"
proof (cases "dir = Clean dvrRoot")
  case True
  then show ?thesis by (intro exI [of _ "[]"]) simp
next
  case False
  define x where "x = join2 (Clean dvrRoot) code"
  have dir: "dir = Clean x" "prefix (Clean dvrRoot @ ''/'') dir"
    using assms(1) False by (auto simp: ResolveStreamDir_def Let_def x_def split: if_splits)
  then obtain s where s: "dir = Clean dvrRoot @ CHR ''/'' # s" by (auto simp: prefix_def)
  let ?a = "split_on (CHR ''/'') (Clean dvrRoot)" and ?b = "split_on (CHR ''/'') s"
  have app: "split_on (CHR ''/'') dir = ?a @ ?b" unfolding s by (rule split_on_app)
  have "''..'' \<notin> set ?b"
  proof (cases "rooted_path x \<or> clean_comps x = []")
    case True
    then have "''..'' \<notin> set (split_on (CHR ''/'') dir)"
      using clean_rooted [of x] by (auto simp: dir(1) split_Clean)
    then show ?thesis using app by simp
  next
    case False
    then have "split_on (CHR ''/'') dir = clean_comps x" by (simp add: dir(1) split_Clean)
    with app have "clean_comps x = ?a @ ?b" by simp
    moreover have "dots_first (clean_comps x)" using clean_comps_ok by blast
    ultimately show ?thesis using assms(2) by (intro dots_first_tail [where a = ?a]) simp_all
  qed
  with app show ?thesis by blast
qed

theorem resolved_dir_stays_under_root_witness:
  "ResolveStreamDir ''/srv/./dvr'' ''region/../live'' = Some ''/srv/dvr/live'' \<and>
   (\<exists>rest. split_on (CHR ''/'') ''/srv/dvr/live'' = split_on (CHR ''/'') (Clean ''/srv/./dvr'') @ rest \<and> ''..'' \<notin> set rest)"
proof -
  have a: "ResolveStreamDir ''/srv/./dvr'' ''region/../live'' = Some ''/srv/dvr/live''" by code_simp
  have b: "last (split_on (CHR ''/'') (Clean ''/srv/./dvr'')) \<noteq> ''..''" by code_simp
  from resolved_dir_stays_under_root [OF a b] a show ?thesis by simp
qed

text \<open>
  URLs and stored fragments name each other. A fragment, tick or init URL built from a valid profile,
  hour and track parses back to exactly its parts, so a player that follows the playlist or manifest asks
  for the fragment it was given.
\<close>

theorem blob_urls_roundtrip:
  assumes "validProfile p" and "validHourCompact h" and "parseTrack tok = Some tr" and "0 \<le> seq" and "seq < 2 ^ 63"
  shows "ParseFragmentName (fragment_uri p h tok seq) = Some (p, h, tr, seq) \<and>
    ParseTimeFragmentName (time_uri p tok ticks) = Some (p, tr, ticks) \<and>
    ParseInitName (init_uri p tok) = Some (p, tr) \<and>
    list_all IsBlobMediaFile [fragment_uri p h tok seq, time_uri p tok ticks, init_uri p tok]"
  using fragment_uri_parses [OF assms] time_uri_parses [OF assms(1,3)] init_uri_parses [OF assms(1,3)]
  by (simp add: IsBlobMediaFile_def name_consts fragment_uri_def time_uri_def init_uri_def)

theorem blob_urls_roundtrip_witness:
  "ParseFragmentName (fragment_uri ''p0'' ''2026030114'' ''1'' 7) = Some (''p0'', ''2026030114'', TrackAudio, 7)"
proof -
  have "validProfile ''p0''" "validHourCompact ''2026030114''" "parseTrack ''1'' = Some TrackAudio" by code_simp+
  from blob_urls_roundtrip [OF this, of 7 0] show ?thesis by simp
qed

text \<open>
  Hour keys sort by time. For hours from 1970 to 9999, an earlier hour has the lexicographically
  smaller key, and the compact form in a URL leads back to the key: what retention calls the oldest hour
  is the oldest one.
\<close>

theorem hour_keys_sort_by_time:
  assumes "0 \<le> h" and "h < h'" and "fst (civil (nat (h' div 24))) < 10000"
  shows "hourRel h < hourRel h' \<and> hourStemFromCompact (hour_compact (hourRel h')) = Some (hourRel h')"
  using hourRel_mono [OF assms] compact_roundtrip(1) [OF assms(3)] by blast

theorem hour_keys_sort_by_time_witness: "hourRel 0 = ''1970/01/01/00'' \<and> hourRel 47 = ''1970/01/02/23'' \<and> hourRel 0 < hourRel 47"
proof -
  have dg: "digit 0 = CHR ''0''" "digit (Suc 0) = CHR ''1''" "digit 2 = CHR ''2''" "digit 3 = CHR ''3''"
    "digit 7 = CHR ''7''" "digit 9 = CHR ''9''" by code_simp+
  have "hourRel 0 = ''1970/01/01/00''" "hourRel 47 = ''1970/01/02/23''" "fst (civil (nat (47 div 24))) < 10000"
    by (simp_all add: hourRel_def civil_def month_days_def zero_pad_def digits.simps dg numeral_2_eq_2 [symmetric])
  then show ?thesis using hour_keys_sort_by_time [of 0 47] by simp
qed

end
