(* ===== verification/Dash_Queue.thy ===== *)
theory Dash_Queue
  imports OS_Media
begin

text \<open>
  The DASH packager's frame queue, \<^verbatim>\<open>internal/publisher/dash/frame_queue.go\<close>: one FIFO per track, capped
  by time span and by length. Timestamps are \<^verbatim>\<open>uint64\<close> and kept at that width (\<open>64 word\<close>). The code has
  the push once per track; the locale \<open>capped_track\<close> states what both do and holds the lemmas.
\<close>

type_synonym u64 = "64 word"

record VideoFrame =
  vf_AnnexB :: "byte list"
  vf_PTSms :: u64
  vf_DTSms :: u64
  vf_IsIDR :: bool

record AudioFrame =
  af_Raw :: "byte list"
  af_PTSms :: u64

definition maxQueueSpanMs :: u64 where "maxQueueSpanMs = 30000"
definition videoFrameHardCap :: nat where "videoFrameHardCap = 3600"
definition audioFrameHardCap :: nat where "audioFrameHardCap = 3500"

record FrameQueue =
  q_video :: "VideoFrame list"
  q_audio :: "AudioFrame list"

definition NewFrameQueue :: FrameQueue where
  "NewFrameQueue = \<lparr>q_video = [], q_audio = []\<rparr>"

definition dropFrontVideo :: "VideoFrame list \<Rightarrow> nat \<Rightarrow> VideoFrame list" where
  "dropFrontVideo s n = (if n = 0 then s else if length s \<le> n then [] else drop n s)"

definition dropFrontAudio :: "AudioFrame list \<Rightarrow> nat \<Rightarrow> AudioFrame list" where
  "dropFrontAudio s n = (if n = 0 then s else if length s \<le> n then [] else drop n s)"

lemma dropFront_drop [simp]: "dropFrontVideo s n = drop n s" "dropFrontAudio t n = drop n t"
  by (simp_all add: dropFrontVideo_def dropFrontAudio_def)

subsection \<open>Pushing\<close>

fun trimVideoToSpan :: "u64 \<Rightarrow> VideoFrame list \<Rightarrow> nat \<times> VideoFrame list" where
  "trimVideoToSpan newPTSms [] = (0, [])"
| "trimVideoToSpan newPTSms (f # fs) =
     (if newPTSms < vf_PTSms f then (0, f # fs)
      else if newPTSms - vf_PTSms f \<le> maxQueueSpanMs then (0, f # fs)
      else (case trimVideoToSpan newPTSms (dropFrontVideo (f # fs) 1) of (d, s) \<Rightarrow> (Suc d, s)))"

fun trimAudioToSpan :: "u64 \<Rightarrow> AudioFrame list \<Rightarrow> nat \<times> AudioFrame list" where
  "trimAudioToSpan newPTSms [] = (0, [])"
| "trimAudioToSpan newPTSms (f # fs) =
     (if newPTSms < af_PTSms f then (0, f # fs)
      else if newPTSms - af_PTSms f \<le> maxQueueSpanMs then (0, f # fs)
      else (case trimAudioToSpan newPTSms (dropFrontAudio (f # fs) 1) of (d, s) \<Rightarrow> (Suc d, s)))"

text \<open>The queue afterwards, the number of frames dropped, the out-of-order flag.\<close>

definition push_video :: "VideoFrame \<Rightarrow> VideoFrame list \<Rightarrow> VideoFrame list \<times> nat \<times> bool" where
  "push_video f s =
     (case trimVideoToSpan (vf_PTSms f) s of (dropped, s1) \<Rightarrow>
        let extra = (if videoFrameHardCap \<le> length s1 then length s1 - videoFrameHardCap + 1 else 0);
            s2 = dropFrontVideo s1 extra;
            ooo = (s2 \<noteq> [] \<and> vf_PTSms f < vf_PTSms (last s2))
        in (s2 @ [f], dropped + extra, ooo))"

definition push_audio :: "AudioFrame \<Rightarrow> AudioFrame list \<Rightarrow> AudioFrame list \<times> nat \<times> bool" where
  "push_audio f s =
     (case trimAudioToSpan (af_PTSms f) s of (dropped, s1) \<Rightarrow>
        let extra = (if audioFrameHardCap \<le> length s1 then length s1 - audioFrameHardCap + 1 else 0);
            s2 = dropFrontAudio s1 extra;
            ooo = (s2 \<noteq> [] \<and> af_PTSms f < af_PTSms (last s2))
        in (s2 @ [f], dropped + extra, ooo))"

definition PushVideo :: "VideoFrame \<Rightarrow> FrameQueue \<Rightarrow> FrameQueue \<times> nat \<times> bool" where
  "PushVideo f q = (case push_video f (q_video q) of (s, r) \<Rightarrow> (q\<lparr>q_video := s\<rparr>, r))"

definition PushAudio :: "AudioFrame \<Rightarrow> FrameQueue \<Rightarrow> FrameQueue \<times> nat \<times> bool" where
  "PushAudio f q = (case push_audio f (q_audio q) of (s, r) \<Rightarrow> (q\<lparr>q_audio := s\<rparr>, r))"

subsection \<open>Queries and drains\<close>

definition VideoLen :: "FrameQueue \<Rightarrow> nat" where "VideoLen q = length (q_video q)"

definition AudioLen :: "FrameQueue \<Rightarrow> nat" where "AudioLen q = length (q_audio q)"

definition FirstVideo :: "FrameQueue \<Rightarrow> VideoFrame option" where
  "FirstVideo q = (if length (q_video q) = 0 then None else Some (q_video q ! 0))"

definition FirstAudio :: "FrameQueue \<Rightarrow> AudioFrame option" where
  "FirstAudio q = (if length (q_audio q) = 0 then None else Some (q_audio q ! 0))"

fun count_while :: "('a \<Rightarrow> bool) \<Rightarrow> 'a list \<Rightarrow> nat" where
  "count_while P [] = 0"
| "count_while P (x # xs) = (if P x then Suc (count_while P xs) else 0)"

definition TruncateBefore :: "u64 \<Rightarrow> FrameQueue \<Rightarrow> FrameQueue \<times> nat \<times> nat" where
  "TruncateBefore thresholdMS q =
     (let v = count_while (\<lambda>f. vf_PTSms f < thresholdMS) (q_video q);
          a = count_while (\<lambda>f. af_PTSms f < thresholdMS) (q_audio q)
      in (\<lparr>q_video = (if 0 < v then dropFrontVideo (q_video q) v else q_video q),
           q_audio = (if 0 < a then dropFrontAudio (q_audio q) a else q_audio q)\<rparr>, v, a))"

definition PopVideo :: "int \<Rightarrow> FrameQueue \<Rightarrow> FrameQueue \<times> VideoFrame list" where
  "PopVideo n q =
     (if n \<le> 0 \<or> q_video q = [] then (q, [])
      else let k = (if int (length (q_video q)) < n then length (q_video q) else nat n)
           in (q\<lparr>q_video := dropFrontVideo (q_video q) k\<rparr>, take k (q_video q)))"

definition PopAudio :: "int \<Rightarrow> FrameQueue \<Rightarrow> FrameQueue \<times> AudioFrame list" where
  "PopAudio n q =
     (if n \<le> 0 \<or> q_audio q = [] then (q, [])
      else let k = (if int (length (q_audio q)) < n then length (q_audio q) else nat n)
           in (q\<lparr>q_audio := dropFrontAudio (q_audio q) k\<rparr>, take k (q_audio q)))"

definition VideoSpanMS :: "FrameQueue \<Rightarrow> u64" where
  "VideoSpanMS q =
     (if length (q_video q) < 2 then 0
      else let first = vf_PTSms (q_video q ! 0); lst = vf_PTSms (q_video q ! (length (q_video q) - 1))
           in if lst \<le> first then 0 else lst - first)"

definition AudioSpanMS :: "FrameQueue \<Rightarrow> u64" where
  "AudioSpanMS q =
     (if length (q_audio q) < 2 then 0
      else let first = af_PTSms (q_audio q ! 0); lst = af_PTSms (q_audio q ! (length (q_audio q) - 1))
           in if lst \<le> first then 0 else lst - first)"

fun last_idr_from :: "VideoFrame list \<Rightarrow> nat \<Rightarrow> int" where
  "last_idr_from s 0 = -1"
| "last_idr_from s (Suc i) = (if vf_IsIDR (s ! i) then int i else last_idr_from s i)"

definition LastIDRIndex :: "FrameQueue \<Rightarrow> int" where
  "LastIDRIndex q = last_idr_from (q_video q) (length (q_video q))"

definition videoPTSAt :: "FrameQueue \<Rightarrow> int \<Rightarrow> u64 option" where
  "videoPTSAt q i = (if i < 0 \<or> int (length (q_video q)) \<le> i then None else Some (vf_PTSms (q_video q ! nat i)))"

definition videoAt :: "FrameQueue \<Rightarrow> int \<Rightarrow> VideoFrame option" where
  "videoAt q i = (if i < 0 \<or> int (length (q_video q)) \<le> i then None else Some (q_video q ! nat i))"

definition audioCountAtOrBefore :: "u64 \<Rightarrow> FrameQueue \<Rightarrow> nat" where
  "audioCountAtOrBefore thresholdMS q = count_while (\<lambda>f. af_PTSms f \<le> thresholdMS) (q_audio q)"

definition audioCountAtOrBeforeWithSkip :: "u64 \<Rightarrow> FrameQueue \<Rightarrow> nat \<times> nat" where
  "audioCountAtOrBeforeWithSkip thresholdMS q =
     (let n = count_while (\<lambda>f. af_PTSms f \<le> thresholdMS) (q_audio q)
      in (n, length (filter (\<lambda>f. af_PTSms f \<le> thresholdMS) (drop n (q_audio q)))))"

definition AudioTailPTSms :: "FrameQueue \<Rightarrow> u64 option" where
  "AudioTailPTSms q = (if q_audio q = [] then None else Some (af_PTSms (q_audio q ! (length (q_audio q) - 1))))"

definition VideoTailPTSms :: "FrameQueue \<Rightarrow> u64 option" where
  "VideoTailPTSms q = (if q_video q = [] then None else Some (vf_PTSms (q_video q ! (length (q_video q) - 1))))"

subsection \<open>What a capped push guarantees\<close>

text \<open>
  The contract of one track: a push keeps a suffix of the queue and the new frame; it drops while the
  oldest frame is too old, and one more than the overrun when the length cap is reached.
\<close>

definition too_old :: "('f \<Rightarrow> u64) \<Rightarrow> 'f \<Rightarrow> 'f \<Rightarrow> bool" where
  "too_old pts f g \<longleftrightarrow> \<not> pts f < pts g \<and> maxQueueSpanMs < pts f - pts g"

lemma word_minus_mono: "h \<le> g \<Longrightarrow> g \<le> f \<Longrightarrow> f - g \<le> f - (h :: u64)"
  by (simp add: word_le_nat_alt unat_sub)

locale capped_track =
  fixes pts :: "'f \<Rightarrow> u64" and cap :: nat and push :: "'f \<Rightarrow> 'f list \<Rightarrow> 'f list \<times> nat \<times> bool"
  assumes push_keeps: "fst (push f s) = drop (length (dropWhile (too_old pts f) s) - (cap - 1)) (dropWhile (too_old pts f) s) @ [f]"
    and push_dropped: "fst (snd (push f s)) + length (fst (push f s)) = Suc (length s)"
    and cap_pos: "0 < cap"
begin

lemma push_length: "length (fst (push f s)) \<le> cap"
  using cap_pos by (simp add: push_keeps)

lemma push_last: "last (fst (push f s)) = f" "fst (push f s) \<noteq> []"
  by (simp_all add: push_keeps)

lemma push_suffix: "\<exists>d. fst (push f s) = drop d s @ [f]"
  by (auto simp: push_keeps dropWhile_eq_drop)

lemma push_count: "fst (push f s) = drop (fst (snd (push f s))) s @ [f]"
proof -
  obtain d where d: "fst (push f s) = drop d s @ [f]" using push_suffix by blast
  have "fst (snd (push f s)) + (length s - d) = length s" using push_dropped [of f s] d by simp
  then have "d = fst (snd (push f s)) \<or> length s \<le> d \<and> length s \<le> fst (snd (push f s))" by linarith
  with d show ?thesis by auto
qed

text \<open>For a source whose timestamps do not go back, the whole queue lies within the span of the newest.\<close>

lemma push_window:
  assumes "sorted (map pts s)" and "\<forall>g \<in> set s. pts g \<le> pts f"
  shows "sorted (map pts (fst (push f s))) \<and> (\<forall>g \<in> set (fst (push f s)). pts f - pts g \<le> maxQueueSpanMs)"
proof -
  obtain d where d: "fst (push f s) = drop d s @ [f]" using push_suffix by blast
  have "sorted (map pts (drop d s))" using assms(1) by (simp add: drop_map [symmetric] sorted_wrt_drop)
  then have "sorted (map pts (fst (push f s)))"
    using d assms(2) by (auto simp: sorted_append dest: in_set_dropD)
  moreover have "pts f - pts g \<le> maxQueueSpanMs" if "g \<in> set (dropWhile (too_old pts f) s)" for g
  proof -
    from that obtain h hs where h: "dropWhile (too_old pts f) s = h # hs" by (cases "dropWhile (too_old pts f) s") auto
    then have "\<not> too_old pts f h" by (metis dropWhile_eq_Cons_conv)
    moreover have "h \<in> set s" using h by (metis list.set_intros(1) set_dropWhileD)
    ultimately have h1: "pts f - pts h \<le> maxQueueSpanMs" "pts h \<le> pts f"
      using assms(2) by (auto simp: too_old_def not_less)
    have "sorted (map pts (h # hs))" using assms(1) h by (metis dropWhile_eq_drop drop_map sorted_wrt_drop)
    then have "pts h \<le> pts g" using that h by auto
    moreover have "pts g \<le> pts f" using assms(2) that by (meson set_dropWhileD)
    ultimately have "pts f - pts g \<le> pts f - pts h" using h1(2) by (intro word_minus_mono)
    with h1(1) show ?thesis by simp
  qed
  ultimately show ?thesis by (auto simp: push_keeps maxQueueSpanMs_def dest: in_set_dropD)
qed

end


lemma trimVideo_eq:
  "trimVideoToSpan t s = (length (takeWhile (\<lambda>g. \<not> t < vf_PTSms g \<and> maxQueueSpanMs < t - vf_PTSms g) s),
     dropWhile (\<lambda>g. \<not> t < vf_PTSms g \<and> maxQueueSpanMs < t - vf_PTSms g) s)"
  by (induction t s rule: trimVideoToSpan.induct) auto

lemma trimAudio_eq:
  "trimAudioToSpan t s = (length (takeWhile (\<lambda>g. \<not> t < af_PTSms g \<and> maxQueueSpanMs < t - af_PTSms g) s),
     dropWhile (\<lambda>g. \<not> t < af_PTSms g \<and> maxQueueSpanMs < t - af_PTSms g) s)"
  by (induction t s rule: trimAudioToSpan.induct) auto

lemma takeWhile_dropWhile_length: "length (takeWhile P s) + length (dropWhile P s) = length s"
  by (metis length_append takeWhile_dropWhile_id)

lemma cap_extra: "0 < cap \<Longrightarrow> (if cap \<le> n then n - cap + 1 else 0) = n - (cap - (1::nat))"
  by auto

interpretation video_track: capped_track vf_PTSms videoFrameHardCap push_video
proof
  fix f :: VideoFrame and s :: "VideoFrame list"
  have pos: "0 < videoFrameHardCap" by (simp add: videoFrameHardCap_def)
  show "fst (push_video f s) = drop (length (dropWhile (too_old vf_PTSms f) s) - (videoFrameHardCap - 1))
      (dropWhile (too_old vf_PTSms f) s) @ [f]"
    by (simp add: push_video_def trimVideo_eq too_old_def [abs_def] Let_def cap_extra [OF pos] del: not_less not_le)
  show "fst (snd (push_video f s)) + length (fst (push_video f s)) = Suc (length s)"
    using takeWhile_dropWhile_length [of "\<lambda>g. \<not> vf_PTSms f < vf_PTSms g \<and> maxQueueSpanMs < vf_PTSms f - vf_PTSms g" s]
    by (simp add: push_video_def trimVideo_eq Let_def del: not_less not_le) (use pos in linarith)
  show "0 < videoFrameHardCap" by (rule pos)
qed

interpretation audio_track: capped_track af_PTSms audioFrameHardCap push_audio
proof
  fix f :: AudioFrame and s :: "AudioFrame list"
  have pos: "0 < audioFrameHardCap" by (simp add: audioFrameHardCap_def)
  show "fst (push_audio f s) = drop (length (dropWhile (too_old af_PTSms f) s) - (audioFrameHardCap - 1))
      (dropWhile (too_old af_PTSms f) s) @ [f]"
    by (simp add: push_audio_def trimAudio_eq too_old_def [abs_def] Let_def cap_extra [OF pos] del: not_less not_le)
  show "fst (snd (push_audio f s)) + length (fst (push_audio f s)) = Suc (length s)"
    using takeWhile_dropWhile_length [of "\<lambda>g. \<not> af_PTSms f < af_PTSms g \<and> maxQueueSpanMs < af_PTSms f - af_PTSms g" s]
    by (simp add: push_audio_def trimAudio_eq Let_def del: not_less not_le) (use pos in linarith)
  show "0 < audioFrameHardCap" by (rule pos)
qed

text \<open>
  pushing a video frame keeps the newest content and bounds the queue: the result is what remains
  of the queue after the reported number of oldest frames has been dropped, followed by the new frame,
  never longer than the cap; and for a source whose timestamps do not go back it stays sorted, with
  every frame within the span limit of the newest.
\<close>
theorem PushVideo_keeps_a_bounded_window:
  assumes "PushVideo f q = (q', dropped, ooo)"
  shows "q_video q' = drop dropped (q_video q) @ [f] \<and> q_audio q' = q_audio q \<and>
    length (q_video q') \<le> videoFrameHardCap \<and>
    (sorted (map vf_PTSms (q_video q)) \<and> (\<forall>g \<in> set (q_video q). vf_PTSms g \<le> vf_PTSms f) \<longrightarrow>
       \<not> ooo \<and> sorted (map vf_PTSms (q_video q')) \<and>
       (\<forall>g \<in> set (q_video q'). vf_PTSms f - vf_PTSms g \<le> maxQueueSpanMs))"
proof -
  obtain s where s: "push_video f (q_video q) = (s, dropped, ooo)" "q' = q\<lparr>q_video := s\<rparr>"
    using assms by (auto simp: PushVideo_def split: prod.splits)
  have ooo: "ooo \<Longrightarrow> \<exists>g \<in> set (q_video q). vf_PTSms f < vf_PTSms g"
  proof -
    assume ooo
    then have "\<exists>n P. drop n (dropWhile P (q_video q)) \<noteq> [] \<and>
        vf_PTSms f < vf_PTSms (last (drop n (dropWhile P (q_video q))))"
      using s(1) unfolding push_video_def trimVideo_eq Let_def dropFront_drop by (simp only: prod.case prod.inject) blast
    then show ?thesis by (meson in_set_dropD last_in_set set_dropWhileD)
  qed
  show ?thesis
    using video_track.push_count [of f "q_video q"] video_track.push_length [of f "q_video q"]
      video_track.push_window [of "q_video q" f] ooo s by force
qed

theorem PushVideo_keeps_a_bounded_window_witness:
  "q_video (fst (PushVideo \<lparr>vf_AnnexB = [], vf_PTSms = 40000, vf_DTSms = 0, vf_IsIDR = True\<rparr>
     \<lparr>q_video = [\<lparr>vf_AnnexB = [], vf_PTSms = 40, vf_DTSms = 0, vf_IsIDR = True\<rparr>], q_audio = []\<rparr>)) =
   [\<lparr>vf_AnnexB = [], vf_PTSms = 40000, vf_DTSms = 0, vf_IsIDR = True\<rparr>]"
proof -
  let ?f = "\<lparr>vf_AnnexB = [], vf_PTSms = 40000, vf_DTSms = 0, vf_IsIDR = True\<rparr>"
  let ?q = "\<lparr>q_video = [\<lparr>vf_AnnexB = [], vf_PTSms = 40, vf_DTSms = 0, vf_IsIDR = True\<rparr>], q_audio = []\<rparr>"
  have d: "fst (snd (PushVideo ?f ?q)) = 1" by code_simp
  obtain q' ooo where r: "PushVideo ?f ?q = (q', 1, ooo)" using d by (metis prod.collapse)
  from PushVideo_keeps_a_bounded_window [OF r] r show ?thesis by simp
qed

end
