(* ===== verification/Dash_Manifest.thy ===== *)
theory Dash_Manifest
  imports Dash_Queue OS_Text
begin

text \<open>
  The MPD manifest of the DASH packager, \<^verbatim>\<open>internal/publisher/dash/manifest.go\<close>, and the ABR master that
  combines the shards of a ladder, \<^verbatim>\<open>abr.go\<close>. The document is the record tree that the code hands to the
  XML encoder; the encoder itself is the standard library's and is left out. A wallclock attribute
  holds the seconds that RFC 3339 prints, \<open>None\<close> for the empty string of the zero time.
\<close>

record SegmentEntry =
  se_StartTicks :: u64
  se_DurTicks :: u64

record TrackManifest =
  tm_RepID :: string
  tm_Codec :: string
  tm_Bandwidth :: int
  tm_Width :: int
  tm_Height :: int
  tm_SampleRate :: int
  tm_Timescale :: "32 word"
  tm_InitFile :: string
  tm_MediaPattern :: string
  tm_StartNumber :: u64
  tm_Segments :: "SegmentEntry list"
  tm_PTO :: u64

record ManifestInput =
  mi_AvailabilityStart :: "gotime option"
  mi_PublishTime :: "gotime option"
  mi_SegDur :: duration
  mi_Window :: int
  mi_Video :: "TrackManifest list"
  mi_Audio :: "TrackManifest option"
  mi_Static :: bool
  mi_MediaPresentationDuration :: duration

record mpdSTimeline =
  st_T :: u64
  st_D :: u64

record mpdSegmentTemplate =
  stp_Timescale :: int
  stp_PTO :: u64
  stp_Initialization :: string
  stp_Media :: string
  stp_StartNumber :: int
  stp_Timeline :: "mpdSTimeline list option"

record mpdRepresentation =
  rep_ID :: string
  rep_MimeType :: string
  rep_Codecs :: string
  rep_Bandwidth :: int
  rep_Width :: int
  rep_Height :: int
  rep_AudioSamplingRate :: "int option"
  rep_SegmentTemplate :: mpdSegmentTemplate

record mpdAdaptationSet =
  as_ID :: string
  as_ContentType :: string
  as_MimeType :: string
  as_SegmentAlignment :: string
  as_StartWithSAP :: string
  as_Representations :: "mpdRepresentation list"

record mpdPeriod =
  per_ID :: string
  per_Start :: string
  per_Duration :: string
  per_AdaptationSets :: "mpdAdaptationSet list"

record mpdUTCTiming =
  utc_SchemeIDURI :: string
  utc_Value :: "int option"

record mpdRoot =
  mpd_XMLNS :: string
  mpd_Type :: string
  mpd_Profiles :: string
  mpd_MinBuffer :: string
  mpd_MediaPresentationDuration :: string
  mpd_SuggestedPresentationDelay :: string
  mpd_MaxSegmentDuration :: string
  mpd_AvailabilityStartTime :: "int option"
  mpd_MinUpdate :: string
  mpd_BufferDepth :: string
  mpd_PublishTime :: "int option"
  mpd_Periods :: "mpdPeriod list"
  mpd_UTCTiming :: "mpdUTCTiming option"

definition durationISO :: "int \<Rightarrow> string" where
  "durationISO secs = ''PT'' @ show_int secs @ ''S''"

text \<open>\<^verbatim>\<open>strings.TrimRight(s, "0")\<close>.\<close>

definition trim_zeros :: "string \<Rightarrow> string" where
  "trim_zeros s = rev (dropWhile (\<lambda>c. c = CHR ''0'') (rev s))"

definition durationISOFractional :: "duration \<Rightarrow> string" where
  "durationISOFractional d =
     (if d \<le> 0 then ''PT0S''
      else
        let ms = go_div d (millis 1); sec = ms div 1000; frac = ms mod 1000 in
        if frac = 0 then ''PT'' @ show_int sec @ ''S''
        else ''PT'' @ show_int sec @ ''.'' @ trim_zeros (zero_pad 3 (nat frac)) @ ''S'')"

definition formatRFC3339 :: "gotime option \<Rightarrow> int option" where
  "formatRFC3339 t = map_option (\<lambda>ns. ns div seconds 1) t"

text \<open>The longest listed segment in whole seconds, rounded up.\<close>

definition scan_track :: "TrackManifest \<Rightarrow> int \<Rightarrow> int" where
  "scan_track t maxSec =
     (if tm_Timescale t = 0 then maxSec
      else fold (\<lambda>s m. let secs = sint ((se_DurTicks s + ucast (tm_Timescale t) - 1) div ucast (tm_Timescale t))
                       in if m < secs then secs else m) (tm_Segments t) maxSec)"

definition longestObservedSegSec :: "ManifestInput \<Rightarrow> int" where
  "longestObservedSegSec inp =
     (let m = fold scan_track (mi_Video inp) 0
      in case mi_Audio inp of None \<Rightarrow> m | Some t \<Rightarrow> scan_track t m)"

definition buildSegTimeline :: "SegmentEntry list \<Rightarrow> mpdSTimeline list option" where
  "buildSegTimeline segs =
     (if length segs = 0 then None
      else Some (map (\<lambda>s. \<lparr>st_T = se_StartTicks s, st_D = se_DurTicks s\<rparr>) (filter (\<lambda>s. se_DurTicks s \<noteq> 0) segs)))"

definition seg_template :: "TrackManifest \<Rightarrow> mpdSegmentTemplate" where
  "seg_template t =
     \<lparr>stp_Timescale = uint (tm_Timescale t), stp_PTO = tm_PTO t, stp_Initialization = tm_InitFile t,
      stp_Media = tm_MediaPattern t, stp_StartNumber = sint (tm_StartNumber t),
      stp_Timeline = buildSegTimeline (tm_Segments t)\<rparr>"

definition buildVideoAdaptationSet :: "TrackManifest list \<Rightarrow> mpdAdaptationSet option" where
  "buildVideoAdaptationSet reps =
     (let mpdReps = map (\<lambda>t. \<lparr>rep_ID = tm_RepID t, rep_MimeType = ''video/mp4'', rep_Codecs = tm_Codec t,
            rep_Bandwidth = tm_Bandwidth t, rep_Width = tm_Width t, rep_Height = tm_Height t,
            rep_AudioSamplingRate = None, rep_SegmentTemplate = seg_template t\<rparr>)
          (filter (\<lambda>t. length (tm_Segments t) \<noteq> 0) reps)
      in if length mpdReps = 0 then None
         else Some \<lparr>as_ID = ''0'', as_ContentType = ''video'', as_MimeType = ''video/mp4'',
            as_SegmentAlignment = ''true'', as_StartWithSAP = ''1'', as_Representations = mpdReps\<rparr>)"

definition buildAudioAdaptationSet :: "TrackManifest option \<Rightarrow> mpdAdaptationSet option" where
  "buildAudioAdaptationSet ot =
     (case ot of
        None \<Rightarrow> None
      | Some t \<Rightarrow>
          if length (tm_Segments t) = 0 then None
          else Some \<lparr>as_ID = ''1'', as_ContentType = ''audio'', as_MimeType = ''audio/mp4'',
            as_SegmentAlignment = ''true'', as_StartWithSAP = ''1'',
            as_Representations = [\<lparr>rep_ID = tm_RepID t, rep_MimeType = ''audio/mp4'', rep_Codecs = tm_Codec t,
              rep_Bandwidth = tm_Bandwidth t, rep_Width = 0, rep_Height = 0,
              rep_AudioSamplingRate = Some (tm_SampleRate t), rep_SegmentTemplate = seg_template t\<rparr>]\<rparr>)"

definition min_buffer_sec :: "ManifestInput \<Rightarrow> int \<Rightarrow> int" where
  "min_buffer_sec inp segSec = (if segSec * 2 < longestObservedSegSec inp then longestObservedSegSec inp else segSec * 2)"

definition max_seg_dur_sec :: "ManifestInput \<Rightarrow> int \<Rightarrow> int" where
  "max_seg_dur_sec inp segSec = (if segSec * 3 < longestObservedSegSec inp then longestObservedSegSec inp else segSec * 3)"

definition seg_sec :: "ManifestInput \<Rightarrow> int" where
  "seg_sec inp = (let s = go_div (mi_SegDur inp) (seconds 1) in if s < 1 then 1 else s)"

definition buildMPDDoc :: "ManifestInput \<Rightarrow> mpdRoot option" where
  "buildMPDDoc inp =
     (let segSec = seg_sec inp;
          sets = (case buildVideoAdaptationSet (mi_Video inp) of None \<Rightarrow> [] | Some a \<Rightarrow> [a]) @
                 (case buildAudioAdaptationSet (mi_Audio inp) of None \<Rightarrow> [] | Some a \<Rightarrow> [a]);
          total = durationISOFractional (mi_MediaPresentationDuration inp);
          doc = \<lparr>mpd_XMLNS = ''urn:mpeg:dash:schema:mpd:2011'', mpd_Type = '''', mpd_Profiles = '''',
            mpd_MinBuffer = durationISO (min_buffer_sec inp segSec), mpd_MediaPresentationDuration = '''',
            mpd_SuggestedPresentationDelay = '''', mpd_MaxSegmentDuration = durationISO (max_seg_dur_sec inp segSec),
            mpd_AvailabilityStartTime = None, mpd_MinUpdate = '''', mpd_BufferDepth = '''', mpd_PublishTime = None,
            mpd_Periods = [\<lparr>per_ID = ''0'', per_Start = ''PT0S'',
              per_Duration = (if mi_Static inp then total else ''''), per_AdaptationSets = sets\<rparr>],
            mpd_UTCTiming = None\<rparr>;
          doc2 =
            (if mi_Static inp
             then doc\<lparr>mpd_Type := ''static'', mpd_Profiles := ''urn:mpeg:dash:profile:isoff-main:2011'',
               mpd_MediaPresentationDuration := total\<rparr>
             else doc\<lparr>mpd_Type := ''dynamic'', mpd_Profiles := ''urn:mpeg:dash:profile:isoff-live:2011'',
               mpd_SuggestedPresentationDelay := durationISO (segSec * 3),
               mpd_AvailabilityStartTime := formatRFC3339 (mi_AvailabilityStart inp),
               mpd_MinUpdate := durationISO segSec, mpd_BufferDepth := durationISO (segSec * mi_Window inp),
               mpd_PublishTime := formatRFC3339 (mi_PublishTime inp),
               mpd_UTCTiming := Some \<lparr>utc_SchemeIDURI = ''urn:mpeg:dash:utc:direct:2014'',
                 utc_Value = formatRFC3339 (mi_PublishTime inp)\<rparr>\<rparr>)
      in if sets = [] then None else Some doc2)"

text \<open>\<^verbatim>\<open>BuildManifest\<close> up to the XML encoder: nothing to write, or the document.\<close>

abbreviation BuildManifest :: "ManifestInput \<Rightarrow> mpdRoot option" where
  "BuildManifest \<equiv> buildMPDDoc"

subsection \<open>The ABR master\<close>

record ShardSnapshot =
  sh_Slug :: string
  sh_AvailabilityStart :: "gotime option"
  sh_Video :: "TrackManifest option"
  sh_Audio :: "TrackManifest option"

text \<open>\<open>am_root\<close> is the root MPD on disk, \<open>am_debounce\<close> whether the flush timer is armed.\<close>

record ABRMaster =
  am_segDur :: duration
  am_window :: int
  am_shards :: "(string \<times> ShardSnapshot) list"
  am_sharedAST :: "gotime option"
  am_debounce :: bool
  am_stopped :: bool
  am_root :: "mpdRoot option"

definition NewABRMaster :: "duration \<Rightarrow> int \<Rightarrow> ABRMaster" where
  "NewABRMaster segDur window =
     \<lparr>am_segDur = segDur, am_window = window, am_shards = [], am_sharedAST = None, am_debounce = False,
      am_stopped = False, am_root = None\<rparr>"

definition SharedAST :: "gotime option \<Rightarrow> ABRMaster \<Rightarrow> gotime option \<times> ABRMaster" where
  "SharedAST candidate m =
     (let m1 = (if am_sharedAST m = None \<and> candidate \<noteq> None then m\<lparr>am_sharedAST := candidate\<rparr> else m)
      in (am_sharedAST m1, m1))"

definition UpdateShard :: "ShardSnapshot \<Rightarrow> ABRMaster \<Rightarrow> ABRMaster" where
  "UpdateShard snap m =
     (if sh_Slug snap = '''' then m
      else if am_stopped m then m
      else m\<lparr>am_shards := gput (sh_Slug snap) snap (am_shards m), am_debounce := True\<rparr>)"

definition combine_step :: "ShardSnapshot \<Rightarrow> ManifestInput \<Rightarrow> ManifestInput" where
  "combine_step s inp =
     (let in1 = (case sh_Video s of
            Some v \<Rightarrow> if 0 < length (tm_Segments v) then inp\<lparr>mi_Video := mi_Video inp @ [v]\<rparr> else inp
          | None \<Rightarrow> inp);
          in2 = (if mi_AvailabilityStart in1 = None \<and> sh_AvailabilityStart s \<noteq> None
                 then in1\<lparr>mi_AvailabilityStart := sh_AvailabilityStart s\<rparr> else in1)
      in if mi_Audio in2 = None
         then (case sh_Audio s of
             Some a \<Rightarrow> if 0 < length (tm_Segments a) then in2\<lparr>mi_Audio := Some a\<rparr> else in2
           | None \<Rightarrow> in2)
         else in2)"

definition combineSnapshots :: "ShardSnapshot list \<Rightarrow> duration \<Rightarrow> int \<Rightarrow> ManifestInput option" where
  "combineSnapshots snaps segDur window =
     (let inp = fold combine_step snaps
        \<lparr>mi_AvailabilityStart = None, mi_PublishTime = None, mi_SegDur = segDur, mi_Window = window,
         mi_Video = [], mi_Audio = None, mi_Static = False, mi_MediaPresentationDuration = 0\<rparr>
      in if length (mi_Video inp) = 0 \<and> mi_Audio inp = None then None else Some inp)"

text \<open>The map is ranged in any order and then sorted by slug. \<open>ok\<close> is whether the file could be written.\<close>

definition flushRoot :: "gotime \<Rightarrow> bool \<Rightarrow> ABRMaster \<Rightarrow> ABRMaster" where
  "flushRoot now ok m =
     (if length (am_shards m) = 0 then m
      else
        case combineSnapshots (sort_key sh_Slug (map snd (am_shards m))) (am_segDur m) (am_window m) of
          None \<Rightarrow> m
        | Some inp \<Rightarrow>
            (case BuildManifest (inp\<lparr>mi_PublishTime := Some now\<rparr>) of
               None \<Rightarrow> m
             | Some doc \<Rightarrow> if ok then m\<lparr>am_root := Some doc\<rparr> else m))"

definition DebounceFires :: "gotime \<Rightarrow> bool \<Rightarrow> ABRMaster \<Rightarrow> ABRMaster" where
  "DebounceFires now ok m = (if am_debounce m then flushRoot now ok (m\<lparr>am_debounce := False\<rparr>) else m)"

definition StopMaster :: "gotime \<Rightarrow> bool \<Rightarrow> ABRMaster \<Rightarrow> ABRMaster" where
  "StopMaster now ok m = flushRoot now ok (m\<lparr>am_debounce := False, am_stopped := True\<rparr>)"

subsection \<open>The announced durations cover what is listed\<close>

definition listed :: "ManifestInput \<Rightarrow> TrackManifest set" where
  "listed inp = set (mi_Video inp) \<union> set_option (mi_Audio inp)"

lemma fold_max_ge:
  fixes f :: "'a \<Rightarrow> int"
  shows "m \<le> fold (\<lambda>s m. let secs = f s in if m < secs then secs else m) segs m"
proof (induction segs arbitrary: m)
  case (Cons s segs)
  have "m \<le> (if m < f s then f s else m)" by simp
  also have "\<dots> \<le> fold (\<lambda>s m. let secs = f s in if m < secs then secs else m) segs (if m < f s then f s else m)"
    by (rule Cons.IH)
  finally show ?case by (simp add: Let_def)
qed simp

lemma fold_max_mem:
  fixes f :: "'a \<Rightarrow> int"
  shows "s \<in> set segs \<Longrightarrow> f s \<le> fold (\<lambda>s m. let secs = f s in if m < secs then secs else m) segs m"
proof (induction segs arbitrary: m)
  case (Cons x segs)
  have "f x \<le> (if m < f x then f x else m)" by simp
  also note fold_max_ge [of _ f segs]
  finally show ?case using Cons by (cases "s = x") (simp_all add: Let_def)
qed simp

lemma scan_track_ge: "m \<le> scan_track t m"
  by (simp add: scan_track_def fold_max_ge)

lemma seconds_cover:
  fixes d :: u64 and ts :: "32 word"
  assumes "unat d < 2 ^ 62" and "ts \<noteq> 0"
  shows "int (unat d) \<le> sint ((d + ucast ts - 1) div ucast ts) * uint ts"
proof -
  have t: "0 < unat ts" "unat ts < 2 ^ 32" using assms(2) unat_gt_0 unsigned_less [of ts] by auto
  have u: "unat (ucast ts :: u64) = unat ts" using t(2) by (simp add: unsigned_ucast_eq take_bit_nat_eq_self)
  have add: "unat (d + ucast ts) = unat d + unat ts"
    using assms(1) t u by (simp add: unat_word_ariths)
  have ge1: "1 \<le> d + ucast ts" using add t by (simp add: word_le_nat_alt)
  have n: "unat (d + ucast ts - 1) = unat d + unat ts - 1"
    using unat_sub [OF ge1] add by simp
  have q: "unat ((d + ucast ts - 1) div ucast ts) = (unat d + unat ts - 1) div unat ts"
    by (simp add: unat_div n u)
  have "unat d + unat ts - 1 < 2 ^ 63" using assms(1) t by simp
  then have small: "unat ((d + ucast ts - 1) div ucast ts) < 2 ^ 63"
    unfolding q by (rule le_less_trans [OF div_le_dividend])
  have "unat d + unat ts - 1 = unat ts * ((unat d + unat ts - 1) div unat ts) + (unat d + unat ts - 1) mod unat ts" by simp
  moreover have "(unat d + unat ts - 1) mod unat ts \<le> unat ts - 1"
    using mod_less_divisor [OF t(1), of "unat d + unat ts - 1"] by linarith
  ultimately have "unat d \<le> unat ts * ((unat d + unat ts - 1) div unat ts)" using t(1) by linarith
  then have "int (unat d) \<le> int ((unat d + unat ts - 1) div unat ts) * int (unat ts)"
    by (metis mult.commute of_nat_le_iff of_nat_mult)
  then show ?thesis using sint_small [OF small] q by simp
qed

lemma longest_covers:
  assumes "t \<in> listed inp" and "s \<in> set (tm_Segments t)" and "tm_Timescale t \<noteq> 0" and "unat (se_DurTicks s) < 2 ^ 62"
  shows "int (unat (se_DurTicks s)) \<le> longestObservedSegSec inp * uint (tm_Timescale t)"
proof -
  let ?secs = "sint ((se_DurTicks s + ucast (tm_Timescale t) - 1) div ucast (tm_Timescale t))"
  have here: "?secs \<le> scan_track t m" for m
    using fold_max_mem [OF assms(2), of "\<lambda>s. sint ((se_DurTicks s + ucast (tm_Timescale t) - 1) div ucast (tm_Timescale t))"] assms(3)
    by (simp add: scan_track_def)
  have ge: "m \<le> fold scan_track ts m" for ts m
    by (induction ts arbitrary: m) (auto intro: order_trans [OF scan_track_ge])
  have video: "?secs \<le> fold scan_track ts m" if "t \<in> set ts" for ts m
    using that
  proof (induction ts arbitrary: m)
    case (Cons x ts)
    then show ?case using order_trans [OF here ge] by auto
  qed simp
  have "?secs \<le> longestObservedSegSec inp"
    using assms(1) video [of "mi_Video inp" 0] here order_trans [OF _ scan_track_ge]
    by (auto simp: listed_def longestObservedSegSec_def Let_def split: option.split)
  then have "?secs * uint (tm_Timescale t) \<le> longestObservedSegSec inp * uint (tm_Timescale t)"
    by (intro mult_right_mono) simp_all
  with seconds_cover [OF assms(4,3)] show ?thesis by simp
qed

text \<open>
  the manifest does not understate its segments: whatever target duration is configured, the
  announced maximum segment duration and the minimum buffer time are both at least the duration of every
  segment that any track lists, in that track's own timescale.
\<close>
theorem mpd_covers_longest_segment:
  assumes "buildMPDDoc inp = Some doc" and "t \<in> listed inp" and "s \<in> set (tm_Segments t)"
    and "tm_Timescale t \<noteq> 0" and "unat (se_DurTicks s) < 2 ^ 62"
  shows "\<exists>n k. mpd_MaxSegmentDuration doc = durationISO n \<and> int (unat (se_DurTicks s)) \<le> n * uint (tm_Timescale t) \<and>
    mpd_MinBuffer doc = durationISO k \<and> int (unat (se_DurTicks s)) \<le> k * uint (tm_Timescale t)"
proof -
  let ?n = "max_seg_dur_sec inp (seg_sec inp)" and ?k = "min_buffer_sec inp (seg_sec inp)"
  have doc: "mpd_MaxSegmentDuration doc = durationISO ?n" "mpd_MinBuffer doc = durationISO ?k"
    using assms(1) by (auto simp: buildMPDDoc_def Let_def split: if_splits)
  have "longestObservedSegSec inp \<le> ?n" "longestObservedSegSec inp \<le> ?k"
    by (simp_all add: max_seg_dur_sec_def min_buffer_sec_def)
  then have "longestObservedSegSec inp * uint (tm_Timescale t) \<le> ?n * uint (tm_Timescale t)"
    "longestObservedSegSec inp * uint (tm_Timescale t) \<le> ?k * uint (tm_Timescale t)"
    by (intro mult_right_mono; simp)+
  with longest_covers [OF assms(2-5)] doc show ?thesis by (intro exI [of _ ?n] exI [of _ ?k]) linarith
qed

definition video_track_of :: "SegmentEntry list \<Rightarrow> TrackManifest" where
  "video_track_of segs = \<lparr>tm_RepID = ''v0'', tm_Codec = ''avc1'', tm_Bandwidth = 5000000, tm_Width = 1920,
     tm_Height = 1080, tm_SampleRate = 0, tm_Timescale = 90000, tm_InitFile = ''init_v.mp4'',
     tm_MediaPattern = ''seg_v'', tm_StartNumber = 7, tm_Segments = segs, tm_PTO = 0\<rparr>"

definition one_track_input :: "SegmentEntry list \<Rightarrow> ManifestInput" where
  "one_track_input segs = \<lparr>mi_AvailabilityStart = Some 0, mi_PublishTime = Some 0, mi_SegDur = seconds 2,
     mi_Window = 6, mi_Video = [video_track_of segs], mi_Audio = None, mi_Static = False, mi_MediaPresentationDuration = 0\<rparr>"

theorem mpd_covers_longest_segment_witness:
  "\<exists>n. mpd_MaxSegmentDuration (the (buildMPDDoc (one_track_input [\<lparr>se_StartTicks = 0, se_DurTicks = 715000\<rparr>]))) = durationISO n
     \<and> 715000 \<le> n * 90000"
proof -
  let ?segs = "[\<lparr>se_StartTicks = 0, se_DurTicks = 715000\<rparr>]"
  obtain doc where doc: "buildMPDDoc (one_track_input ?segs) = Some doc"
    by (simp add: buildMPDDoc_def buildVideoAdaptationSet_def one_track_input_def video_track_of_def Let_def)
  have "video_track_of ?segs \<in> listed (one_track_input ?segs)" by (simp add: listed_def one_track_input_def)
  from mpd_covers_longest_segment [OF doc this, of "\<lparr>se_StartTicks = 0, se_DurTicks = 715000\<rparr>"]
  show ?thesis by (auto simp: doc video_track_of_def)
qed

subsection \<open>The root manifest does not depend on the map order\<close>

definition shards_keyed :: "ABRMaster \<Rightarrow> bool" where
  "shards_keyed m \<longleftrightarrow> gwf (am_shards m) \<and> list_all (\<lambda>(k, s). sh_Slug s = k) (am_shards m)"

lemma UpdateShard_keyed: "shards_keyed m \<Longrightarrow> shards_keyed (UpdateShard snap m)"
  by (auto simp: shards_keyed_def UpdateShard_def list_all_iff dest!: gput_mem split: prod.splits)

lemma snaps_sorted_unique:
  assumes "shards_keyed m" and "shards_keyed m'" and "mset (am_shards m) = mset (am_shards m')"
  shows "sort_key sh_Slug (map snd (am_shards m)) = sort_key sh_Slug (map snd (am_shards m'))"
proof (rule sort_key_inj_key_eq)
  show "mset (map snd (am_shards m)) = mset (sort_key sh_Slug (map snd (am_shards m')))"
    using assms(3) by simp
  have "map sh_Slug (map snd (am_shards m)) = map fst (am_shards m)"
    using assms(1) by (auto simp: shards_keyed_def list_all_iff)
  then have "distinct (map sh_Slug (map snd (am_shards m)))" using assms(1) by (simp only: shards_keyed_def)
  then show "inj_on sh_Slug (set (map snd (am_shards m)))"
    using distinct_map [of sh_Slug "map snd (am_shards m)"] by blast
  show "sorted (map sh_Slug (sort_key sh_Slug (map snd (am_shards m'))))" by simp
qed

text \<open>
  the root manifest of a ladder does not depend on the order in which Go ranges over the shard map:
  two masters with the same configuration and the same shards, listed in any order, write the same
  document.
\<close>
theorem root_manifest_is_order_independent:
  assumes "shards_keyed m" and "mset shards' = mset (am_shards m)"
  shows "am_root (flushRoot now ok (m\<lparr>am_shards := shards'\<rparr>)) = am_root (flushRoot now ok m)"
proof -
  let ?m = "m\<lparr>am_shards := shards'\<rparr>"
  have "mset (map fst shards') = mset (map fst (am_shards m))" using assms(2) by simp
  from mset_eq_imp_distinct_iff [OF this] have d: "gwf shards'" using assms(1) by (simp add: shards_keyed_def)
  have "set shards' = set (am_shards m)" using assms(2) by (rule mset_eq_setD)
  with d assms(1) have k: "shards_keyed ?m" by (simp add: shards_keyed_def list_all_iff)
  have "sort_key sh_Slug (map snd shards') = sort_key sh_Slug (map snd (am_shards m))"
    using snaps_sorted_unique [OF k assms(1)] assms(2) by simp
  moreover have "length shards' = length (am_shards m)" using assms(2) by (metis size_mset)
  ultimately show ?thesis by (simp add: flushRoot_def split: option.split)
qed

theorem root_manifest_is_order_independent_witness:
  "am_root (flushRoot 0 True ((NewABRMaster (seconds 2) 6)\<lparr>am_shards :=
      [(''b'', \<lparr>sh_Slug = ''b'', sh_AvailabilityStart = Some 5, sh_Video = None, sh_Audio = None\<rparr>),
       (''a'', \<lparr>sh_Slug = ''a'', sh_AvailabilityStart = Some 5, sh_Video = Some (video_track_of [\<lparr>se_StartTicks = 0, se_DurTicks = 9\<rparr>]), sh_Audio = None\<rparr>)]\<rparr>))
   = am_root (flushRoot 0 True ((NewABRMaster (seconds 2) 6)\<lparr>am_shards :=
      [(''a'', \<lparr>sh_Slug = ''a'', sh_AvailabilityStart = Some 5, sh_Video = Some (video_track_of [\<lparr>se_StartTicks = 0, se_DurTicks = 9\<rparr>]), sh_Audio = None\<rparr>),
       (''b'', \<lparr>sh_Slug = ''b'', sh_AvailabilityStart = Some 5, sh_Video = None, sh_Audio = None\<rparr>)]\<rparr>))"
proof -
  let ?a = "\<lparr>sh_Slug = ''a'', sh_AvailabilityStart = Some 5, sh_Video = Some (video_track_of [\<lparr>se_StartTicks = 0, se_DurTicks = 9\<rparr>]), sh_Audio = None\<rparr>"
  let ?b = "\<lparr>sh_Slug = ''b'', sh_AvailabilityStart = Some 5, sh_Video = None, sh_Audio = None\<rparr>"
  let ?m = "(NewABRMaster (seconds 2) 6)\<lparr>am_shards := [(''a'', ?a), (''b'', ?b)]\<rparr>"
  have "shards_keyed ?m" by (simp add: shards_keyed_def)
  moreover have "mset [(''b'', ?b), (''a'', ?a)] = mset (am_shards ?m)" by simp
  ultimately have "am_root (flushRoot 0 True (?m\<lparr>am_shards := [(''b'', ?b), (''a'', ?a)]\<rparr>)) = am_root (flushRoot 0 True ?m)"
    by (rule root_manifest_is_order_independent)
  then show ?thesis by simp
qed

end
