(* ===== verification/Dash_Bytes.thy ===== *)
theory Dash_Bytes
  imports Dash_Queue
begin

text \<open>
  Byte streams of the DASH packager: transport-stream alignment and the demuxer's pipe
  (\<^verbatim>\<open>internal/publisher/dash/demux.go\<close>), NAL units (\<^verbatim>\<open>nalu.go\<close>) and bundled AAC frames
  (\<^verbatim>\<open>splitADTSBundle\<close> of \<^verbatim>\<open>packager.go\<close>). The ADTS header decoder is a library function and a
  parameter.
\<close>

subsection \<open>Transport-stream alignment\<close>

text \<open>\<^verbatim>\<open>bytes.IndexByte\<close>.\<close>

fun index_byte :: "byte \<Rightarrow> byte list \<Rightarrow> nat option" where
  "index_byte b [] = None"
| "index_byte b (x # xs) = (if x = b then Some 0 else map_option Suc (index_byte b xs))"

definition resync :: "byte list \<Rightarrow> byte list option" where
  "resync carry =
     (if hd carry \<noteq> 0x47
      then (case index_byte 0x47 carry of None \<Rightarrow> None | Some i \<Rightarrow> Some (drop i carry))
      else Some carry)"

lemma index_byte_drop:
  "index_byte b xs = Some i \<Longrightarrow> drop i xs = dropWhile (\<lambda>x. x \<noteq> b) xs \<and> drop i xs \<noteq> [] \<and> hd (drop i xs) = b"
  by (induction xs arbitrary: i) (auto split: if_splits)

lemma resync_spec:
  assumes "resync carry = Some c" and "carry \<noteq> []"
  shows "c = dropWhile (\<lambda>x. x \<noteq> 0x47) carry" and "c \<noteq> []" and "hd c = 0x47"
  using assms index_byte_drop [of "0x47" carry]
  by (cases carry; auto simp: resync_def split: if_splits option.splits)+

lemma resync_length: "resync carry = Some c \<Longrightarrow> carry \<noteq> [] \<Longrightarrow> length c \<le> length carry"
  using resync_spec(1) by (metis length_dropWhile_le)

function align_loop :: "byte list \<Rightarrow> byte list \<Rightarrow> byte list \<times> byte list" where
  "align_loop carry aligned =
     (if length carry < 188 then (carry, aligned)
      else case resync carry of
          None \<Rightarrow> (drop (length carry - 187) carry, aligned)
        | Some c \<Rightarrow>
            if length c < 188 then (c, aligned)
            else if 376 \<le> length c \<and> c ! 188 \<noteq> 0x47 then align_loop (tl c) aligned
            else align_loop (drop 188 c) (aligned @ take 188 c))"
  by pat_completeness auto
termination
proof (relation "measure (length \<circ> fst)", goal_cases)
  case (2 carry aligned c)
  then have "carry \<noteq> []" by auto
  then have "length c \<le> length carry" using 2 by (intro resync_length)
  with 2 show ?case by simp linarith
next
  case (3 carry aligned c)
  then have "carry \<noteq> []" by auto
  with 3 resync_length [of carry c] show ?case by simp
qed simp

declare align_loop.simps [simp del]

text \<open>The new carry and the aligned bytes.\<close>

definition alignTS :: "byte list \<Rightarrow> byte list \<Rightarrow> byte list \<times> byte list" where
  "alignTS carry chunk = align_loop (carry @ chunk) []"

definition ts_packet :: "byte list \<Rightarrow> bool" where
  "ts_packet p \<longleftrightarrow> length p = 188 \<and> hd p = 0x47"

lemma align_loop_packets:
  "list_all ts_packet ps \<Longrightarrow> aligned = concat ps \<Longrightarrow> align_loop carry aligned = (r, out) \<Longrightarrow>
   \<exists>qs. list_all ts_packet qs \<and> out = aligned @ concat qs \<and> length r < 188 \<and> subseq (concat qs @ r) carry"
proof (induction carry aligned arbitrary: ps rule: align_loop.induct)
  case (1 carry aligned)
  show ?case
  proof (cases "length carry < 188")
    case True
    with 1 show ?thesis by (intro exI [of _ "[]"]) (auto simp: align_loop.simps)
  next
    case long: False
    then have ne: "carry \<noteq> []" by auto
    show ?thesis
    proof (cases "resync carry")
      case None
      with long 1(5) have "out = aligned" "r = drop (length carry - 187) carry" by (auto simp: align_loop.simps)
      then show ?thesis using long
        by (intro exI [of _ "[]"]) (simp add: suffix_imp_subseq suffix_drop)
    next
      case (Some c)
      note c = resync_spec [OF Some ne]
      have sub: "subseq c carry" unfolding c(1) by (intro suffix_imp_subseq suffix_dropWhile)
      consider (short) "length c < 188" | (skip) "\<not> length c < 188" "376 \<le> length c \<and> c ! 188 \<noteq> 0x47"
        | (take) "\<not> length c < 188" "\<not> (376 \<le> length c \<and> c ! 188 \<noteq> 0x47)" by blast
      then show ?thesis
      proof cases
        case short
        with long Some 1(5) have "out = aligned" "r = c" by (auto simp: align_loop.simps)
        with short sub show ?thesis by (intro exI [of _ "[]"]) auto
      next
        case skip
        with long Some 1(5) have "align_loop (tl c) aligned = (r, out)" by (subst (asm) align_loop.simps) simp
        from 1(1) [OF long Some skip 1(3,4) this] obtain qs where
          qs: "list_all ts_packet qs" "out = aligned @ concat qs" "length r < 188" "subseq (concat qs @ r) (tl c)" by blast
        have "subseq (tl c) c" by (cases c) auto
        with qs(4) sub have "subseq (concat qs @ r) carry" by (meson subseq_order.trans)
        with qs show ?thesis by blast
      next
        case take
        with long Some 1(5) have run: "align_loop (drop 188 c) (aligned @ take 188 c) = (r, out)"
          by (subst (asm) align_loop.simps) auto
        have p: "ts_packet (take 188 c)" using take(1) c by (cases c) (auto simp: ts_packet_def take_Cons')
        then have "list_all ts_packet (ps @ [take 188 c])" "aligned @ take 188 c = concat (ps @ [take 188 c])"
          using 1(3,4) by auto
        from 1(2) [OF long Some take this run] obtain qs where
          qs: "list_all ts_packet qs" "out = (aligned @ take 188 c) @ concat qs" "length r < 188"
            "subseq (concat qs @ r) (drop 188 c)" by blast
        have "subseq (take 188 c @ (concat qs @ r)) (take 188 c @ drop 188 c)"
          using qs(4) by (simp only: subseq_append')
        then have "subseq (concat (take 188 c # qs) @ r) carry" using sub by (simp add: subseq_order.trans)
        with qs p show ?thesis by (intro exI [of _ "take 188 c # qs"]) auto
      qed
    qed
  qed
qed


text \<open>
  whatever bytes arrive, the demuxer is fed whole transport packets: the output is a sequence of
  188-byte packets that start with the sync byte, less than one packet is carried over, and output and
  carry are bytes of the input in their order.
\<close>
theorem alignTS_emits_packets:
  "\<exists>ps. list_all ts_packet ps \<and> snd (alignTS carry chunk) = concat ps \<and> length (fst (alignTS carry chunk)) < 188 \<and>
     subseq (snd (alignTS carry chunk) @ fst (alignTS carry chunk)) (carry @ chunk)"
  using align_loop_packets [of "[]" "[]" "carry @ chunk" "fst (alignTS carry chunk)" "snd (alignTS carry chunk)"]
  by (auto simp: alignTS_def)

subsubsection \<open>A well-formed stream passes unchanged, however it is cut\<close>

lemma align_loop_stream:
  "list_all ts_packet ps \<Longrightarrow> prefix s (concat ps) \<Longrightarrow>
   align_loop s acc = (drop (188 * (length s div 188)) s, acc @ take (188 * (length s div 188)) s)"
proof (induction ps arbitrary: s acc)
  case Nil
  then show ?case by (simp add: align_loop.simps)
next
  case (Cons p ps)
  have p: "length p = 188" "hd p = 0x47" using Cons.prems(1) by (auto simp: ts_packet_def)
  show ?case
  proof (cases "length s < 188")
    case True
    then show ?thesis by (simp add: align_loop.simps)
  next
    case False
    have "prefix s p \<or> (\<exists>s'. s = p @ s' \<and> prefix s' (concat ps))"
      using Cons.prems(2) by (simp add: prefix_append)
    moreover have "s = p" if "prefix s p"
      using prefix_length_le [OF that] that False p(1) by (auto elim!: prefixE)
    ultimately obtain s' where s: "s = p @ s'" and pre: "prefix s' (concat ps)" by auto
    have hd: "hd s = 0x47" using s p by (cases p) auto
    have sync: "s' ! 0 = 0x47" if "188 \<le> length s'"
    proof -
      from that pre obtain p2 ps2 where ps: "ps = p2 # ps2" by (cases ps) auto
      with Cons.prems(1) have p2: "length p2 = 188" "hd p2 = 0x47" by (auto simp: ts_packet_def)
      from pre ps obtain t where "p2 @ concat ps2 = s' @ t" by (auto elim: prefixE)
      then have "hd (p2 @ concat ps2) = hd (s' @ t)" by simp
      with p2 that show ?thesis by (cases p2; cases s') auto
    qed
    have "align_loop s acc = align_loop s' (acc @ p)"
      using False hd sync by (subst align_loop.simps) (auto simp: s p(1) resync_def nth_append)
    also have "\<dots> = (drop (188 * (length s' div 188)) s', (acc @ p) @ take (188 * (length s' div 188)) s')"
      using Cons.prems(1) pre by (intro Cons.IH) auto
    also have "188 * (length s div 188) = 188 + 188 * (length s' div 188)"
      using p(1) s by simp
    ultimately show ?thesis using p(1) s by simp
  qed
qed

fun align_chunks :: "byte list \<Rightarrow> byte list list \<Rightarrow> byte list \<times> byte list" where
  "align_chunks carry [] = (carry, [])"
| "align_chunks carry (c # cs) =
     (case alignTS carry c of (carry', out) \<Rightarrow> (case align_chunks carry' cs of (r, outs) \<Rightarrow> (r, out @ outs)))"

lemma concat_packets_take:
  "list_all ts_packet ps \<Longrightarrow> n \<le> length ps \<Longrightarrow> take (188 * n) (concat ps) = concat (take n ps) \<and>
   drop (188 * n) (concat ps) = concat (drop n ps)"
proof (induction ps arbitrary: n)
  case (Cons p ps)
  then show ?case by (cases n) (auto simp: ts_packet_def)
qed simp

lemma concat_packets_length: "list_all ts_packet ps \<Longrightarrow> length (concat ps) = 188 * length ps"
  by (induction ps) (auto simp: ts_packet_def)

lemma align_chunks_stream:
  "list_all ts_packet ps \<Longrightarrow> carry @ concat cs = concat ps \<Longrightarrow> length carry < 188 \<Longrightarrow>
   align_chunks carry cs = ([], concat ps)"
proof (induction cs arbitrary: carry ps)
  case Nil
  then have "188 * length ps < 188" using concat_packets_length by fastforce
  with Nil show ?case by simp
next
  case (Cons c cs)
  let ?s = "carry @ c"
  let ?n = "length ?s div 188"
  have eq: "?s @ concat cs = concat ps" using Cons.prems(2) by simp
  then have pre: "prefix ?s (concat ps)" by (metis prefixI)
  have al: "alignTS carry c = (drop (188 * ?n) ?s, take (188 * ?n) ?s)"
    unfolding alignTS_def by (subst align_loop_stream [OF Cons.prems(1) pre]) simp
  have le: "188 * ?n \<le> length ?s" by simp
  have "length ?s \<le> 188 * length ps" using pre concat_packets_length [OF Cons.prems(1)] prefix_length_le by metis
  then have n: "?n \<le> length ps" by simp
  note parts = concat_packets_take [OF Cons.prems(1) n]
  have t: "take (188 * ?n) ?s = concat (take ?n ps)" using parts eq le by (metis append_take_drop_id take_append diff_is_0_eq' take0 append_Nil2)
  have d: "drop (188 * ?n) ?s @ concat cs = concat (drop ?n ps)"
    using parts eq le by (metis drop_append diff_is_0_eq' drop0)
  have lt: "length (drop (188 * ?n) ?s) < 188"
    unfolding length_drop minus_mult_div_eq_mod by (rule mod_less_divisor) simp
  have "list_all ts_packet (drop ?n ps)" using Cons.prems(1) by (metis append_take_drop_id list_all_append)
  from Cons.IH [OF this d lt] show ?case using t by (simp add: al) (metis append_take_drop_id concat_append)
qed

text \<open>
  C31: alignment does not depend on where the network cuts the stream: a well-formed transport stream
  that arrives in chunks of any sizes, from an empty carry, comes out complete and unchanged, and
  nothing is left over.
\<close>
theorem alignTS_is_chunking_independent:
  assumes "list_all ts_packet ps" and "concat chunks = concat ps"
  shows "align_chunks [] chunks = ([], concat ps)"
  using align_chunks_stream [OF assms(1), of "[]" chunks] assms(2) by simp

theorem alignTS_is_chunking_independent_witness:
  "align_chunks [] [[0x47, 1], replicate 186 0 @ 0x47 # replicate 187 5] =
     ([], (0x47 # 1 # replicate 186 0) @ 0x47 # replicate 187 5)"
proof -
  have "list_all ts_packet [0x47 # 1 # replicate 186 0, 0x47 # replicate 187 5]" by (simp add: ts_packet_def)
  from alignTS_is_chunking_independent [OF this, of "[[0x47, 1], replicate 186 0 @ 0x47 # replicate 187 5]"]
  show ?thesis by simp
qed

subsection \<open>The demuxer's pipe\<close>

definition tsBufferMaxBytes :: int where "tsBufferMaxBytes = 16 * 2 ^ 20"

record TsBuffer =
  tb_buf :: "byte list"
  tb_done :: bool
  tb_maxBytes :: int

datatype IoError = ErrClosedPipe | EOF

definition newTSBuffer :: TsBuffer where
  "newTSBuffer = \<lparr>tb_buf = [], tb_done = False, tb_maxBytes = tsBufferMaxBytes\<rparr>"

text \<open>The count and error that \<^verbatim>\<open>Write\<close> returns, and the buffer.\<close>

definition tb_Write :: "byte list \<Rightarrow> TsBuffer \<Rightarrow> (nat \<times> IoError option) \<times> TsBuffer" where
  "tb_Write p b =
     (if tb_done b then ((0, Some ErrClosedPipe), b)
      else
        let buf = (if 0 < tb_maxBytes b \<and> tb_maxBytes b < int (length (tb_buf b)) + int (length p) \<and> 0 < length (tb_buf b)
                   then [] else tb_buf b)
        in ((length p, None), b\<lparr>tb_buf := buf @ p\<rparr>))"

text \<open>\<^verbatim>\<open>Read\<close> into a slice of length \<open>n\<close>; \<open>None\<close> while it waits for data.\<close>

definition tb_Read :: "nat \<Rightarrow> TsBuffer \<Rightarrow> ((IoError + byte list) \<times> TsBuffer) option" where
  "tb_Read n b =
     (if tb_buf b = [] then (if tb_done b then Some (Inl EOF, b) else None)
      else Some (Inr (take n (tb_buf b)), b\<lparr>tb_buf := drop n (tb_buf b)\<rparr>))"

definition tb_Close :: "TsBuffer \<Rightarrow> TsBuffer" where
  "tb_Close b = b\<lparr>tb_done := True\<rparr>"

datatype TbOp = TbWrite "byte list" | TbRead nat | TbClose

text \<open>What the reader has received after a run of calls, and the buffer; a waiting read receives nothing.\<close>

fun tb_run :: "TbOp list \<Rightarrow> TsBuffer \<Rightarrow> byte list \<times> TsBuffer" where
  "tb_run [] b = ([], b)"
| "tb_run (TbWrite p # ops) b = tb_run ops (snd (tb_Write p b))"
| "tb_run (TbRead n # ops) b =
     (case tb_Read n b of Some (Inr xs, b') \<Rightarrow> (case tb_run ops b' of (ys, b2) \<Rightarrow> (xs @ ys, b2)) | _ \<Rightarrow> tb_run ops b)"
| "tb_run (TbClose # ops) b = tb_run ops (tb_Close b)"

fun tb_written :: "TbOp list \<Rightarrow> byte list" where
  "tb_written [] = []"
| "tb_written (TbWrite p # ops) = p @ tb_written ops"
| "tb_written (TbClose # ops) = []"
| "tb_written (TbRead n # ops) = tb_written ops"

lemma tb_run_done: "tb_done b \<Longrightarrow> fst (tb_run ops b) @ tb_buf (snd (tb_run ops b)) = tb_buf b"
  by (induction ops b rule: tb_run.induct)
    (auto simp: tb_Write_def tb_Read_def tb_Close_def split: prod.splits if_splits)

lemma tb_run_fifo:
  "int (length (tb_buf b @ tb_written ops)) \<le> tb_maxBytes b \<Longrightarrow> \<not> tb_done b \<Longrightarrow>
   fst (tb_run ops b) @ tb_buf (snd (tb_run ops b)) = tb_buf b @ tb_written ops"
proof (induction ops b rule: tb_run.induct)
  case (2 p ops b)
  then show ?case by (auto simp: tb_Write_def)
next
  case (3 n ops b)
  then show ?case by (auto simp: tb_Read_def split: prod.splits if_splits)
next
  case (4 ops b)
  then show ?case using tb_run_done [of "tb_Close b" ops] by (simp add: tb_Close_def)
qed simp

lemma tb_run_bounded:
  "0 < tb_maxBytes b \<Longrightarrow> int (length (tb_buf b)) \<le> M \<Longrightarrow> tb_maxBytes b \<le> M \<Longrightarrow>
   \<forall>p. TbWrite p \<in> set ops \<longrightarrow> int (length p) \<le> M \<Longrightarrow> int (length (tb_buf (snd (tb_run ops b)))) \<le> M"
proof (induction ops b rule: tb_run.induct)
  case (2 p ops b)
  have "int (length (tb_buf (snd (tb_Write p b)))) \<le> M" "tb_maxBytes (snd (tb_Write p b)) = tb_maxBytes b"
    using "2.prems" by (auto simp: tb_Write_def)
  with 2 show ?case by simp
next
  case (3 n ops b)
  then show ?case by (auto simp: tb_Read_def split: prod.splits if_splits)
qed (auto simp: tb_Close_def)

subsection \<open>NAL units\<close>

text \<open>\<^verbatim>\<open>bytes.ReplaceAll(b, {0,0,0,1}, {0,0,1})\<close>.\<close>

function annexB4To3 :: "byte list \<Rightarrow> byte list" where
  "annexB4To3 b =
     (if take 4 b = [0, 0, 0, 1] then [0, 0, 1] @ annexB4To3 (drop 4 b)
      else case b of [] \<Rightarrow> [] | x # xs \<Rightarrow> x # annexB4To3 xs)"
  by pat_completeness auto
termination by (relation "measure length") (auto intro: diff_less)

declare annexB4To3.simps [simp del]

definition be32 :: "nat \<Rightarrow> byte list" where
  "be32 n = [of_nat (n div 2 ^ 24), of_nat (n div 2 ^ 16), of_nat (n div 2 ^ 8), of_nat n]"

definition appendLengthPrefixedNALU :: "byte list \<Rightarrow> byte list \<Rightarrow> byte list" where
  "appendLengthPrefixedNALU out nalu = (out @ be32 (length nalu)) @ nalu"

definition isAnnexBStartCodePrefix :: "byte list \<Rightarrow> nat \<Rightarrow> bool" where
  "isAnnexBStartCodePrefix data i =
     (if length data \<le> i + 2 \<or> data ! i \<noteq> 0 \<or> data ! (i + 1) \<noteq> 0 then False
      else if data ! (i + 2) = 1 then True
      else data ! (i + 2) = 0 \<and> i + 3 < length data \<and> data ! (i + 3) = 1)"

text \<open>\<^verbatim>\<open>for end > start && data[end-1] == 0 { end-- }\<close>.\<close>

fun trim_end :: "byte list \<Rightarrow> nat \<Rightarrow> nat \<Rightarrow> nat" where
  "trim_end data start 0 = 0"
| "trim_end data start (Suc e) = (if start < Suc e \<and> data ! e = 0 then trim_end data start e else Suc e)"

text \<open>The loop of \<^verbatim>\<open>splitAnnexBNALUs\<close> from index \<open>i\<close>; \<open>start\<close> is \<open>None\<close> for \<^verbatim>\<open>-1\<close>.\<close>

function split_loop :: "byte list \<Rightarrow> nat \<Rightarrow> nat option \<Rightarrow> byte list list \<Rightarrow> byte list list" where
  "split_loop data i start nalus =
     (if length data \<le> i + 3
      then (case start of
          Some s \<Rightarrow> if s < length data then nalus @ [drop s data] else nalus
        | None \<Rightarrow> nalus)
      else if \<not> isAnnexBStartCodePrefix data i then split_loop data (Suc i) start nalus
      else
        let scLen = (if data ! (i + 2) = 0 then 4 else 3);
            nalus' = (case start of
                Some s \<Rightarrow>
                  let e = trim_end data s i
                  in if s < e then nalus @ [drop s (take e data)] else nalus
              | None \<Rightarrow> nalus)
        in split_loop data (i + scLen) (Some (i + scLen)) nalus')"
  by pat_completeness auto
termination by (relation "measure (\<lambda>(data, i, _). length data - i)") auto

declare split_loop.simps [simp del]

definition splitAnnexBNALUs :: "byte list \<Rightarrow> byte list list" where
  "splitAnnexBNALUs data = split_loop data 0 None []"

definition hevcAnnexBToAVCC :: "byte list \<Rightarrow> byte list" where
  "hevcAnnexBToAVCC annexB =
     (if length annexB = 0 then []
      else let nalus = splitAnnexBNALUs annexB
           in if length nalus = 0 then [] else fold (\<lambda>nalu out. appendLengthPrefixedNALU out nalu) nalus [])"

subsubsection \<open>The split refines a scan of the remaining bytes\<close>

definition strip0 :: "byte list \<Rightarrow> byte list" where
  "strip0 c = rev (dropWhile (\<lambda>x. x = 0) (rev c))"

definition emit :: "byte list option \<Rightarrow> byte list list" where
  "emit cur = (case cur of None \<Rightarrow> [] | Some c \<Rightarrow> if strip0 c = [] then [] else [strip0 c])"

text \<open>The current unit so far, and what remains to be read.\<close>

function split_ref :: "byte list option \<Rightarrow> byte list \<Rightarrow> byte list list" where
  "split_ref cur t =
     (if length t \<le> 3 then (case cur of None \<Rightarrow> [] | Some c \<Rightarrow> if c @ t = [] then [] else [c @ t])
      else if \<not> isAnnexBStartCodePrefix t 0 then split_ref (map_option (\<lambda>c. c @ [hd t]) cur) (tl t)
      else emit cur @ split_ref (Some []) (drop (if t ! 2 = 0 then 4 else 3) t))"
  by pat_completeness auto
termination by (relation "measure (length \<circ> snd)") auto

declare split_ref.simps [simp del]

lemma prefix_at_drop: "i \<le> length data \<Longrightarrow> isAnnexBStartCodePrefix (drop i data) 0 = isAnnexBStartCodePrefix data i"
  by (auto simp: isAnnexBStartCodePrefix_def)

lemma strip0_snoc [simp]: "strip0 (c @ [x]) = (if x = 0 then strip0 c else c @ [x])"
  by (simp add: strip0_def)

lemma strip0_Nil [simp]: "strip0 [] = []"
  by (simp add: strip0_def)

lemma trim_end_spec:
  "s \<le> i \<Longrightarrow> i \<le> length data \<Longrightarrow>
   drop s (take (trim_end data s i) data) = strip0 (drop s (take i data)) \<and>
   (s < trim_end data s i \<longleftrightarrow> strip0 (drop s (take i data)) \<noteq> [])"
proof (induction data s i rule: trim_end.induct)
  case (2 data s e)
  show ?case
  proof (cases "s < Suc e")
    case True
    then have "drop s (take (Suc e) data) = drop s (take e data) @ [data ! e]"
      using 2(3) by (simp add: take_Suc_conv_app_nth)
    then show ?thesis using 2 True by auto
  next
    case False
    then show ?thesis using 2 by auto
  qed
qed simp

lemma split_loop_ref:
  "i \<le> length data \<Longrightarrow> (\<forall>s. start = Some s \<longrightarrow> s \<le> i) \<Longrightarrow>
   split_loop data i start nalus = nalus @ split_ref (map_option (\<lambda>s. drop s (take i data)) start) (drop i data)"
proof (induction data i start nalus rule: split_loop.induct)
  case (1 data i start nalus)
  let ?cur = "map_option (\<lambda>s. drop s (take i data)) start"
  consider (stop) "length data \<le> i + 3" | (body) "\<not> length data \<le> i + 3" "\<not> isAnnexBStartCodePrefix data i"
    | (code) "\<not> length data \<le> i + 3" "isAnnexBStartCodePrefix data i" by blast
  then show ?case
  proof cases
    case stop
    have "drop s (take i data) @ drop i data = drop s data" if "s \<le> i" for s
      using that 1(3) by (metis append_take_drop_id drop_append diff_is_0_eq' drop0 length_take min.absorb2)
    with stop 1(4) show ?thesis
      by (auto simp: split_loop.simps [of data i] split_ref.simps [of _ "drop i data"] not_less split: option.splits)
  next
    case body
    have "take (Suc i) data = take i data @ [data ! i]" using body by (simp add: take_Suc_conv_app_nth)
    then have cur: "map_option (\<lambda>s. drop s (take (Suc i) data)) start = map_option (\<lambda>c. c @ [hd (drop i data)]) ?cur"
      using 1(4) body by (cases start) (auto simp: hd_drop_conv_nth)
    have "split_loop data i start nalus = split_loop data (Suc i) start nalus"
      using body by (subst split_loop.simps) simp
    also have "\<dots> = nalus @ split_ref (map_option (\<lambda>c. c @ [hd (drop i data)]) ?cur) (drop (Suc i) data)"
      using 1(1) [OF body] 1(4) body by (simp add: cur le_SucI)
    also have "split_ref (map_option (\<lambda>c. c @ [hd (drop i data)]) ?cur) (drop (Suc i) data) = split_ref ?cur (drop i data)"
    proof -
      have l: "\<not> length (drop i data) \<le> 3" and p: "\<not> isAnnexBStartCodePrefix (drop i data) 0"
        using body prefix_at_drop [of i data] by auto
      have "drop (Suc i) data = tl (drop i data)" by (simp add: drop_Suc tl_drop)
      then show ?thesis unfolding split_ref.simps [of ?cur "drop i data"] using l p by presburger
    qed
    finally show ?thesis .
  next
    case code
    define sc where "sc = (if data ! (i + 2) = 0 then 4 else 3 :: nat)"
    define n1 where "n1 = (case start of Some s \<Rightarrow>
        (let e = trim_end data s i in if s < e then nalus @ [drop s (take e data)] else nalus) | None \<Rightarrow> nalus)"
    have n1: "n1 = nalus @ emit ?cur"
      using 1(3,4) trim_end_spec [of _ i data] by (cases start) (auto simp: n1_def emit_def Let_def)
    have le: "i + sc \<le> length data" using code by (simp add: sc_def)
    have "split_loop data i start nalus = split_loop data (i + sc) (Some (i + sc)) n1"
      using code by (subst split_loop.simps) (simp add: sc_def n1_def Let_def)
    also have "\<dots> = n1 @ split_ref (Some []) (drop (i + sc) data)"
      using 1(2) [OF code(1) _ sc_def n1_def] code(2) le by simp
    also have "\<dots> = nalus @ split_ref ?cur (drop i data)"
    proof -
      have l: "\<not> length (drop i data) \<le> 3" and p: "isAnnexBStartCodePrefix (drop i data) 0"
        and d: "drop (if drop i data ! 2 = 0 then 4 else 3) (drop i data) = drop (i + sc) data"
        using code prefix_at_drop [of i data] by (auto simp: sc_def add.commute)
      show ?thesis unfolding n1 split_ref.simps [of ?cur "drop i data"] d using l p by simp
    qed
    finally show ?thesis .
  qed
qed

lemma splitAnnexBNALUs_ref: "splitAnnexBNALUs data = split_ref None data"
  by (simp add: splitAnnexBNALUs_def split_loop_ref)

subsubsection \<open>Annex B to AVCC and back\<close>

text \<open>A unit as an encoder emits it: not empty, no start code inside, no trailing zero.\<close>

definition clean_nalu :: "byte list \<Rightarrow> bool" where
  "clean_nalu n \<longleftrightarrow> n \<noteq> [] \<and> last n \<noteq> 0 \<and> \<not> sublist [0, 0, 1] n \<and> length n < 2 ^ 32"

fun annexB_of :: "(bool \<times> byte list) list \<Rightarrow> byte list" where
  "annexB_of [] = []"
| "annexB_of ((four, n) # us) = (if four then [0, 0, 0, 1] else [0, 0, 1]) @ n @ annexB_of us"

lemma no_code_inside:
  assumes "\<not> sublist [0, 0, 1] (x # n)" and "last (x # n) \<noteq> 0"
  shows "\<not> isAnnexBStartCodePrefix ((x # n) @ rest) 0"
proof -
  have a: "\<not> sublist [0, 0, 1] (0 # 0 # 1 # t)" if "x # n = 0 # 0 # 1 # t" for t using assms(1) that by simp
  have "sublist [0, 0, 1] (0 # 0 # 1 # t)" for t :: "byte list" by (simp add: sublist_Cons_right)
  with a have b: "x # n \<noteq> 0 # 0 # 1 # t" for t by blast
  have "sublist [0, 0, 1] (0 # 0 # 0 # 1 # t)" for t :: "byte list" by (simp add: sublist_Cons_right)
  with assms(1) have c: "x # n \<noteq> 0 # 0 # 0 # 1 # t" for t by auto
  show ?thesis
  proof (cases n)
    case Nil
    with assms(2) show ?thesis by (simp add: isAnnexBStartCodePrefix_def)
  next
    case (Cons y n1)
    show ?thesis
    proof (cases n1)
      case Nil
      with Cons assms(2) show ?thesis by (simp add: isAnnexBStartCodePrefix_def)
    next
      case (Cons z n2)
      with \<open>n = y # n1\<close> assms(2) b c show ?thesis
        by (cases n2) (auto simp: isAnnexBStartCodePrefix_def)
    qed
  qed
qed

lemma split_ref_body:
  "(n \<noteq> [] \<longrightarrow> last n \<noteq> 0) \<Longrightarrow> \<not> sublist [0, 0, 1] n \<Longrightarrow> rest = [] \<or> 4 \<le> length rest \<Longrightarrow>
   split_ref (Some c) (n @ rest) = split_ref (Some (c @ n)) rest"
proof (induction n arbitrary: c)
  case (Cons x n)
  have sub: "\<not> sublist [0, 0, 1] n" using Cons.prems(2) by (auto simp: sublist_Cons_right)
  show ?case
  proof (cases "length ((x # n) @ rest) \<le> 3")
    case True
    then have "rest = []" using Cons.prems(3) by auto
    with True show ?thesis by (simp add: split_ref.simps)
  next
    case False
    have "split_ref (Some c) ((x # n) @ rest) = split_ref (Some (c @ [x])) (n @ rest)"
      using False no_code_inside [OF Cons.prems(2), of rest] Cons.prems(1)
      by (subst split_ref.simps) simp
    with Cons.IH [of "c @ [x]"] Cons.prems sub show ?thesis by (cases n) auto
  qed
qed simp

lemma annexB_of_length: "list_all (clean_nalu \<circ> snd) us \<Longrightarrow> annexB_of us = [] \<or> 4 \<le> length (annexB_of us)"
  by (cases us rule: annexB_of.cases) (auto simp: clean_nalu_def Suc_le_eq)

lemma strip0_clean: "n \<noteq> [] \<Longrightarrow> last n \<noteq> 0 \<Longrightarrow> strip0 n = n"
  by (cases n rule: rev_cases) auto

lemma split_ref_units:
  "us \<noteq> [] \<Longrightarrow> list_all (clean_nalu \<circ> snd) us \<Longrightarrow> split_ref cur (annexB_of us) = emit cur @ map snd us"
proof (induction us arbitrary: cur rule: annexB_of.induct)
  case (2 four n us)
  have n: "clean_nalu n" and us: "list_all (clean_nalu \<circ> snd) us" using "2.prems" by (simp_all add: comp_def)
  let ?t = "annexB_of ((four, n) # us)"
  have len: "\<not> length ?t \<le> 3" using n by (cases n) (auto simp: clean_nalu_def)
  have code: "isAnnexBStartCodePrefix ?t 0" using n by (auto simp: isAnnexBStartCodePrefix_def clean_nalu_def)
  have d: "drop (if ?t ! 2 = 0 then 4 else 3) ?t = n @ annexB_of us" by simp
  have "split_ref cur ?t = emit cur @ split_ref (Some []) (n @ annexB_of us)"
    unfolding split_ref.simps [of cur ?t] using len code d by presburger
  also have "split_ref (Some []) (n @ annexB_of us) = split_ref (Some n) (annexB_of us)"
    using split_ref_body [of n "annexB_of us" "[]"] n annexB_of_length [OF us] by (simp add: clean_nalu_def)
  also have "\<dots> = n # map snd us"
  proof (cases "us = []")
    case True
    then show ?thesis using n by (simp add: split_ref.simps clean_nalu_def)
  next
    case False
    with "2.IH" [OF False us, of "Some n"] n show ?thesis by (simp add: emit_def strip0_clean clean_nalu_def)
  qed
  finally show ?case by simp
qed simp

text \<open>A reader of length-prefixed units.\<close>

definition be32_value :: "byte list \<Rightarrow> nat" where
  "be32_value b = unat (b ! 0) * 2 ^ 24 + unat (b ! 1) * 2 ^ 16 + unat (b ! 2) * 2 ^ 8 + unat (b ! 3)"

lemma be32_value_be32:
  assumes "n < 2 ^ 32"
  shows "be32_value (be32 n @ rest) = n"
proof -
  have "n mod 65536 = 256 * (n div 256 mod 256) + n mod 256" using mod_mult2_eq [of n 256 256] by simp
  moreover have "n mod 16777216 = 65536 * (n div 65536 mod 256) + n mod 65536" using mod_mult2_eq [of n 65536 256] by simp
  moreover have "n = 16777216 * (n div 16777216) + n mod 16777216" by simp
  ultimately have "n div 16777216 * 16777216 + n div 65536 mod 256 * 65536 + n div 256 mod 256 * 256 + n mod 256 = n"
    by linarith
  moreover have "n div 16777216 mod 256 = n div 16777216" using assms by simp
  ultimately show ?thesis by (simp add: be32_value_def be32_def unat_of_nat)
qed

function avcc_units :: "byte list \<Rightarrow> byte list list option" where
  "avcc_units b =
     (if b = [] then Some []
      else if length b < 4 + be32_value b then None
      else map_option (Cons (take (be32_value b) (drop 4 b))) (avcc_units (drop (4 + be32_value b) b)))"
  by pat_completeness auto
termination by (relation "measure length") auto

declare avcc_units.simps [simp del]

lemma length_be32 [simp]: "length (be32 n) = 4"
  by (simp add: be32_def)

lemma avcc_units_step:
  assumes "length n < 2 ^ 32"
  shows "avcc_units (be32 (length n) @ n @ rest) = map_option (Cons n) (avcc_units rest)"
proof -
  have "be32 (length n) @ n @ rest \<noteq> []" by (simp add: be32_def)
  moreover have "drop (4 + length n) (be32 (length n) @ n @ rest) = rest" by simp
  moreover have "take (length n) (drop 4 (be32 (length n) @ n @ rest)) = n" by simp
  moreover have "\<not> length (be32 (length n) @ n @ rest) < 4 + length n" by simp
  ultimately show ?thesis
    unfolding avcc_units.simps [of "be32 (length n) @ n @ rest"] be32_value_be32 [OF assms] by presburger
qed

lemma avcc_units_concat:
  "list_all (\<lambda>n. length n < 2 ^ 32) ns \<Longrightarrow> avcc_units (concat (map (\<lambda>n. be32 (length n) @ n) ns)) = Some ns"
  by (induction ns) (simp_all add: avcc_units.simps [of "[]"] avcc_units_step)

lemma fold_length_prefixed:
  "fold (\<lambda>nalu out. appendLengthPrefixedNALU out nalu) ns out = out @ concat (map (\<lambda>n. be32 (length n) @ n) ns)"
  by (induction ns arbitrary: out) (simp_all add: appendLengthPrefixedNALU_def)

text \<open>
  converting an H.265 access unit from Annex B to length-prefixed form loses nothing: for units as
  encoders emit them (no start code inside, no trailing zero byte), with 3- or 4-byte start codes in any
  mix, reading the result back by its length prefixes gives exactly the units, in order.
\<close>
theorem hevc_annexB_avcc_roundtrip:
  assumes "us \<noteq> []" and "list_all (clean_nalu \<circ> snd) us"
  shows "avcc_units (hevcAnnexBToAVCC (annexB_of us)) = Some (map snd us)"
proof -
  have s: "splitAnnexBNALUs (annexB_of us) = map snd us"
    using split_ref_units [OF assms, of None] by (simp add: splitAnnexBNALUs_ref emit_def)
  have ne: "annexB_of us \<noteq> []" using assms(1) by (cases us rule: annexB_of.cases) auto
  have "list_all (\<lambda>n. length n < 2 ^ 32) (map snd us)" using assms(2) by (auto simp: list_all_iff clean_nalu_def)
  from avcc_units_concat [OF this] show ?thesis
    using s ne assms(1) by (simp add: hevcAnnexBToAVCC_def Let_def fold_length_prefixed del: map_map)
qed

theorem hevc_annexB_avcc_roundtrip_witness:
  "avcc_units (hevcAnnexBToAVCC [0, 0, 0, 1, 64, 0, 7, 0, 0, 1, 66, 0, 0, 2]) = Some [[64, 0, 7], [66, 0, 0, 2]]"
proof -
  have "list_all (clean_nalu \<circ> snd) [(True, [64, 0, 7]), (False, [66, 0, 0, 2])]"
    by (simp add: clean_nalu_def sublist_Cons_right)
  from hevc_annexB_avcc_roundtrip [OF _ this] show ?thesis by simp
qed

subsection \<open>Bundled AAC frames\<close>

record ADTSHeader =
  ah_HeaderLength :: int
  ah_PayloadLength :: int
  ah_Frequency :: int

function split_adts ::
  "(byte list \<Rightarrow> ADTSHeader option) \<Rightarrow> int \<Rightarrow> u64 \<Rightarrow> byte list \<Rightarrow> nat \<Rightarrow> nat \<Rightarrow> AudioFrame list \<Rightarrow> AudioFrame list" where
  "split_adts adts sampleRate basePTSms data pos frameIdx out =
     (if length data \<le> pos then out
      else case adts (drop pos data) of
          None \<Rightarrow> out
        | Some h \<Rightarrow>
            let hLen = ah_HeaderLength h; pLen = ah_PayloadLength h in
            if hLen \<le> 0 \<or> pLen \<le> 0 \<or> int (length data) < int pos + hLen + pLen then out
            else
              let raw = drop (nat (int pos + hLen)) (take (nat (int pos + hLen + pLen)) data);
                  ptsOffset = (if 0 < sampleRate then of_nat frameIdx * 1024 * 1000 div word_of_int sampleRate else 0)
              in split_adts adts sampleRate basePTSms data (nat (int pos + hLen + pLen)) (Suc frameIdx)
                   (out @ [\<lparr>af_Raw = raw, af_PTSms = basePTSms + ptsOffset\<rparr>]))"
  by pat_completeness auto
termination by (relation "measure (\<lambda>(_, _, _, data, pos, _, _). length data - pos)") auto

declare split_adts.simps [simp del]

definition splitADTSBundle :: "(byte list \<Rightarrow> ADTSHeader option) \<Rightarrow> byte list \<Rightarrow> u64 \<Rightarrow> AudioFrame list" where
  "splitADTSBundle adts data basePTSms =
     (if length data = 0 then []
      else case adts data of
          None \<Rightarrow> [\<lparr>af_Raw = data, af_PTSms = basePTSms\<rparr>]
        | Some hdr \<Rightarrow> split_adts adts (ah_Frequency hdr) basePTSms data 0 0 [])"

text \<open>The frames of a bundle: ADTS header and payload of each. The decoder reads the header at the front.\<close>

definition bundle_of :: "(byte list \<times> byte list) list \<Rightarrow> byte list" where
  "bundle_of fs = concat (map (\<lambda>(h, p). h @ p) fs)"

definition decodes :: "(byte list \<Rightarrow> ADTSHeader option) \<Rightarrow> nat \<Rightarrow> byte list \<times> byte list \<Rightarrow> bool" where
  "decodes adts sr f \<longleftrightarrow> fst f \<noteq> [] \<and> snd f \<noteq> [] \<and>
     (\<forall>rest. adts (fst f @ snd f @ rest) =
        Some \<lparr>ah_HeaderLength = int (length (fst f)), ah_PayloadLength = int (length (snd f)), ah_Frequency = int sr\<rparr>)"

lemma bundle_of_Cons [simp]: "bundle_of (f # fs) = fst f @ snd f @ bundle_of fs" "bundle_of [] = []"
  by (auto simp: bundle_of_def split_beta)

lemma frame_offset:
  assumes "i < 2 ^ 40" and "0 < sr" and "sr < 2 ^ 32"
  shows "(of_nat i * 1024 * 1000 :: u64) div word_of_int (int sr) = of_nat (i * 1024000 div sr)"
proof (rule word_unat_eq_iff [THEN iffD2])
  have eq: "(of_nat i * 1024 * 1000 :: u64) = of_nat (i * 1024000)" "(word_of_int (int sr) :: u64) = of_nat sr" by simp_all
  have a: "unat (of_nat (i * 1024000) :: u64) = i * 1024000" "unat (of_nat sr :: u64) = sr"
    using assms by (simp_all add: unat_of_nat del: of_nat_mult)
  have "i * 1024000 div sr < 18446744073709551616"
    by (rule le_less_trans [OF div_le_dividend]) (use assms(1) in simp)
  then have b: "unat (of_nat (i * 1024000 div sr) :: u64) = i * 1024000 div sr"
    by (simp add: unat_of_nat del: of_nat_mult)
  show "unat ((of_nat i * 1024 * 1000 :: u64) div word_of_int (int sr)) = unat (of_nat (i * 1024000 div sr) :: u64)"
    unfolding eq unat_div a b ..
qed

text \<open>What the bundle holds: each payload, at the time of its first sample.\<close>

fun bundle_frames :: "u64 \<Rightarrow> nat \<Rightarrow> nat \<Rightarrow> (byte list \<times> byte list) list \<Rightarrow> AudioFrame list" where
  "bundle_frames base sr k [] = []"
| "bundle_frames base sr k (f # fs) =
     \<lparr>af_Raw = snd f, af_PTSms = base + of_nat (k * 1024000 div sr)\<rparr> # bundle_frames base sr (Suc k) fs"

lemma split_adts_bundle:
  "list_all (decodes adts sr) fs \<Longrightarrow> k + length fs < 2 ^ 40 \<Longrightarrow> 0 < sr \<Longrightarrow> sr < 2 ^ 32 \<Longrightarrow>
   split_adts adts (int sr) base (pre @ bundle_of fs) (length pre) k out = out @ bundle_frames base sr k fs"
proof (induction fs arbitrary: pre k out)
  case Nil
  then show ?case by (simp add: split_adts.simps)
next
  case (Cons f fs)
  let ?data = "pre @ bundle_of (f # fs)"
  let ?pos = "length pre + length (fst f) + length (snd f)"
  have f: "decodes adts sr f" using Cons.prems(1) by simp
  then have ne: "fst f \<noteq> []" "snd f \<noteq> []" and
    dec: "adts (drop (length pre) ?data) = Some \<lparr>ah_HeaderLength = int (length (fst f)), ah_PayloadLength = int (length (snd f)), ah_Frequency = int sr\<rparr>"
    by (auto simp: decodes_def)
  have off: "(of_nat k * 1024 * 1000 :: u64) div word_of_int (int sr) = of_nat (k * 1024000 div sr)"
    using Cons.prems by (intro frame_offset) auto
  have idx: "nat (int (length pre) + int (length (fst f))) = length pre + length (fst f)"
    "nat (int (length pre) + int (length (fst f)) + int (length (snd f))) = ?pos" by simp_all
  have raw: "drop (length pre + length (fst f)) (take ?pos ?data) = snd f" by simp
  have lt: "\<not> length ?data \<le> length pre" "\<not> int (length ?data) < int (length pre) + int (length (fst f)) + int (length (snd f))"
    using ne by simp_all
  have "split_adts adts (int sr) base ?data (length pre) k out =
      split_adts adts (int sr) base ?data ?pos (Suc k) (out @ [\<lparr>af_Raw = snd f, af_PTSms = base + of_nat (k * 1024000 div sr)\<rparr>])"
    unfolding split_adts.simps [of adts "int sr" base ?data "length pre"] dec option.case Let_def ADTSHeader.select_convs off idx raw
    using lt ne Cons.prems(3) by simp
  also have "\<dots> = (out @ [\<lparr>af_Raw = snd f, af_PTSms = base + of_nat (k * 1024000 div sr)\<rparr>]) @ bundle_frames base sr (Suc k) fs"
    using Cons.IH [of "Suc k" "pre @ fst f @ snd f"] Cons.prems by (simp add: ac_simps)
  finally show ?case by simp
qed

text \<open>
  no AAC frame of a bundle is lost or merged: when the decoder recognises every header, the payloads
  come out one by one, and frame \<open>k\<close> is stamped \<open>k\<close> times 1024 samples after the bundle, rounded down
  to the millisecond once and not per frame, so the stamps never fall behind by a millisecond.
\<close>
theorem splitADTSBundle_recovers_frames:
  assumes "list_all (decodes adts sr) fs" and "fs \<noteq> []" and "length fs < 2 ^ 40" and "0 < sr" and "sr < 2 ^ 32"
  shows "splitADTSBundle adts (bundle_of fs) base = bundle_frames base sr 0 fs"
proof -
  obtain f gs where fs: "fs = f # gs" using assms(2) by (cases fs) auto
  with assms(1) have d: "fst f \<noteq> []" "adts (fst f @ snd f @ bundle_of gs) =
      Some \<lparr>ah_HeaderLength = int (length (fst f)), ah_PayloadLength = int (length (snd f)), ah_Frequency = int sr\<rparr>"
    by (simp_all add: decodes_def)
  show ?thesis
    using split_adts_bundle [OF assms(1) _ assms(4,5), of 0 base "[]" "[]"] assms(3) d
    by (simp add: splitADTSBundle_def fs)
qed

definition toy_adts :: "byte list \<Rightarrow> ADTSHeader option" where
  "toy_adts b =
     (case b of x # n # _ \<Rightarrow>
        if x = 0xFF then Some \<lparr>ah_HeaderLength = 2, ah_PayloadLength = int (unat n), ah_Frequency = 48000\<rparr> else None
      | _ \<Rightarrow> None)"

theorem splitADTSBundle_recovers_frames_witness:
  "splitADTSBundle toy_adts [0xFF, 1, 7, 0xFF, 2, 8, 9, 0xFF, 1, 5] 1000 =
     [\<lparr>af_Raw = [7], af_PTSms = 1000\<rparr>, \<lparr>af_Raw = [8, 9], af_PTSms = 1021\<rparr>, \<lparr>af_Raw = [5], af_PTSms = 1042\<rparr>]"
proof -
  have "list_all (decodes toy_adts 48000) [([0xFF, 1], [7]), ([0xFF, 2], [8, 9]), ([0xFF, 1], [5])]"
    by (simp add: decodes_def toy_adts_def)
  from splitADTSBundle_recovers_frames [OF this, of 1000] show ?thesis by simp
qed

end
