(* ===== verification/Dash_Segmenter.thy ===== *)
theory Dash_Segmenter
  imports Dash_Queue
begin

text \<open>
  Segment cutting and the packager's state machine: \<^verbatim>\<open>internal/publisher/dash/segmenter.go\<close> and
  \<^verbatim>\<open>state.go\<close>. All \<^verbatim>\<open>uint64\<close> arithmetic is word arithmetic, so a subtraction that underflows in Go
  underflows here. The zero \<^verbatim>\<open>time.Time\<close> (\<^verbatim>\<open>IsZero\<close>) is \<open>None\<close>.
\<close>

record Segmenter =
  sg_segDur :: duration
  sg_maxFactor :: int
  sg_lastCut :: "gotime option"
  sg_residual :: u64

definition NewSegmenter :: "duration \<Rightarrow> int \<Rightarrow> Segmenter" where
  "NewSegmenter segDur maxFactor =
     \<lparr>sg_segDur = segDur, sg_maxFactor = (if maxFactor \<le> 1 then 3 else maxFactor), sg_lastCut = None,
      sg_residual = 0\<rparr>"

definition MarkCut :: "gotime \<Rightarrow> Segmenter \<Rightarrow> Segmenter" where
  "MarkCut now s = s\<lparr>sg_lastCut := Some now\<rparr>"

definition ResetSegmenter :: "Segmenter \<Rightarrow> Segmenter" where
  "ResetSegmenter s = s\<lparr>sg_lastCut := None, sg_residual := 0\<rparr>"

record CutDecision =
  cd_Ok :: bool
  cd_VideoCount :: int
  cd_AudioCount :: int
  cd_IsIDRAligned :: bool

definition no_cut :: CutDecision where
  "no_cut = \<lparr>cd_Ok = False, cd_VideoCount = 0, cd_AudioCount = 0, cd_IsIDRAligned = False\<rparr>"

text \<open>The scan of \<^verbatim>\<open>findIDRCutPoint\<close> from index \<open>i\<close>.\<close>

fun scan_idr :: "u64 \<Rightarrow> u64 \<Rightarrow> VideoFrame list \<Rightarrow> int \<Rightarrow> int" where
  "scan_idr first segDurMS [] i = -1"
| "scan_idr first segDurMS (f # fs) i =
     (if vf_PTSms f - first < segDurMS then scan_idr first segDurMS fs (i + 1)
      else if vf_IsIDR f then i - 1
      else scan_idr first segDurMS fs (i + 1))"

definition findIDRCutPoint :: "FrameQueue \<Rightarrow> u64 \<Rightarrow> int" where
  "findIDRCutPoint q segDurMS =
     (case FirstVideo q of
        None \<Rightarrow> -1
      | Some first \<Rightarrow>
          if VideoSpanMS q < segDurMS then -1
          else scan_idr (vf_PTSms first) segDurMS (tl (q_video q)) 1)"

text \<open>The duration in milliseconds that \<^verbatim>\<open>buildCutDecision\<close> couples the audio to.\<close>

definition cut_duration :: "FrameQueue \<Rightarrow> VideoFrame \<Rightarrow> int \<Rightarrow> u64" where
  "cut_duration q first lastVideoIdx =
     (let vCount = lastVideoIdx + 1 in
      (case videoPTSAt q vCount of
         Some nextPTSms \<Rightarrow>
           if vf_PTSms first < nextPTSms then nextPTSms - vf_PTSms first
           else (case videoPTSAt q lastVideoIdx of
               Some cutPTSms \<Rightarrow>
                 if vf_PTSms first < cutPTSms
                 then (let d = cutPTSms - vf_PTSms first in if 1 < vCount then d + d div word_of_int (vCount - 1) else d)
                 else 0
             | None \<Rightarrow> 0)
       | None \<Rightarrow>
           (case videoPTSAt q lastVideoIdx of
               Some cutPTSms \<Rightarrow>
                 if vf_PTSms first < cutPTSms
                 then (let d = cutPTSms - vf_PTSms first in if 1 < vCount then d + d div word_of_int (vCount - 1) else d)
                 else 0
             | None \<Rightarrow> 0)))"

definition buildCutDecision ::
  "FrameQueue \<Rightarrow> int \<Rightarrow> bool \<Rightarrow> bool \<Rightarrow> u64 \<Rightarrow> Segmenter \<Rightarrow> CutDecision \<times> Segmenter" where
  "buildCutDecision q lastVideoIdx haveAudio idrAligned audioSR s =
     (if lastVideoIdx < 0 then (no_cut, s)
      else
        let vCount = lastVideoIdx + 1;
            ok = (\<lambda>aCount. \<lparr>cd_Ok = True, cd_VideoCount = vCount, cd_AudioCount = aCount, cd_IsIDRAligned = idrAligned\<rparr>)
        in
        if haveAudio \<and> 0 < audioSR
        then (case FirstVideo q of
            None \<Rightarrow> (no_cut, s)
          | Some first \<Rightarrow>
              let vDurMs = cut_duration q first lastVideoIdx in
              if 0 < vDurMs
              then
                let totalSamples = vDurMs * audioSR div 1000 + sg_residual s;
                    targetA = sint (totalSamples div 1024);
                    residual = totalSamples - word_of_int targetA * 1024 in
                if int (AudioLen q) < targetA then (no_cut, s)
                else (ok targetA, s\<lparr>sg_residual := residual\<rparr>)
              else (ok 0, s))
        else (ok 0, s))"

definition ms_u64 :: "duration \<Rightarrow> u64" where
  "ms_u64 d = word_of_int (go_div d (millis 1))"

definition cutVideo ::
  "gotime \<Rightarrow> FrameQueue \<Rightarrow> u64 \<Rightarrow> u64 \<Rightarrow> bool \<Rightarrow> u64 \<Rightarrow> Segmenter \<Rightarrow> CutDecision \<times> Segmenter" where
  "cutVideo now q segDurMS maxElapsedMS haveAudio audioSR s =
     (let idx = findIDRCutPoint q segDurMS in
      if 0 \<le> idx then buildCutDecision q idx haveAudio True audioSR s
      else
        let elapsed = (case sg_lastCut s of None \<Rightarrow> 0 | Some t \<Rightarrow> go_div (now - t) (millis 1)) in
        if sg_lastCut s \<noteq> None \<and> 0 < elapsed \<and> maxElapsedMS \<le> word_of_int elapsed
        then buildCutDecision q (int (VideoLen q) - 1) haveAudio False audioSR s
        else if sg_lastCut s = None \<and> maxElapsedMS \<le> VideoSpanMS q
        then buildCutDecision q (int (VideoLen q) - 1) haveAudio False audioSR s
        else (no_cut, s))"

definition cutAudioOnly :: "FrameQueue \<Rightarrow> u64 \<Rightarrow> CutDecision" where
  "cutAudioOnly q segDurMS =
     (case FirstAudio q of
        None \<Rightarrow> no_cut
      | Some first \<Rightarrow>
          if AudioSpanMS q < segDurMS then no_cut
          else
            let count = audioCountAtOrBefore (af_PTSms first + segDurMS) q;
                count1 = (if count = 0 then 1 else count)
            in \<lparr>cd_Ok = True, cd_VideoCount = 0, cd_AudioCount = int count1, cd_IsIDRAligned = True\<rparr>)"

definition Cut ::
  "gotime \<Rightarrow> FrameQueue \<Rightarrow> bool \<Rightarrow> bool \<Rightarrow> u64 \<Rightarrow> Segmenter \<Rightarrow> CutDecision \<times> Segmenter" where
  "Cut now q haveVideo haveAudio audioSR s =
     (let segDurMS = ms_u64 (sg_segDur s);
          maxElapsedMS = segDurMS * word_of_int (sg_maxFactor s) in
      if haveVideo \<and> 0 < VideoLen q then cutVideo now q segDurMS maxElapsedMS haveAudio audioSR s
      else if \<not> haveVideo \<and> haveAudio \<and> 0 < AudioLen q then (cutAudioOnly q segDurMS, s)
      else (no_cut, s))"

subsection \<open>The cut falls just before an IDR\<close>

lemma scan_idr_spec:
  assumes "scan_idr first d fs i = r" and "r \<noteq> -1" and "0 < i"
  shows "\<exists>k < length fs. r = i + int k - 1 \<and> vf_IsIDR (fs ! k) \<and> \<not> vf_PTSms (fs ! k) - first < d \<and>
    (\<forall>j < k. \<not> (vf_IsIDR (fs ! j) \<and> \<not> vf_PTSms (fs ! j) - first < d))"
  using assms
proof (induction fs arbitrary: i)
  case Nil
  then show ?case by simp
next
  case (Cons f fs)
  show ?case
  proof (cases "vf_IsIDR f \<and> \<not> vf_PTSms f - first < d")
    case True
    with Cons.prems show ?thesis by (intro exI [of _ 0]) auto
  next
    case False
    with Cons.prems have "scan_idr first d fs (i + 1) = r" by (auto split: if_splits)
    from Cons.IH [OF this] Cons.prems obtain k where
      "k < length fs" "r = i + 1 + int k - 1" "vf_IsIDR (fs ! k)" "\<not> vf_PTSms (fs ! k) - first < d"
      "\<forall>j < k. \<not> (vf_IsIDR (fs ! j) \<and> \<not> vf_PTSms (fs ! j) - first < d)" by auto
    with False show ?thesis
      by (intro exI [of _ "Suc k"]) (auto simp: less_Suc_eq_0_disj)
  qed
qed

lemma scan_idr_none:
  "scan_idr first d fs i = -1 \<Longrightarrow> 0 < i \<Longrightarrow> j < length fs \<Longrightarrow> vf_IsIDR (fs ! j) \<Longrightarrow>
   vf_PTSms (fs ! j) - first < d"
  by (induction fs arbitrary: i j) (auto simp: nth_Cons' split: if_splits)

lemma buildCutDecision_fields:
  assumes "buildCutDecision q i haveAudio al sr s = (d, s')" and "cd_Ok d"
  shows "0 \<le> i \<and> cd_VideoCount d = i + 1 \<and> cd_IsIDRAligned d = al"
  using assms by (auto simp: buildCutDecision_def no_cut_def Let_def split: if_splits option.splits)

lemma buildCutDecision_audio:
  assumes "buildCutDecision q i haveAudio al sr s = (d, s')"
  shows "cd_AudioCount d \<le> int (AudioLen q)"
  using assms by (auto simp: buildCutDecision_def no_cut_def Let_def split: if_splits option.splits)

lemma findIDR_spec:
  assumes "findIDRCutPoint q d = r" and "0 \<le> r"
  shows "\<exists>k. r = int k \<and> Suc k < length (q_video q) \<and> vf_IsIDR (q_video q ! Suc k) \<and>
    d \<le> vf_PTSms (q_video q ! Suc k) - vf_PTSms (q_video q ! 0) \<and>
    (\<forall>j. 0 < j \<longrightarrow> j \<le> k \<longrightarrow> \<not> (vf_IsIDR (q_video q ! j) \<and> d \<le> vf_PTSms (q_video q ! j) - vf_PTSms (q_video q ! 0)))"
proof -
  from assms obtain f fs where q: "q_video q = f # fs"
    by (cases "q_video q") (auto simp: findIDRCutPoint_def FirstVideo_def)
  with assms have "scan_idr (vf_PTSms f) d fs 1 = r"
    by (auto simp: findIDRCutPoint_def FirstVideo_def split: if_splits)
  from scan_idr_spec [OF this] assms(2) obtain k where k: "k < length fs" "r = int k" "vf_IsIDR (fs ! k)"
    "\<not> vf_PTSms (fs ! k) - vf_PTSms f < d"
    "\<forall>j < k. \<not> (vf_IsIDR (fs ! j) \<and> \<not> vf_PTSms (fs ! j) - vf_PTSms f < d)" by auto
  have "\<not> (vf_IsIDR ((f # fs) ! j) \<and> d \<le> vf_PTSms ((f # fs) ! j) - vf_PTSms f)" if "0 < j" "j \<le> k" for j
    using k(5) [rule_format, of "j - 1"] that by (auto simp: nth_Cons' not_less)
  then show ?thesis using k q by (intro exI [of _ k]) (auto simp: not_less)
qed


text \<open>
  every aligned cut of a stream with video leaves an IDR at the head of the queue, at least the target
  duration after the first frame (in \<^verbatim>\<open>uint64\<close> arithmetic), and it is the first such IDR: no earlier frame qualifies. What is
  popped is exactly the frames before it.
\<close>
theorem aligned_cut_leaves_first_idr:
  assumes "Cut now q True haveAudio sr s = (d, s')" and "cd_Ok d" and "cd_IsIDRAligned d"
  shows "\<exists>k. cd_VideoCount d = int (Suc k) \<and> Suc k < length (q_video q) \<and>
    fst (PopVideo (cd_VideoCount d) q) = q\<lparr>q_video := drop (Suc k) (q_video q)\<rparr> \<and>
    snd (PopVideo (cd_VideoCount d) q) = take (Suc k) (q_video q) \<and>
    vf_IsIDR (hd (drop (Suc k) (q_video q))) \<and>
    ms_u64 (sg_segDur s) \<le> vf_PTSms (hd (drop (Suc k) (q_video q))) - vf_PTSms (hd (q_video q)) \<and>
    (\<forall>j. 0 < j \<longrightarrow> j \<le> k \<longrightarrow>
       \<not> (vf_IsIDR (q_video q ! j) \<and> ms_u64 (sg_segDur s) \<le> vf_PTSms (q_video q ! j) - vf_PTSms (q_video q ! 0)))"
proof -
  let ?d = "ms_u64 (sg_segDur s)"
  let ?i = "findIDRCutPoint q ?d"
  have ne: "q_video q \<noteq> []"
    using assms by (auto simp: Cut_def VideoLen_def no_cut_def Let_def split: if_splits)
  have run: "cutVideo now q ?d (?d * word_of_int (sg_maxFactor s)) haveAudio sr s = (d, s')"
    using assms(1) ne by (simp add: Cut_def VideoLen_def Let_def)
  have i: "0 \<le> ?i"
  proof (rule ccontr)
    assume "\<not> 0 \<le> ?i"
    then have "\<not> cd_IsIDRAligned d" using run assms(2)
      by (auto simp: cutVideo_def Let_def no_cut_def split: if_splits dest!: buildCutDecision_fields)
    with assms(3) show False by simp
  qed
  then have "buildCutDecision q ?i haveAudio True sr s = (d, s')" using run by (simp add: cutVideo_def Let_def)
  from buildCutDecision_fields [OF this assms(2)] have vc: "cd_VideoCount d = ?i + 1" by simp
  from findIDR_spec [OF refl i] obtain k where k: "?i = int k" "Suc k < length (q_video q)"
    "vf_IsIDR (q_video q ! Suc k)" "?d \<le> vf_PTSms (q_video q ! Suc k) - vf_PTSms (q_video q ! 0)"
    "\<forall>j. 0 < j \<longrightarrow> j \<le> k \<longrightarrow> \<not> (vf_IsIDR (q_video q ! j) \<and> ?d \<le> vf_PTSms (q_video q ! j) - vf_PTSms (q_video q ! 0))"
    by blast
  have "nat (int k + 1) = Suc k" by simp
  then show ?thesis using vc k ne
    by (intro exI [of _ k]) (simp add: PopVideo_def Let_def hd_drop_conv_nth hd_conv_nth)
qed

subsection \<open>Audio follows video\<close>

definition small_pts :: "FrameQueue \<Rightarrow> bool" where
  "small_pts q \<longleftrightarrow> list_all (\<lambda>f. unat (vf_PTSms f) < 2 ^ 40) (q_video q)"

lemma videoPTSAt_small: "small_pts q \<Longrightarrow> videoPTSAt q i = Some t \<Longrightarrow> unat t < 2 ^ 40"
  by (auto simp: small_pts_def videoPTSAt_def list_all_length split: if_splits)

lemma sub_small:
  fixes x y :: u64
  assumes "y < x" and "unat x < 2 ^ 40"
  shows "unat (x - y) < 2 ^ 40"
proof -
  have "unat (x - y) = unat x - unat y" using assms(1) by (intro unat_sub) simp
  with assms(2) show ?thesis by linarith
qed

lemma stretch_small:
  fixes d k :: u64
  assumes "unat d < 2 ^ 40"
  shows "unat (d + d div k) < 2 ^ 41"
proof -
  have "unat (d div k) \<le> unat d" unfolding unat_div by (rule div_le_dividend)
  moreover have "unat (d + d div k) \<le> unat d + unat (d div k)" unfolding unat_word_ariths(1) by (rule mod_less_eq_dividend)
  ultimately show ?thesis using assms by simp
qed

lemma cut_duration_small:
  assumes "small_pts q"
  shows "unat (cut_duration q f i) < 2 ^ 41"
proof -
  have a: "unat (t - vf_PTSms f) < 2199023255552"
      "unat (t - vf_PTSms f + (t - vf_PTSms f) div k) < 2199023255552"
    if "videoPTSAt q j = Some t" "vf_PTSms f < t" for j t k
    using sub_small [OF that(2) videoPTSAt_small [OF assms that(1)]] stretch_small [of "t - vf_PTSms f" k] by simp_all
  show ?thesis unfolding cut_duration_def Let_def
    by (auto split: option.split intro: a)
qed


text \<open>The audio samples a cut has to carry: its duration times the sample rate.\<close>

definition cut_samples :: "FrameQueue \<Rightarrow> u64 \<Rightarrow> CutDecision \<Rightarrow> nat" where
  "cut_samples q sr d =
     (if cd_Ok d
      then unat (cut_duration q (hd (q_video q)) (cd_VideoCount d - 1)) * unat sr div 1000 else 0)"

lemma total_samples:
  fixes dur sr res :: u64
  assumes "unat dur < 2 ^ 41" and "unat sr < 2 ^ 20" and "unat res < 1024"
  shows "unat (dur * sr div 1000 + res) = unat dur * unat sr div 1000 + unat res"
    and "unat dur * unat sr div 1000 + unat res < 2 ^ 62"
proof -
  have "unat dur * unat sr \<le> 2 ^ 41 * 2 ^ 20" using assms by (intro mult_mono) simp_all
  then have m: "unat dur * unat sr < 2 ^ 62" by simp
  then have p: "unat (dur * sr) = unat dur * unat sr" by (simp add: unat_word_ariths)
  have "unat dur * unat sr div 1000 \<le> unat dur * unat sr" by (rule div_le_dividend)
  then have le: "unat dur * unat sr div 1000 + unat res < 2 ^ 61 + 2 ^ 61"
    using assms \<open>unat dur * unat sr \<le> 2 ^ 41 * 2 ^ 20\<close> by simp
  then show "unat dur * unat sr div 1000 + unat res < 2 ^ 62" by simp
  with p show "unat (dur * sr div 1000 + res) = unat dur * unat sr div 1000 + unat res"
    by (simp add: unat_word_ariths unat_div)
qed

lemma buildCutDecision_samples:
  assumes run: "buildCutDecision q i True al sr s = (d, s')"
    and "small_pts q" and sr: "0 < sr" "unat sr < 2 ^ 20" and res: "unat (sg_residual s) < 1024"
  shows "1024 * cd_AudioCount d + int (unat (sg_residual s')) = int (cut_samples q sr d) + int (unat (sg_residual s)) \<and>
    unat (sg_residual s') < 1024 \<and> 0 \<le> cd_AudioCount d \<and> sg_segDur s' = sg_segDur s"
proof (cases "q_video q = [] \<or> i < 0")
  case True
  then have "d = no_cut" "s' = s"
    using run sr(1) by (auto simp: buildCutDecision_def FirstVideo_def Let_def split: if_splits)
  with res show ?thesis by (simp add: no_cut_def cut_samples_def)
next
  case False
  define f where "f = hd (q_video q)"
  have first: "FirstVideo q = Some f" using False by (simp add: FirstVideo_def f_def hd_conv_nth)
  define dur where "dur = cut_duration q f i"
  have dsm: "unat dur < 2 ^ 41" unfolding dur_def by (rule cut_duration_small [OF assms(2)])
  define tot where "tot = dur * sr div 1000 + sg_residual s"
  note ts = total_samples [OF dsm sr(2) res, folded tot_def]
  have tgt: "sint (tot div 1024) = int (unat tot div 1024)"
    using ts by (subst sint_small) (simp_all add: unat_div)
  have rem: "unat (tot - word_of_int (int (unat tot div 1024)) * 1024) = unat tot mod 1024"
  proof -
    have "word_of_int (int (unat tot div 1024)) * 1024 = (of_nat (unat tot div 1024 * 1024) :: u64)" by simp
    moreover have "tot = of_nat (unat tot)" by simp
    ultimately have "tot - word_of_int (int (unat tot div 1024)) * 1024 = of_nat (unat tot - unat tot div 1024 * 1024)"
      by (metis div_times_less_eq_dividend of_nat_diff)
    also have "\<dots> = of_nat (unat tot mod 1024)" by (simp add: minus_div_mult_eq_mod)
    finally show ?thesis by (simp add: unat_of_nat)
  qed
  have split: "1024 * int (unat tot div 1024) + int (unat tot mod 1024) = int (unat tot)"
    by (metis mult_div_mod_eq of_nat_add of_nat_mult of_nat_numeral)
  show ?thesis
  proof (cases "0 < dur")
    case False
    then have "dur = 0" by (simp add: word_gt_0)
    with run first \<open>\<not> (q_video q = [] \<or> i < 0)\<close> sr(1) res show ?thesis
      by (auto simp: buildCutDecision_def Let_def dur_def [symmetric] cut_samples_def f_def [symmetric])
  next
    case True
    show ?thesis
    proof (cases "int (AudioLen q) < int (unat tot div 1024)")
      case hold: True
      then have "d = no_cut" "s' = s"
        using run first True \<open>\<not> (q_video q = [] \<or> i < 0)\<close> sr(1)
        by (simp_all add: buildCutDecision_def Let_def dur_def [symmetric] tot_def [symmetric] tgt)
      then show ?thesis using res by (simp add: no_cut_def cut_samples_def)
    next
      case False
      then have d: "d = \<lparr>cd_Ok = True, cd_VideoCount = i + 1, cd_AudioCount = int (unat tot div 1024), cd_IsIDRAligned = al\<rparr>"
        "s' = s\<lparr>sg_residual := tot - word_of_int (int (unat tot div 1024)) * 1024\<rparr>"
        using run first True \<open>\<not> (q_video q = [] \<or> i < 0)\<close> sr(1)
        by (simp_all add: buildCutDecision_def Let_def dur_def [symmetric] tot_def [symmetric] tgt)
      then show ?thesis using rem split ts(1)
        by (simp add: cut_samples_def f_def [symmetric] dur_def [symmetric])
    qed
  qed
qed


text \<open>A packager's run: one call of \<^verbatim>\<open>Cut\<close> per tick, on whatever the queue holds at that moment.\<close>

fun cut_run :: "u64 \<Rightarrow> (gotime \<times> FrameQueue) list \<Rightarrow> Segmenter \<Rightarrow> (FrameQueue \<times> CutDecision) list \<times> Segmenter" where
  "cut_run sr [] s = ([], s)"
| "cut_run sr ((now, q) # ts) s =
     (case Cut now q True True sr s of (d, s1) \<Rightarrow>
        (case cut_run sr ts (if cd_Ok d then MarkCut now s1 else s1) of (ds, s2) \<Rightarrow> ((q, d) # ds, s2)))"

lemma Cut_samples:
  assumes run: "Cut now q True True sr s = (d, s')"
    and "small_pts q" and sr: "0 < sr" "unat sr < 2 ^ 20" and res: "unat (sg_residual s) < 1024"
  shows "1024 * cd_AudioCount d + int (unat (sg_residual s')) = int (cut_samples q sr d) + int (unat (sg_residual s)) \<and>
    unat (sg_residual s') < 1024"
proof -
  have none: ?thesis if "d = no_cut" "s' = s" using that res by (simp add: no_cut_def cut_samples_def)
  show ?thesis
  proof (cases "\<exists>i al. buildCutDecision q i True al sr s = (d, s')")
    case True
    with buildCutDecision_samples [OF _ assms(2) sr res] show ?thesis by blast
  next
    case False
    then have "d = no_cut \<and> s' = s" using run
      by (auto simp: Cut_def cutVideo_def Let_def split: if_splits)
    then show ?thesis using none by blast
  qed
qed

lemma cut_run_samples:
  "list_all (small_pts \<circ> snd) ts \<Longrightarrow> 0 < sr \<Longrightarrow> unat sr < 2 ^ 20 \<Longrightarrow> unat (sg_residual s) < 1024 \<Longrightarrow>
   1024 * (\<Sum>x \<leftarrow> fst (cut_run sr ts s). cd_AudioCount (snd x)) + int (unat (sg_residual (snd (cut_run sr ts s)))) =
     int (\<Sum>x \<leftarrow> fst (cut_run sr ts s). cut_samples (fst x) sr (snd x)) + int (unat (sg_residual s)) \<and>
   unat (sg_residual (snd (cut_run sr ts s))) < 1024"
proof (induction ts arbitrary: s)
  case Nil
  then show ?case by simp
next
  case (Cons t ts)
  obtain now q where t: "t = (now, q)" by fastforce
  obtain d s1 where c: "Cut now q True True sr s = (d, s1)" by fastforce
  let ?s = "if cd_Ok d then MarkCut now s1 else s1"
  have r: "sg_residual ?s = sg_residual s1" by (simp add: MarkCut_def)
  have q: "small_pts q" using Cons.prems(1) t by simp
  note step = Cut_samples [OF c q Cons.prems(2-4)]
  have ih: "1024 * (\<Sum>x \<leftarrow> fst (cut_run sr ts ?s). cd_AudioCount (snd x)) + int (unat (sg_residual (snd (cut_run sr ts ?s)))) =
     int (\<Sum>x \<leftarrow> fst (cut_run sr ts ?s). cut_samples (fst x) sr (snd x)) + int (unat (sg_residual s1)) \<and>
   unat (sg_residual (snd (cut_run sr ts ?s))) < 1024"
    using Cons.IH [of ?s] Cons.prems step r by simp
  have f: "fst (cut_run sr (t # ts) s) = (q, d) # fst (cut_run sr ts ?s)"
    "snd (cut_run sr (t # ts) s) = snd (cut_run sr ts ?s)"
    by (simp_all add: t c split_beta)
  show ?case unfolding f using step ih by (simp only: list.map sum_list.Cons fst_conv snd_conv of_nat_add distrib_left simp_thms) linarith
qed

text \<open>
  audio does not drift from video: over any number of cuts of a stream with both tracks, the audio
  samples handed out, 1024 per frame, and the residual together equal the samples that the video
  durations of the cuts call for; so the two differ by less than one audio frame, however long the
  stream runs.
\<close>
theorem audio_never_drifts_by_a_frame:
  assumes "list_all (small_pts \<circ> snd) ts" and "0 < sr" and "unat sr < 2 ^ 20"
    and "cut_run sr ts (NewSegmenter segDur maxFactor) = (cuts, s)"
  shows "0 \<le> int (\<Sum>(q, d) \<leftarrow> cuts. cut_samples q sr d) - 1024 * (\<Sum>(q, d) \<leftarrow> cuts. cd_AudioCount d) \<and>
    int (\<Sum>(q, d) \<leftarrow> cuts. cut_samples q sr d) - 1024 * (\<Sum>(q, d) \<leftarrow> cuts. cd_AudioCount d) < 1024"
proof -
  have "unat (sg_residual (NewSegmenter segDur maxFactor)) < 1024" by (simp add: NewSegmenter_def)
  note run = cut_run_samples [OF assms(1-3) this, unfolded assms(4) fst_conv snd_conv]
  have "sg_residual (NewSegmenter segDur maxFactor) = 0" by (simp add: NewSegmenter_def)
  moreover have "(\<lambda>(q, d). cut_samples q sr d) = (\<lambda>x. cut_samples (fst x) sr (snd x))"
    "(\<lambda>(q :: FrameQueue, d :: CutDecision). cd_AudioCount d) = (\<lambda>x. cd_AudioCount (snd x))" by auto
  moreover have "unat (0 :: u64) = 0" by simp
  ultimately show ?thesis using run by (simp only: of_nat_0) linarith
qed

definition vframe :: "u64 \<Rightarrow> bool \<Rightarrow> VideoFrame" where
  "vframe t idr = \<lparr>vf_AnnexB = [], vf_PTSms = t, vf_DTSms = t, vf_IsIDR = idr\<rparr>"

definition aframe :: "u64 \<Rightarrow> AudioFrame" where
  "aframe t = \<lparr>af_Raw = [], af_PTSms = t\<rparr>"

definition two_gops :: FrameQueue where
  "two_gops = \<lparr>q_video = [vframe 0 True, vframe 40 False, vframe 80 True, vframe 120 False],
     q_audio = [aframe 0, aframe 21, aframe 42, aframe 64]\<rparr>"

lemma two_gops_idx: "findIDRCutPoint two_gops 80 = 1"
  by (simp add: findIDRCutPoint_def two_gops_def FirstVideo_def VideoSpanMS_def vframe_def)
lemma two_gops_duration: "cut_duration two_gops (vframe 0 True) 1 = 80"
  by (simp add: cut_duration_def two_gops_def videoPTSAt_def vframe_def Let_def)
lemma two_gops_cut:
  "Cut 0 two_gops True True 48000 (NewSegmenter (millis 80) 3) =
     (\<lparr>cd_Ok = True, cd_VideoCount = 2, cd_AudioCount = 3, cd_IsIDRAligned = True\<rparr>,
      \<lparr>sg_segDur = millis 80, sg_maxFactor = 3, sg_lastCut = None, sg_residual = 768\<rparr>)"
proof -
  have d: "ms_u64 80000000 = 80" by (simp add: ms_u64_def go_div_def)
  have f: "FirstVideo two_gops = Some (vframe 0 True)" "AudioLen two_gops = 4" "VideoLen two_gops = 4"
    by (simp_all add: two_gops_def FirstVideo_def AudioLen_def VideoLen_def)
  show ?thesis
    by (simp add: Cut_def cutVideo_def d two_gops_idx two_gops_duration f NewSegmenter_def buildCutDecision_def Let_def)
qed

theorem aligned_cut_leaves_first_idr_witness:
  "vf_IsIDR (hd (q_video (fst (PopVideo (cd_VideoCount (fst (Cut 0 two_gops True True 48000 (NewSegmenter (millis 80) 3)))) two_gops))))"
proof -
  let ?c = "Cut 0 two_gops True True 48000 (NewSegmenter (millis 80) 3)"
  have r: "?c = (fst ?c, snd ?c)" by simp
  have ok: "cd_Ok (fst ?c)" and al: "cd_IsIDRAligned (fst ?c)" unfolding two_gops_cut by simp_all
  from aligned_cut_leaves_first_idr [OF r ok al] show ?thesis by auto
qed

theorem audio_never_drifts_by_a_frame_witness:
  "int (\<Sum>(q, d) \<leftarrow> fst (cut_run 48000 [(0, two_gops), (1, two_gops)] (NewSegmenter (millis 80) 3)). cut_samples q 48000 d)
     - 1024 * (\<Sum>(q, d) \<leftarrow> fst (cut_run 48000 [(0, two_gops), (1, two_gops)] (NewSegmenter (millis 80) 3)). cd_AudioCount d) < 1024"
proof -
  have small: "list_all (small_pts \<circ> snd) [(0 :: gotime, two_gops), (1, two_gops)]"
    by (simp add: small_pts_def two_gops_def vframe_def)
  have sr: "0 < (48000 :: u64)" "unat (48000 :: u64) < 2 ^ 20" by simp_all
  from audio_never_drifts_by_a_frame [OF small sr surjective_pairing] show ?thesis by (rule conjunct2)
qed

text \<open>
  the scan compares \<open>PTS - first\<close> in \<^verbatim>\<open>uint64\<close>, so an IDR whose PTS lies \<^emph>\<open>before\<close> the first frame's
  counts as far past it: with such an IDR second in the queue the cut is made right after the first
  frame, whatever the target duration, while the comment asks for an IDR at least the target past it.
\<close>
theorem out_of_order_idr_cuts_one_frame:
  assumes "q_video q = f # g # fs" and "vf_IsIDR g" and "vf_PTSms g < vf_PTSms f"
    and "unat (vf_PTSms f) < 2 ^ 40" and "unat d < 2 ^ 40" and "d \<le> VideoSpanMS q"
  shows "findIDRCutPoint q d = 0"
proof -
  let ?x = "vf_PTSms f" and ?y = "vf_PTSms g"
  have lt: "unat ?y < unat ?x" using assms(3) by (simp add: word_less_nat_alt)
  have "unat (?y - ?x) = 2 ^ 64 + unat ?y - unat ?x" using lt assms(4)
    by (simp add: unat_sub_if')
  then have "\<not> unat (?y - ?x) < unat d" using assms(4,5) by simp
  then have "\<not> ?y - ?x < d" by (simp add: word_less_nat_alt)
  moreover have "\<not> VideoSpanMS q < d" using assms(6) by simp
  ultimately show ?thesis using assms(1,2) by (simp add: findIDRCutPoint_def FirstVideo_def)
qed

theorem out_of_order_idr_cuts_one_frame_witness:
  "findIDRCutPoint \<lparr>q_video = [vframe 1000 True, vframe 990 True, vframe 3000 False], q_audio = []\<rparr> 2000 = 0"
  by (rule out_of_order_idr_cuts_one_frame [of _ "vframe 1000 True" "vframe 990 True" "[vframe 3000 False]"])
    (simp_all add: vframe_def VideoSpanMS_def)

subsection \<open>The packager's states\<close>

datatype PackagerState = StateWaitingForPairing | StateLive | StateSessionBoundary

record StateMachine =
  sm_state :: PackagerState
  sm_pairingTimeout :: duration
  sm_pairingDeadline :: "gotime option"

definition NewStateMachine :: "duration \<Rightarrow> StateMachine" where
  "NewStateMachine pairingTimeout =
     \<lparr>sm_state = StateWaitingForPairing,
      sm_pairingTimeout = (if pairingTimeout \<le> 0 then seconds 3 else pairingTimeout),
      sm_pairingDeadline = None\<rparr>"

definition OpenPairingWindow :: "gotime \<Rightarrow> StateMachine \<Rightarrow> StateMachine" where
  "OpenPairingWindow now sm =
     (if sm_state sm \<noteq> StateWaitingForPairing \<or> sm_pairingDeadline sm \<noteq> None then sm
      else sm\<lparr>sm_pairingDeadline := Some (now + sm_pairingTimeout sm)\<rparr>)"

definition CanEmitFirstSegment :: "gotime \<Rightarrow> bool \<Rightarrow> bool \<Rightarrow> StateMachine \<Rightarrow> bool" where
  "CanEmitFirstSegment now videoReady audioReady sm =
     (if sm_state sm \<noteq> StateWaitingForPairing then True
      else if videoReady \<and> audioReady then True
      else case sm_pairingDeadline sm of
          Some d \<Rightarrow> if \<not> now < d then videoReady \<or> audioReady else False
        | None \<Rightarrow> False)"

definition OnFirstSegmentFlushed :: "StateMachine \<Rightarrow> StateMachine" where
  "OnFirstSegmentFlushed sm = (if sm_state sm = StateWaitingForPairing then sm\<lparr>sm_state := StateLive\<rparr> else sm)"

definition OnSessionStart :: "StateMachine \<Rightarrow> StateMachine" where
  "OnSessionStart sm = (if sm_state sm = StateLive then sm\<lparr>sm_state := StateSessionBoundary\<rparr> else sm)"

definition OnSessionBoundaryHandled :: "StateMachine \<Rightarrow> StateMachine" where
  "OnSessionBoundaryHandled sm = (if sm_state sm = StateSessionBoundary then sm\<lparr>sm_state := StateLive\<rparr> else sm)"

lemmas sm_defs = OpenPairingWindow_def CanEmitFirstSegment_def OnFirstSegmentFlushed_def OnSessionStart_def
  OnSessionBoundaryHandled_def

end
