(* ===== verification/Dash_Packager.thy ===== *)
theory Dash_Packager
  imports Dash_Manifest Dash_Bytes Dash_Segmenter
begin

text \<open>
  The DASH packager, \<^verbatim>\<open>internal/publisher/dash/packager.go\<close> with the fragment builders of
  \<^verbatim>\<open>fmp4_writer.go\<close>: one record for the packager, one for what it has written (\<open>DashWorld\<close>), one
  definition per method. The mutex makes every method atomic. The codec and MP4 library is the record
  \<open>Mp4Lib\<close> of functions; whether a fragment could be encoded and written, and the manifest written, is
  the record \<open>WriteOk\<close> of an operation. \<^verbatim>\<open>time.Now()\<close> is an argument. Segment numbers are
  natural numbers: a \<^verbatim>\<open>uint64\<close> that counts segments does not wrap. Log lines and metrics are left out.
\<close>

subsection \<open>Initialisation segments\<close>

record TrackInfo =
  ti_Codec :: string
  ti_Width :: int
  ti_Height :: int
  ti_IsHEVC :: bool

record VideoInit =
  vi_Init :: "byte list"
  vi_TrackID :: nat
  vi_Info :: TrackInfo

record AudioInit =
  ai_Init :: "byte list"
  ai_TrackID :: nat
  ai_SampleRate :: int
  ai_Codec :: string

text \<open>
  The library: parameter-set scanners (VPS, SPS, PPS of a byte stream with 3-byte start codes), descriptor
  builders, the ADTS decoder, Annex-B conversion for H.264 and key frame tests.
\<close>

record Mp4Lib =
  ml_ParamSetsAVC :: "byte list \<Rightarrow> byte list list \<times> byte list list"
  ml_ParamSetsHEVC :: "byte list \<Rightarrow> byte list list \<times> byte list list \<times> byte list list"
  ml_AVC :: "byte list list \<Rightarrow> byte list list \<Rightarrow> VideoInit option"
  ml_HEVC :: "byte list list \<Rightarrow> byte list list \<Rightarrow> byte list list \<Rightarrow> VideoInit option"
  ml_ADTS :: "byte list \<Rightarrow> ADTSHeader option"
  ml_AAC :: "int \<Rightarrow> (byte list \<times> nat) option"
  ml_ToNaluSample :: "byte list \<Rightarrow> byte list"
  ml_ExtractNalus :: "byte list \<Rightarrow> byte list list"
  ml_IDR264 :: "byte list \<Rightarrow> bool"
  ml_IDR265 :: "byte list \<Rightarrow> bool"

definition BuildH264Init :: "Mp4Lib \<Rightarrow> byte list list \<Rightarrow> byte list list \<Rightarrow> VideoInit option" where
  "BuildH264Init lib spss ppss = (if length spss = 0 \<or> length ppss = 0 then None else ml_AVC lib spss ppss)"

definition BuildH265Init ::
  "Mp4Lib \<Rightarrow> byte list list \<Rightarrow> byte list list \<Rightarrow> byte list list \<Rightarrow> VideoInit option" where
  "BuildH265Init lib vpss spss ppss =
     (if length spss = 0 \<or> length ppss = 0 then None else ml_HEVC lib vpss spss ppss)"

definition BuildAACInit :: "Mp4Lib \<Rightarrow> ADTSHeader \<Rightarrow> AudioInit option" where
  "BuildAACInit lib hdr =
     (let sr = ah_Frequency hdr in
      if sr \<le> 0 then None
      else case ml_AAC lib sr of
          None \<Rightarrow> None
        | Some (init, track) \<Rightarrow>
            Some \<lparr>ai_Init = init, ai_TrackID = track, ai_SampleRate = sr, ai_Codec = ''mp4a.40.2''\<rparr>)"

definition ExtractParameterSets :: "Mp4Lib \<Rightarrow> byte list \<Rightarrow> byte list list \<times> byte list list" where
  "ExtractParameterSets lib annexB = ml_ParamSetsAVC lib (annexB4To3 annexB)"

definition ExtractHEVCParameterSets ::
  "Mp4Lib \<Rightarrow> byte list \<Rightarrow> byte list list \<times> byte list list \<times> byte list list" where
  "ExtractHEVCParameterSets lib annexB = ml_ParamSetsHEVC lib (annexB4To3 annexB)"

subsection \<open>Fragments\<close>

definition h264AnnexBToAVCC :: "Mp4Lib \<Rightarrow> byte list \<Rightarrow> byte list" where
  "h264AnnexBToAVCC lib annexB =
     (if length annexB = 0 then []
      else let avcc = ml_ToNaluSample lib annexB in
        if 0 < length avcc then avcc
        else let nalus = ml_ExtractNalus lib annexB in
          if length nalus = 0 then [] else fold (\<lambda>nalu out. appendLengthPrefixedNALU out nalu) nalus [])"

record Sample =
  smp_Sync :: bool
  smp_Dur :: "32 word"
  smp_Size :: "32 word"
  smp_CTO :: "32 word"
  smp_DecodeTime :: u64
  smp_Data :: "byte list"

record Fragment =
  fr_SeqNum :: "32 word"
  fr_TrackID :: nat
  fr_Samples :: "Sample list"

fun video_samples :: "Mp4Lib \<Rightarrow> bool \<Rightarrow> 32 word \<Rightarrow> u64 \<Rightarrow> u64 \<Rightarrow> VideoFrame list \<Rightarrow> Sample list" where
  "video_samples lib isHEVC frameDur tfdt cumulative [] = []"
| "video_samples lib isHEVC frameDur tfdt cumulative (f # fs) =
     (let avcc = (if isHEVC then hevcAnnexBToAVCC (vf_AnnexB f) else h264AnnexBToAVCC lib (vf_AnnexB f)) in
      if length avcc = 0 then video_samples lib isHEVC frameDur tfdt cumulative fs
      else \<lparr>smp_Sync = vf_IsIDR f, smp_Dur = frameDur, smp_Size = of_nat (length avcc),
            smp_CTO = ucast ((vf_PTSms f - vf_DTSms f) * 90), smp_DecodeTime = tfdt + cumulative, smp_Data = avcc\<rparr>
           # video_samples lib isHEVC frameDur tfdt (cumulative + ucast frameDur) fs)"

definition frame_dur :: "u64 \<Rightarrow> nat \<Rightarrow> 32 word" where
  "frame_dur segDurTicks n = (let d = ucast (segDurTicks div of_nat n) in if d = 0 then 1 else d)"

definition BuildVideoFragment ::
  "Mp4Lib \<Rightarrow> 32 word \<Rightarrow> nat \<Rightarrow> u64 \<Rightarrow> VideoFrame list \<Rightarrow> bool \<Rightarrow> u64 \<Rightarrow> Fragment option" where
  "BuildVideoFragment lib seqNum trackID tfdtTicks frames isHEVC segDurTicks =
     (if length frames = 0 then None
      else Some \<lparr>fr_SeqNum = seqNum, fr_TrackID = trackID,
        fr_Samples = video_samples lib isHEVC (frame_dur segDurTicks (length frames)) tfdtTicks 0 frames\<rparr>)"

fun audio_samples :: "u64 \<Rightarrow> u64 \<Rightarrow> AudioFrame list \<Rightarrow> Sample list" where
  "audio_samples tfdt cumulative [] = []"
| "audio_samples tfdt cumulative (f # fs) =
     (if length (af_Raw f) = 0 then audio_samples tfdt cumulative fs
      else \<lparr>smp_Sync = True, smp_Dur = 1024, smp_Size = of_nat (length (af_Raw f)), smp_CTO = 0,
            smp_DecodeTime = tfdt + cumulative, smp_Data = af_Raw f\<rparr>
           # audio_samples tfdt (cumulative + 1024) fs)"

definition BuildAudioFragment :: "32 word \<Rightarrow> nat \<Rightarrow> u64 \<Rightarrow> AudioFrame list \<Rightarrow> Fragment option" where
  "BuildAudioFragment seqNum trackID tfdtTicks frames =
     (if length frames = 0 then None
      else Some \<lparr>fr_SeqNum = seqNum, fr_TrackID = trackID, fr_Samples = audio_samples tfdtTicks 0 frames\<rparr>)"

subsection \<open>The packager\<close>

definition videoPSAccumCap :: nat where "videoPSAccumCap = 4 * 1024"
definition trackLossTimeout :: duration where "trackLossTimeout = seconds 6"
definition defaultPairingTimeout :: duration where "defaultPairingTimeout = seconds 3"
definition defaultMaxSegFactor :: int where "defaultMaxSegFactor = 3"
definition VideoTimescale :: u64 where "VideoTimescale = 90000"
definition dashVideoInitFile :: string where "dashVideoInitFile = ''init_v.mp4''"
definition dashAudioInitFile :: string where "dashAudioInitFile = ''init_a.mp4''"
definition dashVideoMediaPattern :: string where "dashVideoMediaPattern = ''seg_v_$Number%05d$.m4s''"
definition dashAudioMediaPattern :: string where "dashAudioMediaPattern = ''seg_a_$Number%05d$.m4s''"

record DashConfig =
  dc_StreamDir :: string
  dc_ManifestPath :: string
  dc_SegDur :: duration
  dc_Window :: int
  dc_History :: int
  dc_Ephemeral :: bool
  dc_PairingTimeout :: duration
  dc_HasMaster :: bool
  dc_ABRSlug :: string
  dc_PackAudio :: bool
  dc_OverrideBandwidth :: int

record Packager =
  p_cfg :: DashConfig
  p_state :: StateMachine
  p_queue :: FrameQueue
  p_seg :: Segmenter
  p_videoInit :: "VideoInit option"
  p_audioInit :: "AudioInit option"
  p_videoPS :: "byte list"
  p_videoPSGivenUp :: bool
  p_isHEVC :: bool
  p_availStart :: "gotime option"
  p_vSegN :: nat
  p_aSegN :: nat
  p_lastVideoFrameAt :: "gotime option"
  p_lastAudioFrameAt :: "gotime option"
  p_pairingTruncated :: bool
  p_onDiskV :: "string list"
  p_onDiskA :: "string list"
  p_vSegEntries :: "SegmentEntry list"
  p_aSegEntries :: "SegmentEntry list"
  p_videoOverflowDropCount :: nat
  p_audioOverflowDropCount :: nat
  p_videoOOOPushCount :: nat
  p_audioOOOPushCount :: nat
  p_videoFrameSeen :: bool
  p_audioFrameSeen :: bool
  p_firstIDRSeen :: bool
  p_starvedAudioCutCount :: nat
  p_lastDiagLogAt :: "gotime option"

text \<open>The segment files in the stream directory, the stream's manifest and the ABR master.\<close>

record DashWorld =
  w_files :: "string \<Rightarrow> Fragment option"
  w_mpd :: "mpdRoot option"
  w_master :: ABRMaster

record WriteOk =
  ok_video :: bool
  ok_audio :: bool
  ok_mpd :: bool

definition NewPackager :: "DashConfig \<Rightarrow> string + Packager" where
  "NewPackager cfg0 =
     (if dc_StreamDir cfg0 = '''' then Inl ''dash packager: StreamDir is required''
      else
        let cfg1 = (if dc_SegDur cfg0 \<le> 0 then cfg0\<lparr>dc_SegDur := seconds 2\<rparr> else cfg0);
            cfg2 = (if dc_Window cfg1 \<le> 0 then cfg1\<lparr>dc_Window := 6\<rparr> else cfg1);
            cfg = (if dc_PairingTimeout cfg2 \<le> 0 then cfg2\<lparr>dc_PairingTimeout := defaultPairingTimeout\<rparr> else cfg2)
        in Inr \<lparr>p_cfg = cfg, p_state = NewStateMachine (dc_PairingTimeout cfg), p_queue = NewFrameQueue,
          p_seg = NewSegmenter (dc_SegDur cfg) defaultMaxSegFactor, p_videoInit = None, p_audioInit = None,
          p_videoPS = [], p_videoPSGivenUp = False, p_isHEVC = False, p_availStart = None, p_vSegN = 0, p_aSegN = 0,
          p_lastVideoFrameAt = None, p_lastAudioFrameAt = None, p_pairingTruncated = False, p_onDiskV = [],
          p_onDiskA = [], p_vSegEntries = [], p_aSegEntries = [], p_videoOverflowDropCount = 0,
          p_audioOverflowDropCount = 0, p_videoOOOPushCount = 0, p_audioOOOPushCount = 0, p_videoFrameSeen = False,
          p_audioFrameSeen = False, p_firstIDRSeen = False, p_starvedAudioCutCount = 0, p_lastDiagLogAt = None\<rparr>)"

subsubsection \<open>Frames coming in\<close>

definition accumulateVideoPS :: "Mp4Lib \<Rightarrow> byte list \<Rightarrow> Packager \<Rightarrow> Packager" where
  "accumulateVideoPS lib annexB p =
     (let psBuf = annexB4To3 annexB;
          nals = (if p_isHEVC p
                  then (case ml_ParamSetsHEVC lib psBuf of (vpss, spss, ppss) \<Rightarrow> vpss @ spss @ ppss)
                  else (case ml_ParamSetsAVC lib psBuf of (spss, ppss) \<Rightarrow> spss @ ppss));
          ps = fold (\<lambda>n acc. acc @ [0, 0, 0, 1] @ n) nals (p_videoPS p)
      in p\<lparr>p_videoPS := ps, p_videoPSGivenUp := (if videoPSAccumCap < length ps then True else p_videoPSGivenUp p)\<rparr>)"

definition installVideoInit :: "VideoInit \<Rightarrow> Packager \<Rightarrow> Packager" where
  "installVideoInit vi p = p\<lparr>p_videoInit := Some vi, p_videoPS := []\<rparr>"

definition tryBuildVideoInit :: "Mp4Lib \<Rightarrow> Packager \<Rightarrow> Packager" where
  "tryBuildVideoInit lib p =
     (if p_isHEVC p
      then (case ExtractHEVCParameterSets lib (p_videoPS p) of (vpss, spss, ppss) \<Rightarrow>
          if length spss = 0 \<or> length ppss = 0 then p
          else case BuildH265Init lib vpss spss ppss of None \<Rightarrow> p | Some vi \<Rightarrow> installVideoInit vi p)
      else (case ExtractParameterSets lib (p_videoPS p) of (spss, ppss) \<Rightarrow>
          if length spss = 0 \<or> length ppss = 0 then p
          else case BuildH264Init lib spss ppss of None \<Rightarrow> p | Some vi \<Rightarrow> installVideoInit vi p))"

definition pushVideoWithDiag :: "VideoFrame \<Rightarrow> Packager \<Rightarrow> Packager" where
  "pushVideoWithDiag f p =
     (case PushVideo f (p_queue p) of (q, dropped, ooo) \<Rightarrow>
        p\<lparr>p_queue := q, p_videoOverflowDropCount := p_videoOverflowDropCount p + dropped,
          p_videoOOOPushCount := p_videoOOOPushCount p + (if ooo then 1 else 0)\<rparr>)"

definition pushAudioWithDiag :: "AudioFrame \<Rightarrow> Packager \<Rightarrow> Packager" where
  "pushAudioWithDiag f p =
     (case PushAudio f (p_queue p) of (q, dropped, ooo) \<Rightarrow>
        p\<lparr>p_queue := q, p_audioOverflowDropCount := p_audioOverflowDropCount p + dropped,
          p_audioOOOPushCount := p_audioOOOPushCount p + (if ooo then 1 else 0)\<rparr>)"

definition build_video_init :: "Mp4Lib \<Rightarrow> byte list \<Rightarrow> Packager \<Rightarrow> Packager" where
  "build_video_init lib b p =
     (if p_videoInit p = None \<and> \<not> p_videoPSGivenUp p then tryBuildVideoInit lib (accumulateVideoPS lib b p) else p)"

definition handleH264 :: "Mp4Lib \<Rightarrow> gotime \<Rightarrow> AVPacket \<Rightarrow> Packager \<Rightarrow> Packager" where
  "handleH264 lib now av p =
     (let p1 = build_video_init lib (av_Data av) (p\<lparr>p_videoFrameSeen := True\<rparr>) in
      if \<not> p_firstIDRSeen p1 \<and> \<not> av_KeyFrame av then p1
      else
        let p2 = p1\<lparr>p_firstIDRSeen := True\<rparr>;
            p3 = pushVideoWithDiag \<lparr>vf_AnnexB = av_Data av, vf_PTSms = word_of_int (av_PTSms av),
                   vf_DTSms = word_of_int (av_DTSms av), vf_IsIDR = av_KeyFrame av\<rparr> p2;
            p4 = p3\<lparr>p_lastVideoFrameAt := Some now\<rparr>
        in if p_videoInit p4 \<noteq> None then p4\<lparr>p_state := OpenPairingWindow now (p_state p4)\<rparr> else p4)"

definition build_audio_init :: "Mp4Lib \<Rightarrow> byte list \<Rightarrow> Packager \<Rightarrow> Packager" where
  "build_audio_init lib b p =
     (if p_audioInit p = None
      then (case ml_ADTS lib b of
          None \<Rightarrow> p
        | Some hdr \<Rightarrow> (case BuildAACInit lib hdr of None \<Rightarrow> p | Some ai \<Rightarrow> p\<lparr>p_audioInit := Some ai\<rparr>))
      else p)"

definition handleAAC :: "Mp4Lib \<Rightarrow> gotime \<Rightarrow> AVPacket \<Rightarrow> Packager \<Rightarrow> Packager" where
  "handleAAC lib now av p =
     (if \<not> dc_PackAudio (p_cfg p) then p
      else
        let p1 = p\<lparr>p_audioFrameSeen := True\<rparr>;
            frames = splitADTSBundle (ml_ADTS lib) (av_Data av) (word_of_int (av_PTSms av))
        in if length frames = 0 then p1
           else
             let p2 = build_audio_init lib (av_Data av) p1;
                 p3 = fold pushAudioWithDiag frames p2;
                 p4 = p3\<lparr>p_lastAudioFrameAt := Some now\<rparr>
             in if p_audioInit p4 \<noteq> None then p4\<lparr>p_state := OpenPairingWindow now (p_state p4)\<rparr> else p4)"

definition onAVPacket :: "Mp4Lib \<Rightarrow> gotime \<Rightarrow> AVPacket \<Rightarrow> Packager \<Rightarrow> Packager" where
  "onAVPacket lib now av p =
     (if av_Codec av = AVCodecH264 then handleH264 lib now av p
      else if av_Codec av = AVCodecH265 then handleH264 lib now av (p\<lparr>p_isHEVC := True\<rparr>)
      else if av_Codec av = AVCodecAAC then handleAAC lib now av p
      else p)"

text \<open>An access unit from the demuxer; the stream type is given by its codec.\<close>

definition onTSFrame :: "Mp4Lib \<Rightarrow> gotime \<Rightarrow> AVCodec \<Rightarrow> byte list \<Rightarrow> int \<Rightarrow> int \<Rightarrow> Packager \<Rightarrow> Packager" where
  "onTSFrame lib now cid frame pts dts p =
     (if length frame = 0 then p
      else
        let av = \<lparr>av_Codec = cid, av_Data = frame, av_PTSms = pts, av_DTSms = dts, av_KeyFrame = False\<rparr> in
        if cid = AVCodecH264 then onAVPacket lib now (av\<lparr>av_KeyFrame := ml_IDR264 lib frame\<rparr>) p
        else if cid = AVCodecH265 then onAVPacket lib now (av\<lparr>av_KeyFrame := ml_IDR265 lib frame\<rparr>) p
        else if cid = AVCodecAAC then onAVPacket lib now av p
        else p)"

definition onSessionBoundary :: "Packager \<Rightarrow> Packager" where
  "onSessionBoundary p =
     (let p1 = p\<lparr>p_state := OnSessionStart (p_state p)\<rparr>;
          q1 = fst (PopVideo (int (VideoLen (p_queue p1))) (p_queue p1));
          q2 = fst (PopAudio (int (AudioLen q1)) q1)
      in p1\<lparr>p_queue := q2, p_seg := ResetSegmenter (p_seg p1),
            p_state := OnSessionBoundaryHandled (p_state p1)\<rparr>)"

subsubsection \<open>Cutting and writing\<close>

definition wallclockTicks :: "gotime \<Rightarrow> gotime option \<Rightarrow> u64 \<Rightarrow> u64" where
  "wallclockTicks now ast timescale =
     (case ast of
        None \<Rightarrow> 0
      | Some t \<Rightarrow>
          let elapsed = go_div (now - t) (millis 1) in
          if elapsed \<le> 0 then 0 else word_of_int elapsed * timescale div 1000)"

definition end_ticks :: "SegmentEntry \<Rightarrow> u64" where
  "end_ticks e = se_StartTicks e + se_DurTicks e"

definition videoTfdtForSegment :: "SegmentEntry list \<Rightarrow> gotime \<Rightarrow> gotime option \<Rightarrow> u64" where
  "videoTfdtForSegment entries now ast =
     (if 0 < length entries then end_ticks (entries ! (length entries - 1))
      else wallclockTicks now ast VideoTimescale)"

definition audioTfdtForSegment :: "SegmentEntry list \<Rightarrow> gotime \<Rightarrow> gotime option \<Rightarrow> u64 \<Rightarrow> u64" where
  "audioTfdtForSegment entries now ast timescale =
     (if 0 < length entries then end_ticks (entries ! (length entries - 1))
      else wallclockTicks now ast timescale)"

definition computeVideoSegDurTicks :: "VideoFrame list \<Rightarrow> u64 option \<Rightarrow> u64" where
  "computeVideoSegDurTicks frames nextPTSms =
     (if length frames = 0 then VideoTimescale * 40 div 1000
      else
        let first = vf_PTSms (frames ! 0) in
        case (case nextPTSms of Some n \<Rightarrow> if first < n then Some n else None | None \<Rightarrow> None) of
          Some n \<Rightarrow> (n - first) * VideoTimescale div 1000
        | None \<Rightarrow>
            if length frames < 2 then VideoTimescale * 40 div 1000
            else
              let lst = vf_PTSms (frames ! (length frames - 1)) in
              if lst \<le> first then VideoTimescale * 40 div 1000
              else
                let span = lst - first; perFrame = span div of_nat (length frames - 1)
                in (span + perFrame) * VideoTimescale div 1000)"

definition seg_name :: "char \<Rightarrow> nat \<Rightarrow> string" where
  "seg_name kind n = ''seg_'' @ [kind] @ ''_'' @ zero_pad 5 n @ ''.m4s''"

definition audio_sr :: "Packager \<Rightarrow> u64" where
  "audio_sr p = (case p_audioInit p of Some ai \<Rightarrow> word_of_int (ai_SampleRate ai) | None \<Rightarrow> 0)"

text \<open>Whether a segment was written.\<close>

definition writeVideoSegment ::
  "Mp4Lib \<Rightarrow> gotime \<Rightarrow> WriteOk \<Rightarrow> VideoFrame list \<Rightarrow> u64 option \<Rightarrow> Packager \<times> DashWorld \<Rightarrow> bool \<times> Packager \<times> DashWorld" where
  "writeVideoSegment lib now io frames nextPTSms pw =
     (case pw of (p, w) \<Rightarrow>
        let n = p_vSegN p + 1;
            tfdt = videoTfdtForSegment (p_vSegEntries p) now (p_availStart p);
            segDurTicks = computeVideoSegDurTicks frames nextPTSms;
            track = (case p_videoInit p of Some vi \<Rightarrow> vi_TrackID vi | None \<Rightarrow> 0)
        in case BuildVideoFragment lib (of_nat n) track tfdt frames (p_isHEVC p) segDurTicks of
             None \<Rightarrow> (False, p, w)
           | Some frag \<Rightarrow>
               if \<not> ok_video io then (False, p, w)
               else (True,
                 p\<lparr>p_vSegN := n, p_onDiskV := p_onDiskV p @ [seg_name (CHR ''v'') n],
                   p_vSegEntries := p_vSegEntries p @ [\<lparr>se_StartTicks = tfdt, se_DurTicks = segDurTicks\<rparr>]\<rparr>,
                 w\<lparr>w_files := (w_files w)(seg_name (CHR ''v'') n := Some frag)\<rparr>))"

definition writeAudioSegment ::
  "gotime \<Rightarrow> WriteOk \<Rightarrow> AudioFrame list \<Rightarrow> Packager \<times> DashWorld \<Rightarrow> bool \<times> Packager \<times> DashWorld" where
  "writeAudioSegment now io frames pw =
     (case pw of (p, w) \<Rightarrow>
        let n = p_aSegN p + 1;
            tfdt = audioTfdtForSegment (p_aSegEntries p) now (p_availStart p) (audio_sr p);
            durTicks = of_nat (length frames) * 1024;
            track = (case p_audioInit p of Some ai \<Rightarrow> ai_TrackID ai | None \<Rightarrow> 0)
        in case BuildAudioFragment (of_nat n) track tfdt frames of
             None \<Rightarrow> (False, p, w)
           | Some frag \<Rightarrow>
               if \<not> ok_audio io then (False, p, w)
               else (True,
                 p\<lparr>p_aSegN := n, p_onDiskA := p_onDiskA p @ [seg_name (CHR ''a'') n],
                   p_aSegEntries := p_aSegEntries p @ [\<lparr>se_StartTicks = tfdt, se_DurTicks = durTicks\<rparr>]\<rparr>,
                 w\<lparr>w_files := (w_files w)(seg_name (CHR ''a'') n := Some frag)\<rparr>))"

definition write_video_part ::
  "Mp4Lib \<Rightarrow> gotime \<Rightarrow> WriteOk \<Rightarrow> CutDecision \<Rightarrow> Packager \<times> DashWorld \<Rightarrow> bool \<times> Packager \<times> DashWorld" where
  "write_video_part lib now io d pw =
     (case pw of (p, w) \<Rightarrow>
        if 0 < cd_VideoCount d \<and> p_videoInit p \<noteq> None
        then
          let nextPTSms = videoPTSAt (p_queue p) (cd_VideoCount d);
              popped = PopVideo (cd_VideoCount d) (p_queue p);
              p1 = p\<lparr>p_queue := fst popped\<rparr>
          in if 0 < length (snd popped) then writeVideoSegment lib now io (snd popped) nextPTSms (p1, w) else (False, p1, w)
        else (False, p, w))"

definition write_audio_part ::
  "gotime \<Rightarrow> WriteOk \<Rightarrow> CutDecision \<Rightarrow> Packager \<times> DashWorld \<Rightarrow> bool \<times> Packager \<times> DashWorld" where
  "write_audio_part now io d pw =
     (case pw of (p, w) \<Rightarrow>
        if 0 < cd_AudioCount d \<and> p_audioInit p \<noteq> None \<and> dc_PackAudio (p_cfg p)
        then
          let popped = PopAudio (cd_AudioCount d) (p_queue p);
              p1 = p\<lparr>p_queue := fst popped\<rparr>
          in if 0 < length (snd popped) then writeAudioSegment now io (snd popped) (p1, w) else (False, p1, w)
        else if 0 < cd_AudioCount d \<and> \<not> dc_PackAudio (p_cfg p)
        then (False, p\<lparr>p_queue := fst (PopAudio (cd_AudioCount d) (p_queue p))\<rparr>, w)
        else (False, p, w))"

definition writeSegments ::
  "Mp4Lib \<Rightarrow> gotime \<Rightarrow> WriteOk \<Rightarrow> CutDecision \<Rightarrow> Packager \<times> DashWorld \<Rightarrow> bool \<times> Packager \<times> DashWorld" where
  "writeSegments lib now io d pw =
     (case write_video_part lib now io d pw of (fv, pw1) \<Rightarrow>
        (case write_audio_part now io d pw1 of (fa, pw2) \<Rightarrow> (fv \<or> fa, pw2)))"

subsubsection \<open>The sliding window and the manifest\<close>

definition dropFrontStrings :: "string list \<Rightarrow> int \<Rightarrow> string list" where
  "dropFrontStrings s n =
     (if n \<le> 0 \<or> length s = 0 then s else if int (length s) \<le> n then [] else drop (nat n) s)"

definition dropFrontSegEntries :: "SegmentEntry list \<Rightarrow> int \<Rightarrow> SegmentEntry list" where
  "dropFrontSegEntries s n =
     (if n \<le> 0 \<or> length s = 0 then s else if int (length s) \<le> n then [] else drop (nat n) s)"

definition remove_files :: "string list \<Rightarrow> (string \<Rightarrow> Fragment option) \<Rightarrow> string \<Rightarrow> Fragment option" where
  "remove_files names fs = fold (\<lambda>n fs. fs(n := None)) names fs"

definition trim_video :: "int \<Rightarrow> Packager \<times> DashWorld \<Rightarrow> Packager \<times> DashWorld" where
  "trim_video maxKeep pw =
     (case pw of (p, w) \<Rightarrow>
        if maxKeep < int (length (p_onDiskV p))
        then
          let dropN = int (length (p_onDiskV p)) - maxKeep
          in (p\<lparr>p_onDiskV := dropFrontStrings (p_onDiskV p) dropN, p_vSegEntries := dropFrontSegEntries (p_vSegEntries p) dropN\<rparr>,
              w\<lparr>w_files := remove_files (take (nat dropN) (p_onDiskV p)) (w_files w)\<rparr>)
        else (p, w))"

definition trim_audio :: "int \<Rightarrow> Packager \<times> DashWorld \<Rightarrow> Packager \<times> DashWorld" where
  "trim_audio maxKeep pw =
     (case pw of (p, w) \<Rightarrow>
        if maxKeep < int (length (p_onDiskA p))
        then
          let dropN = int (length (p_onDiskA p)) - maxKeep
          in (p\<lparr>p_onDiskA := dropFrontStrings (p_onDiskA p) dropN, p_aSegEntries := dropFrontSegEntries (p_aSegEntries p) dropN\<rparr>,
              w\<lparr>w_files := remove_files (take (nat dropN) (p_onDiskA p)) (w_files w)\<rparr>)
        else (p, w))"

definition trimWindow :: "Packager \<times> DashWorld \<Rightarrow> Packager \<times> DashWorld" where
  "trimWindow pw =
     (let cfg = p_cfg (fst pw); maxKeep = dc_Window cfg + dc_History cfg
      in if \<not> dc_Ephemeral cfg then pw else trim_audio maxKeep (trim_video maxKeep pw))"

definition parseSegNum :: "string \<Rightarrow> nat" where
  "parseSegNum name =
     (if length name < length ''seg_v_00001.m4s'' then 1
      else
        let ds = rev (takeWhile is_digit (rev (take (length name - 4) name)))
        in if ds = [] then 1 else let n = dec_val ds in if n = 0 then 1 else n)"

definition startNumberFor :: "string list \<Rightarrow> int \<Rightarrow> nat" where
  "startNumberFor names window =
     (if length names = 0 then 1
      else parseSegNum (hd (if window < int (length names) then drop (nat (int (length names) - window)) names else names)))"

definition windowTail :: "SegmentEntry list \<Rightarrow> int \<Rightarrow> SegmentEntry list" where
  "windowTail segs n =
     (if int (length segs) \<le> n then segs else drop (nat (int (length segs) - n)) segs)"

definition repIDOr :: "string \<Rightarrow> string \<Rightarrow> string" where
  "repIDOr slug fallback = (if slug \<noteq> '''' then slug else fallback)"

definition firstTrack :: "TrackManifest list \<Rightarrow> TrackManifest option" where
  "firstTrack tracks = (if length tracks = 0 then None else Some (tracks ! 0))"

definition pathPrefix :: "DashConfig \<Rightarrow> string" where
  "pathPrefix cfg =
     (if dc_ABRSlug cfg \<noteq> '''' \<and> dc_ManifestPath cfg = '''' then dc_ABRSlug cfg @ ''/'' else '''')"

definition buildManifestInput_locked :: "gotime \<Rightarrow> Packager \<Rightarrow> ManifestInput option" where
  "buildManifestInput_locked now p =
     (let cfg = p_cfg p in
      if length (p_vSegEntries p) = 0 \<and> length (p_aSegEntries p) = 0 then None
      else Some
        \<lparr>mi_AvailabilityStart = p_availStart p, mi_PublishTime = Some now, mi_SegDur = dc_SegDur cfg,
         mi_Window = dc_Window cfg,
         mi_Video = (case p_videoInit p of
             Some vi \<Rightarrow>
               if 0 < length (p_vSegEntries p)
               then [\<lparr>tm_RepID = repIDOr (dc_ABRSlug cfg) ''v0'', tm_Codec = ti_Codec (vi_Info vi),
                  tm_Bandwidth = (if dc_OverrideBandwidth cfg = 0 then 5000000 else dc_OverrideBandwidth cfg),
                  tm_Width = ti_Width (vi_Info vi), tm_Height = ti_Height (vi_Info vi), tm_SampleRate = 0,
                  tm_Timescale = 90000, tm_InitFile = pathPrefix cfg @ dashVideoInitFile,
                  tm_MediaPattern = pathPrefix cfg @ dashVideoMediaPattern,
                  tm_StartNumber = of_nat (startNumberFor (p_onDiskV p) (dc_Window cfg)),
                  tm_Segments = windowTail (p_vSegEntries p) (dc_Window cfg), tm_PTO = 0\<rparr>]
               else []
           | None \<Rightarrow> []),
         mi_Audio = (case p_audioInit p of
             Some ai \<Rightarrow>
               if dc_PackAudio cfg \<and> 0 < length (p_aSegEntries p)
               then Some \<lparr>tm_RepID = ''a0'', tm_Codec = ai_Codec ai, tm_Bandwidth = 128000, tm_Width = 0, tm_Height = 0,
                  tm_SampleRate = ai_SampleRate ai, tm_Timescale = word_of_int (ai_SampleRate ai),
                  tm_InitFile = pathPrefix cfg @ dashAudioInitFile, tm_MediaPattern = pathPrefix cfg @ dashAudioMediaPattern,
                  tm_StartNumber = of_nat (startNumberFor (p_onDiskA p) (dc_Window cfg)),
                  tm_Segments = windowTail (p_aSegEntries p) (dc_Window cfg), tm_PTO = 0\<rparr>
               else None
           | None \<Rightarrow> None),
         mi_Static = False, mi_MediaPresentationDuration = 0\<rparr>)"

definition publishManifest :: "gotime \<Rightarrow> WriteOk \<Rightarrow> Packager \<times> DashWorld \<Rightarrow> Packager \<times> DashWorld" where
  "publishManifest now io pw =
     (case pw of (p, w) \<Rightarrow>
        case buildManifestInput_locked now p of
          None \<Rightarrow> (p, w)
        | Some inp \<Rightarrow>
            let w1 = (if dc_ManifestPath (p_cfg p) \<noteq> ''''
                      then (case BuildManifest inp of
                          Some doc \<Rightarrow> if ok_mpd io then w\<lparr>w_mpd := Some doc\<rparr> else w
                        | None \<Rightarrow> w)
                      else w);
                w2 = (if dc_HasMaster (p_cfg p)
                      then w1\<lparr>w_master := UpdateShard
                        \<lparr>sh_Slug = dc_ABRSlug (p_cfg p), sh_AvailabilityStart = p_availStart p,
                         sh_Video = firstTrack (mi_Video inp), sh_Audio = mi_Audio inp\<rparr> (w_master w1)\<rparr>
                      else w1)
            in (p, w2))"

subsubsection \<open>The tick\<close>

definition silent_since :: "gotime \<Rightarrow> gotime option \<Rightarrow> bool" where
  "silent_since now t = (case t of None \<Rightarrow> True | Some t0 \<Rightarrow> trackLossTimeout \<le> now - t0)"

definition liveTrackPresence :: "gotime \<Rightarrow> Packager \<Rightarrow> bool \<times> bool" where
  "liveTrackPresence now p =
     (let haveVideo = (p_videoInit p \<noteq> None); haveAudio = (p_audioInit p \<noteq> None) in
      if sm_state (p_state p) \<noteq> StateLive then (haveVideo, haveAudio)
      else
        (if haveVideo \<and> VideoLen (p_queue p) = 0 \<and> silent_since now (p_lastVideoFrameAt p) then False else haveVideo,
         if haveAudio \<and> AudioLen (p_queue p) = 0 \<and> silent_since now (p_lastAudioFrameAt p) then False else haveAudio))"

definition truncateAtPairing_locked :: "Packager \<Rightarrow> Packager" where
  "truncateAtPairing_locked p =
     (case (FirstVideo (p_queue p), FirstAudio (p_queue p)) of
        (Some v, Some a) \<Rightarrow>
          let threshold = (if vf_PTSms v < af_PTSms a then af_PTSms a else vf_PTSms v)
          in p\<lparr>p_queue := fst (TruncateBefore threshold (p_queue p))\<rparr>
      | _ \<Rightarrow> p)"

definition behind_track :: "gotime \<Rightarrow> gotime option \<Rightarrow> SegmentEntry list \<Rightarrow> u64 \<Rightarrow> bool" where
  "behind_track now ast entries timescale \<longleftrightarrow>
     0 < length entries \<and> wallclockTicks now ast timescale < end_ticks (entries ! (length entries - 1))"

definition behindPrevSegEnd :: "gotime \<Rightarrow> Packager \<Rightarrow> bool" where
  "behindPrevSegEnd now p =
     (if p_availStart p = None then False
      else if behind_track now (p_availStart p) (p_vSegEntries p) VideoTimescale then True
      else p_audioInit p \<noteq> None \<and> behind_track now (p_availStart p) (p_aSegEntries p) (audio_sr p))"

definition diagAudioStarvation :: "gotime \<Rightarrow> CutDecision \<Rightarrow> bool \<Rightarrow> Packager \<Rightarrow> Packager" where
  "diagAudioStarvation now d haveAudio p =
     (if \<not> haveAudio \<or> 0 < cd_AudioCount d \<or> AudioLen (p_queue p) = 0 then p
      else
        let p1 = p\<lparr>p_starvedAudioCutCount := p_starvedAudioCutCount p + 1\<rparr> in
        case p_lastDiagLogAt p1 of
          Some t \<Rightarrow> if now - t < seconds 1 then p1 else p1\<lparr>p_lastDiagLogAt := Some now\<rparr>
        | None \<Rightarrow> p1\<lparr>p_lastDiagLogAt := Some now\<rparr>)"

text \<open>May this tick cut at all: an initialisation segment, the pairing gate, no track still awaited.\<close>

definition tick_may_cut :: "gotime \<Rightarrow> bool \<times> bool \<Rightarrow> Packager \<Rightarrow> bool" where
  "tick_may_cut now present p =
     (if p_videoInit p = None \<and> p_audioInit p = None then False
      else
        let haveVideo = fst present; haveAudio = snd present;
            videoReady = (haveVideo \<and> 0 < VideoLen (p_queue p));
            audioReady = (\<not> dc_PackAudio (p_cfg p) \<or> haveAudio \<and> 0 < AudioLen (p_queue p))
        in if \<not> CanEmitFirstSegment now videoReady audioReady (p_state p) then False
           else if sm_state (p_state p) = StateWaitingForPairing \<and>
               (p_videoFrameSeen p \<and> \<not> haveVideo \<and> \<not> p_videoPSGivenUp p \<or> p_audioFrameSeen p \<and> \<not> haveAudio)
           then False
           else True)"

definition pair_tracks :: "bool \<times> bool \<Rightarrow> Packager \<Rightarrow> Packager" where
  "pair_tracks present p =
     (if \<not> p_pairingTruncated p \<and> sm_state (p_state p) = StateWaitingForPairing \<and> fst present \<and> snd present
      then (truncateAtPairing_locked p)\<lparr>p_pairingTruncated := True\<rparr>
      else p)"

definition anchor_avail_start :: "gotime \<Rightarrow> Packager \<times> DashWorld \<Rightarrow> Packager \<times> DashWorld" where
  "anchor_avail_start now pw =
     (case pw of (p, w) \<Rightarrow>
        if p_availStart p \<noteq> None then (p, w)
        else if dc_HasMaster (p_cfg p)
        then (case SharedAST (Some now) (w_master w) of (ast, m) \<Rightarrow> (p\<lparr>p_availStart := ast\<rparr>, w\<lparr>w_master := m\<rparr>))
        else (p\<lparr>p_availStart := Some now\<rparr>, w))"

definition after_flush :: "gotime \<Rightarrow> WriteOk \<Rightarrow> CutDecision \<Rightarrow> Packager \<times> DashWorld \<Rightarrow> Packager \<times> DashWorld" where
  "after_flush now io d pw =
     (case pw of (p, w) \<Rightarrow>
        let p1 = p\<lparr>p_seg := MarkCut now (p_seg p), p_state := OnFirstSegmentFlushed (p_state p)\<rparr> in
        case anchor_avail_start now (p1, w) of (p2, w2) \<Rightarrow>
          let p3 = (if \<not> cd_IsIDRAligned d then p2\<lparr>p_firstIDRSeen := False\<rparr> else p2)
          in publishManifest now io (trimWindow (p3, w2)))"

definition cut_now ::
  "Mp4Lib \<Rightarrow> gotime \<Rightarrow> WriteOk \<Rightarrow> bool \<times> bool \<Rightarrow> Packager \<times> DashWorld \<Rightarrow> Packager \<times> DashWorld" where
  "cut_now lib now io present pw =
     (case pw of (p, w) \<Rightarrow>
        let audioSR = (if p_audioInit p \<noteq> None \<and> dc_PackAudio (p_cfg p) then audio_sr p else 0)
        in case Cut now (p_queue p) (fst present) (snd present) audioSR (p_seg p) of (d, seg) \<Rightarrow>
             let p1 = p\<lparr>p_seg := seg\<rparr> in
             if \<not> cd_Ok d then (p1, w)
             else
               case writeSegments lib now io d (diagAudioStarvation now d (snd present) p1, w) of (flushed, pw2) \<Rightarrow>
                 if flushed then after_flush now io d pw2 else pw2)"

definition tryCut :: "Mp4Lib \<Rightarrow> gotime \<Rightarrow> WriteOk \<Rightarrow> Packager \<times> DashWorld \<Rightarrow> Packager \<times> DashWorld" where
  "tryCut lib now io pw =
     (case pw of (p, w) \<Rightarrow>
        let present = liveTrackPresence now p in
        if \<not> tick_may_cut now present p then (p, w)
        else
          let p1 = pair_tracks present p
          in if behindPrevSegEnd now p1 then (p1, w) else cut_now lib now io present (p1, w))"

definition finalFlush :: "Mp4Lib \<Rightarrow> gotime \<Rightarrow> WriteOk \<Rightarrow> Packager \<times> DashWorld \<Rightarrow> Packager \<times> DashWorld" where
  "finalFlush lib now io pw =
     (case pw of (p, w) \<Rightarrow>
        if VideoLen (p_queue p) = 0 \<and> AudioLen (p_queue p) = 0 then (p, w)
        else
          case writeSegments lib now io
              \<lparr>cd_Ok = True, cd_VideoCount = int (VideoLen (p_queue p)), cd_AudioCount = int (AudioLen (p_queue p)),
               cd_IsIDRAligned = False\<rparr> (p, w) of (flushed, pw2) \<Rightarrow>
            if flushed then publishManifest now io (trimWindow pw2) else pw2)"

text \<open>The run loop's own state: the carried bytes and the demuxer's pipe, opened on the first TS packet.\<close>

record RunState =
  rs_tsCarry :: "byte list"
  rs_tb :: "TsBuffer option"

definition onPacket :: "Mp4Lib \<Rightarrow> gotime \<Rightarrow> Packet \<Rightarrow> Packager \<times> RunState \<Rightarrow> Packager \<times> RunState" where
  "onPacket lib now pkt pr =
     (let p = (if pk_SessionStart pkt then onSessionBoundary (fst pr) else fst pr); rs = snd pr in
      case (case pk_AV pkt of Some av \<Rightarrow> if 0 < length (av_Data av) then Some av else None | None \<Rightarrow> None) of
        Some av \<Rightarrow> (onAVPacket lib now av p, rs)
      | None \<Rightarrow>
          if 0 < length (pk_TS pkt)
          then
            let tb = (case rs_tb rs of None \<Rightarrow> newTSBuffer | Some tb \<Rightarrow> tb);
                al = alignTS (rs_tsCarry rs) (pk_TS pkt)
            in (p, rs\<lparr>rs_tsCarry := fst al,
                      rs_tb := Some (if 0 < length (snd al) then snd (tb_Write (snd al) tb) else tb)\<rparr>)
          else (p, rs))"

text \<open>What the run loop and the demuxer's callback do, in any order.\<close>

datatype PackagerOp = OpAV gotime AVPacket | OpTS gotime AVCodec "byte list" int int | OpBoundary
  | OpTick gotime WriteOk | OpFlush gotime WriteOk

fun packager_step :: "Mp4Lib \<Rightarrow> PackagerOp \<Rightarrow> Packager \<times> DashWorld \<Rightarrow> Packager \<times> DashWorld" where
  "packager_step lib (OpAV now av) pw = (onAVPacket lib now av (fst pw), snd pw)"
| "packager_step lib (OpTS now cid frame pts dts) pw = (onTSFrame lib now cid frame pts dts (fst pw), snd pw)"
| "packager_step lib OpBoundary pw = (onSessionBoundary (fst pw), snd pw)"
| "packager_step lib (OpTick now io) pw = tryCut lib now io pw"
| "packager_step lib (OpFlush now io) pw = finalFlush lib now io pw"

inductive packager_reaches :: "Mp4Lib \<Rightarrow> DashConfig \<Rightarrow> Packager \<times> DashWorld \<Rightarrow> bool" for lib cfg where
  start: "NewPackager cfg = Inr p \<Longrightarrow> packager_reaches lib cfg (p, w)"
| step: "packager_reaches lib cfg pw \<Longrightarrow> packager_reaches lib cfg (packager_step lib op pw)"

subsection \<open>Segment names\<close>

lemma length_seg_name: "15 \<le> length (seg_name k n)"
  using zero_pad_length [of 5 n] by (simp add: seg_name_def)

lemma parseSegNum_seg_name:
  assumes "0 < n"
  shows "parseSegNum (seg_name k n) = n"
proof -
  let ?z = "zero_pad 5 n"
  have len: "\<not> length (seg_name k n) < length ''seg_v_00001.m4s''" using length_seg_name [of k n] by simp
  have "take (length (seg_name k n) - 4) (seg_name k n) = ''seg_'' @ [k] @ ''_'' @ ?z"
    by (simp add: seg_name_def)
  moreover have "takeWhile is_digit (rev (''seg_'' @ [k] @ ''_'' @ ?z)) = rev ?z"
    using zero_pad_all [of 5 n] by (auto simp: takeWhile_append list_all_iff is_digit_def)
  ultimately have d: "rev (takeWhile is_digit (rev (take (length (seg_name k n) - 4) (seg_name k n)))) = ?z"
    by (simp only: rev_rev_ident)
  show ?thesis unfolding parseSegNum_def d using len assms by (simp add: Let_def)
qed

lemma seg_name_inj: "seg_name k m = seg_name k' n \<longleftrightarrow> k = k' \<and> m = n"
  by (auto simp: seg_name_def zero_pad_inj)

subsection \<open>One track's window\<close>

definition starts_at :: "Fragment \<Rightarrow> u64 \<Rightarrow> bool" where
  "starts_at frag t \<longleftrightarrow> (case fr_Samples frag of [] \<Rightarrow> True | s # _ \<Rightarrow> smp_DecodeTime s = t)"

lemma video_fragment_starts_at: "BuildVideoFragment lib n tr tfdt frames hevc dur = Some frag \<Longrightarrow> starts_at frag tfdt"
proof -
  have "starts_at \<lparr>fr_SeqNum = n, fr_TrackID = tr, fr_Samples = video_samples lib hevc d tfdt 0 fs\<rparr> tfdt" for d fs
    by (induction fs) (auto simp: starts_at_def Let_def)
  then show "BuildVideoFragment lib n tr tfdt frames hevc dur = Some frag \<Longrightarrow> starts_at frag tfdt"
    by (auto simp: BuildVideoFragment_def split: if_splits)
qed

lemma audio_fragment_starts_at: "BuildAudioFragment n tr tfdt frames = Some frag \<Longrightarrow> starts_at frag tfdt"
proof -
  have "starts_at \<lparr>fr_SeqNum = n, fr_TrackID = tr, fr_Samples = audio_samples tfdt 0 fs\<rparr> tfdt" for fs
    by (induction fs) (auto simp: starts_at_def)
  then show "BuildAudioFragment n tr tfdt frames = Some frag \<Longrightarrow> starts_at frag tfdt"
    by (auto simp: BuildAudioFragment_def split: if_splits)
qed

definition contiguous :: "SegmentEntry list \<Rightarrow> bool" where
  "contiguous es \<longleftrightarrow> (\<forall>i. Suc i < length es \<longrightarrow> se_StartTicks (es ! Suc i) = end_ticks (es ! i))"

definition numbered :: "char \<Rightarrow> nat \<Rightarrow> string list \<Rightarrow> bool" where
  "numbered k n names \<longleftrightarrow> length names \<le> n \<and> (\<forall>i < length names. names ! i = seg_name k (Suc (n - length names) + i))"

definition on_disk :: "(string \<Rightarrow> Fragment option) \<Rightarrow> string list \<Rightarrow> SegmentEntry list \<Rightarrow> bool" where
  "on_disk files names entries \<longleftrightarrow>
     (\<forall>i < length names. \<exists>frag. files (names ! i) = Some frag \<and> starts_at frag (se_StartTicks (entries ! i)))"

definition track_ok :: "char \<Rightarrow> string list \<Rightarrow> SegmentEntry list \<Rightarrow> nat \<Rightarrow> (string \<Rightarrow> Fragment option) \<Rightarrow> bool" where
  "track_ok k names entries n files \<longleftrightarrow>
     length entries = length names \<and> numbered k n names \<and> contiguous entries \<and> on_disk files names entries"

lemma track_ok_Nil: "track_ok k [] [] n files"
  by (simp add: track_ok_def contiguous_def numbered_def on_disk_def)

lemma contiguous_snoc:
  assumes "contiguous es" and "es = [] \<or> se_StartTicks e = end_ticks (es ! (length es - 1))"
  shows "contiguous (es @ [e])"
  unfolding contiguous_def
proof (intro allI impI)
  fix i
  assume i: "Suc i < length (es @ [e])"
  show "se_StartTicks ((es @ [e]) ! Suc i) = end_ticks ((es @ [e]) ! i)"
  proof (cases "Suc i = length es")
    case True
    then have "es \<noteq> []" "i = length es - 1" by auto
    with True assms(2) show ?thesis by (simp add: nth_append)
  next
    case False
    with i assms(1) show ?thesis by (simp add: nth_append contiguous_def)
  qed
qed

lemma numbered_distinct:
  "numbered k n names \<Longrightarrow> i < length names \<Longrightarrow> j < length names \<Longrightarrow> names ! i = names ! j \<longleftrightarrow> i = j"
  by (auto simp: numbered_def seg_name_inj)

lemma numbered_mem: "numbered k n names \<Longrightarrow> x \<in> set names \<Longrightarrow> \<exists>m \<le> n. x = seg_name k m"
proof -
  assume n: "numbered k n names" and "x \<in> set names"
  then obtain i where i: "i < length names" "x = names ! i" by (auto simp: in_set_conv_nth)
  with n have "x = seg_name k (Suc (n - length names) + i)" "Suc (n - length names) + i \<le> n"
    by (auto simp: numbered_def)
  then show ?thesis by blast
qed

lemma numbered_snoc:
  assumes "numbered k n names"
  shows "numbered k (Suc n) (names @ [seg_name k (Suc n)])"
  using assms by (auto simp: numbered_def nth_append less_Suc_eq)

lemma numbered_drop:
  assumes "numbered k n names" and "j \<le> length names"
  shows "numbered k n (drop j names)"
proof -
  have "n - (length names - j) = n - length names + j" using assms by (auto simp: numbered_def)
  then show ?thesis using assms by (auto simp: numbered_def ac_simps)
qed

lemma track_ok_push:
  assumes "track_ok k names entries n files" and "starts_at frag t"
    and "entries = [] \<or> t = end_ticks (entries ! (length entries - 1))"
  shows "track_ok k (names @ [seg_name k (Suc n)]) (entries @ [\<lparr>se_StartTicks = t, se_DurTicks = d\<rparr>]) (Suc n)
    (files(seg_name k (Suc n) := Some frag))"
proof -
  let ?e = "\<lparr>se_StartTicks = t, se_DurTicks = d\<rparr>"
  have t: "length entries = length names" "numbered k n names" "contiguous entries" "on_disk files names entries"
    using assms(1) by (auto simp: track_ok_def)
  have new: "names ! i \<noteq> seg_name k (Suc n)" if "i < length names" for i
    using numbered_mem [OF t(2) nth_mem [OF that]] by (auto simp: seg_name_inj)
  have "on_disk (files(seg_name k (Suc n) := Some frag)) (names @ [seg_name k (Suc n)]) (entries @ [?e])"
    unfolding on_disk_def
  proof (intro allI impI)
    fix i
    assume i: "i < length (names @ [seg_name k (Suc n)])"
    show "\<exists>f. (files(seg_name k (Suc n) := Some frag)) ((names @ [seg_name k (Suc n)]) ! i) = Some f \<and>
        starts_at f (se_StartTicks ((entries @ [?e]) ! i))"
    proof (cases "i = length names")
      case True
      then show ?thesis using t(1) assms(2) by (simp add: nth_append)
    next
      case False
      with i have "i < length names" by simp
      then show ?thesis using t(1,4) new by (simp add: nth_append on_disk_def)
    qed
  qed
  moreover have "contiguous (entries @ [?e])" using t(3) assms(3) by (intro contiguous_snoc) auto
  ultimately show ?thesis using t(1) numbered_snoc [OF t(2)] by (simp add: track_ok_def)
qed

text \<open>Only the track's own files matter.\<close>

lemma track_ok_cong:
  assumes "track_ok k names entries n files" and "\<And>m. files' (seg_name k m) = files (seg_name k m)"
  shows "track_ok k names entries n files'"
proof -
  have "\<exists>m. names ! i = seg_name k m" if "i < length names" for i
    using assms(1) that by (auto simp: track_ok_def numbered_def)
  then have "files' (names ! i) = files (names ! i)" if "i < length names" for i using assms(2) that by metis
  then show ?thesis using assms(1) by (simp add: track_ok_def on_disk_def)
qed

lemma remove_files_eq: "remove_files names files x = (if x \<in> set names then None else files x)"
  by (induction names arbitrary: files) (auto simp: remove_files_def)

lemma track_ok_drop:
  assumes "track_ok k names entries n files" and "j \<le> length names"
  shows "track_ok k (drop j names) (drop j entries) n (remove_files (take j names) files)"
proof -
  have t: "length entries = length names" "numbered k n names" "contiguous entries" "on_disk files names entries"
    using assms(1) by (auto simp: track_ok_def)
  have "names ! (j + i) \<notin> set (take j names)" if "j + i < length names" for i
  proof
    assume "names ! (j + i) \<in> set (take j names)"
    then obtain m where "m < j" "names ! m = names ! (j + i)" "m < length names" by (auto simp: in_set_conv_nth)
    with numbered_distinct [OF t(2) \<open>m < length names\<close> that] show False by simp
  qed
  then have "on_disk (remove_files (take j names) files) (drop j names) (drop j entries)"
    using t(1,4) by (auto simp: on_disk_def remove_files_eq)
  moreover have "contiguous (drop j entries)" using t(3) by (auto simp: contiguous_def)
  ultimately show ?thesis using t(1) numbered_drop [OF t(2) assms(2)] by (simp add: track_ok_def)
qed

subsection \<open>Every operation keeps manifest window and disk in step\<close>

definition world_ok :: "Packager \<times> DashWorld \<Rightarrow> bool" where
  "world_ok pw \<longleftrightarrow>
     track_ok (CHR ''v'') (p_onDiskV (fst pw)) (p_vSegEntries (fst pw)) (p_vSegN (fst pw)) (w_files (snd pw)) \<and>
     track_ok (CHR ''a'') (p_onDiskA (fst pw)) (p_aSegEntries (fst pw)) (p_aSegN (fst pw)) (w_files (snd pw))"

text \<open>What incoming frames leave alone.\<close>

definition seg_view where
  "seg_view p = (p_cfg p, p_availStart p, (p_onDiskV p, p_vSegEntries p, p_vSegN p), p_onDiskA p, p_aSegEntries p, p_aSegN p)"

lemma world_ok_view: "seg_view p = seg_view p' \<Longrightarrow> w_files w = w_files w' \<Longrightarrow> world_ok (p, w) = world_ok (p', w')"
  by (simp add: seg_view_def world_ok_def)

lemma seg_view_push [simp]:
  "seg_view (pushVideoWithDiag f p) = seg_view p" "seg_view (pushAudioWithDiag g p) = seg_view p"
  by (simp_all add: pushVideoWithDiag_def pushAudioWithDiag_def seg_view_def split: prod.split)

lemma seg_view_fold_push [simp]: "seg_view (fold pushAudioWithDiag fs p) = seg_view p"
  by (induction fs arbitrary: p) simp_all

lemma seg_view_fields [simp]:
  "seg_view (p\<lparr>p_videoFrameSeen := b\<rparr>) = seg_view p" "seg_view (p\<lparr>p_audioFrameSeen := b\<rparr>) = seg_view p"
  "seg_view (p\<lparr>p_firstIDRSeen := b\<rparr>) = seg_view p" "seg_view (p\<lparr>p_isHEVC := b\<rparr>) = seg_view p"
  "seg_view (p\<lparr>p_lastVideoFrameAt := t\<rparr>) = seg_view p" "seg_view (p\<lparr>p_lastAudioFrameAt := t\<rparr>) = seg_view p"
  "seg_view (p\<lparr>p_state := sm\<rparr>) = seg_view p" "seg_view (p\<lparr>p_queue := q\<rparr>) = seg_view p"
  "seg_view (p\<lparr>p_seg := sg\<rparr>) = seg_view p" "seg_view (p\<lparr>p_videoInit := vi\<rparr>) = seg_view p"
  "seg_view (p\<lparr>p_audioInit := ai\<rparr>) = seg_view p" "seg_view (p\<lparr>p_videoPS := ps\<rparr>) = seg_view p"
  "seg_view (p\<lparr>p_videoPSGivenUp := b\<rparr>) = seg_view p" "seg_view (p\<lparr>p_pairingTruncated := b\<rparr>) = seg_view p"
  "seg_view (p\<lparr>p_starvedAudioCutCount := n\<rparr>) = seg_view p" "seg_view (p\<lparr>p_lastDiagLogAt := t\<rparr>) = seg_view p"
  by (simp_all add: seg_view_def)

lemma seg_view_build_video [simp]: "seg_view (build_video_init lib b p) = seg_view p"
  by (simp add: build_video_init_def tryBuildVideoInit_def accumulateVideoPS_def installVideoInit_def Let_def
      split: prod.split option.split)

lemma seg_view_build_audio [simp]: "seg_view (build_audio_init lib b p) = seg_view p"
  by (simp add: build_audio_init_def split: option.split)

lemma seg_view_onAV [simp]: "seg_view (onAVPacket lib now av p) = seg_view p"
  by (simp add: onAVPacket_def handleH264_def handleAAC_def Let_def)

lemma seg_view_onTS [simp]: "seg_view (onTSFrame lib now cid frame pts dts p) = seg_view p"
  by (simp add: onTSFrame_def Let_def)

lemma seg_view_boundary [simp]: "seg_view (onSessionBoundary p) = seg_view p"
  by (simp add: onSessionBoundary_def Let_def)

lemma seg_view_pair [simp]: "seg_view (pair_tracks present p) = seg_view p"
  by (simp add: pair_tracks_def truncateAtPairing_locked_def Let_def split: option.split)

lemma seg_view_diag [simp]: "seg_view (diagAudioStarvation now d b p) = seg_view p"
  by (simp add: diagAudioStarvation_def Let_def split: option.split)

lemma world_ok_writeVideo:
  assumes "world_ok (p, w)" and "writeVideoSegment lib now io frames nxt (p, w) = (b, pw)"
  shows "world_ok pw \<and> p_cfg (fst pw) = p_cfg p \<and> p_availStart (fst pw) = p_availStart p"
proof -
  let ?n = "Suc (p_vSegN p)" and ?t = "videoTfdtForSegment (p_vSegEntries p) now (p_availStart p)"
  have v: "track_ok (CHR ''v'') (p_onDiskV p) (p_vSegEntries p) (p_vSegN p) (w_files w)"
    and a: "track_ok (CHR ''a'') (p_onDiskA p) (p_aSegEntries p) (p_aSegN p) (w_files w)"
    using assms(1) by (simp_all add: world_ok_def)
  have t: "p_vSegEntries p = [] \<or> ?t = end_ticks (p_vSegEntries p ! (length (p_vSegEntries p) - 1))"
    by (simp add: videoTfdtForSegment_def)
  have a': "track_ok (CHR ''a'') (p_onDiskA p) (p_aSegEntries p) (p_aSegN p) ((w_files w)(seg_name (CHR ''v'') ?n := x))" for x
    by (rule track_ok_cong [OF a]) (simp add: seg_name_inj)
  show ?thesis using assms track_ok_push [OF v video_fragment_starts_at t] a'
    by (auto simp: writeVideoSegment_def Let_def world_ok_def split: option.splits if_splits)
qed

lemma world_ok_writeAudio:
  assumes "world_ok (p, w)" and "writeAudioSegment now io frames (p, w) = (b, pw)"
  shows "world_ok pw \<and> p_cfg (fst pw) = p_cfg p \<and> p_availStart (fst pw) = p_availStart p"
proof -
  let ?n = "Suc (p_aSegN p)" and ?t = "audioTfdtForSegment (p_aSegEntries p) now (p_availStart p) (audio_sr p)"
  have v: "track_ok (CHR ''v'') (p_onDiskV p) (p_vSegEntries p) (p_vSegN p) (w_files w)"
    and a: "track_ok (CHR ''a'') (p_onDiskA p) (p_aSegEntries p) (p_aSegN p) (w_files w)"
    using assms(1) by (simp_all add: world_ok_def)
  have t: "p_aSegEntries p = [] \<or> ?t = end_ticks (p_aSegEntries p ! (length (p_aSegEntries p) - 1))"
    by (simp add: audioTfdtForSegment_def)
  have v': "track_ok (CHR ''v'') (p_onDiskV p) (p_vSegEntries p) (p_vSegN p) ((w_files w)(seg_name (CHR ''a'') ?n := x))" for x
    by (rule track_ok_cong [OF v]) (simp add: seg_name_inj)
  show ?thesis using assms track_ok_push [OF a audio_fragment_starts_at t] v'
    by (auto simp: writeAudioSegment_def Let_def world_ok_def split: option.splits if_splits)
qed

definition same_setup :: "Packager \<Rightarrow> Packager \<Rightarrow> bool" where
  "same_setup p p' \<longleftrightarrow> p_cfg p' = p_cfg p \<and> p_availStart p' = p_availStart p"

lemma world_ok_queue: "world_ok (p\<lparr>p_queue := q\<rparr>, w) = world_ok (p, w)"
  by (rule world_ok_view) simp_all

lemma world_ok_writeSegments:
  assumes "world_ok (p, w)" and "writeSegments lib now io d (p, w) = (b, pw)"
  shows "world_ok pw \<and> same_setup p (fst pw)"
proof -
  obtain fv p1 w1 where v: "write_video_part lib now io d (p, w) = (fv, p1, w1)" by (metis prod_cases3)
  obtain fa p2 w2 where a: "write_audio_part now io d (p1, w1) = (fa, p2, w2)" by (metis prod_cases3)
  have 1: "world_ok (p1, w1) \<and> same_setup p p1"
  proof -
    let ?p = "p\<lparr>p_queue := fst (PopVideo (cd_VideoCount d) (p_queue p))\<rparr>"
    have ok: "world_ok (?p, w)" using assms(1) world_ok_queue by blast
    from v consider "writeVideoSegment lib now io (snd (PopVideo (cd_VideoCount d) (p_queue p)))
        (videoPTSAt (p_queue p) (cd_VideoCount d)) (?p, w) = (fv, p1, w1)"
      | "p1 = ?p \<and> w1 = w" | "p1 = p \<and> w1 = w"
      by (auto simp: write_video_part_def Let_def split: if_splits)
    then show ?thesis
    proof cases
      case 1
      from world_ok_writeVideo [OF ok this] show ?thesis by (simp add: same_setup_def)
    qed (use ok assms(1) in \<open>simp_all add: same_setup_def\<close>)
  qed
  have 2: "world_ok (p2, w2) \<and> same_setup p1 p2"
  proof -
    let ?p = "p1\<lparr>p_queue := fst (PopAudio (cd_AudioCount d) (p_queue p1))\<rparr>"
    have ok: "world_ok (?p, w1)" using 1 world_ok_queue by blast
    from a consider "writeAudioSegment now io (snd (PopAudio (cd_AudioCount d) (p_queue p1))) (?p, w1) = (fa, p2, w2)"
      | "p2 = ?p \<and> w2 = w1" | "p2 = p1 \<and> w2 = w1"
      by (auto simp: write_audio_part_def Let_def split: if_splits)
    then show ?thesis
    proof cases
      case 1
      from world_ok_writeAudio [OF ok this] show ?thesis by (simp add: same_setup_def)
    qed (use ok 1 in \<open>simp_all add: same_setup_def\<close>)
  qed
  have "pw = (p2, w2)" using assms(2) v a by (simp add: writeSegments_def)
  with 1 2 show ?thesis by (simp add: same_setup_def)
qed

lemma dropFront_eq:
  "0 \<le> n \<Longrightarrow> dropFrontStrings s n = drop (nat n) s" "0 \<le> n \<Longrightarrow> dropFrontSegEntries t n = drop (nat n) t"
  by (auto simp: dropFrontStrings_def dropFrontSegEntries_def)

lemma track_ok_remove_other:
  assumes "track_ok k names entries n files" and "numbered k' n' names'" and "k \<noteq> k'"
  shows "track_ok k names entries n (remove_files (take j names') files)"
proof (rule track_ok_cong [OF assms(1)])
  fix m
  have "seg_name k m \<notin> set names'" using numbered_mem [OF assms(2)] assms(3) by (metis seg_name_inj)
  then show "remove_files (take j names') files (seg_name k m) = files (seg_name k m)"
    by (auto simp: remove_files_eq dest: in_set_takeD)
qed

lemma world_ok_trim_video:
  assumes "world_ok pw" and "0 \<le> m"
  shows "world_ok (trim_video m pw) \<and> same_setup (fst pw) (fst (trim_video m pw))"
proof -
  obtain p w where pw: "pw = (p, w)" by fastforce
  let ?j = "nat (int (length (p_onDiskV p)) - m)"
  have v: "track_ok (CHR ''v'') (p_onDiskV p) (p_vSegEntries p) (p_vSegN p) (w_files w)"
    and a: "track_ok (CHR ''a'') (p_onDiskA p) (p_aSegEntries p) (p_aSegN p) (w_files w)"
    using assms(1) pw by (simp_all add: world_ok_def)
  have "numbered (CHR ''v'') (p_vSegN p) (p_onDiskV p)" using v by (simp add: track_ok_def)
  from track_ok_remove_other [OF a this, of ?j] track_ok_drop [OF v, of ?j] assms pw show ?thesis
    by (simp add: trim_video_def Let_def dropFront_eq world_ok_def same_setup_def)
qed

lemma world_ok_trim_audio:
  assumes "world_ok pw" and "0 \<le> m"
  shows "world_ok (trim_audio m pw) \<and> same_setup (fst pw) (fst (trim_audio m pw))"
proof -
  obtain p w where pw: "pw = (p, w)" by fastforce
  let ?j = "nat (int (length (p_onDiskA p)) - m)"
  have v: "track_ok (CHR ''v'') (p_onDiskV p) (p_vSegEntries p) (p_vSegN p) (w_files w)"
    and a: "track_ok (CHR ''a'') (p_onDiskA p) (p_aSegEntries p) (p_aSegN p) (w_files w)"
    using assms(1) pw by (simp_all add: world_ok_def)
  have "numbered (CHR ''a'') (p_aSegN p) (p_onDiskA p)" using a by (simp add: track_ok_def)
  from track_ok_remove_other [OF v this, of ?j] track_ok_drop [OF a, of ?j] assms pw show ?thesis
    by (simp add: trim_audio_def Let_def dropFront_eq world_ok_def same_setup_def)
qed

definition keeps_history :: "DashConfig \<Rightarrow> bool" where
  "keeps_history cfg \<longleftrightarrow> 0 \<le> dc_Window cfg + dc_History cfg"

lemma world_ok_trimWindow:
  assumes "world_ok pw" and "keeps_history (p_cfg (fst pw))"
  shows "world_ok (trimWindow pw) \<and> same_setup (fst pw) (fst (trimWindow pw))"
proof -
  let ?m = "dc_Window (p_cfg (fst pw)) + dc_History (p_cfg (fst pw))"
  have m: "0 \<le> ?m" using assms(2) by (simp add: keeps_history_def)
  note v = world_ok_trim_video [OF assms(1) m]
  note a = world_ok_trim_audio [OF conjunct1 [OF v] m]
  show ?thesis using assms(1) v a by (simp add: trimWindow_def Let_def same_setup_def)
qed

lemma publishManifest_fst: "fst (publishManifest now io pw) = fst pw"
  by (cases pw) (simp add: publishManifest_def Let_def split: option.split)

lemma publishManifest_files: "w_files (snd (publishManifest now io pw)) = w_files (snd pw)"
  by (cases pw) (simp add: publishManifest_def Let_def split: option.split)

lemma world_ok_publish: "world_ok (publishManifest now io pw) = world_ok pw"
  by (simp add: world_ok_def publishManifest_fst publishManifest_files)

lemma anchor_keeps:
  "world_ok (anchor_avail_start now pw) = world_ok pw \<and> p_cfg (fst (anchor_avail_start now pw)) = p_cfg (fst pw)"
  by (cases pw) (simp add: anchor_avail_start_def world_ok_def split: prod.split)

lemma after_flush_keeps:
  assumes "world_ok pw" and "keeps_history (p_cfg (fst pw))"
  shows "world_ok (after_flush now io d pw) \<and> p_cfg (fst (after_flush now io d pw)) = p_cfg (fst pw)"
proof -
  obtain p w where pw: "pw = (p, w)" by fastforce
  let ?p1 = "p\<lparr>p_seg := MarkCut now (p_seg p), p_state := OnFirstSegmentFlushed (p_state p)\<rparr>"
  obtain p2 w2 where a: "anchor_avail_start now (?p1, w) = (p2, w2)" by fastforce
  have 1: "world_ok (?p1, w)" "p_cfg ?p1 = p_cfg p" using assms(1) pw by (simp_all add: world_ok_def)
  have 2: "world_ok (p2, w2)" "p_cfg p2 = p_cfg p" using anchor_keeps [of now "(?p1, w)"] a 1 by simp_all
  let ?p3 = "if \<not> cd_IsIDRAligned d then p2\<lparr>p_firstIDRSeen := False\<rparr> else p2"
  have 3: "world_ok (?p3, w2)" "p_cfg ?p3 = p_cfg p" using 2 by (simp_all add: world_ok_def)
  have h: "keeps_history (p_cfg (fst (?p3, w2)))" using 3(2) assms(2) pw by (simp only: fst_conv)
  have f: "after_flush now io d pw = publishManifest now io (trimWindow (?p3, w2))"
    using a by (simp add: after_flush_def pw)
  show ?thesis unfolding f world_ok_publish publishManifest_fst
    using world_ok_trimWindow [OF 3(1) h] 3(2) pw by (simp add: same_setup_def)
qed

lemma tryCut_keeps:
  assumes "world_ok pw" and "keeps_history (p_cfg (fst pw))"
  shows "world_ok (tryCut lib now io pw) \<and> p_cfg (fst (tryCut lib now io pw)) = p_cfg (fst pw)"
proof -
  obtain p w where pw: "pw = (p, w)" by fastforce
  define present where "present = liveTrackPresence now p"
  let ?p1 = "pair_tracks present p"
  have view: "seg_view ?p1 = seg_view p" by simp
  then have 1: "world_ok (?p1, w)" "p_cfg ?p1 = p_cfg p"
    using assms(1) pw world_ok_view [OF view refl, of w] by (auto simp: seg_view_def)
  have cut: "world_ok (cut_now lib now io present (?p1, w)) \<and> p_cfg (fst (cut_now lib now io present (?p1, w))) = p_cfg p"
  proof -
    obtain d seg where c: "Cut now (p_queue ?p1) (fst present) (snd present)
        (if p_audioInit ?p1 \<noteq> None \<and> dc_PackAudio (p_cfg ?p1) then audio_sr ?p1 else 0) (p_seg ?p1) = (d, seg)" by fastforce
    let ?p2 = "?p1\<lparr>p_seg := seg\<rparr>"
    let ?p3 = "diagAudioStarvation now d (snd present) ?p2"
    have v3: "seg_view ?p2 = seg_view ?p1" "seg_view ?p3 = seg_view ?p1" by simp_all
    then have 3: "world_ok (?p2, w)" "p_cfg ?p2 = p_cfg p" "world_ok (?p3, w)" "p_cfg ?p3 = p_cfg p"
      using 1 world_ok_view [OF v3(1) refl, of w] world_ok_view [OF v3(2) refl, of w] by (auto simp: seg_view_def)
    obtain b pw2 where ws: "writeSegments lib now io d (?p3, w) = (b, pw2)" by (metis surj_pair)
    note 4 = world_ok_writeSegments [OF 3(3) ws]
    have h: "keeps_history (p_cfg (fst pw2))" using 4 3(4) assms(2) pw by (simp add: same_setup_def)
    note 5 = after_flush_keeps [OF conjunct1 [OF 4] h, of now io d]
    have "cut_now lib now io present (?p1, w) \<in> {(?p2, w), after_flush now io d pw2, pw2}"
      using c ws by (simp add: cut_now_def Let_def)
    with 3 4 5 show ?thesis by (auto simp: same_setup_def)
  qed
  have "tryCut lib now io pw \<in> {(p, w), (?p1, w), cut_now lib now io present (?p1, w)}"
    by (simp add: tryCut_def pw present_def Let_def)
  with assms pw 1 cut show ?thesis by auto
qed

lemma finalFlush_keeps:
  assumes "world_ok pw" and "keeps_history (p_cfg (fst pw))"
  shows "world_ok (finalFlush lib now io pw) \<and> p_cfg (fst (finalFlush lib now io pw)) = p_cfg (fst pw)"
proof -
  obtain p w where pw: "pw = (p, w)" by fastforce
  let ?d = "\<lparr>cd_Ok = True, cd_VideoCount = int (VideoLen (p_queue p)), cd_AudioCount = int (AudioLen (p_queue p)),
     cd_IsIDRAligned = False\<rparr>"
  obtain b pw2 where ws: "writeSegments lib now io ?d (p, w) = (b, pw2)" by (metis surj_pair)
  have ok: "world_ok (p, w)" using assms(1) pw by simp
  note 1 = world_ok_writeSegments [OF ok ws]
  have h: "keeps_history (p_cfg (fst pw2))" using 1 assms(2) pw by (simp add: same_setup_def)
  note 2 = world_ok_trimWindow [OF conjunct1 [OF 1] h]
  have "finalFlush lib now io pw \<in> {(p, w), pw2, publishManifest now io (trimWindow pw2)}"
    using ws by (simp add: finalFlush_def pw)
  with assms(1) pw 1 2 show ?thesis by (auto simp: world_ok_publish publishManifest_fst same_setup_def)
qed

lemma packager_step_keeps:
  assumes "world_ok pw" and "keeps_history (p_cfg (fst pw))"
  shows "world_ok (packager_step lib op pw) \<and> p_cfg (fst (packager_step lib op pw)) = p_cfg (fst pw)"
proof -
  have view: "world_ok (p', snd pw) \<and> p_cfg p' = p_cfg (fst pw)" if "seg_view p' = seg_view (fst pw)" for p'
    using assms(1) world_ok_view [OF that refl, of "snd pw"] that by (simp add: seg_view_def)
  show ?thesis
  proof (cases op)
    case (OpAV now av)
    show ?thesis unfolding OpAV packager_step.simps fst_conv by (rule view) simp
  next
    case (OpTS now cid frame pts dts)
    show ?thesis unfolding OpTS packager_step.simps fst_conv by (rule view) simp
  next
    case OpBoundary
    show ?thesis unfolding OpBoundary packager_step.simps fst_conv by (rule view) simp
  next
    case (OpTick now io)
    show ?thesis unfolding OpTick packager_step.simps by (rule tryCut_keeps [OF assms])
  next
    case (OpFlush now io)
    show ?thesis unfolding OpFlush packager_step.simps by (rule finalFlush_keeps [OF assms])
  qed
qed

lemma NewPackager_fresh:
  assumes "NewPackager cfg = Inr p"
  shows "world_ok (p, w)" and "0 < dc_Window (p_cfg p)" and "dc_History (p_cfg p) = dc_History cfg"
    and "dc_Ephemeral (p_cfg p) = dc_Ephemeral cfg"
  using assms by (auto simp: NewPackager_def Let_def world_ok_def track_ok_Nil split: if_splits)

lemma reaches_ok:
  "packager_reaches lib cfg pw \<Longrightarrow> 0 \<le> dc_History cfg \<Longrightarrow>
   world_ok pw \<and> 0 < dc_Window (p_cfg (fst pw)) \<and> dc_History (p_cfg (fst pw)) = dc_History cfg"
proof (induction rule: packager_reaches.induct)
  case (start p w)
  then show ?case using NewPackager_fresh by simp
next
  case (step pw op)
  then have "world_ok pw" "keeps_history (p_cfg (fst pw))" by (simp_all add: keeps_history_def)
  from packager_step_keeps [OF this, of lib op] step show ?case by simp
qed

text \<open>The tracks a manifest input lists.\<close>

definition manifest_track :: "ManifestInput \<Rightarrow> char \<Rightarrow> TrackManifest \<Rightarrow> bool" where
  "manifest_track inp k t \<longleftrightarrow> k = CHR ''v'' \<and> t \<in> set (mi_Video inp) \<or> k = CHR ''a'' \<and> mi_Audio inp = Some t"

lemma window_on_disk:
  assumes "track_ok k names entries n files" and "0 < window" and "names \<noteq> []" and "i < length (windowTail entries window)"
  shows "\<exists>frag. files (seg_name k (startNumberFor names window + i)) = Some frag \<and>
      starts_at frag (se_StartTicks (windowTail entries window ! i)) \<and>
      startNumberFor names window + i \<le> n \<and>
      (Suc i < length (windowTail entries window) \<longrightarrow>
         se_StartTicks (windowTail entries window ! Suc i) = end_ticks (windowTail entries window ! i))"
proof -
  have t: "length entries = length names" "numbered k n names" "contiguous entries" "on_disk files names entries"
    using assms(1) by (auto simp: track_ok_def)
  define j where "j = (if window < int (length names) then nat (int (length names) - window) else 0)"
  have j: "j < length names" using assms(2,3) by (auto simp: j_def)
  have tail: "windowTail entries window = drop j entries" using t(1) by (simp add: windowTail_def j_def)
  have hd: "hd (drop j names) = names ! j" using j by (simp add: hd_drop_conv_nth)
  have "startNumberFor names window = parseSegNum (names ! j)"
    using assms(3) hd by (auto simp: startNumberFor_def j_def hd_conv_nth)
  also have "\<dots> = Suc (n - length names) + j"
    using t(2) j by (simp add: numbered_def parseSegNum_seg_name del: add_Suc)
  finally have st: "startNumberFor names window = Suc (n - length names) + j" .
  have ji: "j + i < length names" using assms(4) t(1) tail by simp
  then have name: "seg_name k (startNumberFor names window + i) = names ! (j + i)"
    using t(2) st by (simp add: numbered_def ac_simps)
  have "length names \<le> n" using t(2) by (simp add: numbered_def)
  then have "startNumberFor names window + i \<le> n" using st ji by simp
  moreover have "\<exists>frag. files (names ! (j + i)) = Some frag \<and> starts_at frag (se_StartTicks (entries ! (j + i)))"
    using t(4) ji by (simp add: on_disk_def)
  moreover have "se_StartTicks (drop j entries ! Suc i) = end_ticks (drop j entries ! i)" if "Suc i < length (drop j entries)"
    using t(3) that by (simp add: contiguous_def)
  ultimately show ?thesis using t(1) ji by (simp add: name tail)
qed

text \<open>
  C4: what the manifest says is what is on disk: after any sequence of frames, session boundaries, ticks
  and flushes, with any write failing at any time, segment \<open>i\<close> of a track in the manifest is the file
  whose number is \<open>StartNumber + i\<close>; that file exists, its first sample starts at the listed time, and the
  next segment starts exactly where this one ends: no gap and no overlap in the published timeline.
\<close>
theorem manifest_matches_disk:
  assumes "packager_reaches lib cfg (p, w)" and "0 \<le> dc_History cfg"
    and "p_vSegN p < 2 ^ 64" and "p_aSegN p < 2 ^ 64"
    and "buildManifestInput_locked now p = Some inp" and "manifest_track inp k t" and "i < length (tm_Segments t)"
  shows "\<exists>frag. w_files w (seg_name k (unat (tm_StartNumber t) + i)) = Some frag \<and>
    starts_at frag (se_StartTicks (tm_Segments t ! i)) \<and>
    (Suc i < length (tm_Segments t) \<longrightarrow> se_StartTicks (tm_Segments t ! Suc i) = end_ticks (tm_Segments t ! i))"
proof -
  let ?w = "dc_Window (p_cfg p)"
  have ok: "world_ok (p, w)" "0 < ?w" using reaches_ok [OF assms(1,2)] by simp_all
  have un: "unat (of_nat m :: u64) = m" if "m \<le> n" "n < 2 ^ 64" for m n
    using that by (simp add: unat_of_nat)
  from assms(6) consider (v) "k = CHR ''v''" "t \<in> set (mi_Video inp)" | (a) "k = CHR ''a''" "mi_Audio inp = Some t"
    by (auto simp: manifest_track_def)
  then show ?thesis
  proof cases
    case v
    then have t: "tm_Segments t = windowTail (p_vSegEntries p) ?w" "p_vSegEntries p \<noteq> []"
        "tm_StartNumber t = of_nat (startNumberFor (p_onDiskV p) ?w)"
      using assms(5) by (auto simp: buildManifestInput_locked_def Let_def split: if_splits option.splits)
    have tr: "track_ok (CHR ''v'') (p_onDiskV p) (p_vSegEntries p) (p_vSegN p) (w_files w)"
      using ok(1) by (simp add: world_ok_def)
    have "p_onDiskV p \<noteq> []" using t(2) tr by (auto simp: track_ok_def)
    note here = window_on_disk [OF tr ok(2) this, of i, folded t(1), OF assms(7)]
    then have "startNumberFor (p_onDiskV p) ?w \<le> p_vSegN p" by auto
    from un [OF this assms(3)] have "unat (tm_StartNumber t) = startNumberFor (p_onDiskV p) ?w" by (simp only: t(3))
    with here show ?thesis by (simp only: v(1)) blast
  next
    case a
    then have t: "tm_Segments t = windowTail (p_aSegEntries p) ?w" "p_aSegEntries p \<noteq> []"
        "tm_StartNumber t = of_nat (startNumberFor (p_onDiskA p) ?w)"
      using assms(5) by (auto simp: buildManifestInput_locked_def Let_def split: if_splits option.splits)
    have tr: "track_ok (CHR ''a'') (p_onDiskA p) (p_aSegEntries p) (p_aSegN p) (w_files w)"
      using ok(1) by (simp add: world_ok_def)
    have "p_onDiskA p \<noteq> []" using t(2) tr by (auto simp: track_ok_def)
    note here = window_on_disk [OF tr ok(2) this, of i, folded t(1), OF assms(7)]
    then have "startNumberFor (p_onDiskA p) ?w \<le> p_aSegN p" by auto
    from un [OF this assms(4)] have "unat (tm_StartNumber t) = startNumberFor (p_onDiskA p) ?w" by (simp only: t(3))
    with here show ?thesis by (simp only: a(1)) blast
  qed
qed

subsection \<open>A dead track and the live edge\<close>

lemma writeVideo_succeeds:
  assumes "ok_video io" and "frames \<noteq> []"
  shows "fst (writeVideoSegment lib now io frames nxt (p, w)) \<and>
    p_vSegN (fst (snd (writeVideoSegment lib now io frames nxt (p, w)))) = Suc (p_vSegN p)"
  using assms by (simp add: writeVideoSegment_def BuildVideoFragment_def Let_def)

lemma writeAudio_vSegN: "p_vSegN (fst (snd (write_audio_part now io d pw))) = p_vSegN (fst pw)"
  by (cases pw) (simp add: write_audio_part_def writeAudioSegment_def Let_def split: option.split)

lemma trim_vSegN: "p_vSegN (fst (trimWindow pw)) = p_vSegN (fst pw)"
  by (cases pw) (simp add: trimWindow_def trim_video_def trim_audio_def Let_def)

lemma after_flush_vSegN: "p_vSegN (fst (after_flush now io d pw)) = p_vSegN (fst pw)"
proof -
  obtain p w where pw: "pw = (p, w)" by fastforce
  have "p_vSegN (fst (anchor_avail_start now (q, w))) = p_vSegN q" for q
    by (simp add: anchor_avail_start_def split: prod.split)
  then show ?thesis
    by (simp add: after_flush_def pw publishManifest_fst trim_vSegN split_beta Let_def)
qed

text \<open>
  a track that dies does not freeze the other: in a live packager whose audio queue is empty and whose
  audio has been silent for the track-loss timeout, a tick at which an IDR closes the segment and the
  previous segment's time has passed writes the next video segment, although its audio never arrives.
\<close>
theorem dead_audio_does_not_freeze_video:
  assumes "sm_state (p_state p) = StateLive" and "p_videoInit p \<noteq> None"
    and "AudioLen (p_queue p) = 0" and "silent_since now (p_lastAudioFrameAt p)"
    and "0 \<le> findIDRCutPoint (p_queue p) (ms_u64 (sg_segDur (p_seg p)))"
    and "\<not> behindPrevSegEnd now p" and "ok_video io"
  shows "p_vSegN (fst (tryCut lib now io (p, w))) = Suc (p_vSegN p)"
proof -
  let ?i = "findIDRCutPoint (p_queue p) (ms_u64 (sg_segDur (p_seg p)))"
  obtain k where k: "?i = int k" "Suc k < length (q_video (p_queue p))" using findIDR_spec [OF refl assms(5)] by blast
  then have vl: "0 < VideoLen (p_queue p)" by (cases "q_video (p_queue p)") (simp_all add: VideoLen_def)
  have have1: "liveTrackPresence now p = (True, False)"
    using assms(1-4) vl by (simp add: liveTrackPresence_def Let_def)
  have pair: "pair_tracks (True, False) p = p" by (simp add: pair_tracks_def)
  have may: "tick_may_cut now (True, False) p"
    using assms(1,2) by (simp add: tick_may_cut_def CanEmitFirstSegment_def Let_def)
  let ?d = "\<lparr>cd_Ok = True, cd_VideoCount = int k + 1, cd_AudioCount = 0, cd_IsIDRAligned = True\<rparr>"
  have cut: "Cut now (p_queue p) True False sr (p_seg p) = (?d, p_seg p)" for sr
    using vl k(1) assms(5) by (simp add: Cut_def cutVideo_def buildCutDecision_def Let_def)
  let ?pop = "PopVideo (int k + 1) (p_queue p)"
  have "q_video (p_queue p) \<noteq> []" using k(2) by (cases "q_video (p_queue p)") simp_all
  then have pop: "snd ?pop \<noteq> []" by (simp add: PopVideo_def Let_def)
  let ?wv = "writeVideoSegment lib now io (snd ?pop) (videoPTSAt (p_queue p) (int k + 1)) (p\<lparr>p_queue := fst ?pop\<rparr>, w)"
  have vp: "write_video_part lib now io ?d (p, w) = ?wv"
    using pop assms(2) by (simp add: write_video_part_def Let_def)
  obtain b pw1 where wv: "?wv = (b, pw1)" by (metis surj_pair)
  have b: "b" "p_vSegN (fst pw1) = Suc (p_vSegN p)"
    using writeVideo_succeeds [OF assms(7) pop, of lib now "videoPTSAt (p_queue p) (int k + 1)" "p\<lparr>p_queue := fst ?pop\<rparr>" w] wv
    by simp_all
  obtain c pw2 where wa: "write_audio_part now io ?d pw1 = (c, pw2)" by (metis surj_pair)
  have ws: "writeSegments lib now io ?d (p, w) = (True, pw2)" using vp wv wa b(1) by (simp add: writeSegments_def)
  have "p_vSegN (fst pw2) = Suc (p_vSegN p)" using writeAudio_vSegN [of now io ?d pw1] wa b(2) by simp
  moreover have "tryCut lib now io (p, w) = after_flush now io ?d pw2"
    using assms(6) ws
    by (simp add: tryCut_def have1 may pair cut_now_def cut diagAudioStarvation_def Let_def)
  ultimately show ?thesis by (simp add: after_flush_vSegN)
qed

text \<open>How much audio a cut of the whole queue, or of any aligned part of it, needs.\<close>

lemma cut_duration_ge:
  assumes "small_pts q" and "sorted (map vf_PTSms (q_video q))" and "d \<le> VideoSpanMS q" and "0 < d"
    and "i = findIDRCutPoint q d \<and> 0 \<le> i \<or> i = int (VideoLen q) - 1"
  shows "d \<le> cut_duration q (hd (q_video q)) i"
proof -
  let ?v = "q_video q"
  have len: "2 \<le> length ?v" using assms(3,4) by (auto simp: VideoSpanMS_def Let_def split: if_splits)
  then have ne: "?v \<noteq> []" by auto
  have hd: "hd ?v = ?v ! 0" using ne by (simp add: hd_conv_nth)
  from assms(5) consider (idr) k where "i = int k" "Suc k < length ?v" "d \<le> vf_PTSms (?v ! Suc k) - vf_PTSms (?v ! 0)"
    | (all) "i = int (length ?v) - 1"
    using findIDR_spec [OF refl, of q d] by (auto simp: VideoLen_def)
  then show ?thesis
  proof cases
    case idr
    have le: "vf_PTSms (?v ! 0) \<le> vf_PTSms (?v ! Suc k)"
      using sorted_nth_mono [OF assms(2), of 0 "Suc k"] idr(2) len nth_map [of 0 ?v vf_PTSms] ne by simp
    have "vf_PTSms (?v ! Suc k) \<noteq> vf_PTSms (?v ! 0)" using idr(3) assms(4) by auto
    with le have "vf_PTSms (?v ! 0) < vf_PTSms (?v ! Suc k)" by simp
    moreover have "videoPTSAt q (i + 1) = Some (vf_PTSms (?v ! Suc k))" using idr(1,2) by (simp add: videoPTSAt_def nat_add_distrib)
    ultimately show ?thesis using idr(3) by (simp add: cut_duration_def hd Let_def)
  next
    case all
    let ?x = "vf_PTSms (?v ! 0)" and ?y = "vf_PTSms (?v ! (length ?v - 1))"
    have span: "?x < ?y" "d \<le> ?y - ?x" using assms(3,4) len by (auto simp: VideoSpanMS_def Let_def not_le split: if_splits)
    have at: "videoPTSAt q (i + 1) = None" "videoPTSAt q i = Some ?y"
      using all len by (auto simp: videoPTSAt_def nat_diff_distrib)
    have small: "unat (?y - ?x) < 2 ^ 40" using sub_small [OF span(1) videoPTSAt_small [OF assms(1) at(2)]] .
    have "?y - ?x \<le> (?y - ?x) + (?y - ?x) div m" for m
    proof -
      have q: "unat ((?y - ?x) div m) \<le> unat (?y - ?x)" unfolding unat_div by (rule div_le_dividend)
      then have "unat (?y - ?x) + unat ((?y - ?x) div m) < 2 ^ 64" using small by simp
      then have "unat ((?y - ?x) + (?y - ?x) div m) = unat (?y - ?x) + unat ((?y - ?x) div m)"
        by (simp add: unat_word_ariths)
      then show ?thesis by (simp add: word_le_nat_alt)
    qed
    then have "d \<le> (?y - ?x) + (?y - ?x) div m" for m using span(2) order_trans by blast
    then show ?thesis using span at by (simp add: cut_duration_def hd Let_def)
  qed
qed

lemma buildCutDecision_holds:
  assumes "i = findIDRCutPoint q d \<and> 0 \<le> i \<or> i = int (VideoLen q) - 1"
    and "small_pts q" and "sorted (map vf_PTSms (q_video q))" and "d \<le> VideoSpanMS q" and "0 < d"
    and "0 < sr" and "unat sr < 2 ^ 20" and "unat (sg_residual s) < 1024"
    and "(AudioLen q + 1) * 1024000 \<le> unat d * unat sr"
  shows "buildCutDecision q i True al sr s = (no_cut, s)"
proof (cases "i < 0")
  case True
  then show ?thesis by (simp add: buildCutDecision_def)
next
  case False
  define f where "f = hd (q_video q)"
  have ne: "q_video q \<noteq> []" using assms(4,5) by (auto simp: VideoSpanMS_def)
  have first: "FirstVideo q = Some f" using ne by (simp add: FirstVideo_def f_def hd_conv_nth)
  define dur where "dur = cut_duration q f i"
  have ge: "d \<le> dur" unfolding dur_def f_def using cut_duration_ge [OF assms(2-5) assms(1)] .
  have dsm: "unat dur < 2 ^ 41" unfolding dur_def by (rule cut_duration_small [OF assms(2)])
  define tot where "tot = dur * sr div 1000 + sg_residual s"
  note ts = total_samples [OF dsm assms(7,8), folded tot_def]
  have "unat d \<le> unat dur" using ge by (simp add: word_le_nat_alt)
  then have "unat d * unat sr \<le> unat dur * unat sr" by simp
  with assms(9) have "(AudioLen q + 1) * 1024000 \<le> unat dur * unat sr" by linarith
  then have "(AudioLen q + 1) * 1024000 div 1000 \<le> unat dur * unat sr div 1000" by (rule div_le_mono)
  then have "(AudioLen q + 1) * 1024 \<le> unat tot" using ts by simp
  then have "(AudioLen q + 1) * 1024 div 1024 \<le> unat tot div 1024" by (rule div_le_mono)
  then have more: "AudioLen q < unat tot div 1024" by simp
  have tgt: "sint (tot div 1024) = int (unat tot div 1024)"
    using ts by (subst sint_small) (simp_all add: unat_div)
  have "0 < dur" using ge assms(5) by (auto simp: word_less_nat_alt word_le_nat_alt)
  with False first more assms(6) show ?thesis
    by (simp add: buildCutDecision_def Let_def dur_def [symmetric] tot_def [symmetric] tgt)
qed

text \<open>
  a track that dies with frames still queued does freeze the other. In a live packager of both tracks,
  let a few audio frames be left, fewer than the target duration needs, and the queued video span at
  least the target duration: then no tick, however late, writes anything or changes the packager. The
  track counts as alive because its queue is not empty, and its queue never empties because every cut
  waits for it.
\<close>
theorem leftover_audio_freezes_the_live_edge:
  assumes "sm_state (p_state p) = StateLive" and "p_videoInit p \<noteq> None"
    and "p_audioInit p = Some ai" and "dc_PackAudio (p_cfg p)" and "0 < ai_SampleRate ai" and "ai_SampleRate ai < 2 ^ 20"
    and "0 < AudioLen (p_queue p)"
    and "(AudioLen (p_queue p) + 1) * 1024000 \<le> unat (ms_u64 (sg_segDur (p_seg p))) * nat (ai_SampleRate ai)"
    and "small_pts (p_queue p)" and "sorted (map vf_PTSms (q_video (p_queue p)))"
    and "ms_u64 (sg_segDur (p_seg p)) \<le> VideoSpanMS (p_queue p)" and "unat (sg_residual (p_seg p)) < 1024"
  shows "tryCut lib now io (p, w) = (p, w)"
proof -
  let ?d = "ms_u64 (sg_segDur (p_seg p))" and ?q = "p_queue p" and ?sr = "audio_sr p"
  have sr: "unat ?sr = nat (ai_SampleRate ai)"
    using assms(5,6) by (simp add: audio_sr_def assms(3) unat_eq_nat_uint uint_word_of_int)
  have sr2: "0 < ?sr" "unat ?sr < 2 ^ 20" using sr assms(5,6) by (auto simp: word_less_nat_alt nat_less_iff)
  have d0: "0 < ?d" using assms(8) by (cases "?d = 0") (auto simp: word_gt_0)
  have vl: "0 < VideoLen ?q" using assms(11) d0 by (auto simp: VideoLen_def VideoSpanMS_def Let_def split: if_splits)
  have have2: "liveTrackPresence now p = (True, True)"
    using assms(1-3,7) vl by (simp add: liveTrackPresence_def Let_def)
  have pair: "pair_tracks (True, True) p = p" using assms(1) by (simp add: pair_tracks_def)
  have hold: "buildCutDecision ?q i True al ?sr (p_seg p) = (no_cut, p_seg p)"
    if "i = findIDRCutPoint ?q ?d \<and> 0 \<le> i \<or> i = int (VideoLen ?q) - 1" for i al
    using assms(8) sr by (intro buildCutDecision_holds [OF that assms(9,10,11) d0 sr2 assms(12)]) simp
  have "cutVideo now ?q ?d (?d * word_of_int (sg_maxFactor (p_seg p))) True ?sr (p_seg p) = (no_cut, p_seg p)"
    using hold [of "findIDRCutPoint ?q ?d"] hold [of "int (VideoLen ?q) - 1"] by (simp add: cutVideo_def Let_def)
  then have "Cut now ?q True True ?sr (p_seg p) = (no_cut, p_seg p)" using vl by (simp add: Cut_def Let_def)
  then have "cut_now lib now io (True, True) (p, w) = (p, w)"
    using assms(3,4) by (simp add: cut_now_def Let_def no_cut_def)
  then show ?thesis by (simp add: tryCut_def have2 pair Let_def)
qed

subsection \<open>Segments are not published ahead of the clock\<close>

definition grows :: "SegmentEntry list \<Rightarrow> nat \<Rightarrow> SegmentEntry list \<Rightarrow> nat \<Rightarrow> u64 \<Rightarrow> bool" where
  "grows es n es' n' t \<longleftrightarrow> es' = es \<and> n' = n \<or> n' = Suc n \<and> es' \<noteq> [] \<and> se_StartTicks (last es') = t"

lemma grows_refl: "grows es n es n t"
  by (simp add: grows_def)

lemma write_video_grows:
  assumes "write_video_part lib now io d (p, w) = (b, p', w')"
  shows "grows (p_vSegEntries p) (p_vSegN p) (p_vSegEntries p') (p_vSegN p')
      (videoTfdtForSegment (p_vSegEntries p) now (p_availStart p)) \<and>
    p_aSegEntries p' = p_aSegEntries p \<and> p_aSegN p' = p_aSegN p \<and> p_audioInit p' = p_audioInit p \<and>
    p_availStart p' = p_availStart p"
  using assms by (auto simp: write_video_part_def writeVideoSegment_def Let_def grows_def split: if_splits option.splits)

lemma write_audio_grows:
  assumes "write_audio_part now io d (p, w) = (b, p', w')"
  shows "grows (p_aSegEntries p) (p_aSegN p) (p_aSegEntries p') (p_aSegN p')
      (audioTfdtForSegment (p_aSegEntries p) now (p_availStart p) (audio_sr p)) \<and>
    p_vSegEntries p' = p_vSegEntries p \<and> p_vSegN p' = p_vSegN p"
  using assms by (auto simp: write_audio_part_def writeAudioSegment_def audio_sr_def Let_def grows_def split: if_splits option.splits)

lemma drop_keeps_last:
  assumes "grows es n es' n' t" and "n' = Suc n" and "j < length es'"
  shows "drop j es' \<noteq> [] \<and> se_StartTicks (last (drop j es')) = t"
  using assms by (auto simp: grows_def last_drop)

definition keeps_newest :: "SegmentEntry list \<Rightarrow> SegmentEntry list \<Rightarrow> bool" where
  "keeps_newest es es' \<longleftrightarrow> (\<exists>j. es' = drop j es \<and> (es \<noteq> [] \<longrightarrow> j < length es))"

lemma keeps_newest_refl: "keeps_newest es es"
  unfolding keeps_newest_def by (intro exI [of _ 0]) auto

lemma trimWindow_keeps_newest:
  assumes "world_ok pw" and "0 < dc_Window (p_cfg (fst pw)) + dc_History (p_cfg (fst pw))"
  shows "keeps_newest (p_vSegEntries (fst pw)) (p_vSegEntries (fst (trimWindow pw))) \<and>
    keeps_newest (p_aSegEntries (fst pw)) (p_aSegEntries (fst (trimWindow pw))) \<and>
    p_vSegN (fst (trimWindow pw)) = p_vSegN (fst pw) \<and> p_aSegN (fst (trimWindow pw)) = p_aSegN (fst pw)"
proof -
  obtain p w where pw: "pw = (p, w)" by fastforce
  let ?m = "dc_Window (p_cfg p) + dc_History (p_cfg p)"
  have len: "length (p_vSegEntries p) = length (p_onDiskV p)" "length (p_aSegEntries p) = length (p_onDiskA p)"
    using assms(1) by (auto simp: pw world_ok_def track_ok_def)
  have newest: "keeps_newest es (drop (nat (int (length es) - ?m)) es)" for es
  proof -
    have "nat (int (length es) - ?m) < length es" if "es \<noteq> []"
      using assms(2) that pw by (cases es) (auto simp: nat_less_iff)
    then show ?thesis unfolding keeps_newest_def by blast
  qed
  have v: "p_vSegEntries (fst (trimWindow pw)) \<in> {p_vSegEntries p, drop (nat (int (length (p_vSegEntries p)) - ?m)) (p_vSegEntries p)}"
    by (simp add: pw trimWindow_def trim_video_def trim_audio_def Let_def dropFront_eq len)
  have a: "p_aSegEntries (fst (trimWindow pw)) \<in> {p_aSegEntries p, drop (nat (int (length (p_aSegEntries p)) - ?m)) (p_aSegEntries p)}"
    by (simp add: pw trimWindow_def trim_video_def trim_audio_def Let_def dropFront_eq len)
  have n: "p_aSegN (fst (trimWindow pw)) = p_aSegN p"
    by (simp add: pw trimWindow_def trim_video_def trim_audio_def Let_def)
  show ?thesis using v a n newest keeps_newest_refl by (auto simp: pw trim_vSegN)
qed

lemma after_flush_newest:
  assumes "world_ok pw" and "0 < dc_Window (p_cfg (fst pw)) + dc_History (p_cfg (fst pw))"
  shows "keeps_newest (p_vSegEntries (fst pw)) (p_vSegEntries (fst (after_flush now io d pw))) \<and>
    keeps_newest (p_aSegEntries (fst pw)) (p_aSegEntries (fst (after_flush now io d pw))) \<and>
    p_vSegN (fst (after_flush now io d pw)) = p_vSegN (fst pw) \<and> p_aSegN (fst (after_flush now io d pw)) = p_aSegN (fst pw)"
proof -
  obtain p w where pw: "pw = (p, w)" by fastforce
  let ?p1 = "p\<lparr>p_seg := MarkCut now (p_seg p), p_state := OnFirstSegmentFlushed (p_state p)\<rparr>"
  obtain p2 w2 where a: "anchor_avail_start now (?p1, w) = (p2, w2)" by fastforce
  let ?p3 = "if \<not> cd_IsIDRAligned d then p2\<lparr>p_firstIDRSeen := False\<rparr> else p2"
  have "(p_cfg p2, p_vSegEntries p2, p_aSegEntries p2, p_vSegN p2, p_aSegN p2) =
      (p_cfg p, p_vSegEntries p, p_aSegEntries p, p_vSegN p, p_aSegN p)"
    using a by (auto simp: anchor_avail_start_def split: if_splits prod.splits)
  then have same: "p_cfg ?p3 = p_cfg p" "p_vSegEntries ?p3 = p_vSegEntries p" "p_aSegEntries ?p3 = p_aSegEntries p"
    "p_vSegN ?p3 = p_vSegN p" "p_aSegN ?p3 = p_aSegN p" by simp_all
  have ok1: "world_ok (?p1, w)" using assms(1) pw by (simp add: world_ok_def)
  have ok2: "world_ok (p2, w2)" using anchor_keeps [of now "(?p1, w)"] a ok1 by simp
  have ok: "world_ok (?p3, w2)" using ok2 by (simp add: world_ok_def)
  have pos: "0 < dc_Window (p_cfg (fst (?p3, w2))) + dc_History (p_cfg (fst (?p3, w2)))"
    using assms(2) same(1) pw by (simp only: fst_conv)
  have f: "after_flush now io d (p, w) = publishManifest now io (trimWindow (?p3, w2))"
    using a by (simp add: after_flush_def)
  show ?thesis using trimWindow_keeps_newest [OF ok pos] unfolding pw f publishManifest_fst fst_conv same .
qed

lemma grows_newest:
  assumes "grows es n es1 n1 t" and "keeps_newest es1 es2" and "n1 = n \<or> t \<le> bnd"
  shows "n1 = n \<or> n1 = Suc n \<and> es2 \<noteq> [] \<and> se_StartTicks (last es2) \<le> bnd"
  using assms by (auto simp: grows_def keeps_newest_def last_drop)

text \<open>
  no segment is published ahead of the clock: once the availability start is set, any segment that a
  tick adds to the video or audio timeline starts no later than the wallclock time elapsed since then, in
  the track's own ticks, however fast the source delivers.
\<close>
theorem segments_never_start_in_the_future:
  assumes "packager_reaches lib cfg (p, w)" and "0 \<le> dc_History cfg" and "p_availStart p = Some ast"
    and "tryCut lib now io (p, w) = (p', w')"
  shows "(p_vSegN p' = p_vSegN p \<or> p_vSegN p' = Suc (p_vSegN p) \<and> p_vSegEntries p' \<noteq> [] \<and>
      se_StartTicks (last (p_vSegEntries p')) \<le> wallclockTicks now (Some ast) VideoTimescale) \<and>
    (p_aSegN p' = p_aSegN p \<or> p_aSegN p' = Suc (p_aSegN p) \<and> p_aSegEntries p' \<noteq> [] \<and>
      se_StartTicks (last (p_aSegEntries p')) \<le> wallclockTicks now (Some ast) (audio_sr p))"
proof -
  define present where "present = liveTrackPresence now p"
  let ?p1 = "pair_tracks present p"
  have ok: "world_ok (p, w)" "0 < dc_Window (p_cfg p) + dc_History (p_cfg p)"
    using reaches_ok [OF assms(1,2)] assms(2) by simp_all
  have view: "seg_view ?p1 = seg_view p" by simp
  have sr1: "p_audioInit ?p1 = p_audioInit p"
    by (simp add: pair_tracks_def truncateAtPairing_locked_def Let_def split: option.split)
  have ok1: "world_ok (?p1, w)" using ok(1) world_ok_view [OF view refl] by blast
  have e1: "p_vSegEntries ?p1 = p_vSegEntries p" "p_vSegN ?p1 = p_vSegN p" "p_aSegEntries ?p1 = p_aSegEntries p"
    "p_aSegN ?p1 = p_aSegN p" "p_availStart ?p1 = Some ast" "p_cfg ?p1 = p_cfg p"
    using view assms(3) by (auto simp: seg_view_def)
  show ?thesis
  proof (cases "tick_may_cut now present p \<and> \<not> behindPrevSegEnd now ?p1")
    case False
    then have "p' = p \<or> p' = ?p1" using assms(4) by (auto simp: tryCut_def present_def Let_def split: if_splits)
    with e1 show ?thesis by auto
  next
    case True
    then have run: "cut_now lib now io present (?p1, w) = (p', w')"
      using assms(4) by (auto simp: tryCut_def present_def Let_def)
    have limv: "videoTfdtForSegment (p_vSegEntries p) now (Some ast) \<le> wallclockTicks now (Some ast) VideoTimescale"
      using True e1 by (auto simp: behindPrevSegEnd_def behind_track_def videoTfdtForSegment_def not_less split: if_splits)
    have lima: "p_audioInit p \<noteq> None \<Longrightarrow>
        audioTfdtForSegment (p_aSegEntries p) now (Some ast) (audio_sr p) \<le> wallclockTicks now (Some ast) (audio_sr p)"
      using True e1 sr1 by (auto simp: behindPrevSegEnd_def behind_track_def audioTfdtForSegment_def audio_sr_def not_less split: if_splits)
    obtain d seg where c: "Cut now (p_queue ?p1) (fst present) (snd present)
        (if p_audioInit ?p1 \<noteq> None \<and> dc_PackAudio (p_cfg ?p1) then audio_sr ?p1 else 0) (p_seg ?p1) = (d, seg)" by fastforce
    let ?p3 = "diagAudioStarvation now d (snd present) (?p1\<lparr>p_seg := seg\<rparr>)"
    have v3: "seg_view ?p3 = seg_view ?p1" "seg_view (?p1\<lparr>p_seg := seg\<rparr>) = seg_view ?p1" by simp_all
    have a3: "p_audioInit ?p3 = p_audioInit p" using sr1 by (simp add: diagAudioStarvation_def Let_def split: option.split)
    have e3: "p_vSegEntries ?p3 = p_vSegEntries p" "p_vSegN ?p3 = p_vSegN p" "p_aSegEntries ?p3 = p_aSegEntries p"
      "p_aSegN ?p3 = p_aSegN p" "p_availStart ?p3 = Some ast" "p_cfg ?p3 = p_cfg p"
      using v3(1) e1 by (auto simp: seg_view_def)
    have ok3: "world_ok (?p3, w)" using ok1 world_ok_view [OF v3(1) refl] by blast
    obtain b4 p4 w4 where v4: "write_video_part lib now io d (?p3, w) = (b4, p4, w4)" by (metis prod_cases3)
    obtain b5 p5 w5 where v5: "write_audio_part now io d (p4, w4) = (b5, p5, w5)" by (metis prod_cases3)
    note g4 = write_video_grows [OF v4] and g5 = write_audio_grows [OF v5]
    have ws: "writeSegments lib now io d (?p3, w) = (b4 \<or> b5, p5, w5)" using v4 v5 by (simp add: writeSegments_def)
    note ok5 = world_ok_writeSegments [OF ok3 ws]
    have sr4: "audio_sr p4 = audio_sr p" using g4 a3 by (simp add: audio_sr_def)
    have gv: "grows (p_vSegEntries p) (p_vSegN p) (p_vSegEntries p5) (p_vSegN p5) (videoTfdtForSegment (p_vSegEntries p) now (Some ast))"
      using g4 g5 e3 by simp
    have ga: "grows (p_aSegEntries p) (p_aSegN p) (p_aSegEntries p5) (p_aSegN p5) (audioTfdtForSegment (p_aSegEntries p) now (Some ast) (audio_sr p))"
      using g4 g5 e3 sr4 by simp
    have noaudio: "p_aSegN p5 = p_aSegN p" if "p_audioInit p = None"
      using v5 g4 a3 that e3 by (auto simp: write_audio_part_def split: if_splits)
    have pos: "0 < dc_Window (p_cfg (fst (p5, w5))) + dc_History (p_cfg (fst (p5, w5)))"
      using ok5 e3(6) ok(2) by (simp add: same_setup_def)
    note fl = after_flush_newest [OF conjunct1 [OF ok5] pos, of now io d, unfolded fst_conv]
    have "(p', w') = (?p1\<lparr>p_seg := seg\<rparr>, w) \<or> (p', w') = after_flush now io d (p5, w5) \<or> (p', w') = (p5, w5)"
      using run c ws by (auto simp: cut_now_def Let_def split: if_splits)
    then have "p_vSegN p' = p_vSegN p \<and> p_aSegN p' = p_aSegN p \<or>
      p_vSegN p' = p_vSegN p5 \<and> p_aSegN p' = p_aSegN p5 \<and>
      keeps_newest (p_vSegEntries p5) (p_vSegEntries p') \<and> keeps_newest (p_aSegEntries p5) (p_aSegEntries p')"
    proof (elim disjE)
      assume "(p', w') = (?p1\<lparr>p_seg := seg\<rparr>, w)"
      then have "seg_view p' = seg_view ?p1" using v3(2) by simp
      with e1 show ?thesis by (simp add: seg_view_def)
    next
      assume "(p', w') = after_flush now io d (p5, w5)"
      then have "p' = fst (after_flush now io d (p5, w5))" by (metis fst_conv)
      with fl show ?thesis by simp
    qed (simp add: keeps_newest_refl)
    then show ?thesis
      using grows_newest [OF gv] grows_newest [OF ga] limv lima noaudio by metis
  qed
qed

subsection \<open>Concrete runs\<close>

text \<open>A library that finds parameter sets in every frame, and audio frames of \<open>toy_adts\<close>.\<close>

definition toy_lib :: Mp4Lib where
  "toy_lib = \<lparr>ml_ParamSetsAVC = (\<lambda>b. ([[1]], [[2]])), ml_ParamSetsHEVC = (\<lambda>b. ([], [], [])),
     ml_AVC = (\<lambda>s p. Some \<lparr>vi_Init = [], vi_TrackID = 1, vi_Info = \<lparr>ti_Codec = ''avc1'', ti_Width = 2, ti_Height = 2, ti_IsHEVC = False\<rparr>\<rparr>),
     ml_HEVC = (\<lambda>v s p. None), ml_ADTS = toy_adts, ml_AAC = (\<lambda>sr. Some ([], 1)),
     ml_ToNaluSample = (\<lambda>b. b), ml_ExtractNalus = (\<lambda>b. []), ml_IDR264 = (\<lambda>b. True), ml_IDR265 = (\<lambda>b. True)\<rparr>"

definition toy_cfg :: "bool \<Rightarrow> duration \<Rightarrow> DashConfig" where
  "toy_cfg audio segDur = \<lparr>dc_StreamDir = ''d'', dc_ManifestPath = ''m'', dc_SegDur = segDur, dc_Window = 3, dc_History = 0,
     dc_Ephemeral = True, dc_PairingTimeout = seconds 3, dc_HasMaster = False, dc_ABRSlug = '''', dc_PackAudio = audio,
     dc_OverrideBandwidth = 0\<rparr>"

definition toy_start :: "DashConfig \<Rightarrow> Packager \<times> DashWorld" where
  "toy_start cfg = ((case NewPackager cfg of Inr p \<Rightarrow> p | Inl _ \<Rightarrow> undefined),
     \<lparr>w_files = (\<lambda>_. None), w_mpd = None, w_master = NewABRMaster (seconds 2) 3\<rparr>)"

definition toy_video :: "int \<Rightarrow> bool \<Rightarrow> AVPacket" where
  "toy_video t key = \<lparr>av_Codec = AVCodecH264, av_Data = [7], av_PTSms = t, av_DTSms = t, av_KeyFrame = key\<rparr>"

definition toy_audio :: "int \<Rightarrow> AVPacket" where
  "toy_audio t = \<lparr>av_Codec = AVCodecAAC, av_Data = [0xFF, 1, 7, 0xFF, 1, 8], av_PTSms = t, av_DTSms = t, av_KeyFrame = False\<rparr>"

definition all_ok :: WriteOk where "all_ok = \<lparr>ok_video = True, ok_audio = True, ok_mpd = True\<rparr>"

definition toy_run :: "DashConfig \<Rightarrow> PackagerOp list \<Rightarrow> Packager \<times> DashWorld" where
  "toy_run cfg ops = fold (packager_step toy_lib) ops (toy_start cfg)"

lemma toy_run_reaches: "packager_reaches toy_lib (toy_cfg a d) (toy_run (toy_cfg a d) ops)"
proof -
  have run: "packager_reaches toy_lib cfg (fold (packager_step toy_lib) ops pw)" if "packager_reaches toy_lib cfg pw" for cfg ops pw
    using that
  proof (induction ops arbitrary: pw)
    case (Cons op ops)
    show ?case using Cons.IH [OF packager_reaches.step [OF Cons.prems, of op]] by simp
  qed simp
  obtain p where p: "NewPackager (toy_cfg a d) = Inr p" by (auto simp: NewPackager_def toy_cfg_def Let_def)
  show ?thesis using run [OF packager_reaches.start [OF p]] by (simp add: toy_run_def toy_start_def p)
qed

definition video_ops :: "PackagerOp list" where
  "video_ops = [OpAV 0 (toy_video 0 True), OpAV (seconds 2) (toy_video 2000 True), OpTick (seconds 2) all_ok,
     OpAV (seconds 4) (toy_video 4000 True), OpTick (seconds 4) all_ok]"

theorem manifest_matches_disk_witness:
  "\<exists>frag. w_files (snd (toy_run (toy_cfg False (seconds 2)) video_ops)) ''seg_v_00002.m4s'' = Some frag \<and> starts_at frag 180000"
proof -
  let ?pw = "toy_run (toy_cfg False (seconds 2)) video_ops"
  let ?t = "hd (mi_Video (the (buildManifestInput_locked 5 (fst ?pw))))"
  have r: "packager_reaches toy_lib (toy_cfg False (seconds 2)) (fst ?pw, snd ?pw)"
    using toy_run_reaches [of False "seconds 2" video_ops] by simp
  have h: "0 \<le> dc_History (toy_cfg False (seconds 2))" by (simp add: toy_cfg_def)
  have "p_vSegN (fst ?pw) = 2" "p_aSegN (fst ?pw) = 0" by code_simp+
  then have n: "p_vSegN (fst ?pw) < 2 ^ 64" "p_aSegN (fst ?pw) < 2 ^ 64" by simp_all
  have b: "buildManifestInput_locked 5 (fst ?pw) = Some (the (buildManifestInput_locked 5 (fst ?pw)))" by code_simp
  have "mi_Video (the (buildManifestInput_locked 5 (fst ?pw))) \<noteq> []" by code_simp
  then have m: "manifest_track (the (buildManifestInput_locked 5 (fst ?pw))) (CHR ''v'') ?t"
    by (simp add: manifest_track_def)
  have i: "1 < length (tm_Segments ?t)" by code_simp
  have s: "unat (tm_StartNumber ?t) = 1" "se_StartTicks (tm_Segments ?t ! 1) = 180000" "seg_name (CHR ''v'') 2 = ''seg_v_00002.m4s''"
    by code_simp+
  from manifest_matches_disk [OF r h n b m i] s show ?thesis by (auto simp: numeral_2_eq_2)
qed

theorem segments_never_start_in_the_future_witness:
  "se_StartTicks (last (p_vSegEntries (fst (toy_run (toy_cfg False (seconds 2)) video_ops))))
     \<le> wallclockTicks (seconds 4) (Some (seconds 2)) VideoTimescale"
proof -
  let ?pw = "toy_run (toy_cfg False (seconds 2)) (take 4 video_ops)"
  have r: "packager_reaches toy_lib (toy_cfg False (seconds 2)) (fst ?pw, snd ?pw)"
    using toy_run_reaches [of False "seconds 2" "take 4 video_ops"] by simp
  have h: "0 \<le> dc_History (toy_cfg False (seconds 2))" by (simp add: toy_cfg_def)
  have a: "p_availStart (fst ?pw) = Some (seconds 2)" by code_simp
  have e: "tryCut toy_lib (seconds 4) all_ok (fst ?pw, snd ?pw) =
      (fst (toy_run (toy_cfg False (seconds 2)) video_ops), snd (toy_run (toy_cfg False (seconds 2)) video_ops))"
    by (simp add: toy_run_def video_ops_def)
  have n: "p_vSegN (fst ?pw) = 1" "p_vSegN (fst (toy_run (toy_cfg False (seconds 2)) video_ops)) = 2" by code_simp+
  from segments_never_start_in_the_future [OF r h a e] n show ?thesis by simp
qed

definition live_packager :: "AudioFrame list \<Rightarrow> Packager" where
  "live_packager audio = (fst (toy_start (toy_cfg True (millis 80))))
     \<lparr>p_state := \<lparr>sm_state = StateLive, sm_pairingTimeout = seconds 3, sm_pairingDeadline = Some 0\<rparr>,
      p_videoInit := ml_AVC toy_lib [] [], p_audioInit := Some \<lparr>ai_Init = [], ai_TrackID = 1, ai_SampleRate = 48000, ai_Codec = []\<rparr>,
      p_queue := \<lparr>q_video = q_video two_gops, q_audio = audio\<rparr>\<rparr>"

theorem dead_audio_does_not_freeze_video_witness:
  "p_vSegN (fst (tryCut toy_lib (seconds 20) all_ok (live_packager [], snd (toy_start (toy_cfg True (millis 80)))))) = 1"
proof -
  let ?p = "live_packager []"
  have "sm_state (p_state ?p) = StateLive" "p_videoInit ?p \<noteq> None" "AudioLen (p_queue ?p) = 0"
    "silent_since (seconds 20) (p_lastAudioFrameAt ?p)"
    "0 \<le> findIDRCutPoint (p_queue ?p) (ms_u64 (sg_segDur (p_seg ?p)))"
    "\<not> behindPrevSegEnd (seconds 20) ?p" "ok_video all_ok" "p_vSegN ?p = 0"
    by code_simp+
  with dead_audio_does_not_freeze_video [of ?p "seconds 20" all_ok] show ?thesis by simp
qed

theorem leftover_audio_freezes_the_live_edge_witness:
  "\<forall>now io w. tryCut toy_lib now io (live_packager [aframe 0], w) = (live_packager [aframe 0], w)"
proof (intro allI)
  fix now io w
  let ?p = "live_packager [aframe 0]"
  have 1: "sm_state (p_state ?p) = StateLive" "p_videoInit ?p \<noteq> None" "dc_PackAudio (p_cfg ?p)" "0 < AudioLen (p_queue ?p)"
    "AudioLen (p_queue ?p) = 1" "ms_u64 (sg_segDur (p_seg ?p)) = 80" "sorted (map vf_PTSms (q_video (p_queue ?p)))"
    "ms_u64 (sg_segDur (p_seg ?p)) \<le> VideoSpanMS (p_queue ?p)" "sg_residual (p_seg ?p) = 0"
    by code_simp+
  have q: "small_pts (p_queue ?p)" by (simp add: live_packager_def small_pts_def two_gops_def vframe_def)
  have 2: "p_audioInit ?p = Some \<lparr>ai_Init = [], ai_TrackID = 1, ai_SampleRate = 48000, ai_Codec = []\<rparr>"
    by (simp add: live_packager_def)
  show "tryCut toy_lib now io (?p, w) = (?p, w)"
    by (rule leftover_audio_freezes_the_live_edge [OF 1(1,2) 2 1(3) _ _ 1(4) _ q 1(7,8)]) (simp_all add: 1(5,6,9))
qed

definition pairing_ops :: "PackagerOp list" where
  "pairing_ops = [OpAV 0 (toy_video 0 True), OpAV 0 (toy_video 40 False), OpAV 0 (toy_video 80 False),
     OpAV 0 (toy_audio 50), OpAV 0 (toy_video 120 True), OpTick (seconds 1) all_ok]"

text \<open>
  the first segment need not start with a key frame: the packager drops everything before the first
  IDR, but pairing then truncates both queues to the later of their first timestamps, and when audio is
  the later one this drops that IDR. There is a run of a stream with both tracks whose first video
  segment begins with a sample that is not a sync sample.
\<close>
theorem first_segment_can_lack_an_idr:
  "\<exists>pw frag. packager_reaches toy_lib (toy_cfg True (millis 40)) pw \<and>
     w_files (snd pw) ''seg_v_00001.m4s'' = Some frag \<and> fr_Samples frag \<noteq> [] \<and> \<not> smp_Sync (hd (fr_Samples frag))"
proof -
  let ?pw = "toy_run (toy_cfg True (millis 40)) pairing_ops"
  have "w_files (snd ?pw) ''seg_v_00001.m4s'' \<noteq> None" by code_simp
  then obtain frag where f: "w_files (snd ?pw) ''seg_v_00001.m4s'' = Some frag" by blast
  have "fr_Samples (the (w_files (snd ?pw) ''seg_v_00001.m4s'')) \<noteq> []"
    "\<not> smp_Sync (hd (fr_Samples (the (w_files (snd ?pw) ''seg_v_00001.m4s''))))" by code_simp+
  then show ?thesis using f toy_run_reaches [of True "millis 40" pairing_ops] by (intro exI [of _ ?pw] exI [of _ frag]) simp
qed

text \<open>A session boundary does not re-arm the key-frame gate either.\<close>

lemma boundary_keeps_the_idr_gate_open:
  "p_firstIDRSeen (onSessionBoundary p) = p_firstIDRSeen p" "q_video (p_queue (onSessionBoundary p)) = []"
  by (simp_all add: onSessionBoundary_def Let_def PopVideo_def PopAudio_def VideoLen_def)

end
