(* ===== verification/Blob_Writer.thy ===== *)
theory Blob_Writer
  imports Blob_Paths Dash_Packager
begin

text \<open>
  The DVR's profile lane, \<^verbatim>\<open>internal/dvr/blob/writer.go\<close>: packets of one rendition come in, the live
  packager's queue and segmenter cut fragments, and fragments go to the blob and index of the current UTC
  hour. The disk of the lane maps the key of an hour to its files; the handles of the open hour carry
  the contents, and every write goes through to the disk. The disk does not fail. The fragment encoder
  is a parameter beside \<open>Mp4Lib\<close>. A nil dereference is the outcome \<open>BwPanic\<close>.
\<close>

subsection \<open>State\<close>

definition DefaultSegDur :: duration where "DefaultSegDur = seconds 6"
definition maxSegFactor :: int where "maxSegFactor = 4"
definition videoTimescale :: u64 where "videoTimescale = 90000"

record HourRecord =
  hr_Hour :: string
  hr_WallFromMs :: int
  hr_WallToMs :: int
  hr_MediaFromV :: u64
  hr_MediaToV :: u64
  hr_Sealed :: bool
  hr_Discontinuity :: bool
  hr_FragCountV :: nat
  hr_FragCountA :: nat
  hr_SizeBytes :: int

definition hour_record0 :: HourRecord where
  "hour_record0 = \<lparr>hr_Hour = '''', hr_WallFromMs = 0, hr_WallToMs = 0, hr_MediaFromV = 0, hr_MediaToV = 0,
     hr_Sealed = False, hr_Discontinuity = False, hr_FragCountV = 0, hr_FragCountA = 0, hr_SizeBytes = 0\<rparr>"

record ProfileWriter =
  pw_isAudio :: bool
  pw_q :: FrameQueue
  pw_seg :: Segmenter
  pw_videoInit :: "VideoInit option"
  pw_audioInit :: "AudioInit option"
  pw_firstIDR :: bool
  pw_originSet :: bool
  pw_originPTSms :: u64
  pw_originWallMs :: int
  pw_hour :: "int option"
  pw_stem :: string
  pw_vBlob :: "blobFile option"
  pw_aBlob :: "blobFile option"
  pw_rf :: "rangesFile option"
  pw_vSeq :: "32 word"
  pw_aSeq :: "32 word"
  pw_pendingDisc :: bool
  pw_lastVTfdt :: u64
  pw_haveVTfdt :: bool
  pw_lastATfdt :: u64
  pw_haveATfdt :: bool
  pw_cur :: HourRecord

record HourFiles =
  hf_v :: "byte list option"
  hf_a :: "byte list option"
  hf_ranges :: "byte list option"
  hf_open :: bool

definition no_files :: HourFiles where
  "no_files = \<lparr>hf_v = None, hf_a = None, hf_ranges = None, hf_open = False\<rparr>"

text \<open>What the lane leaves behind: its files, and the hour summaries given to the catalog.\<close>

record Archive =
  ar_disk :: "string \<Rightarrow> HourFiles"
  ar_sunk :: "HourRecord list"

record BlobLib =
  bl_mp4 :: Mp4Lib
  bl_enc :: "Fragment \<Rightarrow> byte list option"

datatype BwOutcome = BwOk | BwErr string | BwPanic

definition newProfileWriter :: "bool \<Rightarrow> duration \<Rightarrow> ProfileWriter" where
  "newProfileWriter isAudio segDur0 =
     (let segDur = (if segDur0 \<le> 0 then DefaultSegDur else segDur0) in
      \<lparr>pw_isAudio = isAudio, pw_q = NewFrameQueue, pw_seg = NewSegmenter segDur maxSegFactor, pw_videoInit = None,
       pw_audioInit = None, pw_firstIDR = False, pw_originSet = False, pw_originPTSms = 0, pw_originWallMs = 0,
       pw_hour = None, pw_stem = '''', pw_vBlob = None, pw_aBlob = None, pw_rf = None, pw_vSeq = 0, pw_aSeq = 0,
       pw_pendingDisc = False, pw_lastVTfdt = 0, pw_haveVTfdt = False, pw_lastATfdt = 0, pw_haveATfdt = False,
       pw_cur = hour_record0\<rparr>)"

subsection \<open>Frames coming in\<close>

definition ensureVideoInit :: "Mp4Lib \<Rightarrow> AVPacket \<Rightarrow> ProfileWriter \<Rightarrow> ProfileWriter" where
  "ensureVideoInit lib av p =
     (if pw_videoInit p \<noteq> None \<or> \<not> av_KeyFrame av then p
      else
        let vi = (if av_Codec av = AVCodecH265
                  then (case ExtractHEVCParameterSets lib (av_Data av) of (vpss, spss, ppss) \<Rightarrow> BuildH265Init lib vpss spss ppss)
                  else (case ExtractParameterSets lib (av_Data av) of (spss, ppss) \<Rightarrow> BuildH264Init lib spss ppss))
        in case vi of Some v \<Rightarrow> p\<lparr>pw_videoInit := Some v\<rparr> | None \<Rightarrow> p)"

definition ensureAudioInit :: "Mp4Lib \<Rightarrow> AVPacket \<Rightarrow> ProfileWriter \<Rightarrow> ProfileWriter" where
  "ensureAudioInit lib av p =
     (if pw_audioInit p \<noteq> None then p
      else case ml_ADTS lib (av_Data av) of
          None \<Rightarrow> p
        | Some hdr \<Rightarrow> (case BuildAACInit lib hdr of Some ai \<Rightarrow> p\<lparr>pw_audioInit := Some ai\<rparr> | None \<Rightarrow> p))"

definition push_v :: "VideoFrame \<Rightarrow> ProfileWriter \<Rightarrow> ProfileWriter" where
  "push_v f p = p\<lparr>pw_q := fst (PushVideo f (pw_q p))\<rparr>"

definition push_a :: "AudioFrame \<Rightarrow> ProfileWriter \<Rightarrow> ProfileWriter" where
  "push_a f p = p\<lparr>pw_q := fst (PushAudio f (pw_q p))\<rparr>"

definition ingestAV :: "Mp4Lib \<Rightarrow> AVPacket \<Rightarrow> gotime \<Rightarrow> ProfileWriter \<Rightarrow> ProfileWriter" where
  "ingestAV lib av now p =
     (if IsVideo (av_Codec av) then
        let p1 = (if \<not> pw_originSet p
                  then p\<lparr>pw_originSet := True, pw_originPTSms := word_of_int (av_PTSms av),
                         pw_originWallMs := now div millis 1\<rparr>
                  else p);
            p2 = ensureVideoInit lib av p1
        in
        if pw_videoInit p2 = None then p2
        else if \<not> pw_firstIDR p2 \<and> \<not> av_KeyFrame av then p2
        else push_v \<lparr>vf_AnnexB = av_Data av, vf_PTSms = word_of_int (av_PTSms av),
               vf_DTSms = word_of_int (av_DTSms av), vf_IsIDR = av_KeyFrame av\<rparr> (p2\<lparr>pw_firstIDR := True\<rparr>)
      else if pw_isAudio p \<and> av_Codec av = AVCodecAAC then
        let p1 = ensureAudioInit lib av p in
        if pw_audioInit p1 = None then p1
        else fold push_a (splitADTSBundle (ml_ADTS lib) (av_Data av) (word_of_int (av_PTSms av))) p1
      else p)"

subsection \<open>Ticks\<close>

text \<open>\<^verbatim>\<open>int64(ptsMs) - int64(w.originPTSms)\<close>.\<close>

definition deltaMs :: "u64 \<Rightarrow> ProfileWriter \<Rightarrow> int" where
  "deltaMs ptsMs p = sint (ptsMs - pw_originPTSms p)"

definition mediaTicks :: "u64 \<Rightarrow> u64 \<Rightarrow> ProfileWriter \<Rightarrow> u64" where
  "mediaTicks ptsMs timescale p =
     (let d = deltaMs ptsMs p; d' = (if d < 0 then 0 else d) in word_of_int d' * timescale div 1000)"

definition tfdtVideo :: "u64 \<Rightarrow> ProfileWriter \<Rightarrow> u64 \<times> ProfileWriter" where
  "tfdtVideo ptsMs p =
     (let t0 = mediaTicks ptsMs videoTimescale p;
          t = (if pw_haveVTfdt p \<and> \<not> pw_pendingDisc p \<and> t0 \<le> pw_lastVTfdt p then pw_lastVTfdt p + 1 else t0)
      in (t, p\<lparr>pw_lastVTfdt := t, pw_haveVTfdt := True\<rparr>))"

definition tfdtAudio :: "u64 \<Rightarrow> u64 \<Rightarrow> ProfileWriter \<Rightarrow> u64 \<times> ProfileWriter" where
  "tfdtAudio ptsMs sr p =
     (let t0 = mediaTicks ptsMs sr p;
          t = (if pw_haveATfdt p \<and> \<not> pw_pendingDisc p \<and> t0 \<le> pw_lastATfdt p then pw_lastATfdt p + 1 else t0)
      in (t, p\<lparr>pw_lastATfdt := t, pw_haveATfdt := True\<rparr>))"

definition noteVideoFrag :: "int \<Rightarrow> u64 \<Rightarrow> HourRecord \<Rightarrow> HourRecord" where
  "noteVideoFrag wallMs tfdtV c =
     (let c1 = (if hr_FragCountV c = 0 then c\<lparr>hr_WallFromMs := wallMs, hr_MediaFromV := tfdtV\<rparr> else c) in
      c1\<lparr>hr_WallToMs := wallMs, hr_MediaToV := tfdtV, hr_FragCountV := hr_FragCountV c1 + 1\<rparr>)"

subsection \<open>Hours\<close>

definition set_files :: "string \<Rightarrow> (HourFiles \<Rightarrow> HourFiles) \<Rightarrow> Archive \<Rightarrow> Archive" where
  "set_files stem f a = a\<lparr>ar_disk := (ar_disk a)(stem := f (ar_disk a stem))\<rparr>"

definition hourFilesExist :: "HourFiles \<Rightarrow> bool" where
  "hourFilesExist f \<longleftrightarrow> hf_v f \<noteq> None \<or> hf_a f \<noteq> None \<or> hf_ranges f \<noteq> None \<or> hf_open f"

definition removeHourFiles :: "string \<Rightarrow> Archive \<Rightarrow> Archive" where
  "removeHourFiles stem = set_files stem (\<lambda>_. no_files)"

text \<open>The in-memory handles of the open hour, written through.\<close>

definition sync_hour :: "ProfileWriter \<Rightarrow> Archive \<Rightarrow> Archive" where
  "sync_hour p = set_files (pw_stem p) (\<lambda>f.
     f\<lparr>hf_v := (case pw_vBlob p of Some b \<Rightarrow> Some (bf_data b) | None \<Rightarrow> hf_v f),
       hf_a := (case pw_aBlob p of Some b \<Rightarrow> Some (bf_data b) | None \<Rightarrow> hf_a f),
       hf_ranges := (case pw_rf p of Some r \<Rightarrow> Some (rf_data r) | None \<Rightarrow> hf_ranges f)\<rparr>)"

definition hourSize :: "ProfileWriter \<Rightarrow> int" where
  "hourSize p =
     (case pw_vBlob p of Some b \<Rightarrow> int (bf_size b) | None \<Rightarrow> 0) +
     (case pw_aBlob p of Some b \<Rightarrow> int (bf_size b) | None \<Rightarrow> 0)"

definition sink_hour :: "ProfileWriter \<Rightarrow> Archive \<Rightarrow> Archive" where
  "sink_hour p a = a\<lparr>ar_sunk := ar_sunk a @ [pw_cur p]\<rparr>"

definition closeHourFDs :: "ProfileWriter \<Rightarrow> ProfileWriter" where
  "closeHourFDs p = p\<lparr>pw_vBlob := None, pw_aBlob := None, pw_rf := None\<rparr>"

definition sealHour :: "ProfileWriter \<times> Archive \<Rightarrow> ProfileWriter \<times> Archive" where
  "sealHour pa =
     (case pa of (p, a) \<Rightarrow>
        let p1 = p\<lparr>pw_rf := map_option rf_Seal (pw_rf p)\<rparr>;
            a1 = set_files (pw_stem p) (\<lambda>f. f\<lparr>hf_open := False\<rparr>) (sync_hour p1 a);
            p2 = p1\<lparr>pw_cur := (pw_cur p1)\<lparr>hr_Sealed := True, hr_SizeBytes := hourSize p1\<rparr>\<rparr>
        in (closeHourFDs p2, sink_hour p2 a1))"

definition hour_header :: "int \<Rightarrow> byte list \<Rightarrow> RangesHeader" where
  "hour_header h vinit = \<lparr>rh_Version = 0, rh_RecordSize = 0, rh_Flags = 0, rh_VideoInitLen = of_nat (length vinit),
     rh_AudioInitLen = 0, rh_VideoTimescale = 90000, rh_AudioTimescale = 0, rh_RecordCount = 0,
     rh_HourStartUnixMs = word_of_int (h * 3600000), rh_BaseMediaTicksV = 0, rh_BaseMediaTicksA = 0\<rparr>"

definition openHour :: "int \<Rightarrow> ProfileWriter \<times> Archive \<Rightarrow> BwOutcome \<times> ProfileWriter \<times> Archive" where
  "openHour h pa =
     (case pa of (p, a) \<Rightarrow>
        let stem = hourRel h;
            a1 = (if hourFilesExist (ar_disk a stem) then removeHourFiles stem a else a)
        in case pw_videoInit p of
             None \<Rightarrow> (BwPanic, p, a1)
           | Some vi \<Rightarrow>
               case createBlobFile (hf_v (ar_disk a1 stem)) (vi_Init vi) of
                 None \<Rightarrow> (BwErr ''create'', p, a1)
               | Some vb \<Rightarrow>
                   let a2 = set_files stem (\<lambda>f. f\<lparr>hf_v := Some (bf_data vb)\<rparr>) a1 in
                   case createRangesFile (hf_ranges (ar_disk a2 stem)) (hour_header h (vi_Init vi)) of
                     None \<Rightarrow> (BwErr ''create ranges'', p, a2)
                   | Some rf \<Rightarrow>
                       (BwOk,
                        p\<lparr>pw_hour := Some h, pw_stem := stem, pw_vBlob := Some vb, pw_rf := Some rf, pw_aBlob := None,
                          pw_vSeq := 0, pw_aSeq := 0, pw_cur := hour_record0\<lparr>hr_Hour := hourRel h\<rparr>\<rparr>,
                        set_files stem (\<lambda>f. f\<lparr>hf_ranges := Some (rf_data rf), hf_open := True\<rparr>) a2))"

definition ensureHour :: "int \<Rightarrow> ProfileWriter \<times> Archive \<Rightarrow> BwOutcome \<times> ProfileWriter \<times> Archive" where
  "ensureHour wallMs pa =
     (let target = hourFloor wallMs; p = fst pa in
      if pw_hour p = Some target then (BwOk, pa)
      else openHour target (if pw_hour p \<noteq> None then sealHour pa else pa))"

definition ensureAudioBlob :: "ProfileWriter \<times> Archive \<Rightarrow> BwOutcome \<times> ProfileWriter \<times> Archive" where
  "ensureAudioBlob pa =
     (case pa of (p, a) \<Rightarrow>
        if pw_aBlob p \<noteq> None then (BwOk, p, a)
        else case pw_audioInit p of
            None \<Rightarrow> (BwPanic, p, a)
          | Some ai \<Rightarrow>
              case createBlobFile (hf_a (ar_disk a (pw_stem p))) (ai_Init ai) of
                None \<Rightarrow> (BwErr ''create'', p, a)
              | Some ab \<Rightarrow>
                  case pw_rf p of
                    None \<Rightarrow> (BwPanic, p, a)
                  | Some rf \<Rightarrow>
                      let hdr = (rf_hdr rf)\<lparr>rh_AudioInitLen := of_nat (length (ai_Init ai)),
                            rh_AudioTimescale := word_of_int (ai_SampleRate ai)\<rparr>;
                          p1 = p\<lparr>pw_aBlob := Some ab, pw_rf := Some (rf_WriteHeader (rf\<lparr>rf_hdr := hdr\<rparr>))\<rparr>
                      in (BwOk, p1, sync_hour p1 a))"

subsection \<open>Fragments going out\<close>

text \<open>
  Appending one encoded fragment: bytes to the track's blob, a record with their offset to the index. The
  record is \<open>mk off len\<close>.
\<close>

definition append_video :: "byte list \<Rightarrow> (u64 \<Rightarrow> 32 word \<Rightarrow> FragRecord) \<Rightarrow> ProfileWriter \<times> Archive \<Rightarrow> BwOutcome \<times> ProfileWriter \<times> Archive" where
  "append_video frag mk pa =
     (case pa of (p, a) \<Rightarrow>
        case (pw_vBlob p, pw_rf p) of
          (Some vb, Some rf) \<Rightarrow>
            (case bf_Append frag vb of (off, vb') \<Rightarrow>
               let p1 = p\<lparr>pw_vBlob := Some vb', pw_rf := Some (rf_Append (mk (of_nat off) (of_nat (length frag))) rf)\<rparr>
               in (BwOk, p1, sync_hour p1 a))
        | _ \<Rightarrow> (BwPanic, p, a))"

definition append_audio :: "byte list \<Rightarrow> (u64 \<Rightarrow> 32 word \<Rightarrow> FragRecord) \<Rightarrow> ProfileWriter \<times> Archive \<Rightarrow> BwOutcome \<times> ProfileWriter \<times> Archive" where
  "append_audio frag mk pa =
     (case pa of (p, a) \<Rightarrow>
        case (pw_aBlob p, pw_rf p) of
          (Some ab, Some rf) \<Rightarrow>
            (case bf_Append frag ab of (off, ab') \<Rightarrow>
               let p1 = p\<lparr>pw_aBlob := Some ab', pw_rf := Some (rf_Append (mk (of_nat off) (of_nat (length frag))) rf)\<rparr>
               in (BwOk, p1, sync_hour p1 a))
        | _ \<Rightarrow> (BwPanic, p, a))"

definition video_record :: "VideoFrame list \<Rightarrow> bool \<Rightarrow> int \<Rightarrow> u64 \<Rightarrow> u64 \<Rightarrow> u64 \<Rightarrow> 32 word \<Rightarrow> FragRecord" where
  "video_record vframes disc wallMs tfdtV segDurTicks off len =
     \<lparr>rec_Track = TrackVideo, rec_Keyframe = vf_IsIDR (vframes ! 0), rec_Discontinuity = disc,
      rec_SampleCount = of_nat (length vframes), rec_WallTimeMs = word_of_int wallMs, rec_MediaTicks = tfdtV,
      rec_ByteOffset = off, rec_ByteLen = len, rec_DurTicks = ucast segDurTicks\<rparr>"

definition audio_record :: "AudioFrame list \<Rightarrow> int \<Rightarrow> u64 \<Rightarrow> u64 \<Rightarrow> 32 word \<Rightarrow> FragRecord" where
  "audio_record aframes wallMs tfdtA off len =
     \<lparr>rec_Track = TrackAudio, rec_Keyframe = False, rec_Discontinuity = False,
      rec_SampleCount = of_nat (length aframes), rec_WallTimeMs = word_of_int wallMs, rec_MediaTicks = tfdtA,
      rec_ByteOffset = off, rec_ByteLen = len,
      rec_DurTicks = ucast ((of_nat (length aframes) :: u64) * 1024)\<rparr>"

definition emitAudio :: "BlobLib \<Rightarrow> int \<Rightarrow> ProfileWriter \<times> Archive \<Rightarrow> BwOutcome \<times> ProfileWriter \<times> Archive" where
  "emitAudio lib n pa =
     (case pa of (p, a) \<Rightarrow>
        case PopAudio n (pw_q p) of (q, aframes) \<Rightarrow>
        let p1 = p\<lparr>pw_q := q\<rparr> in
        if length aframes = 0 then (BwOk, p1, a)
        else case ensureAudioBlob (p1, a) of
            (BwOk, p2, a2) \<Rightarrow>
              (case pw_audioInit p2 of
                 None \<Rightarrow> (BwPanic, p2, a2)
               | Some ai \<Rightarrow>
                   let pts = af_PTSms (aframes ! 0) in
                   case tfdtAudio pts (word_of_int (ai_SampleRate ai)) p2 of (tfdtA, p3) \<Rightarrow>
                   let seq = pw_aSeq p3 + 1; p4 = p3\<lparr>pw_aSeq := seq\<rparr> in
                   case Option.bind (BuildAudioFragment seq (ai_TrackID ai) tfdtA aframes) (bl_enc lib) of
                     None \<Rightarrow> (BwErr ''build audio fragment'', p4, a2)
                   | Some frag \<Rightarrow>
                       (case append_audio frag (audio_record aframes (pw_originWallMs p4 + deltaMs pts p4) tfdtA) (p4, a2) of
                          (BwOk, p5, a5) \<Rightarrow>
                            (BwOk, p5\<lparr>pw_cur := (pw_cur p5)\<lparr>hr_FragCountA := hr_FragCountA (pw_cur p5) + 1\<rparr>\<rparr>, a5)
                        | other \<Rightarrow> other))
          | other \<Rightarrow> other)"

definition checkpointHour :: "ProfileWriter \<times> Archive \<Rightarrow> ProfileWriter \<times> Archive" where
  "checkpointHour pa =
     (case pa of (p, a) \<Rightarrow>
        if pw_hour p = None then (p, a)
        else let p1 = p\<lparr>pw_cur := (pw_cur p)\<lparr>hr_SizeBytes := hourSize p\<rparr>\<rparr> in (p1, sink_hour p1 a))"

text \<open>The part of \<^verbatim>\<open>emit\<close> after the frames are popped.\<close>

definition emit_video ::
  "BlobLib \<Rightarrow> VideoFrame list \<Rightarrow> u64 \<Rightarrow> ProfileWriter \<times> Archive \<Rightarrow> BwOutcome \<times> ProfileWriter \<times> Archive" where
  "emit_video lib vframes segDurTicks pa =
     (let firstPTS = vf_PTSms (vframes ! 0); wallMs = pw_originWallMs (fst pa) + deltaMs firstPTS (fst pa) in
      case ensureHour wallMs pa of
        (BwOk, p2, a2) \<Rightarrow>
          (case tfdtVideo firstPTS p2 of (tfdtV, p3) \<Rightarrow>
           let disc = pw_pendingDisc p3; seq = pw_vSeq p3 + 1; p4 = p3\<lparr>pw_pendingDisc := False, pw_vSeq := seq\<rparr> in
           case pw_videoInit p4 of
             None \<Rightarrow> (BwPanic, p4, a2)
           | Some vi \<Rightarrow>
               (case Option.bind (BuildVideoFragment (bl_mp4 lib) seq (vi_TrackID vi) tfdtV vframes
                       (ti_IsHEVC (vi_Info vi)) segDurTicks) (bl_enc lib) of
                  None \<Rightarrow> (BwErr ''build video fragment'', p4, a2)
                | Some frag \<Rightarrow>
                    (case append_video frag (video_record vframes disc wallMs tfdtV segDurTicks) (p4, a2) of
                       (BwOk, p5, a5) \<Rightarrow> (BwOk, p5\<lparr>pw_cur := noteVideoFrag wallMs tfdtV (pw_cur p5)\<rparr>, a5)
                     | other \<Rightarrow> other)))
      | other \<Rightarrow> other)"

definition bw_emit ::
  "BlobLib \<Rightarrow> CutDecision \<Rightarrow> gotime \<Rightarrow> ProfileWriter \<times> Archive \<Rightarrow> BwOutcome \<times> ProfileWriter \<times> Archive" where
  "bw_emit lib dec now pa =
     (case pa of (p, a) \<Rightarrow>
        if cd_VideoCount dec = 0 then (BwOk, p\<lparr>pw_q := fst (PopAudio (cd_AudioCount dec) (pw_q p))\<rparr>, a)
        else case PopVideo (cd_VideoCount dec) (pw_q p) of (q, vframes) \<Rightarrow>
          let p1 = p\<lparr>pw_q := q\<rparr> in
          if length vframes = 0 then (BwOk, p1, a)
          else
            let segDurTicks = computeVideoSegDurTicks vframes (map_option vf_PTSms (FirstVideo q)) in
            case emit_video lib vframes segDurTicks (p1, a) of
              (BwOk, pa2) \<Rightarrow>
                (case (if pw_isAudio (fst pa2) \<and> 0 < cd_AudioCount dec then emitAudio lib (cd_AudioCount dec) pa2
                       else (BwOk, pa2)) of
                   (BwOk, p3, a3) \<Rightarrow> (BwOk, checkpointHour (p3\<lparr>pw_seg := MarkCut now (pw_seg p3)\<rparr>, a3))
                 | other \<Rightarrow> other)
            | other \<Rightarrow> other)"

definition bw_cut :: "gotime \<Rightarrow> ProfileWriter \<Rightarrow> CutDecision \<times> ProfileWriter" where
  "bw_cut now p =
     (let haveVideo = (pw_videoInit p \<noteq> None);
          haveAudio = (pw_isAudio p \<and> pw_audioInit p \<noteq> None);
          audioSR = (case pw_audioInit p of Some ai \<Rightarrow> if haveAudio then word_of_int (ai_SampleRate ai) else 0 | None \<Rightarrow> 0)
      in case Cut now (pw_q p) haveVideo haveAudio audioSR (pw_seg p) of (d, s) \<Rightarrow> (d, p\<lparr>pw_seg := s\<rparr>))"

subsection \<open>What the steps leave alone\<close>

definition same_lane :: "ProfileWriter \<Rightarrow> ProfileWriter \<Rightarrow> bool" where
  "same_lane p p' \<longleftrightarrow>
     pw_isAudio p' = pw_isAudio p \<and> pw_q p' = pw_q p \<and> pw_seg p' = pw_seg p \<and> pw_videoInit p' = pw_videoInit p \<and>
     pw_audioInit p' = pw_audioInit p \<and> pw_originSet p' = pw_originSet p \<and> pw_originPTSms p' = pw_originPTSms p \<and>
     pw_originWallMs p' = pw_originWallMs p \<and> pw_pendingDisc p' = pw_pendingDisc p \<and>
     pw_lastVTfdt p' = pw_lastVTfdt p \<and> pw_haveVTfdt p' = pw_haveVTfdt p \<and>
     pw_lastATfdt p' = pw_lastATfdt p \<and> pw_haveATfdt p' = pw_haveATfdt p"

lemma same_lane_refl [simp]: "same_lane p p"
  by (simp add: same_lane_def)

lemma same_lane_trans: "same_lane p p' \<Longrightarrow> same_lane p' p'' \<Longrightarrow> same_lane p p''"
  by (simp add: same_lane_def)

lemma sealHour_lane: "same_lane p (fst (sealHour (p, a)))"
  by (simp add: sealHour_def Let_def closeHourFDs_def same_lane_def)

lemma openHour_lane: "openHour h (p, a) = (out, p', a') \<Longrightarrow> same_lane p p'"
  by (auto simp: openHour_def Let_def same_lane_def split: option.splits if_splits)

lemma ensureHour_lane:
  assumes "ensureHour wallMs (p, a) = (out, p', a')"
  shows "same_lane p p'"
proof (cases "pw_hour p = Some (hourFloor wallMs)")
  case False
  obtain p1 a1 where s: "sealHour (p, a) = (p1, a1)" by (metis surj_pair)
  then have "same_lane p p1" using sealHour_lane [of p a] by simp
  with False assms s show ?thesis
    by (auto simp: ensureHour_def Let_def split: if_splits dest!: openHour_lane intro: same_lane_trans)
qed (use assms in \<open>simp add: ensureHour_def Let_def\<close>)

lemma ensureAudioBlob_lane: "ensureAudioBlob (p, a) = (out, p', a') \<Longrightarrow> same_lane p p'"
  by (auto simp: ensureAudioBlob_def Let_def same_lane_def split: option.splits if_splits)

lemma append_video_lane: "append_video frag mk (p, a) = (out, p', a') \<Longrightarrow> same_lane p p'"
  by (auto simp: append_video_def Let_def same_lane_def split: option.splits prod.splits)

lemma append_audio_lane: "append_audio frag mk (p, a) = (out, p', a') \<Longrightarrow> same_lane p p'"
  by (auto simp: append_audio_def Let_def same_lane_def split: option.splits prod.splits)

lemma emit_video_q:
  assumes "emit_video lib vf d (p, a) = (out, p', a')"
  shows "pw_q p' = pw_q p"
proof -
  obtain out2 p2 a2 where e: "ensureHour (pw_originWallMs p + deltaMs (vf_PTSms (vf ! 0)) p) (p, a) = (out2, p2, a2)"
    by (metis prod_cases3)
  have q: "pw_q p2 = pw_q p" using ensureHour_lane [OF e] by (simp add: same_lane_def)
  from assms e q show ?thesis
    by (auto simp: emit_video_def Let_def tfdtVideo_def split: BwOutcome.splits option.splits prod.splits
        dest!: append_video_lane) (auto simp: same_lane_def)
qed

lemma emitAudio_q:
  assumes "emitAudio lib n (p, a) = (out, p', a')"
  shows "pw_q p' = fst (PopAudio n (pw_q p))"
proof -
  obtain q af where pop: "PopAudio n (pw_q p) = (q, af)" by (metis surj_pair)
  obtain out2 p2 a2 where e: "ensureAudioBlob (p\<lparr>pw_q := q\<rparr>, a) = (out2, p2, a2)" by (metis prod_cases3)
  have "pw_q p2 = q" using ensureAudioBlob_lane [OF e] by (simp add: same_lane_def)
  with assms e pop show ?thesis
    by (auto simp: emitAudio_def Let_def tfdtAudio_def split: BwOutcome.splits option.splits prod.splits if_splits
        dest!: append_audio_lane) (auto simp: same_lane_def)
qed

definition queued :: "ProfileWriter \<Rightarrow> nat" where
  "queued p = length (q_video (pw_q p)) + length (q_audio (pw_q p))"

lemma pop_lengths:
  "length (q_video (fst (PopVideo n q))) = length (q_video q) - nat n"
  "q_audio (fst (PopVideo n q)) = q_audio q"
  "length (q_audio (fst (PopAudio n q))) = length (q_audio q) - nat n"
  "q_video (fst (PopAudio n q)) = q_video q"
  by (auto simp: PopVideo_def PopAudio_def Let_def)

lemma cut_takes_frames:
  assumes "Cut now q hv ha sr s = (d, s')" and "cd_Ok d"
  shows "0 < cd_VideoCount d \<and> q_video q \<noteq> [] \<or> cd_VideoCount d = 0 \<and> 0 < cd_AudioCount d \<and> q_audio q \<noteq> []"
proof (cases "hv \<and> 0 < VideoLen q")
  case True
  then have c: "cutVideo now q (ms_u64 (sg_segDur s)) (ms_u64 (sg_segDur s) * word_of_int (sg_maxFactor s)) ha sr s = (d, s')"
    using assms(1) by (simp add: Cut_def Let_def)
  have "0 < cd_VideoCount d"
    using c assms(2) by (auto simp: cutVideo_def Let_def no_cut_def split: if_splits dest!: buildCutDecision_fields)
  with True show ?thesis by (auto simp: VideoLen_def)
next
  case False
  then have "(cutAudioOnly q (ms_u64 (sg_segDur s))) = d" "0 < AudioLen q"
    using assms by (auto simp: Cut_def Let_def no_cut_def split: if_splits)
  then show ?thesis using assms(2)
    by (auto simp: cutAudioOnly_def no_cut_def Let_def AudioLen_def split: option.splits if_splits)
qed

text \<open>A cut that is carried out shortens the queue.\<close>

lemma emit_progress:
  assumes cut: "bw_cut now p = (d, p1)" and ok: "cd_Ok d" and emit: "bw_emit lib d now (p1, a) = (BwOk, p2, a2)"
  shows "queued p2 < queued p"
proof -
  obtain hv ha sr s' where c: "Cut now (pw_q p) hv ha sr (pw_seg p) = (d, s')" and p1: "p1 = p\<lparr>pw_seg := s'\<rparr>"
    using cut by (auto simp: bw_cut_def Let_def split: prod.splits)
  from cut_takes_frames [OF c ok] show ?thesis
  proof
    assume v: "0 < cd_VideoCount d \<and> q_video (pw_q p) \<noteq> []"
    obtain q vf where pop: "PopVideo (cd_VideoCount d) (pw_q p) = (q, vf)" by (metis surj_pair)
    have vf: "vf \<noteq> []" using pop v by (auto simp: PopVideo_def Let_def split: if_splits)
    have q: "length (q_video q) < length (q_video (pw_q p))" "q_audio q = q_audio (pw_q p)"
      using pop_lengths(1,2) [of "cd_VideoCount d" "pw_q p"] pop v by simp_all
    let ?d = "computeVideoSegDurTicks vf (map_option vf_PTSms (FirstVideo q))"
    obtain o3 p3 a3 where ev: "emit_video lib vf ?d (p\<lparr>pw_seg := s', pw_q := q\<rparr>, a) = (o3, p3, a3)" by (metis prod_cases3)
    have q3: "pw_q p3 = q" using emit_video_q [OF ev] by simp
    obtain o4 p4 a4 where ea: "emitAudio lib (cd_AudioCount d) (p3, a3) = (o4, p4, a4)" by (metis prod_cases3)
    have q4: "pw_q p4 = fst (PopAudio (cd_AudioCount d) q)" using emitAudio_q [OF ea] q3 by simp
    have "pw_q p2 = q \<or> pw_q p2 = fst (PopAudio (cd_AudioCount d) q)"
      using emit v vf pop ev ea q3 q4 p1
      by (auto simp: bw_emit_def checkpointHour_def Let_def split: BwOutcome.splits if_splits)
    then show ?thesis using q pop_lengths(3,4) [of "cd_AudioCount d" q] by (auto simp: queued_def)
  next
    assume a: "cd_VideoCount d = 0 \<and> 0 < cd_AudioCount d \<and> q_audio (pw_q p) \<noteq> []"
    then have "pw_q p2 = fst (PopAudio (cd_AudioCount d) (pw_q p))"
      using emit p1 by (simp add: bw_emit_def) (metis ProfileWriter.select_convs(2) ProfileWriter.surjective ProfileWriter.update_convs(2))
    then show ?thesis using a pop_lengths(3,4) [of "cd_AudioCount d" "pw_q p"] by (simp add: queued_def)
  qed
qed

subsection \<open>The lane\<close>

function drainCuts :: "BlobLib \<Rightarrow> gotime \<Rightarrow> ProfileWriter \<times> Archive \<Rightarrow> BwOutcome \<times> ProfileWriter \<times> Archive" where
  "drainCuts lib now (p, a) =
     (case bw_cut now p of (dec, p1) \<Rightarrow>
        if \<not> cd_Ok dec then (BwOk, p1, a)
        else case bw_emit lib dec now (p1, a) of
            (BwOk, pa2) \<Rightarrow> drainCuts lib now pa2
          | other \<Rightarrow> other)"
  by pat_completeness auto
termination
  by (relation "measure (\<lambda>(lib, now, p, a). queued p)") (auto intro: emit_progress [OF sym _ sym])

declare drainCuts.simps [simp del]

definition Ingest :: "BlobLib \<Rightarrow> Packet \<Rightarrow> gotime \<Rightarrow> ProfileWriter \<times> Archive \<Rightarrow> BwOutcome \<times> ProfileWriter \<times> Archive" where
  "Ingest lib pkt now pa =
     (case pa of (p, a) \<Rightarrow>
        let p1 = (if pk_SessionStart pkt
                  then p\<lparr>pw_q := NewFrameQueue, pw_seg := ResetSegmenter (pw_seg p), pw_pendingDisc := True\<rparr> else p);
            p2 = (case pk_AV pkt of Some av \<Rightarrow> ingestAV (bl_mp4 lib) av now p1 | None \<Rightarrow> p1)
        in drainCuts lib now (p2, a))"

definition bw_Tick :: "BlobLib \<Rightarrow> gotime \<Rightarrow> ProfileWriter \<times> Archive \<Rightarrow> BwOutcome \<times> ProfileWriter \<times> Archive" where
  "bw_Tick lib now pa = drainCuts lib now pa"

definition bw_Close :: "ProfileWriter \<times> Archive \<Rightarrow> ProfileWriter \<times> Archive" where
  "bw_Close pa =
     (if pw_hour (fst pa) = None then pa
      else case sealHour pa of (p, a) \<Rightarrow> (p\<lparr>pw_hour := None\<rparr>, a))"

text \<open>\<^verbatim>\<open>runLane\<close>: an error is logged and the lane goes on; a panic ends the program.\<close>

datatype LaneOp = LPacket Packet gotime | LTick gotime

fun lane_op :: "BlobLib \<Rightarrow> LaneOp \<Rightarrow> ProfileWriter \<times> Archive \<Rightarrow> BwOutcome \<times> ProfileWriter \<times> Archive" where
  "lane_op lib (LPacket pkt now) pa = Ingest lib pkt now pa"
| "lane_op lib (LTick now) pa = bw_Tick lib now pa"

fun run_lane :: "BlobLib \<Rightarrow> LaneOp list \<Rightarrow> ProfileWriter \<times> Archive \<Rightarrow> (ProfileWriter \<times> Archive) option" where
  "run_lane lib [] pa = Some pa"
| "run_lane lib (op # ops) pa =
     (case lane_op lib op pa of
        (BwPanic, _) \<Rightarrow> None
      | (_, pa') \<Rightarrow> run_lane lib ops pa')"

subsection \<open>Reading back\<close>

text \<open>\<^verbatim>\<open>FragmentByHour\<close> of \<^verbatim>\<open>reader.go\<close> on the files of an hour.\<close>

definition hourBlobSize :: "HourFiles \<Rightarrow> int" where
  "hourBlobSize f =
     (let v = (case hf_v f of Some d \<Rightarrow> int (length d) | None \<Rightarrow> 0);
          a = (case hf_a f of Some d \<Rightarrow> int (length d) | None \<Rightarrow> 0) in if a > v then a else v)"

definition track_file :: "byte \<Rightarrow> HourFiles \<Rightarrow> byte list option" where
  "track_file track f = (if track = TrackAudio then hf_a f else hf_v f)"

definition ReadFragment :: "HourFiles \<Rightarrow> FragRecord \<Rightarrow> byte list option" where
  "ReadFragment f r =
     (case openBlobFile (track_file (rec_Track r) f) of
        None \<Rightarrow> None
      | Some bf \<Rightarrow> bf_ReadSlice (sint (rec_ByteOffset r)) (unat (rec_ByteLen r)) bf)"

fun find_seq :: "byte \<Rightarrow> int \<Rightarrow> FragRecord list \<Rightarrow> int \<Rightarrow> FragRecord option" where
  "find_seq track seq [] idx = None"
| "find_seq track seq (r # rs) idx =
     (if rec_Track r \<noteq> track then find_seq track seq rs idx
      else if idx = seq then Some r
      else find_seq track seq rs (idx + 1))"

definition FragmentByHour :: "HourFiles \<Rightarrow> byte \<Rightarrow> int \<Rightarrow> byte list option" where
  "FragmentByHour f track seq =
     (case ReadRanges (hf_ranges f) (hourBlobSize f) of
        Inl _ \<Rightarrow> None
      | Inr (_, recs) \<Rightarrow>
          case find_seq track seq recs 0 of
            None \<Rightarrow> None
          | Some r \<Rightarrow> ReadFragment f r)"

lemma find_seq_nth:
  "find_seq track (idx + int k) recs idx =
     (if k < length (filter (\<lambda>r. rec_Track r = track) recs) then Some (filter (\<lambda>r. rec_Track r = track) recs ! k) else None)"
proof (induction recs arbitrary: idx k)
  case (Cons r recs)
  show ?case
  proof (cases k)
    case (Suc j)
    then have "idx + int k = (idx + 1) + int j" by simp
    then show ?thesis using Cons [of idx k] Cons [of "idx + 1" j] Suc by (simp add: add.assoc)
  qed (use Cons [of idx 0] in simp)
qed simp

subsection \<open>What the hours hold\<close>

text \<open>
  An item is a record and the bytes it was recorded for. \<open>located\<close>: the bytes lie at the record's offset in
  the track's file and encode a fragment that starts at the record's tick.
\<close>

type_synonym item = "FragRecord \<times> byte list"

definition located :: "BlobLib \<Rightarrow> HourFiles \<Rightarrow> item \<Rightarrow> bool" where
  "located lib f it \<longleftrightarrow>
     (\<exists>frag off data. bl_enc lib frag = Some (snd it) \<and> starts_at frag (rec_MediaTicks (fst it)) \<and>
        track_file (rec_Track (fst it)) f = Some data \<and> off + length (snd it) \<le> length data \<and>
        take (length (snd it)) (drop off data) = snd it \<and>
        rec_ByteOffset (fst it) = of_nat off \<and> rec_ByteLen (fst it) = of_nat (length (snd it)))"

definition hour_inv :: "BlobLib \<Rightarrow> HourFiles \<Rightarrow> item list \<Rightarrow> bool" where
  "hour_inv lib f items \<longleftrightarrow>
     (\<exists>d. hf_ranges f = Some d \<and>
        (if length items < 2 ^ 32
         then \<exists>hdr. header_valid hdr \<and> d = MarshalRangesHeader hdr @ concat (map MarshalFragRecord (map fst items))
         else 64 + 40 * 2 ^ 32 \<le> length d)) \<and>
     list_all (located lib f) items"

text \<open>The index keeps 2 ^ 32 records; after that the counter wraps and the first ones are overwritten.\<close>

definition index_ok :: "rangesFile \<Rightarrow> item list \<Rightarrow> bool" where
  "index_ok rf items \<longleftrightarrow>
     (if length items < 2 ^ 32 then \<exists>h. index_of rf h (map fst items) else 64 + 40 * 2 ^ 32 \<le> length (rf_data rf))"

definition handles :: "ProfileWriter \<Rightarrow> HourFiles \<Rightarrow> item list \<Rightarrow> bool" where
  "handles p f items \<longleftrightarrow>
     (\<exists>vd rf. pw_vBlob p = Some \<lparr>bf_data = vd, bf_size = length vd\<rparr> \<and> hf_v f = Some vd \<and>
        (case pw_aBlob p of None \<Rightarrow> hf_a f = None | Some b \<Rightarrow> bf_size b = length (bf_data b) \<and> hf_a f = Some (bf_data b)) \<and>
        pw_rf p = Some rf \<and> hf_ranges f = Some (rf_data rf) \<and>
        index_ok rf items)"

definition closed_ok :: "BlobLib \<Rightarrow> HourFiles \<Rightarrow> bool" where
  "closed_ok lib f \<longleftrightarrow> hf_ranges f = None \<or> (\<exists>items. hour_inv lib f items)"

definition open_hour :: "BlobLib \<Rightarrow> ProfileWriter \<Rightarrow> Archive \<Rightarrow> item list \<Rightarrow> bool" where
  "open_hour lib p a items \<longleftrightarrow>
     pw_hour p \<noteq> None \<and> pw_stem p = hourRel (the (pw_hour p)) \<and>
     list_all (located lib (ar_disk a (pw_stem p))) items \<and> handles p (ar_disk a (pw_stem p)) items \<and>
     (\<forall>stem. stem \<noteq> pw_stem p \<longrightarrow> closed_ok lib (ar_disk a stem))"

definition lane_inv :: "BlobLib \<Rightarrow> ProfileWriter \<times> Archive \<Rightarrow> bool" where
  "lane_inv lib pa \<longleftrightarrow>
     (case pa of (p, a) \<Rightarrow>
        (case pw_hour p of
           None \<Rightarrow> pw_vBlob p = None \<and> pw_aBlob p = None \<and> pw_rf p = None \<and> (\<forall>stem. closed_ok lib (ar_disk a stem))
         | Some _ \<Rightarrow> \<exists>items. open_hour lib p a items))"

lemma write_at_length: "length content \<le> length (write_at off q content)"
  by (auto simp: write_at_def)

lemma rf_Append_length: "length (rf_data f) \<le> length (rf_data (rf_Append r f))"
  by (simp add: rf_Append_def write_at_length)

lemma rf_WriteHeader_length: "length (rf_data f) \<le> length (rf_data (rf_WriteHeader f))"
  by (simp add: rf_WriteHeader_def Let_def write_at_length)

lemma rf_Seal_length: "length (rf_data f) \<le> length (rf_data (rf_Seal f))"
  unfolding rf_Seal_def by (rule order_trans [OF _ rf_WriteHeader_length]) simp

lemma handles_hour_inv:
  assumes "handles p f items" and "list_all (located lib f) items"
  shows "hour_inv lib f items"
  using assms unfolding handles_def hour_inv_def index_ok_def index_of_def by (metis (no_types, lifting))

text \<open>Files that only grow keep what is located in them.\<close>

definition grows_to :: "HourFiles \<Rightarrow> HourFiles \<Rightarrow> bool" where
  "grows_to f f' \<longleftrightarrow> (\<forall>t d. track_file t f = Some d \<longrightarrow> (\<exists>e. track_file t f' = Some (d @ e)))"

lemma located_grows: "grows_to f f' \<Longrightarrow> located lib f it \<Longrightarrow> located lib f' it"
proof -
  assume g: "grows_to f f'" and l: "located lib f it"
  from l obtain frag off data where loc: "bl_enc lib frag = Some (snd it)" "starts_at frag (rec_MediaTicks (fst it))"
    "track_file (rec_Track (fst it)) f = Some data" "off + length (snd it) \<le> length data"
    "take (length (snd it)) (drop off data) = snd it" "rec_ByteOffset (fst it) = of_nat off"
    "rec_ByteLen (fst it) = of_nat (length (snd it))" by (auto simp: located_def)
  from g loc(3) obtain e where e: "track_file (rec_Track (fst it)) f' = Some (data @ e)" by (auto simp: grows_to_def)
  have "take (length (snd it)) (drop off (data @ e)) = snd it" using loc(4,5) by simp
  then show "located lib f' it" using loc e unfolding located_def
    by (intro exI [of _ frag] exI [of _ off] exI [of _ "data @ e"]) simp
qed

lemma all_located_grows: "grows_to f f' \<Longrightarrow> list_all (located lib f) items \<Longrightarrow> list_all (located lib f') items"
  by (auto simp: list_all_iff intro: located_grows)

lemma index_ok_Append:
  assumes "index_ok rf items"
  shows "index_ok (rf_Append (fst it) rf) (items @ [it])"
proof -
  consider "Suc (length items) < 2 ^ 32" | "Suc (length items) = 2 ^ 32" | "2 ^ 32 \<le> length items" by linarith
  then show ?thesis
  proof cases
    case 1
    then obtain h where "index_of rf h (map fst items)" using assms by (auto simp: index_ok_def)
    from rf_Append_index [OF this, of "fst it"] 1 show ?thesis by (auto simp: index_ok_def)
  next
    case 2
    then obtain h where h: "index_of rf h (map fst items)" using assms by (auto simp: index_ok_def)
    then have l: "length (rf_data rf) = 64 + 40 * length items" "unat (rf_count rf) = length items"
      using index_of_length [OF h] by simp_all
    then have "length (rf_data (rf_Append (fst it) rf)) = 64 + 40 * Suc (length items)"
      by (simp add: rf_Append_def format_consts write_at_end mult.commute)
    then show ?thesis using 2 by (simp add: index_ok_def)
  next
    case 3
    then have "64 + 40 * 2 ^ 32 \<le> length (rf_data rf)" using assms by (simp add: index_ok_def)
    then have "64 + 40 * 2 ^ 32 \<le> length (rf_data (rf_Append (fst it) rf))" using rf_Append_length by (rule order_trans)
    then show ?thesis using 3 by (simp add: index_ok_def)
  qed
qed

lemma index_ok_header:
  assumes "index_ok rf items" and "rh_Version hdr = rh_Version (rf_hdr rf)" "rh_RecordSize hdr = rh_RecordSize (rf_hdr rf)"
  shows "index_ok (rf_WriteHeader (rf\<lparr>rf_hdr := hdr\<rparr>)) items"
proof (cases "length items < 2 ^ 32")
  case True
  then obtain h where "index_of rf h (map fst items)" using assms by (auto simp: index_ok_def)
  then have "index_of (rf\<lparr>rf_hdr := hdr\<rparr>) h (map fst items)" using assms(2,3) by (simp add: index_of_def header_valid_def)
  from rf_WriteHeader_index [OF this] True show ?thesis by (auto simp: index_ok_def)
next
  case False
  then have "64 + 40 * 2 ^ 32 \<le> length (rf_data (rf\<lparr>rf_hdr := hdr\<rparr>))" using assms by (simp add: index_ok_def)
  then have "64 + 40 * 2 ^ 32 \<le> length (rf_data (rf_WriteHeader (rf\<lparr>rf_hdr := hdr\<rparr>)))"
    using rf_WriteHeader_length by (rule order_trans)
  with False show ?thesis by (simp add: index_ok_def)
qed

lemma index_ok_Seal: "index_ok rf items \<Longrightarrow> index_ok (rf_Seal rf) items"
  unfolding rf_Seal_def by (rule index_ok_header) simp_all

lemma index_ok_new:
  assumes "createRangesFile None hdr = Some rf"
  shows "index_ok rf []"
  using createRangesFile_index [OF assms] by (auto simp: index_ok_def)

lemma sync_hour_disk:
  assumes "pw_vBlob p = Some vb" and "pw_rf p = Some rf"
  shows "ar_disk (sync_hour p a) (pw_stem p) =
     (ar_disk a (pw_stem p))\<lparr>hf_v := Some (bf_data vb), hf_ranges := Some (rf_data rf),
        hf_a := (case pw_aBlob p of Some b \<Rightarrow> Some (bf_data b) | None \<Rightarrow> hf_a (ar_disk a (pw_stem p)))\<rparr>"
    and "stem \<noteq> pw_stem p \<Longrightarrow> ar_disk (sync_hour p a) stem = ar_disk a stem"
    and "ar_sunk (sync_hour p a) = ar_sunk a"
  using assms by (simp_all add: sync_hour_def set_files_def)

lemma createBlobFile_new: "createBlobFile None init = Some \<lparr>bf_data = init, bf_size = length init\<rparr>"
  by (simp add: createBlobFile_def write_at_def)

lemma append_video_open:
  assumes hour: "open_hour lib p a items" and enc: "bl_enc lib fr = Some frag" and start: "starts_at fr t"
    and mk: "\<And>off len. rec_Track (mk off len) = TrackVideo \<and> rec_MediaTicks (mk off len) = t \<and>
      rec_ByteOffset (mk off len) = off \<and> rec_ByteLen (mk off len) = len"
  obtains p' a' r where "append_video frag mk (p, a) = (BwOk, p', a')" and "open_hour lib p' a' (items @ [(r, frag)])"
    and "r = mk (rec_ByteOffset r) (rec_ByteLen r)" and "pw_hour p' = pw_hour p" and "pw_stem p' = pw_stem p"
proof -
  from hour obtain vd rf where h: "pw_vBlob p = Some \<lparr>bf_data = vd, bf_size = length vd\<rparr>" "hf_v (ar_disk a (pw_stem p)) = Some vd"
    "pw_rf p = Some rf" "index_ok rf items"
    "case pw_aBlob p of None \<Rightarrow> hf_a (ar_disk a (pw_stem p)) = None
      | Some b \<Rightarrow> bf_size b = length (bf_data b) \<and> hf_a (ar_disk a (pw_stem p)) = Some (bf_data b)"
    by (auto simp: open_hour_def handles_def)
  define r where "r = mk (of_nat (length vd)) (of_nat (length frag))"
  define p' where "p' = p\<lparr>pw_vBlob := Some \<lparr>bf_data = vd @ frag, bf_size = length vd + length frag\<rparr>,
    pw_rf := Some (rf_Append r rf)\<rparr>"
  have run: "append_video frag mk (p, a) = (BwOk, p', sync_hour p' a)"
    using h by (simp add: append_video_def bf_Append_def write_at_end Let_def p'_def r_def)
  let ?f = "ar_disk a (pw_stem p)" and ?f' = "ar_disk (sync_hour p' a) (pw_stem p)"
  have f': "?f' = ?f\<lparr>hf_v := Some (vd @ frag), hf_ranges := Some (rf_data (rf_Append r rf))\<rparr>"
    using sync_hour_disk(1) [of p' _ _ a] h(5) by (simp add: p'_def split: option.splits)
  have "grows_to ?f ?f'" using f' h(2) by (auto simp: grows_to_def track_file_def)
  then have old: "list_all (located lib ?f') items" using hour all_located_grows by (auto simp: open_hour_def)
  have "track_file (rec_Track r) ?f' = Some (vd @ frag)"
    using f' mk by (simp add: track_file_def r_def TrackVideo_def TrackAudio_def)
  then have new: "located lib ?f' (r, frag)"
    unfolding located_def using enc start mk
    by (intro exI [of _ fr] exI [of _ "length vd"] exI [of _ "vd @ frag"]) (simp add: r_def)
  have "handles p' ?f' (items @ [(r, frag)])"
    using h f' index_ok_Append [OF h(4), of "(r, frag)"]
    by (auto simp: handles_def p'_def split: option.splits)
  moreover have "stem \<noteq> pw_stem p' \<Longrightarrow> ar_disk (sync_hour p' a) stem = ar_disk a stem" for stem
    by (simp add: sync_hour_def set_files_def)
  ultimately have "open_hour lib p' (sync_hour p' a) (items @ [(r, frag)])"
    using hour old new by (simp add: open_hour_def) (simp add: p'_def)
  with run show thesis using mk by (intro that [of p' "sync_hour p' a" r]) (simp_all add: p'_def r_def)
qed

lemma append_audio_open:
  assumes hour: "open_hour lib p a items" and enc: "bl_enc lib fr = Some frag" and start: "starts_at fr t"
    and blob: "pw_aBlob p \<noteq> None"
    and mk: "\<And>off len. rec_Track (mk off len) = TrackAudio \<and> rec_MediaTicks (mk off len) = t \<and>
      rec_ByteOffset (mk off len) = off \<and> rec_ByteLen (mk off len) = len"
  obtains p' a' r where "append_audio frag mk (p, a) = (BwOk, p', a')" and "open_hour lib p' a' (items @ [(r, frag)])"
    and "r = mk (rec_ByteOffset r) (rec_ByteLen r)" and "pw_hour p' = pw_hour p" and "pw_stem p' = pw_stem p"
proof -
  from hour blob obtain vd ab rf where h: "pw_vBlob p = Some \<lparr>bf_data = vd, bf_size = length vd\<rparr>"
    "hf_v (ar_disk a (pw_stem p)) = Some vd" "pw_rf p = Some rf" "index_ok rf items" "pw_aBlob p = Some ab"
    "bf_size ab = length (bf_data ab)" "hf_a (ar_disk a (pw_stem p)) = Some (bf_data ab)"
    by (auto simp: open_hour_def handles_def)
  define r where "r = mk (of_nat (length (bf_data ab))) (of_nat (length frag))"
  define p' where "p' = p\<lparr>pw_aBlob := Some (ab\<lparr>bf_data := bf_data ab @ frag, bf_size := length (bf_data ab) + length frag\<rparr>),
    pw_rf := Some (rf_Append r rf)\<rparr>"
  have run: "append_audio frag mk (p, a) = (BwOk, p', sync_hour p' a)"
    using h by (simp add: append_audio_def bf_Append_def write_at_end Let_def p'_def r_def)
  let ?f = "ar_disk a (pw_stem p)" and ?f' = "ar_disk (sync_hour p' a) (pw_stem p)"
  have f': "?f' = ?f\<lparr>hf_v := Some vd, hf_a := Some (bf_data ab @ frag), hf_ranges := Some (rf_data (rf_Append r rf))\<rparr>"
    using sync_hour_disk(1) [of p' _ _ a] h by (simp add: p'_def)
  have "grows_to ?f ?f'" using f' h by (auto simp: grows_to_def track_file_def)
  then have old: "list_all (located lib ?f') items" using hour all_located_grows by (auto simp: open_hour_def)
  have "track_file (rec_Track r) ?f' = Some (bf_data ab @ frag)"
    using f' mk by (simp add: track_file_def r_def)
  then have new: "located lib ?f' (r, frag)"
    unfolding located_def using enc start mk
    by (intro exI [of _ fr] exI [of _ "length (bf_data ab)"] exI [of _ "bf_data ab @ frag"]) (simp add: r_def)
  have "handles p' ?f' (items @ [(r, frag)])"
    using h f' index_ok_Append [OF h(4), of "(r, frag)"] by (auto simp: handles_def p'_def)
  moreover have "stem \<noteq> pw_stem p' \<Longrightarrow> ar_disk (sync_hour p' a) stem = ar_disk a stem" for stem
    by (simp add: sync_hour_def set_files_def)
  ultimately have "open_hour lib p' (sync_hour p' a) (items @ [(r, frag)])"
    using hour old new by (simp add: open_hour_def) (simp add: p'_def)
  with run show thesis using mk by (intro that [of p' "sync_hour p' a" r]) (simp_all add: p'_def r_def)
qed

lemma ensureAudioBlob_open:
  assumes hour: "open_hour lib p a items" and ai: "pw_audioInit p \<noteq> None"
  obtains p' a' where "ensureAudioBlob (p, a) = (BwOk, p', a')" and "open_hour lib p' a' items" and "pw_aBlob p' \<noteq> None"
    and "pw_hour p' = pw_hour p" and "pw_stem p' = pw_stem p"
proof (cases "pw_aBlob p")
  case (Some b)
  then show thesis using hour by (intro that [of p a]) (simp_all add: ensureAudioBlob_def)
next
  case None
  from hour None obtain vd rf where h: "pw_vBlob p = Some \<lparr>bf_data = vd, bf_size = length vd\<rparr>"
    "hf_v (ar_disk a (pw_stem p)) = Some vd" "pw_rf p = Some rf" "index_ok rf items" "hf_a (ar_disk a (pw_stem p)) = None"
    by (auto simp: open_hour_def handles_def)
  obtain i where i: "pw_audioInit p = Some i" using ai by blast
  obtain ab where ab: "createBlobFile None (ai_Init i) = Some ab" "bf_size ab = length (bf_data ab)"
    by (simp add: createBlobFile_new)
  define rf' where "rf' = rf_WriteHeader (rf\<lparr>rf_hdr := (rf_hdr rf)\<lparr>rh_AudioInitLen := of_nat (length (ai_Init i)),
    rh_AudioTimescale := word_of_int (ai_SampleRate i)\<rparr>\<rparr>)"
  have ix: "index_ok rf' items" unfolding rf'_def using h(4) by (intro index_ok_header) simp_all
  define p' where "p' = p\<lparr>pw_aBlob := Some ab, pw_rf := Some rf'\<rparr>"
  have run: "ensureAudioBlob (p, a) = (BwOk, p', sync_hour p' a)"
    using None i h ab by (simp add: ensureAudioBlob_def Let_def p'_def rf'_def)
  let ?f = "ar_disk a (pw_stem p)" and ?f' = "ar_disk (sync_hour p' a) (pw_stem p)"
  have f': "?f' = ?f\<lparr>hf_v := Some vd, hf_a := Some (bf_data ab), hf_ranges := Some (rf_data rf')\<rparr>"
    using sync_hour_disk(1) [of p' _ _ a] h by (simp add: p'_def)
  have "grows_to ?f ?f'" using f' h by (auto simp: grows_to_def track_file_def)
  then have old: "list_all (located lib ?f') items" using hour all_located_grows by (auto simp: open_hour_def)
  have "handles p' ?f' items" using h f' ix ab by (auto simp: handles_def p'_def)
  moreover have "stem \<noteq> pw_stem p' \<Longrightarrow> ar_disk (sync_hour p' a) stem = ar_disk a stem" for stem
    by (simp add: sync_hour_def set_files_def)
  ultimately have "open_hour lib p' (sync_hour p' a) items"
    using hour old by (simp add: open_hour_def) (simp add: p'_def)
  with run show thesis by (intro that [of p' "sync_hour p' a"]) (simp_all add: p'_def)
qed

lemma sealHour_closes:
  assumes hour: "open_hour lib p a items" and s: "sealHour (p, a) = (p', a')"
  shows "pw_vBlob p' = None \<and> pw_aBlob p' = None \<and> pw_rf p' = None \<and> (\<forall>stem. closed_ok lib (ar_disk a' stem)) \<and>
    pw_hour p' = pw_hour p \<and> hour_inv lib (ar_disk a' (pw_stem p)) items"
proof -
  from hour obtain vd rf where h: "pw_vBlob p = Some \<lparr>bf_data = vd, bf_size = length vd\<rparr>"
    "hf_v (ar_disk a (pw_stem p)) = Some vd" "pw_rf p = Some rf" "index_ok rf items"
    "case pw_aBlob p of None \<Rightarrow> hf_a (ar_disk a (pw_stem p)) = None
      | Some b \<Rightarrow> bf_size b = length (bf_data b) \<and> hf_a (ar_disk a (pw_stem p)) = Some (bf_data b)"
    by (auto simp: open_hour_def handles_def)
  define p1 where "p1 = p\<lparr>pw_rf := Some (rf_Seal rf)\<rparr>"
  have p1: "p\<lparr>pw_rf := map_option rf_Seal (pw_rf p)\<rparr> = p1" using h by (simp add: p1_def)
  let ?f = "ar_disk a (pw_stem p)"
  have disk: "ar_disk a' = (ar_disk (sync_hour p1 a))(pw_stem p := (ar_disk (sync_hour p1 a) (pw_stem p))\<lparr>hf_open := False\<rparr>)"
    using s by (auto simp: sealHour_def Let_def p1 sink_hour_def set_files_def)
  have f': "ar_disk a' (pw_stem p) = ?f\<lparr>hf_v := Some vd, hf_ranges := Some (rf_data (rf_Seal rf)), hf_open := False\<rparr>"
    using sync_hour_disk(1) [of p1 _ _ a] h by (simp add: disk p1_def split: option.splits)
  have "grows_to ?f (ar_disk a' (pw_stem p))" using f' h by (auto simp: grows_to_def track_file_def)
  then have loc: "list_all (located lib (ar_disk a' (pw_stem p))) items" using hour all_located_grows by (auto simp: open_hour_def)
  have "handles p1 (ar_disk a' (pw_stem p)) items"
    using h f' index_ok_Seal [OF h(4)] by (auto simp: handles_def p1_def split: option.splits)
  then have inv: "hour_inv lib (ar_disk a' (pw_stem p)) items" using loc by (rule handles_hour_inv)
  have "closed_ok lib (ar_disk a' stem)" for stem
  proof (cases "stem = pw_stem p")
    case True
    then show ?thesis using inv by (auto simp: closed_ok_def)
  next
    case False
    then have "ar_disk a' stem = ar_disk a stem" by (simp add: disk sync_hour_def set_files_def p1_def)
    then show ?thesis using hour False by (simp add: open_hour_def)
  qed
  then show ?thesis using s inv by (auto simp: sealHour_def Let_def closeHourFDs_def)
qed

lemma openHour_opens:
  assumes closed: "\<forall>stem. closed_ok lib (ar_disk a stem)" and vi: "pw_videoInit p \<noteq> None"
  obtains p' a' where "openHour h (p, a) = (BwOk, p', a')" and "open_hour lib p' a' []"
    and "pw_hour p' = Some h" and "pw_stem p' = hourRel h"
proof -
  obtain v where v: "pw_videoInit p = Some v" using vi by blast
  define a1 where "a1 = (if hourFilesExist (ar_disk a (hourRel h)) then removeHourFiles (hourRel h) a else a)"
  have clean: "hf_v (ar_disk a1 (hourRel h)) = None" "hf_a (ar_disk a1 (hourRel h)) = None" "hf_ranges (ar_disk a1 (hourRel h)) = None"
    by (auto simp: a1_def hourFilesExist_def removeHourFiles_def set_files_def no_files_def)
  have others: "closed_ok lib (ar_disk a1 stem)" for stem
    using closed by (auto simp: a1_def removeHourFiles_def set_files_def closed_ok_def no_files_def)
  obtain vb where vb: "createBlobFile None (vi_Init v) = Some vb" "vb = \<lparr>bf_data = bf_data vb, bf_size = length (bf_data vb)\<rparr>"
    by (simp add: createBlobFile_new)
  obtain rf where rf: "createRangesFile None (hour_header h (vi_Init v)) = Some rf"
    by (auto simp: createRangesFile_def Let_def)
  define a2 where "a2 = set_files (hourRel h) (\<lambda>f. f\<lparr>hf_v := Some (bf_data vb)\<rparr>) a1"
  define a3 where "a3 = set_files (hourRel h) (\<lambda>f. f\<lparr>hf_ranges := Some (rf_data rf), hf_open := True\<rparr>) a2"
  define p' where "p' = p\<lparr>pw_hour := Some h, pw_stem := hourRel h, pw_vBlob := Some vb, pw_rf := Some rf, pw_aBlob := None,
    pw_vSeq := 0, pw_aSeq := 0, pw_cur := hour_record0\<lparr>hr_Hour := hourRel h\<rparr>\<rparr>"
  have "hf_ranges (ar_disk a2 (hourRel h)) = None" using clean by (simp add: a2_def set_files_def)
  then have run: "openHour h (p, a) = (BwOk, p', a3)"
    using v clean vb(1) rf unfolding openHour_def
    by (simp only: prod.case Let_def a1_def [symmetric]) (simp add: a2_def [symmetric] a3_def p'_def)
  have f: "hf_v (ar_disk a3 (hourRel h)) = Some (bf_data vb)" "hf_a (ar_disk a3 (hourRel h)) = None"
    "hf_ranges (ar_disk a3 (hourRel h)) = Some (rf_data rf)"
    using clean by (simp_all add: a3_def a2_def set_files_def)
  have "handles p' (ar_disk a3 (hourRel h)) []"
    unfolding handles_def using f index_ok_new [OF rf] vb(2)
    by (intro exI [of _ "bf_data vb"] exI [of _ rf]) (simp add: p'_def)
  moreover have "stem \<noteq> hourRel h \<Longrightarrow> closed_ok lib (ar_disk a3 stem)" for stem
    using others by (simp add: a3_def a2_def set_files_def)
  ultimately have "open_hour lib p' a3 []" by (auto simp: open_hour_def p'_def)
  with run show thesis by (intro that [of p' a3]) (simp_all add: p'_def)
qed

lemma open_hour_lane: "open_hour lib p a items \<Longrightarrow> lane_inv lib (p, a)"
proof -
  assume hour: "open_hour lib p a items"
  then obtain h where "pw_hour p = Some h" by (auto simp: open_hour_def)
  then show ?thesis using hour by (auto simp: lane_inv_def)
qed

text \<open>Only the handles of the open hour matter.\<close>

lemma open_hour_cong:
  assumes "open_hour lib p a items" and "pw_hour p' = pw_hour p" "pw_stem p' = pw_stem p" "pw_vBlob p' = pw_vBlob p"
    "pw_aBlob p' = pw_aBlob p" "pw_rf p' = pw_rf p" and "ar_disk a' = ar_disk a"
  shows "open_hour lib p' a' items"
  using assms(1) unfolding open_hour_def handles_def assms(2-7) .

lemma lane_inv_cong:
  assumes "lane_inv lib (p, a)" and "pw_hour p' = pw_hour p" "pw_stem p' = pw_stem p" "pw_vBlob p' = pw_vBlob p"
    "pw_aBlob p' = pw_aBlob p" "pw_rf p' = pw_rf p" and "ar_disk a' = ar_disk a"
  shows "lane_inv lib (p', a')"
proof (cases "pw_hour p")
  case None
  then show ?thesis using assms by (simp add: lane_inv_def)
next
  case (Some h)
  then obtain items where "open_hour lib p a items" using assms(1) by (auto simp: lane_inv_def)
  from open_hour_lane [OF open_hour_cong [OF this assms(2-7)]] show ?thesis .
qed

lemma ensureHour_open:
  assumes inv: "lane_inv lib (p, a)" and vi: "pw_videoInit p \<noteq> None"
  obtains p' a' items where "ensureHour wallMs (p, a) = (BwOk, p', a')" and "open_hour lib p' a' items"
    and "pw_hour p' = Some (hourFloor wallMs)"
    and "items \<noteq> [] \<Longrightarrow> p' = p \<and> a' = a"
proof (cases "pw_hour p = Some (hourFloor wallMs)")
  case True
  then obtain items where "open_hour lib p a items" using inv by (auto simp: lane_inv_def)
  then show thesis using True by (intro that [of p a items]) (simp_all add: ensureHour_def Let_def)
next
  case False
  obtain p1 a1 where s: "(if pw_hour p \<noteq> None then sealHour (p, a) else (p, a)) = (p1, a1)" by (metis surj_pair)
  have closed: "\<forall>stem. closed_ok lib (ar_disk a1 stem)"
  proof (cases "pw_hour p")
    case None
    then show ?thesis using inv s by (auto simp: lane_inv_def)
  next
    case (Some h)
    then obtain items where "open_hour lib p a items" using inv by (auto simp: lane_inv_def)
    from sealHour_closes [OF this] s Some show ?thesis by auto
  qed
  have "same_lane p p1" using s sealHour_lane [of p a] by (auto split: if_splits)
  then have "pw_videoInit p1 \<noteq> None" using vi by (simp add: same_lane_def)
  from openHour_opens [OF closed this, of "hourFloor wallMs"] obtain p' a' where
    "openHour (hourFloor wallMs) (p1, a1) = (BwOk, p', a')" "open_hour lib p' a' []" "pw_hour p' = Some (hourFloor wallMs)" by blast
  then show thesis using False s by (intro that [of p' a' "[]"]) (simp_all add: ensureHour_def Let_def)
qed

lemma emit_video_inv:
  assumes inv: "lane_inv lib (p, a)" and vi: "pw_videoInit p \<noteq> None"
    and run: "emit_video lib vf d (p, a) = (out, p', a')"
  shows "lane_inv lib (p', a') \<and> out \<noteq> BwPanic \<and> pw_audioInit p' = pw_audioInit p \<and>
    (out = BwOk \<longrightarrow> (\<exists>items. open_hour lib p' a' items))"
proof -
  define wall where "wall = pw_originWallMs p + deltaMs (vf_PTSms (vf ! 0)) p"
  from ensureHour_open [OF inv vi, of wall] obtain p2 a2 items where
    e: "ensureHour wall (p, a) = (BwOk, p2, a2)" "open_hour lib p2 a2 items" by blast
  have lane: "same_lane p p2" using ensureHour_lane [OF e(1)] .
  obtain v where v: "pw_videoInit p2 = Some v" using lane vi by (auto simp: same_lane_def)
  obtain t p3 where t: "tfdtVideo (vf_PTSms (vf ! 0)) p2 = (t, p3)" by (metis surj_pair)
  define p4 where "p4 = p3\<lparr>pw_pendingDisc := False, pw_vSeq := pw_vSeq p3 + 1\<rparr>"
  have p4: "pw_hour p4 = pw_hour p2" "pw_stem p4 = pw_stem p2" "pw_vBlob p4 = pw_vBlob p2" "pw_aBlob p4 = pw_aBlob p2"
    "pw_rf p4 = pw_rf p2" "pw_videoInit p4 = Some v" "pw_audioInit p4 = pw_audioInit p"
    using t v lane by (auto simp: p4_def tfdtVideo_def Let_def same_lane_def)
  have v3: "pw_videoInit p3 = Some v" using p4(6) by (simp add: p4_def)
  have o4: "open_hour lib p4 a2 items" using e(2) p4 by (intro open_hour_cong [OF e(2)]) simp_all
  let ?b = "BuildVideoFragment (bl_mp4 lib) (pw_vSeq p3 + 1) (vi_TrackID v) t vf (ti_IsHEVC (vi_Info v)) d"
  show ?thesis
  proof (cases "Option.bind ?b (bl_enc lib)")
    case None
    then have "p' = p4 \<and> a' = a2 \<and> out = BwErr ''build video fragment''"
      using run e(1) t v3 unfolding wall_def by (auto simp: emit_video_def Let_def p4_def)
    then show ?thesis using open_hour_lane [OF o4] p4 by simp
  next
    case (Some frag)
    then obtain fr where fr: "?b = Some fr" "bl_enc lib fr = Some frag" by (auto simp: bind_eq_Some_conv)
    have st: "starts_at fr t" using fr(1) by (rule video_fragment_starts_at)
    let ?mk = "video_record vf (pw_pendingDisc p3) wall t d"
    have mk: "rec_Track (?mk off len) = TrackVideo \<and> rec_MediaTicks (?mk off len) = t \<and>
      rec_ByteOffset (?mk off len) = off \<and> rec_ByteLen (?mk off len) = len" for off len
      by (simp add: video_record_def)
    from append_video_open [OF o4 fr(2) st mk] obtain p5 a5 r where
      ap: "append_video frag ?mk (p4, a2) = (BwOk, p5, a5)" "open_hour lib p5 a5 (items @ [(r, frag)])" by blast
    have "p' = p5\<lparr>pw_cur := noteVideoFrag wall t (pw_cur p5)\<rparr> \<and> a' = a5 \<and> out = BwOk"
      using run e(1) t v3 Some ap(1) unfolding wall_def p4_def by (auto simp: emit_video_def Let_def)
    moreover have "pw_audioInit p5 = pw_audioInit p" using append_video_lane [OF ap(1)] p4 by (simp add: same_lane_def)
    moreover have "open_hour lib (p5\<lparr>pw_cur := c\<rparr>) a5 (items @ [(r, frag)])" for c
      by (rule open_hour_cong [OF ap(2)]) simp_all
    moreover from this have "lane_inv lib (p5\<lparr>pw_cur := c\<rparr>, a5)" for c by (rule open_hour_lane)
    ultimately show ?thesis by auto
  qed
qed

lemma emitAudio_inv:
  assumes hour: "open_hour lib p a items" and ai: "pw_audioInit p \<noteq> None"
    and run: "emitAudio lib n (p, a) = (out, p', a')"
  shows "lane_inv lib (p', a') \<and> out \<noteq> BwPanic"
proof -
  obtain q af where pop: "PopAudio n (pw_q p) = (q, af)" by (metis surj_pair)
  have o1: "open_hour lib (p\<lparr>pw_q := q\<rparr>) a items" by (rule open_hour_cong [OF hour]) simp_all
  show ?thesis
  proof (cases "af = []")
    case True
    then show ?thesis using run pop open_hour_lane [OF o1] by (auto simp: emitAudio_def Let_def)
  next
    case False
    have "pw_audioInit (p\<lparr>pw_q := q\<rparr>) \<noteq> None" using ai by simp
    from ensureAudioBlob_open [OF o1 this] obtain p2 a2 where
      e: "ensureAudioBlob (p\<lparr>pw_q := q\<rparr>, a) = (BwOk, p2, a2)" "open_hour lib p2 a2 items" "pw_aBlob p2 \<noteq> None" by blast
    have lane: "same_lane (p\<lparr>pw_q := q\<rparr>) p2" using ensureAudioBlob_lane [OF e(1)] .
    obtain i where i: "pw_audioInit p2 = Some i" using lane ai by (auto simp: same_lane_def)
    obtain t p3 where t: "tfdtAudio (af_PTSms (af ! 0)) (word_of_int (ai_SampleRate i)) p2 = (t, p3)" by (metis surj_pair)
    define p4 where "p4 = p3\<lparr>pw_aSeq := pw_aSeq p3 + 1\<rparr>"
    have p4: "pw_hour p4 = pw_hour p2" "pw_stem p4 = pw_stem p2" "pw_vBlob p4 = pw_vBlob p2" "pw_aBlob p4 = pw_aBlob p2"
      "pw_rf p4 = pw_rf p2"
      using t by (auto simp: p4_def tfdtAudio_def Let_def)
    have o4: "open_hour lib p4 a2 items" using e(2) p4 by (intro open_hour_cong [OF e(2)]) simp_all
    let ?b = "BuildAudioFragment (pw_aSeq p3 + 1) (ai_TrackID i) t af"
    show ?thesis
    proof (cases "Option.bind ?b (bl_enc lib)")
      case None
      then have "p' = p4 \<and> a' = a2 \<and> out = BwErr ''build audio fragment''"
        using run pop False e t i by (auto simp: emitAudio_def Let_def p4_def [symmetric])
      then show ?thesis using open_hour_lane [OF o4] by simp
    next
      case (Some frag)
      then obtain fr where fr: "?b = Some fr" "bl_enc lib fr = Some frag" by (auto simp: bind_eq_Some_conv)
      have st: "starts_at fr t" using fr(1) by (rule audio_fragment_starts_at)
      let ?mk = "audio_record af (pw_originWallMs p4 + deltaMs (af_PTSms (af ! 0)) p4) t"
      have mk: "rec_Track (?mk off len) = TrackAudio \<and> rec_MediaTicks (?mk off len) = t \<and>
        rec_ByteOffset (?mk off len) = off \<and> rec_ByteLen (?mk off len) = len" for off len
        by (simp add: audio_record_def)
      have blob: "pw_aBlob p4 \<noteq> None" using e(3) p4 by simp
      from append_audio_open [OF o4 fr(2) st blob mk] obtain p5 a5 r where
        ap: "append_audio frag ?mk (p4, a2) = (BwOk, p5, a5)" "open_hour lib p5 a5 (items @ [(r, frag)])" by blast
      have "p' = p5\<lparr>pw_cur := (pw_cur p5)\<lparr>hr_FragCountA := hr_FragCountA (pw_cur p5) + 1\<rparr>\<rparr> \<and> a' = a5 \<and> out = BwOk"
        using run pop False e t i Some ap(1) by (auto simp: emitAudio_def Let_def p4_def [symmetric])
      moreover have "lane_inv lib (p5\<lparr>pw_cur := c\<rparr>, a5)" for c
        by (rule open_hour_lane [OF open_hour_cong [OF ap(2)]]) simp_all
      ultimately show ?thesis by simp
    qed
  qed
qed

lemma cut_needs_tracks:
  assumes "Cut now q hv ha sr s = (d, s')" and "cd_Ok d"
  shows "(0 < cd_VideoCount d \<longrightarrow> hv) \<and> (0 < cd_AudioCount d \<longrightarrow> ha)"
proof -
  have b: "cd_AudioCount d > 0 \<Longrightarrow> ha" if "buildCutDecision q i ha al sr s = (d, s')" for i al
    using that by (auto simp: buildCutDecision_def no_cut_def Let_def split: if_splits option.splits)
  show ?thesis
  proof (cases "hv \<and> 0 < VideoLen q")
    case True
    then have c: "cutVideo now q (ms_u64 (sg_segDur s)) (ms_u64 (sg_segDur s) * word_of_int (sg_maxFactor s)) ha sr s = (d, s')"
      using assms(1) by (simp add: Cut_def Let_def)
    then show ?thesis using True b assms(2) by (auto simp: cutVideo_def Let_def no_cut_def split: if_splits)
  next
    case False
    then have "cutAudioOnly q (ms_u64 (sg_segDur s)) = d" "ha"
      using assms by (auto simp: Cut_def Let_def no_cut_def split: if_splits)
    then show ?thesis by (auto simp: cutAudioOnly_def no_cut_def Let_def split: option.splits if_splits)
  qed
qed

lemma bw_emit_inv:
  assumes inv: "lane_inv lib (p, a)" and cut: "bw_cut now p = (d, p1)" and ok: "cd_Ok d"
    and run: "bw_emit lib d now (p1, a) = (out, p2, a2)"
  shows "lane_inv lib (p2, a2) \<and> out \<noteq> BwPanic"
proof -
  obtain sr s' where c: "Cut now (pw_q p) (pw_videoInit p \<noteq> None) (pw_isAudio p \<and> pw_audioInit p \<noteq> None) sr (pw_seg p) = (d, s')"
    and p1: "p1 = p\<lparr>pw_seg := s'\<rparr>"
    using cut by (auto simp: bw_cut_def Let_def split: prod.splits)
  note needs = cut_needs_tracks [OF c ok]
  obtain q vf where pop: "PopVideo (cd_VideoCount d) (pw_q p) = (q, vf)" by (metis surj_pair)
  have keep: "lane_inv lib (p\<lparr>pw_seg := s', pw_q := q'\<rparr>, a)" for q'
    by (rule lane_inv_cong [OF inv]) simp_all
  from cut_takes_frames [OF c ok] show ?thesis
  proof
    assume "cd_VideoCount d = 0 \<and> 0 < cd_AudioCount d \<and> q_audio (pw_q p) \<noteq> []"
    then show ?thesis using run p1 keep by (auto simp: bw_emit_def)
  next
    assume v: "0 < cd_VideoCount d \<and> q_video (pw_q p) \<noteq> []"
    have vf: "vf \<noteq> []" using pop v by (auto simp: PopVideo_def Let_def split: if_splits)
    let ?p = "p\<lparr>pw_seg := s', pw_q := q\<rparr>" and ?d = "computeVideoSegDurTicks vf (map_option vf_PTSms (FirstVideo q))"
    obtain o3 p3 a3 where ev: "emit_video lib vf ?d (?p, a) = (o3, p3, a3)" by (metis prod_cases3)
    have "pw_videoInit ?p \<noteq> None" using needs v by auto
    from emit_video_inv [OF keep this ev] have i3: "lane_inv lib (p3, a3)" "o3 \<noteq> BwPanic"
      "pw_audioInit p3 = pw_audioInit p" "o3 = BwOk \<Longrightarrow> \<exists>items. open_hour lib p3 a3 items" by simp_all
    show ?thesis
    proof (cases "o3 = BwOk")
      case False
      then have "p2 = p3 \<and> a2 = a3 \<and> out = o3"
        using run v vf pop ev p1 by (cases o3) (auto simp: bw_emit_def Let_def)
      then show ?thesis using i3 by simp
    next
      case True
      obtain o4 p4 a4 where ea: "(if pw_isAudio p3 \<and> 0 < cd_AudioCount d then emitAudio lib (cd_AudioCount d) (p3, a3)
          else (BwOk, p3, a3)) = (o4, p4, a4)" by (metis prod_cases3)
      obtain items where o: "open_hour lib p3 a3 items" using i3(4) True by blast
      have i4: "lane_inv lib (p4, a4) \<and> o4 \<noteq> BwPanic"
      proof (cases "pw_isAudio p3 \<and> 0 < cd_AudioCount d")
        case True
        then have "pw_audioInit p3 \<noteq> None" using needs i3(3) by auto
        from emitAudio_inv [OF o this] ea True show ?thesis by simp
      next
        case False
        then show ?thesis using ea i3 by auto
      qed
      show ?thesis
      proof (cases "o4 = BwOk")
        case False
        then have "p2 = p4 \<and> a2 = a4 \<and> out = o4"
          using run v vf pop ev p1 True ea by (cases o4) (auto simp: bw_emit_def Let_def)
        then show ?thesis using i4 by simp
      next
        case o4: True
        obtain p5 a5 where cp: "checkpointHour (p4\<lparr>pw_seg := MarkCut now (pw_seg p4)\<rparr>, a4) = (p5, a5)" by (metis surj_pair)
        have "p2 = p5 \<and> a2 = a5 \<and> out = BwOk"
          using run v vf pop ev p1 True ea o4 cp by (auto simp: bw_emit_def Let_def)
        moreover have "lane_inv lib (p5, a5)"
          using cp i4 lane_inv_cong [of lib p4 a4 p5 a5]
          by (auto simp: checkpointHour_def Let_def sink_hour_def split: if_splits)
        ultimately show ?thesis by simp
      qed
    qed
  qed
qed

lemma drainCuts_inv:
  "lane_inv lib (p, a) \<Longrightarrow> drainCuts lib now (p, a) = (out, p', a') \<Longrightarrow> lane_inv lib (p', a') \<and> out \<noteq> BwPanic"
proof (induction lib now "(p, a)" arbitrary: p a rule: drainCuts.induct)
  case (1 lib now p a)
  obtain d p1 where cut: "bw_cut now p = (d, p1)" by (metis surj_pair)
  show ?case
  proof (cases "cd_Ok d")
    case False
    then have "p' = p1 \<and> a' = a \<and> out = BwOk" using 1(3) cut by (subst (asm) drainCuts.simps) simp
    moreover have "lane_inv lib (p1, a)"
      using cut by (intro lane_inv_cong [OF 1(2)]) (auto simp: bw_cut_def Let_def split: prod.splits)
    ultimately show ?thesis by simp
  next
    case True
    obtain o2 p2 a2 where e: "bw_emit lib d now (p1, a) = (o2, p2, a2)" by (metis prod_cases3)
    note i2 = bw_emit_inv [OF 1(2) cut True e]
    show ?thesis
    proof (cases "o2 = BwOk")
      case ok: True
      then have "drainCuts lib now (p2, a2) = (out, p', a')"
        using 1(3) cut True e by (subst (asm) drainCuts.simps) simp
      with 1(1) [OF cut [symmetric]] True e ok i2 show ?thesis by simp
    next
      case False
      then have "p' = p2 \<and> a' = a2 \<and> out = o2"
        using 1(3) cut True e by (subst (asm) drainCuts.simps) (cases o2, auto)
      with i2 show ?thesis by simp
    qed
  qed
qed

definition same_handles :: "ProfileWriter \<Rightarrow> ProfileWriter \<Rightarrow> bool" where
  "same_handles p p' \<longleftrightarrow> pw_hour p' = pw_hour p \<and> pw_stem p' = pw_stem p \<and> pw_vBlob p' = pw_vBlob p \<and>
     pw_aBlob p' = pw_aBlob p \<and> pw_rf p' = pw_rf p"

lemma push_a_handles: "same_handles p (fold push_a fs p)"
  by (induction fs arbitrary: p) (auto simp: same_handles_def push_a_def)

lemma ingestAV_handles: "same_handles p (ingestAV lib av now p)"
proof -
  have v: "same_handles p (ensureVideoInit lib av p)" for p
    by (simp add: ensureVideoInit_def Let_def same_handles_def split: option.splits)
  have a: "same_handles p (ensureAudioInit lib av p)" for p
    by (simp add: ensureAudioInit_def same_handles_def split: option.splits)
  show ?thesis
    using v a push_a_handles unfolding ingestAV_def Let_def push_v_def
    by (simp add: same_handles_def split: if_splits)
qed

lemma lane_op_inv:
  assumes "lane_inv lib pa" and "lane_op lib op pa = (out, pa')"
  shows "lane_inv lib pa' \<and> out \<noteq> BwPanic"
proof -
  obtain p a p' a' where pa: "pa = (p, a)" "pa' = (p', a')" by (metis surj_pair)
  show ?thesis
  proof (cases op)
    case (LTick now)
    then show ?thesis using drainCuts_inv assms pa by (auto simp: bw_Tick_def)
  next
    case (LPacket pkt now)
    define p1 where "p1 = (if pk_SessionStart pkt
      then p\<lparr>pw_q := NewFrameQueue, pw_seg := ResetSegmenter (pw_seg p), pw_pendingDisc := True\<rparr> else p)"
    define p2 where "p2 = (case pk_AV pkt of Some av \<Rightarrow> ingestAV (bl_mp4 lib) av now p1 | None \<Rightarrow> p1)"
    have "same_handles p p1" by (simp add: p1_def same_handles_def)
    moreover have "same_handles p1 p2"
      using ingestAV_handles by (simp add: p2_def same_handles_def split: option.splits)
    ultimately have "lane_inv lib (p2, a)"
      using assms(1) pa by (intro lane_inv_cong [of lib p a p2 a]) (simp_all add: same_handles_def)
    moreover have "drainCuts lib now (p2, a) = (out, p', a')"
      using assms(2) pa LPacket unfolding p2_def p1_def by (simp add: Ingest_def Let_def)
    ultimately show ?thesis using drainCuts_inv pa by simp
  qed
qed

lemma run_lane_inv:
  "lane_inv lib pa \<Longrightarrow> \<exists>pa'. run_lane lib ops pa = Some pa' \<and> lane_inv lib pa'"
proof (induction ops arbitrary: pa)
  case (Cons op ops)
  obtain out pa1 where op: "lane_op lib op pa = (out, pa1)" by (metis surj_pair)
  from lane_op_inv [OF Cons.prems this] have "lane_inv lib pa1" "out \<noteq> BwPanic" by simp_all
  with Cons.IH [of pa1] op show ?case by (cases out) auto
qed simp

lemma new_lane_inv: "\<forall>stem. closed_ok lib (ar_disk a stem) \<Longrightarrow> lane_inv lib (newProfileWriter audio segDur, a)"
  by (simp add: lane_inv_def newProfileWriter_def Let_def)

lemma lane_inv_closed:
  assumes "lane_inv lib (p, a)"
  shows "closed_ok lib (ar_disk a stem)"
proof (cases "pw_hour p")
  case None
  then show ?thesis using assms by (simp add: lane_inv_def)
next
  case (Some h)
  then obtain items where o: "open_hour lib p a items" using assms by (auto simp: lane_inv_def)
  show ?thesis
  proof (cases "stem = pw_stem p")
    case True
    then have "hour_inv lib (ar_disk a stem) items" using o by (intro handles_hour_inv) (auto simp: open_hour_def)
    then show ?thesis by (auto simp: closed_ok_def)
  qed (use o in \<open>simp add: open_hour_def\<close>)
qed

text \<open>Reading a located item.\<close>

lemma unat_of_nat_small: "n < 2 ^ LENGTH('a::len) \<Longrightarrow> unat (of_nat n :: 'a word) = n"
  by (simp add: unat_of_nat)

lemma located_read:
  assumes "located lib f (r, b)" and "length b < 2 ^ 32" and "hourBlobSize f < 2 ^ 63"
  shows "ReadFragment f r = Some b \<and> rec_end r \<le> hourBlobSize f"
proof -
  from assms(1) obtain off data where loc: "track_file (rec_Track r) f = Some data" "off + length b \<le> length data"
    "take (length b) (drop off data) = b" "rec_ByteOffset r = of_nat off" "rec_ByteLen r = of_nat (length b)"
    by (auto simp: located_def)
  have le: "int (length data) \<le> hourBlobSize f"
    using loc(1) by (auto simp: track_file_def hourBlobSize_def Let_def split: if_splits option.splits)
  then have small: "off + length b < 2 ^ 63" using loc(2) assms(3) by simp
  have off: "unat (of_nat off :: u64) = off" using small by (intro unat_of_nat_small) simp
  have len: "unat (of_nat (length b) :: 32 word) = length b" using assms(2) by (intro unat_of_nat_small) simp
  have so: "sint (of_nat off :: u64) = int off" using small off by (subst sint_small) simp_all
  have "ucast (of_nat (length b) :: 32 word) = (of_nat (length b) :: u64)"
    using assms(2) by (simp add: unsigned_of_nat take_bit_nat_eq_self)
  then have "(of_nat off + ucast (of_nat (length b) :: 32 word) :: u64) = of_nat (off + length b)" by simp
  moreover have "unat (of_nat (off + length b) :: u64) = off + length b" using small by (intro unat_of_nat_small) simp
  ultimately have "rec_end r = int (off + length b)"
    unfolding rec_end_def loc using small by (subst sint_small) simp_all
  then have "rec_end r \<le> hourBlobSize f" using le loc(2) by linarith
  moreover have "ReadFragment f r = Some b"
    using loc so len by (auto simp: ReadFragment_def openBlobFile_def bf_ReadSlice_def read_at_def)
  ultimately show ?thesis by simp
qed

lemma hour_served:
  assumes inv: "hour_inv lib f items" and enc: "\<forall>frag b. bl_enc lib frag = Some b \<longrightarrow> length b < 2 ^ 32"
    and d: "hf_ranges f = Some d" "length d < 64 + 40 * 2 ^ 32" and size: "hourBlobSize f < 2 ^ 63"
  obtains hdr where "ReadRanges (Some d) (hourBlobSize f) = Inr (hdr, map fst items)"
    and "length d = 64 + 40 * length items" and "\<And>r b. (r, b) \<in> set items \<Longrightarrow> ReadFragment f r = Some b"
proof -
  have len: "length items < 2 ^ 32" using inv d by (auto simp: hour_inv_def split: if_splits)
  then obtain hdr where hdr: "header_valid hdr" "d = MarshalRangesHeader hdr @ concat (map MarshalFragRecord (map fst items))"
    using inv d(1) by (auto simp: hour_inv_def)
  have rd: "ReadFragment f r = Some b \<and> rec_end r \<le> hourBlobSize f" if "(r, b) \<in> set items" for r b
  proof -
    have l: "located lib f (r, b)" using inv that by (auto simp: hour_inv_def list_all_iff)
    then have "length b < 2 ^ 32" using enc by (auto simp: located_def)
    with l size show ?thesis by (intro located_read)
  qed
  then have "\<forall>r \<in> set (map fst items). rec_end r \<le> hourBlobSize f" by fastforce
  from ReadRanges_data [OF hdr(1) this] hdr(2)
  have "ReadRanges (Some d) (hourBlobSize f) = Inr (hdr, map fst items)" by simp
  moreover have "length d = 64 + 40 * length items"
    using hdr(2) frag.length_concat [of "map fst items"] by (simp add: format_consts)
  ultimately show thesis using rd by (intro that [of hdr]) auto
qed

subsection \<open>Properties\<close>


text \<open>
  A lane never dereferences a missing handle. Whatever packets and ticks come in, with a disk that works,
  the run has a result: an encoder error skips a fragment and the lane goes on.
\<close>

theorem lane_never_panics:
  assumes "\<forall>stem. closed_ok lib (ar_disk a0 stem)"
  shows "\<exists>pa. run_lane lib ops (newProfileWriter audio segDur, a0) = Some pa"
  using run_lane_inv [OF new_lane_inv [OF assms]] by blast

lemma no_cut_no_change:
  assumes "Cut now q hv ha sr s = (d, s')" and "\<not> cd_Ok d"
  shows "s' = s"
  using assms by (auto simp: Cut_def cutVideo_def buildCutDecision_def Let_def split: if_splits option.splits)

text \<open>
  Draining terminates and is complete: \<^verbatim>\<open>drainCuts\<close> returns for every queue, and when it returns without an
  error the segmenter has nothing more to cut, so no fragment that is ready waits for the next packet.
\<close>

theorem drainCuts_leaves_nothing_to_cut:
  assumes "drainCuts lib now (p, a) = (BwOk, p', a')"
  shows "\<not> cd_Ok (fst (bw_cut now p')) \<and> queued p' \<le> queued p"
  using assms
proof (induction lib now "(p, a)" arbitrary: p a rule: drainCuts.induct)
  case (1 lib now p a)
  obtain d p1 where cut: "bw_cut now p = (d, p1)" by (metis surj_pair)
  show ?case
  proof (cases "cd_Ok d")
    case False
    then have "p' = p1" using 1(2) cut by (subst (asm) drainCuts.simps) simp
    moreover have "p1 = p" using cut False by (auto simp: bw_cut_def Let_def split: prod.splits dest!: no_cut_no_change)
    ultimately show ?thesis using cut False by simp
  next
    case True
    obtain o2 p2 a2 where e: "bw_emit lib d now (p1, a) = (o2, p2, a2)" by (metis prod_cases3)
    have "o2 = BwOk" using 1(2) cut True e by (subst (asm) drainCuts.simps) (cases o2, auto)
    moreover from this have "drainCuts lib now (p2, a2) = (BwOk, p', a')"
      using 1(2) cut True e by (subst (asm) drainCuts.simps) simp
    ultimately have "\<not> cd_Ok (fst (bw_cut now p')) \<and> queued p' \<le> queued p2"
      using 1(1) [OF cut [symmetric]] True e by simp
    moreover have "queued p2 < queued p" using emit_progress [OF cut True] e \<open>o2 = BwOk\<close> by simp
    ultimately show ?thesis by simp
  qed
qed


subsection \<open>Concrete runs\<close>

definition toy_blob :: BlobLib where
  "toy_blob = \<lparr>bl_mp4 = toy_lib, bl_enc = (\<lambda>fr. Some [ucast (fr_SeqNum fr), 9])\<rparr>"

definition empty_archive :: Archive where
  "empty_archive = \<lparr>ar_disk = (\<lambda>_. no_files), ar_sunk = []\<rparr>"

definition video_pkt :: "bool \<Rightarrow> int \<Rightarrow> Packet" where
  "video_pkt first t = \<lparr>pk_TS = [], pk_AV = Some (toy_video t True), pk_SessionID = 0, pk_SessionStart = first\<rparr>"

text \<open>A stream that starts two seconds before a full hour, with a key frame a second: one fragment.\<close>

definition two_ops :: "LaneOp list" where
  "two_ops = [LPacket (video_pkt True 0) (millis 3598000), LPacket (video_pkt False 1000) (millis 3599000)]"

definition lane_end :: "LaneOp list \<Rightarrow> ProfileWriter \<times> Archive" where
  "lane_end ops = the (run_lane toy_blob ops (newProfileWriter False (seconds 1), empty_archive))"

lemma empty_closed: "\<forall>stem. closed_ok lib (ar_disk empty_archive stem)"
  by (simp add: closed_ok_def empty_archive_def no_files_def)

lemma toy_blob_small: "\<forall>frag b. bl_enc toy_blob frag = Some b \<longrightarrow> length b < 2 ^ 32"
  by (simp add: toy_blob_def)

text \<open>Helper for the concrete runs: every run has a result.\<close>

lemma lane_end_run: "run_lane toy_blob ops (newProfileWriter False (seconds 1), empty_archive) = Some (lane_end ops)"
  using run_lane_inv [OF new_lane_inv [OF empty_closed [of toy_blob]], of ops False "seconds 1"] by (auto simp: lane_end_def)

text \<open>
  Going back to an earlier hour erases it. The lane keeps the origin of its first frame for ever, but the
  timestamps of a new session start again at zero (\<open>session_boundary_restarts_at_zero\<close>). When a fragment's
  time falls into another hour than the open one, that hour is opened anew and whatever it held, sealed
  and catalogued, is gone: no fragment of it can be served any more.
\<close>

theorem returning_to_an_hour_erases_it:
  assumes "\<forall>stem. closed_ok lib (ar_disk a0 stem)"
    and "run_lane lib ops (newProfileWriter audio segDur, a0) = Some (p, a)" and "pw_videoInit p \<noteq> None"
    and "hourFloor (pw_originWallMs p + deltaMs pts p) = target" and "pw_hour p \<noteq> Some target"
  shows "\<exists>p' a'. ensureHour (pw_originWallMs p + deltaMs pts p) (p, a) = (BwOk, p', a') \<and>
    (\<forall>track seq. FragmentByHour (ar_disk a' (hourRel target)) track seq = None)"
proof -
  let ?w = "pw_originWallMs p + deltaMs pts p"
  have inv: "lane_inv lib (p, a)" using run_lane_inv [OF new_lane_inv [OF assms(1)], of ops audio segDur] assms(2) by auto
  from ensureHour_open [OF inv assms(3), of ?w] obtain p' a' items where
    e: "ensureHour ?w (p, a) = (BwOk, p', a')" "open_hour lib p' a' items" "pw_hour p' = Some target"
      "items \<noteq> [] \<Longrightarrow> p' = p \<and> a' = a" using assms(4) by blast
  have "items = []" using e(3,4) assms(5) by auto
  then obtain rf h where "index_of rf h []" "hf_ranges (ar_disk a' (hourRel target)) = Some (rf_data rf)"
    using e(2,3) by (auto simp: open_hour_def handles_def index_ok_def)
  then have "ReadRanges (hf_ranges (ar_disk a' (hourRel target))) n = Inr (h, [])" for n
    using ReadRanges_index [of rf h "[]" n] by simp
  then show ?thesis using e(1) by (auto simp: FragmentByHour_def)
qed

lemmas frames_in = Ingest_def ingestAV_def ensureVideoInit_def push_v_def video_pkt_def toy_video_def
  toy_blob_def toy_lib_def ExtractParameterSets_def BuildH264Init_def newProfileWriter_def NewFrameQueue_def
  PushVideo_def push_video_def videoFrameHardCap_def NewSegmenter_def ResetSegmenter_def maxSegFactor_def
  bw_cut_def Cut_def cutVideo_def VideoLen_def AudioLen_def findIDRCutPoint_def FirstVideo_def VideoSpanMS_def
  ms_u64_def go_div_def no_cut_def maxQueueSpanMs_def buildCutDecision_def

lemmas frames_out = bw_emit_def PopVideo_def computeVideoSegDurTicks_def emit_video_def deltaMs_def ensureHour_def
  hourFloor_def openHour_def createBlobFile_new createRangesFile_def tfdtVideo_def mediaTicks_def videoTimescale_def
  BuildVideoFragment_def append_video_def bf_Append_def checkpointHour_def hourSize_def h264AnnexBToAVCC_def
  frame_dur_def VideoTimescale_def MarkCut_def empty_archive_def no_files_def hourFilesExist_def set_files_def
  noteVideoFrag_def sink_hour_def sync_hour_def

lemma Marshal_nonempty: "MarshalFragRecord r \<noteq> []"
  using Marshal_length [of r] by (metis list.size(3) zero_neq_numeral)

lemma two_run:
  "case lane_end two_ops of (p, a) \<Rightarrow>
     pw_hour p = Some 0 \<and> pw_videoInit p \<noteq> None \<and> pw_originWallMs p + deltaMs 3600000 p = 7198000 \<and>
     hourBlobSize (ar_disk a (hourRel 0)) = 2 \<and>
     (case hf_ranges (ar_disk a (hourRel 0)) of None \<Rightarrow> False | Some d \<Rightarrow> length d = 104)"
  by (simp add: lane_end_def two_ops_def frames_in frames_out drainCuts.simps Let_def hourBlobSize_def rf_Append_def
      write_at_def format_consts Marshal_nonempty)


theorem lane_never_panics_witness:
  "\<exists>pa. run_lane toy_blob two_ops (newProfileWriter True 0, empty_archive) = Some pa"
  using lane_never_panics [OF empty_closed] .

theorem drainCuts_leaves_nothing_to_cut_witness:
  "\<not> cd_Ok (fst (bw_cut 7 (newProfileWriter False 0)))"
proof -
  have "drainCuts toy_blob 7 (newProfileWriter False 0, empty_archive) = (BwOk, newProfileWriter False 0, empty_archive)"
    by (simp add: drainCuts.simps newProfileWriter_def bw_cut_def Cut_def no_cut_def)
  from drainCuts_leaves_nothing_to_cut [OF this] show ?thesis by simp
qed

text \<open>The fragment an hour later would go to hour 1; the one after a reconnect to hour 0 again.\<close>

theorem returning_to_an_hour_erases_it_witness:
  "\<exists>p' a'. ensureHour 7198000 (lane_end two_ops) = (BwOk, p', a') \<and> FragmentByHour (ar_disk a' (hourRel 1)) TrackVideo 0 = None"
proof -
  obtain p a where l: "lane_end two_ops = (p, a)" by (metis surj_pair)
  have p: "pw_hour p \<noteq> Some 1" "pw_videoInit p \<noteq> None" "pw_originWallMs p + deltaMs 3600000 p = 7198000"
    using two_run l by auto
  have run: "run_lane toy_blob two_ops (newProfileWriter False (seconds 1), empty_archive) = Some (p, a)"
    using lane_end_run [of two_ops] l by simp
  have "hourFloor (pw_originWallMs p + deltaMs 3600000 p) = 1" by (simp add: p hourFloor_def)
  from returning_to_an_hour_erases_it [OF empty_closed run p(2) this p(1)] show ?thesis using l p(3) by auto
qed

end
