(* ===== verification/Blob_Repair.thy ===== *)
theory Blob_Repair
  imports Blob_Writer
begin

text \<open>
  Repair after a crash, \<^verbatim>\<open>internal/dvr/blob/recovery.go\<close>: an hour that still has its \<^verbatim>\<open>.open\<close> marker keeps the
  records whose bytes are there, in both track blobs, and is cut back to them. The files of an hour are
  the record \<open>HourFiles\<close>.
\<close>

datatype RepairError = BadHeader RangesError | BadTruncate

definition fileSize :: "byte list option \<Rightarrow> int" where
  "fileSize content = (case content of None \<Rightarrow> 0 | Some d \<Rightarrow> int (length d))"

text \<open>\<^verbatim>\<open>os.Truncate\<close> refuses a negative size and extends a shorter file with zeros.\<close>

definition truncateFile :: "int \<Rightarrow> byte list option \<Rightarrow> RepairError + byte list option" where
  "truncateFile n content =
     (case content of
        None \<Rightarrow> Inr None
      | Some d \<Rightarrow> if n < 0 then Inl BadTruncate else Inr (Some (truncate_to (nat n) d)))"

record RepairAcc =
  ra_count :: "32 word"
  ra_lastV :: int
  ra_lastA :: int

function repair_loop :: "int \<Rightarrow> int \<Rightarrow> byte list \<Rightarrow> RepairAcc \<Rightarrow> RepairAcc" where
  "repair_loop vSize aSize data acc =
     (if FragRecordSize \<le> length data then
        case UnmarshalFragRecord (take FragRecordSize data) of
          None \<Rightarrow> acc
        | Some r \<Rightarrow>
            let fin = rec_end r in
            if rec_Track r = TrackVideo then
              (if fin > vSize then acc
               else repair_loop vSize aSize (drop FragRecordSize data) (acc\<lparr>ra_lastV := fin, ra_count := ra_count acc + 1\<rparr>))
            else
              (if fin > aSize then acc
               else repair_loop vSize aSize (drop FragRecordSize data) (acc\<lparr>ra_lastA := fin, ra_count := ra_count acc + 1\<rparr>))
      else acc)"
  by pat_completeness auto
termination by (relation "measure (\<lambda>(_, _, d, _). length d)") (auto simp: format_consts)

declare repair_loop.simps [simp del]

definition rewriteRangesHeader :: "RangesHeader \<Rightarrow> 32 word \<Rightarrow> byte list \<Rightarrow> byte list" where
  "rewriteRangesHeader hdr n data =
     write_at 0 (MarshalRangesHeader (hdr\<lparr>rh_RecordCount := n\<rparr>)) (truncate_to (RangesHeadSize + unat n * FragRecordSize) data)"

definition repairHour :: "HourFiles \<Rightarrow> RepairError + HourFiles" where
  "repairHour f =
     (case hf_ranges f of
        None \<Rightarrow> Inr (f\<lparr>hf_open := False\<rparr>)
      | Some data \<Rightarrow>
          case UnmarshalRangesHeader data of
            Inl e \<Rightarrow> Inl (BadHeader e)
          | Inr hdr \<Rightarrow>
              let vSize = fileSize (hf_v f); aSize = fileSize (hf_a f);
                  acc = repair_loop vSize aSize (drop RangesHeadSize data)
                    \<lparr>ra_count = 0, ra_lastV = uint (rh_VideoInitLen hdr), ra_lastA = uint (rh_AudioInitLen hdr)\<rparr>
              in case truncateFile (ra_lastV acc) (hf_v f) of
                   Inl e \<Rightarrow> Inl e
                 | Inr v \<Rightarrow>
                     case (if 0 < aSize then truncateFile (ra_lastA acc) (hf_a f) else Inr (hf_a f)) of
                       Inl e \<Rightarrow> Inl e
                     | Inr au \<Rightarrow>
                         let hdr1 = hdr\<lparr>rh_Flags := or (rh_Flags hdr) HeaderFlagSealed\<rparr> in
                         Inr (f\<lparr>hf_v := v, hf_a := au, hf_ranges := Some (rewriteRangesHeader hdr1 (ra_count acc) data),
                                hf_open := False\<rparr>))"

definition isProfileDir :: "string \<Rightarrow> bool" where
  "isProfileDir name = (if length name < 2 \<or> name ! 0 \<noteq> CHR ''p'' then False else list_all is_digit (drop 1 name))"

text \<open>
  The files of a stream, by profile and hour. A directory is walked in the order of the listing: the hours of
  one profile, then the next profile; the first error ends the repair.
\<close>

type_synonym StreamDisk = "string \<Rightarrow> string \<Rightarrow> HourFiles"

fun repairProfile :: "string \<Rightarrow> string list \<Rightarrow> StreamDisk \<Rightarrow> RepairError option \<times> StreamDisk" where
  "repairProfile pid [] d = (None, d)"
| "repairProfile pid (stem # stems) d =
     (if hf_open (d pid stem) then
        (case repairHour (d pid stem) of
           Inl e \<Rightarrow> (Some e, d)
         | Inr f \<Rightarrow> repairProfile pid stems (d(pid := (d pid)(stem := f))))
      else repairProfile pid stems d)"

fun RepairStream :: "(string \<times> string list) list \<Rightarrow> StreamDisk \<Rightarrow> RepairError option \<times> StreamDisk" where
  "RepairStream [] d = (None, d)"
| "RepairStream ((name, stems) # rest) d =
     (if \<not> isProfileDir name then RepairStream rest d
      else case repairProfile name stems d of
          (Some e, d') \<Rightarrow> (Some e, d')
        | (None, d') \<Rightarrow> RepairStream rest d')"

subsection \<open>What a repaired hour keeps\<close>

text \<open>A record is durable when its fragment ends within its track's blob.\<close>

definition durable :: "int \<Rightarrow> int \<Rightarrow> FragRecord \<Rightarrow> bool" where
  "durable vSize aSize r \<longleftrightarrow> rec_end r \<le> (if rec_Track r = TrackVideo then vSize else aSize)"

definition last_end :: "bool \<Rightarrow> int \<Rightarrow> FragRecord list \<Rightarrow> int" where
  "last_end video start recs =
     foldl (\<lambda>e r. if (rec_Track r = TrackVideo) = video then rec_end r else e) start recs"

lemma repair_loop_spec:
  assumes "length torn < 40"
  shows "repair_loop v a (concat (map MarshalFragRecord recs) @ torn) acc =
    (let kept = takeWhile (durable v a) recs in
     \<lparr>ra_count = ra_count acc + of_nat (length kept), ra_lastV = last_end True (ra_lastV acc) kept,
      ra_lastA = last_end False (ra_lastA acc) kept\<rparr>)"
proof (induction recs arbitrary: acc)
  case Nil
  then show ?case using assms by (subst repair_loop.simps) (simp add: format_consts last_end_def)
next
  case (Cons r recs)
  have dec: "UnmarshalFragRecord (take FragRecordSize (MarshalFragRecord r @ rest)) = Some r" for rest
    using frag.dec_enc [of r "[]"] by (simp add: format_consts)
  let ?rest = "concat (map MarshalFragRecord recs) @ torn"
  have step: "repair_loop v a (MarshalFragRecord r @ ?rest) acc =
    (if durable v a r then repair_loop v a ?rest
       (if rec_Track r = TrackVideo then acc\<lparr>ra_lastV := rec_end r, ra_count := ra_count acc + 1\<rparr>
        else acc\<lparr>ra_lastA := rec_end r, ra_count := ra_count acc + 1\<rparr>) else acc)"
    by (subst repair_loop.simps) (simp only: dec, simp add: format_consts durable_def Let_def not_le [symmetric])
  show ?case using step Cons by (auto simp: Let_def last_end_def add.assoc)
qed

definition same_track :: "FragRecord \<Rightarrow> FragRecord \<Rightarrow> bool" where
  "same_track r s \<longleftrightarrow> (rec_Track r = TrackVideo) = (rec_Track s = TrackVideo)"

text \<open>Records as the writer makes them: forward in each track's blob, not empty, within 63 bits.\<close>

definition forward :: "FragRecord list \<Rightarrow> bool" where
  "forward recs \<longleftrightarrow>
     sorted_wrt (\<lambda>r s. same_track r s \<longrightarrow> rec_end r \<le> rec_end s) recs \<and>
     list_all (\<lambda>r. 0 \<le> sint (rec_ByteOffset r) \<and> 0 < uint (rec_ByteLen r) \<and>
       rec_end r = sint (rec_ByteOffset r) + uint (rec_ByteLen r) \<and>
       (rec_Track r = TrackVideo \<or> rec_Track r = TrackAudio)) recs"

lemma last_end_snoc: "last_end video s (xs @ [r]) = (if (rec_Track r = TrackVideo) = video then rec_end r else last_end video s xs)"
  by (simp add: last_end_def)

lemma last_end_upper:
  assumes "sorted_wrt (\<lambda>r s. same_track r s \<longrightarrow> rec_end r \<le> rec_end s) xs" and "r \<in> set xs"
    and "(rec_Track r = TrackVideo) = video"
  shows "rec_end r \<le> last_end video s xs"
  using assms
proof (induction xs rule: rev_induct)
  case (snoc x xs)
  then show ?case by (auto simp: last_end_snoc sorted_wrt_append same_track_def)
qed simp

lemma last_end_cases: "last_end video s xs = s \<or> (\<exists>r \<in> set xs. (rec_Track r = TrackVideo) = video \<and> last_end video s xs = rec_end r)"
  by (induction xs rule: rev_induct) (auto simp: last_end_snoc last_end_def [of _ _ "[]"])

lemma forward_take: "forward recs \<Longrightarrow> forward (take k recs)"
  by (auto simp: forward_def sorted_wrt_take list_all_iff dest: in_set_takeD)

lemma forward_takeWhile: "forward recs \<Longrightarrow> forward (takeWhile P recs)"
  using forward_take by (metis takeWhile_eq_take)

lemma read_at_take:
  assumes "0 \<le> off" and "off + int len \<le> int k" and "off + int len \<le> int (length d)"
  shows "read_at off len (take k d) = Some (take len (drop (nat off) d))" and "read_at off len d = Some (take len (drop (nat off) d))"
proof -
  have "nat off + len \<le> k" "nat off + len \<le> length d" using assms by linarith+
  moreover from this have "take len (drop (nat off) (take k d)) = take len (drop (nat off) d)"
    by (simp add: drop_take min_def)
  ultimately show "read_at off len (take k d) = Some (take len (drop (nat off) d))"
    "read_at off len d = Some (take len (drop (nat off) d))"
    using assms(1) by (auto simp: read_at_def)
qed

lemma truncate_to_short: "n \<le> length d \<Longrightarrow> truncate_to n d = take n d"
  by (simp add: truncate_to_def)

lemma truncated_read:
  assumes "forward xs" and "r \<in> set xs" and "(rec_Track r = TrackVideo) = video"
    and dur: "\<forall>s \<in> set xs. (rec_Track s = TrackVideo) = video \<longrightarrow> rec_end s \<le> int (length d)"
  shows "0 \<le> last_end video e xs \<and> rec_end r \<le> last_end video e xs \<and> last_end video e xs \<le> int (length d) \<and>
    read_at (sint (rec_ByteOffset r)) (unat (rec_ByteLen r)) (truncate_to (nat (last_end video e xs)) d) =
      read_at (sint (rec_ByteOffset r)) (unat (rec_ByteLen r)) d \<and>
    read_at (sint (rec_ByteOffset r)) (unat (rec_ByteLen r)) d \<noteq> None"
proof -
  have r: "0 \<le> sint (rec_ByteOffset r)" "0 < uint (rec_ByteLen r)" "rec_end r = sint (rec_ByteOffset r) + uint (rec_ByteLen r)"
    using assms(1,2) by (auto simp: forward_def list_all_iff)
  have sorted: "sorted_wrt (\<lambda>r s. same_track r s \<longrightarrow> rec_end r \<le> rec_end s) xs" using assms(1) by (simp add: forward_def)
  have up: "rec_end r \<le> last_end video e xs" by (rule last_end_upper [OF sorted assms(2,3)])
  obtain p q where xs: "xs = p @ r # q" using assms(2) by (auto dest: split_list)
  have "\<exists>s \<in> set xs. (rec_Track s = TrackVideo) = video \<and> last_end video e xs = rec_end s"
  proof -
    have "last_end video e xs = last_end video (rec_end r) q" using assms(3) by (simp add: xs last_end_def)
    with last_end_cases [of video "rec_end r" q] show ?thesis using assms(3) xs by auto
  qed
  then have le: "last_end video e xs \<le> int (length d)" using dur by auto
  have nn: "0 \<le> last_end video e xs" using up r by linarith
  have tr: "truncate_to (nat (last_end video e xs)) d = take (nat (last_end video e xs)) d"
    using le nn by (intro truncate_to_short) simp
  have "rec_end r \<le> int (nat (last_end video e xs))" "rec_end r \<le> int (length d)" using up nn le by linarith+
  then show ?thesis using r up le nn read_at_take [of "sint (rec_ByteOffset r)" "unat (rec_ByteLen r)" "nat (last_end video e xs)" d]
    by (simp add: tr)
qed

lemma rewrite_data:
  assumes "n \<le> length recs" and "64 + 40 * n \<le> m" and "n < 2 ^ 32"
  shows "rewriteRangesHeader hdr' (of_nat n) (take m (MarshalRangesHeader hdr @ concat (map MarshalFragRecord recs))) =
    MarshalRangesHeader (hdr'\<lparr>rh_RecordCount := of_nat n\<rparr>) @ concat (map MarshalFragRecord (take n recs))"
proof -
  let ?x = "MarshalRangesHeader hdr @ concat (map MarshalFragRecord recs)"
  have len: "length ?x = 64 + 40 * length recs" using frag.length_concat [of recs] by (simp add: format_consts)
  have "unat (of_nat n :: 32 word) = n" using assms(3) by (intro unat_of_nat_small) simp
  moreover have "truncate_to (64 + n * 40) (take m ?x) = truncate_to (64 + n * 40) ?x"
    using assms len by (simp add: truncate_to_def min_def)
  ultimately show ?thesis
    using truncate_records [OF assms(1), of hdr] by (simp add: rewriteRangesHeader_def format_consts write_at_head)
qed



end
