(* ===== verification/Blob_Catalog.thy ===== *)
theory Blob_Catalog
  imports Blob_Repair
begin

text \<open>
  The archive's catalog and its owner: \<^verbatim>\<open>internal/dvr/blob/catalog.go\<close>, \<^verbatim>\<open>retention.go\<close> and \<^verbatim>\<open>service.go\<close>.
  A catalog lists the recorded profiles with their hours and coverage windows; the lanes' summaries are
  folded into it, retention removes the oldest hours. The files of a stream are a function of profile id and
  hour key. Byte counts and Unix milliseconds are integers. The JSON codec and the recording repository
  are left out.
\<close>

subsection \<open>The catalog\<close>

definition CatalogFormat :: string where "CatalogFormat = ''cmaf-blob-v1''"

record MediaWindow =
  mw_FromMs :: int
  mw_ToMs :: int

record ProfileDesc =
  pd_ID :: string
  pd_BufferSlug :: string
  pd_Codec :: string
  pd_Width :: int
  pd_Height :: int
  pd_Bandwidth :: int
  pd_AudioCodec :: string
  pd_AudioTimescale :: int
  pd_AudioBandwidth :: int
  pd_Available :: "MediaWindow list"
  pd_Hours :: "HourRecord list"

record Gap =
  gap_FromMs :: int
  gap_ToMs :: int
  gap_Reason :: string

record RetentionCfg =
  rc_MaxAgeSec :: int
  rc_MaxSizeGB :: int
  rc_MaxAgeHours :: int

record Catalog =
  cat_StreamCode :: string
  cat_Format :: string
  cat_VideoTimescale :: "32 word"
  cat_OriginTicks :: u64
  cat_OriginUnixMs :: int
  cat_AudioProfile :: string
  cat_BestProfile :: string
  cat_Profiles :: "ProfileDesc list"
  cat_Gaps :: "Gap list"
  cat_Retention :: RetentionCfg

record CatalogSummary =
  sum_FromMs :: int
  sum_ToMs :: int
  sum_TotalSize :: int
  sum_Hours :: nat
  sum_Profiles :: nat
  sum_HasData :: bool

definition sum_window :: "MediaWindow \<Rightarrow> CatalogSummary \<Rightarrow> CatalogSummary" where
  "sum_window w s =
     (let s1 = (if \<not> sum_HasData s \<or> mw_FromMs w < sum_FromMs s then s\<lparr>sum_FromMs := mw_FromMs w\<rparr> else s);
          s2 = (if \<not> sum_HasData s1 \<or> mw_ToMs w > sum_ToMs s1 then s1\<lparr>sum_ToMs := mw_ToMs w\<rparr> else s1)
      in s2\<lparr>sum_HasData := True\<rparr>)"

definition sum_hour :: "HourRecord \<Rightarrow> CatalogSummary \<Rightarrow> CatalogSummary" where
  "sum_hour hr s = s\<lparr>sum_TotalSize := sum_TotalSize s + hr_SizeBytes hr, sum_Hours := sum_Hours s + 1\<rparr>"

definition Summary :: "Catalog \<Rightarrow> CatalogSummary" where
  "Summary c =
     fold (\<lambda>pd s. fold sum_hour (pd_Hours pd) (fold sum_window (pd_Available pd) s)) (cat_Profiles c)
       \<lparr>sum_FromMs = 0, sum_ToMs = 0, sum_TotalSize = 0, sum_Hours = 0, sum_Profiles = length (cat_Profiles c),
        sum_HasData = False\<rparr>"

definition cat_Profile :: "string \<Rightarrow> Catalog \<Rightarrow> ProfileDesc option" where
  "cat_Profile pid c = List.find (\<lambda>pd. pd_ID pd = pid) (cat_Profiles c)"

text \<open>A change made through the pointer that \<^verbatim>\<open>Profile\<close> returns: the first profile of that id.\<close>

fun upd_first :: "('a \<Rightarrow> bool) \<Rightarrow> ('a \<Rightarrow> 'a) \<Rightarrow> 'a list \<Rightarrow> 'a list" where
  "upd_first P f [] = []"
| "upd_first P f (x # xs) = (if P x then f x # xs else x # upd_first P f xs)"

definition WallToMediaTicks :: "int \<Rightarrow> Catalog \<Rightarrow> u64" where
  "WallToMediaTicks wallMs c =
     (if cat_VideoTimescale c = 0 then cat_OriginTicks c
      else
        let deltaMs = i64 (wallMs - cat_OriginUnixMs c);
            delta = go_div (i64 (deltaMs * uint (cat_VideoTimescale c))) 1000;
            t = i64 (sint (cat_OriginTicks c) + delta)
        in if t < 0 then 0 else word_of_int t)"

definition MediaTicksToWall :: "u64 \<Rightarrow> Catalog \<Rightarrow> int" where
  "MediaTicksToWall ticks c =
     (if cat_VideoTimescale c = 0 then cat_OriginUnixMs c
      else i64 (cat_OriginUnixMs c +
        go_div (i64 (i64 (sint ticks - sint (cat_OriginTicks c)) * 1000)) (uint (cat_VideoTimescale c))))"

subsection \<open>Folding hours in\<close>

text \<open>\<^verbatim>\<open>upsertHour\<close>, \<^verbatim>\<open>extendAvailable\<close> and the sink of a lane (\<^verbatim>\<open>hourSink\<close>, under the recording's mutex).\<close>

fun upsert :: "HourRecord \<Rightarrow> HourRecord list \<Rightarrow> HourRecord list" where
  "upsert hr [] = [hr]"
| "upsert hr (x # xs) = (if hr_Hour x = hr_Hour hr then hr # xs else x # upsert hr xs)"

definition upsertHour :: "HourRecord \<Rightarrow> ProfileDesc \<Rightarrow> ProfileDesc" where
  "upsertHour hr pd = pd\<lparr>pd_Hours := upsert hr (pd_Hours pd)\<rparr>"

definition extend_windows :: "HourRecord \<Rightarrow> MediaWindow list \<Rightarrow> MediaWindow list" where
  "extend_windows hr ws =
     (if 0 < length ws \<and> hr_WallFromMs hr \<le> mw_ToMs (last ws) + 1
      then (if hr_WallToMs hr > mw_ToMs (last ws) then butlast ws @ [(last ws)\<lparr>mw_ToMs := hr_WallToMs hr\<rparr>] else ws)
      else ws @ [\<lparr>mw_FromMs = hr_WallFromMs hr, mw_ToMs = hr_WallToMs hr\<rparr>])"

definition extendAvailable :: "HourRecord \<Rightarrow> ProfileDesc \<Rightarrow> ProfileDesc" where
  "extendAvailable hr pd = pd\<lparr>pd_Available := extend_windows hr (pd_Available pd)\<rparr>"

definition hourSink :: "string \<Rightarrow> HourRecord \<Rightarrow> Catalog \<Rightarrow> Catalog" where
  "hourSink pid hr c =
     c\<lparr>cat_Profiles := upd_first (\<lambda>pd. pd_ID pd = pid) (\<lambda>pd. extendAvailable hr (upsertHour hr pd)) (cat_Profiles c)\<rparr>"

subsection \<open>Retention\<close>

fun oldest_in :: "HourRecord list \<Rightarrow> (string \<times> int) option \<Rightarrow> (string \<times> int) option" where
  "oldest_in [] found = found"
| "oldest_in (hr # hrs) found =
     oldest_in hrs
       (if \<not> hr_Sealed hr then found
        else case found of
            None \<Rightarrow> Some (hr_Hour hr, hr_WallToMs hr)
          | Some (hour, w) \<Rightarrow> if hr_Hour hr < hour then Some (hr_Hour hr, hr_WallToMs hr) else found)"

definition oldestSealedHour :: "Catalog \<Rightarrow> (string \<times> int) option" where
  "oldestSealedHour c = fold (\<lambda>pd found. oldest_in (pd_Hours pd) found) (cat_Profiles c) None"

definition catalogTotalSize :: "Catalog \<Rightarrow> int" where
  "catalogTotalSize c = sum_list (map (\<lambda>pd. sum_list (map hr_SizeBytes (pd_Hours pd))) (cat_Profiles c))"

fun drop_hour :: "string \<Rightarrow> HourRecord list \<Rightarrow> HourRecord list" where
  "drop_hour hour [] = []"
| "drop_hour hour (hr # hrs) = (if hr_Hour hr = hour then hrs else hr # drop_hour hour hrs)"

definition has_hour :: "string \<Rightarrow> ProfileDesc \<Rightarrow> bool" where
  "has_hour hour pd \<longleftrightarrow> (\<exists>hr \<in> set (pd_Hours pd). hr_Hour hr = hour)"

definition deleteHourEverywhere :: "string \<Rightarrow> Catalog \<times> StreamDisk \<Rightarrow> Catalog \<times> StreamDisk" where
  "deleteHourEverywhere hour cd =
     (case cd of (c, d) \<Rightarrow>
        (c\<lparr>cat_Profiles := map (\<lambda>pd. pd\<lparr>pd_Hours := drop_hour hour (pd_Hours pd)\<rparr>) (cat_Profiles c)\<rparr>,
         \<lambda>pid h. if h = hour \<and> (\<exists>pd \<in> set (cat_Profiles c). pd_ID pd = pid \<and> has_hour hour pd) then no_files else d pid h))"

fun merge_hours :: "HourRecord list \<Rightarrow> MediaWindow list \<Rightarrow> MediaWindow list" where
  "merge_hours [] ws = ws"
| "merge_hours (hr # hrs) ws = merge_hours hrs (extend_windows hr ws)"

definition recomputeAllAvailable :: "Catalog \<Rightarrow> Catalog" where
  "recomputeAllAvailable c =
     c\<lparr>cat_Profiles := map (\<lambda>pd. pd\<lparr>pd_Available := merge_hours (pd_Hours pd) []\<rparr>) (cat_Profiles c)\<rparr>"

definition max_size :: "StreamDVRConfig \<Rightarrow> int" where
  "max_size cfg = (if dvr_MaxSizeGB cfg > 0 then \<lfloor>dvr_MaxSizeGB cfg * 1000000000\<rfloor> else 0)"

definition over_budget :: "StreamDVRConfig \<Rightarrow> gotime \<Rightarrow> int \<Rightarrow> Catalog \<Rightarrow> bool" where
  "over_budget cfg now wallToMs c \<longleftrightarrow>
     (let maxAge = seconds (dvr_RetentionSec cfg) in maxAge > 0 \<and> now - millis wallToMs > maxAge) \<or>
     max_size cfg > 0 \<and> catalogTotalSize c > max_size cfg"

lemma oldest_in_from:
  "oldest_in hrs found = Some (hour, w) \<Longrightarrow>
   found = Some (hour, w) \<or> (\<exists>hr \<in> set hrs. hr_Sealed hr \<and> hr_Hour hr = hour \<and> hr_WallToMs hr = w)"
  by (induction hrs found rule: oldest_in.induct) (auto split: if_splits option.splits)

lemma oldestSealedHour_from:
  assumes "oldestSealedHour c = Some (hour, w)"
  shows "\<exists>pd \<in> set (cat_Profiles c). \<exists>hr \<in> set (pd_Hours pd). hr_Sealed hr \<and> hr_Hour hr = hour \<and> hr_WallToMs hr = w"
proof -
  have "fold (\<lambda>pd found. oldest_in (pd_Hours pd) found) pds found = Some (hour, w) \<Longrightarrow>
    found = Some (hour, w) \<or> (\<exists>pd \<in> set pds. \<exists>hr \<in> set (pd_Hours pd). hr_Sealed hr \<and> hr_Hour hr = hour \<and> hr_WallToMs hr = w)" for pds found
    by (induction pds arbitrary: found) (auto dest!: oldest_in_from)
  from this [of "cat_Profiles c" None] assms show ?thesis by (simp add: oldestSealedHour_def)
qed

lemma oldest_in_least:
  "oldest_in hrs found = r \<Longrightarrow>
   (\<forall>hr \<in> set hrs. hr_Sealed hr \<longrightarrow> (\<exists>hour w. r = Some (hour, w) \<and> hour \<le> hr_Hour hr)) \<and>
   (\<forall>hour0 w0. found = Some (hour0, w0) \<longrightarrow> (\<exists>hour w. r = Some (hour, w) \<and> hour \<le> hour0))"
proof (induction hrs found rule: oldest_in.induct)
  case (2 hr hrs found)
  then show ?case by (cases "hr_Sealed hr"; cases found) (fastforce split: if_splits)+
qed simp

lemma oldestSealedHour_least:
  assumes "pd \<in> set (cat_Profiles c)" and "hr \<in> set (pd_Hours pd)" and "hr_Sealed hr"
  shows "\<exists>hour w. oldestSealedHour c = Some (hour, w) \<and> hour \<le> hr_Hour hr"
proof -
  have "(\<forall>pd \<in> set pds. \<forall>hr \<in> set (pd_Hours pd). hr_Sealed hr \<longrightarrow>
      (\<exists>hour w. fold (\<lambda>pd found. oldest_in (pd_Hours pd) found) pds found = Some (hour, w) \<and> hour \<le> hr_Hour hr)) \<and>
    (\<forall>hour0 w0. found = Some (hour0, w0) \<longrightarrow>
      (\<exists>hour w. fold (\<lambda>pd found. oldest_in (pd_Hours pd) found) pds found = Some (hour, w) \<and> hour \<le> hour0))" for pds found
  proof (induction pds arbitrary: found)
    case (Cons pd pds)
    note here = oldest_in_least [OF refl, of "pd_Hours pd" found]
    note rest = Cons [of "oldest_in (pd_Hours pd) found"]
    show ?case using here rest by (fastforce intro: order_trans)
  qed simp
  from this [of "cat_Profiles c" None] assms show ?thesis unfolding oldestSealedHour_def by blast
qed

definition hours_left :: "Catalog \<Rightarrow> nat" where
  "hours_left c = sum_list (map (\<lambda>pd. length (pd_Hours pd)) (cat_Profiles c))"

lemma drop_hour_length: "length (drop_hour hour hrs) \<le> length hrs"
  by (induction hrs) auto

lemma drop_hour_shorter: "\<exists>hr \<in> set hrs. hr_Hour hr = hour \<Longrightarrow> length (drop_hour hour hrs) < length hrs"
  by (induction hrs) auto

lemma delete_shrinks:
  assumes "pd \<in> set (cat_Profiles c)" and "has_hour hour pd"
  shows "hours_left (fst (deleteHourEverywhere hour (c, d))) < hours_left c"
proof -
  obtain ps qs where c: "cat_Profiles c = ps @ pd # qs" using assms(1) by (auto dest: split_list)
  have le: "sum_list (map (\<lambda>pd. length (drop_hour hour (pd_Hours pd))) xs) \<le> sum_list (map (\<lambda>pd. length (pd_Hours pd)) xs)" for xs
    by (intro sum_list_mono drop_hour_length)
  have "length (drop_hour hour (pd_Hours pd)) < length (pd_Hours pd)"
    using assms(2) by (intro drop_hour_shorter) (simp add: has_hour_def)
  then show ?thesis using le [of ps] le [of qs] by (simp add: hours_left_def deleteHourEverywhere_def c comp_def)
qed

function prune_loop :: "StreamDVRConfig \<Rightarrow> gotime \<Rightarrow> Catalog \<times> StreamDisk \<Rightarrow> bool \<Rightarrow> (Catalog \<times> StreamDisk) \<times> bool" where
  "prune_loop cfg now (c, d) changed =
     (case oldestSealedHour c of
        None \<Rightarrow> ((c, d), changed)
      | Some (hour, wallToMs) \<Rightarrow>
          if \<not> over_budget cfg now wallToMs c then ((c, d), changed)
          else prune_loop cfg now (deleteHourEverywhere hour (c, d)) True)"
  by pat_completeness auto
termination
proof (relation "measure (\<lambda>(cfg, now, cd, ch). hours_left (fst cd))", goal_cases)
  case (2 cfg now c d ch hw hour w)
  then have "oldestSealedHour c = Some (hour, w)" by simp
  from oldestSealedHour_from [OF this] obtain pd where "pd \<in> set (cat_Profiles c)" "has_hour hour pd"
    by (auto simp: has_hour_def)
  from delete_shrinks [OF this] show ?case by simp
qed simp

declare prune_loop.simps [simp del]

definition pruneOnce :: "StreamDVRConfig \<Rightarrow> gotime \<Rightarrow> Catalog \<times> StreamDisk \<Rightarrow> Catalog \<times> StreamDisk" where
  "pruneOnce cfg now cd =
     (case prune_loop cfg now cd False of ((c, d), changed) \<Rightarrow> if changed then (recomputeAllAvailable c, d) else (c, d))"

text \<open>The ticks of \<^verbatim>\<open>runRetention\<close>, which returns at once when nothing is limited.\<close>

definition retention_on :: "StreamDVRConfig option \<Rightarrow> bool" where
  "retention_on cfg = (case cfg of None \<Rightarrow> False | Some c \<Rightarrow> \<not> (dvr_RetentionSec c \<le> 0 \<and> dvr_MaxSizeGB c \<le> 0))"

definition retention_tick :: "StreamDVRConfig option \<Rightarrow> gotime \<Rightarrow> Catalog \<times> StreamDisk \<Rightarrow> Catalog \<times> StreamDisk" where
  "retention_tick cfg now cd = (case cfg of None \<Rightarrow> cd | Some c \<Rightarrow> if retention_on cfg then pruneOnce c now cd else cd)"

subsection \<open>Recordings\<close>

record ProfileSub =
  ps_ID :: string
  ps_Slug :: string
  ps_BufferID :: StreamCode
  ps_Width :: int
  ps_Height :: int
  ps_BitrateKbps :: int
  ps_IsAudioSource :: bool

definition new_desc :: "ProfileSub \<Rightarrow> ProfileDesc" where
  "new_desc p = \<lparr>pd_ID = ps_ID p, pd_BufferSlug = ps_Slug p, pd_Codec = '''', pd_Width = ps_Width p, pd_Height = ps_Height p,
     pd_Bandwidth = ps_BitrateKbps p * 1000, pd_AudioCodec = '''', pd_AudioTimescale = 0, pd_AudioBandwidth = 0,
     pd_Available = [], pd_Hours = []\<rparr>"

definition catalog_of :: "StreamCode \<Rightarrow> Catalog" where
  "catalog_of code = \<lparr>cat_StreamCode = code, cat_Format = CatalogFormat, cat_VideoTimescale = 90000, cat_OriginTicks = 0,
     cat_OriginUnixMs = 0, cat_AudioProfile = '''', cat_BestProfile = '''', cat_Profiles = [], cat_Gaps = [],
     cat_Retention = \<lparr>rc_MaxAgeSec = 0, rc_MaxSizeGB = 0, rc_MaxAgeHours = 0\<rparr>\<rparr>"

definition add_profile :: "ProfileSub \<Rightarrow> Catalog \<Rightarrow> Catalog" where
  "add_profile p c =
     (let c1 = c\<lparr>cat_Profiles := cat_Profiles c @ [new_desc p]\<rparr> in
      if ps_IsAudioSource p then c1\<lparr>cat_AudioProfile := ps_ID p, cat_BestProfile := ps_ID p\<rparr> else c1)"

text \<open>\<^verbatim>\<open>int(cfg.MaxSizeGB)\<close> truncates towards zero.\<close>

definition trunc :: "rat \<Rightarrow> int" where
  "trunc q = (if q < 0 then - \<lfloor>- q\<rfloor> else \<lfloor>q\<rfloor>)"

definition newCatalog :: "StreamCode \<Rightarrow> ProfileSub list \<Rightarrow> StreamDVRConfig option \<Rightarrow> Catalog" where
  "newCatalog code profiles cfg =
     (let c1 = fold add_profile profiles (catalog_of code);
          c2 = (if cat_BestProfile c1 = '''' \<and> 0 < length profiles then c1\<lparr>cat_BestProfile := ps_ID (last profiles)\<rparr> else c1)
      in case cfg of
           None \<Rightarrow> c2
         | Some g \<Rightarrow> c2\<lparr>cat_Retention := \<lparr>rc_MaxAgeSec = dvr_RetentionSec g, rc_MaxSizeGB = trunc (dvr_MaxSizeGB g), rc_MaxAgeHours = 0\<rparr>\<rparr>)"

definition prev_by_id :: "Catalog \<Rightarrow> string \<Rightarrow> ProfileDesc option" where
  "prev_by_id prev = map_of (map (\<lambda>pd. (pd_ID pd, pd)) (rev (cat_Profiles prev)))"

definition carry :: "Catalog \<Rightarrow> ProfileDesc \<Rightarrow> ProfileDesc" where
  "carry prev pd =
     (case prev_by_id prev (pd_ID pd) of
        Some p \<Rightarrow> pd\<lparr>pd_Hours := pd_Hours p, pd_Available := pd_Available p\<rparr>
      | None \<Rightarrow> pd)"

definition mergePriorCoverage :: "Catalog \<Rightarrow> Catalog \<Rightarrow> Catalog" where
  "mergePriorCoverage c prev =
     (let ids = map pd_ID (cat_Profiles c) in
      c\<lparr>cat_Profiles := map (carry prev) (cat_Profiles c) @ filter (\<lambda>pd. pd_ID pd \<notin> set ids) (cat_Profiles prev),
        cat_Gaps := cat_Gaps prev\<rparr>)"

definition segDurFromCfg :: "StreamDVRConfig option \<Rightarrow> duration" where
  "segDurFromCfg cfg =
     (case cfg of Some g \<Rightarrow> if 0 < dvr_SegmentDuration g then seconds (dvr_SegmentDuration g) else DefaultSegDur
      | None \<Rightarrow> DefaultSegDur)"

text \<open>A stream's directory: its files and the saved catalog. A service: the active recordings and all directories.\<close>

record DvrDir =
  dir_files :: StreamDisk
  dir_catalog :: "Catalog option"

record Recording =
  rg_streamDir :: string
  rg_cat :: Catalog
  rg_originSet :: bool

record BlobService =
  bs_active :: "(StreamCode \<times> Recording) list"
  bs_dirs :: "string \<Rightarrow> DvrDir"

datatype DvrError = NoProfiles | EscapesRoot string | RepairFailed RepairError | AlreadyRecording StreamCode

definition DefaultDVRRoot :: string where "DefaultDVRRoot = ''./out/dvr''"

definition IsRecording :: "StreamCode \<Rightarrow> BlobService \<Rightarrow> bool" where
  "IsRecording code s \<longleftrightarrow> gget (bs_active s) code \<noteq> None"

definition save_catalog :: "string \<Rightarrow> Catalog \<Rightarrow> BlobService \<Rightarrow> BlobService" where
  "save_catalog dir c s =
     s\<lparr>bs_dirs := (bs_dirs s)(dir := (bs_dirs s dir)\<lparr>dir_catalog := Some
         (if cat_Format c = '''' then c\<lparr>cat_Format := CatalogFormat\<rparr> else c)\<rparr>)\<rparr>"

text \<open>\<open>listing\<close> is the directory as the repair walks it.\<close>

definition StartRecording ::
  "StreamCode \<Rightarrow> ProfileSub list \<Rightarrow> StreamDVRConfig option \<Rightarrow> (string \<times> string list) list \<Rightarrow> BlobService \<Rightarrow> DvrError option \<times> BlobService" where
  "StartRecording code profiles cfg listing s =
     (if length profiles = 0 then (Some NoProfiles, s)
      else
        let dvrRoot = (case cfg of Some g \<Rightarrow> if dvr_StoragePath g \<noteq> '''' then dvr_StoragePath g else DefaultDVRRoot
                       | None \<Rightarrow> DefaultDVRRoot)
        in case ResolveStreamDir dvrRoot code of
             None \<Rightarrow> (Some (EscapesRoot code), s)
           | Some dir \<Rightarrow>
               case RepairStream listing (dir_files (bs_dirs s dir)) of (err, files) \<Rightarrow>
               let s1 = s\<lparr>bs_dirs := (bs_dirs s)(dir := (bs_dirs s dir)\<lparr>dir_files := files\<rparr>)\<rparr> in
               case err of
                 Some e \<Rightarrow> (Some (RepairFailed e), s1)
               | None \<Rightarrow>
                   let c0 = newCatalog code profiles cfg;
                       c = (case dir_catalog (bs_dirs s1 dir) of
                              Some prev \<Rightarrow> if cat_Format prev = CatalogFormat then mergePriorCoverage c0 prev else c0
                            | None \<Rightarrow> c0)
                   in if gget (bs_active s1) code \<noteq> None then (Some (AlreadyRecording code), s1)
                      else (None, save_catalog dir c
                        (s1\<lparr>bs_active := gput code \<lparr>rg_streamDir = dir, rg_cat = c, rg_originSet = False\<rparr> (bs_active s1)\<rparr>)))"

text \<open>What happens to an active recording: a lane's summary, the first origin, a retention pass. Each saves.\<close>

datatype RecEvent = RSink string HourRecord | ROrigin int | RPrune gotime

definition rec_event :: "StreamDVRConfig option \<Rightarrow> RecEvent \<Rightarrow> Recording \<times> StreamDisk \<Rightarrow> Recording \<times> StreamDisk" where
  "rec_event cfg ev rd =
     (case rd of (r, d) \<Rightarrow>
        case ev of
          RSink pid hr \<Rightarrow> (r\<lparr>rg_cat := hourSink pid hr (rg_cat r)\<rparr>, d)
        | ROrigin wallMs \<Rightarrow>
            (if rg_originSet r then (r, d)
             else (r\<lparr>rg_cat := (rg_cat r)\<lparr>cat_OriginUnixMs := wallMs, cat_OriginTicks := 0\<rparr>, rg_originSet := True\<rparr>, d))
        | RPrune now \<Rightarrow> (case retention_tick cfg now (rg_cat r, d) of (c, d') \<Rightarrow> (r\<lparr>rg_cat := c\<rparr>, d')))"

definition RecordingEvent :: "StreamDVRConfig option \<Rightarrow> StreamCode \<Rightarrow> RecEvent \<Rightarrow> BlobService \<Rightarrow> BlobService" where
  "RecordingEvent cfg code ev s =
     (case gget (bs_active s) code of
        None \<Rightarrow> s
      | Some r \<Rightarrow>
          let dir = rg_streamDir r in
          case rec_event cfg ev (r, dir_files (bs_dirs s dir)) of (r', d') \<Rightarrow>
            save_catalog dir (rg_cat r')
              (s\<lparr>bs_active := gput code r' (bs_active s), bs_dirs := (bs_dirs s)(dir := (bs_dirs s dir)\<lparr>dir_files := d'\<rparr>)\<rparr>))"

definition StopRecording :: "StreamCode \<Rightarrow> BlobService \<Rightarrow> BlobService" where
  "StopRecording code s =
     (case gget (bs_active s) code of
        None \<Rightarrow> s
      | Some r \<Rightarrow> save_catalog (rg_streamDir r) (rg_cat r) (s\<lparr>bs_active := gdel code (bs_active s)\<rparr>))"

subsection \<open>Retention: lemmas\<close>

definition cat_hours :: "Catalog \<Rightarrow> HourRecord set" where
  "cat_hours c = (\<Union>pd \<in> set (cat_Profiles c). set (pd_Hours pd))"

definition cat_wf :: "Catalog \<Rightarrow> bool" where
  "cat_wf c \<longleftrightarrow> distinct (map pd_ID (cat_Profiles c)) \<and> (\<forall>pd \<in> set (cat_Profiles c). distinct (map hr_Hour (pd_Hours pd)))"

text \<open>Whether a catalog lists an hour of a profile.\<close>

definition lists_hour :: "Catalog \<Rightarrow> string \<Rightarrow> string \<Rightarrow> bool" where
  "lists_hour c pid hour \<longleftrightarrow> (\<exists>pd \<in> set (cat_Profiles c). pd_ID pd = pid \<and> has_hour hour pd)"

lemma drop_hour_set: "set (drop_hour hour hrs) \<subseteq> set hrs"
  by (induction hrs) auto

lemma drop_hour_distinct: "distinct (map hr_Hour hrs) \<Longrightarrow> set (drop_hour hour hrs) = {hr \<in> set hrs. hr_Hour hr \<noteq> hour}"
proof (induction hrs)
  case (Cons a hrs)
  show ?case
  proof (cases "hr_Hour a = hour")
    case True
    then have "\<forall>hr \<in> set hrs. hr_Hour hr \<noteq> hour" using Cons.prems by (auto simp: image_iff)
    then show ?thesis using True by auto
  qed (use Cons in auto)
qed simp

lemma drop_hour_keys: "distinct (map hr_Hour hrs) \<Longrightarrow> distinct (map hr_Hour (drop_hour hour hrs))"
proof (induction hrs)
  case (Cons hr hrs)
  then show ?case using drop_hour_set [of hour hrs] by auto
qed simp

lemma delete_wf: "cat_wf c \<Longrightarrow> cat_wf (fst (deleteHourEverywhere hour (c, d)))"
  by (auto simp: cat_wf_def deleteHourEverywhere_def comp_def intro: drop_hour_keys)

lemma delete_hours: "cat_hours (fst (deleteHourEverywhere hour (c, d))) \<subseteq> cat_hours c"
  using drop_hour_set by (fastforce simp: cat_hours_def deleteHourEverywhere_def)

lemma delete_lists:
  assumes "cat_wf c"
  shows "lists_hour (fst (deleteHourEverywhere hour (c, d))) pid h \<longleftrightarrow> lists_hour c pid h \<and> h \<noteq> hour"
proof -
  have "has_hour h (pd\<lparr>pd_Hours := drop_hour hour (pd_Hours pd)\<rparr>) \<longleftrightarrow> has_hour h pd \<and> h \<noteq> hour" if "pd \<in> set (cat_Profiles c)" for pd
    using assms that by (auto simp: has_hour_def cat_wf_def drop_hour_distinct)
  then show ?thesis by (auto simp: lists_hour_def deleteHourEverywhere_def)
qed

lemma prune_loop_spec:
  assumes "prune_loop cfg now (c, d) ch = ((c', d'), ch')" and "cat_wf c"
  shows "(\<forall>hour w. oldestSealedHour c' = Some (hour, w) \<longrightarrow> \<not> over_budget cfg now w c') \<and>
    cat_wf c' \<and> cat_hours c' \<subseteq> cat_hours c \<and>
    (\<forall>pid h. lists_hour c' pid h \<longrightarrow> lists_hour c pid h \<and> d' pid h = d pid h) \<and>
    (\<forall>pid h hr. lists_hour c pid h \<longrightarrow> \<not> lists_hour c' pid h \<longrightarrow> hr \<in> cat_hours c' \<longrightarrow> hr_Sealed hr \<longrightarrow> h < hr_Hour hr)"
  using assms
proof (induction cfg now "(c, d)" ch arbitrary: c d rule: prune_loop.induct)
  case (1 cfg now c d ch)
  show ?case
  proof (cases "oldestSealedHour c")
    case None
    then show ?thesis using 1(2,3) by (subst (asm) prune_loop.simps) simp
  next
    case (Some hw)
    obtain hour w where hw: "hw = (hour, w)" by fastforce
    show ?thesis
    proof (cases "over_budget cfg now w c")
      case False
      then show ?thesis using 1(2,3) Some hw by (subst (asm) prune_loop.simps) simp
    next
      case True
      obtain c1 d1 where del: "deleteHourEverywhere hour (c, d) = (c1, d1)" by fastforce
      have loop: "prune_loop cfg now (c1, d1) True = ((c', d'), ch')"
        using 1(2) Some hw True del by (subst (asm) prune_loop.simps) simp
      have wf1: "cat_wf c1" using delete_wf [OF 1(3), of hour d] del by simp
      have sub: "cat_hours c1 \<subseteq> cat_hours c" using delete_hours [of hour c d] del by simp
      have lists: "lists_hour c1 pid h \<longleftrightarrow> lists_hour c pid h \<and> h \<noteq> hour" for pid h
        using delete_lists [OF 1(3), of hour d] del by simp
      have files: "h \<noteq> hour \<Longrightarrow> d1 pid h = d pid h" for pid h using del by (auto simp: deleteHourEverywhere_def)
      have nn: "\<not> \<not> over_budget cfg now w c" using True by simp
      note IH = 1(1) [OF Some hw [symmetric] nn del loop wf1]
      have newer: "hour < hr_Hour hr" if "hr \<in> cat_hours c'" "hr_Sealed hr" for hr
      proof -
        have hr1: "hr \<in> cat_hours c1" using that IH by blast
        then have "hr \<in> cat_hours c" using sub by blast
        then obtain pd where "pd \<in> set (cat_Profiles c)" "hr \<in> set (pd_Hours pd)" by (auto simp: cat_hours_def)
        from oldestSealedHour_least [OF this that(2)] have "hour \<le> hr_Hour hr" using Some hw by simp
        moreover from hr1 obtain pd1 where "pd1 \<in> set (cat_Profiles c1)" "hr \<in> set (pd_Hours pd1)" by (auto simp: cat_hours_def)
        then have "lists_hour c1 (pd_ID pd1) (hr_Hour hr)" by (auto simp: lists_hour_def has_hour_def)
        then have "hr_Hour hr \<noteq> hour" by (simp add: lists)
        ultimately show ?thesis by simp
      qed
      have "h < hr_Hour hr" if "lists_hour c pid h" "\<not> lists_hour c' pid h" "hr \<in> cat_hours c'" "hr_Sealed hr" for pid h hr
        using that newer IH lists by (cases "h = hour") blast+
      moreover have "lists_hour c pid h \<and> d' pid h = d pid h" if "lists_hour c' pid h" for pid h
        using IH lists files that by metis
      ultimately show ?thesis using IH sub by blast
    qed
  qed
qed

lemma recompute_same:
  "cat_hours (recomputeAllAvailable c) = cat_hours c" "lists_hour (recomputeAllAvailable c) = lists_hour c"
  "cat_wf (recomputeAllAvailable c) = cat_wf c" "oldestSealedHour (recomputeAllAvailable c) = oldestSealedHour c"
  "over_budget cfg now w (recomputeAllAvailable c) = over_budget cfg now w c"
  by (auto simp: cat_hours_def recomputeAllAvailable_def lists_hour_def has_hour_def cat_wf_def oldestSealedHour_def
      over_budget_def catalogTotalSize_def comp_def fold_map fun_eq_iff)

subsection \<open>Coverage: lemmas\<close>

definition covered :: "MediaWindow list \<Rightarrow> int \<Rightarrow> bool" where
  "covered ws t \<longleftrightarrow> (\<exists>w \<in> set ws. mw_FromMs w \<le> t \<and> t \<le> mw_ToMs w)"

definition in_hour :: "HourRecord \<Rightarrow> int \<Rightarrow> bool" where
  "in_hour hr t \<longleftrightarrow> hr_WallFromMs hr \<le> t \<and> t \<le> hr_WallToMs hr"

text \<open>Windows in order and more than a millisecond apart, none empty.\<close>

definition windows_ok :: "MediaWindow list \<Rightarrow> bool" where
  "windows_ok ws \<longleftrightarrow> sorted_wrt (\<lambda>v w. mw_ToMs v + 1 < mw_FromMs w) ws \<and> (\<forall>w \<in> set ws. mw_FromMs w \<le> mw_ToMs w)"

lemma extend_windows_spec:
  assumes "windows_ok ws" and "hr_WallFromMs hr \<le> hr_WallToMs hr"
    and "ws \<noteq> [] \<longrightarrow> mw_FromMs (last ws) \<le> hr_WallFromMs hr"
  shows "windows_ok (extend_windows hr ws) \<and> (\<forall>t. covered (extend_windows hr ws) t \<longleftrightarrow> covered ws t \<or> in_hour hr t) \<and>
    extend_windows hr ws \<noteq> [] \<and> mw_FromMs (last (extend_windows hr ws)) \<le> hr_WallFromMs hr"
proof (cases "ws = []")
  case True
  then show ?thesis using assms(2) by (auto simp: extend_windows_def windows_ok_def covered_def in_hour_def)
next
  case False
  then obtain vs w where ws: "ws = vs @ [w]" by (metis append_butlast_last_id)
  have ok: "windows_ok vs" "mw_FromMs w \<le> mw_ToMs w" "\<forall>v \<in> set vs. mw_ToMs v + 1 < mw_FromMs w"
    using assms(1) by (auto simp: ws windows_ok_def sorted_wrt_append)
  have from_w: "mw_FromMs w \<le> hr_WallFromMs hr" using assms(3) ws by simp
  show ?thesis
  proof (cases "hr_WallFromMs hr \<le> mw_ToMs w + 1")
    case merge: True
    show ?thesis
    proof (cases "hr_WallToMs hr > mw_ToMs w")
      case True
      have e: "extend_windows hr ws = vs @ [w\<lparr>mw_ToMs := hr_WallToMs hr\<rparr>]"
        using merge True by (simp add: extend_windows_def ws)
      show ?thesis unfolding e using ok from_w merge True
        by (auto simp: ws windows_ok_def sorted_wrt_append covered_def in_hour_def)
    next
      case False
      have e: "extend_windows hr ws = ws" using merge False by (simp add: extend_windows_def ws)
      show ?thesis unfolding e using assms(1) ok from_w merge False by (auto simp: ws covered_def in_hour_def)
    qed
  next
    case False
    have e: "extend_windows hr ws = ws @ [\<lparr>mw_FromMs = hr_WallFromMs hr, mw_ToMs = hr_WallToMs hr\<rparr>]"
      using False by (simp add: extend_windows_def ws)
    have "\<forall>v \<in> set ws. mw_ToMs v + 1 < hr_WallFromMs hr" using ok False from_w by (fastforce simp: ws)
    then show ?thesis unfolding e using assms(1,2) by (auto simp: windows_ok_def sorted_wrt_append covered_def in_hour_def)
  qed
qed

lemma merge_hours_spec:
  assumes "windows_ok ws" and "\<forall>hr \<in> set hrs. hr_WallFromMs hr \<le> hr_WallToMs hr"
    and "sorted (map hr_WallFromMs hrs)" and "ws \<noteq> [] \<longrightarrow> (\<forall>hr \<in> set hrs. mw_FromMs (last ws) \<le> hr_WallFromMs hr)"
  shows "windows_ok (merge_hours hrs ws) \<and> (\<forall>t. covered (merge_hours hrs ws) t \<longleftrightarrow> covered ws t \<or> (\<exists>hr \<in> set hrs. in_hour hr t))"
  using assms
proof (induction hrs arbitrary: ws)
  case (Cons hr hrs)
  have "windows_ok (extend_windows hr ws) \<and> (\<forall>t. covered (extend_windows hr ws) t \<longleftrightarrow> covered ws t \<or> in_hour hr t) \<and>
    extend_windows hr ws \<noteq> [] \<and> mw_FromMs (last (extend_windows hr ws)) \<le> hr_WallFromMs hr"
    using Cons.prems by (intro extend_windows_spec) auto
  moreover from this have "\<forall>h \<in> set hrs. mw_FromMs (last (extend_windows hr ws)) \<le> hr_WallFromMs h"
    using Cons.prems(3) by force
  ultimately show ?case using Cons.IH [of "extend_windows hr ws"] Cons.prems by auto
qed simp

subsection \<open>Properties\<close>

text \<open>
  C38: Retention meets its budget, oldest first. A pass leaves either no sealed hour or a catalog within the
  age and size limits; it keeps the catalog well-formed, adds no hour, removes only hours older than
  every sealed hour it keeps, and does not touch the files of an hour that is still listed.
\<close>

theorem pruneOnce_meets_the_budget:
  assumes "pruneOnce cfg now (c, d) = (c', d')" and "cat_wf c"
  shows "(\<forall>hour w. oldestSealedHour c' = Some (hour, w) \<longrightarrow> \<not> over_budget cfg now w c') \<and>
    cat_wf c' \<and> cat_hours c' \<subseteq> cat_hours c \<and>
    (\<forall>pid h. lists_hour c' pid h \<longrightarrow> lists_hour c pid h \<and> d' pid h = d pid h) \<and>
    (\<forall>pid h hr. lists_hour c pid h \<longrightarrow> \<not> lists_hour c' pid h \<longrightarrow> hr \<in> cat_hours c' \<longrightarrow> hr_Sealed hr \<longrightarrow> h < hr_Hour hr)"
proof -
  obtain c1 d1 ch where loop: "prune_loop cfg now (c, d) False = ((c1, d1), ch)" by (metis surj_pair)
  note spec = prune_loop_spec [OF loop assms(2)]
  have r: "c' = (if ch then recomputeAllAvailable c1 else c1)" "d' = d1"
    using assms(1) loop by (auto simp: pruneOnce_def split: if_splits)
  show ?thesis
  proof (cases ch)
    case True
    then have c': "c' = recomputeAllAvailable c1" using r by simp
    show ?thesis unfolding c' r(2) recompute_same by (rule spec)
  qed (use r spec in simp)
qed

definition hour_of :: "string \<Rightarrow> bool \<Rightarrow> HourRecord" where
  "hour_of key sealed = hour_record0\<lparr>hr_Hour := key, hr_Sealed := sealed, hr_WallToMs := 0\<rparr>"

definition desc_of :: "string \<Rightarrow> HourRecord list \<Rightarrow> ProfileDesc" where
  "desc_of pid hrs = (new_desc \<lparr>ps_ID = pid, ps_Slug = pid, ps_BufferID = pid, ps_Width = 0, ps_Height = 0, ps_BitrateKbps = 0,
     ps_IsAudioSource = False\<rparr>)\<lparr>pd_Hours := hrs\<rparr>"

text \<open>Two profiles; the lane of the second is late and still writes the hour that the first has sealed.\<close>

definition two_lanes :: Catalog where
  "two_lanes = (catalog_of ''s'')\<lparr>cat_Profiles := [desc_of ''p0'' [hour_of ''2026/03/01/14'' True],
     desc_of ''p1'' [hour_of ''2026/03/01/14'' False]]\<rparr>"

definition one_hour_cfg :: StreamDVRConfig where
  "one_hour_cfg = \<lparr>dvr_Enabled = True, dvr_RetentionSec = 3600, dvr_SegmentDuration = 0, dvr_StoragePath = '''',
     dvr_MaxSizeGB = 0, dvr_Profiles = ''''\<rparr>"

definition late :: gotime where "late = seconds 3601"

definition open_files :: StreamDisk where
  "open_files = (\<lambda>pid h. no_files\<lparr>hf_v := Some [1], hf_open := True\<rparr>)"

lemma two_lanes_oldest: "oldestSealedHour two_lanes = Some (''2026/03/01/14'', 0)"
  by (simp add: oldestSealedHour_def two_lanes_def desc_of_def new_desc_def hour_of_def hour_record0_def)

lemma two_lanes_pruned:
  "pruneOnce one_hour_cfg late (two_lanes, open_files) =
     (two_lanes\<lparr>cat_Profiles := [desc_of ''p0'' [], desc_of ''p1'' []]\<rparr>,
      \<lambda>pid h. if h = ''2026/03/01/14'' \<and> (pid = ''p0'' \<or> pid = ''p1'') then no_files else open_files pid h)"
proof -
  let ?c = "two_lanes\<lparr>cat_Profiles := [desc_of ''p0'' [], desc_of ''p1'' []]\<rparr>"
  let ?d = "\<lambda>pid h. if h = ''2026/03/01/14'' \<and> (pid = ''p0'' \<or> pid = ''p1'') then no_files else open_files pid h"
  have del: "deleteHourEverywhere ''2026/03/01/14'' (two_lanes, open_files) = (?c, ?d)"
    by (auto simp: deleteHourEverywhere_def two_lanes_def desc_of_def new_desc_def hour_of_def has_hour_def fun_eq_iff)
  have over: "over_budget one_hour_cfg late 0 two_lanes"
    by (simp add: over_budget_def one_hour_cfg_def late_def)
  have "oldestSealedHour ?c = None" by (simp add: oldestSealedHour_def desc_of_def)
  then have fin: "prune_loop one_hour_cfg late (?c, ?d) True = ((?c, ?d), True)"
    by (subst prune_loop.simps) simp
  have "prune_loop one_hour_cfg late (two_lanes, open_files) False = ((?c, ?d), True)"
    by (subst prune_loop.simps) (simp add: two_lanes_oldest over del fin)
  moreover have "recomputeAllAvailable ?c = ?c"
    by (simp add: recomputeAllAvailable_def desc_of_def new_desc_def)
  ultimately show ?thesis by (simp add: pruneOnce_def)
qed

theorem pruneOnce_meets_the_budget_witness:
  "oldestSealedHour (fst (pruneOnce one_hour_cfg late (two_lanes, open_files))) = None \<and>
   cat_wf (fst (pruneOnce one_hour_cfg late (two_lanes, open_files)))"
proof -
  have wf: "cat_wf two_lanes" by (simp add: cat_wf_def two_lanes_def desc_of_def new_desc_def)
  have "cat_wf (two_lanes\<lparr>cat_Profiles := [desc_of ''p0'' [], desc_of ''p1'' []]\<rparr>)"
    using pruneOnce_meets_the_budget [OF two_lanes_pruned wf] by blast
  moreover have "oldestSealedHour (two_lanes\<lparr>cat_Profiles := [desc_of ''p0'' [], desc_of ''p1'' []]\<rparr>) = None"
    by (simp add: oldestSealedHour_def desc_of_def)
  ultimately show ?thesis unfolding two_lanes_pruned by simp
qed

text \<open>
  Retention deletes an hour that is still being written. The pass picks its hour among the sealed ones,
  but deletes it in every profile: the late lane's files are gone, the \<^verbatim>\<open>.open\<close> marker too, although its own
  hour was never sealed.
\<close>

theorem retention_deletes_an_open_hour:
  "hf_open (open_files ''p1'' ''2026/03/01/14'') \<and> \<not> hr_Sealed (hour_of ''2026/03/01/14'' False) \<and>
   hour_of ''2026/03/01/14'' False \<in> set (pd_Hours (the (cat_Profile ''p1'' two_lanes))) \<and>
   snd (pruneOnce one_hour_cfg late (two_lanes, open_files)) ''p1'' ''2026/03/01/14'' = no_files"
  unfolding two_lanes_pruned
  by (simp add: open_files_def hour_of_def two_lanes_def cat_Profile_def desc_of_def new_desc_def)

text \<open>
  Coverage windows are exact. For hours in the order of their start, the windows rebuilt after a deletion
  cover exactly the milliseconds that some remaining hour covers; they are in order and more than a
  millisecond apart.
\<close>

theorem recomputed_windows_cover_the_hours:
  assumes "pd \<in> set (cat_Profiles c)" and "sorted (map hr_WallFromMs (pd_Hours pd))"
    and "\<forall>hr \<in> set (pd_Hours pd). hr_WallFromMs hr \<le> hr_WallToMs hr"
  shows "\<exists>pd' \<in> set (cat_Profiles (recomputeAllAvailable c)). pd_ID pd' = pd_ID pd \<and> pd_Hours pd' = pd_Hours pd \<and>
    windows_ok (pd_Available pd') \<and> (\<forall>t. covered (pd_Available pd') t \<longleftrightarrow> (\<exists>hr \<in> set (pd_Hours pd). in_hour hr t))"
proof -
  have "windows_ok []" "\<not> covered [] t" for t by (simp_all add: windows_ok_def covered_def)
  with merge_hours_spec [of "[]" "pd_Hours pd"] assms show ?thesis
    by (intro bexI [of _ "pd\<lparr>pd_Available := merge_hours (pd_Hours pd) []\<rparr>"]) (auto simp: recomputeAllAvailable_def)
qed

theorem recomputed_windows_cover_the_hours_witness:
  "\<exists>pd' \<in> set (cat_Profiles (recomputeAllAvailable two_lanes)). pd_ID pd' = ''p0'' \<and> covered (pd_Available pd') 0"
proof -
  have m: "desc_of ''p0'' [hour_of ''2026/03/01/14'' True] \<in> set (cat_Profiles two_lanes)" by (simp add: two_lanes_def)
  have "\<forall>hr \<in> set (pd_Hours (desc_of ''p0'' [hour_of ''2026/03/01/14'' True])). hr_WallFromMs hr \<le> hr_WallToMs hr"
    "sorted (map hr_WallFromMs (pd_Hours (desc_of ''p0'' [hour_of ''2026/03/01/14'' True])))"
    "\<exists>hr \<in> set (pd_Hours (desc_of ''p0'' [hour_of ''2026/03/01/14'' True])). in_hour hr 0"
    "pd_ID (desc_of ''p0'' [hour_of ''2026/03/01/14'' True]) = ''p0''"
    by (simp_all add: desc_of_def new_desc_def hour_of_def hour_record0_def in_hour_def)
  with recomputed_windows_cover_the_hours [OF m] show ?thesis by auto
qed

lemma prev_by_id_found:
  assumes "distinct (map pd_ID (cat_Profiles prev))" and "pd \<in> set (cat_Profiles prev)"
  shows "prev_by_id prev (pd_ID pd) = Some pd"
  using assms by (auto simp: prev_by_id_def rev_map [symmetric] comp_def intro!: map_of_is_SomeI)

lemma merge_keeps:
  assumes "distinct (map pd_ID (cat_Profiles prev))" and "pd \<in> set (cat_Profiles prev)"
  shows "\<exists>pd' \<in> set (cat_Profiles (mergePriorCoverage c prev)). pd_ID pd' = pd_ID pd \<and> pd_Hours pd' = pd_Hours pd \<and>
    pd_Available pd' = pd_Available pd"
proof (cases "pd_ID pd \<in> set (map pd_ID (cat_Profiles c))")
  case True
  then obtain q where q: "q \<in> set (cat_Profiles c)" "pd_ID q = pd_ID pd" by auto
  with prev_by_id_found [OF assms] have "pd_ID (carry prev q) = pd_ID pd \<and> pd_Hours (carry prev q) = pd_Hours pd \<and>
      pd_Available (carry prev q) = pd_Available pd"
    by (simp add: carry_def)
  with q(1) show ?thesis by (auto simp: mergePriorCoverage_def Let_def)
next
  case False
  then show ?thesis using assms(2) by (auto simp: mergePriorCoverage_def Let_def)
qed

text \<open>
  C39: A restart forgets no hour. When a recording starts over an archive of an earlier run, every profile of the
  old catalog is in the new one, saved with all its hours and windows, also a profile that the new
  configuration no longer records; so retention goes on counting and pruning them.
\<close>

theorem restart_keeps_every_hour:
  assumes "StartRecording code profiles cfg listing s = (None, s')" and "gget (bs_active s') code = Some r"
    and "dir_catalog (bs_dirs s (rg_streamDir r)) = Some prev" and "cat_Format prev = CatalogFormat"
    and "distinct (map pd_ID (cat_Profiles prev))" and "pd \<in> set (cat_Profiles prev)"
  shows "\<exists>c pd'. dir_catalog (bs_dirs s' (rg_streamDir r)) = Some c \<and> pd' \<in> set (cat_Profiles c) \<and> pd_ID pd' = pd_ID pd \<and>
    pd_Hours pd' = pd_Hours pd \<and> pd_Available pd' = pd_Available pd"
proof -
  from assms(1,2) obtain c0 where c: "dir_catalog (bs_dirs s' (rg_streamDir r)) = Some c0"
    "c0 = (case dir_catalog (bs_dirs s (rg_streamDir r)) of
        Some prev \<Rightarrow> if cat_Format prev = CatalogFormat then mergePriorCoverage (newCatalog code profiles cfg) prev
          else newCatalog code profiles cfg
      | None \<Rightarrow> newCatalog code profiles cfg) \<or>
     cat_Profiles c0 = cat_Profiles (case dir_catalog (bs_dirs s (rg_streamDir r)) of
        Some prev \<Rightarrow> if cat_Format prev = CatalogFormat then mergePriorCoverage (newCatalog code profiles cfg) prev
          else newCatalog code profiles cfg
      | None \<Rightarrow> newCatalog code profiles cfg)"
    by (auto simp: StartRecording_def Let_def save_catalog_def map_simps split: if_splits option.splits prod.splits)
  then have "cat_Profiles c0 = cat_Profiles (mergePriorCoverage (newCatalog code profiles cfg) prev)"
    using assms(3,4) by auto
  with merge_keeps [OF assms(5,6), of "newCatalog code profiles cfg"] c(1) show ?thesis by auto
qed

definition lane0 :: ProfileSub where
  "lane0 = \<lparr>ps_ID = ''p0'', ps_Slug = '''', ps_BufferID = ''s'', ps_Width = 0, ps_Height = 0, ps_BitrateKbps = 0, ps_IsAudioSource = True\<rparr>"

definition archive_dir :: DvrDir where
  "archive_dir = \<lparr>dir_files = (\<lambda>pid h. no_files\<lparr>hf_open := (pid = ''p0'')\<rparr>), dir_catalog = Some two_lanes\<rparr>"

definition blob0 :: BlobService where
  "blob0 = \<lparr>bs_active = [], bs_dirs = (\<lambda>_. archive_dir)\<rparr>"

lemma dir_s: "ResolveStreamDir DefaultDVRRoot ''s'' = Some ''out/dvr/s''"
  by code_simp

lemma start_blob0:
  "\<exists>s' r. StartRecording ''s'' [lane0] None [] blob0 = (None, s') \<and> gget (bs_active s') ''s'' = Some r \<and> rg_streamDir r = ''out/dvr/s''"
  by (simp add: StartRecording_def dir_s blob0_def save_catalog_def Let_def)

theorem restart_keeps_every_hour_witness:
  "\<exists>s' c pd'. StartRecording ''s'' [lane0] None [] blob0 = (None, s') \<and> dir_catalog (bs_dirs s' ''out/dvr/s'') = Some c \<and>
     pd' \<in> set (cat_Profiles c) \<and> pd_ID pd' = ''p1'' \<and> pd_Hours pd' = [hour_of ''2026/03/01/14'' False]"
proof -
  obtain s' r where s: "StartRecording ''s'' [lane0] None [] blob0 = (None, s')" "gget (bs_active s') ''s'' = Some r"
    "rg_streamDir r = ''out/dvr/s''" using start_blob0 by blast
  have p: "dir_catalog (bs_dirs blob0 (rg_streamDir r)) = Some two_lanes" by (simp add: blob0_def archive_dir_def)
  have f: "cat_Format two_lanes = CatalogFormat" "distinct (map pd_ID (cat_Profiles two_lanes))"
    "desc_of ''p1'' [hour_of ''2026/03/01/14'' False] \<in> set (cat_Profiles two_lanes)"
    by (simp_all add: two_lanes_def catalog_of_def desc_of_def new_desc_def)
  from restart_keeps_every_hour [OF s(1,2) p f] s show ?thesis by (auto simp: desc_of_def new_desc_def)
qed

text \<open>
  Starting a stream that is already recording fails, but only after the repair has run over its directory:
  the open hour of the running lanes is treated as crashed. The error leaves the active recordings and the
  catalog alone.
\<close>

theorem refused_start_repairs_the_open_hour:
  assumes "gget (bs_active s) code = Some r" and "profiles \<noteq> []" and "ResolveStreamDir DefaultDVRRoot code = Some dir"
    and "RepairStream listing (dir_files (bs_dirs s dir)) = (None, files)"
  shows "StartRecording code profiles None listing s =
    (Some (AlreadyRecording code), s\<lparr>bs_dirs := (bs_dirs s)(dir := (bs_dirs s dir)\<lparr>dir_files := files\<rparr>)\<rparr>)"
  using assms by (simp add: StartRecording_def Let_def)

theorem refused_start_repairs_the_open_hour_witness:
  "hf_open (dir_files archive_dir ''p0'' ''h'') \<and>
   (case StartRecording ''s'' [lane0] None [(''p0'', [''h''])] (snd (StartRecording ''s'' [lane0] None [] blob0)) of
      (err, s) \<Rightarrow> err = Some (AlreadyRecording ''s'') \<and> \<not> hf_open (dir_files (bs_dirs s ''out/dvr/s'') ''p0'' ''h''))"
proof -
  obtain s r where s: "StartRecording ''s'' [lane0] None [] blob0 = (None, s)" "gget (bs_active s) ''s'' = Some r"
    using start_blob0 by blast
  have files: "dir_files (bs_dirs s ''out/dvr/s'') = dir_files archive_dir"
    using s(1) by (auto simp: StartRecording_def dir_s blob0_def save_catalog_def Let_def)
  define d where "d = dir_files archive_dir"
  have rep: "RepairStream [(''p0'', [''h''])] (dir_files (bs_dirs s ''out/dvr/s'')) =
      (None, d(''p0'' := (d ''p0'')(''h'' := (d ''p0'' ''h'')\<lparr>hf_open := False\<rparr>)))"
    unfolding files d_def [symmetric]
    by (simp add: isProfileDir_def is_digit_def repairHour_def d_def archive_dir_def no_files_def)
  from refused_start_repairs_the_open_hour [OF s(2) _ dir_s rep, of "[lane0]"] s(1) show ?thesis
    by (simp add: archive_dir_def)
qed

end
