(* ===== verification/Blob_Reader.thy ===== *)
theory Blob_Reader
  imports Blob_Catalog
begin

text \<open>
  Timeshift from the archive: \<^verbatim>\<open>internal/dvr/blob/reader.go\<close>, the playlists of \<^verbatim>\<open>hls.go\<close>, the static
  manifest of \<^verbatim>\<open>dash.go\<close> and the routes of \<^verbatim>\<open>internal/api/handler/blob_timeshift.go\<close> that serve them. A reader is
  a catalog and the files of the stream, which do not change during a request. A playlist is the list of its
  lines; the quotients of an \<^verbatim>\<open>EXTINF\<close> are exact here, the code's are the nearest doubles.
\<close>

subsection \<open>Windows\<close>

definition MaxTimeshiftWindow :: duration where "MaxTimeshiftWindow = seconds (24 * 3600)"

definition resolveWindowBounds :: "int \<Rightarrow> bool \<Rightarrow> int \<Rightarrow> int \<Rightarrow> int \<Rightarrow> int \<times> int" where
  "resolveWindowBounds earliestMs hasEarliest fromMs durMs maxMs =
     (let f = (if hasEarliest \<and> fromMs < earliestMs then earliestMs else fromMs);
          d = (if durMs \<le> 0 \<or> durMs > maxMs then maxMs else durMs) in (f, f + d))"

definition earliestHourMs :: "ProfileDesc \<Rightarrow> int \<times> bool" where
  "earliestHourMs pd =
     (case pd_Hours pd of
        [] \<Rightarrow> (0, False)
      | h # hs \<Rightarrow> (fold (\<lambda>hr e. if hr_WallFromMs hr < e then hr_WallFromMs hr else e) hs (hr_WallFromMs h), True))"

record FragmentRef =
  ref_Track :: byte
  ref_HourStem :: "string \<times> string"
  ref_HourCompact :: string
  ref_SeqInHour :: int
  ref_ByteOffset :: int
  ref_ByteLen :: nat
  ref_MediaTicks :: u64
  ref_DurTicks :: u64
  ref_WallTimeMs :: int
  ref_Keyframe :: bool
  ref_Discontinuity :: bool

record Window =
  win_Profile :: string
  win_Video :: "FragmentRef list"
  win_Audio :: "FragmentRef list"
  win_VideoTimescale :: "32 word"
  win_AudioTimescale :: "32 word"
  win_PDT0 :: "int option"

record Reader =
  rdr_cat :: Catalog
  rdr_disk :: StreamDisk

datatype ReadError = UnknownProfile string | Cancelled | IndexError RangesError

text \<open>One record of an hour, with its number in the track, and the records of an hour by track.\<close>

definition mk_ref :: "string \<times> string \<Rightarrow> FragRecord \<Rightarrow> int \<Rightarrow> FragmentRef" where
  "mk_ref stem r seq =
     \<lparr>ref_Track = rec_Track r, ref_HourStem = stem, ref_HourCompact = hour_compact (snd stem), ref_SeqInHour = seq,
      ref_ByteOffset = sint (rec_ByteOffset r), ref_ByteLen = unat (rec_ByteLen r), ref_MediaTicks = rec_MediaTicks r,
      ref_DurTicks = ucast (rec_DurTicks r), ref_WallTimeMs = sint (rec_WallTimeMs r), ref_Keyframe = rec_Keyframe r,
      ref_Discontinuity = rec_Discontinuity r\<rparr>"

fun hour_refs :: "string \<times> string \<Rightarrow> FragRecord list \<Rightarrow> int \<Rightarrow> int \<Rightarrow> FragmentRef list \<times> FragmentRef list" where
  "hour_refs stem [] vSeq aSeq = ([], [])"
| "hour_refs stem (r # rs) vSeq aSeq =
     (if rec_Track r = TrackVideo
      then (case hour_refs stem rs (vSeq + 1) aSeq of (vs, as) \<Rightarrow> (mk_ref stem r vSeq # vs, as))
      else (case hour_refs stem rs vSeq (aSeq + 1) of (vs, as) \<Rightarrow> (vs, mk_ref stem r aSeq # as)))"

text \<open>
  The scan of the hours. \<open>ctx i\<close>: the request is cancelled when hour \<open>i\<close> is looked at. The accumulator holds
  the fragments and timescales found.
\<close>

record Scan =
  sc_V :: "FragmentRef list"
  sc_A :: "FragmentRef list"
  sc_vTS :: "32 word"
  sc_aTS :: "32 word"

fun scan_hours :: "(nat \<Rightarrow> bool) \<Rightarrow> StreamDisk \<Rightarrow> string \<Rightarrow> int \<Rightarrow> int \<Rightarrow> nat \<Rightarrow> HourRecord list \<Rightarrow> Scan \<Rightarrow> ReadError + Scan" where
  "scan_hours ctx disk pid fromMs endMs i [] s = Inr s"
| "scan_hours ctx disk pid fromMs endMs i (hr # hrs) s =
     (if ctx i then Inl Cancelled
      else if hr_WallToMs hr < fromMs \<or> hr_WallFromMs hr > endMs then scan_hours ctx disk pid fromMs endMs (i + 1) hrs s
      else
        let f = disk pid (hr_Hour hr) in
        case ReadRanges (hf_ranges f) (hourBlobSize f) of
          Inl e \<Rightarrow> Inl (IndexError e)
        | Inr (hdr, recs) \<Rightarrow>
            case hour_refs (pid, hr_Hour hr) recs 0 0 of (vs, as) \<Rightarrow>
              scan_hours ctx disk pid fromMs endMs (i + 1) hrs
                \<lparr>sc_V = sc_V s @ vs, sc_A = sc_A s @ as,
                 sc_vTS = (if rh_VideoTimescale hdr \<noteq> 0 then rh_VideoTimescale hdr else sc_vTS s),
                 sc_aTS = (if rh_AudioTimescale hdr \<noteq> 0 then rh_AudioTimescale hdr else sc_aTS s)\<rparr>)"

fun snap_start :: "FragmentRef list \<Rightarrow> u64 \<Rightarrow> nat \<Rightarrow> nat \<Rightarrow> nat" where
  "snap_start [] fromTicks i start = start"
| "snap_start (r # rs) fromTicks i start =
     (if ref_MediaTicks r > fromTicks then start
      else snap_start rs fromTicks (i + 1) (if ref_Keyframe r then i else start))"

definition snapVideo :: "FragmentRef list \<Rightarrow> u64 \<Rightarrow> u64 \<Rightarrow> FragmentRef list" where
  "snapVideo refs fromTicks endTicks =
     takeWhile (\<lambda>r. \<not> endTicks \<le> ref_MediaTicks r) (drop (snap_start refs fromTicks 0 0) refs)"

definition pairAudio :: "FragmentRef list \<Rightarrow> u64 \<Rightarrow> u64 \<Rightarrow> 32 word \<Rightarrow> 32 word \<Rightarrow> FragmentRef list" where
  "pairAudio refs startTicksV endTicksV vTS aTS =
     (if aTS = 0 \<or> vTS = 0 then []
      else
        let startA = startTicksV * ucast aTS div ucast vTS;
            endA = (if endTicksV < 2 ^ 62 then endTicksV * ucast aTS div ucast vTS else 2 ^ 63 - 1)
        in filter (\<lambda>r. \<not> (ref_MediaTicks r + ref_DurTicks r \<le> startA \<or> endA \<le> ref_MediaTicks r)) refs)"

definition Query :: "(nat \<Rightarrow> bool) \<Rightarrow> Reader \<Rightarrow> string \<Rightarrow> gotime \<Rightarrow> duration \<Rightarrow> ReadError + Window" where
  "Query ctx br pid from dur =
     (case cat_Profile pid (rdr_cat br) of
        None \<Rightarrow> Inl (UnknownProfile pid)
      | Some pd \<Rightarrow>
          case earliestHourMs pd of (earliest, hasEarliest) \<Rightarrow>
          case resolveWindowBounds earliest hasEarliest (from div millis 1) (go_div dur (millis 1))
                 (go_div MaxTimeshiftWindow (millis 1)) of (fromMs, endMs) \<Rightarrow>
          case scan_hours ctx (rdr_disk br) pid fromMs endMs 0 (pd_Hours pd) \<lparr>sc_V = [], sc_A = [], sc_vTS = 0, sc_aTS = 0\<rparr> of
            Inl e \<Rightarrow> Inl e
          | Inr s \<Rightarrow>
              let fromTicks = WallToMediaTicks fromMs (rdr_cat br);
                  endTicks = WallToMediaTicks endMs (rdr_cat br);
                  v = snapVideo (sc_V s) fromTicks endTicks
              in Inr \<lparr>win_Profile = pid, win_Video = v,
                   win_Audio = (case v of [] \<Rightarrow> []
                     | r # _ \<Rightarrow> pairAudio (sc_A s) (ref_MediaTicks r) endTicks (sc_vTS s) (sc_aTS s)),
                   win_VideoTimescale = sc_vTS s, win_AudioTimescale = sc_aTS s,
                   win_PDT0 = (case v of [] \<Rightarrow> None | r # _ \<Rightarrow> Some (ref_WallTimeMs r))\<rparr>)"

subsection \<open>Fetching\<close>

definition rdr_ReadFragment :: "Reader \<Rightarrow> FragmentRef \<Rightarrow> byte list option" where
  "rdr_ReadFragment br ref =
     (case openBlobFile (track_file (ref_Track ref) (rdr_disk br (fst (ref_HourStem ref)) (snd (ref_HourStem ref)))) of
        None \<Rightarrow> None
      | Some bf \<Rightarrow> bf_ReadSlice (ref_ByteOffset ref) (ref_ByteLen ref) bf)"

definition rdr_FragmentByHour :: "Reader \<Rightarrow> string \<Rightarrow> string \<Rightarrow> byte \<Rightarrow> int \<Rightarrow> byte list option" where
  "rdr_FragmentByHour br pid hourCompact track seq =
     (case hourStemFromCompact hourCompact of
        None \<Rightarrow> None
      | Some rel \<Rightarrow> FragmentByHour (rdr_disk br pid rel) track seq)"

fun newest_audio_ts :: "StreamDisk \<Rightarrow> string \<Rightarrow> HourRecord list \<Rightarrow> 32 word" where
  "newest_audio_ts disk pid [] = 0"
| "newest_audio_ts disk pid (hr # hrs) =
     (let f = disk pid (hr_Hour hr) in
      case ReadRanges (hf_ranges f) (hourBlobSize f) of
        Inr (hdr, _) \<Rightarrow> if rh_AudioTimescale hdr \<noteq> 0 then rh_AudioTimescale hdr else newest_audio_ts disk pid hrs
      | Inl _ \<Rightarrow> newest_audio_ts disk pid hrs)"

definition audioTicksScale :: "Reader \<Rightarrow> ProfileDesc \<Rightarrow> 32 word" where
  "audioTicksScale br pd =
     (if pd_AudioTimescale pd > 0 then word_of_int (pd_AudioTimescale pd)
      else newest_audio_ts (rdr_disk br) (pd_ID pd) (rev (pd_Hours pd)))"

text \<open>The first hour that ends at or after a tick, the last one if there is none, counted from \<open>i\<close>.\<close>

fun first_reaching :: "u64 \<Rightarrow> HourRecord list \<Rightarrow> int \<Rightarrow> int option" where
  "first_reaching v [] i = None"
| "first_reaching v (hr # hrs) i = (if v \<le> hr_MediaToV hr then Some i else first_reaching v hrs (i + 1))"

definition candidateHours :: "Reader \<Rightarrow> ProfileDesc \<Rightarrow> byte \<Rightarrow> u64 \<Rightarrow> HourRecord list" where
  "candidateHours br pd track ticks =
     (let hours = sort_key hr_Hour (pd_Hours pd) in
      if track = TrackVideo then
        let out = filter (\<lambda>hr. hr_MediaFromV hr \<le> ticks \<and> ticks \<le> hr_MediaToV hr) hours
        in if length out > 0 then out else hours
      else
        let aTS = audioTicksScale br pd in
        if aTS = 0 \<or> length hours = 0 then hours
        else
          let vEquiv = ticks * videoTimescale div ucast aTS;
              idx = (case first_reaching vEquiv hours 0 of Some i \<Rightarrow> i | None \<Rightarrow> int (length hours) - 1)
          in map (\<lambda>j. hours ! nat j) (filter (\<lambda>j. 0 \<le> j \<and> j < int (length hours)) [idx, idx - 1, idx + 1]))"

text \<open>An unreadable hour is skipped; the first record of that track and tick is the answer, read or not.\<close>

fun by_time :: "StreamDisk \<Rightarrow> string \<Rightarrow> byte \<Rightarrow> u64 \<Rightarrow> HourRecord list \<Rightarrow> byte list option" where
  "by_time disk pid track ticks [] = None"
| "by_time disk pid track ticks (hr # hrs) =
     (let f = disk pid (hr_Hour hr) in
      case ReadRanges (hf_ranges f) (hourBlobSize f) of
        Inl _ \<Rightarrow> by_time disk pid track ticks hrs
      | Inr (_, recs) \<Rightarrow>
          case List.find (\<lambda>r. \<not> (rec_Track r \<noteq> track \<or> rec_MediaTicks r \<noteq> ticks)) recs of
            None \<Rightarrow> by_time disk pid track ticks hrs
          | Some r \<Rightarrow> ReadFragment f r)"

definition FragmentByTime :: "Reader \<Rightarrow> string \<Rightarrow> byte \<Rightarrow> u64 \<Rightarrow> byte list option" where
  "FragmentByTime br pid track ticks =
     (case cat_Profile pid (rdr_cat br) of
        None \<Rightarrow> None
      | Some pd \<Rightarrow> by_time (rdr_disk br) pid track ticks (candidateHours br pd track ticks))"

definition ReadInit :: "Reader \<Rightarrow> string \<Rightarrow> byte \<Rightarrow> byte list option" where
  "ReadInit br pid track =
     (case cat_Profile pid (rdr_cat br) of
        None \<Rightarrow> None
      | Some pd \<Rightarrow>
          if length (pd_Hours pd) = 0 then None
          else
            let f = rdr_disk br pid (hr_Hour (last (pd_Hours pd))) in
            case ReadRanges (hf_ranges f) (hourBlobSize f) of
              Inl _ \<Rightarrow> None
            | Inr (hdr, _) \<Rightarrow>
                let initLen = (if track = TrackAudio then rh_AudioInitLen hdr else rh_VideoInitLen hdr) in
                if initLen = 0 then None
                else (case openBlobFile (track_file track f) of
                        None \<Rightarrow> None
                      | Some bf \<Rightarrow> bf_ReadSlice 0 (unat initLen) bf))"

subsection \<open>Playlists\<close>

definition orderedProfiles :: "Catalog \<Rightarrow> ProfileDesc list" where
  "orderedProfiles c =
     (if cat_BestProfile c = '''' then cat_Profiles c
      else filter (\<lambda>p. pd_ID p = cat_BestProfile c) (cat_Profiles c) @
           filter (\<lambda>p. pd_ID p \<noteq> cat_BestProfile c) (cat_Profiles c))"

datatype M3uLine =
    ExtM3u
  | ExtVersion int
  | ExtMedia string string
  | ExtStreamInf int string bool "(int \<times> int) option"
  | ExtTargetDuration int
  | ExtPlaylistVod
  | ExtMap string
  | ExtDiscontinuity
  | ExtProgramDateTime int
  | ExtInf rat
  | ExtUri string
  | ExtEndList

text \<open>
  The multivariant playlist. \<open>ExtMedia\<close> holds the group's parameters and profile; \<open>ExtStreamInf\<close> the
  bandwidth, the video codec, whether there is an audio group, and the resolution; an \<open>ExtUri\<close> the line.
\<close>

definition index_uri :: "string \<Rightarrow> string \<Rightarrow> string \<Rightarrow> string" where
  "index_uri params pid tok = ''index.m3u8?'' @ params @ ''&profile='' @ pid @ ''&track='' @ tok"

definition RenderMaster :: "Catalog \<Rightarrow> string \<Rightarrow> M3uLine list" where
  "RenderMaster c params =
     [ExtM3u, ExtVersion 7] @
     (if cat_AudioProfile c \<noteq> '''' then [ExtMedia ''aud'' (index_uri params (cat_AudioProfile c) ''a'')] else []) @
     concat (map (\<lambda>p.
       [ExtStreamInf (if pd_Bandwidth p = 0 then 2500000 else pd_Bandwidth p)
          (if pd_Codec p = '''' then ''avc1.4d401f'' else pd_Codec p) (cat_AudioProfile c \<noteq> '''')
          (if 0 < pd_Width p \<and> 0 < pd_Height p then Some (pd_Width p, pd_Height p) else None),
        ExtUri (index_uri params (pd_ID p) ''v'')]) (orderedProfiles c))"

definition extinf :: "32 word \<Rightarrow> FragmentRef \<Rightarrow> rat" where
  "extinf ts f = of_nat (unat (ref_DurTicks f)) / of_nat (unat ts)"

definition playlist_entry :: "string \<Rightarrow> string \<Rightarrow> 32 word \<Rightarrow> nat \<Rightarrow> FragmentRef \<Rightarrow> M3uLine list" where
  "playlist_entry pid tok ts i f =
     (if ref_Discontinuity f \<and> 0 < i then [ExtDiscontinuity, ExtMap (init_uri pid tok)] else []) @
     (if i = 0 \<or> ref_Discontinuity f then [ExtProgramDateTime (ref_WallTimeMs f)] else []) @
     [ExtInf (extinf ts f), ExtUri (fragment_uri pid (ref_HourCompact f) tok (ref_SeqInHour f))]"

definition win_frags :: "Window \<Rightarrow> byte \<Rightarrow> FragmentRef list" where
  "win_frags w track = (if track = TrackAudio then win_Audio w else win_Video w)"

definition RenderMediaPlaylist :: "Window \<Rightarrow> byte \<Rightarrow> M3uLine list" where
  "RenderMediaPlaylist w track =
     (let frags = win_frags w track;
          ts0 = (if track = TrackAudio then win_AudioTimescale w else win_VideoTimescale w);
          tok = (if track = TrackAudio then ''1'' else ''0'');
          ts = (if ts0 = 0 then 1 else ts0);
          maxDur = fold (\<lambda>f m. if extinf ts f > m then extinf ts f else m) frags 0
      in [ExtM3u, ExtVersion 7, ExtTargetDuration \<lceil>maxDur\<rceil>, ExtPlaylistVod, ExtMap (init_uri (win_Profile w) tok)] @
         concat (map (\<lambda>(i, f). playlist_entry (win_Profile w) tok ts i f) (enumerate 0 frags)) @ [ExtEndList])"

subsection \<open>The static manifest\<close>

text \<open>\<open>windows\<close> is the code's map from profile id to window. The XML encoder is left out (\<^verbatim>\<open>Dash_Manifest\<close>).\<close>

definition trackSegments :: "FragmentRef list \<Rightarrow> SegmentEntry list" where
  "trackSegments refs = map (\<lambda>f. \<lparr>se_StartTicks = ref_MediaTicks f, se_DurTicks = ref_DurTicks f\<rparr>) refs"

definition ticksToDuration :: "u64 \<Rightarrow> 32 word \<Rightarrow> duration" where
  "ticksToDuration t ts = (if ts = 0 then 0 else i64 (sint (t * 1000 div ucast ts) * millis 1))"

definition codecOrDefault :: "string \<Rightarrow> string \<Rightarrow> string" where
  "codecOrDefault c dflt = (if c = '''' then dflt else c)"

definition bandwidthOrDefault :: "int \<Rightarrow> int \<Rightarrow> int" where
  "bandwidthOrDefault b dflt = (if b \<le> 0 then dflt else b)"

definition tsOrDefault :: "32 word \<Rightarrow> 32 word \<Rightarrow> 32 word" where
  "tsOrDefault ts dflt = (if ts = 0 then dflt else ts)"

record MpdScan =
  ms_reps :: "TrackManifest list"
  ms_t0 :: u64
  ms_tEnd :: u64
  ms_haveT0 :: bool
  ms_vTS :: "32 word"

definition scan_profile :: "(string \<Rightarrow> Window option) \<Rightarrow> ProfileDesc \<Rightarrow> MpdScan \<Rightarrow> MpdScan" where
  "scan_profile windows p m =
     (case windows (pd_ID p) of
        None \<Rightarrow> m
      | Some w \<Rightarrow>
          if length (win_Video w) = 0 then m
          else
            let t1 = ref_MediaTicks (hd (win_Video w));
                lst = last (win_Video w);
                e = ref_MediaTicks lst + ref_DurTicks lst
            in \<lparr>ms_reps = ms_reps m @ [\<lparr>tm_RepID = pd_ID p, tm_Codec = codecOrDefault (pd_Codec p) ''avc1.4d401f'',
                  tm_Bandwidth = bandwidthOrDefault (pd_Bandwidth p) 2500000, tm_Width = pd_Width p,
                  tm_Height = pd_Height p, tm_SampleRate = 0,
                  tm_Timescale = tsOrDefault (win_VideoTimescale w) (ucast videoTimescale),
                  tm_InitFile = init_uri (pd_ID p) ''0'', tm_MediaPattern = ''dvrt-'' @ pd_ID p @ ''-0-$Time$.m4s'',
                  tm_StartNumber = 1, tm_Segments = trackSegments (win_Video w), tm_PTO = 0\<rparr>],
                ms_t0 = (if \<not> ms_haveT0 m \<or> t1 < ms_t0 m then t1 else ms_t0 m),
                ms_tEnd = (if e > ms_tEnd m then e else ms_tEnd m), ms_haveT0 = True,
                ms_vTS = (if win_VideoTimescale w \<noteq> 0 then win_VideoTimescale w else ms_vTS m)\<rparr>)"

definition mpd_scan :: "Catalog \<Rightarrow> (string \<Rightarrow> Window option) \<Rightarrow> MpdScan" where
  "mpd_scan c windows =
     fold (scan_profile windows) (orderedProfiles c)
       \<lparr>ms_reps = [], ms_t0 = 0, ms_tEnd = 0, ms_haveT0 = False, ms_vTS = 0\<rparr>"

definition mpd_audio :: "Catalog \<Rightarrow> (string \<Rightarrow> Window option) \<Rightarrow> u64 \<Rightarrow> 32 word \<Rightarrow> TrackManifest option" where
  "mpd_audio c windows t0 vTS =
     (case windows (cat_AudioProfile c) of
        None \<Rightarrow> None
      | Some aw \<Rightarrow>
          if length (win_Audio aw) = 0 then None
          else
            let aTS = (if win_AudioTimescale aw = 0 then 48000 else win_AudioTimescale aw)
            in Some \<lparr>tm_RepID = ''a'', tm_Codec = ''mp4a.40.2'', tm_Bandwidth = 128000, tm_Width = 0, tm_Height = 0,
                 tm_SampleRate = uint aTS, tm_Timescale = aTS, tm_InitFile = init_uri (cat_AudioProfile c) ''1'',
                 tm_MediaPattern = ''dvrt-'' @ cat_AudioProfile c @ ''-1-$Time$.m4s'', tm_StartNumber = 1,
                 tm_Segments = trackSegments (win_Audio aw), tm_PTO = t0 * ucast aTS div ucast vTS\<rparr>)"

definition RenderMPD :: "Catalog \<Rightarrow> (string \<Rightarrow> Window option) \<Rightarrow> duration \<Rightarrow> mpdRoot option" where
  "RenderMPD c windows segDur =
     (let m = mpd_scan c windows in
      if \<not> ms_haveT0 m then None
      else
        let vTS = (if ms_vTS m = 0 then ucast videoTimescale else ms_vTS m) in
        BuildManifest \<lparr>mi_AvailabilityStart = None, mi_PublishTime = None, mi_SegDur = segDur, mi_Window = 0,
          mi_Video = map (\<lambda>t. t\<lparr>tm_PTO := ms_t0 m\<rparr>) (ms_reps m),
          mi_Audio = mpd_audio c windows (ms_t0 m) vTS, mi_Static = True,
          mi_MediaPresentationDuration = ticksToDuration (ms_tEnd m - ms_t0 m) vTS\<rparr>)"

subsection \<open>The routes\<close>

text \<open>
  The fragment routes of the media dispatcher (\<^verbatim>\<open>internal/api/dispatch.go\<close>): the bytes of the response, \<open>None\<close> for
  404. Times are exact nanoseconds; \<open>pf\<close> is \<^verbatim>\<open>strconv.ParseFloat\<close>, for numbers that fit a duration.
\<close>

definition ServeFragment :: "Reader \<Rightarrow> string \<Rightarrow> byte list option" where
  "ServeFragment br file =
     (case ParseFragmentName file of
        None \<Rightarrow> None
      | Some (profile, hourC, track, seq) \<Rightarrow> rdr_FragmentByHour br profile hourC track seq)"

definition ServeTimeFragment :: "Reader \<Rightarrow> string \<Rightarrow> byte list option" where
  "ServeTimeFragment br file =
     (case ParseTimeFragmentName file of
        None \<Rightarrow> None
      | Some (profile, track, t) \<Rightarrow> FragmentByTime br profile track t)"

definition ServeInit :: "Reader \<Rightarrow> string \<Rightarrow> byte list option" where
  "ServeInit br file = (case ParseInitName file of None \<Rightarrow> None | Some (profile, track) \<Rightarrow> ReadInit br profile track)"

definition dispatch_blob :: "Reader \<Rightarrow> string \<Rightarrow> byte list option" where
  "dispatch_blob br file =
     (if prefix ''dvri-'' file then ServeInit br file
      else if prefix ''dvrt-'' file then ServeTimeFragment br file
      else ServeFragment br file)"

definition parseTimeshiftStart :: "(string \<Rightarrow> rat option) \<Rightarrow> (string \<Rightarrow> string) \<Rightarrow> gotime \<Rightarrow> gotime \<Rightarrow> gotime option" where
  "parseTimeshiftStart pf q now recordingStart =
     (let rel = (\<lambda>key. case pf (q key) of
            None \<Rightarrow> None
          | Some secs \<Rightarrow> if secs < 0 then None else Some (now - trunc (secs * of_int (seconds 1))))
      in if q ''from'' \<noteq> '''' then
           (case atoi (q ''from'') of None \<Rightarrow> None | Some secs \<Rightarrow> if secs < 0 then None else Some (seconds secs))
         else if q ''delay'' \<noteq> '''' then rel ''delay''
         else if q ''ago'' \<noteq> '''' then rel ''ago''
         else Some recordingStart)"

definition parseTimeshiftDuration :: "(string \<Rightarrow> rat option) \<Rightarrow> (string \<Rightarrow> string) \<Rightarrow> duration option" where
  "parseTimeshiftDuration pf q =
     (if q ''dur'' = '''' then Some 0
      else case pf (q ''dur'') of
          None \<Rightarrow> None
        | Some secs \<Rightarrow> if secs \<le> 0 then None else Some (trunc (secs * of_int (seconds 1))))"

definition timeshiftParams :: "(string \<Rightarrow> string) \<Rightarrow> string list" where
  "timeshiftParams q = concat (map (\<lambda>k. if q k \<noteq> '''' then [k @ ''='' @ q k] else []) [''from'', ''dur'', ''delay'', ''ago''])"

datatype 'a response = Ok200 'a | BadParams | NoSegments

fun join_amp :: "string list \<Rightarrow> string" where
  "join_amp [] = ''''"
| "join_amp [p] = p"
| "join_amp (p # ps) = p @ ''&'' @ join_amp ps"

definition ServeTimeshift ::
  "(string \<Rightarrow> rat option) \<Rightarrow> (nat \<Rightarrow> bool) \<Rightarrow> gotime \<Rightarrow> Reader \<Rightarrow> (string \<Rightarrow> string) \<Rightarrow> M3uLine list response" where
  "ServeTimeshift pf ctx now br q =
     (if q ''profile'' = '''' then Ok200 (RenderMaster (rdr_cat br) (join_amp (timeshiftParams q)))
      else case parseTimeshiftStart pf q now (millis (cat_OriginUnixMs (rdr_cat br))) of
          None \<Rightarrow> BadParams
        | Some start \<Rightarrow>
            case parseTimeshiftDuration pf q of
              None \<Rightarrow> BadParams
            | Some dur \<Rightarrow>
                case Query ctx br (q ''profile'') start dur of
                  Inl _ \<Rightarrow> NoSegments
                | Inr w \<Rightarrow> Ok200 (RenderMediaPlaylist w (if q ''track'' = ''a'' then TrackAudio else TrackVideo)))"

definition ServeMPD ::
  "(string \<Rightarrow> rat option) \<Rightarrow> (nat \<Rightarrow> bool) \<Rightarrow> gotime \<Rightarrow> Reader \<Rightarrow> (string \<Rightarrow> string) \<Rightarrow> mpdRoot response" where
  "ServeMPD pf ctx now br q =
     (case parseTimeshiftStart pf q now (millis (cat_OriginUnixMs (rdr_cat br))) of
        None \<Rightarrow> BadParams
      | Some start \<Rightarrow>
          case parseTimeshiftDuration pf q of
            None \<Rightarrow> BadParams
          | Some dur \<Rightarrow>
              let windows = fold (\<lambda>p m. case Query ctx br (pd_ID p) start dur of
                    Inl _ \<Rightarrow> m | Inr w \<Rightarrow> m(pd_ID p \<mapsto> w)) (cat_Profiles (rdr_cat br)) Map.empty
              in case RenderMPD (rdr_cat br) windows DefaultSegDur of None \<Rightarrow> NoSegments | Some doc \<Rightarrow> Ok200 doc)"

subsection \<open>Where the fragments of a window come from\<close>

lemma hour_refs_nth:
  "fst (hour_refs stem recs v a) =
     map (\<lambda>k. mk_ref stem (filter (\<lambda>r. rec_Track r = TrackVideo) recs ! k) (v + int k))
       [0..<length (filter (\<lambda>r. rec_Track r = TrackVideo) recs)] \<and>
   snd (hour_refs stem recs v a) =
     map (\<lambda>k. mk_ref stem (filter (\<lambda>r. rec_Track r \<noteq> TrackVideo) recs ! k) (a + int k))
       [0..<length (filter (\<lambda>r. rec_Track r \<noteq> TrackVideo) recs)]"
proof (induction recs arbitrary: v a)
  case (Cons r recs)
  have shift: "map f [0..<Suc n] = f 0 # map (\<lambda>k. f (Suc k)) [0..<n]" for f :: "nat \<Rightarrow> FragmentRef" and n
    by (simp add: upt_conv_Cons map_Suc_upt [symmetric] del: upt_Suc)
  show ?case using Cons [of "v + 1" a] Cons [of v "a + 1"]
    by (auto simp: shift add.assoc split: prod.splits simp del: upt_Suc)
qed simp

definition track_refs :: "byte \<Rightarrow> FragmentRef list \<times> FragmentRef list \<Rightarrow> FragmentRef list" where
  "track_refs track vas = (if track = TrackAudio then snd vas else fst vas)"

definition stored :: "Reader \<Rightarrow> string \<Rightarrow> HourRecord \<Rightarrow> byte \<Rightarrow> FragmentRef \<Rightarrow> bool" where
  "stored br pid hr track x \<longleftrightarrow>
     (\<exists>hdr recs. ReadRanges (hf_ranges (rdr_disk br pid (hr_Hour hr))) (hourBlobSize (rdr_disk br pid (hr_Hour hr))) = Inr (hdr, recs) \<and>
        x \<in> set (track_refs track (hour_refs (pid, hr_Hour hr) recs 0 0)))"

lemma scan_hours_stored:
  assumes "scan_hours ctx (rdr_disk br) pid lo hi i hrs s = Inr s'"
  shows "(x \<in> set (sc_V s') \<longrightarrow> x \<in> set (sc_V s) \<or> (\<exists>hr \<in> set hrs. lo \<le> hr_WallToMs hr \<and> hr_WallFromMs hr \<le> hi \<and> stored br pid hr TrackVideo x)) \<and>
    (x \<in> set (sc_A s') \<longrightarrow> x \<in> set (sc_A s) \<or> (\<exists>hr \<in> set hrs. lo \<le> hr_WallToMs hr \<and> hr_WallFromMs hr \<le> hi \<and> stored br pid hr TrackAudio x))"
  using assms
proof (induction hrs arbitrary: i s)
  case (Cons hr hrs)
  show ?case
  proof (cases "hr_WallToMs hr < lo \<or> hr_WallFromMs hr > hi")
    case True
    then show ?thesis using Cons.IH [of "i + 1" s] Cons.prems by (auto split: if_splits)
  next
    case False
    let ?f = "rdr_disk br pid (hr_Hour hr)"
    obtain hdr recs where r: "ReadRanges (hf_ranges ?f) (hourBlobSize ?f) = Inr (hdr, recs)"
      using Cons.prems False by (cases "ReadRanges (hf_ranges ?f) (hourBlobSize ?f)") (auto simp: Let_def split: if_splits)
    obtain vs as where h: "hour_refs (pid, hr_Hour hr) recs 0 0 = (vs, as)" by (metis surj_pair)
    have st: "y \<in> set vs \<Longrightarrow> stored br pid hr TrackVideo y" "y \<in> set as \<Longrightarrow> stored br pid hr TrackAudio y" for y
      using r h by (auto simp: stored_def track_refs_def TrackVideo_def TrackAudio_def)
    let ?s = "\<lparr>sc_V = sc_V s @ vs, sc_A = sc_A s @ as,
                 sc_vTS = (if rh_VideoTimescale hdr \<noteq> 0 then rh_VideoTimescale hdr else sc_vTS s),
                 sc_aTS = (if rh_AudioTimescale hdr \<noteq> 0 then rh_AudioTimescale hdr else sc_aTS s)\<rparr>"
    have "scan_hours ctx (rdr_disk br) pid lo hi (i + 1) hrs ?s = Inr s'"
      using Cons.prems False r h by (simp add: Let_def split: if_splits)
    from Cons.IH [OF this] show ?thesis using False st [of x] by auto
  qed
qed simp

lemma snapVideo_subset: "set (snapVideo refs a b) \<subseteq> set refs"
  unfolding snapVideo_def by (meson in_set_dropD set_takeWhileD subsetI)

lemma pairAudio_subset: "set (pairAudio refs a b v t) \<subseteq> set refs"
  by (auto simp: pairAudio_def Let_def)

lemma earliest_le:
  assumes "hr \<in> set (pd_Hours pd)"
  shows "earliestHourMs pd = (fst (earliestHourMs pd), True)" and "fst (earliestHourMs pd) \<le> hr_WallFromMs hr"
proof -
  let ?g = "\<lambda>hr e. if hr_WallFromMs hr < e then hr_WallFromMs hr else e"
  have low: "fold ?g hs e \<le> e \<and> (\<forall>h \<in> set hs. fold ?g hs e \<le> hr_WallFromMs h)" for hs e
  proof (induction hs arbitrary: e)
    case (Cons h hs)
    have "?g h e \<le> e" "?g h e \<le> hr_WallFromMs h" by simp_all
    then show ?case using Cons [of "?g h e"] by (simp only: fold_simps list.set ball_simps) linarith
  qed simp
  obtain h hs where hs: "pd_Hours pd = h # hs" using assms by (cases "pd_Hours pd") auto
  show "earliestHourMs pd = (fst (earliestHourMs pd), True)" by (simp add: earliestHourMs_def hs)
  have "fst (earliestHourMs pd) = fold ?g hs (hr_WallFromMs h)" by (simp add: earliestHourMs_def hs)
  then show "fst (earliestHourMs pd) \<le> hr_WallFromMs hr" using low [of hs "hr_WallFromMs h"] assms hs by auto
qed

definition query_start :: "ProfileDesc \<Rightarrow> gotime \<Rightarrow> int" where
  "query_start pd from = max (from div millis 1) (fst (earliestHourMs pd))"

lemma Query_stored:
  assumes "Query ctx br pid from dur = Inr w" and "x \<in> set (win_frags w track)"
  shows "win_Profile w = pid \<and> (\<exists>pd hr. cat_Profile pid (rdr_cat br) = Some pd \<and> hr \<in> set (pd_Hours pd) \<and>
    query_start pd from \<le> hr_WallToMs hr \<and> hr_WallFromMs hr \<le> query_start pd from + 86400000 \<and>
    stored br pid hr track x)"
proof -
  obtain pd where pd: "cat_Profile pid (rdr_cat br) = Some pd" using assms(1) by (auto simp: Query_def split: option.splits)
  obtain e b where eb: "earliestHourMs pd = (e, b)" by (metis surj_pair)
  obtain lo hi where lh: "resolveWindowBounds e b (from div millis 1) (go_div dur (millis 1))
                 (go_div MaxTimeshiftWindow (millis 1)) = (lo, hi)" by (metis surj_pair)
  let ?scan = "scan_hours ctx (rdr_disk br) pid lo hi 0 (pd_Hours pd) \<lparr>sc_V = [], sc_A = [], sc_vTS = 0, sc_aTS = 0\<rparr>"
  obtain s where s: "?scan = Inr s"
    using assms(1) pd eb lh by (cases ?scan) (simp_all add: Query_def)
  let ?v = "snapVideo (sc_V s) (WallToMediaTicks lo (rdr_cat br)) (WallToMediaTicks hi (rdr_cat br))"
  have "win_Profile w = pid \<and> win_Video w = ?v \<and> (win_Audio w = [] \<or>
      win_Audio w = pairAudio (sc_A s) (ref_MediaTicks (hd ?v)) (WallToMediaTicks hi (rdr_cat br)) (sc_vTS s) (sc_aTS s))"
    using assms(1) pd eb lh s by (cases ?v) (auto simp: Query_def Let_def)
  then have w: "win_Profile w = pid" "set (win_Video w) \<subseteq> set (sc_V s)" "set (win_Audio w) \<subseteq> set (sc_A s)"
    using snapVideo_subset pairAudio_subset by (blast, metis, metis empty_set empty_subsetI)
  have "lo = (if b \<and> from div millis 1 < e then e else from div millis 1) \<and> hi \<le> lo + 86400000"
    using lh by (auto simp: resolveWindowBounds_def Let_def MaxTimeshiftWindow_def go_div_def)
  moreover have "b \<and> fst (earliestHourMs pd) = e" if "hr \<in> set (pd_Hours pd)" for hr using earliest_le(1) [OF that] eb by simp
  ultimately have b: "lo = query_start pd from \<and> hi \<le> query_start pd from + 86400000" if "hr \<in> set (pd_Hours pd)" for hr
    using that by (auto simp: query_start_def)
  have "\<exists>hr \<in> set (pd_Hours pd). lo \<le> hr_WallToMs hr \<and> hr_WallFromMs hr \<le> hi \<and> stored br pid hr (if track = TrackAudio then TrackAudio else TrackVideo) x"
    using scan_hours_stored [OF s, of x] assms(2) w by (auto simp: win_frags_def split: if_splits)
  then obtain hr where hr: "hr \<in> set (pd_Hours pd)" "lo \<le> hr_WallToMs hr" "hr_WallFromMs hr \<le> hi"
      "stored br pid hr (if track = TrackAudio then TrackAudio else TrackVideo) x" by blast
  have "stored br pid hr track x" using hr(4) by (simp add: stored_def track_refs_def TrackVideo_def TrackAudio_def split: if_splits)
  moreover have "query_start pd from \<le> hr_WallToMs hr" "hr_WallFromMs hr \<le> query_start pd from + 86400000"
    using b [OF hr(1)] hr(2,3) by simp_all
  ultimately show ?thesis using w(1) pd hr(1) by blast
qed

text \<open>
  What a recording looks like to the reader: hour keys as the writer makes them, and only the two tracks.
\<close>

definition indexed :: "Reader \<Rightarrow> string \<Rightarrow> HourRecord \<Rightarrow> FragRecord \<Rightarrow> bool" where
  "indexed br pid hr r \<longleftrightarrow>
     (\<exists>hdr recs. ReadRanges (hf_ranges (rdr_disk br pid (hr_Hour hr))) (hourBlobSize (rdr_disk br pid (hr_Hour hr))) = Inr (hdr, recs) \<and>
        length recs < 2 ^ 63 \<and> r \<in> set recs)"

definition recorded_hour :: "Reader \<Rightarrow> string \<Rightarrow> HourRecord \<Rightarrow> bool" where
  "recorded_hour br pid hr \<longleftrightarrow>
     (\<exists>h. hr_Hour hr = hourRel h \<and> fst (civil (nat (h div 24))) < 10000) \<and>
     (case ReadRanges (hf_ranges (rdr_disk br pid (hr_Hour hr))) (hourBlobSize (rdr_disk br pid (hr_Hour hr))) of
        Inl _ \<Rightarrow> True
      | Inr (_, recs) \<Rightarrow> length recs < 2 ^ 63 \<and> (\<forall>r \<in> set recs. rec_Track r = TrackVideo \<or> rec_Track r = TrackAudio))"

definition recorded :: "Reader \<Rightarrow> string \<Rightarrow> bool" where
  "recorded br pid \<longleftrightarrow> (case cat_Profile pid (rdr_cat br) of None \<Rightarrow> True | Some pd \<Rightarrow> list_all (recorded_hour br pid) (pd_Hours pd))"

lemma find_seq_track:
  "k < length (filter (\<lambda>r. rec_Track r = track) recs) \<Longrightarrow>
   find_seq track (int k) recs 0 = Some (filter (\<lambda>r. rec_Track r = track) recs ! k)"
  using find_seq_nth [of track 0 k recs] by simp

lemma read_mk_ref: "rdr_ReadFragment br (mk_ref (pid, hour) r seq) = ReadFragment (rdr_disk br pid hour) r"
  by (simp add: rdr_ReadFragment_def ReadFragment_def mk_ref_def split: option.split)

lemma stored_record:
  assumes "stored br pid hr track x" and "recorded_hour br pid hr"
  shows "\<exists>r k. x = mk_ref (pid, hr_Hour hr) r (int k) \<and> k < 2 ^ 63 \<and> indexed br pid hr r \<and>
    rec_Track r = (if track = TrackAudio then TrackAudio else TrackVideo) \<and>
    FragmentByHour (rdr_disk br pid (hr_Hour hr)) (rec_Track r) (int k) = ReadFragment (rdr_disk br pid (hr_Hour hr)) r"
proof -
  let ?f = "rdr_disk br pid (hr_Hour hr)" and ?t = "if track = TrackAudio then TrackAudio else TrackVideo"
  obtain hdr recs where r: "ReadRanges (hf_ranges ?f) (hourBlobSize ?f) = Inr (hdr, recs)"
      "x \<in> set (track_refs track (hour_refs (pid, hr_Hour hr) recs 0 0))"
    using assms(1) by (auto simp: stored_def)
  have l: "length recs < 2 ^ 63" and two: "\<forall>r \<in> set recs. rec_Track r = TrackVideo \<or> rec_Track r = TrackAudio"
    using assms(2) r(1) by (auto simp: recorded_hour_def)
  have audio: "filter (\<lambda>r. rec_Track r \<noteq> TrackVideo) recs = filter (\<lambda>r. rec_Track r = TrackAudio) recs"
    using two by (intro filter_cong) (auto simp: TrackVideo_def TrackAudio_def)
  let ?rs = "filter (\<lambda>r. rec_Track r = ?t) recs"
  have "track_refs track (hour_refs (pid, hr_Hour hr) recs 0 0) = map (\<lambda>k. mk_ref (pid, hr_Hour hr) (?rs ! k) (int k)) [0..<length ?rs]"
    using hour_refs_nth [of "(pid, hr_Hour hr)" recs 0 0] audio by (simp add: track_refs_def)
  then obtain k where k: "k < length ?rs" "x = mk_ref (pid, hr_Hour hr) (?rs ! k) (int k)"
    using r(2) by (auto simp del: upt_Suc)
  define r where "r = ?rs ! k"
  have mem: "r \<in> set recs" "rec_Track r = ?t" using nth_mem [OF k(1)] by (simp_all add: r_def)
  have "k < 2 ^ 63" using less_le_trans [OF k(1) length_filter_le] l by (rule less_trans)
  moreover have "FragmentByHour ?f (rec_Track r) (int k) = ReadFragment ?f r"
    using find_seq_track [OF k(1)] r(1) mem(2) by (simp add: FragmentByHour_def r_def)
  moreover have "indexed br pid hr r" using r(1) l mem(1) by (auto simp: indexed_def)
  ultimately show ?thesis using k(2) mem(2) unfolding r_def [symmetric] by blast
qed

lemma Query_record:
  assumes "Query ctx br pid from dur = Inr w" and "recorded br pid" and "x \<in> set (win_frags w track)"
  obtains pd hr r k h where "win_Profile w = pid" and "cat_Profile pid (rdr_cat br) = Some pd" and "hr \<in> set (pd_Hours pd)"
    and "hr_Hour hr = hourRel h" and "fst (civil (nat (h div 24))) < 10000" and "x = mk_ref (pid, hr_Hour hr) r (int k)"
    and "k < 2 ^ 63" and "indexed br pid hr r" and "rec_Track r = (if track = TrackAudio then TrackAudio else TrackVideo)"
    and "FragmentByHour (rdr_disk br pid (hr_Hour hr)) (rec_Track r) (int k) = ReadFragment (rdr_disk br pid (hr_Hour hr)) r"
proof -
  from Query_stored [OF assms(1,3)] obtain pd hr where q: "win_Profile w = pid" "cat_Profile pid (rdr_cat br) = Some pd"
      "hr \<in> set (pd_Hours pd)" "stored br pid hr track x" by blast
  have rh: "recorded_hour br pid hr" using assms(2) q(2,3) by (simp add: recorded_def list_all_iff)
  then obtain h where h: "hr_Hour hr = hourRel h" "fst (civil (nat (h div 24))) < 10000" by (auto simp: recorded_hour_def)
  from stored_record [OF q(4) rh] show thesis by (elim exE conjE) (rule that [OF q(1,2,3) h])
qed

text \<open>The URIs of a playlist.\<close>

fun line_uris :: "M3uLine \<Rightarrow> string list" where
  "line_uris (ExtUri u) = [u]"
| "line_uris _ = []"

definition playlist_uris :: "M3uLine list \<Rightarrow> string list" where
  "playlist_uris ls = concat (map line_uris ls)"

lemma playlist_uris_append [simp]: "playlist_uris (a @ b) = playlist_uris a @ playlist_uris b"
  by (simp add: playlist_uris_def)

lemma entry_uris [simp]:
  "playlist_uris (playlist_entry pid tok ts i f) = [fragment_uri pid (ref_HourCompact f) tok (ref_SeqInHour f)]"
  by (auto simp: playlist_uris_def playlist_entry_def)

lemma media_playlist_uris:
  "playlist_uris (RenderMediaPlaylist w track) =
     map (\<lambda>f. fragment_uri (win_Profile w) (ref_HourCompact f) (if track = TrackAudio then ''1'' else ''0'') (ref_SeqInHour f))
       (win_frags w track)"
proof -
  have "playlist_uris (concat (map (\<lambda>(i, f). playlist_entry pid tok ts i f) (enumerate n fs))) =
      map (\<lambda>f. fragment_uri pid (ref_HourCompact f) tok (ref_SeqInHour f)) fs" for pid tok ts n fs
    by (induction fs arbitrary: n) (simp_all add: playlist_uris_def [of "[]"])
  then show ?thesis by (simp add: RenderMediaPlaylist_def Let_def) (simp add: playlist_uris_def)
qed

subsection \<open>Properties\<close>

text \<open>
  C9: A media playlist plays back exactly its window. Whatever window a query returns, the URIs of the playlist
  rendered from it, requested one after the other, are answered with the stored bytes of its fragments, in order.
\<close>

theorem playlist_uris_serve_the_window:
  assumes "Query ctx br pid from dur = Inr w" and "recorded br pid" and "validProfile pid"
  shows "map (dispatch_blob br) (playlist_uris (RenderMediaPlaylist w track)) = map (rdr_ReadFragment br) (win_frags w track)"
proof -
  let ?tok = "if track = TrackAudio then ''1'' else ''0''"
  have "dispatch_blob br (fragment_uri (win_Profile w) (ref_HourCompact x) ?tok (ref_SeqInHour x)) = rdr_ReadFragment br x"
    if x: "x \<in> set (win_frags w track)" for x
  proof -
    obtain pd hr r k h where q: "win_Profile w = pid" "cat_Profile pid (rdr_cat br) = Some pd" "hr \<in> set (pd_Hours pd)"
      "hr_Hour hr = hourRel h" "fst (civil (nat (h div 24))) < 10000" "x = mk_ref (pid, hr_Hour hr) r (int k)" "k < 2 ^ 63"
      "indexed br pid hr r" "rec_Track r = (if track = TrackAudio then TrackAudio else TrackVideo)"
      "FragmentByHour (rdr_disk br pid (hr_Hour hr)) (rec_Track r) (int k) = ReadFragment (rdr_disk br pid (hr_Hour hr)) r"
      by (rule Query_record [OF assms(1,2) x])
    have c: "ref_HourCompact x = hour_compact (hourRel h)" "ref_SeqInHour x = int k" using q(4,6) by (simp_all add: mk_ref_def)
    have tok: "parseTrack ?tok = Some (rec_Track r)" using q(9) by (simp add: parseTrack_def)
    have "int k < 2 ^ 63" using q(7) by simp
    then have "ParseFragmentName (fragment_uri pid (ref_HourCompact x) ?tok (ref_SeqInHour x)) =
        Some (pid, hour_compact (hourRel h), rec_Track r, int k)"
      unfolding c by (intro fragment_uri_parses [OF assms(3) compact_roundtrip(2) [OF q(5)] tok]) simp_all
    then have "ServeFragment br (fragment_uri pid (ref_HourCompact x) ?tok (ref_SeqInHour x)) = rdr_ReadFragment br x"
      using q(4,6,10) compact_roundtrip(1) [OF q(5)] by (simp add: ServeFragment_def rdr_FragmentByHour_def read_mk_ref)
    then show ?thesis using q(1) by (simp add: dispatch_blob_def fragment_uri_def)
  qed
  then show ?thesis by (simp add: media_playlist_uris)
qed

text \<open>
  A segment named by its time in a manifest is served with its own bytes, if the ticks of the profile's
  video are distinct and the hours' tick bounds are right. (Across a restart of the recording they are not distinct.)
\<close>

theorem segment_times_serve_the_window:
  assumes "Query ctx br pid from dur = Inr w" and "recorded br pid" and "validProfile pid"
    and "x \<in> set (win_Video w)" and "cat_Profile pid (rdr_cat br) = Some pd"
    and "\<forall>hr \<in> set (pd_Hours pd). \<forall>r. indexed br pid hr r \<and> rec_Track r = TrackVideo \<longrightarrow>
      hr_MediaFromV hr \<le> rec_MediaTicks r \<and> rec_MediaTicks r \<le> hr_MediaToV hr"
    and "\<forall>hr \<in> set (pd_Hours pd). \<forall>hr' \<in> set (pd_Hours pd). \<forall>r r'.
      indexed br pid hr r \<and> indexed br pid hr' r' \<and> rec_Track r = TrackVideo \<and> rec_Track r' = TrackVideo \<and>
      rec_MediaTicks r = rec_MediaTicks r' \<longrightarrow> hr_Hour hr = hr_Hour hr' \<and> r = r'"
  shows "dispatch_blob br (time_uri pid ''0'' (ref_MediaTicks x)) = rdr_ReadFragment br x"
proof -
  have "x \<in> set (win_frags w TrackVideo)" using assms(4) by (simp add: win_frags_def TrackVideo_def TrackAudio_def)
  from Query_record [OF assms(1,2) this] assms(5) obtain hr r k where q: "hr \<in> set (pd_Hours pd)"
      "x = mk_ref (pid, hr_Hour hr) r (int k)" "indexed br pid hr r" "rec_Track r = TrackVideo"
    by (metis option.inject TrackVideo_def TrackAudio_def zero_neq_one)
  let ?t = "rec_MediaTicks r" and ?v = "rdr_ReadFragment br x"
  have t: "ref_MediaTicks x = ?t" using q(2) by (simp add: mk_ref_def)
  have hits: "ReadFragment (rdr_disk br pid (hr_Hour hr')) r' = ?v"
    if "hr' \<in> set (pd_Hours pd)" "indexed br pid hr' r'" "rec_Track r' = TrackVideo" "rec_MediaTicks r' = ?t" for hr' r'
    using assms(7) q that by (metis read_mk_ref)
  have search: "by_time (rdr_disk br) pid TrackVideo ?t hrs = ?v"
    if "set hrs \<subseteq> set (pd_Hours pd)" "hr \<in> set hrs" for hrs
    using that
  proof (induction hrs)
    case (Cons g hrs)
    let ?f = "rdr_disk br pid (hr_Hour g)" and ?P = "\<lambda>r. \<not> (rec_Track r \<noteq> TrackVideo \<or> rec_MediaTicks r \<noteq> ?t)"
    show ?case
    proof (cases "ReadRanges (hf_ranges ?f) (hourBlobSize ?f)")
      case (Inl e)
      then have "g \<noteq> hr" using q(3) by (auto simp: indexed_def)
      then show ?thesis using Cons Inl by (simp add: Let_def)
    next
      case (Inr p)
      then obtain hdr recs where p: "ReadRanges (hf_ranges ?f) (hourBlobSize ?f) = Inr (hdr, recs)" by (cases p) auto
      have l: "length recs < 2 ^ 63"
        using assms(2,5) Cons.prems(1) p by (auto simp: recorded_def list_all_iff recorded_hour_def)
      show ?thesis
      proof (cases "List.find ?P recs")
        case None
        then have "g \<noteq> hr" using q(3,4) p by (auto simp: indexed_def find_None_iff)
        then show ?thesis using Cons p None by (simp add: Let_def)
      next
        case (Some r')
        then have "r' \<in> set recs" "?P r'" by (auto simp: find_Some_iff)
        then have "ReadFragment ?f r' = ?v" using hits [of g r'] Cons.prems(1) p l by (auto simp: indexed_def)
        then show ?thesis using p Some by (simp add: Let_def)
      qed
    qed
  qed simp
  have "set (candidateHours br pd TrackVideo ?t) \<subseteq> set (pd_Hours pd) \<and> hr \<in> set (candidateHours br pd TrackVideo ?t)"
    using assms(6) q(1,3,4) by (auto simp: candidateHours_def Let_def)
  then have "FragmentByTime br pid TrackVideo ?t = ?v"
    using search assms(5) by (simp add: FragmentByTime_def)
  moreover have "ParseTimeFragmentName (time_uri pid ''0'' ?t) = Some (pid, TrackVideo, ?t)"
    by (rule time_uri_parses [OF assms(3)]) (simp add: parseTrack_def)
  ultimately show ?thesis unfolding t by (simp add: dispatch_blob_def ServeTimeFragment_def time_uri_def)
qed

lemma find_append: "List.find P (xs @ ys) = (case List.find P xs of Some x \<Rightarrow> Some x | None \<Rightarrow> List.find P ys)"
  by (induction xs) auto

lemma find_map: "List.find P (map f xs) = map_option f (List.find (\<lambda>x. P (f x)) xs)"
  by (induction xs) auto

lemma find_none: "(\<forall>x \<in> set xs. \<not> P x) \<Longrightarrow> List.find P xs = None"
  by (induction xs) auto

lemma snap_start_find:
  assumes "sorted (map ref_MediaTicks refs)"
  shows "snap_start refs t i start =
    (case List.find (\<lambda>k. ref_Keyframe (refs ! k) \<and> ref_MediaTicks (refs ! k) \<le> t) (rev [0..<length refs]) of
       None \<Rightarrow> start | Some k \<Rightarrow> i + k)"
  using assms
proof (induction refs arbitrary: i start)
  case (Cons r rs)
  have up: "rev [0..<Suc (length rs)] = map Suc (rev [0..<length rs]) @ [0]"
    by (simp add: upt_conv_Cons rev_map [symmetric] map_Suc_upt del: upt_Suc)
  show ?case
  proof (cases "ref_MediaTicks r > t")
    case True
    then have "ref_MediaTicks x > t" if "x \<in> set (r # rs)" for x using Cons.prems that by fastforce
    then have "\<not> ref_MediaTicks ((r # rs) ! k) \<le> t" if "k < Suc (length rs)" for k
      using that nth_mem [of k "r # rs"] by (simp add: not_le)
    then show ?thesis using True by (subst find_none) (simp_all del: upt_Suc nth_Cons_Suc)
  next
    case False
    then show ?thesis using Cons by (auto simp: up find_append find_map not_less simp del: upt_Suc rev.simps split: option.split)
  qed
qed simp

lemma take_before:
  "sorted (map ref_MediaTicks refs) \<Longrightarrow>
   takeWhile (\<lambda>r. \<not> e \<le> ref_MediaTicks r) refs = filter (\<lambda>r. ref_MediaTicks r < e) refs"
proof (induction refs)
  case (Cons r rs)
  have "filter (\<lambda>r. ref_MediaTicks r < e) rs = []" if "e \<le> ref_MediaTicks r"
    using Cons.prems that by (auto simp: filter_empty_conv not_less)
  then show ?case using Cons by (auto simp: not_less)
qed simp

lemma sorted_map_drop: "sorted (map f xs) \<Longrightarrow> sorted (map f (drop n xs))"
  by (simp add: drop_map [symmetric] sorted_wrt_drop)

text \<open>
  A window starts at a key frame. On fragments in time order, the video of a window is everything before
  the end from the last key frame at or before the requested start on; with no such key frame, from the beginning.
\<close>

theorem window_starts_at_the_last_keyframe:
  assumes "sorted (map ref_MediaTicks refs)"
  shows "snapVideo refs fromTicks endTicks =
    (case List.find (\<lambda>k. ref_Keyframe (refs ! k) \<and> ref_MediaTicks (refs ! k) \<le> fromTicks) (rev [0..<length refs]) of
       None \<Rightarrow> filter (\<lambda>r. ref_MediaTicks r < endTicks) refs
     | Some k \<Rightarrow> filter (\<lambda>r. ref_MediaTicks r < endTicks) (drop k refs))"
  using snap_start_find [OF assms, of fromTicks 0 0] take_before [OF assms, of endTicks]
    take_before [OF sorted_map_drop [OF assms], of endTicks]
  by (simp add: snapVideo_def split: option.split)

text \<open>
  One request reads at most a day. Whatever the duration asked for, none included, every fragment of a window
  comes from an hour that starts within 24 hours of the start, which is never before the oldest hour.
\<close>

theorem query_reads_at_most_a_day:
  assumes "Query ctx br pid from dur = Inr w" and "x \<in> set (win_frags w track)" and "cat_Profile pid (rdr_cat br) = Some pd"
  shows "\<exists>hr \<in> set (pd_Hours pd). ref_HourStem x = (pid, hr_Hour hr) \<and> query_start pd from \<le> hr_WallToMs hr \<and>
    hr_WallFromMs hr \<le> query_start pd from + 86400000"
proof -
  from Query_stored [OF assms(1,2)] assms(3) obtain hr where hr: "hr \<in> set (pd_Hours pd)" "query_start pd from \<le> hr_WallToMs hr"
      "hr_WallFromMs hr \<le> query_start pd from + 86400000" "stored br pid hr track x" by auto
  have "ref_HourStem x = (pid, hr_Hour hr)"
    using hr(4) hour_refs_nth [of "(pid, hr_Hour hr)" _ 0 0]
    by (auto simp: stored_def track_refs_def mk_ref_def simp del: upt_Suc split: if_splits)
  with hr show ?thesis by blast
qed

subsection \<open>A recording of two fragments\<close>

definition small_hour :: HourRecord where
  "small_hour = hour_record0\<lparr>hr_Hour := ''1970/01/01/00'', hr_WallToMs := 1000, hr_MediaFromV := 4, hr_MediaToV := 7\<rparr>"

definition small_files :: HourFiles where
  "small_files = \<lparr>hf_v = Some [0, 1, 2, 3, 4, 5, 6, 7, 8, 9], hf_a = None,
     hf_ranges = Some (MarshalRangesHeader hdr1 @ concat (map MarshalFragRecord [frag1 4, frag1 7])), hf_open = False\<rparr>"

definition small_reader :: Reader where
  "small_reader = \<lparr>rdr_cat = (catalog_of ''live'')\<lparr>cat_Profiles := [desc_of ''p0'' [small_hour]], cat_VideoTimescale := 90000\<rparr>,
     rdr_disk = (\<lambda>_ _. small_files)\<rparr>"

lemma small_read: "ReadRanges (hf_ranges small_files) (hourBlobSize small_files) = Inr (hdr1, [frag1 4, frag1 7])"
  using ReadRanges_data [OF hdr1_valid, of "[frag1 4, frag1 7]" 10]
  by (simp add: frag1_end small_files_def hourBlobSize_def)

lemma small_cat: "cat_Profile ''p0'' (rdr_cat small_reader) = Some (desc_of ''p0'' [small_hour])"
  by (simp add: small_reader_def cat_Profile_def desc_of_def new_desc_def)

lemma small_hours [simp]: "pd_Hours (desc_of ''p0'' [small_hour]) = [small_hour]" "hr_Hour small_hour = ''1970/01/01/00''"
  "rdr_disk small_reader p h = small_files"
  by (simp_all add: desc_of_def small_hour_def small_reader_def)

lemma small_recorded: "recorded small_reader ''p0''"
proof -
  have "hourRel 0 = ''1970/01/01/00''" by code_simp
  moreover have "fst (civil (nat (0 div 24))) = 1970" by (simp add: civil_def)
  ultimately have "\<exists>h. hr_Hour small_hour = hourRel h \<and> fst (civil (nat (h div 24))) < 10000"
    by (intro exI [of _ 0]) simp
  then show ?thesis by (simp add: recorded_def small_cat recorded_hour_def small_read frag1_def)
qed

definition small_refs :: "FragmentRef list" where
  "small_refs = [mk_ref (''p0'', ''1970/01/01/00'') (frag1 4) 0, mk_ref (''p0'', ''1970/01/01/00'') (frag1 7) 1]"

definition small_window :: Window where
  "small_window = \<lparr>win_Profile = ''p0'', win_Video = small_refs, win_Audio = [], win_VideoTimescale = 90000,
     win_AudioTimescale = 0, win_PDT0 = Some 5\<rparr>"

lemma small_query: "Query (\<lambda>_. False) small_reader ''p0'' 0 0 = Inr small_window"
proof -
  have e: "earliestHourMs (desc_of ''p0'' [small_hour]) = (0, True)"
    by (simp add: earliestHourMs_def) (simp add: small_hour_def hour_record0_def)
  have w: "hr_WallFromMs small_hour = 0" "hr_WallToMs small_hour = 1000" by (simp_all add: small_hour_def hour_record0_def)
  have t: "WallToMediaTicks 0 (rdr_cat small_reader) = 0" "WallToMediaTicks 86400000 (rdr_cat small_reader) = 7776000000"
    by (simp_all add: WallToMediaTicks_def small_reader_def catalog_of_def i64_def go_div_def)
  show ?thesis
    by (simp add: Query_def small_cat e w t resolveWindowBounds_def MaxTimeshiftWindow_def go_div_def small_read
        snapVideo_def small_window_def small_refs_def pairAudio_def hdr1_def mk_ref_def frag1_def TrackVideo_def)
qed

lemma small_profile: "validProfile ''p0''"
  by (simp add: validProfile_def is_digit_def)

theorem playlist_uris_serve_the_window_witness:
  "map (dispatch_blob small_reader) (playlist_uris (RenderMediaPlaylist small_window TrackVideo)) = [Some [4, 5, 6], Some [7, 8, 9]]"
  using playlist_uris_serve_the_window [OF small_query small_recorded small_profile, of TrackVideo]
  by (simp add: win_frags_def small_window_def small_refs_def TrackVideo_def TrackAudio_def read_mk_ref ReadFragment_def
      frag1_def small_files_def track_file_def openBlobFile_def bf_ReadSlice_def read_at_def)

theorem segment_times_serve_the_window_witness:
  "dispatch_blob small_reader (time_uri ''p0'' ''0'' 7) = Some [7, 8, 9]"
proof -
  let ?x = "mk_ref (''p0'', ''1970/01/01/00'') (frag1 7) 1"
  have x: "?x \<in> set (win_Video small_window)" by (simp add: small_window_def small_refs_def)
  have t: "rec_MediaTicks (frag1 off) = off" for off by (simp add: frag1_def)
  have i: "indexed small_reader ''p0'' small_hour r \<Longrightarrow> r = frag1 4 \<or> r = frag1 7" for r
    by (auto simp: indexed_def small_read)
  have b: "hr_MediaFromV small_hour = 4" "hr_MediaToV small_hour = 7" by (simp_all add: small_hour_def)
  have "\<forall>hr \<in> set (pd_Hours (desc_of ''p0'' [small_hour])). \<forall>r. indexed small_reader ''p0'' hr r \<and> rec_Track r = TrackVideo \<longrightarrow>
      hr_MediaFromV hr \<le> rec_MediaTicks r \<and> rec_MediaTicks r \<le> hr_MediaToV hr" using b t by (auto dest: i)
  moreover have "\<forall>hr \<in> set (pd_Hours (desc_of ''p0'' [small_hour])). \<forall>hr' \<in> set (pd_Hours (desc_of ''p0'' [small_hour])). \<forall>r r'.
      indexed small_reader ''p0'' hr r \<and> indexed small_reader ''p0'' hr' r' \<and> rec_Track r = TrackVideo \<and> rec_Track r' = TrackVideo \<and>
      rec_MediaTicks r = rec_MediaTicks r' \<longrightarrow> hr_Hour hr = hr_Hour hr' \<and> r = r'" using t by (auto dest!: i)
  ultimately have "dispatch_blob small_reader (time_uri ''p0'' ''0'' (ref_MediaTicks ?x)) = rdr_ReadFragment small_reader ?x"
    by (rule segment_times_serve_the_window [OF small_query small_recorded small_profile x small_cat])
  moreover have "rdr_ReadFragment small_reader ?x = Some [7, 8, 9]"
    by (simp add: read_mk_ref) (simp add: ReadFragment_def frag1_def small_files_def track_file_def TrackVideo_def
        TrackAudio_def openBlobFile_def bf_ReadSlice_def read_at_def)
  moreover have "ref_MediaTicks ?x = 7" by (simp add: mk_ref_def t)
  ultimately show ?thesis by simp
qed

theorem window_starts_at_the_last_keyframe_witness:
  "map ref_MediaTicks (snapVideo small_refs 9 10) = [7]"
proof -
  have "sorted (map ref_MediaTicks small_refs)" by (simp add: small_refs_def mk_ref_def frag1_def)
  from window_starts_at_the_last_keyframe [OF this, of 9 10] show ?thesis
    by (simp add: small_refs_def mk_ref_def frag1_def)
qed

theorem query_reads_at_most_a_day_witness:
  "\<exists>hr \<in> {small_hour}. hr_WallFromMs hr \<le> query_start (desc_of ''p0'' [small_hour]) 0 + 86400000"
proof -
  have "mk_ref (''p0'', ''1970/01/01/00'') (frag1 7) 1 \<in> set (win_frags small_window TrackVideo)"
    by (simp add: win_frags_def TrackVideo_def TrackAudio_def small_window_def small_refs_def)
  from query_reads_at_most_a_day [OF small_query this small_cat] show ?thesis by auto
qed

end
