(* ===== verification/Ts_Scanner.thy ===== *)
theory Ts_Scanner
  imports OS_Media
begin

text \<open>
  The keyframe scanner of the HLS segmenter, \<^verbatim>\<open>internal/publisher/ts_keyframe_scanner.go\<close>: it finds, in a raw
  transport stream, the byte offsets at which a segment may start. Offsets count the bytes fed so far.
  A slice without payload is the empty list.
\<close>

subsection \<open>State\<close>

definition tsPacketSize :: nat where "tsPacketSize = 188"
definition pesScanCap :: int where "pesScanCap = 64 * 1024"
definition patIDRMaxGap :: int where "patIDRMaxGap = 256 * 1024"

record TsScanner =
  kf_pmtPID :: "16 word"
  kf_videoPID :: "16 word"
  kf_videoCodec :: AVCodec
  kf_feedOffset :: int
  kf_lastPATOffset :: int
  kf_pesBuf :: "byte list"
  kf_pesStartOffset :: int
  kf_LastIDROffset :: int

definition newTSKeyframeScanner :: TsScanner where
  "newTSKeyframeScanner = \<lparr>kf_pmtPID = 0, kf_videoPID = 0, kf_videoCodec = AVCodecUnknown, kf_feedOffset = 0,
     kf_lastPATOffset = -1, kf_pesBuf = [], kf_pesStartOffset = 0, kf_LastIDROffset = -1\<rparr>"

subsection \<open>Sections\<close>

definition u16 :: "byte \<Rightarrow> byte \<Rightarrow> 16 word" where
  "u16 hi lo = or (push_bit 8 (ucast hi)) (ucast lo)"

definition tsPayload :: "byte list \<Rightarrow> byte list" where
  "tsPayload pkt =
     (let adaptCtrl = and (drop_bit 4 (pkt ! 3)) 3 in
      if and adaptCtrl 1 = 0 then []
      else if and adaptCtrl 2 \<noteq> 0 then
        (if length pkt \<le> 4 then []
         else let off = 4 + (1 + unat (pkt ! 4)) in if length pkt \<le> off then [] else drop off pkt)
      else drop 4 pkt)"

text \<open>The loops over a section: the first program that is not the network, the first video stream.\<close>

function pat_loop :: "byte list \<Rightarrow> nat \<Rightarrow> 16 word option" where
  "pat_loop section i =
     (if i + 4 \<le> length section
      then (if u16 (section ! i) (section ! (i + 1)) = 0 then pat_loop section (i + 4)
            else Some (u16 (and (section ! (i + 2)) 0x1F) (section ! (i + 3))))
      else None)"
  by pat_completeness auto
termination by (relation "measure (\<lambda>(s, i). length s - i)") auto

function pmt_loop :: "byte list \<Rightarrow> nat \<Rightarrow> (16 word \<times> AVCodec) option" where
  "pmt_loop section pos =
     (if pos + 5 \<le> length section
      then
        let streamType = section ! pos;
            esPID = u16 (and (section ! (pos + 1)) 0x1F) (section ! (pos + 2));
            esInfoLen = unat (u16 (and (section ! (pos + 3)) 0x0F) (section ! (pos + 4)))
        in if streamType = 0x1B then Some (esPID, AVCodecH264)
           else if streamType = 0x24 then Some (esPID, AVCodecH265)
           else pmt_loop section (pos + (5 + esInfoLen))
      else None)"
  by pat_completeness auto
termination by (relation "measure (\<lambda>(s, i). length s - i)") auto

definition parsePAT :: "byte list \<Rightarrow> TsScanner \<Rightarrow> TsScanner" where
  "parsePAT pkt s =
     (let payload = tsPayload pkt in
      if length payload < 1 then s
      else
        let off = 1 + unat (payload ! 0) in
        if off + 12 > length payload then s
        else case pat_loop (drop off payload) 8 of None \<Rightarrow> s | Some pid \<Rightarrow> s\<lparr>kf_pmtPID := pid\<rparr>)"

definition parsePMT :: "byte list \<Rightarrow> TsScanner \<Rightarrow> TsScanner" where
  "parsePMT pkt s =
     (let payload = tsPayload pkt in
      if length payload < 1 then s
      else
        let off = 1 + unat (payload ! 0) in
        if off + 12 > length payload then s
        else
          let section = drop off payload in
          if length section < 12 then s
          else
            let progInfoLen = unat (u16 (and (section ! 10) 0x0F) (section ! 11)) in
            case pmt_loop section (12 + progInfoLen) of
              None \<Rightarrow> s
            | Some (pid, codec) \<Rightarrow> s\<lparr>kf_videoPID := pid, kf_videoCodec := codec\<rparr>)"

subsection \<open>Key frames\<close>

definition stripPESHeader :: "byte list \<Rightarrow> byte list option" where
  "stripPESHeader pes =
     (if length pes < 9 then None
      else if pes ! 0 \<noteq> 0 \<or> pes ! 1 \<noteq> 0 \<or> pes ! 2 \<noteq> 1 then None
      else
        let off = 9 + unat (pes ! 8) in
        if off > length pes then None else Some (drop off pes))"

text \<open>\<open>walk es\<close> is the loop from the first byte of \<open>es\<close> on: the header byte after every start code.\<close>

function walkAnnexBNALTypes :: "byte list \<Rightarrow> byte list" where
  "walkAnnexBNALTypes es =
     (if 3 < length es
      then
        (if es ! 0 = 0 \<and> es ! 1 = 0 \<and> es ! 2 = 0 \<and> es ! 3 = 1
         then (if 4 < length es then [es ! 4] else []) @ walkAnnexBNALTypes (drop 4 es)
         else if es ! 0 = 0 \<and> es ! 1 = 0 \<and> es ! 2 = 1
         then es ! 3 # walkAnnexBNALTypes (drop 3 es)
         else walkAnnexBNALTypes (drop 1 es))
      else [])"
  by pat_completeness auto
termination by (relation "measure length") auto

declare pat_loop.simps [simp del] pmt_loop.simps [simp del] walkAnnexBNALTypes.simps [simp del]

definition scanForH264IDR :: "byte list \<Rightarrow> bool" where
  "scanForH264IDR es \<longleftrightarrow> list_ex (\<lambda>t. and t 0x1F = 5) (walkAnnexBNALTypes es)"

definition scanForH265IRAP :: "byte list \<Rightarrow> bool" where
  "scanForH265IRAP es \<longleftrightarrow>
     list_ex (\<lambda>n. let t = and (drop_bit 1 n) 0x3F in 16 \<le> t \<and> t \<le> 23) (walkAnnexBNALTypes es)"

definition scan_isIDR :: "byte list \<Rightarrow> TsScanner \<Rightarrow> bool" where
  "scan_isIDR pes s =
     (case stripPESHeader pes of
        None \<Rightarrow> False
      | Some es \<Rightarrow>
          (if kf_videoCodec s = AVCodecH264 then scanForH264IDR es
           else if kf_videoCodec s = AVCodecH265 then scanForH265IRAP es
           else False))"

subsection \<open>Packets\<close>

definition finalize_pes :: "TsScanner \<Rightarrow> TsScanner" where
  "finalize_pes s =
     (let s1 = (if 0 < length (kf_pesBuf s) \<and> scan_isIDR (kf_pesBuf s) s
        then s\<lparr>kf_LastIDROffset :=
          (if 0 \<le> kf_lastPATOffset s \<and> kf_lastPATOffset s \<le> kf_pesStartOffset s \<and>
              kf_pesStartOffset s - kf_lastPATOffset s \<le> patIDRMaxGap
           then kf_lastPATOffset s else kf_pesStartOffset s)\<rparr>
        else s)
      in s1\<lparr>kf_pesBuf := [], kf_pesStartOffset := kf_feedOffset s1\<rparr>)"

definition processVideoPacket :: "byte list \<Rightarrow> bool \<Rightarrow> TsScanner \<Rightarrow> TsScanner" where
  "processVideoPacket pkt pusi s =
     (let s1 = (if pusi then finalize_pes s else s);
          payload = tsPayload pkt
      in if 0 < length payload \<and> int (length (kf_pesBuf s1)) < pesScanCap
         then
           let room = pesScanCap - int (length (kf_pesBuf s1))
           in s1\<lparr>kf_pesBuf := kf_pesBuf s1 @ (if int (length payload) > room then take (nat room) payload else payload)\<rparr>
         else s1)"

definition pkt_pusi :: "byte list \<Rightarrow> bool" where
  "pkt_pusi pkt \<longleftrightarrow> and (pkt ! 1) 0x40 \<noteq> 0"

definition pkt_pid :: "byte list \<Rightarrow> 16 word" where
  "pkt_pid pkt = u16 (and (pkt ! 1) 0x1F) (pkt ! 2)"

definition scan_packet :: "byte list \<Rightarrow> TsScanner \<Rightarrow> TsScanner" where
  "scan_packet pkt s =
     (if pkt ! 0 \<noteq> 0x47 then s
      else if pkt_pid pkt = 0 \<and> pkt_pusi pkt then parsePAT pkt (s\<lparr>kf_lastPATOffset := kf_feedOffset s\<rparr>)
      else if kf_pmtPID s \<noteq> 0 \<and> pkt_pid pkt = kf_pmtPID s \<and> pkt_pusi pkt then parsePMT pkt s
      else if kf_videoPID s \<noteq> 0 \<and> pkt_pid pkt = kf_videoPID s then processVideoPacket pkt (pkt_pusi pkt) s
      else s)"

definition process188 :: "byte list \<Rightarrow> TsScanner \<Rightarrow> TsScanner" where
  "process188 pkt s = (scan_packet pkt s)\<lparr>kf_feedOffset := kf_feedOffset (scan_packet pkt s) + int tsPacketSize\<rparr>"

function scan_Feed :: "byte list \<Rightarrow> TsScanner \<Rightarrow> TsScanner" where
  "scan_Feed chunk s =
     (if tsPacketSize \<le> length chunk then scan_Feed (drop tsPacketSize chunk) (process188 (take tsPacketSize chunk) s) else s)"
  by pat_completeness auto
termination by (relation "measure (length \<circ> fst)") (auto simp: tsPacketSize_def)

declare scan_Feed.simps [simp del]

lemma scan_Feed_packet: "length p = 188 \<Longrightarrow> scan_Feed p s = process188 p s"
  by (simp add: scan_Feed.simps [of p] scan_Feed.simps [of "[]"] tsPacketSize_def)

subsection \<open>Where a segment may start\<close>

text \<open>
  \<open>scan_ok fed s\<close>: \<open>s\<close> is a scanner that has been fed the bytes \<open>fed\<close>. Every offset it holds is the
  start of a packet of \<open>fed\<close> that begins a section or a PES, or zero.
\<close>

definition opens_at :: "byte list \<Rightarrow> int \<Rightarrow> bool" where
  "opens_at fed off \<longleftrightarrow> 0 \<le> off \<and> nat off + 188 \<le> length fed \<and> off mod 188 = 0 \<and>
     fed ! nat off = 0x47 \<and> pkt_pusi (drop (nat off) fed)"

definition scan_ok :: "byte list \<Rightarrow> TsScanner \<Rightarrow> bool" where
  "scan_ok fed s \<longleftrightarrow>
     kf_feedOffset s = int (length fed) \<and> length fed mod 188 = 0 \<and>
     (kf_lastPATOffset s < 0 \<or> opens_at fed (kf_lastPATOffset s)) \<and>
     (kf_pesStartOffset s = 0 \<or> opens_at fed (kf_pesStartOffset s)) \<and>
     (kf_LastIDROffset s \<le> 0 \<or> opens_at fed (kf_LastIDROffset s))"

lemma scan_ok_new: "scan_ok [] newTSKeyframeScanner"
  by (simp add: scan_ok_def newTSKeyframeScanner_def)

lemma opens_at_append: "opens_at fed off \<Longrightarrow> opens_at (fed @ p) off"
proof -
  assume o: "opens_at fed off"
  then have "1 < length (drop (nat off) fed)" unfolding opens_at_def length_drop by linarith
  then show ?thesis using o by (simp add: opens_at_def pkt_pusi_def nth_append)
qed

lemma opens_at_end:
  assumes "length fed mod 188 = 0" and "length p = 188" and "p ! 0 = 0x47" and "pkt_pusi p"
  shows "opens_at (fed @ p) (int (length fed))"
proof -
  have "int (length fed) mod 188 = 0" using assms(1) by (simp add: zmod_int [of "length fed" 188, simplified, symmetric])
  then show ?thesis using assms(2,3,4) by (simp add: opens_at_def nth_append)
qed

lemma parse_offsets [simp]:
  "kf_feedOffset (parsePAT p s) = kf_feedOffset s" "kf_lastPATOffset (parsePAT p s) = kf_lastPATOffset s"
  "kf_pesStartOffset (parsePAT p s) = kf_pesStartOffset s" "kf_LastIDROffset (parsePAT p s) = kf_LastIDROffset s"
  "kf_feedOffset (parsePMT p s) = kf_feedOffset s" "kf_lastPATOffset (parsePMT p s) = kf_lastPATOffset s"
  "kf_pesStartOffset (parsePMT p s) = kf_pesStartOffset s" "kf_LastIDROffset (parsePMT p s) = kf_LastIDROffset s"
  by (auto simp: parsePAT_def parsePMT_def Let_def split: option.splits)

lemma finalize_offsets [simp]:
  "kf_feedOffset (finalize_pes s) = kf_feedOffset s" "kf_lastPATOffset (finalize_pes s) = kf_lastPATOffset s"
  "kf_pesStartOffset (finalize_pes s) = kf_feedOffset s"
  by (simp_all add: finalize_pes_def Let_def)

lemma finalize_idr: "kf_LastIDROffset (finalize_pes s) \<in> {kf_LastIDROffset s, kf_lastPATOffset s, kf_pesStartOffset s}"
  by (auto simp: finalize_pes_def Let_def)

lemma video_offsets [simp]:
  "kf_feedOffset (processVideoPacket p b s) = kf_feedOffset s"
  "kf_lastPATOffset (processVideoPacket p b s) = kf_lastPATOffset s"
  "kf_pesStartOffset (processVideoPacket p b s) = (if b then kf_feedOffset s else kf_pesStartOffset s)"
  "kf_LastIDROffset (processVideoPacket p b s) = (if b then kf_LastIDROffset (finalize_pes s) else kf_LastIDROffset s)"
  by (simp_all add: processVideoPacket_def Let_def)

lemma scan_packet_feed [simp]: "kf_feedOffset (scan_packet p s) = kf_feedOffset s"
  by (simp add: scan_packet_def)

lemma process188_ok:
  assumes "scan_ok fed s" and "length p = 188"
  shows "scan_ok (fed @ p) (process188 p s)"
proof -
  note old = assms(1) [unfolded scan_ok_def]
  have keep: "kf_lastPATOffset s < 0 \<or> opens_at (fed @ p) (kf_lastPATOffset s)"
    "kf_pesStartOffset s = 0 \<or> opens_at (fed @ p) (kf_pesStartOffset s)"
    "kf_LastIDROffset s \<le> 0 \<or> opens_at (fed @ p) (kf_LastIDROffset s)"
    using old opens_at_append by blast+
  have new: "p ! 0 = 0x47 \<Longrightarrow> pkt_pusi p \<Longrightarrow> opens_at (fed @ p) (kf_feedOffset s)"
    using opens_at_end [of fed p] old assms(2) by simp
  have idr: "kf_LastIDROffset (finalize_pes s) \<le> 0 \<or> opens_at (fed @ p) (kf_LastIDROffset (finalize_pes s))"
    using finalize_idr [of s] keep by auto
  have "(kf_lastPATOffset (scan_packet p s) < 0 \<or> opens_at (fed @ p) (kf_lastPATOffset (scan_packet p s))) \<and>
      (kf_pesStartOffset (scan_packet p s) = 0 \<or> opens_at (fed @ p) (kf_pesStartOffset (scan_packet p s))) \<and>
      (kf_LastIDROffset (scan_packet p s) \<le> 0 \<or> opens_at (fed @ p) (kf_LastIDROffset (scan_packet p s)))"
  proof (cases "p ! 0 = 0x47")
    case True
    then show ?thesis using keep new idr by (cases "pkt_pusi p") (simp_all add: scan_packet_def)
  qed (use keep in \<open>simp add: scan_packet_def\<close>)
  then show ?thesis using old assms(2) by (simp add: scan_ok_def process188_def tsPacketSize_def)
qed

end
