(* ===== verification/Hls_Segmenter.thy ===== *)
theory Hls_Segmenter
  imports Ts_Scanner Dash_Bytes OS_Text
begin

text \<open>
  The live HLS publisher: \<^verbatim>\<open>internal/publisher/hls.go\<close> with \<^verbatim>\<open>ts_align.go\<close>, and the master playlist of a ladder,
  \<^verbatim>\<open>hls_abr.go\<close>. The segmenter is a record, what it has written a second one; its mutex makes every method
  atomic, and \<^verbatim>\<open>time.Now()\<close> is an argument, the same for all calls of one operation. \<open>ok n\<close> says whether the
  write of segment \<open>n\<close> and of the playlist after it succeed; removing a file succeeds. Durations are exact
  rationals, the code's are the nearest doubles. The muxer from access units to transport packets is a
  library; \<open>MuxLib\<close> holds its constructor and its write. Metrics and logging are left out.
\<close>

subsection \<open>State\<close>

record HlsSegEntry =
  he_name :: string
  he_dur :: rat
  he_disc :: bool

record HlsManifest =
  hm_target :: int
  hm_seq :: int
  hm_entries :: "HlsSegEntry list"

record HlsSegmenter =
  hs_segSec :: int
  hs_window :: int
  hs_history :: int
  hs_ephemeral :: bool
  hs_hasPath :: bool
  hs_abr :: bool
  hs_segBuf :: "byte list"
  hs_segStart :: "gotime option"
  hs_discNext :: bool
  hs_segStartMediaPTS :: int
  hs_lastMediaPTS :: int
  hs_hasMediaStart :: bool
  hs_segBufStartOffset :: int
  hs_scannedOffset :: int
  hs_segN :: nat
  hs_onDisk :: "HlsSegEntry list"
  hs_scanner :: "TsScanner option"
  hs_discardUntilIDR :: bool

text \<open>The directory and the playlist as written, and how often the ABR master was told of a segment.\<close>

record HlsWorld =
  hw_files :: "string \<Rightarrow> byte list option"
  hw_manifest :: "HlsManifest option"
  hw_notified :: nat

record 'm MuxLib =
  mx_new :: 'm
  mx_write :: "AVPacket \<Rightarrow> 'm \<Rightarrow> 'm \<times> byte list list"

definition DefaultLiveSegmentSec :: int where "DefaultLiveSegmentSec = 2"
definition DefaultLiveWindow :: int where "DefaultLiveWindow = 12"
definition DefaultLiveHistory :: int where "DefaultLiveHistory = 0"

definition newHlsSegmenter :: "int \<Rightarrow> int \<Rightarrow> int \<Rightarrow> bool \<Rightarrow> bool \<Rightarrow> bool \<Rightarrow> HlsSegmenter" where
  "newHlsSegmenter segSec window history ephemeral hasPath abr =
     \<lparr>hs_segSec = (if segSec \<le> 0 then DefaultLiveSegmentSec else segSec),
      hs_window = (if window \<le> 0 then DefaultLiveWindow else window),
      hs_history = (if history < 0 then DefaultLiveHistory else history),
      hs_ephemeral = ephemeral, hs_hasPath = hasPath, hs_abr = abr, hs_segBuf = [], hs_segStart = None,
      hs_discNext = False, hs_segStartMediaPTS = 0, hs_lastMediaPTS = 0, hs_hasMediaStart = False,
      hs_segBufStartOffset = 0, hs_scannedOffset = 0, hs_segN = 0, hs_onDisk = [], hs_scanner = None,
      hs_discardUntilIDR = False\<rparr>"

subsection \<open>Writing a segment\<close>

definition windowTailEntries :: "HlsSegEntry list \<Rightarrow> int \<Rightarrow> HlsSegEntry list" where
  "windowTailEntries entries n =
     (if n \<le> 0 \<or> length entries = 0 then entries
      else if int (length entries) \<le> n then entries
      else drop (nat (int (length entries) - n)) entries)"

definition trimDiskLocked :: "HlsSegmenter \<times> HlsWorld \<Rightarrow> HlsSegmenter \<times> HlsWorld" where
  "trimDiskLocked pw =
     (case pw of (p, w) \<Rightarrow>
        let maxKeep = (if hs_window p + hs_history p < hs_window p then hs_window p else hs_window p + hs_history p);
            k = nat (int (length (hs_onDisk p)) - maxKeep)
        in if \<not> hs_ephemeral p then (p, w)
           else (p\<lparr>hs_onDisk := drop k (hs_onDisk p)\<rparr>,
                 w\<lparr>hw_files := fold (\<lambda>e m. m(he_name e := None)) (take k (hs_onDisk p)) (hw_files w)\<rparr>))"

definition hls_manifest :: "HlsSegmenter \<Rightarrow> HlsManifest" where
  "hls_manifest p =
     (let win = windowTailEntries (hs_onDisk p) (hs_window p);
          mediaSeq = int (hs_segN p) - int (length win)
      in \<lparr>hm_target = fold (\<lambda>e t. let c = \<lfloor>he_dur e\<rfloor> + 1 in if c > t then c else t) win (hs_segSec p + 1),
          hm_seq = (if mediaSeq < 0 then 0 else mediaSeq), hm_entries = win\<rparr>)"

definition writeManifestLocked :: "bool \<Rightarrow> HlsSegmenter \<Rightarrow> HlsWorld \<Rightarrow> HlsWorld" where
  "writeManifestLocked mok p w =
     (if \<not> hs_hasPath p \<and> \<not> hs_abr p then w
      else
        let w1 = (if hs_abr p then w\<lparr>hw_notified := hw_notified w + 1\<rparr> else w)
        in if hs_hasPath p \<and> mok then w1\<lparr>hw_manifest := Some (hls_manifest p)\<rparr> else w1)"

definition seg_file :: "nat \<Rightarrow> string" where
  "seg_file n = ''seg_'' @ zero_pad 6 n @ ''.ts''"

text \<open>\<^verbatim>\<open>time.Since\<close> of the zero time saturates.\<close>

definition since :: "gotime \<Rightarrow> gotime option \<Rightarrow> duration" where
  "since now t = (case t of None \<Rightarrow> 2 ^ 63 - 1 | Some t0 \<Rightarrow> now - t0)"

definition seg_duration :: "gotime \<Rightarrow> HlsSegmenter \<Rightarrow> rat" where
  "seg_duration now p =
     (let d = (if hs_hasMediaStart p \<and> hs_lastMediaPTS p > hs_segStartMediaPTS p
               then of_int (hs_lastMediaPTS p - hs_segStartMediaPTS p) / 1000
               else of_int (since now (hs_segStart p)) / 1000000000)
      in if d \<le> 0 then of_int (hs_segSec p) else d)"

definition reset_segment :: "HlsSegmenter \<Rightarrow> HlsSegmenter" where
  "reset_segment p =
     (let p1 = p\<lparr>hs_segN := hs_segN p + 1, hs_segBuf := [], hs_segStart := None, hs_hasMediaStart := False,
            hs_segStartMediaPTS := 0, hs_lastMediaPTS := 0, hs_discNext := False\<rparr>
      in case hs_scanner p of
           None \<Rightarrow> p1
         | Some sc \<Rightarrow> p1\<lparr>hs_segBufStartOffset := kf_feedOffset sc, hs_scannedOffset := kf_feedOffset sc\<rparr>)"

definition flushLocked :: "(nat \<Rightarrow> bool \<times> bool) \<Rightarrow> gotime \<Rightarrow> HlsSegmenter \<times> HlsWorld \<Rightarrow> HlsSegmenter \<times> HlsWorld" where
  "flushLocked ok now pw =
     (case pw of (p, w) \<Rightarrow>
        if length (hs_segBuf p) = 0 then (p, w)
        else
          let dur = seg_duration now p;
              n = hs_segN p + 1;
              p1 = reset_segment p
          in if \<not> fst (ok n) then (p1, w)
             else
               case trimDiskLocked
                      (p1\<lparr>hs_onDisk := hs_onDisk p1 @ [\<lparr>he_name = seg_file n, he_dur = dur, he_disc = hs_discNext p\<rparr>]\<rparr>,
                       w\<lparr>hw_files := (hw_files w)(seg_file n := Some (hs_segBuf p))\<rparr>) of (p2, w2) \<Rightarrow>
                 (p2, writeManifestLocked (snd (ok n)) p2 w2))"

definition doFlush :: "(nat \<Rightarrow> bool \<times> bool) \<Rightarrow> gotime \<Rightarrow> HlsSegmenter \<times> HlsWorld \<Rightarrow> HlsSegmenter \<times> HlsWorld" where
  "doFlush ok now pw = (if 0 < length (hs_segBuf (fst pw)) then flushLocked ok now pw else pw)"

text \<open>The split at a key frame: the bytes up to it are the segment, the rest starts the next one.\<close>

definition tryFlushAtIDRLocked ::
  "(nat \<Rightarrow> bool \<times> bool) \<Rightarrow> gotime \<Rightarrow> TsScanner \<Rightarrow> HlsSegmenter \<times> HlsWorld \<Rightarrow> bool \<times> HlsSegmenter \<times> HlsWorld" where
  "tryFlushAtIDRLocked ok now sc pw =
     (case pw of (p, w) \<Rightarrow>
        let idrAbs = kf_LastIDROffset sc in
        if idrAbs \<le> hs_scannedOffset p then (False, p, w)
        else
          let split = idrAbs - hs_segBufStartOffset p in
          if split \<le> 0 \<or> split \<ge> int (length (hs_segBuf p)) then (False, p\<lparr>hs_scannedOffset := idrAbs\<rparr>, w)
          else
            let carry = drop (nat split) (hs_segBuf p) in
            case flushLocked ok now (p\<lparr>hs_segBuf := take (nat split) (hs_segBuf p)\<rparr>, w) of (p1, w1) \<Rightarrow>
              (True, p1\<lparr>hs_segBuf := carry, hs_segStart := Some now, hs_segBufStartOffset := idrAbs,
                        hs_scannedOffset := idrAbs\<rparr>, w1))"

definition tickFlush ::
  "(nat \<Rightarrow> bool \<times> bool) \<Rightarrow> gotime \<Rightarrow> duration \<Rightarrow> duration \<Rightarrow> HlsSegmenter \<times> HlsWorld \<Rightarrow> HlsSegmenter \<times> HlsWorld" where
  "tickFlush ok now maxDur segDur pw =
     (case pw of (p, w) \<Rightarrow>
        if length (hs_segBuf p) = 0 \<or> hs_segStart p = None then (p, w)
        else
          let elapsed = since now (hs_segStart p);
              tried = (case hs_scanner p of
                  Some sc \<Rightarrow> if elapsed \<ge> segDur then tryFlushAtIDRLocked ok now sc (p, w) else (False, p, w)
                | None \<Rightarrow> (False, p, w))
          in case tried of (done_, p1, w1) \<Rightarrow>
               if done_ then (p1, w1)
               else if elapsed \<ge> maxDur then
                 (case flushLocked ok now (p1, w1) of (p2, w2) \<Rightarrow>
                    (if hs_scanner p2 = None then p2\<lparr>hs_discardUntilIDR := True, hs_discNext := True\<rparr> else p2, w2))
               else (p1, w1))"

subsection \<open>Packets\<close>

definition shouldDropAVPacket :: "AVPacket \<Rightarrow> HlsSegmenter \<Rightarrow> bool \<times> HlsSegmenter" where
  "shouldDropAVPacket av p =
     (if \<not> hs_discardUntilIDR p then (False, p)
      else if \<not> IsVideo (av_Codec av) then (False, p)
      else if av_KeyFrame av then (False, p\<lparr>hs_discardUntilIDR := False\<rparr>)
      else (True, p))"

definition recordMediaTime :: "AVPacket \<Rightarrow> HlsSegmenter \<Rightarrow> HlsSegmenter" where
  "recordMediaTime av p =
     (let p1 = (if \<not> hs_hasMediaStart p then p\<lparr>hs_segStartMediaPTS := av_PTSms av, hs_hasMediaStart := True\<rparr> else p)
      in p1\<lparr>hs_lastMediaPTS := av_PTSms av\<rparr>)"

text \<open>The difference of two \<^verbatim>\<open>uint64\<close> times wraps.\<close>

definition maybeFlushAtKeyframe ::
  "(nat \<Rightarrow> bool \<times> bool) \<Rightarrow> gotime \<Rightarrow> AVPacket \<Rightarrow> duration \<Rightarrow> HlsSegmenter \<times> HlsWorld \<Rightarrow> HlsSegmenter \<times> HlsWorld" where
  "maybeFlushAtKeyframe ok now av segDur pw =
     (case pw of (p, w) \<Rightarrow>
        if \<not> av_KeyFrame av then (p, w)
        else if length (hs_segBuf p) = 0 \<or> \<not> hs_hasMediaStart p then (p, w)
        else if (av_PTSms av - hs_segStartMediaPTS p) mod 2 ^ 64 < go_div segDur (millis 1) then (p, w)
        else case flushLocked ok now (p, w) of (p1, w1) \<Rightarrow>
          (p1\<lparr>hs_segStartMediaPTS := av_PTSms av, hs_lastMediaPTS := av_PTSms av, hs_hasMediaStart := True\<rparr>, w1))"

definition appendSegment188 :: "gotime \<Rightarrow> bool \<Rightarrow> byte list \<Rightarrow> HlsSegmenter \<Rightarrow> HlsSegmenter" where
  "appendSegment188 now rawTS pkt p =
     (let p1 = (if hs_segStart p = None then p\<lparr>hs_segStart := Some now\<rparr> else p);
          p2 = p1\<lparr>hs_segBuf := hs_segBuf p1 @ pkt\<rparr>
      in if rawTS
         then p2\<lparr>hs_scanner := Some (scan_Feed pkt
                  (case hs_scanner p2 of None \<Rightarrow> newTSKeyframeScanner | Some sc \<Rightarrow> sc))\<rparr>
         else p2)"

text \<open>
  \<^verbatim>\<open>alignedFeed\<close> with a callback that never stops: the loop is that of the DASH aligner (\<open>align_loop\<close>), the
  packets are its output cut into pieces of 188 bytes.
\<close>

function packets188 :: "byte list \<Rightarrow> byte list list" where
  "packets188 bs = (if 188 \<le> length bs then take 188 bs # packets188 (drop 188 bs) else [])"
  by pat_completeness auto
termination by (relation "measure length") auto

declare packets188.simps [simp del]

definition alignedFeed :: "byte list \<Rightarrow> byte list \<Rightarrow> byte list \<times> byte list list" where
  "alignedFeed b carry = (case align_loop (carry @ b) [] of (c, out) \<Rightarrow> (c, packets188 out))"

record 'm HlsRun =
  hl_seg :: HlsSegmenter
  hl_world :: HlsWorld
  hl_mux :: "'m option"
  hl_carry :: "byte list"

definition feed_segment :: "gotime \<Rightarrow> bool \<Rightarrow> byte list \<Rightarrow> 'm HlsRun \<Rightarrow> 'm HlsRun" where
  "feed_segment now rawTS b r =
     (case alignedFeed b (hl_carry r) of (c, pkts) \<Rightarrow>
        r\<lparr>hl_carry := c, hl_seg := fold (appendSegment188 now rawTS) pkts (hl_seg r)\<rparr>)"

definition FeedWirePacket :: "'m MuxLib \<Rightarrow> gotime \<Rightarrow> Packet \<Rightarrow> 'm HlsRun \<Rightarrow> 'm HlsRun" where
  "FeedWirePacket lib now pkt r =
     (let rawTS = (0 < length (pk_TS pkt) \<and> pk_AV pkt = None) in
      if 0 < length (pk_TS pkt) then feed_segment now rawTS (pk_TS pkt) r
      else case pk_AV pkt of
          None \<Rightarrow> r
        | Some av \<Rightarrow>
            if length (av_Data av) = 0 then r
            else case mx_write lib av (case hl_mux r of None \<Rightarrow> mx_new lib | Some m \<Rightarrow> m) of (m, chunks) \<Rightarrow>
              fold (feed_segment now rawTS) chunks (r\<lparr>hl_mux := Some m\<rparr>))"

definition hls_onSessionBoundary :: "(nat \<Rightarrow> bool \<times> bool) \<Rightarrow> gotime \<Rightarrow> 'm HlsRun \<Rightarrow> 'm HlsRun" where
  "hls_onSessionBoundary ok now r =
     (case (if 0 < length (hs_segBuf (hl_seg r)) then flushLocked ok now (hl_seg r, hl_world r)
            else (hl_seg r, hl_world r)) of (p, w) \<Rightarrow>
        r\<lparr>hl_seg := p\<lparr>hs_discNext := True, hs_discardUntilIDR := False\<rparr>, hl_world := w, hl_mux := None, hl_carry := []\<rparr>)"

definition handleIncoming ::
  "(nat \<Rightarrow> bool \<times> bool) \<Rightarrow> 'm MuxLib \<Rightarrow> duration \<Rightarrow> gotime \<Rightarrow> Packet \<Rightarrow> 'm HlsRun \<Rightarrow> 'm HlsRun" where
  "handleIncoming ok lib segDur now pkt r =
     (let r1 = (if pk_SessionStart pkt then hls_onSessionBoundary ok now r else r) in
      case pk_AV pkt of
        None \<Rightarrow> FeedWirePacket lib now pkt r1
      | Some av \<Rightarrow>
          case shouldDropAVPacket av (hl_seg r1) of (drop_, p) \<Rightarrow>
          if drop_ then r1\<lparr>hl_seg := p\<rparr>
          else case maybeFlushAtKeyframe ok now av segDur (recordMediaTime av p, hl_world r1) of (p1, w1) \<Rightarrow>
            FeedWirePacket lib now pkt (r1\<lparr>hl_seg := p1, hl_world := w1\<rparr>))"

datatype HlsOp = HPacket Packet gotime | HTick gotime | HStop gotime

definition hls_step :: "(nat \<Rightarrow> bool \<times> bool) \<Rightarrow> 'm MuxLib \<Rightarrow> HlsOp \<Rightarrow> 'm HlsRun \<Rightarrow> 'm HlsRun" where
  "hls_step ok lib op r =
     (let segDur = seconds (hs_segSec (hl_seg r)); maxDur = segDur * 4 in
      case op of
        HPacket pkt now \<Rightarrow> handleIncoming ok lib segDur now pkt r
      | HTick now \<Rightarrow> (case tickFlush ok now maxDur segDur (hl_seg r, hl_world r) of (p, w) \<Rightarrow> r\<lparr>hl_seg := p, hl_world := w\<rparr>)
      | HStop now \<Rightarrow> (case doFlush ok now (hl_seg r, hl_world r) of (p, w) \<Rightarrow> r\<lparr>hl_seg := p, hl_world := w\<rparr>))"

definition hls_run :: "(nat \<Rightarrow> bool \<times> bool) \<Rightarrow> 'm MuxLib \<Rightarrow> HlsOp list \<Rightarrow> 'm HlsRun \<Rightarrow> 'm HlsRun" where
  "hls_run ok lib ops r = fold (hls_step ok lib) ops r"

definition empty_dir :: HlsWorld where
  "empty_dir = \<lparr>hw_files = (\<lambda>_. None), hw_manifest = None, hw_notified = 0\<rparr>"

definition hls_start :: "HlsSegmenter \<Rightarrow> 'm HlsRun" where
  "hls_start p = \<lparr>hl_seg = p, hl_world = empty_dir, hl_mux = None, hl_carry = []\<rparr>"

subsection \<open>Playlist and directory\<close>

lemma seg_file_eq [simp]: "seg_file m = seg_file n \<longleftrightarrow> m = n"
  by (simp add: seg_file_def zero_pad_inj)

lemma fold_remove: "fold (\<lambda>e m. m(he_name e := None)) es m x = (if x \<in> he_name ` set es then None else m x)"
  by (induction es arbitrary: m) auto

text \<open>
  \<open>hls_inv ok\<close>: the listed segments are numbered upwards and on disk; the playlist, if every write of it
  succeeds, lists the last ones; if every segment could be written too, no number is missing.
\<close>

definition hls_listed :: "HlsSegmenter \<Rightarrow> HlsWorld \<Rightarrow> nat list \<Rightarrow> bool" where
  "hls_listed p w ks \<longleftrightarrow> sorted_wrt (<) ks \<and> (\<forall>k \<in> set ks. k \<le> hs_segN p \<and> hw_files w (seg_file k) \<noteq> None) \<and>
     map he_name (hs_onDisk p) = map seg_file ks"

definition playlist_ok :: "(nat \<Rightarrow> bool \<times> bool) \<Rightarrow> HlsSegmenter \<Rightarrow> HlsManifest \<Rightarrow> bool" where
  "playlist_ok ok p m \<longleftrightarrow> hm_entries m = windowTailEntries (hs_onDisk p) (hs_window p) \<and>
     ((\<forall>n. fst (ok n)) \<longrightarrow> hm_seq m = int (hs_segN p) - int (length (hm_entries m)))"

definition hls_inv :: "(nat \<Rightarrow> bool \<times> bool) \<Rightarrow> HlsSegmenter \<Rightarrow> HlsWorld \<Rightarrow> bool" where
  "hls_inv ok p w \<longleftrightarrow> 0 < hs_window p \<and>
     (\<exists>ks. hls_listed p w ks \<and> ((\<forall>n. fst (ok n)) \<longrightarrow> ks = [hs_segN p + 1 - length ks ..< hs_segN p + 1] \<and> length ks \<le> hs_segN p)) \<and>
     (\<not> hs_hasPath p \<longrightarrow> hw_manifest w = None) \<and>
     (\<forall>m. hw_manifest w = Some m \<longrightarrow> (\<forall>n. snd (ok n)) \<longrightarrow> playlist_ok ok p m)"

lemma windowTail_length: "length (windowTailEntries es n) \<le> length es"
  by (simp add: windowTailEntries_def)

lemma hls_manifest_ok:
  assumes "(\<forall>n. fst (ok n)) \<longrightarrow> length (hs_onDisk p) \<le> hs_segN p"
  shows "playlist_ok ok p (hls_manifest p)"
  using assms windowTail_length [of "hs_onDisk p" "hs_window p"] by (auto simp: playlist_ok_def hls_manifest_def Let_def)

lemma reset_segment_keeps [simp]:
  "hs_onDisk (reset_segment p) = hs_onDisk p" "hs_segN (reset_segment p) = Suc (hs_segN p)"
  "hs_window (reset_segment p) = hs_window p" "hs_history (reset_segment p) = hs_history p"
  "hs_hasPath (reset_segment p) = hs_hasPath p" "hs_abr (reset_segment p) = hs_abr p"
  "hs_ephemeral (reset_segment p) = hs_ephemeral p" "hs_scanner (reset_segment p) = hs_scanner p"
  "hs_segBuf (reset_segment p) = []" "hs_segSec (reset_segment p) = hs_segSec p"
  by (simp_all add: reset_segment_def Let_def split: option.splits)

lemma trim_listed:
  assumes "hls_listed p w ks" and "trimDiskLocked (p, w) = (p2, w2)"
  shows "\<exists>k. hls_listed p2 w2 (drop k ks) \<and> p2 = p\<lparr>hs_onDisk := drop k (hs_onDisk p)\<rparr> \<and> hw_manifest w2 = hw_manifest w \<and>
    (k = 0 \<or> hs_ephemeral p) \<and> (\<forall>x. hw_files w2 x = hw_files w x \<or> hs_ephemeral p \<and> hw_files w2 x = None)"
proof (cases "hs_ephemeral p")
  case False
  then show ?thesis using assms by (intro exI [of _ 0]) (simp add: trimDiskLocked_def Let_def)
next
  case True
  define k where "k = nat (int (length (hs_onDisk p)) -
      (if hs_window p + hs_history p < hs_window p then hs_window p else hs_window p + hs_history p))"
  have p2: "p2 = p\<lparr>hs_onDisk := drop k (hs_onDisk p)\<rparr>"
    and w2: "w2 = w\<lparr>hw_files := fold (\<lambda>e m. m(he_name e := None)) (take k (hs_onDisk p)) (hw_files w)\<rparr>"
    using assms(2) True by (simp_all add: trimDiskLocked_def Let_def k_def)
  have names: "map he_name (hs_onDisk p) = map seg_file ks" and sorted: "sorted_wrt (<) ks" using assms(1) by (simp_all add: hls_listed_def)
  have gone: "he_name ` set (take k (hs_onDisk p)) = seg_file ` set (take k ks)"
    using names by (metis set_map take_map)
  have "j \<notin> set (take k ks)" if "j \<in> set (drop k ks)" for j
  proof
    assume "j \<in> set (take k ks)"
    moreover have "sorted_wrt (<) (take k ks @ drop k ks)" using sorted by simp
    ultimately have "j < j" using that unfolding sorted_wrt_append by blast
    then show False by simp
  qed
  moreover have "map he_name (drop k (hs_onDisk p)) = map seg_file (drop k ks)" using names by (metis drop_map)
  ultimately have "hls_listed p2 w2 (drop k ks)"
    using assms(1) sorted gone
    by (auto simp: hls_listed_def p2 w2 fold_remove sorted_wrt_drop dest: in_set_dropD)
  then show ?thesis using p2 w2 True by (intro exI [of _ k]) (simp add: fold_remove)
qed

lemma hls_inv_cong:
  assumes "hls_inv ok p w" and "hs_onDisk p' = hs_onDisk p" and "hs_segN p' = hs_segN p" and "hs_window p' = hs_window p"
    and "hs_hasPath p' = hs_hasPath p"
  shows "hls_inv ok p' w"
  using assms by (simp add: hls_inv_def hls_listed_def playlist_ok_def)

lemma flush_inv:
  assumes inv: "hls_inv ok p w" and run: "flushLocked ok now (p, w) = (p', w')"
  shows "hls_inv ok p' w'"
proof (cases "length (hs_segBuf p) = 0 \<or> \<not> fst (ok (hs_segN p + 1))")
  case True
  obtain ks where ks: "hls_listed p w ks" "(\<forall>n. fst (ok n)) \<longrightarrow> ks = [hs_segN p + 1 - length ks ..< hs_segN p + 1] \<and> length ks \<le> hs_segN p"
    using inv by (auto simp: hls_inv_def)
  show ?thesis
  proof (cases "length (hs_segBuf p) = 0")
    case True
    then show ?thesis using inv run by (simp add: flushLocked_def)
  next
    case False
    with True have nok: "\<not> (\<forall>n. fst (ok n))" by blast
    have "p' = reset_segment p" "w' = w" using run True False by (simp_all add: flushLocked_def Let_def)
    moreover have "hls_listed (reset_segment p) w ks" using ks(1) by (auto simp: hls_listed_def)
    ultimately show ?thesis using inv nok by (auto simp: hls_inv_def playlist_ok_def)
  qed
next
  case False
  let ?n = "hs_segN p + 1" and ?e = "\<lparr>he_name = seg_file (hs_segN p + 1), he_dur = seg_duration now p, he_disc = hs_discNext p\<rparr>"
  let ?p1 = "(reset_segment p)\<lparr>hs_onDisk := hs_onDisk p @ [?e]\<rparr>"
  let ?w1 = "w\<lparr>hw_files := (hw_files w)(seg_file ?n := Some (hs_segBuf p))\<rparr>"
  obtain p2 w2 where t: "trimDiskLocked (?p1, ?w1) = (p2, w2)" by (metis surj_pair)
  have r: "p' = p2" "w' = writeManifestLocked (snd (ok ?n)) p2 w2"
    using run False t by (auto simp: flushLocked_def Let_def)
  obtain ks where ks: "hls_listed p w ks" "(\<forall>n. fst (ok n)) \<longrightarrow> ks = [hs_segN p + 1 - length ks ..< hs_segN p + 1] \<and> length ks \<le> hs_segN p"
    using inv by (auto simp: hls_inv_def)
  have l1: "hls_listed ?p1 ?w1 (ks @ [?n])" using ks(1) by (auto simp: hls_listed_def sorted_wrt_append)
  from trim_listed [OF l1 t] obtain k where k: "hls_listed p2 w2 (drop k (ks @ [?n]))"
      "p2 = ?p1\<lparr>hs_onDisk := drop k (hs_onDisk ?p1)\<rparr>" "hw_manifest w2 = hw_manifest w" by auto
  have files: "hw_files w' = hw_files w2" by (simp add: r(2) writeManifestLocked_def Let_def)
  define ls where "ls = drop k (ks @ [?n])"
  have all: "(\<forall>n. fst (ok n)) \<longrightarrow> ls = [?n + 1 - length ls ..< ?n + 1] \<and> length ls \<le> ?n"
  proof
    assume "\<forall>n. fst (ok n)"
    with ks(2) have e: "ks = [hs_segN p + 1 - length ks ..< hs_segN p + 1]" "length ks \<le> hs_segN p" by auto
    have "ks @ [?n] = [hs_segN p + 1 - length ks ..< Suc ?n]" by (subst e(1)) simp
    then have "ls = [hs_segN p + 1 - length ks + k ..< Suc ?n]" by (simp only: drop_upt ls_def)
    moreover have "length ls = length ks + 1 - k" by (simp add: ls_def)
    ultimately show "ls = [?n + 1 - length ls ..< ?n + 1] \<and> length ls \<le> ?n" using e(2) by (cases "k \<le> length ks") auto
  qed
  have p2: "hs_segN p2 = ?n" "hs_window p2 = hs_window p" "hs_hasPath p2 = hs_hasPath p" using k(2) by simp_all
  have lst: "hls_listed p2 w' ls" using k(1) files by (simp add: hls_listed_def ls_def)
  then have "length (hs_onDisk p2) = length ls" unfolding hls_listed_def by (metis length_map)
  then have man: "playlist_ok ok p2 (hls_manifest p2)" using all p2(1) by (intro hls_manifest_ok) auto
  have m: "hw_manifest w' = (if hs_hasPath p \<and> snd (ok ?n) then Some (hls_manifest p2) else hw_manifest w)"
    using k(3) p2(3) by (auto simp: r(2) writeManifestLocked_def Let_def)
  show ?thesis unfolding hls_inv_def r(1) p2
  proof (intro conjI)
    show "\<exists>ks. hls_listed p2 w' ks \<and> ((\<forall>n. fst (ok n)) \<longrightarrow> ks = [?n + 1 - length ks ..< ?n + 1] \<and> length ks \<le> ?n)"
      using lst all by blast
    show "\<forall>m. hw_manifest w' = Some m \<longrightarrow> (\<forall>n. snd (ok n)) \<longrightarrow> playlist_ok ok p2 m"
      using man m inv by (auto simp: hls_inv_def split: if_splits)
  qed (use inv m in \<open>simp_all add: hls_inv_def\<close>)
qed

lemma other_fields [simp]:
  "hs_onDisk (recordMediaTime av p) = hs_onDisk p" "hs_segN (recordMediaTime av p) = hs_segN p"
  "hs_window (recordMediaTime av p) = hs_window p" "hs_hasPath (recordMediaTime av p) = hs_hasPath p"
  "hs_onDisk (snd (shouldDropAVPacket av p)) = hs_onDisk p" "hs_segN (snd (shouldDropAVPacket av p)) = hs_segN p"
  "hs_window (snd (shouldDropAVPacket av p)) = hs_window p" "hs_hasPath (snd (shouldDropAVPacket av p)) = hs_hasPath p"
  "hs_onDisk (appendSegment188 now b pkt p) = hs_onDisk p" "hs_segN (appendSegment188 now b pkt p) = hs_segN p"
  "hs_window (appendSegment188 now b pkt p) = hs_window p" "hs_hasPath (appendSegment188 now b pkt p) = hs_hasPath p"
  by (simp_all add: recordMediaTime_def shouldDropAVPacket_def appendSegment188_def Let_def)

lemma try_inv:
  assumes "hls_inv ok p w" and "tryFlushAtIDRLocked ok now sc (p, w) = (b, p', w')"
  shows "hls_inv ok p' w'"
proof -
  let ?split = "kf_LastIDROffset sc - hs_segBufStartOffset p"
  obtain p1 w1 where f: "flushLocked ok now (p\<lparr>hs_segBuf := take (nat ?split) (hs_segBuf p)\<rparr>, w) = (p1, w1)" by (metis surj_pair)
  have "hls_inv ok (p\<lparr>hs_segBuf := take (nat ?split) (hs_segBuf p)\<rparr>) w" by (rule hls_inv_cong [OF assms(1)]) simp_all
  from flush_inv [OF this f] have i: "hls_inv ok p1 w1" .
  from assms(2) f have "hls_inv ok p w \<and> hs_onDisk p' = hs_onDisk p \<and> hs_segN p' = hs_segN p \<and> hs_window p' = hs_window p \<and>
      hs_hasPath p' = hs_hasPath p \<and> w' = w \<or>
    hs_onDisk p' = hs_onDisk p1 \<and> hs_segN p' = hs_segN p1 \<and> hs_window p' = hs_window p1 \<and> hs_hasPath p' = hs_hasPath p1 \<and> w' = w1"
    using assms(1) by (auto simp: tryFlushAtIDRLocked_def Let_def split: if_splits)
  then show ?thesis using hls_inv_cong [OF i] hls_inv_cong [OF assms(1)] by blast
qed

lemma tick_inv:
  assumes "hls_inv ok p w" and "tickFlush ok now maxDur segDur (p, w) = (p', w')"
  shows "hls_inv ok p' w'"
proof (cases "length (hs_segBuf p) = 0 \<or> hs_segStart p = None")
  case True
  then show ?thesis using assms by (auto simp: tickFlush_def)
next
  case False
  then obtain y where y: "hs_segStart p = Some y" by auto
  obtain b p1 w1 where t: "(case hs_scanner p of
      Some sc \<Rightarrow> if since now (Some y) \<ge> segDur then tryFlushAtIDRLocked ok now sc (p, w) else (False, p, w)
    | None \<Rightarrow> (False, p, w)) = (b, p1, w1)" by (metis surj_pair)
  then have i: "hls_inv ok p1 w1" using assms(1) try_inv by (auto split: option.splits if_splits)
  obtain p2 w2 where f: "flushLocked ok now (p1, w1) = (p2, w2)" by (metis surj_pair)
  from flush_inv [OF i f] have i2: "hls_inv ok p2 w2" .
  have "p' = p1 \<and> w' = w1 \<or> p' = p2 \<and> w' = w2 \<or> p' = p2\<lparr>hs_discardUntilIDR := True, hs_discNext := True\<rparr> \<and> w' = w2"
    using assms(2) False f unfolding tickFlush_def Let_def y prod.case t by (auto split: if_splits)
  then show ?thesis using i i2 hls_inv_cong [OF i2, of "p2\<lparr>hs_discardUntilIDR := True, hs_discNext := True\<rparr>"] by auto
qed

lemma feed_inv: "hls_inv ok (hl_seg r) (hl_world r) \<Longrightarrow> hls_inv ok (hl_seg (feed_segment now b bs r)) (hl_world (feed_segment now b bs r))"
proof -
  assume i: "hls_inv ok (hl_seg r) (hl_world r)"
  have "hls_inv ok (fold (appendSegment188 now b) pkts p) w" if "hls_inv ok p w" for pkts p w
    using that by (induction pkts arbitrary: p) (simp_all add: hls_inv_cong)
  then show ?thesis using i by (simp add: feed_segment_def split: prod.splits)
qed

lemma wire_inv: "hls_inv ok (hl_seg r) (hl_world r) \<Longrightarrow> hls_inv ok (hl_seg (FeedWirePacket lib now pkt r)) (hl_world (FeedWirePacket lib now pkt r))"
proof -
  assume i: "hls_inv ok (hl_seg r) (hl_world r)"
  have "hls_inv ok (hl_seg (fold (feed_segment now b) cs r)) (hl_world (fold (feed_segment now b) cs r))"
    if "hls_inv ok (hl_seg r) (hl_world r)" for b cs and r :: "'a HlsRun"
    using that by (induction cs arbitrary: r) (simp_all add: feed_inv)
  then show ?thesis using i by (simp add: FeedWirePacket_def feed_inv Let_def split: option.split prod.split)
qed

lemma boundary_inv:
  "hls_inv ok (hl_seg r) (hl_world r) \<Longrightarrow> hls_inv ok (hl_seg (hls_onSessionBoundary ok now r)) (hl_world (hls_onSessionBoundary ok now r))"
proof -
  assume i: "hls_inv ok (hl_seg r) (hl_world r)"
  obtain p w where f: "(if 0 < length (hs_segBuf (hl_seg r)) then flushLocked ok now (hl_seg r, hl_world r)
            else (hl_seg r, hl_world r)) = (p, w)" by (metis surj_pair)
  then have "hls_inv ok p w" using i flush_inv by (auto split: if_splits)
  then show ?thesis using f hls_inv_cong [of ok p w "p\<lparr>hs_discNext := True, hs_discardUntilIDR := False\<rparr>"]
    by (simp add: hls_onSessionBoundary_def)
qed

lemma step_inv:
  assumes "hls_inv ok (hl_seg r) (hl_world r)"
  shows "hls_inv ok (hl_seg (hls_step ok lib op r)) (hl_world (hls_step ok lib op r))"
proof (cases op)
  case (HPacket pkt now)
  let ?d = "seconds (hs_segSec (hl_seg r))"
  define r1 where "r1 = (if pk_SessionStart pkt then hls_onSessionBoundary ok now r else r)"
  have i: "hls_inv ok (hl_seg r1) (hl_world r1)" using assms boundary_inv [OF assms, of now] by (simp add: r1_def)
  show ?thesis
  proof (cases "pk_AV pkt")
    case None
    then show ?thesis using wire_inv [OF i, of lib now pkt] by (simp add: HPacket hls_step_def Let_def handleIncoming_def r1_def [symmetric])
  next
    case (Some av)
    obtain b p where d: "shouldDropAVPacket av (hl_seg r1) = (b, p)" by (metis surj_pair)
    have ip: "hls_inv ok p (hl_world r1)" "hls_inv ok (recordMediaTime av p) (hl_world r1)"
      using d by (auto intro!: hls_inv_cong [OF i] simp: other_fields(5-8) [of av "hl_seg r1", simplified d snd_conv])
    obtain p1 w1 where f: "flushLocked ok now (recordMediaTime av p, hl_world r1) = (p1, w1)" by (metis surj_pair)
    obtain p2 w2 where m: "maybeFlushAtKeyframe ok now av ?d (recordMediaTime av p, hl_world r1) = (p2, w2)" by (metis surj_pair)
    have "hls_inv ok p2 w2"
      using m f ip(2) flush_inv [OF ip(2) f] hls_inv_cong [OF flush_inv [OF ip(2) f]]
      by (auto simp: maybeFlushAtKeyframe_def split: if_splits)
    then show ?thesis using Some d m ip(1) wire_inv [of ok "r1\<lparr>hl_seg := p2, hl_world := w2\<rparr>"]
      by (simp add: HPacket hls_step_def Let_def handleIncoming_def r1_def [symmetric])
  qed
next
  case (HTick now)
  then show ?thesis using tick_inv [OF assms] by (simp add: hls_step_def Let_def split: prod.split)
next
  case (HStop now)
  then show ?thesis using flush_inv [OF assms] assms by (simp add: hls_step_def Let_def doFlush_def split: prod.split)
qed

lemma hls_run_inv: "hls_inv ok (hl_seg r) (hl_world r) \<Longrightarrow> hls_inv ok (hl_seg (hls_run ok lib ops r)) (hl_world (hls_run ok lib ops r))"
  unfolding hls_run_def by (induction ops arbitrary: r) (simp_all add: step_inv)

lemma start_inv: "hls_inv ok (newHlsSegmenter segSec window history eph path abr) empty_dir"
  by (auto simp: hls_inv_def hls_listed_def newHlsSegmenter_def empty_dir_def DefaultLiveWindow_def intro!: exI [of _ "[]"])

subsection \<open>The bytes of a raw transport stream\<close>

text \<open>The packets that reach the segment buffer from an operation sequence of raw transport packets.\<close>

definition raw_op :: "HlsOp \<Rightarrow> bool" where
  "raw_op op \<longleftrightarrow> (case op of HPacket pkt _ \<Rightarrow> pk_AV pkt = None | _ \<Rightarrow> True)"

fun raw_input :: "HlsOp list \<Rightarrow> byte list \<Rightarrow> byte list" where
  "raw_input [] carry = []"
| "raw_input (HPacket pkt now # ops) carry =
     (let c = (if pk_SessionStart pkt then [] else carry) in
      if length (pk_TS pkt) = 0 then raw_input ops c
      else case align_loop (c @ pk_TS pkt) [] of (c', out) \<Rightarrow> out @ raw_input ops c')"
| "raw_input (_ # ops) carry = raw_input ops carry"

text \<open>
  \<open>raw_inv\<close>: the segments written and the buffer are the bytes fed, in order, and the scanner's offsets are
  offsets into them.
\<close>

definition hls_on_disk :: "(nat \<Rightarrow> bool \<times> bool) \<Rightarrow> HlsSegmenter \<Rightarrow> HlsWorld \<Rightarrow> byte list list \<Rightarrow> bool" where
  "hls_on_disk ok p w ds \<longleftrightarrow> (\<forall>n < length ds. hw_files w (seg_file (Suc n)) = Some (ds ! n) \<or>
     hw_files w (seg_file (Suc n)) = None \<and> (hs_ephemeral p \<or> \<not> fst (ok (Suc n))))"

definition raw_inv :: "(nat \<Rightarrow> bool \<times> bool) \<Rightarrow> byte list \<Rightarrow> HlsSegmenter \<Rightarrow> HlsWorld \<Rightarrow> bool" where
  "raw_inv ok fed p w \<longleftrightarrow>
     (\<exists>ds. length ds = hs_segN p \<and> concat ds @ hs_segBuf p = fed \<and> hls_on_disk ok p w ds \<and>
        hs_segBufStartOffset p = int (length (concat ds))) \<and>
     (\<forall>n \<ge> hs_segN p. hw_files w (seg_file (Suc n)) = None) \<and>
     0 \<le> hs_scannedOffset p \<and> (case hs_scanner p of None \<Rightarrow> fed = [] | Some sc \<Rightarrow> scan_ok fed sc)"

lemma raw_inv_cong:
  assumes "raw_inv ok fed p w" and "hs_segN p' = hs_segN p" and "hs_segBuf p' = hs_segBuf p" and "hs_scanner p' = hs_scanner p"
    and "hs_segBufStartOffset p' = hs_segBufStartOffset p" and "0 \<le> hs_scannedOffset p'" and "hs_ephemeral p' = hs_ephemeral p"
  shows "raw_inv ok fed p' w"
  using assms by (simp add: raw_inv_def hls_on_disk_def)

lemma flush_writes:
  assumes "flushLocked ok now (p, w) = (p', w')" and "hs_segBuf p \<noteq> []"
  shows "\<exists>es. p' = (reset_segment p)\<lparr>hs_onDisk := es\<rparr> \<and>
    (\<forall>x. hw_files w' x = (if x = seg_file (hs_segN p + 1) \<and> fst (ok (hs_segN p + 1)) then Some (hs_segBuf p) else hw_files w x) \<or>
         hw_files w' x = None \<and> hs_ephemeral p)"
proof (cases "fst (ok (hs_segN p + 1))")
  case False
  then have "p' = reset_segment p" "w' = w" using assms by (simp_all add: flushLocked_def Let_def)
  then show ?thesis using False by (intro exI [of _ "hs_onDisk p"]) (simp add: reset_segment_def Let_def split: option.split)
next
  case True
  let ?n = "hs_segN p + 1" and ?e = "\<lparr>he_name = seg_file (hs_segN p + 1), he_dur = seg_duration now p, he_disc = hs_discNext p\<rparr>"
  let ?p1 = "(reset_segment p)\<lparr>hs_onDisk := hs_onDisk p @ [?e]\<rparr>"
  let ?w1 = "w\<lparr>hw_files := (hw_files w)(seg_file ?n := Some (hs_segBuf p))\<rparr>"
  obtain p2 w2 where t: "trimDiskLocked (?p1, ?w1) = (p2, w2)" by (metis surj_pair)
  have r: "p' = p2" "w' = writeManifestLocked (snd (ok ?n)) p2 w2"
    using assms True t by (auto simp: flushLocked_def Let_def)
  have f: "hw_files w' = hw_files w2" by (simp add: r(2) writeManifestLocked_def Let_def)
  from t have "(\<exists>es. p2 = (reset_segment p)\<lparr>hs_onDisk := es\<rparr>) \<and>
      (\<forall>x. hw_files w2 x = hw_files ?w1 x \<or> hw_files w2 x = None \<and> hs_ephemeral p)"
    by (auto simp: trimDiskLocked_def Let_def fold_remove split: if_splits)
  then show ?thesis using r(1) f True by auto
qed

lemma reset_offsets:
  "hs_segBufStartOffset (reset_segment p) = (case hs_scanner p of None \<Rightarrow> hs_segBufStartOffset p | Some sc \<Rightarrow> kf_feedOffset sc)"
  "hs_scannedOffset (reset_segment p) = (case hs_scanner p of None \<Rightarrow> hs_scannedOffset p | Some sc \<Rightarrow> kf_feedOffset sc)"
  by (simp_all add: reset_segment_def Let_def split: option.split)

text \<open>A flush of the first \<open>k\<close> bytes of the buffer; the caller puts the rest back.\<close>

lemma raw_flush:
  assumes inv: "raw_inv ok fed p w" and k: "0 < k" "k \<le> length (hs_segBuf p)"
    and run: "flushLocked ok now (p\<lparr>hs_segBuf := take k (hs_segBuf p)\<rparr>, w) = (p1, w1)"
  shows "raw_inv ok fed (p1\<lparr>hs_segBuf := drop k (hs_segBuf p), hs_segStart := st,
      hs_segBufStartOffset := hs_segBufStartOffset p + int k, hs_scannedOffset := max 0 so\<rparr>) w1" and "hs_segN p1 = Suc (hs_segN p)"
    and "hs_scanner p1 = hs_scanner p"
proof -
  let ?q = "p\<lparr>hs_segBuf := take k (hs_segBuf p)\<rparr>"
  have ne: "hs_segBuf ?q \<noteq> []" using k by (cases "hs_segBuf p") (auto simp: take_Cons')
  from flush_writes [OF run ne] obtain es where p1: "p1 = (reset_segment ?q)\<lparr>hs_onDisk := es\<rparr>"
    and all: "\<forall>x. hw_files w1 x = (if x = seg_file (hs_segN ?q + 1) \<and> fst (ok (hs_segN ?q + 1)) then Some (hs_segBuf ?q) else hw_files w x) \<or>
         hw_files w1 x = None \<and> hs_ephemeral ?q" by blast
  have files: "hw_files w1 x = (if x = seg_file (hs_segN p + 1) \<and> fst (ok (hs_segN p + 1)) then Some (take k (hs_segBuf p)) else hw_files w x) \<or>
         hw_files w1 x = None \<and> hs_ephemeral p" for x using spec [OF all, of x] by (auto split: if_splits)
  show n: "hs_segN p1 = Suc (hs_segN p)" and sc: "hs_scanner p1 = hs_scanner p" by (simp_all add: p1)
  from inv obtain ds where ds: "length ds = hs_segN p" "concat ds @ hs_segBuf p = fed" "hls_on_disk ok p w ds"
    "hs_segBufStartOffset p = int (length (concat ds))" by (auto simp: raw_inv_def)
  have none: "hw_files w (seg_file (Suc n)) = None" if "hs_segN p \<le> n" for n using inv that by (simp add: raw_inv_def)
  let ?ds = "ds @ [take k (hs_segBuf p)]"
  have "hls_on_disk ok p1 w1 ?ds"
    unfolding hls_on_disk_def
  proof (intro allI impI)
    fix n assume "n < length ?ds"
    then consider (new) "n = hs_segN p" | (old) "n < length ds" using ds(1) by fastforce
    then show "hw_files w1 (seg_file (Suc n)) = Some (?ds ! n) \<or>
        hw_files w1 (seg_file (Suc n)) = None \<and> (hs_ephemeral p1 \<or> \<not> fst (ok (Suc n)))"
    proof cases
      case new
      then show ?thesis using files [of "seg_file (Suc n)"] none [of n] ds(1) by (auto simp: p1 nth_append)
    next
      case old
      then have "hw_files w (seg_file (Suc n)) = Some (ds ! n) \<or>
          hw_files w (seg_file (Suc n)) = None \<and> (hs_ephemeral p \<or> \<not> fst (ok (Suc n)))" using ds(3) by (simp add: hls_on_disk_def)
      then show ?thesis using files [of "seg_file (Suc n)"] old ds(1) by (auto simp: p1 nth_append)
    qed
  qed
  moreover have "hw_files w1 (seg_file (Suc m)) = None" if "Suc (hs_segN p) \<le> m" for m
    using files [of "seg_file (Suc m)"] none [of m] that by auto
  moreover have "concat ?ds @ drop k (hs_segBuf p) = fed" using ds(2) by simp
  moreover have "hs_segBufStartOffset p + int k = int (length (concat ?ds))" using ds(4) k(2) by simp
  moreover have "case hs_scanner p1 of None \<Rightarrow> fed = [] | Some sc \<Rightarrow> scan_ok fed sc" using inv unfolding sc by (simp add: raw_inv_def)
  moreover have "length ?ds = hs_segN p1" using ds(1) n by simp
  ultimately have "(\<exists>ds. length ds = hs_segN p1 \<and> concat ds @ drop k (hs_segBuf p) = fed \<and> hls_on_disk ok p1 w1 ds \<and>
      hs_segBufStartOffset p + int k = int (length (concat ds))) \<and>
    (\<forall>m \<ge> hs_segN p1. hw_files w1 (seg_file (Suc m)) = None) \<and> (case hs_scanner p1 of None \<Rightarrow> fed = [] | Some sc \<Rightarrow> scan_ok fed sc)"
    unfolding n by blast
  then show "raw_inv ok fed (p1\<lparr>hs_segBuf := drop k (hs_segBuf p), hs_segStart := st,
      hs_segBufStartOffset := hs_segBufStartOffset p + int k, hs_scannedOffset := max 0 so\<rparr>) w1"
    by (simp add: raw_inv_def hls_on_disk_def)
qed

lemma raw_flush_all:
  assumes inv: "raw_inv ok fed p w" and run: "flushLocked ok now (p, w) = (p1, w1)"
  shows "raw_inv ok fed p1 w1"
proof (cases "hs_segBuf p = []")
  case True
  then show ?thesis using assms by (simp add: flushLocked_def)
next
  case False
  have sc: "\<exists>sc. hs_scanner p = Some sc \<and> kf_feedOffset sc = int (length fed)"
    using inv False by (auto simp: raw_inv_def scan_ok_def split: option.splits)
  then obtain sc where sc: "hs_scanner p = Some sc" "kf_feedOffset sc = int (length fed)" by blast
  have off: "hs_segBufStartOffset p + int (length (hs_segBuf p)) = int (length fed)" using inv by (auto simp: raw_inv_def)
  have run': "flushLocked ok now (p\<lparr>hs_segBuf := take (length (hs_segBuf p)) (hs_segBuf p)\<rparr>, w) = (p1, w1)" using run by simp
  obtain es where p1: "p1 = (reset_segment p)\<lparr>hs_onDisk := es\<rparr>" using flush_writes [OF run False] by blast
  have "raw_inv ok fed (p1\<lparr>hs_segBuf := [], hs_segStart := None, hs_segBufStartOffset := int (length fed), hs_scannedOffset := int (length fed)\<rparr>) w1"
    using raw_flush(1) [OF inv _ order_refl run', where st = None and so = "int (length fed)"] False off by simp
  then show ?thesis by (rule raw_inv_cong) (simp_all add: p1 reset_offsets sc)
qed

lemma raw_try:
  assumes inv: "raw_inv ok fed p w" and sc: "hs_scanner p = Some sc" and run: "tryFlushAtIDRLocked ok now sc (p, w) = (b, p1, w1)"
  shows "raw_inv ok fed p1 w1" and "hs_scanner p1 = Some sc"
    and "b \<Longrightarrow> hs_segBuf p1 \<noteq> [] \<and> hs_segBuf p1 ! 0 = 0x47 \<and> pkt_pusi (hs_segBuf p1)" and "b \<or> hs_segN p1 = hs_segN p"
proof -
  let ?i = "kf_LastIDROffset sc" and ?s = "kf_LastIDROffset sc - hs_segBufStartOffset p"
  have ok: "scan_ok fed sc" and so: "0 \<le> hs_scannedOffset p" using inv sc by (simp_all add: raw_inv_def)
  have "raw_inv ok fed p1 w1 \<and> hs_scanner p1 = Some sc \<and> (b \<longrightarrow> hs_segBuf p1 \<noteq> [] \<and> hs_segBuf p1 ! 0 = 0x47 \<and> pkt_pusi (hs_segBuf p1)) \<and>
      (b \<or> hs_segN p1 = hs_segN p)"
  proof (cases "?i \<le> hs_scannedOffset p \<or> ?s \<le> 0 \<or> ?s \<ge> int (length (hs_segBuf p))")
    case True
    then have "\<not> b \<and> w1 = w \<and> (p1 = p \<or> p1 = p\<lparr>hs_scannedOffset := ?i\<rparr> \<and> hs_scannedOffset p < ?i)"
      using run by (auto simp: tryFlushAtIDRLocked_def Let_def split: if_splits)
    moreover have "raw_inv ok fed (p\<lparr>hs_scannedOffset := ?i\<rparr>) w" if "hs_scannedOffset p < ?i"
      by (rule raw_inv_cong [OF inv]) (use that so in simp_all)
    ultimately show ?thesis using inv sc by auto
  next
    case False
    define k where "k = nat ?s"
    obtain p2 w2 where f: "flushLocked ok now (p\<lparr>hs_segBuf := take k (hs_segBuf p)\<rparr>, w) = (p2, w2)" by (metis surj_pair)
    have k: "0 < k" "k \<le> length (hs_segBuf p)" "int k = ?s" "k < length (hs_segBuf p)" using False by (auto simp: k_def)
    have r: "b" "w1 = w2" "p1 = p2\<lparr>hs_segBuf := drop k (hs_segBuf p), hs_segStart := Some now,
        hs_segBufStartOffset := hs_segBufStartOffset p + int k, hs_scannedOffset := max 0 ?i\<rparr>"
      using run f False so k(3) by (auto simp: tryFlushAtIDRLocked_def Let_def k_def)
    obtain ds where "concat ds @ hs_segBuf p = fed" "hs_segBufStartOffset p = int (length (concat ds))"
      using inv by (auto simp: raw_inv_def)
    moreover from this k(3) have "nat ?i = length (concat ds) + k" by linarith
    ultimately have "drop (nat ?i) fed = drop k (hs_segBuf p)" by (metis drop_append append_eq_conv_conj drop_drop add.commute)
    moreover have o: "opens_at fed ?i" using ok False so by (auto simp: scan_ok_def)
    moreover from o have "fed ! nat ?i = drop (nat ?i) fed ! 0" by (simp add: opens_at_def)
    ultimately have "drop k (hs_segBuf p) \<noteq> [] \<and> drop k (hs_segBuf p) ! 0 = 0x47 \<and> pkt_pusi (drop k (hs_segBuf p))"
      using k(4) by (simp add: opens_at_def)
    then show ?thesis using raw_flush [OF inv k(1,2) f] r sc by simp
  qed
  then show "raw_inv ok fed p1 w1" "hs_scanner p1 = Some sc" "b \<or> hs_segN p1 = hs_segN p"
    "b \<Longrightarrow> hs_segBuf p1 \<noteq> [] \<and> hs_segBuf p1 ! 0 = 0x47 \<and> pkt_pusi (hs_segBuf p1)" by simp_all
qed

lemma raw_tick:
  assumes inv: "raw_inv ok fed p w" and run: "tickFlush ok now maxDur segDur (p, w) = (p', w')"
  shows "raw_inv ok fed p' w'" and "since now (hs_segStart p) < maxDur \<Longrightarrow> hs_segN p' = hs_segN p \<or>
      hs_segBuf p' \<noteq> [] \<and> hs_segBuf p' ! 0 = 0x47 \<and> pkt_pusi (hs_segBuf p')"
proof -
  have "raw_inv ok fed p' w' \<and> (since now (hs_segStart p) < maxDur \<longrightarrow> hs_segN p' = hs_segN p \<or>
      hs_segBuf p' \<noteq> [] \<and> hs_segBuf p' ! 0 = 0x47 \<and> pkt_pusi (hs_segBuf p'))"
  proof (cases "length (hs_segBuf p) = 0 \<or> hs_segStart p = None")
    case True
    then show ?thesis using assms by (auto simp: tickFlush_def)
  next
    case False
    then obtain y where y: "hs_segStart p = Some y" by auto
    obtain b p1 w1 where t: "(case hs_scanner p of
        Some sc \<Rightarrow> if since now (Some y) \<ge> segDur then tryFlushAtIDRLocked ok now sc (p, w) else (False, p, w)
      | None \<Rightarrow> (False, p, w)) = (b, p1, w1)" by (metis surj_pair)
    have i: "raw_inv ok fed p1 w1 \<and> (b \<longrightarrow> hs_segBuf p1 \<noteq> [] \<and> hs_segBuf p1 ! 0 = 0x47 \<and> pkt_pusi (hs_segBuf p1)) \<and>
        (b \<or> hs_segN p1 = hs_segN p)"
    proof (cases "hs_scanner p")
      case (Some sc)
      show ?thesis
      proof (cases "since now (Some y) \<ge> segDur")
        case True
        with t Some have "tryFlushAtIDRLocked ok now sc (p, w) = (b, p1, w1)" by simp
        from raw_try [OF inv Some this] show ?thesis by blast
      qed (use t Some inv in simp)
    qed (use t inv in simp)
    obtain p2 w2 where f: "flushLocked ok now (p1, w1) = (p2, w2)" by (metis surj_pair)
    from raw_flush_all [OF _ f] i have i2: "raw_inv ok fed p2 w2" by blast
    then have "raw_inv ok fed (p2\<lparr>hs_discardUntilIDR := True, hs_discNext := True\<rparr>) w2"
      by (rule raw_inv_cong) (use i2 in \<open>simp_all add: raw_inv_def\<close>)
    moreover have "(b \<or> since now (Some y) < maxDur) \<and> p' = p1 \<and> w' = w1 \<or> \<not> since now (Some y) < maxDur \<and> w' = w2 \<and>
        (p' = p2 \<or> p' = p2\<lparr>hs_discardUntilIDR := True, hs_discNext := True\<rparr>)"
      using run False f unfolding tickFlush_def Let_def y prod.case t by (auto split: if_splits)
    ultimately show ?thesis using i i2 y by auto
  qed
  then show "raw_inv ok fed p' w'" "since now (hs_segStart p) < maxDur \<Longrightarrow> hs_segN p' = hs_segN p \<or>
      hs_segBuf p' \<noteq> [] \<and> hs_segBuf p' ! 0 = 0x47 \<and> pkt_pusi (hs_segBuf p')" by simp_all
qed

lemma raw_append:
  assumes "raw_inv ok fed p w" and "length q = 188"
  shows "raw_inv ok (fed @ q) (appendSegment188 now True q p) w"
proof -
  have "scan_ok (fed @ q) (scan_Feed q (case hs_scanner p of None \<Rightarrow> newTSKeyframeScanner | Some sc \<Rightarrow> sc))"
    using assms process188_ok [OF scan_ok_new assms(2)] process188_ok [of fed _ q] by (auto simp: raw_inv_def scan_Feed_packet split: option.splits)
  then show ?thesis using assms by (auto simp: raw_inv_def appendSegment188_def Let_def hls_on_disk_def)
qed

lemma packets188_concat: "list_all ts_packet ps \<Longrightarrow> packets188 (concat ps) = ps"
  by (induction ps) (simp_all add: packets188.simps ts_packet_def)

lemma raw_feed:
  assumes "raw_inv ok fed (hl_seg r) (hl_world r)" and "align_loop (hl_carry r @ b) [] = (c, out)"
  shows "raw_inv ok (fed @ out) (hl_seg (feed_segment now True b r)) (hl_world (feed_segment now True b r))"
    and "hl_carry (feed_segment now True b r) = c"
proof -
  from align_loop_packets [of "[]" "[]", OF _ _ assms(2)] obtain qs where qs: "list_all ts_packet qs" "out = concat qs" by auto
  have "raw_inv ok (fed @ concat qs) (fold (appendSegment188 now True) qs p) w" if "raw_inv ok fed p w" "list_all ts_packet qs" for fed p w qs
    using that
  proof (induction qs arbitrary: fed p)
    case (Cons q qs)
    then have "length q = 188" by (simp add: ts_packet_def)
    from Cons.IH [OF raw_append [OF Cons.prems(1) this]] Cons.prems(2) show ?case by simp
  qed simp
  then show "raw_inv ok (fed @ out) (hl_seg (feed_segment now True b r)) (hl_world (feed_segment now True b r))"
    "hl_carry (feed_segment now True b r) = c"
    using assms qs by (simp_all add: feed_segment_def alignedFeed_def packets188_concat)
qed

lemma raw_run:
  assumes "raw_inv ok fed (hl_seg r) (hl_world r)" and "list_all raw_op ops"
  shows "raw_inv ok (fed @ raw_input ops (hl_carry r)) (hl_seg (hls_run ok lib ops r)) (hl_world (hls_run ok lib ops r))"
  using assms
proof (induction ops arbitrary: fed r)
  case (Cons op ops)
  have ih: "raw_inv ok (fed' @ raw_input ops (hl_carry r')) (hl_seg (hls_run ok lib ops r')) (hl_world (hls_run ok lib ops r'))"
    if "raw_inv ok fed' (hl_seg r') (hl_world r')" for fed' r' using Cons.IH [OF that] Cons.prems(2) by simp
  have unfold: "hls_run ok lib (op # ops) r = hls_run ok lib ops (hls_step ok lib op r)" by (simp add: hls_run_def)
  show ?case
  proof (cases op)
    case (HPacket pkt now)
    then have none: "pk_AV pkt = None" using Cons.prems(2) by (simp add: raw_op_def)
    define r1 where "r1 = (if pk_SessionStart pkt then hls_onSessionBoundary ok now r else r)"
    have c1: "hl_carry r1 = (if pk_SessionStart pkt then [] else hl_carry r)"
      by (simp add: r1_def hls_onSessionBoundary_def split: prod.split)
    have i1: "raw_inv ok fed (hl_seg r1) (hl_world r1)"
    proof (cases "pk_SessionStart pkt")
      case True
      obtain p w where f: "(if 0 < length (hs_segBuf (hl_seg r)) then flushLocked ok now (hl_seg r, hl_world r)
            else (hl_seg r, hl_world r)) = (p, w)" by (metis surj_pair)
      then have i: "raw_inv ok fed p w" using raw_flush_all [OF Cons.prems(1)] Cons.prems(1) by (auto split: if_splits)
      have "raw_inv ok fed (p\<lparr>hs_discNext := True, hs_discardUntilIDR := False\<rparr>) w"
        by (rule raw_inv_cong [OF i]) (use i in \<open>simp_all add: raw_inv_def\<close>)
      then show ?thesis using True f by (simp add: r1_def hls_onSessionBoundary_def)
    qed (use Cons.prems(1) in \<open>simp add: r1_def\<close>)
    have step: "hls_step ok lib op r = FeedWirePacket lib now pkt r1"
      by (simp add: HPacket hls_step_def Let_def handleIncoming_def none r1_def)
    show ?thesis
    proof (cases "length (pk_TS pkt) = 0")
      case True
      then have "hls_step ok lib op r = r1" by (simp add: step FeedWirePacket_def none)
      then show ?thesis using ih [OF i1] True unfolding unfold by (simp add: HPacket c1)
    next
      case False
      obtain c out where a: "align_loop (hl_carry r1 @ pk_TS pkt) [] = (c, out)" by (metis surj_pair)
      have s: "hls_step ok lib op r = feed_segment now True (pk_TS pkt) r1"
        using False by (simp add: step FeedWirePacket_def none)
      from ih [OF raw_feed(1) [OF i1 a]] raw_feed(2) [OF i1 a] show ?thesis
        unfolding unfold s using a False by (simp add: HPacket c1)
    qed
  next
    case (HTick now)
    obtain p w where t: "tickFlush ok now (seconds (hs_segSec (hl_seg r)) * 4) (seconds (hs_segSec (hl_seg r))) (hl_seg r, hl_world r) = (p, w)"
      by (metis surj_pair)
    then have "hls_step ok lib op r = r\<lparr>hl_seg := p, hl_world := w\<rparr>" by (simp add: HTick hls_step_def Let_def)
    then show ?thesis using ih [of fed "r\<lparr>hl_seg := p, hl_world := w\<rparr>"] raw_tick(1) [OF Cons.prems(1) t]
      unfolding unfold by (simp add: HTick)
  next
    case (HStop now)
    obtain p w where t: "doFlush ok now (hl_seg r, hl_world r) = (p, w)" by (metis surj_pair)
    then have "raw_inv ok fed p w" using raw_flush_all [OF Cons.prems(1)] Cons.prems(1) by (auto simp: doFlush_def split: if_splits)
    moreover have "hls_step ok lib op r = r\<lparr>hl_seg := p, hl_world := w\<rparr>" using t by (simp add: HStop hls_step_def Let_def)
    ultimately show ?thesis using ih [of fed "r\<lparr>hl_seg := p, hl_world := w\<rparr>"] unfolding unfold by (simp add: HStop)
  qed
qed (simp add: hls_run_def)

lemma raw_start: "raw_inv ok [] (newHlsSegmenter segSec window history eph path abr) empty_dir"
  by (simp add: raw_inv_def newHlsSegmenter_def empty_dir_def hls_on_disk_def)

lemma flush_window: "flushLocked ok now (p, w) = (p', w') \<Longrightarrow> hs_window p' = hs_window p"
  by (auto simp: flushLocked_def trimDiskLocked_def Let_def split: prod.splits if_splits)

lemma try_window:
  assumes "tryFlushAtIDRLocked ok now sc (p, w) = (b, p', w')"
  shows "hs_window p' = hs_window p"
proof -
  let ?split = "kf_LastIDROffset sc - hs_segBufStartOffset p"
  obtain p1 w1 where f: "flushLocked ok now (p\<lparr>hs_segBuf := take (nat ?split) (hs_segBuf p)\<rparr>, w) = (p1, w1)" by (metis surj_pair)
  from flush_window [OF f] assms f show ?thesis by (auto simp: tryFlushAtIDRLocked_def Let_def split: if_splits)
qed

lemma tick_window:
  assumes "tickFlush ok now maxDur segDur (p, w) = (p', w')"
  shows "hs_window p' = hs_window p"
proof (cases "length (hs_segBuf p) = 0 \<or> hs_segStart p = None")
  case True
  then show ?thesis using assms by (auto simp: tickFlush_def)
next
  case False
  then obtain y where y: "hs_segStart p = Some y" by auto
  obtain b p1 w1 where t: "(case hs_scanner p of
      Some sc \<Rightarrow> if since now (Some y) \<ge> segDur then tryFlushAtIDRLocked ok now sc (p, w) else (False, p, w)
    | None \<Rightarrow> (False, p, w)) = (b, p1, w1)" by (metis surj_pair)
  then have i: "hs_window p1 = hs_window p" using try_window by (auto split: option.splits if_splits)
  obtain p2 w2 where f: "flushLocked ok now (p1, w1) = (p2, w2)" by (metis surj_pair)
  have "p' = p1 \<or> p' = p2 \<or> p' = p2\<lparr>hs_discardUntilIDR := True, hs_discNext := True\<rparr>"
    using assms False f unfolding tickFlush_def Let_def y prod.case t by (auto split: if_splits)
  then show ?thesis using i flush_window [OF f] by auto
qed

lemma feed_window: "hs_window (hl_seg (feed_segment now b bs r)) = hs_window (hl_seg r)"
proof -
  have "hs_window (fold (appendSegment188 now b) pkts p) = hs_window p" for pkts p
    by (induction pkts arbitrary: p) simp_all
  then show ?thesis by (simp add: feed_segment_def split: prod.splits)
qed

lemma wire_window: "hs_window (hl_seg (FeedWirePacket lib now pkt r)) = hs_window (hl_seg r)"
proof -
  have "hs_window (hl_seg (fold (feed_segment now b) cs r)) = hs_window (hl_seg r)" for b cs and r :: "'a HlsRun"
    by (induction cs arbitrary: r) (simp_all add: feed_window)
  then show ?thesis by (simp add: FeedWirePacket_def feed_window Let_def split: option.split prod.split)
qed

lemma boundary_window: "hs_window (hl_seg (hls_onSessionBoundary ok now r)) = hs_window (hl_seg r)"
proof -
  obtain p w where f: "(if 0 < length (hs_segBuf (hl_seg r)) then flushLocked ok now (hl_seg r, hl_world r)
            else (hl_seg r, hl_world r)) = (p, w)" by (metis surj_pair)
  then show ?thesis using flush_window by (auto simp: hls_onSessionBoundary_def split: if_splits)
qed

lemma step_window: "hs_window (hl_seg (hls_step ok lib op r)) = hs_window (hl_seg r)"
proof (cases op)
  case (HPacket pkt now)
  let ?d = "seconds (hs_segSec (hl_seg r))"
  define r1 where "r1 = (if pk_SessionStart pkt then hls_onSessionBoundary ok now r else r)"
  have i: "hs_window (hl_seg r1) = hs_window (hl_seg r)" by (simp add: r1_def boundary_window)
  show ?thesis
  proof (cases "pk_AV pkt")
    case None
    then show ?thesis using i by (simp add: HPacket hls_step_def Let_def handleIncoming_def r1_def [symmetric] wire_window)
  next
    case (Some av)
    obtain b p where d: "shouldDropAVPacket av (hl_seg r1) = (b, p)" by (metis surj_pair)
    have ip: "hs_window p = hs_window (hl_seg r1)"
      using other_fields(7) [of av "hl_seg r1"] by (simp add: d)
    obtain p1 w1 where f: "flushLocked ok now (recordMediaTime av p, hl_world r1) = (p1, w1)" by (metis surj_pair)
    obtain p2 w2 where m: "maybeFlushAtKeyframe ok now av ?d (recordMediaTime av p, hl_world r1) = (p2, w2)" by (metis surj_pair)
    have "hs_window p2 = hs_window p"
      using m f flush_window [OF f] by (auto simp: maybeFlushAtKeyframe_def split: if_splits)
    then show ?thesis using Some d m i ip
      by (simp add: HPacket hls_step_def Let_def handleIncoming_def r1_def [symmetric] wire_window)
  qed
next
  case (HTick now)
  then show ?thesis using tick_window by (auto simp: hls_step_def Let_def split: prod.split)
next
  case (HStop now)
  then show ?thesis using flush_window by (auto simp: hls_step_def Let_def doFlush_def split: prod.split)
qed

lemma run_window:
  "hs_window (hl_seg (hls_run ok lib ops (hls_start (newHlsSegmenter segSec window history eph path abr)))) =
     (if window \<le> 0 then DefaultLiveWindow else window)"
proof -
  have "hs_window (hl_seg (fold (hls_step ok lib) ops r)) = hs_window (hl_seg r)" for r
    by (induction ops arbitrary: r) (simp_all add: step_window)
  then show ?thesis by (simp add: hls_run_def hls_start_def newHlsSegmenter_def)
qed

subsection \<open>The master playlist\<close>

text \<open>
  \<^verbatim>\<open>hls_abr.go\<close>: the renditions by slug, the overrides, and whether a rewrite is pending. The root playlist
  is the list of its renditions with their codec string; \<open>None\<close> when there is nothing to write.
\<close>

record HlsRep =
  rp_slug :: string
  rp_bwBps :: int
  rp_width :: int
  rp_height :: int
  rp_hasAudio :: bool
  rp_hasData :: bool

record HlsMaster =
  ma_reps :: "(string \<times> HlsRep) list"
  ma_overrides :: "(string \<times> HlsRep) list"
  ma_pending :: bool

definition onShardUpdated :: "string \<Rightarrow> int \<Rightarrow> int \<Rightarrow> int \<Rightarrow> bool \<Rightarrow> HlsMaster \<Rightarrow> HlsMaster" where
  "onShardUpdated slug bw width height hasAudio m =
     (case (case gget (ma_overrides m) slug of
              Some ov \<Rightarrow> (rp_bwBps ov, rp_width ov, rp_height ov, rp_hasAudio ov)
            | None \<Rightarrow> (bw, width, height, hasAudio)) of (b, wd, ht, au) \<Rightarrow>
        m\<lparr>ma_reps := gput slug \<lparr>rp_slug = slug, rp_bwBps = b, rp_width = wd, rp_height = ht, rp_hasAudio = au,
             rp_hasData = True\<rparr> (ma_reps m), ma_pending := True\<rparr>)"

definition SetRepOverride :: "string \<Rightarrow> int \<Rightarrow> int \<Rightarrow> int \<Rightarrow> bool \<Rightarrow> HlsMaster \<Rightarrow> HlsMaster" where
  "SetRepOverride slug bw width height hasAudio m =
     (let m1 = m\<lparr>ma_overrides := gput slug \<lparr>rp_slug = slug, rp_bwBps = bw, rp_width = width, rp_height = height,
            rp_hasAudio = hasAudio, rp_hasData = False\<rparr> (ma_overrides m)\<rparr>;
          m2 = (case gget (ma_reps m1) slug of
              None \<Rightarrow> m1
            | Some r \<Rightarrow>
                if rp_hasData r
                then m1\<lparr>ma_reps := gput slug (r\<lparr>rp_bwBps := bw, rp_width := width, rp_height := height,
                       rp_hasAudio := hasAudio\<rparr>) (ma_reps m1)\<rparr>
                else m1)
      in m2\<lparr>ma_pending := True\<rparr>)"

definition hlsCodecString :: "int \<Rightarrow> int \<Rightarrow> bool \<Rightarrow> string" where
  "hlsCodecString width height hasAudio =
     (let pixels = width * height;
          video = (if pixels \<ge> 1920 * 1080 then ''avc1.640028''
                   else if pixels \<ge> 1280 * 720 then ''avc1.4d401f''
                   else ''avc1.42e01e'')
      in if hasAudio then video @ '',mp4a.40.2'' else video)"

record HlsVariant =
  va_bandwidth :: int
  va_resolution :: "(int \<times> int) option"
  va_codecs :: string
  va_uri :: string

definition writeHLSMasterPlaylist :: "HlsRep list \<Rightarrow> HlsVariant list" where
  "writeHLSMasterPlaylist reps =
     map (\<lambda>r. \<lparr>va_bandwidth = rp_bwBps r,
                va_resolution = (if 0 < rp_width r \<and> 0 < rp_height r then Some (rp_width r, rp_height r) else None),
                va_codecs = hlsCodecString (rp_width r) (rp_height r) (rp_hasAudio r),
                va_uri = rp_slug r @ ''/index.m3u8''\<rparr>) reps"

definition hls_flushRoot :: "HlsMaster \<Rightarrow> HlsMaster \<times> HlsVariant list option" where
  "hls_flushRoot m =
     (let slugs = sort (map fst (filter (\<lambda>(s, r). rp_hasData r) (ma_reps m)));
          snap = map (\<lambda>s. the (gget (ma_reps m) s)) slugs
      in (m\<lparr>ma_pending := False\<rparr>, if length snap = 0 then None else Some (writeHLSMasterPlaylist snap)))"

subsection \<open>Concrete streams\<close>

text \<open>Tables and short PES packets, and a segmenter of two-second segments with a window of three.\<close>

definition ts_demo :: "byte list \<Rightarrow> byte list" where
  "ts_demo bs = bs @ replicate (188 - length bs) 0xFF"

definition pat_demo :: "byte list" where
  "pat_demo = ts_demo [0x47, 0x40, 0, 0x10, 0, 0, 0xB0, 13, 0, 1, 0xC1, 0, 0, 0, 1, 0xE1, 0]"

definition pmt_demo :: "byte list" where
  "pmt_demo = ts_demo [0x47, 0x41, 0, 0x10, 0, 2, 0xB0, 18, 0, 1, 0xC1, 0, 0, 0xE1, 1, 0xF0, 0, 0x1B, 0xE1, 1, 0xF0, 0]"

definition pes_demo :: "byte \<Rightarrow> byte list" where
  "pes_demo t = [0x47, 0x41, 1, 0x30, 169] @ replicate 169 0xFF @ [0, 0, 1, 0xE0, 0, 0, 0x80, 0, 0, 0, 0, 0, 1, t]"

definition raw_demo :: "HlsOp list" where
  "raw_demo = map (\<lambda>bs. HPacket (TSPacket bs) 0) [pat_demo, pmt_demo, pat_demo, pes_demo 5, pes_demo 1]"

definition session_demo :: Packet where
  "session_demo = (TSPacket (pes_demo 1))\<lparr>pk_SessionStart := True\<rparr>"

definition lib_demo :: "unit MuxLib" where
  "lib_demo = \<lparr>mx_new = (), mx_write = (\<lambda>av m. (m, []))\<rparr>"

definition hls_demo :: "(nat \<Rightarrow> bool \<times> bool) \<Rightarrow> HlsOp list \<Rightarrow> unit HlsRun" where
  "hls_demo ok ops = hls_run ok lib_demo ops (hls_start (newHlsSegmenter 2 3 0 True True False))"

text \<open>The second of three segments is due when its write fails; a session boundary came just before it.\<close>

definition losing_ops :: "HlsOp list" where
  "losing_ops = [HPacket session_demo 0, HPacket session_demo (seconds 1), HTick (seconds 10),
     HPacket (TSPacket (pes_demo 1)) (seconds 11), HTick (seconds 20)]"

lemma failed_write_loses_discontinuity:
  "map (\<lambda>e. (he_name e, he_disc e)) (hm_entries (the (hw_manifest (hl_world (hls_demo (\<lambda>n. (n \<noteq> 2, True)) losing_ops))))) =
     [(''seg_000001.ts'', True), (''seg_000003.ts'', False)]" (is ?entries)
  "hm_seq (the (hw_manifest (hl_world (hls_demo (\<lambda>n. (n \<noteq> 2, True)) (take 2 losing_ops))))) = 0" (is ?before)
  "hm_seq (the (hw_manifest (hl_world (hls_demo (\<lambda>n. (n \<noteq> 2, True)) losing_ops)))) = 1" (is ?after)
proof -
  show ?entries by code_simp
  show ?before by code_simp
  show ?after by code_simp
qed

subsection \<open>Properties\<close>



text \<open>
  C32: HLS loses no byte. Over any run on a raw transport stream, with any write failures, the segments flushed and
  the buffer, joined in order, are exactly the aligned packets that came in; a segment file holds its
  part, and is missing only if its write failed or it was trimmed.
\<close>

theorem hls_segments_partition_the_stream:
  assumes "list_all raw_op ops" and "r = hls_run ok lib ops (hls_start (newHlsSegmenter segSec window history eph path abr))"
  shows "\<exists>ds. length ds = hs_segN (hl_seg r) \<and> concat ds @ hs_segBuf (hl_seg r) = raw_input ops [] \<and>
    hls_on_disk ok (hl_seg r) (hl_world r) ds"
  using raw_run [of ok "[]" "hls_start (newHlsSegmenter segSec window history eph path abr)" ops lib]
    raw_start assms by (auto simp: hls_start_def raw_inv_def)

lemma hls_segments_partition_the_stream_witness:
  "\<exists>ds. length ds = hs_segN (hl_seg (hls_demo (\<lambda>_. (True, True)) raw_demo)) \<and>
     concat ds @ hs_segBuf (hl_seg (hls_demo (\<lambda>_. (True, True)) raw_demo)) = raw_input raw_demo [] \<and>
     hls_on_disk (\<lambda>_. (True, True)) (hl_seg (hls_demo (\<lambda>_. (True, True)) raw_demo)) (hl_world (hls_demo (\<lambda>_. (True, True)) raw_demo)) ds"
  by (rule hls_segments_partition_the_stream [OF _ hls_demo_def])
    (simp add: raw_demo_def raw_op_def TSPacket_def)

text \<open>
  A timely cut starts the next segment at a section or access unit. On a raw stream, when a tick before the
  safety deadline cuts a segment, the next one begins with a packet that starts a PAT or a PES.
\<close>

theorem hls_cut_lands_on_a_unit_start:
  assumes "list_all raw_op ops" and "r = hls_run ok lib ops (hls_start (newHlsSegmenter segSec window history eph path abr))"
    and "since now (hs_segStart (hl_seg r)) < seconds (hs_segSec (hl_seg r)) * 4"
    and "r' = hls_step ok lib (HTick now) r" and "hs_segN (hl_seg r') \<noteq> hs_segN (hl_seg r)"
  shows "hs_segBuf (hl_seg r') \<noteq> [] \<and> hs_segBuf (hl_seg r') ! 0 = 0x47 \<and> pkt_pusi (hs_segBuf (hl_seg r'))"
proof -
  have inv: "raw_inv ok (raw_input ops []) (hl_seg r) (hl_world r)"
    using raw_run [of ok "[]" "hls_start (newHlsSegmenter segSec window history eph path abr)" ops lib] raw_start assms(1,2)
    by (simp add: hls_start_def)
  obtain p w where t: "tickFlush ok now (seconds (hs_segSec (hl_seg r)) * 4) (seconds (hs_segSec (hl_seg r)))
      (hl_seg r, hl_world r) = (p, w)" by (metis surj_pair)
  then have "hl_seg r' = p" using assms(4) by (simp add: hls_step_def Let_def)
  then show ?thesis
    using raw_tick(2) [OF inv t assms(3)] assms(5) by auto
qed

lemma hls_cut_lands_on_a_unit_start_witness:
  "pkt_pusi (hs_segBuf (hl_seg (hls_step (\<lambda>_. (True, True)) lib_demo (HTick (seconds 3)) (hls_demo (\<lambda>_. (True, True)) raw_demo))))"
proof (rule conjunct2 [OF conjunct2 [OF hls_cut_lands_on_a_unit_start [OF _ hls_demo_def]]])
  show "list_all raw_op raw_demo" by (simp add: raw_demo_def raw_op_def TSPacket_def)
  show "since (seconds 3) (hs_segStart (hl_seg (hls_demo (\<lambda>_. (True, True)) raw_demo))) <
      seconds (hs_segSec (hl_seg (hls_demo (\<lambda>_. (True, True)) raw_demo))) * 4" by code_simp
  show "hs_segN (hl_seg (hls_step (\<lambda>_. (True, True)) lib_demo (HTick (seconds 3)) (hls_demo (\<lambda>_. (True, True)) raw_demo))) \<noteq>
      hs_segN (hl_seg (hls_demo (\<lambda>_. (True, True)) raw_demo))" by code_simp
qed simp_all

end
