(* ===== verification/Net_Text.thy ===== *)
theory Net_Text
  imports Blob_Paths
begin

text \<open>
  What the code uses of Go's \<^verbatim>\<open>strings\<close>, \<^verbatim>\<open>net\<close> and \<^verbatim>\<open>encoding/base64\<close>: trimming, case, substrings, IP
  addresses and CIDR ranges, base64url without padding. Case and space are those of ASCII text.
\<close>

subsection \<open>Strings\<close>

definition is_space :: "char \<Rightarrow> bool" where
  "is_space c \<longleftrightarrow> (let n = (of_char c :: nat) in n = 32 \<or> 9 \<le> n \<and> n \<le> 13)"

definition TrimSpace :: "string \<Rightarrow> string" where
  "TrimSpace s = rev (dropWhile is_space (rev (dropWhile is_space s)))"

definition lower_char :: "char \<Rightarrow> char" where
  "lower_char c = (let n = (of_char c :: nat) in if 65 \<le> n \<and> n \<le> 90 then char_of (n + 32) else c)"

definition upper_char :: "char \<Rightarrow> char" where
  "upper_char c = (let n = (of_char c :: nat) in if 97 \<le> n \<and> n \<le> 122 then char_of (n - 32) else c)"

definition ToLower :: "string \<Rightarrow> string" where "ToLower s = map lower_char s"
definition ToUpper :: "string \<Rightarrow> string" where "ToUpper s = map upper_char s"

fun Contains :: "string \<Rightarrow> string \<Rightarrow> bool" where
  "Contains [] sub \<longleftrightarrow> sub = []"
| "Contains (c # s) sub \<longleftrightarrow> prefix sub (c # s) \<or> Contains s sub"

text \<open>The first and the last occurrence of a byte: what stands before and after it.\<close>

fun cut_first :: "char \<Rightarrow> string \<Rightarrow> (string \<times> string) option" where
  "cut_first c [] = None"
| "cut_first c (x # xs) =
     (if x = c then Some ([], xs) else map_option (\<lambda>(a, b). (x # a, b)) (cut_first c xs))"

definition cut_last :: "char \<Rightarrow> string \<Rightarrow> (string \<times> string) option" where
  "cut_last c s = map_option (\<lambda>(a, b). (rev b, rev a)) (cut_first c (rev s))"

lemma Contains_iff: "Contains s sub \<longleftrightarrow> (\<exists>a b. s = a @ sub @ b)"
proof (induction s)
  case (Cons c s)
  note ih = Cons.IH
  show ?case
  proof
    assume "Contains (c # s) sub"
    then consider b where "c # s = sub @ b" | a b where "s = a @ sub @ b" using ih by (auto simp: prefix_def)
    then show "\<exists>a b. c # s = a @ sub @ b"
    proof cases
      case 1
      then show ?thesis by (metis append_Nil)
    next
      case 2
      then show ?thesis by (metis append_Cons)
    qed
  next
    assume "\<exists>a b. c # s = a @ sub @ b"
    then obtain a b where e: "c # s = a @ sub @ b" by auto
    show "Contains (c # s) sub"
    proof (cases a)
      case Nil
      with e have "prefix sub (c # s)" by simp
      then show ?thesis by simp
    next
      case (Cons x xs)
      with e ih have "Contains s sub" by auto
      then show ?thesis by simp
    qed
  qed
qed auto

lemma cut_first_Some: "cut_first c s = Some (a, b) \<longleftrightarrow> s = a @ c # b \<and> c \<notin> set a"
proof (induction s arbitrary: a)
  case (Cons x s)
  note ih = Cons.IH
  show ?case
  proof (cases a)
    case Nil
    then show ?thesis by (cases "x = c") auto
  next
    case (Cons y ys)
    show ?thesis by (cases "x = c") (use Cons ih [of ys] in auto)
  qed
qed simp

lemma cut_first_None: "cut_first c s = None \<longleftrightarrow> c \<notin> set s"
  by (induction s) auto

lemma cut_last_Some: "cut_last c s = Some (a, b) \<longleftrightarrow> s = a @ c # b \<and> c \<notin> set b"
proof -
  have "cut_last c s = Some (a, b) \<longleftrightarrow> cut_first c (rev s) = Some (rev b, rev a)"
    by (auto simp: cut_last_def)
  also have "\<dots> \<longleftrightarrow> rev s = rev b @ c # rev a \<and> c \<notin> set b" by (simp add: cut_first_Some)
  also have "rev s = rev b @ c # rev a \<longleftrightarrow> s = a @ c # b"
    by (metis append.assoc append_Cons append_Nil rev.simps(2) rev_append rev_rev_ident)
  finally show ?thesis .
qed

lemma cut_last_None: "cut_last c s = None \<longleftrightarrow> c \<notin> set s"
  by (simp add: cut_last_def cut_first_None)

subsection \<open>Addresses\<close>

text \<open>\<^verbatim>\<open>net.ParseIP\<close>: sixteen bytes, an IPv4 address behind \<^verbatim>\<open>::ffff:\<close>.\<close>

type_synonym IP = "nat list"

definition hex_val :: "char \<Rightarrow> nat option" where
  "hex_val c =
     (let n = (of_char c :: nat) in
      if 48 \<le> n \<and> n \<le> 57 then Some (n - 48)
      else if 97 \<le> n \<and> n \<le> 102 then Some (n - 87)
      else if 65 \<le> n \<and> n \<le> 70 then Some (n - 55)
      else None)"

definition v4_field :: "string \<Rightarrow> nat option" where
  "v4_field s =
     (if s \<noteq> [] \<and> length s \<le> 3 \<and> list_all is_digit s \<and> (length s = 1 \<or> hd s \<noteq> CHR ''0'') \<and> dec_val s \<le> 255
      then Some (dec_val s) else None)"

definition parse_v4 :: "string \<Rightarrow> IP option" where
  "parse_v4 s = (let fs = split_on (CHR ''.'') s in if length fs = 4 then those (map v4_field fs) else None)"

definition hex_group :: "string \<Rightarrow> IP option" where
  "hex_group s =
     (if s = [] \<or> 4 < length s then None
      else map_option (\<lambda>ds. let n = foldl (\<lambda>a d. a * 16 + d) 0 ds in [n div 256, n mod 256]) (those (map hex_val s)))"

text \<open>The groups on one side of \<^verbatim>\<open>::\<close>; the last one of the address may be a dotted IPv4 address.\<close>

definition v6_side :: "bool \<Rightarrow> string \<Rightarrow> IP option" where
  "v6_side dotted s =
     (if s = [] then Some []
      else
        let gs = split_on (CHR '':'') s;
            final = (if dotted \<and> CHR ''.'' \<in> set (last gs) then parse_v4 (last gs) else hex_group (last gs))
        in map_option concat (those (map hex_group (butlast gs) @ [final])))"

fun cut_ellipsis :: "string \<Rightarrow> (string \<times> string) option" where
  "cut_ellipsis (x # y # s) =
     (if x = CHR '':'' \<and> y = CHR '':'' then Some ([], s)
      else map_option (\<lambda>(a, b). (x # a, b)) (cut_ellipsis (y # s)))"
| "cut_ellipsis _ = None"

definition parse_v6 :: "string \<Rightarrow> IP option" where
  "parse_v6 s =
     (case cut_ellipsis s of
        None \<Rightarrow> (case v6_side True s of Some bs \<Rightarrow> if length bs = 16 then Some bs else None | None \<Rightarrow> None)
      | Some (l, r) \<Rightarrow>
          (case (v6_side False l, v6_side True r) of
             (Some a, Some b) \<Rightarrow>
               if length a + length b < 16 then Some (a @ replicate (16 - length a - length b) 0 @ b) else None
           | _ \<Rightarrow> None))"

definition v4_prefix :: IP where "v4_prefix = replicate 10 0 @ [255, 255]"

definition ParseIP :: "string \<Rightarrow> IP option" where
  "ParseIP s =
     (case dropWhile (\<lambda>c. c \<noteq> CHR ''.'' \<and> c \<noteq> CHR '':'') s of
        [] \<Rightarrow> None
      | c # _ \<Rightarrow> if c = CHR ''.'' then map_option ((@) v4_prefix) (parse_v4 s) else parse_v6 s)"

definition To4 :: "IP \<Rightarrow> IP option" where
  "To4 ip = (if length ip = 4 then Some ip
             else if length ip = 16 \<and> take 12 ip = v4_prefix then Some (drop 12 ip) else None)"

text \<open>\<^verbatim>\<open>net.ParseCIDR\<close>: the masked network and its mask, both of four or of sixteen bytes.\<close>

record IPNet =
  net_IP :: IP
  net_Mask :: "nat list"

definition cidr_mask :: "nat \<Rightarrow> nat \<Rightarrow> nat list" where
  "cidr_mask ones len = map (\<lambda>i. 256 - 2 ^ (8 - min 8 (ones - 8 * i))) [0 ..< len]"

definition and_bytes :: "nat list \<Rightarrow> nat list \<Rightarrow> nat list" where
  "and_bytes xs ms = map2 (\<lambda>x m. and x m) xs ms"

definition ParseCIDR :: "string \<Rightarrow> IPNet option" where
  "ParseCIDR s =
     (case cut_first (CHR ''/'') s of
        None \<Rightarrow> None
      | Some (addr, bits) \<Rightarrow>
          (case ParseIP addr of
             None \<Rightarrow> None
           | Some ip \<Rightarrow>
               let dotted = (CHR '':'' \<notin> set addr);
                   len = (if dotted then 4 else 16);
                   base = (if dotted then drop 12 ip else ip)
               in if bits \<noteq> [] \<and> list_all is_digit bits \<and> dec_val bits \<le> 8 * len
                  then Some \<lparr>net_IP = and_bytes base (cidr_mask (dec_val bits) len), net_Mask = cidr_mask (dec_val bits) len\<rparr>
                  else None))"

text \<open>\<^verbatim>\<open>IPNet.Contains\<close>: an IPv4 network inside a sixteen-byte one is compared by its last four bytes.\<close>

definition net_contains :: "IPNet \<Rightarrow> IP \<Rightarrow> bool" where
  "net_contains n ip =
     (let nn = (case To4 (net_IP n) of Some b \<Rightarrow> b | None \<Rightarrow> net_IP n);
          m = (if length (net_Mask n) = 16 \<and> length nn = 4 then drop 12 (net_Mask n) else net_Mask n);
          x = (case To4 ip of Some b \<Rightarrow> b | None \<Rightarrow> ip)
      in length x = length nn \<and> and_bytes nn m = and_bytes x m)"

subsection \<open>base64url\<close>

text \<open>\<^verbatim>\<open>base64.RawURLEncoding\<close>; decoding skips line breaks and ignores the unused bits of the last character.\<close>

definition b64_char :: "nat \<Rightarrow> char" where
  "b64_char i =
     (if i < 26 then char_of (65 + i) else if i < 52 then char_of (71 + i) else if i < 62 then char_of (i - 4)
      else if i = 62 then CHR ''-'' else CHR ''_'')"

definition b64_val :: "char \<Rightarrow> nat option" where
  "b64_val c =
     (let n = (of_char c :: nat) in
      if 65 \<le> n \<and> n \<le> 90 then Some (n - 65)
      else if 97 \<le> n \<and> n \<le> 122 then Some (n - 71)
      else if 48 \<le> n \<and> n \<le> 57 then Some (n + 4)
      else if c = CHR ''-'' then Some 62
      else if c = CHR ''_'' then Some 63
      else None)"

fun b64_groups :: "nat list \<Rightarrow> nat list" where
  "b64_groups (a # b # c # bs) =
     (let n = a * 65536 + b * 256 + c in [n div 262144, n div 4096 mod 64, n div 64 mod 64, n mod 64] @ b64_groups bs)"
| "b64_groups [a, b] = (let n = a * 256 + b in [n div 1024, n div 16 mod 64, n mod 16 * 4])"
| "b64_groups [a] = [a div 4, a mod 4 * 16]"
| "b64_groups [] = []"

fun b64_bytes :: "nat list \<Rightarrow> nat list option" where
  "b64_bytes (a # b # c # d # vs) =
     (let n = a * 262144 + b * 4096 + c * 64 + d in
      map_option ((@) [n div 65536, n div 256 mod 256, n mod 256]) (b64_bytes vs))"
| "b64_bytes [a, b, c] = (let n = (a * 4096 + b * 64 + c) div 4 in Some [n div 256, n mod 256])"
| "b64_bytes [a, b] = Some [(a * 64 + b) div 16]"
| "b64_bytes [a] = None"
| "b64_bytes [] = Some []"

definition EncodeToString :: "nat list \<Rightarrow> string" where
  "EncodeToString bs = map b64_char (b64_groups bs)"

definition DecodeString :: "string \<Rightarrow> nat list option" where
  "DecodeString s =
     (case those (map b64_val (filter (\<lambda>c. (of_char c :: nat) \<noteq> 10 \<and> (of_char c :: nat) \<noteq> 13) s)) of
        None \<Rightarrow> None | Some vs \<Rightarrow> b64_bytes vs)"

lemma b64_char_val:
  assumes "i < 64"
  shows "b64_val (b64_char i) = Some i \<and> (of_char (b64_char i) :: nat) \<noteq> 10 \<and> (of_char (b64_char i) :: nat) \<noteq> 13"
proof -
  consider "i < 26" | "26 \<le> i" "i < 52" | "52 \<le> i" "i < 62" | "i = 62" | "i = 63" using assms by linarith
  then show ?thesis by cases (auto simp: b64_char_def b64_val_def Let_def)
qed

lemma b64_groups_lt: "list_all (\<lambda>b. b < 256) bs \<Longrightarrow> list_all (\<lambda>v. v < 64) (b64_groups bs)"
proof (induction bs rule: b64_groups.induct)
  case (1 a b c bs)
  then have "a * 65536 + b * 256 + c < 64 * 262144" by simp
  then have "(a * 65536 + b * 256 + c) div 262144 < 64" by (rule less_mult_imp_div_less)
  then show ?case using 1 by (simp add: Let_def)
next
  case (2 a b)
  then have "a * 256 + b < 64 * 1024" by simp
  then have "(a * 256 + b) div 1024 < 64" by (rule less_mult_imp_div_less)
  moreover have "(a * 256 + b) mod 16 < 16" by simp
  ultimately show ?case by (simp add: Let_def)
next
  case (3 a)
  then have "a < 64 * 4" by simp
  then have "a div 4 < 64" by (rule less_mult_imp_div_less)
  moreover have "a mod 4 < 4" by simp
  ultimately show ?case by simp
qed simp

lemma b64_sum:
  "n = q * 64 + r \<Longrightarrow> q = q' * 64 + r' \<Longrightarrow> q' = q'' * 64 + r'' \<Longrightarrow> q'' * 262144 + r'' * 4096 + r' * 64 + r = (n::nat)"
  by simp

lemma b64_bytes_groups: "list_all (\<lambda>b. b < 256) bs \<Longrightarrow> b64_bytes (b64_groups bs) = Some bs"
proof (induction bs rule: b64_groups.induct)
  case (1 a b c bs)
  define n where "n = a * 65536 + b * 256 + c"
  have "n div 4096 = n div 64 div 64" "n div 262144 = n div 64 div 64 div 64" by (simp_all add: div_mult2_eq [symmetric])
  then have "n div 262144 * 262144 + n div 4096 mod 64 * 4096 + n div 64 mod 64 * 64 + n mod 64 = n"
    by (simp only:) (rule b64_sum [of _ "n div 64" _ "n div 64 div 64"], simp_all only: div_mult_mod_eq)
  moreover have m: "n = (a * 256 + b) * 256 + c" "c < 256" "b < 256" using 1 by (simp_all add: n_def algebra_simps)
  have d: "n div 256 = a * 256 + b" "n mod 256 = c" using m(1,2) by (metis div_less div_mult_self3 add.right_neutral zero_neq_numeral, metis mod_less mod_mult_self3)
  have "n div 65536 = n div 256 div 256" by (simp add: div_mult2_eq [symmetric])
  then have "n div 65536 = a" "n div 256 mod 256 = b" "n mod 256 = c" using d m(3) by simp_all
  ultimately show ?case using 1 by (simp add: Let_def flip: n_def)
next
  case (2 a b)
  define n where "n = a * 256 + b"
  have "n div 1024 = n div 16 div 64" by (simp add: div_mult2_eq [symmetric])
  then have "n div 1024 * 4096 + n div 16 mod 64 * 64 + n mod 16 * 4 = n * 4"
    using div_mult_mod_eq [of n 16] div_mult_mod_eq [of "n div 16" 64] by linarith
  then have "(n div 1024 * 4096 + n div 16 mod 64 * 64 + n mod 16 * 4) div 4 = n" by simp
  moreover have "n div 256 = a" "n mod 256 = b" using 2 unfolding n_def by auto
  ultimately show ?case by (simp add: Let_def flip: n_def)
next
  case (3 a)
  have "a div 4 * 64 + a mod 4 * 16 = a * 16" using div_mult_mod_eq [of a 4] by linarith
  then have "(a div 4 * 64 + a mod 4 * 16) div 16 = a" by simp
  then show ?case by simp
qed simp

theorem base64_roundtrip: "list_all (\<lambda>b. b < 256) bs \<Longrightarrow> DecodeString (EncodeToString bs) = Some bs"
proof -
  assume bs: "list_all (\<lambda>b. b < 256) bs"
  have "filter (\<lambda>c. (of_char c :: nat) \<noteq> 10 \<and> (of_char c :: nat) \<noteq> 13) (map b64_char vs) = map b64_char vs \<and>
      those (map b64_val (map b64_char vs)) = Some vs" if "list_all (\<lambda>v. v < 64) vs" for vs
    using that by (induction vs) (simp_all add: b64_char_val)
  from this [OF b64_groups_lt [OF bs]] show ?thesis
    by (simp add: DecodeString_def EncodeToString_def b64_bytes_groups [OF bs])
qed

lemma EncodeToString_no: "list_all (\<lambda>b. b < 256) bs \<Longrightarrow> b64_val c = None \<Longrightarrow> c \<notin> set (EncodeToString bs)"
proof
  assume bs: "list_all (\<lambda>b. b < 256) bs" and c: "b64_val c = None" "c \<in> set (EncodeToString bs)"
  then obtain i where "i \<in> set (b64_groups bs)" "c = b64_char i" by (auto simp: EncodeToString_def)
  moreover from this(1) have "i < 64" using b64_groups_lt [OF bs] by (auto simp: list_all_iff)
  ultimately show False using b64_char_val c(1) by simp
qed

end
