(* ===== verification/Media_Auth.thy ===== *)
theory Media_Auth
  imports Net_Text OS_Domain
begin

text \<open>
  Who may watch a stream: \<^verbatim>\<open>internal/mediaauth/mediaauth.go\<close> and the validation of policies in
  \<^verbatim>\<open>internal/domain/policy.go\<close>. Policies are compiled to sets and lists and evaluated as a chain (deny, allow,
  token). The keyed hash, the URL parser and the country lookup are parameters (\<open>AuthLib\<close>). The compiled set is
  swapped atomically; an authorizer is its current value.
\<close>

subsection \<open>Policies\<close>

record Policy =
  po_Code :: PolicyCode
  po_RequireToken :: bool
  po_TokenSecret :: string
  po_AllowIPs :: "string list"
  po_DenyIPs :: "string list"
  po_AllowCountries :: "string list"
  po_DenyCountries :: "string list"
  po_AllowUserAgents :: "string list"
  po_DenyUserAgents :: "string list"
  po_AllowedDomains :: "string list"

definition MaxPolicyCodeLen :: nat where "MaxPolicyCodeLen = 128"

definition code_char :: "char \<Rightarrow> bool" where
  "code_char c \<longleftrightarrow> is_digit c \<or> c = CHR ''_'' \<or> c = CHR ''-'' \<or>
     (let n = (of_char c :: nat) in 65 \<le> n \<and> n \<le> 90 \<or> 97 \<le> n \<and> n \<le> 122)"

datatype PolicyError = CodeRequired | CodeTooLong | CodeInvalid | SecretEmpty | IPEmpty string | IPInvalid string string
  | CountryInvalid string string

definition ValidatePolicyCode :: "string \<Rightarrow> PolicyError option" where
  "ValidatePolicyCode s0 =
     (let s = TrimSpace s0 in
      if s = [] then Some CodeRequired
      else if MaxPolicyCodeLen < length s then Some CodeTooLong
      else if \<not> list_all code_char s then Some CodeInvalid
      else None)"

fun validateIPRules :: "string \<Rightarrow> string list \<Rightarrow> PolicyError option" where
  "validateIPRules field [] = None"
| "validateIPRules field (raw # rules) =
     (let s = TrimSpace raw in
      if s = [] then Some (IPEmpty field)
      else if ParseCIDR s \<noteq> None then validateIPRules field rules
      else if ParseIP s \<noteq> None then validateIPRules field rules
      else Some (IPInvalid field s))"

definition country_code :: "string \<Rightarrow> bool" where
  "country_code s \<longleftrightarrow> length s = 2 \<and>
     list_all (\<lambda>c. let n = (of_char c :: nat) in 65 \<le> n \<and> n \<le> 90 \<or> 97 \<le> n \<and> n \<le> 122) s"

fun validateCountryCodes :: "string \<Rightarrow> string list \<Rightarrow> PolicyError option" where
  "validateCountryCodes field [] = None"
| "validateCountryCodes field (raw # codes) =
     (if \<not> country_code (TrimSpace raw) then Some (CountryInvalid field raw) else validateCountryCodes field codes)"

definition pol_Validate :: "Policy \<Rightarrow> PolicyError option" where
  "pol_Validate p =
     (case ValidatePolicyCode (po_Code p) of
        Some e \<Rightarrow> Some e
      | None \<Rightarrow>
          if po_RequireToken p \<and> TrimSpace (po_TokenSecret p) = [] then Some SecretEmpty
          else case validateIPRules ''allow_ips'' (po_AllowIPs p) of
              Some e \<Rightarrow> Some e
            | None \<Rightarrow> (case validateIPRules ''deny_ips'' (po_DenyIPs p) of
                Some e \<Rightarrow> Some e
              | None \<Rightarrow> (case validateCountryCodes ''allow_countries'' (po_AllowCountries p) of
                  Some e \<Rightarrow> Some e
                | None \<Rightarrow> validateCountryCodes ''deny_countries'' (po_DenyCountries p))))"

subsection \<open>Requests and compiled policies\<close>

record AuthRequest =
  rq_Code :: StreamCode
  rq_ClientIP :: "IP option"
  rq_Token :: string
  rq_UserAgent :: string
  rq_Referer :: string

record Decision =
  dc_Allow :: bool
  dc_Reason :: string

definition allow :: Decision where "allow = \<lparr>dc_Allow = True, dc_Reason = []\<rparr>"
definition deny :: "string \<Rightarrow> Decision" where "deny reason = \<lparr>dc_Allow = False, dc_Reason = reason\<rparr>"

record AuthLib =
  al_mac :: "string \<Rightarrow> string \<Rightarrow> nat list"
  al_hostname :: "string \<Rightarrow> string option"

type_synonym GeoResolver = "IP option \<Rightarrow> string"
type_synonym PolicyResolver = "StreamCode \<Rightarrow> PolicyCode"

text \<open>Sets are lists; an exact address stands for its canonical text.\<close>

record policy =
  cp_requireToken :: bool
  cp_secret :: string
  cp_allowNets :: "IPNet list"
  cp_denyNets :: "IPNet list"
  cp_allowIPs :: "IP list"
  cp_denyIPs :: "IP list"
  cp_allowCountries :: "string list"
  cp_denyCountries :: "string list"
  cp_allowUAs :: "string list"
  cp_denyUAs :: "string list"
  cp_allowedDomains :: "string list"
  cp_hasIPAllow :: bool
  cp_hasCountryAllow :: bool
  cp_hasUAAllow :: bool
  cp_hasDomainAllow :: bool

definition parseIPRules :: "string list \<Rightarrow> IPNet list \<times> IP list" where
  "parseIPRules rules =
     foldl (\<lambda>(nets, exact) raw.
        let s = TrimSpace raw in
        if s = [] then (nets, exact)
        else case ParseCIDR s of
            Some n \<Rightarrow> (nets @ [n], exact)
          | None \<Rightarrow> (case ParseIP s of Some ip \<Rightarrow> (nets, List.insert ip exact) | None \<Rightarrow> (nets, exact)))
       ([], []) rules"

definition upperSet :: "string list \<Rightarrow> string list" where
  "upperSet xs = foldl (\<lambda>out raw. let s = ToUpper (TrimSpace raw) in if s \<noteq> [] then List.insert s out else out) [] xs"

definition lowerList :: "string list \<Rightarrow> string list" where
  "lowerList xs = foldl (\<lambda>out raw. let s = ToLower (TrimSpace raw) in if s \<noteq> [] then out @ [s] else out) [] xs"

definition compilePolicy :: "Policy \<Rightarrow> policy" where
  "compilePolicy p =
     (case (parseIPRules (po_AllowIPs p), parseIPRules (po_DenyIPs p)) of
        ((allowNets, allowIPs), (denyNets, denyIPs)) \<Rightarrow>
        \<lparr>cp_requireToken = po_RequireToken p, cp_secret = po_TokenSecret p,
         cp_allowNets = allowNets, cp_denyNets = denyNets, cp_allowIPs = allowIPs, cp_denyIPs = denyIPs,
         cp_allowCountries = upperSet (po_AllowCountries p), cp_denyCountries = upperSet (po_DenyCountries p),
         cp_allowUAs = lowerList (po_AllowUserAgents p), cp_denyUAs = lowerList (po_DenyUserAgents p),
         cp_allowedDomains = lowerList (po_AllowedDomains p),
         cp_hasIPAllow = (0 < length allowNets \<or> 0 < length allowIPs),
         cp_hasCountryAllow = (0 < length (upperSet (po_AllowCountries p))),
         cp_hasUAAllow = (0 < length (lowerList (po_AllowUserAgents p))),
         cp_hasDomainAllow = (0 < length (lowerList (po_AllowedDomains p)))\<rparr>)"

subsection \<open>Matching\<close>

definition ipInRules :: "IP option \<Rightarrow> IPNet list \<Rightarrow> IP list \<Rightarrow> bool" where
  "ipInRules ip nets exact =
     (case ip of None \<Rightarrow> False | Some a \<Rightarrow> a \<in> set exact \<or> list_ex (\<lambda>n. net_contains n a) nets)"

definition uaMatches :: "string \<Rightarrow> string list \<Rightarrow> bool" where
  "uaMatches ua patterns =
     (if ua = [] \<or> patterns = [] then False
      else let lc = ToLower ua in list_ex (\<lambda>p. p \<noteq> [] \<and> Contains lc p) patterns)"

definition domainAllowed :: "AuthLib \<Rightarrow> string \<Rightarrow> string list \<Rightarrow> bool" where
  "domainAllowed lib referer domains =
     (if referer = [] then False
      else case al_hostname lib referer of
          None \<Rightarrow> False
        | Some h \<Rightarrow>
            let host = ToLower h in
            if host = [] then False else list_ex (\<lambda>d. host = d \<or> suffix (CHR ''.'' # d) host) domains)"

subsection \<open>Tokens\<close>

definition clockSkew :: duration where "clockSkew = seconds 60"

definition tokenMAC :: "AuthLib \<Rightarrow> string \<Rightarrow> StreamCode \<Rightarrow> int \<Rightarrow> nat list" where
  "tokenMAC lib secret code e = al_mac lib secret (code @ ''|'' @ show_int e)"

definition SignToken :: "AuthLib \<Rightarrow> string \<Rightarrow> StreamCode \<Rightarrow> int \<Rightarrow> string" where
  "SignToken lib secret code e = show_int e @ ''.'' @ EncodeToString (tokenMAC lib secret code e)"

definition verify :: "AuthLib \<Rightarrow> gotime \<Rightarrow> string \<Rightarrow> StreamCode \<Rightarrow> string \<Rightarrow> bool" where
  "verify lib now secret code token =
     (case cut_first (CHR ''.'') token of
        None \<Rightarrow> False
      | Some (a, b) \<Rightarrow>
          if a = [] then False
          else case atoi a of
              None \<Rightarrow> False
            | Some e \<Rightarrow>
                if (now - clockSkew) div 1000000000 > e then False
                else case DecodeString b of
                    None \<Rightarrow> False
                  | Some got \<Rightarrow> got = tokenMAC lib secret code e)"

subsection \<open>The chain\<close>

definition checkDeny :: "AuthRequest \<Rightarrow> string \<Rightarrow> policy \<Rightarrow> Decision" where
  "checkDeny req country p =
     (if ipInRules (rq_ClientIP req) (cp_denyNets p) (cp_denyIPs p) then deny ''ip on deny list''
      else if country \<noteq> [] \<and> country \<in> set (cp_denyCountries p) then deny ''country on deny list''
      else if uaMatches (rq_UserAgent req) (cp_denyUAs p) then deny ''user-agent on deny list''
      else allow)"

definition checkAllow :: "AuthLib \<Rightarrow> AuthRequest \<Rightarrow> string \<Rightarrow> policy \<Rightarrow> Decision" where
  "checkAllow lib req country p =
     (if cp_hasIPAllow p \<and> \<not> ipInRules (rq_ClientIP req) (cp_allowNets p) (cp_allowIPs p) then deny ''ip not on allow list''
      else if cp_hasCountryAllow p \<and> (country \<notin> set (cp_allowCountries p) \<or> country = []) then deny ''country not on allow list''
      else if cp_hasUAAllow p \<and> \<not> uaMatches (rq_UserAgent req) (cp_allowUAs p) then deny ''user-agent not on allow list''
      else if cp_hasDomainAllow p \<and> \<not> domainAllowed lib (rq_Referer req) (cp_allowedDomains p) then deny ''referer domain not allowed''
      else allow)"

definition checkToken :: "AuthLib \<Rightarrow> gotime \<Rightarrow> AuthRequest \<Rightarrow> policy \<Rightarrow> Decision" where
  "checkToken lib now req p =
     (if \<not> cp_requireToken p then allow
      else if length (cp_secret p) = 0 then deny ''token required but policy has no secret''
      else if \<not> verify lib now (cp_secret p) (rq_Code req) (rq_Token req) then deny ''missing or invalid token''
      else allow)"

definition evaluate :: "AuthLib \<Rightarrow> gotime \<Rightarrow> AuthRequest \<Rightarrow> GeoResolver option \<Rightarrow> policy \<Rightarrow> Decision" where
  "evaluate lib now req geo p =
     (let country =
        (case geo of
           Some g \<Rightarrow> if 0 < length (cp_denyCountries p) \<or> cp_hasCountryAllow p then ToUpper (g (rq_ClientIP req)) else []
         | None \<Rightarrow> []);
          d = checkDeny req country p
      in if \<not> dc_Allow d then d
         else
           let a = checkAllow lib req country p
           in if \<not> dc_Allow a then a else checkToken lib now req p)"

record Authorizer =
  az_policies :: "(PolicyCode \<times> policy) list"
  az_geo :: "GeoResolver option"
  az_resolve :: "PolicyResolver option"

definition SetPolicies :: "Policy option list \<Rightarrow> Authorizer \<Rightarrow> Authorizer" where
  "SetPolicies ps a =
     a\<lparr>az_policies := foldl (\<lambda>m q. case q of None \<Rightarrow> m | Some p \<Rightarrow> gput (po_Code p) (compilePolicy p) m) [] ps\<rparr>"

definition newAuthorizer :: "GeoResolver option \<Rightarrow> PolicyResolver option \<Rightarrow> Authorizer" where
  "newAuthorizer geo resolve = SetPolicies [] \<lparr>az_policies = [], az_geo = geo, az_resolve = resolve\<rparr>"

definition Authorize :: "AuthLib \<Rightarrow> gotime \<Rightarrow> Authorizer \<Rightarrow> AuthRequest \<Rightarrow> Decision" where
  "Authorize lib now a req =
     (let code = (case az_resolve a of Some f \<Rightarrow> f (rq_Code req) | None \<Rightarrow> []) in
      if code = [] then allow
      else case gget (az_policies a) code of
          None \<Rightarrow> deny ''unknown policy''
        | Some pol \<Rightarrow> evaluate lib now req (az_geo a) pol)"

subsection \<open>What a policy means\<close>

text \<open>The rules of a policy as written, before compilation.\<close>

definition listed_ip :: "string list \<Rightarrow> IP option \<Rightarrow> bool" where
  "listed_ip rules ip \<longleftrightarrow>
     (case ip of None \<Rightarrow> False
      | Some a \<Rightarrow> \<exists>raw \<in> set rules. case ParseCIDR (TrimSpace raw) of
          Some n \<Rightarrow> net_contains n a | None \<Rightarrow> ParseIP (TrimSpace raw) = Some a)"

definition listed_country :: "string list \<Rightarrow> string \<Rightarrow> bool" where
  "listed_country codes country \<longleftrightarrow> country \<noteq> [] \<and> (\<exists>c \<in> set codes. ToUpper (TrimSpace c) = country)"

definition listed_agent :: "string list \<Rightarrow> string \<Rightarrow> bool" where
  "listed_agent pats ua \<longleftrightarrow> ua \<noteq> [] \<and>
     (\<exists>p \<in> set pats. TrimSpace p \<noteq> [] \<and> Contains (ToLower ua) (ToLower (TrimSpace p)))"

definition listed_domain :: "AuthLib \<Rightarrow> string list \<Rightarrow> string \<Rightarrow> bool" where
  "listed_domain lib doms referer \<longleftrightarrow> referer \<noteq> [] \<and>
     (case al_hostname lib referer of
        None \<Rightarrow> False
      | Some h \<Rightarrow> h \<noteq> [] \<and> (\<exists>d \<in> set doms. TrimSpace d \<noteq> [] \<and>
          (ToLower h = ToLower (TrimSpace d) \<or> suffix (CHR ''.'' # ToLower (TrimSpace d)) (ToLower h))))"

definition nonblank :: "string list \<Rightarrow> bool" where
  "nonblank xs \<longleftrightarrow> (\<exists>x \<in> set xs. TrimSpace x \<noteq> [])"

definition policy_allows :: "AuthLib \<Rightarrow> gotime \<Rightarrow> GeoResolver option \<Rightarrow> Policy \<Rightarrow> AuthRequest \<Rightarrow> bool" where
  "policy_allows lib now geo p req \<longleftrightarrow>
     (let country = (case geo of Some g \<Rightarrow> ToUpper (g (rq_ClientIP req)) | None \<Rightarrow> []) in
      \<not> listed_ip (po_DenyIPs p) (rq_ClientIP req) \<and>
      \<not> listed_country (po_DenyCountries p) country \<and>
      \<not> listed_agent (po_DenyUserAgents p) (rq_UserAgent req) \<and>
      (po_AllowIPs p = [] \<or> listed_ip (po_AllowIPs p) (rq_ClientIP req)) \<and>
      (po_AllowCountries p = [] \<or> listed_country (po_AllowCountries p) country) \<and>
      (\<not> nonblank (po_AllowUserAgents p) \<or> listed_agent (po_AllowUserAgents p) (rq_UserAgent req)) \<and>
      (\<not> nonblank (po_AllowedDomains p) \<or> listed_domain lib (po_AllowedDomains p) (rq_Referer req)) \<and>
      (\<not> po_RequireToken p \<or> verify lib now (po_TokenSecret p) (rq_Code req) (rq_Token req)))"

lemma ToUpper_Nil [simp]: "ToUpper s = [] \<longleftrightarrow> s = []" by (simp add: ToUpper_def)
lemma ToLower_Nil [simp]: "ToLower s = [] \<longleftrightarrow> s = []" by (simp add: ToLower_def)

lemma parse_Nil [simp]: "ParseCIDR [] = None" "ParseIP [] = None"
  by (simp_all add: ParseCIDR_def ParseIP_def)

lemma parseIPRules_sets:
  "set (fst (parseIPRules rules)) = {n. \<exists>raw \<in> set rules. ParseCIDR (TrimSpace raw) = Some n}"
  "set (snd (parseIPRules rules)) = {a. \<exists>raw \<in> set rules. ParseCIDR (TrimSpace raw) = None \<and> ParseIP (TrimSpace raw) = Some a}"
proof -
  have "set (fst (parseIPRules rules)) = {n. \<exists>raw \<in> set rules. ParseCIDR (TrimSpace raw) = Some n} \<and>
    set (snd (parseIPRules rules)) = {a. \<exists>raw \<in> set rules. ParseCIDR (TrimSpace raw) = None \<and> ParseIP (TrimSpace raw) = Some a}"
  proof (induction rules rule: rev_induct)
    case (snoc raw rules)
    obtain nets exact where p: "parseIPRules rules = (nets, exact)" by (metis surj_pair)
    have "parseIPRules (rules @ [raw]) = (let s = TrimSpace raw in
        if s = [] then (nets, exact)
        else case ParseCIDR s of
            Some n \<Rightarrow> (nets @ [n], exact)
          | None \<Rightarrow> (case ParseIP s of Some ip \<Rightarrow> (nets, List.insert ip exact) | None \<Rightarrow> (nets, exact)))"
      using p by (simp add: parseIPRules_def)
    then show ?case using snoc p by (auto simp: Let_def split: option.splits if_splits)
  qed (simp add: parseIPRules_def)
  then show "set (fst (parseIPRules rules)) = {n. \<exists>raw \<in> set rules. ParseCIDR (TrimSpace raw) = Some n}"
    "set (snd (parseIPRules rules)) = {a. \<exists>raw \<in> set rules. ParseCIDR (TrimSpace raw) = None \<and> ParseIP (TrimSpace raw) = Some a}"
    by simp_all
qed

lemma ipInRules_listed: "parseIPRules rules = (nets, exact) \<Longrightarrow> ipInRules ip nets exact = listed_ip rules ip"
proof -
  assume "parseIPRules rules = (nets, exact)"
  then have "set nets = {n. \<exists>raw \<in> set rules. ParseCIDR (TrimSpace raw) = Some n}"
    "set exact = {a. \<exists>raw \<in> set rules. ParseCIDR (TrimSpace raw) = None \<and> ParseIP (TrimSpace raw) = Some a}"
    using parseIPRules_sets [of rules] by simp_all
  note sets = this
  show ?thesis
  proof (cases ip)
    case (Some a)
    have "listed_ip rules ip \<longleftrightarrow> (\<exists>raw \<in> set rules. (\<exists>n. ParseCIDR (TrimSpace raw) = Some n \<and> net_contains n a) \<or>
        ParseCIDR (TrimSpace raw) = None \<and> ParseIP (TrimSpace raw) = Some a)"
      unfolding listed_ip_def Some option.case by (rule bex_cong [OF refl]) (auto split: option.split)
    also have "\<dots> \<longleftrightarrow> ipInRules ip nets exact" unfolding ipInRules_def Some option.case list_ex_iff sets by blast
    finally show ?thesis by simp
  qed (simp add: ipInRules_def listed_ip_def)
qed

lemma set_upperSet: "set (upperSet xs) = {ToUpper (TrimSpace x) | x. x \<in> set xs \<and> TrimSpace x \<noteq> []}"
  unfolding upperSet_def by (induction xs rule: rev_induct) (auto simp: Let_def)

lemma set_lowerList: "set (lowerList xs) = {ToLower (TrimSpace x) | x. x \<in> set xs \<and> TrimSpace x \<noteq> []}"
  unfolding lowerList_def by (induction xs rule: rev_induct) (auto simp: Let_def)

lemma lowerList_Nil: "lowerList xs = [] \<longleftrightarrow> \<not> nonblank xs"
  unfolding set_empty [symmetric] set_lowerList by (auto simp: nonblank_def)

lemma upperSet_Nil: "upperSet xs = [] \<longleftrightarrow> \<not> nonblank xs"
  unfolding set_empty [symmetric] set_upperSet by (auto simp: nonblank_def)

lemma uaMatches_listed: "uaMatches ua (lowerList ps) = listed_agent ps ua"
  by (auto simp: uaMatches_def listed_agent_def list_ex_iff set_lowerList lowerList_Nil nonblank_def Let_def)

lemma domainAllowed_listed: "domainAllowed lib r (lowerList ds) = listed_domain lib ds r"
  by (auto simp: domainAllowed_def listed_domain_def list_ex_iff set_lowerList Let_def split: option.split)

lemma country_listed: "country \<noteq> [] \<and> country \<in> set (upperSet cs) \<longleftrightarrow> listed_country cs country"
  by (auto simp: listed_country_def set_upperSet)

text \<open>A policy that passes validation has no rule that is dropped when it is compiled.\<close>

lemma validateIPRules_None:
  "validateIPRules field rules = None \<Longrightarrow> raw \<in> set rules \<Longrightarrow>
     ParseCIDR (TrimSpace raw) \<noteq> None \<or> ParseIP (TrimSpace raw) \<noteq> None"
  by (induction rules) (auto simp: Let_def split: if_splits)

lemma validateCountryCodes_None:
  "validateCountryCodes field codes = None \<Longrightarrow> raw \<in> set codes \<Longrightarrow> TrimSpace raw \<noteq> []"
  by (induction codes) (auto simp: country_code_def split: if_splits)

lemma Validate_fields:
  assumes "pol_Validate p = None"
  shows "validateIPRules ''allow_ips'' (po_AllowIPs p) = None" and "validateIPRules ''deny_ips'' (po_DenyIPs p) = None"
    and "validateCountryCodes ''allow_countries'' (po_AllowCountries p) = None"
    and "po_RequireToken p \<Longrightarrow> po_TokenSecret p \<noteq> []"
  using assms by (auto simp: pol_Validate_def TrimSpace_def split: option.splits if_splits)

lemma evaluate_allows:
  assumes valid: "pol_Validate p = None"
  shows "dc_Allow (evaluate lib now req geo (compilePolicy p)) = policy_allows lib now geo p req"
proof -
  obtain an ai where a: "parseIPRules (po_AllowIPs p) = (an, ai)" by (metis surj_pair)
  obtain dn di where d: "parseIPRules (po_DenyIPs p) = (dn, di)" by (metis surj_pair)
  have hasIP: "(0 < length an \<or> 0 < length ai) \<longleftrightarrow> po_AllowIPs p \<noteq> []"
  proof
    show "0 < length an \<or> 0 < length ai \<Longrightarrow> po_AllowIPs p \<noteq> []" using a by (auto simp: parseIPRules_def)
    assume "po_AllowIPs p \<noteq> []"
    then obtain raw where r: "raw \<in> set (po_AllowIPs p)" by (cases "po_AllowIPs p") auto
    from validateIPRules_None [OF Validate_fields(1) [OF valid] r] show "0 < length an \<or> 0 < length ai"
    proof (cases "ParseCIDR (TrimSpace raw)")
      case None
      then obtain b where "ParseIP (TrimSpace raw) = Some b"
        using validateIPRules_None [OF Validate_fields(1) [OF valid] r] by auto
      then have "b \<in> set ai" using parseIPRules_sets(2) [of "po_AllowIPs p"] a r None by auto
      then show ?thesis by (cases ai) auto
    next
      case (Some n)
      then have "n \<in> set an" using parseIPRules_sets(1) [of "po_AllowIPs p"] a r by auto
      then show ?thesis by (cases an) auto
    qed
  qed
  have hasC: "0 < length (upperSet (po_AllowCountries p)) \<longleftrightarrow> po_AllowCountries p \<noteq> []"
  proof -
    have "nonblank (po_AllowCountries p) \<longleftrightarrow> po_AllowCountries p \<noteq> []"
      using validateCountryCodes_None [OF Validate_fields(3) [OF valid]] unfolding nonblank_def
      by (metis list.set_intros(1) neq_Nil_conv empty_iff empty_set)
    then show ?thesis using upperSet_Nil [of "po_AllowCountries p"] by (metis length_greater_0_conv)
  qed
  define country where "country = (case geo of Some g \<Rightarrow> ToUpper (g (rq_ClientIP req)) | None \<Rightarrow> [])"
  define c where "c = (case geo of
      Some g \<Rightarrow> if 0 < length (upperSet (po_DenyCountries p)) \<or> po_AllowCountries p \<noteq> [] then ToUpper (g (rq_ClientIP req)) else []
    | None \<Rightarrow> [])"
  have deny: "listed_country (po_DenyCountries p) c \<longleftrightarrow> listed_country (po_DenyCountries p) country"
  proof (cases "upperSet (po_DenyCountries p) = []")
    case True
    then have "\<not> listed_country (po_DenyCountries p) x" for x by (simp flip: country_listed)
    then show ?thesis by simp
  qed (simp add: c_def country_def split: option.split)
  have allow: "po_AllowCountries p \<noteq> [] \<Longrightarrow> c = country" by (simp add: c_def country_def split: option.split)
  have tok: "po_RequireToken p \<Longrightarrow> po_TokenSecret p \<noteq> []" using Validate_fields(4) [OF valid] .
  let ?p = "compilePolicy p"
  have ev: "evaluate lib now req geo ?p = (let d = checkDeny req c ?p in
      if \<not> dc_Allow d then d else let a = checkAllow lib req c ?p in if \<not> dc_Allow a then a else checkToken lib now req ?p)"
    unfolding evaluate_def c_def using hasC by (simp add: compilePolicy_def a d Let_def cong: option.case_cong)
  have "dc_Allow (checkDeny req c ?p) \<longleftrightarrow> \<not> listed_ip (po_DenyIPs p) (rq_ClientIP req) \<and>
      \<not> listed_country (po_DenyCountries p) country \<and> \<not> listed_agent (po_DenyUserAgents p) (rq_UserAgent req)"
    using deny by (simp add: checkDeny_def compilePolicy_def a d ipInRules_listed [OF d] uaMatches_listed country_listed
        deny_def allow_def)
  moreover have "dc_Allow (checkAllow lib req c ?p) \<longleftrightarrow>
      (po_AllowIPs p = [] \<or> listed_ip (po_AllowIPs p) (rq_ClientIP req)) \<and>
      (po_AllowCountries p = [] \<or> listed_country (po_AllowCountries p) country) \<and>
      (\<not> nonblank (po_AllowUserAgents p) \<or> listed_agent (po_AllowUserAgents p) (rq_UserAgent req)) \<and>
      (\<not> nonblank (po_AllowedDomains p) \<or> listed_domain lib (po_AllowedDomains p) (rq_Referer req))"
    using hasIP hasC allow country_listed [of c "po_AllowCountries p"]
    by (auto simp: checkAllow_def compilePolicy_def a d ipInRules_listed [OF a] uaMatches_listed domainAllowed_listed
        lowerList_Nil deny_def allow_def)
  moreover have "dc_Allow (checkToken lib now req ?p) \<longleftrightarrow>
      \<not> po_RequireToken p \<or> verify lib now (po_TokenSecret p) (rq_Code req) (rq_Token req)"
    using tok by (auto simp: checkToken_def compilePolicy_def a d deny_def allow_def)
  ultimately show ?thesis unfolding ev policy_allows_def country_def [symmetric] by (simp add: Let_def)
qed

lemma SetPolicies_lookup:
  "gget (az_policies (SetPolicies ps a)) code =
     map_option compilePolicy (List.find (\<lambda>p. po_Code p = code) (rev (concat (map (case_option [] (\<lambda>p. [p])) ps))))"
proof (induction ps rule: rev_induct)
  case (snoc q ps)
  then show ?case by (cases q) (auto simp: SetPolicies_def map_simps)
qed (simp add: SetPolicies_def)

lemma SetPolicies_keeps [simp]: "az_geo (SetPolicies ps a) = az_geo a" "az_resolve (SetPolicies ps a) = az_resolve a"
  by (simp_all add: SetPolicies_def)

lemma find_mem: "List.find P xs = Some x \<Longrightarrow> x \<in> set xs \<and> P x"
  by (induction xs) (auto split: if_splits)

subsection \<open>Tokens\<close>

lemma show_int_chars: "c \<in> set (show_int i) \<Longrightarrow> is_digit c \<or> c = CHR ''-''"
  using digits_all by (auto simp: show_int_def list_all_iff split: if_splits)

lemma show_int_no: "\<not> is_digit c \<Longrightarrow> c \<noteq> CHR ''-'' \<Longrightarrow> c \<notin> set (show_int i)"
  using show_int_chars by blast

lemma show_int_nonempty [simp]: "show_int i \<noteq> []"
  by (simp add: show_int_def)

lemma atoi_show_int: "- (2 ^ 63) \<le> e \<Longrightarrow> e < 2 ^ 63 \<Longrightarrow> atoi (show_int e) = Some e"
proof (cases "e < 0")
  case True
  assume "- (2 ^ 63) \<le> e"
  then have "nat (- e) \<le> 2 ^ 63" by simp
  then show ?thesis using True by (simp add: show_int_def atoi_def digits_all)
next
  case False
  assume "e < 2 ^ 63"
  then have "nat e < 2 ^ 63" by (simp add: nat_less_iff)
  from atoi_digits [OF this] show ?thesis using False by (simp add: show_int_def)
qed

lemma verify_signed:
  assumes "\<forall>m. list_all (\<lambda>b. b < 256) (al_mac lib secret m)" and "- (2 ^ 63) \<le> e" and "e < 2 ^ 63"
  shows "verify lib now secret code' (SignToken lib secret code e) \<longleftrightarrow>
    (now - clockSkew) div 1000000000 \<le> e \<and> tokenMAC lib secret code e = tokenMAC lib secret code' e"
proof -
  have "list_all (\<lambda>b. b < 256) (tokenMAC lib secret code e)" using assms(1) by (simp add: tokenMAC_def)
  moreover have "CHR ''.'' \<notin> set (show_int e)" by (rule show_int_no) (simp_all add: is_digit_def)
  then have "cut_first (CHR ''.'') (SignToken lib secret code e) =
      Some (show_int e, EncodeToString (tokenMAC lib secret code e))" by (simp add: cut_first_Some SignToken_def)
  ultimately show ?thesis using assms(2,3) by (auto simp: verify_def atoi_show_int base64_roundtrip)
qed

subsection \<open>Properties\<close>

text \<open>
  C12: Authorization implements the policies as written. With validated policies loaded, a request is allowed
  exactly if its stream has no policy, or the last policy of that name allows it: no deny rule covers it,
  every allow list that is not blank covers it, and a required token is valid. An unknown policy denies.
\<close>

theorem authorize_implements_policy:
  assumes "\<forall>p. Some p \<in> set ps \<longrightarrow> pol_Validate p = None"
  shows "dc_Allow (Authorize lib now (SetPolicies ps (newAuthorizer geo (Some resolve))) req) \<longleftrightarrow>
    (let code = resolve (rq_Code req) in code = [] \<or>
       (case List.find (\<lambda>p. po_Code p = code) (rev (concat (map (case_option [] (\<lambda>p. [p])) ps))) of
          None \<Rightarrow> False
        | Some p \<Rightarrow> policy_allows lib now geo p req))"
proof -
  let ?code = "resolve (rq_Code req)"
  let ?found = "List.find (\<lambda>p. po_Code p = ?code) (rev (concat (map (case_option [] (\<lambda>p. [p])) ps)))"
  have "pol_Validate p = None" if "?found = Some p" for p
    using find_mem [OF that] assms by (auto split: option.splits)
  then show ?thesis
    by (auto simp: Authorize_def SetPolicies_lookup newAuthorizer_def Let_def allow_def deny_def evaluate_allows
        split: option.split)
qed

text \<open>
  C16: A minted token opens its stream, and no other, until it expires. A signed token verifies exactly for its own
  stream code, until sixty seconds after its expiry, provided the keyed hash returns bytes and does not collide on
  the messages of the two streams.
\<close>

theorem minted_token_opens_its_stream_only:
  assumes "\<forall>m. list_all (\<lambda>b. b < 256) (al_mac lib secret m)"
    and "code' \<noteq> code \<longrightarrow> tokenMAC lib secret code' e \<noteq> tokenMAC lib secret code e"
    and "- (2 ^ 63) \<le> e" and "e < 2 ^ 63"
  shows "verify lib now secret code' (SignToken lib secret code e) \<longleftrightarrow>
    code' = code \<and> now < (e + 61) * 1000000000"
proof -
  have "(now - clockSkew) div 1000000000 \<le> e \<longleftrightarrow> now < (e + 61) * 1000000000"
    by (simp add: clockSkew_def) linarith
  moreover have "tokenMAC lib secret code e = tokenMAC lib secret code' e \<longleftrightarrow> code = code'"
    using assms(2) by auto
  ultimately show ?thesis using verify_signed [OF assms(1,3,4)] by auto
qed

text \<open>
  A list of blank entries restricts nothing. An allow list of user agents or domains that holds only blank entries
  passes validation and lets every request through its gate.
\<close>

theorem blank_allow_lists_restrict_nothing:
  assumes "\<not> nonblank uas" and "\<not> nonblank doms"
    and "pol_Validate p = None"
  shows "pol_Validate (p\<lparr>po_AllowUserAgents := uas, po_AllowedDomains := doms\<rparr>) = None"
    and "dc_Allow (evaluate lib now req geo (compilePolicy (p\<lparr>po_AllowUserAgents := uas, po_AllowedDomains := doms\<rparr>))) \<longleftrightarrow>
      dc_Allow (evaluate lib now req geo (compilePolicy (p\<lparr>po_AllowUserAgents := [], po_AllowedDomains := []\<rparr>)))"
proof -
  have v: "pol_Validate (p\<lparr>po_AllowUserAgents := u, po_AllowedDomains := d\<rparr>) = None" for u d
    using assms(3) by (simp add: pol_Validate_def cong del: option.case_cong_weak if_weak_cong)
  then show "pol_Validate (p\<lparr>po_AllowUserAgents := uas, po_AllowedDomains := doms\<rparr>) = None" .
  show "dc_Allow (evaluate lib now req geo (compilePolicy (p\<lparr>po_AllowUserAgents := uas, po_AllowedDomains := doms\<rparr>))) \<longleftrightarrow>
      dc_Allow (evaluate lib now req geo (compilePolicy (p\<lparr>po_AllowUserAgents := [], po_AllowedDomains := []\<rparr>)))"
    using assms(1,2) by (simp add: evaluate_allows [OF v] policy_allows_def nonblank_def)
qed

subsection \<open>Witnesses\<close>

definition vip_policy :: Policy where
  "vip_policy = \<lparr>po_Code = ''vip'', po_RequireToken = False, po_TokenSecret = [], po_AllowIPs = [''10.0.0.0/8''],
     po_DenyIPs = [''10.1.2.3''], po_AllowCountries = [], po_DenyCountries = [''xx''], po_AllowUserAgents = [],
     po_DenyUserAgents = [''curl''], po_AllowedDomains = []\<rparr>"

definition toy_auth :: AuthLib where
  "toy_auth = \<lparr>al_mac = (\<lambda>k m. map of_char (k @ m)), al_hostname = (\<lambda>u. Some u)\<rparr>"

definition vip_request :: "string \<Rightarrow> AuthRequest" where
  "vip_request ip = \<lparr>rq_Code = ''live'', rq_ClientIP = ParseIP ip, rq_Token = [],
     rq_UserAgent = ''VLC'', rq_Referer = []\<rparr>"

lemma authorize_implements_policy_witness:
  "map (\<lambda>ip. dc_Allow (Authorize toy_auth 0 (SetPolicies [Some vip_policy] (newAuthorizer None (Some (\<lambda>_. ''vip'')))) (vip_request ip)))
     [''10.9.9.9'', ''10.1.2.3'', ''11.0.0.1''] = [True, False, False]"
proof -
  have v: "pol_Validate vip_policy = None" by code_simp
  then have "\<forall>p. Some p \<in> set [Some vip_policy] \<longrightarrow> pol_Validate p = None" by simp
  note spec = authorize_implements_policy [OF this, of toy_auth 0 None "\<lambda>_. ''vip''"]
  have "po_Code vip_policy = ''vip''" by (simp add: vip_policy_def)
  then have "dc_Allow (Authorize toy_auth 0 (SetPolicies [Some vip_policy] (newAuthorizer None (Some (\<lambda>_. ''vip'')))) (vip_request ip)) =
      policy_allows toy_auth 0 None vip_policy (vip_request ip)" for ip
    unfolding spec by simp
  moreover have "map (\<lambda>ip. policy_allows toy_auth 0 None vip_policy (vip_request ip)) [''10.9.9.9'', ''10.1.2.3'', ''11.0.0.1''] =
      [True, False, False]" by code_simp
  ultimately show ?thesis by simp
qed

lemma minted_token_opens_its_stream_only_witness:
  "verify toy_auth 0 ''k'' ''a'' (SignToken toy_auth ''k'' ''a'' 5) \<and> \<not> verify toy_auth 0 ''k'' ''b'' (SignToken toy_auth ''k'' ''a'' 5)"
proof -
  have "list_all (\<lambda>b. b < 256) (al_mac toy_auth ''k'' m)" for m by (auto simp: toy_auth_def list_all_iff)
  then show ?thesis using minted_token_opens_its_stream_only [of toy_auth "''k''" _ "''a''" 5 0]
    by (simp add: tokenMAC_def toy_auth_def)
qed

lemma blank_allow_lists_restrict_nothing_witness:
  "dc_Allow (evaluate toy_auth 0 (vip_request ''10.9.9.9'') None
     (compilePolicy (vip_policy\<lparr>po_AllowUserAgents := ['' ''], po_AllowedDomains := [[]]\<rparr>)))"
proof -
  have "\<not> nonblank ['' '']" "\<not> nonblank [[]]" "pol_Validate vip_policy = None" by code_simp+
  from blank_allow_lists_restrict_nothing(2) [OF this, of toy_auth 0 "vip_request ''10.9.9.9''" None] show ?thesis
    by (simp only:) code_simp
qed

end
