(* ===== verification/Media_Routes.thy ===== *)
theory Media_Routes
  imports Media_Auth
begin

text \<open>
  From a URL to a file: \<^verbatim>\<open>internal/api/routing.go\<close>, \<^verbatim>\<open>dispatch.go\<close>, \<^verbatim>\<open>apiauth.go\<close>, \<^verbatim>\<open>internal/mediaserve\<close> and the check of stream
  codes in \<^verbatim>\<open>internal/domain/stream.go\<close>. A dispatcher returns which handler gets the request, with the
  parameters it reads, or the refusal; a file on disk is returned as its path and headers. The router of chi,
  which splits off the first segment, and the password hash are libraries.
\<close>

subsection \<open>Paths\<close>

definition streamActionRestart :: string where "streamActionRestart = ''restart''"
definition streamActionSwitch :: string where "streamActionSwitch = ''switch''"
definition mediaActionMPEGTS :: string where "mediaActionMPEGTS = ''mpegts''"
definition mediaFileHLSIndex :: string where "mediaFileHLSIndex = ''index.m3u8''"
definition mediaFileDASHIndex :: string where "mediaFileDASHIndex = ''index.mpd''"
definition mediaFileRecordingStatusJS :: string where "mediaFileRecordingStatusJS = ''recording_status.json''"

definition splitTailAction :: "string \<Rightarrow> string list \<Rightarrow> string \<times> string" where
  "splitTailAction sub actions =
     (case cut_last (CHR ''/'') sub of
        None \<Rightarrow> (sub, [])
      | Some (h, t) \<Rightarrow> if t \<in> set actions then (h, t) else (sub, []))"

definition splitCodeAndFile :: "string \<Rightarrow> (string \<times> string) option" where
  "splitCodeAndFile s = cut_last (CHR ''/'') s"

definition sanitizeSubpath :: "string \<Rightarrow> string option" where
  "sanitizeSubpath s0 =
     (let s = TrimPrefix s0 ''/'' in
      if s = [] then None
      else if Contains s ''..'' then None
      else
        let cleaned = Clean s
        in if cleaned = ''.'' \<or> prefix ''/'' cleaned \<or> prefix ''..'' cleaned then None else Some s)"

definition MaxStreamCodeLen :: nat where "MaxStreamCodeLen = 128"

datatype CodeError = StreamCodeRequired | StreamCodeTooLong | StreamCodeChars | StreamCodeEdge | StreamCodeSlashes

definition ValidateStreamCode :: "string \<Rightarrow> CodeError option" where
  "ValidateStreamCode s0 =
     (let s = TrimSpace s0 in
      if s = [] then Some StreamCodeRequired
      else if MaxStreamCodeLen < length s then Some StreamCodeTooLong
      else if \<not> list_all (\<lambda>c. code_char c \<or> c = CHR ''/'') s then Some StreamCodeChars
      else if prefix ''/'' s \<or> suffix ''/'' s then Some StreamCodeEdge
      else if Contains s ''//'' then Some StreamCodeSlashes
      else None)"

subsection \<open>Files on disk\<close>

record Roots =
  ro_HLSDir :: string
  ro_DASHDir :: string

definition Ext :: "string \<Rightarrow> string" where
  "Ext name = (case cut_last (CHR ''.'') name of None \<Rightarrow> [] | Some (_, e) \<Rightarrow> if CHR ''/'' \<in> set e then [] else CHR ''.'' # e)"

definition Base :: "string \<Rightarrow> string" where
  "Base p =
     (if p = [] then ''.''
      else
        let q = rev (dropWhile (\<lambda>c. c = CHR ''/'') (rev p));
            b = (case cut_last (CHR ''/'') q of None \<Rightarrow> q | Some (_, b) \<Rightarrow> b)
        in if b = [] then ''/'' else b)"

record DiskFile =
  df_Path :: string
  df_ContentType :: string
  df_CacheControl :: string

text \<open>\<^verbatim>\<open>ServeFile\<close>: \<open>None\<close> is not found. \<^verbatim>\<open>filepath.Join\<close> of three parts ignores the empty ones.\<close>

definition join3 :: "string \<Rightarrow> string \<Rightarrow> string \<Rightarrow> string" where
  "join3 a b c = (case filter (\<lambda>x. x \<noteq> []) [a, b, c] of [] \<Rightarrow> [] | xs \<Rightarrow> Clean (join_slash xs))"

definition ServeFile :: "Roots \<Rightarrow> string \<Rightarrow> string \<Rightarrow> DiskFile option" where
  "ServeFile s code filename =
     (if code = [] \<or> filename = [] then None
      else
        let rel = Clean filename in
        if rel = ''.'' \<or> prefix ''..'' rel then None
        else
          let ext = ToLower (Ext (Base rel));
              baseDir = (if ext \<in> {''.ts'', ''.m3u8''} then Some (ro_HLSDir s)
                else if ext \<in> {''.m4s'', ''.mpd'', ''.mp4''} then Some (ro_DASHDir s) else None)
          in case baseDir of
               None \<Rightarrow> None
             | Some d \<Rightarrow> Some \<lparr>df_Path = join3 d code rel,
                 df_ContentType = (if ext = ''.ts'' then ''video/mp2t'' else if ext = ''.m3u8'' then ''application/vnd.apple.mpegurl''
                   else if ext = ''.mpd'' then ''application/dash+xml'' else if ext = ''.m4s'' then ''video/iso.segment'' else ''video/mp4''),
                 df_CacheControl = (if ext = ''.m3u8'' then ''no-cache''
                   else if ext = ''.mpd'' then ''no-store, max-age=0, must-revalidate'' else [])\<rparr>)"

subsection \<open>Media requests\<close>

definition isABRTrackSlug :: "string \<Rightarrow> bool" where
  "isABRTrackSlug s \<longleftrightarrow> prefix ''track_'' s \<and> length s \<noteq> 6 \<and> list_all is_digit (drop 6 s)"

definition stripABRTrackSlug :: "StreamCode \<Rightarrow> StreamCode" where
  "stripABRTrackSlug code =
     (case cut_last (CHR ''/'') code of
        None \<Rightarrow> code
      | Some (h, t) \<Rightarrow> if h \<noteq> [] \<and> isABRTrackSlug t then h else code)"

text \<open>\<^verbatim>\<open>net.SplitHostPort\<close>.\<close>

definition SplitHostPort :: "string \<Rightarrow> (string \<times> string) option" where
  "SplitHostPort hp =
     (case cut_last (CHR '':'') hp of
        None \<Rightarrow> None
      | Some (before, port) \<Rightarrow>
          if hp \<noteq> [] \<and> hd hp = CHR ''['' then
            (case cut_first (CHR '']'') hp of
               None \<Rightarrow> None
             | Some (l, r) \<Rightarrow>
                 if length l + 1 = length before \<and> CHR ''['' \<notin> set (tl hp) \<and> CHR '']'' \<notin> set r
                 then Some (tl l, port) else None)
          else if CHR '':'' \<in> set before \<or> CHR ''['' \<in> set hp \<or> CHR '']'' \<in> set hp then None
          else Some (before, port))"

record MediaRequest =
  mr_Suffix :: string
  mr_RemoteAddr :: string
  mr_Query :: "(string \<times> string) list"
  mr_UserAgent :: string
  mr_Referer :: string

definition query_get :: "(string \<times> string) list \<Rightarrow> string \<Rightarrow> string" where
  "query_get q k = (case gget q k of None \<Rightarrow> [] | Some v \<Rightarrow> v)"

definition isDVRPlaybackRequest :: "MediaRequest \<Rightarrow> bool" where
  "isDVRPlaybackRequest r \<longleftrightarrow> list_ex (\<lambda>k. gget (mr_Query r) k \<noteq> None) [''from'', ''delay'', ''dur'', ''ago'']"

text \<open>The parts of the server a media request meets; \<open>sv_isBlob\<close> says which streams have an archive.\<close>

record Server =
  sv_roots :: Roots
  sv_mediaAuth :: "Authorizer option"
  sv_pub :: bool
  sv_isBlob :: "StreamCode \<Rightarrow> bool"

definition mediaAllowed :: "AuthLib \<Rightarrow> gotime \<Rightarrow> Server \<Rightarrow> MediaRequest \<Rightarrow> StreamCode \<Rightarrow> bool" where
  "mediaAllowed lib now sv r code =
     (case sv_mediaAuth sv of
        None \<Rightarrow> True
      | Some a \<Rightarrow>
          let host = (case SplitHostPort (mr_RemoteAddr r) of Some (h, _) \<Rightarrow> h | None \<Rightarrow> mr_RemoteAddr r)
          in dc_Allow (Authorize lib now a
               \<lparr>rq_Code = stripABRTrackSlug code, rq_ClientIP = ParseIP host, rq_Token = query_get (mr_Query r) ''token'',
                rq_UserAgent = mr_UserAgent r, rq_Referer = mr_Referer r\<rparr>))"

datatype MediaResponse = NotFound | Forbidden | LiveMPEGTS StreamCode | RecordingStatus StreamCode
  | Timeshift StreamCode | TimeshiftMPD StreamCode | BlobMedia StreamCode string | FromDisk DiskFile

definition dispatchMedia :: "AuthLib \<Rightarrow> gotime \<Rightarrow> Server \<Rightarrow> MediaRequest \<Rightarrow> MediaResponse" where
  "dispatchMedia lib now sv r =
     (case sanitizeSubpath (mr_Suffix r) of
        None \<Rightarrow> NotFound
      | Some s \<Rightarrow>
      case splitCodeAndFile s of
        None \<Rightarrow> NotFound
      | Some (code, file) \<Rightarrow>
          if ValidateStreamCode code \<noteq> None then NotFound
          else if \<not> mediaAllowed lib now sv r code then Forbidden
          else if file = mediaActionMPEGTS then (if \<not> sv_pub sv then NotFound else LiveMPEGTS code)
          else if file = mediaFileRecordingStatusJS then RecordingStatus code
          else if file = mediaFileHLSIndex \<and> isDVRPlaybackRequest r \<and> sv_isBlob sv code then Timeshift code
          else if file = mediaFileDASHIndex \<and> isDVRPlaybackRequest r \<and> sv_isBlob sv code then TimeshiftMPD code
          else if IsBlobMediaFile file then BlobMedia code file
          else case ServeFile (sv_roots sv) code file of None \<Rightarrow> NotFound | Some d \<Rightarrow> FromDisk d)"

subsection \<open>Management requests\<close>

datatype StreamResponse = SNotFound | BadRequest CodeError | MethodNotAllowed | SRestart StreamCode | SSwitch StreamCode
  | SGet StreamCode | SPut StreamCode | SDelete StreamCode

definition dispatchStreamsSubpath :: "string \<Rightarrow> string \<Rightarrow> StreamResponse" where
  "dispatchStreamsSubpath http_method sub =
     (case sanitizeSubpath sub of
        None \<Rightarrow> SNotFound
      | Some s \<Rightarrow>
          (case splitTailAction s [streamActionRestart, streamActionSwitch] of (code, action) \<Rightarrow>
             case ValidateStreamCode code of
               Some e \<Rightarrow> BadRequest e
             | None \<Rightarrow>
                 if action = streamActionRestart then (if http_method \<noteq> ''POST'' then MethodNotAllowed else SRestart code)
                 else if action = streamActionSwitch then (if http_method \<noteq> ''POST'' then MethodNotAllowed else SSwitch code)
                 else if http_method = ''GET'' then SGet code
                 else if http_method = ''POST'' then SPut code
                 else if http_method = ''DELETE'' then SDelete code
                 else MethodNotAllowed))"

record APIUser =
  au_Username :: string
  au_PasswordHash :: string
  au_Role :: string

record BcryptLib =
  bc_matches :: "string \<Rightarrow> string \<Rightarrow> bool"
  bc_generate :: "string \<Rightarrow> string option"

record authState =
  as_enabled :: bool
  as_users :: "(string \<times> string \<times> string) list"

definition roleRead :: string where "roleRead = ''read''"
definition roleWrite :: string where "roleWrite = ''write''"

definition buildAuthState :: "BcryptLib \<Rightarrow> string \<Rightarrow> bool \<Rightarrow> APIUser list \<Rightarrow> authState" where
  "buildAuthState lib env enabled users =
     (if \<not> enabled then \<lparr>as_enabled = False, as_users = []\<rparr>
      else
        let us = foldl (\<lambda>m u.
              let name = TrimSpace (au_Username u); role = ToLower (TrimSpace (au_Role u)) in
              if name = [] \<or> au_PasswordHash u = [] then m
              else if role \<noteq> roleRead \<and> role \<noteq> roleWrite then m
              else gput name (au_PasswordHash u, role) m) [] users;
            us' = (if length us = 0 \<and> env \<noteq> [] then
                     (case bc_generate lib env of Some h \<Rightarrow> [(''admin'', h, roleWrite)] | None \<Rightarrow> us)
                   else us)
        in \<lparr>as_enabled = True, as_users = us'\<rparr>)"

definition auth_verify :: "BcryptLib \<Rightarrow> authState \<Rightarrow> string \<Rightarrow> string \<Rightarrow> string option" where
  "auth_verify lib st user pass =
     (case gget (as_users st) user of
        None \<Rightarrow> None
      | Some (hash, role) \<Rightarrow> if bc_matches lib hash pass then Some role else None)"

definition roleAllowsMethod :: "string \<Rightarrow> string \<Rightarrow> bool" where
  "roleAllowsMethod role http_method \<longleftrightarrow>
     (if role = roleWrite then True
      else if role = roleRead then http_method \<in> {''GET'', ''HEAD'', ''OPTIONS''}
      else False)"

datatype AuthOutcome = Pass | Challenge | ReadOnly

definition Middleware :: "BcryptLib \<Rightarrow> authState \<Rightarrow> (string \<times> string) option \<Rightarrow> string \<Rightarrow> AuthOutcome" where
  "Middleware lib st basic http_method =
     (if \<not> as_enabled st then Pass
      else case basic of
          None \<Rightarrow> Challenge
        | Some (user, pass) \<Rightarrow>
            (case auth_verify lib st user pass of
               None \<Rightarrow> Challenge
             | Some role \<Rightarrow> if roleAllowsMethod role http_method then Pass else ReadOnly))"

subsection \<open>Components of a valid code\<close>

definition tight :: "char \<Rightarrow> string \<Rightarrow> bool" where
  "tight c s \<longleftrightarrow> s \<noteq> [] \<and> hd s \<noteq> c \<and> last s \<noteq> c \<and> (\<nexists>a b. s = a @ [c, c] @ b)"

lemma split_on_tight: "tight c s \<Longrightarrow> [] \<notin> set (split_on c s)"
proof (induction s rule: length_induct)
  case (1 s)
  obtain x xs where s: "s = x # xs" and x: "x \<noteq> c" using 1(2) by (cases s) (auto simp: tight_def)
  have no: "xs \<noteq> a @ [c, c] @ b" for a b
  proof
    assume "xs = a @ [c, c] @ b"
    then have "s = (x # a) @ [c, c] @ b" by (simp add: s)
    then show False using 1(2) unfolding tight_def by blast
  qed
  show ?case
  proof (cases xs)
    case Nil
    then show ?thesis using s x by simp
  next
    case (Cons y t)
    show ?thesis
    proof (cases "y = c")
      case True
      have "t \<noteq> []" using 1(2) s Cons True by (auto simp: tight_def)
      moreover have "hd t \<noteq> c" using no [of "[]" "tl t"] Cons True \<open>t \<noteq> []\<close> by (cases t) auto
      moreover have "t \<noteq> a @ [c, c] @ b" for a b using no [of "c # a" b] Cons True by simp
      moreover have "last t \<noteq> c" using 1(2) s Cons \<open>t \<noteq> []\<close> by (auto simp: tight_def)
      ultimately have "tight c t" by (auto simp: tight_def)
      then have "[] \<notin> set (split_on c t)" using 1(1) s Cons by simp
      then show ?thesis using s Cons True x by simp
    next
      case False
      then have "tight c xs" using 1(2) s Cons no by (auto simp: tight_def)
      then have "[] \<notin> set (split_on c xs)" using 1(1) s by simp
      then show ?thesis using s x by (auto split: list.split)
    qed
  qed
qed

lemma split_on_sub: "x \<in> set (split_on c s) \<Longrightarrow> set x \<subseteq> set s"
proof (induction s arbitrary: x)
  case (Cons y s)
  then show ?case by (cases "split_on c s") (auto split: if_splits, blast+)
qed simp

lemma TrimSpace_split: "\<exists>p q. s = p @ TrimSpace s @ q \<and> list_all is_space p \<and> list_all is_space q"
proof -
  let ?d = "dropWhile is_space s"
  have "s = takeWhile is_space s @ ?d" by simp
  moreover have "?d = TrimSpace s @ rev (takeWhile is_space (rev ?d))"
    unfolding TrimSpace_def by (metis rev_append rev_rev_ident takeWhile_dropWhile_id)
  moreover have "list_all is_space (takeWhile is_space s)" "list_all is_space (rev (takeWhile is_space (rev ?d)))"
    by (auto simp: list_all_iff dest: set_takeWhileD)
  ultimately show ?thesis by metis
qed

lemma double_inside:
  assumes "p @ s @ q = a @ [c, c] @ b" and "c \<notin> set p" and "c \<notin> set q"
  shows "\<exists>a b. s = a @ [c, c] @ b"
proof -
  from assms(1) obtain us where "p = a @ us \<and> us @ s @ q = c # c # b \<or> p @ us = a \<and> s @ q = us @ c # c # b"
    by (auto simp: append_eq_append_conv2)
  then obtain us' where us: "s @ q = us' @ c # c # b"
  proof
    assume "p = a @ us \<and> us @ s @ q = c # c # b"
    then have "us = []" using assms(2) by (cases us) auto
    then show thesis using that [of "[]"] \<open>p = a @ us \<and> us @ s @ q = c # c # b\<close> by simp
  qed (use that in blast)
  then consider ws where "s = us' @ ws" "ws @ q = c # c # b" | ws where "us' = s @ ws" "q = ws @ c # c # b"
    by (auto simp: append_eq_append_conv2)
  then show ?thesis
  proof cases
    case 1
    from 1(2) assms(3) obtain ws' where "ws = c # c # ws'" by (auto simp: append_eq_Cons_conv)
    then show ?thesis using 1(1) by auto
  qed (use assms(3) in auto)
qed

lemma valid_code_comps:
  assumes "ValidateStreamCode code = None" and "x \<in> set (split_on (CHR ''/'') code)"
  shows "x \<noteq> []" and "CHR ''.'' \<notin> set x" and "CHR ''/'' \<notin> set x"
proof -
  let ?s = "TrimSpace code" and ?c = "CHR ''/''"
  obtain p q where pq: "code = p @ ?s @ q" "list_all is_space p" "list_all is_space q" using TrimSpace_split by blast
  have v: "?s \<noteq> []" "list_all (\<lambda>c. code_char c \<or> c = ?c) ?s" "hd ?s \<noteq> ?c" "last ?s \<noteq> ?c" "\<not> Contains ?s ''//''"
  proof -
    have "\<not> prefix ''/'' ?s" "\<not> suffix ''/'' ?s" and *: "?s \<noteq> []" "list_all (\<lambda>c. code_char c \<or> c = ?c) ?s" "\<not> Contains ?s ''//''"
      using assms(1) by (auto simp: ValidateStreamCode_def Let_def split: if_splits)
    then show "hd ?s \<noteq> ?c" "last ?s \<noteq> ?c"
      by (metis append_Cons append_Nil list.collapse prefixI, metis append_butlast_last_id suffixI)
    show "?s \<noteq> []" "list_all (\<lambda>c. code_char c \<or> c = ?c) ?s" "\<not> Contains ?s ''//''" using * .
  qed
  have sp: "\<not> is_space ?c" "\<not> is_space (CHR ''.'')" by code_simp+
  then have np: "?c \<notin> set p" "?c \<notin> set q" using pq(2,3) by (auto simp: list_all_iff)
  have "tight ?c code" unfolding tight_def
  proof (intro conjI notI)
    show "code = [] \<Longrightarrow> False" using pq(1) v(1) by simp
    assume "hd code = ?c"
    moreover have "hd code = hd (p @ ?s @ q)" by (rule arg_cong [OF pq(1)])
    ultimately show False using v(1,3) np(1) by (cases p) simp_all
  next
    assume "last code = ?c"
    moreover have "last code = last (p @ ?s @ q)" by (rule arg_cong [OF pq(1)])
    ultimately show False using v(1,4) np(2) by (cases q rule: rev_cases) simp_all
  next
    assume "\<exists>a b. code = a @ [?c, ?c] @ b"
    then obtain a b where "p @ ?s @ q = a @ [?c, ?c] @ b" using pq(1) by metis
    from double_inside [OF this np] v(5) show False by (auto simp: Contains_iff)
  qed
  from split_on_tight [OF this] assms(2) show "x \<noteq> []" by metis
  have "\<not> code_char (CHR ''.'')" by code_simp
  moreover have "set code = set p \<union> set ?s \<union> set q" using arg_cong [OF pq(1), of set] by auto
  ultimately have "CHR ''.'' \<notin> set code" using pq(2,3) sp v(2) by (auto simp: list_all_iff)
  moreover have "set x \<subseteq> set code" using split_on_sub assms(2) by blast
  ultimately show "CHR ''.'' \<notin> set x" by blast
  show "?c \<notin> set x" using split_on_no [OF assms(2)] .
qed

lemma clean_steps_plain:
  "\<forall>x \<in> set xs. x \<noteq> [] \<and> x \<noteq> ''.'' \<and> x \<noteq> ''..'' \<Longrightarrow> foldl (clean_step r) out xs = out @ xs"
  by (induction xs arbitrary: out) (simp_all add: clean_step_def)

lemma cut_last_file:
  assumes "splitCodeAndFile s = Some (code, file)" and "\<not> Contains s ''..''"
  shows "s = code @ CHR ''/'' # file" and "CHR ''/'' \<notin> set file" and "file \<noteq> ''..''"
proof -
  show s: "s = code @ CHR ''/'' # file" "CHR ''/'' \<notin> set file" using assms(1) by (simp_all add: splitCodeAndFile_def cut_last_Some)
  show "file \<noteq> ''..''"
  proof
    assume "file = ''..''"
    then have "s = (code @ ''/'') @ ''..'' @ []" by (simp add: s)
    then show False using assms(2) unfolding Contains_iff by blast
  qed
qed

lemma Clean_file: "CHR ''/'' \<notin> set file \<Longrightarrow> file \<noteq> [] \<Longrightarrow> file \<noteq> ''.'' \<Longrightarrow> file \<noteq> ''..'' \<Longrightarrow> Clean file = file"
  by (cases "file") (auto simp: Clean_def clean_comps_def clean_step_def split_on_plain rooted_path_def Let_def)

text \<open>The path of a file of a stream: the root, the components of the code, the file.\<close>

lemma join3_comps:
  assumes "ValidateStreamCode code = None" and "code \<noteq> []" and "CHR ''/'' \<notin> set file"
    and "file \<noteq> []" and "file \<noteq> ''.''" and "file \<noteq> ''..''"
  shows "split_on (CHR ''/'') (join3 base code file) =
    (if rooted_path base then [[]] else []) @ clean_comps base @ split_on (CHR ''/'') code @ [file]"
proof -
  let ?p = "join_slash (filter (\<lambda>x. x \<noteq> []) [base, code, file])"
  have j: "join3 base code file = Clean ?p" using assms(2,4) by (simp add: join3_def)
  have code: "\<forall>x \<in> set (split_on (CHR ''/'') code). x \<noteq> [] \<and> x \<noteq> ''.'' \<and> x \<noteq> ''..''"
    using valid_code_comps [OF assms(1)] by force
  have hd: "hd code \<noteq> CHR ''/''"
  proof
    assume "hd code = CHR ''/''"
    then obtain t where "code = CHR ''/'' # t" using assms(2) by (cases code) auto
    then have "[] \<in> set (split_on (CHR ''/'') code)" by simp
    with code show False by blast
  qed
  have r: "rooted_path ?p = rooted_path base" using assms(2,4) hd by (cases base) (auto simp: rooted_path_def)
  have all: "\<forall>x \<in> set (split_on (CHR ''/'') code @ [file]). x \<noteq> [] \<and> x \<noteq> ''.'' \<and> x \<noteq> ''..''"
    using code assms(4,5,6) by auto
  have "clean_comps ?p = clean_comps base @ split_on (CHR ''/'') code @ [file]"
  proof (cases "base = []")
    case True
    have "split_on (CHR ''/'') ?p = split_on (CHR ''/'') code @ [file]"
      using True assms(2,3,4) by (simp add: split_on_app split_on_plain)
    moreover have "clean_comps base = []" using True by (simp add: clean_comps_def clean_step_def)
    ultimately show ?thesis unfolding clean_comps_def [of ?p] using clean_steps_plain [OF all] by (metis append_Nil)
  next
    case False
    have "split_on (CHR ''/'') ?p = split_on (CHR ''/'') base @ split_on (CHR ''/'') code @ [file]"
      using False assms(2,3,4) by (simp add: split_on_app split_on_plain)
    then show ?thesis unfolding clean_comps_def [of ?p] clean_comps_def [of base] r foldl_append [symmetric]
      using clean_steps_plain [OF all] by (metis foldl_append)
  qed
  then show ?thesis unfolding j split_Clean r by (simp add: r)
qed

subsection \<open>Properties\<close>

text \<open>
  C15: A file is served only from the directory of an authorized stream. If a media request gets a file from disk,
  its path consists of a publish root, the components of a valid stream code and one file name, that code
  and file are the request's path, and the playback policy has allowed the code.
\<close>

theorem media_file_lies_in_its_stream_dir:
  assumes "dispatchMedia lib now sv r = FromDisk d"
  shows "\<exists>code file base. TrimPrefix (mr_Suffix r) ''/'' = code @ ''/'' @ file \<and> ValidateStreamCode code = None \<and>
    mediaAllowed lib now sv r code \<and> base \<in> {ro_HLSDir (sv_roots sv), ro_DASHDir (sv_roots sv)} \<and>
    split_on (CHR ''/'') (df_Path d) =
      (if rooted_path base then [[]] else []) @ clean_comps base @ split_on (CHR ''/'') code @ [file]"
proof -
  let ?s = "TrimPrefix (mr_Suffix r) ''/''"
  have san: "sanitizeSubpath (mr_Suffix r) = Some ?s" and dots: "\<not> Contains ?s ''..''"
    using assms by (auto simp: dispatchMedia_def sanitizeSubpath_def Let_def split: if_splits)
  obtain code fl where cf: "splitCodeAndFile ?s = Some (code, fl)"
    using assms san by (auto simp: dispatchMedia_def split: option.splits)
  have v: "ValidateStreamCode code = None" "mediaAllowed lib now sv r code" "ServeFile (sv_roots sv) code fl = Some d"
    using assms san cf by (auto simp: dispatchMedia_def split: if_splits option.splits)
  note cut = cut_last_file [OF cf dots]
  have ne: "code \<noteq> []" "fl \<noteq> []" "fl \<noteq> ''.''"
    using v(3) by (auto simp: ServeFile_def Clean_def clean_comps_def clean_step_def rooted_path_def Let_def split: if_splits)
  have "Clean fl = fl" using Clean_file cut(2,3) ne by blast
  then have "df_Path d = join3 (ro_HLSDir (sv_roots sv)) code fl \<or> df_Path d = join3 (ro_DASHDir (sv_roots sv)) code fl"
    using v(3) by (auto simp: ServeFile_def Let_def split: if_splits)
  then obtain base where "base \<in> {ro_HLSDir (sv_roots sv), ro_DASHDir (sv_roots sv)}" "df_Path d = join3 base code fl"
    by blast
  then show ?thesis using join3_comps [OF v(1) ne(1) cut(2) ne(2,3) cut(3), of base] cut(1) v(1,2) by fastforce
qed

text \<open>
  The renditions of a ladder share its policy. A request for a track of a stream is authorized exactly like
  one for the stream itself, whatever policies are bound to the track's own code.
\<close>

theorem renditions_share_the_policy:
  assumes "isABRTrackSlug t" and "CHR ''/'' \<notin> set t" and "code \<noteq> []" and "stripABRTrackSlug code = code"
  shows "mediaAllowed lib now sv r (code @ ''/'' @ t) = mediaAllowed lib now sv r code"
proof -
  have "cut_last (CHR ''/'') (code @ ''/'' @ t) = Some (code, t)" using assms(2) by (simp add: cut_last_Some)
  then have "stripABRTrackSlug (code @ ''/'' @ t) = code" using assms(1,3) by (simp add: stripABRTrackSlug_def)
  then show ?thesis unfolding mediaAllowed_def assms(4) by (simp only: append_Cons append_Nil)
qed

text \<open>
  The policy of a stream named like a track is never asked. For a valid stream code that ends in a track
  segment, the decision does not depend on the policy that is bound to it.
\<close>

theorem track_name_hides_the_policy:
  assumes "stripABRTrackSlug code \<noteq> code" and "sv_mediaAuth sv = Some (a\<lparr>az_resolve := Some f\<rparr>)"
    and "sv' = sv\<lparr>sv_mediaAuth := Some (a\<lparr>az_resolve := Some (f(code := pol))\<rparr>)\<rparr>"
  shows "mediaAllowed lib now sv' r code = mediaAllowed lib now sv r code"
proof -
  have "Authorize lib now (a\<lparr>az_resolve := Some (f(code := pol))\<rparr>) req = Authorize lib now (a\<lparr>az_resolve := Some f\<rparr>) req"
    if "rq_Code req \<noteq> code" for req
    using that by (simp add: Authorize_def Let_def cong del: option.case_cong_weak)
  then show ?thesis using assms by (simp add: mediaAllowed_def Let_def)
qed

text \<open>
  C37: With authentication on, a management request that changes something needs a configured write user. A request
  passes only if its credentials match a user of the configuration, or the bootstrap administrator when no
  user is usable, and any method but GET, HEAD and OPTIONS only if that user's role is write.
\<close>

theorem mutation_needs_a_write_user:
  assumes "Middleware lib (buildAuthState lib env True users) basic http_method = Pass"
  shows "\<exists>user pass. basic = Some (user, pass) \<and>
    ((\<exists>u \<in> set users. TrimSpace (au_Username u) = user \<and> user \<noteq> [] \<and> bc_matches lib (au_PasswordHash u) pass \<and>
        (ToLower (TrimSpace (au_Role u)) = ''write'' \<or>
         ToLower (TrimSpace (au_Role u)) = ''read'' \<and> http_method \<in> {''GET'', ''HEAD'', ''OPTIONS''})) \<or>
     user = ''admin'' \<and> env \<noteq> [] \<and> (\<exists>h. bc_generate lib env = Some h \<and> bc_matches lib h pass))"
proof -
  define us where "us = foldl (\<lambda>m u.
      let name = TrimSpace (au_Username u); role = ToLower (TrimSpace (au_Role u)) in
      if name = [] \<or> au_PasswordHash u = [] then m
      else if role \<noteq> roleRead \<and> role \<noteq> roleWrite then m
      else gput name (au_PasswordHash u, role) m) [] users"
  have mem: "\<exists>u \<in> set users. TrimSpace (au_Username u) = k \<and> k \<noteq> [] \<and> au_PasswordHash u = h \<and>
      ToLower (TrimSpace (au_Role u)) = role \<and> (role = roleRead \<or> role = roleWrite)" if "gget us k = Some (h, role)" for k h role
    using that unfolding us_def
  proof (induction users rule: rev_induct)
    case (snoc u users)
    then show ?case by (auto simp: Let_def map_simps split: if_splits)
  qed simp
  let ?st = "buildAuthState lib env True users"
  obtain user pass where b: "basic = Some (user, pass)" using assms
    by (cases basic) (auto simp: Middleware_def buildAuthState_def Let_def)
  then obtain role where v: "auth_verify lib ?st user pass = Some role" "roleAllowsMethod role http_method"
    using assms by (auto simp: Middleware_def buildAuthState_def Let_def split: option.splits if_splits)
  then obtain h where h: "gget (as_users ?st) user = Some (h, role)" "bc_matches lib h pass"
    by (auto simp: auth_verify_def split: option.splits if_splits)
  have "gget us user = Some (h, role) \<or> user = ''admin'' \<and> env \<noteq> [] \<and> bc_generate lib env = Some h"
    using h(1) unfolding buildAuthState_def us_def [symmetric] by (auto simp: Let_def split: if_splits option.splits)
  then show ?thesis
  proof
    assume "gget us user = Some (h, role)"
    from mem [OF this] show ?thesis using b h(2) v(2) by (auto simp: roleAllowsMethod_def roleRead_def roleWrite_def split: if_splits)
  qed (use b h(2) in auto)
qed

text \<open>
  A stream code that ends in an action cannot be managed. No method on the path of such a code reaches the
  handlers that read, write or delete a stream: the path always means the action on the shorter code.
\<close>

theorem action_suffix_is_never_a_code:
  assumes "act \<in> {streamActionRestart, streamActionSwitch}" and "dispatchStreamsSubpath http_method (code @ ''/'' @ act) = resp"
    and "code \<noteq> []" and "hd code \<noteq> CHR ''/''"
  shows "resp \<in> {SNotFound, MethodNotAllowed, SRestart code, SSwitch code} \<or> (\<exists>e. resp = BadRequest e)"
proof -
  have act: "CHR ''/'' \<notin> set act" using assms(1) by (auto simp: streamActionRestart_def streamActionSwitch_def)
  have "TrimPrefix (code @ ''/'' @ act) ''/'' = code @ ''/'' @ act" using assms(3,4) by (cases code) (auto simp: TrimPrefix_def)
  moreover have "splitTailAction (code @ ''/'' @ act) [streamActionRestart, streamActionSwitch] = (code, act)"
  proof -
    have "cut_last (CHR ''/'') (code @ ''/'' @ act) = Some (code, act)" using act by (simp add: cut_last_Some)
    then show ?thesis using assms(1) by (simp only: splitTailAction_def option.case prod.case) auto
  qed
  ultimately show ?thesis using assms(1,2)
    by (auto simp: dispatchStreamsSubpath_def sanitizeSubpath_def Let_def split: if_splits option.splits)
qed

subsection \<open>Witnesses\<close>

definition media_request :: "string \<Rightarrow> MediaRequest" where
  "media_request p = \<lparr>mr_Suffix = p, mr_RemoteAddr = ''10.9.9.9:5000'', mr_Query = [], mr_UserAgent = ''VLC'', mr_Referer = []\<rparr>"

definition media_server :: "PolicyResolver \<Rightarrow> Server" where
  "media_server f = \<lparr>sv_roots = \<lparr>ro_HLSDir = ''/srv/hls'', ro_DASHDir = ''dash''\<rparr>,
     sv_mediaAuth = Some (SetPolicies [Some vip_policy] (newAuthorizer None (Some f))), sv_pub = True, sv_isBlob = (\<lambda>_. False)\<rparr>"

lemma media_file_lies_in_its_stream_dir_witness:
  "split_on (CHR ''/'') (df_Path (case dispatchMedia toy_auth 0 (media_server (\<lambda>_. ''vip'')) (media_request ''/eu/live/index.m3u8'') of
     FromDisk d \<Rightarrow> d)) = [[], ''srv'', ''hls'', ''eu'', ''live'', ''index.m3u8'']"
proof -
  let ?sv = "media_server (\<lambda>_. ''vip'')" and ?r = "media_request ''/eu/live/index.m3u8''"
  have d: "dispatchMedia toy_auth 0 ?sv ?r = FromDisk \<lparr>df_Path = ''/srv/hls/eu/live/index.m3u8'',
    df_ContentType = ''application/vnd.apple.mpegurl'', df_CacheControl = ''no-cache''\<rparr>" by code_simp
  from media_file_lies_in_its_stream_dir [OF d] have "split_on (CHR ''/'') ''/srv/hls/eu/live/index.m3u8'' \<noteq> []" by auto
  then show ?thesis unfolding d by simp
qed

lemma renditions_share_the_policy_witness:
  "mediaAllowed toy_auth 0 (media_server (\<lambda>c. if c = ''live'' then ''vip'' else ''none'')) (media_request []) ''live/track_2''"
proof -
  have "isABRTrackSlug ''track_2''" "stripABRTrackSlug ''live'' = ''live''" by code_simp+
  moreover have "mediaAllowed toy_auth 0 (media_server (\<lambda>c. if c = ''live'' then ''vip'' else ''none'')) (media_request []) ''live''"
    by code_simp
  ultimately show ?thesis
    using renditions_share_the_policy [of "''track_2''" "''live''" toy_auth 0 "media_server (\<lambda>c. if c = ''live'' then ''vip'' else ''none'')"]
    by simp
qed

lemma track_name_hides_the_policy_witness:
  "mediaAllowed toy_auth 0 (media_server ((\<lambda>_. [])(''live/track_2'' := ''gone''))) (media_request []) ''live/track_2''"
proof -
  let ?a = "SetPolicies [Some vip_policy] (newAuthorizer None None)"
  have s: "stripABRTrackSlug ''live/track_2'' \<noteq> ''live/track_2''" by code_simp
  have a: "SetPolicies [Some vip_policy] (newAuthorizer None (Some f)) = ?a\<lparr>az_resolve := Some f\<rparr>" for f
    by (simp add: SetPolicies_def newAuthorizer_def)
  have m: "sv_mediaAuth (media_server (\<lambda>_. [])) = Some (?a\<lparr>az_resolve := Some (\<lambda>_. [])\<rparr>)"
    by (simp add: media_server_def a)
  have "media_server ((\<lambda>_. [])(''live/track_2'' := ''gone'')) = (media_server (\<lambda>_. []))\<lparr>sv_mediaAuth :=
      Some (?a\<lparr>az_resolve := Some ((\<lambda>_. [])(''live/track_2'' := ''gone''))\<rparr>)\<rparr>"
    by (simp add: media_server_def a)
  note t = track_name_hides_the_policy [OF s m this, of toy_auth 0 "media_request []"]
  show ?thesis unfolding t by code_simp
qed

definition toy_bcrypt :: BcryptLib where
  "toy_bcrypt = \<lparr>bc_matches = (\<lambda>h p. h = p), bc_generate = (\<lambda>p. Some p)\<rparr>"

lemma mutation_needs_a_write_user_witness:
  "Middleware toy_bcrypt (buildAuthState toy_bcrypt [] True [\<lparr>au_Username = ''ops'', au_PasswordHash = ''pw'', au_Role = ''Write''\<rparr>])
     (Some (''ops'', ''pw'')) ''DELETE'' = Pass \<and> (\<exists>user. user = ''ops'')"
proof -
  let ?u = "\<lparr>au_Username = ''ops'', au_PasswordHash = ''pw'', au_Role = ''Write''\<rparr>"
  have p: "Middleware toy_bcrypt (buildAuthState toy_bcrypt [] True [?u]) (Some (''ops'', ''pw'')) ''DELETE'' = Pass" by code_simp
  from mutation_needs_a_write_user [OF p] p show ?thesis by auto
qed

lemma action_suffix_is_never_a_code_witness:
  "dispatchStreamsSubpath ''GET'' ''live/restart'' \<noteq> SGet ''live/restart''"
  using action_suffix_is_never_a_code [of "''restart''" "''GET''" "''live''"] by (auto simp: streamActionRestart_def)

end
