(* ===== verification/Templates.thy ===== *)
theory Templates
  imports Media_Routes
begin

text \<open>
  Templates and the streams they make: \<^verbatim>\<open>internal/domain/template.go\<close>, \<^verbatim>\<open>internal/autopublish\<close> and the policy lookup
  of \<^verbatim>\<open>cmd/server/main.go\<close>. The registry of runtime streams is a map; the critical sections of the reaper are
  separate steps, because it releases the lock between choosing its victims and stopping them. The pipeline
  is the set of running streams; whether it starts is a parameter.
\<close>

subsection \<open>Inheritance\<close>

definition ResolveStream :: "Stream option \<Rightarrow> Template option \<Rightarrow> Stream option" where
  "ResolveStream so tplo =
     (case (so, tplo) of
        (Some s, Some tpl) \<Rightarrow>
          if s_Template s = None then Some s
          else Some (s\<lparr>
            s_Name := (if s_Name s = [] \<and> t_Name tpl \<noteq> [] then t_Name tpl else s_Name s),
            s_Description := (if s_Description s = [] \<and> t_Description tpl \<noteq> [] then t_Description tpl else s_Description s),
            s_Tags := (if length (s_Tags s) = 0 \<and> 0 < length (t_Tags tpl) then t_Tags tpl else s_Tags s),
            s_StreamKey := (if s_StreamKey s = [] \<and> t_StreamKey tpl \<noteq> [] then t_StreamKey tpl else s_StreamKey s),
            s_PlaybackPolicy := (if s_PlaybackPolicy s = [] \<and> t_PlaybackPolicy tpl \<noteq> [] then t_PlaybackPolicy tpl else s_PlaybackPolicy s),
            s_Inputs := (if length (s_Inputs s) = 0 \<and> 0 < length (t_Inputs tpl) then t_Inputs tpl else s_Inputs s),
            s_Transcoder := (if s_Transcoder s = None \<and> t_Transcoder tpl \<noteq> None then t_Transcoder tpl else s_Transcoder s),
            s_Protocols := (if s_Protocols s = None \<and> t_Protocols tpl \<noteq> None then t_Protocols tpl else s_Protocols s),
            s_Push := (if length (s_Push s) = 0 \<and> 0 < length (t_Push tpl) then t_Push tpl else s_Push s),
            s_DVR := (if s_DVR s = None \<and> t_DVR tpl \<noteq> None then t_DVR tpl else s_DVR s),
            s_Watermark := (if s_Watermark s = None \<and> t_Watermark tpl \<noteq> None then t_Watermark tpl else s_Watermark s),
            s_Thumbnail := (if s_Thumbnail s = None \<and> t_Thumbnail tpl \<noteq> None then t_Thumbnail tpl else s_Thumbnail s)\<rparr>)
      | (s, _) \<Rightarrow> s)"

definition TemplateAcceptsPush :: "Template option \<Rightarrow> bool" where
  "TemplateAcceptsPush tpl =
     (case tpl of None \<Rightarrow> False | Some t \<Rightarrow> list_ex (\<lambda>i. prefix ''publish://'' (TrimSpace (in_URL i))) (t_Inputs t))"

text \<open>\<^verbatim>\<open>resolvePolicy\<close>: the publisher's table for a running stream, then the store and the template.\<close>

definition resolvePolicy ::
  "(StreamCode \<Rightarrow> PolicyCode option) \<Rightarrow> (StreamCode \<Rightarrow> Stream option) \<Rightarrow> (TemplateCode \<Rightarrow> Template option) \<Rightarrow> PolicyResolver" where
  "resolvePolicy running streams templates code =
     (case running code of
        Some pc \<Rightarrow> pc
      | None \<Rightarrow>
          (case streams code of
             None \<Rightarrow> []
           | Some s \<Rightarrow>
               let r = (case s_Template s of
                     None \<Rightarrow> Some s
                   | Some tc \<Rightarrow> (case templates tc of Some tpl \<Rightarrow> ResolveStream (Some s) (Some tpl) | None \<Rightarrow> Some s))
               in case r of Some s' \<Rightarrow> s_PlaybackPolicy s' | None \<Rightarrow> []))"

subsection \<open>Prefixes\<close>

definition MaxTemplatePrefixLen :: nat where "MaxTemplatePrefixLen = 128"

datatype PrefixError = PrefixRequired | PrefixTooLong | PrefixChars | PrefixSlashes | PrefixStart | PrefixAt nat PrefixError
  | PrefixDuplicate nat nat

definition ValidatePrefix :: "string \<Rightarrow> PrefixError option" where
  "ValidatePrefix s0 =
     (let s = TrimSpace s0 in
      if s = [] then Some PrefixRequired
      else if MaxTemplatePrefixLen < length s then Some PrefixTooLong
      else if \<not> list_all (\<lambda>c. code_char c \<or> c = CHR ''/'') s then Some PrefixChars
      else if Contains s ''//'' then Some PrefixSlashes
      else if prefix ''/'' s then Some PrefixStart
      else None)"

definition TrimRight_slash :: "string \<Rightarrow> string" where
  "TrimRight_slash s = rev (dropWhile (\<lambda>c. c = CHR ''/'') (rev s))"

definition normalisePrefix :: "string \<Rightarrow> string" where
  "normalisePrefix s = TrimRight_slash (TrimSpace s)"

fun validate_prefixes :: "nat \<Rightarrow> (string \<times> nat) list \<Rightarrow> string list \<Rightarrow> PrefixError option" where
  "validate_prefixes i seen [] = None"
| "validate_prefixes i seen (p # ps) =
     (case ValidatePrefix p of
        Some e \<Rightarrow> Some (PrefixAt i e)
      | None \<Rightarrow>
          (case gget seen (normalisePrefix p) of
             Some prev \<Rightarrow> Some (PrefixDuplicate i prev)
           | None \<Rightarrow> validate_prefixes (i + 1) (gput (normalisePrefix p) i seen) ps))"

definition ValidatePrefixes :: "string list \<Rightarrow> PrefixError option" where
  "ValidatePrefixes ps = validate_prefixes 0 [] ps"

definition PrefixMatches :: "string \<Rightarrow> string \<Rightarrow> bool" where
  "PrefixMatches pre path0 =
     (let p = normalisePrefix pre in
      if p = [] then False
      else
        let path = TrimPrefix (TrimSpace path0) ''/''
        in if path = p then True else prefix (p @ ''/'') path)"

definition PrefixesOverlap :: "string \<Rightarrow> string \<Rightarrow> bool" where
  "PrefixesOverlap a0 b0 =
     (let a = normalisePrefix a0; b = normalisePrefix b0 in
      if a = [] \<or> b = [] then False
      else if a = b then True
      else if prefix (a @ ''/'') b then True
      else if prefix (b @ ''/'') a then True
      else False)"

subsection \<open>Matching a push path\<close>

type_synonym matcherEntry = "string \<times> TemplateCode"

definition canonPrefix :: "string \<Rightarrow> string" where
  "canonPrefix p = TrimRight_slash (dropWhile (\<lambda>c. c = CHR ''/'') (TrimSpace p))"

definition canonPath :: "string \<Rightarrow> string" where
  "canonPath p = TrimPrefix (TrimSpace p) ''/''"

definition matcher_entries :: "Template option list \<Rightarrow> matcherEntry list" where
  "matcher_entries ts =
     concat (map (\<lambda>t. case t of
         None \<Rightarrow> []
       | Some tpl \<Rightarrow> map (\<lambda>c. (c, t_Code tpl)) (filter (\<lambda>c. c \<noteq> []) (map canonPrefix (t_Prefixes tpl)))) ts)"

text \<open>\<^verbatim>\<open>sort.Slice\<close> may order entries of equal length in any way; here they keep theirs.\<close>

definition newMatcher :: "Template option list \<Rightarrow> matcherEntry list" where
  "newMatcher ts = sort_key (\<lambda>e. - int (length (fst e))) (matcher_entries ts)"

definition covers :: "string \<Rightarrow> string \<Rightarrow> bool" where
  "covers p path \<longleftrightarrow> path = p \<or> prefix (p @ ''/'') path"

definition match_path :: "matcherEntry list \<Rightarrow> string \<Rightarrow> TemplateCode option" where
  "match_path es path0 =
     (let path = canonPath path0 in
      if path = [] then None else map_option snd (List.find (\<lambda>e. covers (fst e) path) es))"

subsection \<open>Runtime streams\<close>

definition IdleTimeout :: duration where "IdleTimeout = seconds 30"

record runtimeEntry =
  re_id :: nat
  re_template :: TemplateCode
  re_lastPacketAt :: gotime

record AutoPublish =
  ap_entries :: "(StreamCode \<times> runtimeEntry) list"
  ap_matcher :: "matcherEntry list"
  ap_running :: "StreamCode list"
  ap_next :: nat
  ap_victims :: "StreamCode list"

datatype PushError = EmptyPath | InvalidCode CodeError | ErrNoMatch | LoadTemplate TemplateCode | ErrTemplateNoPush | ErrUnauthorized
  | StartFailed StreamCode

definition ap_start :: AutoPublish where
  "ap_start = \<lparr>ap_entries = [], ap_matcher = [], ap_running = [], ap_next = 0, ap_victims = []\<rparr>"

definition RefreshTemplates :: "Template option list option \<Rightarrow> AutoPublish \<Rightarrow> AutoPublish" where
  "RefreshTemplates ts_opt s = (case ts_opt of None \<Rightarrow> s | Some ts \<Rightarrow> s\<lparr>ap_matcher := newMatcher ts\<rparr>)"

text \<open>
  \<^verbatim>\<open>ResolveOrCreate\<close> as one step: the decision before the write lock reads only the matcher and the template
  store. \<open>startOk\<close> says whether the coordinator starts the stream.
\<close>

definition ResolveOrCreate ::
  "(TemplateCode \<Rightarrow> Template option) \<Rightarrow> (Stream \<Rightarrow> bool) \<Rightarrow> gotime \<Rightarrow> string \<Rightarrow> string \<Rightarrow> AutoPublish \<Rightarrow>
   (PushError + StreamCode) \<times> AutoPublish" where
  "ResolveOrCreate templates startOk now path secret s =
     (let code = canonPath path in
      if code = [] then (Inl EmptyPath, s)
      else case ValidateStreamCode code of
          Some e \<Rightarrow> (Inl (InvalidCode e), s)
        | None \<Rightarrow>
          if gget (ap_entries s) code \<noteq> None then (Inr code, s)
          else case match_path (ap_matcher s) code of
              None \<Rightarrow> (Inl ErrNoMatch, s)
            | Some tplCode \<Rightarrow>
              (case templates tplCode of
                 None \<Rightarrow> (Inl (LoadTemplate tplCode), s)
               | Some tpl \<Rightarrow>
                   if \<not> TemplateAcceptsPush (Some tpl) then (Inl ErrTemplateNoPush, s)
                   else if t_StreamKey tpl \<noteq> [] \<and> secret \<noteq> t_StreamKey tpl then (Inl ErrUnauthorized, s)
                   else
                     let resolved = the (ResolveStream (Some ((empty_stream code)\<lparr>s_Template := Some tplCode\<rparr>)) (Some tpl)) in
                     if \<not> startOk resolved then (Inl (StartFailed code), s)
                     else (Inr code, s\<lparr>ap_entries := gput code \<lparr>re_id = ap_next s, re_template = tplCode, re_lastPacketAt = now\<rparr> (ap_entries s),
                             ap_running := List.insert code (ap_running s), ap_next := ap_next s + 1\<rparr>)))"

text \<open>\<^verbatim>\<open>observeLiveness\<close> of the entry \<open>n\<close>: a packet, or the end of its buffer.\<close>

definition observe_packet :: "gotime \<Rightarrow> StreamCode \<Rightarrow> nat \<Rightarrow> AutoPublish \<Rightarrow> AutoPublish" where
  "observe_packet now code n s =
     (case gget (ap_entries s) code of
        Some e \<Rightarrow> if re_id e = n then s\<lparr>ap_entries := gput code (e\<lparr>re_lastPacketAt := now\<rparr>) (ap_entries s)\<rparr> else s
      | None \<Rightarrow> s)"

definition removeOrphanedEntry :: "StreamCode \<Rightarrow> nat \<Rightarrow> AutoPublish \<Rightarrow> AutoPublish" where
  "removeOrphanedEntry code n s =
     (case gget (ap_entries s) code of
        Some e \<Rightarrow> if re_id e = n then s\<lparr>ap_entries := gdel code (ap_entries s)\<rparr> else s
      | None \<Rightarrow> s)"

definition stopRuntimeStream :: "StreamCode \<Rightarrow> AutoPublish \<Rightarrow> AutoPublish" where
  "stopRuntimeStream code s =
     (case gget (ap_entries s) code of
        None \<Rightarrow> s
      | Some e \<Rightarrow> s\<lparr>ap_entries := gdel code (ap_entries s), ap_running := removeAll code (ap_running s)\<rparr>)"

definition StopRuntime :: "StreamCode \<Rightarrow> AutoPublish \<Rightarrow> bool \<times> AutoPublish" where
  "StopRuntime code s = (if gget (ap_entries s) code = None then (False, s) else (True, stopRuntimeStream code s))"

text \<open>\<^verbatim>\<open>reapOnce\<close>: the scan under the read lock, then one stop per victim.\<close>

definition reap_scan :: "gotime \<Rightarrow> AutoPublish \<Rightarrow> AutoPublish" where
  "reap_scan now s =
     (let cutoff = now - IdleTimeout
      in s\<lparr>ap_victims := map fst (filter (\<lambda>(c, e). re_lastPacketAt e < cutoff) (ap_entries s))\<rparr>)"

definition reap_next :: "AutoPublish \<Rightarrow> AutoPublish" where
  "reap_next s = (case ap_victims s of [] \<Rightarrow> s | c # cs \<Rightarrow> stopRuntimeStream c (s\<lparr>ap_victims := cs\<rparr>))"

datatype ap_op = APush string string gotime | APacket StreamCode nat gotime | AClosed StreamCode nat | AStop StreamCode
  | AScan gotime | AReap | ARefresh "Template option list option"

definition ap_step :: "(TemplateCode \<Rightarrow> Template option) \<Rightarrow> (Stream \<Rightarrow> bool) \<Rightarrow> ap_op \<Rightarrow> AutoPublish \<Rightarrow> AutoPublish" where
  "ap_step templates startOk op s =
     (case op of
        APush path secret now \<Rightarrow> snd (ResolveOrCreate templates startOk now path secret s)
      | APacket code n now \<Rightarrow> observe_packet now code n s
      | AClosed code n \<Rightarrow> removeOrphanedEntry code n s
      | AStop code \<Rightarrow> snd (StopRuntime code s)
      | AScan now \<Rightarrow> reap_scan now s
      | AReap \<Rightarrow> reap_next s
      | ARefresh ts \<Rightarrow> RefreshTemplates ts s)"

subsection \<open>Prefixes and paths\<close>

lemma TrimSpace_id: "s \<noteq> [] \<Longrightarrow> \<not> is_space (hd s) \<Longrightarrow> \<not> is_space (last s) \<Longrightarrow> TrimSpace s = s"
proof -
  assume s: "s \<noteq> []" "\<not> is_space (hd s)" "\<not> is_space (last s)"
  obtain c cs where a: "s = c # cs" using s(1) by (cases s) auto
  obtain d ds where b: "rev s = d # ds" using s(1) by (cases "rev s") auto
  then have "d = last s" by (metis hd_rev list.sel(1))
  with s(3) have d: "dropWhile is_space (rev s) = rev s" unfolding b by (simp only: dropWhile.simps if_False)
  have "dropWhile is_space s = s" using a s(2) by simp
  then show ?thesis by (simp only: TrimSpace_def d rev_rev_ident)
qed

lemma PrefixMatches_covers: "PrefixMatches p path \<longleftrightarrow> normalisePrefix p \<noteq> [] \<and> covers (normalisePrefix p) (canonPath path)"
  by (simp add: PrefixMatches_def covers_def canonPath_def Let_def)

lemma covers_comparable:
  assumes "covers a q" and "covers b q"
  shows "a = b \<or> prefix (a @ ''/'') b \<or> prefix (b @ ''/'') a"
proof -
  have cmp: "a = b \<or> prefix (a @ ''/'') b" if p: "prefix (a @ ''/'') (b @ ''/'')" for a b :: string
  proof -
    obtain z where z: "b @ ''/'' = a @ ''/'' @ z" using p by (auto simp: prefix_def)
    show ?thesis
    proof (cases z rule: rev_cases)
      case Nil
      then show ?thesis using z by simp
    next
      case (snoc ys y)
      with z have "b @ [CHR ''/''] = (a @ ''/'' @ ys) @ [y]" by simp
      then have "b = a @ ''/'' @ ys" unfolding append1_eq_conv by blast
      then show ?thesis by simp
    qed
  qed
  consider "q = a" "q = b" | "q = a" "prefix (b @ ''/'') q" | "prefix (a @ ''/'') q" "q = b"
    | "prefix (a @ ''/'') q" "prefix (b @ ''/'') q" using assms by (auto simp: covers_def)
  then show ?thesis
  proof cases
    case 4
    then have "prefix (a @ ''/'') (b @ ''/'') \<or> prefix (b @ ''/'') (a @ ''/'')" by (rule prefix_same_cases)
    then show ?thesis using cmp by blast
  qed auto
qed

lemma covers_below: "prefix (a @ ''/'') b \<Longrightarrow> covers b q \<Longrightarrow> covers a q"
proof -
  assume "prefix (a @ ''/'') b" "covers b q"
  moreover have "prefix b (b @ ''/'')" by simp
  ultimately show "covers a q" unfolding covers_def by (metis prefix_order.trans)
qed

lemma PrefixesOverlap_iff:
  "PrefixesOverlap a b \<longleftrightarrow> normalisePrefix a \<noteq> [] \<and> normalisePrefix b \<noteq> [] \<and>
     (normalisePrefix a = normalisePrefix b \<or> prefix (normalisePrefix a @ ''/'') (normalisePrefix b) \<or>
      prefix (normalisePrefix b @ ''/'') (normalisePrefix a))"
  by (auto simp: PrefixesOverlap_def Let_def)

lemma canonPrefix_normalise: "ValidatePrefix p = None \<Longrightarrow> canonPrefix p = normalisePrefix p"
proof -
  assume "ValidatePrefix p = None"
  then have "\<not> prefix ''/'' (TrimSpace p)" by (auto simp: ValidatePrefix_def Let_def split: if_splits)
  then have "dropWhile (\<lambda>c. c = CHR ''/'') (TrimSpace p) = TrimSpace p" by (cases "TrimSpace p") auto
  then show ?thesis by (simp add: canonPrefix_def normalisePrefix_def)
qed

lemma find_least: "sorted (map f xs) \<Longrightarrow> List.find P xs = Some x \<Longrightarrow> y \<in> set xs \<Longrightarrow> P y \<Longrightarrow> f x \<le> f y"
  by (induction xs) (auto split: if_splits)

lemma find_exists: "List.find P xs = None \<longleftrightarrow> (\<forall>x \<in> set xs. \<not> P x)"
  by (auto simp: find_None_iff)

lemma matcher_entry: "(c, owner) \<in> set (newMatcher ts) \<longleftrightarrow>
    (\<exists>t p. Some t \<in> set ts \<and> t_Code t = owner \<and> p \<in> set (t_Prefixes t) \<and> canonPrefix p = c \<and> c \<noteq> [])"
  by (auto simp: newMatcher_def matcher_entries_def split: option.splits)

subsection \<open>Runtime registry\<close>

definition ap_inv :: "AutoPublish \<Rightarrow> bool" where
  "ap_inv s \<longleftrightarrow> gwf (ap_entries s) \<and>
     (\<forall>c e. gget (ap_entries s) c = Some e \<longrightarrow> ValidateStreamCode c = None \<and> re_id e < ap_next s)"

lemma ap_inv_put:
  assumes "ap_inv s" and "ValidateStreamCode code = None" and "re_id e < n" and "ap_next s \<le> n"
  shows "ap_inv (s\<lparr>ap_entries := gput code e (ap_entries s), ap_running := run, ap_next := n\<rparr>)"
  using assms unfolding ap_inv_def by (auto simp: map_simps) (meson less_le_trans)

lemma ap_inv_del: "ap_inv s \<Longrightarrow> ap_inv (s\<lparr>ap_entries := gdel code (ap_entries s)\<rparr>)"
  by (auto simp: ap_inv_def map_simps split: if_splits)

lemma ap_inv_stop: "ap_inv s \<Longrightarrow> ap_inv (stopRuntimeStream code s)"
  using ap_inv_del [of s code] by (auto simp: stopRuntimeStream_def ap_inv_def split: option.split)

lemma ap_inv_push: "ap_inv s \<Longrightarrow> ap_inv (snd (ResolveOrCreate templates startOk now path secret s))"
  using ap_inv_put [of s "canonPath path" _ "ap_next s + 1"]
  by (simp add: ResolveOrCreate_def Let_def split: option.split)

interpretation ap: invariant_machine "ap_step templates startOk" ap_inv
proof
  fix s op
  assume i: "ap_inv s"
  show "ap_inv (ap_step templates startOk op s)"
  proof (cases op)
    case (APush path secret now)
    then show ?thesis using ap_inv_push [OF i] by (simp add: ap_step_def)
  next
    case (APacket code n now)
    show ?thesis
    proof (cases "gget (ap_entries s) code")
      case (Some e)
      then have "ValidateStreamCode code = None" "re_id e < ap_next s" using i by (auto simp: ap_inv_def)
      then have "ap_inv (s\<lparr>ap_entries := gput code (e\<lparr>re_lastPacketAt := now\<rparr>) (ap_entries s)\<rparr>)"
        using ap_inv_put [OF i, of code "e\<lparr>re_lastPacketAt := now\<rparr>" "ap_next s" "ap_running s"] by simp
      then show ?thesis using i Some by (simp add: APacket ap_step_def observe_packet_def)
    qed (use i in \<open>simp add: APacket ap_step_def observe_packet_def\<close>)
  next
    case (AClosed code n)
    then show ?thesis using i ap_inv_del [OF i] by (simp add: ap_step_def removeOrphanedEntry_def split: option.split)
  next
    case (AStop code)
    then show ?thesis using i ap_inv_stop [OF i] by (simp add: ap_step_def StopRuntime_def)
  next
    case (AScan now)
    then show ?thesis using i by (simp add: ap_step_def reap_scan_def ap_inv_def Let_def)
  next
    case AReap
    have "ap_inv (s\<lparr>ap_victims := cs\<rparr>)" for cs using i by (simp add: ap_inv_def)
    then show ?thesis using i ap_inv_stop by (simp add: AReap ap_step_def reap_next_def split: list.split)
  next
    case (ARefresh ts)
    then show ?thesis using i by (simp add: ap_step_def RefreshTemplates_def ap_inv_def split: option.split)
  qed
qed

lemma ap_start_inv: "ap_inv ap_start"
  by (simp add: ap_inv_def ap_start_def)

text \<open>
  The longest prefix wins. Whatever the templates, the owner of a path has a prefix that covers it and that no
  other covering prefix exceeds; a path without a covering prefix is not routed.
\<close>

lemma longest_prefix_wins:
  shows "match_path (newMatcher ts) path = Some owner \<Longrightarrow> \<exists>c. (c, owner) \<in> set (newMatcher ts) \<and> covers c (canonPath path) \<and>
      (\<forall>e \<in> set (newMatcher ts). covers (fst e) (canonPath path) \<longrightarrow> length (fst e) \<le> length c)"
    and "match_path (newMatcher ts) path = None \<Longrightarrow> (c, o') \<in> set (newMatcher ts) \<Longrightarrow> \<not> covers c (canonPath path)"
proof -
  let ?P = "\<lambda>e. covers (fst e) (canonPath path)"
  assume "match_path (newMatcher ts) path = Some owner"
  then obtain c where f: "List.find ?P (newMatcher ts) = Some (c, owner)"
    by (auto simp: match_path_def Let_def split: if_splits)
  have "sorted (map (\<lambda>e. - int (length (fst e))) (newMatcher ts))" by (simp add: newMatcher_def)
  from find_least [OF this f] find_mem [OF f]
  show "\<exists>c. (c, owner) \<in> set (newMatcher ts) \<and> covers c (canonPath path) \<and>
      (\<forall>e \<in> set (newMatcher ts). covers (fst e) (canonPath path) \<longrightarrow> length (fst e) \<le> length c)" by (intro exI [of _ c]) auto
next
  assume "match_path (newMatcher ts) path = None" and m: "(c, o') \<in> set (newMatcher ts)"
  moreover have "c \<noteq> []" using m by (auto simp: matcher_entry)
  ultimately show "\<not> covers c (canonPath path)"
    by (cases "canonPath path = []") (auto simp: match_path_def Let_def find_exists covers_def)
qed

subsection \<open>Properties\<close>

text \<open>
  C33: A push path belongs to at most one template. If all prefixes are valid and those of different templates do not
  overlap, a path is routed to a template exactly if one of its prefixes matches, whatever the order of
  templates and prefixes.
\<close>

theorem push_routing_is_unambiguous:
  assumes "\<forall>t p. Some t \<in> set ts \<longrightarrow> p \<in> set (t_Prefixes t) \<longrightarrow> ValidatePrefix p = None"
    and "\<forall>t t' p p'. Some t \<in> set ts \<longrightarrow> Some t' \<in> set ts \<longrightarrow> t_Code t \<noteq> t_Code t' \<longrightarrow>
      p \<in> set (t_Prefixes t) \<longrightarrow> p' \<in> set (t_Prefixes t') \<longrightarrow> \<not> PrefixesOverlap p p'"
  shows "match_path (newMatcher ts) path = Some owner \<longleftrightarrow>
    (\<exists>t p. Some t \<in> set ts \<and> t_Code t = owner \<and> p \<in> set (t_Prefixes t) \<and> PrefixMatches p path)"
proof -
  let ?q = "canonPath path" and ?P = "\<lambda>e. covers (fst e) (canonPath path)"
  have entry: "(c, o') \<in> set (newMatcher ts) \<and> covers c ?q \<longleftrightarrow> (\<exists>t p. Some t \<in> set ts \<and> t_Code t = o' \<and> p \<in> set (t_Prefixes t) \<and>
      normalisePrefix p = c \<and> PrefixMatches p path)" for c o'
    using assms(1) canonPrefix_normalise by (fastforce simp: matcher_entry PrefixMatches_covers)
  have nil: "\<not> covers c []" if "c \<noteq> []" for c using that by (simp add: covers_def)
  show ?thesis
  proof
    assume "match_path (newMatcher ts) path = Some owner"
    then obtain c where "List.find ?P (newMatcher ts) = Some (c, owner)"
      by (auto simp: match_path_def Let_def split: if_splits)
    from find_mem [OF this] entry [of c owner]
    show "\<exists>t p. Some t \<in> set ts \<and> t_Code t = owner \<and> p \<in> set (t_Prefixes t) \<and> PrefixMatches p path" by auto
  next
    assume "\<exists>t p. Some t \<in> set ts \<and> t_Code t = owner \<and> p \<in> set (t_Prefixes t) \<and> PrefixMatches p path"
    then obtain t p where t: "Some t \<in> set ts" "t_Code t = owner" "p \<in> set (t_Prefixes t)" "PrefixMatches p path" by auto
    then have e: "(normalisePrefix p, owner) \<in> set (newMatcher ts) \<and> covers (normalisePrefix p) ?q" using entry by blast
    have "?q \<noteq> []" using t(4) nil by (metis PrefixMatches_covers)
    moreover from e obtain c o' where f: "List.find ?P (newMatcher ts) = Some (c, o')"
      by (cases "List.find ?P (newMatcher ts)") (auto simp: find_exists)
    moreover have "o' = owner"
    proof (rule ccontr)
      assume ne: "o' \<noteq> owner"
      from find_mem [OF f] entry [of c o'] obtain t' p' where t': "Some t' \<in> set ts" "t_Code t' = o'" "p' \<in> set (t_Prefixes t')"
        "PrefixMatches p' path" by auto
      have "PrefixesOverlap p' p" using t(4) t'(4) covers_comparable by (auto simp: PrefixMatches_covers PrefixesOverlap_iff)
      moreover have "\<not> PrefixesOverlap p' p" using assms(2) t t' ne by blast
      ultimately show False by simp
    qed
    ultimately show "match_path (newMatcher ts) path = Some owner" by (simp add: match_path_def Let_def)
  qed
qed

text \<open>
  Two prefixes overlap exactly if some path matches both.
\<close>

theorem overlap_iff_shared_path: "PrefixesOverlap a b \<longleftrightarrow> (\<exists>path. PrefixMatches a path \<and> PrefixMatches b path)"
proof
  assume "\<exists>path. PrefixMatches a path \<and> PrefixMatches b path"
  then show "PrefixesOverlap a b" using covers_comparable by (auto simp: PrefixMatches_covers PrefixesOverlap_iff)
next
  have shared: "\<exists>path. PrefixMatches a path \<and> PrefixMatches b path"
    if "normalisePrefix a \<noteq> []" "normalisePrefix b \<noteq> []"
      "normalisePrefix a = normalisePrefix b \<or> prefix (normalisePrefix a @ ''/'') (normalisePrefix b)" for a b
  proof -
    let ?b = "normalisePrefix b" and ?p = "''/'' @ normalisePrefix b @ ''/x''"
    have "\<not> is_space (CHR ''/'')" "\<not> is_space (CHR ''x'')" by code_simp+
    then have "TrimSpace ?p = ?p" by (intro TrimSpace_id) simp_all
    then have c: "canonPath ?p = ?b @ ''/x''" by (simp add: canonPath_def TrimPrefix_def)
    have "covers ?b (?b @ ''/x'')" by (simp add: covers_def prefix_def)
    moreover have "covers (normalisePrefix a) (?b @ ''/x'')" using that(3)
    proof
      assume "prefix (normalisePrefix a @ ''/'') ?b"
      from covers_below [OF this \<open>covers ?b (?b @ ''/x'')\<close>] show ?thesis .
    qed (use calculation in simp)
    ultimately show ?thesis using that(1,2) c by (metis PrefixMatches_covers)
  qed
  assume "PrefixesOverlap a b"
  then show "\<exists>path. PrefixMatches a path \<and> PrefixMatches b path"
    using shared [of a b] shared [of b a] by (auto simp: PrefixesOverlap_iff)
qed

text \<open>
  C36: A push makes a runtime stream only if it may. A new entry appears only for a valid code whose path a prefix
  of the template covers, if the template has a publish input and the pusher gave its key; the pipeline that
  is started has the template's settings; every refusal leaves the registry as it was.
\<close>

theorem push_creates_only_authorized_streams:
  assumes "ResolveOrCreate templates startOk now path secret s = (r, s')" and "ap_matcher s = newMatcher ts"
  shows "(\<forall>code e. gget (ap_entries s) code = None \<longrightarrow> gget (ap_entries s') code = Some e \<longrightarrow>
      r = Inr code \<and> code = canonPath path \<and> ValidateStreamCode code = None \<and>
      (\<exists>tpl c. templates (re_template e) = Some tpl \<and> (c, re_template e) \<in> set (newMatcher ts) \<and> covers c (canonPath code) \<and>
         TemplateAcceptsPush (Some tpl) \<and> (t_StreamKey tpl = [] \<or> secret = t_StreamKey tpl) \<and>
         (\<exists>st. startOk st \<and> s_Code st = code \<and> s_Inputs st = t_Inputs tpl \<and> s_PlaybackPolicy st = t_PlaybackPolicy tpl))) \<and>
    (\<forall>e. r = Inl e \<longrightarrow> s' = s)"
proof (rule conjI; intro allI impI)
  show "s' = s" if "r = Inl e" for e
    using assms(1) that by (auto simp: ResolveOrCreate_def Let_def split: option.splits if_splits)
  fix code e
  assume old: "gget (ap_entries s) code = None" and new: "gget (ap_entries s') code = Some e"
  let ?c = "canonPath path"
  define st where "st tc tpl = the (ResolveStream (Some ((empty_stream ?c)\<lparr>s_Template := Some tc\<rparr>)) (Some tpl))" for tc tpl
  from assms(1) old new obtain tc tpl where m: "match_path (ap_matcher s) ?c = Some tc" "templates tc = Some tpl"
      "TemplateAcceptsPush (Some tpl)" "\<not> (t_StreamKey tpl \<noteq> [] \<and> secret \<noteq> t_StreamKey tpl)" "startOk (st tc tpl)"
      "ValidateStreamCode ?c = None" "r = Inr ?c" and s': "ap_entries s' = gput ?c \<lparr>re_id = ap_next s, re_template = tc, re_lastPacketAt = now\<rparr> (ap_entries s)"
    by (auto simp: ResolveOrCreate_def st_def Let_def split: option.splits if_splits)
  have e: "code = ?c" "e = \<lparr>re_id = ap_next s, re_template = tc, re_lastPacketAt = now\<rparr>"
    using old new unfolding s' by (auto simp: map_simps split: if_splits)
  from longest_prefix_wins(1) [OF m(1) [unfolded assms(2)]] obtain c where c: "(c, tc) \<in> set (newMatcher ts)" "covers c (canonPath ?c)"
    by blast
  have "s_Code (st tc tpl) = code \<and> s_Inputs (st tc tpl) = t_Inputs tpl \<and> s_PlaybackPolicy (st tc tpl) = t_PlaybackPolicy tpl"
    by (simp add: st_def ResolveStream_def empty_stream_def e(1))
  then show "r = Inr code \<and> code = ?c \<and> ValidateStreamCode code = None \<and>
      (\<exists>tpl c. templates (re_template e) = Some tpl \<and> (c, re_template e) \<in> set (newMatcher ts) \<and> covers c (canonPath code) \<and>
         TemplateAcceptsPush (Some tpl) \<and> (t_StreamKey tpl = [] \<or> secret = t_StreamKey tpl) \<and>
         (\<exists>st. startOk st \<and> s_Code st = code \<and> s_Inputs st = t_Inputs tpl \<and> s_PlaybackPolicy st = t_PlaybackPolicy tpl))"
    using m e c by auto
qed

lemma reap_one:
  assumes "ap_victims s = c # cs" and "ap_inv s"
  shows "ap_entries (reap_next s) = filter (\<lambda>(k, e). k \<noteq> c) (ap_entries s)" and "ap_victims (reap_next s) = cs"
    and "ap_running (reap_next s) = (if c \<in> set (gkeys (ap_entries s)) then removeAll c (ap_running s) else ap_running s)"
proof -
  have f: "gdel c (ap_entries s) = filter (\<lambda>(k, e). k \<noteq> c) (ap_entries s)"
    by (auto simp: AList.delete_eq case_prod_unfold intro!: filter_cong)
  have "c \<notin> set (gkeys (ap_entries s)) \<Longrightarrow> filter (\<lambda>(k, e). k \<noteq> c) (ap_entries s) = ap_entries s"
    by (force simp: filter_id_conv)
  moreover have "gget (ap_entries s) c = None \<longleftrightarrow> c \<notin> set (gkeys (ap_entries s))" using gkeys_gget by metis
  ultimately show "ap_entries (reap_next s) = filter (\<lambda>(k, e). k \<noteq> c) (ap_entries s)" "ap_victims (reap_next s) = cs"
    "ap_running (reap_next s) = (if c \<in> set (gkeys (ap_entries s)) then removeAll c (ap_running s) else ap_running s)"
    using assms(1) f by (auto simp: reap_next_def stopRuntimeStream_def split: option.split)
qed

lemma reap_all:
  assumes "ap_inv s" and "set (ap_victims s) \<subseteq> set (gkeys (ap_entries s))" and "distinct (ap_victims s)"
  shows "ap_entries ((reap_next ^^ length (ap_victims s)) s) = filter (\<lambda>(k, e). k \<notin> set (ap_victims s)) (ap_entries s) \<and>
    ap_running ((reap_next ^^ length (ap_victims s)) s) = filter (\<lambda>k. k \<notin> set (ap_victims s)) (ap_running s)"
  using assms
proof (induction "ap_victims s" arbitrary: s)
  case Nil
  then show ?case by (simp add: case_prod_unfold flip: Nil.hyps)
next
  case (Cons c cs)
  note v = Cons.hyps(2) [symmetric]
  let ?s = "reap_next s"
  have e: "ap_entries ?s = filter (\<lambda>(k, e). k \<noteq> c) (ap_entries s)" "ap_victims ?s = cs" "ap_running ?s = removeAll c (ap_running s)"
    using reap_one [OF v Cons.prems(1)] Cons.prems(2) v by auto
  have "ap_inv ?s" using ap.exec_inv [OF Cons.prems(1), of _ _ AReap] by (simp add: ap_step_def)
  moreover have "set (ap_victims ?s) \<subseteq> set (gkeys (ap_entries ?s))" 
  proof -
    have "gkeys (ap_entries ?s) = filter (\<lambda>k. k \<noteq> c) (gkeys (ap_entries s))"
      by (simp add: e(1) filter_map comp_def case_prod_unfold)
    then show ?thesis using Cons.prems(2,3) v e(2) by auto
  qed
  moreover have "distinct (ap_victims ?s)" using Cons.prems(3) v e by simp
  ultimately have ih: "ap_entries ((reap_next ^^ length cs) ?s) = filter (\<lambda>(k, e). k \<notin> set cs) (ap_entries ?s) \<and>
      ap_running ((reap_next ^^ length cs) ?s) = filter (\<lambda>k. k \<notin> set cs) (ap_running ?s)"
    using Cons.hyps(1) [of ?s] e(2) by simp
  have "(reap_next ^^ length (ap_victims s)) s = (reap_next ^^ length cs) ?s" by (simp add: v funpow_swap1)
  then show ?case using ih e v by (auto simp: case_prod_unfold removeAll_filter_not_eq intro!: filter_cong)
qed

definition reapOnce :: "gotime \<Rightarrow> AutoPublish \<Rightarrow> AutoPublish" where
  "reapOnce now s = (let s1 = reap_scan now s in (reap_next ^^ length (ap_victims s1)) s1)"

text \<open>
  A sweep stops exactly the idle runtime streams. From any reachable registry, a sweep that nothing
  interrupts removes the entries without a packet for thirty seconds, stops their pipelines, and keeps every
  other entry and pipeline.
\<close>

theorem sweep_stops_exactly_the_idle:
  assumes "s = fold (ap_step templates startOk) ops ap_start"
  shows "ap_entries (reapOnce now s) = filter (\<lambda>(c, e). now - IdleTimeout \<le> re_lastPacketAt e) (ap_entries s) \<and>
    ap_running (reapOnce now s) = filter (\<lambda>c. case gget (ap_entries s) c of
      Some e \<Rightarrow> now - IdleTimeout \<le> re_lastPacketAt e | None \<Rightarrow> True) (ap_running s)"
proof (rule conjI)
  have inv: "ap_inv s" using ap.run_inv [OF ap_start_inv] assms by simp
  let ?s = "reap_scan now s"
  have wf: "gwf (ap_entries s)" using inv by (simp add: ap_inv_def)
  have e: "ap_entries ?s = ap_entries s" "ap_running ?s = ap_running s"
    "ap_victims ?s = map fst (filter (\<lambda>(c, e). re_lastPacketAt e < now - IdleTimeout) (ap_entries s))"
    by (simp_all add: reap_scan_def Let_def)
  have "ap_inv ?s" using ap.exec_inv [OF inv, of _ _ "AScan now"] by (simp add: ap_step_def)
  moreover have "set (ap_victims ?s) \<subseteq> set (gkeys (ap_entries ?s))" "distinct (ap_victims ?s)"
    using wf by (auto simp: e distinct_map_filter)
  ultimately have all: "ap_entries (reapOnce now s) = filter (\<lambda>(k, e). k \<notin> set (ap_victims ?s)) (ap_entries s)"
    "ap_running (reapOnce now s) = filter (\<lambda>k. k \<notin> set (ap_victims ?s)) (ap_running s)"
    using reap_all [of ?s] by (simp_all add: reapOnce_def Let_def e)
  have mem: "k \<in> set (ap_victims ?s) \<longleftrightarrow> (\<exists>x. gget (ap_entries s) k = Some x \<and> re_lastPacketAt x < now - IdleTimeout)" for k
  proof -
    have "k \<in> set (ap_victims ?s) \<longleftrightarrow> (\<exists>x. (k, x) \<in> set (ap_entries s) \<and> re_lastPacketAt x < now - IdleTimeout)"
      unfolding e(3) by force
    then show ?thesis by (simp only: gwf_mem_gget [OF wf])
  qed
  show "ap_entries (reapOnce now s) = filter (\<lambda>(c, e). now - IdleTimeout \<le> re_lastPacketAt e) (ap_entries s)"
    unfolding all by (rule filter_cong) (use mem gwf_mem_gget [OF wf] in \<open>auto simp: not_less\<close>)
  show "ap_running (reapOnce now s) = filter (\<lambda>c. case gget (ap_entries s) c of
      Some e \<Rightarrow> now - IdleTimeout \<le> re_lastPacketAt e | None \<Rightarrow> True) (ap_running s)"
    unfolding all by (rule filter_cong) (auto simp: mem not_less split: option.splits)
qed

subsection \<open>Concrete registries\<close>

definition live_template :: Template where
  "live_template = \<lparr>t_Code = ''tpl'', t_Name = [], t_Description = [], t_Tags = [], t_StreamKey = ''k'', t_PlaybackPolicy = ''vip'',
     t_Prefixes = [''live/''], t_Inputs = [mk_input ''publish://'' 0], t_Transcoder = None, t_Protocols = None, t_Push = [],
     t_DVR = None, t_Watermark = None, t_Thumbnail = None\<rparr>"

definition live_templates :: "TemplateCode \<Rightarrow> Template option" where
  "live_templates c = (if c = ''tpl'' then Some live_template else None)"

definition live_run :: "ap_op list \<Rightarrow> AutoPublish" where
  "live_run ops = fold (ap_step live_templates (\<lambda>_. True)) (ARefresh (Some [Some live_template]) # ops) ap_start"

text \<open>
  The reaper may stop a stream that is alive: a packet between its scan and its stop is not seen, and neither is
  a new entry of the same code, whose pipeline it stops too.
\<close>

lemma reaper_stops_a_live_stream:
  "ap_entries (live_run [APush ''/live/a'' ''k'' 0, AScan (seconds 31), APacket ''live/a'' 0 (seconds 31), AReap]) = []"
  "ap_running (live_run [APush ''/live/a'' ''k'' 0, AScan (seconds 31), AClosed ''live/a'' 0, APush ''live/a'' ''k'' (seconds 31), AReap]) = []"
  by code_simp+

text \<open>
  A stopped stream whose template cannot be loaded is public, although the template binds a policy. (The lookup
  treats an error like a missing record.)
\<close>

lemma policy_lookup_fails_open:
  "resolvePolicy (\<lambda>_. None) (\<lambda>c. Some ((empty_stream c)\<lparr>s_Template := Some ''tpl''\<rparr>)) live_templates ''x'' = ''vip''"
  "resolvePolicy (\<lambda>_. None) (\<lambda>c. Some ((empty_stream c)\<lparr>s_Template := Some ''tpl''\<rparr>)) (\<lambda>_. None) ''x'' = []"
  by code_simp+

text \<open>
  Inheritance is settled in one step. Applying a template again changes nothing, a stream keeps every setting of
  its own, and a stream without a template is left as it is.
\<close>

theorem resolve_stream_settles:
  "ResolveStream (ResolveStream so tpl) tpl = ResolveStream so tpl \<and>
   (case (so, ResolveStream so tpl) of
      (Some s, Some r) \<Rightarrow> s_Code r = s_Code s \<and> s_Disabled r = s_Disabled s \<and>
        (s_PlaybackPolicy s = [] \<or> s_PlaybackPolicy r = s_PlaybackPolicy s) \<and>
        (s_StreamKey s = [] \<or> s_StreamKey r = s_StreamKey s) \<and> (s_Inputs s = [] \<or> s_Inputs r = s_Inputs s) \<and>
        (s_Transcoder s = None \<or> s_Transcoder r = s_Transcoder s) \<and> (s_Template s \<noteq> None \<or> r = s)
    | (None, r) \<Rightarrow> r = None
    | (Some s, None) \<Rightarrow> False)"
proof (cases so; cases tpl)
  fix s t
  assume "so = Some s" "tpl = Some t"
  then show ?thesis by (cases "s_Template s") (simp_all add: ResolveStream_def)
qed (simp_all add: ResolveStream_def)

lemma push_routing_is_unambiguous_witness:
  "match_path (newMatcher [Some live_template]) ''/live/a'' = Some ''tpl''"
proof -
  have p: "t_Prefixes live_template = [''live/'']" "t_Code live_template = ''tpl''" by (simp_all add: live_template_def)
  have "ValidatePrefix ''live/'' = None" "PrefixMatches ''live/'' ''/live/a''" by code_simp+
  then show ?thesis using push_routing_is_unambiguous [of "[Some live_template]" "''/live/a''" "''tpl''"] p by auto
qed

lemma push_creates_only_authorized_streams_witness:
  "gget (ap_entries (snd (ResolveOrCreate live_templates (\<lambda>_. True) 5 ''live/a'' ''k'' (live_run [])))) ''live/a'' \<noteq> None \<and>
   gget (ap_entries (snd (ResolveOrCreate live_templates (\<lambda>_. True) 5 ''live/b'' ''wrong'' (live_run [])))) ''live/b'' = None"
proof -
  have n: "gget (ap_entries (snd (ResolveOrCreate live_templates (\<lambda>_. True) 5 ''live/a'' ''k'' (live_run [])))) ''live/a'' \<noteq> None"
    by code_simp
  have m: "ap_matcher (live_run []) = newMatcher [Some live_template]" "gget (ap_entries (live_run [])) ''live/b'' = None"
    by (simp_all add: live_run_def ap_step_def RefreshTemplates_def ap_start_def)
  have "fst (ResolveOrCreate live_templates (\<lambda>_. True) 5 ''live/b'' ''wrong'' (live_run [])) = Inl ErrUnauthorized" by code_simp
  then obtain s' where r: "ResolveOrCreate live_templates (\<lambda>_. True) 5 ''live/b'' ''wrong'' (live_run []) = (Inl ErrUnauthorized, s')"
    by (metis prod.collapse)
  from push_creates_only_authorized_streams [OF r m(1)] n m(2) show ?thesis by (simp add: r)
qed

lemma sweep_stops_exactly_the_idle_witness:
  "map fst (ap_entries (reapOnce (seconds 40) (live_run [APush ''/live/a'' ''k'' 0, APush ''/live/b'' ''k'' (seconds 20)]))) = [''live/b'']"
  unfolding conjunct1 [OF sweep_stops_exactly_the_idle [OF live_run_def]] by code_simp

end
