(* ===== verification/Vod_Files.thy ===== *)
theory Vod_Files
  imports Media_Routes "HOL-Library.List_Lexorder" "HOL-Library.Char_ord"
begin

text \<open>
  Media libraries: \<^verbatim>\<open>internal/vod/registry.go\<close>, the rules of \<^verbatim>\<open>internal/domain/vod.go\<close> and the file name rule
  of \<^verbatim>\<open>internal/domain/watermark_asset.go\<close>. The URL parser, the evaluation of symbolic links and the reading of
  directories are arguments.
\<close>

subsection \<open>Names and mounts\<close>

definition MaxVODNameLen :: nat where "MaxVODNameLen = 64"

definition vod_char :: "char \<Rightarrow> bool" where
  "vod_char c \<longleftrightarrow> (CHR ''a'' \<le> c \<and> c \<le> CHR ''z'') \<or> (CHR ''A'' \<le> c \<and> c \<le> CHR ''Z'') \<or> (CHR ''0'' \<le> c \<and> c \<le> CHR ''9'') \<or>
     c = CHR ''_'' \<or> c = CHR ''-''"

datatype VODError = NameRequired | NameTooLong | NamePattern | StorageRequired | StorageNotAbsolute | StorageSensitive string
  | MountNotFound | PathEscapesMount | NotFileURL | ParseURL | NoMountName | EmptyPath | OSError

definition ValidateVODName :: "string \<Rightarrow> VODError option" where
  "ValidateVODName s0 =
     (let s = TrimSpace s0 in
      if s = [] then Some NameRequired
      else if length s > MaxVODNameLen then Some NameTooLong
      else if \<not> list_all vod_char s then Some NamePattern
      else None)"

record VODMount =
  vm_Name :: string
  vm_Storage :: string
  vm_Comment :: string

definition pathInside :: "string \<Rightarrow> string \<Rightarrow> bool" where
  "pathInside child parent =
     (if child = parent then True
      else prefix (if suffix ''/'' parent then parent else parent @ ''/'') child)"

definition sensitive_dirs :: "string list" where
  "sensitive_dirs = [''/etc'', ''/sys'', ''/proc'', ''/boot'', ''/root'', ''/dev'', ''/run'']"

definition ValidateStorage :: "VODMount \<Rightarrow> VODError option" where
  "ValidateStorage m =
     (let s = TrimSpace (vm_Storage m) in
      if s = [] then Some StorageRequired
      else if \<not> rooted_path s then Some StorageNotAbsolute
      else let clean = Clean s in
        map_option StorageSensitive (find (\<lambda>sys. pathInside clean sys \<or> pathInside sys clean) sensitive_dirs))"

definition videoExtensions :: "string list" where
  "videoExtensions = [''.mp4'', ''.m4v'', ''.mov'', ''.mkv'', ''.webm'', ''.avi'', ''.flv'', ''.ts'', ''.mts'', ''.m2ts'',
     ''.mpg'', ''.mpeg'', ''.wmv'', ''.3gp'']"

definition IsVideoFile :: "string \<Rightarrow> bool" where
  "IsVideoFile name \<longleftrightarrow> ToLower (Ext name) \<in> set videoExtensions"

subsection \<open>The registry\<close>

type_synonym Registry = "(string \<times> string) list"

definition sync_mount :: "Registry \<Rightarrow> VODMount option \<Rightarrow> Registry" where
  "sync_mount next mo =
     (case mo of
        None \<Rightarrow> next
      | Some m \<Rightarrow>
          if ValidateVODName (vm_Name m) \<noteq> None then next
          else
            let storage = Clean (TrimSpace (vm_Storage m)) in
            if \<not> rooted_path storage then next else gput (vm_Name m) storage next)"

definition vod_Sync :: "VODMount option list \<Rightarrow> Registry" where
  "vod_Sync mounts = foldl sync_mount [] mounts"

definition vod_Storage :: "Registry \<Rightarrow> string \<Rightarrow> string option" where
  "vod_Storage r name = gget r name"

definition vod_Names :: "Registry \<Rightarrow> string list" where
  "vod_Names r = sort (gkeys r)"

definition TrimPrefix_slash :: "string \<Rightarrow> string" where
  "TrimPrefix_slash s = (if prefix ''/'' s then tl s else s)"

definition ResolvePath :: "(string \<Rightarrow> string option) \<Rightarrow> Registry \<Rightarrow> string \<Rightarrow> string \<Rightarrow> VODError + string" where
  "ResolvePath evalSymlinks r name subPath =
     (case vod_Storage r name of
        None \<Rightarrow> Inl MountNotFound
      | Some storage \<Rightarrow>
          let clean = TrimPrefix_slash (TrimSpace subPath) in
          if clean = [] then Inl EmptyPath
          else
            let resolved = Clean (join2 storage clean) in
            if \<not> pathInside resolved storage then Inl PathEscapesMount
            else
              (case evalSymlinks resolved of
                 None \<Rightarrow> Inr resolved
               | Some target \<Rightarrow>
                   let root' = (case evalSymlinks storage of None \<Rightarrow> storage | Some rr \<Rightarrow> rr)
                   in if \<not> pathInside target root' then Inl PathEscapesMount else Inr resolved))"

text \<open>What the code reads of a parsed URL; \<open>u_loop\<close> is the \<^verbatim>\<open>loop\<close> parameter of its query.\<close>

record URL =
  u_Host :: string
  u_Path :: string
  u_loop :: string

definition parseLoopParam :: "string \<Rightarrow> bool" where
  "parseLoopParam v = (ToLower (TrimSpace v) \<notin> {''false'', ''0'', ''no'', ''off''})"

definition vod_Resolve :: "(string \<Rightarrow> URL option) \<Rightarrow> Registry \<Rightarrow> string \<Rightarrow> VODError + (string \<times> bool)" where
  "vod_Resolve url_Parse r rawURL =
     (if \<not> prefix ''file://'' rawURL then Inl NotFileURL
      else case url_Parse rawURL of
        None \<Rightarrow> Inl ParseURL
      | Some u \<Rightarrow>
          if u_Host u = [] then Inl NoMountName
          else case vod_Storage r (u_Host u) of
            None \<Rightarrow> Inl MountNotFound
          | Some storage \<Rightarrow>
              let rel = TrimPrefix_slash (u_Path u) in
              if rel = [] then Inl EmptyPath
              else
                let resolved = Clean (join2 storage rel) in
                if \<not> pathInside resolved storage then Inl PathEscapesMount
                else Inr (resolved, parseLoopParam (u_loop u)))"

subsection \<open>Listing\<close>

text \<open>A directory entry as the host reports it; \<open>de_info\<close> is its size and modification time, if stat succeeds.\<close>

record DirEntry =
  de_Name :: string
  de_IsDir :: bool
  de_info :: "(int \<times> int) option"

record FileEntry =
  fe_Name :: string
  fe_Path :: string
  fe_Size :: int
  fe_IsDir :: bool
  fe_ModTime :: int
  fe_PlayURL :: string
  fe_IngestURL :: string

text \<open>The comparison the listing is sorted by: directories first, then by name.\<close>

datatype EntryKey = EntryKey (ek_dir: bool) (ek_name: string)

instantiation EntryKey :: linorder
begin

definition less_EntryKey :: "EntryKey \<Rightarrow> EntryKey \<Rightarrow> bool" where
  "less_EntryKey a b = (if ek_dir a \<noteq> ek_dir b then ek_dir a else ek_name a < ek_name b)"

definition less_eq_EntryKey :: "EntryKey \<Rightarrow> EntryKey \<Rightarrow> bool" where
  "less_eq_EntryKey a b = (a < b \<or> a = b)"

instance
proof
  fix x y :: EntryKey
  show "x \<le> y \<or> y \<le> x"
    using less_linear [of "ek_name x" "ek_name y"] by (auto simp: less_EntryKey_def less_eq_EntryKey_def EntryKey.expand)
qed (auto simp: less_EntryKey_def less_eq_EntryKey_def EntryKey.expand split: if_splits)

end

definition entry_key :: "FileEntry \<Rightarrow> EntryKey" where
  "entry_key e = EntryKey (fe_IsDir e) (fe_Name e)"

definition list_entry :: "string \<Rightarrow> string \<Rightarrow> DirEntry \<Rightarrow> FileEntry option" where
  "list_entry name clean e =
     (if \<not> de_IsDir e \<and> \<not> IsVideoFile (de_Name e) then None
      else case de_info e of
        None \<Rightarrow> None
      | Some (size', mtime) \<Rightarrow>
          let rel = join2 clean (de_Name e) in
          Some \<lparr>fe_Name = de_Name e, fe_Path = rel, fe_Size = (if de_IsDir e then 0 else size'), fe_IsDir = de_IsDir e,
            fe_ModTime = mtime,
            fe_PlayURL = (if de_IsDir e then [] else ''/vod/'' @ name @ ''/raw/'' @ rel),
            fe_IngestURL = (if de_IsDir e then [] else ''file://'' @ name @ ''/'' @ rel)\<rparr>)"

definition ListFiles :: "(string \<Rightarrow> DirEntry list option) \<Rightarrow> Registry \<Rightarrow> string \<Rightarrow> string \<Rightarrow> VODError + FileEntry list" where
  "ListFiles readDir r name subPath =
     (case vod_Storage r name of
        None \<Rightarrow> Inl MountNotFound
      | Some storage \<Rightarrow>
          let clean = TrimPrefix_slash (TrimSpace subPath);
              target = (if clean \<noteq> [] then Clean (join2 storage clean) else storage)
          in if clean \<noteq> [] \<and> \<not> pathInside target storage then Inl PathEscapesMount
             else case readDir target of
                 None \<Rightarrow> Inl OSError
               | Some es \<Rightarrow> Inr (sort_key entry_key (List.map_filter (list_entry name clean) es)))"

subsection \<open>The handlers of \<^verbatim>\<open>internal/api/handler/vod.go\<close> that touch files\<close>

text \<open>Files with their content, and directories, by path.\<close>

record HostFS =
  hf_files :: "(string \<times> string) list"
  hf_dirs :: "string list"

datatype FileKind = IsDirectory | IsFile

definition os_Stat :: "HostFS \<Rightarrow> string \<Rightarrow> FileKind option" where
  "os_Stat fs p =
     (if p \<in> set (hf_dirs fs) then Some IsDirectory
      else if gget (hf_files fs) p \<noteq> None then Some IsFile else None)"

definition Dir :: "string \<Rightarrow> string" where
  "Dir p = (case cut_last (CHR ''/'') p of None \<Rightarrow> ''.'' | Some (d, _) \<Rightarrow> Clean (d @ ''/''))"

definition MkdirAll :: "string \<Rightarrow> HostFS \<Rightarrow> HostFS" where
  "MkdirAll d fs =
     fs\<lparr>hf_dirs := fold (\<lambda>n ds. let p = join_slash (take n (split_on (CHR ''/'') d))
                             in if p = [] \<or> p \<in> set ds then ds else ds @ [p])
        [1..<length (split_on (CHR ''/'') d) + 1] (hf_dirs fs)\<rparr>"

datatype WriteFault = NoFault | CreateFails | CopyFails | RenameFails

text \<open>\<^verbatim>\<open>writeUploadAtomic\<close>: a sibling file, then a rename.\<close>

definition writeUploadAtomic :: "WriteFault \<Rightarrow> string \<Rightarrow> string \<Rightarrow> HostFS \<Rightarrow> bool \<times> HostFS" where
  "writeUploadAtomic fault dst body fs =
     (let tmp = dst @ ''.tmp'' in
      case fault of
        CreateFails \<Rightarrow> (False, fs)
      | CopyFails \<Rightarrow> (False, fs\<lparr>hf_files := gdel tmp (gput tmp body (hf_files fs))\<rparr>)
      | RenameFails \<Rightarrow> (False, fs\<lparr>hf_files := gdel tmp (gput tmp body (hf_files fs))\<rparr>)
      | NoFault \<Rightarrow> (True, fs\<lparr>hf_files := gput dst body (gdel tmp (gput tmp body (hf_files fs)))\<rparr>))"

datatype VODResponse = VOK string | VServed string | VNoContent | VBadRequest string | VNotFound string | VConflict | VServerError string

definition path_error :: "VODError \<Rightarrow> VODResponse" where
  "path_error e = (case e of MountNotFound \<Rightarrow> VNotFound ''MOUNT_NOT_FOUND'' | _ \<Rightarrow> VBadRequest ''INVALID_PATH'')"

definition vod_Raw :: "(string \<Rightarrow> string option) \<Rightarrow> Registry \<Rightarrow> string \<Rightarrow> string \<Rightarrow> HostFS \<Rightarrow> VODResponse" where
  "vod_Raw evalSymlinks r name subPath fs =
     (case ResolvePath evalSymlinks r name subPath of
        Inl e \<Rightarrow> path_error e
      | Inr abs' \<Rightarrow>
          (case os_Stat fs abs' of
             None \<Rightarrow> VNotFound ''FILE_NOT_FOUND''
           | Some IsDirectory \<Rightarrow> VBadRequest ''IS_DIRECTORY''
           | Some IsFile \<Rightarrow> if \<not> IsVideoFile abs' then VNotFound ''FILE_NOT_FOUND'' else VServed abs'))"

definition vod_UploadFile ::
  "(string \<Rightarrow> string option) \<Rightarrow> Registry \<Rightarrow> string \<Rightarrow> string \<Rightarrow> string \<Rightarrow> string \<Rightarrow> bool \<Rightarrow> WriteFault \<Rightarrow> HostFS \<Rightarrow> VODResponse \<times> HostFS" where
  "vod_UploadFile evalSymlinks r name subPath header body mkdirOk fault fs =
     (let filename = Base header in
      if filename = [] \<or> filename = ''.'' \<or> filename = ''/'' then (VBadRequest ''INVALID_FILENAME'', fs)
      else if \<not> IsVideoFile filename then (VBadRequest ''INVALID_FILENAME'', fs)
      else
        let cleanSub = TrimPrefix_slash (TrimSpace subPath);
            relPath = join2 cleanSub filename
        in case ResolvePath evalSymlinks r name relPath of
             Inl e \<Rightarrow> (path_error e, fs)
           | Inr abs' \<Rightarrow>
               if \<not> mkdirOk then (VServerError ''MKDIR_FAILED'', fs)
               else
                 let fs1 = MkdirAll (Dir abs') fs in
                 if os_Stat fs1 abs' \<noteq> None then (VConflict, fs1)
                 else
                   (case writeUploadAtomic fault abs' body fs1 of
                      (False, fs2) \<Rightarrow> (VServerError ''UPLOAD_FAILED'', fs2)
                    | (True, fs2) \<Rightarrow> (VOK (''/vod/'' @ name @ ''/raw/'' @ relPath), fs2)))"

definition vod_DeleteFile ::
  "(string \<Rightarrow> string option) \<Rightarrow> Registry \<Rightarrow> string \<Rightarrow> string \<Rightarrow> HostFS \<Rightarrow> VODResponse \<times> HostFS" where
  "vod_DeleteFile evalSymlinks r name subPath fs =
     (case ResolvePath evalSymlinks r name subPath of
        Inl e \<Rightarrow> (path_error e, fs)
      | Inr abs' \<Rightarrow>
          (case os_Stat fs abs' of
             None \<Rightarrow> (VNotFound ''FILE_NOT_FOUND'', fs)
           | Some IsDirectory \<Rightarrow> (VBadRequest ''IS_DIRECTORY'', fs)
           | Some IsFile \<Rightarrow> (VNoContent, fs\<lparr>hf_files := gdel abs' (hf_files fs)\<rparr>)))"

subsection \<open>The mount table over the handlers\<close>

text \<open>
  The store and the registry it is copied into. \<open>mo_saved\<close>, \<open>mo_synced\<close> say whether the store accepts the change
  and whether it can be read back; \<open>mo_writable\<close> is the outcome of \<^verbatim>\<open>ensureMountStorageWritable\<close>.
\<close>

record MountTable =
  mt_repo :: "(string \<times> VODMount) list"
  mt_registry :: Registry

record MountOutcome =
  mo_writable :: bool
  mo_saved :: bool
  mo_synced :: bool

datatype MountOp = MCreate VODMount | MUpdate string VODMount | MDelete string

definition resyncRegistry :: "MountOutcome \<Rightarrow> MountTable \<Rightarrow> MountTable" where
  "resyncRegistry o' t = (if mo_synced o' then t\<lparr>mt_registry := vod_Sync (map (\<lambda>x. Some (snd x)) (mt_repo t))\<rparr> else t)"

definition save_mount :: "MountOutcome \<Rightarrow> VODMount \<Rightarrow> MountTable \<Rightarrow> MountTable" where
  "save_mount o' m t = (if mo_saved o' then resyncRegistry o' (t\<lparr>mt_repo := gput (vm_Name m) m (mt_repo t)\<rparr>) else t)"

definition mount_step :: "MountOp \<times> MountOutcome \<Rightarrow> MountTable \<Rightarrow> MountTable" where
  "mount_step op t =
     (case op of
        (MCreate m, o') \<Rightarrow>
          if ValidateVODName (vm_Name m) \<noteq> None then t
          else if ValidateStorage m \<noteq> None then t
          else if \<not> mo_writable o' then t
          else if gget (mt_repo t) (vm_Name m) \<noteq> None then t
          else save_mount o' m t
      | (MUpdate name m, o') \<Rightarrow>
          if gget (mt_repo t) name = None then t
          else
            let m1 = m\<lparr>vm_Name := name\<rparr> in
            if ValidateStorage m1 \<noteq> None then t
            else if \<not> mo_writable o' then t
            else save_mount o' m1 t
      | (MDelete name, o') \<Rightarrow>
          if mo_saved o' then resyncRegistry o' (t\<lparr>mt_repo := gdel name (mt_repo t)\<rparr>) else t)"

subsection \<open>Watermark file names\<close>

definition MaxWatermarkFilenameLen :: nat where "MaxWatermarkFilenameLen = 96"

definition alnum_char :: "char \<Rightarrow> bool" where
  "alnum_char c \<longleftrightarrow> vod_char c \<and> c \<noteq> CHR ''_'' \<and> c \<noteq> CHR ''-''"

datatype WatermarkError = FilenameRequired | FilenameTooLong | FilenamePattern

definition ValidateWatermarkFilename :: "string \<Rightarrow> WatermarkError option" where
  "ValidateWatermarkFilename name0 =
     (let name = TrimSpace name0 in
      if name = [] then Some FilenameRequired
      else if length name > MaxWatermarkFilenameLen then Some FilenameTooLong
      else if \<not> (case cut_first (CHR ''.'') name of
                   None \<Rightarrow> False
                 | Some (b, e) \<Rightarrow> b \<noteq> [] \<and> list_all vod_char b \<and> e \<noteq> [] \<and> list_all alnum_char e)
      then Some FilenamePattern
      else None)"

subsection \<open>Paths inside a directory\<close>

lemma Clean_rooted: "rooted_path (Clean p) \<longleftrightarrow> rooted_path p"
proof (cases "rooted_path p")
  case False
  have "join_slash cs \<noteq> [] \<and> hd (join_slash cs) \<noteq> CHR ''/''" if "plain_comps cs" "cs \<noteq> []" for cs
    using that by (induction cs rule: join_slash.induct) (auto simp: plain_comps_def hd_append dest: hd_in_set)
  then show ?thesis using False clean_comps_ok [of p] by (auto simp: Clean_def Let_def rooted_path_def)
qed (simp add: Clean_def Let_def rooted_path_def)

lemma clean_comps_no_dot: "''.'' \<notin> set (clean_comps p)"
proof -
  have step: "''.'' \<notin> set out \<Longrightarrow> ''.'' \<notin> set (clean_step r out c)" for r out and c :: string
    by (auto simp: clean_step_def dest: in_set_butlastD)
  have "''.'' \<notin> set out \<Longrightarrow> ''.'' \<notin> set (foldl (clean_step r) out cs)" for r out cs
    by (induction cs arbitrary: out) (simp_all add: step)
  then show ?thesis by (simp add: clean_comps_def)
qed

lemma clean_comps_Clean:
  assumes "rooted_path p"
  shows "clean_comps (Clean p) = clean_comps p"
proof -
  have all: "\<forall>x \<in> set (clean_comps p). x \<noteq> [] \<and> x \<noteq> ''.'' \<and> x \<noteq> ''..''"
    using clean_comps_ok [of p] clean_comps_no_dot [of p] clean_rooted [OF assms] by (auto simp: plain_comps_def)
  have "clean_comps (Clean p) = foldl (clean_step True) [] ([] # (if clean_comps p = [] then [[]] else clean_comps p))"
    unfolding clean_comps_def [of "Clean p"] split_Clean Clean_rooted using assms by simp
  also have "\<dots> = clean_comps p" using clean_steps_plain [OF all, of True "[]"] by (simp add: clean_step_def)
  finally show ?thesis .
qed

lemma Clean_Clean: "rooted_path p \<Longrightarrow> Clean (Clean p) = Clean p"
  unfolding Clean_def [of "Clean p"] by (simp add: clean_comps_Clean Clean_rooted Let_def) (simp add: Clean_def Let_def)

lemma pathInside_iff:
  assumes "rooted_path a" and "rooted_path b"
  shows "pathInside (Clean a) (Clean b) \<longleftrightarrow> (\<exists>rest. clean_comps a = clean_comps b @ rest)"
proof -
  have c: "Clean x = CHR ''/'' # join_slash (clean_comps x)" if "rooted_path x" for x
    using that by (simp add: Clean_def Let_def)
  have j: "join_slash (xs @ y # ys) = join_slash xs @ ''/'' @ join_slash (y # ys)" if "xs \<noteq> []" for xs y ys
    using that by (induction xs rule: join_slash.induct) simp_all
  show ?thesis
  proof (cases "clean_comps b = []")
    case True
    then show ?thesis using assms by (simp add: pathInside_def c)
  next
    case False
    then have n: "\<not> suffix ''/'' (Clean b)"
    proof -
      have "last (join_slash cs) \<noteq> CHR ''/'' \<and> join_slash cs \<noteq> []" if "plain_comps cs" "cs \<noteq> []" for cs
        using that by (induction cs rule: join_slash.induct) (auto simp: plain_comps_def dest: last_in_set)
      then show ?thesis using False clean_comps_ok [of b] assms(2) by (auto simp: c suffix_def dest: arg_cong [where f = last])
    qed
    show ?thesis
    proof
      assume "pathInside (Clean a) (Clean b)"
      then consider "Clean a = Clean b" | s where "Clean a = Clean b @ CHR ''/'' # s"
        using n by (auto simp: pathInside_def prefix_def split: if_splits)
      then show "\<exists>rest. clean_comps a = clean_comps b @ rest"
      proof cases
        case 1
        then have "clean_comps a = clean_comps b" using clean_comps_Clean assms by metis
        then show ?thesis by simp
      next
        case (2 s)
        then have "split_on (CHR ''/'') (Clean a) = split_on (CHR ''/'') (Clean b) @ split_on (CHR ''/'') s"
          by (simp add: split_on_app)
        moreover have "[[]] \<noteq> clean_comps b @ split_on (CHR ''/'') s"
          using False clean_comps_ok [of b] by (cases "clean_comps b") (auto simp: plain_comps_def)
        ultimately show ?thesis using assms False by (auto simp: split_Clean split: if_splits)
      qed
    next
      assume "\<exists>rest. clean_comps a = clean_comps b @ rest"
      then obtain rest where r: "clean_comps a = clean_comps b @ rest" by blast
      then show "pathInside (Clean a) (Clean b)"
        using j [OF False] assms n by (cases rest) (simp_all add: pathInside_def c r)
    qed
  qed
qed

lemma clean_twice_snoc:
  assumes that: "plain_comps w" "''.'' \<notin> set w"
  shows "foldl (clean_step True) out (clean_step False w c) = clean_step True (foldl (clean_step True) out w) c"
proof -
  consider "c = [] \<or> c = ''.''" | "c = ''..''" "w \<noteq> []" "last w \<noteq> ''..''" | "c = ''..''" "w = [] \<or> last w = ''..''"
    | "c \<noteq> []" "c \<noteq> ''.''" "c \<noteq> ''..''" by blast
  then show ?thesis
  proof cases
    case 2
    then obtain w1 n where w: "w = w1 @ [n]" by (metis append_butlast_last_id)
    then have "n \<noteq> []" "n \<noteq> ''.''" "n \<noteq> ''..''" using that 2 by (auto simp: plain_comps_def)
    then show ?thesis using 2 w by (simp add: clean_step_def)
  qed (auto simp: clean_step_def)
qed

lemma clean_twice:
  "foldl (clean_step True) out (foldl (clean_step False) [] cs) = foldl (clean_step True) out cs"
  if "\<forall>c \<in> set cs. CHR ''/'' \<notin> set c"
  using that
proof (induction cs rule: rev_induct)
  case (snoc c cs)
  have ok: "dots_first (foldl (clean_step False) [] cs) \<and> plain_comps (foldl (clean_step False) [] cs) \<and>
      ''.'' \<notin> set (foldl (clean_step False) [] cs)"
    using snoc.prems
  proof (induction cs rule: rev_induct)
    case (snoc d ds)
    have "''.'' \<notin> set w \<Longrightarrow> ''.'' \<notin> set (clean_step False w d)" for w
      by (auto simp: clean_step_def dest: in_set_butlastD)
    then show ?case using snoc by (simp add: dots_first_step plain_step)
  qed (auto simp: dots_first_def plain_comps_def)
  from ok snoc show ?case by (simp add: clean_twice_snoc)
qed simp

text \<open>Joining a cleaned relative path is joining the path.\<close>

lemma clean_join_clean:
  assumes "rooted_path st" and "\<not> rooted_path q" and "q \<noteq> []"
  shows "clean_comps (st @ ''/'' @ Clean q) = clean_comps (st @ ''/'' @ q)"
proof -
  have r: "rooted_path (st @ x)" for x using assms(1) by (simp add: rooted_path_def)
  have "foldl (clean_step True) out (split_on (CHR ''/'') (Clean q)) = foldl (clean_step True) out (clean_comps q)" for out
    unfolding split_Clean using assms(2) by (simp add: clean_step_def)
  also have "foldl (clean_step True) out (clean_comps q) = foldl (clean_step True) out (split_on (CHR ''/'') q)" for out
    unfolding clean_comps_def using assms(2) by (simp add: clean_twice split_on_no)
  finally show ?thesis unfolding clean_comps_def [of "st @ x" for x] by (simp add: r split_on_app)
qed

lemma clean_comps_join: "rooted_path st \<Longrightarrow> clean_comps (st @ CHR ''/'' # q) = foldl (clean_step True) (clean_comps st) (split_on (CHR ''/'') q)"
  by (simp add: clean_comps_def split_on_app rooted_path_def)

lemma rooted_join: "rooted_path st \<Longrightarrow> rooted_path (st @ x)"
  by (simp add: rooted_path_def)

lemma join2_rooted: "rooted_path st \<Longrightarrow> q \<noteq> [] \<Longrightarrow> Clean (join2 st q) = Clean (st @ ''/'' @ q)"
  by (simp add: join2_def rooted_path_def Clean_Clean)

definition installs :: "VODMount \<Rightarrow> bool" where
  "installs m \<longleftrightarrow> ValidateVODName (vm_Name m) = None \<and> rooted_path (TrimSpace (vm_Storage m))"

lemma Sync_snoc:
  "vod_Sync (ms @ [mo]) =
     (case mo of
        None \<Rightarrow> vod_Sync ms
      | Some m \<Rightarrow> if installs m then gput (vm_Name m) (Clean (TrimSpace (vm_Storage m))) (vod_Sync ms) else vod_Sync ms)"
  by (simp add: vod_Sync_def sync_mount_def Let_def Clean_rooted installs_def split: option.split)

lemma Sync_storage:
  assumes "gget (vod_Sync ms) n = Some st"
  obtains m where "Some m \<in> set ms" and "vm_Name m = n" and "st = Clean (TrimSpace (vm_Storage m))"
    and "rooted_path (TrimSpace (vm_Storage m))"
proof -
  have "\<exists>m. Some m \<in> set ms \<and> vm_Name m = n \<and> installs m \<and> st = Clean (TrimSpace (vm_Storage m))"
    using assms
  proof (induction ms rule: rev_induct)
    case (snoc mo ms)
    show ?case
    proof (cases "\<exists>m. mo = Some m \<and> installs m \<and> vm_Name m = n")
      case True
      then obtain m where "mo = Some m" "installs m" "vm_Name m = n" by blast
      then show ?thesis using snoc.prems by (intro exI [of _ m]) (simp add: Sync_snoc gget_gput)
    next
      case False
      then have "gget (vod_Sync ms) n = Some st"
        using snoc.prems by (auto simp: Sync_snoc gget_gput split: option.splits if_splits)
      from snoc.IH [OF this] show ?thesis by auto
    qed
  qed (simp add: vod_Sync_def)
  then show thesis using that by (auto simp: installs_def)
qed

lemma Resolve_storage:
  assumes "vod_Resolve url_Parse r u = Inr (p, lp)"
  obtains name st rel where "gget r name = Some st" and "rel \<noteq> []" and "p = Clean (join2 st rel)" and "pathInside p st"
  using assms by (auto simp: vod_Resolve_def vod_Storage_def Let_def split: if_splits option.splits)

lemma ResolvePath_storage:
  assumes "ResolvePath ev r name sub = Inr p"
  obtains st rel where "gget r name = Some st" and "rel \<noteq> []" and "p = Clean (join2 st rel)" and "pathInside p st"
  using assms by (auto simp: ResolvePath_def vod_Storage_def Let_def split: if_splits option.splits)

subsection \<open>Invariant of the mount table\<close>

definition valid_storage :: "string \<Rightarrow> bool" where
  "valid_storage st \<longleftrightarrow> (\<exists>m. ValidateStorage m = None \<and> st = Clean (TrimSpace (vm_Storage m)))"

definition mounts_ok :: "MountTable \<Rightarrow> bool" where
  "mounts_ok t \<longleftrightarrow> (\<forall>x \<in> set (mt_repo t). ValidateStorage (snd x) = None) \<and> (\<forall>n st. gget (mt_registry t) n = Some st \<longrightarrow> valid_storage st)"

lemma resync_ok:
  assumes "\<forall>x \<in> set (mt_repo t). ValidateStorage (snd x) = None"
    and "\<forall>n st. gget (mt_registry t) n = Some st \<longrightarrow> valid_storage st"
  shows "mounts_ok (resyncRegistry o' t)"
proof -
  have "valid_storage st" if s: "gget (vod_Sync (map (\<lambda>x. Some (snd x)) (mt_repo t))) n = Some st" for n st
  proof -
    obtain m where m: "Some m \<in> set (map (\<lambda>x. Some (snd x)) (mt_repo t))" "st = Clean (TrimSpace (vm_Storage m))"
      using Sync_storage [OF s] by metis
    then show ?thesis using assms(1) by (auto simp: valid_storage_def)
  qed
  then show ?thesis using assms by (simp add: mounts_ok_def resyncRegistry_def)
qed

lemma ValidateStorage_name [simp]: "ValidateStorage (m\<lparr>vm_Name := n\<rparr>) = ValidateStorage m"
  by (simp add: ValidateStorage_def)

lemma save_ok: "mounts_ok t \<Longrightarrow> ValidateStorage m = None \<Longrightarrow> mounts_ok (save_mount o' m t)"
proof -
  assume "mounts_ok t" "ValidateStorage m = None"
  then have "mounts_ok (resyncRegistry o' (t\<lparr>mt_repo := gput (vm_Name m) m (mt_repo t)\<rparr>))"
    by (intro resync_ok) (auto simp: mounts_ok_def dest: gput_mem)
  then show ?thesis using \<open>mounts_ok t\<close> by (simp add: save_mount_def)
qed

interpretation mt: invariant_machine mount_step mounts_ok
proof
  fix t op
  assume ok: "mounts_ok t"
  then have "mounts_ok (resyncRegistry o' (t\<lparr>mt_repo := gdel name (mt_repo t)\<rparr>))" for o' name
    by (intro resync_ok) (auto simp: mounts_ok_def set_gdel)
  then show "mounts_ok (mount_step op t)"
    using ok save_ok [OF ok] by (cases op; cases "fst op") (simp_all add: mount_step_def Let_def)
qed

lemma valid_storage_avoids:
  assumes "valid_storage st"
  shows "\<exists>x. rooted_path x \<and> st = Clean x \<and> list_all (\<lambda>sys. \<not> pathInside st sys \<and> \<not> pathInside sys st) sensitive_dirs"
proof -
  obtain m where m: "ValidateStorage m = None" "st = Clean (TrimSpace (vm_Storage m))" using assms by (auto simp: valid_storage_def)
  then show ?thesis
    by (intro exI [of _ "TrimSpace (vm_Storage m)"])
      (auto simp: ValidateStorage_def Let_def list_all_iff find_None_iff split: if_splits)
qed

lemma no_dot_video: "\<not> IsVideoFile ''.''" "\<not> IsVideoFile ''..''"
  by code_simp+

lemma Clean_nonempty: "Clean p \<noteq> []"
proof -
  have "cs \<noteq> [] \<Longrightarrow> plain_comps cs \<Longrightarrow> join_slash cs \<noteq> []" for cs
    by (induction cs rule: join_slash.induct) (auto simp: plain_comps_def)
  then show ?thesis using clean_comps_ok [of p] by (auto simp: Clean_def Let_def)
qed

lemma video_not_tmp: "\<not> IsVideoFile (p @ ''.tmp'')"
proof -
  have "cut_last (CHR ''.'') (p @ ''.tmp'') = Some (p, ''tmp'')" by (simp add: cut_last_Some)
  then have "Ext (p @ ''.tmp'') = ''.tmp''" by (simp add: Ext_def)
  then show ?thesis by (simp add: IsVideoFile_def ToLower_def videoExtensions_def lower_char_def)
qed

subsection \<open>Properties\<close>

text \<open>
  C26: A media path lies in its mount. Whatever the URL or the requested path, a file that \<^verbatim>\<open>Resolve\<close> or \<^verbatim>\<open>ResolvePath\<close>
  accepts has the components of the storage of a configured mount, then more components, and none is \<^verbatim>\<open>..\<close>.
\<close>

theorem vod_paths_stay_in_mount:
  assumes "vod_Resolve url_Parse (vod_Sync mounts) u = Inr (p, lp) \<or> ResolvePath evalSymlinks (vod_Sync mounts) name sub = Inr p"
  shows "\<exists>m. Some m \<in> set mounts \<and>
     (\<exists>rest. clean_comps p = clean_comps (TrimSpace (vm_Storage m)) @ rest) \<and> ''..'' \<notin> set (split_on (CHR ''/'') p)"
proof -
  obtain n st rel where p: "gget (vod_Sync mounts) n = Some st" "rel \<noteq> []" "p = Clean (join2 st rel)" "pathInside p st"
    using assms by (auto elim: Resolve_storage ResolvePath_storage)
  obtain m where m: "Some m \<in> set mounts" "st = Clean (TrimSpace (vm_Storage m))" "rooted_path (TrimSpace (vm_Storage m))"
    using Sync_storage [OF p(1)] by metis
  then have r: "rooted_path st" "rooted_path (st @ ''/'' @ rel)" by (simp_all add: Clean_rooted rooted_join)
  have pc: "p = Clean (st @ ''/'' @ rel)" using p(2,3) r(1) by (simp add: join2_rooted)
  then have "\<exists>rest. clean_comps (st @ ''/'' @ rel) = clean_comps (TrimSpace (vm_Storage m)) @ rest"
    using p(4) pathInside_iff [OF r(2) m(3)] by (simp add: m(2))
  moreover have "''..'' \<notin> set (split_on (CHR ''/'') p)" using clean_rooted [OF r(2)] by (auto simp: pc split_Clean)
  ultimately show ?thesis unfolding pc clean_comps_Clean [OF r(2)] using m(1) by blast
qed

theorem vod_paths_stay_in_mount_witness:
  "\<exists>p. ResolvePath (\<lambda>_. None) (vod_Sync [Some \<lparr>vm_Name = ''lib'', vm_Storage = '' /srv/./media '', vm_Comment = []\<rparr>]) ''lib'' ''/a/../b.mp4'' = Inr p \<and>
     p = ''/srv/media/b.mp4'' \<and> ''..'' \<notin> set (split_on (CHR ''/'') p)"
proof -
  let ?ms = "[Some \<lparr>vm_Name = ''lib'', vm_Storage = '' /srv/./media '', vm_Comment = []\<rparr>]"
  have r: "ResolvePath (\<lambda>_. None) (vod_Sync ?ms) ''lib'' ''/a/../b.mp4'' = Inr ''/srv/media/b.mp4''" by code_simp
  from vod_paths_stay_in_mount [of "\<lambda>_. None" ?ms "[]" _ True "\<lambda>_. None" "''lib''" "''/a/../b.mp4''", OF disjI2, OF r] r
  show ?thesis by blast
qed

text \<open>
  C27: No configured mount reaches a system directory. After any sequence of create, update and delete requests, whether
  the store accepts them or not, a media path that resolves is not inside \<^verbatim>\<open>/etc\<close>, \<^verbatim>\<open>/proc\<close>, \<^verbatim>\<open>/root\<close> and the other
  sensitive directories, and none of these is inside it.
\<close>

theorem mounted_media_avoids_system_dirs:
  assumes "r = mt_registry (fold mount_step ops \<lparr>mt_repo = [], mt_registry = []\<rparr>)"
    and "vod_Resolve url_Parse r u = Inr (p, lp) \<or> ResolvePath evalSymlinks r name sub = Inr p"
  shows "list_all (\<lambda>sys. \<not> pathInside p sys \<and> \<not> pathInside sys p) sensitive_dirs"
proof -
  obtain n st rel where p: "gget r n = Some st" "rel \<noteq> []" "p = Clean (join2 st rel)" "pathInside p st"
    using assms(2) by (auto elim: Resolve_storage ResolvePath_storage)
  have "mounts_ok (fold mount_step ops \<lparr>mt_repo = [], mt_registry = []\<rparr>)"
    by (rule mt.run_inv) (simp add: mounts_ok_def)
  then have "valid_storage st" using p(1) assms(1) by (auto simp: mounts_ok_def)
  then obtain x where x: "rooted_path x" "st = Clean x"
      "list_all (\<lambda>sys. \<not> pathInside st sys \<and> \<not> pathInside sys st) sensitive_dirs"
    using valid_storage_avoids by blast
  have r: "rooted_path (st @ ''/'' @ rel)" using x by (simp add: Clean_rooted rooted_join)
  have pc: "p = Clean (st @ ''/'' @ rel)" using p(2,3) x by (simp add: join2_rooted Clean_rooted)
  obtain rest where rest: "clean_comps (st @ ''/'' @ rel) = clean_comps x @ rest"
    using p(4) pathInside_iff [OF r x(1)] by (auto simp: pc x(2))
  have "\<not> pathInside p sys \<and> \<not> pathInside sys p" if s: "sys \<in> set sensitive_dirs" for sys
  proof -
    have c: "Clean sys = sys" "rooted_path sys" "length (clean_comps sys) = 1"
      using s by (auto simp: sensitive_dirs_def) code_simp+
    have "\<not> pathInside st sys" "\<not> pathInside sys st" using x(3) s by (auto simp: list_all_iff)
    then have n: "\<nexists>t. clean_comps x = clean_comps sys @ t" "\<nexists>t. clean_comps sys = clean_comps x @ t"
      using pathInside_iff [OF x(1) c(2)] pathInside_iff [OF c(2) x(1)] by (simp_all add: x(2) c(1))
    have "\<nexists>t. clean_comps x @ rest = clean_comps sys @ t" "\<nexists>t. clean_comps sys = (clean_comps x @ rest) @ t"
      using n by (metis append_eq_append_conv2, metis append.assoc)
    then show ?thesis
      using pathInside_iff [OF r c(2)] pathInside_iff [OF c(2) r] unfolding pc c(1) rest by simp
  qed
  then show ?thesis by (simp add: list_all_iff)
qed

theorem mounted_media_avoids_system_dirs_witness:
  "let r = mt_registry (fold mount_step
         [(MCreate \<lparr>vm_Name = ''lib'', vm_Storage = ''/srv/media'', vm_Comment = []\<rparr>, \<lparr>mo_writable = True, mo_saved = True, mo_synced = True\<rparr>),
          (MUpdate ''lib'' \<lparr>vm_Name = ''lib'', vm_Storage = ''/etc/ssl'', vm_Comment = []\<rparr>, \<lparr>mo_writable = True, mo_saved = True, mo_synced = True\<rparr>)]
         \<lparr>mt_repo = [], mt_registry = []\<rparr>)
   in \<exists>p. ResolvePath (\<lambda>_. None) r ''lib'' ''ssl/key.mp4'' = Inr p \<and> \<not> pathInside p ''/etc''"
proof -
  let ?r = "mt_registry (fold mount_step
         [(MCreate \<lparr>vm_Name = ''lib'', vm_Storage = ''/srv/media'', vm_Comment = []\<rparr>, \<lparr>mo_writable = True, mo_saved = True, mo_synced = True\<rparr>),
          (MUpdate ''lib'' \<lparr>vm_Name = ''lib'', vm_Storage = ''/etc/ssl'', vm_Comment = []\<rparr>, \<lparr>mo_writable = True, mo_saved = True, mo_synced = True\<rparr>)]
         \<lparr>mt_repo = [], mt_registry = []\<rparr>)"
  have r: "ResolvePath (\<lambda>_. None) ?r ''lib'' ''ssl/key.mp4'' = Inr ''/srv/media/ssl/key.mp4''" by code_simp
  from mounted_media_avoids_system_dirs [OF refl disjI2, OF r] r
  show ?thesis unfolding Let_def by (auto simp: list_all_iff sensitive_dirs_def)
qed

text \<open>
  A listed video can be played. The ingest URL of an entry of \<^verbatim>\<open>ListFiles\<close> resolves to the file of that name in the
  listed directory, whatever \<^verbatim>\<open>..\<close> the requested directory holds, if the URL parser returns the host and the
  path the URL was made of and the requested directory does not begin with two slashes.
\<close>

theorem listed_video_resolves:
  assumes "ListFiles readDir (vod_Sync mounts) name sub = Inr es" and "e \<in> set es" and "\<not> fe_IsDir e"
    and "gget (vod_Sync mounts) name = Some storage" and "clean = TrimPrefix_slash (TrimSpace sub)" and "\<not> rooted_path clean"
    and "name \<noteq> []" and "fe_Name e \<noteq> []" and "CHR ''/'' \<notin> set (fe_Name e)"
    and "url_Parse (fe_IngestURL e) = Some \<lparr>u_Host = name, u_Path = ''/'' @ fe_Path e, u_loop = []\<rparr>"
  shows "\<exists>p. vod_Resolve url_Parse (vod_Sync mounts) (fe_IngestURL e) = Inr (p, True) \<and>
     clean_comps p = clean_comps (if clean = [] then storage else Clean (join2 storage clean)) @ [fe_Name e]"
proof -
  obtain m :: VODMount where m: "storage = Clean (TrimSpace (vm_Storage m))" "rooted_path (TrimSpace (vm_Storage m))"
    by (rule Sync_storage [OF assms(4)]) blast
  let ?x = "TrimSpace (vm_Storage m)" and ?f = "fe_Name e"
  have st: "rooted_path storage" "Clean storage = storage" "clean_comps storage = clean_comps ?x"
    using m by (simp_all add: Clean_rooted Clean_Clean clean_comps_Clean)
  have ins: "clean \<noteq> [] \<Longrightarrow> pathInside (Clean (join2 storage clean)) storage"
    using assms(1,4,5) by (auto simp: ListFiles_def vod_Storage_def Let_def split: if_splits)
  obtain de where de: "list_entry name clean de = Some e"
    using assms(1,2,4,5) by (auto simp: ListFiles_def vod_Storage_def Let_def map_filter_def split: if_splits option.splits)
  have e: "fe_Path e = join2 clean ?f" "fe_IngestURL e = ''file://'' @ name @ ''/'' @ fe_Path e" "IsVideoFile ?f"
    using de assms(3) by (auto simp: list_entry_def Let_def split: if_splits option.splits)
  define q where "q = (if clean = [] then ?f else clean @ ''/'' @ ?f)"
  have q: "q \<noteq> []" "\<not> rooted_path q" "fe_Path e = Clean q"
    using assms(6,8,9) by (auto simp: q_def e(1) join2_def rooted_path_def hd_append dest: hd_in_set)
  have ne: "Clean q \<noteq> []" by (rule Clean_nonempty)
  have dots: "?f \<noteq> ''.''" "?f \<noteq> ''..''" using e(3) no_dot_video by auto
  define p where "p = Clean (storage @ ''/'' @ Clean q)"
  have pc: "clean_comps p = clean_comps (storage @ ''/'' @ q)"
    using clean_join_clean [OF st(1) q(2,1)] by (simp only: p_def clean_comps_Clean [OF rooted_join [OF st(1)]])
  also have "\<dots> = clean_comps (if clean = [] then storage else Clean (join2 storage clean)) @ [?f]"
    using st assms(8,9) dots
    by (simp add: q_def clean_comps_join join2_rooted rooted_join clean_comps_Clean split_on_app split_on_plain clean_step_def)
  finally have fin: "clean_comps p = clean_comps (if clean = [] then storage else Clean (join2 storage clean)) @ [?f]" .
  have "\<exists>rest. clean_comps (if clean = [] then storage else Clean (join2 storage clean)) = clean_comps ?x @ rest"
    using ins st pathInside_iff [of "storage @ ''/'' @ clean" ?x] m
    by (cases "clean = []") (simp_all add: join2_rooted rooted_join clean_comps_Clean)
  then have "\<exists>rest. clean_comps (storage @ ''/'' @ Clean q) = clean_comps ?x @ rest"
    using fin by (metis append.assoc p_def clean_comps_Clean rooted_join st(1))
  then have "pathInside p storage" using pathInside_iff [OF rooted_join [OF st(1)] m(2)] by (simp add: p_def m(1))
  moreover have "TrimPrefix_slash (u_Path \<lparr>u_Host = name, u_Path = ''/'' @ fe_Path e, u_loop = []\<rparr>) = Clean q"
    by (simp add: TrimPrefix_slash_def q(3))
  ultimately have "vod_Resolve url_Parse (vod_Sync mounts) (fe_IngestURL e) = Inr (p, True)"
    using assms(4,7,10) ne st(1)
    by (simp add: vod_Resolve_def e(2) vod_Storage_def Let_def p_def join2_rooted parseLoopParam_def TrimSpace_def ToLower_def)
  then show ?thesis using fin by blast
qed

theorem listed_video_resolves_witness:
  "let r = vod_Sync [Some \<lparr>vm_Name = ''lib'', vm_Storage = ''/srv/media'', vm_Comment = []\<rparr>];
       url = ''file://lib/sport/a.mp4'';
       parse = (\<lambda>_. Some \<lparr>u_Host = ''lib'', u_Path = ''/sport/a.mp4'', u_loop = []\<rparr>);
       e = \<lparr>fe_Name = ''a.mp4'', fe_Path = ''sport/a.mp4'', fe_Size = 7, fe_IsDir = False, fe_ModTime = 9,
            fe_PlayURL = ''/vod/lib/raw/sport/a.mp4'', fe_IngestURL = url\<rparr>
   in ListFiles (\<lambda>_. Some [\<lparr>de_Name = ''a.mp4'', de_IsDir = False, de_info = Some (7, 9)\<rparr>]) r ''lib'' '' /news/../sport'' = Inr [e] \<and>
      (\<exists>p. vod_Resolve parse r url = Inr (p, True) \<and> clean_comps p = [''srv'', ''media'', ''sport'', ''a.mp4''])"
proof -
  let ?ms = "[Some \<lparr>vm_Name = ''lib'', vm_Storage = ''/srv/media'', vm_Comment = []\<rparr>]"
  let ?r = "vod_Sync ?ms" and ?url = "''file://lib/sport/a.mp4''"
  let ?rd = "\<lambda>_. Some [\<lparr>de_Name = ''a.mp4'', de_IsDir = False, de_info = Some (7, 9)\<rparr>]"
  let ?parse = "\<lambda>_. Some \<lparr>u_Host = ''lib'', u_Path = ''/sport/a.mp4'', u_loop = []\<rparr>"
  let ?e = "\<lparr>fe_Name = ''a.mp4'', fe_Path = ''sport/a.mp4'', fe_Size = 7, fe_IsDir = False, fe_ModTime = 9,
      fe_PlayURL = ''/vod/lib/raw/sport/a.mp4'', fe_IngestURL = ?url\<rparr>"
  have l: "ListFiles ?rd ?r ''lib'' '' /news/../sport'' = Inr [?e]" by code_simp
  have c: "TrimPrefix_slash (TrimSpace '' /news/../sport'') = ''news/../sport''" by code_simp
  have g: "gget ?r ''lib'' = Some ''/srv/media''" by code_simp
  have d: "clean_comps (if ''news/../sport'' = [] then ''/srv/media'' else Clean (join2 ''/srv/media'' ''news/../sport'')) @ [fe_Name ?e] =
      [''srv'', ''media'', ''sport'', ''a.mp4'']" by code_simp
  have "\<exists>p. vod_Resolve ?parse ?r (fe_IngestURL ?e) = Inr (p, True) \<and>
     clean_comps p = clean_comps (if ''news/../sport'' = [] then ''/srv/media'' else Clean (join2 ''/srv/media'' ''news/../sport'')) @ [fe_Name ?e]"
    by (rule listed_video_resolves [where e = ?e and url_Parse = ?parse, OF l _ _ g c [symmetric]]) (simp_all add: rooted_path_def)
  then show ?thesis using l d unfolding Let_def by simp
qed

text \<open>
  C35: An upload never replaces a video. Whatever the request and wherever the write fails, every video that was in the
  file system is still there with its content; a refused or failed upload adds none, and a successful one adds
  exactly the uploaded file.
\<close>

theorem upload_never_replaces_a_video:
  "case vod_UploadFile evalSymlinks r name sub header body mkdirOk fault fs of (resp, fs') \<Rightarrow>
     (\<forall>q. IsVideoFile q \<and> gget (hf_files fs) q \<noteq> None \<longrightarrow> gget (hf_files fs') q = gget (hf_files fs) q) \<and>
     (case resp of
        VOK u \<Rightarrow> \<exists>p. ResolvePath evalSymlinks r name (join2 (TrimPrefix_slash (TrimSpace sub)) (Base header)) = Inr p \<and>
          (\<forall>q. IsVideoFile q \<longrightarrow> gget (hf_files fs') q = (if q = p then Some body else gget (hf_files fs) q))
      | _ \<Rightarrow> \<forall>q. IsVideoFile q \<longrightarrow> gget (hf_files fs') q = gget (hf_files fs) q)"
proof -
  have files: "hf_files (MkdirAll d f) = hf_files f" for d f by (simp add: MkdirAll_def)
  have tmp: "IsVideoFile q \<Longrightarrow> q \<noteq> p @ ''.tmp''" for p q using video_not_tmp [of p] by auto
  have fresh: "os_Stat f p = None \<Longrightarrow> gget (hf_files f) p = None" for f p by (simp add: os_Stat_def split: if_splits)
  show ?thesis
  proof (cases "ResolvePath evalSymlinks r name (join2 (TrimPrefix_slash (TrimSpace sub)) (Base header))")
    case (Inl e)
    then show ?thesis by (auto simp: vod_UploadFile_def Let_def path_error_def split: VODError.splits)
  next
    case (Inr p)
    let ?fs = "MkdirAll (Dir p) fs"
    show ?thesis
    proof (cases "IsVideoFile (Base header) \<and> Base header \<notin> {[], ''.'', ''/''} \<and> mkdirOk \<and> os_Stat ?fs p = None")
      case True
      then have "gget (hf_files fs) p = None" using fresh [of ?fs p] by (simp add: files)
      then show ?thesis using True Inr
        by (cases fault) (auto simp: vod_UploadFile_def Let_def writeUploadAtomic_def files map_simps dest!: tmp [of _ p])
    next
      case False
      then show ?thesis using Inr by (auto simp: vod_UploadFile_def Let_def files)
    qed
  qed
qed

lemma upload_never_replaces_a_video_witness:
  "let r = vod_Sync [Some \<lparr>vm_Name = ''lib'', vm_Storage = ''/srv/media'', vm_Comment = []\<rparr>];
       fs = \<lparr>hf_files = [(''/srv/media/a.mp4'', ''old'')], hf_dirs = [''/srv/media'']\<rparr>
   in gget (hf_files (snd (vod_UploadFile Some r ''lib'' [] ''a.mp4'' ''new'' True NoFault fs))) ''/srv/media/a.mp4'' = Some ''old''"
proof -
  let ?r = "vod_Sync [Some \<lparr>vm_Name = ''lib'', vm_Storage = ''/srv/media'', vm_Comment = []\<rparr>]"
  let ?fs = "\<lparr>hf_files = [(''/srv/media/a.mp4'', ''old'')], hf_dirs = [''/srv/media'']\<rparr>"
  have v: "IsVideoFile ''/srv/media/a.mp4''" by code_simp
  obtain resp fs' where u: "vod_UploadFile Some ?r ''lib'' [] ''a.mp4'' ''new'' True NoFault ?fs = (resp, fs')" by (metis surj_pair)
  from upload_never_replaces_a_video [where evalSymlinks = Some and r = ?r and name = "''lib''" and sub = "[]"
    and header = "''a.mp4''" and body = "''new''" and mkdirOk = True and fault = NoFault and fs = ?fs, unfolded u prod.case] v
  show ?thesis unfolding Let_def u by simp
qed

text \<open>
  The check of symbolic links is made by \<^verbatim>\<open>ResolvePath\<close> only, and only for paths that exist: \<^verbatim>\<open>Resolve\<close> follows a link
  out of the mount, and so does the upload of a new file below a linked directory.
\<close>

lemma link_is_followed_by_Resolve:
  "let r = vod_Sync [Some \<lparr>vm_Name = ''lib'', vm_Storage = ''/srv/media'', vm_Comment = []\<rparr>];
       links = (\<lambda>p. if p = ''/srv/media'' then Some p else if p = ''/srv/media/out/a.mp4'' then Some ''/home/a.mp4'' else None)
   in ResolvePath links r ''lib'' ''out/a.mp4'' = Inl PathEscapesMount \<and>
      vod_Resolve (\<lambda>_. Some \<lparr>u_Host = ''lib'', u_Path = ''/out/a.mp4'', u_loop = []\<rparr>) r ''file://lib/out/a.mp4'' =
        Inr (''/srv/media/out/a.mp4'', True)"
  by code_simp

lemma link_is_followed_by_upload:
  "let r = vod_Sync [Some \<lparr>vm_Name = ''lib'', vm_Storage = ''/srv/media'', vm_Comment = []\<rparr>];
       links = (\<lambda>p. if p = ''/srv/media'' then Some p else if p = ''/srv/media/out'' then Some ''/home'' else None)
   in ResolvePath links r ''lib'' ''out'' = Inl PathEscapesMount \<and>
      fst (vod_UploadFile links r ''lib'' ''out'' ''b.mp4'' ''data'' True NoFault \<lparr>hf_files = [], hf_dirs = []\<rparr>) =
        VOK ''/vod/lib/raw/out/b.mp4''"
  by code_simp

subsection \<open>The watermark library\<close>

text \<open>
  \<^verbatim>\<open>internal/watermarks/service.go\<close>. A file of the assets directory has a content and a modification time; \<open>sniff\<close> is
  the content type found in the first 512 bytes.
\<close>

record WatermarkAsset =
  wa_Filename :: string
  wa_ContentType :: string
  wa_SizeBytes :: int
  wa_UploadedAt :: int

datatype AssetFile = AssetDir | AssetFile string int

type_synonym AssetsDir = "(string \<times> AssetFile) list"

definition MaxWatermarkAssetBytes :: int where "MaxWatermarkAssetBytes = 8 * 1024 * 1024"

datatype AssetError = AssetNotFound | AlreadyExists | InvalidContent | TooLarge | BadFilename WatermarkError | WriteError

definition isSupportedImage :: "string \<Rightarrow> bool" where
  "isSupportedImage contentType =
     (let t = ToLower (TrimSpace (case cut_first (CHR '';'') contentType of None \<Rightarrow> contentType | Some (a, _) \<Rightarrow> a))
      in t \<in> {''image/png'', ''image/jpeg'', ''image/jpg'', ''image/gif''})"

definition assetFromEntry :: "(string \<Rightarrow> string) \<Rightarrow> AssetsDir \<Rightarrow> string \<Rightarrow> WatermarkAsset option" where
  "assetFromEntry sniff d name =
     (if ValidateWatermarkFilename name \<noteq> None then None
      else case gget d name of
        Some (AssetFile content mtime) \<Rightarrow>
          let ct = sniff (take 512 content) in
          if \<not> isSupportedImage ct then None
          else Some \<lparr>wa_Filename = name, wa_ContentType = ct, wa_SizeBytes = int (length content), wa_UploadedAt = mtime\<rparr>
      | _ \<Rightarrow> None)"

definition wm_List :: "(string \<Rightarrow> string) \<Rightarrow> AssetsDir \<Rightarrow> WatermarkAsset list" where
  "wm_List sniff d =
     sort_key (\<lambda>a. - wa_UploadedAt a)
       (List.map_filter (\<lambda>(name, f). if f = AssetDir then None else assetFromEntry sniff d name) d)"

definition wm_Get :: "(string \<Rightarrow> string) \<Rightarrow> AssetsDir \<Rightarrow> string \<Rightarrow> AssetError + WatermarkAsset" where
  "wm_Get sniff d filename =
     (if ValidateWatermarkFilename filename \<noteq> None then Inl AssetNotFound
      else case assetFromEntry sniff d filename of None \<Rightarrow> Inl AssetNotFound | Some a \<Rightarrow> Inr a)"

text \<open>\<^verbatim>\<open>writeAtomic\<close> and the two checks around it; \<open>now\<close> is the time of the write.\<close>

definition wm_Save ::
  "(string \<Rightarrow> string) \<Rightarrow> WriteFault \<Rightarrow> int \<Rightarrow> string \<Rightarrow> string \<Rightarrow> AssetsDir \<Rightarrow> (AssetError + WatermarkAsset) \<times> AssetsDir" where
  "wm_Save sniff fault now filename0 body d =
     (let filename = TrimSpace filename0 in
      case ValidateWatermarkFilename filename of
        Some e \<Rightarrow> (Inl (BadFilename e), d)
      | None \<Rightarrow>
          if gget d filename \<noteq> None then (Inl AlreadyExists, d)
          else
            let ct = sniff (take 512 body) in
            if \<not> isSupportedImage ct then (Inl InvalidContent, d)
            else
              let tmp = filename @ ''.tmp''; d1 = gdel tmp (gput tmp (AssetFile body now) d) in
              case fault of
                CreateFails \<Rightarrow> (Inl WriteError, d)
              | CopyFails \<Rightarrow> (Inl WriteError, d1)
              | RenameFails \<Rightarrow> (Inl WriteError, d1)
              | NoFault \<Rightarrow>
                  let d2 = gput filename (AssetFile body now) d1; written = int (length body) in
                  if written > MaxWatermarkAssetBytes then (Inl TooLarge, gdel filename d2)
                  else (Inr \<lparr>wa_Filename = filename, wa_ContentType = ct, wa_SizeBytes = written, wa_UploadedAt = now\<rparr>, d2))"

definition wm_Delete :: "string \<Rightarrow> AssetsDir \<Rightarrow> AssetError option \<times> AssetsDir" where
  "wm_Delete filename d =
     (if ValidateWatermarkFilename filename \<noteq> None then (Some AssetNotFound, d)
      else if gget d filename = None then (Some AssetNotFound, d)
      else (None, gdel filename d))"

lemma TrimSpace_idem: "TrimSpace (TrimSpace s) = TrimSpace s"
proof -
  have d: "dropWhile P (dropWhile P xs) = dropWhile P xs" for P :: "char \<Rightarrow> bool" and xs by (induction xs) auto
  have r: "dropWhile P (rev (dropWhile P (rev xs))) = rev (dropWhile P (rev xs))" if "dropWhile P xs = xs"
    for P :: "char \<Rightarrow> bool" and xs
  proof -
    have "rev (dropWhile P (rev xs)) @ rev (takeWhile P (rev xs)) = xs"
      unfolding rev_append [symmetric] takeWhile_dropWhile_id by simp
    then have "rev (dropWhile P (rev xs)) \<noteq> [] \<Longrightarrow> hd (rev (dropWhile P (rev xs))) = hd xs" by (metis hd_append2)
    moreover have "xs = [] \<or> \<not> P (hd xs)" using that dropWhile_eq_self_iff by blast
    ultimately show ?thesis unfolding dropWhile_eq_self_iff by fastforce
  qed
  show ?thesis unfolding TrimSpace_def by (simp add: d r)
qed

text \<open>
  An upload to the watermark library is all or nothing. If it is accepted, the asset can be fetched back as
  reported and no other entry changed; if it is refused or fails at any point, the directory is as before; and a name
  that is taken is always refused.
\<close>

theorem watermark_save_is_atomic:
  assumes "gget d (TrimSpace filename @ ''.tmp'') = None"
    and "wm_Save sniff fault now filename body d = (res, d')"
  shows "case res of
      Inr a \<Rightarrow> wm_Get sniff d' (wa_Filename a) = Inr a \<and> wa_SizeBytes a \<le> MaxWatermarkAssetBytes \<and>
        gget d (wa_Filename a) = None \<and> (\<forall>n. n \<noteq> wa_Filename a \<longrightarrow> gget d' n = gget d n)
    | Inl e \<Rightarrow> (\<forall>n. gget d' n = gget d n)"
proof -
  let ?f = "TrimSpace filename"
  have v: "ValidateWatermarkFilename ?f = ValidateWatermarkFilename filename"
    by (simp add: ValidateWatermarkFilename_def TrimSpace_idem)
  have tmp: "gget (gdel (?f @ ''.tmp'') (gput (?f @ ''.tmp'') x d)) n = gget d n" for x n
    using assms(1) by (auto simp: map_simps)
  show ?thesis
    using assms(2) v
    by (auto simp: wm_Save_def Let_def wm_Get_def assetFromEntry_def map_simps tmp assms(1) TrimSpace_idem
        split: option.splits if_splits WriteFault.splits)
qed

theorem watermark_save_is_atomic_witness:
  "let (res, d') = wm_Save (\<lambda>_. ''image/png'') NoFault 5 '' logo.png'' ''data'' [(''a.png'', AssetFile ''x'' 1)]
   in \<exists>a. res = Inr a \<and> wm_Get (\<lambda>_. ''image/png'') d' (wa_Filename a) = Inr a \<and> gget d' ''a.png'' = Some (AssetFile ''x'' 1)"
proof -
  let ?d = "[(''a.png'', AssetFile ''x'' 1)]"
  have t: "gget ?d (TrimSpace '' logo.png'' @ ''.tmp'') = None" by code_simp
  have s: "wm_Save (\<lambda>_. ''image/png'') NoFault 5 '' logo.png'' ''data'' ?d =
      (Inr \<lparr>wa_Filename = ''logo.png'', wa_ContentType = ''image/png'', wa_SizeBytes = 4, wa_UploadedAt = 5\<rparr>,
       [(''a.png'', AssetFile ''x'' 1), (''logo.png'', AssetFile ''data'' 5)])" by code_simp
  from watermark_save_is_atomic [OF t s] s show ?thesis by (simp add: Let_def)
qed

end
