(* ===== verification/Hook_Batcher.thy ===== *)
theory Hook_Batcher
  imports Vod_Files "HOL-Library.Sublist" "HOL-Library.Multiset"
begin

text \<open>
  Event delivery: \<^verbatim>\<open>internal/hooks/batcher.go\<close>, the dispatch of \<^verbatim>\<open>internal/hooks/service.go\<close>, the filters of
  \<^verbatim>\<open>internal/domain/hook.go\<close> and the queue of \<^verbatim>\<open>internal/events/bus.go\<close>. A batcher has one flusher; taking a
  batch, delivering it and putting it back are separate steps, because the lock is not held during the
  delivery and new events arrive in between. What a delivery returns is an argument of its step.
\<close>

subsection \<open>Events and hooks\<close>

type_synonym EventType = string

record Event =
  ev_ID :: nat
  ev_Type :: EventType
  ev_StreamCode :: StreamCode
  ev_Payload :: "(string \<times> string) list"

record StreamCodeFilter =
  sf_Only :: "StreamCode list"
  sf_Except :: "StreamCode list"

datatype HookType = HookTypeHTTP | HookTypeFile | HookTypeOther string

record Hook =
  hk_ID :: string
  hk_Type :: HookType
  hk_Target :: string
  hk_EventTypes :: "EventType list"
  hk_StreamCodes :: "StreamCodeFilter option"
  hk_Metadata :: "(string \<times> string) list"
  hk_Enabled :: bool
  hk_MaxRetries :: int
  hk_TimeoutSec :: int
  hk_BatchMaxItems :: int
  hk_BatchFlushIntervalSec :: int
  hk_BatchMaxQueueItems :: int

definition filter_Matches :: "StreamCodeFilter option \<Rightarrow> StreamCode \<Rightarrow> bool" where
  "filter_Matches f code =
     (case f of
        None \<Rightarrow> True
      | Some s \<Rightarrow> if 0 < length (sf_Only s) then list_ex (\<lambda>c. c = code) (sf_Only s)
                  else \<not> list_ex (\<lambda>c. c = code) (sf_Except s))"

definition hook_matches :: "Hook \<Rightarrow> Event \<Rightarrow> bool" where
  "hook_matches h e =
     (if 0 < length (hk_EventTypes h) \<and> \<not> list_ex (\<lambda>t. t = ev_Type e) (hk_EventTypes h) then False
      else filter_Matches (hk_StreamCodes h) (ev_StreamCode e))"

definition withMetadata :: "Event \<Rightarrow> (string \<times> string) list \<Rightarrow> Event" where
  "withMetadata e md =
     (if length md = 0 then e
      else e\<lparr>ev_Payload := foldl (\<lambda>m (k, v). gput (''meta.'' @ k) v m) (ev_Payload e) md\<rparr>)"

subsection \<open>Configuration\<close>

definition DefaultHookMaxRetries :: int where "DefaultHookMaxRetries = 3"
definition DefaultHookTimeoutSec :: int where "DefaultHookTimeoutSec = 10"
definition DefaultHookBatchMaxItems :: int where "DefaultHookBatchMaxItems = 100"
definition DefaultHookBatchFlushIntervalSec :: int where "DefaultHookBatchFlushIntervalSec = 5"
definition DefaultHookBatchMaxQueueItems :: int where "DefaultHookBatchMaxQueueItems = 10000"

record batchConfig =
  bc_maxItems :: int
  bc_flushInterval :: duration
  bc_maxQueue :: int
  bc_maxRetries :: int
  bc_timeout :: duration

record batchGlobalDefaults =
  bg_maxItems :: int
  bg_flushIntervalSec :: int
  bg_maxQueueItems :: int

definition mergeBatchConfig :: "Hook \<Rightarrow> batchGlobalDefaults \<Rightarrow> batchConfig" where
  "mergeBatchConfig h gc =
     (let m0 = hk_BatchMaxItems h;
          m1 = (if m0 \<le> 0 then bg_maxItems gc else m0);
          maxItems = (if m1 \<le> 0 then DefaultHookBatchMaxItems else m1);
          f0 = hk_BatchFlushIntervalSec h;
          f1 = (if f0 \<le> 0 then bg_flushIntervalSec gc else f0);
          flushSec = (if f1 \<le> 0 then DefaultHookBatchFlushIntervalSec else f1);
          q0 = hk_BatchMaxQueueItems h;
          q1 = (if q0 \<le> 0 then bg_maxQueueItems gc else q0);
          maxQueue = (if q1 \<le> 0 then DefaultHookBatchMaxQueueItems else q1);
          timeoutSec = (if hk_TimeoutSec h \<le> 0 then DefaultHookTimeoutSec else hk_TimeoutSec h);
          maxRetries = (if hk_MaxRetries h \<le> 0 then DefaultHookMaxRetries else hk_MaxRetries h)
      in \<lparr>bc_maxItems = maxItems, bc_flushInterval = seconds flushSec, bc_maxQueue = maxQueue,
          bc_maxRetries = maxRetries, bc_timeout = seconds timeoutSec\<rparr>)"

subsection \<open>The queue\<close>

text \<open>
  \<open>hb_inflight\<close> is the batch the flusher is delivering. \<open>hb_accepted\<close>, \<open>hb_delivered\<close> and \<open>hb_dropped\<close> are the
  history: events enqueued, batches acknowledged by the target, events evicted on overflow.
\<close>

record 'e httpBatcher =
  hb_cfg :: batchConfig
  hb_queue :: "'e list"
  hb_droppedSize :: int
  hb_flushSig :: bool
  hb_inflight :: "'e list option"
  hb_accepted :: "'e list"
  hb_delivered :: "'e list list"
  hb_dropped :: "'e list"

definition newHTTPBatcher :: "batchConfig \<Rightarrow> 'e httpBatcher" where
  "newHTTPBatcher cfg = \<lparr>hb_cfg = cfg, hb_queue = [], hb_droppedSize = 0, hb_flushSig = False, hb_inflight = None,
     hb_accepted = [], hb_delivered = [], hb_dropped = []\<rparr>"

definition bsignal :: "'e httpBatcher \<Rightarrow> 'e httpBatcher" where
  "bsignal b = b\<lparr>hb_flushSig := True\<rparr>"

definition overflow :: "'e httpBatcher \<Rightarrow> 'e list \<Rightarrow> nat" where
  "overflow b q = (if int (length q) > bc_maxQueue (hb_cfg b) then length q - nat (bc_maxQueue (hb_cfg b)) else 0)"

definition set_queue :: "'e list \<Rightarrow> 'e httpBatcher \<Rightarrow> 'e httpBatcher" where
  "set_queue q b =
     (let dropped = overflow b q
      in b\<lparr>hb_queue := drop dropped q, hb_droppedSize := hb_droppedSize b + int dropped,
           hb_dropped := hb_dropped b @ take dropped q\<rparr>)"

definition enqueue :: "'e \<Rightarrow> 'e httpBatcher \<Rightarrow> 'e httpBatcher" where
  "enqueue ev b =
     (let b1 = set_queue (hb_queue b @ [ev]) (b\<lparr>hb_accepted := hb_accepted b @ [ev]\<rparr>);
          full = (int (length (hb_queue b1)) \<ge> bc_maxItems (hb_cfg b))
      in if full then bsignal b1 else b1)"

definition takeBatch :: "'e httpBatcher \<Rightarrow> 'e list \<times> 'e httpBatcher" where
  "takeBatch b =
     (if length (hb_queue b) = 0 then ([], b)
      else
        let n = (if int (length (hb_queue b)) > bc_maxItems (hb_cfg b) then nat (bc_maxItems (hb_cfg b)) else length (hb_queue b))
        in (take n (hb_queue b), b\<lparr>hb_queue := drop n (hb_queue b)\<rparr>))"

definition requeue :: "'e list \<Rightarrow> 'e httpBatcher \<Rightarrow> 'e httpBatcher" where
  "requeue batch b = set_queue (batch @ hb_queue b) b"

subsection \<open>Delivery\<close>

datatype DeliveryErr = EncodeErr | CtxDone | Timeout | HTTPStatus int | Transport string

text \<open>\<^verbatim>\<open>deliverBatch\<close>: \<open>post k\<close> is the outcome of attempt \<open>k\<close>, \<open>cancelled k\<close> whether the context ends in the pause after it.\<close>

definition backoffs :: "duration list" where
  "backoffs = [seconds 1, seconds 5, seconds 30]"

fun attempts :: "(nat \<Rightarrow> DeliveryErr option) \<Rightarrow> (nat \<Rightarrow> bool) \<Rightarrow> nat \<Rightarrow> nat \<Rightarrow> DeliveryErr option \<times> nat" where
  "attempts post cancelled attempt left =
     (case post attempt of
        None \<Rightarrow> (None, attempt + 1)
      | Some e \<Rightarrow>
          (case left of
             0 \<Rightarrow> (Some e, attempt + 1)
           | Suc l \<Rightarrow> if cancelled attempt then (Some CtxDone, attempt + 1) else attempts post cancelled (attempt + 1) l))"

definition deliverBatch ::
  "batchConfig \<Rightarrow> bool \<Rightarrow> (nat \<Rightarrow> DeliveryErr option) \<Rightarrow> (nat \<Rightarrow> bool) \<Rightarrow> DeliveryErr option \<times> nat" where
  "deliverBatch cfg encodes post cancelled =
     (if \<not> encodes then (Some EncodeErr, 0)
      else
        let maxRetries = (if bc_maxRetries cfg > int (length backoffs) then int (length backoffs) else bc_maxRetries cfg)
        in if maxRetries < 0 then (None, 0) else attempts post cancelled 0 (nat maxRetries))"

definition classifyHookDeliveryErr :: "DeliveryErr option \<Rightarrow> string" where
  "classifyHookDeliveryErr e =
     (case e of
        None \<Rightarrow> ''ok''
      | Some EncodeErr \<Rightarrow> ''encode''
      | Some CtxDone \<Rightarrow> ''timeout''
      | Some Timeout \<Rightarrow> ''timeout''
      | Some (HTTPStatus st) \<Rightarrow>
          (if st \<ge> 400 \<and> st < 500 then ''http_4xx'' else if st \<ge> 500 \<and> st < 600 then ''http_5xx'' else ''unknown'')
      | Some (Transport m) \<Rightarrow>
          (if Contains m ''timeout'' \<or> Contains m ''deadline exceeded'' then ''timeout'' else ''transport''))"

text \<open>The flusher: \<^verbatim>\<open>flushOnce\<close> is \<open>flush_take\<close>, then \<open>flush_done\<close> with the result of the delivery.\<close>

definition flush_take :: "'e httpBatcher \<Rightarrow> 'e httpBatcher" where
  "flush_take b =
     (case takeBatch b of (batch, b1) \<Rightarrow> if length batch = 0 then b1 else b1\<lparr>hb_inflight := Some batch\<rparr>)"

definition flush_done :: "DeliveryErr option \<Rightarrow> 'e httpBatcher \<Rightarrow> 'e httpBatcher" where
  "flush_done err b =
     (case hb_inflight b of
        None \<Rightarrow> b
      | Some batch \<Rightarrow>
          (case err of
             Some _ \<Rightarrow> requeue batch (b\<lparr>hb_inflight := None\<rparr>)
           | None \<Rightarrow> b\<lparr>hb_inflight := None, hb_delivered := hb_delivered b @ [batch]\<rparr>))"

text \<open>One pass of the loop of \<^verbatim>\<open>run\<close>: the ticker or the signal wakes it when it is idle.\<close>

datatype 'e BatcherOp = BEnqueue 'e | BTick | BSignal | BResult "DeliveryErr option"

definition batcher_step :: "'e BatcherOp \<Rightarrow> 'e httpBatcher \<Rightarrow> 'e httpBatcher" where
  "batcher_step op b =
     (case op of
        BEnqueue e \<Rightarrow> enqueue e b
      | BTick \<Rightarrow> if hb_inflight b = None then flush_take b else b
      | BSignal \<Rightarrow> if hb_inflight b = None \<and> hb_flushSig b then flush_take (b\<lparr>hb_flushSig := False\<rparr>) else b
      | BResult err \<Rightarrow> flush_done err b)"

text \<open>\<^verbatim>\<open>drainOnShutdown\<close>; \<open>outcome\<close> gives the result of each flush. The second component counts the abandoned events.\<close>

fun drain_loop :: "(nat \<Rightarrow> DeliveryErr option) \<Rightarrow> nat \<Rightarrow> nat \<Rightarrow> 'e httpBatcher \<Rightarrow> bool \<times> 'e httpBatcher" where
  "drain_loop outcome k 0 b = (False, b)"
| "drain_loop outcome k (Suc iters) b =
     (let before = length (hb_queue b) in
      if before = 0 then (True, b)
      else
        let b1 = flush_done (outcome k) (flush_take b)
        in if length (hb_queue b1) \<ge> before then (False, b1) else drain_loop outcome (k + 1) iters b1)"

definition drainOnShutdown :: "(nat \<Rightarrow> DeliveryErr option) \<Rightarrow> 'e httpBatcher \<Rightarrow> nat \<times> 'e httpBatcher" where
  "drainOnShutdown outcome b =
     (let denom = (if bc_maxItems (hb_cfg b) \<le> 0 then 1 else nat (bc_maxItems (hb_cfg b)))
      in case drain_loop outcome 0 (length (hb_queue b) div denom + 1) b of
           (returned, b1) \<Rightarrow> (if returned then 0 else length (hb_queue b1), b1))"

subsection \<open>Dispatch\<close>

record HookService =
  hs_hooks :: "Hook list"
  hs_defaults :: batchGlobalDefaults
  hs_batchers :: "(string \<times> Event httpBatcher) list"
  hs_files :: "(string \<times> Event) list"

definition batcherFor :: "Hook \<Rightarrow> HookService \<Rightarrow> Event httpBatcher" where
  "batcherFor h s =
     (case gget (hs_batchers s) (hk_ID h) of
        Some b \<Rightarrow> b
      | None \<Rightarrow> newHTTPBatcher (mergeBatchConfig h (hs_defaults s)))"

datatype HookError = TargetRequired | NotHTTP | NotAbsolute | OutsideRoot | UnsupportedType

definition hook_Validate :: "string \<Rightarrow> Hook \<Rightarrow> HookError option" where
  "hook_Validate allowedRoot h =
     (let target = TrimSpace (hk_Target h) in
      if target = [] then Some TargetRequired
      else case hk_Type h of
          HookTypeHTTP \<Rightarrow>
            if \<not> prefix ''http://'' target \<and> \<not> prefix ''https://'' target then Some NotHTTP else None
        | HookTypeFile \<Rightarrow>
            if \<not> rooted_path target then Some NotAbsolute
            else if allowedRoot \<noteq> [] \<and> \<not> pathInside (Clean target) (Clean allowedRoot) then Some OutsideRoot
            else None
        | HookTypeOther t \<Rightarrow> Some UnsupportedType)"

text \<open>\<^verbatim>\<open>deliverFile\<close>: \<open>writeOk\<close> says whether the append succeeds.\<close>

definition deliverFile :: "(string \<Rightarrow> bool) \<Rightarrow> string \<Rightarrow> Hook \<Rightarrow> Event \<Rightarrow> HookService \<Rightarrow> bool \<times> HookService" where
  "deliverFile writeOk allowedRoot h e s =
     (if hook_Validate allowedRoot h \<noteq> None then (False, s)
      else
        let target = TrimSpace (hk_Target h)
        in if writeOk target then (True, s\<lparr>hs_files := hs_files s @ [(target, e)]\<rparr>) else (False, s))"

definition dispatch_one :: "(string \<Rightarrow> bool) \<Rightarrow> string \<Rightarrow> Event \<Rightarrow> Hook \<Rightarrow> HookService \<Rightarrow> HookService" where
  "dispatch_one writeOk allowedRoot e h s =
     (if \<not> hk_Enabled h then s
      else if \<not> hook_matches h e then s
      else
        let ev = withMetadata e (hk_Metadata h) in
        case hk_Type h of
          HookTypeHTTP \<Rightarrow> s\<lparr>hs_batchers := gput (hk_ID h) (enqueue ev (batcherFor h s)) (hs_batchers s)\<rparr>
        | HookTypeFile \<Rightarrow> snd (deliverFile writeOk allowedRoot h ev s)
        | HookTypeOther t \<Rightarrow> s)"

definition hook_dispatch :: "(string \<Rightarrow> bool) \<Rightarrow> string \<Rightarrow> Event \<Rightarrow> HookService \<Rightarrow> HookService" where
  "hook_dispatch writeOk allowedRoot e s = fold (dispatch_one writeOk allowedRoot e) (hs_hooks s) s"

subsection \<open>The bus\<close>

text \<open>
  A handler works on the state \<open>'s\<close> of its subscriber. \<open>eb_held\<close> is what a worker has received and not yet
  dispatched.
\<close>

type_synonym 's HandlerFunc = "Event \<Rightarrow> 's \<Rightarrow> 's"

record 's subscription =
  su_id :: nat
  su_handler :: "'s HandlerFunc"

record 's EventBus =
  eb_subs :: "(EventType \<times> 's subscription list) list"
  eb_nextID :: nat
  eb_queue :: "Event list"
  eb_cap :: nat
  eb_held :: "(nat \<times> Event) list"

definition newBus :: "nat \<Rightarrow> 's EventBus" where
  "newBus queueSize = \<lparr>eb_subs = [], eb_nextID = 0, eb_queue = [], eb_cap = queueSize, eb_held = []\<rparr>"

definition bus_Publish :: "Event \<Rightarrow> 's EventBus \<Rightarrow> 's EventBus" where
  "bus_Publish e b = (if length (eb_queue b) < eb_cap b then b\<lparr>eb_queue := eb_queue b @ [e]\<rparr> else b)"

definition bus_subs_of :: "EventType \<Rightarrow> 's EventBus \<Rightarrow> 's subscription list" where
  "bus_subs_of et b = (case gget (eb_subs b) et of None \<Rightarrow> [] | Some l \<Rightarrow> l)"

definition bus_Subscribe :: "EventType \<Rightarrow> 's HandlerFunc \<Rightarrow> 's EventBus \<Rightarrow> nat \<times> 's EventBus" where
  "bus_Subscribe et h b =
     (let id = eb_nextID b + 1
      in (id, b\<lparr>eb_nextID := id, eb_subs := gput et (bus_subs_of et b @ [\<lparr>su_id = id, su_handler = h\<rparr>]) (eb_subs b)\<rparr>))"

fun without_sub :: "nat \<Rightarrow> 's subscription list \<Rightarrow> 's subscription list" where
  "without_sub n [] = []"
| "without_sub n (x # xs) = (if su_id x = n then xs else x # without_sub n xs)"

definition bus_unsubscribe :: "EventType \<Rightarrow> nat \<Rightarrow> 's EventBus \<Rightarrow> 's EventBus" where
  "bus_unsubscribe et n b = b\<lparr>eb_subs := gput et (without_sub n (bus_subs_of et b)) (eb_subs b)\<rparr>"

definition bus_dispatch :: "'s EventBus \<Rightarrow> Event \<Rightarrow> 's \<Rightarrow> 's" where
  "bus_dispatch b e s = fold (\<lambda>x. su_handler x e) (bus_subs_of (ev_Type e) b) s"

text \<open>\<^verbatim>\<open>runWorker\<close>: a worker receives an event, and later dispatches it.\<close>

definition worker_take :: "nat \<Rightarrow> 's EventBus \<Rightarrow> 's EventBus" where
  "worker_take w b =
     (case eb_queue b of
        [] \<Rightarrow> b
      | e # q \<Rightarrow> if gget (eb_held b) w = None then b\<lparr>eb_queue := q, eb_held := gput w e (eb_held b)\<rparr> else b)"

definition worker_dispatch :: "nat \<Rightarrow> 's EventBus \<times> 's \<Rightarrow> 's EventBus \<times> 's" where
  "worker_dispatch w bs =
     (case gget (eb_held (fst bs)) w of
        None \<Rightarrow> bs
      | Some e \<Rightarrow> ((fst bs)\<lparr>eb_held := gdel w (eb_held (fst bs))\<rparr>, bus_dispatch (fst bs) e (snd bs)))"

text \<open>\<^verbatim>\<open>Start\<close> of the hook service subscribes to these types.\<close>

definition allEvents :: "EventType list" where
  "allEvents =
     [''stream.created'', ''stream.started'', ''stream.stopped'', ''stream.deleted'', ''input.connected'',
      ''input.reconnecting'', ''input.degraded'', ''input.failed'', ''input.failover'', ''recording.started'',
      ''recording.stopped'', ''recording.failed'', ''segment.written'', ''transcoder.started'', ''transcoder.stopped'',
      ''transcoder.error'', ''session.opened'', ''session.closed'']"

definition hooks_Start :: "(string \<Rightarrow> bool) \<Rightarrow> string \<Rightarrow> HookService EventBus \<Rightarrow> HookService EventBus" where
  "hooks_Start writeOk allowedRoot b =
     fold (\<lambda>et b. snd (bus_Subscribe et (hook_dispatch writeOk allowedRoot) b)) allEvents b"

text \<open>\<^verbatim>\<open>DeliverTestEvent\<close>.\<close>

definition DeliverTestEvent :: "(string \<Rightarrow> bool) \<Rightarrow> string \<Rightarrow> string \<Rightarrow> Event \<Rightarrow> HookService \<Rightarrow> bool \<times> HookService" where
  "DeliverTestEvent writeOk allowedRoot hid ev s =
     (case find (\<lambda>h. hk_ID h = hid) (hs_hooks s) of
        None \<Rightarrow> (False, s)
      | Some h \<Rightarrow>
          (case hk_Type h of
             HookTypeHTTP \<Rightarrow> (True, s\<lparr>hs_batchers := gput hid (bsignal (enqueue ev (batcherFor h s))) (hs_batchers s)\<rparr>)
           | HookTypeFile \<Rightarrow> deliverFile writeOk allowedRoot h ev s
           | HookTypeOther t \<Rightarrow> (False, s)))"

subsection \<open>The ledger of a batcher\<close>

definition pending :: "'e httpBatcher \<Rightarrow> 'e list" where
  "pending b = (case hb_inflight b of None \<Rightarrow> [] | Some batch \<Rightarrow> batch) @ hb_queue b"

definition ledger_ok :: "'e httpBatcher \<Rightarrow> bool" where
  "ledger_ok b \<longleftrightarrow> mset (hb_accepted b) = mset (concat (hb_delivered b)) + mset (hb_dropped b) + mset (pending b) \<and>
     subseq (concat (hb_delivered b) @ pending b) (hb_accepted b) \<and> hb_droppedSize b = int (length (hb_dropped b)) \<and>
     0 \<le> bc_maxQueue (hb_cfg b) \<and> int (length (hb_queue b)) \<le> bc_maxQueue (hb_cfg b) \<and> 0 < bc_maxItems (hb_cfg b) \<and>
     list_all (\<lambda>x. x \<noteq> [] \<and> int (length x) \<le> bc_maxItems (hb_cfg b))
       (hb_delivered b @ (case hb_inflight b of None \<Rightarrow> [] | Some batch \<Rightarrow> [batch]))"

lemma set_queue_fields [simp]:
  "hb_cfg (set_queue q b) = hb_cfg b" "hb_inflight (set_queue q b) = hb_inflight b" "hb_accepted (set_queue q b) = hb_accepted b"
  "hb_delivered (set_queue q b) = hb_delivered b" "hb_flushSig (set_queue q b) = hb_flushSig b"
  by (simp_all add: set_queue_def Let_def)

lemma set_queue_parts:
  "\<exists>k. hb_queue (set_queue q b) = drop k q \<and> hb_dropped (set_queue q b) = hb_dropped b @ take k q \<and>
     hb_droppedSize (set_queue q b) = hb_droppedSize b + int (length (take k q)) \<and>
     (0 \<le> bc_maxQueue (hb_cfg b) \<longrightarrow> int (length (drop k q)) \<le> bc_maxQueue (hb_cfg b))"
proof (intro exI [of _ "overflow b q"] conjI impI)
  have l: "overflow b q \<le> length q" by (simp add: overflow_def)
  then show "hb_droppedSize (set_queue q b) = hb_droppedSize b + int (length (take (overflow b q) q))"
    by (simp add: set_queue_def Let_def)
  show "0 \<le> bc_maxQueue (hb_cfg b) \<Longrightarrow> int (length (drop (overflow b q) q)) \<le> bc_maxQueue (hb_cfg b)"
    by (auto simp: overflow_def)
qed (simp_all add: set_queue_def Let_def)

lemma drop_ledger: "mset q = mset (take k q) + mset (drop k q)"
  by (metis append_take_drop_id mset_append)

lemma drop_subseq: "subseq (xs @ drop k ys) (xs @ ys)"
  by (intro list_emb_append_mono subseq_order.refl suffix_imp_subseq suffix_drop)

lemma enqueue_ledger: "ledger_ok b \<Longrightarrow> ledger_ok (enqueue ev b)"
proof -
  assume l: "ledger_ok b"
  let ?q = "hb_queue b @ [ev]" and ?b = "b\<lparr>hb_accepted := hb_accepted b @ [ev]\<rparr>"
  let ?i = "case hb_inflight b of None \<Rightarrow> [] | Some batch \<Rightarrow> batch"
  obtain k where k: "hb_queue (set_queue ?q ?b) = drop k ?q" "hb_dropped (set_queue ?q ?b) = hb_dropped b @ take k ?q"
      "hb_droppedSize (set_queue ?q ?b) = hb_droppedSize b + int (length (take k ?q))"
      "0 \<le> bc_maxQueue (hb_cfg b) \<longrightarrow> int (length (drop k ?q)) \<le> bc_maxQueue (hb_cfg b)"
    using set_queue_parts [of ?q ?b] by auto
  have "subseq (concat (hb_delivered b) @ ?i @ drop k ?q) (concat (hb_delivered b) @ ?i @ ?q)"
    using drop_subseq [of "concat (hb_delivered b) @ ?i" k ?q] by (simp del: drop_append)
  also have "subseq \<dots> (hb_accepted b @ [ev])"
    using list_emb_append_mono [of "(=)" "concat (hb_delivered b) @ pending b" "hb_accepted b" "[ev]" "[ev]"] l
    by (simp add: ledger_ok_def pending_def)
  finally have s: "subseq (concat (hb_delivered b) @ ?i @ drop k ?q) (hb_accepted b @ [ev])" .
  have "mset (hb_accepted b @ [ev]) = mset (concat (hb_delivered b)) + mset (hb_dropped b @ take k ?q) + mset (?i @ drop k ?q)"
    using l drop_ledger [of ?q k] by (simp add: ledger_ok_def pending_def)
  then have "ledger_ok (set_queue ?q ?b)" using l s k by (simp add: ledger_ok_def pending_def)
  then show ?thesis by (simp add: enqueue_def Let_def bsignal_def ledger_ok_def pending_def)
qed

lemma take_ledger: "ledger_ok b \<Longrightarrow> hb_inflight b = None \<Longrightarrow> ledger_ok (flush_take b)"
  by (auto simp: flush_take_def takeBatch_def ledger_ok_def pending_def Let_def mset_append [symmetric] simp del: mset_append)

lemma done_ledger: "ledger_ok b \<Longrightarrow> ledger_ok (flush_done err b)"
proof (cases "hb_inflight b")
  case (Some batch)
  assume l: "ledger_ok b"
  show ?thesis
  proof (cases err)
    case None
    then show ?thesis using l Some by (simp add: flush_done_def ledger_ok_def pending_def)
  next
    case e: (Some x)
    let ?q = "batch @ hb_queue b" and ?b = "b\<lparr>hb_inflight := None\<rparr>"
    obtain k where k: "hb_queue (set_queue ?q ?b) = drop k ?q" "hb_dropped (set_queue ?q ?b) = hb_dropped b @ take k ?q"
        "hb_droppedSize (set_queue ?q ?b) = hb_droppedSize b + int (length (take k ?q))"
        "0 \<le> bc_maxQueue (hb_cfg b) \<longrightarrow> int (length (drop k ?q)) \<le> bc_maxQueue (hb_cfg b)"
      using set_queue_parts [of ?q ?b] by auto
    have "subseq (concat (hb_delivered b) @ drop k ?q) (concat (hb_delivered b) @ ?q)"
      by (rule drop_subseq)
    also have "subseq \<dots> (hb_accepted b)" using l Some by (simp add: ledger_ok_def pending_def)
    finally have s: "subseq (concat (hb_delivered b) @ drop k ?q) (hb_accepted b)" .
    have "mset (hb_accepted b) = mset (concat (hb_delivered b)) + mset (hb_dropped b @ take k ?q) + mset (drop k ?q)"
      using l Some drop_ledger [of ?q k] by (simp add: ledger_ok_def pending_def)
    then have "ledger_ok (set_queue ?q ?b)" using l s k by (simp add: ledger_ok_def pending_def)
    then show ?thesis using Some e by (simp add: flush_done_def requeue_def)
  qed
qed (simp add: flush_done_def)

interpretation batcher: invariant_machine batcher_step ledger_ok
proof
  fix b :: "'a httpBatcher" and op
  assume l: "ledger_ok b"
  then have "ledger_ok (b\<lparr>hb_flushSig := False\<rparr>)" by (simp add: ledger_ok_def pending_def)
  from take_ledger [OF this] l show "ledger_ok (batcher_step op b)"
    by (cases op) (simp_all add: batcher_step_def enqueue_ledger take_ledger done_ledger)
qed

lemma new_ledger: "0 \<le> bc_maxQueue cfg \<Longrightarrow> 0 < bc_maxItems cfg \<Longrightarrow> ledger_ok (newHTTPBatcher cfg)"
  by (simp add: ledger_ok_def pending_def newHTTPBatcher_def)

lemma merge_positive:
  "0 < bc_maxItems (mergeBatchConfig h gc)" "0 < bc_maxQueue (mergeBatchConfig h gc)" "0 < bc_maxRetries (mergeBatchConfig h gc)"
  "0 < bc_flushInterval (mergeBatchConfig h gc)" "0 < bc_timeout (mergeBatchConfig h gc)"
  by (simp_all add: mergeBatchConfig_def Let_def DefaultHookBatchMaxItems_def DefaultHookBatchMaxQueueItems_def
      DefaultHookMaxRetries_def DefaultHookBatchFlushIntervalSec_def DefaultHookTimeoutSec_def)

lemma step_cfg [simp]: "hb_cfg (batcher_step op b) = hb_cfg b"
proof -
  have t: "hb_cfg (flush_take c) = hb_cfg c" for c :: "'a httpBatcher"
    by (simp add: flush_take_def takeBatch_def Let_def split: prod.split)
  have d: "hb_cfg (flush_done err c) = hb_cfg c" for err and c :: "'a httpBatcher"
    by (simp add: flush_done_def requeue_def split: option.split)
  show ?thesis by (cases op) (simp_all add: batcher_step_def enqueue_def bsignal_def Let_def t d)
qed

lemma run_cfg [simp]: "hb_cfg (fold batcher_step ops b) = hb_cfg b"
  by (induction ops arbitrary: b) simp_all

subsection \<open>Draining\<close>

lemma flush_ok:
  assumes "hb_inflight b = None" and "0 < bc_maxItems (hb_cfg b)"
  shows "flush_done None (flush_take b) =
     (if hb_queue b = [] then b
      else b\<lparr>hb_queue := drop (nat (bc_maxItems (hb_cfg b))) (hb_queue b),
             hb_delivered := hb_delivered b @ [take (nat (bc_maxItems (hb_cfg b))) (hb_queue b)]\<rparr>)"
  using assms by (cases b) (auto simp: flush_take_def takeBatch_def flush_done_def Let_def)

lemma flush_failed:
  assumes "hb_inflight b = None" and "0 < bc_maxItems (hb_cfg b)" and "int (length (hb_queue b)) \<le> bc_maxQueue (hb_cfg b)"
  shows "hb_queue (flush_done (Some e) (flush_take b)) = hb_queue b \<and> hb_delivered (flush_done (Some e) (flush_take b)) = hb_delivered b"
  using assms
  by (auto simp: flush_take_def takeBatch_def flush_done_def requeue_def set_queue_def overflow_def Let_def)

lemma drain_loop_keeps:
  assumes "hb_inflight b = None" and "0 < bc_maxItems (hb_cfg b)" and "int (length (hb_queue b)) \<le> bc_maxQueue (hb_cfg b)"
    and "drain_loop outcome k iters b = (r, b')"
  shows "concat (hb_delivered b') @ hb_queue b' = concat (hb_delivered b) @ hb_queue b \<and> (r \<longrightarrow> hb_queue b' = [])"
  using assms
proof (induction outcome k iters b rule: drain_loop.induct)
  case (2 outcome k iters b)
  show ?case
  proof (cases "hb_queue b = []")
    case False
    show ?thesis
    proof (cases "outcome k")
      case None
      then show ?thesis using 2 False by (auto simp: Let_def flush_ok split: if_splits)
    next
      case (Some e)
      then show ?thesis using 2 False flush_failed [of b e] by (auto simp: Let_def)
    qed
  qed (use 2 in simp)
qed simp

lemma drain_loop_ships:
  "hb_inflight b = None \<Longrightarrow> 0 < bc_maxItems (hb_cfg b) \<Longrightarrow>
     length (hb_queue b) < iters * nat (bc_maxItems (hb_cfg b)) \<or> hb_queue b = [] \<Longrightarrow>
     hb_queue (snd (drain_loop (\<lambda>_. None) k iters b)) = []"
proof (induction iters arbitrary: k b)
  case (Suc iters)
  show ?case
  proof (cases "hb_queue b = []")
    case False
    let ?b = "flush_done None (flush_take b)"
    note b = flush_ok [OF Suc.prems(1,2)]
    have "hb_queue (snd (drain_loop (\<lambda>_. None) (k + 1) iters ?b)) = []"
      by (rule Suc.IH) (use Suc.prems False in \<open>auto simp: b\<close>)
    moreover have "length (hb_queue ?b) < length (hb_queue b)" using Suc.prems(2) False by (simp add: b)
    ultimately show ?thesis using False by (simp add: Let_def)
  qed simp
qed simp

subsection \<open>Properties\<close>

text \<open>
  C19: No event is lost silently and none is reordered. However enqueues, ticks, signals and failed or successful
  deliveries interleave, the events a batcher accepted are those it delivered, those it counted as dropped and those still
  pending; the delivered and pending ones are in the order they were accepted; the queue never exceeds its cap, and
  every delivered batch has at least one and at most \<^verbatim>\<open>maxItems\<close> events.
\<close>

theorem no_event_is_lost_or_reordered:
  "let cfg = mergeBatchConfig h gc; b = fold batcher_step ops (newHTTPBatcher cfg)
   in mset (hb_accepted b) = mset (concat (hb_delivered b)) + mset (hb_dropped b) + mset (pending b) \<and>
      subseq (concat (hb_delivered b) @ pending b) (hb_accepted b) \<and> hb_droppedSize b = int (length (hb_dropped b)) \<and>
      int (length (hb_queue b)) \<le> bc_maxQueue cfg \<and>
      list_all (\<lambda>x. x \<noteq> [] \<and> int (length x) \<le> bc_maxItems cfg) (hb_delivered b)"
proof -
  let ?b = "newHTTPBatcher (mergeBatchConfig h gc)"
  have "ledger_ok (fold batcher_step ops ?b)"
    using merge_positive [of h gc] by (intro batcher.run_inv new_ledger) simp_all
  then show ?thesis by (simp add: ledger_ok_def Let_def newHTTPBatcher_def)
qed

text \<open>
  C34: A shutdown ships the backlog or counts it. Whatever the target answers, the drain leaves delivered events followed
  by the abandoned ones in order, reports exactly the number abandoned, and abandons nothing if no flush fails.
\<close>

theorem drain_ships_or_counts:
  assumes "hb_inflight b = None" and "0 < bc_maxItems (hb_cfg b)" and "int (length (hb_queue b)) \<le> bc_maxQueue (hb_cfg b)"
    and "drainOnShutdown outcome b = (n, b')"
  shows "concat (hb_delivered b') @ hb_queue b' = concat (hb_delivered b) @ hb_queue b \<and> n = length (hb_queue b') \<and>
     ((\<forall>k. outcome k = None) \<longrightarrow> n = 0)"
proof -
  let ?i = "length (hb_queue b) div nat (bc_maxItems (hb_cfg b)) + 1"
  obtain r c where c: "drain_loop outcome 0 ?i b = (r, c)" by fastforce
  then have n: "b' = c" "n = (if r then 0 else length (hb_queue c))"
    using assms(2,4) by (auto simp: drainOnShutdown_def Let_def)
  note k = drain_loop_keeps [OF assms(1-3) c]
  have "length (hb_queue b) < ?i * nat (bc_maxItems (hb_cfg b))"
    using assms(2) by (metis Suc_eq_plus1 add.commute dividend_less_div_times mult_Suc zero_less_nat_eq)
  then have "\<forall>k. outcome k = None \<Longrightarrow> hb_queue c = []"
    using drain_loop_ships [of b ?i 0] assms(1,2) c by (simp add: fun_eq_iff [of outcome "\<lambda>_. None", symmetric])
  then show ?thesis using k n by auto
qed

theorem drain_ships_or_counts_witness:
  "let cfg = \<lparr>bc_maxItems = 2, bc_flushInterval = 5, bc_maxQueue = 9, bc_maxRetries = 3, bc_timeout = 10\<rparr>;
       b = (newHTTPBatcher cfg)\<lparr>hb_queue := [1, 2, 3, 4, 5 :: nat]\<rparr>
   in \<exists>b'. drainOnShutdown (\<lambda>k. if k = 0 then None else Some (HTTPStatus 503)) b = (3, b') \<and>
        concat (hb_delivered b') @ hb_queue b' = [1, 2, 3, 4, 5]"
proof -
  let ?cfg = "\<lparr>bc_maxItems = 2, bc_flushInterval = 5, bc_maxQueue = 9, bc_maxRetries = 3, bc_timeout = 10\<rparr>"
  let ?b = "(newHTTPBatcher ?cfg)\<lparr>hb_queue := [1, 2, 3, 4, 5 :: nat]\<rparr>"
  let ?o = "\<lambda>k :: nat. if k = 0 then None else Some (HTTPStatus 503)"
  have f: "fst (drainOnShutdown ?o ?b) = 3" by code_simp
  have "hb_inflight ?b = None" "0 < bc_maxItems (hb_cfg ?b)" "int (length (hb_queue ?b)) \<le> bc_maxQueue (hb_cfg ?b)"
    by (simp_all add: newHTTPBatcher_def)
  from drain_ships_or_counts [OF this, of ?o 3 "snd (drainOnShutdown ?o ?b)"] f
  show ?thesis unfolding Let_def by (intro exI [of _ "snd (drainOnShutdown ?o ?b)"]) (auto simp: prod_eq_iff newHTTPBatcher_def)
qed

lemma attempts_run:
  "attempts post cancelled k left = (r, n) \<Longrightarrow>
     k < n \<and> n \<le> k + left + 1 \<and> (\<forall>i. k \<le> i \<and> i < n - 1 \<longrightarrow> post i \<noteq> None) \<and> (r = None \<longleftrightarrow> post (n - 1) = None)"
proof (induction left arbitrary: k)
  case (Suc l)
  show ?case
  proof (cases "post k = None \<or> cancelled k")
    case False
    then have "attempts post cancelled (k + 1) l = (r, n)" using Suc.prems by auto
    note IH = Suc.IH [OF this]
    have "post i \<noteq> None" if "k \<le> i" "i < n - 1" for i using that IH False by (cases "i = k") auto
    then show ?thesis using IH by auto
  qed (use Suc.prems in \<open>auto split: option.splits\<close>)
qed (auto split: option.splits)

text \<open>
  A delivery is attempted a bounded number of times. A batch that can be encoded is posted at least once and at most
  once plus the configured retries, capped at three; every attempt but the last failed, and the delivery succeeds
  exactly if the last attempt did.
\<close>

theorem delivery_attempts_are_bounded:
  assumes "deliverBatch (mergeBatchConfig h gc) True post cancelled = (r, n)"
  shows "1 \<le> n \<and> int n \<le> 1 + min 3 (bc_maxRetries (mergeBatchConfig h gc)) \<and>
     (\<forall>i. i < n - 1 \<longrightarrow> post i \<noteq> None) \<and> (r = None \<longleftrightarrow> post (n - 1) = None)"
proof -
  let ?m = "bc_maxRetries (mergeBatchConfig h gc)"
  have "0 < ?m" by (rule merge_positive)
  then have "attempts post cancelled 0 (nat (min 3 ?m)) = (r, n)"
    using assms by (auto simp: deliverBatch_def backoffs_def Let_def min_def simp del: attempts.simps split: if_splits)
  from attempts_run [OF this] \<open>0 < ?m\<close> show ?thesis by auto
qed

theorem delivery_attempts_are_bounded_witness:
  "\<exists>h gc :: batchGlobalDefaults. \<exists>n. deliverBatch (mergeBatchConfig h gc) True (\<lambda>_. Some Timeout) (\<lambda>_. False) = (Some Timeout, n) \<and> 1 \<le> n \<and> n = 3"
proof -
  let ?h = "\<lparr>hk_ID = ''h'', hk_Type = HookTypeHTTP, hk_Target = ''http://x'', hk_EventTypes = [], hk_StreamCodes = None, hk_Metadata = [],
      hk_Enabled = True, hk_MaxRetries = 2, hk_TimeoutSec = 0, hk_BatchMaxItems = 0, hk_BatchFlushIntervalSec = 0, hk_BatchMaxQueueItems = 0\<rparr>"
  let ?gc = "\<lparr>bg_maxItems = 0, bg_flushIntervalSec = 0, bg_maxQueueItems = 0\<rparr>"
  have d: "deliverBatch (mergeBatchConfig ?h ?gc) True (\<lambda>_. Some Timeout) (\<lambda>_. False) = (Some Timeout, 3)" by code_simp
  from delivery_attempts_are_bounded [OF d] d show ?thesis by blast
qed

subsection \<open>Dispatch\<close>

definition takes :: "Event \<Rightarrow> Hook \<Rightarrow> bool" where
  "takes e h \<longleftrightarrow> hk_Enabled h \<and> hook_matches h e"

lemma deliverFile_batchers [simp]: "hs_batchers (snd (deliverFile w r h e s)) = hs_batchers s" "hs_defaults (snd (deliverFile w r h e s)) = hs_defaults s"
  by (simp_all add: deliverFile_def Let_def)

lemma dispatch_one_batchers:
  "gget (hs_batchers (dispatch_one w r e h s)) i =
     (if takes e h \<and> hk_Type h = HookTypeHTTP \<and> hk_ID h = i then Some (enqueue (withMetadata e (hk_Metadata h)) (batcherFor h s))
      else gget (hs_batchers s) i)"
  "hs_defaults (dispatch_one w r e h s) = hs_defaults s"
  by (auto simp: dispatch_one_def takes_def map_simps Let_def split: HookType.split)

lemma batcherFor_cong:
  "gget (hs_batchers s) (hk_ID h) = gget (hs_batchers s') (hk_ID h) \<Longrightarrow> hs_defaults s = hs_defaults s' \<Longrightarrow> batcherFor h s = batcherFor h s'"
  by (auto simp: batcherFor_def split: option.split)

lemma fold_dispatch:
  "distinct (map hk_ID hs) \<Longrightarrow>
   gget (hs_batchers (fold (dispatch_one w r e) hs s)) i =
     (case find (\<lambda>h. takes e h \<and> hk_Type h = HookTypeHTTP \<and> hk_ID h = i) hs of
        Some h \<Rightarrow> Some (enqueue (withMetadata e (hk_Metadata h)) (batcherFor h s))
      | None \<Rightarrow> gget (hs_batchers s) i)"
proof (induction hs arbitrary: s)
  case (Cons h hs)
  let ?P = "\<lambda>h. takes e h \<and> hk_Type h = HookTypeHTTP \<and> hk_ID h = i"
  note IH = Cons.IH [of "dispatch_one w r e h s"]
  show ?case
  proof (cases "?P h")
    case True
    then have "find ?P hs = None" using Cons.prems by (auto simp: find_None_iff image_iff)
    then show ?thesis using IH Cons.prems True by (simp add: dispatch_one_batchers)
  next
    case False
    have "batcherFor x (dispatch_one w r e h s) = batcherFor x s" if "find ?P hs = Some x" for x
      using that False by (intro batcherFor_cong) (auto simp: dispatch_one_batchers find_Some_iff)
    then show ?thesis using IH Cons.prems False by (auto simp: dispatch_one_batchers split: option.split)
  qed
qed simp

text \<open>
  An event reaches exactly the hooks that ask for it. With distinct hook ids, a dispatch appends the event, with the
  hook's metadata, to the batcher of each enabled HTTP hook whose event types and stream filter accept it, creates that batcher
  if there is none yet, and leaves every other batcher as it was.
\<close>

theorem event_reaches_exactly_matching_hooks:
  assumes "distinct (map hk_ID (hs_hooks s))"
  shows "gget (hs_batchers (hook_dispatch w r e s)) i =
     (case find (\<lambda>h. hk_Enabled h \<and> hook_matches h e \<and> hk_Type h = HookTypeHTTP \<and> hk_ID h = i) (hs_hooks s) of
        Some h \<Rightarrow> Some (enqueue (withMetadata e (hk_Metadata h))
          (case gget (hs_batchers s) i of Some b \<Rightarrow> b | None \<Rightarrow> newHTTPBatcher (mergeBatchConfig h (hs_defaults s))))
      | None \<Rightarrow> gget (hs_batchers s) i)"
proof -
  let ?P = "\<lambda>h. hk_Enabled h \<and> hook_matches h e \<and> hk_Type h = HookTypeHTTP \<and> hk_ID h = i"
  have "batcherFor h s = (case gget (hs_batchers s) i of Some b \<Rightarrow> b | None \<Rightarrow> newHTTPBatcher (mergeBatchConfig h (hs_defaults s)))"
    if "find ?P (hs_hooks s) = Some h" for h
    using that by (auto simp: batcherFor_def find_Some_iff split: option.split)
  then show ?thesis
    using fold_dispatch [OF assms, of w r e s i]
    by (simp add: hook_dispatch_def takes_def conj_assoc split: option.splits)
qed

theorem event_reaches_exactly_matching_hooks_witness:
  "let h = \<lparr>hk_ID = ''h'', hk_Type = HookTypeHTTP, hk_Target = ''http://x'', hk_EventTypes = [''stream.started''], hk_StreamCodes = None,
        hk_Metadata = [(''env'', ''prod'')], hk_Enabled = True, hk_MaxRetries = 2, hk_TimeoutSec = 0, hk_BatchMaxItems = 0,
        hk_BatchFlushIntervalSec = 0, hk_BatchMaxQueueItems = 0\<rparr>;
      s = \<lparr>hs_hooks = [h\<lparr>hk_ID := ''g'', hk_Enabled := False\<rparr>, h], hs_defaults = \<lparr>bg_maxItems = 0, bg_flushIntervalSec = 0, bg_maxQueueItems = 0\<rparr>,
        hs_batchers = [], hs_files = []\<rparr>;
      e = \<lparr>ev_ID = 1, ev_Type = ''stream.started'', ev_StreamCode = ''live'', ev_Payload = []\<rparr>
   in gget (hs_batchers (hook_dispatch (\<lambda>_. True) [] e s)) ''g'' = None \<and>
      map_option hb_queue (gget (hs_batchers (hook_dispatch (\<lambda>_. True) [] e s)) ''h'') = Some [e\<lparr>ev_Payload := [(''meta.env'', ''prod'')]\<rparr>]"
proof -
  let ?h = "\<lparr>hk_ID = ''h'', hk_Type = HookTypeHTTP, hk_Target = ''http://x'', hk_EventTypes = [''stream.started''], hk_StreamCodes = None,
        hk_Metadata = [(''env'', ''prod'')], hk_Enabled = True, hk_MaxRetries = 2, hk_TimeoutSec = 0, hk_BatchMaxItems = 0,
        hk_BatchFlushIntervalSec = 0, hk_BatchMaxQueueItems = 0\<rparr>"
  let ?s = "\<lparr>hs_hooks = [?h\<lparr>hk_ID := ''g'', hk_Enabled := False\<rparr>, ?h], hs_defaults = \<lparr>bg_maxItems = 0, bg_flushIntervalSec = 0, bg_maxQueueItems = 0\<rparr>,
        hs_batchers = [], hs_files = []\<rparr>"
  have d: "distinct (map hk_ID (hs_hooks ?s))" by simp
  show ?thesis unfolding Let_def event_reaches_exactly_matching_hooks [OF d] by code_simp
qed

subsection \<open>Subscriptions\<close>

lemma subscribe_subs: "bus_subs_of et' (snd (bus_Subscribe et h b)) =
    (if et = et' then bus_subs_of et b @ [\<lparr>su_id = eb_nextID b + 1, su_handler = h\<rparr>] else bus_subs_of et' b)"
  by (simp add: bus_Subscribe_def Let_def bus_subs_of_def gget_gput)

lemma subscribe_all:
  "distinct ets \<Longrightarrow> map su_handler (bus_subs_of et (fold (\<lambda>et b. snd (bus_Subscribe et h b)) ets b)) =
     map su_handler (bus_subs_of et b) @ (if et \<in> set ets then [h] else [])"
  by (induction ets arbitrary: b) (auto simp: subscribe_subs)

lemma dispatch_after_Start:
  "bus_dispatch (hooks_Start w r (newBus n)) e s = (if ev_Type e \<in> set allEvents then hook_dispatch w r e s else s)"
proof -
  have "distinct allEvents" by code_simp
  from subscribe_all [OF this, of "ev_Type e" "hook_dispatch w r" "newBus n"]
  have "map su_handler (bus_subs_of (ev_Type e) (hooks_Start w r (newBus n))) = (if ev_Type e \<in> set allEvents then [hook_dispatch w r] else [])"
    by (simp add: hooks_Start_def bus_subs_of_def newBus_def)
  moreover have "bus_dispatch b e s = fold (\<lambda>f. f e) (map su_handler (bus_subs_of (ev_Type e) b)) s" for b
    by (simp add: bus_dispatch_def fold_map comp_def)
  ultimately show ?thesis by simp
qed

lemma push_failure_reaches_no_hook:
  "ev_Type e = ''push.failed'' \<or> ev_Type e = ''input.recovered'' \<Longrightarrow> bus_dispatch (hooks_Start w r (newBus n)) e s = s"
  unfolding dispatch_after_Start by (auto simp: allEvents_def)

text \<open>
  The hook service sees exactly the event types it subscribed to. After \<^verbatim>\<open>Start\<close> a worker that dispatches an
  event runs the hooks if its type is one of the eighteen subscribed ones, and does nothing to them otherwise, whatever types the
  hooks themselves ask for.
\<close>

theorem hooks_see_only_subscribed_types:
  "bus_dispatch (hooks_Start w r (newBus n)) e s = (if ev_Type e \<in> set allEvents then hook_dispatch w r e s else s)"
  by (rule dispatch_after_Start)

text \<open>
  A file hook writes only below its root. With a root configured, every line a dispatch adds is written to a
  path whose components are those of the root followed by components none of which is \<^verbatim>\<open>..\<close>.
\<close>

theorem file_hook_writes_below_its_root:
  assumes "allowedRoot \<noteq> []" and "hs_files (hook_dispatch w allowedRoot e s) = hs_files s @ added" and "(target, ev) \<in> set added"
  shows "rooted_path allowedRoot \<and> (\<exists>rest. clean_comps target = clean_comps allowedRoot @ rest \<and> ''..'' \<notin> set rest)"
proof -
  let ?in = "\<lambda>x :: string \<times> Event. rooted_path (fst x) \<and> pathInside (Clean (fst x)) (Clean allowedRoot)"
  have one: "\<exists>a. hs_files (dispatch_one w allowedRoot e h s) = hs_files s @ a \<and> list_all ?in a" for h s
    using assms(1)
    by (auto simp: dispatch_one_def deliverFile_def hook_Validate_def Let_def split: HookType.split if_splits)
  have all: "\<exists>a. hs_files (fold (dispatch_one w allowedRoot e) hs s) = hs_files s @ a \<and> list_all ?in a" for hs
  proof (induction hs arbitrary: s)
    case (Cons h hs)
    obtain a where a: "hs_files (dispatch_one w allowedRoot e h s) = hs_files s @ a" "list_all ?in a" using one by blast
    obtain b where "hs_files (fold (dispatch_one w allowedRoot e) hs (dispatch_one w allowedRoot e h s)) =
        hs_files (dispatch_one w allowedRoot e h s) @ b" "list_all ?in b" using Cons.IH by blast
    then show ?case using a by (intro exI [of _ "a @ b"]) simp
  qed simp
  have "list_all ?in added" using all [of "hs_hooks s"] assms(2) by (auto simp: hook_dispatch_def)
  then have i: "rooted_path target" "pathInside (Clean target) (Clean allowedRoot)"
    using assms(3) by (auto simp: list_all_iff)
  then have "rooted_path (Clean allowedRoot)"
    using Clean_rooted [of target] Clean_nonempty [of allowedRoot]
    by (cases "Clean allowedRoot") (auto simp: pathInside_def rooted_path_def prefix_def split: if_splits)
  then have r: "rooted_path allowedRoot" by (simp add: Clean_rooted)
  with pathInside_iff [OF i(1) r] i(2) clean_rooted [OF i(1)] show ?thesis by auto
qed

theorem file_hook_writes_below_its_root_witness:
  "let h = \<lparr>hk_ID = ''h'', hk_Type = HookTypeFile, hk_Target = ''/var/log/os/a.jsonl'', hk_EventTypes = [], hk_StreamCodes = None,
        hk_Metadata = [], hk_Enabled = True, hk_MaxRetries = 2, hk_TimeoutSec = 0, hk_BatchMaxItems = 0,
        hk_BatchFlushIntervalSec = 0, hk_BatchMaxQueueItems = 0\<rparr>;
      s = \<lparr>hs_hooks = [h, h\<lparr>hk_Target := ''/var/log/os/../x''\<rparr>], hs_defaults = \<lparr>bg_maxItems = 0, bg_flushIntervalSec = 0, bg_maxQueueItems = 0\<rparr>,
        hs_batchers = [], hs_files = []\<rparr>;
      e = \<lparr>ev_ID = 1, ev_Type = ''stream.started'', ev_StreamCode = ''live'', ev_Payload = []\<rparr>
   in hs_files (hook_dispatch (\<lambda>_. True) ''/var/log/os'' e s) = [(''/var/log/os/a.jsonl'', e)] \<and> rooted_path ''/var/log/os''"
proof -
  let ?h = "\<lparr>hk_ID = ''h'', hk_Type = HookTypeFile, hk_Target = ''/var/log/os/a.jsonl'', hk_EventTypes = [], hk_StreamCodes = None,
        hk_Metadata = [], hk_Enabled = True, hk_MaxRetries = 2, hk_TimeoutSec = 0, hk_BatchMaxItems = 0,
        hk_BatchFlushIntervalSec = 0, hk_BatchMaxQueueItems = 0\<rparr>"
  let ?s = "\<lparr>hs_hooks = [?h, ?h\<lparr>hk_Target := ''/var/log/os/../x''\<rparr>], hs_defaults = \<lparr>bg_maxItems = 0, bg_flushIntervalSec = 0, bg_maxQueueItems = 0\<rparr>,
        hs_batchers = [], hs_files = []\<rparr>"
  let ?e = "\<lparr>ev_ID = 1, ev_Type = ''stream.started'', ev_StreamCode = ''live'', ev_Payload = []\<rparr>"
  have f: "hs_files (hook_dispatch (\<lambda>_. True) ''/var/log/os'' ?e ?s) = hs_files ?s @ [(''/var/log/os/a.jsonl'', ?e)]" by code_simp
  from file_hook_writes_below_its_root [OF _ f, of "''/var/log/os/a.jsonl''" ?e] f show ?thesis by (simp add: Let_def)
qed

end
