(* ===== verification/Play_Sessions.thy ===== *)
theory Play_Sessions
  imports Vod_Files "HOL-Library.Multiset"
begin

text \<open>
  Playback sessions: \<^verbatim>\<open>internal/sessions\<close> (tracker, reaper, fingerprint, HTTP middleware, GeoIP swap) and
  \<^verbatim>\<open>internal/domain/session.go\<close>. Every critical section is a step of its own: a kick and a sweep look at the table in one
  and close in later ones. The hash and the country database are arguments; the zero time is \<open>None\<close>.
\<close>

declare map_of_eq_Some_iff [simp del] Some_eq_map_of_iff [simp del]

subsection \<open>Sessions\<close>

type_synonym time = int

datatype SessionProto = SessionProtoHLS | SessionProtoDASH | SessionProtoRTMP | SessionProtoSRT | SessionProtoRTSP | SessionProtoMPEGTS

datatype SessionNamedBy = SessionNamedByToken | SessionNamedByConfig | SessionNamedByFingerprint

datatype SessionCloseReason = SessionCloseIdle | SessionCloseMaxLifetime | SessionCloseClient | SessionCloseShutdown | SessionCloseKicked

record PlaySession =
  ps_ID :: string
  ps_StreamCode :: string
  ps_Protocol :: SessionProto
  ps_IP :: string
  ps_UserAgent :: string
  ps_Referer :: string
  ps_QueryString :: string
  ps_Token :: string
  ps_UserName :: string
  ps_NamedBy :: SessionNamedBy
  ps_Country :: string
  ps_Bytes :: int
  ps_Secure :: bool
  ps_DVR :: bool
  ps_OpenedAt :: time
  ps_StartedAt :: "time option"
  ps_UpdatedAt :: time
  ps_ClosedAt :: "time option"
  ps_CloseReason :: "SessionCloseReason option"

definition ps_Duration :: "PlaySession \<Rightarrow> duration" where
  "ps_Duration s =
     (let e = (case ps_ClosedAt s of None \<Rightarrow> ps_UpdatedAt s | Some c \<Rightarrow> c)
      in if e < ps_OpenedAt s then 0 else e - ps_OpenedAt s)"

definition ps_Active :: "PlaySession \<Rightarrow> bool" where
  "ps_Active s = (ps_ClosedAt s = None)"

subsection \<open>Requests\<close>

record HTTPHit =
  hh_StreamCode :: string
  hh_Protocol :: SessionProto
  hh_IP :: string
  hh_UserAgent :: string
  hh_Referer :: string
  hh_Query :: string
  hh_Token :: string
  hh_Secure :: bool
  hh_BytesDelta :: int
  hh_DVR :: bool

record ConnHit =
  ch_StreamCode :: string
  ch_Protocol :: SessionProto
  ch_RemoteAddr :: string
  ch_UserAgent :: string
  ch_Token :: string
  ch_Secure :: bool

definition proto_name :: "SessionProto \<Rightarrow> string" where
  "proto_name p = (case p of SessionProtoHLS \<Rightarrow> ''hls'' | SessionProtoDASH \<Rightarrow> ''dash'' | SessionProtoRTMP \<Rightarrow> ''rtmp''
     | SessionProtoSRT \<Rightarrow> ''srt'' | SessionProtoRTSP \<Rightarrow> ''rtsp'' | SessionProtoMPEGTS \<Rightarrow> ''mpegts'')"

definition NUL :: char where "NUL = CHR 0x00"

definition fingerprintIDLen :: nat where "fingerprintIDLen = 16"

text \<open>What is hashed, and the hash; \<open>sha\<close> is the hexadecimal SHA-256.\<close>

definition fingerprint_input :: "string \<Rightarrow> SessionProto \<Rightarrow> bool \<Rightarrow> string \<Rightarrow> string \<Rightarrow> string \<Rightarrow> string" where
  "fingerprint_input code proto dvr ip ua token =
     code @ [NUL] @ proto_name proto @ [NUL] @ [if dvr then CHR 0x01 else NUL] @ [NUL] @ ToLower (TrimSpace ip) @ [NUL] @
     TrimSpace ua @ [NUL] @ TrimSpace token"

definition fingerprintID :: "(string \<Rightarrow> string) \<Rightarrow> string \<Rightarrow> SessionProto \<Rightarrow> bool \<Rightarrow> string \<Rightarrow> string \<Rightarrow> string \<Rightarrow> string" where
  "fingerprintID sha code proto dvr ip ua token = take fingerprintIDLen (sha (fingerprint_input code proto dvr ip ua token))"

definition shortFingerprintLabel :: "string \<Rightarrow> string" where
  "shortFingerprintLabel fp = (if length fp > 8 then take 8 fp else fp)"

definition stripPort :: "string \<Rightarrow> string" where
  "stripPort addr = (if addr = [] then [] else case SplitHostPort addr of Some (h, _) \<Rightarrow> h | None \<Rightarrow> addr)"

definition clientIP :: "string \<Rightarrow> string \<Rightarrow> string \<Rightarrow> string" where
  "clientIP xff0 xri0 remote =
     (let xff = TrimSpace xff0;
          f = (if xff = [] then []
               else stripPort (TrimSpace (case cut_first (CHR '','') xff of Some (a, _) \<Rightarrow> if a = [] then xff else a | None \<Rightarrow> xff)));
          xri = TrimSpace xri0;
          g = (if xri = [] then [] else stripPort xri)
      in if f \<noteq> [] then f else if g \<noteq> [] then g else stripPort remote)"

subsection \<open>The tracker\<close>

record runtimeConfig =
  rc_enabled :: bool
  rc_idleDur :: duration
  rc_maxAlive :: duration

record SessionsConfig =
  sc_Enabled :: bool
  sc_IdleTimeoutSec :: int
  sc_MaxLifetimeSec :: int

definition applyConfig :: "SessionsConfig \<Rightarrow> runtimeConfig" where
  "applyConfig cfg =
     (let idle = seconds (sc_IdleTimeoutSec cfg); maxAlive = seconds (sc_MaxLifetimeSec cfg)
      in \<lparr>rc_enabled = sc_Enabled cfg, rc_idleDur = (if idle \<le> 0 then seconds 30 else idle),
          rc_maxAlive = (if maxAlive < 0 then 0 else maxAlive)\<rparr>)"

datatype SessionEvent = EventSessionOpened PlaySession | EventSessionClosed PlaySession

text \<open>\<open>tk_victims\<close> is what a sweep still has to close, \<open>tk_kicks\<close> the kicks that found their session, \<open>tk_events\<close> what was published.\<close>

record Tracker =
  tk_cfg :: runtimeConfig
  tk_sessions :: "(string \<times> PlaySession) list"
  tk_openedTotal :: int
  tk_closedTotal :: int
  tk_idleClosedTotal :: int
  tk_kickedTotal :: int
  tk_victims :: "(string \<times> SessionCloseReason) list"
  tk_kicks :: "string list"
  tk_events :: "SessionEvent list"

definition newTracker :: "SessionsConfig \<Rightarrow> Tracker" where
  "newTracker cfg = \<lparr>tk_cfg = applyConfig cfg, tk_sessions = [], tk_openedTotal = 0, tk_closedTotal = 0, tk_idleClosedTotal = 0,
     tk_kickedTotal = 0, tk_victims = [], tk_kicks = [], tk_events = []\<rparr>"

definition openHTTP :: "(string \<Rightarrow> string) \<Rightarrow> string \<Rightarrow> HTTPHit \<Rightarrow> time \<Rightarrow> PlaySession" where
  "openHTTP geo id' h now =
     \<lparr>ps_ID = id', ps_StreamCode = hh_StreamCode h, ps_Protocol = hh_Protocol h, ps_IP = hh_IP h, ps_UserAgent = hh_UserAgent h,
      ps_Referer = hh_Referer h, ps_QueryString = hh_Query h, ps_Token = hh_Token h,
      ps_UserName = (if hh_Token h \<noteq> [] then hh_Token h else shortFingerprintLabel id'),
      ps_NamedBy = (if hh_Token h \<noteq> [] then SessionNamedByToken else SessionNamedByFingerprint),
      ps_Country = geo (hh_IP h), ps_Bytes = hh_BytesDelta h, ps_Secure = hh_Secure h, ps_DVR = hh_DVR h, ps_OpenedAt = now,
      ps_StartedAt = (if hh_BytesDelta h > 0 then Some now else None), ps_UpdatedAt = now, ps_ClosedAt = None, ps_CloseReason = None\<rparr>"

definition opened :: "PlaySession \<Rightarrow> Tracker \<Rightarrow> Tracker" where
  "opened s t = t\<lparr>tk_sessions := gput (ps_ID s) s (tk_sessions t), tk_openedTotal := tk_openedTotal t + 1,
     tk_events := tk_events t @ [EventSessionOpened s]\<rparr>"

definition TrackHTTP :: "(string \<Rightarrow> string) \<Rightarrow> (string \<Rightarrow> string) \<Rightarrow> HTTPHit \<Rightarrow> time \<Rightarrow> Tracker \<Rightarrow> PlaySession option \<times> Tracker" where
  "TrackHTTP sha geo h now t =
     (if \<not> rc_enabled (tk_cfg t) then (None, t)
      else
        let id' = fingerprintID sha (hh_StreamCode h) (hh_Protocol h) (hh_DVR h) (hh_IP h) (hh_UserAgent h) (hh_Token h) in
        case gget (tk_sessions t) id' of
          None \<Rightarrow> let s = openHTTP geo id' h now in (Some s, opened s t)
        | Some s \<Rightarrow>
            let s1 = (if hh_BytesDelta h > 0
                      then s\<lparr>ps_Bytes := ps_Bytes s + hh_BytesDelta h,
                             ps_StartedAt := (case ps_StartedAt s of None \<Rightarrow> Some now | Some x \<Rightarrow> Some x)\<rparr>
                      else s);
                s2 = s1\<lparr>ps_UpdatedAt := now\<rparr>
            in (Some s2, t\<lparr>tk_sessions := gput id' s2 (tk_sessions t)\<rparr>))"

text \<open>\<open>uuid\<close> is the new identifier, \<open>uuid_hex\<close> the same without dashes.\<close>

definition OpenConn :: "(string \<Rightarrow> string) \<Rightarrow> string \<Rightarrow> string \<Rightarrow> ConnHit \<Rightarrow> time \<Rightarrow> Tracker \<Rightarrow> PlaySession option \<times> Tracker" where
  "OpenConn geo uuid uuid_hex h now t =
     (if \<not> rc_enabled (tk_cfg t) then (None, t)
      else
        let ip = stripPort (ch_RemoteAddr h);
            s = \<lparr>ps_ID = uuid, ps_StreamCode = ch_StreamCode h, ps_Protocol = ch_Protocol h, ps_IP = ip, ps_UserAgent = ch_UserAgent h,
                 ps_Referer = [], ps_QueryString = [], ps_Token = ch_Token h,
                 ps_UserName = (if ch_Token h \<noteq> [] then ch_Token h else shortFingerprintLabel uuid_hex),
                 ps_NamedBy = (if ch_Token h \<noteq> [] then SessionNamedByToken else SessionNamedByFingerprint),
                 ps_Country = geo ip, ps_Bytes = 0, ps_Secure = ch_Secure h, ps_DVR = False, ps_OpenedAt = now,
                 ps_StartedAt = Some now, ps_UpdatedAt = now, ps_ClosedAt = None, ps_CloseReason = None\<rparr>
        in (Some s, opened s t))"

definition closeByID :: "string \<Rightarrow> SessionCloseReason \<Rightarrow> int \<Rightarrow> time \<Rightarrow> Tracker \<Rightarrow> Tracker" where
  "closeByID id' reason addBytes now t =
     (case gget (tk_sessions t) id' of
        None \<Rightarrow> t
      | Some s \<Rightarrow>
          if ps_ClosedAt s \<noteq> None then t
          else
            let s1 = (if addBytes > 0 then s\<lparr>ps_Bytes := ps_Bytes s + addBytes\<rparr> else s);
                s2 = s1\<lparr>ps_ClosedAt := Some now, ps_CloseReason := Some reason, ps_UpdatedAt := now\<rparr>
            in t\<lparr>tk_sessions := gdel id' (tk_sessions t), tk_closedTotal := tk_closedTotal t + 1,
                 tk_idleClosedTotal := tk_idleClosedTotal t + (if reason = SessionCloseIdle then 1 else 0),
                 tk_kickedTotal := tk_kickedTotal t + (if reason = SessionCloseKicked then 1 else 0),
                 tk_events := tk_events t @ [EventSessionClosed s2]\<rparr>)"

definition touchByID :: "string \<Rightarrow> int \<Rightarrow> time \<Rightarrow> Tracker \<Rightarrow> Tracker" where
  "touchByID id' addBytes now t =
     (case gget (tk_sessions t) id' of
        None \<Rightarrow> t
      | Some s \<Rightarrow>
          if ps_ClosedAt s \<noteq> None then t
          else t\<lparr>tk_sessions := gput id' (s\<lparr>ps_UpdatedAt := now, ps_Bytes := (if addBytes > 0 then ps_Bytes s + addBytes else ps_Bytes s)\<rparr>)
                 (tk_sessions t)\<rparr>)"

text \<open>\<^verbatim>\<open>Kick\<close>: it answers true as soon as it has seen the session.\<close>

definition kick_look :: "string \<Rightarrow> Tracker \<Rightarrow> bool \<times> Tracker" where
  "kick_look id' t = (if gget (tk_sessions t) id' = None then (False, t) else (True, t\<lparr>tk_kicks := tk_kicks t @ [id']\<rparr>))"

definition kick_close :: "time \<Rightarrow> Tracker \<Rightarrow> Tracker" where
  "kick_close now t = (case tk_kicks t of [] \<Rightarrow> t | i # is' \<Rightarrow> closeByID i SessionCloseKicked 0 now (t\<lparr>tk_kicks := is'\<rparr>))"

subsection \<open>The reaper\<close>

definition reaperTick :: "duration \<Rightarrow> duration" where
  "reaperTick idle =
     (let t0 = idle div 3; t1 = (if t0 > seconds 5 then seconds 5 else t0)
      in if t1 < seconds 1 then seconds 1 else t1)"

definition verdict :: "runtimeConfig \<Rightarrow> time \<Rightarrow> PlaySession \<Rightarrow> SessionCloseReason option" where
  "verdict cfg now s =
     (if ps_ClosedAt s \<noteq> None then None
      else if ps_UpdatedAt s < now - rc_idleDur cfg then Some SessionCloseIdle
      else if rc_maxAlive cfg > 0 \<and> ps_OpenedAt s < now - rc_maxAlive cfg then Some SessionCloseMaxLifetime
      else None)"

text \<open>The snapshot of a sweep, one close, and a sweep nothing interrupts. A disabled tracker does not sweep.\<close>

definition reap_look :: "time \<Rightarrow> Tracker \<Rightarrow> Tracker" where
  "reap_look now t =
     (if rc_enabled (tk_cfg t)
      then t\<lparr>tk_victims := List.map_filter (\<lambda>(i, s). map_option (Pair i) (verdict (tk_cfg t) now s)) (tk_sessions t)\<rparr>
      else t)"

definition reap_close :: "time \<Rightarrow> Tracker \<Rightarrow> Tracker" where
  "reap_close now t = (case tk_victims t of [] \<Rightarrow> t | (i, r) # vs \<Rightarrow> closeByID i r 0 now (t\<lparr>tk_victims := vs\<rparr>))"

definition sessions_reapOnce :: "time \<Rightarrow> Tracker \<Rightarrow> Tracker" where
  "sessions_reapOnce now t = (let t1 = reap_look now t in (reap_close now ^^ length (tk_victims t1)) t1)"

definition shutdownActiveSessions :: "time \<Rightarrow> Tracker \<Rightarrow> Tracker" where
  "shutdownActiveSessions now t = fold (\<lambda>i. closeByID i SessionCloseShutdown 0 now) (gkeys (tk_sessions t)) t"

subsection \<open>Queries\<close>

datatype FilterStatus = FilterStatusAny | FilterStatusActive | FilterStatusClosed

record Filter =
  fi_StreamCode :: string
  fi_Protocol :: "SessionProto option"
  fi_Status :: FilterStatus
  fi_Limit :: int

definition filter_matches :: "Filter \<Rightarrow> PlaySession \<Rightarrow> bool" where
  "filter_matches f s =
     (if fi_StreamCode f \<noteq> [] \<and> ps_StreamCode s \<noteq> fi_StreamCode f then False
      else if (case fi_Protocol f of None \<Rightarrow> False | Some p \<Rightarrow> ps_Protocol s \<noteq> p) then False
      else case fi_Status f of
          FilterStatusActive \<Rightarrow> ps_ClosedAt s = None
        | FilterStatusClosed \<Rightarrow> ps_ClosedAt s \<noteq> None
        | FilterStatusAny \<Rightarrow> True)"

text \<open>The comparison the list is sorted by.\<close>

datatype SessionKey = SessionKey (sk_opened: time) (sk_id: string)

instantiation SessionKey :: linorder
begin

definition less_SessionKey :: "SessionKey \<Rightarrow> SessionKey \<Rightarrow> bool" where
  "less_SessionKey a b = (if sk_opened a = sk_opened b then sk_id a < sk_id b else sk_opened a < sk_opened b)"

definition less_eq_SessionKey :: "SessionKey \<Rightarrow> SessionKey \<Rightarrow> bool" where
  "less_eq_SessionKey a b = (a < b \<or> a = b)"

instance
proof
  fix x y :: SessionKey
  show "x \<le> y \<or> y \<le> x"
    using less_linear [of "sk_id x" "sk_id y"] by (auto simp: less_SessionKey_def less_eq_SessionKey_def SessionKey.expand)
qed (auto simp: less_SessionKey_def less_eq_SessionKey_def SessionKey.expand split: if_splits)

end

definition session_key :: "PlaySession \<Rightarrow> SessionKey" where
  "session_key s = SessionKey (ps_OpenedAt s) (ps_ID s)"

definition session_List :: "Filter \<Rightarrow> Tracker \<Rightarrow> PlaySession list" where
  "session_List f t =
     (let out = sort_key session_key (filter (filter_matches f) (map snd (tk_sessions t)))
      in if fi_Limit f > 0 \<and> int (length out) > fi_Limit f then take (nat (fi_Limit f)) out else out)"

definition session_Get :: "string \<Rightarrow> Tracker \<Rightarrow> PlaySession option" where
  "session_Get i t = gget (tk_sessions t) i"

record Stats =
  st_Active :: nat
  st_OpenedTotal :: int
  st_ClosedTotal :: int
  st_IdleClosedTotal :: int
  st_KickedTotal :: int

definition session_Stats :: "Tracker \<Rightarrow> Stats" where
  "session_Stats t = \<lparr>st_Active = length (tk_sessions t), st_OpenedTotal = tk_openedTotal t, st_ClosedTotal = tk_closedTotal t,
     st_IdleClosedTotal = tk_idleClosedTotal t, st_KickedTotal = tk_kickedTotal t\<rparr>"

subsection \<open>The HTTP middleware\<close>

definition protocolForPath :: "string \<Rightarrow> SessionProto option" where
  "protocolForPath p =
     (let e = ToLower (Ext p) in
      if e = ''.m3u8'' \<or> e = ''.ts'' then Some SessionProtoHLS
      else if e = ''.mpd'' \<or> e = ''.m4s'' \<or> e = ''.mp4'' then Some SessionProtoDASH
      else None)"

definition streamCodeFromPath :: "string \<Rightarrow> string" where
  "streamCodeFromPath p0 =
     (let p = TrimPrefix_slash p0 in
      case cut_last (CHR ''/'') p of
        None \<Rightarrow> []
      | Some (code, _) \<Rightarrow>
          if code = [] then []
          else (case cut_last (CHR ''/'') code of
              None \<Rightarrow> code
            | Some (h, t) \<Rightarrow> if h \<noteq> [] \<and> isABRTrackSlug t then h else code))"

text \<open>What the middleware reads of a request, and of the response: the status (0 if none was sent) and the bytes written.\<close>

record HTTPRequest =
  hr_Path :: string
  hr_XFF :: string
  hr_XRI :: string
  hr_RemoteAddr :: string
  hr_UserAgent :: string
  hr_Referer :: string
  hr_RawQuery :: string
  hr_query :: "(string \<times> string) list"
  hr_TLS :: bool

definition NewHTTPHit :: "HTTPRequest \<Rightarrow> string \<Rightarrow> SessionProto \<Rightarrow> int \<Rightarrow> HTTPHit" where
  "NewHTTPHit r code proto bytesDelta =
     \<lparr>hh_StreamCode = code, hh_Protocol = proto, hh_IP = clientIP (hr_XFF r) (hr_XRI r) (hr_RemoteAddr r),
      hh_UserAgent = hr_UserAgent r, hh_Referer = hr_Referer r, hh_Query = hr_RawQuery r,
      hh_Token = TrimSpace (case gget (hr_query r) ''token'' of Some v \<Rightarrow> v | None \<Rightarrow> []),
      hh_Secure = hr_TLS r, hh_BytesDelta = bytesDelta, hh_DVR = False\<rparr>"

definition isDVRPlayback :: "HTTPRequest \<Rightarrow> bool" where
  "isDVRPlayback r = list_ex (\<lambda>k. gget (hr_query r) k \<noteq> None) [''from'', ''delay'', ''dur'', ''ago'']"

definition HTTPMiddleware ::
  "(string \<Rightarrow> string) \<Rightarrow> (string \<Rightarrow> string) \<Rightarrow> HTTPRequest \<Rightarrow> int \<Rightarrow> int \<Rightarrow> time \<Rightarrow> Tracker \<Rightarrow> Tracker" where
  "HTTPMiddleware sha geo r status written now t =
     (case protocolForPath (hr_Path r) of
        None \<Rightarrow> t
      | Some proto \<Rightarrow>
          let code = streamCodeFromPath (hr_Path r) in
          if code = [] then t
          else
            let delta = (if status \<ge> 200 \<and> status < 300 then written else 0);
                hit = NewHTTPHit r code proto delta;
                hit1 = (if isDVRPlayback r then hit\<lparr>hh_DVR := True\<rparr> else hit)
            in snd (TrackHTTP sha geo hit1 now t))"

subsection \<open>The country database\<close>

text \<open>
  Resolvers are numbered, \<open>0\<close> being the null resolver, which has nothing to close. A lookup loads the current
  resolver, then asks it; \<open>gs_loaded\<close> holds what each goroutine has loaded.
\<close>

record SwappableGeoIP =
  gs_current :: "nat option"
  gs_closed :: "nat list"
  gs_loaded :: "(nat \<times> nat option) list"

definition geo_load :: "nat \<Rightarrow> SwappableGeoIP \<Rightarrow> SwappableGeoIP" where
  "geo_load w g = g\<lparr>gs_loaded := gput w (gs_current g) (gs_loaded g)\<rparr>"

definition geo_Country :: "(nat \<Rightarrow> string \<Rightarrow> string) \<Rightarrow> nat \<Rightarrow> string \<Rightarrow> SwappableGeoIP \<Rightarrow> string \<times> bool" where
  "geo_Country db w ip g =
     (case gget (gs_loaded g) w of
        Some (Some r) \<Rightarrow> (db r ip, r \<in> set (gs_closed g))
      | _ \<Rightarrow> ([], False))"

definition close_resolver :: "nat option \<Rightarrow> SwappableGeoIP \<Rightarrow> SwappableGeoIP" where
  "close_resolver old g = (case old of Some r \<Rightarrow> if r = 0 then g else g\<lparr>gs_closed := gs_closed g @ [r]\<rparr> | None \<Rightarrow> g)"

definition geo_Set :: "nat option \<Rightarrow> SwappableGeoIP \<Rightarrow> SwappableGeoIP" where
  "geo_Set r g = (case r of None \<Rightarrow> g | Some n \<Rightarrow> close_resolver (gs_current g) (g\<lparr>gs_current := Some n\<rparr>))"

definition geo_Close :: "SwappableGeoIP \<Rightarrow> SwappableGeoIP" where
  "geo_Close g = close_resolver (gs_current g) (g\<lparr>gs_current := None\<rparr>)"

text \<open>\<^verbatim>\<open>maybeReloadGeoIP\<close>; \<open>openDB\<close> is the number of the resolver made for a path, if the file opens.\<close>

definition maybeReloadGeoIP :: "(string \<Rightarrow> nat option) \<Rightarrow> string \<Rightarrow> string \<times> SwappableGeoIP \<Rightarrow> string \<times> SwappableGeoIP" where
  "maybeReloadGeoIP openDB newPath g =
     (if newPath = fst g then g
      else if newPath = [] then ([], geo_Set (Some 0) (snd g))
      else case openDB newPath of
          None \<Rightarrow> g
        | Some r \<Rightarrow> (newPath, geo_Set (Some r) (snd g)))"

subsection \<open>Steps\<close>

text \<open>The uuid of a new connection is not in use; everything else is up to the callers and the clock.\<close>

inductive session_step :: "(string \<Rightarrow> string) \<Rightarrow> (string \<Rightarrow> string) \<Rightarrow> Tracker \<Rightarrow> Tracker \<Rightarrow> bool" for sha geo where
  hit: "session_step sha geo t (snd (TrackHTTP sha geo h now t))"
| conn: "gget (tk_sessions t) uuid = None \<Longrightarrow> session_step sha geo t (snd (OpenConn geo uuid uuid_hex h now t))"
| closer: "session_step sha geo t (closeByID i reason n now t)"
| touch: "session_step sha geo t (touchByID i n now t)"
| kick: "session_step sha geo t (snd (kick_look i t))"
| kicked: "session_step sha geo t (kick_close now t)"
| sweep: "session_step sha geo t (reap_look now t)"
| reap: "session_step sha geo t (reap_close now t)"
| config: "session_step sha geo t (t\<lparr>tk_cfg := applyConfig cfg\<rparr>)"

inductive session_reachable :: "(string \<Rightarrow> string) \<Rightarrow> (string \<Rightarrow> string) \<Rightarrow> Tracker \<Rightarrow> bool" for sha geo where
  start: "session_reachable sha geo (newTracker cfg)"
| step: "session_reachable sha geo t \<Longrightarrow> session_step sha geo t t' \<Longrightarrow> session_reachable sha geo t'"

inductive_cases session_stepE: "session_step sha geo t t'"

definition opened_ids :: "SessionEvent list \<Rightarrow> string list" where
  "opened_ids es = List.map_filter (\<lambda>e. case e of EventSessionOpened s \<Rightarrow> Some (ps_ID s) | EventSessionClosed s \<Rightarrow> None) es"

definition closed_ids :: "SessionEvent list \<Rightarrow> string list" where
  "closed_ids es = List.map_filter (\<lambda>e. case e of EventSessionOpened s \<Rightarrow> None | EventSessionClosed s \<Rightarrow> Some (ps_ID s)) es"

definition sessions_ok :: "Tracker \<Rightarrow> bool" where
  "sessions_ok t \<longleftrightarrow> gwf (tk_sessions t) \<and> (\<forall>i s. gget (tk_sessions t) i = Some s \<longrightarrow> ps_ID s = i \<and> ps_ClosedAt s = None) \<and>
     tk_openedTotal t = int (length (opened_ids (tk_events t))) \<and> tk_closedTotal t = int (length (closed_ids (tk_events t))) \<and>
     0 \<le> tk_idleClosedTotal t \<and> 0 \<le> tk_kickedTotal t \<and> tk_idleClosedTotal t + tk_kickedTotal t \<le> tk_closedTotal t \<and>
     mset (opened_ids (tk_events t)) = mset (closed_ids (tk_events t)) + mset (gkeys (tk_sessions t))"

lemma ids_snoc [simp]:
  "opened_ids (es @ [EventSessionOpened s]) = opened_ids es @ [ps_ID s]" "closed_ids (es @ [EventSessionOpened s]) = closed_ids es"
  "opened_ids (es @ [EventSessionClosed s]) = opened_ids es" "closed_ids (es @ [EventSessionClosed s]) = closed_ids es @ [ps_ID s]"
  by (simp_all add: opened_ids_def closed_ids_def map_filter_def)

lemma gkeys_update: "gget m k = Some v \<Longrightarrow> gkeys (gput k w m) = gkeys m"
  using gget_key [of m k v] by (simp add: update_keys)

lemma gkeys_new: "gget m k = None \<Longrightarrow> gkeys (gput k w m) = gkeys m @ [k]"
  using gkeys_gget [of k m] by (simp add: update_keys)

lemma gkeys_remove: "gwf m \<Longrightarrow> gget m k = Some v \<Longrightarrow> mset (gkeys m) = add_mset k (mset (gkeys (gdel k m)))"
proof -
  assume g: "gwf m" "gget m k = Some v"
  have "gkeys (gdel k m) = remove1 k (gkeys m)" using g(1) by (simp add: delete_keys distinct_remove1_removeAll removeAll_filter_not_eq eq_commute)
  then show ?thesis using gget_key [OF g(2)] by simp
qed

lemma opened_ok: "sessions_ok t \<Longrightarrow> gget (tk_sessions t) (ps_ID s) = None \<Longrightarrow> ps_ClosedAt s = None \<Longrightarrow> sessions_ok (opened s t)"
  by (auto simp: sessions_ok_def opened_def gkeys_new gget_gput)

lemma update_ok:
  "sessions_ok t \<Longrightarrow> gget (tk_sessions t) i = Some s \<Longrightarrow> ps_ID s' = i \<Longrightarrow> ps_ClosedAt s' = None \<Longrightarrow>
     sessions_ok (t\<lparr>tk_sessions := gput i s' (tk_sessions t)\<rparr>)"
  by (auto simp: sessions_ok_def gkeys_update gget_gput)

lemma fields_ok [simp]:
  "sessions_ok (t\<lparr>tk_cfg := c\<rparr>) = sessions_ok t" "sessions_ok (t\<lparr>tk_victims := v\<rparr>) = sessions_ok t"
  "sessions_ok (t\<lparr>tk_kicks := k\<rparr>) = sessions_ok t"
  by (simp_all add: sessions_ok_def)

lemma close_ok: "sessions_ok t \<Longrightarrow> sessions_ok (closeByID i r n now t)"
  by (auto simp: closeByID_def sessions_ok_def gkeys_remove gget_gdel Let_def simp del: mset_map split: option.split)

lemma hit_ok: "sessions_ok t \<Longrightarrow> sessions_ok (snd (TrackHTTP sha geo h now t))"
proof -
  assume ok: "sessions_ok t"
  let ?i = "fingerprintID sha (hh_StreamCode h) (hh_Protocol h) (hh_DVR h) (hh_IP h) (hh_UserAgent h) (hh_Token h)"
  show ?thesis
  proof (cases "gget (tk_sessions t) ?i")
    case None
    then show ?thesis using ok by (simp add: TrackHTTP_def Let_def opened_ok openHTTP_def)
  next
    case (Some s)
    then have "ps_ID s = ?i" "ps_ClosedAt s = None" using ok by (simp_all add: sessions_ok_def)
    then show ?thesis using ok Some by (simp add: TrackHTTP_def Let_def update_ok)
  qed
qed

lemma touch_ok: "sessions_ok t \<Longrightarrow> sessions_ok (touchByID i n now t)"
  by (cases "gget (tk_sessions t) i") (auto simp: touchByID_def sessions_ok_def gkeys_update gget_gput)

lemma step_ok: "session_step sha geo t t' \<Longrightarrow> sessions_ok t \<Longrightarrow> sessions_ok t'"
  by (elim session_stepE)
    (auto simp: hit_ok close_ok touch_ok opened_ok OpenConn_def kick_look_def kick_close_def reap_look_def reap_close_def Let_def
      split: list.split prod.split)

lemma reachable_ok: "session_reachable sha geo t \<Longrightarrow> sessions_ok t"
  by (induction rule: session_reachable.induct)
    (auto simp: newTracker_def sessions_ok_def opened_ids_def closed_ids_def map_filter_def dest: step_ok intro: step_ok)

subsection \<open>Properties\<close>

text \<open>
  C20: Every session that was opened is either active or was closed exactly once. Whatever requests, connections, touches, kicks,
  sweeps and configuration changes happened, the opened total is the active count plus the closed total, the identifiers
  of the opened events are those of the closed events and of the active sessions, with multiplicity, and the idle and kicked totals
  never exceed the closed total.
\<close>

theorem sessions_are_accounted_for:
  assumes "session_reachable sha geo t"
  shows "st_OpenedTotal (session_Stats t) = int (st_Active (session_Stats t)) + st_ClosedTotal (session_Stats t) \<and>
     mset (opened_ids (tk_events t)) = mset (closed_ids (tk_events t)) + mset (gkeys (tk_sessions t)) \<and>
     st_IdleClosedTotal (session_Stats t) + st_KickedTotal (session_Stats t) \<le> st_ClosedTotal (session_Stats t) \<and>
     distinct (gkeys (tk_sessions t))"
proof -
  have ok: "sessions_ok t" by (rule reachable_ok [OF assms])
  then have "length (opened_ids (tk_events t)) = length (closed_ids (tk_events t)) + length (gkeys (tk_sessions t))"
    unfolding sessions_ok_def by (metis size_mset size_union)
  then show ?thesis using ok by (simp add: sessions_ok_def session_Stats_def)
qed

definition a_hit :: "string \<Rightarrow> int \<Rightarrow> HTTPHit" where
  "a_hit ip n = \<lparr>hh_StreamCode = ''live'', hh_Protocol = SessionProtoHLS, hh_IP = ip, hh_UserAgent = [], hh_Referer = [], hh_Query = [],
     hh_Token = [], hh_Secure = False, hh_BytesDelta = n, hh_DVR = False\<rparr>"

definition a_cfg :: SessionsConfig where
  "a_cfg = \<lparr>sc_Enabled = True, sc_IdleTimeoutSec = 30, sc_MaxLifetimeSec = 0\<rparr>"

theorem sessions_are_accounted_for_witness:
  "\<exists>t. session_reachable rev (\<lambda>_. []) t \<and> session_Stats t =
     \<lparr>st_Active = 1, st_OpenedTotal = 2, st_ClosedTotal = 1, st_IdleClosedTotal = 0, st_KickedTotal = 1\<rparr> \<and>
     mset (opened_ids (tk_events t)) = mset (closed_ids (tk_events t)) + mset (gkeys (tk_sessions t))"
proof -
  let ?c = "\<lparr>ch_StreamCode = ''live'', ch_Protocol = SessionProtoRTMP, ch_RemoteAddr = ''1.2.3.4:5'', ch_UserAgent = [], ch_Token = [], ch_Secure = False\<rparr>"
  let ?t1 = "snd (TrackHTTP rev (\<lambda>_. []) (a_hit ''9.9.9.9'' 10) 100 (newTracker a_cfg))"
  let ?t2 = "snd (OpenConn (\<lambda>_. []) ''u-1'' ''u1'' ?c 101 ?t1)"
  let ?t3 = "closeByID ''u-1'' SessionCloseKicked 7 102 ?t2"
  have f: "gget (tk_sessions ?t1) ''u-1'' = None" by code_simp
  have "session_reachable rev (\<lambda>_. []) ?t1" by (rule session_reachable.step [OF session_reachable.start session_step.hit])
  then have "session_reachable rev (\<lambda>_. []) ?t2" by (rule session_reachable.step [OF _ session_step.conn [OF f]])
  then have r: "session_reachable rev (\<lambda>_. []) ?t3" by (rule session_reachable.step [OF _ session_step.closer])
  have "session_Stats ?t3 = \<lparr>st_Active = 1, st_OpenedTotal = 2, st_ClosedTotal = 1, st_IdleClosedTotal = 0, st_KickedTotal = 1\<rparr>" by code_simp
  with sessions_are_accounted_for [OF r] r show ?thesis by blast
qed

lemma session_list_sorted: "sorted (map session_key (session_List f t))"
  by (simp add: session_List_def Let_def sorted_wrt_take take_map [symmetric])

text \<open>
  The list of sessions does not depend on the order of the map. Two trackers with the same sessions, in whatever
  order their maps are iterated, answer every query with the same list, which is sorted by opening time, then by
  identifier, and holds only sessions the filter matches.
\<close>

theorem session_list_ignores_map_order:
  assumes "session_reachable sha geo t" and "mset (tk_sessions t') = mset (tk_sessions t)"
  shows "session_List f t' = session_List f t \<and> sorted (map session_key (session_List f t)) \<and>
     list_all (filter_matches f) (session_List f t)"
proof -
  have ok: "sessions_ok t" by (rule reachable_ok [OF assms(1)])
  let ?m = "\<lambda>t. filter (filter_matches f) (map snd (tk_sessions t))"
  have m: "mset (?m t') = mset (?m t)" using assms(2) by simp
  have "inj_on session_key (set (?m t))"
  proof (rule inj_onI)
    fix x y assume "x \<in> set (?m t)" "y \<in> set (?m t)" "session_key x = session_key y"
    then obtain i j where "(i, x) \<in> set (tk_sessions t)" "(j, y) \<in> set (tk_sessions t)" "ps_ID x = ps_ID y"
      by (auto simp: session_key_def)
    then show "x = y" using ok unfolding sessions_ok_def by (metis gwf_mem_gget option.inject)
  qed
  then have "sort_key session_key (?m t') = sort_key session_key (?m t)"
    using m mset_eq_setD [OF m] by (intro sort_key_inj_key_eq) simp_all
  then have "session_List f t' = session_List f t" by (simp add: session_List_def)
  moreover have "list_all (filter_matches f) (session_List f t)"
    by (auto simp: session_List_def Let_def list_all_iff dest: in_set_takeD)
  ultimately show ?thesis using session_list_sorted by blast
qed

theorem session_list_ignores_map_order_witness:
  "\<exists>t t' a b. session_reachable id (\<lambda>_. []) t \<and> tk_sessions t = [a, b] \<and> tk_sessions t' = [b, a] \<and>
     session_List \<lparr>fi_StreamCode = [], fi_Protocol = None, fi_Status = FilterStatusAny, fi_Limit = 1\<rparr> t' = [snd b] \<and>
     session_List \<lparr>fi_StreamCode = [], fi_Protocol = None, fi_Status = FilterStatusAny, fi_Limit = 1\<rparr> t = [snd b]"
proof -
  let ?c = "\<lambda>u. \<lparr>ch_StreamCode = u, ch_Protocol = SessionProtoRTMP, ch_RemoteAddr = ''1.2.3.4:5'', ch_UserAgent = [], ch_Token = [], ch_Secure = False\<rparr>"
  let ?f = "\<lparr>fi_StreamCode = [], fi_Protocol = None, fi_Status = FilterStatusAny, fi_Limit = 1\<rparr>"
  let ?t1 = "snd (OpenConn (\<lambda>_. []) ''u2'' ''u2'' (?c ''x'') 102 (newTracker a_cfg))"
  let ?t = "snd (OpenConn (\<lambda>_. []) ''u1'' ''u1'' (?c ''y'') 101 ?t1)"
  let ?t' = "?t\<lparr>tk_sessions := rev (tk_sessions ?t)\<rparr>"
  have f: "gget (tk_sessions (newTracker a_cfg)) ''u2'' = None" "gget (tk_sessions ?t1) ''u1'' = None" by code_simp+
  have "session_reachable id (\<lambda>_. []) ?t1" by (rule session_reachable.step [OF session_reachable.start session_step.conn [OF f(1)]])
  then have r: "session_reachable id (\<lambda>_. []) ?t" by (rule session_reachable.step [OF _ session_step.conn [OF f(2)]])
  have l: "length (tk_sessions ?t) = 2" "session_List ?f ?t = [snd (tk_sessions ?t ! 1)]" by code_simp+
  have e: "tk_sessions ?t = [tk_sessions ?t ! 0, tk_sessions ?t ! 1]"
    using l(1) by (metis One_nat_def Suc_1 Cons_nth_drop_Suc drop0 drop_all le_refl lessI zero_less_Suc)
  have "mset (tk_sessions ?t') = mset (tk_sessions ?t)" by simp
  from session_list_ignores_map_order [OF r this, of ?f] l(2) have "session_List ?f ?t' = [snd (tk_sessions ?t ! 1)]" by simp
  moreover have "tk_sessions ?t' = [tk_sessions ?t ! 1, tk_sessions ?t ! 0]" using arg_cong [OF e, of rev] by simp
  ultimately show ?thesis using r l(2) e by blast
qed

definition close_note :: "SessionEvent \<Rightarrow> (string \<times> SessionCloseReason) option" where
  "close_note e = (case e of EventSessionOpened s \<Rightarrow> None | EventSessionClosed s \<Rightarrow> map_option (Pair (ps_ID s)) (ps_CloseReason s))"

lemma sweep_run:
  assumes "tk_victims t = vs" and "distinct (map fst vs)"
    and "\<forall>v \<in> set vs. \<exists>s. gget (tk_sessions t) (fst v) = Some s \<and> ps_ClosedAt s = None \<and> ps_ID s = fst v"
  shows "(\<forall>i. gget (tk_sessions ((reap_close now ^^ length vs) t)) i = (if i \<in> fst ` set vs then None else gget (tk_sessions t) i)) \<and>
     (\<exists>es. tk_events ((reap_close now ^^ length vs) t) = tk_events t @ es \<and> map close_note es = map Some vs)"
  using assms
proof (induction vs arbitrary: t)
  case (Cons v vs)
  obtain s where s: "gget (tk_sessions t) (fst v) = Some s" "ps_ClosedAt s = None" "ps_ID s = fst v" using Cons.prems(3) by auto
  let ?t = "reap_close now t"
  have t: "tk_victims ?t = vs" "tk_sessions ?t = gdel (fst v) (tk_sessions t)"
      "\<exists>e. tk_events ?t = tk_events t @ [e] \<and> close_note e = Some v"
    using Cons.prems(1) s
    by (auto simp: reap_close_def closeByID_def Let_def close_note_def split: prod.split)
  have "(\<forall>i. gget (tk_sessions ((reap_close now ^^ length vs) ?t)) i = (if i \<in> fst ` set vs then None else gget (tk_sessions ?t) i)) \<and>
     (\<exists>es. tk_events ((reap_close now ^^ length vs) ?t) = tk_events ?t @ es \<and> map close_note es = map Some vs)"
    using Cons.prems(2,3) by (intro Cons.IH t(1)) (auto simp: t(2) gget_gdel image_iff)
  then obtain es where r: "\<forall>i. gget (tk_sessions ((reap_close now ^^ length vs) ?t)) i = (if i \<in> fst ` set vs then None else gget (tk_sessions ?t) i)"
      "tk_events ((reap_close now ^^ length vs) ?t) = tk_events ?t @ es" "map close_note es = map Some vs" by blast
  obtain e where "tk_events ?t = tk_events t @ [e]" "close_note e = Some v" using t(3) by blast
  then have "tk_events ((reap_close now ^^ length vs) ?t) = tk_events t @ e # es \<and> map close_note (e # es) = map Some (v # vs)"
    using r(2,3) by simp
  moreover have "(reap_close now ^^ length (v # vs)) t = (reap_close now ^^ length vs) ?t" by (simp add: funpow_swap1)
  ultimately show ?case using r(1) by (auto simp: t(2) gget_gdel)
qed simp

lemma due_keys:
  "map fst (List.map_filter (\<lambda>(i, s). map_option (Pair i) (verdict cfg now s)) m) =
     map fst (filter (\<lambda>x. verdict cfg now (snd x) \<noteq> None) m)"
  by (induction m) (auto simp: map_filter_simps)

text \<open>
  A sweep that nothing interrupts closes exactly the sessions that are due. In an enabled tracker a session stays
  if it was active within the idle window and is younger than the maximal lifetime (if there is one); every other one is
  removed and its closed event carries the reason.
\<close>

theorem sweep_closes_exactly_the_due:
  assumes "session_reachable sha geo t" and "rc_enabled (tk_cfg t)"
  shows "gget (tk_sessions (sessions_reapOnce now t)) i =
       (case gget (tk_sessions t) i of
          Some s \<Rightarrow> if now - rc_idleDur (tk_cfg t) \<le> ps_UpdatedAt s \<and>
                     (rc_maxAlive (tk_cfg t) \<le> 0 \<or> now - rc_maxAlive (tk_cfg t) \<le> ps_OpenedAt s) then Some s else None
        | None \<Rightarrow> None) \<and>
     (\<exists>es. tk_events (sessions_reapOnce now t) = tk_events t @ es \<and>
        map close_note es = map Some (List.map_filter (\<lambda>(i, s). map_option (Pair i) (verdict (tk_cfg t) now s)) (tk_sessions t)))"
proof -
  have ok: "sessions_ok t" by (rule reachable_ok [OF assms(1)])
  let ?f = "\<lambda>(i, s). map_option (Pair i) (verdict (tk_cfg t) now s)"
  let ?vs = "List.map_filter ?f (tk_sessions t)" and ?t = "reap_look now t"
  have look: "tk_victims ?t = ?vs" "tk_sessions ?t = tk_sessions t" "tk_events ?t = tk_events t"
    using assms(2) by (simp_all add: reap_look_def)
  have fst_vs: "map fst ?vs = map fst (filter (\<lambda>x. verdict (tk_cfg t) now (snd x) \<noteq> None) (tk_sessions t))"
    by (rule due_keys)
  have g: "gwf (tk_sessions t)" using ok by (simp add: sessions_ok_def)
  have "distinct (map fst ?vs)" unfolding fst_vs using g by (simp add: distinct_map_filter)
  moreover have mem: "v \<in> set ?vs \<Longrightarrow> \<exists>s. (fst v, s) \<in> set (tk_sessions t)" for v
    by (auto simp: map_filter_def split: prod.splits) blast
  then have "\<forall>v \<in> set ?vs. \<exists>s. gget (tk_sessions ?t) (fst v) = Some s \<and> ps_ClosedAt s = None \<and> ps_ID s = fst v"
    using ok g by (metis gwf_mem_gget look(2) sessions_ok_def)
  ultimately have run: "(\<forall>i. gget (tk_sessions (sessions_reapOnce now t)) i = (if i \<in> fst ` set ?vs then None else gget (tk_sessions t) i)) \<and>
     (\<exists>es. tk_events (sessions_reapOnce now t) = tk_events t @ es \<and> map close_note es = map Some ?vs)"
    using sweep_run [OF look(1), of now] by (simp add: sessions_reapOnce_def look Let_def)
  have "i \<in> fst ` set ?vs \<longleftrightarrow> (\<exists>s. gget (tk_sessions t) i = Some s \<and> verdict (tk_cfg t) now s \<noteq> None)"
    using arg_cong [OF fst_vs, of set] gwf_mem_gget [OF g] by (auto simp: image_iff)
  moreover have "verdict (tk_cfg t) now s = None \<longleftrightarrow> now - rc_idleDur (tk_cfg t) \<le> ps_UpdatedAt s \<and>
       (rc_maxAlive (tk_cfg t) \<le> 0 \<or> now - rc_maxAlive (tk_cfg t) \<le> ps_OpenedAt s)" if "gget (tk_sessions t) i = Some s" for s
  proof -
    have "ps_ClosedAt s = None" using ok that unfolding sessions_ok_def by blast
    then show ?thesis by (auto simp: verdict_def)
  qed
  ultimately show ?thesis using run by (auto split: option.split)
qed

theorem sweep_closes_exactly_the_due_witness:
  "\<exists>t i j. session_reachable rev (\<lambda>_. []) t \<and> session_Get i t \<noteq> None \<and> session_Get j t \<noteq> None \<and>
     session_Get i (sessions_reapOnce (seconds 60) t) = None \<and> session_Get j (sessions_reapOnce (seconds 60) t) = session_Get j t"
proof -
  let ?c = "\<lambda>u. \<lparr>ch_StreamCode = u, ch_Protocol = SessionProtoRTMP, ch_RemoteAddr = ''1.2.3.4:5'', ch_UserAgent = [], ch_Token = [], ch_Secure = False\<rparr>"
  let ?t1 = "snd (OpenConn (\<lambda>_. []) ''u2'' ''u2'' (?c ''x'') (seconds 2) (newTracker a_cfg))"
  let ?t = "snd (OpenConn (\<lambda>_. []) ''u1'' ''u1'' (?c ''y'') (seconds 40) ?t1)"
  have f: "gget (tk_sessions (newTracker a_cfg)) ''u2'' = None" "gget (tk_sessions ?t1) ''u1'' = None" by code_simp+
  have "session_reachable rev (\<lambda>_. []) ?t1" by (rule session_reachable.step [OF session_reachable.start session_step.conn [OF f(1)]])
  then have r: "session_reachable rev (\<lambda>_. []) ?t" by (rule session_reachable.step [OF _ session_step.conn [OF f(2)]])
  have e: "rc_enabled (tk_cfg ?t)" by code_simp
  have "session_Get ''u2'' ?t \<noteq> None \<and> session_Get ''u1'' ?t \<noteq> None \<and> session_Get ''u2'' (sessions_reapOnce (seconds 60) ?t) = None \<and>
      session_Get ''u1'' (sessions_reapOnce (seconds 60) ?t) = session_Get ''u1'' ?t"
    unfolding session_Get_def sweep_closes_exactly_the_due [OF r e, THEN conjunct1] by code_simp
  with r show ?thesis by blast
qed

definition same_viewer :: "HTTPHit \<Rightarrow> HTTPHit \<Rightarrow> bool" where
  "same_viewer g h \<longleftrightarrow> hh_StreamCode g = hh_StreamCode h \<and> hh_Protocol g = hh_Protocol h \<and> hh_DVR g = hh_DVR h \<and>
     ToLower (TrimSpace (hh_IP g)) = ToLower (TrimSpace (hh_IP h)) \<and> TrimSpace (hh_UserAgent g) = TrimSpace (hh_UserAgent h) \<and>
     TrimSpace (hh_Token g) = TrimSpace (hh_Token h)"

definition no_NUL :: "HTTPHit \<Rightarrow> bool" where
  "no_NUL h \<longleftrightarrow> NUL \<notin> set (hh_StreamCode h) \<and> NUL \<notin> set (hh_IP h) \<and> NUL \<notin> set (hh_UserAgent h) \<and> NUL \<notin> set (hh_Token h)"

definition hit_input :: "HTTPHit \<Rightarrow> string" where
  "hit_input h = fingerprint_input (hh_StreamCode h) (hh_Protocol h) (hh_DVR h) (hh_IP h) (hh_UserAgent h) (hh_Token h)"

lemma NUL_sep:
  assumes "NUL \<notin> set a" and "NUL \<notin> set b"
  shows "a @ NUL # x = b @ NUL # y \<longleftrightarrow> a = b \<and> x = y"
proof
  assume e: "a @ NUL # x = b @ NUL # y"
  have "cut_first NUL (a @ NUL # x) = Some (a, x)" "cut_first NUL (b @ NUL # y) = Some (b, y)"
    using assms cut_first_Some by blast+
  then show "a = b \<and> x = y" unfolding e by simp
qed simp

lemma NUL_trim: "NUL \<notin> set s \<Longrightarrow> NUL \<notin> set (TrimSpace s)"
  by (metis TrimSpace_def set_dropWhileD set_rev)

lemma NUL_lower: "NUL \<notin> set s \<Longrightarrow> NUL \<notin> set (ToLower s)"
proof -
  have "c = NUL" if "lower_char c = NUL" for c
  proof (cases "65 \<le> (of_char c :: nat) \<and> (of_char c :: nat) \<le> 90")
    case True
    then have "char_of (of_char c + 32 :: nat) = NUL" using that by (simp add: lower_char_def)
    then have "of_char (char_of (of_char c + 32 :: nat) :: char) = (of_char NUL :: nat)" by simp
    then have "(of_char c + 32 :: nat) mod 256 = 0" by (simp add: NUL_def)
    then show ?thesis using True by simp
  qed (use that in \<open>auto simp: lower_char_def\<close>)
  moreover assume "NUL \<notin> set s"
  ultimately show "NUL \<notin> set (ToLower s)" unfolding ToLower_def by (metis image_iff list.set_map)
qed

lemma dvr_byte: "CHR 0x01 \<noteq> NUL" "NUL \<noteq> CHR 0x01"
  by (simp_all add: NUL_def)

lemma proto_name_NUL: "NUL \<notin> set (proto_name p)" and proto_name_inj: "proto_name p = proto_name q \<longleftrightarrow> p = q"
  by (cases p; simp add: proto_name_def NUL_def) (cases p; cases q; simp add: proto_name_def)

lemma hit_input_inj:
  assumes "no_NUL g" and "no_NUL h"
  shows "hit_input g = hit_input h \<longleftrightarrow> same_viewer g h"
  using assms
  by (auto simp: hit_input_def fingerprint_input_def same_viewer_def no_NUL_def NUL_sep NUL_trim NUL_lower proto_name_NUL proto_name_inj
      dvr_byte split: if_splits)

text \<open>
  One viewer is one session. If the truncated hash does not collide on the two requests, a second request of the
  same viewer (stream, protocol, live or archive, address, agent and token) joins the session of the first, and one of
  another viewer opens a session of its own.
\<close>

theorem one_session_per_viewer:
  assumes "no_NUL g" and "no_NUL h" and "rc_enabled (tk_cfg t)" and "tk_sessions t = []"
    and "take fingerprintIDLen (sha (hit_input g)) = take fingerprintIDLen (sha (hit_input h)) \<Longrightarrow> hit_input g = hit_input h"
  shows "length (tk_sessions (snd (TrackHTTP sha geo h now' (snd (TrackHTTP sha geo g now t))))) = (if same_viewer g h then 1 else 2)"
proof -
  have "fingerprintID sha (hh_StreamCode g) (hh_Protocol g) (hh_DVR g) (hh_IP g) (hh_UserAgent g) (hh_Token g) =
      fingerprintID sha (hh_StreamCode h) (hh_Protocol h) (hh_DVR h) (hh_IP h) (hh_UserAgent h) (hh_Token h) \<longleftrightarrow> same_viewer g h"
    using assms(5) hit_input_inj [OF assms(1,2)] by (auto simp: fingerprintID_def hit_input_def)
  then show ?thesis using assms(3,4) by (auto simp: TrackHTTP_def Let_def opened_def openHTTP_def)
qed

theorem one_session_per_viewer_witness:
  "length (tk_sessions (snd (TrackHTTP (\<lambda>s. rev s) (\<lambda>_. []) (a_hit '' 9.9.9.9'' 5) 8 (snd (TrackHTTP rev (\<lambda>_. []) (a_hit ''9.9.9.9'' 5) 7 (newTracker a_cfg)))))) = 1"
proof -
  have n: "no_NUL (a_hit ''9.9.9.9'' 5)" "no_NUL (a_hit '' 9.9.9.9'' 5)" by code_simp+
  have e: "rc_enabled (tk_cfg (newTracker a_cfg))" "tk_sessions (newTracker a_cfg) = []" by code_simp+
  have "hit_input (a_hit ''9.9.9.9'' 5) = hit_input (a_hit '' 9.9.9.9'' 5)" "same_viewer (a_hit ''9.9.9.9'' 5) (a_hit '' 9.9.9.9'' 5)" by code_simp+
  with one_session_per_viewer [OF n e, of rev "\<lambda>_. []" 8 7] show ?thesis by simp
qed

subsection \<open>Behaviours the comments exclude\<close>

lemma reaperTick_bounds: "seconds 1 \<le> reaperTick idle \<and> reaperTick idle \<le> seconds 5"
  by (simp add: reaperTick_def Let_def)

lemma closed_filter_finds_nothing: "session_reachable sha geo t \<Longrightarrow> fi_Status f = FilterStatusClosed \<Longrightarrow> session_List f t = []"
proof -
  assume a: "session_reachable sha geo t" "fi_Status f = FilterStatusClosed"
  have "\<not> filter_matches f s" if s: "(i, s) \<in> set (tk_sessions t)" for i s
  proof -
    have "ps_ClosedAt s = None" using reachable_ok [OF a(1)] gwf_mem_gget s unfolding sessions_ok_def by metis
    then show ?thesis using a(2) by (simp add: filter_matches_def)
  qed
  then have "filter (filter_matches f) (map snd (tk_sessions t)) = []" by (auto simp: filter_empty_conv)
  then show ?thesis by (simp add: session_List_def Let_def)
qed

lemma disabled_tracker_never_reaps: "\<not> rc_enabled (tk_cfg t) \<Longrightarrow> tk_victims t = [] \<Longrightarrow> sessions_reapOnce now t = t"
  by (simp add: sessions_reapOnce_def reap_look_def)

lemma sweep_closes_a_session_just_used:
  "let c = \<lparr>ch_StreamCode = ''x'', ch_Protocol = SessionProtoRTMP, ch_RemoteAddr = ''1.2.3.4:5'', ch_UserAgent = [], ch_Token = [], ch_Secure = False\<rparr>;
       t = reap_look (seconds 60) (snd (OpenConn (\<lambda>_. []) ''u'' ''u'' c 0 (newTracker a_cfg)));
       t1 = touchByID ''u'' 9 (seconds 60) t
   in map_option ps_UpdatedAt (session_Get ''u'' t1) = Some (seconds 60) \<and> session_Get ''u'' (reap_close (seconds 60) t1) = None"
  by code_simp

lemma kick_answers_true_for_a_closed_session:
  "let c = \<lparr>ch_StreamCode = ''x'', ch_Protocol = SessionProtoRTMP, ch_RemoteAddr = ''1.2.3.4:5'', ch_UserAgent = [], ch_Token = [], ch_Secure = False\<rparr>;
       t = snd (OpenConn (\<lambda>_. []) ''u'' ''u'' c 0 (newTracker a_cfg));
       t1 = kick_close 2 (closeByID ''u'' SessionCloseClient 0 1 (snd (kick_look ''u'' t)))
   in fst (kick_look ''u'' t) \<and> tk_kickedTotal t1 = 0 \<and> tk_closedTotal t1 = 1"
  by code_simp

lemma lookup_uses_a_closed_database:
  "let g = geo_load 1 \<lparr>gs_current = Some 7, gs_closed = [], gs_loaded = []\<rparr>
   in snd (geo_Country (\<lambda>_ _. ''VN'') 1 ''1.2.3.4'' (geo_Set (Some 8) g))"
  by code_simp

end
