(* ===== verification/Go_Url.thy ===== *)
theory Go_Url
  imports Net_Text
begin

text \<open>
  What the code uses of Go's \<^verbatim>\<open>net/url\<close>: \<^verbatim>\<open>Parse\<close> with its error cases, and \<^verbatim>\<open>ParseQuery\<close>. Strings are byte
  lists; the parse error is not kept, only that there is one.
\<close>

abbreviation byte :: "char \<Rightarrow> nat" where "byte c \<equiv> of_char c"

definition is_alpha :: "char \<Rightarrow> bool" where
  "is_alpha c \<longleftrightarrow> 97 \<le> byte c \<and> byte c \<le> 122 \<or> 65 \<le> byte c \<and> byte c \<le> 90"

subsection \<open>Percent decoding\<close>

datatype EncMode = EncHost | EncZone | EncPath | EncUser | EncFragment | EncQuery

text \<open>\<^verbatim>\<open>!shouldEscape(c, encodeHost)\<close>: the ASCII bytes that may stand in a host as they are.\<close>

definition host_char :: "char \<Rightarrow> bool" where
  "host_char c \<longleftrightarrow> is_alpha c \<or> is_digit c \<or> c \<in> set ''-_.~!$&()*+,;=:[]<>'' \<or> byte c = 34 \<or> byte c = 39"

fun unescape :: "EncMode \<Rightarrow> string \<Rightarrow> string option" where
  "unescape m [] = Some []"
| "unescape m (c # s) =
     (if c = CHR ''%'' then
        (case s of
           a # b # s' \<Rightarrow>
             (case (hex_val a, hex_val b) of
                (Some x, Some y) \<Rightarrow>
                  let v = char_of (16 * x + y) :: char; is25 = (a = CHR ''2'' \<and> b = CHR ''5'') in
                  if m = EncHost \<and> x < 8 \<and> \<not> is25 then None
                  else if m = EncZone \<and> \<not> is25 \<and> byte v \<noteq> 32 \<and> \<not> host_char v then None
                  else map_option ((#) v) (unescape m s')
              | _ \<Rightarrow> None)
         | _ \<Rightarrow> None)
      else if (m = EncHost \<or> m = EncZone) \<and> byte c < 128 \<and> \<not> host_char c then None
      else map_option ((#) (if m = EncQuery \<and> c = CHR ''+'' then CHR '' '' else c)) (unescape m s))"

subsection \<open>URLs\<close>

record URL =
  u_Scheme :: string
  u_HasUser :: bool
  u_Host :: string
  u_Path :: string
  u_RawQuery :: string
  u_Fragment :: string

text \<open>\<^verbatim>\<open>getScheme\<close>: an error, or the scheme (empty when there is none) and the rest.\<close>

fun scheme_scan :: "bool \<Rightarrow> string \<Rightarrow> string \<Rightarrow> (string \<times> string) option option" where
  "scheme_scan start acc [] = Some None"
| "scheme_scan start acc (c # s) =
     (if is_alpha c then scheme_scan False (c # acc) s
      else if is_digit c \<or> c \<in> set ''+-.'' then if start then Some None else scheme_scan False (c # acc) s
      else if c = CHR '':'' then if start then None else Some (Some (rev acc, s))
      else Some None)"

definition getScheme :: "string \<Rightarrow> (string \<times> string) option" where
  "getScheme s = (case scheme_scan True [] s of
     None \<Rightarrow> None | Some None \<Rightarrow> Some ([], s) | Some (Some r) \<Rightarrow> Some r)"

definition validOptionalPort :: "string \<Rightarrow> bool" where
  "validOptionalPort p \<longleftrightarrow> p = [] \<or> hd p = CHR '':'' \<and> list_all is_digit (tl p)"

text \<open>\<^verbatim>\<open>netip.ParseAddr\<close> of what stands between brackets: an IPv6 address, perhaps with a non-empty zone.\<close>

definition bracket_addr :: "string \<Rightarrow> bool" where
  "bracket_addr h =
     (case cut_first (CHR ''%'') h of
        None \<Rightarrow> CHR '':'' \<in> set h \<and> parse_v6 h \<noteq> None
      | Some (a, zone) \<Rightarrow> CHR '':'' \<in> set a \<and> parse_v6 a \<noteq> None \<and> zone \<noteq> [])"

fun cut_25 :: "string \<Rightarrow> string \<Rightarrow> (string \<times> string) option" where
  "cut_25 acc [] = None"
| "cut_25 acc (c # s) = (if prefix ''%25'' (c # s) then Some (rev acc, c # s) else cut_25 (c # acc) s)"

definition parseHost :: "string \<Rightarrow> string option" where
  "parseHost host =
     (case cut_last (CHR ''['') host of
        Some (pre, _) \<Rightarrow>
          (case cut_last (CHR '']'') host of
             None \<Rightarrow> None
           | Some (left, colonPort) \<Rightarrow>
               if \<not> validOptionalPort colonPort then None
               else
                 let hostname = drop (length pre + 1) left in
                 (case (case cut_25 [] hostname of
                          Some (h, z) \<Rightarrow> (case (unescape EncHost h, unescape EncZone z) of
                              (Some a, Some b) \<Rightarrow> Some (a @ b) | _ \<Rightarrow> None)
                        | None \<Rightarrow> unescape EncHost hostname) of
                    None \<Rightarrow> None
                  | Some h \<Rightarrow> if bracket_addr h then Some (''['' @ h @ '']'' @ colonPort) else None))
      | None \<Rightarrow>
          (case cut_last (CHR '':'') host of
             Some (_, port) \<Rightarrow> if validOptionalPort (CHR '':'' # port) then unescape EncHost host else None
           | None \<Rightarrow> unescape EncHost host))"

definition validUserinfo :: "string \<Rightarrow> bool" where
  "validUserinfo s \<longleftrightarrow> list_all (\<lambda>c. is_alpha c \<or> is_digit c \<or> c \<in> set ''-._:~!$&()*+,;=%@'' \<or> byte c = 39) s"

definition parseAuthority :: "string \<Rightarrow> (bool \<times> string) option" where
  "parseAuthority a =
     (case cut_last (CHR ''@'') a of
        None \<Rightarrow> map_option (Pair False) (parseHost a)
      | Some (ui, h) \<Rightarrow>
          (case parseHost h of
             None \<Rightarrow> None
           | Some host \<Rightarrow>
               if \<not> validUserinfo ui then None
               else (case cut_first (CHR '':'') ui of
                       None \<Rightarrow> if unescape EncUser ui = None then None else Some (True, host)
                     | Some (n, p) \<Rightarrow> if unescape EncUser n = None \<or> unescape EncUser p = None then None
                                     else Some (True, host))))"

text \<open>The text before and after the first occurrence; the whole text when there is none.\<close>

definition str_Cut :: "char \<Rightarrow> string \<Rightarrow> string \<times> string" where
  "str_Cut c s = (case cut_first c s of None \<Rightarrow> (s, []) | Some r \<Rightarrow> r)"

definition no_url :: URL where
  "no_url = \<lparr>u_Scheme = [], u_HasUser = False, u_Host = [], u_Path = [], u_RawQuery = [], u_Fragment = []\<rparr>"

definition is_ctl :: "char \<Rightarrow> bool" where
  "is_ctl c \<longleftrightarrow> byte c < 32 \<or> byte c = 127"

text \<open>A final lone question mark leaves an empty query either way.\<close>

definition parse_url :: "string \<Rightarrow> URL option" where
  "parse_url raw =
     (if list_ex is_ctl raw then None
      else if raw = ''*'' then Some (no_url\<lparr>u_Path := ''*''\<rparr>)
      else case getScheme raw of
        None \<Rightarrow> None
      | Some (sch, rest0) \<Rightarrow>
          let scheme = ToLower sch; (rest, query) = str_Cut (CHR ''?'') rest0;
              u = no_url\<lparr>u_Scheme := scheme, u_RawQuery := query\<rparr>
          in if \<not> prefix ''/'' rest \<and> scheme \<noteq> [] then Some u
             else if \<not> prefix ''/'' rest \<and> Contains (fst (str_Cut (CHR ''/'') rest)) '':'' then None
             else if (scheme \<noteq> [] \<or> \<not> prefix ''///'' rest) \<and> prefix ''//'' rest then
               let (authority, tail) = str_Cut (CHR ''/'') (drop 2 rest);
                   path = (if CHR ''/'' \<in> set (drop 2 rest) then CHR ''/'' # tail else [])
               in (case (parseAuthority authority, unescape EncPath path) of
                     (Some (user, host), Some p) \<Rightarrow> Some (u\<lparr>u_HasUser := user, u_Host := host, u_Path := p\<rparr>)
                   | _ \<Rightarrow> None)
             else map_option (\<lambda>p. u\<lparr>u_Path := p\<rparr>) (unescape EncPath rest))"

definition url_Parse :: "string \<Rightarrow> URL option" where
  "url_Parse rawURL =
     (let (u, frag) = str_Cut (CHR ''#'') rawURL in
      case parse_url u of
        None \<Rightarrow> None
      | Some url \<Rightarrow>
          if frag = [] then Some url
          else map_option (\<lambda>f. url\<lparr>u_Fragment := f\<rparr>) (unescape EncFragment frag))"

subsection \<open>Query strings\<close>

definition add_value :: "string \<Rightarrow> string \<Rightarrow> (string \<times> string list) list \<Rightarrow> (string \<times> string list) list" where
  "add_value k v m = gput k (case gget m k of None \<Rightarrow> [v] | Some vs \<Rightarrow> vs @ [v]) m"

text \<open>\<^verbatim>\<open>ParseQuery\<close> goes on after a bad pair but reports it.\<close>

definition query_pair :: "string \<Rightarrow> (string \<times> string list) list option \<Rightarrow> (string \<times> string list) list option" where
  "query_pair kv m =
     (if CHR '';'' \<in> set kv then None
      else if kv = [] then m
      else case str_Cut (CHR ''='') kv of (k, v) \<Rightarrow>
        (case (m, unescape EncQuery k, unescape EncQuery v) of
           (Some q, Some k', Some v') \<Rightarrow> Some (add_value k' v' q)
         | _ \<Rightarrow> None))"

definition ParseQuery :: "string \<Rightarrow> (string \<times> string list) list option" where
  "ParseQuery q = fold query_pair (split_on (CHR ''&'') q) (Some [])"

end
