(* ===== verification/Stream_Shape.thy ===== *)
theory Stream_Shape
  imports Go_Url OS_Domain
begin

text \<open>
  The shape of a stream: which protocol an input URL means (\<^verbatim>\<open>pkg/protocol\<close>), the \<^verbatim>\<open>copy://\<close> and \<^verbatim>\<open>mixer://\<close>
  references with their rules (\<^verbatim>\<open>internal/domain/copy_shape.go\<close>, \<^verbatim>\<open>mixer_shape.go\<close>, the handler's checks before a
  save), and the rendition ladder with the buffer each rung is written to (\<^verbatim>\<open>internal/buffer/rendition.go\<close>).
\<close>

subsection \<open>Protocols\<close>

datatype Kind = KindUDP | KindHLS | KindHTTPTS | KindFile | KindRTMP | KindRTSP | KindSRT | KindPublish
  | KindCopy | KindMixer | KindUnknown

definition Detect :: "string \<Rightarrow> Kind" where
  "Detect rawURL =
     (case url_Parse rawURL of
        None \<Rightarrow> KindUnknown
      | Some u \<Rightarrow>
          let s = ToLower (u_Scheme u); path = ToLower (u_Path u) in
          if s = ''rtmp'' \<or> s = ''rtmps'' then KindRTMP
          else if s = ''srt'' then KindSRT
          else if s = ''udp'' then KindUDP
          else if s = ''rtsp'' \<or> s = ''rtsps'' then KindRTSP
          else if s = ''file'' then KindFile
          else if s = ''publish'' then KindPublish
          else if s = ''copy'' then KindCopy
          else if s = ''mixer'' then KindMixer
          else if s = ''http'' \<or> s = ''https'' then
            (if suffix ''.m3u8'' path \<or> suffix ''.m3u'' path then KindHLS
             else if suffix ''/mpegts'' path \<or> suffix ''.ts'' path then KindHTTPTS
             else KindUnknown)
          else if s = [] \<and> prefix ''/'' rawURL then KindFile
          else KindUnknown)"

datatype RefError = NotThatScheme | MalformedURL | WrongScheme | UserinfoNotAllowed | PathNotAllowed | QueryNotAllowed
  | FragmentNotAllowed | MissingCode | PortNotAllowed | NotTwoCodes | EmptyVideoCode | EmptyAudioCode
  | MalformedQuery | UnknownParameter string | RepeatedParameter | BadAudioFailure string

definition CopyTarget :: "string \<Rightarrow> RefError + string" where
  "CopyTarget rawURL =
     (case url_Parse rawURL of
        None \<Rightarrow> Inl MalformedURL
      | Some u \<Rightarrow>
          if ToLower (u_Scheme u) \<noteq> ''copy'' then Inl WrongScheme
          else if u_HasUser u then Inl UserinfoNotAllowed
          else if u_Path u \<noteq> [] \<and> u_Path u \<noteq> ''/'' then Inl PathNotAllowed
          else if u_RawQuery u \<noteq> [] then Inl QueryNotAllowed
          else if u_Fragment u \<noteq> [] then Inl FragmentNotAllowed
          else if u_Host u = [] then Inl MissingCode
          else if CHR '':'' \<in> set (u_Host u) then Inl PortNotAllowed
          else Inr (u_Host u))"

record MixerSpec =
  mx_Video :: string
  mx_Audio :: string
  mx_AudioFailureContinue :: bool

text \<open>The query's keys are visited in the order of a Go map.\<close>

fun mixer_params :: "(string \<times> string list) list \<Rightarrow> MixerSpec \<Rightarrow> RefError + MixerSpec" where
  "mixer_params [] spec = Inr spec"
| "mixer_params ((key, vals) # q) spec =
     (if key \<noteq> ''audio_failure'' then Inl (UnknownParameter key)
      else if length vals \<noteq> 1 then Inl RepeatedParameter
      else if hd vals = ''continue'' then mixer_params q (spec\<lparr>mx_AudioFailureContinue := True\<rparr>)
      else if hd vals = ''down'' \<or> hd vals = [] then mixer_params q spec
      else Inl (BadAudioFailure (hd vals)))"

definition parseMixerQuery :: "string \<Rightarrow> MixerSpec \<Rightarrow> RefError + MixerSpec" where
  "parseMixerQuery rawQuery spec =
     (if rawQuery = [] then Inr spec
      else case ParseQuery rawQuery of None \<Rightarrow> Inl MalformedQuery | Some q \<Rightarrow> mixer_params q spec)"

definition MixerTargets :: "string \<Rightarrow> RefError + MixerSpec" where
  "MixerTargets rawURL =
     (case url_Parse rawURL of
        None \<Rightarrow> Inl MalformedURL
      | Some u \<Rightarrow>
          if ToLower (u_Scheme u) \<noteq> ''mixer'' then Inl WrongScheme
          else if u_HasUser u then Inl UserinfoNotAllowed
          else if u_Path u \<noteq> [] \<and> u_Path u \<noteq> ''/'' then Inl PathNotAllowed
          else if u_Fragment u \<noteq> [] then Inl FragmentNotAllowed
          else if u_Host u = [] then Inl MissingCode
          else case split_on (CHR '','') (u_Host u) of
            [video, audio] \<Rightarrow>
              if video = [] then Inl EmptyVideoCode
              else if audio = [] then Inl EmptyAudioCode
              else if CHR '':'' \<in> set video \<or> CHR '':'' \<in> set audio then Inl PortNotAllowed
              else parseMixerQuery (u_RawQuery u) \<lparr>mx_Video = video, mx_Audio = audio, mx_AudioFailureContinue = False\<rparr>
          | _ \<Rightarrow> Inl NotTwoCodes)"

text \<open>\<^verbatim>\<open>IsPushListen\<close>: an encoder is expected to connect to this URL.\<close>

definition hostname_of :: "string \<Rightarrow> string" where
  "hostname_of host =
     (let h = (case cut_last (CHR '':'') host of
                 Some (a, p) \<Rightarrow> if validOptionalPort (CHR '':'' # p) then a else host
               | None \<Rightarrow> host)
      in if prefix ''['' h \<and> suffix '']'' h then butlast (tl h) else h)"

definition unspecified_or_loopback :: "IP \<Rightarrow> bool" where
  "unspecified_or_loopback ip \<longleftrightarrow>
     list_all (\<lambda>b. b = 0) ip \<or> To4 ip = Some [0, 0, 0, 0] \<or>
     (case To4 ip of Some b \<Rightarrow> hd b = 127 | None \<Rightarrow> ip = replicate 15 0 @ [1])"

definition IsPushListen :: "string \<Rightarrow> bool" where
  "IsPushListen rawURL =
     (case url_Parse rawURL of
        None \<Rightarrow> False
      | Some u \<Rightarrow>
          let s = ToLower (u_Scheme u) in
          if s = ''publish'' then True
          else if s \<noteq> ''rtmp'' \<and> s \<noteq> ''rtmps'' \<and> s \<noteq> ''srt'' then False
          else if hostname_of (u_Host u) = [] then True
          else case ParseIP (hostname_of (u_Host u)) of
                 None \<Rightarrow> False
               | Some ip \<Rightarrow> unspecified_or_loopback ip)"

text \<open>\<^verbatim>\<open>IsMPEGTS\<close> and \<^verbatim>\<open>SplitTSPackets\<close>.\<close>

definition IsMPEGTS :: "nat list \<Rightarrow> bool" where
  "IsMPEGTS data \<longleftrightarrow> 188 \<le> length data \<and> hd data = 71"

function SplitTSPackets :: "nat list \<Rightarrow> nat list list" where
  "SplitTSPackets data =
     (if 188 \<le> length data then take 188 data # SplitTSPackets (drop 188 data) else [])"
  by pat_completeness auto
termination by (relation "measure length") auto

declare SplitTSPackets.simps [simp del]

subsection \<open>References to other streams\<close>

definition IsCopyInput :: "Input \<Rightarrow> bool" where
  "IsCopyInput i \<longleftrightarrow> Detect (in_URL i) = KindCopy"

definition CopyInputTarget :: "Input \<Rightarrow> RefError + StreamCode" where
  "CopyInputTarget i = (if Detect (in_URL i) \<noteq> KindCopy then Inl NotThatScheme else CopyTarget (in_URL i))"

definition IsMixerInput :: "Input \<Rightarrow> bool" where
  "IsMixerInput i \<longleftrightarrow> Detect (in_URL i) = KindMixer"

definition MixerInputSpec :: "Input \<Rightarrow> RefError + (StreamCode \<times> StreamCode \<times> bool)" where
  "MixerInputSpec i =
     (if Detect (in_URL i) \<noteq> KindMixer then Inl NotThatScheme
      else case MixerTargets (in_URL i) of
        Inl e \<Rightarrow> Inl e
      | Inr m \<Rightarrow> Inr (mx_Video m, mx_Audio m, mx_AudioFailureContinue m))"

definition streamHasRenditions :: "Stream \<Rightarrow> bool" where
  "streamHasRenditions s =
     (case s_Transcoder s of
        None \<Rightarrow> False
      | Some tc \<Rightarrow> \<not> vt_Copy (tc_Video tc) \<and> 0 < length (elems (vt_Profiles (tc_Video tc))))"

definition inputSourceIsRawTS :: "string \<Rightarrow> bool" where
  "inputSourceIsRawTS u \<longleftrightarrow> Detect u \<in> {KindUDP, KindHLS, KindHTTPTS, KindSRT, KindFile}"

definition StreamMainBufferIsTS :: "Stream \<Rightarrow> bool" where
  "StreamMainBufferIsTS s =
     (if s_Transcoder s \<noteq> None then True
      else if length (s_Inputs s) = 0 then False
      else inputSourceIsRawTS (in_URL (s_Inputs s ! 0)))"

type_synonym StreamLookup = "StreamCode \<Rightarrow> Stream option"

datatype ShapeError = SelfCopy | AbrCopyNotSole StreamCode nat | MixerNotSole | SelfMix

text \<open>An input as the pre-pass classifies it: a copy, its target and the ladder length of the upstream found.\<close>

record Classified =
  cl_isCopy :: bool
  cl_target :: StreamCode
  cl_upstreamABR :: bool
  cl_rungs :: nat

fun classify :: "Stream \<Rightarrow> StreamLookup \<Rightarrow> Input list \<Rightarrow> ShapeError + Classified list" where
  "classify s lookup [] = Inr []"
| "classify s lookup (i # is) =
     (let plain = \<lparr>cl_isCopy = False, cl_target = [], cl_upstreamABR = False, cl_rungs = 0\<rparr>;
          more = (\<lambda>c. case classify s lookup is of Inl e \<Rightarrow> Inl e | Inr cs \<Rightarrow> Inr (c # cs))
      in if \<not> IsCopyInput i then more plain
         else case CopyInputTarget i of
           Inl _ \<Rightarrow> more (plain\<lparr>cl_isCopy := True\<rparr>)
         | Inr target \<Rightarrow>
             if target = s_Code s then Inl SelfCopy
             else case lookup target of
               None \<Rightarrow> more (plain\<lparr>cl_isCopy := True, cl_target := target\<rparr>)
             | Some up \<Rightarrow>
                 more \<lparr>cl_isCopy = True, cl_target = target, cl_upstreamABR = streamHasRenditions up,
                    cl_rungs = (case s_Transcoder up of None \<Rightarrow> 0
                      | Some tc \<Rightarrow> length (elems (vt_Profiles (tc_Video tc))))\<rparr>)"

definition ValidateCopyShape :: "Stream \<Rightarrow> StreamLookup \<Rightarrow> ShapeError option" where
  "ValidateCopyShape s lookup =
     (case classify s lookup (s_Inputs s) of
        Inl e \<Rightarrow> Some e
      | Inr classes \<Rightarrow>
          (case find (\<lambda>c. cl_isCopy c \<and> cl_upstreamABR c) classes of
             None \<Rightarrow> None
           | Some c \<Rightarrow> if 1 < length classes then Some (AbrCopyNotSole (cl_target c) (cl_rungs c)) else None))"

definition ValidateMixerShape :: "Stream \<Rightarrow> StreamLookup \<Rightarrow> ShapeError option" where
  "ValidateMixerShape s lookup =
     (case find IsMixerInput (s_Inputs s) of
        None \<Rightarrow> None
      | Some i \<Rightarrow>
          if 1 < length (s_Inputs s) then Some MixerNotSole
          else case MixerInputSpec i of
            Inl _ \<Rightarrow> None
          | Inr (video, audio, _) \<Rightarrow>
              if video = s_Code s \<or> audio = s_Code s then Some SelfMix else None)"

subsection \<open>What the handler checks before a save\<close>

datatype PutError = InvalidCopyURL nat RefError | InvalidCopyShape ShapeError
  | InvalidMixerURL nat RefError | InvalidMixerShape ShapeError | InputPriority nat | DuplicateInput nat nat

fun bad_refs :: "(Input \<Rightarrow> bool) \<Rightarrow> (Input \<Rightarrow> RefError option) \<Rightarrow> nat \<Rightarrow> Input list \<Rightarrow> (nat \<times> RefError) option" where
  "bad_refs is_ref err n [] = None"
| "bad_refs is_ref err n (i # is) =
     (if \<not> is_ref i then bad_refs is_ref err (n + 1) is
      else case err i of Some e \<Rightarrow> Some (n, e) | None \<Rightarrow> bad_refs is_ref err (n + 1) is)"

definition err_of :: "'e + 'a \<Rightarrow> 'e option" where
  "err_of r = (case r of Inl e \<Rightarrow> Some e | Inr _ \<Rightarrow> None)"

text \<open>The streams after the write: the proposed one in the place of the one with its code.\<close>

definition merged_view :: "Stream \<Rightarrow> Stream list \<Rightarrow> Stream list" where
  "merged_view proposed existing =
     map (\<lambda>s. if s_Code s = s_Code proposed then proposed else s) existing @
     (if s_Code proposed \<in> set (map s_Code existing) then [] else [proposed])"

definition lookup_in :: "Stream list \<Rightarrow> StreamLookup" where
  "lookup_in ss c = find (\<lambda>s. s_Code s = c) ss"

definition validateCopyConfigOn :: "Stream \<Rightarrow> Stream list \<Rightarrow> PutError option" where
  "validateCopyConfigOn proposed existing =
     (case bad_refs IsCopyInput (err_of \<circ> CopyInputTarget) 0 (s_Inputs proposed) of
        Some (n, e) \<Rightarrow> Some (InvalidCopyURL n e)
      | None \<Rightarrow> map_option InvalidCopyShape (ValidateCopyShape proposed (lookup_in (merged_view proposed existing))))"

definition validateMixerConfigOn :: "Stream \<Rightarrow> Stream list \<Rightarrow> PutError option" where
  "validateMixerConfigOn proposed existing =
     (case bad_refs IsMixerInput (err_of \<circ> MixerInputSpec) 0 (s_Inputs proposed) of
        Some (n, e) \<Rightarrow> Some (InvalidMixerURL n e)
      | None \<Rightarrow> map_option InvalidMixerShape (ValidateMixerShape proposed (lookup_in (merged_view proposed existing))))"

fun ValidateInputPriorities :: "nat \<Rightarrow> Input list \<Rightarrow> PutError option" where
  "ValidateInputPriorities n [] = None"
| "ValidateInputPriorities n (i # is) =
     (if in_Priority i \<noteq> int n then Some (InputPriority n) else ValidateInputPriorities (n + 1) is)"

fun ValidateUniqueInputs :: "nat \<Rightarrow> (string \<times> nat) list \<Rightarrow> Input list \<Rightarrow> PutError option" where
  "ValidateUniqueInputs n seen [] = None"
| "ValidateUniqueInputs n seen (i # is) =
     (case gget seen (TrimSpace (in_URL i)) of
        Some p \<Rightarrow> Some (DuplicateInput p n)
      | None \<Rightarrow> ValidateUniqueInputs (n + 1) (gput (TrimSpace (in_URL i)) n seen) is)"

subsection \<open>The rendition ladder\<close>

definition RenditionBufferID :: "StreamCode \<Rightarrow> string \<Rightarrow> StreamCode" where
  "RenditionBufferID code slug = ''$r$'' @ code @ ''$'' @ slug"

definition RawIngestBufferID :: "StreamCode \<Rightarrow> StreamCode" where
  "RawIngestBufferID code = ''$raw$'' @ code"

definition VideoTrackSlug :: "nat \<Rightarrow> string" where
  "VideoTrackSlug i = ''track_'' @ digits (i + 1)"

record RenditionPlayout =
  rp_Slug :: string
  rp_BufferID :: StreamCode
  rp_Width :: int
  rp_Height :: int
  rp_BitrateKbps :: int

definition rendition_of :: "StreamCode \<Rightarrow> nat \<Rightarrow> VideoProfile \<Rightarrow> RenditionPlayout" where
  "rendition_of code i p =
     (let slug = VideoTrackSlug i in
      \<lparr>rp_Slug = slug, rp_BufferID = RenditionBufferID code slug, rp_Width = vp_Width p, rp_Height = vp_Height p,
       rp_BitrateKbps = (if vp_Bitrate p \<le> 0 then 2500 else vp_Bitrate p)\<rparr>)"

definition RenditionsForTranscoder :: "StreamCode \<Rightarrow> TranscoderConfig option \<Rightarrow> RenditionPlayout list" where
  "RenditionsForTranscoder code otc =
     (case otc of
        None \<Rightarrow> []
      | Some tc \<Rightarrow>
          if vt_Copy (tc_Video tc) \<and> at_Copy (tc_Audio tc) then []
          else if vt_Copy (tc_Video tc) \<or> length (elems (vt_Profiles (tc_Video tc))) = 0 then
            [\<lparr>rp_Slug = VideoTrackSlug 0, rp_BufferID = RenditionBufferID code (VideoTrackSlug 0), rp_Width = 0,
              rp_Height = 0, rp_BitrateKbps = 0\<rparr>]
          else
            let ps = elems (vt_Profiles (tc_Video tc)) in
            map (\<lambda>i. rendition_of code i (ps ! i)) [0 ..< length ps])"

text \<open>Width times height may wrap in a Go \<^verbatim>\<open>int\<close> only for sizes no codec has; the score is an integer here.\<close>

definition rung_score :: "RenditionPlayout \<Rightarrow> int" where
  "rung_score r = rp_Width r * rp_Height r * 1000 + rp_BitrateKbps r"

fun best_loop :: "RenditionPlayout list \<Rightarrow> nat \<Rightarrow> nat \<Rightarrow> int \<Rightarrow> nat" where
  "best_loop [] i best bestScore = best"
| "best_loop (r # rs) i best bestScore =
     (if bestScore < rung_score r then best_loop rs (i + 1) i (rung_score r) else best_loop rs (i + 1) best bestScore)"

definition BestRenditionIndex :: "RenditionPlayout list \<Rightarrow> nat" where
  "BestRenditionIndex rends =
     (case rends of [] \<Rightarrow> 0 | r # rs \<Rightarrow> best_loop rs 1 0 (rung_score r))"

definition PlaybackBufferID :: "StreamCode \<Rightarrow> TranscoderConfig option \<Rightarrow> StreamCode" where
  "PlaybackBufferID code otc =
     (let rends = RenditionsForTranscoder code otc in
      if length rends = 0 then code else rp_BufferID (rends ! BestRenditionIndex rends))"

definition BandwidthBps :: "RenditionPlayout \<Rightarrow> int" where
  "BandwidthBps r = (if rp_BitrateKbps r \<le> 0 then 2500000 else rp_BitrateKbps r * 1000)"

lemma best_loop_spec:
  "best_loop rs i best s = best \<and> (\<forall>r \<in> set rs. rung_score r \<le> s) \<or>
   (\<exists>k < length rs. best_loop rs i best s = i + k \<and> s < rung_score (rs ! k) \<and>
      (\<forall>r \<in> set rs. rung_score r \<le> rung_score (rs ! k)))"
proof (induction rs arbitrary: i best s)
  case (Cons r rs)
  show ?case
  proof (cases "s < rung_score r")
    case True
    from Cons.IH [of "i + 1" i "rung_score r"] show ?thesis
    proof
      assume "best_loop rs (i + 1) i (rung_score r) = i \<and> (\<forall>q \<in> set rs. rung_score q \<le> rung_score r)"
      with True have "0 < length (r # rs) \<and> best_loop (r # rs) i best s = i + 0 \<and> s < rung_score ((r # rs) ! 0) \<and>
         (\<forall>q \<in> set (r # rs). rung_score q \<le> rung_score ((r # rs) ! 0))" by simp
      then show ?thesis by blast
    next
      assume "\<exists>k < length rs. best_loop rs (i + 1) i (rung_score r) = i + 1 + k \<and> rung_score r < rung_score (rs ! k) \<and>
         (\<forall>q \<in> set rs. rung_score q \<le> rung_score (rs ! k))"
      then obtain k where "k < length rs" "best_loop rs (i + 1) i (rung_score r) = i + 1 + k"
        "rung_score r < rung_score (rs ! k)" "\<forall>q \<in> set rs. rung_score q \<le> rung_score (rs ! k)" by blast
      with True have "Suc k < length (r # rs) \<and> best_loop (r # rs) i best s = i + Suc k \<and> s < rung_score ((r # rs) ! Suc k) \<and>
         (\<forall>q \<in> set (r # rs). rung_score q \<le> rung_score ((r # rs) ! Suc k))" by auto
      then show ?thesis by blast
    qed
  next
    case False
    from Cons.IH [of "i + 1" best s] show ?thesis
    proof
      assume "best_loop rs (i + 1) best s = best \<and> (\<forall>q \<in> set rs. rung_score q \<le> s)"
      with False show ?thesis by auto
    next
      assume "\<exists>k < length rs. best_loop rs (i + 1) best s = i + 1 + k \<and> s < rung_score (rs ! k) \<and>
         (\<forall>q \<in> set rs. rung_score q \<le> rung_score (rs ! k))"
      then obtain k where "k < length rs" "best_loop rs (i + 1) best s = i + 1 + k" "s < rung_score (rs ! k)"
        "\<forall>q \<in> set rs. rung_score q \<le> rung_score (rs ! k)" by blast
      with False have "Suc k < length (r # rs) \<and> best_loop (r # rs) i best s = i + Suc k \<and> s < rung_score ((r # rs) ! Suc k) \<and>
         (\<forall>q \<in> set (r # rs). rung_score q \<le> rung_score ((r # rs) ! Suc k))" by auto
      then show ?thesis by blast
    qed
  qed
qed simp

lemma BestRenditionIndex_best:
  assumes "rends \<noteq> []"
  shows "BestRenditionIndex rends < length rends"
    and "r \<in> set rends \<Longrightarrow> rung_score r \<le> rung_score (rends ! BestRenditionIndex rends)"
proof -
  obtain q rs where e: "rends = q # rs" using assms by (cases rends) auto
  have "BestRenditionIndex rends < length rends \<and>
     (\<forall>r \<in> set rends. rung_score r \<le> rung_score (rends ! BestRenditionIndex rends))"
    using best_loop_spec [of rs 1 0 "rung_score q"] e by (fastforce simp: BestRenditionIndex_def)
  then show "BestRenditionIndex rends < length rends"
    "r \<in> set rends \<Longrightarrow> rung_score r \<le> rung_score (rends ! BestRenditionIndex rends)" by auto
qed

end
