(* ===== verification/Stream_Diff.thy ===== *)
theory Stream_Diff
  imports Stream_Shape
begin

text \<open>
  What changed between two configurations of a stream: \<^verbatim>\<open>internal/coordinator/diff.go\<close>. Inputs are compared by
  priority, in the iteration order of a Go map, which the parameter \<open>rng\<close> picks.
\<close>

subsection \<open>Deep equality\<close>

text \<open>\<^verbatim>\<open>reflect.DeepEqual\<close> follows the pointers of a profile; \<^verbatim>\<open>==\<close> on a profile compares them.\<close>

definition deref_profile :: "VideoProfile \<Rightarrow> VideoProfile" where
  "deref_profile p = p\<lparr>vp_Bframes := map_option (Pair 0 \<circ> snd) (vp_Bframes p), vp_Refs := map_option (Pair 0 \<circ> snd) (vp_Refs p)\<rparr>"

definition deref_transcoder :: "TranscoderConfig \<Rightarrow> TranscoderConfig" where
  "deref_transcoder tc =
     tc\<lparr>tc_Video := (tc_Video tc)\<lparr>vt_Profiles := map_option (map deref_profile) (vt_Profiles (tc_Video tc))\<rparr>\<rparr>"

definition deep_equal_transcoder :: "TranscoderConfig option \<Rightarrow> TranscoderConfig option \<Rightarrow> bool" where
  "deep_equal_transcoder a b \<longleftrightarrow> map_option deref_transcoder a = map_option deref_transcoder b"

definition profile_ptr_eq :: "VideoProfile \<Rightarrow> VideoProfile \<Rightarrow> bool" where
  "profile_ptr_eq p q \<longleftrightarrow> p = q"

subsection \<open>Diffs\<close>

record ProfileChange =
  pc_Index :: nat
  pc_Old :: "VideoProfile option"
  pc_New :: "VideoProfile option"

record ProfilesDiff =
  pf_Added :: "ProfileChange list"
  pf_Removed :: "ProfileChange list"
  pf_Updated :: "ProfileChange list"

record StreamDiff =
  df_InputsChanged :: bool
  df_AddedInputs :: "Input list"
  df_RemovedInputs :: "Input list"
  df_UpdatedInputs :: "Input list"
  df_TranscoderChanged :: bool
  df_TranscoderTopologyChanged :: bool
  df_ProfilesDiff :: "ProfilesDiff option"
  df_ProtocolsChanged :: bool
  df_PushChanged :: bool
  df_PlaybackPolicyChanged :: bool
  df_DVRChanged :: bool
  df_NowDisabled :: bool

definition no_diff :: StreamDiff where
  "no_diff = \<lparr>df_InputsChanged = False, df_AddedInputs = [], df_RemovedInputs = [], df_UpdatedInputs = [],
     df_TranscoderChanged = False, df_TranscoderTopologyChanged = False, df_ProfilesDiff = None,
     df_ProtocolsChanged = False, df_PushChanged = False, df_PlaybackPolicyChanged = False, df_DVRChanged = False,
     df_NowDisabled = False\<rparr>"

definition HasProfileChanges :: "ProfilesDiff option \<Rightarrow> bool" where
  "HasProfileChanges d = (case d of None \<Rightarrow> False
     | Some p \<Rightarrow> 0 < length (pf_Added p) \<or> 0 < length (pf_Removed p) \<or> 0 < length (pf_Updated p))"

definition HasAddedOrRemoved :: "ProfilesDiff option \<Rightarrow> bool" where
  "HasAddedOrRemoved d = (case d of None \<Rightarrow> False
     | Some p \<Rightarrow> 0 < length (pf_Added p) \<or> 0 < length (pf_Removed p))"

definition inputsEqual :: "Input \<Rightarrow> Input \<Rightarrow> bool" where
  "inputsEqual a b \<longleftrightarrow> in_URL a = in_URL b \<and> deep_equal_map (in_Headers a) (in_Headers b) \<and>
     deep_equal_map (in_Params a) (in_Params b) \<and> in_Net a = in_Net b"

text \<open>A map from priorities; a later input of the same priority replaces an earlier one.\<close>

definition by_priority :: "Input list \<Rightarrow> (int \<times> Input) list" where
  "by_priority ins = fold (\<lambda>i. gput (in_Priority i) i) ins []"

type_synonym map_order = "(int \<times> Input) list \<Rightarrow> (int \<times> Input) list"

definition diffInputs :: "map_order \<Rightarrow> Stream \<Rightarrow> Stream \<Rightarrow> StreamDiff \<Rightarrow> StreamDiff" where
  "diffInputs rng old new d =
     (let oldMap = by_priority (s_Inputs old); newMap = by_priority (s_Inputs new);
          added = map snd (filter (\<lambda>(p, ni). gget oldMap p = None) (rng newMap));
          updated = map snd (filter (\<lambda>(p, ni). case gget oldMap p of None \<Rightarrow> False | Some oi \<Rightarrow> \<not> inputsEqual oi ni) (rng newMap));
          removed = map snd (filter (\<lambda>(p, oi). gget newMap p = None) (rng oldMap))
      in d\<lparr>df_AddedInputs := added, df_UpdatedInputs := updated, df_RemovedInputs := removed,
           df_InputsChanged := 0 < length added \<or> 0 < length removed \<or> 0 < length updated\<rparr>)"

definition needsFFmpeg :: "TranscoderConfig option \<Rightarrow> bool" where
  "needsFFmpeg otc = (case otc of None \<Rightarrow> False | Some tc \<Rightarrow> \<not> vt_Copy (tc_Video tc) \<or> \<not> at_Copy (tc_Audio tc))"

fun diff_profiles_from :: "nat \<Rightarrow> VideoProfile list \<Rightarrow> VideoProfile list \<Rightarrow> bool \<Rightarrow> ProfilesDiff" where
  "diff_profiles_from i (p # ps) (q # qs) allChanged =
     (let d = diff_profiles_from (i + 1) ps qs allChanged in
      if allChanged \<or> \<not> profile_ptr_eq p q
      then d\<lparr>pf_Updated := \<lparr>pc_Index = i, pc_Old = Some p, pc_New = Some q\<rparr> # pf_Updated d\<rparr> else d)"
| "diff_profiles_from i (p # ps) [] allChanged =
     (let d = diff_profiles_from (i + 1) ps [] allChanged in
      d\<lparr>pf_Removed := \<lparr>pc_Index = i, pc_Old = Some p, pc_New = None\<rparr> # pf_Removed d\<rparr>)"
| "diff_profiles_from i [] (q # qs) allChanged =
     (let d = diff_profiles_from (i + 1) [] qs allChanged in
      d\<lparr>pf_Added := \<lparr>pc_Index = i, pc_Old = None, pc_New = Some q\<rparr> # pf_Added d\<rparr>)"
| "diff_profiles_from i [] [] allChanged = \<lparr>pf_Added = [], pf_Removed = [], pf_Updated = []\<rparr>"

definition diffProfiles :: "VideoProfile list \<Rightarrow> VideoProfile list \<Rightarrow> bool \<Rightarrow> ProfilesDiff" where
  "diffProfiles = diff_profiles_from 0"

definition diffTranscoder :: "Stream \<Rightarrow> Stream \<Rightarrow> StreamDiff \<Rightarrow> StreamDiff" where
  "diffTranscoder old new d =
     (let transcoderEq = deep_equal_transcoder (s_Transcoder old) (s_Transcoder new);
          watermarkEq = (s_Watermark old = s_Watermark new);
          topology = d\<lparr>df_TranscoderChanged := True, df_TranscoderTopologyChanged := True\<rparr>
      in if transcoderEq \<and> watermarkEq then d
         else if transcoderEq \<and> \<not> watermarkEq then
           (if needsFFmpeg (s_Transcoder old) \<or> needsFFmpeg (s_Transcoder new) then topology else d)
         else case (s_Transcoder old, s_Transcoder new) of
           (Some ot, Some nt) \<Rightarrow>
             if needsFFmpeg (Some ot) \<noteq> needsFFmpeg (Some nt) then topology
             else if vt_Copy (tc_Video ot) \<noteq> vt_Copy (tc_Video nt) then topology
             else if \<not> needsFFmpeg (Some nt) then d\<lparr>df_TranscoderChanged := True\<rparr>
             else if \<not> watermarkEq then topology
             else
               let globalChanged = (tc_Global ot \<noteq> tc_Global nt \<or> tc_Audio ot \<noteq> tc_Audio nt \<or> tc_Decoder ot \<noteq> tc_Decoder nt)
               in d\<lparr>df_TranscoderChanged := True,
                    df_ProfilesDiff := Some (diffProfiles (elems (vt_Profiles (tc_Video ot)))
                      (elems (vt_Profiles (tc_Video nt))) globalChanged)\<rparr>
         | _ \<Rightarrow> topology)"

definition push_key :: "PushDestination \<Rightarrow> string \<times> bool \<times> int \<times> int \<times> int" where
  "push_key d = (pd_URL d, pd_Enabled d, pd_TimeoutSec d, pd_RetryTimeoutSec d, pd_Limit d)"

definition pushSliceEqual :: "PushDestination list \<Rightarrow> PushDestination list \<Rightarrow> bool" where
  "pushSliceEqual a b \<longleftrightarrow> length a = length b \<and> list_all2 (\<lambda>x y. push_key x = push_key y) a b"

definition dvrConfigEqual :: "StreamDVRConfig option \<Rightarrow> StreamDVRConfig option \<Rightarrow> bool" where
  "dvrConfigEqual a b = (case (a, b) of (None, None) \<Rightarrow> True | (Some x, Some y) \<Rightarrow> x = y | _ \<Rightarrow> False)"

definition protocolsEqual :: "OutputProtocols option \<Rightarrow> OutputProtocols option \<Rightarrow> bool" where
  "protocolsEqual a b = (case (a, b) of (None, None) \<Rightarrow> True | (Some x, Some y) \<Rightarrow> x = y | _ \<Rightarrow> False)"

definition ComputeDiff :: "map_order \<Rightarrow> Stream \<Rightarrow> Stream \<Rightarrow> StreamDiff" where
  "ComputeDiff rng old new =
     (let d = diffTranscoder old new (diffInputs rng old new
            (no_diff\<lparr>df_NowDisabled := \<not> s_Disabled old \<and> s_Disabled new\<rparr>))
      in d\<lparr>df_ProtocolsChanged := \<not> protocolsEqual (s_Protocols old) (s_Protocols new),
           df_PushChanged := \<not> pushSliceEqual (s_Push old) (s_Push new),
           df_PlaybackPolicyChanged := s_PlaybackPolicy old \<noteq> s_PlaybackPolicy new,
           df_DVRChanged := \<not> dvrConfigEqual (s_DVR old) (s_DVR new)\<rparr>)"

end
