(* ===== verification/Publisher.thy ===== *)
theory Publisher
  imports Stream_Shape Vod_Files
begin

text \<open>
  The publisher's stream lifecycle: \<^verbatim>\<open>internal/publisher/service.go\<close> (which outputs run for a stream and on which
  buffer), \<^verbatim>\<open>conn_limiter.go\<close> (the cap on playback connections), the lookups of \<^verbatim>\<open>playauth.go\<close> and
  \<^verbatim>\<open>serve_mpegts.go\<close>, and the state of a push destination (\<^verbatim>\<open>runtime.go\<close>, the loop of \<^verbatim>\<open>push_rtmp.go\<close>). An output
  is the goroutine it runs with the data its closure holds; what the goroutine then does is modelled elsewhere or not
  at all.
\<close>

declare map_of_eq_Some_iff [simp del] Some_eq_map_of_iff [simp del]

subsection \<open>Outputs of a stream\<close>

datatype OutJob =
    ServeHLSAdaptive StreamCode "RenditionPlayout list" bool
  | ServeHLS StreamCode
  | ServeDASHAdaptive StreamCode "RenditionPlayout list"
  | ServeDASH StreamCode
  | ServeRTSP StreamCode StreamCode
  | ServeRTMPPush StreamCode StreamCode PushDestination

record PubStream =
  pst_code :: StreamCode
  pst_mediaBuf :: StreamCode
  pst_protocols :: "(string \<times> OutJob) list"
  pst_mpegtsEnabled :: bool
  pst_playbackPolicy :: PolicyCode
  pst_streamKey :: string

datatype PushStatus = PushStarting | PushActive | PushReconnecting | PushFailed

record PushState =
  pu_status :: PushStatus
  pu_attempt :: nat
  pu_connectedAt :: "gotime option"
  pu_errors :: "ErrorEntry list"

text \<open>\<open>pb_removed\<close>: the directories removed so far; \<open>pb_events\<close>: the type, stream and URL of the events published.\<close>

record PubService =
  pb_hlsDir :: string
  pb_dashDir :: string
  pb_streams :: "(StreamCode \<times> PubStream) list"
  pb_mediaBuffer :: "(StreamCode \<times> StreamCode) list"
  pb_pushStates :: "(StreamCode \<times> (string \<times> PushState) list) list"
  pb_removed :: "string list"
  pb_events :: "(string \<times> StreamCode \<times> string) list"

datatype PubError = PubAlreadyRunning StreamCode | PubNotRunning StreamCode | DashDirRequired | DirsMustDiffer string

definition no_protocols :: OutputProtocols where
  "no_protocols = \<lparr>op_HLS = False, op_DASH = False, op_RTSP = False, op_RTMP = False, op_SRT = False, op_MPEGTS = False\<rparr>"

definition protocolsValue :: "OutputProtocols option \<Rightarrow> OutputProtocols" where
  "protocolsValue p = (case p of None \<Rightarrow> no_protocols | Some v \<Rightarrow> v)"

definition publisherABRActive :: "Stream \<Rightarrow> bool" where
  "publisherABRActive s \<longleftrightarrow> 0 < length (RenditionsForTranscoder (s_Code s) (s_Transcoder s))"

text \<open>What the adaptive HLS output computes from the transcoder settings besides the ladder.\<close>

definition has_audio :: "TranscoderConfig option \<Rightarrow> bool" where
  "has_audio otc = (case otc of None \<Rightarrow> False | Some tc \<Rightarrow> at_Copy (tc_Audio tc) \<or> at_Codec (tc_Audio tc) \<noteq> [])"

definition hlsFunc :: "StreamCode \<Rightarrow> Stream \<Rightarrow> OutJob" where
  "hlsFunc mediaBuf s =
     (if publisherABRActive s
      then ServeHLSAdaptive (s_Code s) (RenditionsForTranscoder (s_Code s) (s_Transcoder s)) (has_audio (s_Transcoder s))
      else ServeHLS mediaBuf)"

definition dashFunc :: "Stream \<Rightarrow> OutJob" where
  "dashFunc s =
     (if publisherABRActive s then ServeDASHAdaptive (s_Code s) (RenditionsForTranscoder (s_Code s) (s_Transcoder s))
      else ServeDASH (s_Code s))"

definition push_proto :: "string \<Rightarrow> string" where "push_proto url = ''push:'' @ url"

text \<open>A job replaces the one that runs under the same key, which is cancelled.\<close>

definition spawnProtocol :: "string \<Rightarrow> OutJob \<Rightarrow> PubStream \<Rightarrow> PubStream" where
  "spawnProtocol key job ss = ss\<lparr>pst_protocols := gput key job (pst_protocols ss)\<rparr>"

definition dropProtocol :: "string \<Rightarrow> PubStream \<Rightarrow> PubStream" where
  "dropProtocol key ss = ss\<lparr>pst_protocols := gdel key (pst_protocols ss)\<rparr>"

definition spawn_push :: "StreamCode \<Rightarrow> PushDestination \<Rightarrow> PubStream \<Rightarrow> PubStream" where
  "spawn_push code d ss =
     (if pd_Enabled d then spawnProtocol (push_proto (pd_URL d)) (ServeRTMPPush code (pst_mediaBuf ss) d) ss else ss)"

definition spawnOutputs :: "Stream \<Rightarrow> OutputProtocols \<Rightarrow> PubStream \<Rightarrow> PubStream" where
  "spawnOutputs s p ss =
     (let ss1 = (if op_HLS p then spawnProtocol ''hls'' (hlsFunc (pst_mediaBuf ss) s) ss else ss);
          ss2 = (if op_DASH p then spawnProtocol ''dash'' (dashFunc s) ss1 else ss1);
          ss3 = (if op_RTSP p then spawnProtocol ''rtsp'' (ServeRTSP (s_Code s) (pst_mediaBuf ss2)) ss2 else ss2)
      in fold (spawn_push (s_Code s)) (s_Push s) ss3)"

definition pub_set :: "StreamCode \<Rightarrow> PubStream \<Rightarrow> PubService \<Rightarrow> PubService" where
  "pub_set code ss pb = pb\<lparr>pb_streams := gput code ss (pb_streams pb)\<rparr>"

definition new_pub_stream :: "Stream \<Rightarrow> PubStream" where
  "new_pub_stream s =
     \<lparr>pst_code = s_Code s, pst_mediaBuf = PlaybackBufferID (s_Code s) (s_Transcoder s), pst_protocols = [],
      pst_mpegtsEnabled = op_MPEGTS (protocolsValue (s_Protocols s)), pst_playbackPolicy = s_PlaybackPolicy s,
      pst_streamKey = s_StreamKey s\<rparr>"

definition pub_Start :: "Stream \<Rightarrow> PubService \<Rightarrow> PubError option \<times> PubService" where
  "pub_Start s pb =
     (let p = protocolsValue (s_Protocols s); h = Clean (pb_hlsDir pb); d = Clean (TrimSpace (pb_dashDir pb)) in
      if gget (pb_streams pb) (s_Code s) \<noteq> None then (Some (PubAlreadyRunning (s_Code s)), pb)
      else if op_DASH p \<and> TrimSpace (pb_dashDir pb) = [] then (Some DashDirRequired, pb)
      else if op_HLS p \<and> op_DASH p \<and> h = d then (Some (DirsMustDiffer h), pb)
      else
        let ss = new_pub_stream s in
        (None, pub_set (s_Code s) (spawnOutputs s p ss)
                 (pb\<lparr>pb_mediaBuffer := gput (s_Code s) (pst_mediaBuf ss) (pb_mediaBuffer pb)\<rparr>)))"

definition cleanupStreamDirs :: "StreamCode \<Rightarrow> PubService \<Rightarrow> PubService" where
  "cleanupStreamDirs code pb =
     (let rm = (\<lambda>dir p. if TrimSpace dir = [] then p
                  else p\<lparr>pb_removed := pb_removed p @ [Clean (join2 (TrimSpace dir) code)]\<rparr>)
      in rm (pb_dashDir pb) (rm (pb_hlsDir pb) pb))"

definition pub_Stop :: "StreamCode \<Rightarrow> PubService \<Rightarrow> PubService" where
  "pub_Stop code pb =
     (case gget (pb_streams pb) code of
        None \<Rightarrow> pb
      | Some ss \<Rightarrow> cleanupStreamDirs code
          (pb\<lparr>pb_streams := gdel code (pb_streams pb), pb_mediaBuffer := gdel code (pb_mediaBuffer pb)\<rparr>))"

definition stopProtocol :: "StreamCode \<Rightarrow> string \<Rightarrow> PubService \<Rightarrow> PubService" where
  "stopProtocol code key pb =
     (case gget (pb_streams pb) code of None \<Rightarrow> pb | Some ss \<Rightarrow> pub_set code (dropProtocol key ss) pb)"

definition startProtocol :: "StreamCode \<Rightarrow> string \<Rightarrow> (PubStream \<Rightarrow> OutJob) \<Rightarrow> PubService \<Rightarrow> PubService" where
  "startProtocol code key job pb =
     (case gget (pb_streams pb) code of None \<Rightarrow> pb | Some ss \<Rightarrow> pub_set code (spawnProtocol key (job ss) ss) pb)"

definition url_map :: "PushDestination list \<Rightarrow> (string \<times> PushDestination) list" where
  "url_map ds = fold (\<lambda>d. gput (pd_URL d) d) ds []"

definition stop_push :: "StreamCode \<Rightarrow> (string \<times> PushDestination) list \<Rightarrow> PushDestination \<Rightarrow> PubService \<Rightarrow> PubService" where
  "stop_push code newByURL od pb =
     (case gget newByURL (pd_URL od) of
        None \<Rightarrow> stopProtocol code (push_proto (pd_URL od)) pb
      | Some nd \<Rightarrow> if \<not> pd_Enabled nd \<and> pd_Enabled od then stopProtocol code (push_proto (pd_URL od)) pb else pb)"

definition start_push :: "StreamCode \<Rightarrow> (string \<times> PushDestination) list \<Rightarrow> PushDestination \<Rightarrow> PubService \<Rightarrow> PubService" where
  "start_push code oldByURL nd pb =
     (if \<not> pd_Enabled nd then pb
      else if (case gget oldByURL (pd_URL nd) of None \<Rightarrow> True | Some od \<Rightarrow> \<not> pd_Enabled od)
      then startProtocol code (push_proto (pd_URL nd)) (\<lambda>ss. ServeRTMPPush code (pst_mediaBuf ss) nd) pb
      else pb)"

definition updatePushDestinations :: "PushDestination list \<Rightarrow> PushDestination list \<Rightarrow> StreamCode \<Rightarrow> PubService \<Rightarrow> PubService" where
  "updatePushDestinations oldPush newPush code pb =
     fold (start_push code (url_map oldPush)) newPush (fold (stop_push code (url_map newPush)) oldPush pb)"

text \<open>An output that is switched off is stopped, one switched on is started, one that stays on is left alone.\<close>

definition toggle :: "bool \<Rightarrow> bool \<Rightarrow> StreamCode \<Rightarrow> string \<Rightarrow> (PubStream \<Rightarrow> OutJob) \<Rightarrow> PubService \<Rightarrow> PubService" where
  "toggle was now code key job pb =
     (if was \<and> \<not> now then stopProtocol code key pb
      else if \<not> was \<and> now then startProtocol code key job pb
      else pb)"

definition UpdateProtocols :: "Stream \<Rightarrow> Stream \<Rightarrow> PubService \<Rightarrow> PubError option \<times> PubService" where
  "UpdateProtocols old new pb =
     (let op = protocolsValue (s_Protocols old); np = protocolsValue (s_Protocols new); code = s_Code new in
      case gget (pb_streams pb) code of
        None \<Rightarrow> (Some (PubNotRunning code), pb)
      | Some ss \<Rightarrow>
          let newBuf = PlaybackBufferID code (s_Transcoder new);
              pb0 = (if pst_mediaBuf ss \<noteq> newBuf then pb\<lparr>pb_mediaBuffer := gput code newBuf (pb_mediaBuffer pb)\<rparr> else pb);
              pb1 = pub_set code (ss\<lparr>pst_mediaBuf := newBuf, pst_mpegtsEnabled := op_MPEGTS np,
                      pst_playbackPolicy := s_PlaybackPolicy new, pst_streamKey := s_StreamKey new\<rparr>) pb0;
              pb2 = toggle (op_HLS op) (op_HLS np) code ''hls'' (\<lambda>ss. hlsFunc (pst_mediaBuf ss) new) pb1;
              pb3 = toggle (op_DASH op) (op_DASH np) code ''dash'' (\<lambda>ss. dashFunc new) pb2;
              pb4 = toggle (op_RTSP op) (op_RTSP np) code ''rtsp'' (\<lambda>ss. ServeRTSP code (pst_mediaBuf ss)) pb3
          in (None, updatePushDestinations (s_Push old) (s_Push new) code pb4))"

definition RestartHLSDASH :: "Stream \<Rightarrow> PubService \<Rightarrow> PubError option \<times> PubService" where
  "RestartHLSDASH s pb =
     (let code = s_Code s; p = protocolsValue (s_Protocols s) in
      case gget (pb_streams pb) code of
        None \<Rightarrow> (Some (PubNotRunning code), pb)
      | Some ss \<Rightarrow>
          let newBuf = PlaybackBufferID code (s_Transcoder s);
              pb1 = pub_set code (ss\<lparr>pst_mediaBuf := newBuf\<rparr>) (pb\<lparr>pb_mediaBuffer := gput code newBuf (pb_mediaBuffer pb)\<rparr>);
              pb2 = (if op_HLS p then startProtocol code ''hls'' (\<lambda>ss. hlsFunc (pst_mediaBuf ss) s) pb1
                     else stopProtocol code ''hls'' pb1);
              pb3 = (if op_DASH p then startProtocol code ''dash'' (\<lambda>ss. dashFunc s) pb2
                     else stopProtocol code ''dash'' pb2)
          in (None, pb3))"

definition cleanupAllOutputDirs :: "PubService \<Rightarrow> PubService" where
  "cleanupAllOutputDirs pb =
     pb\<lparr>pb_removed := pb_removed pb @ filter (\<lambda>d. d \<noteq> []) [TrimSpace (pb_hlsDir pb), TrimSpace (pb_dashDir pb)]\<rparr>"

text \<open>The lookups of the play handlers and of the authorizers.\<close>

definition mediaBufferFor :: "StreamCode \<Rightarrow> PubService \<Rightarrow> StreamCode option" where
  "mediaBufferFor code pb = gget (pb_mediaBuffer pb) code"

definition pub_PlaybackPolicy :: "StreamCode \<Rightarrow> PubService \<Rightarrow> PolicyCode option" where
  "pub_PlaybackPolicy code pb = map_option pst_playbackPolicy (gget (pb_streams pb) code)"

definition pub_PushStreamKey :: "StreamCode \<Rightarrow> PubService \<Rightarrow> string option" where
  "pub_PushStreamKey code pb = map_option pst_streamKey (gget (pb_streams pb) code)"

definition mpegtsTargetFor :: "StreamCode \<Rightarrow> PubService \<Rightarrow> (StreamCode \<times> bool) option" where
  "mpegtsTargetFor code pb = map_option (\<lambda>ss. (pst_mediaBuf ss, pst_mpegtsEnabled ss)) (gget (pb_streams pb) code)"

subsection \<open>Playback connection caps\<close>

record connLimiter =
  lm_perStream :: "(StreamCode \<times> int) list"
  lm_total :: int
  lm_maxPerStream :: int
  lm_maxTotal :: int

definition newConnLimiter :: "int \<Rightarrow> int \<Rightarrow> connLimiter" where
  "newConnLimiter maxPerStream maxTotal =
     \<lparr>lm_perStream = [], lm_total = 0, lm_maxPerStream = maxPerStream, lm_maxTotal = maxTotal\<rparr>"

definition per_stream :: "connLimiter \<Rightarrow> StreamCode \<Rightarrow> int" where
  "per_stream l code = (case gget (lm_perStream l) code of None \<Rightarrow> 0 | Some n \<Rightarrow> n)"

definition acquire :: "StreamCode \<Rightarrow> connLimiter \<Rightarrow> bool \<times> connLimiter" where
  "acquire code l =
     (if 0 < lm_maxTotal l \<and> lm_maxTotal l \<le> lm_total l then (False, l)
      else if 0 < lm_maxPerStream l \<and> lm_maxPerStream l \<le> per_stream l code then (False, l)
      else (True, l\<lparr>lm_total := lm_total l + 1, lm_perStream := gput code (per_stream l code + 1) (lm_perStream l)\<rparr>))"

definition release :: "StreamCode \<Rightarrow> connLimiter \<Rightarrow> connLimiter" where
  "release code l =
     (let l1 = (if per_stream l code \<le> 1 then l\<lparr>lm_perStream := gdel code (lm_perStream l)\<rparr>
                else l\<lparr>lm_perStream := gput code (per_stream l code - 1) (lm_perStream l)\<rparr>)
      in if 0 < lm_total l then l1\<lparr>lm_total := lm_total l - 1\<rparr> else l1)"

definition defaultMaxPlaybackConnPerStream :: int where "defaultMaxPlaybackConnPerStream = 256"
definition defaultMaxPlaybackConnTotal :: int where "defaultMaxPlaybackConnTotal = 4096"

definition resolvePlaybackCap :: "int \<Rightarrow> int \<Rightarrow> int" where
  "resolvePlaybackCap configured dflt = (if 0 < configured then configured else if configured < 0 then 0 else dflt)"

text \<open>
  The play handlers. An HTTP, RTMP or SRT connection acquires a slot and releases it when its handler returns; an
  RTSP session acquires on its first PLAY and releases when it closes. \<open>pc_conns\<close> are the handlers that hold a slot.
\<close>

record PlayConns =
  pc_limiter :: connLimiter
  pc_conns :: "(nat \<times> StreamCode) list"
  pc_rtspSessions :: "(nat \<times> StreamCode) list"

definition OnPlay :: "nat \<Rightarrow> StreamCode \<Rightarrow> bool \<Rightarrow> PlayConns \<Rightarrow> PlayConns" where
  "OnPlay sess code allowed s =
     (if code = [] then s
      else if gget (pc_rtspSessions s) sess \<noteq> None then s
      else if \<not> allowed then s
      else case acquire code (pc_limiter s) of
        (False, l) \<Rightarrow> s\<lparr>pc_limiter := l\<rparr>
      | (True, l) \<Rightarrow> s\<lparr>pc_limiter := l, pc_rtspSessions := gput sess code (pc_rtspSessions s)\<rparr>)"

definition OnSessionClose :: "nat \<Rightarrow> PlayConns \<Rightarrow> PlayConns" where
  "OnSessionClose sess s =
     (case gget (pc_rtspSessions s) sess of
        None \<Rightarrow> s
      | Some code \<Rightarrow> s\<lparr>pc_rtspSessions := gdel sess (pc_rtspSessions s), pc_limiter := release code (pc_limiter s)\<rparr>)"

definition conn_open :: "nat \<Rightarrow> StreamCode \<Rightarrow> PlayConns \<Rightarrow> PlayConns" where
  "conn_open i code s =
     (if gget (pc_conns s) i \<noteq> None then s
      else case acquire code (pc_limiter s) of
        (False, l) \<Rightarrow> s\<lparr>pc_limiter := l\<rparr>
      | (True, l) \<Rightarrow> s\<lparr>pc_limiter := l, pc_conns := gput i code (pc_conns s)\<rparr>)"

definition conn_close :: "nat \<Rightarrow> PlayConns \<Rightarrow> PlayConns" where
  "conn_close i s =
     (case gget (pc_conns s) i of
        None \<Rightarrow> s
      | Some code \<Rightarrow> s\<lparr>pc_conns := gdel i (pc_conns s), pc_limiter := release code (pc_limiter s)\<rparr>)"

datatype PlayOp = PConnect nat StreamCode | PDisconnect nat | PRtspPlay nat StreamCode bool | PRtspClose nat

fun play_step :: "PlayOp \<Rightarrow> PlayConns \<Rightarrow> PlayConns" where
  "play_step (PConnect i code) s = conn_open i code s"
| "play_step (PDisconnect i) s = conn_close i s"
| "play_step (PRtspPlay sess code allowed) s = OnPlay sess code allowed s"
| "play_step (PRtspClose sess) s = OnSessionClose sess s"

subsection \<open>Push destinations\<close>

definition maxPushErrorHistory :: nat where "maxPushErrorHistory = 5"
definition DefaultPushRetryTimeoutSec :: int where "DefaultPushRetryTimeoutSec = 5"

definition recordPushErrorEntry :: "ErrorEntry \<Rightarrow> ErrorEntry list \<Rightarrow> ErrorEntry list" where
  "recordPushErrorEntry e errs =
     (if maxPushErrorHistory \<le> length errs then e # take (maxPushErrorHistory - 1) errs @ drop maxPushErrorHistory errs
      else e # errs)"

interpretation push_log: bounded_log maxPushErrorHistory recordPushErrorEntry
  by unfold_locales (auto simp: recordPushErrorEntry_def maxPushErrorHistory_def take_Cons')

definition fresh_push :: PushState where
  "fresh_push = \<lparr>pu_status = PushStarting, pu_attempt = 0, pu_connectedAt = None, pu_errors = []\<rparr>"

definition push_map :: "StreamCode \<Rightarrow> PubService \<Rightarrow> (string \<times> PushState) list" where
  "push_map code pb = (case gget (pb_pushStates pb) code of None \<Rightarrow> [] | Some m \<Rightarrow> m)"

text \<open>\<^verbatim>\<open>getOrCreatePushState\<close> and a change of the state it returns.\<close>

definition push_state :: "StreamCode \<Rightarrow> string \<Rightarrow> PubService \<Rightarrow> PushState" where
  "push_state code url pb = (case gget (push_map code pb) url of None \<Rightarrow> fresh_push | Some st \<Rightarrow> st)"

definition upd_push :: "StreamCode \<Rightarrow> string \<Rightarrow> (PushState \<Rightarrow> PushState) \<Rightarrow> PubService \<Rightarrow> PubService" where
  "upd_push code url f pb =
     pb\<lparr>pb_pushStates := gput code (gput url (f (push_state code url pb)) (push_map code pb)) (pb_pushStates pb)\<rparr>"

fun push_event :: "PushStatus \<Rightarrow> string" where
  "push_event PushStarting = ''push.started''"
| "push_event PushActive = ''push.active''"
| "push_event PushReconnecting = ''push.reconnecting''"
| "push_event PushFailed = ''push.failed''"

definition setPushStatus :: "gotime \<Rightarrow> StreamCode \<Rightarrow> string \<Rightarrow> PushStatus \<Rightarrow> PubService \<Rightarrow> PubService" where
  "setPushStatus now code url status pb =
     (let prev = pu_status (push_state code url pb);
          f = (\<lambda>st. if status = PushActive then st\<lparr>pu_status := status, pu_connectedAt := Some now, pu_errors := []\<rparr>
                    else st\<lparr>pu_status := status, pu_connectedAt := None\<rparr>);
          pb1 = upd_push code url f pb
      in if prev \<noteq> status then pb1\<lparr>pb_events := pb_events pb1 @ [(push_event status, code, url)]\<rparr> else pb1)"

definition setPushAttempt :: "StreamCode \<Rightarrow> string \<Rightarrow> nat \<Rightarrow> PubService \<Rightarrow> PubService" where
  "setPushAttempt code url n = upd_push code url (\<lambda>st. st\<lparr>pu_attempt := n\<rparr>)"

definition recordPushError :: "StreamCode \<Rightarrow> string \<Rightarrow> ErrorEntry \<Rightarrow> PubService \<Rightarrow> PubService" where
  "recordPushError code url e = upd_push code url (\<lambda>st. st\<lparr>pu_errors := recordPushErrorEntry e (pu_errors st)\<rparr>)"

definition removePushState :: "StreamCode \<Rightarrow> string \<Rightarrow> PubService \<Rightarrow> PubService" where
  "removePushState code url pb =
     (case gget (pb_pushStates pb) code of
        None \<Rightarrow> pb
      | Some m \<Rightarrow>
          let m' = gdel url m in
          pb\<lparr>pb_pushStates := (if length m' = 0 then gdel code (pb_pushStates pb) else gput code m' (pb_pushStates pb))\<rparr>)"

definition pub_RuntimeStatus :: "StreamCode \<Rightarrow> PubService \<Rightarrow> (string \<times> PushState) list option" where
  "pub_RuntimeStatus code pb = map_option (sort_key fst) (gget (pb_pushStates pb) code)"

text \<open>
  One push session as its caller sees it: whether the handshake completed, when, and how the session ended. After the
  session, or during the wait before the next one, the stream's context may have been cancelled.
\<close>

datatype PushEnd = EndDiscontinuity | EndError string | EndClean

record PushSession =
  px_published :: "gotime option"
  px_end :: PushEnd
  px_at :: gotime
  px_cancelled :: bool
  px_cancelledWait :: bool

definition session_run :: "StreamCode \<Rightarrow> string \<Rightarrow> PushSession \<Rightarrow> PubService \<Rightarrow> PubService" where
  "session_run code url x pb = (case px_published x of None \<Rightarrow> pb | Some t \<Rightarrow> setPushStatus t code url PushActive pb)"

text \<open>\<^verbatim>\<open>serveRTMPPush\<close> over the sessions that follow one another; when they run out the context is cancelled.\<close>

fun push_loop :: "StreamCode \<Rightarrow> PushDestination \<Rightarrow> nat \<Rightarrow> gotime \<Rightarrow> PushSession list \<Rightarrow> PubService \<Rightarrow> PubService \<times> nat" where
  "push_loop code d attempts now sess pb =
     (if 0 < pd_Limit d \<and> pd_Limit d \<le> int attempts then (setPushStatus now code (pd_URL d) PushFailed pb, 0)
      else case sess of
        [] \<Rightarrow> (pb, 0)
      | x # xs \<Rightarrow>
          let url = pd_URL d;
              pb1 = session_run code url x (setPushAttempt code url (attempts + 1) pb)
          in if px_cancelled x then (pb1, 1)
             else case px_end x of
               EndDiscontinuity \<Rightarrow>
                 (case push_loop code d 0 (px_at x) xs (setPushAttempt code url 0 pb1) of (pb2, n) \<Rightarrow> (pb2, n + 1))
             | e \<Rightarrow>
                 let pb2 = (case e of EndError msg \<Rightarrow> recordPushError code url \<lparr>ee_Message = msg, ee_At = px_at x\<rparr> pb1 | _ \<Rightarrow> pb1);
                     pb3 = setPushStatus (px_at x) code url PushReconnecting pb2
                 in if px_cancelledWait x then (pb3, 1)
                    else (case push_loop code d (attempts + 1) (px_at x) xs pb3 of (pb4, n) \<Rightarrow> (pb4, n + 1)))"

declare push_loop.simps [simp del]

definition retry_delay :: "PushDestination \<Rightarrow> duration" where
  "retry_delay d = seconds (if pd_RetryTimeoutSec d \<le> 0 then DefaultPushRetryTimeoutSec else pd_RetryTimeoutSec d)"

definition serveRTMPPush :: "StreamCode \<Rightarrow> PushDestination \<Rightarrow> gotime \<Rightarrow> PushSession list \<Rightarrow> PubService \<Rightarrow> PubService \<times> nat" where
  "serveRTMPPush code d now sess pb =
     (if \<not> prefix ''rtmp://'' (pd_URL d) \<and> \<not> prefix ''rtmps://'' (pd_URL d) then (pb, 0)
      else case push_loop code d 0 now sess (setPushStatus now code (pd_URL d) PushStarting pb) of
        (pb1, n) \<Rightarrow> (removePushState code (pd_URL d) pb1, n))"

subsection \<open>Lemmas: connection caps\<close>

text \<open>How many connections hold a slot of a stream.\<close>

definition held :: "PlayConns \<Rightarrow> StreamCode list" where
  "held s = map snd (pc_conns s) @ map snd (pc_rtspSessions s)"

definition conns_ok :: "int \<Rightarrow> int \<Rightarrow> PlayConns \<Rightarrow> bool" where
  "conns_ok mp mt s \<longleftrightarrow> lm_maxPerStream (pc_limiter s) = mp \<and> lm_maxTotal (pc_limiter s) = mt \<and>
     gwf (pc_conns s) \<and> gwf (pc_rtspSessions s) \<and>
     lm_total (pc_limiter s) = int (length (held s)) \<and>
     (\<forall>code. per_stream (pc_limiter s) code = int (count_list (held s) code)) \<and>
     (0 < mt \<longrightarrow> int (length (held s)) \<le> mt) \<and>
     (\<forall>code. 0 < mp \<longrightarrow> int (count_list (held s) code) \<le> mp)"

lemma gput_fresh: "gget m k = None \<Longrightarrow> gput k v m = m @ [(k, v)]"
  by (induction m) auto

lemma mset_gdel: "gwf m \<Longrightarrow> gget m k = Some v \<Longrightarrow> mset (map snd m) = add_mset v (mset (map snd (gdel k m)))"
proof (induction m)
  case (Cons p m)
  show ?case
  proof (cases "fst p = k")
    case True
    then have "gdel k m = m" using Cons.prems(1) by (intro delete_id) auto
    with True Cons.prems show ?thesis by (cases p) simp
  qed (use Cons in \<open>cases p, auto\<close>)
qed simp

lemma per_stream_gput [simp]:
  "per_stream (l\<lparr>lm_total := t, lm_perStream := gput code n (lm_perStream l)\<rparr>) c = (if c = code then n else per_stream l c)"
  "per_stream (l\<lparr>lm_perStream := gput code n (lm_perStream l), lm_total := t\<rparr>) c = (if c = code then n else per_stream l c)"
  "per_stream (l\<lparr>lm_perStream := gdel code (lm_perStream l), lm_total := t\<rparr>) c = (if c = code then 0 else per_stream l c)"
  by (auto simp: per_stream_def map_simps)

lemma acquire_ok:
  assumes "conns_ok mp mt s" and "acquire code (pc_limiter s) = (True, l)"
    and "mset (held s') = add_mset code (mset (held s))" and "pc_limiter s' = l"
    and "gwf (pc_conns s')" and "gwf (pc_rtspSessions s')"
  shows "conns_ok mp mt s'"
proof -
  have len: "length (held s') = Suc (length (held s))" using arg_cong [OF assms(3), of size] by simp
  have cnt: "count_list (held s') c = count_list (held s) c + (if c = code then 1 else 0)" for c
    using arg_cong [OF assms(3), of "\<lambda>m. count m c"] by (simp add: count_mset)
  from assms(2) have l: "l = (pc_limiter s)\<lparr>lm_total := lm_total (pc_limiter s) + 1,
      lm_perStream := gput code (per_stream (pc_limiter s) code + 1) (lm_perStream (pc_limiter s))\<rparr>"
    and free: "\<not> (0 < lm_maxTotal (pc_limiter s) \<and> lm_maxTotal (pc_limiter s) \<le> lm_total (pc_limiter s))"
      "\<not> (0 < lm_maxPerStream (pc_limiter s) \<and> lm_maxPerStream (pc_limiter s) \<le> per_stream (pc_limiter s) code)"
    by (auto simp: acquire_def split: if_splits)
  show ?thesis
    using assms(1,4-6) free len cnt unfolding conns_ok_def l by auto
qed

lemma release_ok:
  assumes "conns_ok mp mt s" and "mset (held s) = add_mset code (mset (held s'))"
    and "pc_limiter s' = release code (pc_limiter s)" and "gwf (pc_conns s')" and "gwf (pc_rtspSessions s')"
  shows "conns_ok mp mt s'"
proof -
  have len: "length (held s) = Suc (length (held s'))" using arg_cong [OF assms(2), of size] by simp
  have cnt: "count_list (held s) c = count_list (held s') c + (if c = code then 1 else 0)" for c
    using arg_cong [OF assms(2), of "\<lambda>m. count m c"] by (simp add: count_mset)
  have tot: "0 < lm_total (pc_limiter s)" using assms(1) len by (simp add: conns_ok_def)
  have n: "per_stream (pc_limiter s) code = int (count_list (held s') code) + 1" using assms(1) cnt by (simp add: conns_ok_def)
  have "per_stream (pc_limiter s') c = int (count_list (held s') c)" for c
    using assms(1) cnt [of c] n tot unfolding assms(3) release_def Let_def by (simp add: conns_ok_def)
  moreover have "lm_total (pc_limiter s') = int (length (held s'))"
    "lm_maxTotal (pc_limiter s') = lm_maxTotal (pc_limiter s)" "lm_maxPerStream (pc_limiter s') = lm_maxPerStream (pc_limiter s)"
    using assms(1) len tot unfolding assms(3) release_def Let_def by (simp_all add: conns_ok_def)
  moreover have "0 < mt \<longrightarrow> int (length (held s')) \<le> mt" using assms(1) len by (auto simp: conns_ok_def)
  moreover have "0 < mp \<longrightarrow> int (count_list (held s') c) \<le> mp" for c
  proof
    assume "0 < mp"
    with assms(1) have "int (count_list (held s) c) \<le> mp" by (simp add: conns_ok_def)
    with cnt [of c] show "int (count_list (held s') c) \<le> mp" by (simp split: if_splits)
  qed
  ultimately show ?thesis using assms(1,4,5) by (simp add: conns_ok_def)
qed

lemma refused_ok: "acquire code (pc_limiter s) = (False, l) \<Longrightarrow> conns_ok mp mt s \<Longrightarrow> conns_ok mp mt (s\<lparr>pc_limiter := l\<rparr>)"
  by (auto simp: acquire_def split: if_splits)

lemma play_step_ok:
  assumes "conns_ok mp mt s" shows "conns_ok mp mt (play_step op s)"
proof -
  have wf: "gwf (pc_conns s)" "gwf (pc_rtspSessions s)" using assms by (simp_all add: conns_ok_def)
  show ?thesis
  proof (cases op)
    case (PConnect i code)
    show ?thesis
    proof (cases "gget (pc_conns s) i = None \<and> fst (acquire code (pc_limiter s))")
      case True
      then obtain l where l: "acquire code (pc_limiter s) = (True, l)" by (cases "acquire code (pc_limiter s)") auto
      with True PConnect wf show ?thesis
        by (auto simp: conn_open_def held_def gput_fresh intro!: acquire_ok [OF assms l])
    qed (use assms PConnect in \<open>auto simp: conn_open_def intro: refused_ok split: prod.split bool.splits\<close>)
  next
    case (PDisconnect i)
    show ?thesis
    proof (cases "gget (pc_conns s) i")
      case (Some code)
      from mset_gdel [OF wf(1) Some] PDisconnect Some wf show ?thesis
        by (auto simp: conn_close_def held_def intro!: release_ok [OF assms])
    qed (use assms PDisconnect in \<open>simp add: conn_close_def\<close>)
  next
    case (PRtspPlay i code ok)
    show ?thesis
    proof (cases "code \<noteq> [] \<and> ok \<and> gget (pc_rtspSessions s) i = None \<and> fst (acquire code (pc_limiter s))")
      case True
      then obtain l where l: "acquire code (pc_limiter s) = (True, l)" by (cases "acquire code (pc_limiter s)") auto
      with True PRtspPlay wf show ?thesis
        by (auto simp: OnPlay_def held_def gput_fresh intro!: acquire_ok [OF assms l])
    qed (use assms PRtspPlay in \<open>auto simp: OnPlay_def intro: refused_ok split: prod.split bool.splits\<close>)
  next
    case (PRtspClose i)
    show ?thesis
    proof (cases "gget (pc_rtspSessions s) i")
      case (Some code)
      from mset_gdel [OF wf(2) Some] PRtspClose Some wf show ?thesis
        by (auto simp: OnSessionClose_def held_def intro!: release_ok [OF assms])
    qed (use assms PRtspClose in \<open>simp add: OnSessionClose_def\<close>)
  qed
qed

interpretation conns: invariant_machine play_step "conns_ok mp mt"
  by unfold_locales (rule play_step_ok)

definition no_conns :: "int \<Rightarrow> int \<Rightarrow> PlayConns" where
  "no_conns mp mt = \<lparr>pc_limiter = newConnLimiter mp mt, pc_conns = [], pc_rtspSessions = []\<rparr>"

lemma no_conns_ok: "conns_ok mp mt (no_conns mp mt)"
  by (simp add: conns_ok_def no_conns_def newConnLimiter_def held_def per_stream_def)

text \<open>
  C22: playback slots never leak and the caps hold. After any sequence of connects, disconnects, PLAY requests (repeated
  ones included) and session ends, the limiter counts exactly the connections that are open, for each stream and in
  total, and neither count exceeds its cap.
\<close>

theorem playback_slots_are_exact:
  fixes ops :: "PlayOp list" and perStream total :: int
  defines "s \<equiv> fold play_step ops (no_conns (resolvePlaybackCap perStream defaultMaxPlaybackConnPerStream)
      (resolvePlaybackCap total defaultMaxPlaybackConnTotal))"
  shows "lm_total (pc_limiter s) = int (length (held s)) \<and>
    (\<forall>code. per_stream (pc_limiter s) code = int (count_list (held s) code)) \<and>
    (total < 0 \<or> int (length (held s)) \<le> (if total = 0 then 4096 else total)) \<and>
    (perStream < 0 \<or> (\<forall>code. int (count_list (held s) code) \<le> (if perStream = 0 then 256 else perStream)))"
proof -
  have "conns_ok (resolvePlaybackCap perStream defaultMaxPlaybackConnPerStream)
      (resolvePlaybackCap total defaultMaxPlaybackConnTotal) s"
    unfolding s_def by (rule conns.run_inv [OF no_conns_ok])
  then show ?thesis
    by (auto simp: conns_ok_def resolvePlaybackCap_def defaultMaxPlaybackConnPerStream_def
        defaultMaxPlaybackConnTotal_def split: if_splits)
qed

subsection \<open>Lemmas: push destinations\<close>

lemma push_map_upd [simp]:
  "push_map code (upd_push code url f pb) = gput url (f (push_state code url pb)) (push_map code pb)"
  by (simp add: upd_push_def push_map_def map_simps)

lemma setPushStatus_map [simp]:
  "gget (push_map code (setPushStatus now code url st pb)) u =
     (if u = url then Some (if st = PushActive then (push_state code url pb)\<lparr>pu_status := st, pu_connectedAt := Some now, pu_errors := []\<rparr>
         else (push_state code url pb)\<lparr>pu_status := st, pu_connectedAt := None\<rparr>)
      else gget (push_map code pb) u)"
  by (simp add: setPushStatus_def Let_def upd_push_def push_map_def map_simps split: if_splits)

text \<open>A session that does not end in a discontinuity: the push state after it, and what follows.\<close>

definition after_session :: "StreamCode \<Rightarrow> PushDestination \<Rightarrow> nat \<Rightarrow> PushSession \<Rightarrow> PubService \<Rightarrow> PubService" where
  "after_session code d attempts x pb =
     (let url = pd_URL d; pb1 = session_run code url x (setPushAttempt code url (attempts + 1) pb) in
      if px_cancelled x then pb1
      else setPushStatus (px_at x) code url PushReconnecting
        (case px_end x of EndError msg \<Rightarrow> recordPushError code url \<lparr>ee_Message = msg, ee_At = px_at x\<rparr> pb1 | _ \<Rightarrow> pb1))"

lemma push_loop_Cons:
  assumes "\<not> (0 < pd_Limit d \<and> pd_Limit d \<le> int attempts)" and "px_end x \<noteq> EndDiscontinuity"
  shows "push_loop code d attempts now (x # xs) pb =
     (let pb1 = after_session code d attempts x pb in
      if px_cancelled x \<or> px_cancelledWait x then (pb1, 1)
      else case push_loop code d (attempts + 1) (px_at x) xs pb1 of (pb2, n) \<Rightarrow> (pb2, n + 1))"
  using assms unfolding push_loop.simps [of code d attempts now "x # xs" pb] after_session_def Let_def
  by (cases "px_end x") auto

lemma push_loop_attempts:
  assumes "push_loop code d attempts now sess pb = (pb', n)" and "0 < pd_Limit d" and "int attempts \<le> pd_Limit d"
    and "\<forall>x \<in> set sess. px_end x \<noteq> EndDiscontinuity"
  shows "int n \<le> pd_Limit d - int attempts"
  using assms
proof (induction sess arbitrary: attempts now pb pb' n)
  case Nil
  then show ?case by (auto simp: push_loop.simps [of code d attempts] split: if_splits)
next
  case (Cons x xs)
  show ?case
  proof (cases "pd_Limit d \<le> int attempts")
    case True
    then show ?thesis using Cons.prems by (auto simp: push_loop.simps [of code d attempts])
  next
    case less: False
    obtain r k where rk: "push_loop code d (attempts + 1) (px_at x) xs (after_session code d attempts x pb) = (r, k)"
      by (metis surj_pair)
    have "int k \<le> pd_Limit d - int (attempts + 1)" using Cons.IH [OF rk] Cons.prems less by simp
    then show ?thesis
      using Cons.prems(1,4) less rk by (auto simp: push_loop_Cons Let_def split: if_splits)
  qed
qed


text \<open>The state of a destination disappears with its goroutine: no reader ever sees that it gave up.\<close>

lemma removePushState_map: "gget (push_map code (removePushState code url pb)) url = None"
  by (auto simp: removePushState_def push_map_def map_simps Let_def split: option.splits)

lemma failed_push_is_not_reported:
  assumes "prefix ''rtmp://'' (pd_URL d) \<or> prefix ''rtmps://'' (pd_URL d)"
  shows "gget (push_map code (fst (serveRTMPPush code d now sess pb))) (pd_URL d) = None"
  using assms by (auto simp: serveRTMPPush_def removePushState_map split: prod.split)

text \<open>
  A destination that never ran has no state, and a lazily created state is already starting, so the event that the
  documentation announces for the start of a push is not published.
\<close>

lemma push_started_is_never_published:
  assumes "gget (push_map code pb) url = None"
  shows "pb_events (setPushStatus now code url PushStarting pb) = pb_events pb"
  using assms by (simp add: setPushStatus_def push_state_def fresh_push_def upd_push_def Let_def)

text \<open>
  Attempts are not counted anew after a session that was active: with a limit of one a destination that was
  connected for any time and then lost its connection is given up.
\<close>

definition one_try :: PushDestination where
  "one_try = \<lparr>pd_URL = ''rtmp://cdn/x'', pd_Enabled = True, pd_TimeoutSec = 0, pd_RetryTimeoutSec = 0, pd_Limit = 1,
     pd_Comment = [], pd_Status = []\<rparr>"

definition empty_pub :: PubService where
  "empty_pub = \<lparr>pb_hlsDir = ''/hls'', pb_dashDir = ''/dash'', pb_streams = [], pb_mediaBuffer = [], pb_pushStates = [],
     pb_removed = [], pb_events = []\<rparr>"

definition good_session :: "gotime \<Rightarrow> PushSession" where
  "good_session t = \<lparr>px_published = Some t, px_end = EndError ''reset'', px_at = t + seconds 86400, px_cancelled = False,
     px_cancelledWait = False\<rparr>"

lemma active_session_does_not_reset_attempts:
  "snd (serveRTMPPush ''a'' one_try 0 [good_session 1, good_session 2, good_session 3] empty_pub) = 1"
  by code_simp


subsection \<open>Lemmas: an update against a fresh start\<close>

lemma push_proto_simps [simp]:
  "push_proto u = push_proto v \<longleftrightarrow> u = v"
  "push_proto u \<noteq> ''hls''" "push_proto u \<noteq> ''dash''" "push_proto u \<noteq> ''rtsp''"
  "''hls'' \<noteq> push_proto u" "''dash'' \<noteq> push_proto u" "''rtsp'' \<noteq> push_proto u"
  by (simp_all add: push_proto_def)

lemma protocol_fields [simp]:
  "pst_protocols (spawnProtocol k j ss) = gput k j (pst_protocols ss)" "pst_mediaBuf (spawnProtocol k j ss) = pst_mediaBuf ss"
  "pst_code (spawnProtocol k j ss) = pst_code ss" "pst_mpegtsEnabled (spawnProtocol k j ss) = pst_mpegtsEnabled ss"
  "pst_playbackPolicy (spawnProtocol k j ss) = pst_playbackPolicy ss" "pst_streamKey (spawnProtocol k j ss) = pst_streamKey ss"
  "pst_protocols (dropProtocol k ss) = gdel k (pst_protocols ss)" "pst_mediaBuf (dropProtocol k ss) = pst_mediaBuf ss"
  "pst_code (dropProtocol k ss) = pst_code ss" "pst_mpegtsEnabled (dropProtocol k ss) = pst_mpegtsEnabled ss"
  "pst_playbackPolicy (dropProtocol k ss) = pst_playbackPolicy ss" "pst_streamKey (dropProtocol k ss) = pst_streamKey ss"
  by (simp_all add: spawnProtocol_def dropProtocol_def)

text \<open>What a stream's state says besides its outputs.\<close>

definition pub_meta :: "PubStream \<Rightarrow> StreamCode \<times> StreamCode \<times> bool \<times> PolicyCode \<times> string" where
  "pub_meta ss = (pst_code ss, pst_mediaBuf ss, pst_mpegtsEnabled ss, pst_playbackPolicy ss, pst_streamKey ss)"

definition same_outputs :: "PubStream \<Rightarrow> PubStream \<Rightarrow> bool" where
  "same_outputs a b \<longleftrightarrow> pub_meta a = pub_meta b \<and> map_of (pst_protocols a) = map_of (pst_protocols b)"

definition fresh_pub :: "Stream \<Rightarrow> PubStream" where
  "fresh_pub s = spawnOutputs s (protocolsValue (s_Protocols s)) (new_pub_stream s)"

lemma pub_meta_keep [simp]:
  "pub_meta (spawnProtocol k j ss) = pub_meta ss" "pub_meta (dropProtocol k ss) = pub_meta ss"
  "pub_meta (spawn_push code d ss) = pub_meta ss"
  by (auto simp: pub_meta_def spawn_push_def)

lemma fold_keeps: "(\<And>x s. f (g x s) = f s) \<Longrightarrow> f (fold g xs s) = f s"
  by (induction xs arbitrary: s) auto

lemma media_of_meta: "pub_meta a = pub_meta b \<Longrightarrow> pst_mediaBuf a = pst_mediaBuf b"
  by (simp add: pub_meta_def)

text \<open>The output of the destinations under a key, the URLs being distinct.\<close>

definition dest_for :: "(PushDestination \<Rightarrow> bool) \<Rightarrow> string \<Rightarrow> PushDestination list \<Rightarrow> PushDestination option" where
  "dest_for P key ds = find (\<lambda>d. P d \<and> push_proto (pd_URL d) = key) ds"

lemma fold_put_dest:
  assumes "distinct (map pd_URL ds)" and "\<And>d ss. pst_mediaBuf (f d ss) = pst_mediaBuf ss"
    and "\<And>d ss. pst_protocols (f d ss) =
      (if P d then gput (push_proto (pd_URL d)) (ServeRTMPPush code (pst_mediaBuf ss) d) (pst_protocols ss) else pst_protocols ss)"
  shows "gget (pst_protocols (fold f ds ss)) key =
    (case dest_for P key ds of Some d \<Rightarrow> Some (ServeRTMPPush code (pst_mediaBuf ss) d) | None \<Rightarrow> gget (pst_protocols ss) key)"
  using assms(1)
proof (induction ds arbitrary: ss)
  case (Cons d ds)
  show ?case
  proof (cases "P d \<and> push_proto (pd_URL d) = key")
    case True
    have "dest_for P key ds = None"
      using Cons.prems True by (auto simp: dest_for_def find_None_iff) (metis image_eqI)
    with True Cons show ?thesis by (simp add: assms(2,3) map_simps dest_for_def)
  next
    case False
    with Cons show ?thesis by (auto simp: assms(2,3) map_simps dest_for_def split: option.splits)
  qed
qed (simp add: dest_for_def)

lemma fold_drop:
  assumes "\<And>d ss. pst_protocols (f d ss) = (if P d then gdel (push_proto (pd_URL d)) (pst_protocols ss) else pst_protocols ss)"
  shows "gget (pst_protocols (fold f ds ss)) key = (if dest_for P key ds \<noteq> None then None else gget (pst_protocols ss) key)"
proof (induction ds arbitrary: ss)
  case (Cons d ds)
  then show ?case by (auto simp: assms map_simps dest_for_def)
qed (simp add: dest_for_def)

lemma fresh_pub_protocols:
  assumes "distinct (map pd_URL (s_Push s))"
  shows "gget (pst_protocols (fresh_pub s)) key =
    (let p = protocolsValue (s_Protocols s); buf = PlaybackBufferID (s_Code s) (s_Transcoder s) in
     case dest_for pd_Enabled key (s_Push s) of
       Some d \<Rightarrow> Some (ServeRTMPPush (s_Code s) buf d)
     | None \<Rightarrow> if key = ''rtsp'' \<and> op_RTSP p then Some (ServeRTSP (s_Code s) buf)
               else if key = ''dash'' \<and> op_DASH p then Some (dashFunc s)
               else if key = ''hls'' \<and> op_HLS p then Some (hlsFunc buf s) else None)"
  unfolding fresh_pub_def spawnOutputs_def Let_def
  by (subst fold_put_dest [OF assms, where P = pd_Enabled and code = "s_Code s"])
    (auto simp: spawn_push_def new_pub_stream_def map_simps split: option.splits)

lemma fresh_pub_meta:
  "pub_meta (fresh_pub s) = (s_Code s, PlaybackBufferID (s_Code s) (s_Transcoder s), op_MPEGTS (protocolsValue (s_Protocols s)),
     s_PlaybackPolicy s, s_StreamKey s)"
  unfolding fresh_pub_def spawnOutputs_def Let_def
  by (subst fold_keeps [where f = pub_meta]) (simp_all, simp_all add: pub_meta_def new_pub_stream_def)

text \<open>Operations of the service on one stream, as functions of its state.\<close>

definition acts :: "StreamCode \<Rightarrow> (PubStream \<Rightarrow> PubStream) \<Rightarrow> (PubService \<Rightarrow> PubService) \<Rightarrow> bool" where
  "acts code f op \<longleftrightarrow> (\<forall>pb c. gget (pb_streams (op pb)) c =
     (if c = code then map_option f (gget (pb_streams pb) code) else gget (pb_streams pb) c))"

lemma acts_basic:
  "acts code (dropProtocol key) (stopProtocol code key)"
  "acts code (\<lambda>ss. spawnProtocol key (job ss) ss) (startProtocol code key job)"
  "acts code (\<lambda>ss. ss) (\<lambda>pb. pb)"
  by (auto simp: acts_def stopProtocol_def startProtocol_def pub_set_def map_simps option.map_ident split: option.split)

lemma acts_fold: "(\<And>x. acts code (f x) (g x)) \<Longrightarrow> acts code (fold f xs) (fold g xs)"
proof (induction xs)
  case (Cons x xs)
  then have "acts code (f x) (g x)" "acts code (fold f xs) (fold g xs)" by blast+
  then show ?case by (auto simp: acts_def option.map_comp comp_def)
qed (use acts_basic(3) in \<open>simp add: id_def\<close>)

definition toggle1 :: "bool \<Rightarrow> bool \<Rightarrow> string \<Rightarrow> (PubStream \<Rightarrow> OutJob) \<Rightarrow> PubStream \<Rightarrow> PubStream" where
  "toggle1 was now key job ss =
     (if was \<and> \<not> now then dropProtocol key ss else if \<not> was \<and> now then spawnProtocol key (job ss) ss else ss)"

definition stops :: "(string \<times> PushDestination) list \<Rightarrow> PushDestination \<Rightarrow> bool" where
  "stops m od \<longleftrightarrow> (case gget m (pd_URL od) of None \<Rightarrow> True | Some nd \<Rightarrow> \<not> pd_Enabled nd \<and> pd_Enabled od)"

definition starts :: "(string \<times> PushDestination) list \<Rightarrow> PushDestination \<Rightarrow> bool" where
  "starts m nd \<longleftrightarrow> pd_Enabled nd \<and> (case gget m (pd_URL nd) of None \<Rightarrow> True | Some od \<Rightarrow> \<not> pd_Enabled od)"

definition stop1 :: "(string \<times> PushDestination) list \<Rightarrow> PushDestination \<Rightarrow> PubStream \<Rightarrow> PubStream" where
  "stop1 m od ss = (if stops m od then dropProtocol (push_proto (pd_URL od)) ss else ss)"

definition start1 :: "StreamCode \<Rightarrow> (string \<times> PushDestination) list \<Rightarrow> PushDestination \<Rightarrow> PubStream \<Rightarrow> PubStream" where
  "start1 code m nd ss =
     (if starts m nd then spawnProtocol (push_proto (pd_URL nd)) (ServeRTMPPush code (pst_mediaBuf ss) nd) ss else ss)"

lemma acts_if: "(P \<Longrightarrow> acts code f op) \<Longrightarrow> acts code (\<lambda>ss. if P then f ss else ss) (\<lambda>pb. if P then op pb else pb)"
  using acts_basic(3) by (cases P) auto

lemma acts_toggle: "acts code (toggle1 was now key job) (toggle was now code key job)"
  using acts_basic(1,2) [of code key] acts_basic(3) [of code]
  by (cases was; cases now) (simp_all add: toggle_def [abs_def] toggle1_def [abs_def])

lemma acts_stop: "acts code (stop1 m od) (stop_push code m od)"
proof -
  have "stop_push code m od = (\<lambda>pb. if stops m od then stopProtocol code (push_proto (pd_URL od)) pb else pb)"
    by (auto simp: stop_push_def stops_def fun_eq_iff split: option.splits)
  then show ?thesis using acts_if [OF acts_basic(1)] by (simp add: stop1_def [abs_def])
qed

lemma acts_start: "acts code (start1 code m nd) (start_push code m nd)"
proof -
  have "start_push code m nd = (\<lambda>pb. if starts m nd then startProtocol code (push_proto (pd_URL nd))
      (\<lambda>ss. ServeRTMPPush code (pst_mediaBuf ss) nd) pb else pb)"
    by (auto simp: start_push_def starts_def fun_eq_iff split: option.splits)
  then show ?thesis using acts_if [OF acts_basic(2)] by (simp add: start1_def [abs_def])
qed

lemma url_map_find: "distinct (map pd_URL ds) \<Longrightarrow> gget (url_map ds) u = find (\<lambda>d. pd_URL d = u) ds"
proof -
  have "gget (fold (\<lambda>d. gput (pd_URL d) d) ds m) u = (case find (\<lambda>d. pd_URL d = u) ds of Some d \<Rightarrow> Some d | None \<Rightarrow> gget m u)"
    if "distinct (map pd_URL ds)" for m
    using that
  proof (induction ds arbitrary: m)
    case (Cons d ds)
    show ?case
    proof (cases "pd_URL d = u")
      case True
      with Cons.prems have "find (\<lambda>d. pd_URL d = u) ds = None" by (auto simp: find_None_iff) (metis image_eqI)
      with True Cons show ?thesis by (simp add: map_simps)
    qed (use Cons in \<open>simp add: map_simps split: option.split\<close>)
  qed simp
  then show "distinct (map pd_URL ds) \<Longrightarrow> ?thesis" by (simp add: url_map_def split: option.split)
qed

text \<open>The update of the outputs of one stream, on its state.\<close>

definition update1 :: "Stream \<Rightarrow> Stream \<Rightarrow> PubStream \<Rightarrow> PubStream" where
  "update1 old new ss =
     (let op = protocolsValue (s_Protocols old); np = protocolsValue (s_Protocols new); code = s_Code new;
          s1 = ss\<lparr>pst_mediaBuf := PlaybackBufferID code (s_Transcoder new), pst_mpegtsEnabled := op_MPEGTS np,
             pst_playbackPolicy := s_PlaybackPolicy new, pst_streamKey := s_StreamKey new\<rparr>;
          s2 = toggle1 (op_HLS op) (op_HLS np) ''hls'' (\<lambda>ss. hlsFunc (pst_mediaBuf ss) new) s1;
          s3 = toggle1 (op_DASH op) (op_DASH np) ''dash'' (\<lambda>ss. dashFunc new) s2;
          s4 = toggle1 (op_RTSP op) (op_RTSP np) ''rtsp'' (\<lambda>ss. ServeRTSP code (pst_mediaBuf ss)) s3
      in fold (start1 code (url_map (s_Push old))) (s_Push new) (fold (stop1 (url_map (s_Push new))) (s_Push old) s4))"

lemma acts_value: "acts code f op \<Longrightarrow> gget (pb_streams (op pb)) c =
    (if c = code then map_option f (gget (pb_streams pb) code) else gget (pb_streams pb) c)"
  by (simp add: acts_def)

lemma UpdateProtocols_value:
  assumes "gget (pb_streams pb) (s_Code new) = Some ss"
  shows "fst (UpdateProtocols old new pb) = None"
    and "gget (pb_streams (snd (UpdateProtocols old new pb))) (s_Code new) = Some (update1 old new ss)"
    and "c \<noteq> s_Code new \<Longrightarrow> gget (pb_streams (snd (UpdateProtocols old new pb))) c = gget (pb_streams pb) c"
proof -
  note act = acts_value [OF acts_fold [of _ "stop1 m" "stop_push code m" for code m, OF acts_stop]]
    acts_value [OF acts_fold [of _ "start1 code m" "start_push code m" for code m, OF acts_start]] acts_value [OF acts_toggle]
  show "fst (UpdateProtocols old new pb) = None" using assms by (simp add: UpdateProtocols_def Let_def)
  show "gget (pb_streams (snd (UpdateProtocols old new pb))) (s_Code new) = Some (update1 old new ss)"
    using assms unfolding UpdateProtocols_def Let_def option.case updatePushDestinations_def
    by (simp only: option.case snd_conv act if_True refl) (simp add: pub_set_def map_simps update1_def Let_def)
  show "c \<noteq> s_Code new \<Longrightarrow> gget (pb_streams (snd (UpdateProtocols old new pb))) c = gget (pb_streams pb) c"
    using assms unfolding UpdateProtocols_def Let_def option.case updatePushDestinations_def
    by (simp only: option.case snd_conv act if_False) (simp add: pub_set_def map_simps)
qed

lemma start1_simps [simp]:
  "pst_mediaBuf (start1 code m d ss) = pst_mediaBuf ss" "pst_mediaBuf (stop1 m d ss) = pst_mediaBuf ss"
  "pst_mediaBuf (toggle1 was now key job ss) = pst_mediaBuf ss"
  "pub_meta (start1 code m d ss) = pub_meta ss" "pub_meta (stop1 m d ss) = pub_meta ss"
  "pub_meta (toggle1 was now key job ss) = pub_meta ss"
  "pst_protocols (start1 code m d ss) = (if starts m d
     then gput (push_proto (pd_URL d)) (ServeRTMPPush code (pst_mediaBuf ss) d) (pst_protocols ss) else pst_protocols ss)"
  "pst_protocols (stop1 m d ss) = (if stops m d then gdel (push_proto (pd_URL d)) (pst_protocols ss) else pst_protocols ss)"
  by (simp_all add: start1_def stop1_def toggle1_def)

lemma toggle1_value:
  "gget (pst_protocols (toggle1 was now key job ss)) k =
     (if k \<noteq> key then gget (pst_protocols ss) k
      else if was \<and> \<not> now then None else if \<not> was \<and> now then Some (job ss) else gget (pst_protocols ss) k)"
  by (simp add: toggle1_def map_simps)

lemma update1_meta:
  "pub_meta (update1 old new ss) = (pst_code ss, PlaybackBufferID (s_Code new) (s_Transcoder new),
     op_MPEGTS (protocolsValue (s_Protocols new)), s_PlaybackPolicy new, s_StreamKey new)"
  unfolding update1_def Let_def
  by (subst fold_keeps [where f = pub_meta], simp, subst fold_keeps [where f = pub_meta], simp) (simp, simp add: pub_meta_def)

lemma update1_protocols:
  assumes "distinct (map pd_URL (s_Push new))"
  shows "gget (pst_protocols (update1 old new ss)) key =
    (let op = protocolsValue (s_Protocols old); np = protocolsValue (s_Protocols new);
         buf = PlaybackBufferID (s_Code new) (s_Transcoder new);
         keep = (\<lambda>was now job. if was \<and> \<not> now then None else if \<not> was \<and> now then Some job else gget (pst_protocols ss) key) in
     case dest_for (starts (url_map (s_Push old))) key (s_Push new) of
       Some d \<Rightarrow> Some (ServeRTMPPush (s_Code new) buf d)
     | None \<Rightarrow> if dest_for (stops (url_map (s_Push new))) key (s_Push old) \<noteq> None then None
               else if key = ''rtsp'' then keep (op_RTSP op) (op_RTSP np) (ServeRTSP (s_Code new) buf)
               else if key = ''dash'' then keep (op_DASH op) (op_DASH np) (dashFunc new)
               else if key = ''hls'' then keep (op_HLS op) (op_HLS np) (hlsFunc buf new)
               else gget (pst_protocols ss) key)"
proof -
  have buf: "pst_mediaBuf (fold (stop1 m) ds s) = pst_mediaBuf s" for m ds s by (rule fold_keeps) simp
  note put = fold_put_dest [where f = "start1 (s_Code new) m" and P = "starts m" and code = "s_Code new" for m,
      OF assms start1_simps(1) start1_simps(7)]
  note drop = fold_drop [where f = "stop1 m" and P = "stops m" for m, OF start1_simps(8)]
  show ?thesis
  proof (cases "dest_for (starts (url_map (s_Push old))) key (s_Push new)")
    case None
    consider "key = ''rtsp''" | "key = ''dash''" | "key = ''hls''" | "key \<noteq> ''rtsp''" "key \<noteq> ''dash''" "key \<noteq> ''hls''" by blast
    then show ?thesis
      unfolding update1_def Let_def put drop None by cases (simp_all add: toggle1_value)
  qed (simp add: update1_def Let_def put buf)
qed

lemma dest_for_find:
  assumes "distinct (map pd_URL ds)"
  shows "dest_for P (push_proto u) ds = (case find (\<lambda>d. pd_URL d = u) ds of Some d \<Rightarrow> if P d then Some d else None | None \<Rightarrow> None)"
  using assms
proof (induction ds)
  case (Cons d ds)
  show ?case
  proof (cases "pd_URL d = u")
    case True
    with Cons.prems have "find (\<lambda>d. pd_URL d = u) ds = None" by (auto simp: find_None_iff) (metis image_eqI)
    with True Cons show ?thesis by (auto simp: dest_for_def)
  qed (use Cons in \<open>simp add: dest_for_def\<close>)
qed (simp add: dest_for_def)

lemma dest_for_other: "key \<notin> range push_proto \<Longrightarrow> dest_for P key ds = None"
  by (auto simp: dest_for_def find_None_iff)

lemma jobs_follow_ladder:
  assumes "s_Code a = s_Code b" and "RenditionsForTranscoder (s_Code b) (s_Transcoder a) = RenditionsForTranscoder (s_Code b) (s_Transcoder b)"
    and "has_audio (s_Transcoder a) = has_audio (s_Transcoder b)"
  shows "PlaybackBufferID (s_Code b) (s_Transcoder a) = PlaybackBufferID (s_Code b) (s_Transcoder b)"
    and "hlsFunc buf a = hlsFunc buf b" and "dashFunc a = dashFunc b"
  using assms by (simp_all add: PlaybackBufferID_def hlsFunc_def dashFunc_def publisherABRActive_def)

lemma update1_is_fresh:
  assumes code: "s_Code old = s_Code new" and same: "same_outputs ss (fresh_pub old)"
    and ladder: "RenditionsForTranscoder (s_Code new) (s_Transcoder old) = RenditionsForTranscoder (s_Code new) (s_Transcoder new)"
    and audio: "has_audio (s_Transcoder old) = has_audio (s_Transcoder new)"
    and urls: "distinct (map pd_URL (s_Push old))" "distinct (map pd_URL (s_Push new))"
    and keep: "\<And>od nd. od \<in> set (s_Push old) \<Longrightarrow> nd \<in> set (s_Push new) \<Longrightarrow> pd_URL od = pd_URL nd \<Longrightarrow>
      pd_Enabled od \<Longrightarrow> pd_Enabled nd \<Longrightarrow> od = nd"
  shows "same_outputs (update1 old new ss) (fresh_pub new)"
proof -
  note jobs = jobs_follow_ladder [OF code ladder audio]
  have old: "gget (pst_protocols ss) key = gget (pst_protocols (fresh_pub old)) key" for key
    using same by (simp add: same_outputs_def fun_eq_iff)
  have "gget (pst_protocols (update1 old new ss)) key = gget (pst_protocols (fresh_pub new)) key" for key
  proof (cases "key \<in> range push_proto")
    case True
    then obtain u where u: "key = push_proto u" by blast
    let ?old = "find (\<lambda>d. pd_URL d = u) (s_Push old)" and ?new = "find (\<lambda>d. pd_URL d = u) (s_Push new)"
    have both: "od = nd" if "?old = Some od" "?new = Some nd" "pd_Enabled od" "pd_Enabled nd" for od nd
    proof -
      have "od \<in> set (s_Push old)" "pd_URL od = u" "nd \<in> set (s_Push new)" "pd_URL nd = u"
        using that(1,2) by (auto simp: find_Some_iff)
      then show ?thesis using keep [of od nd] that(3,4) by simp
    qed
    note at = update1_protocols [OF urls(2), of old ss key] fresh_pub_protocols [OF urls(2), of key] old [of key]
      fresh_pub_protocols [OF urls(1), of key]
    have urlO: "pd_URL od = u" if "?old = Some od" for od using that by (auto simp: find_Some_iff)
    have urlN: "pd_URL nd = u" if "?new = Some nd" for nd using that by (auto simp: find_Some_iff)
    have st: "dest_for (starts (url_map (s_Push old))) key (s_Push new) =
        (case ?new of None \<Rightarrow> None | Some nd \<Rightarrow> if pd_Enabled nd \<and> (case ?old of None \<Rightarrow> True | Some od \<Rightarrow> \<not> pd_Enabled od) then Some nd else None)"
      unfolding u dest_for_find [OF urls(2)] starts_def url_map_find [OF urls(1)]
      by (cases ?new) (use urlN in auto)
    have sp: "dest_for (stops (url_map (s_Push new))) key (s_Push old) =
        (case ?old of None \<Rightarrow> None | Some od \<Rightarrow> if (case ?new of None \<Rightarrow> True | Some nd \<Rightarrow> \<not> pd_Enabled nd \<and> pd_Enabled od) then Some od else None)"
      unfolding u dest_for_find [OF urls(1)] stops_def url_map_find [OF urls(2)]
      by (cases ?old) (use urlO in auto)
    have en: "dest_for pd_Enabled key (s_Push s) = (case find (\<lambda>d. pd_URL d = u) (s_Push s) of None \<Rightarrow> None | Some d \<Rightarrow> if pd_Enabled d then Some d else None)"
      if "distinct (map pd_URL (s_Push s))" for s unfolding u dest_for_find [OF that] ..
    show ?thesis
      unfolding at Let_def st sp en [OF urls(1)] en [OF urls(2)]
      using both by (cases ?old; cases ?new) (simp_all add: u jobs code)
  next
    case False
    have none: "dest_for P key ds = None" for P ds using False by (rule dest_for_other)
    consider "key = ''rtsp''" | "key = ''dash''" | "key = ''hls''" | "key \<noteq> ''rtsp''" "key \<noteq> ''dash''" "key \<noteq> ''hls''" by blast
    then show ?thesis
      unfolding update1_protocols [OF urls(2)] fresh_pub_protocols [OF urls(2)] old fresh_pub_protocols [OF urls(1)] Let_def none
      by cases (auto simp: jobs code)
  qed
  moreover have "pst_code ss = s_Code new" using same code by (simp add: same_outputs_def fresh_pub_meta) (simp add: pub_meta_def)
  ultimately show ?thesis by (simp add: same_outputs_def update1_meta fresh_pub_meta fun_eq_iff)
qed

subsection \<open>A hot update\<close>


text \<open>Two configurations of a stream: HLS with one destination, then RTSP with that destination off and a second one.\<close>

definition push_to :: "string \<Rightarrow> bool \<Rightarrow> int \<Rightarrow> PushDestination" where
  "push_to url on retry = one_try\<lparr>pd_URL := url, pd_Enabled := on, pd_RetryTimeoutSec := retry\<rparr>"

definition plain_stream :: "StreamCode \<Rightarrow> OutputProtocols \<Rightarrow> PushDestination list \<Rightarrow> Stream" where
  "plain_stream code p push =
     \<lparr>s_Code = code, s_Template = None, s_Name = [], s_Description = [], s_Tags = [], s_StreamKey = [], s_PlaybackPolicy = [],
      s_Status = None, s_Disabled = False, s_Inputs = [], s_Transcoder = None, s_Protocols = Some p, s_Push = push, s_DVR = None,
      s_Watermark = None, s_Thumbnail = None\<rparr>"

definition hls_stream :: Stream where
  "hls_stream = plain_stream ''x'' (no_protocols\<lparr>op_HLS := True\<rparr>) [push_to ''rtmp://a'' True 5]"

definition rtsp_stream :: Stream where
  "rtsp_stream = plain_stream ''x'' (no_protocols\<lparr>op_RTSP := True\<rparr>) [push_to ''rtmp://a'' False 5, push_to ''rtmp://b'' True 5]"

definition started :: "Stream list \<Rightarrow> PubService" where
  "started ss = fold (\<lambda>s pb. snd (pub_Start s pb)) ss empty_pub"

lemma push_to_simps [simp]: "pd_URL (push_to u on r) = u" "pd_Enabled (push_to u on r) = on"
  by (simp_all add: push_to_def)

lemma sample_same: "same_outputs (fresh_pub s) (fresh_pub s)" by (simp add: same_outputs_def)


text \<open>
  What the conditions leave out: another retry time for a destination that stays enabled is not applied; an update may
  put HLS and DASH into one directory, which a start refuses; and a stop removes what lies below its directory, which
  is where a stream with a longer code writes.
\<close>

lemma push_settings_are_not_updated:
  "let old = plain_stream ''x'' no_protocols [push_to ''rtmp://a'' True 5];
       new = plain_stream ''x'' no_protocols [push_to ''rtmp://a'' True 60];
       pb = snd (UpdateProtocols old new (started [old]))
   in gget (pb_streams pb) ''x'' = Some (fresh_pub old) \<and> fresh_pub old \<noteq> fresh_pub new"
  by code_simp

lemma update_does_not_check_directories:
  "let old = plain_stream ''x'' (no_protocols\<lparr>op_HLS := True\<rparr>) [];
       new = plain_stream ''x'' (no_protocols\<lparr>op_HLS := True, op_DASH := True\<rparr>) [];
       pb0 = empty_pub\<lparr>pb_hlsDir := ''out'', pb_dashDir := ''out''\<rparr>
   in fst (pub_Start new pb0) = Some (DirsMustDiffer ''out'') \<and>
      fst (UpdateProtocols old new (snd (pub_Start old pb0))) = None"
  by code_simp

lemma stop_removes_nested_outputs:
  "let pb = pub_Stop ''a'' (started [plain_stream ''a'' no_protocols [], plain_stream ''a/b'' (no_protocols\<lparr>op_HLS := True\<rparr>) []])
   in Clean (join2 (pb_hlsDir pb) ''a'') \<in> set (pb_removed pb) \<and>
      (case gget (pb_streams pb) ''a/b'' of None \<Rightarrow> False | Some ss \<Rightarrow> gget (pst_protocols ss) ''hls'' = Some (ServeHLS ''a/b'')) \<and>
      prefix (Clean (join2 (pb_hlsDir pb) ''a'') @ ''/'') (Clean (join2 (pb_hlsDir pb) ''a/b''))"
  by code_simp

end
