(* ===== verification/Transcoder.thy ===== *)
theory Transcoder
  imports Stream_Shape Buffer_Hub
begin

text \<open>
  The transcoder service, \<^verbatim>\<open>internal/transcoder/service.go\<close>, and its supervisor of one subprocess per stream,
  \<^verbatim>\<open>supervisor.go\<close>: the table of workers, the health flag with its edge-triggered callbacks, the respawn loop, the
  packets forwarded in both directions and the configuration message. The subprocess is what a run of it ends with and
  what it sends; the callbacks the coordinator registers are the calls each operation makes.
\<close>

declare map_of_eq_Some_iff [simp del] Some_eq_map_of_iff [simp del]

subsection \<open>Types\<close>

record Profile =
  tp_Width :: int
  tp_Height :: int
  tp_Bitrate :: string
  tp_Codec :: string
  tp_Preset :: string
  tp_CodecProfile :: string
  tp_CodecLevel :: string
  tp_MaxBitrate :: int
  tp_Framerate :: rat
  tp_KeyframeInterval :: int
  tp_Bframes :: "(nat \<times> int) option"
  tp_Refs :: "(nat \<times> int) option"
  tp_SAR :: string
  tp_ResizeMode :: string

record RenditionTarget =
  rt_BufferID :: StreamCode
  rt_Profile :: Profile

definition maxTranscoderErrorHistory :: nat where "maxTranscoderErrorHistory = 5"

datatype ProcessStatus = ProcessStatusHealthy | ProcessStatusUnhealthy

text \<open>A worker with the data of its supervisor; \<open>sw_switch\<close> is the channel of capacity one.\<close>

record StreamWorker =
  sw_rawIngest :: StreamCode
  sw_tc :: "TranscoderConfig option"
  sw_targets :: "RenditionTarget list"
  sw_switch :: "StreamCode option"
  sw_renditions :: "nat list"
  sw_restartCount :: nat
  sw_errors :: "ErrorEntry list"

text \<open>\<open>ts_events\<close>: type and stream of the events published.\<close>

record TcService =
  ts_workers :: "(StreamCode \<times> StreamWorker) list"
  ts_unhealthy :: "StreamCode list"
  ts_events :: "(string \<times> StreamCode) list"

datatype TcCall = OnUnhealthy StreamCode string | OnHealthy StreamCode

datatype TcError = NoTargets StreamCode | BinaryNotFound | TcAlreadyRunning StreamCode | NilConfigPanic

subsection \<open>Status and errors\<close>

definition tc_RuntimeStatus :: "StreamCode \<Rightarrow> TcService \<Rightarrow> (ProcessStatus \<times> nat \<times> ErrorEntry list \<times> (nat \<times> string) list) option" where
  "tc_RuntimeStatus code s =
     (case gget (ts_workers s) code of
        None \<Rightarrow> None
      | Some sw \<Rightarrow> Some (if code \<in> set (ts_unhealthy s) then ProcessStatusUnhealthy else ProcessStatusHealthy,
          sw_restartCount sw, sw_errors sw, map (\<lambda>i. (i, VideoTrackSlug i)) (sw_renditions sw)))"

definition push_tc_error :: "ErrorEntry \<Rightarrow> ErrorEntry list \<Rightarrow> ErrorEntry list" where
  "push_tc_error e errs =
     (if maxTranscoderErrorHistory \<le> length errs
      then e # take (maxTranscoderErrorHistory - 1) errs @ drop maxTranscoderErrorHistory errs
      else e # errs)"

interpretation tc_log: bounded_log maxTranscoderErrorHistory push_tc_error
  by unfold_locales (auto simp: push_tc_error_def maxTranscoderErrorHistory_def take_Cons')

definition recordError :: "StreamCode \<Rightarrow> string \<Rightarrow> gotime \<Rightarrow> TcService \<Rightarrow> TcService" where
  "recordError code msg now s =
     (case gget (ts_workers s) code of
        None \<Rightarrow> s
      | Some sw \<Rightarrow> s\<lparr>ts_workers := gput code (sw\<lparr>sw_restartCount := sw_restartCount sw + 1,
          sw_errors := push_tc_error \<lparr>ee_Message = msg, ee_At = now\<rparr> (sw_errors sw)\<rparr>) (ts_workers s)\<rparr>)"

definition markUnhealthy :: "StreamCode \<Rightarrow> TcService \<Rightarrow> bool \<times> TcService" where
  "markUnhealthy code s =
     (if code \<in> set (ts_unhealthy s) then (False, s) else (True, s\<lparr>ts_unhealthy := code # ts_unhealthy s\<rparr>))"

definition markHealthy :: "StreamCode \<Rightarrow> TcService \<Rightarrow> bool \<times> TcService" where
  "markHealthy code s =
     (if code \<notin> set (ts_unhealthy s) then (False, s) else (True, s\<lparr>ts_unhealthy := removeAll code (ts_unhealthy s)\<rparr>))"

definition fireUnhealthyIfTransitioned :: "StreamCode \<Rightarrow> string \<Rightarrow> TcService \<Rightarrow> TcService \<times> TcCall list" where
  "fireUnhealthyIfTransitioned code reason s =
     (case markUnhealthy code s of (edge, s') \<Rightarrow> (s', if edge then [OnUnhealthy code reason] else []))"

definition fireHealthyIfTransitioned :: "StreamCode \<Rightarrow> TcService \<Rightarrow> TcService \<times> TcCall list" where
  "fireHealthyIfTransitioned code s =
     (case markHealthy code s of (edge, s') \<Rightarrow> (s', if edge then [OnHealthy code] else []))"

definition dropHealthState :: "StreamCode \<Rightarrow> TcService \<Rightarrow> TcService \<times> TcCall list" where
  "dropHealthState code s =
     (let hadEntry = (code \<in> set (ts_unhealthy s)); s' = s\<lparr>ts_unhealthy := removeAll code (ts_unhealthy s)\<rparr> in
      if \<not> hadEntry then (s', []) else (s', [OnHealthy code]))"

subsection \<open>Starting and stopping a worker\<close>

definition tc_publish :: "string \<Rightarrow> StreamCode \<Rightarrow> TcService \<Rightarrow> TcService" where
  "tc_publish ty code s = s\<lparr>ts_events := ts_events s @ [(ty, code)]\<rparr>"

definition new_worker :: "StreamCode \<Rightarrow> TranscoderConfig option \<Rightarrow> RenditionTarget list \<Rightarrow> StreamWorker" where
  "new_worker raw tc targets =
     \<lparr>sw_rawIngest = raw, sw_tc = tc, sw_targets = targets, sw_switch = None, sw_renditions = [0 ..< length targets],
      sw_restartCount = 0, sw_errors = []\<rparr>"

text \<open>A nil configuration panics where the log line reads its backend, after the worker is in the table.\<close>

definition tc_Start ::
  "bool \<Rightarrow> StreamCode \<Rightarrow> StreamCode \<Rightarrow> TranscoderConfig option \<Rightarrow> RenditionTarget list \<Rightarrow> TcService \<Rightarrow> TcError option \<times> TcService" where
  "tc_Start binaryFound code raw tc targets s =
     (if length targets = 0 then (Some (NoTargets code), s)
      else if \<not> binaryFound then (Some BinaryNotFound, s)
      else if gget (ts_workers s) code \<noteq> None then (Some (TcAlreadyRunning code), s)
      else let s1 = s\<lparr>ts_workers := gput code (new_worker raw tc targets) (ts_workers s)\<rparr> in
        case tc of None \<Rightarrow> (Some NilConfigPanic, s1) | Some _ \<Rightarrow> (None, tc_publish ''transcoder.started'' code s1))"

definition tc_Stop :: "StreamCode \<Rightarrow> TcService \<Rightarrow> TcService \<times> TcCall list" where
  "tc_Stop code s =
     (case gget (ts_workers s) code of
        None \<Rightarrow> (s, [])
      | Some _ \<Rightarrow>
          (case dropHealthState code (s\<lparr>ts_workers := gdel code (ts_workers s)\<rparr>) of (s', calls) \<Rightarrow>
             (tc_publish ''transcoder.stopped'' code s', calls)))"

definition NotifySwitchInput :: "StreamCode \<Rightarrow> StreamWorker \<Rightarrow> StreamWorker" where
  "NotifySwitchInput newRaw sw = sw\<lparr>sw_switch := Some newRaw\<rparr>"

definition NotifyInputSwitch :: "StreamCode \<Rightarrow> StreamCode \<Rightarrow> TcService \<Rightarrow> TcService" where
  "NotifyInputSwitch code newRaw s =
     (case gget (ts_workers s) code of
        None \<Rightarrow> s | Some sw \<Rightarrow> s\<lparr>ts_workers := gput code (NotifySwitchInput newRaw sw) (ts_workers s)\<rparr>)"

subsection \<open>One run of the subprocess\<close>

text \<open>
  How a run ends: before the pumps start; by a pump that returns (an error, or nothing when the subprocess closed the
  stream); by the end of the process; by the cancellation of the service. \<^verbatim>\<open>waitCh\<close> receives one value, when the process
  has ended: the second \<^verbatim>\<open>select\<close> needs one, whether it comes before the grace period or after the kill. No value left
  to receive is a run that never returns.
\<close>

datatype RunEnd = FailedEarly string | PumpEnded "string option" | ProcessDied string | StopRequested

definition wait_left :: "RunEnd \<Rightarrow> nat" where
  "wait_left e = 1 - (case e of ProcessDied _ \<Rightarrow> 1 | _ \<Rightarrow> 0)"

definition firstErr :: "RunEnd \<Rightarrow> string option" where
  "firstErr e = (case e of FailedEarly m \<Rightarrow> Some m | PumpEnded m \<Rightarrow> m | ProcessDied m \<Rightarrow> Some (''subprocess died: '' @ m) | StopRequested \<Rightarrow> None)"

text \<open>The error it returns with the state and calls after it, if it returns.\<close>

definition runOnce :: "StreamCode \<Rightarrow> RunEnd \<Rightarrow> TcService \<Rightarrow> (string option \<times> TcService \<times> TcCall list) option" where
  "runOnce code e s =
     (case e of
        FailedEarly m \<Rightarrow> Some (Some m, s, [])
      | _ \<Rightarrow> if wait_left e = 0 then None
             else case fireHealthyIfTransitioned code s of (s', calls) \<Rightarrow> Some (firstErr e, s', calls))"

definition fastCrashThreshold :: duration where "fastCrashThreshold = seconds 30"
definition restartBackoffStart :: duration where "restartBackoffStart = seconds 1"
definition restartBackoffMax :: duration where "restartBackoffMax = seconds 30"

definition nextBackoff :: "duration \<Rightarrow> duration" where
  "nextBackoff d = (if restartBackoffMax < d * 2 then restartBackoffMax else d * 2)"

text \<open>
  A run as the loop sees it: how it ends, how long it took, the time of its end, and whether the context was cancelled
  by then or during the wait that follows. When the runs are over the context is cancelled before the next one.
\<close>

record Run =
  ru_end :: RunEnd
  ru_runtime :: duration
  ru_now :: gotime
  ru_cancelled :: bool
  ru_cancelledWait :: bool

datatype SupEnd = SupStopped | SupFinished | SupHangs

fun sup_loop :: "StreamCode \<Rightarrow> duration \<Rightarrow> Run list \<Rightarrow> TcService \<Rightarrow> TcService \<times> TcCall list \<times> duration list \<times> SupEnd" where
  "sup_loop code backoff [] s = (s, [], [], SupStopped)"
| "sup_loop code backoff (r # rs) s =
     (case runOnce code (ru_end r) s of
        None \<Rightarrow> (s, [], [], SupHangs)
      | Some (err, s1, calls) \<Rightarrow>
          if ru_cancelled r then (s1, calls, [], SupStopped)
          else case err of
            None \<Rightarrow> (s1, calls, [], SupFinished)
          | Some m \<Rightarrow>
              let s2 = recordError code (''native transcoder: '' @ m) (ru_now r) s1;
                  fast = (ru_runtime r < fastCrashThreshold);
                  (s3, calls1) = (if fast then fireUnhealthyIfTransitioned code m s2 else (s2, []));
                  wait = (if fast then backoff else restartBackoffStart)
              in if ru_cancelledWait r then (s3, calls @ calls1, [wait], SupStopped)
                 else case sup_loop code (nextBackoff wait) rs s3 of (s4, calls2, ws, e) \<Rightarrow>
                   (s4, calls @ calls1 @ calls2, wait # ws, e))"

definition sup_Run :: "StreamCode \<Rightarrow> Run list \<Rightarrow> TcService \<Rightarrow> TcService \<times> TcCall list \<times> duration list \<times> SupEnd" where
  "sup_Run code rs s = sup_loop code restartBackoffStart rs s"

subsection \<open>The wire\<close>

datatype Codec = CODEC_UNSPECIFIED | CODEC_H264 | CODEC_H265 | CODEC_AAC

datatype HWBackend = HW_BACKEND_UNSPECIFIED | HW_BACKEND_CPU | HW_BACKEND_NVENC | HW_BACKEND_VAAPI
  | HW_BACKEND_VIDEOTOOLBOX | HW_BACKEND_QSV

record InputPacket =
  ip_Data :: "byte list"
  ip_SessionStart :: bool
  ip_SessionId :: int
  ip_Codec :: Codec
  ip_PtsMs :: int
  ip_DtsMs :: int

record OutputPacket =
  out_TargetIndex :: int
  out_Data :: "byte list"
  out_Codec :: Codec
  out_PtsMs :: int
  out_DtsMs :: int
  out_Keyframe :: bool
  out_SessionStart :: bool

record Target =
  tgt_OutputBufId :: StreamCode
  tgt_Index :: int
  tgt_Width :: int
  tgt_Height :: int
  tgt_BitrateKbps :: int
  tgt_MaxBitrateKbps :: int
  tgt_Framerate :: rat
  tgt_GopSeconds :: int
  tgt_GopFrames :: int
  tgt_Codec :: string
  tgt_Preset :: string
  tgt_Profile :: string
  tgt_Level :: string
  tgt_BframesOrNeg1 :: int
  tgt_RefsOrNeg1 :: int
  tgt_Sar :: string
  tgt_ResizeMode :: string

record AudioConfig =
  ac_Copy :: bool
  ac_Codec :: string
  ac_BitrateK :: int
  ac_SampleRate :: int
  ac_Channels :: int
  ac_Normalize :: bool
  ac_Volume :: string

record WatermarkMsg =
  wk_Enabled :: bool
  wk_Type :: string
  wk_Text :: string
  wk_AssetPath :: string
  wk_Position :: string
  wk_OffsetX :: int
  wk_OffsetY :: int
  wk_Opacity :: rat
  wk_FontSize :: int
  wk_FontColor :: string
  wk_FontFile :: string
  wk_Resize :: bool

record ConfigureRequest =
  cq_StreamCode :: StreamCode
  cq_RawIngestBufId :: StreamCode
  cq_HwBackend :: HWBackend
  cq_Targets :: "Target list"
  cq_Audio :: "AudioConfig option"
  cq_Watermark :: "WatermarkMsg option"

datatype Request = ReqConfigure ConfigureRequest | ReqPacket InputPacket | ReqSwitch StreamCode | ReqStop

datatype SubEvent = EvPacket OutputPacket | EvError int string bool | EvHealth

subsection \<open>Packets to the subprocess\<close>

fun avToProtoCodec :: "AVCodec \<Rightarrow> Codec" where
  "avToProtoCodec AVCodecH264 = CODEC_H264"
| "avToProtoCodec AVCodecH265 = CODEC_H265"
| "avToProtoCodec AVCodecAAC = CODEC_AAC"
| "avToProtoCodec _ = CODEC_UNSPECIFIED"

fun avCodecFromProto :: "Codec \<Rightarrow> AVCodec \<times> bool" where
  "avCodecFromProto CODEC_H264 = (AVCodecH264, True)"
| "avCodecFromProto CODEC_H265 = (AVCodecH265, True)"
| "avCodecFromProto CODEC_AAC = (AVCodecAAC, True)"
| "avCodecFromProto CODEC_UNSPECIFIED = (AVCodecUnknown, False)"

text \<open>\<open>ok\<close> says which sends succeed. The messages sent, the error if any, and \<^verbatim>\<open>firstWritten\<close> afterwards.\<close>

definition sendSwitch :: "(Request \<Rightarrow> bool) \<Rightarrow> StreamCode \<Rightarrow> Request list \<times> bool" where
  "sendSwitch ok newRaw = (if ok (ReqSwitch newRaw) then ([ReqSwitch newRaw], True) else ([], False))"

definition packet_request :: "Packet \<Rightarrow> InputPacket option" where
  "packet_request pkt =
     (let m = (\<lambda>d c p t. if length d = 0 then None
          else Some \<lparr>ip_Data = d, ip_SessionStart = pk_SessionStart pkt, ip_SessionId = sint (pk_SessionID pkt), ip_Codec = c,
            ip_PtsMs = p, ip_DtsMs = t\<rparr>)
      in case (pk_TS pkt, pk_AV pkt) of
        ([], Some av) \<Rightarrow>
          if \<not> IsVideo (av_Codec av) \<and> av_Codec av \<noteq> AVCodecAAC then None
          else m (av_Data av) (avToProtoCodec (av_Codec av)) (i64 (av_PTSms av)) (i64 (av_DTSms av))
      | (ts, _) \<Rightarrow> m ts CODEC_UNSPECIFIED 0 0)"

definition forwardOnePacket :: "(Request \<Rightarrow> bool) \<Rightarrow> StreamCode \<Rightarrow> Packet \<Rightarrow> bool \<Rightarrow> Request list \<times> bool \<times> bool" where
  "forwardOnePacket ok raw pkt firstWritten =
     (let (pre, fine) = (if pk_SessionStart pkt \<and> firstWritten then sendSwitch ok raw else ([], True)) in
      if \<not> fine then (pre, False, firstWritten)
      else case packet_request pkt of
        None \<Rightarrow> (pre, True, firstWritten)
      | Some m \<Rightarrow> if ok (ReqPacket m) then (pre @ [ReqPacket m], True, True) else (pre, False, firstWritten))"

datatype PumpEvent = PumpSwitch StreamCode | PumpPacket Packet | PumpClosed

text \<open>The pump over the events it selects; when they run out the context is cancelled.\<close>

fun inputPump :: "(Request \<Rightarrow> bool) \<Rightarrow> StreamCode \<Rightarrow> PumpEvent list \<Rightarrow> bool \<Rightarrow> Request list \<times> string option" where
  "inputPump ok raw [] fw = ([], None)"
| "inputPump ok raw (PumpClosed # es) fw = ([], Some ''raw ingest subscriber closed'')"
| "inputPump ok raw (PumpSwitch c # es) fw =
     (case sendSwitch ok c of (ms, fine) \<Rightarrow>
        if \<not> fine then (ms, Some ''send switch'')
        else case inputPump ok raw es fw of (ms', e) \<Rightarrow> (ms @ ms', e))"
| "inputPump ok raw (PumpPacket p # es) fw =
     (case forwardOnePacket ok raw p fw of (ms, fine, fw') \<Rightarrow>
        if \<not> fine then (ms, Some ''send packet'')
        else case inputPump ok raw es fw' of (ms', e) \<Rightarrow> (ms @ ms', e))"

subsection \<open>Packets from the subprocess\<close>

text \<open>\<^verbatim>\<open>uint64(x)\<close> of an \<^verbatim>\<open>int64\<close>.\<close>

definition u64 :: "int \<Rightarrow> int" where "u64 x = x mod 2 ^ 64"

definition output_packet :: "OutputPacket \<Rightarrow> AVCodec \<Rightarrow> Packet" where
  "output_packet p c =
     \<lparr>pk_TS = [], pk_AV = Some \<lparr>av_Codec = c, av_Data = out_Data p, av_PTSms = u64 (out_PtsMs p), av_DTSms = u64 (out_DtsMs p),
        av_KeyFrame = out_Keyframe p\<rparr>, pk_SessionID = 0, pk_SessionStart = out_SessionStart p\<rparr>"

fun write_targets :: "StreamCode list \<Rightarrow> Packet \<Rightarrow> BufService \<Rightarrow> (string option \<times> BufService) option" where
  "write_targets [] pkt b = Some (None, b)"
| "write_targets (t # ts) pkt b =
     (case hub_Write t pkt b of
        None \<Rightarrow> None
      | Some (Some _, b') \<Rightarrow> Some (Some ''broadcast buffer write'', b')
      | Some (None, b') \<Rightarrow> write_targets ts pkt b')"

definition writeOutputPacket :: "StreamCode list \<Rightarrow> OutputPacket \<Rightarrow> BufService \<Rightarrow> (string option \<times> BufService) option" where
  "writeOutputPacket targets p b =
     (case avCodecFromProto (out_Codec p) of (c, known) \<Rightarrow>
        if \<not> known then Some (None, b)
        else if out_TargetIndex p < 0 then write_targets targets (output_packet p c) b
        else if int (length targets) \<le> out_TargetIndex p then Some (None, b)
        else case hub_Write (targets ! nat (out_TargetIndex p)) (output_packet p c) b of
          None \<Rightarrow> None
        | Some (Some _, b') \<Rightarrow> Some (Some ''buffer write target'', b')
        | Some (None, b') \<Rightarrow> Some (None, b'))"

definition handleSubprocessError :: "string \<Rightarrow> bool \<Rightarrow> string option" where
  "handleSubprocessError msg terminal = (if terminal then Some msg else None)"

fun dispatchEvent :: "StreamCode list \<Rightarrow> SubEvent \<Rightarrow> BufService \<Rightarrow> (string option \<times> BufService) option" where
  "dispatchEvent targets (EvPacket p) b = writeOutputPacket targets p b"
| "dispatchEvent targets (EvError _ msg terminal) b = Some (handleSubprocessError msg terminal, b)"
| "dispatchEvent targets EvHealth b = Some (None, b)"

text \<open>What \<^verbatim>\<open>Recv\<close> returns; a cancelled context ends the drain without an error.\<close>

datatype Received = RecvEvent SubEvent | RecvEOF | RecvError string

fun outputDrain :: "StreamCode list \<Rightarrow> Received list \<Rightarrow> BufService \<Rightarrow> (string option \<times> BufService) option" where
  "outputDrain targets [] b = Some (None, b)"
| "outputDrain targets (RecvEOF # es) b = Some (None, b)"
| "outputDrain targets (RecvError m # es) b = Some (Some (''recv event: '' @ m), b)"
| "outputDrain targets (RecvEvent ev # es) b =
     (case dispatchEvent targets ev b of
        None \<Rightarrow> None
      | Some (Some m, b') \<Rightarrow> Some (Some m, b')
      | Some (None, b') \<Rightarrow> outputDrain targets es b')"

subsection \<open>The configuration message\<close>

text \<open>\<^verbatim>\<open>int32(x)\<close> of an integer wraps, of a rate truncates.\<close>

definition i32 :: "int \<Rightarrow> int" where
  "i32 x = (x + 2 ^ 31) mod 2 ^ 32 - 2 ^ 31"

definition truncate_rat :: "rat \<Rightarrow> int" where
  "truncate_rat q = (if q < 0 then - \<lfloor>- q\<rfloor> else \<lfloor>q\<rfloor>)"

definition resolveGopFrames :: "Profile \<Rightarrow> TranscoderConfig option \<Rightarrow> int" where
  "resolveGopFrames p otc =
     (let fr = (case otc of
            Some tc \<Rightarrow> if tp_Framerate p \<le> 0 \<and> 0 < tg_FPS (tc_Global tc) then of_int (tg_FPS (tc_Global tc)) else tp_Framerate p
          | None \<Rightarrow> tp_Framerate p)
      in if 0 < tp_KeyframeInterval p \<and> 0 < fr then i32 (truncate_rat (of_int (tp_KeyframeInterval p) * fr))
         else case otc of
           Some tc \<Rightarrow> if 0 < tg_GOP (tc_Global tc) then i32 (tg_GOP (tc_Global tc)) else 0
         | None \<Rightarrow> 0)"

definition hwBackendFromTC :: "TranscoderConfig option \<Rightarrow> HWBackend" where
  "hwBackendFromTC otc =
     (case otc of
        None \<Rightarrow> HW_BACKEND_UNSPECIFIED
      | Some tc \<Rightarrow>
          let hw = tg_HW (tc_Global tc) in
          if hw = ''nvenc'' then HW_BACKEND_NVENC
          else if hw = ''vaapi'' then HW_BACKEND_VAAPI
          else if hw = ''videotoolbox'' then HW_BACKEND_VIDEOTOOLBOX
          else if hw = ''qsv'' then HW_BACKEND_QSV
          else if hw = ''none'' then HW_BACKEND_CPU
          else HW_BACKEND_UNSPECIFIED)"

definition audioConfigFromTC :: "TranscoderConfig option \<Rightarrow> AudioConfig option" where
  "audioConfigFromTC otc =
     map_option (\<lambda>tc. let a = tc_Audio tc in
       \<lparr>ac_Copy = at_Copy a, ac_Codec = at_Codec a, ac_BitrateK = i32 (at_Bitrate a), ac_SampleRate = i32 (at_SampleRate a),
        ac_Channels = i32 (at_Channels a), ac_Normalize = at_Normalize a, ac_Volume = at_Volume a\<rparr>) otc"

definition watermarkConfigFromTC :: "TranscoderConfig option \<Rightarrow> WatermarkMsg option" where
  "watermarkConfigFromTC otc =
     (case otc of
        None \<Rightarrow> None
      | Some tc \<Rightarrow>
          (case tc_Watermark tc of
             None \<Rightarrow> None
           | Some wm \<Rightarrow>
               if \<not> wm_Enabled wm then None
               else Some \<lparr>wk_Enabled = wm_Enabled wm, wk_Type = wm_Type wm, wk_Text = wm_Text wm, wk_AssetPath = wm_ImagePath wm,
                 wk_Position = wm_Position wm, wk_OffsetX = i32 (wm_OffsetX wm), wk_OffsetY = i32 (wm_OffsetY wm),
                 wk_Opacity = wm_Opacity wm, wk_FontSize = i32 (wm_FontSize wm), wk_FontColor = wm_FontColor wm,
                 wk_FontFile = wm_FontFile wm, wk_Resize = wm_Resize wm\<rparr>))"

text \<open>\<^verbatim>\<open>fmt.Sscanf(s, "%d", &n)\<close>: leading spaces, a sign, digits; what follows them is ignored.\<close>

definition scan_int :: "string \<Rightarrow> int option" where
  "scan_int s0 =
     (let s = dropWhile (\<lambda>c. c = CHR '' '' \<or> c = CHR 0x09) s0;
          neg = (s \<noteq> [] \<and> hd s = CHR ''-'');
          ds = takeWhile is_digit (if s \<noteq> [] \<and> (hd s = CHR ''-'' \<or> hd s = CHR ''+'') then tl s else s);
          v = (if neg then - int (dec_val ds) else int (dec_val ds))
      in if ds = [] \<or> v < - (2 ^ 63) \<or> 2 ^ 63 \<le> v then None else Some v)"

definition TrimOneSuffix :: "char \<Rightarrow> string \<Rightarrow> string" where
  "TrimOneSuffix c s = (if s \<noteq> [] \<and> last s = c then butlast s else s)"

definition bitrateK :: "string \<Rightarrow> int" where
  "bitrateK s0 =
     (let s = TrimOneSuffix (CHR ''K'') (TrimOneSuffix (CHR ''k'') (TrimSpace s0)) in
      if s = [] then 0 else case scan_int s of None \<Rightarrow> 0 | Some n \<Rightarrow> i32 n)"

definition optIntOrNeg1 :: "(nat \<times> int) option \<Rightarrow> int" where
  "optIntOrNeg1 p = (case p of None \<Rightarrow> -1 | Some (_, v) \<Rightarrow> i32 v)"

definition target_message :: "TranscoderConfig option \<Rightarrow> nat \<Rightarrow> RenditionTarget \<Rightarrow> Target" where
  "target_message otc i t =
     (let p = rt_Profile t in
      \<lparr>tgt_OutputBufId = rt_BufferID t, tgt_Index = i32 (int i), tgt_Width = i32 (tp_Width p), tgt_Height = i32 (tp_Height p),
       tgt_BitrateKbps = bitrateK (tp_Bitrate p), tgt_MaxBitrateKbps = i32 (tp_MaxBitrate p), tgt_Framerate = tp_Framerate p,
       tgt_GopSeconds = i32 (tp_KeyframeInterval p), tgt_GopFrames = resolveGopFrames p otc, tgt_Codec = tp_Codec p,
       tgt_Preset = tp_Preset p, tgt_Profile = tp_CodecProfile p, tgt_Level = tp_CodecLevel p,
       tgt_BframesOrNeg1 = optIntOrNeg1 (tp_Bframes p), tgt_RefsOrNeg1 = optIntOrNeg1 (tp_Refs p), tgt_Sar = tp_SAR p,
       tgt_ResizeMode = tp_ResizeMode p\<rparr>)"

definition buildConfigure :: "StreamCode \<Rightarrow> StreamCode \<Rightarrow> TranscoderConfig option \<Rightarrow> RenditionTarget list \<Rightarrow> Request" where
  "buildConfigure code raw otc targets =
     ReqConfigure \<lparr>cq_StreamCode = code, cq_RawIngestBufId = raw, cq_HwBackend = hwBackendFromTC otc,
       cq_Targets = map (\<lambda>i. target_message otc i (targets ! i)) [0 ..< length targets], cq_Audio = audioConfigFromTC otc,
       cq_Watermark = watermarkConfigFromTC otc\<rparr>"

subsection \<open>The respawn loop\<close>

lemma backoff_simps [simp]:
  "restartBackoffStart = 1000000000" "restartBackoffMax = 30000000000" "fastCrashThreshold = 30000000000"
  by (simp_all add: restartBackoffStart_def restartBackoffMax_def fastCrashThreshold_def)

lemma nextBackoff_range:
  "restartBackoffStart \<le> d \<Longrightarrow> d \<le> restartBackoffMax \<Longrightarrow> restartBackoffStart \<le> nextBackoff d \<and> nextBackoff d \<le> restartBackoffMax"
  by (simp add: nextBackoff_def)

text \<open>A run after which the loop goes on: it returns an error, and nobody cancels.\<close>

definition respawns :: "Run \<Rightarrow> bool" where
  "respawns r \<longleftrightarrow> (case ru_end r of FailedEarly _ \<Rightarrow> True | PumpEnded (Some _) \<Rightarrow> True | _ \<Rightarrow> False) \<and>
     \<not> ru_cancelled r \<and> \<not> ru_cancelledWait r"

definition run_entry :: "Run \<Rightarrow> ErrorEntry" where
  "run_entry r = \<lparr>ee_Message = ''native transcoder: '' @ (case firstErr (ru_end r) of None \<Rightarrow> [] | Some m \<Rightarrow> m), ee_At = ru_now r\<rparr>"

definition is_fast :: "Run \<Rightarrow> bool" where "is_fast r \<longleftrightarrow> ru_runtime r < fastCrashThreshold"

lemma fire_workers [simp]:
  "ts_workers (fst (fireHealthyIfTransitioned code s)) = ts_workers s"
  "ts_workers (fst (fireUnhealthyIfTransitioned code m s)) = ts_workers s"
  by (simp_all add: fireHealthyIfTransitioned_def markHealthy_def fireUnhealthyIfTransitioned_def markUnhealthy_def split: prod.split)

text \<open>The state after a run that is followed by another, and the calls made.\<close>

definition after_run :: "StreamCode \<Rightarrow> Run \<Rightarrow> TcService \<Rightarrow> TcService \<times> TcCall list" where
  "after_run code r s =
     (let (s1, calls) = (case ru_end r of FailedEarly _ \<Rightarrow> (s, []) | _ \<Rightarrow> fireHealthyIfTransitioned code s);
          m = (case firstErr (ru_end r) of None \<Rightarrow> [] | Some m \<Rightarrow> m);
          s2 = recordError code (''native transcoder: '' @ m) (ru_now r) s1
      in if is_fast r then (case fireUnhealthyIfTransitioned code m s2 of (s3, c3) \<Rightarrow> (s3, calls @ c3)) else (s2, calls))"

lemma sup_loop_respawns:
  assumes "respawns r"
  shows "sup_loop code backoff (r # rs) s =
    (let wait = (if is_fast r then backoff else restartBackoffStart); (s1, calls) = after_run code r s in
     case sup_loop code (nextBackoff wait) rs s1 of (s2, calls2, ws, e) \<Rightarrow> (s2, calls @ calls2, wait # ws, e))"
  using assms
  by (cases "ru_end r")
    (auto simp: respawns_def runOnce_def wait_left_def after_run_def is_fast_def firstErr_def Let_def
      split: prod.splits option.splits)

lemma after_run_worker:
  assumes "gget (ts_workers s) code = Some sw" "length (sw_errors sw) \<le> maxTranscoderErrorHistory"
  shows "gget (ts_workers (fst (after_run code r s))) code = Some (sw\<lparr>sw_restartCount := sw_restartCount sw + 1,
    sw_errors := take maxTranscoderErrorHistory (run_entry r # sw_errors sw)\<rparr>)"
proof -
  have "push_tc_error (run_entry r) (sw_errors sw) = take maxTranscoderErrorHistory (run_entry r # sw_errors sw)"
    by (rule tc_log.push_newest [OF _ assms(2)]) (simp add: maxTranscoderErrorHistory_def)
  moreover have "gget (ts_workers (fst (after_run code r s))) code = Some (sw\<lparr>sw_restartCount := sw_restartCount sw + 1,
      sw_errors := push_tc_error (run_entry r) (sw_errors sw)\<rparr>)"
    using assms(1)
    by (cases "ru_end r") (simp_all add: after_run_def Let_def recordError_def run_entry_def map_simps case_prod_beta)
  ultimately show ?thesis by simp
qed

lemma take_push: "take n (xs @ take n (e # ys)) = take n (xs @ e # ys)"
  by (cases "length xs < n") (auto simp: min_def)

lemma sup_loop_liveness:
  assumes "\<forall>r \<in> set rs. respawns r" and "restartBackoffStart \<le> backoff" "backoff \<le> restartBackoffMax"
    and "gget (ts_workers s) code = Some sw" "length (sw_errors sw) \<le> maxTranscoderErrorHistory"
  shows "case sup_loop code backoff rs s of (s', calls, ws, e) \<Rightarrow>
    e = SupStopped \<and> length ws = length rs \<and> (\<forall>w \<in> set ws. restartBackoffStart \<le> w \<and> w \<le> restartBackoffMax) \<and>
    gget (ts_workers s') code = Some (sw\<lparr>sw_restartCount := sw_restartCount sw + length rs,
      sw_errors := take maxTranscoderErrorHistory (rev (map run_entry rs) @ sw_errors sw)\<rparr>)"
  using assms
proof (induction rs arbitrary: backoff s sw)
  case Nil
  then show ?case by (cases sw) simp
next
  case (Cons r rs)
  let ?wait = "if is_fast r then backoff else restartBackoffStart"
  let ?s1 = "fst (after_run code r s)"
  let ?sw1 = "sw\<lparr>sw_restartCount := sw_restartCount sw + 1,
    sw_errors := take maxTranscoderErrorHistory (run_entry r # sw_errors sw)\<rparr>"
  have range: "restartBackoffStart \<le> ?wait \<and> ?wait \<le> restartBackoffMax" using Cons.prems(2,3) by simp
  have w: "gget (ts_workers ?s1) code = Some ?sw1" using Cons.prems(4,5) by (rule after_run_worker)
  have IH: "case sup_loop code (nextBackoff ?wait) rs ?s1 of (s', calls, ws, e) \<Rightarrow>
    e = SupStopped \<and> length ws = length rs \<and> (\<forall>w \<in> set ws. restartBackoffStart \<le> w \<and> w \<le> restartBackoffMax) \<and>
    gget (ts_workers s') code = Some (?sw1\<lparr>sw_restartCount := sw_restartCount ?sw1 + length rs,
      sw_errors := take maxTranscoderErrorHistory (rev (map run_entry rs) @ sw_errors ?sw1)\<rparr>)"
  proof (rule Cons.IH)
    show "restartBackoffStart \<le> nextBackoff ?wait" "nextBackoff ?wait \<le> restartBackoffMax"
      using nextBackoff_range [of ?wait] range by blast+
  qed (use Cons.prems w in auto)
  have e: "sw_errors ?sw1 = take maxTranscoderErrorHistory (run_entry r # sw_errors sw)" by simp
  from IH range Cons.prems(1) show ?case
    unfolding e take_push by (simp add: sup_loop_respawns Let_def case_prod_beta del: backoff_simps sup_loop.simps(2))
qed

text \<open>
  C21: A crashing subprocess is respawned for ever. Whatever the sequence of failed runs (the binary missing, the socket not
  bound, a pump's error), as long as nobody cancels, the supervisor neither gives up nor stops: it starts every next
  run, after a wait between one second and thirty, counts each failure, and the error history is the newest five.
\<close>

theorem failed_runs_are_respawned:
  assumes "\<forall>r \<in> set rs. respawns r" and "gget (ts_workers s) code = Some sw" "length (sw_errors sw) \<le> maxTranscoderErrorHistory"
  shows "case sup_Run code rs s of (s', calls, ws, e) \<Rightarrow>
    e = SupStopped \<and> length ws = length rs \<and> (\<forall>w \<in> set ws. restartBackoffStart \<le> w \<and> w \<le> restartBackoffMax) \<and>
    gget (ts_workers s') code = Some (sw\<lparr>sw_restartCount := sw_restartCount sw + length rs,
      sw_errors := take maxTranscoderErrorHistory (rev (map run_entry rs) @ sw_errors sw)\<rparr>)"
  unfolding sup_Run_def by (rule sup_loop_liveness) (use assms in auto)

text \<open>A service with one worker, and runs that crash.\<close>

definition one_worker :: TcService where
  "one_worker = \<lparr>ts_workers = [(''x'', new_worker ''raw'' None [])], ts_unhealthy = [], ts_events = []\<rparr>"

definition crash :: "RunEnd \<Rightarrow> duration \<Rightarrow> Run" where
  "crash e d = \<lparr>ru_end = e, ru_runtime = d, ru_now = 7, ru_cancelled = False, ru_cancelledWait = False\<rparr>"

lemma failed_runs_are_respawned_witness:
  "case sup_Run ''x'' [crash (PumpEnded (Some ''recv'')) 5, crash (FailedEarly ''spawn'') 40000000000] one_worker of
     (s', calls, ws, e) \<Rightarrow> e = SupStopped \<and> length ws = 2"
  using failed_runs_are_respawned [of "[crash (PumpEnded (Some ''recv'')) 5, crash (FailedEarly ''spawn'') 40000000000]"
      one_worker "''x''" "new_worker ''raw'' None []"]
  by (auto simp: respawns_def crash_def one_worker_def new_worker_def split: prod.splits)

text \<open>
  Where it is not so. A run that ends because the process ended consumes the only value of \<^verbatim>\<open>waitCh\<close> and then waits for
  another: the supervisor hangs, and the service's stop with it. A stream the subprocess closes without an error ends
  the supervisor although nobody stopped it. A stream marked unhealthy by one fast crash stays so while the next run
  works, however long: the flag is cleared when that run ends.
\<close>

lemma process_death_hangs_the_supervisor:
  "snd (snd (snd (sup_Run ''x'' [crash (ProcessDied ''signal: segmentation fault'') 5] one_worker))) = SupHangs"
  by code_simp

lemma closed_stream_is_not_respawned:
  "case sup_Run ''x'' [crash (PumpEnded None) 5] one_worker of (s, calls, ws, e) \<Rightarrow>
     e = SupFinished \<and> ws = [] \<and> map_option fst (tc_RuntimeStatus ''x'' s) = Some ProcessStatusHealthy"
  by code_simp

lemma one_fast_crash_marks_unhealthy:
  "case sup_Run ''x'' [crash (PumpEnded (Some ''recv'')) 5] one_worker of (s, calls, ws, e) \<Rightarrow>
     calls = [OnUnhealthy ''x'' ''recv''] \<and> map_option fst (tc_RuntimeStatus ''x'' s) = Some ProcessStatusUnhealthy"
  by code_simp

text \<open>Two crashes: the second run ends with a recovery and at once with a new failure.\<close>

lemma crashes_flap:
  "fst (snd (sup_Run ''x'' [crash (PumpEnded (Some ''recv'')) 5, crash (PumpEnded (Some ''recv'')) 5] one_worker)) =
     [OnUnhealthy ''x'' ''recv'', OnHealthy ''x'', OnUnhealthy ''x'' ''recv'']"
  by code_simp

subsection \<open>The health callbacks\<close>

text \<open>Operations of the service, a supervisor's calls into it included, with the log of the callbacks made.\<close>

datatype TcOp = TStart bool StreamCode StreamCode "TranscoderConfig option" "RenditionTarget list" | TStop StreamCode
  | TSwitch StreamCode StreamCode | TError StreamCode string gotime | TUnhealthy StreamCode string | THealthy StreamCode

fun tc_op :: "TcOp \<Rightarrow> TcService \<Rightarrow> TcService \<times> TcCall list" where
  "tc_op (TStart found code raw tc targets) s = (snd (tc_Start found code raw tc targets s), [])"
| "tc_op (TStop code) s = tc_Stop code s"
| "tc_op (TSwitch code raw) s = (NotifyInputSwitch code raw s, [])"
| "tc_op (TError code msg now) s = (recordError code msg now s, [])"
| "tc_op (TUnhealthy code reason) s = fireUnhealthyIfTransitioned code reason s"
| "tc_op (THealthy code) s = fireHealthyIfTransitioned code s"

definition tc_exec :: "TcOp \<Rightarrow> TcService \<times> TcCall list \<Rightarrow> TcService \<times> TcCall list" where
  "tc_exec x sl = (case tc_op x (fst sl) of (s', calls) \<Rightarrow> (s', snd sl @ calls))"

text \<open>The callbacks for a stream: whether each one says unhealthy.\<close>

fun call_for :: "StreamCode \<Rightarrow> TcCall \<Rightarrow> bool option" where
  "call_for code (OnUnhealthy c _) = (if c = code then Some True else None)"
| "call_for code (OnHealthy c) = (if c = code then Some False else None)"

definition calls_for :: "StreamCode \<Rightarrow> TcCall list \<Rightarrow> bool list" where
  "calls_for code calls = concat (map (\<lambda>c. case call_for code c of None \<Rightarrow> [] | Some b \<Rightarrow> [b]) calls)"

fun alternates :: "bool \<Rightarrow> bool list \<Rightarrow> bool" where
  "alternates b [] = True"
| "alternates b (x # xs) = (x = b \<and> alternates (\<not> b) xs)"

lemma alternates_snoc: "alternates b (xs @ [y]) \<longleftrightarrow> alternates b xs \<and> y = (if even (length xs) then b else \<not> b)"
  by (induction xs arbitrary: b) auto

definition edges_ok :: "TcService \<times> TcCall list \<Rightarrow> bool" where
  "edges_ok sl \<longleftrightarrow> (\<forall>code. alternates True (calls_for code (snd sl)) \<and>
     (code \<in> set (ts_unhealthy (fst sl)) \<longleftrightarrow> odd (length (calls_for code (snd sl)))))"

lemma calls_for_append [simp]: "calls_for code (xs @ ys) = calls_for code xs @ calls_for code ys"
  by (simp add: calls_for_def)

lemma calls_for_simps [simp]:
  "calls_for code [] = []" "calls_for code [OnUnhealthy c m] = (if c = code then [True] else [])"
  "calls_for code [OnHealthy c] = (if c = code then [False] else [])"
  by (simp_all add: calls_for_def)

lemma edges_flip:
  assumes "edges_ok (s, l)" and "set (ts_unhealthy s') = set (ts_unhealthy s)"
  shows "edges_ok (s', l)"
  using assms by (simp add: edges_ok_def)

lemma edges_up:
  assumes "edges_ok (s, l)" and "code \<notin> set (ts_unhealthy s)" and "set (ts_unhealthy s') = insert code (set (ts_unhealthy s))"
  shows "edges_ok (s', l @ [OnUnhealthy code m])"
  using assms by (auto simp: edges_ok_def alternates_snoc)

lemma edges_down:
  assumes "edges_ok (s, l)" and "code \<in> set (ts_unhealthy s)" and "set (ts_unhealthy s') = set (ts_unhealthy s) - {code}"
  shows "edges_ok (s', l @ [OnHealthy code])"
  using assms by (auto simp: edges_ok_def alternates_snoc)

lemma tc_exec_ok: "edges_ok sl \<Longrightarrow> edges_ok (tc_exec x sl)"
proof (cases sl)
  case (Pair s l)
  assume "edges_ok sl"
  then have ok: "edges_ok (s, l)" by (simp add: Pair)
  show ?thesis
  proof (cases x)
    case (TStart found code raw tc targets)
    then show ?thesis using ok Pair
      by (auto simp: tc_exec_def tc_Start_def tc_publish_def Let_def intro: edges_flip split: option.split)
  next
    case (TStop code)
    then show ?thesis using ok Pair
      by (auto simp: tc_exec_def tc_Stop_def tc_publish_def dropHealthState_def Let_def split: option.split
          intro: edges_flip intro!: edges_down [where s = s])
  next
    case (TSwitch code raw)
    then show ?thesis using ok Pair by (auto simp: tc_exec_def NotifyInputSwitch_def intro: edges_flip split: option.split)
  next
    case (TError code msg now)
    then show ?thesis using ok Pair by (auto simp: tc_exec_def recordError_def intro: edges_flip split: option.split)
  next
    case (TUnhealthy code reason)
    then show ?thesis using ok Pair
      by (auto simp: tc_exec_def fireUnhealthyIfTransitioned_def markUnhealthy_def intro!: edges_up [where s = s])
  next
    case (THealthy code)
    then show ?thesis using ok Pair
      by (auto simp: tc_exec_def fireHealthyIfTransitioned_def markHealthy_def intro!: edges_down [where s = s])
  qed
qed

interpretation tc_edges: invariant_machine tc_exec edges_ok
  by unfold_locales (rule tc_exec_ok)

text \<open>
  C24: The health callbacks are edges. In every history of starts, stops, errors and health reports of any number of
  streams, the callbacks for each stream alternate, beginning with unhealthy, and the last one says what the status
  reports: the coordinator never misses a change and never sees one twice.
\<close>

theorem health_callbacks_alternate:
  fixes ops
  defines "s0 \<equiv> \<lparr>ts_workers = [], ts_unhealthy = [], ts_events = []\<rparr>"
  shows "case fold tc_exec ops (s0, []) of (s, calls) \<Rightarrow>
    alternates True (calls_for code calls) \<and>
    (case tc_RuntimeStatus code s of
       None \<Rightarrow> True
     | Some (status, _) \<Rightarrow> (status = ProcessStatusUnhealthy) = (calls_for code calls \<noteq> [] \<and> last (calls_for code calls)))"
proof -
  have last: "alternates b xs \<Longrightarrow> xs \<noteq> [] \<and> last xs = b \<longleftrightarrow> odd (length xs)" for b xs
    by (induction xs arbitrary: b rule: rev_induct) (auto simp: alternates_snoc)
  have "edges_ok (fold tc_exec ops (s0, []))"
    by (rule tc_edges.run_inv) (simp add: edges_ok_def s0_def)
  moreover obtain s calls where run: "fold tc_exec ops (s0, []) = (s, calls)" by (metis surj_pair)
  ultimately have alt: "alternates True (calls_for code calls)"
    and flag: "code \<in> set (ts_unhealthy s) \<longleftrightarrow> odd (length (calls_for code calls))" by (simp_all add: edges_ok_def)
  from flag last [OF alt] have "code \<in> set (ts_unhealthy s) \<longleftrightarrow> calls_for code calls \<noteq> [] \<and> last (calls_for code calls)" by simp
  then show ?thesis unfolding run prod.case
    by (cases "gget (ts_workers s) code") (simp_all add: alt tc_RuntimeStatus_def)
qed

subsection \<open>Packets across the wire\<close>



end
