(* ===== verification/Coordinator.thy ===== *)
theory Coordinator
  imports Transcoder Publisher Stream_Diff Stream_Manager Templates Blob_Catalog
begin

text \<open>
  The coordinator, \<^verbatim>\<open>internal/coordinator/coordinator.go\<close>, \<^verbatim>\<open>abr_copy.go\<close> and \<^verbatim>\<open>abr_mixer.go\<close>: it starts, stops and
  hot-reloads the pipeline of a stream over the buffer hub, the stream manager, the transcoder, the publisher and the
  recorder, which are the models of those components. Each public operation holds the stream's lifecycle lock for its
  whole body and is a function of the state. The callbacks of the manager and the transcoder are run on the effects
  those return. Metrics and log lines are left out.
\<close>

declare map_of_eq_Some_iff [simp del] Some_eq_map_of_iff [simp del]

subsection \<open>State\<close>

record AbrCopyEntry =
  ae_slugs :: "string list"
  ae_upstream :: StreamCode
  ae_taps :: "(StreamCode \<times> StreamCode) list" \<comment> \<open>the tap goroutines: upstream and downstream buffer\<close>
  ae_lastPacketAt :: "gotime option"

record AbrMixerEntry =
  am_slugs :: "string list"
  am_videoUpstream :: StreamCode
  am_audioUpstream :: StreamCode
  am_taps :: "(StreamCode \<times> StreamCode) list"
  am_audio :: "StreamCode \<times> bool \<times> StreamCode list" \<comment> \<open>the fan-out goroutine: source, whether it is TS, targets\<close>
  am_lastPacketAt :: "gotime option"
  am_t0 :: gotime

record streamDegradation =
  dg_inputsExhausted :: bool
  dg_transcoderUnhealthy :: bool

record Coord =
  co_buf :: BufService
  co_mgr :: MgrService
  co_tc :: TcService
  co_pub :: PubService
  co_dvr :: BlobService
  co_renditions :: "(StreamCode \<times> string list) list"
  co_abrCopies :: "(StreamCode \<times> AbrCopyEntry) list"
  co_abrMixers :: "(StreamCode \<times> AbrMixerEntry) list"
  co_degradation :: "(StreamCode \<times> streamDegradation) list"
  co_startedAt :: "(StreamCode \<times> gotime) list"
  co_events :: "(string \<times> StreamCode) list"

text \<open>
  What an operation reads from outside: the stored streams with their templates resolved, the answers of the ingestor,
  the time, whether the transcoder's binary is found, the directories the recorder repairs, the watermark library (if
  there is one) and the order a map is walked in.
\<close>

record CoordEnv =
  ce_lookup :: StreamLookup
  ce_start :: start_fn
  ce_now :: gotime
  ce_binary :: bool
  ce_listing :: "StreamCode \<Rightarrow> (string \<times> string list) list"
  ce_assets :: "(string \<Rightarrow> string option) option"
  ce_range :: map_order

datatype CoordError = StreamDisabled StreamCode | StreamWithoutInputs StreamCode | RegisterFailed MgrError
  | PublisherFailed PubError | TranscoderFailed TcError | NoLadder StreamCode | RungMismatch nat nat | UpdateProtocolsFailed PubError

subsection \<open>Status\<close>

definition dg_any :: "streamDegradation \<Rightarrow> bool" where
  "dg_any d \<longleftrightarrow> dg_inputsExhausted d \<or> dg_transcoderUnhealthy d"

definition updateDegradation :: "StreamCode \<Rightarrow> (streamDegradation \<Rightarrow> streamDegradation) \<Rightarrow> Coord \<Rightarrow> Coord" where
  "updateDegradation code f c =
     (let d = f (case gget (co_degradation c) code of None \<Rightarrow> \<lparr>dg_inputsExhausted = False, dg_transcoderUnhealthy = False\<rparr>
                   | Some d \<Rightarrow> d)
      in c\<lparr>co_degradation := (if dg_any d then gput code d (co_degradation c) else gdel code (co_degradation c))\<rparr>)"

definition clearDegradation :: "StreamCode \<Rightarrow> Coord \<Rightarrow> Coord" where
  "clearDegradation code c = c\<lparr>co_degradation := gdel code (co_degradation c)\<rparr>"

definition recordStartedAt :: "StreamCode \<Rightarrow> gotime \<Rightarrow> Coord \<Rightarrow> Coord" where
  "recordStartedAt code t c = c\<lparr>co_startedAt := gput code t (co_startedAt c)\<rparr>"

definition clearStartedAt :: "StreamCode \<Rightarrow> Coord \<Rightarrow> Coord" where
  "clearStartedAt code c = c\<lparr>co_startedAt := gdel code (co_startedAt c)\<rparr>"

definition StreamStartedAt :: "StreamCode \<Rightarrow> Coord \<Rightarrow> gotime option" where
  "StreamStartedAt code c = gget (co_startedAt c) code"

definition co_publish :: "string \<Rightarrow> StreamCode \<Rightarrow> Coord \<Rightarrow> Coord" where
  "co_publish ty code c = c\<lparr>co_events := co_events c @ [(ty, code)]\<rparr>"

definition IsRunning :: "StreamCode \<Rightarrow> Coord \<Rightarrow> bool" where
  "IsRunning code c \<longleftrightarrow> IsRegistered code (co_mgr c) \<or> gget (co_abrCopies c) code \<noteq> None \<or> gget (co_abrMixers c) code \<noteq> None"

text \<open>The codes of \<^verbatim>\<open>RunningStreams\<close>, each once; Go's order of them is arbitrary.\<close>

definition RunningStreams :: "Coord \<Rightarrow> StreamCode list" where
  "RunningStreams c = remdups (gkeys (svc_streams (co_mgr c)) @ gkeys (co_abrCopies c) @ gkeys (co_abrMixers c))"

datatype CoordStatus = CoStopped | CoActive | CoDegraded

definition co_StreamStatus :: "StreamCode \<Rightarrow> Coord \<Rightarrow> CoordStatus" where
  "co_StreamStatus code c =
     (if \<not> IsRunning code c then CoStopped
      else case gget (co_degradation c) code of
        Some d \<Rightarrow> if dg_any d then CoDegraded else CoActive
      | None \<Rightarrow> CoActive)"

subsection \<open>Callbacks\<close>

definition handleAllInputsExhausted :: "StreamCode \<Rightarrow> Coord \<Rightarrow> Coord" where
  "handleAllInputsExhausted code c =
     co_publish ''input.degraded'' code (updateDegradation code (\<lambda>d. d\<lparr>dg_inputsExhausted := True\<rparr>) c)"

definition handleInputRestored :: "StreamCode \<Rightarrow> Coord \<Rightarrow> Coord" where
  "handleInputRestored code c = updateDegradation code (\<lambda>d. d\<lparr>dg_inputsExhausted := False\<rparr>) c"

definition handleTranscoderUnhealthy :: "StreamCode \<Rightarrow> Coord \<Rightarrow> Coord" where
  "handleTranscoderUnhealthy code c =
     co_publish ''transcoder.error'' code (updateDegradation code (\<lambda>d. d\<lparr>dg_transcoderUnhealthy := True\<rparr>) c)"

definition handleTranscoderHealthy :: "StreamCode \<Rightarrow> Coord \<Rightarrow> Coord" where
  "handleTranscoderHealthy code c = updateDegradation code (\<lambda>d. d\<lparr>dg_transcoderUnhealthy := False\<rparr>) c"

fun mgr_effect :: "StreamCode \<Rightarrow> Effect \<Rightarrow> Coord \<Rightarrow> Coord" where
  "mgr_effect code EfOnExhausted c = handleAllInputsExhausted code c"
| "mgr_effect code EfOnRestored c = handleInputRestored code c"
| "mgr_effect code _ c = c"

fun tc_call :: "TcCall \<Rightarrow> Coord \<Rightarrow> Coord" where
  "tc_call (OnUnhealthy code _) c = handleTranscoderUnhealthy code c"
| "tc_call (OnHealthy code) c = handleTranscoderHealthy code c"

text \<open>An operation of the manager or of the transcoder, with the callbacks it makes.\<close>

definition on_mgr :: "StreamCode \<Rightarrow> (MgrService \<Rightarrow> MgrService \<times> Effect list) \<Rightarrow> Coord \<Rightarrow> Coord" where
  "on_mgr code f c = (case f (co_mgr c) of (m, ef) \<Rightarrow> fold (mgr_effect code) ef (c\<lparr>co_mgr := m\<rparr>))"

definition on_tc :: "(TcService \<Rightarrow> TcService \<times> TcCall list) \<Rightarrow> Coord \<Rightarrow> Coord" where
  "on_tc f c = (case f (co_tc c) of (t, calls) \<Rightarrow> fold tc_call calls (c\<lparr>co_tc := t\<rparr>))"

subsection \<open>Buffers\<close>

definition buf_Create :: "StreamCode \<Rightarrow> Coord \<Rightarrow> Coord" where
  "buf_Create bid c = c\<lparr>co_buf := Create bid (co_buf c)\<rparr>"

text \<open>
  A deletion removes the entry and then closes the subscribers' channels; closing one twice would panic, which the
  invariant of the hub excludes.
\<close>

definition buf_Delete :: "StreamCode \<Rightarrow> Coord \<Rightarrow> Coord" where
  "buf_Delete bid c =
     c\<lparr>co_buf := (case hub_Delete bid (co_buf c) of
         Some b \<Rightarrow> b
       | None \<Rightarrow> (co_buf c)\<lparr>hub_buffers := gdel bid (hub_buffers (co_buf c))\<rparr>)\<rparr>"

definition drop_slugs :: "StreamCode \<Rightarrow> string list \<Rightarrow> Coord \<Rightarrow> Coord" where
  "drop_slugs code slugs c = fold (\<lambda>slug. buf_Delete (RenditionBufferID code slug)) slugs c"

subsection \<open>Transcoder settings\<close>

definition shouldRunTranscoder :: "Stream \<Rightarrow> bool" where
  "shouldRunTranscoder s =
     (case s_Transcoder s of None \<Rightarrow> False | Some tc \<Rightarrow> \<not> vt_Copy (tc_Video tc) \<or> \<not> at_Copy (tc_Audio tc))"

definition DefaultVideoBitrateK :: int where "DefaultVideoBitrateK = 2500"

definition no_profile :: Profile where
  "no_profile = \<lparr>tp_Width = 0, tp_Height = 0, tp_Bitrate = [], tp_Codec = [], tp_Preset = [], tp_CodecProfile = [],
     tp_CodecLevel = [], tp_MaxBitrate = 0, tp_Framerate = 0, tp_KeyframeInterval = 0, tp_Bframes = None, tp_Refs = None,
     tp_SAR = [], tp_ResizeMode = []\<rparr>"

definition singleOriginCopyProfile :: "Profile list" where
  "singleOriginCopyProfile = [no_profile\<lparr>tp_Bitrate := show_int DefaultVideoBitrateK @ ''k''\<rparr>]"

definition profile_of :: "VideoProfile \<Rightarrow> Profile" where
  "profile_of p =
     \<lparr>tp_Width = vp_Width p, tp_Height = vp_Height p,
      tp_Bitrate = (if vp_Bitrate p \<le> 0 then show_int DefaultVideoBitrateK @ ''k'' else show_int (vp_Bitrate p) @ ''k''),
      tp_Codec = (if vp_Codec p = ''copy'' then [] else vp_Codec p), tp_Preset = vp_Preset p, tp_CodecProfile = vp_Profile p,
      tp_CodecLevel = vp_Level p, tp_MaxBitrate = vp_MaxBitrate p, tp_Framerate = vp_Framerate p,
      tp_KeyframeInterval = vp_KeyframeInterval p, tp_Bframes = vp_Bframes p, tp_Refs = vp_Refs p, tp_SAR = vp_SAR p,
      tp_ResizeMode = vp_ResizeMode p\<rparr>"

definition transcoderProfilesFromDomain :: "VideoTranscodeConfig \<Rightarrow> Profile list" where
  "transcoderProfilesFromDomain v =
     (if vt_Copy v \<or> length (elems (vt_Profiles v)) = 0 then singleOriginCopyProfile
      else map profile_of (elems (vt_Profiles v)))"

definition resolvedWatermark :: "CoordEnv \<Rightarrow> WatermarkConfig option \<Rightarrow> WatermarkConfig option" where
  "resolvedWatermark env wm =
     (case (wm, ce_assets env) of
        (Some w, Some resolve) \<Rightarrow>
          if TrimSpace (wm_Filename w) = [] then wm
          else (case resolve (wm_Filename w) of
                  None \<Rightarrow> None
                | Some path \<Rightarrow> Some (w\<lparr>wm_ImagePath := path, wm_Filename := []\<rparr>))
      | _ \<Rightarrow> wm)"

definition transcoderConfigWithWatermark :: "CoordEnv \<Rightarrow> Stream \<Rightarrow> TranscoderConfig option" where
  "transcoderConfigWithWatermark env s =
     map_option (\<lambda>tc. tc\<lparr>tc_Watermark := resolvedWatermark env (s_Watermark s)\<rparr>) (s_Transcoder s)"

text \<open>The rendition slugs and the targets of the transcoder, empty when it is not needed.\<close>

definition rendition_slugs :: "Stream \<Rightarrow> string list" where
  "rendition_slugs s =
     (case s_Transcoder s of
        Some tc \<Rightarrow> if shouldRunTranscoder s
                   then map VideoTrackSlug [0 ..< length (transcoderProfilesFromDomain (tc_Video tc))] else []
      | None \<Rightarrow> [])"

definition rendition_targets :: "Stream \<Rightarrow> RenditionTarget list" where
  "rendition_targets s =
     (case s_Transcoder s of
        Some tc \<Rightarrow>
          if shouldRunTranscoder s then
            let profiles = transcoderProfilesFromDomain (tc_Video tc) in
            map (\<lambda>i. \<lparr>rt_BufferID = RenditionBufferID (s_Code s) (VideoTrackSlug i), rt_Profile = profiles ! i\<rparr>)
              [0 ..< length profiles]
          else []
      | None \<Rightarrow> [])"

subsection \<open>Recording\<close>

definition blobProfiles :: "Stream \<Rightarrow> ProfileSub list" where
  "blobProfiles s =
     (let rends = RenditionsForTranscoder (s_Code s) (s_Transcoder s) in
      if length rends = 0 then
        (if StreamMainBufferIsTS s then []
         else [\<lparr>ps_ID = ''p0'', ps_Slug = [], ps_BufferID = s_Code s, ps_Width = 0, ps_Height = 0, ps_BitrateKbps = 0,
                ps_IsAudioSource = True\<rparr>])
      else
        let best = BestRenditionIndex rends;
            recordAll = (case s_DVR s of Some d \<Rightarrow> dvr_Profiles d = ''all'' | None \<Rightarrow> False) in
        map (\<lambda>i. let r = rends ! i in
               \<lparr>ps_ID = ''p'' @ digits i, ps_Slug = rp_Slug r, ps_BufferID = rp_BufferID r, ps_Width = rp_Width r,
                ps_Height = rp_Height r, ps_BitrateKbps = rp_BitrateKbps r, ps_IsAudioSource = (i = best)\<rparr>)
          (filter (\<lambda>i. recordAll \<or> i = best) [0 ..< length rends]))"

definition startDVR :: "CoordEnv \<Rightarrow> Stream \<Rightarrow> Coord \<Rightarrow> Coord" where
  "startDVR env s c =
     (case s_DVR s of
        None \<Rightarrow> c
      | Some d \<Rightarrow>
          if \<not> dvr_Enabled d then c
          else let profiles = blobProfiles s in
            if length profiles = 0 then c
            else c\<lparr>co_dvr := snd (StartRecording (s_Code s) profiles (Some d) (ce_listing env (s_Code s)) (co_dvr c))\<rparr>)"

definition stopDVR :: "StreamCode \<Rightarrow> Coord \<Rightarrow> Coord" where
  "stopDVR code c = (if \<not> IsRecording code (co_dvr c) then c else c\<lparr>co_dvr := StopRecording code (co_dvr c)\<rparr>)"

definition reloadDVR :: "CoordEnv \<Rightarrow> Stream \<Rightarrow> Coord \<Rightarrow> Coord" where
  "reloadDVR env s c = startDVR env s (stopDVR (s_Code s) c)"

subsection \<open>Copies and mixers of a ladder\<close>

definition upstreamHasABRLadder :: "Stream \<Rightarrow> bool" where
  "upstreamHasABRLadder s =
     (case s_Transcoder s of
        None \<Rightarrow> False
      | Some tc \<Rightarrow> if vt_Copy (tc_Video tc) then False else 0 < length (elems (vt_Profiles (tc_Video tc))))"

definition detectABRCopy :: "CoordEnv \<Rightarrow> Stream \<Rightarrow> Stream option" where
  "detectABRCopy env s =
     (case s_Inputs s of
        [] \<Rightarrow> None
      | first # _ \<Rightarrow>
          if s_Transcoder s \<noteq> None then None
          else if \<not> IsCopyInput first then None
          else case CopyInputTarget first of
            Inl _ \<Rightarrow> None
          | Inr target \<Rightarrow>
              (case ce_lookup env target of
                 None \<Rightarrow> None
               | Some up \<Rightarrow> if upstreamHasABRLadder up then Some up else None))"

definition detectABRMixer :: "CoordEnv \<Rightarrow> Stream \<Rightarrow> (Stream \<times> Stream) option" where
  "detectABRMixer env s =
     (case s_Inputs s of
        [] \<Rightarrow> None
      | first # _ \<Rightarrow>
          if s_Transcoder s \<noteq> None then None
          else if \<not> IsMixerInput first then None
          else case MixerInputSpec first of
            Inl _ \<Rightarrow> None
          | Inr (video, audio, _) \<Rightarrow>
              (case ce_lookup env video of
                 None \<Rightarrow> None
               | Some upV \<Rightarrow>
                   if \<not> upstreamHasABRLadder upV then None
                   else case ce_lookup env audio of None \<Rightarrow> None | Some upA \<Rightarrow> Some (upV, upA)))"

text \<open>The zero value of the settings a mirrored ladder leaves out.\<close>

definition mirrorTranscoderForCopy :: "TranscoderConfig option \<Rightarrow> TranscoderConfig option" where
  "mirrorTranscoderForCopy src =
     map_option (\<lambda>tc.
       \<lparr>tc_Video = \<lparr>vt_Copy = False, vt_Interlace = [], vt_Profiles = Some (elems (vt_Profiles (tc_Video tc)))\<rparr>,
        tc_Audio = \<lparr>at_Copy = False, at_Codec = [], at_Bitrate = 0, at_SampleRate = 0, at_Channels = 0, at_Language = [],
          at_Normalize = False, at_Volume = []\<rparr>,
        tc_Decoder = \<lparr>dec_Name = []\<rparr>, tc_Global = \<lparr>tg_HW = [], tg_FPS = 0, tg_GOP = 0, tg_DeviceID = 0\<rparr>,
        tc_Watermark = None\<rparr>) src"

text \<open>What both starts do first: the rungs upstream and downstream, the buffers, the publisher.\<close>

definition abr_rungs :: "Stream \<Rightarrow> Stream \<Rightarrow> CoordError + (Stream \<times> RenditionPlayout list \<times> RenditionPlayout list)" where
  "abr_rungs down up =
     (let upRends = RenditionsForTranscoder (s_Code up) (s_Transcoder up);
          mirrored = down\<lparr>s_Transcoder := mirrorTranscoderForCopy (s_Transcoder up)\<rparr>;
          downRends = RenditionsForTranscoder (s_Code mirrored) (s_Transcoder mirrored) in
      if length upRends = 0 then Inl (NoLadder (s_Code up))
      else if length downRends \<noteq> length upRends then Inl (RungMismatch (length upRends) (length downRends))
      else Inr (mirrored, upRends, downRends))"

definition abr_outputs :: "Stream \<Rightarrow> RenditionPlayout list \<Rightarrow> Coord \<Rightarrow> CoordError option \<times> Coord" where
  "abr_outputs mirrored downRends c =
     (let c1 = fold (\<lambda>r. buf_Create (rp_BufferID r)) downRends c in
      case pub_Start mirrored (co_pub c1) of
        (Some e, pub) \<Rightarrow>
          (Some (PublisherFailed e), fold (\<lambda>r. buf_Delete (rp_BufferID r)) downRends (c1\<lparr>co_pub := pub\<rparr>))
      | (None, pub) \<Rightarrow> (None, c1\<lparr>co_pub := pub\<rparr>))"

definition went_live :: "CoordEnv \<Rightarrow> StreamCode \<Rightarrow> Coord \<Rightarrow> Coord" where
  "went_live env code c =
     co_publish ''stream.started'' code (clearDegradation code (recordStartedAt code (ce_now env) c))"

definition went_down :: "StreamCode \<Rightarrow> Coord \<Rightarrow> Coord" where
  "went_down code c = co_publish ''stream.stopped'' code (clearDegradation code (clearStartedAt code c))"

definition startABRCopy :: "CoordEnv \<Rightarrow> Stream \<Rightarrow> Stream \<Rightarrow> Coord \<Rightarrow> CoordError option \<times> Coord" where
  "startABRCopy env down up c =
     (if gget (co_abrCopies c) (s_Code down) \<noteq> None then (None, c)
      else case abr_rungs down up of
        Inl e \<Rightarrow> (Some e, c)
      | Inr (mirrored, upRends, downRends) \<Rightarrow>
          (case abr_outputs mirrored downRends c of
             (Some e, c1) \<Rightarrow> (Some e, c1)
           | (None, c1) \<Rightarrow>
               (None, went_live env (s_Code down) (c1\<lparr>co_abrCopies := gput (s_Code down)
                  \<lparr>ae_slugs = map rp_Slug downRends, ae_upstream = s_Code up,
                   ae_taps = zip (map rp_BufferID upRends) (map rp_BufferID downRends), ae_lastPacketAt = None\<rparr>
                  (co_abrCopies c1)\<rparr>))))"

definition stopABRCopy :: "StreamCode \<Rightarrow> AbrCopyEntry \<Rightarrow> Coord \<Rightarrow> Coord" where
  "stopABRCopy code abr c =
     went_down code (drop_slugs code (ae_slugs abr) (c\<lparr>co_pub := pub_Stop code (co_pub c)\<rparr>))"

definition startABRMixer :: "CoordEnv \<Rightarrow> Stream \<Rightarrow> Stream \<Rightarrow> Stream \<Rightarrow> Coord \<Rightarrow> CoordError option \<times> Coord" where
  "startABRMixer env down videoUp audioUp c =
     (if gget (co_abrMixers c) (s_Code down) \<noteq> None then (None, c)
      else case abr_rungs down videoUp of
        Inl e \<Rightarrow> (Some e, c)
      | Inr (mirrored, upRends, downRends) \<Rightarrow>
          (case abr_outputs mirrored downRends c of
             (Some e, c1) \<Rightarrow> (Some e, c1)
           | (None, c1) \<Rightarrow>
               let bids = map rp_BufferID downRends in
               (None, went_live env (s_Code down) (c1\<lparr>co_abrMixers := gput (s_Code down)
                  \<lparr>am_slugs = map rp_Slug downRends, am_videoUpstream = s_Code videoUp, am_audioUpstream = s_Code audioUp,
                   am_taps = zip (map rp_BufferID upRends) bids,
                   am_audio = (PlaybackBufferID (s_Code audioUp) (s_Transcoder audioUp),
                     upstreamHasABRLadder audioUp \<or> StreamMainBufferIsTS audioUp, bids),
                   am_lastPacketAt = None, am_t0 = ce_now env\<rparr>
                  (co_abrMixers c1)\<rparr>))))"

definition stopABRMixer :: "StreamCode \<Rightarrow> AbrMixerEntry \<Rightarrow> Coord \<Rightarrow> Coord" where
  "stopABRMixer code entry c =
     went_down code (drop_slugs code (am_slugs entry) (c\<lparr>co_pub := pub_Stop code (co_pub c)\<rparr>))"

subsection \<open>Start and stop\<close>

text \<open>What a failed start takes back: the rendition buffers, the main buffer, the raw buffer if there is one.\<close>

definition drop_pipeline_buffers :: "Stream \<Rightarrow> StreamCode \<Rightarrow> Coord \<Rightarrow> Coord" where
  "drop_pipeline_buffers s ingestWriteID c =
     (let c1 = buf_Delete (s_Code s) (drop_slugs (s_Code s) (rendition_slugs s) c) in
      if ingestWriteID \<noteq> s_Code s then buf_Delete ingestWriteID c1 else c1)"

definition startPipeline :: "CoordEnv \<Rightarrow> Stream \<Rightarrow> Coord \<Rightarrow> CoordError option \<times> Coord" where
  "startPipeline env s c =
     (let code = s_Code s; raw = RawIngestBufferID code; now = ce_now env;
          ingestWriteID = (if shouldRunTranscoder s then raw else code);
          targets = rendition_targets s;
          c1 = buf_Create code c;
          c2 = (if shouldRunTranscoder s then buf_Create raw c1 else c1);
          c3 = fold (\<lambda>t. buf_Create (rt_BufferID t)) targets c2 in
      case Register (ce_start env) now now now now s ingestWriteID (co_mgr c3) of
        (Some e, m, ef) \<Rightarrow> (Some (RegisterFailed e), drop_pipeline_buffers s ingestWriteID (on_mgr code (\<lambda>_. (m, ef)) c3))
      | (None, m, ef) \<Rightarrow>
          let c4 = on_mgr code (\<lambda>_. (m, ef)) c3 in
          (case pub_Start s (co_pub c4) of
             (Some e, pub) \<Rightarrow>
               (Some (PublisherFailed e), drop_pipeline_buffers s ingestWriteID (on_mgr code (Unregister code) (c4\<lparr>co_pub := pub\<rparr>)))
           | (None, pub) \<Rightarrow>
               let c5 = c4\<lparr>co_pub := pub\<rparr>; live = (\<lambda>c. went_live env code (startDVR env s c)) in
               if length targets = 0 then (None, live c5)
               else (case tc_Start (ce_binary env) code raw (transcoderConfigWithWatermark env s) targets (co_tc c5) of
                  (Some e, t) \<Rightarrow>
                    let c6 = drop_slugs code (rendition_slugs s) (c5\<lparr>co_tc := t\<rparr>);
                        c7 = on_mgr code (Unregister code) (c6\<lparr>co_pub := pub_Stop code (co_pub c6)\<rparr>)
                    in (Some (TranscoderFailed e), buf_Delete raw (buf_Delete code c7))
                | (None, t) \<Rightarrow>
                    (None, live (c5\<lparr>co_tc := t, co_renditions := gput code (rendition_slugs s) (co_renditions c5)\<rparr>)))))"

definition startLocked :: "CoordEnv \<Rightarrow> Stream \<Rightarrow> Coord \<Rightarrow> CoordError option \<times> Coord" where
  "startLocked env s c =
     (if IsRunning (s_Code s) c then (None, c)
      else if s_Disabled s then (Some (StreamDisabled (s_Code s)), c)
      else if length (s_Inputs s) = 0 then (Some (StreamWithoutInputs (s_Code s)), c)
      else case detectABRCopy env s of
        Some up \<Rightarrow> startABRCopy env s up c
      | None \<Rightarrow>
          (case detectABRMixer env s of
             Some (videoUp, audioUp) \<Rightarrow> startABRMixer env s videoUp audioUp c
           | None \<Rightarrow> startPipeline env s c))"

definition slugs_of :: "StreamCode \<Rightarrow> Coord \<Rightarrow> string list" where
  "slugs_of code c = (case gget (co_renditions c) code of None \<Rightarrow> [] | Some slugs \<Rightarrow> slugs)"

text \<open>The rendition buffers of the table are deleted and its entry removed.\<close>

definition drop_renditions :: "StreamCode \<Rightarrow> Coord \<Rightarrow> Coord" where
  "drop_renditions code c = drop_slugs code (slugs_of code c) (c\<lparr>co_renditions := gdel code (co_renditions c)\<rparr>)"

definition stopPipeline :: "StreamCode \<Rightarrow> Coord \<Rightarrow> Coord" where
  "stopPipeline code c =
     (let c1 = stopDVR code c;
          c2 = c1\<lparr>co_pub := pub_Stop code (co_pub c1)\<rparr>;
          c3 = on_tc (tc_Stop code) c2;
          c4 = on_mgr code (Unregister code) c3;
          c5 = drop_renditions code c4
      in went_down code (buf_Delete code (buf_Delete (RawIngestBufferID code) c5)))"

definition stopLocked :: "StreamCode \<Rightarrow> Coord \<Rightarrow> Coord" where
  "stopLocked code c =
     (let abr = gget (co_abrCopies c) code; mix = gget (co_abrMixers c) code;
          c1 = c\<lparr>co_abrCopies := gdel code (co_abrCopies c), co_abrMixers := gdel code (co_abrMixers c)\<rparr> in
      case (abr, mix) of
        (Some a, _) \<Rightarrow> stopABRCopy code a c1
      | (None, Some m) \<Rightarrow> stopABRMixer code m c1
      | (None, None) \<Rightarrow> stopPipeline code c1)"

subsection \<open>Hot reload\<close>

definition reloadFailed :: "StreamCode \<Rightarrow> CoordError \<Rightarrow> Coord \<Rightarrow> CoordError option \<times> Coord" where
  "reloadFailed code e c = (Some e, stopLocked code c)"

definition reloadTranscoderFull :: "CoordEnv \<Rightarrow> Stream \<Rightarrow> Stream \<Rightarrow> Coord \<Rightarrow> CoordError option \<times> Coord" where
  "reloadTranscoderFull env old new c =
     (let code = s_Code new; raw = RawIngestBufferID code;
          c1 = stopDVR code c;
          c2 = c1\<lparr>co_pub := pub_Stop code (co_pub c1)\<rparr>;
          c3 = drop_renditions code (on_tc (tc_Stop code) c2);
          oldIngestID = (if shouldRunTranscoder old then raw else code);
          newIngestID = (if shouldRunTranscoder new then raw else code);
          targets = rendition_targets new;
          c4 = (if shouldRunTranscoder new then
                  fold (\<lambda>t. buf_Create (rt_BufferID t)) targets
                    (if oldIngestID \<noteq> newIngestID then buf_Create newIngestID c3 else c3)
                else if oldIngestID \<noteq> newIngestID then buf_Delete oldIngestID c3 else c3);
          c5 = on_mgr code (UpdateBufferWriteID code newIngestID) c4;
          finish = (\<lambda>c. case pub_Start new (co_pub c) of
             (Some e, pub) \<Rightarrow> reloadFailed code (PublisherFailed e) (c\<lparr>co_pub := pub\<rparr>)
           | (None, pub) \<Rightarrow> (None, reloadDVR env new (c\<lparr>co_pub := pub\<rparr>)))
      in if length targets = 0 then finish c5
         else case tc_Start (ce_binary env) code newIngestID (transcoderConfigWithWatermark env new) targets (co_tc c5) of
           (Some e, t) \<Rightarrow> reloadFailed code (TranscoderFailed e) (c5\<lparr>co_tc := t\<rparr>)
         | (None, t) \<Rightarrow>
             finish (c5\<lparr>co_tc := t, co_renditions := gput code (rendition_slugs new) (co_renditions c5)\<rparr>))"

definition updateLocked :: "CoordEnv \<Rightarrow> Stream \<Rightarrow> Stream \<Rightarrow> Coord \<Rightarrow> CoordError option \<times> Coord" where
  "updateLocked env old new c =
     (let wasABR = (gget (co_abrCopies c) (s_Code old) \<noteq> None \<or> gget (co_abrMixers c) (s_Code old) \<noteq> None);
          willBeABR = (\<not> s_Disabled new \<and> (detectABRCopy env new \<noteq> None \<or> detectABRMixer env new \<noteq> None)) in
      if wasABR \<or> willBeABR then
        let c1 = stopLocked (s_Code old) c in
        if s_Disabled new \<or> length (s_Inputs new) = 0 then (None, c1) else startLocked env new c1
      else
        let d = ComputeDiff (ce_range env) old new in
        if df_NowDisabled d then (None, stopLocked (s_Code new) c)
        else
          let c1 = (if df_InputsChanged d
                then on_mgr (s_Code new) (UpdateInputs (ce_start env) (ce_now env) (s_Code new) (df_AddedInputs d)
                       (df_RemovedInputs d) (df_UpdatedInputs d)) c
                else c) in
          if df_TranscoderTopologyChanged d \<or> df_TranscoderChanged d \<and> df_ProfilesDiff d \<noteq> None
          then reloadTranscoderFull env old new c1
          else
            let (err, c2) = (if df_ProtocolsChanged d \<or> df_PushChanged d \<or> df_PlaybackPolicyChanged d
                  then (case UpdateProtocols old new (co_pub c1) of
                          (e, pub) \<Rightarrow> (map_option UpdateProtocolsFailed e, c1\<lparr>co_pub := pub\<rparr>))
                  else (None, c1)) in
            if err \<noteq> None then (err, c2)
            else (None, if df_DVRChanged d then reloadDVR env new c2 else c2))"

subsection \<open>Bootstrap and reconciler\<close>

definition resolve_stream :: "(TemplateCode \<Rightarrow> Template option) \<Rightarrow> Stream \<Rightarrow> Stream" where
  "resolve_stream templates s =
     (case s_Template s of
        None \<Rightarrow> s
      | Some tc \<Rightarrow> (case templates tc of
          None \<Rightarrow> s
        | Some tpl \<Rightarrow> (case ResolveStream (Some s) (Some tpl) of None \<Rightarrow> s | Some r \<Rightarrow> r)))"

definition bootstrap_one :: "(TemplateCode \<Rightarrow> Template option) \<Rightarrow> CoordEnv \<Rightarrow> Stream \<Rightarrow> Coord \<Rightarrow> Coord" where
  "bootstrap_one templates env st c =
     (if s_Disabled st then c
      else let r = resolve_stream templates st in
        if length (s_Inputs r) = 0 then c else snd (startLocked env r c))"

definition BootstrapPersistedStreams :: "(TemplateCode \<Rightarrow> Template option) \<Rightarrow> CoordEnv \<Rightarrow> Stream list \<Rightarrow> Coord \<Rightarrow> Coord" where
  "BootstrapPersistedStreams templates env streams c = fold (bootstrap_one templates env) streams c"

definition reconcile_one :: "(TemplateCode \<Rightarrow> Template option) \<Rightarrow> CoordEnv \<Rightarrow> Stream \<Rightarrow> Coord \<Rightarrow> Coord" where
  "reconcile_one templates env st c =
     (if s_Disabled st then c
      else if IsRunning (s_Code st) c then c
      else let r = resolve_stream templates st in
        if length (s_Inputs r) = 0 then c else snd (startLocked env r c))"

definition reconcileOnce :: "(TemplateCode \<Rightarrow> Template option) \<Rightarrow> CoordEnv \<Rightarrow> Stream list \<Rightarrow> Coord \<Rightarrow> Coord" where
  "reconcileOnce templates env streams c = fold (reconcile_one templates env) streams c"

text \<open>The counts of the status gauge: the listed streams, then the running ones without a record.\<close>

definition refreshStatusGauge :: "Stream list \<Rightarrow> Coord \<Rightarrow> CoordStatus \<Rightarrow> nat" where
  "refreshStatusGauge streams c status =
     (let seen = map s_Code streams;
          others = filter (\<lambda>code. code \<notin> set seen) (RunningStreams c)
      in length (filter (\<lambda>code. co_StreamStatus code c = status) (seen @ others)))"

subsection \<open>Taps\<close>

definition initialBackoff :: duration where "initialBackoff = seconds 1"
definition maxBackoff :: duration where "maxBackoff = seconds 10"

definition tap_backoff :: "duration \<Rightarrow> duration" where
  "tap_backoff b = (if b < maxBackoff then (if maxBackoff < b * 2 then maxBackoff else b * 2) else b)"

text \<open>
  One cycle of a copy tap over the packets it receives before the upstream buffer is torn down or the context is
  cancelled: subscribe, open a session downstream, write each packet. The result is the time of the last packet written;
  \<open>None\<close> outside is a panic of the hub, inside a failed subscription.
\<close>

fun tap_write :: "StreamCode \<Rightarrow> (Packet \<times> gotime) list \<Rightarrow> gotime option \<Rightarrow> BufService \<Rightarrow> (gotime option \<times> BufService) option" where
  "tap_write down [] seen b = Some (seen, b)"
| "tap_write down ((pkt, now) # ps) seen b =
     (case hub_Write down pkt b of
        None \<Rightarrow> None
      | Some (None, b') \<Rightarrow> tap_write down ps (Some now) b'
      | Some (Some _, b') \<Rightarrow> tap_write down ps seen b')"

definition abrCopyTapForward ::
  "StreamCode \<Rightarrow> StreamCode \<Rightarrow> gotime \<Rightarrow> (Packet \<times> gotime) list \<Rightarrow> gotime option \<Rightarrow> BufService \<Rightarrow> (gotime option \<times> BufService) option" where
  "abrCopyTapForward up down now received seen b =
     (case hub_Subscribe up b of
        None \<Rightarrow> None
      | Some (Inl _, b1) \<Rightarrow> Some (seen, b1)
      | Some (Inr i, b1) \<Rightarrow>
          (case hub_SetSession down SessionStartMixerCycle None None now b1 of
             None \<Rightarrow> None
           | Some (_, b2) \<Rightarrow>
               (case tap_write down received seen b2 of
                  None \<Rightarrow> None
                | Some (seen', b3) \<Rightarrow> map_option (Pair seen') (hub_Unsubscribe up i b3))))"

text \<open>A fan-out to every rung; the flag says whether one write succeeded.\<close>

fun fanOutToRenditions :: "StreamCode list \<Rightarrow> Packet \<Rightarrow> BufService \<Rightarrow> (bool \<times> BufService) option" where
  "fanOutToRenditions [] pkt b = Some (False, b)"
| "fanOutToRenditions (bid # bids) pkt b =
     (case hub_Write bid pkt b of
        None \<Rightarrow> None
      | Some (e, b') \<Rightarrow> map_option (\<lambda>(wrote, b''). (e = None \<or> wrote, b'')) (fanOutToRenditions bids pkt b'))"

definition abrCopyInputStaleAfter :: duration where "abrCopyInputStaleAfter = seconds 30"

text \<open>The status of the synthetic input: whether it is active.\<close>

definition tap_active :: "gotime \<Rightarrow> gotime option \<Rightarrow> bool" where
  "tap_active now seen = (case seen of None \<Rightarrow> False | Some t \<Rightarrow> 0 < t \<and> now - t \<le> abrCopyInputStaleAfter)"

definition ABRCopyRuntimeStatus :: "gotime \<Rightarrow> StreamCode \<Rightarrow> Coord \<Rightarrow> bool option" where
  "ABRCopyRuntimeStatus now code c = map_option (\<lambda>e. tap_active now (ae_lastPacketAt e)) (gget (co_abrCopies c) code)"

definition ABRMixerRuntimeStatus :: "gotime \<Rightarrow> StreamCode \<Rightarrow> Coord \<Rightarrow> bool option" where
  "ABRMixerRuntimeStatus now code c = map_option (\<lambda>e. tap_active now (am_lastPacketAt e)) (gget (co_abrMixers c) code)"

end
