(* ===== verification/Pipeline_State.thy ===== *)
theory Pipeline_State
  imports Coordinator
begin

text \<open>
  What a stream's pipeline consists of in the coordinator's state, what each operation does to its parts, and the three
  states a stream can be in: nothing is held for it, its pipeline runs as configured, or it mirrors a ladder.
\<close>

declare map_of_eq_Some_iff [simp del] Some_eq_map_of_iff [simp del]

subsection \<open>Buffer names\<close>

definition plain_code :: "StreamCode \<Rightarrow> bool" where
  "plain_code code \<longleftrightarrow> CHR ''$'' \<notin> set code"

definition owned :: "StreamCode \<Rightarrow> StreamCode set" where
  "owned code = insert code (insert (RawIngestBufferID code) (range (RenditionBufferID code)))"

lemma rendition_of_code:
  assumes "plain_code a" "plain_code b" and "RenditionBufferID a s = RenditionBufferID b t"
  shows "a = b \<and> s = t"
proof -
  have tw: "takeWhile (\<lambda>x. x \<noteq> CHR ''$'') (c @ CHR ''$'' # r) = c" if "plain_code c" for c r
    using that by (induction c) (auto simp: plain_code_def)
  have "a @ CHR ''$'' # s = b @ CHR ''$'' # t" using assms(3) by (simp add: RenditionBufferID_def)
  moreover from this tw [OF assms(1), of s] tw [OF assms(2), of t] have "a = b" by simp
  ultimately show ?thesis by simp
qed

lemma ids_differ [simp]:
  "RawIngestBufferID a \<noteq> RenditionBufferID b s" "RenditionBufferID b s \<noteq> RawIngestBufferID a"
  "RawIngestBufferID a = RawIngestBufferID b \<longleftrightarrow> a = b"
  by (auto simp: RawIngestBufferID_def RenditionBufferID_def)

lemma ids_not_plain [simp]:
  "plain_code code \<Longrightarrow> code \<noteq> RawIngestBufferID x" "plain_code code \<Longrightarrow> RawIngestBufferID x \<noteq> code"
  "plain_code code \<Longrightarrow> code \<noteq> RenditionBufferID x s" "plain_code code \<Longrightarrow> RenditionBufferID x s \<noteq> code"
  by (auto simp: plain_code_def RawIngestBufferID_def RenditionBufferID_def)

lemma ids_special [simp]: "\<not> plain_code (RawIngestBufferID x)" "\<not> plain_code (RenditionBufferID x s)"
  by (simp_all add: plain_code_def RawIngestBufferID_def RenditionBufferID_def)

lemma rendition_same_code [simp]: "plain_code code \<Longrightarrow> RenditionBufferID code s = RenditionBufferID code t \<longleftrightarrow> s = t"
  using rendition_of_code by blast

lemma owned_disjoint: "plain_code a \<Longrightarrow> plain_code b \<Longrightarrow> a \<noteq> b \<Longrightarrow> x \<in> owned a \<Longrightarrow> x \<notin> owned b"
  using rendition_of_code [of a b] by (auto simp: owned_def)

lemma owned_simps [simp]:
  "code \<in> owned code" "RawIngestBufferID code \<in> owned code" "RenditionBufferID code s \<in> owned code"
  by (simp_all add: owned_def)

subsection \<open>The parts of the state after each operation\<close>

named_theorems co_simps \<open>fields of the coordinator's state after an operation\<close>

definition has_buf :: "StreamCode \<Rightarrow> Coord \<Rightarrow> bool" where
  "has_buf bid c \<longleftrightarrow> gget (hub_buffers (co_buf c)) bid \<noteq> None"

lemma has_buf_fields: "co_buf c' = co_buf c \<Longrightarrow> has_buf bid c' = has_buf bid c"
  by (simp add: has_buf_def)

lemma has_buf_upd [simp]:
  "has_buf bid (c\<lparr>co_mgr := m\<rparr>) = has_buf bid c" "has_buf bid (c\<lparr>co_tc := t\<rparr>) = has_buf bid c"
  "has_buf bid (c\<lparr>co_pub := p\<rparr>) = has_buf bid c" "has_buf bid (c\<lparr>co_dvr := d\<rparr>) = has_buf bid c"
  "has_buf bid (c\<lparr>co_renditions := r\<rparr>) = has_buf bid c" "has_buf bid (c\<lparr>co_abrCopies := a\<rparr>) = has_buf bid c"
  "has_buf bid (c\<lparr>co_abrMixers := x\<rparr>) = has_buf bid c" "has_buf bid (c\<lparr>co_degradation := g\<rparr>) = has_buf bid c"
  "has_buf bid (c\<lparr>co_startedAt := s\<rparr>) = has_buf bid c" "has_buf bid (c\<lparr>co_events := e\<rparr>) = has_buf bid c"
  by (simp_all add: has_buf_def)

lemma Create_buffers: "gget (hub_buffers (Create bid b)) x \<noteq> None \<longleftrightarrow> x = bid \<or> gget (hub_buffers b) x \<noteq> None"
  by (auto simp: Create_def Let_def map_simps split: option.split)

lemma close_all_buffers: "rb_unsubscribeAll r s = Some s' \<Longrightarrow> hub_buffers s' = hub_buffers s"
  by (auto simp: rb_unsubscribeAll_def set_rb_def Let_def split: option.splits)

lemma Delete_buffers: "hub_Delete bid b = Some b' \<Longrightarrow> gget (hub_buffers b') x = (if x = bid then None else gget (hub_buffers b) x)"
  by (auto simp: hub_Delete_def map_simps dest!: close_all_buffers split: option.splits)

lemma has_buf_ops [co_simps]:
  "has_buf x (buf_Create bid c) \<longleftrightarrow> x = bid \<or> has_buf x c"
  "has_buf x (buf_Delete bid c) \<longleftrightarrow> x \<noteq> bid \<and> has_buf x c"
proof -
  show "has_buf x (buf_Create bid c) \<longleftrightarrow> x = bid \<or> has_buf x c"
    using Create_buffers [of bid "co_buf c" x] by (simp add: has_buf_def buf_Create_def del: not_None_eq)
  show "has_buf x (buf_Delete bid c) \<longleftrightarrow> x \<noteq> bid \<and> has_buf x c"
    by (cases "hub_Delete bid (co_buf c)") (simp_all add: has_buf_def buf_Delete_def map_simps Delete_buffers)
qed

lemma has_buf_folds [co_simps]:
  "has_buf x (fold (\<lambda>t. buf_Create (f t)) ts c) \<longleftrightarrow> x \<in> f ` set ts \<or> has_buf x c"
  "has_buf x (fold (\<lambda>t. buf_Delete (f t)) ts c) \<longleftrightarrow> x \<notin> f ` set ts \<and> has_buf x c"
  by (induction ts arbitrary: c) (auto simp: has_buf_ops)

lemma buf_fields [co_simps]:
  "co_mgr (buf_Create bid c) = co_mgr c" "co_tc (buf_Create bid c) = co_tc c" "co_pub (buf_Create bid c) = co_pub c"
  "co_dvr (buf_Create bid c) = co_dvr c" "co_renditions (buf_Create bid c) = co_renditions c"
  "co_abrCopies (buf_Create bid c) = co_abrCopies c" "co_abrMixers (buf_Create bid c) = co_abrMixers c"
  "co_startedAt (buf_Create bid c) = co_startedAt c" "co_degradation (buf_Create bid c) = co_degradation c"
  "co_mgr (buf_Delete bid c) = co_mgr c" "co_tc (buf_Delete bid c) = co_tc c" "co_pub (buf_Delete bid c) = co_pub c"
  "co_dvr (buf_Delete bid c) = co_dvr c" "co_renditions (buf_Delete bid c) = co_renditions c"
  "co_abrCopies (buf_Delete bid c) = co_abrCopies c" "co_abrMixers (buf_Delete bid c) = co_abrMixers c"
  "co_startedAt (buf_Delete bid c) = co_startedAt c" "co_degradation (buf_Delete bid c) = co_degradation c"
  by (simp_all add: buf_Create_def buf_Delete_def)

lemma buf_fold_fields [co_simps]:
  "co_mgr (fold (\<lambda>t. buf_Create (f t)) ts c) = co_mgr c" "co_tc (fold (\<lambda>t. buf_Create (f t)) ts c) = co_tc c"
  "co_pub (fold (\<lambda>t. buf_Create (f t)) ts c) = co_pub c" "co_dvr (fold (\<lambda>t. buf_Create (f t)) ts c) = co_dvr c"
  "co_renditions (fold (\<lambda>t. buf_Create (f t)) ts c) = co_renditions c"
  "co_abrCopies (fold (\<lambda>t. buf_Create (f t)) ts c) = co_abrCopies c"
  "co_abrMixers (fold (\<lambda>t. buf_Create (f t)) ts c) = co_abrMixers c"
  "co_startedAt (fold (\<lambda>t. buf_Create (f t)) ts c) = co_startedAt c"
  "co_degradation (fold (\<lambda>t. buf_Create (f t)) ts c) = co_degradation c"
  "co_mgr (fold (\<lambda>t. buf_Delete (f t)) ts c) = co_mgr c" "co_tc (fold (\<lambda>t. buf_Delete (f t)) ts c) = co_tc c"
  "co_pub (fold (\<lambda>t. buf_Delete (f t)) ts c) = co_pub c" "co_dvr (fold (\<lambda>t. buf_Delete (f t)) ts c) = co_dvr c"
  "co_renditions (fold (\<lambda>t. buf_Delete (f t)) ts c) = co_renditions c"
  "co_abrCopies (fold (\<lambda>t. buf_Delete (f t)) ts c) = co_abrCopies c"
  "co_abrMixers (fold (\<lambda>t. buf_Delete (f t)) ts c) = co_abrMixers c"
  "co_startedAt (fold (\<lambda>t. buf_Delete (f t)) ts c) = co_startedAt c"
  "co_degradation (fold (\<lambda>t. buf_Delete (f t)) ts c) = co_degradation c"
  by (induction ts arbitrary: c) (simp_all add: buf_fields)

text \<open>Callbacks touch the degradation table and the events only.\<close>

definition co_core :: "Coord \<Rightarrow> Coord" where
  "co_core c = c\<lparr>co_degradation := [], co_events := []\<rparr>"

lemma effect_core [simp]: "co_core (mgr_effect code e c) = co_core c"
  by (cases e) (simp_all add: co_core_def handleAllInputsExhausted_def handleInputRestored_def updateDegradation_def co_publish_def Let_def)

lemma call_core [simp]: "co_core (tc_call k c) = co_core c"
  by (cases k) (simp_all add: co_core_def handleTranscoderUnhealthy_def handleTranscoderHealthy_def updateDegradation_def co_publish_def Let_def)

lemma core_fields:
  "co_core a = co_core b \<Longrightarrow> co_buf a = co_buf b \<and> co_mgr a = co_mgr b \<and> co_tc a = co_tc b \<and> co_pub a = co_pub b \<and>
     co_dvr a = co_dvr b \<and> co_renditions a = co_renditions b \<and> co_abrCopies a = co_abrCopies b \<and>
     co_abrMixers a = co_abrMixers b \<and> co_startedAt a = co_startedAt b"
  by (cases a, cases b) (simp add: co_core_def)

lemma on_mgr_core: "co_core (on_mgr code f c) = co_core (c\<lparr>co_mgr := fst (f (co_mgr c))\<rparr>)"
  unfolding on_mgr_def by (cases "f (co_mgr c)") (simp add: fold_keeps)

lemma on_tc_core: "co_core (on_tc f c) = co_core (c\<lparr>co_tc := fst (f (co_tc c))\<rparr>)"
  unfolding on_tc_def by (cases "f (co_tc c)") (simp add: fold_keeps)

lemma on_mgr_fields [co_simps]:
  "co_buf (on_mgr code f c) = co_buf c" "co_mgr (on_mgr code f c) = fst (f (co_mgr c))" "co_tc (on_mgr code f c) = co_tc c"
  "co_pub (on_mgr code f c) = co_pub c" "co_dvr (on_mgr code f c) = co_dvr c" "co_renditions (on_mgr code f c) = co_renditions c"
  "co_abrCopies (on_mgr code f c) = co_abrCopies c" "co_abrMixers (on_mgr code f c) = co_abrMixers c"
  "co_startedAt (on_mgr code f c) = co_startedAt c"
  using core_fields [OF on_mgr_core, of code f c] by simp_all

lemma on_tc_fields [co_simps]:
  "co_buf (on_tc g c) = co_buf c" "co_mgr (on_tc g c) = co_mgr c" "co_tc (on_tc g c) = fst (g (co_tc c))"
  "co_pub (on_tc g c) = co_pub c" "co_dvr (on_tc g c) = co_dvr c" "co_renditions (on_tc g c) = co_renditions c"
  "co_abrCopies (on_tc g c) = co_abrCopies c" "co_abrMixers (on_tc g c) = co_abrMixers c"
  "co_startedAt (on_tc g c) = co_startedAt c"
  using core_fields [OF on_tc_core, of g c] by simp_all

lemma live_fields [co_simps]:
  "co_buf (went_live env code c) = co_buf c" "co_mgr (went_live env code c) = co_mgr c" "co_tc (went_live env code c) = co_tc c"
  "co_pub (went_live env code c) = co_pub c" "co_dvr (went_live env code c) = co_dvr c"
  "co_renditions (went_live env code c) = co_renditions c" "co_abrCopies (went_live env code c) = co_abrCopies c"
  "co_abrMixers (went_live env code c) = co_abrMixers c"
  "co_startedAt (went_live env code c) = gput code (ce_now env) (co_startedAt c)"
  "co_degradation (went_live env code c) = gdel code (co_degradation c)"
  "co_buf (went_down code c) = co_buf c" "co_mgr (went_down code c) = co_mgr c" "co_tc (went_down code c) = co_tc c"
  "co_pub (went_down code c) = co_pub c" "co_dvr (went_down code c) = co_dvr c"
  "co_renditions (went_down code c) = co_renditions c" "co_abrCopies (went_down code c) = co_abrCopies c"
  "co_abrMixers (went_down code c) = co_abrMixers c"
  "co_startedAt (went_down code c) = gdel code (co_startedAt c)"
  "co_degradation (went_down code c) = gdel code (co_degradation c)"
  by (simp_all add: went_live_def went_down_def co_publish_def clearDegradation_def recordStartedAt_def clearStartedAt_def)

lemma startDVR_core: "startDVR env s c = c\<lparr>co_dvr := co_dvr (startDVR env s c)\<rparr>"
  by (simp add: startDVR_def Let_def split: option.split)

lemma stopDVR_core: "stopDVR code c = c\<lparr>co_dvr := co_dvr (stopDVR code c)\<rparr>"
  by (simp add: stopDVR_def)

lemma dvr_fields [co_simps]:
  "co_buf (startDVR env s c) = co_buf c" "co_mgr (startDVR env s c) = co_mgr c" "co_tc (startDVR env s c) = co_tc c"
  "co_pub (startDVR env s c) = co_pub c" "co_renditions (startDVR env s c) = co_renditions c"
  "co_abrCopies (startDVR env s c) = co_abrCopies c" "co_abrMixers (startDVR env s c) = co_abrMixers c"
  "co_startedAt (startDVR env s c) = co_startedAt c" "co_degradation (startDVR env s c) = co_degradation c"
  "co_buf (stopDVR code c) = co_buf c" "co_mgr (stopDVR code c) = co_mgr c" "co_tc (stopDVR code c) = co_tc c"
  "co_pub (stopDVR code c) = co_pub c" "co_renditions (stopDVR code c) = co_renditions c"
  "co_abrCopies (stopDVR code c) = co_abrCopies c" "co_abrMixers (stopDVR code c) = co_abrMixers c"
  "co_startedAt (stopDVR code c) = co_startedAt c" "co_degradation (stopDVR code c) = co_degradation c"
  by (subst startDVR_core, simp)+ (subst stopDVR_core, simp)+

lemma drop_fields [co_simps]:
  "co_mgr (drop_slugs code slugs c) = co_mgr c" "co_tc (drop_slugs code slugs c) = co_tc c"
  "co_pub (drop_slugs code slugs c) = co_pub c" "co_dvr (drop_slugs code slugs c) = co_dvr c"
  "co_renditions (drop_slugs code slugs c) = co_renditions c" "co_abrCopies (drop_slugs code slugs c) = co_abrCopies c"
  "co_abrMixers (drop_slugs code slugs c) = co_abrMixers c" "co_startedAt (drop_slugs code slugs c) = co_startedAt c"
  "co_degradation (drop_slugs code slugs c) = co_degradation c"
  "has_buf x (drop_slugs code slugs c) \<longleftrightarrow> x \<notin> RenditionBufferID code ` set slugs \<and> has_buf x c"
  by (simp_all add: drop_slugs_def co_simps)

lemma has_buf_same [co_simps]:
  "has_buf x (on_mgr code f c) = has_buf x c" "has_buf x (on_tc g c) = has_buf x c"
  "has_buf x (went_live env code c) = has_buf x c" "has_buf x (went_down code c) = has_buf x c"
  "has_buf x (startDVR env s c) = has_buf x c" "has_buf x (stopDVR code c) = has_buf x c"
  by (rule has_buf_fields, simp add: co_simps)+

subsection \<open>The components' tables after each operation\<close>

lemma Start_active: "x \<noteq> code \<Longrightarrow> gget (bs_active (snd (StartRecording code ps cfg l b))) x = gget (bs_active b) x"
  by (auto simp: StartRecording_def Let_def save_catalog_def map_simps split: option.splits prod.splits)

lemma dvr_active [co_simps]:
  "x \<noteq> s_Code s \<Longrightarrow> gget (bs_active (co_dvr (startDVR env s c))) x = gget (bs_active (co_dvr c)) x"
  "gget (bs_active (co_dvr (stopDVR code c))) x = (if x = code then None else gget (bs_active (co_dvr c)) x)"
  by (auto simp: startDVR_def Let_def Start_active stopDVR_def IsRecording_def StopRecording_def save_catalog_def map_simps split: option.split)

lemma dvr_off [co_simps]:
  "s_DVR s = None \<or> (\<exists>d. s_DVR s = Some d \<and> \<not> dvr_Enabled d) \<or> blobProfiles s = [] \<Longrightarrow> co_dvr (startDVR env s c) = co_dvr c"
  by (auto simp: startDVR_def Let_def split: option.split)

lemma pub_Stop_streams [co_simps]:
  "gget (pb_streams (pub_Stop code pb)) x = (if x = code then None else gget (pb_streams pb) x)"
  by (auto simp: pub_Stop_def cleanupStreamDirs_def Let_def map_simps split: option.split)

lemma pub_Start_fails: "fst (pub_Start s pb) = Some e \<Longrightarrow> snd (pub_Start s pb) = pb"
  by (auto simp: pub_Start_def Let_def split: if_splits)

lemma pub_Start_ok:
  assumes "fst (pub_Start s pb) = None"
  shows "gget (pb_streams (snd (pub_Start s pb))) x = (if x = s_Code s then Some (fresh_pub s) else gget (pb_streams pb) x)"
    and "gget (pb_streams pb) (s_Code s) = None"
  using assms by (auto simp: pub_Start_def Let_def pub_set_def fresh_pub_def map_simps split: if_splits)

lemma tc_Start_fails: "fst (tc_Start found code raw (Some tc) targets t) = Some e \<Longrightarrow> snd (tc_Start found code raw (Some tc) targets t) = t"
  by (auto simp: tc_Start_def Let_def split: if_splits)

lemma tc_Start_ok:
  assumes "fst (tc_Start found code raw tc targets t) = None"
  shows "gget (ts_workers (snd (tc_Start found code raw tc targets t))) x =
      (if x = code then Some (new_worker raw tc targets) else gget (ts_workers t) x)"
    and "gget (ts_workers t) code = None" and "found"
    and "ts_unhealthy (snd (tc_Start found code raw tc targets t)) = ts_unhealthy t"
  using assms by (auto simp: tc_Start_def Let_def tc_publish_def map_simps split: if_splits option.splits)

lemma tc_Stop_workers [co_simps]:
  "gget (ts_workers (fst (tc_Stop code t))) x = (if x = code then None else gget (ts_workers t) x)"
  by (auto simp: tc_Stop_def tc_publish_def dropHealthState_def Let_def map_simps split: option.split prod.splits)

lemma Unregister_streams [co_simps]:
  "gget (svc_streams (fst (Unregister code m))) x = (if x = code then None else gget (svc_streams m) x)"
  by (auto simp: Unregister_def map_simps split: option.split)

subsection \<open>Where the ingestor writes\<close>

definition writes_to :: "StreamState \<Rightarrow> StreamCode \<times> bool" where
  "writes_to st = (st_bufferWriteID st, st_dead st)"

definition ingests_into :: "StreamCode \<Rightarrow> StreamCode \<Rightarrow> MgrService \<Rightarrow> bool" where
  "ingests_into code bid m \<longleftrightarrow> (\<exists>st. gget (svc_streams m) code = Some st \<and> writes_to st = (bid, False))"

lemma writes_to_basic [simp]:
  "writes_to (upd_input p f st) = writes_to st" "writes_to (recordSwitch st e) = writes_to st"
  "writes_to (clearOverrideIfNeeded st b) = writes_to st"
  by (simp_all add: writes_to_def)

lemma writes_to_begin [simp]: "writes_to (fst (tryFailover_begin_locked st)) = writes_to st"
  by (auto simp: tryFailover_begin_locked_def Let_def writes_to_def split: option.split)

lemma writes_to_commit [simp]: "writes_to (commitSwitch now p i r d st) = writes_to st"
  by (simp add: commitSwitch_def Let_def) (simp add: writes_to_def)

lemma writes_to_failover [simp]: "writes_to (fst (tryFailover start now r d st)) = writes_to st"
  using writes_to_begin [of st]
  by (auto simp: tryFailover_def simp del: writes_to_begin split: prod.split FoOutcome.split option.split)

lemma writes_to_same: "st_bufferWriteID a = st_bufferWriteID b \<Longrightarrow> st_dead a = st_dead b \<Longrightarrow> writes_to a = writes_to b"
  by (simp add: writes_to_def)

lemma writes_to_report [simp]: "writes_to (fst (reportInputError start now cnow p e st)) = writes_to st"
proof (cases "reportInputError_locked now p e st")
  case (Some st1)
  then have "writes_to st1 = writes_to st"
    by (auto simp: reportInputError_locked_def Let_def intro!: writes_to_same split: if_splits option.splits)
  then show ?thesis
    using writes_to_failover [of start cnow SwitchReasonError "Text (err_msg e)" st1] Some
    by (simp add: reportInputError_def case_prod_beta del: writes_to_failover)
qed (simp add: reportInputError_def)

lemma writes_to_updates:
  assumes "updateInputs_locked added removed updated st = Some (st', r)"
  shows "writes_to st' = writes_to st"
proof -
  have r: "writes_to (fst (fold upd_removed removed x)) = writes_to (fst x)" for x
    by (rule fold_keeps [where f = "\<lambda>x. writes_to (fst x)"]) (simp add: upd_removed_def writes_to_def case_prod_beta)
  have a: "writes_to (fst (fold upd_added added x)) = writes_to (fst x)" for x
    by (rule fold_keeps [where f = "\<lambda>x. writes_to (fst x)"]) (simp add: upd_added_def writes_to_def case_prod_beta)
  have u: "writes_to (fst (fold upd_updated updated x)) = writes_to (fst x)" for x
    by (rule fold_keeps [where f = "\<lambda>x. writes_to (fst x)"]) (simp add: upd_updated_def case_prod_beta split: option.split)
  have "st' = fst (fold upd_updated updated (fst (fold upd_added added (fold upd_removed removed (st, None))), None))"
    using assms by (simp add: updateInputs_locked_def Let_def case_prod_beta split: if_splits)
  then show ?thesis by (simp only: u a r fst_conv)
qed

lemma writes_to_update [simp]: "writes_to (fst (updateInputs start cnow a r u st)) = writes_to st"
proof (cases "updateInputs_locked a r u st")
  case (Some x)
  obtain st1 ro io where x: "x = (st1, ro, io)" by (cases x)
  have "writes_to st1 = writes_to st" using writes_to_updates Some x by blast
  then show ?thesis
    using writes_to_failover [of start cnow "the ro" "Text []" st1] Some x
    by (cases ro; cases io) (simp_all add: updateInputs_def del: writes_to_failover)
qed (simp add: updateInputs_def)

lemma ingests_into_fields [co_simps]:
  "ingests_into code bid (fst (Unregister x m)) \<longleftrightarrow> code \<noteq> x \<and> ingests_into code bid m"
  "ingests_into code bid (fst (UpdateInputs start now x a r u m)) = ingests_into code bid m"
  "ingests_into code bid (fst (UpdateBufferWriteID x b m)) \<longleftrightarrow>
     (if code = x then bid = b \<and> (\<exists>old. ingests_into code old m) else ingests_into code bid m)"
proof -
  show "ingests_into code bid (fst (Unregister x m)) \<longleftrightarrow> code \<noteq> x \<and> ingests_into code bid m"
    by (auto simp: ingests_into_def Unregister_streams)
  show "ingests_into code bid (fst (UpdateInputs start now x a r u m)) = ingests_into code bid m"
  proof (cases "gget (svc_streams m) x")
    case (Some st)
    have "writes_to (fst (updateInputs start now a r u st)) = writes_to st" by simp
    then show ?thesis using Some
      by (auto simp: ingests_into_def UpdateInputs_def on_stream_def map_simps case_prod_beta simp del: writes_to_update)
  qed (simp add: UpdateInputs_def on_stream_def)
  show "ingests_into code bid (fst (UpdateBufferWriteID x b m)) \<longleftrightarrow>
     (if code = x then bid = b \<and> (\<exists>old. ingests_into code old m) else ingests_into code bid m)"
  proof (cases "gget (svc_streams m) x")
    case (Some st)
    have "writes_to (fst (updateBufferWriteID b st)) = (if st_dead st then writes_to st else (b, False))"
      by (auto simp: updateBufferWriteID_def Let_def writes_to_def split: option.split)
    then show ?thesis using Some
      by (cases "st_dead st") (auto simp: ingests_into_def UpdateBufferWriteID_def on_stream_def map_simps case_prod_beta writes_to_def)
  qed (simp add: ingests_into_def UpdateBufferWriteID_def on_stream_def)
qed

lemma Register_ok:
  assumes "fst (Register start n1 n2 n3 n4 s bid m) = None" and "bid \<noteq> []"
  defines "m' \<equiv> fst (snd (Register start n1 n2 n3 n4 s bid m))"
  shows "ingests_into (s_Code s) bid m'" and "gget (svc_streams m) (s_Code s) = None"
    and "x \<noteq> s_Code s \<Longrightarrow> gget (svc_streams m') x = gget (svc_streams m) x"
proof -
  have new: "writes_to (new_state n1 n2 (s_Inputs s) bid) = (bid, False)"
    unfolding new_state_def by (subst fold_keeps [where f = writes_to]) (simp_all add: writes_to_def register_input_def)
  have act: "writes_to (activate_initial st) = writes_to st" for st
    by (auto simp: activate_initial_def writes_to_def split: option.split)
  let ?st1 = "activate_initial (new_state n1 n2 (s_Inputs s) bid)"
  have rep: "writes_to (fst (reportInputError start n3 n4 p e ?st1)) = (bid, False)" for p e by (simp add: act new)
  show "gget (svc_streams m) (s_Code s) = None"
    using assms(1) by (auto simp: Register_def IsRegistered_def Let_def split: if_splits)
  then show "ingests_into (s_Code s) bid m'" "x \<noteq> s_Code s \<Longrightarrow> gget (svc_streams m') x = gget (svc_streams m) x"
    using assms(2) act new rep
    by (auto simp: m'_def Register_def IsRegistered_def Let_def ingests_into_def map_simps case_prod_beta split: option.split)
qed

lemma Register_fails: "fst (Register start n1 n2 n3 n4 s bid m) = Some e \<Longrightarrow> fst (snd (Register start n1 n2 n3 n4 s bid m)) = m \<and>
    gget (svc_streams m) (s_Code s) \<noteq> None"
  by (auto simp: Register_def IsRegistered_def Let_def split: if_splits option.splits prod.splits)

subsection \<open>The states of a stream\<close>

definition nothing_held :: "StreamCode \<Rightarrow> Coord \<Rightarrow> bool" where
  "nothing_held code c \<longleftrightarrow> (\<forall>x \<in> owned code. \<not> has_buf x c) \<and> gget (svc_streams (co_mgr c)) code = None \<and>
     gget (ts_workers (co_tc c)) code = None \<and> gget (pb_streams (co_pub c)) code = None \<and>
     gget (bs_active (co_dvr c)) code = None \<and> gget (co_renditions c) code = None \<and> gget (co_abrCopies c) code = None \<and>
     gget (co_abrMixers c) code = None \<and> gget (co_startedAt c) code = None"

definition ingest_buffer :: "Stream \<Rightarrow> StreamCode" where
  "ingest_buffer s = (if shouldRunTranscoder s then RawIngestBufferID (s_Code s) else s_Code s)"

definition pipeline_bufs :: "Stream \<Rightarrow> StreamCode set" where
  "pipeline_bufs s = {s_Code s, ingest_buffer s} \<union> RenditionBufferID (s_Code s) ` set (rendition_slugs s)"

text \<open>
  The pipeline of a configuration: its buffers and no others, the ingestor writing into the one the transcoder (or the
  publisher) reads, the transcoder exactly when it is needed, writing into the rendition buffers, and the publisher
  reading a buffer that exists.
\<close>

definition runs_pipeline :: "Stream \<Rightarrow> Coord \<Rightarrow> bool" where
  "runs_pipeline s c \<longleftrightarrow>
     (\<forall>x \<in> owned (s_Code s). has_buf x c \<longleftrightarrow> x \<in> pipeline_bufs s) \<and> ingests_into (s_Code s) (ingest_buffer s) (co_mgr c) \<and>
     (if shouldRunTranscoder s
      then (\<exists>sw. gget (ts_workers (co_tc c)) (s_Code s) = Some sw \<and> sw_rawIngest sw = ingest_buffer s \<and>
              map rt_BufferID (sw_targets sw) = map (RenditionBufferID (s_Code s)) (rendition_slugs s)) \<and>
           gget (co_renditions c) (s_Code s) = Some (rendition_slugs s)
      else gget (ts_workers (co_tc c)) (s_Code s) = None \<and> gget (co_renditions c) (s_Code s) = None) \<and>
     (\<exists>ss. gget (pb_streams (co_pub c)) (s_Code s) = Some ss \<and> pst_mediaBuf ss = PlaybackBufferID (s_Code s) (s_Transcoder s)) \<and>
     gget (co_abrCopies c) (s_Code s) = None \<and> gget (co_abrMixers c) (s_Code s) = None \<and> gget (co_startedAt c) (s_Code s) \<noteq> None"

text \<open>A stream that mirrors a ladder holds the rendition buffers its entry names and the publisher, nothing else.\<close>

definition mirrors :: "StreamCode \<Rightarrow> Coord \<Rightarrow> bool" where
  "mirrors code c \<longleftrightarrow>
     (\<exists>slugs. ((\<exists>e. gget (co_abrCopies c) code = Some e \<and> ae_slugs e = slugs) \<and> gget (co_abrMixers c) code = None \<or>
               gget (co_abrCopies c) code = None \<and> (\<exists>e. gget (co_abrMixers c) code = Some e \<and> am_slugs e = slugs)) \<and>
        (\<forall>x \<in> owned code. has_buf x c \<longleftrightarrow> x \<in> RenditionBufferID code ` set slugs)) \<and>
     gget (svc_streams (co_mgr c)) code = None \<and> gget (ts_workers (co_tc c)) code = None \<and>
     gget (pb_streams (co_pub c)) code \<noteq> None \<and> gget (bs_active (co_dvr c)) code = None \<and>
     gget (co_renditions c) code = None \<and> gget (co_startedAt c) code \<noteq> None"

lemma IsRunning_states:
  "nothing_held code c \<Longrightarrow> \<not> IsRunning code c" "runs_pipeline s c \<Longrightarrow> IsRunning (s_Code s) c" "mirrors code c \<Longrightarrow> IsRunning code c"
  by (auto simp: nothing_held_def runs_pipeline_def mirrors_def IsRunning_def IsRegistered_def ingests_into_def)

subsection \<open>Targets and slugs\<close>

lemma profiles_nonempty: "transcoderProfilesFromDomain v \<noteq> []"
  by (auto simp: transcoderProfilesFromDomain_def singleOriginCopyProfile_def)

lemma targets_are_slugs: "map rt_BufferID (rendition_targets s) = map (RenditionBufferID (s_Code s)) (rendition_slugs s)"
  by (simp add: rendition_targets_def rendition_slugs_def Let_def split: option.split)

lemma target_set [simp]: "rt_BufferID ` set (rendition_targets s) = RenditionBufferID (s_Code s) ` set (rendition_slugs s)"
  using targets_are_slugs [of s] by (metis list.set_map)

lemma no_targets [simp]: "rendition_targets s = [] \<longleftrightarrow> \<not> shouldRunTranscoder s" "rendition_slugs s = [] \<longleftrightarrow> \<not> shouldRunTranscoder s"
  using profiles_nonempty
  by (auto simp: rendition_targets_def rendition_slugs_def shouldRunTranscoder_def Let_def split: option.splits)

lemma no_slugs [simp]: "\<not> shouldRunTranscoder s \<Longrightarrow> rendition_slugs s = []" by simp

lemma config_given: "shouldRunTranscoder s \<Longrightarrow> \<exists>tc. transcoderConfigWithWatermark env s = Some tc"
  by (auto simp: shouldRunTranscoder_def transcoderConfigWithWatermark_def split: option.splits)

lemma rung_ids: "map rp_BufferID (RenditionsForTranscoder code otc) = map (RenditionBufferID code \<circ> rp_Slug) (RenditionsForTranscoder code otc)"
  by (auto simp: RenditionsForTranscoder_def rendition_of_def Let_def split: option.split)

lemma fresh_pub_media: "pst_mediaBuf (fresh_pub s) = PlaybackBufferID (s_Code s) (s_Transcoder s)"
  using fresh_pub_meta [of s] by (simp add: pub_meta_def)

subsection \<open>Starting\<close>

lemma startPipeline_states:
  assumes held: "nothing_held (s_Code s) c" and code: "plain_code (s_Code s)" "s_Code s \<noteq> []"
  shows "case startPipeline env s c of (None, c') \<Rightarrow> runs_pipeline s c' | (Some _, c') \<Rightarrow> nothing_held (s_Code s) c'"
proof -
  let ?code = "s_Code s" and ?now = "ce_now env"
  note h = held [unfolded nothing_held_def]
  define c3 where "c3 = fold (\<lambda>t. buf_Create (rt_BufferID t)) (rendition_targets s)
    (if shouldRunTranscoder s then buf_Create (RawIngestBufferID ?code) (buf_Create ?code c) else buf_Create ?code c)"
  have bufs: "x \<in> owned ?code \<Longrightarrow> has_buf x c3 \<longleftrightarrow> x \<in> pipeline_bufs s" for x
    using h by (auto simp: c3_def co_simps pipeline_bufs_def ingest_buffer_def)
  have rest: "co_mgr c3 = co_mgr c" "co_tc c3 = co_tc c" "co_pub c3 = co_pub c" "co_dvr c3 = co_dvr c"
    "co_renditions c3 = co_renditions c" "co_abrCopies c3 = co_abrCopies c" "co_abrMixers c3 = co_abrMixers c"
    "co_startedAt c3 = co_startedAt c" by (simp_all add: c3_def co_simps)
  have ne: "ingest_buffer s \<noteq> []" using code(2) by (simp add: ingest_buffer_def RawIngestBufferID_def)
  let ?reg = "Register (ce_start env) ?now ?now ?now ?now s (ingest_buffer s) (co_mgr c)"
  obtain err m ef where reg: "?reg = (err, m, ef)" by (cases ?reg)
  obtain perr pub where pub: "pub_Start s (co_pub c) = (perr, pub)" by (cases "pub_Start s (co_pub c)")
  let ?tc = "tc_Start (ce_binary env) ?code (RawIngestBufferID ?code) (transcoderConfigWithWatermark env s) (rendition_targets s) (co_tc c)"
  obtain terr t where tc: "?tc = (terr, t)" by (cases ?tc)
  note start = startPipeline_def Let_def ingest_buffer_def [symmetric] c3_def [symmetric] rest reg prod.case
  have no_reg: "err = None" using Register_fails [of "ce_start env" ?now ?now ?now ?now s "ingest_buffer s" "co_mgr c"] h reg
    by (cases err) auto
  have reg_ok: "ingests_into ?code (ingest_buffer s) m"
    using Register_ok(1) [of "ce_start env" ?now ?now ?now ?now s "ingest_buffer s" "co_mgr c"] reg no_reg ne by simp
  let ?c4 = "on_mgr ?code (\<lambda>_. (m, ef)) c3"
  show ?thesis
  proof (cases perr)
    case (Some e)
    have "pub = co_pub c" using pub_Start_fails [of s "co_pub c"] pub Some by simp
    then show ?thesis using h code(1)
      unfolding start no_reg option.case
      by (simp add: co_simps rest pub Some nothing_held_def drop_pipeline_buffers_def Let_def bufs)
        (auto simp: pipeline_bufs_def ingest_buffer_def)
  next
    case None
    have pub_ok: "gget (pb_streams pub) ?code = Some (fresh_pub s)" using pub_Start_ok(1) [of s "co_pub c"] pub None by simp
    show ?thesis
    proof (cases "shouldRunTranscoder s")
      case False
      then show ?thesis using h code(1) reg_ok pub_ok
        unfolding start no_reg option.case
        by (simp add: co_simps rest pub None runs_pipeline_def bufs fresh_pub_media map_simps)
    next
      case True
      then obtain cfg where cfg: "transcoderConfigWithWatermark env s = Some cfg" using config_given by blast
      show ?thesis
      proof (cases terr)
        case (Some e)
        have "t = co_tc c" using tc_Start_fails [of "ce_binary env" ?code "RawIngestBufferID ?code" cfg "rendition_targets s" "co_tc c"] tc Some cfg
          by simp
        then show ?thesis using h code(1) True tc
          unfolding start no_reg option.case
          by (simp add: co_simps rest pub None Some nothing_held_def bufs)
            (auto simp: pipeline_bufs_def ingest_buffer_def)
      next
        case tNone: None
        have worker: "gget (ts_workers t) ?code = Some (new_worker (RawIngestBufferID ?code) (transcoderConfigWithWatermark env s) (rendition_targets s))"
          using tc_Start_ok(1) [of "ce_binary env" ?code "RawIngestBufferID ?code" "transcoderConfigWithWatermark env s" "rendition_targets s" "co_tc c"] tc tNone
          by simp
        then show ?thesis using h code(1) True tc reg_ok pub_ok
          unfolding start no_reg option.case
          by (simp add: co_simps rest pub None tNone runs_pipeline_def bufs fresh_pub_media map_simps new_worker_def targets_are_slugs)
            (simp add: ingest_buffer_def)
      qed
    qed
  qed
qed

text \<open>Both starts of a mirror end with the publisher running and an entry that names the rungs, or with nothing.\<close>

lemma abr_outputs_states:
  assumes held: "nothing_held (s_Code down) c" and code: "plain_code (s_Code down)"
    and rungs: "abr_rungs down up = Inr (mirrored, upRends, downRends)"
  shows "case abr_outputs mirrored downRends c of
    (Some _, c') \<Rightarrow> nothing_held (s_Code down) c'
  | (None, c') \<Rightarrow> (\<forall>x \<in> owned (s_Code down). has_buf x c' \<longleftrightarrow> x \<in> RenditionBufferID (s_Code down) ` set (map rp_Slug downRends)) \<and>
      gget (pb_streams (co_pub c')) (s_Code down) \<noteq> None \<and> co_mgr c' = co_mgr c \<and> co_tc c' = co_tc c \<and> co_dvr c' = co_dvr c \<and>
      co_renditions c' = co_renditions c \<and> co_abrCopies c' = co_abrCopies c \<and> co_abrMixers c' = co_abrMixers c"
proof -
  have m: "s_Code mirrored = s_Code down" "downRends = RenditionsForTranscoder (s_Code down) (s_Transcoder mirrored)"
    using rungs by (auto simp: abr_rungs_def Let_def split: if_splits)
  have "map rp_BufferID downRends = map (RenditionBufferID (s_Code down)) (map rp_Slug downRends)"
    unfolding m(2) by (simp add: rung_ids)
  then have ids: "rp_BufferID ` set downRends = RenditionBufferID (s_Code down) ` set (map rp_Slug downRends)"
    by (metis list.set_map)
  obtain err pub where p: "pub_Start mirrored (co_pub c) = (err, pub)" by (cases "pub_Start mirrored (co_pub c)")
  show ?thesis
  proof (cases err)
    case (Some e)
    have "pub = co_pub c" using pub_Start_fails [of mirrored "co_pub c"] p Some by simp
    then show ?thesis using held p Some by (auto simp: abr_outputs_def Let_def co_simps nothing_held_def)
  next
    case None
    have "gget (pb_streams pub) (s_Code down) = Some (fresh_pub mirrored)"
      using pub_Start_ok(1) [of mirrored "co_pub c"] p None m(1) by simp
    then show ?thesis using held p None
      by (simp add: abr_outputs_def Let_def co_simps nothing_held_def ids)
  qed
qed

lemma startABR_states:
  assumes held: "nothing_held (s_Code s) c" and code: "plain_code (s_Code s)"
  shows "case startABRCopy env s up c of (None, c') \<Rightarrow> mirrors (s_Code s) c' | (Some _, c') \<Rightarrow> nothing_held (s_Code s) c'"
    and "case startABRMixer env s up au c of (None, c') \<Rightarrow> mirrors (s_Code s) c' | (Some _, c') \<Rightarrow> nothing_held (s_Code s) c'"
proof -
  note h = held [unfolded nothing_held_def]
  have "(case startABRCopy env s up c of (None, c') \<Rightarrow> mirrors (s_Code s) c' | (Some _, c') \<Rightarrow> nothing_held (s_Code s) c') \<and>
    (case startABRMixer env s up au c of (None, c') \<Rightarrow> mirrors (s_Code s) c' | (Some _, c') \<Rightarrow> nothing_held (s_Code s) c')"
  proof (cases "abr_rungs s up")
    case (Inl e)
    then show ?thesis using h held by (simp add: startABRCopy_def startABRMixer_def)
  next
    case (Inr r)
    obtain mirrored upRends downRends where r: "r = (mirrored, upRends, downRends)" by (cases r)
    obtain err c1 where o: "abr_outputs mirrored downRends c = (err, c1)" by (cases "abr_outputs mirrored downRends c")
    note out = abr_outputs_states [OF held code Inr [unfolded r], unfolded o prod.case]
    show ?thesis
    proof (cases err)
      case (Some e)
      then show ?thesis using h out Inr r o by (simp add: startABRCopy_def startABRMixer_def)
    next
      case None
      then show ?thesis using h out Inr r o
        by (simp add: startABRCopy_def startABRMixer_def Let_def mirrors_def co_simps map_simps)
    qed
  qed
  note both = this
  show "case startABRCopy env s up c of (None, c') \<Rightarrow> mirrors (s_Code s) c' | (Some _, c') \<Rightarrow> nothing_held (s_Code s) c'"
    using both by (rule conjunct1)
  show "case startABRMixer env s up au c of (None, c') \<Rightarrow> mirrors (s_Code s) c' | (Some _, c') \<Rightarrow> nothing_held (s_Code s) c'"
    using both by (rule conjunct2)
qed

definition ends_well :: "Stream \<Rightarrow> CoordError option \<times> Coord \<Rightarrow> bool" where
  "ends_well s r \<longleftrightarrow> (case r of (None, c') \<Rightarrow> runs_pipeline s c' \<or> mirrors (s_Code s) c' | (Some _, c') \<Rightarrow> nothing_held (s_Code s) c')"

lemma startLocked_states:
  assumes held: "nothing_held (s_Code s) c" and code: "plain_code (s_Code s)" "s_Code s \<noteq> []"
  shows "ends_well s (startLocked env s c)"
proof -
  have "ends_well s (startPipeline env s c)"
    using startPipeline_states [OF assms, of env] by (simp add: ends_well_def split: prod.splits option.splits)
  moreover have "ends_well s (startABRCopy env s up c)" for up
    using startABR_states(1) [OF held code(1), of env up] by (simp add: ends_well_def split: prod.splits option.splits)
  moreover have "ends_well s (startABRMixer env s up au c)" for up au
    using startABR_states(2) [OF held code(1), of env up au] by (simp add: ends_well_def split: prod.splits option.splits)
  moreover have "ends_well s (Some e, c)" for e using held by (simp add: ends_well_def)
  ultimately show ?thesis
    using IsRunning_states(1) [OF held] by (simp add: startLocked_def split: option.split prod.split)
qed

subsection \<open>Stopping\<close>

lemma slugs_same [co_simps]:
  "slugs_of x (c\<lparr>co_pub := p\<rparr>) = slugs_of x c" "slugs_of x (stopDVR code c) = slugs_of x c"
  "slugs_of x (on_tc g c) = slugs_of x c" "slugs_of x (on_mgr code f c) = slugs_of x c"
  "slugs_of x (c\<lparr>co_abrCopies := a\<rparr>) = slugs_of x c" "slugs_of x (c\<lparr>co_abrMixers := m\<rparr>) = slugs_of x c"
  by (simp_all add: slugs_of_def co_simps)

lemma running_slugs: "runs_pipeline s c \<Longrightarrow> slugs_of (s_Code s) c = rendition_slugs s"
  using no_targets(2) [of s] by (cases "shouldRunTranscoder s") (auto simp del: no_targets simp: runs_pipeline_def slugs_of_def)

lemma drop_renditions_fields [co_simps]:
  "co_mgr (drop_renditions code c) = co_mgr c" "co_tc (drop_renditions code c) = co_tc c"
  "co_pub (drop_renditions code c) = co_pub c" "co_dvr (drop_renditions code c) = co_dvr c"
  "co_renditions (drop_renditions code c) = gdel code (co_renditions c)"
  "co_abrCopies (drop_renditions code c) = co_abrCopies c" "co_abrMixers (drop_renditions code c) = co_abrMixers c"
  "co_startedAt (drop_renditions code c) = co_startedAt c" "co_degradation (drop_renditions code c) = co_degradation c"
  "has_buf x (drop_renditions code c) \<longleftrightarrow> x \<notin> RenditionBufferID code ` set (slugs_of code c) \<and> has_buf x c"
  by (simp_all add: drop_renditions_def co_simps)

lemma stopPipeline_states:
  assumes "runs_pipeline s c" and "plain_code (s_Code s)"
  shows "nothing_held (s_Code s) (stopPipeline (s_Code s) c)"
  using assms running_slugs [OF assms(1)]
  by (auto simp: stopPipeline_def Let_def co_simps nothing_held_def runs_pipeline_def pipeline_bufs_def ingest_buffer_def
      map_simps owned_def split: if_splits)

lemma stopLocked_states:
  assumes "nothing_held code c \<or> mirrors code c \<or> (\<exists>s. s_Code s = code \<and> runs_pipeline s c)" and "plain_code code"
  shows "nothing_held code (stopLocked code c)"
proof -
  have keep: "gget (co_abrCopies c) code = None \<Longrightarrow> gget (co_abrMixers c) code = None \<Longrightarrow>
      nothing_held code (stopPipeline code (c\<lparr>co_abrCopies := gdel code (co_abrCopies c), co_abrMixers := gdel code (co_abrMixers c)\<rparr>))"
    if "nothing_held code c \<or> (\<exists>s. s_Code s = code \<and> runs_pipeline s c)"
  proof -
    let ?c = "c\<lparr>co_abrCopies := gdel code (co_abrCopies c), co_abrMixers := gdel code (co_abrMixers c)\<rparr>"
    assume none: "gget (co_abrCopies c) code = None" "gget (co_abrMixers c) code = None"
    from that show ?thesis
    proof
      assume "nothing_held code c"
      then show ?thesis by (auto simp: stopPipeline_def Let_def co_simps nothing_held_def map_simps slugs_of_def)
    next
      assume "\<exists>s. s_Code s = code \<and> runs_pipeline s c"
      then obtain s where "s_Code s = code" "runs_pipeline s ?c" by (auto simp: runs_pipeline_def map_simps)
      then show ?thesis using stopPipeline_states [of s ?c] assms(2) by simp
    qed
  qed
  from assms(1) show ?thesis
  proof (elim disjE)
    assume "nothing_held code c"
    then show ?thesis using keep by (simp add: stopLocked_def Let_def nothing_held_def)
  next
    assume "mirrors code c"
    then show ?thesis using assms(2)
      by (auto simp: mirrors_def stopLocked_def Let_def stopABRCopy_def stopABRMixer_def nothing_held_def co_simps map_simps)
  next
    assume "\<exists>s. s_Code s = code \<and> runs_pipeline s c"
    then show ?thesis using keep by (auto simp: stopLocked_def Let_def runs_pipeline_def)
  qed
qed

text \<open>A stop clears whatever the rendition table accounts for, in any state.\<close>

definition accounted :: "StreamCode \<Rightarrow> Coord \<Rightarrow> bool" where
  "accounted code c \<longleftrightarrow> (\<forall>x \<in> owned code. has_buf x c \<longrightarrow>
      x \<in> {code, RawIngestBufferID code} \<union> RenditionBufferID code ` set (slugs_of code c)) \<and>
     gget (co_abrCopies c) code = None \<and> gget (co_abrMixers c) code = None"

lemma stopPipeline_clears: "accounted code c \<Longrightarrow> nothing_held code (stopPipeline code c)"
  by (fastforce simp: accounted_def stopPipeline_def Let_def co_simps nothing_held_def map_simps)

lemma stopLocked_clears:
  assumes "accounted code c"
  shows "nothing_held code (stopLocked code c)"
proof -
  have "accounted code (c\<lparr>co_abrCopies := gdel code (co_abrCopies c), co_abrMixers := gdel code (co_abrMixers c)\<rparr>)"
    using assms by (simp add: accounted_def co_simps map_simps)
  from stopPipeline_clears [OF this] show ?thesis
    using assms by (simp add: stopLocked_def Let_def accounted_def)
qed

subsection \<open>Hot reload\<close>

lemma reload_states:
  assumes runs: "runs_pipeline old c" and code: "s_Code old = s_Code new" "plain_code (s_Code new)" "s_Code new \<noteq> []"
    and found: "ce_binary env"
  shows "case reloadTranscoderFull env old new c of (None, c') \<Rightarrow> runs_pipeline new c' | (Some _, c') \<Rightarrow> nothing_held (s_Code new) c'"
proof -
  let ?code = "s_Code new" and ?raw = "RawIngestBufferID (s_Code new)"
  note r = runs [unfolded runs_pipeline_def code(1)]
  define c1 where "c1 = stopDVR ?code c"
  define c3 where "c3 = drop_renditions ?code (on_tc (tc_Stop ?code) (c1\<lparr>co_pub := pub_Stop ?code (co_pub c1)\<rparr>))"
  define c4 where "c4 = (if shouldRunTranscoder new then
      fold (\<lambda>t. buf_Create (rt_BufferID t)) (rendition_targets new)
        (if ingest_buffer old \<noteq> ingest_buffer new then buf_Create (ingest_buffer new) c3 else c3)
      else if ingest_buffer old \<noteq> ingest_buffer new then buf_Delete (ingest_buffer old) c3 else c3)"
  define c5 where "c5 = on_mgr ?code (UpdateBufferWriteID ?code (ingest_buffer new)) c4"
  define finish where "finish = (\<lambda>c. case pub_Start new (co_pub c) of
      (Some e, pub) \<Rightarrow> reloadFailed ?code (PublisherFailed e) (c\<lparr>co_pub := pub\<rparr>)
    | (None, pub) \<Rightarrow> (None, reloadDVR env new (c\<lparr>co_pub := pub\<rparr>)))"
  have ing: "(if shouldRunTranscoder old then ?raw else ?code) = ingest_buffer old" "(if shouldRunTranscoder new then ?raw else ?code) = ingest_buffer new"
    by (simp_all add: ingest_buffer_def code(1))
  have slugs: "slugs_of ?code c1 = rendition_slugs old"
    using running_slugs [OF runs] code(1) by (simp add: c1_def co_simps)
  have own: "x \<in> owned ?code \<Longrightarrow> has_buf x c \<longleftrightarrow> x \<in> {?code, ingest_buffer old} \<union> RenditionBufferID ?code ` set (rendition_slugs old)" for x
    using r by (simp add: pipeline_bufs_def code(1))
  have ing_old: "ingest_buffer old = ?code \<or> ingest_buffer old = ?raw" by (simp add: ingest_buffer_def code(1))
  have "has_buf x c1 = has_buf x c" for x by (simp add: c1_def co_simps)
  then have c3: "has_buf x c3 \<longleftrightarrow> x \<notin> RenditionBufferID ?code ` set (rendition_slugs old) \<and> has_buf x c" for x
    unfolding c3_def by (simp add: co_simps slugs)
  define R where "R = RenditionBufferID ?code ` set (rendition_slugs old)"
  have R: "?code \<notin> R" "?raw \<notin> R" using code(2) by (auto simp: R_def)
  have bufs3: "x \<in> owned ?code \<Longrightarrow> has_buf x c3 \<longleftrightarrow> x = ?code \<or> x = ingest_buffer old" for x
    using own [of x] ing_old c3 [of x] R unfolding R_def [symmetric] by auto
  have bufs: "x \<in> owned ?code \<Longrightarrow> has_buf x c5 \<longleftrightarrow> x \<in> pipeline_bufs new" for x
    using bufs3 [of x] code by (auto simp: c5_def c4_def co_simps pipeline_bufs_def ingest_buffer_def)
  have f: "co_tc c5 = fst (tc_Stop ?code (co_tc c))" "co_pub c5 = pub_Stop ?code (co_pub c)"
    "gget (co_renditions c5) ?code = None" "co_abrCopies c5 = co_abrCopies c" "co_abrMixers c5 = co_abrMixers c"
    "co_startedAt c5 = co_startedAt c" "ingests_into ?code (ingest_buffer new) (co_mgr c5)"
    using r by (auto simp: c5_def c4_def c3_def c1_def co_simps map_simps)
  have reload: "reloadTranscoderFull env old new c =
      (if length (rendition_targets new) = 0 then finish c5
       else case tc_Start True ?code (ingest_buffer new) (transcoderConfigWithWatermark env new) (rendition_targets new) (co_tc c5) of
         (Some e, t) \<Rightarrow> reloadFailed ?code (TranscoderFailed e) (c5\<lparr>co_tc := t\<rparr>)
       | (None, t) \<Rightarrow> finish (c5\<lparr>co_tc := t, co_renditions := gput ?code (rendition_slugs new) (co_renditions c5)\<rparr>))"
    unfolding reloadTranscoderFull_def Let_def ing c1_def [symmetric] c3_def [symmetric] c4_def [symmetric] c5_def [symmetric]
      finish_def using found by simp
  have finish: "case finish c6 of (None, c') \<Rightarrow> runs_pipeline new c' | (Some _, c') \<Rightarrow> nothing_held ?code c'"
    if c6: "\<And>x. x \<in> owned ?code \<Longrightarrow> has_buf x c6 \<longleftrightarrow> x \<in> pipeline_bufs new" "slugs_of ?code c6 = rendition_slugs new"
      "ingests_into ?code (ingest_buffer new) (co_mgr c6)" "gget (pb_streams (co_pub c6)) ?code = None"
      "gget (co_abrCopies c6) ?code = None" "gget (co_abrMixers c6) ?code = None" "gget (co_startedAt c6) ?code \<noteq> None"
      "if shouldRunTranscoder new
       then (\<exists>sw. gget (ts_workers (co_tc c6)) ?code = Some sw \<and> sw_rawIngest sw = ingest_buffer new \<and>
              map rt_BufferID (sw_targets sw) = map (RenditionBufferID ?code) (rendition_slugs new)) \<and>
            gget (co_renditions c6) ?code = Some (rendition_slugs new)
       else gget (ts_workers (co_tc c6)) ?code = None \<and> gget (co_renditions c6) ?code = None" for c6
  proof -
    obtain err pub where p: "pub_Start new (co_pub c6) = (err, pub)" by (cases "pub_Start new (co_pub c6)")
    show ?thesis
    proof (cases err)
      case (Some e)
      have "accounted ?code (c6\<lparr>co_pub := pub\<rparr>)"
        using c6(1,2,5,6) by (auto simp: accounted_def co_simps pipeline_bufs_def ingest_buffer_def)
      from stopLocked_clears [OF this] show ?thesis using p Some by (simp add: finish_def reloadFailed_def)
    next
      case None
      have "gget (pb_streams pub) ?code = Some (fresh_pub new)" using pub_Start_ok(1) [of new "co_pub c6"] p None by simp
      then show ?thesis using c6 p None
        by (simp add: finish_def reloadDVR_def runs_pipeline_def co_simps fresh_pub_media)
    qed
  qed
  show ?thesis
  proof (cases "shouldRunTranscoder new")
    case False
    then show ?thesis unfolding reload
      using finish [of c5] bufs f r by (simp add: co_simps slugs_of_def)
  next
    case True
    then obtain cfg where cfg: "transcoderConfigWithWatermark env new = Some cfg" using config_given by blast
    let ?st = "tc_Start True ?code (ingest_buffer new) (transcoderConfigWithWatermark env new) (rendition_targets new) (co_tc c5)"
    have none: "gget (ts_workers (co_tc c5)) ?code = None" by (simp add: f co_simps)
    have ok: "fst ?st = None" using True none cfg by (simp add: tc_Start_def Let_def)
    obtain t where t: "?st = (None, t)" using ok by (cases ?st) simp
    have w: "gget (ts_workers t) ?code = Some (new_worker (ingest_buffer new) (transcoderConfigWithWatermark env new) (rendition_targets new))"
      using tc_Start_ok(1) [OF ok, of ?code] t by simp
    let ?c6 = "c5\<lparr>co_tc := t, co_renditions := gput ?code (rendition_slugs new) (co_renditions c5)\<rparr>"
    have "case finish ?c6 of (None, c') \<Rightarrow> runs_pipeline new c' | (Some _, c') \<Rightarrow> nothing_held ?code c'"
      using bufs f r True w by (intro finish) (simp_all add: co_simps slugs_of_def map_simps new_worker_def targets_are_slugs)
    then show ?thesis unfolding reload using True t by simp
  qed
qed

text \<open>A change of the transcoder settings that is no reason to reload leaves the ladder as it is.\<close>

lemma elems_map: "elems (map_option (map f) xs) = map f (elems xs)"
  by (cases xs) simp_all

lemma deref_renditions: "RenditionsForTranscoder code (map_option deref_transcoder otc) = RenditionsForTranscoder code otc"
  by (cases otc) (auto simp: RenditionsForTranscoder_def deref_transcoder_def elems_map rendition_of_def deref_profile_def Let_def)

lemma deref_slugs:
  assumes "map_option deref_transcoder (s_Transcoder a) = map_option deref_transcoder (s_Transcoder b)"
  shows "shouldRunTranscoder a = shouldRunTranscoder b" "rendition_slugs a = rendition_slugs b"
proof -
  have tc: "vt_Copy (tc_Video (deref_transcoder t)) = vt_Copy (tc_Video t)" "tc_Audio (deref_transcoder t) = tc_Audio t"
    "length (elems (vt_Profiles (tc_Video (deref_transcoder t)))) = length (elems (vt_Profiles (tc_Video t)))" for t
    by (simp_all add: deref_transcoder_def elems_map)
  have same: "vt_Copy (tc_Video s) = vt_Copy (tc_Video t)" "at_Copy (tc_Audio s) = at_Copy (tc_Audio t)"
    "length (elems (vt_Profiles (tc_Video s))) = length (elems (vt_Profiles (tc_Video t)))"
    if "deref_transcoder s = deref_transcoder t" for s t
    using tc [of s] tc [of t] that by simp_all
  show run: "shouldRunTranscoder a = shouldRunTranscoder b"
  proof (cases "s_Transcoder a")
    case None
    then show ?thesis using assms by (simp add: shouldRunTranscoder_def)
  next
    case (Some s)
    then obtain t where t: "s_Transcoder b = Some t" "deref_transcoder s = deref_transcoder t"
      using assms by (cases "s_Transcoder b") auto
    show ?thesis using same [OF t(2)] by (simp add: shouldRunTranscoder_def Some t(1))
  qed
  have len: "length (transcoderProfilesFromDomain v) = (if vt_Copy v \<or> length (elems (vt_Profiles v)) = 0 then 1 else length (elems (vt_Profiles v)))" for v
    by (simp add: transcoderProfilesFromDomain_def singleOriginCopyProfile_def)
  show "rendition_slugs a = rendition_slugs b"
  proof (cases "s_Transcoder a")
    case None
    then show ?thesis using assms by (simp add: rendition_slugs_def)
  next
    case (Some s)
    then obtain t where t: "s_Transcoder b = Some t" "deref_transcoder s = deref_transcoder t"
      using assms by (cases "s_Transcoder b") auto
    show ?thesis using run same [OF t(2)] by (simp only: rendition_slugs_def Some t(1) option.case len)
  qed
qed

lemma no_reload_same_ladder:
  assumes "\<not> (df_TranscoderTopologyChanged (ComputeDiff rng old new) \<or>
      df_TranscoderChanged (ComputeDiff rng old new) \<and> df_ProfilesDiff (ComputeDiff rng old new) \<noteq> None)"
    and "s_Code old = s_Code new"
  shows "shouldRunTranscoder old = shouldRunTranscoder new" "rendition_slugs old = rendition_slugs new"
    "RenditionsForTranscoder (s_Code new) (s_Transcoder old) = RenditionsForTranscoder (s_Code new) (s_Transcoder new)"
proof -
  let ?d = "diffInputs rng old new (no_diff\<lparr>df_NowDisabled := \<not> s_Disabled old \<and> s_Disabled new\<rparr>)"
  have diff: "\<not> (df_TranscoderTopologyChanged (diffTranscoder old new ?d) \<or>
      df_TranscoderChanged (diffTranscoder old new ?d) \<and> df_ProfilesDiff (diffTranscoder old new ?d) \<noteq> None)"
    using assms(1) by (simp add: ComputeDiff_def Let_def)
  have "(shouldRunTranscoder old = shouldRunTranscoder new \<and> rendition_slugs old = rendition_slugs new) \<and>
    RenditionsForTranscoder (s_Code new) (s_Transcoder old) = RenditionsForTranscoder (s_Code new) (s_Transcoder new)"
  proof (cases "deep_equal_transcoder (s_Transcoder old) (s_Transcoder new)")
    case True
    then have "map_option deref_transcoder (s_Transcoder old) = map_option deref_transcoder (s_Transcoder new)"
      by (simp add: deep_equal_transcoder_def)
    from deref_slugs [OF this] deref_renditions [of "s_Code new" "s_Transcoder old"] deref_renditions [of "s_Code new" "s_Transcoder new"] this
    show ?thesis by simp
  next
    case False
    have "s_Transcoder old \<noteq> None \<and> s_Transcoder new \<noteq> None"
      using diff False unfolding diffTranscoder_def Let_def
      by (cases "s_Transcoder old"; cases "s_Transcoder new") simp_all
    then obtain ot nt where t: "s_Transcoder old = Some ot" "s_Transcoder new = Some nt" by blast
    have eq: "needsFFmpeg (Some ot) = needsFFmpeg (Some nt)"
      using diff False t unfolding diffTranscoder_def Let_def by (cases "needsFFmpeg (Some ot) = needsFFmpeg (Some nt)") simp_all
    have nt: "\<not> needsFFmpeg (Some nt)"
    proof
      assume need: "needsFFmpeg (Some nt)"
      then have "diffTranscoder old new ?d = ?d\<lparr>df_TranscoderChanged := True, df_TranscoderTopologyChanged := True\<rparr> \<or>
          df_TranscoderChanged (diffTranscoder old new ?d) \<and> df_ProfilesDiff (diffTranscoder old new ?d) \<noteq> None"
        using False t eq unfolding diffTranscoder_def Let_def
        by (cases "vt_Copy (tc_Video ot) = vt_Copy (tc_Video nt)"; cases "s_Watermark old = s_Watermark new") simp_all
      with diff show False by (elim disjE) simp_all
    qed
    from eq nt have "\<not> shouldRunTranscoder old" "\<not> shouldRunTranscoder new"
      and "RenditionsForTranscoder code (Some ot) = []" "RenditionsForTranscoder code (Some nt) = []" for code
      using t by (simp_all add: needsFFmpeg_def shouldRunTranscoder_def RenditionsForTranscoder_def)
    then show ?thesis using t by simp
  qed
  then show "shouldRunTranscoder old = shouldRunTranscoder new" "rendition_slugs old = rendition_slugs new"
    "RenditionsForTranscoder (s_Code new) (s_Transcoder old) = RenditionsForTranscoder (s_Code new) (s_Transcoder new)"
    by simp_all
qed

lemma UpdateProtocols_fields:
  assumes "gget (pb_streams pb) (s_Code new) = Some ss"
  shows "\<exists>ss'. gget (pb_streams (snd (UpdateProtocols old new pb))) (s_Code new) = Some ss' \<and>
    pst_mediaBuf ss' = PlaybackBufferID (s_Code new) (s_Transcoder new)"
proof -
  have "pst_mediaBuf (update1 old new ss) = PlaybackBufferID (s_Code new) (s_Transcoder new)"
    using update1_meta [of old new ss] by (simp add: pub_meta_def)
  with UpdateProtocols_value(2) [OF assms, where old = old] show ?thesis by blast
qed

lemma runs_after_reconfiguration:
  assumes "runs_pipeline old c" and "s_Code old = s_Code new"
    and "shouldRunTranscoder old = shouldRunTranscoder new" "rendition_slugs old = rendition_slugs new"
    and "RenditionsForTranscoder (s_Code new) (s_Transcoder old) = RenditionsForTranscoder (s_Code new) (s_Transcoder new)"
  shows "runs_pipeline new c"
proof -
  have "PlaybackBufferID (s_Code new) (s_Transcoder old) = PlaybackBufferID (s_Code new) (s_Transcoder new)"
    by (simp add: PlaybackBufferID_def assms(5))
  have ing: "ingest_buffer old = ingest_buffer new" by (simp add: ingest_buffer_def assms(2,3))
  have "pipeline_bufs old = pipeline_bufs new" by (simp add: pipeline_bufs_def assms(2,4) ing)
  with \<open>PlaybackBufferID _ _ = _\<close> show ?thesis using assms(1) unfolding runs_pipeline_def assms(2,3,4) ing by simp
qed

lemma updateLocked_states:
  assumes runs: "runs_pipeline old c \<or> mirrors (s_Code old) c" and code: "s_Code old = s_Code new" "plain_code (s_Code new)" "s_Code new \<noteq> []"
    and found: "ce_binary env"
  shows "case updateLocked env old new c of
      (None, c') \<Rightarrow> nothing_held (s_Code new) c' \<or> runs_pipeline new c' \<or> mirrors (s_Code new) c'
    | (Some _, c') \<Rightarrow> nothing_held (s_Code new) c'"
proof -
  let ?code = "s_Code new"
  let ?abr = "(gget (co_abrCopies c) ?code \<noteq> None \<or> gget (co_abrMixers c) ?code \<noteq> None) \<or>
    \<not> s_Disabled new \<and> (detectABRCopy env new \<noteq> None \<or> detectABRMixer env new \<noteq> None)"
  have stopped: "nothing_held ?code (stopLocked ?code c)"
    by (rule stopLocked_states) (use runs code in auto)
  show ?thesis
  proof (cases ?abr)
    case True
    have "ends_well new (startLocked env new (stopLocked ?code c))" by (rule startLocked_states [OF stopped code(2,3)])
    then show ?thesis using True stopped code(1)
      by (auto simp: updateLocked_def Let_def ends_well_def split: option.splits prod.splits)
  next
    case no_abr: False
    then have runs': "runs_pipeline old c" using runs code(1) by (auto simp: mirrors_def)
    let ?d = "ComputeDiff (ce_range env) old new"
    define c1 where "c1 = (if df_InputsChanged ?d
        then on_mgr ?code (UpdateInputs (ce_start env) (ce_now env) ?code (df_AddedInputs ?d) (df_RemovedInputs ?d) (df_UpdatedInputs ?d)) c
        else c)"
    have runs1: "runs_pipeline old c1"
      using runs' by (simp add: c1_def runs_pipeline_def co_simps)
    have upd: "updateLocked env old new c =
        (if df_NowDisabled ?d then (None, stopLocked ?code c)
         else if df_TranscoderTopologyChanged ?d \<or> df_TranscoderChanged ?d \<and> df_ProfilesDiff ?d \<noteq> None
         then reloadTranscoderFull env old new c1
         else
           let (err, c2) = (if df_ProtocolsChanged ?d \<or> df_PushChanged ?d \<or> df_PlaybackPolicyChanged ?d
                 then (case UpdateProtocols old new (co_pub c1) of
                         (e, pub) \<Rightarrow> (map_option UpdateProtocolsFailed e, c1\<lparr>co_pub := pub\<rparr>))
                 else (None, c1)) in
           if err \<noteq> None then (err, c2)
           else (None, if df_DVRChanged ?d then reloadDVR env new c2 else c2))"
      unfolding updateLocked_def Let_def c1_def code(1) using no_abr by (simp only: if_False simp_thms)
    show ?thesis
    proof (cases "df_NowDisabled ?d")
      case True
      then show ?thesis using stopped by (simp add: upd)
    next
      case enabled: False
      show ?thesis
      proof (cases "df_TranscoderTopologyChanged ?d \<or> df_TranscoderChanged ?d \<and> df_ProfilesDiff ?d \<noteq> None")
        case True
        then have "updateLocked env old new c = reloadTranscoderFull env old new c1" using enabled unfolding upd by simp
        then show ?thesis
          using reload_states [OF runs1 code found] by (simp split: prod.splits option.splits)
      next
        case False
        note same = no_reload_same_ladder [OF False code(1)]
        have new1: "runs_pipeline new c1" by (rule runs_after_reconfiguration [OF runs1 code(1) same])
        then obtain ss where ss: "gget (pb_streams (co_pub c1)) ?code = Some ss" by (auto simp: runs_pipeline_def)
        let ?pub = "snd (UpdateProtocols old new (co_pub c1))"
        have "fst (UpdateProtocols old new (co_pub c1)) = None" by (rule UpdateProtocols_value(1) [OF ss])
        then have pub: "UpdateProtocols old new (co_pub c1) = (None, ?pub)" by (metis prod.collapse)
        have new2: "runs_pipeline new (c1\<lparr>co_pub := ?pub\<rparr>)"
          using new1 UpdateProtocols_fields [OF ss, of old] by (simp add: runs_pipeline_def)
        have dvr: "runs_pipeline new c2 \<Longrightarrow> runs_pipeline new (reloadDVR env new c2)" for c2
          by (simp add: runs_pipeline_def reloadDVR_def co_simps)
        let ?touched = "df_ProtocolsChanged ?d \<or> df_PushChanged ?d \<or> df_PlaybackPolicyChanged ?d"
        let ?c2 = "if ?touched then c1\<lparr>co_pub := ?pub\<rparr> else c1"
        have "updateLocked env old new c = (None, if df_DVRChanged ?d then reloadDVR env new ?c2 else ?c2)"
          unfolding upd using False enabled
          by (simp only: if_False, subst pub, cases ?touched) (simp_all only: if_True if_False prod.case option.map simp_thms Let_def)
        moreover have "runs_pipeline new (if df_DVRChanged ?d then reloadDVR env new ?c2 else ?c2)"
          using new1 new2 dvr by simp
        ultimately show ?thesis by simp
      qed
    qed
  qed
qed

end
