(* ===== verification/Pipelines.thy ===== *)
theory Pipelines
  imports Pipeline_State
begin

text \<open>
  The coordinator's promises: an operation on one stream leaves the others alone, and each ends with the pipeline of its
  configuration running, a ladder mirrored, or nothing held.
\<close>

declare map_of_eq_Some_iff [simp del] Some_eq_map_of_iff [simp del]

subsection \<open>Isolation\<close>

text \<open>All that is held for a stream, its status and its start time included.\<close>

definition held_for :: "StreamCode \<Rightarrow> Coord \<Rightarrow>
    (StreamCode \<Rightarrow> bool) \<times> StreamState option \<times> StreamWorker option \<times> PubStream option \<times> Recording option \<times>
    string list option \<times> AbrCopyEntry option \<times> AbrMixerEntry option \<times> gotime option \<times> streamDegradation option" where
  "held_for y c =
     (\<lambda>x. x \<in> owned y \<and> has_buf x c, gget (svc_streams (co_mgr c)) y, gget (ts_workers (co_tc c)) y, gget (pb_streams (co_pub c)) y,
      gget (bs_active (co_dvr c)) y, gget (co_renditions c) y, gget (co_abrCopies c) y, gget (co_abrMixers c) y,
      gget (co_startedAt c) y, gget (co_degradation c) y)"

lemma updateDegradation_other: "x \<noteq> y \<Longrightarrow> gget (co_degradation (updateDegradation x f c)) y = gget (co_degradation c) y"
  by (simp add: updateDegradation_def Let_def map_simps)

lemma effects_other: "x \<noteq> y \<Longrightarrow> gget (co_degradation (fold (mgr_effect x) ef c)) y = gget (co_degradation c) y"
proof (induction ef arbitrary: c)
  case (Cons e ef)
  have "gget (co_degradation (mgr_effect x e c)) y = gget (co_degradation c) y"
    using Cons.prems by (cases e) (simp_all add: handleAllInputsExhausted_def handleInputRestored_def co_publish_def updateDegradation_other)
  then show ?case using Cons by simp
qed simp

lemma on_mgr_other: "x \<noteq> y \<Longrightarrow> gget (co_degradation (on_mgr x f c)) y = gget (co_degradation c) y"
  by (simp add: on_mgr_def effects_other case_prod_beta)

lemma on_tc_Stop_other: "x \<noteq> y \<Longrightarrow> gget (co_degradation (on_tc (tc_Stop x) c)) y = gget (co_degradation c) y"
  by (auto simp: on_tc_def tc_Stop_def dropHealthState_def Let_def handleTranscoderHealthy_def updateDegradation_other
      split: option.split prod.split)

definition away :: "StreamCode \<Rightarrow> StreamCode \<Rightarrow> bool" where
  "away x y \<longleftrightarrow> plain_code x \<and> plain_code y \<and> x \<noteq> y"

lemma not_owned: "away x y \<Longrightarrow> bid \<in> owned x \<Longrightarrow> bid \<notin> owned y"
  using owned_disjoint [of x y bid] by (simp add: away_def)

named_theorems elsewhere \<open>what is held for another stream does not change\<close>

lemma held_buf [elsewhere]:
  "away x y \<Longrightarrow> bid \<in> owned x \<Longrightarrow> held_for y (buf_Create bid c) = held_for y c"
  "away x y \<Longrightarrow> bid \<in> owned x \<Longrightarrow> held_for y (buf_Delete bid c) = held_for y c"
  using not_owned [of x y bid] by (auto simp: held_for_def co_simps)

lemma held_folds [elsewhere]:
  "away x y \<Longrightarrow> f ` set ts \<subseteq> owned x \<Longrightarrow> held_for y (fold (\<lambda>t. buf_Create (f t)) ts c) = held_for y c"
  "away x y \<Longrightarrow> f ` set ts \<subseteq> owned x \<Longrightarrow> held_for y (fold (\<lambda>t. buf_Delete (f t)) ts c) = held_for y c"
  by (induction ts arbitrary: c) (simp_all add: held_buf)

lemma held_slugs [elsewhere]:
  "away x y \<Longrightarrow> held_for y (drop_slugs x slugs c) = held_for y c"
  "away x y \<Longrightarrow> held_for y (drop_renditions x c) = held_for y c"
  unfolding drop_renditions_def drop_slugs_def
  by (subst held_folds(2) [where x = x]; auto simp: held_for_def map_simps away_def)+

lemma held_live [elsewhere]:
  "away x y \<Longrightarrow> held_for y (went_live env x c) = held_for y c" "away x y \<Longrightarrow> held_for y (went_down x c) = held_for y c"
  by (auto simp: held_for_def co_simps map_simps away_def)

lemma held_services [elsewhere]:
  "away x y \<Longrightarrow> gget (svc_streams (fst (f (co_mgr c)))) y = gget (svc_streams (co_mgr c)) y \<Longrightarrow> held_for y (on_mgr x f c) = held_for y c"
  "away x y \<Longrightarrow> held_for y (on_tc (tc_Stop x) c) = held_for y c"
  "away x y \<Longrightarrow> gget (pb_streams p) y = gget (pb_streams (co_pub c)) y \<Longrightarrow> held_for y (c\<lparr>co_pub := p\<rparr>) = held_for y c"
  "away x y \<Longrightarrow> held_for y (stopDVR x c) = held_for y c"
  "away x y \<Longrightarrow> s_Code s = x \<Longrightarrow> held_for y (startDVR env s c) = held_for y c"
  "away x y \<Longrightarrow> gget (ts_workers t) y = gget (ts_workers (co_tc c)) y \<Longrightarrow> held_for y (c\<lparr>co_tc := t\<rparr>) = held_for y c"
  "away x y \<Longrightarrow> gget r y = gget (co_renditions c) y \<Longrightarrow> held_for y (c\<lparr>co_renditions := r\<rparr>) = held_for y c"
  "away x y \<Longrightarrow> held_for y (c\<lparr>co_abrCopies := gput x e (co_abrCopies c)\<rparr>) = held_for y c"
  "away x y \<Longrightarrow> held_for y (c\<lparr>co_abrMixers := gput x m (co_abrMixers c)\<rparr>) = held_for y c"
  "away x y \<Longrightarrow> held_for y (c\<lparr>co_abrCopies := gdel x (co_abrCopies c), co_abrMixers := gdel x (co_abrMixers c)\<rparr>) = held_for y c"
  by (auto simp: held_for_def co_simps on_mgr_other on_tc_Stop_other map_simps away_def)

text \<open>The components' operations on another stream's entry.\<close>

lemma pub_other:
  "x \<noteq> y \<Longrightarrow> gget (pb_streams (pub_Stop x pb)) y = gget (pb_streams pb) y"
  "s_Code s \<noteq> y \<Longrightarrow> pub_Start s pb = (e, pb') \<Longrightarrow> gget (pb_streams pb') y = gget (pb_streams pb) y"
  using pub_Start_fails [of s pb] pub_Start_ok(1) [of s pb y]
  by (simp_all add: pub_Stop_streams, cases e) auto

lemma UpdateProtocols_other: "s_Code new \<noteq> y \<Longrightarrow> UpdateProtocols old new pb = (e, pb') \<Longrightarrow> gget (pb_streams pb') y = gget (pb_streams pb) y"
  using UpdateProtocols_value(3) [of pb new _ y old]
  by (cases "gget (pb_streams pb) (s_Code new)") (auto simp: UpdateProtocols_def Let_def)

lemma tc_other: "x \<noteq> y \<Longrightarrow> tc_Start found x raw cfg targets t = (e, t') \<Longrightarrow> gget (ts_workers t') y = gget (ts_workers t) y"
  by (auto simp: tc_Start_def Let_def tc_publish_def map_simps split: if_splits option.splits)

lemma mgr_other:
  "x \<noteq> y \<Longrightarrow> gget (svc_streams (fst (Unregister x m))) y = gget (svc_streams m) y"
  "x \<noteq> y \<Longrightarrow> gget (svc_streams (fst (UpdateInputs start now x a r u m))) y = gget (svc_streams m) y"
  "x \<noteq> y \<Longrightarrow> gget (svc_streams (fst (UpdateBufferWriteID x b m))) y = gget (svc_streams m) y"
  "s_Code s \<noteq> y \<Longrightarrow> Register start n1 n2 n3 n4 s bid m = (e, m', ef) \<Longrightarrow> gget (svc_streams m') y = gget (svc_streams m) y"
  by (auto simp: Unregister_streams UpdateInputs_def UpdateBufferWriteID_def on_stream_def Register_def Let_def map_simps case_prod_beta
      split: option.splits prod.splits if_splits)

subsection \<open>Operations elsewhere\<close>

lemma held_mgr_const:
  "away x y \<Longrightarrow> gget (svc_streams m) y = gget (svc_streams (co_mgr c)) y \<Longrightarrow> held_for y (on_mgr x (\<lambda>_. (m, ef)) c) = held_for y c"
  by (simp add: held_services)

lemma held_unregister: "away x y \<Longrightarrow> held_for y (on_mgr x (Unregister x) c) = held_for y c"
  by (rule held_services(1)) (simp_all add: mgr_other away_def)

lemma held_drop_pipeline:
  "away (s_Code s) y \<Longrightarrow> ing \<in> owned (s_Code s) \<Longrightarrow> held_for y (drop_pipeline_buffers s ing c) = held_for y c"
  by (simp add: drop_pipeline_buffers_def Let_def held_buf held_slugs)

lemma held_targets:
  "away (s_Code s) y \<Longrightarrow> held_for y (fold (\<lambda>t. buf_Create (rt_BufferID t)) (rendition_targets s) c) = held_for y c"
  by (rule held_folds(1) [where x = "s_Code s"]) auto

lemma held_abr_outputs:
  assumes "away (s_Code down) y" and "abr_rungs down up = Inr (mirrored, upRends, downRends)" and "abr_outputs mirrored downRends c = (e, c')"
  shows "held_for y c' = held_for y c"
proof -
  have m: "s_Code mirrored = s_Code down" "downRends = RenditionsForTranscoder (s_Code down) (s_Transcoder mirrored)"
    using assms(2) by (auto simp: abr_rungs_def Let_def split: if_splits)
  have "map rp_BufferID downRends = map (RenditionBufferID (s_Code down)) (map rp_Slug downRends)"
    unfolding m(2) by (simp add: rung_ids)
  then have ids: "rp_BufferID ` set downRends = RenditionBufferID (s_Code down) ` set (map rp_Slug downRends)"
    by (metis list.set_map)
  have owned: "rp_BufferID ` set downRends \<subseteq> owned (s_Code down)" unfolding ids by auto
  note f = held_folds [where x = "s_Code down" and y = y and f = rp_BufferID, OF assms(1) owned]
  obtain err pub where p: "pub_Start mirrored (co_pub c) = (err, pub)" by (cases "pub_Start mirrored (co_pub c)")
  have pub: "gget (pb_streams pub) y = gget (pb_streams (co_pub c)) y"
    using pub_other(2) [OF _ p, of y] assms(1) m(1) by (simp add: away_def)
  note pp = held_services(3) [OF assms(1), of pub]
  show ?thesis using assms(3) p pub
    by (cases err) (auto simp: abr_outputs_def Let_def co_simps f pp)
qed

lemma held_start:
  assumes a: "away (s_Code s) y"
  shows "held_for y (snd (startLocked env s c)) = held_for y c"
proof -
  let ?x = "s_Code s"
  have ne: "?x \<noteq> y" using a by (simp add: away_def)
  have abr: "held_for y (snd (startABRCopy env s up c)) = held_for y c" "held_for y (snd (startABRMixer env s up au c)) = held_for y c" for up au
    using held_abr_outputs [OF a, of up _ _ _ c]
    by (auto simp: startABRCopy_def startABRMixer_def Let_def held_live [OF a] held_services(8,9) [OF a] split: option.split sum.split prod.split)
  have ing: "ingest_buffer s \<in> owned ?x" by (simp add: ingest_buffer_def)
  define c3 where "c3 = fold (\<lambda>t. buf_Create (rt_BufferID t)) (rendition_targets s)
    (if shouldRunTranscoder s then buf_Create (RawIngestBufferID ?x) (buf_Create ?x c) else buf_Create ?x c)"
  have c3: "held_for y c3 = held_for y c" by (simp add: c3_def held_targets [OF a] held_buf [OF a])
  have fields: "co_mgr c3 = co_mgr c" "co_tc c3 = co_tc c" "co_pub c3 = co_pub c" by (simp_all add: c3_def co_simps)
  let ?reg = "Register (ce_start env) (ce_now env) (ce_now env) (ce_now env) (ce_now env) s (ingest_buffer s) (co_mgr c)"
  obtain err m ef where reg: "?reg = (err, m, ef)" by (cases ?reg)
  have m: "gget (svc_streams m) y = gget (svc_streams (co_mgr c)) y" by (rule mgr_other(4) [OF ne reg])
  obtain perr pub where pub: "pub_Start s (co_pub c) = (perr, pub)" by (cases "pub_Start s (co_pub c)")
  have p: "gget (pb_streams pub) y = gget (pb_streams (co_pub c)) y" by (rule pub_other(2) [OF ne pub])
  let ?tc = "tc_Start (ce_binary env) ?x (RawIngestBufferID ?x) (transcoderConfigWithWatermark env s) (rendition_targets s) (co_tc c)"
  obtain terr t where tc: "?tc = (terr, t)" by (cases ?tc)
  have t: "gget (ts_workers t) y = gget (ts_workers (co_tc c)) y" by (rule tc_other [OF ne tc])
  let ?c4 = "on_mgr ?x (\<lambda>_. (m, ef)) c3"
  have c4: "held_for y ?c4 = held_for y c" using held_mgr_const [OF a, of m c3] m fields c3 by simp
  note start = startPipeline_def Let_def ingest_buffer_def [symmetric] c3_def [symmetric] fields reg prod.case
  have "held_for y (snd (startPipeline env s c)) = held_for y c"
    unfolding start using c4 ing p t m
    by (cases err; cases perr; cases terr; cases "length (rendition_targets s) = 0")
      (simp_all add: co_simps fields pub tc held_drop_pipeline a elsewhere [OF a] held_unregister [OF a]
        mgr_other ne ne [symmetric] pub_other map_simps)
  then show ?thesis using abr by (simp add: startLocked_def split: option.split prod.split)
qed

lemma held_stop:
  assumes a: "away x y"
  shows "held_for y (stopLocked x c) = held_for y c"
proof -
  have ne: "x \<noteq> y" using a by (simp add: away_def)
  have pub: "held_for y (c\<lparr>co_pub := pub_Stop x (co_pub c)\<rparr>) = held_for y c" for c
    by (rule held_services(3) [OF a]) (simp add: pub_other ne)
  have pipe: "held_for y (stopPipeline x c) = held_for y c" for c
    by (simp add: stopPipeline_def Let_def elsewhere [OF a] pub held_unregister [OF a])
  show ?thesis
    using pub [of "c\<lparr>co_abrCopies := gdel x (co_abrCopies c), co_abrMixers := gdel x (co_abrMixers c)\<rparr>"]
    by (simp add: stopLocked_def Let_def stopABRCopy_def stopABRMixer_def elsewhere [OF a] pipe split: option.split)
qed

lemma held_reload:
  assumes a: "away (s_Code new) y"
  shows "held_for y (snd (reloadTranscoderFull env old new c)) = held_for y c"
proof -
  let ?x = "s_Code new"
  have ne: "?x \<noteq> y" using a by (simp add: away_def)
  define c2 where "c2 = (stopDVR ?x c)\<lparr>co_pub := pub_Stop ?x (co_pub (stopDVR ?x c))\<rparr>"
  have c2: "held_for y c2 = held_for y c"
    unfolding c2_def by (subst held_services(3) [OF a]) (simp_all add: pub_other ne elsewhere [OF a])
  define c3 where "c3 = drop_renditions ?x (on_tc (tc_Stop ?x) c2)"
  have c3: "held_for y c3 = held_for y c" by (simp add: c3_def elsewhere [OF a] c2)
  let ?i = "if shouldRunTranscoder old then RawIngestBufferID ?x else ?x"
  let ?j = "if shouldRunTranscoder new then RawIngestBufferID ?x else ?x"
  define c4 where "c4 = (if shouldRunTranscoder new then
        fold (\<lambda>t. buf_Create (rt_BufferID t)) (rendition_targets new) (if ?i \<noteq> ?j then buf_Create ?j c3 else c3)
      else if ?i \<noteq> ?j then buf_Delete ?i c3 else c3)"
  have c4: "held_for y c4 = held_for y c"
    unfolding c4_def using c3 by (simp add: held_buf [OF a] held_targets [OF a])
  define c5 where "c5 = on_mgr ?x (UpdateBufferWriteID ?x ?j) c4"
  have c5: "held_for y c5 = held_for y c"
    unfolding c5_def by (subst held_services(1) [OF a]) (simp_all add: mgr_other ne c4)
  define finish where "finish = (\<lambda>c. case pub_Start new (co_pub c) of
      (Some e, pub) \<Rightarrow> reloadFailed ?x (PublisherFailed e) (c\<lparr>co_pub := pub\<rparr>)
    | (None, pub) \<Rightarrow> (None, reloadDVR env new (c\<lparr>co_pub := pub\<rparr>)))"
  have finish: "held_for y (snd (finish c)) = held_for y c" for c
  proof -
    obtain e p where p: "pub_Start new (co_pub c) = (e, p)" by (cases "pub_Start new (co_pub c)")
    have "held_for y (c\<lparr>co_pub := p\<rparr>) = held_for y c" by (rule held_services(3) [OF a pub_other(2) [OF ne p]])
    then show ?thesis using p
      by (cases e) (simp_all add: finish_def reloadFailed_def reloadDVR_def held_stop [OF a] elsewhere [OF a])
  qed
  let ?tc = "tc_Start (ce_binary env) ?x ?j (transcoderConfigWithWatermark env new) (rendition_targets new) (co_tc c5)"
  obtain e t where t: "?tc = (e, t)" by (cases ?tc)
  have worker: "held_for y (c5\<lparr>co_tc := t\<rparr>) = held_for y c"
    using held_services(6) [OF a tc_other [OF ne t]] c5 by simp
  have rend: "held_for y (c5\<lparr>co_tc := t, co_renditions := gput ?x (rendition_slugs new) (co_renditions c5)\<rparr>) = held_for y c"
    by (subst held_services(7) [OF a]) (simp_all add: map_simps ne worker)
  have "reloadTranscoderFull env old new c =
      (if length (rendition_targets new) = 0 then finish c5
       else case ?tc of
         (Some e, t) \<Rightarrow> reloadFailed ?x (TranscoderFailed e) (c5\<lparr>co_tc := t\<rparr>)
       | (None, t) \<Rightarrow> finish (c5\<lparr>co_tc := t, co_renditions := gput ?x (rendition_slugs new) (co_renditions c5)\<rparr>))"
    unfolding reloadTranscoderFull_def Let_def c2_def [symmetric] c3_def [symmetric] c4_def [symmetric] c5_def [symmetric] finish_def ..
  then show ?thesis unfolding t
    by (cases e) (simp_all add: finish c5 rend reloadFailed_def held_stop [OF a] worker)
qed

lemma held_update:
  assumes a: "away (s_Code new) y" and same: "s_Code old = s_Code new"
  shows "held_for y (snd (updateLocked env old new c)) = held_for y c"
proof -
  let ?x = "s_Code new" and ?d = "ComputeDiff (ce_range env) old new"
  have ne: "?x \<noteq> y" using a by (simp add: away_def)
  define c1 where "c1 = (if df_InputsChanged ?d
      then on_mgr ?x (UpdateInputs (ce_start env) (ce_now env) ?x (df_AddedInputs ?d) (df_RemovedInputs ?d) (df_UpdatedInputs ?d)) c
      else c)"
  have c1: "held_for y c1 = held_for y c"
    unfolding c1_def by (cases "df_InputsChanged ?d") (simp_all, rule held_services(1) [OF a], simp add: mgr_other ne)
  obtain e p where p: "UpdateProtocols old new (co_pub c1) = (e, p)" by (cases "UpdateProtocols old new (co_pub c1)")
  have pub: "held_for y (c1\<lparr>co_pub := p\<rparr>) = held_for y c"
    using held_services(3) [OF a UpdateProtocols_other [OF ne p]] c1 by simp
  have dvr: "held_for y (reloadDVR env new b) = held_for y b" for b by (simp add: reloadDVR_def elsewhere [OF a])
  note rest = held_stop [OF a] held_start [OF a] held_reload [OF a] dvr c1 pub p
  show ?thesis unfolding updateLocked_def Let_def same c1_def [symmetric]
    using rest by (cases e) (simp_all split: prod.split)
qed

subsection \<open>What the operations promise\<close>

text \<open>
  C13: An operation on one stream leaves everything held for another as it was: its buffers, its ingest state, its
  transcoder, its publisher, its recording, its mirror entries, its start time and its degradation. Plain codes are
  those without a dollar sign, which the code of a stream cannot have.
\<close>

theorem operations_stay_in_their_stream:
  assumes "plain_code (s_Code s)" "plain_code y" "s_Code s \<noteq> y" and "s_Code old = s_Code s"
  shows "held_for y (snd (startLocked env s c)) = held_for y c \<and> held_for y (stopLocked (s_Code s) c) = held_for y c \<and>
    held_for y (snd (updateLocked env old s c)) = held_for y c"
proof -
  have a: "away (s_Code s) y" using assms by (simp add: away_def)
  show ?thesis using held_start [OF a] held_stop [OF a] held_update [OF a assms(4)] by simp
qed


text \<open>
  A hot reload that turns transcoding on when the binary is missing stops the stream and leaves the buffers of the new
  ladder behind: they are created before the transcoder is started and are entered in the table of renditions after it.
\<close>

lemma reload_without_binary_leaks:
  assumes "runs_pipeline old c" and "s_Code old = s_Code new" "plain_code (s_Code new)"
    and "shouldRunTranscoder new" and "\<not> ce_binary env"
  shows "\<exists>c'. reloadTranscoderFull env old new c = (Some (TranscoderFailed BinaryNotFound), c') \<and>
    \<not> IsRunning (s_Code new) c' \<and> (\<forall>slug \<in> set (rendition_slugs new). has_buf (RenditionBufferID (s_Code new) slug) c')"
  using assms
  by (auto simp: reloadTranscoderFull_def Let_def tc_Start_def reloadFailed_def stopLocked_def stopPipeline_def co_simps
      map_simps slugs_of_def runs_pipeline_def IsRunning_def IsRegistered_def image_iff split: option.split)

subsection \<open>A concrete coordinator\<close>

definition idle_coord :: Coord where
  "idle_coord = \<lparr>co_buf = \<lparr>hub_capacity = 4, hub_buffers = [], hub_heap = [], hub_chans = [], hub_sessionCounter = 0\<rparr>,
     co_mgr = \<lparr>svc_streams = [], svc_packetTimeoutNs = 0\<rparr>, co_tc = \<lparr>ts_workers = [], ts_unhealthy = [], ts_events = []\<rparr>,
     co_pub = empty_pub, co_dvr = blob0, co_renditions = [], co_abrCopies = [], co_abrMixers = [], co_degradation = [],
     co_startedAt = [], co_events = []\<rparr>"

definition plain_env :: CoordEnv where
  "plain_env = \<lparr>ce_lookup = (\<lambda>_. None), ce_start = (\<lambda>_ _. None), ce_now = 1, ce_binary = True, ce_listing = (\<lambda>_. []),
     ce_assets = None, ce_range = (\<lambda>m. m)\<rparr>"

definition camera :: Stream where
  "camera = (empty_stream ''a'')\<lparr>s_Inputs := [mk_input ''rtmp://host/live'' 0]\<rparr>"

lemma camera_simps [simp]: "s_Code camera = ''a''" "s_Disabled camera = False" "s_Template camera = None" "s_Inputs camera \<noteq> []"
  by (simp_all add: camera_def empty_stream_def)

lemma idle_nothing [simp]: "nothing_held code idle_coord"
  by (simp add: nothing_held_def has_buf_def idle_coord_def empty_pub_def blob0_def)

lemma letters_plain: "plain_code ''a''" "plain_code ''b''"
  by code_simp+

theorem operations_stay_in_their_stream_witness:
  "held_for ''b'' (snd (startLocked plain_env camera idle_coord)) = held_for ''b'' idle_coord"
  using operations_stay_in_their_stream [where s = camera and y = "''b''" and old = camera and env = plain_env and c = idle_coord] letters_plain
  by simp


end
