(* ===== verification/Stream_Api.thy ===== *)
theory Stream_Api
  imports Pipelines
begin

text \<open>
  The administration of streams and templates over HTTP: the validation of a watermark
  (\<^verbatim>\<open>internal/domain/watermark.go\<close>), the stream handler (\<^verbatim>\<open>internal/api/handler/stream.go\<close>), the template handler
  (\<^verbatim>\<open>internal/api/handler/template.go\<close>) and the auto-publisher's calls of the coordinator, over the store, the
  auto-publisher and the coordinator. A request body is what decoding it onto a given record yields; an answer is an
  error or an HTTP status. The router has validated the code of a stream's route.
\<close>

declare map_of_eq_Some_iff [simp del] Some_eq_map_of_iff [simp del]

subsection \<open>Watermarks\<close>

datatype WmError = WmTextRequired | WmFontFile | WmFontColor | WmFilenameRequired | WmFilename WatermarkError | WmUnknownType
  | WmOpacity | WmFontSize | WmCustomEmpty | WmUnknownPosition

definition hex_digit :: "char \<Rightarrow> bool" where
  "hex_digit c \<longleftrightarrow> is_digit c \<or> c \<in> set ''abcdefABCDEF''"

definition ascii_letter :: "char \<Rightarrow> bool" where
  "ascii_letter c \<longleftrightarrow> c \<in> set ''abcdefghijklmnopqrstuvwxyzABCDEFGHIJKLMNOPQRSTUVWXYZ''"

text \<open>The pattern of a colour: the part before the first \<^verbatim>\<open>@\<close> and what follows it.\<close>

definition colour_part :: "string \<Rightarrow> bool" where
  "colour_part c \<longleftrightarrow>
     c \<noteq> [] \<and> list_all ascii_letter c \<or>
     prefix ''#'' c \<and> (length c = 7 \<or> length c = 9) \<and> list_all hex_digit (drop 1 c) \<or>
     prefix ''0x'' c \<and> (length c = 8 \<or> length c = 10) \<and> list_all hex_digit (drop 2 c)"

definition opacity_part :: "string \<Rightarrow> bool" where
  "opacity_part p \<longleftrightarrow>
     p = ''0'' \<or> p = ''1'' \<or> prefix ''0.'' p \<and> drop 2 p \<noteq> [] \<and> list_all is_digit (drop 2 p) \<or>
     prefix ''1.'' p \<and> drop 2 p \<noteq> [] \<and> list_all (\<lambda>c. c = CHR ''0'') (drop 2 p) \<or>
     prefix ''.'' p \<and> drop 1 p \<noteq> [] \<and> list_all is_digit (drop 1 p)"

definition fontColorPattern :: "string \<Rightarrow> bool" where
  "fontColorPattern s =
     (case cut_first (CHR ''@'') s of None \<Rightarrow> colour_part s | Some (c, p) \<Rightarrow> colour_part c \<and> opacity_part p)"

definition ValidateFontColor :: "string \<Rightarrow> bool" where
  "ValidateFontColor s0 = (let s = TrimSpace s0 in if s = [] then True else fontColorPattern s)"

text \<open>\<open>stat\<close> is the answer of the file system: nothing, or whether the path is a directory.\<close>

definition assertReadableFile :: "(string \<Rightarrow> bool option) \<Rightarrow> string \<Rightarrow> bool" where
  "assertReadableFile stat p \<longleftrightarrow> prefix ''/'' p \<and> stat p = Some False"

definition wm_IsActive :: "WatermarkConfig option \<Rightarrow> bool" where
  "wm_IsActive wo =
     (case wo of
        None \<Rightarrow> False
      | Some w \<Rightarrow>
          if \<not> wm_Enabled w then False
          else if wm_Opacity w \<noteq> 0 \<and> wm_Opacity w < 1 / 100 then False
          else if wm_Type w = ''text'' then TrimSpace (wm_Text w) \<noteq> []
          else if wm_Type w = ''image'' then TrimSpace (wm_Filename w) \<noteq> [] \<or> TrimSpace (wm_ImagePath w) \<noteq> []
          else False)"

definition wm_type_error :: "(string \<Rightarrow> bool option) \<Rightarrow> WatermarkConfig \<Rightarrow> WmError option" where
  "wm_type_error stat w =
     (if wm_Type w = ''text'' then
        if TrimSpace (wm_Text w) = [] then Some WmTextRequired
        else if wm_FontFile w \<noteq> [] \<and> \<not> assertReadableFile stat (wm_FontFile w) then Some WmFontFile
        else if \<not> ValidateFontColor (wm_FontColor w) then Some WmFontColor
        else None
      else if wm_Type w = ''image'' then
        if TrimSpace (wm_Filename w) = [] then Some WmFilenameRequired
        else map_option WmFilename (ValidateWatermarkFilename (wm_Filename w))
      else Some WmUnknownType)"

definition wm_Validate :: "(string \<Rightarrow> bool option) \<Rightarrow> WatermarkConfig option \<Rightarrow> WmError option" where
  "wm_Validate stat wo =
     (case wo of
        None \<Rightarrow> None
      | Some w \<Rightarrow>
          if \<not> wm_Enabled w then None
          else case wm_type_error stat w of
            Some e \<Rightarrow> Some e
          | None \<Rightarrow>
              if wm_Opacity w < 0 \<or> 1 < wm_Opacity w then Some WmOpacity
              else if wm_FontSize w < 0 then Some WmFontSize
              else if wm_Position w \<in> set [[], ''top_left'', ''top_right'', ''bottom_left'', ''bottom_right'', ''center''] then None
              else if wm_Position w = ''custom'' then
                if TrimSpace (wm_X w) = [] \<and> TrimSpace (wm_Y w) = [] then Some WmCustomEmpty else None
              else Some WmUnknownPosition)"

definition wm_Resolved :: "WatermarkConfig option \<Rightarrow> WatermarkConfig option" where
  "wm_Resolved wo =
     map_option (\<lambda>w.
       let pos = (if wm_Position w = [] then ''bottom_right'' else wm_Position w) in
       w\<lparr>wm_FontSize := (if wm_FontSize w = 0 then 24 else wm_FontSize w),
         wm_FontColor := (if TrimSpace (wm_FontColor w) = [] then ''white'' else wm_FontColor w),
         wm_Opacity := (if wm_Opacity w = 0 then 1 else wm_Opacity w),
         wm_Position := pos,
         wm_OffsetX := (if wm_OffsetX w = 0 \<and> pos \<noteq> ''center'' then 10 else wm_OffsetX w),
         wm_OffsetY := (if wm_OffsetY w = 0 \<and> pos \<noteq> ''center'' then 10 else wm_OffsetY w)\<rparr>) wo"

subsection \<open>State\<close>

record ApiState =
  sa_streams :: "(StreamCode \<times> Stream) list" \<comment> \<open>the stream repository\<close>
  sa_templates :: "(TemplateCode \<times> Template) list" \<comment> \<open>the template repository\<close>
  sa_auto :: AutoPublish
  sa_co :: Coord
  sa_events :: "(string \<times> string) list"

datatype ApiError = NotFoundInStore | StoreFails | RuntimeStreamNotEditable TemplateCode | InvalidBody
  | InvalidStreamCode CodeError | InvalidPut PutError | InvalidWatermark WmError | ListFailed | TemplateNotFound TemplateCode
  | SaveFailed | UpdateFailed CoordError | StartError CoordError | DeleteFailed | IsDisabled | SwitchFailed MgrError
  | InvalidTemplateCode | InvalidPrefixes PrefixError | PrefixOverlap TemplateCode string string | ReloadFailed
  | TemplateInUse "StreamCode list"

text \<open>A call of the store that fails, if there is one.\<close>

datatype StoreFault = NoFault | FindFault | ListFault | TemplateListFault | WriteFault

definition resolved :: "ApiState \<Rightarrow> Stream \<Rightarrow> Stream" where
  "resolved st s = resolve_stream (gget (sa_templates st)) s"

text \<open>The coordinator looks an upstream up in the store and resolves it.\<close>

definition env_in :: "CoordEnv \<Rightarrow> ApiState \<Rightarrow> CoordEnv" where
  "env_in e st = e\<lparr>ce_lookup := \<lambda>code. map_option (resolved st) (gget (sa_streams st) code)\<rparr>"

definition sa_publish :: "string \<Rightarrow> string \<Rightarrow> ApiState \<Rightarrow> ApiState" where
  "sa_publish ty code st = st\<lparr>sa_events := sa_events st @ [(ty, code)]\<rparr>"

subsection \<open>The stream handler\<close>

text \<open>\<open>decode\<close> is the body: what decoding it onto a copy of the stored record (or a zero record) yields.\<close>

definition decodeStreamBody ::
  "(string \<Rightarrow> bool option) \<Rightarrow> (Stream option \<Rightarrow> Stream option) \<Rightarrow> StreamCode \<Rightarrow> Stream option \<Rightarrow> ApiError + Stream" where
  "decodeStreamBody stat decode code cur =
     (case decode cur of
        None \<Rightarrow> Inl InvalidBody
      | Some b \<Rightarrow>
          let base = b\<lparr>s_Code := code\<rparr> in
          case ValidateStreamCode (s_Code base) of
            Some e \<Rightarrow> Inl (InvalidStreamCode e)
          | None \<Rightarrow> (case ValidateInputPriorities 0 (s_Inputs base) of
              Some e \<Rightarrow> Inl (InvalidPut e)
            | None \<Rightarrow> (case ValidateUniqueInputs 0 [] (s_Inputs base) of
                Some e \<Rightarrow> Inl (InvalidPut e)
              | None \<Rightarrow> (case wm_Validate stat (s_Watermark base) of
                  Some e \<Rightarrow> Inl (InvalidWatermark e)
                | None \<Rightarrow> Inr base))))"

definition put_checks :: "StoreFault \<Rightarrow> Stream \<Rightarrow> ApiState \<Rightarrow> ApiError option" where
  "put_checks fault body st =
     (if fault = ListFault then Some ListFailed
      else let proposed = resolved st body; existing = map (resolved st \<circ> snd) (sa_streams st) in
        case validateCopyConfigOn proposed existing of
          Some e \<Rightarrow> Some (InvalidPut e)
        | None \<Rightarrow> (case validateMixerConfigOn proposed existing of
            Some e \<Rightarrow> Some (InvalidPut e)
          | None \<Rightarrow> (case s_Template body of
              None \<Rightarrow> None
            | Some tc \<Rightarrow> if gget (sa_templates st) tc = None then Some (TemplateNotFound tc) else None)))"

text \<open>What follows the save: the running stream is updated, a newly enabled or created one is started.\<close>

definition put_apply :: "CoordEnv \<Rightarrow> Stream option \<Rightarrow> Stream \<Rightarrow> ApiState \<Rightarrow> (ApiError + nat) \<times> ApiState" where
  "put_apply e cur body st =
     (let code = s_Code body; env = env_in e st; new = resolved st body;
          wasRunning = (cur \<noteq> None \<and> IsRunning code (sa_co st));
          nowEnabled = (case cur of None \<Rightarrow> False | Some c \<Rightarrow> s_Disabled c \<and> \<not> s_Disabled body);
          freshlyCreated = (cur = None \<and> \<not> s_Disabled body \<and> 0 < length (s_Inputs new));
          (err, co) =
            (if wasRunning then
               (case updateLocked env (resolved st (the cur)) new (sa_co st) of (er, co) \<Rightarrow> (map_option UpdateFailed er, co))
             else if nowEnabled \<or> freshlyCreated then
               (case startLocked env new (sa_co st) of (er, co) \<Rightarrow> (map_option StartError er, co))
             else (None, sa_co st));
          st2 = st\<lparr>sa_co := co\<rparr>
      in case err of
           Some er \<Rightarrow> (Inl er, st2)
         | None \<Rightarrow> if cur = None then (Inr 201, sa_publish ''stream.created'' code st2)
                   else (Inr 200, sa_publish ''stream.updated'' code st2))"

definition stream_Put ::
  "StoreFault \<Rightarrow> (string \<Rightarrow> bool option) \<Rightarrow> (Stream option \<Rightarrow> Stream option) \<Rightarrow> CoordEnv \<Rightarrow> StreamCode \<Rightarrow> ApiState \<Rightarrow>
   (ApiError + nat) \<times> ApiState" where
  "stream_Put fault stat decode e code st =
     (if fault = FindFault then (Inl StoreFails, st)
      else
        let cur = gget (sa_streams st) code in
        case (cur, gget (ap_entries (sa_auto st)) code) of
          (None, Some entry) \<Rightarrow> (Inl (RuntimeStreamNotEditable (re_template entry)), st)
        | _ \<Rightarrow>
            (case decodeStreamBody stat decode code cur of
               Inl er \<Rightarrow> (Inl er, st)
             | Inr body \<Rightarrow>
                 (case put_checks fault body st of
                    Some er \<Rightarrow> (Inl er, st)
                  | None \<Rightarrow>
                      if fault = WriteFault then (Inl SaveFailed, st)
                      else put_apply e cur body (st\<lparr>sa_streams := gput (s_Code body) body (sa_streams st)\<rparr>))))"

text \<open>The auto-publisher tears a runtime stream down: its entry goes, the coordinator stops the pipeline.\<close>

definition runtime_stop :: "StreamCode \<Rightarrow> ApiState \<Rightarrow> bool \<times> ApiState" where
  "runtime_stop code st =
     (case StopRuntime code (sa_auto st) of
        (False, _) \<Rightarrow> (False, st)
      | (True, ap) \<Rightarrow> (True, st\<lparr>sa_auto := ap, sa_co := stopLocked code (sa_co st)\<rparr>))"

definition stream_Delete :: "StoreFault \<Rightarrow> StreamCode \<Rightarrow> ApiState \<Rightarrow> (ApiError + nat) \<times> ApiState" where
  "stream_Delete fault code st =
     (case runtime_stop code st of
        (True, st1) \<Rightarrow> (Inr 204, sa_publish ''stream.deleted'' code st1)
      | (False, _) \<Rightarrow>
          let st1 = st\<lparr>sa_co := stopLocked code (sa_co st)\<rparr> in
          if fault = WriteFault then (Inl DeleteFailed, st1)
          else (Inr 204, sa_publish ''stream.deleted'' code (st1\<lparr>sa_streams := gdel code (sa_streams st1)\<rparr>)))"

definition stream_Restart :: "StoreFault \<Rightarrow> CoordEnv \<Rightarrow> StreamCode \<Rightarrow> ApiState \<Rightarrow> (ApiError + nat) \<times> ApiState" where
  "stream_Restart fault e code st =
     (case (if fault = FindFault then None else gget (sa_streams st) code) of
        None \<Rightarrow>
          (case runtime_stop code st of
             (True, st1) \<Rightarrow> (Inr 200, st1)
           | (False, _) \<Rightarrow> (Inl (if fault = FindFault then StoreFails else NotFoundInStore), st))
      | Some s \<Rightarrow>
          if s_Disabled s then (Inl IsDisabled, st)
          else (case startLocked (env_in e st) (resolved st s) (stopLocked code (sa_co st)) of
                  (Some er, co) \<Rightarrow> (Inl (StartError er), st\<lparr>sa_co := co\<rparr>)
                | (None, co) \<Rightarrow> (Inr 200, st\<lparr>sa_co := co\<rparr>)))"

definition stream_SwitchInput :: "CoordEnv \<Rightarrow> int option \<Rightarrow> StreamCode \<Rightarrow> ApiState \<Rightarrow> (ApiError + nat) \<times> ApiState" where
  "stream_SwitchInput e body code st =
     (case body of
        None \<Rightarrow> (Inl InvalidBody, st)
      | Some p \<Rightarrow>
          (case SwitchInput (ce_start e) (ce_now e) code p (co_mgr (sa_co st)) of
             (err, m, ef) \<Rightarrow>
               let st1 = st\<lparr>sa_co := on_mgr code (\<lambda>_. (m, ef)) (sa_co st)\<rparr> in
               (case err of Some er \<Rightarrow> (Inl (SwitchFailed er), st1) | None \<Rightarrow> (Inr 200, st1))))"

subsection \<open>The template handler\<close>

definition MaxTemplateCodeLen :: nat where "MaxTemplateCodeLen = 128"

definition ValidateTemplateCode :: "string \<Rightarrow> bool" where
  "ValidateTemplateCode s0 \<longleftrightarrow>
     (let s = TrimSpace s0 in s \<noteq> [] \<and> length s \<le> MaxTemplateCodeLen \<and> list_all code_char s)"

definition findConflictingPrefix :: "TemplateCode \<Rightarrow> string list \<Rightarrow> Template list \<Rightarrow> (TemplateCode \<times> string \<times> string) option" where
  "findConflictingPrefix self pres all =
     (if length pres = 0 then None
      else find (\<lambda>(c, ours, theirs). c \<noteq> self \<and> PrefixesOverlap ours theirs)
        (concat (map (\<lambda>t. concat (map (\<lambda>ours. map (\<lambda>theirs. (t_Code t, ours, theirs)) (t_Prefixes t)) pres)) all)))"

text \<open>One turn of \<^verbatim>\<open>reloadStreams\<close>; the flag says whether an update failed.\<close>

definition reload_one :: "CoordEnv \<Rightarrow> Template option \<Rightarrow> Template \<Rightarrow> Stream \<Rightarrow> bool \<times> Coord \<Rightarrow> bool \<times> Coord" where
  "reload_one env prior next s acc =
     (case acc of (failed, co) \<Rightarrow>
        if s_Template s \<noteq> Some (t_Code next) then (failed, co)
        else if \<not> IsRunning (s_Code s) co then (failed, co)
        else case updateLocked env (the (ResolveStream (Some s) prior)) (the (ResolveStream (Some s) (Some next))) co of
          (er, co') \<Rightarrow> (failed \<or> er \<noteq> None, co'))"

definition reloadStreams :: "CoordEnv \<Rightarrow> Template option \<Rightarrow> Template \<Rightarrow> Stream list \<Rightarrow> Coord \<Rightarrow> bool \<times> Coord" where
  "reloadStreams env prior next streams co = fold (reload_one env prior next) streams (False, co)"

definition refreshAutoPublish :: "StoreFault \<Rightarrow> ApiState \<Rightarrow> ApiState" where
  "refreshAutoPublish fault st =
     st\<lparr>sa_auto := RefreshTemplates (if fault = TemplateListFault then None else Some (map (Some \<circ> snd) (sa_templates st))) (sa_auto st)\<rparr>"

definition template_Put ::
  "StoreFault \<Rightarrow> CoordEnv \<Rightarrow> TemplateCode \<Rightarrow> Template option \<Rightarrow> ApiState \<Rightarrow> (ApiError + nat) \<times> ApiState" where
  "template_Put fault e code body0 st =
     (if \<not> ValidateTemplateCode code then (Inl InvalidTemplateCode, st)
      else case body0 of
        None \<Rightarrow> (Inl InvalidBody, st)
      | Some b \<Rightarrow>
          let body = b\<lparr>t_Code := code\<rparr> in
          case ValidatePrefixes (t_Prefixes body) of
            Some er \<Rightarrow> (Inl (InvalidPrefixes er), st)
          | None \<Rightarrow>
              if 0 < length (t_Prefixes body) \<and> fault = TemplateListFault then (Inl ListFailed, st)
              else (case findConflictingPrefix code (t_Prefixes body) (map snd (sa_templates st)) of
                 Some (other, ours, theirs) \<Rightarrow> (Inl (PrefixOverlap other ours theirs), st)
               | None \<Rightarrow>
                   if fault = WriteFault then (Inl SaveFailed, st)
                   else
                     let prior = (if fault = FindFault then None else gget (sa_templates st) code);
                         st1 = st\<lparr>sa_templates := gput code body (sa_templates st)\<rparr> in
                     if fault = ListFault then (Inl ReloadFailed, st1)
                     else case reloadStreams (env_in e st1) prior body (map snd (sa_streams st1)) (sa_co st1) of
                       (True, co) \<Rightarrow> (Inl ReloadFailed, st1\<lparr>sa_co := co\<rparr>)
                     | (False, co) \<Rightarrow>
                         (Inr (if prior = None then 201 else 200),
                          sa_publish (if prior = None then ''template.created'' else ''template.updated'') code
                            (refreshAutoPublish fault (st1\<lparr>sa_co := co\<rparr>)))))"

definition template_Delete :: "StoreFault \<Rightarrow> TemplateCode \<Rightarrow> ApiState \<Rightarrow> (ApiError + nat) \<times> ApiState" where
  "template_Delete fault code st =
     (if \<not> ValidateTemplateCode code then (Inl InvalidTemplateCode, st)
      else if fault = FindFault then (Inl StoreFails, st)
      else if gget (sa_templates st) code = None then (Inl NotFoundInStore, st)
      else if fault = ListFault then (Inl ListFailed, st)
      else
        let refs = filter (\<lambda>s. s_Template s = Some code) (map snd (sa_streams st)) in
        if 0 < length refs then (Inl (TemplateInUse (map s_Code refs)), st)
        else if fault = WriteFault then (Inl DeleteFailed, st)
        else (Inr 204, sa_publish ''template.deleted'' code
                (refreshAutoPublish fault (st\<lparr>sa_templates := gdel code (sa_templates st)\<rparr>))))"

subsection \<open>Pushes that match a template\<close>

text \<open>\<^verbatim>\<open>ResolveOrCreate\<close> with the coordinator: the stream it starts is the one it resolves for the matched template.\<close>

definition runtime_stream :: "TemplateCode \<Rightarrow> Template \<Rightarrow> StreamCode \<Rightarrow> Stream" where
  "runtime_stream tc tpl code = the (ResolveStream (Some ((empty_stream code)\<lparr>s_Template := Some tc\<rparr>)) (Some tpl))"

definition auto_push :: "CoordEnv \<Rightarrow> gotime \<Rightarrow> string \<Rightarrow> string \<Rightarrow> ApiState \<Rightarrow> (PushError + StreamCode) \<times> ApiState" where
  "auto_push e now path secret st =
     (let startOk = (\<lambda>s. fst (startLocked (env_in e st) s (sa_co st)) = None);
          (r, ap) = ResolveOrCreate (gget (sa_templates st)) startOk now path secret (sa_auto st);
          code = canonPath path;
          started = (case r of
              Inr _ \<Rightarrow> gget (ap_entries (sa_auto st)) code = None
            | Inl er \<Rightarrow> er = StartFailed code);
          co = (if started then
                  (case match_path (ap_matcher (sa_auto st)) code of
                     None \<Rightarrow> sa_co st
                   | Some tc \<Rightarrow>
                       (case gget (sa_templates st) tc of
                          None \<Rightarrow> sa_co st
                        | Some tpl \<Rightarrow> snd (startLocked (env_in e st) (runtime_stream tc tpl code) (sa_co st))))
                else sa_co st)
      in (r, st\<lparr>sa_auto := ap, sa_co := co\<rparr>))"

end
