(* ===== verification/Stream_Fleet.thy ===== *)
theory Stream_Fleet
  imports Stream_Api
begin

text \<open>
  The whole administration as a machine: requests on streams and templates, matched pushes and their expiry, and the
  passes of the reconciler, in any order. In every state it reaches a stored stream is stopped with nothing held for it,
  runs the pipeline of its resolved configuration or mirrors a ladder, and a pass of the reconciler starts what is stopped.
  An operation is one step; what the inputs and the subprocess report in between is in the theories of those components
  and changes neither buffers nor entries.
\<close>

declare map_of_eq_Some_iff [simp del] Some_eq_map_of_iff [simp del]

subsection \<open>What is held decides the state\<close>

definition settled :: "Stream \<Rightarrow> Coord \<Rightarrow> bool" where
  "settled s c \<longleftrightarrow> nothing_held (s_Code s) c \<or> runs_pipeline s c \<or> mirrors (s_Code s) c"

lemma held_decides:
  assumes "held_for y c' = held_for y c"
  shows "nothing_held y c' = nothing_held y c" "s_Code s = y \<Longrightarrow> runs_pipeline s c' = runs_pipeline s c"
    "mirrors y c' = mirrors y c" "IsRunning y c' = IsRunning y c"
proof -
  have bufs: "x \<in> owned y \<Longrightarrow> has_buf x c' = has_buf x c" for x
    using assms by (auto simp: held_for_def dest: fun_cong [where x = x])
  have f: "gget (svc_streams (co_mgr c')) y = gget (svc_streams (co_mgr c)) y"
    "gget (ts_workers (co_tc c')) y = gget (ts_workers (co_tc c)) y" "gget (pb_streams (co_pub c')) y = gget (pb_streams (co_pub c)) y"
    "gget (bs_active (co_dvr c')) y = gget (bs_active (co_dvr c)) y" "gget (co_renditions c') y = gget (co_renditions c) y"
    "gget (co_abrCopies c') y = gget (co_abrCopies c) y" "gget (co_abrMixers c') y = gget (co_abrMixers c) y"
    "gget (co_startedAt c') y = gget (co_startedAt c) y"
    using assms by (simp_all add: held_for_def)
  show "nothing_held y c' = nothing_held y c" by (simp add: nothing_held_def f bufs)
  show "s_Code s = y \<Longrightarrow> runs_pipeline s c' = runs_pipeline s c"
    by (simp add: runs_pipeline_def f bufs ingests_into_def)
  show "mirrors y c' = mirrors y c" by (simp add: mirrors_def f bufs)
  show "IsRunning y c' = IsRunning y c" by (simp add: IsRunning_def IsRegistered_def f)
qed

lemma settled_held: "held_for (s_Code s) c' = held_for (s_Code s) c \<Longrightarrow> settled s c' = settled s c"
  using held_decides [of "s_Code s" c' c] by (simp add: settled_def)

lemma settled_start:
  assumes "settled s c" and "s_Code s' = s_Code s" "plain_code (s_Code s)" "s_Code s \<noteq> []" and "\<not> IsRunning (s_Code s) c"
  shows "settled s' (snd (startLocked env s' c))"
proof -
  have "nothing_held (s_Code s') c" using assms IsRunning_states by (auto simp: settled_def)
  then have "ends_well s' (startLocked env s' c)" by (rule startLocked_states) (simp_all add: assms)
  then show ?thesis
    by (cases "startLocked env s' c"; cases "fst (startLocked env s' c)") (auto simp: ends_well_def settled_def)
qed

lemma settled_stop: "settled s c \<Longrightarrow> plain_code (s_Code s) \<Longrightarrow> nothing_held (s_Code s) (stopLocked (s_Code s) c)"
  by (rule stopLocked_states) (auto simp: settled_def)

lemma settled_update:
  assumes "settled old c" and "IsRunning (s_Code old) c" and "s_Code old = s_Code new" "plain_code (s_Code new)" "s_Code new \<noteq> []"
    and "ce_binary env"
  shows "settled new (snd (updateLocked env old new c))"
proof -
  have "runs_pipeline old c \<or> mirrors (s_Code old) c" using assms(1,2) IsRunning_states(1) by (auto simp: settled_def)
  from updateLocked_states [OF this assms(3-6)] show ?thesis
    by (auto simp: settled_def split: prod.splits option.splits)
qed

lemma resolve_code [simp]: "s_Code (resolve_stream t s) = s_Code s" "s_Disabled (resolve_stream t s) = s_Disabled s"
  by (auto simp: resolve_stream_def ResolveStream_def split: option.split)

lemma resolved_code [simp]: "s_Code (resolved st s) = s_Code s" "s_Disabled (resolved st s) = s_Disabled s"
  by (simp_all add: resolved_def)

lemma code_is_plain: "ValidateStreamCode code = None \<Longrightarrow> plain_code code \<and> code \<noteq> []"
proof -
  assume v: "ValidateStreamCode code = None"
  obtain p q where s: "code = p @ TrimSpace code @ q" "list_all is_space p" "list_all is_space q"
    using TrimSpace_split [of code] by blast
  have chars: "list_all (\<lambda>c. code_char c \<or> c = CHR ''/'') (TrimSpace code)" and ne: "TrimSpace code \<noteq> []"
    using v by (auto simp: ValidateStreamCode_def Let_def split: if_splits)
  have "set code = set p \<union> set (TrimSpace code) \<union> set q" using arg_cong [OF s(1), of set] by auto
  then have "c \<in> set code \<Longrightarrow> is_space c \<or> code_char c \<or> c = CHR ''/''" for c
    using s(2,3) chars unfolding list_all_iff by blast
  moreover have "\<not> is_space (CHR ''$'')" "\<not> code_char (CHR ''$'')" "CHR ''$'' \<noteq> CHR ''/''" by code_simp+
  ultimately have "plain_code code" by (auto simp: plain_code_def)
  with ne show ?thesis by (auto simp: TrimSpace_def)
qed

subsection \<open>The machine\<close>

datatype ApiOp = OpPut StoreFault "string \<Rightarrow> bool option" "Stream option \<Rightarrow> Stream option" CoordEnv StreamCode
  | OpDelete StoreFault StreamCode | OpRestart StoreFault CoordEnv StreamCode | OpSwitch CoordEnv "int option" StreamCode
  | OpTemplatePut StoreFault CoordEnv TemplateCode "Template option" | OpTemplateDelete StoreFault TemplateCode
  | OpPush CoordEnv gotime string string | OpExpire StreamCode | OpReconcile CoordEnv

definition reconcile_pass :: "CoordEnv \<Rightarrow> ApiState \<Rightarrow> ApiState" where
  "reconcile_pass e st =
     st\<lparr>sa_co := reconcileOnce (gget (sa_templates st)) (env_in e st) (map snd (sa_streams st)) (sa_co st)\<rparr>"

fun api_step :: "ApiOp \<Rightarrow> ApiState \<Rightarrow> ApiState" where
  "api_step (OpPut fault stat decode e code) st = snd (stream_Put fault stat decode e code st)"
| "api_step (OpDelete fault code) st = snd (stream_Delete fault code st)"
| "api_step (OpRestart fault e code) st = snd (stream_Restart fault e code st)"
| "api_step (OpSwitch e body code) st = snd (stream_SwitchInput e body code st)"
| "api_step (OpTemplatePut fault e code body) st = snd (template_Put fault e code body st)"
| "api_step (OpTemplateDelete fault code) st = snd (template_Delete fault code st)"
| "api_step (OpPush e now path secret) st = snd (auto_push e now path secret st)"
| "api_step (OpExpire code) st = snd (runtime_stop code st)"
| "api_step (OpReconcile e) st = reconcile_pass e st"

text \<open>
  What the theorems assume of an operation: the router has validated its code, the transcoder's binary is found, the
  store does not fail between the save of a template and the reload of its streams, and no encoder pushes to the code of
  a stored stream through a template.
\<close>

fun op_ok :: "ApiOp \<Rightarrow> ApiState \<Rightarrow> bool" where
  "op_ok (OpPut fault stat decode e code) st \<longleftrightarrow> ValidateStreamCode code = None \<and> ce_binary e"
| "op_ok (OpDelete fault code) st \<longleftrightarrow> ValidateStreamCode code = None"
| "op_ok (OpRestart fault e code) st \<longleftrightarrow> ValidateStreamCode code = None"
| "op_ok (OpSwitch e body code) st \<longleftrightarrow> ValidateStreamCode code = None"
| "op_ok (OpTemplatePut fault e code body) st \<longleftrightarrow> ce_binary e \<and> fault \<noteq> FindFault \<and> fault \<noteq> ListFault"
| "op_ok (OpPush e now path secret) st \<longleftrightarrow> gget (sa_streams st) (canonPath path) = None"
| "op_ok (OpExpire code) st \<longleftrightarrow> ValidateStreamCode code = None"
| "op_ok _ st \<longleftrightarrow> True"

inductive reachable :: "ApiState \<Rightarrow> ApiState \<Rightarrow> bool" for st0 where
  start: "reachable st0 st0"
| step: "reachable st0 st \<Longrightarrow> op_ok op st \<Longrightarrow> reachable st0 (api_step op st)"

text \<open>The state the server comes up in: a store with each stream under its own valid code, nothing held, no runtime stream.\<close>

definition booted :: "ApiState \<Rightarrow> bool" where
  "booted st \<longleftrightarrow> gwf (sa_streams st) \<and> (\<forall>(k, s) \<in> set (sa_streams st). s_Code s = k \<and> ValidateStreamCode k = None) \<and>
     ap_entries (sa_auto st) = [] \<and> hub_buffers (co_buf (sa_co st)) = [] \<and> svc_streams (co_mgr (sa_co st)) = [] \<and>
     ts_workers (co_tc (sa_co st)) = [] \<and> pb_streams (co_pub (sa_co st)) = [] \<and> bs_active (co_dvr (sa_co st)) = [] \<and>
     co_renditions (sa_co st) = [] \<and> co_abrCopies (sa_co st) = [] \<and> co_abrMixers (sa_co st) = [] \<and> co_startedAt (sa_co st) = []"

subsection \<open>The invariant\<close>

definition stored_ok :: "ApiState \<Rightarrow> bool" where
  "stored_ok st \<longleftrightarrow> gwf (sa_streams st) \<and>
     (\<forall>k s. gget (sa_streams st) k = Some s \<longrightarrow> s_Code s = k \<and> ValidateStreamCode k = None)"

definition stream_ok :: "ApiState \<Rightarrow> StreamCode \<Rightarrow> bool" where
  "stream_ok st code \<longleftrightarrow>
     (case gget (sa_streams st) code of
        Some s \<Rightarrow> settled (resolved st s) (sa_co st)
      | None \<Rightarrow> if gget (ap_entries (sa_auto st)) code = None then nothing_held code (sa_co st)
                else \<exists>s. s_Code s = code \<and> settled s (sa_co st))"

definition api_ok :: "ApiState \<Rightarrow> bool" where
  "api_ok st \<longleftrightarrow> stored_ok st \<and> (\<forall>code. plain_code code \<and> code \<noteq> [] \<longrightarrow> stream_ok st code)"

lemma stored: "stored_ok st \<Longrightarrow> gget (sa_streams st) k = Some s \<Longrightarrow> s_Code s = k \<and> plain_code k \<and> k \<noteq> []"
  using code_is_plain by (simp add: stored_ok_def)

lemma stored_mem: "stored_ok st \<Longrightarrow> s \<in> set (map snd (sa_streams st)) \<longleftrightarrow> gget (sa_streams st) (s_Code s) = Some s"
proof -
  assume ok: "stored_ok st"
  have mem: "(k, s) \<in> set (sa_streams st) \<longleftrightarrow> gget (sa_streams st) k = Some s" for k
    using ok by (intro gwf_mem_gget) (simp add: stored_ok_def)
  have "s \<in> set (map snd (sa_streams st)) \<longleftrightarrow> (\<exists>k. (k, s) \<in> set (sa_streams st))" by force
  then show ?thesis unfolding mem using ok by (auto simp: stored_ok_def)
qed

lemma ok_somehow: "api_ok st \<Longrightarrow> plain_code code \<Longrightarrow> code \<noteq> [] \<Longrightarrow> \<exists>s. s_Code s = code \<and> settled s (sa_co st)"
proof -
  assume ok: "api_ok st" and c: "plain_code code" "code \<noteq> []"
  have "\<exists>s :: Stream. s_Code s = code" by (rule exI [of _ "empty_stream code"]) (simp add: empty_stream_def)
  then have idle: "nothing_held code c \<Longrightarrow> \<exists>s. s_Code s = code \<and> settled s c" for c by (auto simp: settled_def)
  have here: "stream_ok st code" and wf: "stored_ok st" using ok c by (simp_all add: api_ok_def)
  show ?thesis
  proof (cases "gget (sa_streams st) code")
    case (Some s)
    then have "s_Code (resolved st s) = code" using stored [OF wf] by simp
    moreover have "settled (resolved st s) (sa_co st)" using here Some by (simp add: stream_ok_def)
    ultimately show ?thesis by blast
  qed (use here idle in \<open>auto simp: stream_ok_def split: if_splits\<close>)
qed

lemma same_ok:
  assumes "sa_streams st' = sa_streams st" "sa_templates st' = sa_templates st" "sa_co st' = sa_co st"
    and "ap_entries (sa_auto st') = ap_entries (sa_auto st)"
  shows "stream_ok st' code = stream_ok st code" "stored_ok st' = stored_ok st" "api_ok st' = api_ok st"
proof -
  have r: "resolved st' = resolved st" by (simp add: resolved_def fun_eq_iff assms)
  show s: "stream_ok st' code = stream_ok st code" for code
    unfolding stream_ok_def r assms ..
  show w: "stored_ok st' = stored_ok st" by (simp add: stored_ok_def assms)
  show "api_ok st' = api_ok st" by (simp add: api_ok_def s w)
qed

lemma publish_ok [simp]: "api_ok (sa_publish ty code st) = api_ok st"
  by (rule same_ok) (simp_all add: sa_publish_def)

text \<open>An operation on one stream keeps the invariant if it keeps it for that stream.\<close>

lemma ok_at:
  assumes ok: "api_ok st" and code: "plain_code code" and tpl: "sa_templates st' = sa_templates st" and wf: "stored_ok st'"
    and streams: "\<And>y. y \<noteq> code \<Longrightarrow> gget (sa_streams st') y = gget (sa_streams st) y"
    and entries: "\<And>y. y \<noteq> code \<Longrightarrow> gget (ap_entries (sa_auto st')) y = gget (ap_entries (sa_auto st)) y"
    and held: "\<And>y. away code y \<Longrightarrow> held_for y (sa_co st') = held_for y (sa_co st)"
    and here: "code \<noteq> [] \<Longrightarrow> stream_ok st' code"
  shows "api_ok st'"
  unfolding api_ok_def
proof (intro conjI allI impI)
  fix y
  assume y: "plain_code y \<and> y \<noteq> []"
  show "stream_ok st' y"
  proof (cases "y = code")
    case False
    have h: "held_for y (sa_co st') = held_for y (sa_co st)" by (rule held) (use y False code in \<open>simp add: away_def\<close>)
    have s: "gget (sa_streams st) y = Some s \<Longrightarrow> s_Code s = y" for s using ok stored [of st y s] by (simp add: api_ok_def)
    have "stream_ok st y" using ok y by (simp add: api_ok_def)
    moreover have "settled (resolved st s) (sa_co st') = settled (resolved st s) (sa_co st)" if "gget (sa_streams st) y = Some s" for s
      using s [OF that] h by (intro settled_held) simp
    moreover have "s_Code s = y \<Longrightarrow> settled s (sa_co st') = settled s (sa_co st)" for s using h by (intro settled_held) simp
    moreover have "resolved st' = resolved st" by (simp add: resolved_def fun_eq_iff tpl)
    ultimately show ?thesis using streams [OF False] entries [OF False] held_decides(1) [OF h]
      by (cases "gget (sa_streams st) y"; cases "gget (ap_entries (sa_auto st)) y") (auto simp: stream_ok_def)
  qed (use here y in simp)
qed (rule wf)

lemma with_co_ok:
  assumes ok: "api_ok st" and code: "plain_code code" and held: "\<And>y. away code y \<Longrightarrow> held_for y co = held_for y (sa_co st)"
    and here: "code \<noteq> [] \<Longrightarrow> stream_ok (st\<lparr>sa_co := co\<rparr>) code"
  shows "api_ok (st\<lparr>sa_co := co\<rparr>)"
  by (rule ok_at [OF ok code]) (use ok held here in \<open>auto simp: api_ok_def stored_ok_def\<close>)

lemma here_stored: "gget (sa_streams st) code = Some s \<Longrightarrow> stream_ok st code = settled (resolved st s) (sa_co st)"
  by (simp add: stream_ok_def)

lemma here_nothing:
  "stored_ok st \<Longrightarrow> plain_code code \<Longrightarrow> nothing_held code (sa_co st) \<Longrightarrow> stream_ok st code"
proof -
  assume "stored_ok st" "nothing_held code (sa_co st)"
  then show ?thesis using stored [of st code] by (cases "gget (sa_streams st) code") (auto simp: stream_ok_def settled_def empty_stream_def intro: exI [of _ "empty_stream code"])
qed

subsection \<open>Requests on a stream\<close>

lemma runtime_stop_ok:
  assumes ok: "api_ok st" and code: "plain_code code" "code \<noteq> []"
  shows "api_ok (snd (runtime_stop code st))" "sa_streams (snd (runtime_stop code st)) = sa_streams st"
    "api_ok (st\<lparr>sa_co := stopLocked code (sa_co st)\<rparr>)"
proof -
  obtain s where s: "s_Code s = code" "settled s (sa_co st)" using ok_somehow [OF ok code] by blast
  have clear: "nothing_held code (stopLocked code (sa_co st))" using settled_stop [OF s(2)] s(1) code by simp
  have wf: "stored_ok st" using ok by (simp add: api_ok_def)
  show "api_ok (st\<lparr>sa_co := stopLocked code (sa_co st)\<rparr>)"
    by (rule with_co_ok [OF ok code(1)])
      (use clear wf code in \<open>simp_all add: held_stop here_nothing stored_ok_def\<close>)
  show "sa_streams (snd (runtime_stop code st)) = sa_streams st"
    by (simp add: runtime_stop_def StopRuntime_def)
  show "api_ok (snd (runtime_stop code st))"
  proof (cases "gget (ap_entries (sa_auto st)) code")
    case (Some _)
    let ?st = "st\<lparr>sa_auto := stopRuntimeStream code (sa_auto st), sa_co := stopLocked code (sa_co st)\<rparr>"
    have "api_ok ?st"
      by (rule ok_at [OF ok code(1)])
        (use clear wf code in \<open>simp_all add: held_stop here_nothing stored_ok_def stopRuntimeStream_def map_simps split: option.split\<close>)
    then show ?thesis using Some by (simp add: runtime_stop_def StopRuntime_def)
  qed (simp add: runtime_stop_def StopRuntime_def ok)
qed

lemma delete_ok:
  assumes ok: "api_ok st" and v: "ValidateStreamCode code = None"
  shows "api_ok (snd (stream_Delete fault code st))"
proof -
  have code: "plain_code code" "code \<noteq> []" using code_is_plain [OF v] by simp_all
  obtain r st1 where r: "runtime_stop code st = (r, st1)" by (cases "runtime_stop code st")
  let ?st = "st\<lparr>sa_co := stopLocked code (sa_co st)\<rparr>"
  show ?thesis
  proof (cases r)
    case True
    then show ?thesis using r runtime_stop_ok(1) [OF ok code] by (simp add: stream_Delete_def)
  next
    case False
    then have none: "gget (ap_entries (sa_auto st)) code = None" using r by (simp add: runtime_stop_def StopRuntime_def split: if_splits)
    have stop: "api_ok ?st" by (rule runtime_stop_ok(3) [OF ok code])
    have clear: "nothing_held code (sa_co ?st)"
      using ok_somehow [OF ok code] settled_stop code by auto
    have wf: "stored_ok ?st" using stop by (simp add: api_ok_def)
    have "api_ok (?st\<lparr>sa_streams := gdel code (sa_streams st)\<rparr>)"
      by (rule ok_at [OF stop code(1)])
        (use wf clear none in \<open>auto simp: stored_ok_def map_simps stream_ok_def\<close>)
    then show ?thesis using False r stop by (simp add: stream_Delete_def Let_def)
  qed
qed

lemma start_ok:
  assumes ok: "api_ok st" and s: "gget (sa_streams st) code = Some s" and idle: "\<not> IsRunning code (sa_co st)"
  shows "api_ok (st\<lparr>sa_co := snd (startLocked e (resolved st s) (sa_co st))\<rparr>)"
proof -
  have wf: "stored_ok st" using ok by (simp add: api_ok_def)
  have code: "s_Code s = code" "plain_code code" "code \<noteq> []" using stored [OF wf s] by simp_all
  have "settled (resolved st s) (sa_co st)" using ok code here_stored [OF s] by (simp add: api_ok_def)
  then have "settled (resolved st s) (snd (startLocked e (resolved st s) (sa_co st)))"
    by (rule settled_start) (use code idle in simp_all)
  then have "stream_ok (st\<lparr>sa_co := snd (startLocked e (resolved st s) (sa_co st))\<rparr>) code"
    using s by (simp add: stream_ok_def resolved_def)
  then show ?thesis
    using held_start [of "resolved st s"] code by (intro with_co_ok [OF ok code(2)]) simp_all
qed

lemma restart_ok:
  assumes ok: "api_ok st" and v: "ValidateStreamCode code = None"
  shows "api_ok (snd (stream_Restart fault e code st))"
proof -
  have code: "plain_code code" "code \<noteq> []" using code_is_plain [OF v] by simp_all
  obtain r st1 where r: "runtime_stop code st = (r, st1)" by (cases "runtime_stop code st")
  show ?thesis
  proof (cases "if fault = FindFault then None else gget (sa_streams st) code")
    case None
    then show ?thesis using r runtime_stop_ok(1) [OF ok code] ok
      by (cases r) (simp_all add: stream_Restart_def split: if_splits)
  next
    case (Some s)
    let ?st = "st\<lparr>sa_co := stopLocked code (sa_co st)\<rparr>"
    have stop: "api_ok ?st" by (rule runtime_stop_ok(3) [OF ok code])
    have "nothing_held code (stopLocked code (sa_co st))" using ok_somehow [OF ok code] settled_stop code by auto
    then have idle: "\<not> IsRunning code (sa_co ?st)" using IsRunning_states(1) by simp
    have s: "gget (sa_streams ?st) code = Some s" using Some by (simp split: if_splits)
    have go: "api_ok (?st\<lparr>sa_co := snd (startLocked (env_in e st) (resolved ?st s) (sa_co ?st))\<rparr>)"
      by (rule start_ok [OF stop s idle])
    have r: "resolved ?st = resolved st" by (simp add: resolved_def fun_eq_iff)
    obtain er co where st: "startLocked (env_in e st) (resolved st s) (stopLocked code (sa_co st)) = (er, co)" by force
    show ?thesis using Some go ok by (cases er) (simp_all add: stream_Restart_def r st)
  qed
qed

lemma writes_to_switch:
  assumes "switchInput start cnow p st = (Inr st', ef)"
  shows "writes_to st' = writes_to st"
proof -
  obtain st1 where l: "switchInput_locked p st = Inr st1" using assms by (auto simp: switchInput_def split: sum.splits)
  have "writes_to st1 = writes_to st"
    using l by (auto simp: switchInput_locked_def writes_to_def split: if_splits option.splits)
  then show ?thesis using assms l writes_to_failover [of start cnow SwitchReasonManual "Text []" st1]
    by (simp add: switchInput_def split: prod.splits del: writes_to_failover)
qed

lemma switch_ok:
  assumes ok: "api_ok st" and v: "ValidateStreamCode code = None"
  shows "api_ok (snd (stream_SwitchInput e body code st))"
proof (cases body)
  case (Some p)
  have code: "plain_code code" "code \<noteq> []" using code_is_plain [OF v] by simp_all
  let ?m = "co_mgr (sa_co st)"
  obtain err m ef where sw: "SwitchInput (ce_start e) (ce_now e) code p ?m = (err, m, ef)"
    by (cases "SwitchInput (ce_start e) (ce_now e) code p ?m")
  let ?co = "on_mgr code (\<lambda>_. (m, ef)) (sa_co st)"
  have other: "gget (svc_streams m) y = gget (svc_streams ?m) y" if "y \<noteq> code" for y
    using sw that by (auto simp: SwitchInput_def map_simps split: option.splits sum.splits prod.splits)
  have some: "gget (svc_streams m) code = None \<longleftrightarrow> gget (svc_streams ?m) code = None" and ing: "ingests_into code b m = ingests_into code b ?m" for b
    using sw writes_to_switch [of "ce_start e" "ce_now e" p]
    by (auto simp: SwitchInput_def ingests_into_def map_simps split: option.splits sum.splits prod.splits)
  have states: "nothing_held code ?co = nothing_held code (sa_co st)" "mirrors code ?co = mirrors code (sa_co st)"
    by (simp_all add: nothing_held_def mirrors_def co_simps some)
  have runs: "s_Code s = code \<Longrightarrow> runs_pipeline s ?co = runs_pipeline s (sa_co st)" for s
    by (simp add: runs_pipeline_def co_simps ing)
  have settled: "s_Code s = code \<Longrightarrow> settled s ?co = settled s (sa_co st)" for s using states runs by (simp add: settled_def)
  have "stream_ok st code" and wf: "stored_ok st" using ok code by (simp_all add: api_ok_def)
  then have "stream_ok (st\<lparr>sa_co := ?co\<rparr>) code"
    using settled states(1) stored [OF wf, of code]
    by (cases "gget (sa_streams st) code"; cases "gget (ap_entries (sa_auto st)) code") (auto simp: stream_ok_def resolved_def)
  then have "api_ok (st\<lparr>sa_co := ?co\<rparr>)"
    by (intro with_co_ok [OF ok code(1)]) (use other in \<open>auto intro!: held_mgr_const simp: away_def\<close>)
  then show ?thesis by (cases err) (simp_all add: stream_SwitchInput_def Some sw Let_def)
qed (simp add: stream_SwitchInput_def ok)

lemma decoded:
  "decodeStreamBody stat decode code cur = Inr body \<Longrightarrow> s_Code body = code \<and> ValidateStreamCode code = None"
  by (auto simp: decodeStreamBody_def Let_def split: option.splits)

lemma put_apply_ok:
  assumes ok: "api_ok st" and body: "s_Code body = code" and v: "ValidateStreamCode code = None" and found: "ce_binary e"
    and fresh: "gget (sa_streams st) code = None \<Longrightarrow> gget (ap_entries (sa_auto st)) code = None"
    and cur: "cur = gget (sa_streams st) code"
  shows "api_ok (snd (put_apply e cur body (st\<lparr>sa_streams := gput code body (sa_streams st)\<rparr>)))"
proof -
  let ?st = "st\<lparr>sa_streams := gput code body (sa_streams st)\<rparr>"
  have code: "plain_code code" "code \<noteq> []" using code_is_plain [OF v] by simp_all
  have wf: "stored_ok st" using ok by (simp add: api_ok_def)
  have here: "stream_ok st code" using ok code by (simp add: api_ok_def)
  have r: "resolved ?st = resolved st" by (simp add: resolved_def fun_eq_iff)
  let ?new = "resolved st body" and ?co = "sa_co st"
  have new: "s_Code ?new = code" by (simp add: body)
  have idle: "nothing_held code ?co" if nr: "\<not> (cur \<noteq> None \<and> IsRunning code ?co)"
  proof (cases "gget (sa_streams st) code")
    case None
    then show ?thesis using here fresh by (simp add: stream_ok_def)
  next
    case (Some s)
    then have "settled (resolved st s) ?co" "s_Code s = code" using here here_stored [OF Some] stored [OF wf Some] by simp_all
    then show ?thesis using IsRunning_states(2) [of "resolved st s" ?co] IsRunning_states(3) [of code ?co] nr Some cur
      by (auto simp: settled_def)
  qed
  define res where "res =
      (if cur \<noteq> None \<and> IsRunning code (sa_co ?st) then
         (case updateLocked (env_in e ?st) (resolved st (the cur)) ?new (sa_co ?st) of (er, co) \<Rightarrow> (map_option UpdateFailed er, co))
       else if (case cur of None \<Rightarrow> False | Some c \<Rightarrow> s_Disabled c \<and> \<not> s_Disabled body) \<or>
               cur = None \<and> \<not> s_Disabled body \<and> 0 < length (s_Inputs ?new) then
         (case startLocked (env_in e ?st) ?new (sa_co ?st) of (er, co) \<Rightarrow> (map_option StartError er, co))
       else (None, (sa_co ?st)))"
  have settled: "settled ?new (snd res)"
  proof (cases "cur \<noteq> None \<and> IsRunning code ?co")
    case True
    then obtain c where c: "cur = Some c" by blast
    have "settled (resolved st c) ?co" using here here_stored [of st code c] c cur by simp
    then have "settled ?new (snd (updateLocked (env_in e ?st) (resolved st c) ?new ?co))"
      by (rule settled_update) (use True c cur stored [OF wf] new body code found in \<open>auto simp: env_in_def\<close>)
    then show ?thesis using True unfolding res_def c by (simp add: case_prod_beta)
  next
    case False
    have st: "settled ?new ?co" using idle [OF False] by (simp add: settled_def new body)
    have nr: "\<not> IsRunning code ?co" using idle [OF False] IsRunning_states(1) by blast
    have "settled ?new (snd (startLocked (env_in e ?st) ?new ?co))"
      by (rule settled_start [OF st]) (use code nr new body in simp_all)
    then show ?thesis using st False unfolding res_def by (auto simp add: case_prod_beta)
  qed
  have held: "held_for y (snd res) = held_for y ?co" if y: "away code y" for y
  proof -
    have a: "away (s_Code ?new) y" using y new by simp
    have same: "s_Code (resolved st (the cur)) = s_Code ?new" if "cur \<noteq> None"
      using that cur stored [OF wf, of code] body by auto
    show ?thesis using held_start [OF a] held_update [OF a same]
      by (simp add: res_def case_prod_beta)
  qed
  have "api_ok (?st\<lparr>sa_co := snd res\<rparr>)"
  proof (rule ok_at [OF ok code(1)])
    show "stored_ok (?st\<lparr>sa_co := snd res\<rparr>)" using wf body v by (auto simp: stored_ok_def map_simps)
    show "stream_ok (?st\<lparr>sa_co := snd res\<rparr>) code" using settled by (simp add: stream_ok_def map_simps resolved_def)
  qed (simp_all add: map_simps held)
  moreover have "sa_co (snd (put_apply e cur body ?st)) = snd res \<and> ap_entries (sa_auto (snd (put_apply e cur body ?st))) = ap_entries (sa_auto st) \<and>
      sa_streams (snd (put_apply e cur body ?st)) = sa_streams ?st \<and> sa_templates (snd (put_apply e cur body ?st)) = sa_templates st"
  proof -
    obtain er co where res: "res = (er, co)" by (cases res)
    show ?thesis
      unfolding put_apply_def Let_def r body res_def [symmetric] res prod.case
      by (cases er; cases cur) (simp_all add: sa_publish_def)
  qed
  ultimately show ?thesis using same_ok(3) [of "snd (put_apply e cur body ?st)" "?st\<lparr>sa_co := snd res\<rparr>"] by simp
qed

lemma put_ok:
  assumes ok: "api_ok st" and v: "ValidateStreamCode code = None" and found: "ce_binary e"
  shows "api_ok (snd (stream_Put fault stat decode e code st))"
proof -
  let ?cur = "gget (sa_streams st) code" and ?entry = "gget (ap_entries (sa_auto st)) code"
  consider "fault = FindFault" | "?cur = None" "?entry \<noteq> None" | er where "decodeStreamBody stat decode code ?cur = Inl er"
    | body where "fault \<noteq> FindFault" "?cur = None \<Longrightarrow> ?entry = None" "decodeStreamBody stat decode code ?cur = Inr body"
  proof -
    have "fault = FindFault \<or> (?cur = None \<and> ?entry \<noteq> None) \<or> (\<exists>er. decodeStreamBody stat decode code ?cur = Inl er) \<or>
        (\<exists>body. fault \<noteq> FindFault \<and> (?cur = None \<longrightarrow> ?entry = None) \<and> decodeStreamBody stat decode code ?cur = Inr body)"
      by (cases "decodeStreamBody stat decode code ?cur") auto
    then show ?thesis using that by (elim disjE conjE exE) simp_all
  qed
  then show ?thesis
  proof cases
    case (3 er)
    then show ?thesis using ok by (cases ?cur; cases ?entry) (simp_all add: stream_Put_def)
  next
    case (4 body)
    have b: "s_Code body = code" using decoded [OF 4(3)] by simp
    have go: "api_ok (snd (put_apply e ?cur body (st\<lparr>sa_streams := gput code body (sa_streams st)\<rparr>)))"
      by (rule put_apply_ok [OF ok b v found 4(2)]) simp_all
    show ?thesis using 4 go ok b
      by (cases ?cur; cases ?entry; cases "put_checks fault body st") (simp_all add: stream_Put_def)
  qed (use ok in \<open>auto simp: stream_Put_def split: option.split sum.split\<close>)
qed

subsection \<open>Pushes and the reconciler\<close>

lemma push_cases:
  assumes "ResolveOrCreate templates startOk now path secret ap = (r, ap')"
    and "case r of Inr _ \<Rightarrow> gget (ap_entries ap) (canonPath path) = None | Inl er \<Rightarrow> er = StartFailed (canonPath path)"
  shows "ValidateStreamCode (canonPath path) = None \<and> gget (ap_entries ap) (canonPath path) = None \<and>
    (\<exists>tc tpl. match_path (ap_matcher ap) (canonPath path) = Some tc \<and> templates tc = Some tpl \<and>
       (startOk (runtime_stream tc tpl (canonPath path)) \<longleftrightarrow> r = Inr (canonPath path))) \<and>
    (r = Inr (canonPath path) \<or> ap' = ap)"
  using assms
  by (auto simp: ResolveOrCreate_def Let_def runtime_stream_def split: if_splits option.splits sum.splits)

lemma push_entries:
  assumes "ResolveOrCreate templates startOk now path secret ap = (r, ap')"
  shows "y \<noteq> canonPath path \<Longrightarrow> gget (ap_entries ap') y = gget (ap_entries ap) y"
    "gget (ap_entries ap) (canonPath path) \<noteq> None \<Longrightarrow> ap' = ap"
    "\<not> (case r of Inr _ \<Rightarrow> gget (ap_entries ap) (canonPath path) = None | Inl er \<Rightarrow> er = StartFailed (canonPath path)) \<Longrightarrow> ap' = ap"
    "r = Inr code \<Longrightarrow> gget (ap_entries ap') (canonPath path) \<noteq> None"
  using assms
  by (auto simp: ResolveOrCreate_def Let_def map_simps split: if_splits option.splits sum.splits)

lemma push_ok:
  assumes ok: "api_ok st" and free: "gget (sa_streams st) (canonPath path) = None"
  shows "api_ok (snd (auto_push e now path secret st))"
proof -
  let ?code = "canonPath path" and ?env = "env_in e st" and ?ap = "sa_auto st"
  let ?startOk = "\<lambda>s. fst (startLocked ?env s (sa_co st)) = None"
  obtain r ap where p: "ResolveOrCreate (gget (sa_templates st)) ?startOk now path secret ?ap = (r, ap)"
    by (cases "ResolveOrCreate (gget (sa_templates st)) ?startOk now path secret ?ap")
  let ?started = "case r of Inr _ \<Rightarrow> gget (ap_entries ?ap) ?code = None | Inl er \<Rightarrow> er = StartFailed ?code"
  have wf: "stored_ok st" using ok by (simp add: api_ok_def)
  show ?thesis
  proof (cases ?started)
    case False
    then have "ap = ?ap" by (rule push_entries(3) [OF p])
    then have "auto_push e now path secret st = (r, st)" using p False by (simp add: auto_push_def Let_def)
    then show ?thesis using ok by simp
  next
    case True
    note c = push_cases [OF p True]
    from conjunct1 [OF conjunct2 [OF conjunct2 [OF c]]]
    obtain tc tpl where tc: "match_path (ap_matcher ?ap) ?code = Some tc" "gget (sa_templates st) tc = Some tpl"
      and s: "?startOk (runtime_stream tc tpl ?code) \<longleftrightarrow> r = Inr ?code" by (elim exE conjE) (rule that)
    let ?s = "runtime_stream tc tpl ?code"
    obtain er co where start: "startLocked ?env ?s (sa_co st) = (er, co)" by (cases "startLocked ?env ?s (sa_co st)")
    have code: "plain_code ?code" "?code \<noteq> []" using c code_is_plain by simp_all
    have sc: "s_Code ?s = ?code" by (simp add: runtime_stream_def ResolveStream_def empty_stream_def)
    have "stream_ok st ?code" using ok code by (simp add: api_ok_def)
    then have idle: "nothing_held (s_Code ?s) (sa_co st)" using free c sc by (simp add: stream_ok_def)
    have ends: "ends_well ?s (er, co)" using startLocked_states [OF idle, of ?env] code sc start by simp
    have "auto_push e now path secret st = (r, st\<lparr>sa_auto := ap, sa_co := co\<rparr>)"
      using p True tc start by (simp add: auto_push_def Let_def)
    moreover have "api_ok (st\<lparr>sa_auto := ap, sa_co := co\<rparr>)"
    proof (rule ok_at [OF ok code(1)])
      show "held_for y (sa_co (st\<lparr>sa_auto := ap, sa_co := co\<rparr>)) = held_for y (sa_co st)" if "away ?code y" for y
        using held_start [of ?s y ?env "sa_co st"] that sc start by simp
      show "stream_ok (st\<lparr>sa_auto := ap, sa_co := co\<rparr>) ?code"
      proof (cases er)
        case None
        then have "gget (ap_entries ap) ?code \<noteq> None" using s start push_entries(4) [OF p] by simp
        then show ?thesis using ends None free sc by (auto simp: stream_ok_def ends_well_def settled_def)
      next
        case (Some _)
        then have "ap = ?ap" using s start c by auto
        then show ?thesis using ends Some free sc c by (simp add: stream_ok_def ends_well_def)
      qed
    qed (use wf push_entries(1) [OF p] in \<open>simp_all add: stored_ok_def\<close>)
    ultimately show ?thesis by simp
  qed
qed

lemma resolved_co [simp]: "resolved (st\<lparr>sa_co := co\<rparr>) = resolved st"
  by (simp add: resolved_def fun_eq_iff)

lemma reconcile_one_ok:
  assumes ok: "api_ok (st\<lparr>sa_co := co\<rparr>)" and s: "s \<in> set (map snd (sa_streams st))"
  shows "api_ok (st\<lparr>sa_co := reconcile_one (gget (sa_templates st)) env s co\<rparr>)"
proof -
  have "stored_ok st" using ok by (simp add: api_ok_def stored_ok_def)
  then have "gget (sa_streams st) (s_Code s) = Some s" using s stored_mem by blast
  then have "\<not> IsRunning (s_Code s) co \<Longrightarrow> api_ok (st\<lparr>sa_co := snd (startLocked env (resolved st s) co)\<rparr>)"
    using start_ok [OF ok, of "s_Code s" s env] by simp
  then show ?thesis using ok by (simp add: reconcile_one_def Let_def resolved_def)
qed

lemma reconcile_ok:
  assumes "api_ok st"
  shows "api_ok (reconcile_pass e st)"
proof -
  have "set ss \<subseteq> set (map snd (sa_streams st)) \<Longrightarrow> api_ok (st\<lparr>sa_co := co\<rparr>) \<Longrightarrow>
      api_ok (st\<lparr>sa_co := fold (reconcile_one (gget (sa_templates st)) (env_in e st)) ss co\<rparr>)" for ss co
    by (induction ss arbitrary: co) (simp_all add: reconcile_one_ok)
  from this [of "map snd (sa_streams st)" "sa_co st"] show ?thesis
    using assms by (simp add: reconcile_pass_def reconcileOnce_def)
qed

subsection \<open>Requests on a template\<close>

lemma refresh_fields [simp]:
  "ap_entries (sa_auto (refreshAutoPublish fault st)) = ap_entries (sa_auto st)" "sa_streams (refreshAutoPublish fault st) = sa_streams st"
  "sa_templates (refreshAutoPublish fault st) = sa_templates st" "sa_co (refreshAutoPublish fault st) = sa_co st"
  by (simp_all add: refreshAutoPublish_def RefreshTemplates_def)

lemma reload_one_step:
  assumes code: "plain_code (s_Code s)" "s_Code s \<noteq> []" and found: "ce_binary env" and code': "t_Code next = tc"
    and st: "settled (resolve_stream t s) co" and t: "t tc = prior" "t' tc = Some next" "\<And>k. k \<noteq> tc \<Longrightarrow> t' k = t k"
  shows "settled (resolve_stream t' s) (snd (reload_one env prior next s (b, co)))"
    "away (s_Code s) y \<Longrightarrow> held_for y (snd (reload_one env prior next s (b, co))) = held_for y co"
proof -
  let ?old = "the (ResolveStream (Some s) prior)" and ?new = "the (ResolveStream (Some s) (Some next))"
  have codes: "s_Code ?old = s_Code s" "s_Code ?new = s_Code s"
    by (cases prior) (simp_all add: ResolveStream_def)
  have res: "resolve_stream t s = ?old" "resolve_stream t' s = ?new" if "s_Template s = Some tc"
    using that t by (simp_all add: resolve_stream_def ResolveStream_def split: option.split)
  have other: "resolve_stream t' s = resolve_stream t s" if "s_Template s \<noteq> Some tc"
    using that t(3) by (cases "s_Template s") (simp_all add: resolve_stream_def)
  obtain er co' where u: "updateLocked env ?old ?new co = (er, co')" by (cases "updateLocked env ?old ?new co")
  have step: "snd (reload_one env prior next s (b, co)) =
      (if s_Template s = Some tc \<and> IsRunning (s_Code s) co then snd (updateLocked env ?old ?new co) else co)"
    unfolding reload_one_def u using u code' by simp
  show "settled (resolve_stream t' s) (snd (reload_one env prior next s (b, co)))"
  proof (cases "s_Template s = Some tc \<and> IsRunning (s_Code s) co")
    case True
    have "settled ?new (snd (updateLocked env ?old ?new co))"
      by (rule settled_update) (use True st res codes code found in simp_all)
    then show ?thesis using True step res by simp
  next
    case False
    have "settled (resolve_stream t' s) co"
    proof (cases "s_Template s = Some tc")
      case True
      then have "nothing_held (s_Code s) co"
        using False st IsRunning_states(2) [of "resolve_stream t s" co] IsRunning_states(3) [of "s_Code s" co] by (auto simp: settled_def)
      then show ?thesis by (simp add: settled_def)
    qed (use st other in simp)
    then show ?thesis unfolding step if_not_P [OF False] .
  qed
  show "held_for y (snd (reload_one env prior next s (b, co))) = held_for y co" if "away (s_Code s) y"
    using held_update [of ?new y ?old env co] that codes unfolding step by simp
qed

lemma reload_all:
  assumes found: "ce_binary env" and code': "t_Code next = tc"
    and t: "t tc = prior" "t' tc = Some next" "\<And>k. k \<noteq> tc \<Longrightarrow> t' k = t k"
  shows "distinct (map s_Code ss) \<Longrightarrow> (\<And>s. s \<in> set ss \<Longrightarrow> plain_code (s_Code s) \<and> s_Code s \<noteq> [] \<and> settled (resolve_stream t s) co) \<Longrightarrow>
    (\<forall>s \<in> set ss. settled (resolve_stream t' s) (snd (fold (reload_one env prior next) ss (b, co)))) \<and>
    (\<forall>y. plain_code y \<and> y \<notin> s_Code ` set ss \<longrightarrow> held_for y (snd (fold (reload_one env prior next) ss (b, co))) = held_for y co)"
proof (induction ss arbitrary: b co)
  case (Cons s ss)
  obtain b1 co1 where one: "reload_one env prior next s (b, co) = (b1, co1)" by (cases "reload_one env prior next s (b, co)")
  have s: "plain_code (s_Code s)" "s_Code s \<noteq> []" "settled (resolve_stream t s) co" using Cons.prems(2) [of s] by simp_all
  note step = reload_one_step [OF s(1,2) found code' s(3) t, where b = b]
  have fin: "settled (resolve_stream t' s) co1" using step(1) one by simp
  have held: "held_for y co1 = held_for y co" if "plain_code y" "y \<noteq> s_Code s" for y
    using step(2) [of y] that s(1) one by (simp add: away_def)
  have "settled (resolve_stream t r) co1" if r: "r \<in> set ss" for r
  proof -
    have "plain_code (s_Code r)" "s_Code r \<noteq> s_Code s" using Cons.prems r by (auto simp: image_iff)
    then show ?thesis using held settled_held [of "resolve_stream t r" co1 co] Cons.prems(2) [of r] r by simp
  qed
  then have ih: "(\<forall>r \<in> set ss. settled (resolve_stream t' r) (snd (fold (reload_one env prior next) ss (b1, co1)))) \<and>
      (\<forall>y. plain_code y \<and> y \<notin> s_Code ` set ss \<longrightarrow> held_for y (snd (fold (reload_one env prior next) ss (b1, co1))) = held_for y co1)"
    using Cons.prems by (intro Cons.IH) simp_all
  have "s_Code s \<notin> s_Code ` set ss" using Cons.prems(1) by simp
  with ih s(1) have "held_for (s_Code s) (snd (fold (reload_one env prior next) ss (b1, co1))) = held_for (s_Code s) co1" by blast
  then have "settled (resolve_stream t' s) (snd (fold (reload_one env prior next) ss (b1, co1)))"
    using settled_held [of "resolve_stream t' s" "snd (fold (reload_one env prior next) ss (b1, co1))" co1] fin by simp
  note all = this
  have run: "fold (reload_one env prior next) (s # ss) (b, co) = fold (reload_one env prior next) ss (b1, co1)" by (simp add: one)
  show ?case unfolding run
  proof (intro conjI ballI allI impI)
    fix r
    assume "r \<in> set (s # ss)"
    then show "settled (resolve_stream t' r) (snd (fold (reload_one env prior next) ss (b1, co1)))"
      using all ih by (cases "r = s") simp_all
  next
    fix y
    assume "plain_code y \<and> y \<notin> s_Code ` set (s # ss)"
    then have "held_for y (snd (fold (reload_one env prior next) ss (b1, co1))) = held_for y co1" "held_for y co1 = held_for y co"
      using ih held by simp_all
    then show "held_for y (snd (fold (reload_one env prior next) ss (b1, co1))) = held_for y co" by simp
  qed
qed simp

lemma template_put_ok:
  assumes ok: "api_ok st" and found: "ce_binary e" and fault: "fault \<noteq> FindFault" "fault \<noteq> ListFault"
  shows "api_ok (snd (template_Put fault e tc body0 st))"
proof -
  consider (kept) "snd (template_Put fault e tc body0 st) = st"
    | (saved) b where "t_Code b = tc"
      "sa_streams (snd (template_Put fault e tc body0 st)) = sa_streams st"
      "sa_templates (snd (template_Put fault e tc body0 st)) = gput tc b (sa_templates st)"
      "ap_entries (sa_auto (snd (template_Put fault e tc body0 st))) = ap_entries (sa_auto st)"
      "sa_co (snd (template_Put fault e tc body0 st)) =
        snd (reloadStreams (env_in e (st\<lparr>sa_templates := gput tc b (sa_templates st)\<rparr>)) (gget (sa_templates st) tc) b
               (map snd (sa_streams st)) (sa_co st))"
  proof (cases body0)
    case None
    then show ?thesis using kept by (simp add: template_Put_def)
  next
    case (Some b0)
    let ?b = "b0\<lparr>t_Code := tc\<rparr>"
    let ?st1 = "st\<lparr>sa_templates := gput tc ?b (sa_templates st)\<rparr>"
    let ?r = "reloadStreams (env_in e ?st1) (gget (sa_templates st) tc) ?b (map snd (sa_streams ?st1)) (sa_co ?st1)"
    obtain f co where r: "?r = (f, co)" by (cases ?r)
    show ?thesis
    proof (cases "\<not> ValidateTemplateCode tc \<or> ValidatePrefixes (t_Prefixes ?b) \<noteq> None \<or>
        0 < length (t_Prefixes ?b) \<and> fault = TemplateListFault \<or>
        findConflictingPrefix tc (t_Prefixes ?b) (map snd (sa_templates st)) \<noteq> None \<or> fault = WriteFault")
      case True
      have "snd (template_Put fault e tc body0 st) = st"
        unfolding template_Put_def Let_def Some using True by (auto split: option.splits)
      then show ?thesis by (rule kept)
    next
      case False
      then have checks: "ValidateTemplateCode tc" "ValidatePrefixes (t_Prefixes ?b) = None"
        "\<not> (0 < length (t_Prefixes ?b) \<and> fault = TemplateListFault)"
        "findConflictingPrefix tc (t_Prefixes ?b) (map snd (sa_templates st)) = None" "fault \<noteq> WriteFault" by blast+
      have "snd (template_Put fault e tc body0 st) =
          (if f then st\<lparr>sa_templates := gput tc ?b (sa_templates st), sa_co := co\<rparr>
           else sa_publish (if gget (sa_templates st) tc = None then ''template.created'' else ''template.updated'') tc
             (refreshAutoPublish fault (st\<lparr>sa_templates := gput tc ?b (sa_templates st), sa_co := co\<rparr>)))"
        by (simp only: template_Put_def Let_def Some option.case checks fault not_True_eq_False if_False r prod.case, cases f) simp_all
      then show ?thesis using r by (intro saved [of ?b]) (simp_all add: sa_publish_def)
    qed
  qed
  then show ?thesis
  proof cases
    case kept
    then show ?thesis using ok by simp
  next
    case (saved b)
    let ?st' = "snd (template_Put fault e tc body0 st)"
    have wf: "stored_ok st" using ok by (simp add: api_ok_def)
    let ?ss = "map snd (sa_streams st)"
    have codes: "map s_Code ?ss = gkeys (sa_streams st)"
    proof -
      have "s_Code (snd p) = fst p" if "p \<in> set (sa_streams st)" for p
        using that wf gwf_mem_gget [of "sa_streams st" "fst p" "snd p"] by (simp add: stored_ok_def)
      then show ?thesis by simp
    qed
    have "distinct (map s_Code ?ss)" unfolding codes using wf by (simp add: stored_ok_def)
    then have dist: "distinct (map (s_Code \<circ> snd) (sa_streams st))" by simp
    have each: "plain_code (s_Code s) \<and> s_Code s \<noteq> [] \<and> settled (resolve_stream (gget (sa_templates st)) s) (sa_co st)" if "s \<in> set ?ss" for s
    proof -
      have s: "gget (sa_streams st) (s_Code s) = Some s" using that stored_mem [OF wf] by blast
      then have "plain_code (s_Code s)" "s_Code s \<noteq> []" using stored [OF wf] by blast+
      then show ?thesis using ok here_stored [OF s] by (simp add: api_ok_def resolved_def)
    qed
    let ?env = "env_in e (st\<lparr>sa_templates := gput tc b (sa_templates st)\<rparr>)"
    have all: "(\<forall>s \<in> set ?ss. settled (resolve_stream (gget (gput tc b (sa_templates st))) s) (sa_co ?st')) \<and>
        (\<forall>y. plain_code y \<and> y \<notin> s_Code ` set ?ss \<longrightarrow> held_for y (sa_co ?st') = held_for y (sa_co st))"
      unfolding saved(5) reloadStreams_def
      by (rule reload_all [where tc = tc and t = "gget (sa_templates st)"])
        (use found saved(1) dist wf each in \<open>simp_all add: env_in_def map_simps stored_ok_def\<close>)
    show ?thesis unfolding api_ok_def
    proof (intro conjI allI impI)
      show "stored_ok ?st'" using wf saved(2) by (simp add: stored_ok_def)
      fix y
      assume y: "plain_code y \<and> y \<noteq> []"
      show "stream_ok ?st' y"
      proof (cases "gget (sa_streams st) y")
        case (Some s)
        then have "s_Code s = y" using stored [OF wf] by blast
        then have "s \<in> set ?ss" using Some stored_mem [OF wf, of s] by simp
        then have "settled (resolve_stream (gget (gput tc b (sa_templates st))) s) (sa_co ?st')" using conjunct1 [OF all] by blast
        then show ?thesis using Some by (simp add: stream_ok_def saved(2,3) resolved_def)
      next
        case None
        have "y \<notin> s_Code ` set ?ss" using None codes gkeys_gget [of y "sa_streams st"] by (metis list.set_map)
        then have h: "held_for y (sa_co ?st') = held_for y (sa_co st)" using all y by blast
        have "s_Code s = y \<Longrightarrow> settled s (sa_co ?st') = settled s (sa_co st)" for s using h by (intro settled_held) simp
        moreover have "stream_ok st y" using ok y by (simp add: api_ok_def)
        ultimately have "(\<exists>s. s_Code s = y \<and> settled s (sa_co ?st')) \<longleftrightarrow> (\<exists>s. s_Code s = y \<and> settled s (sa_co st))"
          and "stream_ok st y" by blast+
        then show ?thesis unfolding stream_ok_def saved(2,4) None option.case held_decides(1) [OF h] by simp
      qed
    qed
  qed
qed

lemma template_delete_ok:
  assumes ok: "api_ok st"
  shows "api_ok (snd (template_Delete fault tc st))"
proof -
  have wf: "stored_ok st" using ok by (simp add: api_ok_def)
  let ?st = "refreshAutoPublish fault (st\<lparr>sa_templates := gdel tc (sa_templates st)\<rparr>)"
  have go: "api_ok ?st" if "filter (\<lambda>s. s_Template s = Some tc) (map snd (sa_streams st)) = []"
  proof -
    have "resolved ?st s = resolved st s" if s: "gget (sa_streams st) k = Some s" for k s
    proof -
      have "s \<in> set (map snd (sa_streams st))" using s stored [OF wf s] stored_mem [OF wf, of s] by simp
      then have "s_Template s \<noteq> Some tc" using \<open>filter _ _ = []\<close> by (auto simp: filter_empty_conv)
      then show ?thesis by (simp add: resolved_def resolve_stream_def map_simps split: option.split)
    qed
    then have "stream_ok ?st y = stream_ok st y" for y
      by (cases "gget (sa_streams st) y"; cases "gget (ap_entries (sa_auto st)) y") (simp_all add: stream_ok_def)
    then show ?thesis using ok by (simp add: api_ok_def stored_ok_def)
  qed
  show ?thesis using ok go by (simp add: template_Delete_def Let_def)
qed

subsection \<open>Every reachable state\<close>

lemma booted_ok: "booted st \<Longrightarrow> api_ok st"
proof -
  assume b: "booted st"
  have each: "s_Code s = k \<and> ValidateStreamCode k = None" if "gget (sa_streams st) k = Some s" for k s
    using b map_of_SomeD [OF that] unfolding booted_def by blast
  have "gwf (sa_streams st)" using b by (simp add: booted_def)
  with each have "stored_ok st" unfolding stored_ok_def by blast
  moreover have "nothing_held code (sa_co st)" for code using b by (simp add: booted_def nothing_held_def has_buf_def)
  ultimately show ?thesis by (simp add: api_ok_def here_nothing)
qed

lemma fleet_step_ok: "api_ok st \<Longrightarrow> op_ok op st \<Longrightarrow> api_ok (api_step op st)"
proof -
  assume ok: "api_ok st" and op: "op_ok op st"
  have expire: "ValidateStreamCode code = None \<Longrightarrow> api_ok (snd (runtime_stop code st))" for code
    using code_is_plain [of code] runtime_stop_ok(1) [OF ok] by simp
  show ?thesis using op
    by (cases op) (simp_all add: expire put_ok [OF ok] delete_ok [OF ok] restart_ok [OF ok] switch_ok [OF ok]
        template_put_ok [OF ok] template_delete_ok [OF ok] push_ok [OF ok] reconcile_ok [OF ok])
qed

lemma fleet_reachable_ok: "reachable st0 st \<Longrightarrow> booted st0 \<Longrightarrow> api_ok st"
  by (induction rule: reachable.induct) (simp_all add: booted_ok fleet_step_ok)


subsection \<open>What a pass of the reconciler starts\<close>

definition pub_dirs_ok :: "PubService \<Rightarrow> bool" where
  "pub_dirs_ok pb \<longleftrightarrow> TrimSpace (pb_dashDir pb) \<noteq> [] \<and> Clean (pb_hlsDir pb) \<noteq> Clean (TrimSpace (pb_dashDir pb))"

lemma pub_start_succeeds:
  "pub_dirs_ok pb \<Longrightarrow> gget (pb_streams pb) (s_Code s) = None \<Longrightarrow> fst (pub_Start s pb) = None"
  by (simp add: pub_Start_def Let_def pub_dirs_ok_def)

lemma register_succeeds:
  "gget (svc_streams m) (s_Code s) = None \<Longrightarrow> fst (Register start n1 n2 n3 n4 s bid m) = None"
  using Register_fails [of start n1 n2 n3 n4 s bid m] by (cases "fst (Register start n1 n2 n3 n4 s bid m)") auto

lemma ladder_rungs:
  assumes "upstreamHasABRLadder up"
  shows "\<exists>u d. abr_rungs down up = Inr (down\<lparr>s_Transcoder := mirrorTranscoderForCopy (s_Transcoder up)\<rparr>, u, d)"
proof -
  obtain tc where tc: "s_Transcoder up = Some tc" "\<not> vt_Copy (tc_Video tc)" "elems (vt_Profiles (tc_Video tc)) \<noteq> []"
    using assms by (auto simp: upstreamHasABRLadder_def split: option.splits if_splits)
  have "length (RenditionsForTranscoder c (Some tc)) = length (elems (vt_Profiles (tc_Video tc)))"
    "length (RenditionsForTranscoder c (mirrorTranscoderForCopy (Some tc))) = length (elems (vt_Profiles (tc_Video tc)))" for c
    using tc by (simp_all add: RenditionsForTranscoder_def mirrorTranscoderForCopy_def Let_def)
  note len = this
  have "RenditionsForTranscoder (s_Code up) (Some tc) \<noteq> []" using len(1) [of "s_Code up"] tc(3) by auto
  then show ?thesis using len tc(1) by (simp add: abr_rungs_def Let_def)
qed

lemma start_succeeds:
  assumes held: "nothing_held (s_Code s) c" and dirs: "pub_dirs_ok (co_pub c)" and found: "ce_binary env"
    and on: "\<not> s_Disabled s" "s_Inputs s \<noteq> []"
  shows "fst (startLocked env s c) = None"
proof -
  have none: "gget (pb_streams (co_pub c)) (s_Code s) = None" "gget (svc_streams (co_mgr c)) (s_Code s) = None"
    "gget (ts_workers (co_tc c)) (s_Code s) = None" "gget (co_abrCopies c) (s_Code s) = None" "gget (co_abrMixers c) (s_Code s) = None"
    using held by (simp_all add: nothing_held_def)
  have abr: "fst (startABRCopy env s up c) = None" "fst (startABRMixer env s up au c) = None" if lad: "upstreamHasABRLadder up" for up au
  proof -
    obtain u d where r: "abr_rungs s up = Inr (s\<lparr>s_Transcoder := mirrorTranscoderForCopy (s_Transcoder up)\<rparr>, u, d)"
      using ladder_rungs [OF lad] by blast
    let ?m = "s\<lparr>s_Transcoder := mirrorTranscoderForCopy (s_Transcoder up)\<rparr>"
    obtain pub where "pub_Start ?m (co_pub c) = (None, pub)"
      using pub_start_succeeds [OF dirs, of ?m] none by (cases "pub_Start ?m (co_pub c)") simp
    then show "fst (startABRCopy env s up c) = None" "fst (startABRMixer env s up au c) = None"
      using none r by (simp_all add: startABRCopy_def startABRMixer_def abr_outputs_def Let_def co_simps)
  qed
  have pipe: "fst (startPipeline env s c) = None"
  proof -
    let ?reg = "Register (ce_start env) (ce_now env) (ce_now env) (ce_now env) (ce_now env) s
      (if shouldRunTranscoder s then RawIngestBufferID (s_Code s) else s_Code s) (co_mgr c)"
    obtain m ef where reg: "?reg = (None, m, ef)"
      using register_succeeds [OF none(2)] by (cases ?reg) (metis fst_conv)
    obtain pub where pub: "pub_Start s (co_pub c) = (None, pub)"
      using pub_start_succeeds [OF dirs none(1)] by (cases "pub_Start s (co_pub c)") simp
    show ?thesis
    proof (cases "shouldRunTranscoder s")
      case True
      then obtain cfg where cfg: "transcoderConfigWithWatermark env s = Some cfg" using config_given by blast
      obtain t where "tc_Start True (s_Code s) (RawIngestBufferID (s_Code s)) (Some cfg) (rendition_targets s) (co_tc c) = (None, t)"
        using True none(3) by (simp add: tc_Start_def Let_def)
      then show ?thesis using True reg pub found cfg by (simp add: startPipeline_def Let_def co_simps)
    qed (use reg pub in \<open>simp add: startPipeline_def Let_def co_simps\<close>)
  qed
  have up: "detectABRCopy env s = Some up \<Longrightarrow> upstreamHasABRLadder up" "detectABRMixer env s = Some (up, au) \<Longrightarrow> upstreamHasABRLadder up" for up au
    by (auto simp: detectABRCopy_def detectABRMixer_def split: list.splits option.splits if_splits sum.splits)
  show ?thesis using on abr up pipe
    by (auto simp: startLocked_def split: option.split prod.split)
qed

lemma dirs_kept: "pb_hlsDir (snd (pub_Start s pb)) = pb_hlsDir pb" "pb_dashDir (snd (pub_Start s pb)) = pb_dashDir pb"
  "pb_hlsDir (pub_Stop code pb) = pb_hlsDir pb" "pb_dashDir (pub_Stop code pb) = pb_dashDir pb"
  by (simp_all add: pub_Start_def pub_set_def Let_def pub_Stop_def cleanupStreamDirs_def split: option.split)

lemma start_dirs: "pub_dirs_ok (co_pub (snd (startLocked env s c))) = pub_dirs_ok (co_pub c)"
proof -
  have kept: "pub_dirs_ok pub = pub_dirs_ok (co_pub b)" if "pub_Start m (co_pub b) = (er, pub)" for m b er pub
    using dirs_kept(1,2) [of m "co_pub b"] that by (simp add: pub_dirs_ok_def)
  have off: "pub_dirs_ok (pub_Stop code pb) = pub_dirs_ok pb" for code pb using dirs_kept(3,4) by (simp add: pub_dirs_ok_def)
  have drop: "co_pub (drop_pipeline_buffers s ing b) = co_pub b" for ing b
    by (simp add: drop_pipeline_buffers_def Let_def co_simps)
  have outs: "pub_dirs_ok (co_pub (snd (abr_outputs m ds b))) = pub_dirs_ok (co_pub b)" for m ds b
    using kept [of m b] by (auto simp: abr_outputs_def Let_def co_simps split: prod.split option.split)
  have abr: "pub_dirs_ok (co_pub (snd (startABRCopy env s up c))) = pub_dirs_ok (co_pub c)"
    "pub_dirs_ok (co_pub (snd (startABRMixer env s up au c))) = pub_dirs_ok (co_pub c)" for up au
  proof -
    have outs': "pub_dirs_ok (co_pub b') = pub_dirs_ok (co_pub c)" if "abr_outputs m ds c = (er, b')" for m ds er b'
      using outs [of m ds c] that by simp
    show "pub_dirs_ok (co_pub (snd (startABRCopy env s up c))) = pub_dirs_ok (co_pub c)"
      "pub_dirs_ok (co_pub (snd (startABRMixer env s up au c))) = pub_dirs_ok (co_pub c)"
      by (simp_all add: startABRCopy_def startABRMixer_def Let_def co_simps outs' split: sum.split prod.split option.split)
  qed
  have "pub_dirs_ok (co_pub (snd (startPipeline env s c))) = pub_dirs_ok (co_pub c)"
    using kept [of s c] by (simp add: startPipeline_def Let_def co_simps drop off split: prod.split option.split)
  with abr show ?thesis by (simp add: startLocked_def split: option.split prod.split)
qed

lemma reconcile_one_running:
  assumes ok: "api_ok (st\<lparr>sa_co := co\<rparr>)" and s: "s \<in> set (map snd (sa_streams st))"
    and dirs: "pub_dirs_ok (co_pub co)" and found: "ce_binary env"
  shows "\<not> s_Disabled s \<Longrightarrow> s_Inputs (resolved st s) \<noteq> [] \<Longrightarrow> IsRunning (s_Code s) (reconcile_one (gget (sa_templates st)) env s co)"
    "plain_code y \<Longrightarrow> IsRunning y co \<Longrightarrow> IsRunning y (reconcile_one (gget (sa_templates st)) env s co)"
    "pub_dirs_ok (co_pub (reconcile_one (gget (sa_templates st)) env s co))"
proof -
  let ?s = "resolved st s" and ?r = "reconcile_one (gget (sa_templates st)) env s co"
  have wf: "stored_ok st" using ok by (simp add: api_ok_def stored_ok_def)
  then have g: "gget (sa_streams st) (s_Code s) = Some s" using s stored_mem by blast
  then have code: "plain_code (s_Code s)" "s_Code s \<noteq> []" using stored [OF wf] by blast+
  have set: "settled ?s co" using ok g code here_stored [of "st\<lparr>sa_co := co\<rparr>" "s_Code s" s] by (simp add: api_ok_def)
  show "IsRunning (s_Code s) ?r" if on: "\<not> s_Disabled s" "s_Inputs ?s \<noteq> []"
  proof (cases "IsRunning (s_Code s) co")
    case False
    then have idle: "nothing_held (s_Code ?s) co"
      using set IsRunning_states(2) [of ?s co] IsRunning_states(3) [of "s_Code s" co] by (auto simp: settled_def)
    have ok: "fst (startLocked env ?s co) = None" by (rule start_succeeds [OF idle dirs found]) (use on in simp_all)
    have "ends_well ?s (startLocked env ?s co)" by (rule startLocked_states [OF idle]) (use code in simp_all)
    then have "runs_pipeline ?s (snd (startLocked env ?s co)) \<or> mirrors (s_Code s) (snd (startLocked env ?s co))"
      using ok by (simp add: ends_well_def split: prod.splits)
    then have "IsRunning (s_Code s) (snd (startLocked env ?s co))"
      using IsRunning_states(2) [of ?s] IsRunning_states(3) by auto
    then show ?thesis using False on by (simp add: reconcile_one_def Let_def resolved_def)
  qed (simp add: reconcile_one_def)
  show "IsRunning y ?r" if y: "plain_code y" "IsRunning y co"
  proof (cases "y = s_Code s")
    case False
    then have "IsRunning y (snd (startLocked env ?s co)) = IsRunning y co"
      using held_decides(4) [OF held_start [of ?s y env co]] y code by (simp add: away_def)
    then show ?thesis using y by (simp add: reconcile_one_def Let_def resolved_def)
  qed (use y in \<open>simp add: reconcile_one_def\<close>)
  show "pub_dirs_ok (co_pub ?r)" using dirs start_dirs by (simp add: reconcile_one_def Let_def)
qed

lemma reconcile_all:
  assumes "ce_binary env"
  shows "set ss \<subseteq> set (map snd (sa_streams st)) \<Longrightarrow> api_ok (st\<lparr>sa_co := co\<rparr>) \<Longrightarrow> pub_dirs_ok (co_pub co) \<Longrightarrow>
    (\<forall>y. plain_code y \<and> IsRunning y co \<longrightarrow> IsRunning y (fold (reconcile_one (gget (sa_templates st)) env) ss co)) \<and>
    (\<forall>s \<in> set ss. \<not> s_Disabled s \<and> s_Inputs (resolved st s) \<noteq> [] \<longrightarrow>
       IsRunning (s_Code s) (fold (reconcile_one (gget (sa_templates st)) env) ss co))"
proof (induction ss arbitrary: co)
  case (Cons s ss)
  let ?one = "reconcile_one (gget (sa_templates st)) env s co"
  have s: "s \<in> set (map snd (sa_streams st))" using Cons.prems(1) by simp
  note one = reconcile_one_running [OF Cons.prems(2) s Cons.prems(3) assms]
  have wf: "stored_ok st" using Cons.prems(2) by (simp add: api_ok_def stored_ok_def)
  then have "plain_code (s_Code s)" using s stored_mem stored [OF wf] by blast
  moreover have "(\<forall>y. plain_code y \<and> IsRunning y ?one \<longrightarrow> IsRunning y (fold (reconcile_one (gget (sa_templates st)) env) ss ?one)) \<and>
    (\<forall>s \<in> set ss. \<not> s_Disabled s \<and> s_Inputs (resolved st s) \<noteq> [] \<longrightarrow>
       IsRunning (s_Code s) (fold (reconcile_one (gget (sa_templates st)) env) ss ?one))"
    using Cons.prems(1) by (intro Cons.IH reconcile_one_ok [OF Cons.prems(2) s] one(3)) simp
  ultimately show ?case using one(1,2) by simp
qed simp


subsection \<open>Witnesses\<close>

definition first_boot :: ApiState where
  "first_boot = \<lparr>sa_streams = [(''a'', camera)], sa_templates = [], sa_auto = ap_start, sa_co = idle_coord, sa_events = []\<rparr>"

lemma first_boot_booted: "booted first_boot"
proof -
  have "ValidateStreamCode ''a'' = None" by code_simp
  then show ?thesis by (simp add: booted_def first_boot_def ap_start_def idle_coord_def empty_pub_def blob0_def)
qed

lemma after_a_pass: "reachable first_boot (reconcile_pass plain_env first_boot)"
  using reachable.step [OF reachable.start, of "OpReconcile plain_env" first_boot] by simp

lemma resolved_camera: "resolved st camera = camera"
  by (simp add: resolved_def resolve_stream_def)



subsection \<open>What the assumptions leave out\<close>

text \<open>
  A push through a template takes the code of a stored stream over, disabled or not: the pipeline it starts is the
  template's, while the store, and every later update, describes another.
\<close>

lemma push_ignores_the_stored_stream:
  assumes "ValidateStreamCode code = None" and path: "canonPath path = code" "canonPath code = code" and "gget (ap_entries (sa_auto st)) code = None"
    and "match_path (ap_matcher (sa_auto st)) code = Some tc" "gget (sa_templates st) tc = Some tpl"
    and "TemplateAcceptsPush (Some tpl)" "t_StreamKey tpl = []"
    and "fst (startLocked (env_in e st) (runtime_stream tc tpl code) (sa_co st)) = None"
    and "gget (sa_streams st) code = Some s" "s_Disabled s"
  shows "fst (auto_push e now path secret st) = Inr code"
    and "sa_co (snd (auto_push e now path secret st)) = snd (startLocked (env_in e st) (runtime_stream tc tpl code) (sa_co st))"
proof -
  have "code \<noteq> []" using code_is_plain [OF assms(1)] by simp
  then show "fst (auto_push e now path secret st) = Inr code"
    and "sa_co (snd (auto_push e now path secret st)) = snd (startLocked (env_in e st) (runtime_stream tc tpl code) (sa_co st))"
    using assms by (simp_all add: auto_push_def ResolveOrCreate_def runtime_stream_def [symmetric] Let_def)
qed

text \<open>A template saved while the stream list cannot be read changes what is stored and not what runs.\<close>

lemma template_saved_without_reload:
  assumes "ValidateTemplateCode tc" and "ValidatePrefixes (t_Prefixes body) = None"
    and "findConflictingPrefix tc (t_Prefixes body) (map snd (sa_templates st)) = None"
  shows "snd (template_Put ListFault e tc (Some body) st) = st\<lparr>sa_templates := gput tc (body\<lparr>t_Code := tc\<rparr>) (sa_templates st)\<rparr>"
  using assms by (simp add: template_Put_def Let_def)

text \<open>Runtime streams are not stored, so the save of their template does not reload them.\<close>

lemma runtime_streams_keep_the_old_template:
  assumes "sa_streams st = []"
  shows "sa_co (snd (template_Put fault e tc body st)) = sa_co st"
  using assms by (cases body) (simp_all add: template_Put_def Let_def reloadStreams_def sa_publish_def split: option.split prod.split)

text \<open>The code of a stream is validated without the space around it and stored with it.\<close>

lemma space_around_a_code_is_kept:
  assumes "decodeStreamBody stat decode '' a'' cur = Inr body"
  shows "s_Code body = '' a'' \<and> ValidateStreamCode '' a'' = None"
  using decoded [OF assms] by simp

lemma space_around_a_code_is_accepted: "ValidateStreamCode '' a'' = None"
  by code_simp

subsection \<open>Font colours\<close>

definition colour_char :: "char \<Rightarrow> bool" where
  "colour_char c \<longleftrightarrow> ascii_letter c \<or> is_digit c \<or> c \<in> set ''#@.''"

definition graph_chars :: string where
  "graph_chars = '':,;=[]|%{}()'' @ [CHR 0x27, CHR 0x5C]"

lemma graph_chars_bad: "list_all (\<lambda>c. \<not> is_space c \<and> \<not> colour_char c) graph_chars"
  by code_simp

lemma hex_colour: "hex_digit c \<Longrightarrow> colour_char c"
  by (auto simp: hex_digit_def colour_char_def ascii_letter_def)

lemma colour_part_chars:
  assumes "colour_part c"
  shows "list_all colour_char c"
proof -
  have h: "list_all hex_digit r \<Longrightarrow> list_all colour_char r" for r by (simp add: list_all_iff hex_colour)
  have lit: "colour_char (CHR ''#'')" "colour_char (CHR ''0'')" "colour_char (CHR ''x'')" by code_simp+
  consider "list_all ascii_letter c" | r where "c = CHR ''#'' # r" "list_all hex_digit r" | r where "c = CHR ''0'' # CHR ''x'' # r" "list_all hex_digit r"
    using assms by (auto simp: colour_part_def prefix_def)
  then show ?thesis
    by cases (simp_all add: h lit, simp add: list_all_iff colour_char_def)
qed

lemma opacity_part_chars:
  assumes "opacity_part p"
  shows "list_all colour_char p"
proof -
  have d: "list_all is_digit r \<Longrightarrow> list_all colour_char r" for r by (simp add: list_all_iff colour_char_def)
  have lit: "colour_char (CHR ''0'')" "colour_char (CHR ''1'')" "colour_char (CHR ''.'')" by code_simp+
  have z: "list_all (\<lambda>c. c = CHR ''0'') r \<Longrightarrow> list_all colour_char r" for r using lit(1) by (induction r) simp_all
  consider "p = ''0''" | "p = ''1''" | r where "p = ''0.'' @ r" "list_all is_digit r" | r where "p = ''1.'' @ r" "list_all (\<lambda>c. c = CHR ''0'') r"
    | r where "p = ''.'' @ r" "list_all is_digit r"
    using assms by (auto simp: opacity_part_def prefix_def)
  then show ?thesis by cases (simp_all add: d z lit)
qed

text \<open>
  The font colour of an enabled text watermark the handler accepts has none of the characters that end an argument
  or a filter in a filter graph: colon, comma, semicolon, equals, brackets, bar, percent, quote and backslash.
\<close>

theorem font_colours_cannot_inject:
  assumes "wm_Validate stat (Some w) = None" and "wm_Enabled w" "wm_Type w = ''text''"
  shows "set (wm_FontColor w) \<inter> set graph_chars = {}"
proof -
  let ?t = "TrimSpace (wm_FontColor w)"
  have v: "?t = [] \<or> fontColorPattern ?t"
    using assms by (auto simp: wm_Validate_def wm_type_error_def ValidateFontColor_def Let_def split: option.splits if_splits)
  have at_ok: "colour_char (CHR ''@'')" by code_simp
  have trimmed: "list_all colour_char ?t"
  proof (cases "cut_first (CHR ''@'') ?t")
    case None
    then show ?thesis using v colour_part_chars [of ?t] by (auto simp: fontColorPattern_def)
  next
    case (Some cp)
    then obtain c p where cp: "cut_first (CHR ''@'') ?t = Some (c, p)" by (cases cp) simp
    then have "?t = c @ CHR ''@'' # p" using cut_first_Some by blast
    moreover have "colour_part c" "opacity_part p" using v cp \<open>?t = _\<close> by (auto simp: fontColorPattern_def)
    ultimately show ?thesis using colour_part_chars [of c] opacity_part_chars [of p] at_ok by simp
  qed
  obtain p q where s: "wm_FontColor w = p @ ?t @ q" "list_all is_space p" "list_all is_space q"
    using TrimSpace_split [of "wm_FontColor w"] by blast
  have "set (wm_FontColor w) = set p \<union> set ?t \<union> set q" using arg_cong [OF s(1), of set] by auto
  then show ?thesis using s(2,3) trimmed graph_chars_bad unfolding list_all_iff by blast
qed

definition clock_watermark :: WatermarkConfig where
  "clock_watermark = \<lparr>wm_Enabled = True, wm_Type = ''text'', wm_Text = ''LIVE'', wm_FontFile = [], wm_FontSize = 24,
     wm_FontColor = '' white@0.8'', wm_Filename = [], wm_ImagePath = [], wm_Opacity = 1, wm_Position = ''top_left'',
     wm_OffsetX = 0, wm_OffsetY = 0, wm_X = [], wm_Y = [], wm_Resize = False\<rparr>"

theorem font_colours_cannot_inject_witness:
  "wm_Validate (\<lambda>_. None) (Some clock_watermark) = None \<and> set (wm_FontColor clock_watermark) \<inter> set graph_chars = {}"
proof -
  have "ValidateFontColor '' white@0.8''" "TrimSpace ''LIVE'' \<noteq> []" by code_simp+
  then have v: "wm_Validate (\<lambda>_. None) (Some clock_watermark) = None"
    by (simp add: wm_Validate_def wm_type_error_def clock_watermark_def)
  show ?thesis using v font_colours_cannot_inject [OF v] by (simp add: clock_watermark_def)
qed

end
