(* ===== verification/Spec2Isabelle.thy ===== *)
theory Spec2Isabelle
  imports Failover_Props Timeline Buffer_Hub Blob_Reader Hls_Segmenter Templates Hook_Batcher Play_Sessions Stream_Diff Publisher Transcoder Stream_Fleet
begin

text \<open>
  A verification development for Open Streamer, a live media server written in Go.

  \<^bold>\<open>The program.\<close> A stream has several inputs in priority order. The stream manager
  (\<^verbatim>\<open>internal/manager\<close>) watches them and fails over; the worker of the active input writes packets through
  the timeline normaliser (\<^verbatim>\<open>internal/timeline\<close>), which puts all inputs on one clock, into the buffer hub
  (\<^verbatim>\<open>internal/buffer\<close>), which fans them out to subscribers: the transcoder, one subprocess per stream
  (\<^verbatim>\<open>internal/transcoder\<close>), which writes the rungs of a ladder into buffers of their own, the outputs the publisher
  (\<^verbatim>\<open>internal/publisher\<close>) runs, and the recorder. The coordinator (\<^verbatim>\<open>internal/coordinator\<close>) starts, stops and
  hot-reloads all of them for a stream; the administration handlers (\<^verbatim>\<open>internal/api/handler\<close>), the auto-publisher
  (\<^verbatim>\<open>internal/autopublish\<close>) and its own reconciler drive it. The HLS segmenter and the DASH packager
  (\<^verbatim>\<open>internal/publisher/dash\<close>) cut packets into segments, fragments and live playlists; the DVR
  (\<^verbatim>\<open>internal/dvr/blob\<close>) cuts them with the same queue and segmenter, archives the fragments in hour files and
  serves them again as HLS and DASH timeshift. Playback is authorized per request (\<^verbatim>\<open>internal/mediaauth\<close>) and tracked as
  sessions (\<^verbatim>\<open>internal/sessions\<close>); events reach hooks through a bus (\<^verbatim>\<open>internal/events\<close>, \<^verbatim>\<open>internal/hooks\<close>).

  \<^bold>\<open>Theories.\<close> A theory opens with what it models; definitions carry the code's names where those are free.

    \<^item> \<open>OS_Prelude\<close>, \<open>OS_Text\<close>: Go maps, division, decimal text, the locales \<open>bounded_log\<close> and
      \<open>invariant_machine\<close>. \<open>OS_Domain\<close>, \<open>OS_Media\<close>: \<^verbatim>\<open>internal/domain\<close> and the packets of the hub.
    \<^item> \<open>Stream_Manager\<close>: \<^verbatim>\<open>internal/manager/service.go\<close>, one definition per critical section.
      \<open>Failover_Machine\<close>: the interleavings of those sections as a step relation. \<open>Failover_Props\<close>: the
      engine's properties.
    \<^item> \<open>Timeline\<close>: \<^verbatim>\<open>internal/timeline/normaliser.go\<close>. \<open>Buffer_Hub\<close>: \<^verbatim>\<open>internal/buffer/service.go\<close> on an explicit
      store of ring buffers and channels; a panic is the result \<open>None\<close>.
    \<^item> \<open>Dash_Queue\<close>, \<open>Dash_Segmenter\<close>, \<open>Dash_Bytes\<close>, \<open>Dash_Manifest\<close>, \<open>Dash_Packager\<close>: \<^verbatim>\<open>frame_queue.go\<close>;
      \<^verbatim>\<open>segmenter.go\<close> and \<^verbatim>\<open>state.go\<close>; \<^verbatim>\<open>demux.go\<close> and \<^verbatim>\<open>nalu.go\<close>; \<^verbatim>\<open>manifest.go\<close> and \<^verbatim>\<open>abr.go\<close>;
      \<^verbatim>\<open>packager.go\<close> and \<^verbatim>\<open>fmp4_writer.go\<close>.
    \<^item> \<open>Blob_Format\<close>, \<open>Blob_Paths\<close>, \<open>Blob_Writer\<close>, \<open>Blob_Repair\<close>, \<open>Blob_Catalog\<close>, \<open>Blob_Reader\<close>: \<^verbatim>\<open>ranges.go\<close> and
      \<^verbatim>\<open>blobfile.go\<close>; \<^verbatim>\<open>names.go\<close> and \<^verbatim>\<open>paths.go\<close>; \<^verbatim>\<open>writer.go\<close>; \<^verbatim>\<open>recovery.go\<close>; \<^verbatim>\<open>catalog.go\<close>, \<^verbatim>\<open>retention.go\<close>
      and \<^verbatim>\<open>service.go\<close>; \<^verbatim>\<open>reader.go\<close>, \<^verbatim>\<open>hls.go\<close>, \<^verbatim>\<open>dash.go\<close> and the routes of
      \<^verbatim>\<open>internal/api/handler/blob_timeshift.go\<close>.
    \<^item> \<open>Ts_Scanner\<close>, \<open>Hls_Segmenter\<close>: \<^verbatim>\<open>internal/publisher/ts_keyframe_scanner.go\<close>, \<^verbatim>\<open>hls.go\<close> and \<^verbatim>\<open>hls_abr.go\<close>.
    \<^item> \<open>Net_Text\<close>, \<open>Go_Url\<close>: addresses, trimming and URLs as the standard library reads them. \<open>Media_Auth\<close>,
      \<open>Media_Routes\<close>: \<^verbatim>\<open>internal/mediaauth\<close>, the routes of \<^verbatim>\<open>internal/api\<close> and the authorization of its requests.
    \<^item> \<open>Templates\<close>: \<^verbatim>\<open>internal/domain/template.go\<close> and \<^verbatim>\<open>internal/autopublish\<close>. \<open>Vod_Files\<close>: \<^verbatim>\<open>internal/vod\<close> and
      \<^verbatim>\<open>internal/watermarks\<close>. \<open>Hook_Batcher\<close>: \<^verbatim>\<open>internal/hooks\<close> and \<^verbatim>\<open>internal/events\<close>. \<open>Play_Sessions\<close>:
      \<^verbatim>\<open>internal/sessions\<close>.
    \<^item> \<open>Stream_Shape\<close>, \<open>Stream_Diff\<close>: \<^verbatim>\<open>pkg/protocol\<close>, the copy and mixer checks of \<^verbatim>\<open>internal/domain\<close>, the buffer names
      of \<^verbatim>\<open>internal/buffer/rendition.go\<close>, and \<^verbatim>\<open>internal/coordinator/diff.go\<close>.
    \<^item> \<open>Publisher\<close>: the lifecycle, push retries and connection caps of \<^verbatim>\<open>internal/publisher\<close>. \<open>Transcoder\<close>:
      \<^verbatim>\<open>internal/transcoder/service.go\<close> and \<^verbatim>\<open>supervisor.go\<close> with the messages of the subprocess.
    \<^item> \<open>Coordinator\<close>: \<^verbatim>\<open>coordinator.go\<close>, \<^verbatim>\<open>abr_copy.go\<close>, \<^verbatim>\<open>abr_mixer.go\<close>, over the states of the components it calls.
      \<open>Pipeline_State\<close>: what each operation does to the parts of a stream's pipeline. \<open>Pipelines\<close>: its promises.
    \<^item> \<open>Stream_Api\<close>: \<^verbatim>\<open>internal/api/handler/stream.go\<close> and \<^verbatim>\<open>template.go\<close>, \<^verbatim>\<open>internal/domain/watermark.go\<close>.
      \<open>Stream_Fleet\<close>: requests, pushes and the reconciler as one machine, with its invariant.

  \<^bold>\<open>What is shown.\<close>

    \<^item> Failover: a tick degrades a silent input and starts the best other one; the choice does not depend on the
      order of the map; histories are bounded and switch events form a path in every reachable state of the
      concurrent machine; the exhaustion callbacks alternate. Also what goes wrong: a failed start is not
      retried, and concurrent failovers can leave the wrong worker running.
    \<^item> Timeline: output times of a track never go back within a session, the joint seed keeps the A/V offset
      of the source, the unwrapped clock follows the true one over any number of wraps.
    \<^item> Hub: no interleaving of writes, subscribes and deletes panics; a write reaches exactly the subscribers
      that have room; the first packet of a session is marked.
    \<^item> DASH: queues are bounded; a cut ends before a key frame and audio keeps up with video to a frame; any run
      of the packager, whatever writes fail, publishes a manifest whose segments exist with the listed numbers
      and times; alignment is independent of chunking; NAL and ADTS conversions lose nothing.
    \<^item> DVR: the byte formats round-trip (locale \<open>fixed_codec\<close>) and survive a crash at any byte and a
      corrupted byte; a lane never touches a closed file, and what it records is a list of fragments that
      reads back verbatim (refinement); repair keeps the durable prefix; retention ends within its budget or
      without sealed hours; a restart forgets no hour; the URIs of a rendered playlist serve exactly its window;
      a directory never leaves the storage root.
    \<^item> HLS: the live playlist lists files on disk, and the segments are a partition of the stream.
    \<^item> Access: authorization is the policy's meaning, a token opens its own stream, files are served and uploaded below
      their root only; a push becomes a stream only through the template that owns its path.
    \<^item> Hooks and sessions: no event is lost uncounted or reordered, a drain ends, sessions are accounted for.
    \<^item> Publisher and transcoder: a hot update equals a fresh start, slots are counted exactly, push attempts are bounded,
      failed runs are respawned with bounded delays, health callbacks alternate, a packet survives the subprocess.
    \<^item> Coordinator and administration: operations are all or nothing and stay in their stream; in every reachable state a
      stored stream is stopped with nothing held, runs exactly the pipeline of its resolved configuration or mirrors a
      ladder; a pass of the reconciler starts all that should run. \<open>op_ok\<close> names what this needs of a request, and the
      lemmas after the theorems show each such case going wrong in the code.

  \<^bold>\<open>Conventions.\<close> Times and durations are integers in nanoseconds, timestamps in milliseconds, as the code's
  fields say; a machine integer is a word where the code relies on wrapping (ticks, records, checksums) and an
  integer where its range cannot be left. A Go map is an association list, its order any iteration order. Errors
  are values. Loops are recursive functions with termination proofs; there is no fuel anywhere. Loops that follow the outside (runs of a subprocess, push sessions,
  batches) recur over the list of its outcomes. A library
  (codec parsing, MP4 boxes, ADTS, fragment encoding) is a record of functions, and \<open>WriteOk\<close> says which
  writes of the packager succeed. The disk of the DVR does not fail and writes are whole, except in the
  theorems about torn files. Concurrency is modelled where the code releases a lock inside an operation (the
  failover machine); elsewhere an operation under a mutex is atomic. The calendar starts in 1970.

  \<^bold>\<open>Not modelled.\<close> The transcoder's subprocess (bindings of libavcodec), the pull and push drivers of the ingestor and
  the protocol servers of the publisher (sockets and third-party protocol libraries around little logic of their own),
  the serialisation of the stores, the handlers that only read or keep records, metrics, logging and wiring. Their
  results are arguments of the definitions that use them: the outcome of a run, of a push session, of an HTTP exchange,
  of a call of the store, the decoded body of a request. Each is listed with its reason in the manifest.
\<close>

end
